(* ===== verification/Prelude.thy ===== *)
theory Prelude
  imports Main "HOL-Library.Word" "HOL-Library.Multiset"
begin

unbundle bit_operations_syntax

text \<open>
  Shared vocabulary of the development: the machine integer types of the C code, the flat byte
  memory a guest context owns (\<^verbatim>\<open>ctx->memory\<close>), the little-endian 32-bit accesses the bridges
  perform on it, \<^verbatim>\<open>memset\<close> and \<^verbatim>\<open>memcpy\<close>, and the generic lemmas on words, lists and memories
  that the component theories use.  The memory is a total function on host offsets: cell \<open>i\<close> is
  the byte at \<^verbatim>\<open>ctx->memory + i\<close>.  Cells at or beyond \<^verbatim>\<open>memory_size\<close> are host bytes outside
  the guest's linear memory, so \<open>no cell beyond memory_size changes\<close> is the memory-safety
  statement about an operation.
\<close>

section \<open>Machine integers\<close>

type_synonym u8 = "8 word"
type_synonym u16 = "16 word"
type_synonym u32 = "32 word"
type_synonym u64 = "64 word"

named_theorems mem_frame \<open>loads and reads that do not see a disjoint update\<close>
named_theorems word_nat \<open>word comparisons and arithmetic as facts about natural numbers\<close>

text \<open>Guest linear memory, as seen from \<^verbatim>\<open>ctx->memory\<close>.\<close>

type_synonym mem = "nat \<Rightarrow> u8"

definition load32 :: "mem \<Rightarrow> nat \<Rightarrow> u32" where
  "load32 m a = ucast (m a) OR push_bit 8 (ucast (m (a + 1)))
     OR push_bit 16 (ucast (m (a + 2))) OR push_bit 24 (ucast (m (a + 3)))"

definition store32 :: "mem \<Rightarrow> nat \<Rightarrow> u32 \<Rightarrow> mem" where
  "store32 m a v = m(a := ucast v,
     a + 1 := ucast (drop_bit 8 v),
     a + 2 := ucast (drop_bit 16 v),
     a + 3 := ucast (drop_bit 24 v))"

text \<open>\<^verbatim>\<open>memset(memory + a, c, n)\<close> and \<^verbatim>\<open>memcpy(memory + d, memory + s, n)\<close>.\<close>

definition mem_fill :: "mem \<Rightarrow> nat \<Rightarrow> u8 \<Rightarrow> nat \<Rightarrow> mem" where
  "mem_fill m a c n = (\<lambda>i. if a \<le> i \<and> i < a + n then c else m i)"

definition mem_copy :: "mem \<Rightarrow> nat \<Rightarrow> nat \<Rightarrow> nat \<Rightarrow> mem" where
  "mem_copy m d s n = (\<lambda>i. if d \<le> i \<and> i < d + n then m (s + (i - d)) else m i)"

text \<open>Copying a host byte string into memory.\<close>

definition mem_write :: "mem \<Rightarrow> nat \<Rightarrow> u8 list \<Rightarrow> mem" where
  "mem_write m a bs = (\<lambda>i. if a \<le> i \<and> i < a + length bs then bs ! (i - a) else m i)"

section \<open>Memory accesses\<close>

lemma load32_store32_same [simp]: "load32 (store32 m a v) a = v"
proof (rule bit_word_eqI)
  fix n assume "n < LENGTH(32)"
  then have n: "n < 32" by simp
  consider "n < 8" | "8 \<le> n \<and> n < 16" | "16 \<le> n \<and> n < 24" | "24 \<le> n"
    by linarith
  then show "bit (load32 (store32 m a v) a) n = bit v n"
    by cases (use n in \<open>auto simp: load32_def store32_def bit_simps\<close>)
qed

lemma load32_store32_other [mem_frame]:
  "b + 4 \<le> a \<or> a + 4 \<le> b \<Longrightarrow> load32 (store32 m a v) b = load32 m b"
  by (auto simp: load32_def store32_def)

lemma store32_other [mem_frame]: "i < a \<or> a + 4 \<le> i \<Longrightarrow> store32 m a v i = m i"
  by (auto simp: store32_def)

lemma load32_cong:
  "(\<And>i. a \<le> i \<Longrightarrow> i < a + 4 \<Longrightarrow> m i = m' i) \<Longrightarrow> load32 m a = load32 m' a"
  by (simp add: load32_def)

lemma mem_fill_in [simp]: "a \<le> i \<Longrightarrow> i < a + n \<Longrightarrow> mem_fill m a c n i = c"
  by (simp add: mem_fill_def)

lemma mem_fill_out [mem_frame]: "i < a \<or> a + n \<le> i \<Longrightarrow> mem_fill m a c n i = m i"
  by (auto simp: mem_fill_def)

lemma mem_copy_in [simp]: "i < n \<Longrightarrow> mem_copy m d s n (d + i) = m (s + i)"
  by (simp add: mem_copy_def)

lemma mem_copy_out [mem_frame]: "i < d \<or> d + n \<le> i \<Longrightarrow> mem_copy m d s n i = m i"
  by (auto simp: mem_copy_def)

lemma load32_mem_fill_other [mem_frame]:
  "b + 4 \<le> a \<or> a + n \<le> b \<Longrightarrow> load32 (mem_fill m a c n) b = load32 m b"
  by (rule load32_cong) (auto simp: mem_fill_def)

lemma load32_mem_copy_other [mem_frame]:
  "b + 4 \<le> d \<or> d + n \<le> b \<Longrightarrow> load32 (mem_copy m d s n) b = load32 m b"
  by (rule load32_cong) (auto simp: mem_copy_def)

lemma mem_fill_0 [simp]: "mem_fill m a c 0 = m"
  by (auto simp: mem_fill_def fun_eq_iff)

section \<open>Words as natural numbers\<close>

lemma unat_u32_lt: "unat (x :: u32) < 4294967296"
  using unsigned_less [of x] by simp

lemma u32_eq_unat [word_nat]: "(x :: u32) = y \<longleftrightarrow> unat x = unat y"
  by (simp add: word_unat_eq_iff)

lemma u32_le_unat [word_nat]: "(x :: u32) \<le> y \<longleftrightarrow> unat x \<le> unat y"
  by (simp add: word_le_nat_alt)

lemma u32_less_unat [word_nat]: "(x :: u32) < y \<longleftrightarrow> unat x < unat y"
  by (simp add: word_less_nat_alt)

lemma unat_add_u32: "unat ((x :: u32) + y) = (unat x + unat y) mod 4294967296"
  by (simp add: unat_word_ariths)

lemma unat_add_nowrap:
  "unat x + unat y < 4294967296 \<Longrightarrow> unat ((x :: u32) + y) = unat x + unat y"
  by (simp add: unat_add_u32)

lemma unat_sub_nowrap: "y \<le> (x :: u32) \<Longrightarrow> unat (x - y) = unat x - unat y"
  by (simp add: unat_sub)

lemma unat_of_nat_u32: "n < 4294967296 \<Longrightarrow> unat (of_nat n :: u32) = n"
  by (simp add: unsigned_of_nat take_bit_nat_eq_self)

lemma of_nat_unat_u32 [simp]: "(of_nat (unat (x :: u32)) :: u32) = x"
  by simp

section \<open>Masks and powers of two\<close>

lemma unat_and_mask: "unat ((x :: u32) AND mask k) = unat x mod 2 ^ k"
  by (simp add: take_bit_eq_mask [symmetric] unsigned_take_bit_eq take_bit_eq_mod [symmetric])

lemma unat_and_not_mask: "unat ((x :: u32) AND NOT (mask k)) = unat x div 2 ^ k * 2 ^ k"
proof -
  have "x AND NOT (mask k) = x - take_bit k x"
  proof -
    have "x - take_bit k x = x AND NOT (take_bit k x)"
      by (rule disjunctive_diff) (simp add: bit_take_bit_iff)
    also have "\<dots> = x AND NOT (mask k)"
      by (rule bit_word_eqI) (auto simp: bit_simps)
    finally show ?thesis ..
  qed
  moreover have t: "unat (take_bit k x) = unat x mod 2 ^ k"
    using unat_and_mask [of x k] by (simp add: take_bit_eq_mask)
  then have "take_bit k x \<le> x" by (simp add: word_le_nat_alt)
  ultimately show ?thesis using t by (simp add: unat_sub minus_mod_eq_div_mult)
qed

lemma pow2_nat: "n \<noteq> 0 \<Longrightarrow> n AND (n - 1) = (0 :: nat) \<Longrightarrow> \<exists>k. n = 2 ^ k"
proof (induction n rule: less_induct)
  case (less n)
  show ?case
  proof (cases "even n")
    case True
    then obtain m where n: "n = 2 * m" by blast
    then have m: "m \<noteq> 0" "m < n" using less.prems by auto
    have "n - 1 = 2 * (m - 1) + 1" using n m by linarith
    then have "n div 2 = m" "(n - 1) div 2 = m - 1" using n by simp_all
    moreover have "(n AND (n - 1)) div 2 = n div 2 AND (n - 1) div 2"
      using drop_bit_and [of 1 n "n - 1"] by (simp add: drop_bit_eq_div)
    ultimately have "(n AND (n - 1)) div 2 = m AND (m - 1)" by simp
    then have "m AND (m - 1) = 0" using less.prems by simp
    then obtain k where "m = 2 ^ k" using less.IH [OF m(2,1)] by blast
    then have "n = 2 ^ Suc k" using n by simp
    then show ?thesis by blast
  next
    case False
    then obtain m where n: "n = 2 * m + 1" by (metis oddE)
    then have "n div 2 = m" "(n - 1) div 2 = m" by simp_all
    moreover have "(n AND (n - 1)) div 2 = n div 2 AND (n - 1) div 2"
      using drop_bit_and [of 1 n "n - 1"] by (simp add: drop_bit_eq_div)
    ultimately have "(n AND (n - 1)) div 2 = m" by simp
    then have "m = 0" using less.prems by simp
    then have "n = 2 ^ 0" using n by simp
    then show ?thesis by blast
  qed
qed

lemma pow2_u32:
  assumes "(a :: u32) \<noteq> 0" and "a AND (a - 1) = 0"
  obtains k where "k < 32" and "unat a = 2 ^ k" and "a - 1 = mask k"
proof -
  have "1 \<le> a" using assms(1) by (simp add: word_le_nat_alt unat_gt_0 Suc_leI)
  then have m1: "unat (a - 1) = unat a - 1" by (simp add: unat_sub_nowrap)
  have "unat (a AND (a - 1)) = unat a AND (unat a - 1)" using m1 by (simp add: unsigned_and_eq)
  then have "unat a AND (unat a - 1) = 0" using assms(2) by simp
  then obtain k where k: "unat a = 2 ^ k" using pow2_nat assms(1) by (metis unat_eq_zero)
  have "k < 32"
  proof (rule ccontr)
    assume "\<not> k < 32"
    then have "(2 :: nat) ^ 32 \<le> 2 ^ k" by (intro power_increasing) auto
    then show False using unat_u32_lt [of a] k by simp
  qed
  moreover have "a = 2 ^ k" using k by (metis of_nat_unat_u32 of_nat_power of_nat_numeral)
  then have "a - 1 = mask k" by (simp add: mask_eq_exp_minus_1)
  ultimately show thesis using that k by blast
qed

lemma and_mask_7f: "(x :: int) AND 0x7f = x mod 128"
  using take_bit_eq_mask [of 7 x] by (simp add: take_bit_eq_mod mask_eq_exp_minus_1)

lemma and_mask_ff: "(x :: int) AND 0xff = x mod 256"
  using take_bit_eq_mask [of 8 x] by (simp add: take_bit_eq_mod mask_eq_exp_minus_1)

lemma sint_word_of_int_small:
  assumes "0 \<le> x" and "x < 2147483648"
  shows "sint (word_of_int x :: u32) = x"
  using assms by (simp add: signed_of_int signed_take_bit_int_eq_self)

section \<open>Lists\<close>

text \<open>The C idiom \<^verbatim>\<open>xs[i] = xs[--count]\<close>: slot \<open>i\<close> takes the last element and the list shrinks.\<close>

definition swap_remove :: "nat \<Rightarrow> 'a list \<Rightarrow> 'a list" where
  "swap_remove i xs = butlast (xs[i := last xs])"

lemma length_swap_remove [simp]: "length (swap_remove i xs) = length xs - 1"
  by (simp add: swap_remove_def)

lemma nth_swap_remove:
  "j < length xs - 1 \<Longrightarrow> swap_remove i xs ! j = (if j = i then last xs else xs ! j)"
  by (simp add: swap_remove_def nth_butlast)

lemma mset_swap_remove:
  assumes "i < length xs"
  shows "mset xs = add_mset (xs ! i) (mset (swap_remove i xs))"
proof -
  let ?ys = "xs[i := last xs]"
  from assms have ne: "xs \<noteq> []" and ne': "?ys \<noteq> []" by auto
  have l: "last ?ys = last xs"
    using assms ne by (simp add: last_list_update)
  have "mset ?ys = add_mset (last ?ys) (mset (butlast ?ys))"
    using ne' by (metis append_butlast_last_id add_mset_add_single union_code mset.simps)
  then have a: "mset ?ys = add_mset (last xs) (mset (swap_remove i xs))"
    by (simp add: l swap_remove_def)
  have "mset ?ys = add_mset (last xs) (mset xs - {#xs ! i#})"
    using assms by (rule mset_update)
  with a have "mset (swap_remove i xs) = mset xs - {#xs ! i#}" by simp
  with assms show ?thesis by simp
qed

lemma length_filter_swap_remove:
  assumes "i < length xs"
  shows "length (filter P xs) = length (filter P (swap_remove i xs)) + (if P (xs ! i) then 1 else 0)"
proof -
  have "length (filter P xs) = size (filter_mset P (mset xs))" by (metis mset_filter size_mset)
  also have "\<dots> = size (filter_mset P (mset (swap_remove i xs))) + (if P (xs ! i) then 1 else 0)"
    by (simp add: mset_swap_remove [OF assms] del: mset_filter)
  finally show ?thesis by (metis mset_filter size_mset)
qed

lemma sum_list_swap_remove:
  fixes f :: "'a \<Rightarrow> nat"
  assumes "i < length xs"
  shows "sum_list (map f xs) = sum_list (map f (swap_remove i xs)) + f (xs ! i)"
proof -
  have "sum_list (map f xs) = sum_mset (image_mset f (mset xs))" by (simp flip: sum_mset_sum_list)
  also have "\<dots> = sum_mset (image_mset f (mset (swap_remove i xs))) + f (xs ! i)"
    by (simp add: mset_swap_remove [OF assms] del: mset_map)
  finally show ?thesis by (simp flip: sum_mset_sum_list)
qed

lemma set_swap_remove:
  assumes "i < length xs"
  shows "set (swap_remove i xs) \<subseteq> set xs"
proof
  fix y assume "y \<in> set (swap_remove i xs)"
  then have "y \<in> set (xs[i := last xs])"
    unfolding swap_remove_def by (rule in_set_butlastD)
  moreover have "last xs \<in> set xs" using assms by (cases xs) auto
  ultimately show "y \<in> set xs"
    using set_update_subset_insert [of xs i "last xs"] by auto
qed

end
