(* ===== verification/Slots.thy ===== *)
theory Slots
  imports Prelude
begin

text \<open>
  Fixed-size tables of slots.  The virtual file table, the guest descriptor table and the process
  table all allocate the lowest free slot and give slots back by index.  The interface is stated
  once, its clients' lemmas are proved from it, and each table interprets it.
\<close>

section \<open>The first slot of a list with a property\<close>

fun find_index :: "('a \<Rightarrow> bool) \<Rightarrow> 'a list \<Rightarrow> nat option" where
  "find_index P [] = None"
| "find_index P (x # xs) = (if P x then Some 0 else map_option Suc (find_index P xs))"

lemma find_index_Some:
  "find_index P xs = Some i \<longleftrightarrow> i < length xs \<and> P (xs ! i) \<and> (\<forall>j<i. \<not> P (xs ! j))"
proof (induction xs arbitrary: i)
  case (Cons x xs)
  then show ?case
    by (cases i) (auto simp: less_Suc_eq_0_disj)
qed simp

lemma find_index_None: "find_index P xs = None \<longleftrightarrow> (\<forall>x\<in>set xs. \<not> P x)"
  by (induction xs) auto

lemma find_index_map_upd_other:
  "find_index P xs = Some i \<Longrightarrow> i \<noteq> j \<Longrightarrow> \<not> P y \<Longrightarrow> find_index P (xs[j := y]) = Some i"
  by (auto simp: find_index_Some) (metis nth_list_update_eq nth_list_update_neq list_update_beyond not_le)

lemma find_index_cong:
  "length xs = length ys \<Longrightarrow> (\<And>i. i < length xs \<Longrightarrow> P (xs ! i) = Q (ys ! i)) \<Longrightarrow>
     find_index P xs = find_index Q ys"
proof (induction xs ys rule: list_induct2')
  case (4 x xs y ys)
  have "P x = Q y" using "4.prems"(2) [of 0] by simp
  moreover have "find_index P xs = find_index Q ys"
    using "4.IH" "4.prems"(1) "4.prems"(2) [of "Suc _"] by simp
  ultimately show ?case by simp
qed simp_all

section \<open>The interface\<close>

locale slot_table =
  fixes used :: "'t \<Rightarrow> nat \<Rightarrow> bool"
    and cap :: nat
    and wf :: "'t \<Rightarrow> bool"
    and alloc :: "'t \<Rightarrow> (nat \<times> 't) option"
    and release :: "'t \<Rightarrow> nat \<Rightarrow> 't"
  assumes alloc_slot: "wf t \<Longrightarrow> alloc t = Some (i, t') \<Longrightarrow> i < cap \<and> \<not> used t i \<and> used t' i"
    and alloc_lowest: "wf t \<Longrightarrow> alloc t = Some (i, t') \<Longrightarrow> j < i \<Longrightarrow> used t j"
    and alloc_others: "wf t \<Longrightarrow> alloc t = Some (i, t') \<Longrightarrow> j \<noteq> i \<Longrightarrow> used t' j = used t j"
    and alloc_wf: "wf t \<Longrightarrow> alloc t = Some (i, t') \<Longrightarrow> wf t'"
    and alloc_full: "wf t \<Longrightarrow> alloc t = None \<Longrightarrow> i < cap \<Longrightarrow> used t i"
    and release_slot: "wf t \<Longrightarrow> i < cap \<Longrightarrow> \<not> used (release t i) i"
    and release_others: "wf t \<Longrightarrow> j \<noteq> i \<Longrightarrow> used (release t i) j = used t j"
    and release_wf: "wf t \<Longrightarrow> wf (release t i)"
begin

definition free_slots :: "'t \<Rightarrow> nat set" where
  "free_slots t = {i. i < cap \<and> \<not> used t i}"

lemma finite_free_slots: "finite (free_slots t)"
  by (rule finite_subset [of _ "{..<cap}"]) (auto simp: free_slots_def)

lemma alloc_iff_free: "wf t \<Longrightarrow> (\<exists>r. alloc t = Some r) \<longleftrightarrow> free_slots t \<noteq> {}"
proof
  assume "wf t" "\<exists>r. alloc t = Some r"
  then show "free_slots t \<noteq> {}" using alloc_slot by (fastforce simp: free_slots_def)
next
  assume "wf t" "free_slots t \<noteq> {}"
  then show "\<exists>r. alloc t = Some r" using alloc_full by (fastforce simp: free_slots_def)
qed

lemma alloc_Min:
  assumes "wf t" and "alloc t = Some (i, t')"
  shows "i = Min (free_slots t)" and "free_slots t' = free_slots t - {i}"
proof -
  have i: "i \<in> free_slots t" using alloc_slot [OF assms] by (simp add: free_slots_def)
  have "i \<le> j" if "j \<in> free_slots t" for j
    using alloc_lowest [OF assms, of j] that by (cases "j < i") (auto simp: free_slots_def)
  with i show "i = Min (free_slots t)" by (metis Min_eqI finite_free_slots)
  show "free_slots t' = free_slots t - {i}"
  proof (rule set_eqI)
    fix x show "x \<in> free_slots t' \<longleftrightarrow> x \<in> free_slots t - {i}"
      using alloc_slot [OF assms] alloc_others [OF assms, of x] by (cases "x = i") (auto simp: free_slots_def)
  qed
qed

text \<open>A slot just released is the one handed out next, unless a lower one is free.\<close>

lemma release_then_alloc:
  assumes "wf t" and "i < cap" and "\<And>j. j < i \<Longrightarrow> used t j"
  shows "\<exists>t'. alloc (release t i) = Some (i, t')"
proof -
  have w: "wf (release t i)" using assms(1) by (rule release_wf)
  have free: "i \<in> free_slots (release t i)" using release_slot [OF assms(1,2)] assms(2) by (simp add: free_slots_def)
  then obtain k t' where a: "alloc (release t i) = Some (k, t')" using alloc_iff_free [OF w] by fastforce
  have "k = i"
  proof (rule ccontr)
    assume "k \<noteq> i"
    then consider "k < i" | "i < k" by linarith
    then show False
    proof cases
      case 1
      then show False
        using alloc_slot [OF w a] release_others [OF assms(1), of k i] assms(3) [of k] by simp
    next
      case 2
      then show False using alloc_lowest [OF w a, of i] release_slot [OF assms(1,2)] by simp
    qed
  qed
  with a show ?thesis by blast
qed

end

end
