(* ===== verification/VfsFile.thy ===== *)
theory VfsFile
  imports Slots
begin

text \<open>
  The virtual file table, \<^verbatim>\<open>src/src/yos/vfs/file.c\<close>: 256 open-file records, handed out as descriptors
  from 1000 up.  A record's generated content is a byte string of its own (the host \<^verbatim>\<open>malloc\<close> behind
  it is not modelled).
\<close>

text \<open>The file-operation tables of the program; procfs is the only file system with one.\<close>

datatype fs_ops = yos_procfs_ops

record yos_file =
  in_use :: bool
  file_ops :: "fs_ops option"
  position :: nat
  dir_index :: nat
  procfs_pid :: int
  procfs_file_type :: int
  content :: "string option"
  content_length :: nat

type_synonym yos_file_table = "yos_file list"

abbreviation YOS_VFS_FD_BASE :: int where "YOS_VFS_FD_BASE \<equiv> 1000"
abbreviation YOS_MAX_VFS_FILES :: nat where "YOS_MAX_VFS_FILES \<equiv> 256"

definition zero_file :: yos_file where
  "zero_file = \<lparr> in_use = False, file_ops = None, position = 0, dir_index = 0, procfs_pid = 0,
     procfs_file_type = 0, content = None, content_length = 0 \<rparr>"

definition yos_file_table_init :: yos_file_table where
  "yos_file_table_init = replicate YOS_MAX_VFS_FILES zero_file"

definition yos_file_alloc :: "yos_file_table \<Rightarrow> int \<times> yos_file_table" where
  "yos_file_alloc table =
     (case find_index (\<lambda>f. \<not> in_use f) (take YOS_MAX_VFS_FILES table) of
        Some i \<Rightarrow> (YOS_VFS_FD_BASE + int i, table[i := zero_file\<lparr>in_use := True\<rparr>])
      | None \<Rightarrow> (- 24, table))"

definition yos_file_free :: "yos_file_table \<Rightarrow> int \<Rightarrow> yos_file_table" where
  "yos_file_free table fd =
     (if fd < YOS_VFS_FD_BASE then table
      else let idx = fd - YOS_VFS_FD_BASE in
        if idx < 0 \<or> int YOS_MAX_VFS_FILES \<le> idx then table
        else let i = nat idx; f = table ! i in
          table[i := f\<lparr>content := None, in_use := False\<rparr>])"

definition yos_file_get :: "yos_file_table \<Rightarrow> int \<Rightarrow> yos_file option" where
  "yos_file_get table fd =
     (if fd < YOS_VFS_FD_BASE then None
      else let idx = fd - YOS_VFS_FD_BASE in
        if idx < 0 \<or> int YOS_MAX_VFS_FILES \<le> idx then None
        else let f = table ! nat idx in if in_use f then Some f else None)"

definition yos_is_virtual_fd :: "int \<Rightarrow> bool" where
  "yos_is_virtual_fd fd \<longleftrightarrow> YOS_VFS_FD_BASE \<le> fd"

text \<open>Writing through the pointer \<^verbatim>\<open>yos_file_get\<close> returned.\<close>

definition file_update :: "yos_file_table \<Rightarrow> int \<Rightarrow> (yos_file \<Rightarrow> yos_file) \<Rightarrow> yos_file_table" where
  "file_update table fd g = table[nat (fd - YOS_VFS_FD_BASE) := g (table ! nat (fd - YOS_VFS_FD_BASE))]"

section \<open>The table as slots\<close>

definition file_slot_used :: "yos_file_table \<Rightarrow> nat \<Rightarrow> bool" where
  "file_slot_used table i \<longleftrightarrow> yos_file_get table (YOS_VFS_FD_BASE + int i) \<noteq> None"

definition file_slot_alloc :: "yos_file_table \<Rightarrow> (nat \<times> yos_file_table) option" where
  "file_slot_alloc table =
     (case yos_file_alloc table of (fd, table') \<Rightarrow>
        if fd < 0 then None else Some (nat (fd - YOS_VFS_FD_BASE), table'))"

definition file_slot_free :: "yos_file_table \<Rightarrow> nat \<Rightarrow> yos_file_table" where
  "file_slot_free table i = yos_file_free table (YOS_VFS_FD_BASE + int i)"

definition file_table_wf :: "yos_file_table \<Rightarrow> bool" where
  "file_table_wf table \<longleftrightarrow> length table = YOS_MAX_VFS_FILES"

lemma file_slot_used_iff:
  "file_table_wf t \<Longrightarrow> file_slot_used t i \<longleftrightarrow> i < YOS_MAX_VFS_FILES \<and> in_use (t ! i)"
  by (simp add: file_slot_used_def yos_file_get_def Let_def)

lemma file_slot_alloc_eq:
  "file_table_wf t \<Longrightarrow> file_slot_alloc t =
     map_option (\<lambda>i. (i, t[i := zero_file\<lparr>in_use := True\<rparr>])) (find_index (\<lambda>f. \<not> in_use f) t)"
  by (simp add: file_slot_alloc_def yos_file_alloc_def file_table_wf_def split: option.splits)

lemma file_slot_free_eq:
  "file_table_wf t \<Longrightarrow> file_slot_free t i = t[i := (t ! i)\<lparr>content := None, in_use := False\<rparr>]"
  by (auto simp: file_slot_free_def yos_file_free_def Let_def file_table_wf_def list_update_beyond)

lemma zero_file_used [simp]: "in_use (zero_file\<lparr>in_use := True\<rparr>)"
  by simp

interpretation vfs_slots: slot_table file_slot_used YOS_MAX_VFS_FILES file_table_wf file_slot_alloc file_slot_free
proof
  fix t :: yos_file_table and i t'
  assume wf: "file_table_wf t" and a: "file_slot_alloc t = Some (i, t')"
  then have i: "find_index (\<lambda>f. \<not> in_use f) t = Some i" and t': "t' = t[i := zero_file\<lparr>in_use := True\<rparr>]"
    by (auto simp: file_slot_alloc_eq)
  have len: "length t = YOS_MAX_VFS_FILES" using wf by (simp add: file_table_wf_def)
  show wf': "file_table_wf t'" using wf t' by (simp add: file_table_wf_def)
  show "i < YOS_MAX_VFS_FILES \<and> \<not> file_slot_used t i \<and> file_slot_used t' i"
    using i len file_slot_used_iff [OF wf', of i] by (simp add: find_index_Some file_slot_used_iff [OF wf] t')
  show "file_slot_used t j" if "j < i" for j
    using i len that by (simp add: find_index_Some file_slot_used_iff [OF wf])
  show "file_slot_used t' j = file_slot_used t j" if "j \<noteq> i" for j
    using that file_slot_used_iff [OF wf', of j] by (simp add: file_slot_used_iff [OF wf] t')
next
  fix t :: yos_file_table and i
  assume wf: "file_table_wf t"
  then have len: "length t = YOS_MAX_VFS_FILES" by (simp add: file_table_wf_def)
  show wf': "file_table_wf (file_slot_free t i)" using wf by (simp add: file_slot_free_eq file_table_wf_def)
  show "\<not> file_slot_used (file_slot_free t i) i"
    using len file_slot_used_iff [OF wf', of i] by (auto simp: file_slot_free_eq [OF wf])
  show "file_slot_used (file_slot_free t i) j = file_slot_used t j" if "j \<noteq> i" for j
    using that file_slot_used_iff [OF wf', of j] by (simp add: file_slot_used_iff [OF wf] file_slot_free_eq [OF wf])
  show "file_slot_used t i" if "file_slot_alloc t = None" "i < YOS_MAX_VFS_FILES"
    using that len by (simp add: file_slot_alloc_eq [OF wf] find_index_None file_slot_used_iff [OF wf])
qed

end
