(* ===== verification/Ctx.thy ===== *)
theory Ctx
  imports VfsFile
begin

text \<open>
  The guest execution context, \<^verbatim>\<open>struct yos_exec_ctx\<close> of \<^verbatim>\<open>src/src/yos/types.h\<close>, with the fields
  the modelled components read and write; the capacities of its tables; the errno numbers of a
  Linux host; and the pointer and errno helpers of \<^verbatim>\<open>impl/io/io-internal.h\<close> and
  \<^verbatim>\<open>impl/errno_helpers.h\<close> that every bridge goes through.
\<close>

section \<open>Capacities and error numbers\<close>

abbreviation YOS_MAX_PROCS :: nat where "YOS_MAX_PROCS \<equiv> 256"
abbreviation YOS_MAX_FREE_REGIONS :: nat where "YOS_MAX_FREE_REGIONS \<equiv> 64"
abbreviation YOS_MAX_LIVE_REGIONS :: nat where "YOS_MAX_LIVE_REGIONS \<equiv> 128"
abbreviation YOS_FD_MAX :: nat where "YOS_FD_MAX \<equiv> 256"
abbreviation PATH_MAX :: nat where "PATH_MAX \<equiv> 4096"

abbreviation ENOENT :: "'a::numeral" where "ENOENT \<equiv> 2"
abbreviation ESRCH :: "'a::numeral" where "ESRCH \<equiv> 3"
abbreviation EINTR :: "'a::numeral" where "EINTR \<equiv> 4"
abbreviation EBADF :: "'a::numeral" where "EBADF \<equiv> 9"
abbreviation ECHILD :: "'a::numeral" where "ECHILD \<equiv> 10"
abbreviation ENOMEM :: "'a::numeral" where "ENOMEM \<equiv> 12"
abbreviation EFAULT :: "'a::numeral" where "EFAULT \<equiv> 14"
abbreviation ENOTDIR :: "'a::numeral" where "ENOTDIR \<equiv> 20"
abbreviation EINVAL :: "'a::numeral" where "EINVAL \<equiv> 22"
abbreviation ERANGE :: "'a::numeral" where "ERANGE \<equiv> 34"
abbreviation EMFILE :: "'a::numeral" where "EMFILE \<equiv> 24"
abbreviation ENAMETOOLONG :: "'a::numeral" where "ENAMETOOLONG \<equiv> 36"
abbreviation ENOSYS :: "'a::numeral" where "ENOSYS \<equiv> 38"

section \<open>The context\<close>

text \<open>A region \<open>[raddr, raddr + rlen)\<close> of linear memory (\<^verbatim>\<open>struct yos_free_region\<close>).\<close>

record yos_free_region =
  raddr :: u32
  rlen :: u32

text \<open>An entry of the environment store (\<^verbatim>\<open>struct yos_env_entry\<close>).\<close>

record yos_env_entry =
  name_off :: u32
  value_off :: u32
  name_len :: u32

text \<open>
  A directory stream (\<^verbatim>\<open>struct yos_dir_slot\<close> of \<^verbatim>\<open>impl/io/dir.c\<close>).  A host \<^verbatim>\<open>DIR *\<close> is a number, the pointer to a
  virtual file is that file's descriptor, and the read-ahead buffer a memory of its own.
\<close>

record yos_dir_slot =
  dir_in_use :: bool
  host_dir :: "nat option"
  vfs_file :: "int option"
  vfs_ops :: "fs_ops option"
  scratch_off :: u32
  dd_off :: u32
  dd_fd :: int
  vfs_buf :: mem
  vfs_buf_len :: nat
  vfs_buf_pos :: nat
  vfs_exhausted :: bool

text \<open>A named pipe of the process (\<^verbatim>\<open>struct fifo_entry\<close> of \<^verbatim>\<open>impl/io/fifo.c\<close>); the linked list is a list.\<close>

record fifo_entry =
  fe_path :: string
  fe_rfd :: int
  fe_wfd :: int

text \<open>
  The context.  \<^verbatim>\<open>proc\<close> is the index of the process slot, a host \<^verbatim>\<open>FILE *\<close> a number, and the
  thread-local \<^verbatim>\<open>_nextchar\<close> of \<^verbatim>\<open>impl/libc/getopt.c\<close> a field, since each guest runs on its own host thread.
  The arrays \<^verbatim>\<open>free_list[0..free_count)\<close> and \<^verbatim>\<open>live_list[0..live_count)\<close> are lists: the slots
  at and beyond the count are never read by the code.
\<close>

record yos_exec_ctx =
  memory :: mem
  memory_size :: u32
  heap_end :: u32
  mmap_top :: u32
  free_list :: "yos_free_region list"
  live_list :: "yos_free_region list"
  alloc_lo :: u32
  alloc_hi :: u32
  alloc_free_head :: u32
  errno_off :: u32
  fd_map :: "int list"
  fd_paths :: "string option list"
  fd_table_inited :: bool
  cwd :: string
  sig_handlers :: "u32 list"
  sig_ignore_mask :: u32
  sig_mask :: u32
  sig_pending :: u32
  proc_slot :: "nat option"
  is_child :: bool
  is_forkpty_child :: bool
  file_slots :: "nat option list"
  file_wfds :: "int list"
  file_modes :: "string list"
  stderr_written_since_exec :: bool
  last_failed_exec_path :: string
  last_failed_exec_errno :: int
  procfs_fds :: "yos_file_table option"
  envp :: "string list option"
  env_entries :: "yos_env_entry list"
  env_initialised :: bool
  optind :: int
  opterr :: int
  optopt :: int
  optarg_off :: u32
  nextchar :: nat
  umask :: u16
  dir_slots :: "yos_dir_slot list option"
  fifo_head :: "fifo_entry list"

text \<open>A freshly \<^verbatim>\<open>calloc\<close>ed context over a linear memory of the given size.\<close>

definition ctx_calloc :: "mem \<Rightarrow> u32 \<Rightarrow> yos_exec_ctx" where
  "ctx_calloc m sz = \<lparr> memory = m, memory_size = sz, heap_end = 0, mmap_top = 0,
     free_list = [], live_list = [], alloc_lo = 0, alloc_hi = 0, alloc_free_head = 0,
     errno_off = 0, fd_map = replicate YOS_FD_MAX 0, fd_paths = replicate YOS_FD_MAX None,
     fd_table_inited = False, cwd = [], sig_handlers = replicate 32 0, sig_ignore_mask = 0,
     sig_mask = 0, sig_pending = 0, proc_slot = None, is_child = False, is_forkpty_child = False,
     file_slots = replicate 256 None, file_wfds = replicate 256 0, file_modes = replicate 256 [],
     stderr_written_since_exec = False, last_failed_exec_path = [], last_failed_exec_errno = 0,
     procfs_fds = None, envp = None, env_entries = [], env_initialised = False,
     optind = 0, opterr = 0, optopt = 0, optarg_off = 0, nextchar = 0, umask = 0, dir_slots = None, fifo_head = [] \<rparr>"

section \<open>Guest pointers\<close>

text \<open>
  \<^verbatim>\<open>wptr\<close>, \<^verbatim>\<open>wptr_range\<close> and \<^verbatim>\<open>wstr_check\<close> turn a guest offset into a host pointer or NULL; a
  host pointer \<^verbatim>\<open>ctx->memory + i\<close> is \<open>Some i\<close>.
\<close>

definition wptr :: "yos_exec_ctx \<Rightarrow> u32 \<Rightarrow> nat option" where
  "wptr ctx offset =
     (if offset = 0 \<or> memory_size ctx \<le> offset then None else Some (unat offset))"

definition wptr_range :: "yos_exec_ctx \<Rightarrow> u32 \<Rightarrow> nat \<Rightarrow> nat option" where
  "wptr_range ctx offset len =
     (if len = 0 then (if offset \<le> memory_size ctx then Some (unat offset) else None)
      else if offset = 0 then None
      else if memory_size ctx \<le> offset then None
      else if unat (memory_size ctx) < unat offset + len then None
      else Some (unat offset))"

text \<open>The scan for a NUL byte in \<open>[q, endp)\<close> and the checked C string.\<close>

function nul_in :: "mem \<Rightarrow> nat \<Rightarrow> nat \<Rightarrow> bool" where
  "nul_in m q endp = (if q < endp then (if m q = 0 then True else nul_in m (Suc q) endp) else False)"
  by pat_completeness auto
termination
  by (relation "measure (\<lambda>(m, q, endp). endp - q)") auto

declare nul_in.simps [simp del]

definition wstr_check :: "yos_exec_ctx \<Rightarrow> u32 \<Rightarrow> nat option" where
  "wstr_check ctx offset =
     (if offset = 0 \<or> memory_size ctx \<le> offset then None
      else if nul_in (memory ctx) (unat offset) (unat (memory_size ctx))
      then Some (unat offset) else None)"

section \<open>Errno\<close>

text \<open>
  \<^verbatim>\<open>yos__errno_neg\<close> and \<^verbatim>\<open>yos__errno_null\<close>: write the remapped errno to the context's errno slot
  and return \<open>-1\<close>, or \<open>0\<close>.  The remapping \<^verbatim>\<open>yos_remap_errno_h2g\<close> is generated at build time and is
  the parameter \<open>h2g\<close>.
\<close>

definition set_errno :: "(int \<Rightarrow> int) \<Rightarrow> yos_exec_ctx \<Rightarrow> int \<Rightarrow> yos_exec_ctx" where
  "set_errno h2g ctx e =
     (if errno_off ctx \<noteq> 0
      then ctx\<lparr>memory := store32 (memory ctx) (unat (errno_off ctx)) (word_of_int (h2g e))\<rparr>
      else ctx)"

definition yos_errno_neg :: "(int \<Rightarrow> int) \<Rightarrow> yos_exec_ctx \<Rightarrow> int \<Rightarrow> int \<times> yos_exec_ctx" where
  "yos_errno_neg h2g ctx e = (-1, set_errno h2g ctx e)"

definition yos_errno_null :: "(int \<Rightarrow> int) \<Rightarrow> yos_exec_ctx \<Rightarrow> int \<Rightarrow> u32 \<times> yos_exec_ctx" where
  "yos_errno_null h2g ctx e = (0, set_errno h2g ctx e)"

definition yos_errno_check ::
  "(int \<Rightarrow> int) \<Rightarrow> yos_exec_ctx \<Rightarrow> int \<Rightarrow> int \<Rightarrow> int \<times> yos_exec_ctx" where
  "yos_errno_check h2g ctx rc e = (if rc < 0 then yos_errno_neg h2g ctx e else (rc, ctx))"

section \<open>Facts about guest pointers\<close>

lemma wptr_range_Some:
  assumes "wptr_range ctx off n = Some p"
  shows "p = unat off \<and> p + n \<le> unat (memory_size ctx)"
proof (cases "n = 0")
  case True
  with assms show ?thesis
    by (auto simp: wptr_range_def word_le_nat_alt split: if_splits)
next
  case False
  with assms show ?thesis
    by (auto simp: wptr_range_def not_less split: if_splits)
qed

lemma nul_in_iff: "nul_in m q endp \<longleftrightarrow> (\<exists>i. q \<le> i \<and> i < endp \<and> m i = 0)"
proof (induction m q endp rule: nul_in.induct)
  case (1 m q endp)
  show ?case
  proof (cases "q < endp \<and> m q \<noteq> 0")
    case True
    with 1 have "nul_in m q endp \<longleftrightarrow> (\<exists>i. Suc q \<le> i \<and> i < endp \<and> m i = 0)"
      by (simp add: nul_in.simps [of m q endp])
    also have "\<dots> \<longleftrightarrow> (\<exists>i. q \<le> i \<and> i < endp \<and> m i = 0)"
      using True by (metis Suc_le_eq le_neq_implies_less less_imp_le_nat)
    finally show ?thesis .
  next
    case False
    then show ?thesis by (auto simp: nul_in.simps [of m q endp])
  qed
qed

lemma wstr_check_Some_iff:
  "wstr_check ctx off = Some p \<longleftrightarrow>
     p = unat off \<and> off \<noteq> 0 \<and> off < memory_size ctx \<and>
     (\<exists>i. p \<le> i \<and> i < unat (memory_size ctx) \<and> memory ctx i = 0)"
  by (auto simp: wstr_check_def nul_in_iff not_le split: if_splits)

lemma set_errno_memory_size [simp]: "memory_size (set_errno h2g ctx e) = memory_size ctx"
  by (simp add: set_errno_def)

lemma set_errno_fields [simp]:
  "heap_end (set_errno h2g ctx e) = heap_end ctx"
  "mmap_top (set_errno h2g ctx e) = mmap_top ctx"
  "free_list (set_errno h2g ctx e) = free_list ctx"
  "live_list (set_errno h2g ctx e) = live_list ctx"
  "fd_map (set_errno h2g ctx e) = fd_map ctx"
  "fd_paths (set_errno h2g ctx e) = fd_paths ctx"
  "fd_table_inited (set_errno h2g ctx e) = fd_table_inited ctx"
  "cwd (set_errno h2g ctx e) = cwd ctx"
  "sig_handlers (set_errno h2g ctx e) = sig_handlers ctx"
  "sig_ignore_mask (set_errno h2g ctx e) = sig_ignore_mask ctx"
  "sig_mask (set_errno h2g ctx e) = sig_mask ctx"
  "sig_pending (set_errno h2g ctx e) = sig_pending ctx"
  "errno_off (set_errno h2g ctx e) = errno_off ctx"
  by (simp_all add: set_errno_def)

end
