(* ===== verification/MemMap.thy ===== *)
theory MemMap
  imports Ctx
begin

text \<open>
  The address-space manager of \<^verbatim>\<open>impl/mem/mem.c\<close>: \<^verbatim>\<open>brk\<close>, \<^verbatim>\<open>mmap\<close>/\<^verbatim>\<open>mmap2\<close>, \<^verbatim>\<open>munmap\<close>,
  \<^verbatim>\<open>mremap\<close> and the advisory range calls, over the free list (reusable holes) and the live list
  (owned mappings) of a context.  Sums the code computes in \<^verbatim>\<open>uint64_t\<close> from 32-bit operands
  cannot overflow and are natural numbers here; sums it computes in \<^verbatim>\<open>uint32_t\<close> are word sums that
  wrap.  The calls return a 32-bit pattern: an address, or a negated errno.  Each call of the source
  holds \<^verbatim>\<open>mem_lock\<close> while it touches the lists, so it is one atomic step here.
\<close>

section \<open>Free and live regions\<close>

definition mk_region :: "u32 \<Rightarrow> u32 \<Rightarrow> yos_free_region" where
  "mk_region a l = \<lparr>raddr = a, rlen = l\<rparr>"

definition reg_end :: "yos_free_region \<Rightarrow> nat" where
  "reg_end r = unat (raddr r) + unat (rlen r)"

text \<open>The best-fit scan of \<^verbatim>\<open>find_free_region\<close>: index of the best region so far and its size.\<close>

fun best_fit :: "yos_free_region list \<Rightarrow> u32 \<Rightarrow> nat \<Rightarrow> nat option \<Rightarrow> u32 \<Rightarrow> nat option" where
  "best_fit [] n i best best_size = best"
| "best_fit (r # rs) n i best best_size =
     (if n \<le> rlen r \<and> rlen r < best_size then best_fit rs n (Suc i) (Some i) (rlen r)
      else best_fit rs n (Suc i) best best_size)"

definition find_free_region :: "yos_exec_ctx \<Rightarrow> u32 \<Rightarrow> u32 \<times> yos_exec_ctx" where
  "find_free_region ctx n =
     (case best_fit (free_list ctx) n 0 None 0xFFFFFFFF of
        None \<Rightarrow> (0, ctx)
      | Some best \<Rightarrow>
          let r = free_list ctx ! best; remaining = rlen r - n in
          if 4096 \<le> remaining
          then (raddr r, ctx\<lparr>free_list := (free_list ctx)[best := mk_region (raddr r + n) remaining]\<rparr>)
          else (raddr r, ctx\<lparr>free_list := swap_remove best (free_list ctx)\<rparr>))"

definition free_list_push_raw ::
  "yos_free_region list \<Rightarrow> u32 \<Rightarrow> u32 \<Rightarrow> yos_free_region list" where
  "free_list_push_raw xs a n =
     (if n = 0 then xs
      else if YOS_MAX_FREE_REGIONS \<le> length xs then swap_remove 0 xs @ [mk_region a n]
      else xs @ [mk_region a n])"

text \<open>
  One pass of the inner loop of \<^verbatim>\<open>add_free_region\<close>: the first region that ends where the new one
  starts, or starts where it ends (32-bit sums).
\<close>

fun merge_find :: "yos_free_region list \<Rightarrow> u32 \<Rightarrow> u32 \<Rightarrow> nat \<Rightarrow> nat option" where
  "merge_find [] a n i = None"
| "merge_find (r # rs) a n i =
     (if raddr r + rlen r = a then Some i
      else if a + n = raddr r then Some i
      else merge_find rs a n (Suc i))"

lemma merge_find_bound: "merge_find xs a n i = Some j \<Longrightarrow> i \<le> j \<and> j < i + length xs"
  by (induction xs arbitrary: i) (fastforce split: if_splits)+

text \<open>The \<^verbatim>\<open>while (merged)\<close> loop: absorb adjacent regions until none is left.\<close>

function merge_loop ::
  "u32 \<Rightarrow> u32 \<Rightarrow> yos_free_region list \<Rightarrow> u32 \<times> u32 \<times> yos_free_region list" where
  "merge_loop a n xs =
     (case merge_find xs a n 0 of
        None \<Rightarrow> (a, n, xs)
      | Some i \<Rightarrow>
          let r = xs ! i in
          if raddr r + rlen r = a then merge_loop (raddr r) (n + rlen r) (swap_remove i xs)
          else merge_loop a (n + rlen r) (swap_remove i xs))"
  by pat_completeness auto
termination
  by (relation "measure (\<lambda>(a, n, xs). length xs)") (auto dest: merge_find_bound)

declare merge_loop.simps [simp del]

definition add_free_region :: "yos_free_region list \<Rightarrow> u32 \<Rightarrow> u32 \<Rightarrow> yos_free_region list" where
  "add_free_region xs a n =
     (if n = 0 then xs
      else case merge_loop a n xs of (a', n', xs') \<Rightarrow> free_list_push_raw xs' a' n')"

definition live_add :: "yos_free_region list \<Rightarrow> u32 \<Rightarrow> u32 \<Rightarrow> yos_free_region list" where
  "live_add xs a n =
     (if n = 0 then xs
      else if YOS_MAX_LIVE_REGIONS \<le> length xs then xs
      else xs @ [mk_region a n])"

text \<open>
  The loop body \<^verbatim>\<open>carve_free_range\<close> and \<^verbatim>\<open>live_remove\<close> share: drop region \<open>i\<close> (swap-remove) and
  re-add what sticks out of \<open>[a, e)\<close> on either side with the caller's \<open>push\<close>.
\<close>

definition reg_misses :: "yos_free_region \<Rightarrow> u32 \<Rightarrow> nat \<Rightarrow> bool" where
  "reg_misses r a e \<longleftrightarrow> reg_end r \<le> unat a \<or> e \<le> unat (raddr r)"

definition carve_step ::
  "(yos_free_region list \<Rightarrow> u32 \<Rightarrow> u32 \<Rightarrow> yos_free_region list) \<Rightarrow> u32 \<Rightarrow> nat \<Rightarrow> nat \<Rightarrow>
   yos_free_region list \<Rightarrow> yos_free_region list" where
  "carve_step push a e i xs =
     (let r = xs ! i;
          ys = swap_remove i xs;
          zs = (if raddr r < a then push ys (raddr r) (a - raddr r) else ys)
      in if e < reg_end r then push zs (of_nat e) (of_nat (reg_end r - e)) else zs)"

text \<open>
  Termination of the two loops: the weight counts, over the regions that still touch the range,
  one for the region and one more if it sticks out at the upper end.
\<close>

definition carve_weight :: "u32 \<Rightarrow> nat \<Rightarrow> yos_free_region \<Rightarrow> nat" where
  "carve_weight a e r = (if reg_misses r a e then 0 else if e < reg_end r then 2 else 1)"

text \<open>
  The contract of the two \<open>push\<close> operations: append while there is room; a full table is either
  left alone (\<^verbatim>\<open>live_add\<close>) or gives up its slot 0 (\<^verbatim>\<open>free_list_push_raw\<close>).
\<close>

locale region_push =
  fixes push :: "yos_free_region list \<Rightarrow> u32 \<Rightarrow> u32 \<Rightarrow> yos_free_region list"
    and cap :: nat
  assumes cap_pos: "0 < cap"
    and push_empty: "push xs a 0 = xs"
    and push_room: "n \<noteq> 0 \<Longrightarrow> length xs < cap \<Longrightarrow> push xs a n = xs @ [mk_region a n]"
    and push_full: "n \<noteq> 0 \<Longrightarrow> cap \<le> length xs \<Longrightarrow>
      push xs a n = xs \<or> push xs a n = swap_remove 0 xs @ [mk_region a n]"
begin

lemma sum_push:
  fixes f :: "yos_free_region \<Rightarrow> nat"
  shows "sum_list (map f (push xs a n)) \<le> sum_list (map f xs) + (if n = 0 then 0 else f (mk_region a n))"
proof -
  consider "n = 0" | "n \<noteq> 0" "length xs < cap" | "n \<noteq> 0" "cap \<le> length xs" by linarith
  then show ?thesis
  proof cases
    case 1 then show ?thesis by (simp add: push_empty)
  next
    case 2 then show ?thesis by (simp add: push_room)
  next
    case 3
    with cap_pos have "0 < length xs" by linarith
    from sum_list_swap_remove [OF this, of f]
    have "sum_list (map f (swap_remove 0 xs)) \<le> sum_list (map f xs)" by simp
    with push_full [OF 3, of a] 3 show ?thesis by auto
  qed
qed

lemma carve_step_weight:
  assumes i: "i < length xs" and hit: "\<not> reg_misses (xs ! i) a e"
  shows "sum_list (map (carve_weight a e) (carve_step push a e i xs))
       < sum_list (map (carve_weight a e) xs)"
proof -
  let ?w = "carve_weight a e" and ?r = "xs ! i"
  let ?ys = "swap_remove i xs"
  define zs where "zs = (if raddr ?r < a then push ?ys (raddr ?r) (a - raddr ?r) else ?ys)"
  have left: "?w (mk_region (raddr ?r) (a - raddr ?r)) = 0" if "raddr ?r < a"
    using that by (simp add: carve_weight_def reg_misses_def reg_end_def mk_region_def
        unat_sub_nowrap word_less_nat_alt word_le_nat_alt)
  have zs: "sum_list (map ?w zs) \<le> sum_list (map ?w ?ys)"
    using sum_push [of ?w ?ys "raddr ?r" "a - raddr ?r"] left by (auto simp: zs_def split: if_splits)
  have right: "?w (mk_region (of_nat e) (of_nat (reg_end ?r - e))) \<le> 1" if "e < reg_end ?r"
  proof -
    let ?q = "mk_region (of_nat e) (of_nat (reg_end ?r - e))"
    have re: "reg_end ?r < 2 * 4294967296"
      using unat_u32_lt [of "raddr ?r"] unat_u32_lt [of "rlen ?r"] by (simp add: reg_end_def)
    have q: "reg_end ?q = e mod 4294967296 + (reg_end ?r - e) mod 4294967296"
      by (simp add: reg_end_def mk_region_def unsigned_of_nat take_bit_eq_mod)
    show ?thesis
    proof (cases "e < 4294967296")
      case True
      have "e \<le> unat (raddr ?q)"
        using True by (simp add: mk_region_def unat_of_nat_u32)
      then show ?thesis by (simp add: carve_weight_def reg_misses_def)
    next
      case False
      with that re have lt: "e - 4294967296 < 4294967296" "reg_end ?r - e < 4294967296"
        by linarith+
      from False lt(1) have "e mod 4294967296 = e - 4294967296" by (simp add: le_mod_geq)
      with False that re lt(2) q have "reg_end ?q \<le> e" by simp
      then show ?thesis by (simp add: carve_weight_def)
    qed
  qed
  have step: "sum_list (map ?w (carve_step push a e i xs))
      \<le> sum_list (map ?w ?ys) + (if e < reg_end ?r then 1 else 0)"
    using zs right sum_push [of ?w zs "of_nat e" "of_nat (reg_end ?r - e)"]
    by (auto simp: carve_step_def Let_def zs_def [symmetric] split: if_splits)
  have "?w ?r = (if e < reg_end ?r then 2 else 1)" using hit by (simp add: carve_weight_def)
  with step sum_list_swap_remove [OF i, of ?w] show ?thesis by (auto split: if_splits)
qed

end

interpretation free_push: region_push free_list_push_raw YOS_MAX_FREE_REGIONS
  by unfold_locales (auto simp: free_list_push_raw_def)

interpretation live_push: region_push live_add YOS_MAX_LIVE_REGIONS
  by unfold_locales (auto simp: live_add_def)

function carve_free_loop ::
  "u32 \<Rightarrow> nat \<Rightarrow> nat \<Rightarrow> yos_free_region list \<Rightarrow> yos_free_region list" where
  "carve_free_loop a e i xs =
     (if i < length xs then
        if reg_misses (xs ! i) a e then carve_free_loop a e (Suc i) xs
        else carve_free_loop a e i (carve_step free_list_push_raw a e i xs)
      else xs)"
  by pat_completeness auto
termination
  by (relation "measures [\<lambda>(a, e, i, xs). sum_list (map (carve_weight a e) xs),
        \<lambda>(a, e, i, xs). length xs - i]") (auto intro: free_push.carve_step_weight)

function live_remove_loop ::
  "u32 \<Rightarrow> nat \<Rightarrow> nat \<Rightarrow> yos_free_region list \<Rightarrow> yos_free_region list" where
  "live_remove_loop a e i xs =
     (if i < length xs then
        if reg_misses (xs ! i) a e then live_remove_loop a e (Suc i) xs
        else live_remove_loop a e i (carve_step live_add a e i xs)
      else xs)"
  by pat_completeness auto
termination
  by (relation "measures [\<lambda>(a, e, i, xs). sum_list (map (carve_weight a e) xs),
        \<lambda>(a, e, i, xs). length xs - i]") (auto intro: live_push.carve_step_weight)

declare carve_free_loop.simps [simp del] live_remove_loop.simps [simp del]

definition carve_free_range :: "yos_free_region list \<Rightarrow> u32 \<Rightarrow> u32 \<Rightarrow> yos_free_region list" where
  "carve_free_range xs a n = carve_free_loop a (unat a + unat n) 0 xs"

definition live_remove :: "yos_free_region list \<Rightarrow> u32 \<Rightarrow> u32 \<Rightarrow> yos_free_region list" where
  "live_remove xs a n = live_remove_loop a (unat a + unat n) 0 xs"

definition range_overlaps :: "yos_free_region list \<Rightarrow> u32 \<Rightarrow> nat \<Rightarrow> bool" where
  "range_overlaps xs a e = list_ex (\<lambda>r. unat (raddr r) < e \<and> unat a < reg_end r) xs"

definition range_overlaps_free :: "yos_exec_ctx \<Rightarrow> u32 \<Rightarrow> u32 \<Rightarrow> bool" where
  "range_overlaps_free ctx a n = range_overlaps (free_list ctx) a (unat a + unat n)"

definition range_overlaps_live :: "yos_exec_ctx \<Rightarrow> u32 \<Rightarrow> u32 \<Rightarrow> bool" where
  "range_overlaps_live ctx a n = range_overlaps (live_list ctx) a (unat a + unat n)"

section \<open>System calls\<close>

definition yos_brk :: "yos_exec_ctx \<Rightarrow> u32 \<Rightarrow> u32 \<times> yos_exec_ctx" where
  "yos_brk ctx a =
     (if a = 0 then (heap_end ctx, ctx)
      else if memory_size ctx < a then (- ENOMEM, ctx)
      else let mmap_anchor = (if mmap_top ctx \<noteq> 0 then mmap_top ctx else memory_size ctx div 2) in
        if mmap_anchor < a then (- ENOMEM, ctx)
        else (a, ctx\<lparr>heap_end := a\<rparr>))"

text \<open>\<^verbatim>\<open>((uint64_t)len + 4095u) & ~(uint64_t)4095u\<close>.\<close>

definition page_align :: "u32 \<Rightarrow> nat" where
  "page_align n = (unat n + 4095) div 4096 * 4096"

text \<open>
  The loop of \<^verbatim>\<open>yos_munmap\<close> over the live list: zero each overlap with \<open>[a, e)\<close> and hand it to the
  free list.  The flag is \<^verbatim>\<open>freed_any\<close>.
\<close>

fun munmap_loop ::
  "yos_free_region list \<Rightarrow> u32 \<Rightarrow> nat \<Rightarrow> yos_exec_ctx \<Rightarrow> bool \<Rightarrow> yos_exec_ctx \<times> bool" where
  "munmap_loop [] a e ctx freed_any = (ctx, freed_any)"
| "munmap_loop (r # rs) a e ctx freed_any =
     (let overlap_lo = (if a < raddr r then raddr r else a);
          overlap_hi = (if reg_end r < e then reg_end r else e)
      in if overlap_hi \<le> unat overlap_lo then munmap_loop rs a e ctx freed_any
         else let overlap_len = of_nat (overlap_hi - unat overlap_lo) :: u32 in
           munmap_loop rs a e
             (ctx\<lparr>memory := mem_fill (memory ctx) (unat overlap_lo) 0 (unat overlap_len),
                  free_list := add_free_region (free_list ctx) overlap_lo overlap_len\<rparr>) True)"

definition yos_munmap :: "yos_exec_ctx \<Rightarrow> u32 \<Rightarrow> u32 \<Rightarrow> u32 \<times> yos_exec_ctx" where
  "yos_munmap ctx a n =
     (let aligned = page_align n in
      if aligned = 0 \<or> unat (memory_size ctx) < aligned \<or> unat (memory_size ctx) < unat a + aligned
      then (- EINVAL, ctx)
      else if range_overlaps_free ctx a (of_nat aligned) then (0, ctx)
      else case munmap_loop (live_list ctx) a (unat a + aligned) ctx False of
        (ctx', freed_any) \<Rightarrow>
          (0, if freed_any
              then ctx'\<lparr>live_list := live_remove (live_list ctx') a (of_nat aligned)\<rparr>
              else ctx'))"

definition check_range :: "yos_exec_ctx \<Rightarrow> u32 \<Rightarrow> u32 \<Rightarrow> u32" where
  "check_range ctx start n =
     (if n = 0 then 0
      else if memory_size ctx \<le> start \<or> memory_size ctx < n \<or>
              unat (memory_size ctx) < unat start + unat n
      then - ENOMEM else 0)"

definition yos_mprotect :: "yos_exec_ctx \<Rightarrow> u32 \<Rightarrow> u32 \<Rightarrow> u32 \<Rightarrow> u32" where
  "yos_mprotect ctx start n prot = check_range ctx start n"

definition yos_mlock :: "yos_exec_ctx \<Rightarrow> u32 \<Rightarrow> u32 \<Rightarrow> u32" where
  "yos_mlock ctx start n = check_range ctx start n"

definition yos_munlock :: "yos_exec_ctx \<Rightarrow> u32 \<Rightarrow> u32 \<Rightarrow> u32" where
  "yos_munlock ctx start n = check_range ctx start n"

definition yos_mlockall :: "yos_exec_ctx \<Rightarrow> u32 \<Rightarrow> u32" where
  "yos_mlockall ctx flags = 0"

definition yos_munlockall :: "yos_exec_ctx \<Rightarrow> u32" where
  "yos_munlockall ctx = 0"

definition yos_madvise :: "yos_exec_ctx \<Rightarrow> u32 \<Rightarrow> u32 \<Rightarrow> u32 \<Rightarrow> u32" where
  "yos_madvise ctx start n behavior = check_range ctx start n"

text \<open>The \<^verbatim>\<open>MAP_FIXED\<close> branch of \<^verbatim>\<open>yos_mmap2\<close>; \<open>n\<close> is the page-aligned length.\<close>

definition mmap2_fixed :: "yos_exec_ctx \<Rightarrow> u32 \<Rightarrow> u32 \<Rightarrow> u32 \<times> yos_exec_ctx" where
  "mmap2_fixed ctx a n =
     (if unat (memory_size ctx) < unat a + unat n then (- ENOMEM, ctx)
      else if a < heap_end ctx then (- EINVAL, ctx)
      else
        let live = live_add (live_remove (live_list ctx) a n) a n;
            free = carve_free_range (free_list ctx) a n;
            top = (if mmap_top ctx = 0 then memory_size ctx div 2 else mmap_top ctx);
            fixed_end = unat a + unat n;
            top' = (if unat top < fixed_end then of_nat fixed_end else top)
        in (a, ctx\<lparr>live_list := live, free_list := free, mmap_top := top',
                   memory := mem_fill (memory ctx) (unat a) 0 (unat n)\<rparr>))"

text \<open>The other branch: reuse a freed region, else bump \<^verbatim>\<open>mmap_top\<close>.\<close>

definition mmap2_any :: "yos_exec_ctx \<Rightarrow> u32 \<Rightarrow> u32 \<times> yos_exec_ctx" where
  "mmap2_any ctx n =
     (case find_free_region ctx n of
        (result, ctx') \<Rightarrow>
          if result \<noteq> 0 then (result, ctx'\<lparr>live_list := live_add (live_list ctx') result n\<rparr>)
          else
            let ctx'' = (if mmap_top ctx' = 0 then ctx'\<lparr>mmap_top := memory_size ctx' div 2\<rparr> else ctx')
            in if mmap_top ctx'' < heap_end ctx'' then (- ENOMEM, ctx'')
               else let r = mmap_top ctx''; new_end = unat r + unat n in
                 if unat (memory_size ctx'') < new_end then (- ENOMEM, ctx'')
                 else (r, ctx''\<lparr>mmap_top := of_nat new_end,
                               live_list := live_add (live_list ctx'') r n,
                               memory := mem_fill (memory ctx'') (unat r) 0 (unat n)\<rparr>))"

abbreviation MAP_FIXED :: u32 where "MAP_FIXED \<equiv> 0x10"

definition yos_mmap2 ::
  "yos_exec_ctx \<Rightarrow> u32 \<Rightarrow> u32 \<Rightarrow> u32 \<Rightarrow> u32 \<Rightarrow> u32 \<Rightarrow> u32 \<Rightarrow> u32 \<times> yos_exec_ctx" where
  "yos_mmap2 ctx a sz prot flags fd pgoffset =
     (if fd \<noteq> - 1 \<and> fd \<noteq> 0xffffffff then (- ENOSYS, ctx)
      else let aligned = page_align sz in
        if aligned = 0 \<or> unat (memory_size ctx) < aligned then (- ENOMEM, ctx)
        else if flags AND MAP_FIXED \<noteq> 0 \<and> a \<noteq> 0 then mmap2_fixed ctx a (of_nat aligned)
        else mmap2_any ctx (of_nat aligned))"

definition yos_mmap ::
  "yos_exec_ctx \<Rightarrow> u32 \<Rightarrow> u32 \<Rightarrow> u32 \<Rightarrow> u32 \<Rightarrow> u32 \<Rightarrow> u64 \<Rightarrow> u32 \<times> yos_exec_ctx" where
  "yos_mmap ctx a sz prot flags fd offset = yos_mmap2 ctx a sz prot flags fd 0"

definition yos_mremap ::
  "yos_exec_ctx \<Rightarrow> u32 \<Rightarrow> u32 \<Rightarrow> u32 \<Rightarrow> u32 \<Rightarrow> u32 \<Rightarrow> u32 \<times> yos_exec_ctx" where
  "yos_mremap ctx a old_len new_len flags new_addr =
     (if new_len \<le> old_len then (a, ctx)
      else case yos_mmap2 ctx 0 new_len 3 0x22 (- 1) 0 of
        (new_addr_out, ctx') \<Rightarrow>
          if sint new_addr_out < 0 then (new_addr_out, ctx')
          else (new_addr_out,
                ctx'\<lparr>memory := mem_copy (memory ctx') (unat new_addr_out) (unat a) (unat old_len)\<rparr>))"

end
