(* ===== verification/MemRegions.thy ===== *)
theory MemRegions
  imports MemMap
begin

text \<open>
  What the list operations of the address-space manager do, pointwise: for an address \<open>p\<close> and a
  region list, \<open>cover xs p\<close> counts the regions that contain \<open>p\<close>.  Every operation is characterised
  by its effect on these counts, so that disjointness of free and live regions (every count at most
  one) is linear arithmetic at each address, whatever the order of the regions in the tables.
\<close>

section \<open>Coverage counts\<close>

definition in_reg :: "nat \<Rightarrow> yos_free_region \<Rightarrow> bool" where
  "in_reg p r \<longleftrightarrow> unat (raddr r) \<le> p \<and> p < reg_end r"

definition cover :: "yos_free_region list \<Rightarrow> nat \<Rightarrow> nat" where
  "cover xs p = length (filter (in_reg p) xs)"

definition reg_ok :: "nat \<Rightarrow> yos_free_region \<Rightarrow> bool" where
  "reg_ok L r \<longleftrightarrow> raddr r \<noteq> 0 \<and> rlen r \<noteq> 0 \<and> reg_end r \<le> L"

definition regs_ok :: "nat \<Rightarrow> yos_free_region list \<Rightarrow> bool" where
  "regs_ok L xs = list_all (reg_ok L) xs"

definition reg_disj :: "yos_free_region \<Rightarrow> yos_free_region \<Rightarrow> bool" where
  "reg_disj r s \<longleftrightarrow> reg_end r \<le> unat (raddr s) \<or> reg_end s \<le> unat (raddr r)"

text \<open>The executable form of disjointness: pairwise, over a whole list.\<close>

definition disjoint_regs :: "yos_free_region list \<Rightarrow> bool" where
  "disjoint_regs xs = sorted_wrt reg_disj xs"

lemma cover_simps [simp]:
  "cover [] p = 0"
  "cover (r # xs) p = of_bool (in_reg p r) + cover xs p"
  "cover (xs @ ys) p = cover xs p + cover ys p"
  by (simp_all add: cover_def)

lemma cover_swap_remove:
  "i < length xs \<Longrightarrow> cover xs p = cover (swap_remove i xs) p + of_bool (in_reg p (xs ! i))"
  by (simp add: cover_def length_filter_swap_remove [of i xs])

lemma cover_swap_remove_le: "i < length xs \<Longrightarrow> cover (swap_remove i xs) p \<le> cover xs p"
  by (simp add: cover_swap_remove)

lemma cover_list_update:
  "i < length xs \<Longrightarrow>
     cover (xs[i := s]) p + of_bool (in_reg p (xs ! i)) = cover xs p + of_bool (in_reg p s)"
proof (induction xs arbitrary: i)
  case Nil
  then show ?case by simp
next
  case (Cons r xs)
  then show ?case by (cases i) auto
qed

lemma regs_ok_simps [simp]:
  "regs_ok L []"
  "regs_ok L (r # xs) \<longleftrightarrow> reg_ok L r \<and> regs_ok L xs"
  "regs_ok L (xs @ ys) \<longleftrightarrow> regs_ok L xs \<and> regs_ok L ys"
  by (simp_all add: regs_ok_def)

lemma regs_okD: "regs_ok L xs \<Longrightarrow> r \<in> set xs \<Longrightarrow> reg_ok L r"
  by (simp add: regs_ok_def list_all_iff)

lemma regs_ok_nth: "regs_ok L xs \<Longrightarrow> i < length xs \<Longrightarrow> reg_ok L (xs ! i)"
  by (simp add: regs_okD)

lemma regs_ok_subset: "regs_ok L xs \<Longrightarrow> set ys \<subseteq> set xs \<Longrightarrow> regs_ok L ys"
  by (auto simp: regs_ok_def list_all_iff)

lemma regs_ok_swap_remove:
  "regs_ok L xs \<Longrightarrow> i < length xs \<Longrightarrow> regs_ok L (swap_remove i xs)"
  by (rule regs_ok_subset [OF _ set_swap_remove])

lemma regs_ok_mono: "regs_ok L xs \<Longrightarrow> L \<le> L' \<Longrightarrow> regs_ok L' xs"
  by (auto simp: regs_ok_def list_all_iff reg_ok_def)

lemma cover_pos_iff: "0 < cover xs p \<longleftrightarrow> (\<exists>r\<in>set xs. in_reg p r)"
  by (induction xs) auto

lemma cover_zero_iff: "cover xs p = 0 \<longleftrightarrow> (\<forall>r\<in>set xs. \<not> in_reg p r)"
  by (metis cover_pos_iff gr0I less_numeral_extra(3))

lemma cover_beyond: "regs_ok L xs \<Longrightarrow> L \<le> p \<Longrightarrow> cover xs p = 0"
  by (fastforce simp: cover_zero_iff in_reg_def reg_ok_def dest: regs_okD)

lemma cover_0: "regs_ok L xs \<Longrightarrow> cover xs 0 = 0"
  by (fastforce simp: cover_zero_iff in_reg_def reg_ok_def unat_eq_zero dest: regs_okD)

lemma reg_disj_iff:
  assumes "rlen r \<noteq> 0" and "rlen s \<noteq> 0"
  shows "reg_disj r s \<longleftrightarrow> (\<forall>p. \<not> (in_reg p r \<and> in_reg p s))"
proof
  assume "reg_disj r s" then show "\<forall>p. \<not> (in_reg p r \<and> in_reg p s)"
    by (auto simp: reg_disj_def in_reg_def)
next
  assume *: "\<forall>p. \<not> (in_reg p r \<and> in_reg p s)"
  have "0 < unat (rlen r)" "0 < unat (rlen s)"
    using assms by (simp_all add: unat_gt_0)
  with * [rule_format, of "max (unat (raddr r)) (unat (raddr s))"]
  show "reg_disj r s" by (auto simp: reg_disj_def in_reg_def reg_end_def max_def split: if_splits)
qed

lemma disjoint_regs_iff_cover:
  "regs_ok L xs \<Longrightarrow> disjoint_regs xs \<longleftrightarrow> (\<forall>p. cover xs p \<le> 1)"
proof (induction xs)
  case Nil
  then show ?case by (simp add: disjoint_regs_def)
next
  case (Cons r xs)
  have ok: "regs_ok L xs" and r: "rlen r \<noteq> 0" using Cons.prems by (auto simp: reg_ok_def)
  have ne: "rlen s \<noteq> 0" if "s \<in> set xs" for s
    using regs_okD [OF ok that] by (simp add: reg_ok_def)
  have "disjoint_regs (r # xs) \<longleftrightarrow> (\<forall>s\<in>set xs. reg_disj r s) \<and> disjoint_regs xs"
    by (simp add: disjoint_regs_def)
  also have "\<dots> \<longleftrightarrow> (\<forall>s\<in>set xs. \<forall>p. \<not> (in_reg p r \<and> in_reg p s)) \<and> (\<forall>p. cover xs p \<le> 1)"
    using Cons.IH [OF ok] reg_disj_iff [OF r ne] by blast
  also have "\<dots> \<longleftrightarrow> (\<forall>p. in_reg p r \<longrightarrow> cover xs p = 0) \<and> (\<forall>p. cover xs p \<le> 1)"
    by (auto simp: cover_zero_iff)
  also have "\<dots> \<longleftrightarrow> (\<forall>p. cover (r # xs) p \<le> 1)"
  proof -
    have "cover (r # xs) p \<le> 1 \<longleftrightarrow> (in_reg p r \<longrightarrow> cover xs p = 0) \<and> cover xs p \<le> 1" for p
      by (cases "in_reg p r") auto
    then show ?thesis by blast
  qed
  finally show ?case .
qed

section \<open>Taking a region: best fit\<close>

lemma best_fit_spec:
  assumes "best_fit xs n i best bs = res"
  shows "(res = best \<and> (\<forall>r\<in>set xs. \<not> (n \<le> rlen r \<and> rlen r < bs))) \<or>
         (\<exists>j. j < length xs \<and> res = Some (i + j) \<and> n \<le> rlen (xs ! j) \<and> rlen (xs ! j) < bs \<and>
              (\<forall>r\<in>set xs. n \<le> rlen r \<longrightarrow> rlen (xs ! j) \<le> rlen r))"
  using assms
proof (induction xs arbitrary: i best bs)
  case Nil
  then show ?case by simp
next
  case (Cons r xs)
  show ?case
  proof (cases "n \<le> rlen r \<and> rlen r < bs")
    case True
    with Cons.prems have "best_fit xs n (Suc i) (Some i) (rlen r) = res" by simp
    from Cons.IH [OF this] show ?thesis
    proof (elim disjE exE conjE)
      assume "res = Some i" and small: "\<forall>s\<in>set xs. \<not> (n \<le> rlen s \<and> rlen s < rlen r)"
      with True show ?thesis
        by (intro disjI2 exI [of _ 0]) (auto simp: not_less)
    next
      fix j assume "j < length xs" "res = Some (Suc i + j)" "n \<le> rlen (xs ! j)"
        "rlen (xs ! j) < rlen r" "\<forall>s\<in>set xs. n \<le> rlen s \<longrightarrow> rlen (xs ! j) \<le> rlen s"
      with True show ?thesis
        by (intro disjI2 exI [of _ "Suc j"]) auto
    qed
  next
    case False
    with Cons.prems have "best_fit xs n (Suc i) best bs = res" by auto
    from Cons.IH [OF this] show ?thesis
    proof (elim disjE exE conjE)
      assume "res = best" "\<forall>s\<in>set xs. \<not> (n \<le> rlen s \<and> rlen s < bs)"
      with False show ?thesis by auto
    next
      fix j assume "j < length xs" "res = Some (Suc i + j)" "n \<le> rlen (xs ! j)"
        "rlen (xs ! j) < bs" "\<forall>s\<in>set xs. n \<le> rlen s \<longrightarrow> rlen (xs ! j) \<le> rlen s"
      with False show ?thesis
        by (intro disjI2 exI [of _ "Suc j"]) auto
    qed
  qed
qed

text \<open>The region \<^verbatim>\<open>find_free_region\<close> hands out leaves the free list, and nothing else appears on it.\<close>

lemma find_free_region_spec:
  assumes ok: "regs_ok L (free_list ctx)" and L: "L < 4294967296" and n: "n \<noteq> 0"
    and res: "find_free_region ctx n = (a, ctx')"
  obtains (none) "a = 0" "ctx' = ctx"
      "\<forall>r\<in>set (free_list ctx). \<not> (n \<le> rlen r \<and> rlen r < 0xFFFFFFFF)"
  | (found) j xs where "a \<noteq> 0" "ctx' = ctx\<lparr>free_list := xs\<rparr>" "j < length (free_list ctx)"
      "a = raddr (free_list ctx ! j)" "n \<le> rlen (free_list ctx ! j)"
      "\<forall>r\<in>set (free_list ctx). n \<le> rlen r \<longrightarrow> rlen (free_list ctx ! j) \<le> rlen r"
      "regs_ok L xs" "length xs \<le> length (free_list ctx)" "unat a + unat n \<le> L"
      "\<And>p. cover xs p + of_bool (in_reg p (mk_region a n)) \<le> cover (free_list ctx) p"
proof (cases "best_fit (free_list ctx) n 0 None 0xFFFFFFFF")
  case None
  with res best_fit_spec [OF None] none show thesis by (auto simp: find_free_region_def)
next
  case (Some b)
  let ?xs = "free_list ctx" and ?r = "free_list ctx ! b"
  from best_fit_spec [OF Some] have b: "b < length ?xs" and fits: "n \<le> rlen ?r"
    and best: "\<forall>r\<in>set ?xs. n \<le> rlen r \<longrightarrow> rlen ?r \<le> rlen r" by auto
  from regs_ok_nth [OF ok b] have rok: "raddr ?r \<noteq> 0" "reg_end ?r \<le> L" by (auto simp: reg_ok_def)
  from Some res have a: "a = raddr ?r" by (auto simp: find_free_region_def Let_def split: if_splits)
  have len: "unat a + unat n \<le> L"
    using rok fits by (auto simp: a reg_end_def word_le_nat_alt)
  show thesis
  proof (cases "4096 \<le> rlen ?r - n")
    case True
    let ?s = "mk_region (raddr ?r + n) (rlen ?r - n)"
    have addr: "unat (raddr ?r + n) = unat (raddr ?r) + unat n"
      using len L by (simp add: a unat_add_nowrap)
    have send: "reg_end ?s = reg_end ?r"
      using fits addr by (simp add: reg_end_def mk_region_def unat_sub_nowrap word_le_nat_alt)
    have "rlen ?r - n \<noteq> 0" using True by auto
    moreover have "raddr ?r + n \<noteq> 0"
      using addr rok(1) by (metis add_eq_0_iff_both_eq_0 unat_eq_zero)
    ultimately have sok: "reg_ok L ?s" using rok send by (simp add: reg_ok_def mk_region_def)
    have upd: "cover (?xs[b := ?s]) p + of_bool (in_reg p ?r) = cover ?xs p + of_bool (in_reg p ?s)"
      for p using b by (rule cover_list_update)
    have split_reg: "of_bool (in_reg p ?r) = (of_bool (in_reg p (mk_region a n)) + of_bool (in_reg p ?s) :: nat)"
      for p
      using addr fits a
      by (auto simp: in_reg_def reg_end_def mk_region_def unat_sub_nowrap word_le_nat_alt of_bool_def)
    show thesis
    proof (rule found [of "?xs[b := ?s]" b])
      show "ctx' = ctx\<lparr>free_list := ?xs[b := ?s]\<rparr>"
        using res Some True by (auto simp: find_free_region_def Let_def)
      show "regs_ok L (?xs[b := ?s])"
        using ok sok by (auto simp: regs_ok_def list_all_iff dest!: set_update_subset_insert [THEN subsetD])
      show "cover (?xs[b := ?s]) p + of_bool (in_reg p (mk_region a n)) \<le> cover ?xs p" for p
        using upd [of p] split_reg [of p] by linarith
    qed (use a rok b fits best len in auto)
  next
    case False
    show thesis
    proof (rule found [of "swap_remove b ?xs" b])
      show "ctx' = ctx\<lparr>free_list := swap_remove b ?xs\<rparr>"
        using res Some False by (auto simp: find_free_region_def Let_def)
      show "cover (swap_remove b ?xs) p + of_bool (in_reg p (mk_region a n)) \<le> cover ?xs p" for p
        using cover_swap_remove [OF b, of p] fits
        by (auto simp: in_reg_def reg_end_def mk_region_def a word_le_nat_alt of_bool_def)
    qed (use a rok b fits best len ok regs_ok_swap_remove in auto)
  qed
qed

section \<open>Giving a region back: coalescing\<close>

lemma merge_find_spec:
  "merge_find xs a n i = Some j \<Longrightarrow>
     raddr (xs ! (j - i)) + rlen (xs ! (j - i)) = a \<or> a + n = raddr (xs ! (j - i))"
proof (induction xs arbitrary: i)
  case Nil
  then show ?case by simp
next
  case (Cons r xs)
  show ?case
  proof (cases "raddr r + rlen r = a \<or> a + n = raddr r")
    case True
    with Cons.prems have "j = i" by (auto split: if_splits)
    with True show ?thesis by simp
  next
    case False
    with Cons.prems have f: "merge_find xs a n (Suc i) = Some j" by auto
    then have "j - i = Suc (j - Suc i)" using merge_find_bound [OF f] by linarith
    with Cons.IH [OF f] show ?thesis by simp
  qed
qed

lemma merge_find_None:
  "merge_find xs a n i = None \<Longrightarrow> r \<in> set xs \<Longrightarrow> raddr r + rlen r \<noteq> a \<and> a + n \<noteq> raddr r"
  by (induction xs arbitrary: i) (auto split: if_splits)

text \<open>Joining two regions that touch covers exactly what they covered.\<close>

lemma reg_join:
  assumes r: "reg_ok L r" and s: "reg_ok L s" and L: "L < 4294967296"
    and touch: "raddr r + rlen r = raddr s"
  shows "reg_ok L (mk_region (raddr r) (rlen s + rlen r))"
    and "of_bool (in_reg p (mk_region (raddr r) (rlen s + rlen r)))
       = (of_bool (in_reg p r) + of_bool (in_reg p s) :: nat)"
proof -
  have e: "reg_end r \<le> L" "reg_end s \<le> L" using r s by (simp_all add: reg_ok_def)
  have "unat (raddr r + rlen r) = unat (raddr r) + unat (rlen r)"
    by (rule unat_add_nowrap) (use e L in \<open>simp add: reg_end_def\<close>)
  with touch have a: "unat (raddr s) = unat (raddr r) + unat (rlen r)" by simp
  have sum: "unat (rlen s + rlen r) = unat (rlen s) + unat (rlen r)"
    by (rule unat_add_nowrap) (use a e L in \<open>simp add: reg_end_def\<close>)
  have end_eq: "reg_end (mk_region (raddr r) (rlen s + rlen r)) = reg_end s"
    using sum a by (simp add: reg_end_def mk_region_def)
  have "0 < unat (rlen s)" using s by (simp add: reg_ok_def unat_gt_0)
  with sum have "rlen s + rlen r \<noteq> 0" by (metis add_is_0 less_irrefl unat_0)
  then show "reg_ok L (mk_region (raddr r) (rlen s + rlen r))"
    using end_eq r s by (simp add: reg_ok_def mk_region_def)
  show "of_bool (in_reg p (mk_region (raddr r) (rlen s + rlen r)))
       = (of_bool (in_reg p r) + of_bool (in_reg p s) :: nat)"
    using a sum by (auto simp: in_reg_def reg_end_def mk_region_def of_bool_def)
qed

lemma merge_loop_spec:
  assumes "regs_ok L xs" and "reg_ok L (mk_region a n)" and "L < 4294967296"
    and "merge_loop a n xs = (a', n', xs')"
  shows "regs_ok L xs' \<and> reg_ok L (mk_region a' n') \<and> length xs' \<le> length xs \<and>
    (\<forall>p. cover xs' p + of_bool (in_reg p (mk_region a' n'))
        = cover xs p + of_bool (in_reg p (mk_region a n))) \<and>
    (\<forall>r\<in>set xs'. raddr r + rlen r \<noteq> a' \<and> a' + n' \<noteq> raddr r)"
  using assms
proof (induction a n xs rule: merge_loop.induct)
  case (1 a n xs)
  show ?case
  proof (cases "merge_find xs a n 0")
    case None
    with 1 show ?thesis
      by (auto simp: merge_loop.simps [of a n xs] dest: merge_find_None)
  next
    case (Some i)
    let ?r = "xs ! i" and ?xs = "swap_remove i xs"
    from merge_find_bound [OF Some] have i: "i < length xs" by simp
    have r: "reg_ok L ?r" using 1(3) i by (rule regs_ok_nth)
    have ok': "regs_ok L ?xs" using 1(3) i by (rule regs_ok_swap_remove)
    show ?thesis
    proof (cases "raddr ?r + rlen ?r = a")
      case True
      note join = reg_join [OF r 1(4) 1(5), unfolded mk_region_def, simplified, OF True]
      have "merge_loop (raddr ?r) (n + rlen ?r) ?xs = (a', n', xs')"
        using 1(6) Some True by (simp add: merge_loop.simps [of a n xs] Let_def)
      from 1(1) [OF Some refl True ok' _ 1(5) this] join
      show ?thesis using cover_swap_remove [OF i] by (fastforce simp: mk_region_def)
    next
      case False
      with merge_find_spec [OF Some] have t: "a + n = raddr ?r" by simp
      note join = reg_join [OF 1(4) r 1(5), unfolded mk_region_def, simplified, OF t]
      have "merge_loop a (n + rlen ?r) ?xs = (a', n', xs')"
        using 1(6) Some False by (simp add: merge_loop.simps [of a n xs] Let_def)
      from 1(2) [OF Some refl False ok' _ 1(5) this] join
      show ?thesis using cover_swap_remove [OF i] by (fastforce simp: mk_region_def add.commute)
    qed
  qed
qed

lemma push_raw_spec:
  assumes "regs_ok L xs" and "reg_ok L (mk_region a n)" and "length xs \<le> YOS_MAX_FREE_REGIONS"
  shows "regs_ok L (free_list_push_raw xs a n)"
    and "length (free_list_push_raw xs a n) \<le> YOS_MAX_FREE_REGIONS"
    and "cover (free_list_push_raw xs a n) p \<le> cover xs p + of_bool (in_reg p (mk_region a n))"
    and "length xs < YOS_MAX_FREE_REGIONS \<Longrightarrow>
      cover (free_list_push_raw xs a n) p = cover xs p + of_bool (in_reg p (mk_region a n))"
proof -
  have n: "n \<noteq> 0" using assms(2) by (simp add: reg_ok_def mk_region_def)
  have "regs_ok L (swap_remove 0 xs)" if "YOS_MAX_FREE_REGIONS \<le> length xs"
    by (rule regs_ok_swap_remove [OF assms(1)]) (use that in linarith)
  then show "regs_ok L (free_list_push_raw xs a n)"
    using assms n by (auto simp: free_list_push_raw_def)
  show "length (free_list_push_raw xs a n) \<le> YOS_MAX_FREE_REGIONS"
    using assms n by (auto simp: free_list_push_raw_def)
  show "cover (free_list_push_raw xs a n) p \<le> cover xs p + of_bool (in_reg p (mk_region a n))"
  proof -
    have "cover (swap_remove 0 xs) p \<le> cover xs p" if "YOS_MAX_FREE_REGIONS \<le> length xs"
      by (rule cover_swap_remove_le) (use that in linarith)
    with n show ?thesis by (auto simp: free_list_push_raw_def)
  qed
  show "cover (free_list_push_raw xs a n) p = cover xs p + of_bool (in_reg p (mk_region a n))"
    if "length xs < YOS_MAX_FREE_REGIONS"
    using n that by (simp add: free_list_push_raw_def)
qed

lemma add_free_region_spec:
  assumes ok: "regs_ok L xs" and new: "reg_ok L (mk_region a n)" and L: "L < 4294967296"
    and len: "length xs \<le> YOS_MAX_FREE_REGIONS"
  shows "regs_ok L (add_free_region xs a n)"
    and "length (add_free_region xs a n) \<le> YOS_MAX_FREE_REGIONS"
    and "cover (add_free_region xs a n) p \<le> cover xs p + of_bool (in_reg p (mk_region a n))"
    and "length xs < YOS_MAX_FREE_REGIONS \<Longrightarrow>
      cover (add_free_region xs a n) p = cover xs p + of_bool (in_reg p (mk_region a n))"
proof -
  obtain a' n' xs' where m: "merge_loop a n xs = (a', n', xs')" by (metis prod_cases3)
  from merge_loop_spec [OF ok new L m]
  have ok': "regs_ok L xs'" "reg_ok L (mk_region a' n')" and len': "length xs' \<le> length xs"
    and c: "\<And>p. cover xs' p + of_bool (in_reg p (mk_region a' n'))
        = cover xs p + of_bool (in_reg p (mk_region a n))" by auto
  have n: "n \<noteq> 0" using new by (simp add: reg_ok_def mk_region_def)
  have eq: "add_free_region xs a n = free_list_push_raw xs' a' n'"
    using n m by (simp add: add_free_region_def)
  note push = push_raw_spec [OF ok' order_trans [OF len' len]]
  show "regs_ok L (add_free_region xs a n)" unfolding eq by (rule push(1))
  show "length (add_free_region xs a n) \<le> YOS_MAX_FREE_REGIONS" unfolding eq by (rule push(2))
  show "cover (add_free_region xs a n) p \<le> cover xs p + of_bool (in_reg p (mk_region a n))"
    unfolding eq using push(3) [of p] c [of p] by simp
  show "cover (add_free_region xs a n) p = cover xs p + of_bool (in_reg p (mk_region a n))"
    if "length xs < YOS_MAX_FREE_REGIONS"
    unfolding eq using push(4) [of p] c [of p] len' that by simp
qed

section \<open>Carving a range out\<close>

lemma reg_misses_iff: "reg_misses r a e \<longleftrightarrow> \<not> (unat (raddr r) < e \<and> unat a < reg_end r)"
  by (auto simp: reg_misses_def)

lemma reg_missesD: "reg_misses r a e \<Longrightarrow> unat a \<le> p \<Longrightarrow> p < e \<Longrightarrow> \<not> in_reg p r"
  by (auto simp: reg_misses_def in_reg_def)

text \<open>The remainders of a region that sticks out of \<open>[a, e)\<close>.\<close>

lemma carve_left:
  assumes "reg_ok L r" and "raddr r < a" and "unat a < reg_end r"
  defines "l \<equiv> mk_region (raddr r) (a - raddr r)"
  shows "reg_ok L l" and "reg_misses l a e" and "reg_end l = unat a" and "raddr l = raddr r"
proof -
  have "unat (a - raddr r) = unat a - unat (raddr r)"
    using assms(2) by (simp add: unat_sub_nowrap)
  then show e: "reg_end l = unat a"
    using assms(2) by (simp add: l_def reg_end_def mk_region_def word_less_nat_alt)
  then show "reg_misses l a e" by (simp add: reg_misses_def)
  show "raddr l = raddr r" by (simp add: l_def mk_region_def)
  show "reg_ok L l" using assms e by (auto simp: reg_ok_def mk_region_def)
qed

lemma carve_right:
  assumes "reg_ok L r" and "e < reg_end r" and "0 < e" and "L < 4294967296"
  defines "q \<equiv> mk_region (of_nat e) (of_nat (reg_end r - e))"
  shows "reg_ok L q" and "reg_misses q a e" and "reg_end q = reg_end r" and "unat (raddr q) = e"
    and "(of_nat (reg_end r - e) :: u32) \<noteq> 0"
proof -
  have lt: "e < 4294967296" "reg_end r - e < 4294967296"
    using assms by (auto simp: reg_ok_def)
  show q: "unat (raddr q) = e" using lt by (simp add: q_def mk_region_def unat_of_nat_u32)
  have "rlen q = of_nat (reg_end r - e)"
    by (simp only: q_def mk_region_def yos_free_region.select_convs)
  then have "unat (rlen q) = reg_end r - e" using unat_of_nat_u32 [OF lt(2)] by (simp only:)
  with q assms(2) show e: "reg_end q = reg_end r" by (simp add: reg_end_def [of q])
  show "reg_misses q a e" using q by (simp add: reg_misses_def)
  show n: "(of_nat (reg_end r - e) :: u32) \<noteq> 0"
    using unat_of_nat_u32 [OF lt(2)] assms(2) by (metis unat_0 zero_less_diff less_irrefl)
  have "raddr q \<noteq> 0" using q assms(3) by (metis less_irrefl unat_0)
  with n e assms(1) show "reg_ok L q" by (simp add: reg_ok_def q_def mk_region_def)
qed

context region_push
begin

lemma carve_step_spec:
  assumes i: "i < length xs" and hit: "\<not> reg_misses (xs ! i) a e"
    and ok: "regs_ok L xs" and L: "L < 4294967296" and ae: "unat a < e"
    and len: "length xs \<le> cap" and past: "\<And>j. j < i \<Longrightarrow> reg_misses (xs ! j) a e"
  shows "regs_ok L (carve_step push a e i xs)"
    and "length (carve_step push a e i xs) \<le> cap"
    and "cover (carve_step push a e i xs) p \<le> cover xs p"
    and "j < i \<Longrightarrow> j < length (carve_step push a e i xs) \<Longrightarrow>
           reg_misses (carve_step push a e i xs ! j) a e"
proof -
  let ?r = "xs ! i" and ?ys = "swap_remove i xs"
  let ?l = "mk_region (raddr ?r) (a - raddr ?r)"
  define m where "m = (of_nat (reg_end ?r - e) :: u32)"
  define b where "b = (of_nat e :: u32)"
  let ?q = "mk_region b m"
  define zs where "zs = (if raddr ?r < a then ?ys @ [?l] else ?ys)"
  let ?zs = zs
  have r: "reg_ok L ?r" using ok i by (rule regs_ok_nth)
  have hit': "unat (raddr ?r) < e" "unat a < reg_end ?r" using hit by (auto simp: reg_misses_iff)
  have ys: "regs_ok L ?ys" "length ?ys < cap" using ok i len by (auto intro: regs_ok_swap_remove)
  note left = carve_left [OF r _ hit'(2)]
  note right = carve_right [OF r _ _ L, of e, folded m_def b_def]
  have zs: "(if raddr ?r < a then push ?ys (raddr ?r) (a - raddr ?r) else ?ys) = ?zs"
    using push_room [of "a - raddr ?r" ?ys "raddr ?r"] ys(2) by (auto simp: zs_def)
  let ?res = "carve_step push a e i xs"
  have res: "?res = (if e < reg_end ?r then push ?zs b m else ?zs)"
    unfolding carve_step_def Let_def zs m_def b_def ..
  have zlen: "length ?zs \<le> cap" using ys(2) by (auto simp: zs_def)
  have zfull: "raddr ?r < a" if "length ?zs = cap" using that ys(2) by (auto simp: zs_def split: if_splits)
  have cases3: "?res = ?zs \<or> (e < reg_end ?r \<and> (?res = ?zs @ [?q] \<and> length ?zs < cap
      \<or> ?res = swap_remove 0 ?zs @ [?q] \<and> raddr ?r < a \<and> length ?zs = cap))"
  proof (cases "e < reg_end ?r")
    case True
    then have "m \<noteq> 0" using right(5) ae by simp
    with push_room [OF this, of ?zs b] push_full [OF this, of ?zs b] zlen zfull True
    show ?thesis by (cases "length ?zs < cap") (auto simp: res)
  qed (simp add: res)
  have zok: "regs_ok L ?zs" using ys(1) left(1) by (auto simp: zs_def)
  have sr: "regs_ok L (swap_remove 0 ?zs)" if "length ?zs = cap"
    by (rule regs_ok_swap_remove [OF zok]) (use that cap_pos in linarith)
  show "regs_ok L ?res"
    using cases3 zok sr right(1) ae by (auto split: if_splits)
  show "length ?res \<le> cap"
    using cases3 zlen cap_pos by auto
  have cz: "cover ?zs p + of_bool (e < reg_end ?r \<and> in_reg p ?q) \<le> cover xs p"
    using cover_swap_remove [OF i, of p] left(3,4) right(3,4) ae hit'
    by (auto simp: in_reg_def of_bool_def zs_def)
  have cs: "cover (swap_remove 0 ?zs) p \<le> cover ?zs p" if "length ?zs = cap"
    by (rule cover_swap_remove_le) (use that cap_pos in linarith)
  show "cover ?res p \<le> cover xs p"
    using cases3 cz cs by (elim disjE conjE) (simp_all split: if_splits)
  have ynth: "?ys ! j = xs ! j" if "j < i" "j < length ?ys" for j
    using that nth_swap_remove [of j xs i] by simp
  have zmiss: "reg_misses (?zs ! j) a e" if "j < i" "j < length ?zs" for j
  proof (cases "j < length ?ys")
    case True
    then have "?zs ! j = xs ! j" using ynth that by (simp add: nth_append zs_def)
    then show ?thesis using past that by simp
  next
    case False
    with that have "raddr ?r < a" "?zs ! j = ?l"
      by (auto simp: zs_def nth_append less_Suc_eq split: if_splits)
    then show ?thesis using left(2) by simp
  qed
  show "reg_misses (?res ! j) a e" if j: "j < i" "j < length ?res"
    using cases3
  proof (elim disjE conjE)
    assume "?res = ?zs" then show ?thesis using zmiss j by simp
  next
    assume "e < reg_end ?r" "?res = ?zs @ [?q]"
    then show ?thesis using zmiss j right(2) ae by (auto simp: nth_append less_Suc_eq)
  next
    assume e: "e < reg_end ?r" and a: "raddr ?r < a" and eq: "?res = swap_remove 0 ?zs @ [?q]"
    show ?thesis
    proof (cases "j < length ?zs - 1")
      case True
      then have "?res ! j = (if j = 0 then last ?zs else ?zs ! j)"
        using eq nth_swap_remove [of j ?zs 0] by (simp add: nth_append)
      moreover have "last ?zs = ?l" using a by (simp add: zs_def)
      ultimately show ?thesis using zmiss [of j] j True left(2) [OF a] by (auto split: if_splits)
    next
      case False
      with j eq have "?res ! j = ?q" by (auto simp: nth_append less_Suc_eq)
      then show ?thesis using right(2) e ae by simp
    qed
  qed
qed

end

lemma carve_free_loop_spec:
  assumes "regs_ok L xs" and "L < 4294967296" and "unat a < e"
    and "length xs \<le> YOS_MAX_FREE_REGIONS" and "\<And>j. j < i \<Longrightarrow> j < length xs \<Longrightarrow> reg_misses (xs ! j) a e"
  shows "regs_ok L (carve_free_loop a e i xs)
    \<and> length (carve_free_loop a e i xs) \<le> YOS_MAX_FREE_REGIONS
    \<and> (\<forall>p. cover (carve_free_loop a e i xs) p \<le> cover xs p)
    \<and> (\<forall>r\<in>set (carve_free_loop a e i xs). reg_misses r a e)"
  using assms
proof (induction a e i xs rule: carve_free_loop.induct)
  case (1 a e i xs)
  consider "length xs \<le> i" | "i < length xs" "reg_misses (xs ! i) a e"
    | "i < length xs" "\<not> reg_misses (xs ! i) a e" by linarith
  then show ?case
  proof cases
    case 1
    with "1.prems" show ?thesis
      by (auto simp: carve_free_loop.simps [of a e i xs] in_set_conv_nth)
  next
    case 2
    then have "\<And>j. j < Suc i \<Longrightarrow> j < length xs \<Longrightarrow> reg_misses (xs ! j) a e"
      using "1.prems"(5) by (auto simp: less_Suc_eq)
    with "1.IH"(1) [OF 2 "1.prems"(1-4)] 2 show ?thesis
      by (simp add: carve_free_loop.simps [of a e i xs])
  next
    case 3
    have past: "\<And>j. j < i \<Longrightarrow> reg_misses (xs ! j) a e" using "1.prems"(5) 3(1) by simp
    note step = free_push.carve_step_spec [OF 3 "1.prems"(1-4) past]
    from "1.IH"(2) [OF 3 step(1) "1.prems"(2,3) step(2) step(4)]
    show ?thesis using step(3) 3
      by (simp add: carve_free_loop.simps [of a e i xs]) (meson order_trans)
  qed
qed

lemma live_remove_loop_spec:
  assumes "regs_ok L xs" and "L < 4294967296" and "unat a < e"
    and "length xs \<le> YOS_MAX_LIVE_REGIONS" and "\<And>j. j < i \<Longrightarrow> j < length xs \<Longrightarrow> reg_misses (xs ! j) a e"
  shows "regs_ok L (live_remove_loop a e i xs)
    \<and> length (live_remove_loop a e i xs) \<le> YOS_MAX_LIVE_REGIONS
    \<and> (\<forall>p. cover (live_remove_loop a e i xs) p \<le> cover xs p)
    \<and> (\<forall>r\<in>set (live_remove_loop a e i xs). reg_misses r a e)"
  using assms
proof (induction a e i xs rule: live_remove_loop.induct)
  case (1 a e i xs)
  consider "length xs \<le> i" | "i < length xs" "reg_misses (xs ! i) a e"
    | "i < length xs" "\<not> reg_misses (xs ! i) a e" by linarith
  then show ?case
  proof cases
    case 1
    with "1.prems" show ?thesis
      by (auto simp: live_remove_loop.simps [of a e i xs] in_set_conv_nth)
  next
    case 2
    then have "\<And>j. j < Suc i \<Longrightarrow> j < length xs \<Longrightarrow> reg_misses (xs ! j) a e"
      using "1.prems"(5) by (auto simp: less_Suc_eq)
    with "1.IH"(1) [OF 2 "1.prems"(1-4)] 2 show ?thesis
      by (simp add: live_remove_loop.simps [of a e i xs])
  next
    case 3
    have past: "\<And>j. j < i \<Longrightarrow> reg_misses (xs ! j) a e" using "1.prems"(5) 3(1) by simp
    note step = live_push.carve_step_spec [OF 3 "1.prems"(1-4) past]
    from "1.IH"(2) [OF 3 step(1) "1.prems"(2,3) step(2) step(4)]
    show ?thesis using step(3) 3
      by (simp add: live_remove_loop.simps [of a e i xs]) (meson order_trans)
  qed
qed

lemma carve_free_range_spec:
  assumes "regs_ok L xs" and "L < 4294967296" and "n \<noteq> 0" and "length xs \<le> YOS_MAX_FREE_REGIONS"
  shows "regs_ok L (carve_free_range xs a n)"
    and "length (carve_free_range xs a n) \<le> YOS_MAX_FREE_REGIONS"
    and "cover (carve_free_range xs a n) p \<le> cover xs p"
    and "unat a \<le> p \<Longrightarrow> p < unat a + unat n \<Longrightarrow> cover (carve_free_range xs a n) p = 0"
proof -
  have "unat a < unat a + unat n" using assms(3) by (simp add: unat_gt_0)
  note spec = carve_free_loop_spec [OF assms(1,2) this assms(4), of 0, simplified]
  then show "regs_ok L (carve_free_range xs a n)"
    "length (carve_free_range xs a n) \<le> YOS_MAX_FREE_REGIONS"
    "cover (carve_free_range xs a n) p \<le> cover xs p"
    by (simp_all add: carve_free_range_def)
  show "cover (carve_free_range xs a n) p = 0" if "unat a \<le> p" "p < unat a + unat n"
    using spec that by (auto simp: carve_free_range_def cover_zero_iff dest: reg_missesD)
qed

lemma live_remove_spec:
  assumes "regs_ok L xs" and "L < 4294967296" and "n \<noteq> 0" and "length xs \<le> YOS_MAX_LIVE_REGIONS"
  shows "regs_ok L (live_remove xs a n)"
    and "length (live_remove xs a n) \<le> YOS_MAX_LIVE_REGIONS"
    and "cover (live_remove xs a n) p \<le> cover xs p"
    and "unat a \<le> p \<Longrightarrow> p < unat a + unat n \<Longrightarrow> cover (live_remove xs a n) p = 0"
proof -
  have "unat a < unat a + unat n" using assms(3) by (simp add: unat_gt_0)
  note spec = live_remove_loop_spec [OF assms(1,2) this assms(4), of 0, simplified]
  then show "regs_ok L (live_remove xs a n)"
    "length (live_remove xs a n) \<le> YOS_MAX_LIVE_REGIONS"
    "cover (live_remove xs a n) p \<le> cover xs p"
    by (simp_all add: live_remove_def)
  show "cover (live_remove xs a n) p = 0" if "unat a \<le> p" "p < unat a + unat n"
    using spec that by (auto simp: live_remove_def cover_zero_iff dest: reg_missesD)
qed

lemma live_add_spec:
  assumes "regs_ok L xs" and "reg_ok L (mk_region a n)" and "length xs \<le> YOS_MAX_LIVE_REGIONS"
  shows "regs_ok L (live_add xs a n)"
    and "length (live_add xs a n) \<le> YOS_MAX_LIVE_REGIONS"
    and "cover (live_add xs a n) p \<le> cover xs p + of_bool (in_reg p (mk_region a n))"
    and "length xs < YOS_MAX_LIVE_REGIONS \<Longrightarrow>
      cover (live_add xs a n) p = cover xs p + of_bool (in_reg p (mk_region a n))"
  using assms by (auto simp: live_add_def reg_ok_def mk_region_def)

lemma range_overlaps_iff:
  assumes "regs_ok L xs" and "unat a < e"
  shows "range_overlaps xs a e \<longleftrightarrow> (\<exists>p. unat a \<le> p \<and> p < e \<and> 0 < cover xs p)"
proof -
  have "(unat (raddr r) < e \<and> unat a < reg_end r) \<longleftrightarrow> (\<exists>p. unat a \<le> p \<and> p < e \<and> in_reg p r)"
    if "r \<in> set xs" for r
  proof -
    have "0 < unat (rlen r)" using regs_okD [OF assms(1) that] by (simp add: reg_ok_def unat_gt_0)
    then have "in_reg (max (unat a) (unat (raddr r))) r" "max (unat a) (unat (raddr r)) < e"
      if "unat (raddr r) < e \<and> unat a < reg_end r"
      using that assms(2) by (auto simp: in_reg_def reg_end_def max_def)
    then have "unat (raddr r) < e \<and> unat a < reg_end r \<Longrightarrow> \<exists>p. unat a \<le> p \<and> p < e \<and> in_reg p r"
      by (meson max.cobounded1)
    then show ?thesis by (auto simp: in_reg_def)
  qed
  then show ?thesis by (auto simp: range_overlaps_def list_ex_iff cover_pos_iff)
qed

end
