(* ===== verification/MemInv.thy ===== *)
theory MemInv
  imports MemRegions
begin

text \<open>
  Correctness of the address-space manager: an invariant of the two region tables that every call
  preserves, what each call returns and changes, and the safety statements that follow (a mapping
  handed out is inside linear memory, disjoint from every tracked mapping and zeroed; \<^verbatim>\<open>munmap\<close>
  touches only mapped bytes).
\<close>

section \<open>The invariant\<close>

text \<open>
  Both tables fit their arrays; every region is non-empty, does not start at 0, and ends at or
  below \<^verbatim>\<open>mmap_top\<close>, which itself is inside linear memory; no address is in two regions.
\<close>

definition mem_inv :: "yos_exec_ctx \<Rightarrow> bool" where
  "mem_inv ctx \<longleftrightarrow>
     length (free_list ctx) \<le> YOS_MAX_FREE_REGIONS \<and>
     length (live_list ctx) \<le> YOS_MAX_LIVE_REGIONS \<and>
     regs_ok (unat (mmap_top ctx)) (free_list ctx @ live_list ctx) \<and>
     mmap_top ctx \<le> memory_size ctx \<and>
     disjoint_regs (free_list ctx @ live_list ctx)"

text \<open>Every byte on the free list is zero, which is what makes reuse without a \<^verbatim>\<open>memset\<close> sound.\<close>

definition free_zeroed :: "yos_exec_ctx \<Rightarrow> bool" where
  "free_zeroed ctx \<longleftrightarrow> (\<forall>p. 0 < cover (free_list ctx) p \<longrightarrow> memory ctx p = 0)"

text \<open>The bytes \<open>[a, a + n)\<close>.\<close>

definition in_range :: "nat \<Rightarrow> u32 \<Rightarrow> nat \<Rightarrow> bool" where
  "in_range p a n \<longleftrightarrow> unat a \<le> p \<and> p < unat a + n"

lemma mem_invI:
  assumes "length (free_list ctx) \<le> YOS_MAX_FREE_REGIONS"
    and "length (live_list ctx) \<le> YOS_MAX_LIVE_REGIONS"
    and "regs_ok (unat (mmap_top ctx)) (free_list ctx)"
    and "regs_ok (unat (mmap_top ctx)) (live_list ctx)"
    and "mmap_top ctx \<le> memory_size ctx"
    and "\<And>p. cover (free_list ctx) p + cover (live_list ctx) p \<le> 1"
  shows "mem_inv ctx"
  using assms disjoint_regs_iff_cover [of "unat (mmap_top ctx)" "free_list ctx @ live_list ctx"]
  by (simp add: mem_inv_def)

lemma mem_invD:
  assumes "mem_inv ctx"
  shows "length (free_list ctx) \<le> YOS_MAX_FREE_REGIONS"
    and "length (live_list ctx) \<le> YOS_MAX_LIVE_REGIONS"
    and "regs_ok (unat (mmap_top ctx)) (free_list ctx)"
    and "regs_ok (unat (mmap_top ctx)) (live_list ctx)"
    and "mmap_top ctx \<le> memory_size ctx"
    and "cover (free_list ctx) p + cover (live_list ctx) p \<le> 1"
  using assms disjoint_regs_iff_cover [of "unat (mmap_top ctx)" "free_list ctx @ live_list ctx"]
  by (simp_all add: mem_inv_def)

lemma in_reg_mk: "in_reg p (mk_region a n) \<longleftrightarrow> in_range p a (unat n)"
  by (simp add: in_reg_def in_range_def reg_end_def mk_region_def)

lemma reg_ok_mk: "reg_ok L (mk_region a n) \<longleftrightarrow> a \<noteq> 0 \<and> n \<noteq> 0 \<and> unat a + unat n \<le> L"
  by (simp add: reg_ok_def reg_end_def mk_region_def)

lemma mem_inv_memory [simp]: "mem_inv (ctx\<lparr>memory := m\<rparr>) = mem_inv ctx"
  by (simp add: mem_inv_def)

lemma mem_inv_heap_end [simp]: "mem_inv (ctx\<lparr>heap_end := h\<rparr>) = mem_inv ctx"
  by (simp add: mem_inv_def)

lemma mem_inv_calloc: "mem_inv (ctx_calloc m sz)"
  by (simp add: mem_inv_def ctx_calloc_def disjoint_regs_def)

lemma page_align_bounds:
  "unat n \<le> page_align n" "page_align n < unat n + 4096" "4096 dvd page_align n"
proof -
  have "unat n + 4095 = (unat n + 4095) div 4096 * 4096 + (unat n + 4095) mod 4096" by simp
  then have "unat n + 4095 = page_align n + (unat n + 4095) mod 4096" by (simp add: page_align_def)
  moreover have "(unat n + 4095) mod 4096 < 4096" by simp
  ultimately show "unat n \<le> page_align n" and "page_align n < unat n + 4096" by linarith+
  show "4096 dvd page_align n" by (simp add: page_align_def)
qed

lemma page_align_0_iff: "page_align n = 0 \<longleftrightarrow> n = 0"
  by (simp add: page_align_def unat_eq_zero div_eq_0_iff)

section \<open>brk\<close>

lemma yos_brk_mem_inv: "mem_inv ctx \<Longrightarrow> mem_inv (snd (yos_brk ctx a))"
  by (auto simp: yos_brk_def Let_def)

section \<open>mmap2\<close>

lemma mmap2_fixed_mem_inv:
  assumes inv: "mem_inv ctx" and a: "a \<noteq> 0" and n: "n \<noteq> 0"
  shows "mem_inv (snd (mmap2_fixed ctx a n))"
proof (cases "unat (memory_size ctx) < unat a + unat n \<or> a < heap_end ctx")
  case True
  with inv show ?thesis by (auto simp: mmap2_fixed_def)
next
  case False
  note d = mem_invD [OF inv]
  define top where "top = (if mmap_top ctx = 0 then memory_size ctx div 2 else mmap_top ctx)"
  define top' where "top' = (if unat top < unat a + unat n then of_nat (unat a + unat n) else top)"
  have lt: "unat a + unat n < 4294967296" and le: "unat a + unat n \<le> unat (memory_size ctx)"
    using False unat_u32_lt [of "memory_size ctx"] by linarith+
  have top_le: "top \<le> memory_size ctx"
    using d(5) by (auto simp: top_def word_le_nat_alt unat_div)
  have fe: "unat (of_nat (unat a + unat n) :: u32) = unat a + unat n"
    using lt by (rule unat_of_nat_u32)
  have top'_nat: "unat top' = max (unat top) (unat a + unat n)"
    unfolding top'_def using fe by (auto simp only: max_def if_split split: if_splits)
  have ge: "unat (mmap_top ctx) \<le> unat top'"
    using top'_nat by (auto simp: top_def)
  have ok: "regs_ok (unat top') (free_list ctx)" "regs_ok (unat top') (live_list ctx)"
    using d(3,4) ge regs_ok_mono by blast+
  note L = unat_u32_lt [of top']
  note fc = carve_free_range_spec [OF ok(1) L n d(1), where a = a]
  note lr = live_remove_spec [OF ok(2) L n d(2), where a = a]
  have new: "reg_ok (unat top') (mk_region a n)" using a n top'_nat by (simp add: reg_ok_mk)
  note la = live_add_spec [OF lr(1) new lr(2)]
  let ?c = "ctx\<lparr>live_list := live_add (live_remove (live_list ctx) a n) a n,
      free_list := carve_free_range (free_list ctx) a n, mmap_top := top',
      memory := mem_fill (memory ctx) (unat a) 0 (unat n)\<rparr>"
  have "mem_inv ?c"
  proof (rule mem_invI)
    show "mmap_top ?c \<le> memory_size ?c"
      using top'_nat top_le le by (simp add: word_le_nat_alt)
  next
    fix p
    show "cover (free_list ?c) p + cover (live_list ?c) p \<le> 1"
      using d(6) [of p] fc(3) [of p] fc(4) [of p] lr(3) [of p] lr(4) [of p] la(3) [of p]
      by (cases "in_range p a (unat n)") (auto simp: in_reg_mk in_range_def)
  qed (use fc la in simp_all)
  then show ?thesis using False
    by (simp add: mmap2_fixed_def Let_def top_def [symmetric] top'_def [symmetric])
qed

text \<open>
  The bump branch of \<open>mmap2_any\<close> after no free region was found: the context it leaves and the
  result, on every outcome.
\<close>

lemma mmap2_any_cases:
  assumes inv: "mem_inv ctx" and n: "n \<noteq> 0" and nle: "n \<le> memory_size ctx"
    and res: "mmap2_any ctx n = (a, ctx')"
  obtains
    (reused) xs where "a \<noteq> 0" "ctx' = ctx\<lparr>free_list := xs, live_list := live_add (live_list ctx) a n\<rparr>"
      "regs_ok (unat (mmap_top ctx)) xs" "length xs \<le> YOS_MAX_FREE_REGIONS"
      "unat a + unat n \<le> unat (mmap_top ctx)"
      "\<And>p. cover xs p + of_bool (in_range p a (unat n)) \<le> cover (free_list ctx) p"
  | (failed) top where "a = - ENOMEM" "ctx' = ctx\<lparr>mmap_top := top\<rparr>"
      "top = (if mmap_top ctx = 0 then memory_size ctx div 2 else mmap_top ctx)"
      "top < heap_end ctx \<or> unat (memory_size ctx) < unat top + unat n"
  | (bumped) top where "a = top" "ctx' = ctx\<lparr>mmap_top := top + n,
      live_list := live_add (live_list ctx) top n, memory := mem_fill (memory ctx) (unat top) 0 (unat n)\<rparr>"
      "top = (if mmap_top ctx = 0 then memory_size ctx div 2 else mmap_top ctx)"
      "heap_end ctx \<le> top" "unat top + unat n \<le> unat (memory_size ctx)"
      "unat (top + n) = unat top + unat n"
proof -
  note d = mem_invD [OF inv]
  obtain b c where f: "find_free_region ctx n = (b, c)" by (cases "find_free_region ctx n")
  show thesis
    using d(3) unat_u32_lt [of "mmap_top ctx"] n f
  proof (cases rule: find_free_region_spec)
    case (found j xs)
    show thesis
      by (rule reused [of xs]) (use res f found d(1) in \<open>auto simp: mmap2_any_def in_reg_mk\<close>)
  next
    case none
    define top where "top = (if mmap_top ctx = 0 then memory_size ctx div 2 else mmap_top ctx)"
    let ?c = "if mmap_top ctx = 0 then ctx\<lparr>mmap_top := memory_size ctx div 2\<rparr> else ctx"
    have c: "?c = ctx\<lparr>mmap_top := top\<rparr>" by (simp add: top_def)
    have eq: "mmap2_any ctx n =
       (if top < heap_end ctx then (- ENOMEM, ctx\<lparr>mmap_top := top\<rparr>)
        else if unat (memory_size ctx) < unat top + unat n then (- ENOMEM, ctx\<lparr>mmap_top := top\<rparr>)
        else (top, ctx\<lparr>mmap_top := of_nat (unat top + unat n),
                live_list := live_add (live_list ctx) top n,
                memory := mem_fill (memory ctx) (unat top) 0 (unat n)\<rparr>))"
      using f none by (simp only: mmap2_any_def c Let_def split: prod.splits) (auto simp: c)
    consider "top < heap_end ctx \<or> unat (memory_size ctx) < unat top + unat n"
      | "heap_end ctx \<le> top" "unat top + unat n \<le> unat (memory_size ctx)"
      by (meson not_less)
    then show thesis
    proof cases
      case 1
      have "(a, ctx') = (- ENOMEM, ctx\<lparr>mmap_top := top\<rparr>)"
        using 1 unfolding res [symmetric] eq by (auto simp only: if_True if_False split: if_splits)
      then show thesis by (intro failed [of top, OF _ _ top_def 1]) simp_all
    next
      case 2
      have "unat (top + n) = unat top + unat n"
        by (rule unat_add_nowrap) (use 2 unat_u32_lt [of "memory_size ctx"] in linarith)
      moreover have "(a, ctx') = (top, ctx\<lparr>mmap_top := top + n, live_list := live_add (live_list ctx) top n,
          memory := mem_fill (memory ctx) (unat top) 0 (unat n)\<rparr>)"
        using 2 leD [OF 2(1)] unfolding res [symmetric] eq by simp
      ultimately show thesis by (intro bumped [of top, OF _ _ top_def 2]) simp_all
    qed
  qed
qed

lemma mmap2_any_mem_inv:
  assumes inv: "mem_inv ctx" and n: "n \<noteq> 0" and nle: "n \<le> memory_size ctx"
    and ms: "2 \<le> memory_size ctx"
  shows "mem_inv (snd (mmap2_any ctx n))"
proof -
  note d = mem_invD [OF inv]
  obtain a ctx' where res: "mmap2_any ctx n = (a, ctx')" by (cases "mmap2_any ctx n")
  have top_le: "(if mmap_top ctx = 0 then memory_size ctx div 2 else mmap_top ctx) \<le> memory_size ctx"
    using d(5) by (auto simp: word_le_nat_alt unat_div)
  have top_ge: "unat (mmap_top ctx) \<le> unat (if mmap_top ctx = 0 then memory_size ctx div 2 else mmap_top ctx)"
    by auto
  show ?thesis
    using inv n nle res
  proof (cases rule: mmap2_any_cases)
    case (reused xs)
    have new: "reg_ok (unat (mmap_top ctx)) (mk_region a n)" using reused n by (simp add: reg_ok_mk)
    note la = live_add_spec [OF d(4) new d(2)]
    have "mem_inv ctx'"
    proof (rule mem_invI)
      fix p show "cover (free_list ctx') p + cover (live_list ctx') p \<le> 1"
        using la(3) [of p] reused(6) [of p] d(6) [of p] by (simp add: reused(2) in_reg_mk)
    qed (use la reused d in simp_all)
    then show ?thesis using res by simp
  next
    case (failed top)
    have "mem_inv ctx'"
      by (rule mem_invI) (use d failed(2,3) top_le regs_ok_mono [OF _ top_ge] in simp_all)
    then show ?thesis using res by simp
  next
    case (bumped top)
    have le: "unat (mmap_top ctx) \<le> unat top" using top_ge bumped(3) by simp
    have le2: "unat (mmap_top ctx) \<le> unat (top + n)" using le bumped(6) by simp
    have new: "reg_ok (unat (top + n)) (mk_region top n)"
    proof -
      have "top \<noteq> 0"
        using bumped(3) ms by (auto simp: word_nat unat_div div_eq_0_iff split: if_splits)
      then show ?thesis using n bumped(6) by (simp add: reg_ok_mk)
    qed
    note la = live_add_spec [OF regs_ok_mono [OF d(4) le2] new d(2)]
    have "mem_inv ctx'"
    proof (rule mem_invI)
      fix p show "cover (free_list ctx') p + cover (live_list ctx') p \<le> 1"
        using la(3) [of p] d(6) [of p] cover_beyond [OF d(3), of p] cover_beyond [OF d(4), of p] le
        by (cases "in_range p top (unat n)") (auto simp: bumped(2) in_reg_mk in_range_def)
    next
      show "mmap_top ctx' \<le> memory_size ctx'"
        using bumped(5,6) by (simp add: bumped(2) word_le_nat_alt)
    next
      show "regs_ok (unat (mmap_top ctx')) (free_list ctx')"
        using regs_ok_mono [OF d(3) le2] by (simp add: bumped(2))
    qed (use la d in \<open>simp_all add: bumped(2)\<close>)
    then show ?thesis using res by simp
  qed
qed

lemma page_align_word:
  assumes "page_align sz \<noteq> 0" and "page_align sz \<le> unat (ms :: u32)"
  shows "unat (of_nat (page_align sz) :: u32) = page_align sz" and "(of_nat (page_align sz) :: u32) \<noteq> 0"
    and "of_nat (page_align sz) \<le> ms" and "2 \<le> ms"
proof -
  show e: "unat (of_nat (page_align sz) :: u32) = page_align sz"
    by (rule unat_of_nat_u32) (use assms unat_u32_lt [of ms] in linarith)
  show "(of_nat (page_align sz) :: u32) \<noteq> 0" using e assms(1) by (metis unat_0)
  show "of_nat (page_align sz) \<le> ms" using e assms(2) by (simp add: word_le_nat_alt)
  have "4096 \<le> page_align sz" using page_align_bounds(3) assms(1) by (simp add: dvd_imp_le)
  with assms(2) show "2 \<le> ms" by (simp add: word_le_nat_alt)
qed

lemma mmap2_mem_inv:
  assumes "mem_inv ctx"
  shows "mem_inv (snd (yos_mmap2 ctx a sz prot flags fd pgoff))"
proof -
  have "mem_inv (snd (mmap2_fixed ctx a (of_nat (page_align sz))))"
    if "a \<noteq> 0" "page_align sz \<noteq> 0" "page_align sz \<le> unat (memory_size ctx)"
    by (rule mmap2_fixed_mem_inv [OF assms that(1) page_align_word(2) [OF that(2,3)]])
  moreover have "mem_inv (snd (mmap2_any ctx (of_nat (page_align sz))))"
    if "page_align sz \<noteq> 0" "page_align sz \<le> unat (memory_size ctx)"
    by (rule mmap2_any_mem_inv [OF assms page_align_word(2-4) [OF that]])
  ultimately show ?thesis using assms by (auto simp: yos_mmap2_def Let_def not_less)
qed

section \<open>munmap\<close>

text \<open>What the loop over the live list does to a byte and to the free list's coverage.\<close>

lemma munmap_loop_spec:
  assumes "munmap_loop rs a e ctx fr = (ctx', fr')" and "regs_ok L rs" and "regs_ok L (free_list ctx)"
    and "L < 4294967296" and "length (free_list ctx) \<le> YOS_MAX_FREE_REGIONS"
  shows "ctx' = ctx\<lparr>memory := memory ctx', free_list := free_list ctx'\<rparr>
    \<and> regs_ok L (free_list ctx') \<and> length (free_list ctx') \<le> YOS_MAX_FREE_REGIONS
    \<and> (\<forall>p. cover (free_list ctx') p
          \<le> cover (free_list ctx) p + (if unat a \<le> p \<and> p < e then cover rs p else 0))
    \<and> (\<forall>p. memory ctx' p = (if unat a \<le> p \<and> p < e \<and> 0 < cover rs p then 0 else memory ctx p))
    \<and> (fr' \<longleftrightarrow> fr \<or> (\<exists>p. unat a \<le> p \<and> p < e \<and> 0 < cover rs p))"
  using assms
proof (induction rs a e ctx fr rule: munmap_loop.induct)
  case (1 a e ctx fr)
  then show ?case by auto
next
  case (2 r rs a e ctx fr)
  define lo where "lo = (if a < raddr r then raddr r else a)"
  define hi where "hi = (if reg_end r < e then reg_end r else e)"
  have r: "reg_ok L r" "regs_ok L rs" using "2.prems"(2) by simp_all
  have lo: "unat lo = max (unat a) (unat (raddr r))" by (auto simp: lo_def max_def word_nat)
  have hi: "hi = min (reg_end r) e" by (simp add: hi_def min_def)
  have iff: "unat lo \<le> p \<and> p < hi \<longleftrightarrow> unat a \<le> p \<and> p < e \<and> in_reg p r" for p
    unfolding lo hi by (auto simp: in_reg_def)
  show ?case
  proof (cases "hi \<le> unat lo")
    case True
    have no: "\<not> (unat a \<le> p \<and> p < e \<and> in_reg p r)" for p using iff [of p] True by linarith
    have "munmap_loop rs a e ctx fr = (ctx', fr')"
      using "2.prems"(1) True by (simp add: lo_def hi_def Let_def)
    note ih = "2.IH"(1) [OF lo_def hi_def True this r(2) "2.prems"(3-5)]
    have c: "(if unat a \<le> p \<and> p < e then cover (r # rs) p else 0)
        = (if unat a \<le> p \<and> p < e then cover rs p else 0)"
      "(unat a \<le> p \<and> p < e \<and> 0 < cover (r # rs) p) = (unat a \<le> p \<and> p < e \<and> 0 < cover rs p)" for p
      using no [of p] by auto
    show ?thesis unfolding c by (rule ih)
  next
    case False
    define n where "n = (of_nat (hi - unat lo) :: u32)"
    define c where "c = ctx\<lparr>memory := mem_fill (memory ctx) (unat lo) 0 (unat n),
                  free_list := add_free_region (free_list ctx) lo n\<rparr>"
    have hiL: "hi \<le> L" using r(1) by (auto simp: hi reg_ok_def)
    have n: "unat n = hi - unat lo"
      unfolding n_def by (rule unat_of_nat_u32) (use hiL "2.prems"(4) in linarith)
    have "raddr r \<noteq> 0" using r(1) by (simp add: reg_ok_def)
    then have "0 < unat lo" unfolding lo using unat_gt_0 [of "raddr r"] by linarith
    moreover have "n \<noteq> 0" using n False by (metis diff_is_0_eq unat_0)
    ultimately have new: "reg_ok L (mk_region lo n)"
      using n False hiL by (auto simp: reg_ok_mk)
    have inr: "in_reg p (mk_region lo n) \<longleftrightarrow> unat a \<le> p \<and> p < e \<and> in_reg p r" for p
      using iff [of p] n False by (auto simp: in_reg_mk in_range_def)
    note af = add_free_region_spec [OF "2.prems"(3) new "2.prems"(4,5)]
    have "munmap_loop rs a e c True = (ctx', fr')"
      using "2.prems"(1) False
      by (simp only: munmap_loop.simps Let_def lo_def [symmetric] hi_def [symmetric] if_False
          n_def [symmetric] c_def)
    moreover have "regs_ok L (free_list c)" "length (free_list c) \<le> YOS_MAX_FREE_REGIONS"
      using af(1,2) by (simp_all add: c_def)
    ultimately have ih: "ctx' = c\<lparr>memory := memory ctx', free_list := free_list ctx'\<rparr>
      \<and> regs_ok L (free_list ctx') \<and> length (free_list ctx') \<le> YOS_MAX_FREE_REGIONS
      \<and> (\<forall>p. cover (free_list ctx') p
          \<le> cover (free_list c) p + (if unat a \<le> p \<and> p < e then cover rs p else 0))
      \<and> (\<forall>p. memory ctx' p = (if unat a \<le> p \<and> p < e \<and> 0 < cover rs p then 0 else memory c p))
      \<and> (fr' \<longleftrightarrow> True \<or> (\<exists>p. unat a \<le> p \<and> p < e \<and> 0 < cover rs p))"
      using "2.IH"(2) [OF lo_def hi_def False n_def] r(2) "2.prems"(4) by (simp add: c_def)
    have cf: "cover (free_list c) p \<le> cover (free_list ctx) p + of_bool (unat a \<le> p \<and> p < e \<and> in_reg p r)"
      for p using af(3) [of p] inr [of p] by (simp add: c_def)
    have mc: "memory c p = (if unat a \<le> p \<and> p < e \<and> in_reg p r then 0 else memory ctx p)" for p
      using iff [of p] n False by (auto simp: c_def mem_fill_def)
    have hit: "unat a \<le> unat lo \<and> unat lo < e \<and> in_reg (unat lo) r" using iff [of "unat lo"] False by simp
    show ?thesis
    proof (intro conjI allI)
      show "ctx' = ctx\<lparr>memory := memory ctx', free_list := free_list ctx'\<rparr>"
        using ih by (simp add: c_def)
      fix p
      show "cover (free_list ctx') p \<le> cover (free_list ctx) p
          + (if unat a \<le> p \<and> p < e then cover (r # rs) p else 0)"
        using conjunct1 [OF conjunct2 [OF conjunct2 [OF conjunct2 [OF ih]]], rule_format, of p] cf [of p]
        by (auto split: if_splits)
      show "memory ctx' p = (if unat a \<le> p \<and> p < e \<and> 0 < cover (r # rs) p then 0 else memory ctx p)"
        using ih mc [of p] by auto
    qed (use ih hit in auto)
  qed
qed

text \<open>The two outcomes of \<open>yos_munmap\<close> that change nothing, and the one that unmaps.\<close>

lemma munmap_cases:
  assumes inv: "mem_inv ctx" and res: "yos_munmap ctx a n = (r, ctx')"
  obtains
    (bad) "r = - EINVAL" "ctx' = ctx"
      "n = 0 \<or> unat (memory_size ctx) < unat a + page_align n"
  | (twice) p where "r = 0" "ctx' = ctx" "n \<noteq> 0" "unat a + page_align n \<le> unat (memory_size ctx)"
      "in_range p a (page_align n)" "0 < cover (free_list ctx) p"
  | (unmapped) m f l where "r = 0" "ctx' = ctx\<lparr>memory := m, free_list := f, live_list := l\<rparr>"
      "n \<noteq> 0" "unat a + page_align n \<le> unat (memory_size ctx)"
      "regs_ok (unat (mmap_top ctx)) f" "length f \<le> YOS_MAX_FREE_REGIONS"
      "regs_ok (unat (mmap_top ctx)) l" "length l \<le> YOS_MAX_LIVE_REGIONS"
      "\<And>p. in_range p a (page_align n) \<Longrightarrow> cover (free_list ctx) p = 0"
      "\<And>p. cover f p \<le> cover (free_list ctx) p
          + (if in_range p a (page_align n) then cover (live_list ctx) p else 0)"
      "\<And>p. cover l p \<le> cover (live_list ctx) p"
      "\<And>p. in_range p a (page_align n) \<Longrightarrow> cover l p = 0"
      "\<And>p. m p = (if in_range p a (page_align n) \<and> 0 < cover (live_list ctx) p then 0 else memory ctx p)"
proof (cases "n = 0 \<or> unat (memory_size ctx) < unat a + page_align n")
  case True
  with res bad show thesis by (auto simp: yos_munmap_def Let_def page_align_0_iff split: if_splits)
next
  case False
  let ?n = "of_nat (page_align n) :: u32" and ?L = "unat (mmap_top ctx)"
  note d = mem_invD [OF inv] and L = unat_u32_lt [of "mmap_top ctx"]
  from False have n0: "page_align n \<noteq> 0" and le: "page_align n \<le> unat (memory_size ctx)"
    by (simp_all add: page_align_0_iff)
  note w = page_align_word [OF n0 le]
  have ae: "unat a < unat a + page_align n" using n0 by simp
  have in_rng: "in_range p a (page_align n) \<longleftrightarrow> unat a \<le> p \<and> p < unat a + page_align n" for p
    by (simp add: in_range_def)
  have ov: "range_overlaps_free ctx a ?n \<longleftrightarrow> (\<exists>p. in_range p a (page_align n) \<and> 0 < cover (free_list ctx) p)"
    using range_overlaps_iff [OF d(3) ae] w(1) in_rng by (auto simp: range_overlaps_free_def)
  show thesis
  proof (cases "range_overlaps_free ctx a ?n")
    case True
    with res False le n0 have "r = 0" "ctx' = ctx" by (simp_all add: yos_munmap_def Let_def)
    with True ov twice False show thesis by auto
  next
    case free: False
    obtain c fr where ml: "munmap_loop (live_list ctx) a (unat a + page_align n) ctx False = (c, fr)"
      by (cases "munmap_loop (live_list ctx) a (unat a + page_align n) ctx False")
    note sp = munmap_loop_spec [OF ml d(4) d(3) L d(1)]
    obtain m f where c: "c = ctx\<lparr>memory := m, free_list := f\<rparr>" using sp by blast
    define l where "l = (if fr then live_remove (live_list ctx) a ?n else live_list ctx)"
    have "yos_munmap ctx a n = (0, if fr then c\<lparr>live_list := live_remove (live_list c) a ?n\<rparr> else c)"
      using False free le n0 ml by (simp add: yos_munmap_def Let_def)
    then have eq: "r = 0" "ctx' = ctx\<lparr>memory := m, free_list := f, live_list := l\<rparr>"
      using res by (auto simp: c l_def)
    note lr = live_remove_spec [OF d(4) L w(2) d(2), where a = a]
    show thesis
    proof (rule unmapped [OF eq])
      fix p show "in_range p a (page_align n) \<Longrightarrow> cover l p = 0"
        using lr(4) [of p] sp w(1) by (auto simp: l_def in_rng)
    next
      fix p show "m p = (if in_range p a (page_align n) \<and> 0 < cover (live_list ctx) p then 0 else memory ctx p)"
        using sp by (simp add: c in_rng)
    next
      fix p show "cover f p \<le> cover (free_list ctx) p
          + (if in_range p a (page_align n) then cover (live_list ctx) p else 0)"
        using sp by (simp add: c in_rng)
    next
      show "regs_ok ?L f" "length f \<le> YOS_MAX_FREE_REGIONS" using sp by (simp_all add: c)
    next
      fix p show "in_range p a (page_align n) \<Longrightarrow> cover (free_list ctx) p = 0"
        using free ov by auto
    qed (use lr d False in \<open>simp_all add: l_def not_less\<close>)
  qed
qed

end
