(* ===== verification/MemSafety.thy ===== *)
theory MemSafety
  imports MemInv
begin

text \<open>
  The promises of the address-space calls to the guest and to the host, over the invariant of
  \<open>MemInv\<close>: what \<^verbatim>\<open>mmap\<close> hands out, what \<^verbatim>\<open>munmap\<close> destroys, what a reachable address space looks
  like, and two places where the code does not do what its comments say.
\<close>

section \<open>Outcomes of mmap2\<close>

lemma mmap2_fixed_cases:
  assumes inv: "mem_inv ctx" and a: "a \<noteq> 0" and n: "n \<noteq> 0" and res: "mmap2_fixed ctx a n = (r, ctx')"
  obtains
    (error) "r = - ENOMEM \<or> r = - EINVAL" "ctx' = ctx"
  | (mapped) "r = a" "unat a + unat n \<le> unat (memory_size ctx)" "heap_end ctx \<le> a"
      "heap_end ctx' = heap_end ctx" "memory_size ctx' = memory_size ctx"
      "memory ctx' = mem_fill (memory ctx) (unat a) 0 (unat n)"
      "\<And>p. cover (free_list ctx') p \<le> cover (free_list ctx) p"
      "\<And>p. in_range p a (unat n) \<Longrightarrow> cover (free_list ctx') p = 0"
      "length (live_list ctx) < YOS_MAX_LIVE_REGIONS \<Longrightarrow>
         live_list ctx' = live_remove (live_list ctx) a n @ [mk_region a n] \<or>
         length (live_remove (live_list ctx) a n) = YOS_MAX_LIVE_REGIONS"
proof (cases "unat (memory_size ctx) < unat a + unat n \<or> a < heap_end ctx")
  case True
  with res error show thesis by (auto simp: mmap2_fixed_def split: if_splits)
next
  case False
  note d = mem_invD [OF inv] and L = unat_u32_lt [of "mmap_top ctx"]
  note fc = carve_free_range_spec [OF d(3) L n d(1), where a = a]
  note lr = live_remove_spec [OF d(4) L n d(2), where a = a]
  have la: "live_add (live_remove (live_list ctx) a n) a n = live_remove (live_list ctx) a n @ [mk_region a n]
      \<or> length (live_remove (live_list ctx) a n) = YOS_MAX_LIVE_REGIONS"
    using n lr(2) by (auto simp: live_add_def)
  have r: "r = a" and c: "memory ctx' = mem_fill (memory ctx) (unat a) 0 (unat n)"
    "free_list ctx' = carve_free_range (free_list ctx) a n"
    "live_list ctx' = live_add (live_remove (live_list ctx) a n) a n"
    "heap_end ctx' = heap_end ctx" "memory_size ctx' = memory_size ctx"
    using res False by (auto simp: mmap2_fixed_def Let_def)
  show thesis
    by (rule mapped [OF r _ _ c(4,5,1)]) (use False fc la in \<open>auto simp: c in_range_def not_less\<close>)
qed

text \<open>
  Every call of \<^verbatim>\<open>mmap2\<close> either fails, leaving memory and both tables as they were, or hands out a
  page-aligned range.
\<close>

lemma mmap2_cases:
  assumes inv: "mem_inv ctx" and res: "yos_mmap2 ctx a sz prot flags fd pgoff = (r, ctx')"
  obtains
    (error) "r \<in> {- ENOMEM, - EINVAL, - ENOSYS}" "memory ctx' = memory ctx"
      "free_list ctx' = free_list ctx" "live_list ctx' = live_list ctx"
      "heap_end ctx' = heap_end ctx" "memory_size ctx' = memory_size ctx"
  | (mapped) "r \<noteq> 0" "unat r + page_align sz \<le> unat (memory_size ctx)" "sz \<noteq> 0"
      "heap_end ctx' = heap_end ctx" "memory_size ctx' = memory_size ctx"
      "\<And>p. \<not> in_range p r (page_align sz) \<Longrightarrow> memory ctx' p = memory ctx p"
      "\<And>p. in_range p r (page_align sz) \<Longrightarrow>
         memory ctx' p = 0 \<or> memory ctx' p = memory ctx p \<and> 0 < cover (free_list ctx) p"
      "\<And>p. cover (free_list ctx') p \<le> cover (free_list ctx) p"
      "\<And>p. in_range p r (page_align sz) \<Longrightarrow> cover (free_list ctx') p = 0"
      "\<And>p. in_range p r (page_align sz) \<Longrightarrow> flags AND MAP_FIXED = 0 \<or> a = 0 \<Longrightarrow>
         cover (live_list ctx) p = 0"
      "flags AND MAP_FIXED \<noteq> 0 \<Longrightarrow> a \<noteq> 0 \<Longrightarrow> r = a"
proof (cases "(fd \<noteq> - 1 \<and> fd \<noteq> 0xffffffff) \<or> page_align sz = 0 \<or> unat (memory_size ctx) < page_align sz")
  case True
  with res have "r \<in> {- ENOMEM, - EINVAL, - ENOSYS}" "ctx' = ctx"
    by (auto simp: yos_mmap2_def Let_def split: if_splits)
  then show thesis using error by simp
next
  case False
  define n where "n = (of_nat (page_align sz) :: u32)"
  have pa: "page_align sz \<noteq> 0" "page_align sz \<le> unat (memory_size ctx)" using False by auto
  note w = page_align_word [OF pa, folded n_def]
  note d = mem_invD [OF inv]
  have sz: "sz \<noteq> 0" using pa(1) by (simp add: page_align_0_iff)
  show thesis
  proof (cases "flags AND MAP_FIXED \<noteq> 0 \<and> a \<noteq> 0")
    case True
    have "mmap2_fixed ctx a n = (r, ctx')"
      using res False True by (auto simp: yos_mmap2_def Let_def n_def)
    with inv conjunct2 [OF True] w(2) show thesis
    proof (cases rule: mmap2_fixed_cases)
      case error
      with that(1) show thesis by auto
    next
      case mapped
      show thesis
        by (rule that(2)) (use mapped w(1) True sz in \<open>auto simp: in_range_def mem_fill_def\<close>)
    qed
  next
    case nf: False
    have any: "mmap2_any ctx n = (r, ctx')"
      using res False nf by (auto simp: yos_mmap2_def Let_def n_def)
    with inv w(2,3) show thesis
    proof (cases rule: mmap2_any_cases)
      case (reused xs)
      have le: "unat (mmap_top ctx) \<le> unat (memory_size ctx)" using d(5) by (simp add: word_le_nat_alt)
      have one: "0 < cover (free_list ctx) p \<and> cover xs p = 0 \<and> cover (live_list ctx) p = 0"
        if "in_range p r (page_align sz)" for p
        using reused(6) [of p] d(6) [of p] that w(1) by simp
      have mono: "cover xs p \<le> cover (free_list ctx) p" for p using reused(6) [of p] by simp
      show thesis
        by (rule that(2)) (use reused(1,2,5) one mono le nf sz w(1) in auto)
    next
      case (failed top)
      with that(1) show thesis by auto
    next
      case (bumped top)
      have ge: "unat (mmap_top ctx) \<le> unat top" unfolding bumped(3) by auto
      have "top \<noteq> 0"
        using bumped(3) w(4) by (auto simp: word_nat unat_div div_eq_0_iff split: if_splits)
      moreover have "cover (free_list ctx) p = 0 \<and> cover (live_list ctx) p = 0"
        if "in_range p top (page_align sz)" for p
        using cover_beyond [OF d(3), of p] cover_beyond [OF d(4), of p] that ge
        by (simp add: in_range_def)
      ultimately show thesis
        by (intro that(2)) (use bumped(1,2,5) nf sz w(1) in \<open>auto simp: in_range_def mem_fill_def\<close>)
    qed
  qed
qed

lemma mmap2_not_error:
  assumes "unat (r :: u32) + page_align sz \<le> unat (ms :: u32)" and "sz \<noteq> 0"
  shows "r \<notin> {- ENOMEM, - EINVAL, - ENOSYS}"
proof -
  have "page_align sz \<noteq> 0" using assms(2) by (simp add: page_align_0_iff)
  then have "4096 \<le> page_align sz" using page_align_bounds(3) by (simp add: dvd_imp_le)
  then have "unat r < 4294963200" using assms(1) unat_u32_lt [of ms] by linarith
  then show ?thesis by auto
qed

lemma mmap2_free_zeroed:
  assumes inv: "mem_inv ctx" and z: "free_zeroed ctx"
  shows "free_zeroed (snd (yos_mmap2 ctx a sz prot flags fd pgoff))"
proof -
  obtain r ctx' where res: "yos_mmap2 ctx a sz prot flags fd pgoff = (r, ctx')"
    by (cases "yos_mmap2 ctx a sz prot flags fd pgoff")
  from inv res have "free_zeroed ctx'"
  proof (cases rule: mmap2_cases)
    case error
    then show ?thesis using z by (simp add: free_zeroed_def)
  next
    case mapped
    show ?thesis unfolding free_zeroed_def
    proof (intro allI impI)
      fix p assume p: "0 < cover (free_list ctx') p"
      then have "\<not> in_range p r (page_align sz)" using mapped(9) by fastforce
      moreover have "0 < cover (free_list ctx) p" using p mapped(8) [of p] by linarith
      ultimately show "memory ctx' p = 0" using mapped(6) z by (simp add: free_zeroed_def)
    qed
  qed
  with res show ?thesis by simp
qed

lemma munmap_mem_inv:
  assumes inv: "mem_inv ctx"
  shows "mem_inv (snd (yos_munmap ctx a n))"
proof -
  note d = mem_invD [OF inv]
  obtain r ctx' where res: "yos_munmap ctx a n = (r, ctx')" by (cases "yos_munmap ctx a n")
  from inv res have "mem_inv ctx'"
  proof (cases rule: munmap_cases)
    case (unmapped m f l)
    show ?thesis
    proof (rule mem_invI)
      fix p show "cover (free_list ctx') p + cover (live_list ctx') p \<le> 1"
        using unmapped(10) [of p] unmapped(11) [of p] unmapped(12) [of p] d(6) [of p]
        by (cases "in_range p a (page_align n)") (simp_all add: unmapped(2))
    qed (use unmapped d in simp_all)
  qed (use inv in simp_all)
  with res show ?thesis by simp
qed

lemma munmap_free_zeroed:
  assumes inv: "mem_inv ctx" and z: "free_zeroed ctx"
  shows "free_zeroed (snd (yos_munmap ctx a n))"
proof -
  obtain r ctx' where res: "yos_munmap ctx a n = (r, ctx')" by (cases "yos_munmap ctx a n")
  from inv res have "free_zeroed ctx'"
  proof (cases rule: munmap_cases)
    case (unmapped m f l)
    show ?thesis unfolding free_zeroed_def
    proof (intro allI impI)
      fix p assume "0 < cover (free_list ctx') p"
      then have "0 < cover (free_list ctx) p \<or> in_range p a (page_align n) \<and> 0 < cover (live_list ctx) p"
        using unmapped(10) [of p] by (auto simp: unmapped(2) split: if_splits)
      then show "memory ctx' p = 0" using unmapped(13) [of p] z by (auto simp: unmapped(2) free_zeroed_def)
    qed
  qed (use z in simp_all)
  with res show ?thesis by simp
qed

lemma mremap_preserves:
  assumes inv: "mem_inv ctx" and z: "free_zeroed ctx"
  shows "mem_inv (snd (yos_mremap ctx a old_len new_len flags new_addr))"
    and "free_zeroed (snd (yos_mremap ctx a old_len new_len flags new_addr))"
proof -
  obtain r ctx' where res: "yos_mmap2 ctx 0 new_len 3 0x22 (- 1) 0 = (r, ctx')"
    by (cases "yos_mmap2 ctx 0 new_len 3 0x22 (- 1) 0")
  let ?c = "ctx'\<lparr>memory := mem_copy (memory ctx') (unat r) (unat a) (unat old_len)\<rparr>"
  have keep: "mem_inv ctx'" "free_zeroed ctx'"
    using mmap2_mem_inv [OF inv] mmap2_free_zeroed [OF inv z] res by (metis snd_conv)+
  have "free_zeroed ?c" if "old_len < new_len" "\<not> sint r < 0"
    using inv res
  proof (cases rule: mmap2_cases)
    case error
    then show ?thesis using that(2) by auto
  next
    case mapped
    show ?thesis unfolding free_zeroed_def
    proof (intro allI impI)
      fix p assume "0 < cover (free_list ?c) p"
      then have p: "0 < cover (free_list ctx') p" by simp
      then have "\<not> in_range p r (page_align new_len)" using mapped(9) [of p] by auto
      then have "p < unat r \<or> unat r + unat old_len \<le> p"
        using page_align_bounds(1) [of new_len] that(1) by (auto simp: in_range_def word_less_nat_alt)
      then have "memory ?c p = memory ctx' p" by (simp add: mem_copy_out)
      then show "memory ?c p = 0" using keep(2) p by (simp add: free_zeroed_def)
    qed
  qed
  then show "mem_inv (snd (yos_mremap ctx a old_len new_len flags new_addr))"
    and "free_zeroed (snd (yos_mremap ctx a old_len new_len flags new_addr))"
    using inv z keep by (auto simp: yos_mremap_def res)
qed

section \<open>The address space over time\<close>

text \<open>
  One step of a guest that uses its address space: one of the calls, or a store by guest code to a
  byte of linear memory it has not given back with \<^verbatim>\<open>munmap\<close>.
\<close>

inductive as_step :: "yos_exec_ctx \<Rightarrow> yos_exec_ctx \<Rightarrow> bool" where
  brk: "as_step ctx (snd (yos_brk ctx a))"
| mmap: "as_step ctx (snd (yos_mmap ctx a sz prot flags fd off))"
| munmap: "as_step ctx (snd (yos_munmap ctx a n))"
| mremap: "as_step ctx (snd (yos_mremap ctx a old_len new_len flags new_addr))"
| store: "p < unat (memory_size ctx) \<Longrightarrow> cover (free_list ctx) p = 0 \<Longrightarrow>
    as_step ctx (ctx\<lparr>memory := (memory ctx)(p := b)\<rparr>)"

inductive_cases as_stepE: "as_step ctx ctx'"

lemma as_step_preserves:
  assumes "as_step ctx ctx'" and "mem_inv ctx" and "free_zeroed ctx"
  shows "mem_inv ctx' \<and> free_zeroed ctx'"
  using assms(1)
proof cases
  case (brk a)
  then show ?thesis
    using assms yos_brk_mem_inv [of ctx a] by (auto simp: yos_brk_def Let_def free_zeroed_def)
next
  case (mmap a sz prot flags fd off)
  then show ?thesis
    using assms mmap2_mem_inv mmap2_free_zeroed by (simp add: yos_mmap_def)
next
  case (munmap a n)
  then show ?thesis using assms munmap_mem_inv munmap_free_zeroed by simp
next
  case (mremap a old_len new_len flags new_addr)
  then show ?thesis using assms mremap_preserves by simp
next
  case (store p b)
  then show ?thesis using assms by (auto simp: free_zeroed_def)
qed

text \<open>
  Claim C1: from a fresh context, whatever the guest does with \<^verbatim>\<open>brk\<close>, \<^verbatim>\<open>mmap\<close>, \<^verbatim>\<open>munmap\<close>, \<^verbatim>\<open>mremap\<close>
  and stores to memory it has not unmapped, the region tables stay within their arrays, every
  region stays inside linear memory, no byte is in two regions, and every byte on the free list is
  zero.
\<close>

theorem address_space_safe:
  assumes "as_step\<^sup>*\<^sup>* (ctx_calloc m sz) ctx"
  shows "mem_inv ctx \<and> free_zeroed ctx"
  using assms
proof (induction rule: rtranclp_induct)
  case base
  show ?case using mem_inv_calloc by (simp add: free_zeroed_def ctx_calloc_def)
next
  case (step c c')
  then show ?case using as_step_preserves by blast
qed

theorem address_space_safe_witness:
  "mem_inv (snd (yos_munmap (snd (yos_mmap (ctx_calloc (\<lambda>_. 7) 0x10000) 0 8192 3 0x22 (- 1) 0)) 0x9000 4096))"
proof -
  let ?c = "ctx_calloc (\<lambda>_. 7) 0x10000"
  have "as_step\<^sup>*\<^sup>* ?c (snd (yos_munmap (snd (yos_mmap ?c 0 8192 3 0x22 (- 1) 0)) 0x9000 4096))"
    by (rule rtranclp.rtrancl_into_rtrancl [OF rtranclp.rtrancl_into_rtrancl [OF rtranclp.rtrancl_refl]],
        rule as_step.mmap, rule as_step.munmap)
  from address_space_safe [OF this] show ?thesis by blast
qed

section \<open>What a mapping is\<close>

text \<open>
  Claim C8: a successful \<^verbatim>\<open>mmap2\<close> returns a non-null address whose page-rounded range lies inside
  linear memory, contains no byte of the free list afterwards and, unless the caller forced the
  address with \<^verbatim>\<open>MAP_FIXED\<close>, no byte of any mapping tracked before.
\<close>

theorem mmap2_fresh:
  assumes "mem_inv ctx" and "yos_mmap2 ctx a sz prot flags fd pgoff = (r, ctx')"
    and "r \<notin> {- ENOMEM, - EINVAL, - ENOSYS}"
  shows "r \<noteq> 0 \<and> unat r + page_align sz \<le> unat (memory_size ctx) \<and>
    (\<forall>p. in_range p r (page_align sz) \<longrightarrow> cover (free_list ctx') p = 0 \<and>
       (flags AND MAP_FIXED = 0 \<or> a = 0 \<longrightarrow> cover (live_list ctx) p = 0))"
  using assms(1,2)
  by (cases rule: mmap2_cases) (use assms(3) in auto)

theorem mmap2_fresh_witness:
  "mem_inv (ctx_calloc (\<lambda>_. 7) 0x10000) \<and>
   fst (yos_mmap2 (ctx_calloc (\<lambda>_. 7) 0x10000) 0 5000 3 0x22 (- 1) 0) = 0x8000 \<and>
   unat (0x8000 :: u32) + page_align 5000 \<le> unat (0x10000 :: u32)"
proof -
  let ?c = "ctx_calloc (\<lambda>_. 7) 0x10000"
  obtain r c' where res: "yos_mmap2 ?c 0 5000 3 0x22 (- 1) 0 = (r, c')"
    by (cases "yos_mmap2 ?c 0 5000 3 0x22 (- 1) 0")
  moreover have "fst (yos_mmap2 ?c 0 5000 3 0x22 (- 1) 0) = 0x8000"
    by (simp add: yos_mmap2_def page_align_def mmap2_any_def find_free_region_def ctx_calloc_def Let_def)
  ultimately have r: "r = 0x8000" by simp
  from mmap2_fresh [OF mem_inv_calloc res] r have "unat r + page_align 5000 \<le> unat (memory_size ?c)"
    by simp
  then show ?thesis using mem_inv_calloc res r by (simp add: ctx_calloc_def)
qed

text \<open>
  When the free list holds only zero bytes, the range \<^verbatim>\<open>mmap2\<close> hands out reads as zero, and
  the call changes no byte outside that range; a failing call changes no byte and neither table.
\<close>

theorem mmap2_zeroed:
  assumes "mem_inv ctx" and "free_zeroed ctx"
    and "yos_mmap2 ctx a sz prot flags fd pgoff = (r, ctx')"
  shows "if r \<in> {- ENOMEM, - EINVAL, - ENOSYS}
    then memory ctx' = memory ctx \<and> free_list ctx' = free_list ctx \<and> live_list ctx' = live_list ctx
    else (\<forall>p. memory ctx' p = (if in_range p r (page_align sz) then 0 else memory ctx p))"
  using assms(1,3)
proof (cases rule: mmap2_cases)
  case error
  then show ?thesis by simp
next
  case mapped
  then have "r \<notin> {- ENOMEM, - EINVAL, - ENOSYS}" using mmap2_not_error by blast
  moreover have "memory ctx' p = (if in_range p r (page_align sz) then 0 else memory ctx p)" for p
    using mapped(6,7) [of p] assms(2) by (auto simp: free_zeroed_def)
  ultimately show ?thesis by (simp only: if_False) blast
qed

theorem mmap2_zeroed_witness:
  "memory (snd (yos_mmap2 (ctx_calloc (\<lambda>_. 7) 0x10000) 0 5000 3 0x22 (- 1) 0)) 0x9fff = 0 \<and>
   memory (snd (yos_mmap2 (ctx_calloc (\<lambda>_. 7) 0x10000) 0 5000 3 0x22 (- 1) 0)) 0xa000 = 7"
proof -
  let ?c = "ctx_calloc (\<lambda>_. 7) 0x10000"
  obtain r c' where res: "yos_mmap2 ?c 0 5000 3 0x22 (- 1) 0 = (r, c')"
    by (cases "yos_mmap2 ?c 0 5000 3 0x22 (- 1) 0")
  moreover have "fst (yos_mmap2 ?c 0 5000 3 0x22 (- 1) 0) = 0x8000"
    by (simp add: yos_mmap2_def page_align_def mmap2_any_def find_free_region_def ctx_calloc_def Let_def)
  ultimately have r: "r = 0x8000" by simp
  have z: "free_zeroed ?c" by (simp add: free_zeroed_def ctx_calloc_def)
  from mmap2_zeroed [OF mem_inv_calloc z res] r
  have "memory c' p = (if in_range p 0x8000 (page_align 5000) then 0 else memory ?c p)" for p by simp
  then show ?thesis using res by (simp add: in_range_def page_align_def ctx_calloc_def)
qed

text \<open>
  \<^verbatim>\<open>munmap\<close> zeroes exactly the mapped bytes of the page-rounded range and leaves every other
  byte alone, in particular the unmapped bytes of the range and everything outside it; afterwards
  no tracked mapping contains a byte of the range.  A range with no length or beyond linear memory
  is refused; a range that touches a freed byte is left alone.
\<close>

theorem munmap_effect:
  assumes "mem_inv ctx" and "yos_munmap ctx a n = (r, ctx')"
  shows "if n = 0 \<or> unat (memory_size ctx) < unat a + page_align n then r = - EINVAL \<and> ctx' = ctx
    else if \<exists>p. in_range p a (page_align n) \<and> 0 < cover (free_list ctx) p then r = 0 \<and> ctx' = ctx
    else r = 0 \<and> (\<forall>p.
      memory ctx' p = (if in_range p a (page_align n) \<and> 0 < cover (live_list ctx) p then 0
                       else memory ctx p) \<and>
      (in_range p a (page_align n) \<longrightarrow> cover (live_list ctx') p = 0))"
  using assms
proof (cases rule: munmap_cases)
  case bad
  then show ?thesis by simp
next
  case (twice p)
  then show ?thesis by auto
next
  case (unmapped m f l)
  then show ?thesis by auto
qed

theorem munmap_effect_witness:
  "memory (snd (yos_munmap ((ctx_calloc (\<lambda>_. 7) 0x10000)
     \<lparr>mmap_top := 0xa000, live_list := [mk_region 0x8000 0x2000]\<rparr>) 0x9000 4096)) 0x9000 = 0 \<and>
   memory (snd (yos_munmap ((ctx_calloc (\<lambda>_. 7) 0x10000)
     \<lparr>mmap_top := 0xa000, live_list := [mk_region 0x8000 0x2000]\<rparr>) 0x9000 4096)) 0x8fff = 7"
proof -
  let ?c = "(ctx_calloc (\<lambda>_. 7) 0x10000)\<lparr>mmap_top := 0xa000, live_list := [mk_region 0x8000 0x2000]\<rparr>"
  have inv: "mem_inv ?c"
    by (simp add: mem_inv_def ctx_calloc_def reg_ok_mk disjoint_regs_def)
  obtain r c' where res: "yos_munmap ?c 0x9000 4096 = (r, c')" by (cases "yos_munmap ?c 0x9000 4096")
  from munmap_effect [OF inv res]
  have "memory c' p = (if in_range p 0x9000 4096 \<and> in_range p 0x8000 8192 then 0 else 7)" for p
    by (auto simp: ctx_calloc_def page_align_def in_reg_mk split: if_splits)
  then show ?thesis using res by (simp add: in_range_def)
qed

text \<open>
  Unmapping the same range again is harmless: the second call succeeds and changes no byte
  of memory.
\<close>

theorem munmap_twice:
  assumes "mem_inv ctx" and "yos_munmap ctx a n = (0, c1)" and "yos_munmap c1 a n = (r, c2)"
  shows "r = 0 \<and> memory c2 = memory c1"
proof -
  have inv1: "mem_inv c1" using munmap_mem_inv [OF assms(1), of a n] assms(2) by simp
  from assms(1,2) show ?thesis
  proof (cases rule: munmap_cases)
    case bad
    then show ?thesis by simp
  next
    case (twice p)
    then show ?thesis using assms by simp
  next
    case (unmapped m f l)
    from inv1 assms(3) show ?thesis
    proof (cases rule: munmap_cases)
      case bad
      then show ?thesis using unmapped(2-4) by simp
    next
      case (twice p)
      then show ?thesis by simp
    next
      case again: (unmapped m' f' l')
      have "m' p = memory c1 p" for p
        using again(13) [of p] unmapped(2) unmapped(12) [of p] by auto
      then show ?thesis using again(1,2) by auto
    qed
  qed
qed

theorem munmap_twice_witness:
  "fst (yos_munmap (snd (yos_munmap ((ctx_calloc (\<lambda>_. 7) 0x10000)
     \<lparr>mmap_top := 0xa000, live_list := [mk_region 0x8000 0x2000]\<rparr>) 0x9000 4096)) 0x9000 4096) = 0"
proof -
  let ?c = "(ctx_calloc (\<lambda>_. 7) 0x10000)\<lparr>mmap_top := 0xa000, live_list := [mk_region 0x8000 0x2000]\<rparr>"
  have inv: "mem_inv ?c"
    by (simp add: mem_inv_def ctx_calloc_def reg_ok_mk disjoint_regs_def)
  have first: "fst (yos_munmap ?c 0x9000 4096) = 0"
    by (simp add: yos_munmap_def Let_def ctx_calloc_def page_align_def split: prod.splits)
  have "yos_munmap ?c 0x9000 4096 = (0, snd (yos_munmap ?c 0x9000 4096))"
    using first by (metis prod.collapse)
  from munmap_twice [OF inv this prod.collapse [symmetric]] show ?thesis by blast
qed

section \<open>Reuse\<close>

text \<open>
  \<^verbatim>\<open>find_free_region\<close> is best fit.  When it returns 0 the context is unchanged and no free
  region of fewer than \<open>2 ^ 32 - 1\<close> bytes is big enough; otherwise it returns the start of a smallest
  region among those that are big enough.
\<close>

theorem find_free_region_best:
  assumes "mem_inv ctx" and "n \<noteq> 0" and "find_free_region ctx n = (a, ctx')"
  shows "if a = 0 then ctx' = ctx \<and> (\<forall>r\<in>set (free_list ctx). n \<le> rlen r \<longrightarrow> rlen r = 0xFFFFFFFF)
    else (\<exists>r\<in>set (free_list ctx). raddr r = a \<and> n \<le> rlen r \<and>
           (\<forall>s\<in>set (free_list ctx). n \<le> rlen s \<longrightarrow> rlen r \<le> rlen s))"
  using mem_invD(3) [OF assms(1)] unat_u32_lt [of "mmap_top ctx"] assms(2,3)
proof (cases rule: find_free_region_spec)
  case none
  have "rlen r = 0xFFFFFFFF" if "r \<in> set (free_list ctx)" "n \<le> rlen r" for r
  proof -
    have "0xFFFFFFFF \<le> rlen r" using none(3) that by (auto simp: not_less)
    then show ?thesis using unat_u32_lt [of "rlen r"] by (simp add: word_nat)
  qed
  with none show ?thesis by auto
next
  case (found j xs)
  then show ?thesis by (auto intro!: bexI [of _ "free_list ctx ! j"])
qed

theorem find_free_region_best_witness:
  "fst (find_free_region ((ctx_calloc (\<lambda>_. 0) 0x10000)
     \<lparr>mmap_top := 0xf000, free_list := [mk_region 0x8000 0x3000, mk_region 0xc000 0x2000]\<rparr>) 0x1000) = 0xc000"
proof -
  let ?c = "(ctx_calloc (\<lambda>_. 0) 0x10000)
     \<lparr>mmap_top := 0xf000, free_list := [mk_region 0x8000 0x3000, mk_region 0xc000 0x2000]\<rparr>"
  have inv: "mem_inv ?c"
    by (simp add: mem_inv_def ctx_calloc_def reg_ok_def disjoint_regs_def reg_disj_def reg_end_def mk_region_def)
  obtain a c' where res: "find_free_region ?c 0x1000 = (a, c')" by (cases "find_free_region ?c 0x1000")
  from find_free_region_best [OF inv _ res] have "a = 0xc000"
    by (auto simp: ctx_calloc_def mk_region_def split: if_splits)
  then show ?thesis using res by simp
qed

text \<open>
  \<^verbatim>\<open>check_range\<close>, which decides \<^verbatim>\<open>mprotect\<close>, \<^verbatim>\<open>mlock\<close>, \<^verbatim>\<open>munlock\<close> and \<^verbatim>\<open>madvise\<close>, accepts exactly
  the empty ranges and the ranges inside linear memory, at the full width of the sum.
\<close>

theorem check_range_exact:
  "(yos_mprotect ctx start n prot = 0 \<longleftrightarrow> n = 0 \<or> unat start + unat n \<le> unat (memory_size ctx)) \<and>
   yos_mlock ctx start n = yos_mprotect ctx start n prot \<and>
   yos_munlock ctx start n = yos_mprotect ctx start n prot \<and>
   yos_madvise ctx start n prot = yos_mprotect ctx start n prot \<and>
   yos_mprotect ctx start n prot \<in> {0, - ENOMEM}"
proof -
  have "0 < unat n" if "n \<noteq> 0" using that by (simp add: unat_gt_0)
  then show ?thesis
    by (auto simp: yos_mprotect_def yos_mlock_def yos_munlock_def yos_madvise_def check_range_def word_nat)
qed

theorem check_range_exact_witness: "yos_mprotect (ctx_calloc (\<lambda>_. 0) 0x10000) 0xf000 0x2000 3 = - ENOMEM"
proof -
  have "\<not> yos_mprotect (ctx_calloc (\<lambda>_. 0) 0x10000) 0xf000 0x2000 3 = 0"
    using check_range_exact [of "ctx_calloc (\<lambda>_. 0) 0x10000" "0xf000" "0x2000" 3] by (simp add: ctx_calloc_def)
  then show ?thesis
    using check_range_exact [of "ctx_calloc (\<lambda>_. 0) 0x10000" "0xf000" "0x2000" 3] by blast
qed

section \<open>Where the code and its comments part\<close>

text \<open>
  The comment above \<^verbatim>\<open>yos_brk\<close> says that brk and mmap can never overlap, but the limit is
  the top of the mmap area, not its start: once anything has been mapped, \<^verbatim>\<open>brk(mmap_top)\<close> succeeds and
  puts every tracked mapping below the heap end.
\<close>

theorem brk_over_mappings:
  assumes "mem_inv ctx" and "mmap_top ctx \<noteq> 0"
  shows "fst (yos_brk ctx (mmap_top ctx)) = mmap_top ctx \<and>
    (\<forall>p. 0 < cover (live_list ctx) p \<longrightarrow> p < unat (heap_end (snd (yos_brk ctx (mmap_top ctx)))))"
proof -
  note d = mem_invD [OF assms(1)]
  have eq: "yos_brk ctx (mmap_top ctx) = (mmap_top ctx, ctx\<lparr>heap_end := mmap_top ctx\<rparr>)"
    using assms(2) leD [OF d(5)] by (simp add: yos_brk_def Let_def)
  show ?thesis using cover_beyond [OF d(4)] by (simp add: eq) (metis not_le less_irrefl)
qed

theorem brk_over_mappings_witness:
  "0x8000 < unat (heap_end (snd (yos_brk ((ctx_calloc (\<lambda>_. 7) 0x10000)
     \<lparr>mmap_top := 0xa000, live_list := [mk_region 0x8000 0x2000]\<rparr>) 0xa000)))"
proof -
  let ?c = "(ctx_calloc (\<lambda>_. 7) 0x10000)\<lparr>mmap_top := 0xa000, live_list := [mk_region 0x8000 0x2000]\<rparr>"
  have inv: "mem_inv ?c"
    by (simp add: mem_inv_def ctx_calloc_def reg_ok_mk disjoint_regs_def)
  have "0 < cover (live_list ?c) 0x8000" by (simp add: in_reg_mk in_range_def)
  with brk_over_mappings [OF inv] show ?thesis by simp
qed

text \<open>
  \<^verbatim>\<open>mremap\<close> never checks its source range.  On a fresh context with 64 KiB of linear memory,
  growing the \<open>old_len\<close> bytes at \<open>a\<close> copies them to the new mapping at \<open>0x8000\<close> wherever \<open>a\<close> points: the
  bytes at and beyond offset \<open>0x10000\<close>, host memory, become readable to the guest.
\<close>

theorem mremap_reads_host_memory:
  assumes "old_len \<le> 0x3000" and "i < unat old_len" and "0x10000 \<le> unat a + i"
  shows "memory (snd (yos_mremap (ctx_calloc m 0x10000) a old_len 0x4000 flags new_addr)) (0x8000 + i)
       = m (unat a + i)"
proof -
  let ?c = "ctx_calloc m 0x10000"
  have lt: "old_len < 0x4000" using assms(1) by (simp add: word_nat)
  obtain c' where mm: "yos_mmap2 ?c 0 0x4000 3 0x22 (- 1) 0 = (0x8000, c')"
    and mem: "memory c' = mem_fill m 0x8000 0 0x4000"
    by (simp add: yos_mmap2_def page_align_def mmap2_any_def find_free_region_def ctx_calloc_def Let_def)
  have "memory (snd (yos_mremap ?c a old_len 0x4000 flags new_addr))
      = mem_copy (memory c') 0x8000 (unat a) (unat old_len)"
    using lt leD [of "0x4000" old_len] by (auto simp: yos_mremap_def mm)
  then show ?thesis using assms mem by (simp add: mem_fill_def)
qed

theorem mremap_reads_host_memory_witness:
  "memory (snd (yos_mremap (ctx_calloc (\<lambda>p. if p < 0x10000 then 0 else 42) 0x10000)
     0xf000 0x2000 0x4000 0 0)) (0x8000 + 0x1000) = 42"
  using mremap_reads_host_memory
    [of "0x2000" "0x1000" "0xf000" "\<lambda>p. if p < 0x10000 then 0 else 42" 0 0] by simp

end
