(* ===== verification/Alloc.thy ===== *)
theory Alloc
  imports Ctx
begin

text \<open>
  The guest allocator, \<^verbatim>\<open>src/src/yos/impl/mem/alloc.c\<close>: block headers inside linear memory, the
  address-ordered free list threaded through them, and the \<^verbatim>\<open>malloc\<close> family.  Offsets and sizes are
  32-bit words and wrap exactly where the C code's \<^verbatim>\<open>uint32_t\<close> arithmetic does.  The lock is not
  modelled (each call runs under it, so calls are atomic), nor is logging.  The walk of \<^verbatim>\<open>free\<close> has
  no cycle guard: it is a partial function, \<open>None\<close> meaning that the call does not return.
\<close>

section \<open>Block headers\<close>

abbreviation HDR_SIZE :: "'a::numeral" where "HDR_SIZE \<equiv> 8"
abbreviation MIN_BLOCK :: "'a::numeral" where "MIN_BLOCK \<equiv> 32"
abbreviation ALIGN :: "'a::numeral" where "ALIGN \<equiv> 16"
abbreviation WALK_GUARD :: nat where "WALK_GUARD \<equiv> 4194304"

definition align_up :: "u32 \<Rightarrow> u32 \<Rightarrow> u32" where
  "align_up x a = (x + (a - 1)) AND NOT (a - 1)"

definition blk_size :: "yos_exec_ctx \<Rightarrow> u32 \<Rightarrow> u32" where
  "blk_size ctx off = load32 (memory ctx) (unat off)"

definition blk_set_size :: "yos_exec_ctx \<Rightarrow> u32 \<Rightarrow> u32 \<Rightarrow> yos_exec_ctx" where
  "blk_set_size ctx off s = ctx\<lparr>memory := store32 (memory ctx) (unat off) s\<rparr>"

definition blk_next :: "yos_exec_ctx \<Rightarrow> u32 \<Rightarrow> u32" where
  "blk_next ctx off = load32 (memory ctx) (unat off + 4)"

definition blk_set_next :: "yos_exec_ctx \<Rightarrow> u32 \<Rightarrow> u32 \<Rightarrow> yos_exec_ctx" where
  "blk_set_next ctx off n = ctx\<lparr>memory := store32 (memory ctx) (unat off + 4) n\<rparr>"

section \<open>Initialisation\<close>

text \<open>The result is the C return value: \<open>True\<close> for 0, \<open>False\<close> for \<open>-1\<close>.\<close>

definition alloc_init_locked :: "yos_exec_ctx \<Rightarrow> bool \<times> yos_exec_ctx" where
  "alloc_init_locked ctx =
     (if alloc_hi ctx \<noteq> 0 then (True, ctx)
      else
        let lo = align_up (heap_end ctx) ALIGN;
            hi = (memory_size ctx div 2) AND NOT 0xfff
        in if hi \<le> lo + 0x100000 then (False, ctx)
           else
             let c1 = ctx\<lparr>alloc_lo := lo, alloc_hi := hi, alloc_free_head := lo\<rparr>;
                 c2 = blk_set_size c1 lo (hi - lo);
                 c3 = blk_set_next c2 lo 0
             in (True, c3\<lparr>heap_end := hi\<rparr>))"

section \<open>malloc\<close>

text \<open>
  The walk of \<^verbatim>\<open>do_alloc\<close>: \<open>guard\<close> nodes have been visited.  On a fit, \<open>take_block\<close> splits the
  block when the remainder is worth keeping and unlinks it.
\<close>

definition take_block :: "yos_exec_ctx \<Rightarrow> u32 \<Rightarrow> u32 \<Rightarrow> u32 \<Rightarrow> u32 \<times> yos_exec_ctx" where
  "take_block ctx need prev_off cur =
     (let bsz = blk_size ctx cur;
          bnext = blk_next ctx cur;
          (after_next, c) =
            (if need + MIN_BLOCK \<le> bsz
             then let split = cur + need;
                      c1 = blk_set_size ctx split (bsz - need);
                      c2 = blk_set_next c1 split bnext
                  in (split, blk_set_size c2 cur need)
             else (bnext, ctx))
      in (cur + HDR_SIZE,
          if prev_off \<noteq> 0 then blk_set_next c prev_off after_next
          else c\<lparr>alloc_free_head := after_next\<rparr>))"

function do_alloc_loop :: "yos_exec_ctx \<Rightarrow> u32 \<Rightarrow> u32 \<Rightarrow> u32 \<Rightarrow> nat \<Rightarrow> u32 \<times> yos_exec_ctx" where
  "do_alloc_loop ctx need prev_off cur guard =
     (if cur = 0 then (0, ctx)
      else if WALK_GUARD < Suc guard then (0, ctx)
      else if need \<le> blk_size ctx cur then take_block ctx need prev_off cur
      else do_alloc_loop ctx need cur (blk_next ctx cur) (Suc guard))"
  by pat_completeness auto
termination
  by (relation "measure (\<lambda>(ctx, need, prev_off, cur, guard). WALK_GUARD - guard)") auto

declare do_alloc_loop.simps [simp del]

definition do_alloc :: "yos_exec_ctx \<Rightarrow> u32 \<Rightarrow> u32 \<times> yos_exec_ctx" where
  "do_alloc ctx need = do_alloc_loop ctx need 0 (alloc_free_head ctx) 0"

text \<open>The block size \<^verbatim>\<open>yos_malloc\<close> asks for.\<close>

definition malloc_need :: "u32 \<Rightarrow> u32" where
  "malloc_need sz =
     (let sz' = (if sz = 0 then 1 else sz);
          need = align_up (sz' + HDR_SIZE) ALIGN
      in if need < MIN_BLOCK then MIN_BLOCK else need)"

definition yos_malloc :: "yos_exec_ctx \<Rightarrow> u32 \<Rightarrow> u32 \<times> yos_exec_ctx" where
  "yos_malloc ctx sz =
     (case alloc_init_locked ctx of
        (ok, ctx') \<Rightarrow> if \<not> ok then (0, ctx') else do_alloc ctx' (malloc_need sz))"

text \<open>\<^verbatim>\<open>size > UINT32_MAX / nmemb\<close> for a non-zero \<^verbatim>\<open>nmemb\<close>.\<close>

definition mul_overflows :: "u32 \<Rightarrow> u32 \<Rightarrow> bool" where
  "mul_overflows nmemb sz \<longleftrightarrow> nmemb \<noteq> 0 \<and> 0xFFFFFFFF div nmemb < sz"

definition yos_calloc :: "yos_exec_ctx \<Rightarrow> u32 \<Rightarrow> u32 \<Rightarrow> u32 \<times> yos_exec_ctx" where
  "yos_calloc ctx nmemb sz =
     (if mul_overflows nmemb sz then (0, ctx)
      else let total = nmemb * sz in
        case yos_malloc ctx total of
          (off, ctx') \<Rightarrow>
            if off = 0 then (0, ctx')
            else let bsz = blk_size ctx' (off - HDR_SIZE);
                     usable = (if HDR_SIZE < bsz then bsz - HDR_SIZE else total);
                     usable' = (if usable < total then total else usable)
                 in (off, ctx'\<lparr>memory := mem_fill (memory ctx') (unat off) 0 (unat usable')\<rparr>))"

section \<open>free\<close>

definition unshift_user_off :: "yos_exec_ctx \<Rightarrow> u32 \<Rightarrow> u32" where
  "unshift_user_off ctx off =
     (if off AND 15 \<noteq> 0 then off
      else if off < alloc_lo ctx + 2 * HDR_SIZE then off
      else let raw = load32 (memory ctx) (unat off - 4) in
        if raw < alloc_lo ctx + HDR_SIZE \<or> off \<le> raw then off
        else if alloc_hi ctx < raw + HDR_SIZE then off
        else let bo = raw - HDR_SIZE; bs = blk_size ctx bo in
          if bs < MIN_BLOCK \<or> alloc_hi ctx < bo + bs then off
          else if bo + bs \<le> off then off
          else raw)"

text \<open>
  The walk to the insertion point: \<open>None\<close> if it never ends, \<open>Some None\<close> if the block lies inside a
  free block (the free is dropped), \<open>Some (Some (prev, cur))\<close> otherwise.
\<close>

partial_function (option) free_walk ::
  "yos_exec_ctx \<Rightarrow> u32 \<Rightarrow> u32 \<Rightarrow> u32 \<Rightarrow> (u32 \<times> u32) option option" where
  "free_walk ctx blk_off prev cur =
     (if cur \<noteq> 0 \<and> cur < blk_off
      then if blk_off < cur + blk_size ctx cur then Some None
           else free_walk ctx blk_off cur (blk_next ctx cur)
      else Some (Some (prev, cur)))"

text \<open>Linking the block in after \<open>prev\<close>, joining it with \<open>prev\<close> and then with \<open>cur\<close> where they touch.\<close>

definition free_link :: "yos_exec_ctx \<Rightarrow> u32 \<Rightarrow> u32 \<Rightarrow> u32 \<Rightarrow> u32 \<Rightarrow> yos_exec_ctx" where
  "free_link ctx blk_off sz prev cur =
     (let (blk', sz', c) =
        (if prev \<noteq> 0
         then let prev_sz = blk_size ctx prev in
              if prev + prev_sz = blk_off
              then (prev, prev_sz + sz, blk_set_size ctx prev (prev_sz + sz))
              else (blk_off, sz, blk_set_next (blk_set_next ctx prev blk_off) blk_off cur)
         else (blk_off, sz, (blk_set_next ctx blk_off cur)\<lparr>alloc_free_head := blk_off\<rparr>))
      in if cur \<noteq> 0 \<and> blk' + sz' = cur
         then let cur_sz = blk_size c cur; cur_next = blk_next c cur
              in blk_set_next (blk_set_size c blk' (sz' + cur_sz)) blk' cur_next
         else c)"

definition yos_free :: "yos_exec_ctx \<Rightarrow> u32 \<Rightarrow> yos_exec_ctx option" where
  "yos_free ctx off =
     (if off = 0 then Some ctx
      else if off < alloc_lo ctx + HDR_SIZE \<or> alloc_hi ctx \<le> off then Some ctx
      else
        let blk_off = unshift_user_off ctx off - HDR_SIZE;
            sz = blk_size ctx blk_off
        in if sz < MIN_BLOCK \<or> alloc_hi ctx < blk_off + sz then Some ctx
           else case free_walk ctx blk_off 0 (alloc_free_head ctx) of
               None \<Rightarrow> None
             | Some None \<Rightarrow> Some ctx
             | Some (Some (prev, cur)) \<Rightarrow>
                 if cur = blk_off then Some ctx else Some (free_link ctx blk_off sz prev cur))"

section \<open>realloc and aligned allocation\<close>

definition yos_realloc :: "yos_exec_ctx \<Rightarrow> u32 \<Rightarrow> u32 \<Rightarrow> (u32 \<times> yos_exec_ctx) option" where
  "yos_realloc ctx off newsize =
     (if off = 0 then Some (yos_malloc ctx newsize)
      else if newsize = 0 then map_option (\<lambda>c. (0, c)) (yos_free ctx off)
      else if off < alloc_lo ctx + HDR_SIZE \<or> alloc_hi ctx \<le> off then Some (0, ctx)
      else
        let off' = unshift_user_off ctx off;
            blk_off = off' - HDR_SIZE;
            oldsz = blk_size ctx blk_off
        in if oldsz < HDR_SIZE \<or> alloc_hi ctx < blk_off + oldsz then Some (0, ctx)
           else let old_payload = oldsz - HDR_SIZE in
             if newsize \<le> old_payload then Some (off', ctx)
             else case yos_malloc ctx newsize of
                 (newoff, c) \<Rightarrow>
                   if newoff = 0 then Some (0, c)
                   else map_option (\<lambda>c'. (newoff, c'))
                     (yos_free
                       (c\<lparr>memory := mem_copy (memory c) (unat newoff) (unat off') (unat old_payload)\<rparr>)
                       off'))"

definition yos_reallocarray :: "yos_exec_ctx \<Rightarrow> u32 \<Rightarrow> u32 \<Rightarrow> u32 \<Rightarrow> (u32 \<times> yos_exec_ctx) option" where
  "yos_reallocarray ctx off nmemb sz =
     (if mul_overflows nmemb sz then Some (0, ctx) else yos_realloc ctx off (nmemb * sz))"

text \<open>Returns 0 or a positive host errno, as the C function does.\<close>

definition yos_posix_memalign ::
  "yos_exec_ctx \<Rightarrow> u32 \<Rightarrow> u32 \<Rightarrow> u32 \<Rightarrow> u32 \<times> yos_exec_ctx" where
  "yos_posix_memalign ctx memptr_off alignment sz =
     (if memptr_off = 0 \<or> unat (memory_size ctx) < unat memptr_off + 4 then (EINVAL, ctx)
      else if alignment < 4 \<or> alignment AND (alignment - 1) \<noteq> 0 then (EINVAL, ctx)
      else if alignment \<le> HDR_SIZE then
        (case yos_malloc ctx (if sz \<noteq> 0 then sz else 1) of
           (off, c) \<Rightarrow>
             if off = 0 then (ENOMEM, c)
             else (0, c\<lparr>memory := store32 (memory c) (unat memptr_off) off\<rparr>))
      else
        let need = unat sz + unat alignment;
            need' = (if need = 0 then 1 else need)
        in if 0xFFFFFFFF < need' then (ENOMEM, ctx)
           else case yos_malloc ctx (of_nat need') of
             (raw, c) \<Rightarrow>
               if raw = 0 then (ENOMEM, c)
               else let al = (raw + alignment - 1) AND NOT (alignment - 1);
                        al' = (if al = raw then raw + alignment else al);
                        m1 = store32 (memory c) (unat al' - 4) raw;
                        m2 = store32 m1 (unat memptr_off) al'
                    in (0, c\<lparr>memory := m2\<rparr>))"

definition yos_aligned_alloc :: "yos_exec_ctx \<Rightarrow> u32 \<Rightarrow> u32 \<Rightarrow> u32 \<times> yos_exec_ctx" where
  "yos_aligned_alloc ctx alignment sz =
     (if alignment = 0 \<or> alignment AND (alignment - 1) \<noteq> 0 then (0, ctx)
      else if ALIGN < alignment then (0, ctx)
      else yos_malloc ctx sz)"

definition yos_memalign :: "yos_exec_ctx \<Rightarrow> u32 \<Rightarrow> u32 \<Rightarrow> u32 \<times> yos_exec_ctx" where
  "yos_memalign ctx alignment sz = yos_aligned_alloc ctx alignment sz"

definition yos_valloc :: "yos_exec_ctx \<Rightarrow> u32 \<Rightarrow> u32 \<times> yos_exec_ctx" where
  "yos_valloc ctx sz = yos_malloc ctx sz"

definition yos_malloc_usable_size :: "yos_exec_ctx \<Rightarrow> u32 \<Rightarrow> u32" where
  "yos_malloc_usable_size ctx off =
     (if off = 0 then 0
      else if off < alloc_lo ctx + HDR_SIZE \<or> alloc_hi ctx \<le> off then 0
      else let sz = blk_size ctx (off - HDR_SIZE) in if sz < HDR_SIZE then 0 else sz - HDR_SIZE)"

end
