(* ===== verification/HeapSpec.thy ===== *)
theory HeapSpec
  imports Prelude
begin

text \<open>
  Abstract specification of the guest heap of \<^verbatim>\<open>impl/mem/alloc.c\<close>: an address-ordered list of free
  blocks and a list of blocks in use, as pairs of a start and a size in bytes, header included.
  Together they tile the heap region: every byte of it is in exactly one block.  First-fit
  allocation and coalescing insertion are functions on the list; \<open>AllocRefine\<close> shows that the code,
  which keeps the list inside linear memory, implements them.
\<close>

section \<open>Blocks and tilings\<close>

type_synonym blk = "nat \<times> nat"

definition in_blk :: "nat \<Rightarrow> blk \<Rightarrow> bool" where
  "in_blk p x \<longleftrightarrow> fst x \<le> p \<and> p < fst x + snd x"

definition cov :: "blk list \<Rightarrow> nat \<Rightarrow> nat" where
  "cov xs p = length (filter (in_blk p) xs)"

definition blk_ok :: "nat \<Rightarrow> nat \<Rightarrow> blk \<Rightarrow> bool" where
  "blk_ok lo hi x \<longleftrightarrow> lo \<le> fst x \<and> fst x + snd x \<le> hi \<and> 16 dvd fst x \<and> 16 dvd snd x \<and> 32 \<le> snd x"

text \<open>Address order with a gap: two free neighbours would have been coalesced.\<close>

definition gap :: "blk \<Rightarrow> blk \<Rightarrow> bool" where
  "gap x y \<longleftrightarrow> fst x + snd x < fst y"

definition heap_wf :: "nat \<Rightarrow> nat \<Rightarrow> blk list \<Rightarrow> blk list \<Rightarrow> bool" where
  "heap_wf lo hi fl us \<longleftrightarrow> 0 < lo \<and> hi < 4294967296 \<and> list_all (blk_ok lo hi) (fl @ us) \<and>
     sorted_wrt gap fl \<and> (\<forall>p. cov fl p + cov us p = of_bool (lo \<le> p \<and> p < hi))"

lemma cov_simps [simp]:
  "cov [] p = 0"
  "cov (x # xs) p = of_bool (in_blk p x) + cov xs p"
  "cov (xs @ ys) p = cov xs p + cov ys p"
  by (simp_all add: cov_def)

lemma cov_pos_iff: "0 < cov xs p \<longleftrightarrow> (\<exists>x\<in>set xs. in_blk p x)"
  by (induction xs) auto

lemma cov_mem: "x \<in> set xs \<Longrightarrow> in_blk p x \<Longrightarrow> 0 < cov xs p"
  by (auto simp: cov_pos_iff)

lemma cov_remove1: "x \<in> set xs \<Longrightarrow> cov xs p = cov (remove1 x xs) p + of_bool (in_blk p x)"
  by (induction xs) auto

lemma in_blk_pair [simp]: "in_blk p (b, s) \<longleftrightarrow> b \<le> p \<and> p < b + s"
  by (simp add: in_blk_def)

lemma gap_pair [simp]: "gap (b, s) (c, t) \<longleftrightarrow> b + s < c"
  by (simp add: gap_def)

lemma blk_ok_pair: "blk_ok lo hi (b, s) \<longleftrightarrow> lo \<le> b \<and> b + s \<le> hi \<and> 16 dvd b \<and> 16 dvd s \<and> 32 \<le> s"
  by (simp add: blk_ok_def)

lemma blk_start_in: "blk_ok lo hi (b, s) \<Longrightarrow> i < s \<Longrightarrow> in_blk (b + i) (b, s)"
  by simp

lemma heap_wf_blk: "heap_wf lo hi fl us \<Longrightarrow> x \<in> set fl \<or> x \<in> set us \<Longrightarrow> blk_ok lo hi x"
  by (auto simp: heap_wf_def list_all_iff)

text \<open>A free byte is in no used block, and no byte is in two used blocks.\<close>

lemma heap_wf_disjoint:
  assumes "heap_wf lo hi fl us" and "x \<in> set us" and "in_blk p x"
  shows "cov fl p = 0" and "cov (remove1 x us) p = 0"
proof -
  have "cov fl p + cov us p \<le> 1" using assms(1) by (simp add: heap_wf_def of_bool_def)
  with cov_remove1 [OF assms(2), of p] assms(3) show "cov fl p = 0" "cov (remove1 x us) p = 0" by simp_all
qed

lemma heap_wf_free_once:
  assumes "heap_wf lo hi fl us" shows "cov fl p \<le> 1"
proof -
  have "cov fl p + cov us p \<le> 1" using assms by (simp add: heap_wf_def of_bool_def)
  then show ?thesis by simp
qed

section \<open>First-fit allocation\<close>

text \<open>
  The block handed out and the free list left.  A block is split when the remainder is at least the
  minimal block size.
\<close>

fun first_fit :: "nat \<Rightarrow> blk list \<Rightarrow> (blk \<times> blk list) option" where
  "first_fit need [] = None"
| "first_fit need ((b, s) # fl) =
     (if need \<le> s
      then (if need + 32 \<le> s then Some ((b, need), (b + need, s - need) # fl) else Some ((b, s), fl))
      else map_option (\<lambda>(x, fl'). (x, (b, s) # fl')) (first_fit need fl))"

lemma first_fit_cov:
  "first_fit need fl = Some (x, fl') \<Longrightarrow> cov fl p = cov fl' p + of_bool (in_blk p x)"
  by (induction need fl arbitrary: fl' rule: first_fit.induct) (auto split: if_splits)

lemma first_fit_None: "first_fit need fl = None \<longleftrightarrow> (\<forall>x\<in>set fl. snd x < need)"
  by (induction need fl rule: first_fit.induct) auto

lemma first_fit_size:
  "first_fit need fl = Some (x, fl') \<Longrightarrow> need \<le> snd x \<and> snd x < need + 32"
  by (induction need fl arbitrary: fl' rule: first_fit.induct) (auto split: if_splits)

lemma first_fit_ok:
  assumes "first_fit need fl = Some (x, fl')" and "list_all (blk_ok lo hi) fl"
    and "32 \<le> need" and "16 dvd need"
  shows "blk_ok lo hi x \<and> list_all (blk_ok lo hi) fl'"
  using assms
  by (induction need fl arbitrary: fl' rule: first_fit.induct)
     (auto simp: blk_ok_pair dvd_diff_nat split: if_splits)

lemma first_fit_starts:
  "first_fit need fl = Some (x, fl') \<Longrightarrow> y \<in> set fl' \<Longrightarrow>
     \<exists>z\<in>set fl. fst z \<le> fst y \<and> fst y + snd y = fst z + snd z"
  by (induction need fl arbitrary: fl' rule: first_fit.induct) (auto split: if_splits)

lemma first_fit_gap:
  "first_fit need fl = Some (x, fl') \<Longrightarrow> sorted_wrt gap fl \<Longrightarrow> sorted_wrt gap fl'"
proof (induction need fl arbitrary: fl' rule: first_fit.induct)
  case (2 need b s fl)
  show ?case
  proof (cases "need \<le> s")
    case True
    with 2 show ?thesis by (auto simp: gap_def split: if_splits)
  next
    case False
    with "2.prems"(1) obtain fl'' where f: "first_fit need fl = Some (x, fl'')" "fl' = (b, s) # fl''" by auto
    have "sorted_wrt gap fl''" using "2.IH" [OF False f(1)] "2.prems"(2) by simp
    moreover have "gap (b, s) y" if "y \<in> set fl''" for y
    proof -
      from first_fit_starts [OF f(1) that] obtain z where "z \<in> set fl" "fst z \<le> fst y" by blast
      with "2.prems"(2) show ?thesis by (auto simp: gap_def)
    qed
    ultimately show ?thesis using f by simp
  qed
qed simp

lemma first_fit_wf:
  assumes wf: "heap_wf lo hi fl us" and f: "first_fit need fl = Some (x, fl')"
    and need: "32 \<le> need" "16 dvd need"
  shows "heap_wf lo hi fl' (x # us)"
proof -
  have ok: "blk_ok lo hi x" "list_all (blk_ok lo hi) fl'"
    using first_fit_ok [OF f _ need, of lo hi] wf by (simp_all add: heap_wf_def)
  have "cov fl' p + cov (x # us) p = cov fl p + cov us p" for p
    using first_fit_cov [OF f, of p] by simp
  with ok first_fit_gap [OF f] wf show ?thesis by (simp add: heap_wf_def)
qed

section \<open>Coalescing insertion\<close>

text \<open>Put a block in front of a list that starts above it, joining it with a neighbour it touches.\<close>

fun join_front :: "blk \<Rightarrow> blk list \<Rightarrow> blk list" where
  "join_front (b, s) ((c, t) # fl) = (if b + s = c then (b, s + t) # fl else (b, s) # (c, t) # fl)"
| "join_front x [] = [x]"

fun insert_free :: "blk \<Rightarrow> blk list \<Rightarrow> blk list" where
  "insert_free (b, s) ((c, t) # fl) =
     (if c < b
      then (if c + t = b then join_front (c, t + s) fl else (c, t) # insert_free (b, s) fl)
      else join_front (b, s) ((c, t) # fl))"
| "insert_free x [] = [x]"

lemma join_front_cov: "cov (join_front x fl) p = of_bool (in_blk p x) + cov fl p"
  by (cases "(x, fl)" rule: join_front.cases) auto

lemma insert_free_cov: "cov (insert_free x fl) p = of_bool (in_blk p x) + cov fl p"
  by (induction x fl rule: insert_free.induct) (auto simp: join_front_cov)

lemma join_front_ok:
  "blk_ok lo hi x \<Longrightarrow> list_all (blk_ok lo hi) fl \<Longrightarrow> list_all (blk_ok lo hi) (join_front x fl)"
  by (cases "(x, fl)" rule: join_front.cases) (auto simp: blk_ok_pair)

lemma insert_free_ok:
  "blk_ok lo hi x \<Longrightarrow> list_all (blk_ok lo hi) fl \<Longrightarrow> list_all (blk_ok lo hi) (insert_free x fl)"
  by (induction x fl rule: insert_free.induct) (auto simp: blk_ok_pair intro!: join_front_ok)

text \<open>Where the blocks of the result start: at the new block or at an old one.\<close>

lemma join_front_starts: "y \<in> set (join_front x fl) \<Longrightarrow> fst y = fst x \<or> fst y \<in> fst ` set fl"
  by (cases "(x, fl)" rule: join_front.cases) (auto split: if_splits intro: rev_image_eqI)

lemma insert_free_starts: "y \<in> set (insert_free x fl) \<Longrightarrow> fst y = fst x \<or> fst y \<in> fst ` set fl"
  by (induction x fl rule: insert_free.induct)
     (auto split: if_splits dest!: join_front_starts intro: rev_image_eqI)

text \<open>A block that overlaps no free block, in an ordered free list.\<close>

definition apart :: "blk \<Rightarrow> blk list \<Rightarrow> bool" where
  "apart x fl \<longleftrightarrow> (\<forall>y\<in>set fl. fst x + snd x \<le> fst y \<or> fst y + snd y \<le> fst x)"

lemma apartD: "apart (b, s) fl \<Longrightarrow> (c, t) \<in> set fl \<Longrightarrow> b + s \<le> c \<or> c + t \<le> b"
  unfolding apart_def by fastforce

lemma join_front_gap:
  assumes "sorted_wrt gap fl" and "apart x fl" and "\<forall>y\<in>set fl. fst x \<le> fst y" and "list_all (\<lambda>y. 0 < snd y) fl"
  shows "sorted_wrt gap (join_front x fl)"
proof (cases "(x, fl)" rule: join_front.cases)
  case (1 b s c t fl')
  with assms have "b + s \<le> c" by (auto simp: apart_def)
  with 1 assms show ?thesis by (auto simp: gap_def)
next
  case (2 x')
  then show ?thesis by auto
qed

lemma insert_free_gap:
  "sorted_wrt gap fl \<Longrightarrow> apart x fl \<Longrightarrow> list_all (\<lambda>y. 0 < snd y) fl \<Longrightarrow> sorted_wrt gap (insert_free x fl)"
proof (induction x fl rule: insert_free.induct)
  case (1 b s c t fl)
  have hd: "\<forall>y\<in>set fl. c + t < fst y" using "1.prems"(1) by (auto simp: gap_def)
  show ?case
  proof (cases "c < b")
    case True
    show ?thesis
    proof (cases "c + t = b")
      case eq: True
      have "sorted_wrt gap (join_front (c, t + s) fl)"
      proof (rule join_front_gap)
        show "apart (c, t + s) fl" using "1.prems"(2,3) hd eq unfolding apart_def by (fastforce simp: list_all_iff)
        show "\<forall>y\<in>set fl. fst (c, t + s) \<le> fst y" using hd by auto
      qed (use "1.prems" in auto)
      then show ?thesis using True eq by simp
    next
      case ne: False
      have "sorted_wrt gap (insert_free (b, s) fl)"
        using 1(1) [OF True ne] "1.prems" by (auto simp: apart_def)
      moreover have "c + t < b" using "1.prems"(2) True ne by (auto simp: apart_def)
      then have "gap (c, t) y" if "y \<in> set (insert_free (b, s) fl)" for y
        using insert_free_starts [OF that] hd by (auto simp: gap_def)
      ultimately show ?thesis using True ne by simp
    qed
  next
    case False
    have "sorted_wrt gap (join_front (b, s) ((c, t) # fl))"
      by (rule join_front_gap) (use "1.prems" False hd in auto)
    then show ?thesis using False by simp
  qed
qed simp

lemma heap_wf_apart:
  assumes wf: "heap_wf lo hi fl us" and x: "x \<in> set us"
  shows "apart x fl"
  unfolding apart_def
proof
  fix y assume y: "y \<in> set fl"
  have ok: "blk_ok lo hi x" "blk_ok lo hi y" using heap_wf_blk [OF wf] x y by auto
  show "fst x + snd x \<le> fst y \<or> fst y + snd y \<le> fst x"
  proof (rule ccontr)
    assume "\<not> ?thesis"
    then have "in_blk (max (fst x) (fst y)) x" "in_blk (max (fst x) (fst y)) y"
      using ok by (auto simp: in_blk_def blk_ok_def)
    with heap_wf_disjoint(1) [OF wf x] cov_mem [OF y] show False by fastforce
  qed
qed

lemma insert_free_wf:
  assumes wf: "heap_wf lo hi fl us" and x: "x \<in> set us"
  shows "heap_wf lo hi (insert_free x fl) (remove1 x us)"
proof -
  have ok: "list_all (blk_ok lo hi) (insert_free x fl)"
    by (rule insert_free_ok) (use heap_wf_blk [OF wf] x wf in \<open>auto simp: heap_wf_def\<close>)
  have pos: "list_all (\<lambda>y. 0 < snd y) fl"
    using heap_wf_blk [OF wf] by (fastforce simp: list_all_iff blk_ok_def)
  have "sorted_wrt gap (insert_free x fl)"
    by (rule insert_free_gap) (use wf heap_wf_apart [OF wf x] pos in \<open>auto simp: heap_wf_def\<close>)
  moreover have "cov (insert_free x fl) p + cov (remove1 x us) p = cov fl p + cov us p" for p
    using insert_free_cov [of x fl p] cov_remove1 [OF x, of p] by simp
  moreover have "list_all (blk_ok lo hi) (remove1 x us)"
    using wf notin_set_remove1 by (fastforce simp: heap_wf_def list_all_iff)
  ultimately show ?thesis using wf ok by (simp add: heap_wf_def)
qed

end
