(* ===== verification/AllocRefine.thy ===== *)
theory AllocRefine
  imports Alloc HeapSpec
begin

text \<open>
  The allocator of \<open>Alloc\<close> refines the abstract heap of \<open>HeapSpec\<close>: the free list threaded through the
  block headers represents the abstract list, \<^verbatim>\<open>do_alloc\<close> is \<open>first_fit\<close>, \<^verbatim>\<open>yos_free\<close> is
  \<open>insert_free\<close>, and neither touches a byte of a block in use.
\<close>

section \<open>The list inside linear memory\<close>

text \<open>\<open>lseg m h xs q\<close>: following the \<^verbatim>\<open>next\<close> fields from \<open>h\<close> visits the blocks \<open>xs\<close> and arrives at \<open>q\<close>.\<close>

fun lseg :: "mem \<Rightarrow> u32 \<Rightarrow> blk list \<Rightarrow> u32 \<Rightarrow> bool" where
  "lseg m h [] q \<longleftrightarrow> h = q"
| "lseg m h ((b, s) # xs) q \<longleftrightarrow>
     unat h = b \<and> 0 < b \<and> unat (load32 m b) = s \<and> lseg m (load32 m (b + 4)) xs q"

lemma lseg_append: "lseg m h (xs @ ys) q \<longleftrightarrow> (\<exists>r. lseg m h xs r \<and> lseg m r ys q)"
  by (induction m h xs q rule: lseg.induct) auto

lemma lseg_cong:
  assumes "lseg m h xs q" and "\<And>b s i. (b, s) \<in> set xs \<Longrightarrow> b \<le> i \<Longrightarrow> i < b + 8 \<Longrightarrow> m' i = m i"
  shows "lseg m' h xs q"
  using assms
proof (induction m h xs q rule: lseg.induct)
  case (2 m h b s xs q)
  have "load32 m' b = load32 m b" "load32 m' (b + 4) = load32 m (b + 4)"
    using "2.prems"(2) [of b s] by (auto intro!: load32_cong)
  with 2 show ?case by auto
qed simp

text \<open>Redirecting the last node.\<close>

lemma lseg_set_last:
  assumes "lseg m h (xs @ [(c, t)]) q"
    and "\<And>b s. (b, s) \<in> set xs \<Longrightarrow> b + 8 \<le> c + 4 \<or> c + 8 \<le> b"
  shows "lseg (store32 m (c + 4) q') h (xs @ [(c, t)]) q'"
proof -
  from assms(1) obtain r where r: "lseg m h xs r" "unat r = c" "0 < c" "unat (load32 m c) = t"
    by (auto simp: lseg_append)
  have "lseg (store32 m (c + 4) q') h xs r"
    by (rule lseg_cong [OF r(1)]) (use assms(2) in \<open>fastforce simp: store32_other\<close>)
  moreover have "load32 (store32 m (c + 4) q') c = load32 m c" by (simp add: load32_store32_other)
  ultimately show ?thesis using r by (auto simp: lseg_append)
qed

section \<open>The invariant\<close>

definition heap_inv :: "yos_exec_ctx \<Rightarrow> blk list \<Rightarrow> blk list \<Rightarrow> bool" where
  "heap_inv ctx fl us \<longleftrightarrow>
     heap_wf (unat (alloc_lo ctx)) (unat (alloc_hi ctx)) fl us \<and>
     16 dvd unat (alloc_lo ctx) \<and> 16 dvd unat (alloc_hi ctx) \<and>
     alloc_hi ctx \<noteq> 0 \<and> unat (alloc_hi ctx) \<le> 2147483648 \<and> alloc_hi ctx \<le> memory_size ctx \<and>
     lseg (memory ctx) (alloc_free_head ctx) fl 0 \<and>
     (\<forall>x\<in>set us. unat (load32 (memory ctx) (fst x)) = snd x)"

lemma heap_inv_wf: "heap_inv ctx fl us \<Longrightarrow> heap_wf (unat (alloc_lo ctx)) (unat (alloc_hi ctx)) fl us"
  by (simp add: heap_inv_def)

lemma heap_inv_blk:
  assumes "heap_inv ctx fl us" and "(b, s) \<in> set fl \<or> (b, s) \<in> set us"
  shows "unat (alloc_lo ctx) \<le> b" "b + s \<le> unat (alloc_hi ctx)" "b + s \<le> 2147483648"
    "b + s \<le> unat (memory_size ctx)" "0 < b" "16 dvd b" "16 dvd s" "32 \<le> s"
proof -
  have ok: "blk_ok (unat (alloc_lo ctx)) (unat (alloc_hi ctx)) (b, s)"
    using heap_wf_blk [OF heap_inv_wf [OF assms(1)] assms(2)] .
  then show "unat (alloc_lo ctx) \<le> b" "b + s \<le> unat (alloc_hi ctx)" "16 dvd b" "16 dvd s" "32 \<le> s"
    by (simp_all add: blk_ok_pair)
  with assms(1) show "b + s \<le> 2147483648" "b + s \<le> unat (memory_size ctx)" "0 < b"
    by (auto simp: heap_inv_def heap_wf_def word_le_nat_alt)
qed

text \<open>
  The frame of both operations: an update of memory that leaves the bytes of the used blocks alone
  keeps their headers.
\<close>

lemma used_headers_kept:
  assumes "heap_inv ctx fl us" and "set vs \<subseteq> set us"
    and "\<And>p x. x \<in> set vs \<Longrightarrow> in_blk p x \<Longrightarrow> m p = memory ctx p"
  shows "\<forall>x\<in>set vs. unat (load32 m (fst x)) = snd x"
proof
  fix x assume x: "x \<in> set vs"
  obtain b s where bs: "x = (b, s)" by (cases x)
  have "32 \<le> s" using heap_inv_blk [OF assms(1), of b s] assms(2) x bs by auto
  then have "load32 m b = load32 (memory ctx) b"
    by (intro load32_cong) (use assms(3) [OF x] bs in auto)
  moreover have "(b, s) \<in> set us" using assms(2) x bs by blast
  then have "unat (load32 (memory ctx) b) = s" using assms(1) unfolding heap_inv_def by force
  ultimately show "unat (load32 m (fst x)) = snd x" using bs by simp
qed

lemma sorted_gap_split:
  assumes "sorted_wrt gap (pre @ (b, s) # rest)"
  shows "\<And>c t. (c, t) \<in> set pre \<Longrightarrow> c + t < b" and "\<And>c t. (c, t) \<in> set rest \<Longrightarrow> b + s < c"
    and "sorted_wrt gap pre" and "sorted_wrt gap rest"
  using assms by (auto simp: sorted_wrt_append)

section \<open>first fit\<close>

lemma first_fit_skip:
  assumes "\<And>x. x \<in> set pre \<Longrightarrow> snd x < need"
  shows "first_fit need (pre @ fl) = map_option (\<lambda>(x, fl'). (x, pre @ fl')) (first_fit need fl)"
  using assms
proof (induction pre)
  case (Cons x pre)
  obtain c t where x: "x = (c, t)" by (cases x)
  have "\<not> need \<le> t" using Cons.prems [of x] x by simp
  with Cons x show ?case by (simp add: option.map_comp comp_def case_prod_unfold)
qed (simp add: case_prod_unfold option.map_ident)

text \<open>Taking the block after \<open>pre\<close> off the list, whole or split.\<close>

definition prev_of :: "blk list \<Rightarrow> u32" where
  "prev_of pre = (if pre = [] then 0 else of_nat (fst (last pre)))"

lemma relink:
  assumes seg: "lseg m h pre q" and h: "pre = [] \<Longrightarrow> h' = q'"
    and h2: "pre \<noteq> [] \<Longrightarrow> h' = h"
    and far: "\<And>c t. (c, t) \<in> set pre \<Longrightarrow> 32 \<le> t \<and> c + t \<le> 2147483648"
    and sorted: "sorted_wrt gap pre"
    and m': "m' = (if pre = [] then m else store32 m (unat (prev_of pre) + 4) q')"
  shows "lseg m' h' pre q'"
proof (cases pre rule: rev_cases)
  case Nil
  then show ?thesis using h by simp
next
  case (snoc xs x)
  obtain c t where x: "x = (c, t)" by (cases x)
  have "c < 4294967296" using far [of c t] snoc x by auto
  then have "unat (prev_of pre) = c" using snoc x by (simp add: prev_of_def unat_of_nat_u32)
  moreover have "b + 8 \<le> c + 4 \<or> c + 8 \<le> b" if "(b, s) \<in> set xs" for b s
    using sorted far [of b s] that snoc x by (auto simp: sorted_wrt_append gap_def)
  ultimately show ?thesis using lseg_set_last [of m h xs c t q q'] seg snoc x m' h2 by simp
qed

definition link_prev :: "mem \<Rightarrow> blk list \<Rightarrow> u32 \<Rightarrow> mem" where
  "link_prev m pre q = (if pre = [] then m else store32 m (unat (prev_of pre) + 4) q)"

lemma prev_of_bounds:
  assumes inv: "heap_inv ctx (pre @ fl) us" and ne: "pre \<noteq> []"
  shows "unat (prev_of pre) = fst (last pre)" and "prev_of pre \<noteq> 0" and "32 \<le> snd (last pre)"
proof -
  obtain c t where l: "last pre = (c, t)" by (cases "last pre")
  then have mem: "(c, t) \<in> set (pre @ fl)" using ne last_in_set by fastforce
  note b = heap_inv_blk [OF inv disjI1 [OF mem]]
  show u: "unat (prev_of pre) = fst (last pre)"
    using ne b(3) l by (simp add: prev_of_def unat_of_nat_u32)
  then show "prev_of pre \<noteq> 0" using b(5) l by (metis fst_conv less_irrefl unat_0)
  show "32 \<le> snd (last pre)" using b l by simp
qed

lemma prev_of_Nil_iff: "heap_inv ctx (pre @ fl) us \<Longrightarrow> prev_of pre = 0 \<longleftrightarrow> pre = []"
  using prev_of_bounds(2) by (auto simp: prev_of_def)

lemma link_prev_frame:
  assumes inv: "heap_inv ctx (pre @ fl) us" and p: "cov pre p = 0"
  shows "link_prev m pre q p = m p"
proof (cases "pre = []")
  case False
  note l = prev_of_bounds [OF inv False]
  have "\<not> in_blk p (last pre)" using p cov_mem [OF last_in_set [OF False], of p] by auto
  with l show ?thesis by (auto simp: link_prev_def in_blk_def store32_def)
qed (simp add: link_prev_def)

text \<open>
  Replacing everything behind \<open>pre\<close> by a list that is already linked up in \<open>m1\<close>, by one store to the
  \<^verbatim>\<open>next\<close> field of the last block of \<open>pre\<close> (or to the head).
\<close>

lemma splice:
  assumes inv: "heap_inv ctx (pre @ fl) us"
    and pre_same: "\<And>p. 0 < cov pre p \<Longrightarrow> m1 p = memory ctx p"
    and tail: "lseg m1 q' tail 0"
    and above: "\<And>c t d u. (c, t) \<in> set pre \<Longrightarrow> (d, u) \<in> set tail \<Longrightarrow> c + t \<le> d"
  shows "lseg (link_prev m1 pre q') (if pre = [] then q' else alloc_free_head ctx) (pre @ tail) 0"
proof -
  have blk: "c + t \<le> 2147483648 \<and> 32 \<le> t" if "(c, t) \<in> set pre" for c t
    using heap_inv_blk [OF inv, of c t] that by simp
  obtain q where "lseg (memory ctx) (alloc_free_head ctx) pre q"
    using inv by (auto simp: heap_inv_def lseg_append)
  then have seg: "lseg m1 (alloc_free_head ctx) pre q"
    by (rule lseg_cong) (use pre_same blk in \<open>force simp: cov_pos_iff\<close>)
  have sorted: "sorted_wrt gap pre" using inv by (simp add: heap_inv_def heap_wf_def sorted_wrt_append)
  have "lseg (link_prev m1 pre q') (if pre = [] then q' else alloc_free_head ctx) pre q'"
    by (rule relink [OF seg _ _ _ sorted]) (use blk in \<open>auto simp: link_prev_def\<close>)
  moreover have "lseg (link_prev m1 pre q') q' tail 0"
  proof (rule lseg_cong [OF tail])
    fix d u i assume "(d, u) \<in> set tail" "d \<le> i"
    then have "cov pre i = 0"
      using above cov_pos_iff [of pre i] by (fastforce simp: in_blk_def)
    then show "link_prev m1 pre q' i = m1 i" by (rule link_prev_frame [OF inv])
  qed
  ultimately show ?thesis by (auto simp: lseg_append)
qed

lemma lseg_split_heap:
  assumes inv: "heap_inv ctx (pre @ (b, s) # rest) us"
  shows "unat (of_nat b :: u32) = b" and "unat (blk_size ctx (of_nat b)) = s"
    and "lseg (memory ctx) (blk_next ctx (of_nat b)) rest 0"
proof -
  show b: "unat (of_nat b :: u32) = b"
    using heap_inv_blk(3) [OF inv, of b s] by (simp add: unat_of_nat_u32)
  from inv obtain r where "lseg (memory ctx) r ((b, s) # rest) 0"
    by (auto simp: heap_inv_def lseg_append)
  with b show "unat (blk_size ctx (of_nat b)) = s" "lseg (memory ctx) (blk_next ctx (of_nat b)) rest 0"
    by (simp_all add: blk_size_def blk_next_def)
qed

text \<open>What \<open>take_block\<close> does to memory and to the head.\<close>

lemma take_block_eq:
  assumes inv: "heap_inv ctx (pre @ (b, s) # rest) us" and fits: "unat need \<le> s"
  shows "take_block ctx need (prev_of pre) (of_nat b) =
    (let sp = unat need + 32 \<le> s;
         nx = blk_next ctx (of_nat b);
         q = (if sp then of_nat b + need else nx);
         m1 = (if sp then store32 (store32 (store32 (memory ctx) (b + unat need) (of_nat s - need))
                  (b + unat need + 4) nx) b need else memory ctx)
     in (of_nat b + 8, ctx\<lparr>memory := link_prev m1 pre q,
           alloc_free_head := (if pre = [] then q else alloc_free_head ctx)\<rparr>))"
proof -
  note h = lseg_split_heap [OF inv] and k = heap_inv_blk [OF inv, of b s]
  have sz: "blk_size ctx (of_nat b) = of_nat s"
    using h(2) by (metis of_nat_unat_u32)
  have s: "unat (of_nat s :: u32) = s" using h(2) sz by simp
  have add: "unat (need + 32) = unat need + 32"
    using unat_add_nowrap [of need 32] fits k by simp
  have le: "need + 32 \<le> of_nat s \<longleftrightarrow> unat need + 32 \<le> s" using add s by (simp add: word_le_nat_alt)
  have sp: "unat (of_nat b + need) = b + unat need"
    using unat_add_nowrap [of "of_nat b" need] h(1) fits k by simp
  show ?thesis
    using prev_of_Nil_iff [OF inv] h(1) sp
    by (simp add: take_block_def sz le Let_def blk_set_size_def blk_set_next_def link_prev_def)
qed

text \<open>
  The step of the refinement: what a change of memory and head must satisfy to represent a new
  tiling.
\<close>

lemma heap_inv_step:
  assumes inv: "heap_inv ctx fl us"
    and wf: "heap_wf (unat (alloc_lo ctx)) (unat (alloc_hi ctx)) fl' us'"
    and seg: "lseg m h fl' 0" and us: "\<forall>x\<in>set us'. unat (load32 m (fst x)) = snd x"
  shows "heap_inv (ctx\<lparr>memory := m, alloc_free_head := h\<rparr>) fl' us'"
  using inv wf seg us by (simp add: heap_inv_def)

lemma take_block_refines:
  assumes inv: "heap_inv ctx (pre @ (b, s) # rest) us" and fits: "unat need \<le> s"
    and need: "32 \<le> unat need" "16 dvd unat need"
    and small: "\<And>x. x \<in> set pre \<Longrightarrow> snd x < unat need"
    and res: "take_block ctx need (prev_of pre) (of_nat b) = (off, ctx')"
  obtains n fl' m h where "off = of_nat b + 8" "ctx' = ctx\<lparr>memory := m, alloc_free_head := h\<rparr>"
    "first_fit (unat need) (pre @ (b, s) # rest) = Some ((b, n), fl')"
    "heap_inv ctx' fl' ((b, n) # us)"
    "\<And>p. cov (pre @ (b, s) # rest) p = 0 \<Longrightarrow> m p = memory ctx p"
proof -
  note h = lseg_split_heap [OF inv] and k = heap_inv_blk [OF inv, of b s, simplified]
  let ?sp = "unat need + 32 \<le> s" and ?nx = "blk_next ctx (of_nat b)"
  let ?fl = "pre @ (b, s) # rest"
  define q where "q = (if ?sp then of_nat b + need else ?nx)"
  define m1 where "m1 = (if ?sp then store32 (store32 (store32 (memory ctx) (b + unat need) (of_nat s - need))
                  (b + unat need + 4) ?nx) b need else memory ctx)"
  define n where "n = (if ?sp then unat need else s)"
  define tail where "tail = (if ?sp then (b + unat need, s - unat need) # rest else rest)"
  have eq: "off = of_nat b + 8" "ctx' = ctx\<lparr>memory := link_prev m1 pre q,
      alloc_free_head := (if pre = [] then q else alloc_free_head ctx)\<rparr>"
    using res unfolding take_block_eq [OF inv fits] Let_def q_def m1_def by auto
  have ff: "first_fit (unat need) ?fl = Some ((b, n), pre @ tail)"
    using first_fit_skip [of pre "unat need" "(b, s) # rest"] small fits by (simp add: n_def tail_def)
  have srt: "sorted_wrt gap ?fl" using inv by (simp add: heap_inv_def heap_wf_def)
  note sg = sorted_gap_split [OF srt]
  have m1: "m1 p = memory ctx p" if "\<not> in_blk p (b, s)" for p
    using that need fits k by (auto simp: m1_def store32_other)
  have rest: "lseg m1 ?nx rest 0"
    by (rule lseg_cong [OF h(3)]) (use m1 sg(2) in fastforce)
  have tl: "lseg m1 q tail 0"
  proof (cases ?sp)
    case True
    have u: "unat (of_nat b + need) = b + unat need"
      using unat_add_nowrap [of "of_nat b" need] h(1) fits k by simp
    have "unat (of_nat s - need :: u32) = s - unat need"
    proof -
      have "unat (of_nat s :: u32) = s" using k by (simp add: unat_of_nat_u32)
      then show ?thesis using fits by (simp add: unat_sub_nowrap word_le_nat_alt)
    qed
    moreover have "load32 m1 (b + unat need) = of_nat s - need" "load32 m1 (b + unat need + 4) = ?nx"
      using need by (simp_all add: m1_def True load32_store32_other)
    ultimately show ?thesis using True u rest k by (simp add: q_def tail_def)
  next
    case False
    then show ?thesis using rest by (simp add: q_def tail_def)
  qed
  have seg: "lseg (link_prev m1 pre q) (if pre = [] then q else alloc_free_head ctx) (pre @ tail) 0"
  proof (rule splice [OF inv _ tl])
    show "m1 p = memory ctx p" if "0 < cov pre p" for p
      by (rule m1) (use that sg(1) in \<open>fastforce simp: cov_pos_iff in_blk_def\<close>)
    show "c + t \<le> d" if "(c, t) \<in> set pre" "(d, u) \<in> set tail" for c t d u
      using sg(1) [OF that(1)] sg(2) [of d u] that(2) by (auto simp: tail_def split: if_splits)
  qed
  have frame: "link_prev m1 pre q p = memory ctx p" if "cov ?fl p = 0" for p
  proof -
    have "cov pre p = 0" "\<not> in_blk p (b, s)" using that by auto
    then show ?thesis using link_prev_frame [OF inv] m1 by simp
  qed
  have hdr: "unat (load32 (link_prev m1 pre q) b) = n"
  proof -
    have pz: "cov pre i = 0" if "b \<le> i" for i
      using sg(1) that cov_pos_iff [of pre i] by (fastforce simp: in_blk_def)
    have "load32 (link_prev m1 pre q) b = load32 m1 b"
      by (rule load32_cong) (use link_prev_frame [OF inv pz] in simp)
    then show ?thesis using h(1,2) by (simp add: m1_def n_def blk_size_def)
  qed
  have wf: "heap_wf (unat (alloc_lo ctx)) (unat (alloc_hi ctx)) (pre @ tail) ((b, n) # us)"
    by (rule first_fit_wf [OF heap_inv_wf [OF inv] ff need])
  have us: "\<forall>x\<in>set us. unat (load32 (link_prev m1 pre q) (fst x)) = snd x"
    by (rule used_headers_kept [OF inv subset_refl])
       (use frame heap_wf_disjoint(1) [OF heap_inv_wf [OF inv]] in blast)
  have "heap_inv ctx' (pre @ tail) ((b, n) # us)"
    unfolding eq(2) by (rule heap_inv_step [OF inv wf seg]) (use us hdr in simp)
  then show thesis using that eq ff frame by blast
qed

text \<open>The walk: \<open>pre\<close> has been visited and was too small.\<close>

lemma do_alloc_loop_refines:
  assumes inv: "heap_inv ctx (pre @ fl) us"
    and need: "32 \<le> unat need" "16 dvd unat need"
    and small: "\<And>x. x \<in> set pre \<Longrightarrow> snd x < unat need"
    and cur: "lseg (memory ctx) cur fl 0" and g: "guard \<le> WALK_GUARD"
    and res: "do_alloc_loop ctx need (prev_of pre) cur guard = (off, ctx')"
  shows "(off = 0 \<and> ctx' = ctx \<and> (\<forall>x\<in>set (take (WALK_GUARD - guard) fl). snd x < unat need)) \<or>
    (\<exists>b n fl' m h. off = of_nat b + 8 \<and> ctx' = ctx\<lparr>memory := m, alloc_free_head := h\<rparr> \<and>
       first_fit (unat need) (pre @ fl) = Some ((b, n), fl') \<and> heap_inv ctx' fl' ((b, n) # us) \<and>
       (\<exists>x\<in>set (take (WALK_GUARD - guard) fl). unat need \<le> snd x) \<and>
       (\<forall>p. cov (pre @ fl) p = 0 \<longrightarrow> m p = memory ctx p))"
  using assms
proof (induction fl arbitrary: pre cur guard)
  case Nil
  then have "cur = 0" by simp
  with Nil have "off = 0" "ctx' = ctx" by (simp_all add: do_alloc_loop.simps [of ctx need])
  then show ?case by simp
next
  case (Cons x rest)
  obtain b s where x: "x = (b, s)" by (cases x)
  note inv = Cons.prems(1) [unfolded x]
  note h = lseg_split_heap [OF inv] and k = heap_inv_blk [OF inv, of b s, simplified]
  have cb: "cur = of_nat b" using Cons.prems(5) x by auto
  have c0: "cur \<noteq> 0" using Cons.prems(5) x by auto
  have loop: "do_alloc_loop ctx need (prev_of pre) cur guard =
      (if WALK_GUARD < Suc guard then (0, ctx)
       else if need \<le> blk_size ctx cur then take_block ctx need (prev_of pre) cur
       else do_alloc_loop ctx need cur (blk_next ctx cur) (Suc guard))"
    using c0 by (subst do_alloc_loop.simps) simp
  consider "guard = WALK_GUARD" | "guard < WALK_GUARD" "unat need \<le> s" | "guard < WALK_GUARD" "\<not> unat need \<le> s"
    using Cons.prems(6) by linarith
  then show ?case
  proof cases
    case 1
    then show ?thesis using loop Cons.prems(7) by simp
  next
    case 2
    note True = 2(2)
    then have "need \<le> blk_size ctx cur" using h(2) cb by (simp add: word_le_nat_alt)
    then have "take_block ctx need (prev_of pre) (of_nat b) = (off, ctx')"
      using loop Cons.prems(7) cb 2(1) by simp
    moreover have "x \<in> set (take (WALK_GUARD - guard) (x # rest))" using 2(1) by (cases "WALK_GUARD - guard") auto
    then have "\<exists>y\<in>set (take (WALK_GUARD - guard) (x # rest)). unat need \<le> snd y" using True x by (intro bexI [of _ x]) simp_all
    ultimately show ?thesis using take_block_refines [OF inv True need Cons.prems(4), of off ctx'] unfolding x by metis
  next
    case 3
    note False = 3(2)
    have "\<not> need \<le> blk_size ctx cur" using False h(2) cb by (simp add: word_le_nat_alt)
    then have "do_alloc_loop ctx need (prev_of (pre @ [x])) (blk_next ctx cur) (Suc guard) = (off, ctx')"
      using loop Cons.prems(7) cb x 3(1) by (simp add: prev_of_def)
    moreover have "snd y < unat need" if "y \<in> set (pre @ [x])" for y
      using that Cons.prems(4) [of y] False x by auto
    moreover have "take (WALK_GUARD - guard) (x # rest) = x # take (WALK_GUARD - Suc guard) rest"
      using 3(1) by (metis Suc_diff_Suc take_Suc_Cons)
    ultimately show ?thesis
      using Cons.IH [of "pre @ [x]" "blk_next ctx cur" "Suc guard"] inv need h(3) cb 3 x by simp
  qed
qed

section \<open>Coalescing free\<close>

lemma free_walk_split:
  assumes "heap_inv ctx (pre @ post) us" and "(b, s) \<in> set us"
    and "lseg (memory ctx) cur post 0" and "\<And>x. x \<in> set pre \<Longrightarrow> fst x < b"
  shows "\<exists>pre' post' c'. pre @ post = pre' @ post' \<and>
    free_walk ctx (of_nat b) (prev_of pre) cur = Some (Some (prev_of pre', c')) \<and>
    lseg (memory ctx) c' post' 0 \<and> (\<forall>x\<in>set pre'. fst x < b) \<and> (\<forall>x\<in>set post'. b < fst x)"
  using assms
proof (induction post arbitrary: pre cur)
  case Nil
  have "free_walk ctx (of_nat b) (prev_of pre) cur = Some (Some (prev_of pre, cur))"
    using Nil.prems(3) by (subst free_walk.simps) simp
  then show ?case using Nil.prems by (intro exI [of _ pre] exI [of _ "[]"] exI [of _ cur]) auto
next
  case (Cons x rest)
  obtain d u where x: "x = (d, u)" by (cases x)
  note inv = Cons.prems(1) [unfolded x]
  note h = lseg_split_heap [OF inv] and k = heap_inv_blk [OF inv, of d u, simplified]
    and kb = heap_inv_blk [OF inv disjI2 [OF Cons.prems(2)]]
  have cd: "unat cur = d" and c: "cur = of_nat d" and c0: "cur \<noteq> 0" using Cons.prems(3) x by auto
  have ub: "unat (of_nat b :: u32) = b" using kb by (simp add: unat_of_nat_u32)
  have ap: "b + s \<le> d \<or> d + u \<le> b"
    using heap_wf_apart [OF heap_inv_wf [OF inv] Cons.prems(2)] by (auto simp: apart_def)
  show ?case
  proof (cases "d < b")
    case True
    then have du: "d + u \<le> b" using ap kb by linarith
    have "unat (cur + blk_size ctx cur) = d + u"
      using unat_add_nowrap [of cur "blk_size ctx cur"] h(2) cd c k by simp
    then have "\<not> of_nat b < cur + blk_size ctx cur" using du ub by (simp add: word_less_nat_alt)
    moreover have "cur < of_nat b" using True ub cd by (simp add: word_less_nat_alt)
    ultimately have "free_walk ctx (of_nat b) (prev_of pre) cur
        = free_walk ctx (of_nat b) (prev_of (pre @ [x])) (blk_next ctx cur)"
      using c0 by (subst free_walk.simps) (simp add: prev_of_def x c)
    moreover have "\<exists>pre' post' c'. (pre @ [x]) @ rest = pre' @ post' \<and>
      free_walk ctx (of_nat b) (prev_of (pre @ [x])) (blk_next ctx cur) = Some (Some (prev_of pre', c')) \<and>
      lseg (memory ctx) c' post' 0 \<and> (\<forall>x\<in>set pre'. fst x < b) \<and> (\<forall>x\<in>set post'. b < fst x)"
      by (rule Cons.IH) (use inv Cons.prems h(3) c True x in auto)
    ultimately show ?thesis by simp
  next
    case False
    then have "b < d" using ap k kb by linarith
    moreover have "\<forall>y\<in>set rest. d < fst y"
      using inv by (auto simp: heap_inv_def heap_wf_def sorted_wrt_append gap_def)
    moreover have "free_walk ctx (of_nat b) (prev_of pre) cur = Some (Some (prev_of pre, cur))"
      using False ub cd by (subst free_walk.simps) (simp add: word_less_nat_alt)
    ultimately show ?thesis
      using Cons.prems x by (intro exI [of _ pre] exI [of _ "x # rest"] exI [of _ cur]) auto
  qed
qed

text \<open>Where \<open>insert_free\<close> puts the block.\<close>

lemma insert_free_split:
  assumes "sorted_wrt gap (pre @ post)" and "\<forall>x\<in>set pre. fst x < b" and "\<forall>x\<in>set post. b < fst x"
  shows "insert_free (b, s) (pre @ post) =
    (if pre \<noteq> [] \<and> fst (last pre) + snd (last pre) = b
     then butlast pre @ join_front (fst (last pre), snd (last pre) + s) post
     else pre @ join_front (b, s) post)"
  using assms
proof (induction pre)
  case Nil
  then show ?case by (cases post) auto
next
  case (Cons x pre)
  obtain c t where x: "x = (c, t)" by (cases x)
  show ?case
  proof (cases pre)
    case Nil
    then show ?thesis using Cons x by (cases post) auto
  next
    case (Cons y pre')
    have "c + t < fst y" "fst y < b" using Cons.prems Cons x by (auto simp: gap_def)
    then show ?thesis using Cons.IH Cons.prems Cons x by auto
  qed
qed

text \<open>The second join: block \<open>b\<close>, already linked to \<open>post\<close>, absorbs the head of \<open>post\<close> if they touch.\<close>

definition join_mem :: "mem \<Rightarrow> u32 \<Rightarrow> u32 \<Rightarrow> u32 \<Rightarrow> mem" where
  "join_mem m blk sz cur =
     (if cur \<noteq> 0 \<and> blk + sz = cur
      then store32 (store32 m (unat blk) (sz + load32 m (unat cur))) (unat blk + 4) (load32 m (unat cur + 4))
      else m)"

lemma join_mem_frame: "p < unat blk \<or> unat blk + 8 \<le> p \<Longrightarrow> join_mem m blk sz cur p = m p"
  by (auto simp: join_mem_def store32_other)

lemma join_mem_lseg:
  assumes post: "lseg m cur post 0" and b: "0 < unat blk"
    and size: "load32 m (unat blk) = sz" and nxt: "load32 m (unat blk + 4) = cur"
    and room: "unat blk + unat sz \<le> 2147483648" "8 \<le> unat sz"
    and above: "\<And>d u. (d, u) \<in> set post \<Longrightarrow> unat blk + unat sz \<le> d \<and> 8 \<le> u \<and> d + u \<le> 2147483648"
    and srt: "sorted_wrt gap post"
  shows "lseg (join_mem m blk sz cur) blk (join_front (unat blk, unat sz) post) 0"
proof (cases post)
  case Nil
  then show ?thesis using assms by (simp add: join_mem_def)
next
  case (Cons y rest)
  obtain d u where y: "y = (d, u)" by (cases y)
  have cur: "unat cur = d" "cur \<noteq> 0" "unat (load32 m d) = u" "lseg m (load32 m (d + 4)) rest 0"
    using post Cons y by auto
  note ab = above [of d u, simplified Cons y, simplified]
  have far: "d < d'" if "(d', u') \<in> set rest" for d' u' using srt Cons y that by auto
  have "unat (blk + sz) = unat blk + unat sz" using room by (simp add: unat_add_nowrap)
  then have touch: "blk + sz = cur \<longleftrightarrow> unat blk + unat sz = d" using cur(1) by (simp add: u32_eq_unat)
  show ?thesis
  proof (cases "unat blk + unat sz = d")
    case True
    have sum: "unat (sz + load32 m d) = unat sz + u"
      using unat_add_nowrap [of sz "load32 m d"] cur ab True by simp
    have "lseg (join_mem m blk sz cur) (load32 m (d + 4)) rest 0"
    proof (rule lseg_cong [OF cur(4)])
      fix d' u' i assume "(d', u') \<in> set rest" "d' \<le> i"
      then show "join_mem m blk sz cur i = m i"
        using far [of d' u'] ab room by (intro join_mem_frame) auto
    qed
    then show ?thesis
      using Cons y True touch cur b sum by (simp add: join_mem_def load32_store32_other)
  next
    case False
    then show ?thesis using Cons y touch post b size nxt by (simp add: join_mem_def)
  qed
qed

lemma splice_keep:
  assumes inv: "heap_inv ctx (pre @ fl) us"
    and same: "\<And>p. 0 < cov pre p \<Longrightarrow> m p = link_prev (memory ctx) pre q' p"
    and tail: "lseg m q' tail 0"
  shows "lseg m (if pre = [] then q' else alloc_free_head ctx) (pre @ tail) 0"
proof -
  have blk: "32 \<le> t \<and> c + t \<le> 2147483648" if "(c, t) \<in> set pre" for c t
    using heap_inv_blk [OF inv, of c t] that by simp
  have "lseg (link_prev (memory ctx) pre q') (if pre = [] then q' else alloc_free_head ctx) pre q'"
  proof -
    obtain q where seg: "lseg (memory ctx) (alloc_free_head ctx) pre q"
      using inv by (auto simp: heap_inv_def lseg_append)
    have sorted: "sorted_wrt gap pre" using inv by (simp add: heap_inv_def heap_wf_def sorted_wrt_append)
    show ?thesis
      by (rule relink [OF seg _ _ _ sorted])
         (use blk in \<open>auto simp: link_prev_def\<close>)
  qed
  then have "lseg m (if pre = [] then q' else alloc_free_head ctx) pre q'"
    by (rule lseg_cong) (use same blk in \<open>force simp: cov_pos_iff\<close>)
  with tail show ?thesis by (auto simp: lseg_append)
qed

lemma free_link_eq:
  "free_link ctx blk sz prev cur =
     (if prev \<noteq> 0 \<and> prev + blk_size ctx prev = blk
      then ctx\<lparr>memory := join_mem (store32 (memory ctx) (unat prev) (blk_size ctx prev + sz))
             prev (blk_size ctx prev + sz) cur\<rparr>
      else ctx\<lparr>memory := join_mem (store32 (if prev = 0 then memory ctx
               else store32 (memory ctx) (unat prev + 4) blk) (unat blk + 4) cur) blk sz cur,
             alloc_free_head := (if prev = 0 then blk else alloc_free_head ctx)\<rparr>)"
  by (simp add: free_link_def Let_def join_mem_def blk_size_def blk_next_def blk_set_size_def blk_set_next_def)

text \<open>No join with the block before.\<close>

lemma free_link_apart:
  assumes inv: "heap_inv ctx (pre @ post) us" and x: "(b, s) \<in> set us"
    and cur: "lseg (memory ctx) cur post 0"
    and lt: "\<forall>x\<in>set pre. fst x < b" and gt: "\<forall>x\<in>set post. b < fst x"
    and m: "m = join_mem (store32 (link_prev (memory ctx) pre (of_nat b)) (b + 4) cur) (of_nat b) (of_nat s) cur"
  shows "lseg m (if pre = [] then of_nat b else alloc_free_head ctx) (pre @ join_front (b, s) post) 0"
    and "cov pre p = 0 \<Longrightarrow> p < b \<or> b + 8 \<le> p \<Longrightarrow> m p = memory ctx p"
proof -
  note k = heap_inv_blk [OF inv disjI2 [OF x]]
  let ?m1 = "store32 (link_prev (memory ctx) pre (of_nat b)) (b + 4) cur"
  have ub: "unat (of_nat b :: u32) = b" and us: "unat (of_nat s :: u32) = s"
    using k by (simp_all add: unat_of_nat_u32)
  have ap: "apart (b, s) (pre @ post)" using heap_wf_apart [OF heap_inv_wf [OF inv] x] .
  have pre_lt: "c + t \<le> b" if "(c, t) \<in> set pre" for c t
  proof -
    have "b + s \<le> c \<or> c + t \<le> b" by (rule apartD [OF ap]) (use that in simp)
    moreover have "c < b" using lt that by fastforce
    ultimately show ?thesis by linarith
  qed
  have pre0: "cov pre p = 0" if "b \<le> p" for p
    using pre_lt that cov_pos_iff [of pre p] by (fastforce simp: in_blk_def)
  have m1: "?m1 p = memory ctx p" if "cov pre p = 0" "p < b + 4 \<or> b + 8 \<le> p" for p
    using that(2) link_prev_frame [OF inv that(1)] by (auto simp: store32_def)
  have above: "b + s \<le> d \<and> 8 \<le> u \<and> d + u \<le> 2147483648" if "(d, u) \<in> set post" for d u
  proof -
    have "b + s \<le> d \<or> d + u \<le> b" by (rule apartD [OF ap]) (use that in simp)
    moreover have "b < d" using gt that by fastforce
    moreover have "32 \<le> u" "d + u \<le> 2147483648" using heap_inv_blk [OF inv, of d u] that by simp_all
    ultimately show ?thesis by linarith
  qed
  have srt: "sorted_wrt gap post" using inv by (simp add: heap_inv_def heap_wf_def sorted_wrt_append)
  have "lseg m (of_nat b) (join_front (unat (of_nat b :: u32), unat (of_nat s :: u32)) post) 0"
    unfolding m
  proof (rule join_mem_lseg)
    show "lseg ?m1 cur post 0"
      by (rule lseg_cong [OF cur]) (use above m1 pre0 k in fastforce)
    have "unat (load32 (memory ctx) b) = s" using inv x unfolding heap_inv_def by force
    then have "load32 (memory ctx) b = of_nat s" by (metis of_nat_unat_u32)
    moreover have "load32 ?m1 b = load32 (memory ctx) b"
      by (rule load32_cong) (use m1 pre0 in auto)
    ultimately show "load32 ?m1 (unat (of_nat b :: u32)) = of_nat s" using ub by simp
  qed (use ub us k above srt in auto)
  then have tail: "lseg m (of_nat b) (join_front (b, s) post) 0" using ub us by simp
  show "lseg m (if pre = [] then of_nat b else alloc_free_head ctx) (pre @ join_front (b, s) post) 0"
  proof (rule splice_keep [OF inv _ tail])
    fix p assume "0 < cov pre p"
    then have "p < b" using pre0 [of p] by (cases "p < b") auto
    then show "m p = link_prev (memory ctx) pre (of_nat b) p"
      unfolding m using ub by (simp add: join_mem_frame store32_other)
  qed
  show "m p = memory ctx p" if "cov pre p = 0" "p < b \<or> b + 8 \<le> p"
    unfolding m using that m1 ub by (subst join_mem_frame) auto
qed

text \<open>The block before absorbs the freed one.\<close>

lemma free_link_touch:
  assumes inv: "heap_inv ctx (pre @ (c, t) # post) us" and x: "(c + t, s) \<in> set us"
    and cur: "lseg (memory ctx) cur post 0" and gt: "\<forall>x\<in>set post. c + t < fst x"
    and m: "m = join_mem (store32 (memory ctx) c (of_nat (t + s))) (of_nat c) (of_nat (t + s)) cur"
  shows "lseg m (alloc_free_head ctx) (pre @ join_front (c, t + s) post) 0"
    and "p < c \<or> c + 8 \<le> p \<Longrightarrow> m p = memory ctx p"
proof -
  note kc = heap_inv_blk [OF inv, of c t, simplified] and k = heap_inv_blk [OF inv disjI2 [OF x]]
  note h = lseg_split_heap [OF inv]
  let ?m1 = "store32 (memory ctx) c (of_nat (t + s))"
  have uc: "unat (of_nat c :: u32) = c" and uts: "unat (of_nat (t + s) :: u32) = t + s"
    using k kc by (simp_all add: unat_of_nat_u32 del: of_nat_add)
  have srt: "sorted_wrt gap (pre @ (c, t) # post)" using inv by (simp add: heap_inv_def heap_wf_def)
  note sg = sorted_gap_split [OF srt]
  have ap: "apart (c + t, s) post" using heap_wf_apart [OF heap_inv_wf [OF inv] x] by (auto simp: apart_def)
  have above: "c + (t + s) \<le> d \<and> 8 \<le> u \<and> d + u \<le> 2147483648" if "(d, u) \<in> set post" for d u
  proof -
    have "c + t + s \<le> d \<or> d + u \<le> c + t" by (rule apartD [OF ap that])
    moreover have "c + t < d" using gt that by fastforce
    moreover have "32 \<le> u" "d + u \<le> 2147483648" using heap_inv_blk [OF inv, of d u] that by simp_all
    ultimately show ?thesis by linarith
  qed
  obtain r where r: "lseg (memory ctx) (alloc_free_head ctx) pre r" "lseg (memory ctx) r ((c, t) # post) 0"
    using inv by (auto simp: heap_inv_def lseg_append)
  then have rc: "r = of_nat c" by auto
  have cn: "load32 (memory ctx) (c + 4) = cur"
  proof -
    have "lseg (memory ctx) (load32 (memory ctx) (c + 4)) post 0" using r(2) by simp
    with cur show ?thesis by (cases post) (auto simp: u32_eq_unat)
  qed
  have "lseg m (of_nat c) (join_front (unat (of_nat c :: u32), unat (of_nat (t + s) :: u32)) post) 0"
    unfolding m
  proof (rule join_mem_lseg)
    show "lseg ?m1 cur post 0"
      by (rule lseg_cong [OF cur]) (use above kc in \<open>fastforce simp: store32_other\<close>)
    show "load32 ?m1 (unat (of_nat c :: u32)) = of_nat (t + s)"
      unfolding uc by (simp only: load32_store32_same)
    show "load32 ?m1 (unat (of_nat c :: u32) + 4) = cur"
      unfolding uc using cn by (simp add: load32_store32_other)
  qed (use uc uts kc k above sg in \<open>auto simp del: of_nat_add\<close>)
  then have "lseg m (of_nat c) (join_front (c, t + s) post) 0" unfolding uc uts .
  moreover show frame: "m p = memory ctx p" if "p < c \<or> c + 8 \<le> p" for p
    unfolding m using that uc by (subst join_mem_frame) (auto simp: store32_other)
  have "lseg m (alloc_free_head ctx) pre (of_nat c)"
  proof (rule lseg_cong [OF r(1) [unfolded rc]])
    fix d u i assume "(d, u) \<in> set pre" and i: "i < d + 8"
    then have "d + u < c" "32 \<le> u" using sg(1) heap_inv_blk(8) [OF inv, of d u] by simp_all
    with i show "m i = memory ctx i" by (intro frame) linarith
  qed
  ultimately show "lseg m (alloc_free_head ctx) (pre @ join_front (c, t + s) post) 0"
    by (auto simp: lseg_append)
qed

end
