(* ===== verification/AllocProps.thy ===== *)
theory AllocProps
  imports AllocRefine
begin

text \<open>
  Functional correctness of the \<^verbatim>\<open>malloc\<close> family over the refinement of \<open>AllocRefine\<close>, the contract
  the rest of the program relies on, and the places where the code breaks it.
\<close>

section \<open>Block sizes\<close>

lemma unat_and_15: "unat ((x :: u32) AND 15) = unat x mod 16"
  using unat_and_mask [of x 4] by (simp add: mask_eq_exp_minus_1)

lemma unat_align_up_16: "unat (align_up x 16) = (unat x + 15) mod 4294967296 div 16 * 16"
proof -
  have "align_up x 16 = (x + 15) AND NOT (mask 4)" by (simp add: align_up_def mask_eq_exp_minus_1)
  then show ?thesis using unat_and_not_mask [of "x + 15" 4] unat_add_u32 [of x 15] by simp
qed

text \<open>
  For every size a 32-bit heap can hold, the block is a multiple of 16, at least 32 bytes, and has
  room for the header and the payload.
\<close>

lemma malloc_need_ok:
  assumes "unat sz \<le> 4294967272"
  shows "32 \<le> unat (malloc_need sz)" and "16 dvd unat (malloc_need sz)"
    and "unat sz + 8 \<le> unat (malloc_need sz)" and "unat (malloc_need sz) < max 33 (unat sz + 24)"
proof -
  define x where "x = (if sz = 0 then 1 else sz)"
  have ux: "unat x = max 1 (unat sz)"
    using unat_gt_0 [of sz] by (auto simp: x_def)
  define need where "need = align_up (x + 8) 16"
  have x8: "unat (x + 8) = unat x + 8"
    using unat_add_nowrap [of x 8] ux assms by simp
  have n: "unat need = (unat x + 23) div 16 * 16"
    unfolding need_def unat_align_up_16 x8 using ux assms by simp
  have eq: "unat (malloc_need sz) = max 32 (unat need)"
    by (auto simp: malloc_need_def x_def [symmetric] need_def [symmetric] Let_def word_less_nat_alt)
  have "unat x + 23 = (unat x + 23) div 16 * 16 + (unat x + 23) mod 16" by simp
  then have "unat x + 8 \<le> unat need" "unat need \<le> unat x + 23" using n by linarith+
  then show "32 \<le> unat (malloc_need sz)" "unat sz + 8 \<le> unat (malloc_need sz)"
    "unat (malloc_need sz) < max 33 (unat sz + 24)"
    using eq ux by auto
  show "16 dvd unat (malloc_need sz)" using eq n by (simp add: max_def)
qed

lemma malloc_need_wraps:
  assumes "4294967273 \<le> unat sz" shows "malloc_need sz = 32"
proof -
  have nz: "sz \<noteq> 0" using assms by auto
  have lt: "unat sz < 4294967296" by (rule unat_u32_lt)
  let ?x = "unat (sz + 8)"
  have x: "?x = (unat sz + 8) mod 4294967296" using unat_add_u32 [of sz 8] by simp
  have al: "unat (align_up (sz + 8) 16) = (?x + 15) mod 4294967296 div 16 * 16" by (rule unat_align_up_16)
  consider "unat sz + 8 < 4294967296" | "4294967296 \<le> unat sz + 8" by linarith
  then have "unat (align_up (sz + 8) 16) < 32"
  proof cases
    case 1
    then have "(?x + 15) mod 4294967296 = unat sz + 23 - 4294967296"
      using x assms lt by (simp add: le_mod_geq)
    then show ?thesis using al 1 by linarith
  next
    case 2
    then have "?x = unat sz + 8 - 4294967296" using x lt by (simp add: le_mod_geq)
    then show ?thesis using al lt by linarith
  qed
  then have "align_up (sz + 8) 16 < 32" by (simp add: word_less_nat_alt)
  then show ?thesis using nz by (simp add: malloc_need_def Let_def)
qed

lemma malloc_need_dvd: "16 dvd unat (malloc_need sz) \<and> 32 \<le> unat (malloc_need sz)"
proof -
  define need where "need = align_up ((if sz = 0 then 1 else sz) + 8) 16"
  have "unat (malloc_need sz) = max 32 (unat need)"
    by (auto simp: malloc_need_def need_def [symmetric] Let_def word_less_nat_alt)
  moreover have "16 dvd unat need" unfolding need_def unat_align_up_16 by simp
  ultimately show ?thesis by (simp add: max_def)
qed

section \<open>Initialisation\<close>

text \<open>The first call carves one free block out of the lower half of memory.\<close>

lemma alloc_init_heap_inv:
  assumes fresh: "alloc_hi ctx = 0" and he: "heap_end ctx \<noteq> 0" "unat (heap_end ctx) < 4293918704"
    and res: "alloc_init_locked ctx = (True, ctx')"
  shows "heap_inv ctx' [(unat (alloc_lo ctx'), unat (alloc_hi ctx') - unat (alloc_lo ctx'))] []"
proof -
  define lo where "lo = align_up (heap_end ctx) 16"
  define hi where "hi = (memory_size ctx div 2) AND NOT 0xfff"
  have ulo: "unat lo = (unat (heap_end ctx) + 15) div 16 * 16"
    unfolding lo_def unat_align_up_16 using he(2) by simp
  have "unat lo + 1048576 < 4294967296"
    using ulo he(2) div_times_less_eq_dividend [of "unat (heap_end ctx) + 15" 16] by linarith
  then have lo20: "unat (lo + 0x100000) = unat lo + 1048576" using unat_add_nowrap [of lo "0x100000"] by simp
  have "0xfff = (mask 12 :: u32)" by (simp add: mask_eq_exp_minus_1)
  then have uhi: "unat hi = unat (memory_size ctx) div 2 div 4096 * 4096"
    unfolding hi_def using unat_and_not_mask [of "memory_size ctx div 2" 12] by (simp add: unat_div)
  have ok: "\<not> hi \<le> lo + 0x100000"
    using res fresh by (auto simp: alloc_init_locked_def lo_def hi_def Let_def split: if_splits)
  then have big: "unat lo + 1048576 < unat hi" using lo20 by (simp add: word_le_nat_alt)
  have ctx': "ctx' = ctx\<lparr>alloc_lo := lo, alloc_hi := hi, alloc_free_head := lo,
      memory := store32 (store32 (memory ctx) (unat lo) (hi - lo)) (unat lo + 4) 0, heap_end := hi\<rparr>"
    using res fresh ok unfolding alloc_init_locked_def lo_def [symmetric] hi_def [symmetric] Let_def
    by (auto simp: blk_set_size_def blk_set_next_def)
  have "0 < unat (heap_end ctx)" using he(1) by (simp add: unat_gt_0)
  then have lo0: "0 < unat lo" using ulo by linarith
  have diff: "unat (hi - lo) = unat hi - unat lo"
    using big by (intro unat_sub_nowrap) (simp add: word_le_nat_alt)
  have d16: "16 dvd unat lo" "16 dvd unat hi" using ulo uhi by (auto intro: dvd_mult)
  have hi31: "unat hi \<le> 2147483648" "unat hi \<le> unat (memory_size ctx)"
    using uhi unat_u32_lt [of "memory_size ctx"] by linarith+
  have "heap_wf (unat lo) (unat hi) [(unat lo, unat hi - unat lo)] []"
    using lo0 big d16 unat_u32_lt [of hi] by (auto simp: heap_wf_def blk_ok_pair dvd_diff_nat)
  moreover have "hi \<noteq> 0" using big by auto
  ultimately show ?thesis
    using lo0 d16 hi31 diff
    by (simp add: ctx' heap_inv_def word_le_nat_alt load32_store32_other)
qed

text \<open>A concrete heap: 16 MiB of zeroed linear memory with the data segment ending at 64 KiB.\<close>

definition fresh_heap :: yos_exec_ctx where
  "fresh_heap = snd (alloc_init_locked ((ctx_calloc (\<lambda>_. 0) 0x1000000)\<lparr>heap_end := 0x10000\<rparr>))"

lemma fresh_heap_bounds: "alloc_lo fresh_heap = 0x10000" "alloc_hi fresh_heap = 0x800000"
  by (simp_all add: fresh_heap_def alloc_init_locked_def align_up_def ctx_calloc_def blk_set_size_def
      blk_set_next_def Let_def)

lemma fresh_heap_inv: "heap_inv fresh_heap [(0x10000, 0x7F0000)] []"
proof -
  let ?c = "(ctx_calloc (\<lambda>_. 0) 0x1000000)\<lparr>heap_end := 0x10000\<rparr>"
  have "fst (alloc_init_locked ?c)"
    by (simp add: alloc_init_locked_def align_up_def ctx_calloc_def Let_def)
  then have "alloc_init_locked ?c = (True, fresh_heap)"
    by (metis fresh_heap_def prod.collapse)
  from alloc_init_heap_inv [OF _ _ _ this] show ?thesis
    by (simp add: fresh_heap_bounds ctx_calloc_def)
qed

section \<open>malloc and free\<close>

lemma do_alloc_refines:
  assumes inv: "heap_inv ctx fl us" and need: "32 \<le> unat need" "16 dvd unat need"
    and res: "do_alloc ctx need = (off, ctx')"
  shows "(off = 0 \<and> ctx' = ctx \<and> (\<forall>x\<in>set (take WALK_GUARD fl). snd x < unat need)) \<or>
    (\<exists>b n fl' m h. off = of_nat b + 8 \<and> ctx' = ctx\<lparr>memory := m, alloc_free_head := h\<rparr> \<and>
       first_fit (unat need) fl = Some ((b, n), fl') \<and> heap_inv ctx' fl' ((b, n) # us) \<and>
       (\<exists>x\<in>set (take WALK_GUARD fl). unat need \<le> snd x) \<and>
       (\<forall>p. cov fl p = 0 \<longrightarrow> m p = memory ctx p))"
  using do_alloc_loop_refines [of ctx "[]" fl us need "alloc_free_head ctx" 0 off ctx'] inv need res
  by (simp add: do_alloc_def prev_of_def heap_inv_def)

lemma malloc_refines_guarded:
  assumes inv: "heap_inv ctx fl us" and res: "yos_malloc ctx sz = (off, ctx')"
  obtains
    (none) "off = 0" "ctx' = ctx" "\<forall>x\<in>set (take WALK_GUARD fl). snd x < unat (malloc_need sz)"
  | (some) b n fl' m h where "off = of_nat b + 8" "off \<noteq> 0" "unat off = b + 8"
      "ctx' = ctx\<lparr>memory := m, alloc_free_head := h\<rparr>"
      "first_fit (unat (malloc_need sz)) fl = Some ((b, n), fl')"
      "heap_inv ctx' fl' ((b, n) # us)" "\<And>p. cov fl p = 0 \<Longrightarrow> m p = memory ctx p"
      "\<exists>x\<in>set (take WALK_GUARD fl). unat (malloc_need sz) \<le> snd x"
proof -
  have hi: "alloc_hi ctx \<noteq> 0" using inv by (simp add: heap_inv_def)
  have da: "do_alloc ctx (malloc_need sz) = (off, ctx')"
    using res hi by (simp add: yos_malloc_def alloc_init_locked_def)
  from do_alloc_refines [OF inv _ _ da] malloc_need_dvd [of sz]
  consider "off = 0 \<and> ctx' = ctx \<and> (\<forall>x\<in>set (take WALK_GUARD fl). snd x < unat (malloc_need sz))"
    | b n fl' m h where "off = of_nat b + 8" "ctx' = ctx\<lparr>memory := m, alloc_free_head := h\<rparr>"
       "first_fit (unat (malloc_need sz)) fl = Some ((b, n), fl')" "heap_inv ctx' fl' ((b, n) # us)"
       "\<forall>p. cov fl p = 0 \<longrightarrow> m p = memory ctx p" "\<exists>x\<in>set (take WALK_GUARD fl). unat (malloc_need sz) \<le> snd x" by blast
  then show thesis
  proof cases
    case 1
    then show thesis using none by simp
  next
    case (2 b n fl' m h)
    have k: "b + n \<le> 2147483648" "32 \<le> n" using heap_inv_blk [OF 2(4), of b n] by simp_all
    have "unat off = b + 8" unfolding 2(1) using unat_add_nowrap [of "of_nat b" 8] k
      by (simp add: unat_of_nat_u32)
    moreover from this have "off \<noteq> 0" by auto
    ultimately show thesis using some 2 by blast
  qed
qed

text \<open>With no more free blocks than the walk looks at, a failure means that none fits.\<close>

lemma malloc_refines:
  assumes inv: "heap_inv ctx fl us" and g: "length fl \<le> WALK_GUARD"
    and res: "yos_malloc ctx sz = (off, ctx')"
  obtains
    (none) "off = 0" "ctx' = ctx" "\<forall>x\<in>set fl. snd x < unat (malloc_need sz)"
  | (some) b n fl' m h where "off = of_nat b + 8" "off \<noteq> 0" "unat off = b + 8"
      "ctx' = ctx\<lparr>memory := m, alloc_free_head := h\<rparr>"
      "first_fit (unat (malloc_need sz)) fl = Some ((b, n), fl')"
      "heap_inv ctx' fl' ((b, n) # us)" "\<And>p. cov fl p = 0 \<Longrightarrow> m p = memory ctx p"
proof (cases rule: malloc_refines_guarded [OF inv res])
  case 1
  then show thesis using none g by simp
next
  case (2 b n fl' m h)
  then show thesis using some by blast
qed

text \<open>A pointer the allocator handed out: 8 bytes past the start of a used block.\<close>

lemma user_ptr:
  assumes inv: "heap_inv ctx fl us" and x: "(b, n) \<in> set us" and off: "unat off = b + 8"
  shows "off - 8 = of_nat b" and "blk_size ctx (off - 8) = of_nat n" and "unat (of_nat n :: u32) = n"
    and "\<not> off < alloc_lo ctx + 8" and "\<not> alloc_hi ctx \<le> off" and "unshift_user_off ctx off = off"
    and "\<not> alloc_hi ctx < of_nat b + of_nat n" and "off \<noteq> 0"
proof -
  note k = heap_inv_blk [OF inv disjI2 [OF x]]
  have ub: "unat (of_nat b :: u32) = b" and un: "unat (of_nat n :: u32) = n"
    using k by (simp_all add: unat_of_nat_u32)
  have "8 \<le> off" using off by (simp add: word_le_nat_alt)
  then have "unat (off - 8) = b" using off by (simp add: unat_sub_nowrap)
  then show o: "off - 8 = of_nat b" using ub by (simp add: u32_eq_unat)
  show "unat (of_nat n :: u32) = n" by (rule un)
  have "unat (load32 (memory ctx) b) = n" using inv x unfolding heap_inv_def by force
  then show "blk_size ctx (off - 8) = of_nat n" using o ub un by (simp add: blk_size_def u32_eq_unat)
  have "unat (alloc_lo ctx + 8) = unat (alloc_lo ctx) + 8"
    using unat_add_nowrap [of "alloc_lo ctx" 8] k by simp
  then show "\<not> off < alloc_lo ctx + 8" using off k by (simp add: word_less_nat_alt)
  show "\<not> alloc_hi ctx \<le> off" using off k by (simp add: word_le_nat_alt)
  have "unat (off AND 15) = 8" unfolding unat_and_15 off using k(6) by (auto elim!: dvdE)
  then have "off AND 15 \<noteq> 0" by auto
  then show "unshift_user_off ctx off = off" by (simp add: unshift_user_off_def)
  have "unat (of_nat b + of_nat n :: u32) = b + n" using unat_add_nowrap ub un k by simp
  then show "\<not> alloc_hi ctx < of_nat b + of_nat n" using k by (simp add: word_less_nat_alt)
  show "off \<noteq> 0" using off by auto
qed

text \<open>Linking a used block back in is \<open>insert_free\<close>, and touches only free blocks and its header.\<close>

lemma free_link_refines:
  assumes inv: "heap_inv ctx (pre @ post) us" and x: "(b, n) \<in> set us"
    and cur: "lseg (memory ctx) cur post 0"
    and lt: "\<forall>x\<in>set pre. fst x < b" and gt: "\<forall>x\<in>set post. b < fst x"
  shows "\<exists>m h. free_link ctx (of_nat b) (of_nat n) (prev_of pre) cur = ctx\<lparr>memory := m, alloc_free_head := h\<rparr>
    \<and> lseg m h (insert_free (b, n) (pre @ post)) 0
    \<and> (\<forall>p. cov (pre @ post) p = 0 \<longrightarrow> p < b \<or> b + 8 \<le> p \<longrightarrow> m p = memory ctx p)"
proof -
  have srt: "sorted_wrt gap (pre @ post)" using inv by (simp add: heap_inv_def heap_wf_def)
  note ins = insert_free_split [OF srt lt gt, of n]
  have ub: "unat (of_nat b :: u32) = b" using heap_inv_blk [OF inv disjI2 [OF x]] by (simp add: unat_of_nat_u32)
  show ?thesis
  proof (cases "pre \<noteq> [] \<and> fst (last pre) + snd (last pre) = b")
    case True
    obtain pre' c t where pre: "pre = pre' @ [(c, t)]" using True by (metis rev_exhaust surj_pair)
    have ct: "c + t = b" using True pre by simp
    have inv2: "heap_inv ctx (pre' @ (c, t) # post) us" using inv pre by simp
    note h = lseg_split_heap [OF inv2] and kc = heap_inv_blk [OF inv2, of c t, simplified]
    have prev: "prev_of pre = of_nat c" using pre by (simp add: prev_of_def)
    have c0: "(of_nat c :: u32) \<noteq> 0" using h(1) kc(5) by (metis less_irrefl unat_0)
    have sz: "blk_size ctx (of_nat c) = of_nat t" using h(2) by (metis of_nat_unat_u32)
    let ?m = "join_mem (store32 (memory ctx) c (of_nat (t + n))) (of_nat c) (of_nat (t + n)) cur"
    have eq: "free_link ctx (of_nat b) (of_nat n) (prev_of pre) cur = ctx\<lparr>memory := ?m\<rparr>"
      unfolding free_link_eq prev sz h(1) using c0 ct by (simp flip: of_nat_add)
    note ft = free_link_touch [OF inv2 _ cur _ refl, of n]
    have "lseg ?m (alloc_free_head ctx) (pre' @ join_front (c, t + n) post) 0"
      by (rule ft(1)) (use x gt ct in auto)
    moreover have "?m p = memory ctx p" if "cov (pre @ post) p = 0" for p
    proof (rule ft(2))
      have "\<not> in_blk p (c, t)" using that pre by auto
      then show "p < c \<or> c + 8 \<le> p" using kc(8) by auto
    qed (use x gt ct in auto)
    ultimately show ?thesis
      unfolding eq using True ins pre by (intro exI [of _ ?m] exI [of _ "alloc_free_head ctx"]) simp
  next
    case False
    let ?m = "join_mem (store32 (link_prev (memory ctx) pre (of_nat b)) (b + 4) cur) (of_nat b) (of_nat n) cur"
    note fa = free_link_apart [OF inv x cur lt gt refl]
    have touch: "\<not> (prev_of pre \<noteq> 0 \<and> prev_of pre + blk_size ctx (prev_of pre) = of_nat b)"
    proof (cases pre rule: rev_cases)
      case (snoc pre' y)
      obtain c t where y: "y = (c, t)" by (cases y)
      have inv2: "heap_inv ctx (pre' @ (c, t) # post) us" using inv snoc y by simp
      note h = lseg_split_heap [OF inv2] and kc = heap_inv_blk [OF inv2, of c t, simplified]
      have "unat (of_nat c + blk_size ctx (of_nat c)) = c + t"
        using unat_add_nowrap [of "of_nat c" "blk_size ctx (of_nat c)"] h kc by simp
      then show ?thesis using False snoc y ub by (auto simp: prev_of_def u32_eq_unat)
    qed (simp add: prev_of_def)
    have eq: "free_link ctx (of_nat b) (of_nat n) (prev_of pre) cur
        = ctx\<lparr>memory := ?m, alloc_free_head := (if pre = [] then of_nat b else alloc_free_head ctx)\<rparr>"
      unfolding free_link_eq if_not_P [OF touch] ub
      using prev_of_Nil_iff [OF inv] by (simp add: link_prev_def)
    have ins': "insert_free (b, n) (pre @ post) = pre @ join_front (b, n) post"
      unfolding ins by (rule if_not_P [OF False])
    show ?thesis
      unfolding eq ins' using fa
      by (intro exI [of _ ?m] exI [of _ "if pre = [] then of_nat b else alloc_free_head ctx"]) simp
  qed
qed

text \<open>
  \<^verbatim>\<open>free\<close> of a pointer the allocator handed out returns, puts the block back coalesced, and changes
  no byte of another used block.
\<close>

lemma free_refines:
  assumes inv: "heap_inv ctx fl us" and x: "(b, n) \<in> set us" and off: "unat off = b + 8"
  obtains m h where "yos_free ctx off = Some (ctx\<lparr>memory := m, alloc_free_head := h\<rparr>)"
    "heap_inv (ctx\<lparr>memory := m, alloc_free_head := h\<rparr>) (insert_free (b, n) fl) (remove1 (b, n) us)"
    "\<And>p. cov fl p = 0 \<Longrightarrow> p < b \<or> b + 8 \<le> p \<Longrightarrow> m p = memory ctx p"
proof -
  note u = user_ptr [OF inv x off] and k = heap_inv_blk [OF inv disjI2 [OF x]]
  have seg: "lseg (memory ctx) (alloc_free_head ctx) fl 0" using inv by (simp add: heap_inv_def)
  from free_walk_split [of ctx "[]" fl us b n "alloc_free_head ctx"] inv x seg
  obtain pre post cur where fl: "fl = pre @ post"
    and walk: "free_walk ctx (of_nat b) 0 (alloc_free_head ctx) = Some (Some (prev_of pre, cur))"
    and cur: "lseg (memory ctx) cur post 0"
    and lt: "\<forall>x\<in>set pre. fst x < b" and gt: "\<forall>x\<in>set post. b < fst x"
    by (auto simp: prev_of_def)
  have ub: "unat (of_nat b :: u32) = b" using k by (simp add: unat_of_nat_u32)
  have cb: "cur \<noteq> of_nat b" using cur gt ub k(5) by (cases post) auto
  have min: "\<not> (of_nat n :: u32) < 32" using u(3) k(8) by (simp add: word_less_nat_alt)
  have fr: "yos_free ctx off = Some (free_link ctx (of_nat b) (of_nat n) (prev_of pre) cur)"
    unfolding yos_free_def Let_def u(6) using u(1,2,4,5,7,8) walk cb min by simp
  from free_link_refines [OF inv [unfolded fl] x cur lt gt]
  obtain m h where link: "free_link ctx (of_nat b) (of_nat n) (prev_of pre) cur = ctx\<lparr>memory := m, alloc_free_head := h\<rparr>"
    and seg': "lseg m h (insert_free (b, n) fl) 0"
    and frame: "\<And>p. cov fl p = 0 \<Longrightarrow> p < b \<or> b + 8 \<le> p \<Longrightarrow> m p = memory ctx p" unfolding fl by blast
  have "\<forall>y\<in>set (remove1 (b, n) us). unat (load32 m (fst y)) = snd y"
  proof (rule used_headers_kept [OF inv set_remove1_subset])
    fix p y assume y: "y \<in> set (remove1 (b, n) us)" "in_blk p y"
    then have "cov fl p = 0" using heap_wf_disjoint(1) [OF heap_inv_wf [OF inv]] notin_set_remove1 by metis
    moreover have "\<not> in_blk p (b, n)"
      using heap_wf_disjoint(2) [OF heap_inv_wf [OF inv] x, of p] cov_mem [OF y] by auto
    ultimately show "m p = memory ctx p" using frame k(8) by auto
  qed
  from heap_inv_step [OF inv insert_free_wf [OF heap_inv_wf [OF inv] x] seg' this] fr link frame that
  show thesis by simp
qed

section \<open>What malloc and free promise\<close>

text \<open>The bytes of a used block that belong to the caller.\<close>

abbreviation used_byte :: "blk list \<Rightarrow> nat \<Rightarrow> bool" where
  "used_byte us p \<equiv> 0 < cov us p"

lemma used_not_free:
  assumes "heap_inv ctx fl us" and "0 < cov us p" shows "cov fl p = 0"
proof -
  from assms(2) obtain x where "x \<in> set us" "in_blk p x" by (auto simp: cov_pos_iff)
  then show ?thesis using heap_wf_disjoint(1) [OF heap_inv_wf [OF assms(1)]] by blast
qed

lemma outside_not_covered:
  assumes "heap_inv ctx fl us" and "p < unat (alloc_lo ctx) \<or> unat (alloc_hi ctx) \<le> p"
  shows "cov fl p = 0" and "cov us p = 0"
proof -
  have "cov fl p + cov us p = 0" using assms by (auto simp: heap_inv_def heap_wf_def simp del: add_is_0)
  then show "cov fl p = 0" and "cov us p = 0" by simp_all
qed

text \<open>
  Claim C2: \<^verbatim>\<open>malloc\<close> on a well-formed heap refines first fit, for every request.  It fails, changing nothing, exactly when
  none of the first 4194304 free blocks, all the walk looks at, is big enough; otherwise it returns a pointer
  8 bytes into the block first fit chooses, the heap stays a tiling with that block in use, and no byte of a
  block in use, and no byte outside the heap, changes.  Up to 4294967272 bytes the block has room for the request;
  beyond, where the size wraps, it is a block of less than 64 bytes.
\<close>

theorem malloc_correct:
  assumes "heap_inv ctx fl us" and "yos_malloc ctx sz = (off, ctx')"
  shows "if \<forall>x\<in>set (take WALK_GUARD fl). snd x < unat (malloc_need sz) then off = 0 \<and> ctx' = ctx
    else \<exists>b n fl'. first_fit (unat (malloc_need sz)) fl = Some ((b, n), fl') \<and>
      unat off = b + 8 \<and> (if unat sz \<le> 4294967272 then unat sz + 8 \<le> n else n < 64) \<and> heap_inv ctx' fl' ((b, n) # us) \<and>
      (\<forall>p. used_byte us p \<or> p < unat (alloc_lo ctx) \<or> unat (alloc_hi ctx) \<le> p \<longrightarrow>
         memory ctx' p = memory ctx p)"
  using assms
proof (cases rule: malloc_refines_guarded)
  case none
  then show ?thesis by (simp only: if_P)
next
  case (some b n fl' m h)
  have f: "\<not> (\<forall>x\<in>set (take WALK_GUARD fl). snd x < unat (malloc_need sz))" using some(8) by (meson leD)
  have n: "if unat sz \<le> 4294967272 then unat sz + 8 \<le> n else n < 64"
    using first_fit_size [OF some(5)] malloc_need_ok(3) [of sz] malloc_need_wraps [of sz] by auto
  have "memory ctx' p = memory ctx p" if "used_byte us p \<or> p < unat (alloc_lo ctx) \<or> unat (alloc_hi ctx) \<le> p" for p
    using that some(4,7) used_not_free [OF assms(1)] outside_not_covered(1) [OF assms(1)] by auto
  then show ?thesis unfolding if_not_P [OF f] using some(3,5,6) n by blast
qed

lemma fresh_malloc:
  obtains ctx' where "yos_malloc fresh_heap 100 = (0x10008, ctx')"
    "heap_inv ctx' [(0x10070, 0x7EFF90)] [(0x10000, 112)]"
proof -
  obtain off ctx' where res: "yos_malloc fresh_heap 100 = (off, ctx')" by (cases "yos_malloc fresh_heap 100")
  have need: "unat (malloc_need 100) = 112" by (simp add: malloc_need_def align_up_def Let_def)
  have "length [(0x10000, 0x7F0000) :: blk] \<le> WALK_GUARD" by simp
  from fresh_heap_inv this res show thesis
  proof (cases rule: malloc_refines)
    case none
    then show thesis by (simp add: need)
  next
    case (some b n fl' m h)
    then have "b = 0x10000" "n = 112" "fl' = [(0x10070, 0x7EFF90)]" by (simp_all add: need)
    then show thesis using that some res by simp
  qed
qed

theorem malloc_correct_witness:
  "\<exists>b n fl'. unat (fst (yos_malloc fresh_heap 100)) = b + 8 \<and> 108 \<le> n \<and>
     heap_inv (snd (yos_malloc fresh_heap 100)) fl' [(b, n)]"
proof -
  obtain ctx' where res: "yos_malloc fresh_heap 100 = (0x10008, ctx')" using fresh_malloc by blast
  have "unat (malloc_need 100) = 112" by (simp add: malloc_need_def align_up_def Let_def)
  then show ?thesis using malloc_correct [OF fresh_heap_inv res] by (auto simp: res intro!: exI [of _ 112])
qed

lemma free_frame:
  assumes "heap_inv ctx fl us" and "(b, n) \<in> set us" and "unat off = b + 8"
  shows "\<exists>ctx'. yos_free ctx off = Some ctx' \<and>
    heap_inv ctx' (insert_free (b, n) fl) (remove1 (b, n) us) \<and>
    (\<forall>p. used_byte (remove1 (b, n) us) p \<or> p < unat (alloc_lo ctx) \<or> unat (alloc_hi ctx) \<le> p \<longrightarrow>
       memory ctx' p = memory ctx p)"
proof (rule free_refines [OF assms])
  fix m h
  assume f: "yos_free ctx off = Some (ctx\<lparr>memory := m, alloc_free_head := h\<rparr>)"
    and inv: "heap_inv (ctx\<lparr>memory := m, alloc_free_head := h\<rparr>) (insert_free (b, n) fl) (remove1 (b, n) us)"
    and frame: "\<And>p. cov fl p = 0 \<Longrightarrow> p < b \<or> b + 8 \<le> p \<Longrightarrow> m p = memory ctx p"
  note k = heap_inv_blk [OF assms(1) disjI2 [OF assms(2)]]
  have "m p = memory ctx p" if "0 < cov (remove1 (b, n) us) p \<or> p < unat (alloc_lo ctx) \<or> unat (alloc_hi ctx) \<le> p" for p
  proof -
    have z: "cov (insert_free (b, n) fl) p = 0"
      using that used_not_free [OF inv] outside_not_covered(1) [OF inv] by auto
    then show ?thesis using frame k(8) by (auto simp: insert_free_cov)
  qed
  with f inv show ?thesis by auto
qed

text \<open>
  Claim C3: \<^verbatim>\<open>free\<close> of a pointer \<^verbatim>\<open>malloc\<close> returned always terminates and refines coalescing
  insertion: the block leaves the used set, the free list stays ordered with no two neighbours
  touching, and no byte of another used block, and none outside the heap, changes.
\<close>

theorem free_correct:
  assumes "heap_inv ctx fl us" and "(b, n) \<in> set us" and "unat off = b + 8"
  shows "\<exists>ctx'. yos_free ctx off = Some ctx' \<and>
    heap_inv ctx' (insert_free (b, n) fl) (remove1 (b, n) us) \<and>
    (\<forall>p. used_byte (remove1 (b, n) us) p \<or> p < unat (alloc_lo ctx) \<or> unat (alloc_hi ctx) \<le> p \<longrightarrow>
       memory ctx' p = memory ctx p)"
  using free_frame [OF assms] .

theorem free_correct_witness:
  "\<exists>ctx'. yos_free (snd (yos_malloc fresh_heap 100)) 0x10008 = Some ctx' \<and>
    heap_inv ctx' [(0x10000, 0x7F0000)] []"
proof -
  obtain ctx' where res: "yos_malloc fresh_heap 100 = (0x10008, ctx')"
    and inv: "heap_inv ctx' [(0x10070, 0x7EFF90)] [(0x10000, 112)]" using fresh_malloc by blast
  from free_correct [OF inv, of "0x10000" 112 "0x10008"] show ?thesis by (auto simp: res)
qed

text \<open>Freeing what first fit took gives the list back.\<close>

lemma insert_free_first_fit:
  assumes "first_fit need fl = Some (x, fl')" and "sorted_wrt gap fl" and "0 < need"
  shows "insert_free x fl' = fl"
  using assms
proof (induction need fl arbitrary: fl' rule: first_fit.induct)
  case (2 need b s fl)
  show ?case
  proof (cases "need \<le> s")
    case True
    show ?thesis
    proof (cases "need + 32 \<le> s")
      case True
      then show ?thesis using 2 by (auto simp: gap_def)
    next
      case False
      with True 2 show ?thesis by (cases fl) (auto simp: gap_def)
    qed
  next
    case False
    with "2.prems"(1) obtain fl'' where f: "first_fit need fl = Some (x, fl'')" "fl' = (b, s) # fl''" by auto
    obtain c t where x: "x = (c, t)" by (cases x)
    have "0 < cov fl c"
      using first_fit_cov [OF f(1), of c] first_fit_size [OF f(1)] "2.prems"(3) x by simp
    then obtain y where "y \<in> set fl" "fst y \<le> c" by (auto simp: cov_pos_iff in_blk_def)
    then have "b + s < c" using "2.prems"(2) by (auto simp: gap_def)
    then show ?thesis using "2.IH" [OF False f(1)] "2.prems" f(2) x by simp
  qed
qed simp

text \<open>
  \<^verbatim>\<open>free\<close> undoes \<^verbatim>\<open>malloc\<close>: freeing the pointer just returned leaves exactly the free list and
  the used blocks there were, whether the block had been split or not.
\<close>

theorem malloc_free_roundtrip:
  assumes "heap_inv ctx fl us" and "length fl \<le> WALK_GUARD"
    and "yos_malloc ctx sz = (off, ctx')" and "off \<noteq> 0"
  shows "\<exists>ctx''. yos_free ctx' off = Some ctx'' \<and> heap_inv ctx'' fl us"
  using assms(1-3)
proof (cases rule: malloc_refines)
  case none
  then show ?thesis using assms(4) by simp
next
  case (some b n fl' m h)
  have "sorted_wrt gap fl" using assms(1) by (simp add: heap_inv_def heap_wf_def)
  then have "insert_free (b, n) fl' = fl"
    using insert_free_first_fit [OF some(5)] malloc_need_dvd [of sz] by simp
  moreover have "(b, n) \<in> set ((b, n) # us)" by simp
  ultimately show ?thesis
    using free_refines [OF some(6) _ some(3), of n] by (metis remove1.simps(2))
qed

theorem malloc_free_roundtrip_witness:
  "\<exists>ctx''. yos_free (snd (yos_malloc fresh_heap 100)) 0x10008 = Some ctx'' \<and>
    heap_inv ctx'' [(0x10000, 0x7F0000)] []"
proof -
  obtain ctx' where res: "yos_malloc fresh_heap 100 = (0x10008, ctx')" using fresh_malloc by blast
  from malloc_free_roundtrip [OF fresh_heap_inv _ res] show ?thesis by (simp add: res)
qed

section \<open>Double free\<close>

text \<open>The walk ends on every well-formed list, and notices an address inside a free block.\<close>

lemma free_walk_inside:
  assumes "heap_inv ctx (pre @ post) us" and "0 < cov post b" and "lseg (memory ctx) cur post 0"
  shows "free_walk ctx (of_nat b) (prev_of pre) cur = Some None \<or>
    (\<exists>prev. free_walk ctx (of_nat b) (prev_of pre) cur = Some (Some (prev, of_nat b)))"
  using assms
proof (induction post arbitrary: pre cur)
  case (Cons x rest)
  obtain d u where x: "x = (d, u)" by (cases x)
  note inv = Cons.prems(1) [unfolded x]
  note h = lseg_split_heap [OF inv] and k = heap_inv_blk [OF inv, of d u, simplified]
  have c: "cur = of_nat d" and c0: "cur \<noteq> 0" using Cons.prems(3) x by auto
  have srt: "sorted_wrt gap (pre @ (d, u) # rest)" using inv by (simp add: heap_inv_def heap_wf_def)
  have lt: "b < 4294967296"
  proof -
    from Cons.prems(2) obtain y where "y \<in> set (x # rest)" "in_blk b y" unfolding cov_pos_iff by blast
    then show ?thesis using heap_inv_blk(3) [OF Cons.prems(1), of "fst y" "snd y"] by (auto simp: in_blk_def)
  qed
  have ub: "unat (of_nat b :: u32) = b" using lt by (rule unat_of_nat_u32)
  have du: "unat (cur + blk_size ctx cur) = d + u"
    using unat_add_nowrap [of cur "blk_size ctx cur"] h c k by simp
  have step: "free_walk ctx (of_nat b) (prev_of pre) cur =
      (if d < b then if b < d + u then Some None else free_walk ctx (of_nat b) cur (blk_next ctx cur)
       else Some (Some (prev_of pre, cur)))"
    using c0 du ub h(1) c by (subst free_walk.simps) (simp add: word_less_nat_alt)
  show ?case
  proof (cases "in_blk b (d, u)")
    case True
    then show ?thesis using step c by (cases "d = b") auto
  next
    case False
    then have r: "0 < cov rest b" using Cons.prems(2) x by auto
    then obtain e v where "(e, v) \<in> set rest" "e \<le> b" by (auto simp: cov_pos_iff)
    then have "d + u < b" using sorted_gap_split(2) [OF srt] by fastforce
    then have "free_walk ctx (of_nat b) (prev_of pre) cur = free_walk ctx (of_nat b) (prev_of (pre @ [x])) (blk_next ctx cur)"
      using step k by (simp add: prev_of_def x c)
    then show ?thesis using Cons.IH [of "pre @ [x]" "blk_next ctx cur"] inv r h(3) c x by simp
  qed
qed simp

text \<open>
  A double free is harmless: \<^verbatim>\<open>free\<close> of a pointer whose block start lies in a free block,
  whether it still is a block of its own or has been coalesced into a neighbour, returns and changes
  nothing.
\<close>

theorem double_free_ignored:
  assumes "heap_inv ctx fl us" and "0 < cov fl b" and "16 dvd b" and "unat off = b + 8"
  shows "yos_free ctx off = Some ctx"
proof -
  have "8 \<le> off" using assms(4) by (simp add: word_le_nat_alt)
  then have ub: "unat (off - 8) = b" using assms(4) by (simp add: unat_sub_nowrap)
  then have o: "off - 8 = of_nat b" by (metis of_nat_unat_u32)
  have "unat (off AND 15) = 8" unfolding unat_and_15 assms(4) using assms(3) by (auto elim!: dvdE)
  then have "off AND 15 \<noteq> 0" by auto
  then have un: "unshift_user_off ctx off = off" by (simp add: unshift_user_off_def)
  have "lseg (memory ctx) (alloc_free_head ctx) fl 0" using assms(1) by (simp add: heap_inv_def)
  from free_walk_inside [of ctx "[]" fl us b, OF _ assms(2) this] assms(1)
  show ?thesis by (auto simp: yos_free_def Let_def un o prev_of_def)
qed

theorem double_free_ignored_witness:
  "yos_free fresh_heap 0x10078 = Some fresh_heap"
  by (rule double_free_ignored [OF fresh_heap_inv, of "0x10070"]) simp_all

end
