(* ===== verification/AllocFamily.thy ===== *)
theory AllocFamily
  imports AllocProps
begin

text \<open>
  The rest of the \<^verbatim>\<open>malloc\<close> family over the refined heap: writes to a payload keep the heap intact,
  \<^verbatim>\<open>calloc\<close> zeroes, \<^verbatim>\<open>realloc\<close> keeps the contents, \<^verbatim>\<open>posix_memalign\<close> aligns and its pointers can be
  freed, every history of calls keeps the heap a tiling, and four defects of the code.
\<close>

section \<open>Writing to a payload\<close>

lemma payload_write:
  assumes inv: "heap_inv ctx fl us" and x: "(b, n) \<in> set us"
    and same: "\<And>p. p < b + 8 \<or> b + n \<le> p \<Longrightarrow> m p = memory ctx p"
  shows "heap_inv (ctx\<lparr>memory := m\<rparr>) fl us"
proof -
  note wf = heap_inv_wf [OF inv]
  have out: "m p = memory ctx p" if "\<not> in_blk p (b, n)" for p using that same by auto
  have "lseg m (alloc_free_head ctx) fl 0"
  proof (rule lseg_cong)
    show "lseg (memory ctx) (alloc_free_head ctx) fl 0" using inv by (simp add: heap_inv_def)
    fix c t i assume c: "(c, t) \<in> set fl" and i: "c \<le> i" "i < c + 8"
    have "in_blk i (c, t)" using heap_inv_blk(8) [OF inv disjI1 [OF c]] i by simp
    then have "cov fl i \<noteq> 0" using cov_mem [OF c] by simp
    then show "m i = memory ctx i" using out [of i] heap_wf_disjoint(1) [OF wf x, of i] by (cases "in_blk i (b, n)") simp_all
  qed
  moreover have "unat (load32 m (fst y)) = snd y" if y: "y \<in> set us" for y
  proof -
    obtain c t where ct: "y = (c, t)" by (cases y)
    have "m i = memory ctx i" if "c \<le> i" "i < c + 4" for i
    proof (cases "y = (b, n)")
      case True
      then show ?thesis using that same ct by simp
    next
      case False
      then have r: "y \<in> set (remove1 (b, n) us)" using y by simp
      have "in_blk i y" using that ct heap_inv_blk(8) [OF inv, of c t] y by simp
      then have "cov (remove1 (b, n) us) i \<noteq> 0" using cov_mem [OF r] by simp
      then show ?thesis using out [of i] heap_wf_disjoint(2) [OF wf x, of i] by (cases "in_blk i (b, n)") simp_all
    qed
    then have "load32 m c = load32 (memory ctx) c" by (rule load32_cong)
    then show ?thesis using inv y ct unfolding heap_inv_def by force
  qed
  ultimately show ?thesis using inv by (simp add: heap_inv_def)
qed

lemma outside_write:
  assumes inv: "heap_inv ctx fl us"
    and same: "\<And>p. unat (alloc_lo ctx) \<le> p \<Longrightarrow> p < unat (alloc_hi ctx) \<Longrightarrow> m p = memory ctx p"
  shows "heap_inv (ctx\<lparr>memory := m\<rparr>) fl us"
proof -
  have "lseg m (alloc_free_head ctx) fl 0"
  proof (rule lseg_cong)
    show "lseg (memory ctx) (alloc_free_head ctx) fl 0" using inv by (simp add: heap_inv_def)
    fix c t i assume c: "(c, t) \<in> set fl" and i: "c \<le> i" "i < c + 8"
    then show "m i = memory ctx i" using heap_inv_blk(1,2,8) [OF inv disjI1 [OF c]] by (intro same) linarith+
  qed
  moreover have "load32 m c = load32 (memory ctx) c" if "(c, t) \<in> set us" for c t
    using heap_inv_blk(1,2,8) [OF inv disjI2 [OF that]] by (intro load32_cong same) linarith+
  then have "\<forall>y\<in>set us. unat (load32 m (fst y)) = snd y" using inv unfolding heap_inv_def by force
  ultimately show ?thesis using inv by (simp add: heap_inv_def)
qed

section \<open>calloc\<close>

lemma mul_no_overflow:
  assumes "\<not> mul_overflows nmemb sz"
  shows "unat (nmemb * sz) = unat nmemb * unat sz"
proof (cases "nmemb = 0")
  case False
  then have n: "0 < unat nmemb" by (simp add: unat_gt_0)
  have "unat sz \<le> 4294967295 div unat nmemb"
    using assms False by (simp add: mul_overflows_def word_le_nat_alt not_less unat_div)
  then have "unat nmemb * unat sz \<le> unat nmemb * (4294967295 div unat nmemb)" by simp
  also have "\<dots> \<le> 4294967295" by simp
  finally show ?thesis by (simp add: unat_word_ariths)
qed simp

text \<open>
  A successful \<^verbatim>\<open>calloc\<close> returns a block with room for \<open>nmemb * sz\<close> bytes, the product taken
  without wrap-around, every payload byte of which reads as zero; the heap stays a tiling and no byte
  of another used block changes.  A product that does not fit 32 bits is refused.
\<close>

theorem calloc_correct:
  assumes inv: "heap_inv ctx fl us" and g: "length fl \<le> WALK_GUARD"
    and sz: "unat nmemb * unat sz \<le> 4294967272 \<or> 4294967296 \<le> unat nmemb * unat sz"
    and res: "yos_calloc ctx nmemb sz = (off, ctx')" and ok: "off \<noteq> 0"
  shows "\<exists>b n fl'. unat off = b + 8 \<and> unat nmemb * unat sz + 8 \<le> n \<and> heap_inv ctx' fl' ((b, n) # us) \<and>
    (\<forall>p. b + 8 \<le> p \<and> p < b + n \<longrightarrow> memory ctx' p = 0) \<and>
    (\<forall>p. used_byte us p \<longrightarrow> memory ctx' p = memory ctx p)"
proof -
  have no: "\<not> mul_overflows nmemb sz" using res ok by (auto simp: yos_calloc_def)
  note prod = mul_no_overflow [OF no]
  have small: "unat (nmemb * sz) \<le> 4294967272" using sz prod unat_u32_lt [of "nmemb * sz"] by simp
  obtain c where m: "yos_malloc ctx (nmemb * sz) = (off, c)"
    using res ok no by (auto simp: yos_calloc_def Let_def split: prod.splits if_splits)
  from inv g m show ?thesis
  proof (cases rule: malloc_refines)
    case none
    then show ?thesis using ok by simp
  next
    case (some b n fl' mm h)
    have fit: "unat (nmemb * sz) + 8 \<le> n"
      using first_fit_size [OF some(5)] malloc_need_ok(3) [OF small] by simp
    note u = user_ptr [OF some(6) _ some(3), of n, simplified] and k = heap_inv_blk [OF some(6), of b n, simplified]
    have bsz: "blk_size c (off - 8) = of_nat n" by (rule u(2))
    have un: "unat (of_nat n :: u32) = n" by (rule u(3))
    have big: "(8 :: u32) < of_nat n" using un k by (simp add: word_less_nat_alt)
    have usable: "unat (of_nat n - 8 :: u32) = n - 8"
      using un k by (subst unat_sub_nowrap) (simp_all add: word_le_nat_alt)
    have nl: "\<not> of_nat n - 8 < nmemb * sz" using usable fit by (simp add: word_less_nat_alt)
    have c': "ctx' = c\<lparr>memory := mem_fill (memory c) (b + 8) 0 (n - 8)\<rparr>"
      using res no ok m big usable nl some(3) by (simp add: yos_calloc_def Let_def bsz)
    have "heap_inv ctx' fl' ((b, n) # us)"
      unfolding c' by (rule payload_write [OF some(6), of b n]) (use k in \<open>auto simp: mem_fill_def\<close>)
    moreover have "memory ctx' p = 0" if "b + 8 \<le> p \<and> p < b + n" for p
      using that k by (simp add: c' mem_fill_def)
    moreover have "memory ctx' p = memory ctx p" if "0 < cov us p" for p
    proof -
      have "\<not> in_blk p (b, n)"
        using heap_wf_disjoint(2) [OF heap_inv_wf [OF some(6)], of "(b, n)" p] that by auto
      then have "memory ctx' p = memory c p" using k by (auto simp: c' mem_fill_def)
      then show ?thesis using some(4,7) used_not_free [OF inv that] by simp
    qed
    ultimately show ?thesis using some(3) fit prod by (intro exI [of _ b] exI [of _ n] exI [of _ fl']) auto
  qed
qed

theorem calloc_correct_witness:
  "\<exists>b n fl'. unat (fst (yos_calloc fresh_heap 10 10)) = b + 8 \<and> 108 \<le> n \<and>
     heap_inv (snd (yos_calloc fresh_heap 10 10)) fl' [(b, n)]"
proof -
  obtain c where m: "yos_malloc fresh_heap 100 = (0x10008, c)" using fresh_malloc by blast
  obtain off c' where res: "yos_calloc fresh_heap 10 10 = (off, c')" by (cases "yos_calloc fresh_heap 10 10")
  then have "off \<noteq> 0" by (auto simp: yos_calloc_def mul_overflows_def m Let_def)
  from calloc_correct [OF fresh_heap_inv _ _ res this] show ?thesis by (auto simp: res)
qed

section \<open>realloc\<close>

text \<open>The last step of \<^verbatim>\<open>realloc\<close>: copy the old payload into the new block, then free the old block.\<close>

lemma copy_and_free:
  assumes x: "(b, n) \<in> set us" and off: "unat off = b + 8" and r: "unat r = b' + 8" and fit: "n \<le> n'"
    and inv: "heap_inv c fl ((b', n') # us)"
    and d: "d = c\<lparr>memory := mem_copy (memory c) (unat r) (b + 8) (n - 8)\<rparr>"
  shows "\<exists>ctx' fl'. yos_free d off = Some ctx' \<and> heap_inv ctx' fl' ((b', n') # remove1 (b, n) us) \<and>
    (\<forall>i < n - 8. memory ctx' (b' + 8 + i) = memory c (b + 8 + i)) \<and>
    (\<forall>p. used_byte (remove1 (b, n) us) p \<longrightarrow> memory ctx' p = memory c p)"
proof -
  note wf = heap_inv_wf [OF inv] and k = heap_inv_blk [OF inv, of b n, simplified, OF disjI2 [OF disjI2 [OF x]]]
  have disj: "\<not> in_blk p y" if "y \<in> set us" "in_blk p (b', n')" for p y
    using heap_wf_disjoint(2) [OF wf, of "(b', n')" p] that cov_mem [OF that(1), of p] by auto
  have ne: "(b', n') \<noteq> (b, n)" using disj [OF x, of b] k by auto
  have inv2: "heap_inv d fl ((b', n') # us)"
    unfolding d by (rule payload_write [OF inv, of b' n']) (use fit r in \<open>auto simp: mem_copy_def\<close>)
  have x2: "(b, n) \<in> set ((b', n') # us)" using x by simp
  obtain m h where f: "yos_free d off = Some (d\<lparr>memory := m, alloc_free_head := h\<rparr>)"
    and inv3: "heap_inv (d\<lparr>memory := m, alloc_free_head := h\<rparr>) (insert_free (b, n) fl)
      (remove1 (b, n) ((b', n') # us))"
    and frame: "\<And>p. cov fl p = 0 \<Longrightarrow> p < b \<or> b + 8 \<le> p \<Longrightarrow> m p = memory d p"
    using free_refines [OF inv2 x2 off] by metis
  have keep: "m p = memory d p" if "y \<in> set (remove1 (b, n) ((b', n') # us))" "in_blk p y" for p y
  proof (rule frame)
    show "cov fl p = 0"
      using heap_wf_disjoint(1) [OF wf, of y p] that notin_set_remove1 [of y "(b', n') # us"] by blast
    have "\<not> in_blk p (b, n)" using heap_wf_disjoint(2) [OF wf x2, of p] cov_mem [OF that] by auto
    then show "p < b \<or> b + 8 \<le> p" using k(8) by auto
  qed
  have "m (b' + 8 + i) = memory c (b + 8 + i)" if "i < n - 8" for i
  proof -
    have "m (b' + 8 + i) = memory d (b' + 8 + i)"
      by (rule keep [of "(b', n')"]) (use ne that fit in auto)
    also have "\<dots> = memory c (b + 8 + i)"
      using mem_copy_in [OF that, of "memory c" "b' + 8" "b + 8"] r by (simp add: d)
    finally show ?thesis .
  qed
  moreover have "m p = memory c p" if "0 < cov (remove1 (b, n) us) p" for p
  proof -
    from that obtain y where y: "y \<in> set (remove1 (b, n) us)" "in_blk p y" unfolding cov_pos_iff by blast
    then have yu: "y \<in> set us" using notin_set_remove1 by metis
    have "m p = memory d p" by (rule keep [OF _ y(2)]) (use y(1) ne in auto)
    also have "\<dots> = memory c p"
      using disj [OF yu, of p] y(2) fit r k(8) by (auto simp: d mem_copy_def)
    finally show ?thesis .
  qed
  moreover have "remove1 (b, n) ((b', n') # us) = (b', n') # remove1 (b, n) us" using ne by auto
  ultimately show ?thesis using f inv3
    by (intro exI [of _ "d\<lparr>memory := m, alloc_free_head := h\<rparr>"] exI [of _ "insert_free (b, n) fl"]) simp
qed

text \<open>
  Claim C10: \<^verbatim>\<open>realloc\<close> of a pointer \<^verbatim>\<open>malloc\<close> returned, to any size up to 4294967272, always terminates.  Size 0 frees the
  block and returns null.  A size that fits the block returns the pointer and changes nothing.  Otherwise the call
  fails, changing nothing, exactly when none of the first 4194304 free blocks is big enough, and else returns
  a new block with room for the new size that holds the old payload, with the old block freed.  In every case
  the heap stays a tiling and every other used block is untouched.
\<close>

theorem realloc_correct:
  assumes inv: "heap_inv ctx fl us" and x: "(b, n) \<in> set us" and off: "unat off = b + 8"
    and sz: "unat newsize \<le> 4294967272"
  shows "\<exists>r ctx'. yos_realloc ctx off newsize = Some (r, ctx') \<and>
    (if newsize = 0 then r = 0 \<and> heap_inv ctx' (insert_free (b, n) fl) (remove1 (b, n) us) \<and>
       (\<forall>p. used_byte (remove1 (b, n) us) p \<longrightarrow> memory ctx' p = memory ctx p)
     else if unat newsize + 8 \<le> n then r = off \<and> ctx' = ctx
     else if \<forall>y\<in>set (take WALK_GUARD fl). snd y < unat (malloc_need newsize) then r = 0 \<and> ctx' = ctx
     else \<exists>b' n' fl'. unat r = b' + 8 \<and> unat newsize + 8 \<le> n' \<and>
       heap_inv ctx' fl' ((b', n') # remove1 (b, n) us) \<and>
       (\<forall>i < n - 8. memory ctx' (b' + 8 + i) = memory ctx (b + 8 + i)) \<and>
       (\<forall>p. used_byte (remove1 (b, n) us) p \<longrightarrow> memory ctx' p = memory ctx p))"
proof (cases "newsize = 0")
  case True
  then show ?thesis using free_frame [OF inv x off] user_ptr(8) [OF inv x off] by (auto simp: yos_realloc_def)
next
  case nz: False
  note u = user_ptr [OF inv x off] and k = heap_inv_blk [OF inv disjI2 [OF x]]
  have pay: "unat (of_nat n - 8 :: u32) = n - 8"
    using u(3) k by (subst unat_sub_nowrap) (simp_all add: word_le_nat_alt)
  have old: "\<not> (of_nat n :: u32) < 8" using u(3) k by (simp add: word_less_nat_alt)
  have fits: "newsize \<le> of_nat n - 8 \<longleftrightarrow> unat newsize + 8 \<le> n"
    using pay k by (auto simp: word_le_nat_alt)
  obtain r c where mal: "yos_malloc ctx newsize = (r, c)" by (cases "yos_malloc ctx newsize")
  define d where "d = c\<lparr>memory := mem_copy (memory c) (unat r) (b + 8) (n - 8)\<rparr>"
  have eq: "yos_realloc ctx off newsize =
      (if unat newsize + 8 \<le> n then Some (off, ctx)
       else if r = 0 then Some (0, c) else map_option (\<lambda>c'. (r, c')) (yos_free d off))"
    unfolding yos_realloc_def Let_def u(6) u(1) u(2) [unfolded u(1)] d_def
    using u(4,5,7,8) nz old off pay by (simp add: fits mal)
  show ?thesis
  proof (cases "unat newsize + 8 \<le> n")
    case True
    then show ?thesis using nz by (simp add: eq)
  next
    case False
    from inv mal show ?thesis
    proof (cases rule: malloc_refines_guarded)
      case none
      then show ?thesis unfolding if_P [OF none(3)] using False nz by (simp add: eq)
    next
      case (some b' n' fl' m h)
      have fit: "unat newsize + 8 \<le> n'"
        using first_fit_size [OF some(5)] malloc_need_ok(3) [OF sz] by simp
      have un: "memory c p = memory ctx p" if "0 < cov us p" for p
        using some(4,7) used_not_free [OF inv that] by simp
      have un2: "memory c p = memory ctx p" if "0 < cov (remove1 (b, n) us) p" for p
        by (rule un) (use cov_remove1 [OF x, of p] that in simp)
      have un3: "memory c (b + 8 + i) = memory ctx (b + 8 + i)" if "i < n - 8" for i
        by (rule un) (use cov_mem [OF x, of "b + 8 + i"] that in auto)
      have "n \<le> n'" using fit False by linarith
      from copy_and_free [OF x off some(3) this some(6) d_def] obtain ctx' fl''
        where f: "yos_free d off = Some ctx'" "heap_inv ctx' fl'' ((b', n') # remove1 (b, n) us)"
          "\<forall>i < n - 8. memory ctx' (b' + 8 + i) = memory c (b + 8 + i)"
          "\<forall>p. 0 < cov (remove1 (b, n) us) p \<longrightarrow> memory ctx' p = memory c p" by blast
      have g: "\<not> (\<forall>y\<in>set (take WALK_GUARD fl). snd y < unat (malloc_need newsize))" using some(8) by (meson leD)
      have "yos_realloc ctx off newsize = Some (r, ctx')" using False some(2) f(1) by (simp add: eq)
      then show ?thesis unfolding if_not_P [OF nz] if_not_P [OF False] if_not_P [OF g] using some(3) fit f un2 un3
        by (intro exI [of _ r] exI [of _ ctx'] conjI exI [of _ b'] exI [of _ n'] exI [of _ fl'']) simp_all
    qed
  qed
qed

theorem realloc_correct_witness:
  "let c = snd (yos_malloc fresh_heap 100) in
   (\<exists>r ctx'. yos_realloc c 0x10008 104 = Some (r, ctx') \<and> r = 0x10008) \<and>
   (\<exists>r ctx' b. yos_realloc c 0x10008 200 = Some (r, ctx') \<and> unat r = b + 8 \<and> (\<forall>i<104. memory ctx' (b + 8 + i) = memory c (0x10008 + i)))"
proof -
  obtain c where m: "yos_malloc fresh_heap 100 = (0x10008, c)"
    and inv: "heap_inv c [(0x10070, 0x7EFF90)] [(0x10000, 112)]" using fresh_malloc by blast
  have need: "unat (malloc_need 200) = 208" by (simp add: malloc_need_def align_up_def Let_def)
  have "\<exists>r ctx'. yos_realloc c 0x10008 104 = Some (r, ctx') \<and> r = 0x10008"
    using realloc_correct [OF inv, of "0x10000" 112 "0x10008" 104] by auto
  moreover have "\<exists>r ctx' b. yos_realloc c 0x10008 200 = Some (r, ctx') \<and> unat r = b + 8 \<and> (\<forall>i<104. memory ctx' (b + 8 + i) = memory c (0x10008 + i))"
    using realloc_correct [OF inv, of "0x10000" 112 "0x10008" 200] need by (fastforce simp: add.assoc)
  ultimately show ?thesis by (simp add: m)
qed

section \<open>Aligned allocation\<close>

text \<open>Rounding a block's user pointer, which is 8 modulo 16, up to a larger power of two.\<close>

lemma memalign_round:
  assumes al: "16 \<le> unat (al :: u32)" "al AND (al - 1) = 0"
    and raw: "unat raw mod 16 = 8" and room: "unat raw + unat al < 4294967296"
  defines "q \<equiv> (raw + al - 1) AND NOT (al - 1)"
  shows "unat al dvd unat q" and "unat raw + 8 \<le> unat q" and "unat q < unat raw + unat al"
    and "16 dvd unat q"
proof -
  have al0: "al \<noteq> 0" using al(1) by auto
  obtain k where k: "k < 32" "unat al = 2 ^ k" "al - 1 = mask k" using pow2_u32 [OF al0 al(2)] by blast
  have k4: "4 \<le> k"
  proof (rule ccontr)
    assume "\<not> 4 \<le> k" then have "(2 :: nat) ^ k \<le> 2 ^ 3" by (intro power_increasing) auto
    then show False using al(1) k(2) by simp
  qed
  have d: "16 dvd (2 :: nat) ^ k" using le_imp_power_dvd [OF k4, of "2 :: nat"] by simp
  have "unat (raw + al - 1) = unat raw + unat al - 1"
  proof -
    have "unat (raw + al) = unat raw + unat al" by (rule unat_add_nowrap [OF room])
    moreover have "1 \<le> raw + al" using calculation al(1) by (simp add: word_le_nat_alt)
    ultimately show ?thesis by (simp add: unat_sub_nowrap)
  qed
  then have q: "unat q = (unat raw + 2 ^ k - 1) div 2 ^ k * 2 ^ k"
    unfolding q_def k(3) unat_and_not_mask k(2) [symmetric] by simp
  let ?y = "unat raw + 2 ^ k - 1"
  have split: "?y = ?y div 2 ^ k * 2 ^ k + ?y mod 2 ^ k" by (rule div_mult_mod_eq [symmetric])
  have "?y mod 2 ^ k < 2 ^ k" by simp
  then have lo: "unat raw \<le> unat q" and hi: "unat q \<le> unat raw + 2 ^ k - 1"
    using q split by linarith+
  show "unat al dvd unat q" using q k(2) by simp
  then show d16: "16 dvd unat q" using d k(2) dvd_trans by metis
  show "unat q < unat raw + unat al" using hi k(2) al(1) by simp
  from d16 obtain c where c: "unat q = 16 * c" by blast
  define d' where "d' = unat raw div 16"
  have r: "unat raw = 16 * d' + 8" using raw mult_div_mod_eq [of 16 "unat raw"] by (simp add: d'_def)
  have "d' < c" by (rule ccontr) (use lo c r in linarith)
  then show "unat raw + 8 \<le> unat q" using c r by linarith
qed

text \<open>A shifted pointer with its back-pointer in place is taken back to the raw pointer.\<close>

lemma unshift_shifted:
  assumes inv: "heap_inv ctx fl us" and x: "(b, n) \<in> set us" and raw: "unat raw = b + 8"
    and q: "16 dvd unat q" "b + 16 \<le> unat q" "unat q < b + n"
    and bptr: "load32 (memory ctx) (unat q - 4) = raw"
  shows "unshift_user_off ctx q = raw" and "yos_free ctx q = yos_free ctx raw" and "q \<noteq> raw"
proof -
  note u = user_ptr [OF inv x raw] and k = heap_inv_blk [OF inv disjI2 [OF x]]
  have "unat (q AND 15) = 0" unfolding unat_and_15 using q(1) by (rule dvd_imp_mod_0)
  then have a: "q AND 15 = 0" by (simp add: unat_eq_zero)
  have lo: "unat (alloc_lo ctx + 16) = unat (alloc_lo ctx) + 16" "unat (alloc_lo ctx + 8) = unat (alloc_lo ctx) + 8"
    using unat_add_nowrap [of "alloc_lo ctx" 16] unat_add_nowrap [of "alloc_lo ctx" 8] k by simp_all
  have r8: "unat (raw + 8) = b + 16" using unat_add_nowrap [of raw 8] raw k by simp
  have bn: "unat (of_nat b + of_nat n :: u32) = b + n"
    using unat_add_nowrap [of "of_nat b" "of_nat n"] u(3) k by (simp add: unat_of_nat_u32)
  have tests: "\<not> q < alloc_lo ctx + 16" "\<not> (raw < alloc_lo ctx + 8 \<or> q \<le> raw)"
    "\<not> alloc_hi ctx < raw + 8" "\<not> (of_nat n :: u32) < 32" "\<not> of_nat b + of_nat n \<le> q"
    using lo r8 bn raw q k u(3) by (simp_all add: word_less_nat_alt word_le_nat_alt)
  then show un: "unshift_user_off ctx q = raw"
    using a bptr u(7) by (simp add: unshift_user_off_def Let_def u(2) [unfolded u(1)] u(1))
  show "q \<noteq> raw" using q raw by auto
  have "q \<noteq> 0" "\<not> q < alloc_lo ctx + 8" "\<not> alloc_hi ctx \<le> q"
    using q lo k by (auto simp: word_less_nat_alt word_le_nat_alt)
  then show "yos_free ctx q = yos_free ctx raw"
    using u(4,5,6,8) un by (simp add: yos_free_def)
qed

text \<open>
  A successful \<^verbatim>\<open>posix_memalign\<close> with an alignment above 8 stores, at a \<^verbatim>\<open>memptr\<close> outside the
  heap, a pointer that is a multiple of the alignment with \<open>sz\<close> bytes of a fresh used block behind it,
  and \<^verbatim>\<open>free\<close> of that shifted pointer finds the block again and gives back exactly the previous heap.
\<close>

theorem posix_memalign_correct:
  assumes inv: "heap_inv ctx fl us" and g: "length fl \<le> WALK_GUARD"
    and al: "8 < unat al" and sz: "unat sz + unat al \<le> 4294967272"
    and mp: "unat mp + 4 \<le> unat (alloc_lo ctx) \<or> unat (alloc_hi ctx) \<le> unat mp"
    and res: "yos_posix_memalign ctx mp al sz = (0, ctx')"
  shows "\<exists>b n q ctx''. load32 (memory ctx') (unat mp) = q \<and> unat al dvd unat q \<and>
    b + 12 \<le> unat q \<and> unat q + unat sz \<le> b + n \<and>
    (\<exists>fl'. heap_inv ctx' fl' ((b, n) # us)) \<and>
    yos_free ctx' q = Some ctx'' \<and> heap_inv ctx'' fl us"
proof -
  define need where "need = sz + al"
  have pre: "\<not> (mp = 0 \<or> unat (memory_size ctx) < unat mp + 4)" and p2: "al AND (al - 1) = 0"
    using res by (auto simp: yos_posix_memalign_def split: if_splits)
  have un: "unat need = unat sz + unat al" unfolding need_def by (rule unat_add_nowrap) (use sz in linarith)
  have al16: "16 \<le> unat al"
  proof -
    have "al \<noteq> 0" using al by auto
    then obtain k where "unat al = 2 ^ k" using pow2_u32 [OF _ p2] by blast
    then show ?thesis using al power_less_imp_less_exp [of "2 :: nat" 3 k] power_increasing [of 4 k "2 :: nat"] by simp
  qed
  obtain raw c where m: "yos_malloc ctx need = (raw, c)" by (cases "yos_malloc ctx need")
  define q0 where "q0 = (raw + al - 1) AND NOT (al - 1)"
  define q where "q = (if q0 = raw then raw + al else q0)"
  have small: "\<not> (al < 4)" "\<not> al \<le> 8" using al by (auto simp: word_less_nat_alt word_le_nat_alt)
  have eq: "yos_posix_memalign ctx mp al sz = (if raw = 0 then (ENOMEM, c) else
      (0, c\<lparr>memory := store32 (store32 (memory c) (unat q - 4) raw) (unat mp) q\<rparr>))"
    using pre p2 small al sz m unfolding need_def q_def q0_def
    by (simp add: yos_posix_memalign_def Let_def)
  then have ne: "raw \<noteq> 0" and c': "ctx' = c\<lparr>memory := store32 (store32 (memory c) (unat q - 4) raw) (unat mp) q\<rparr>"
    using res by (auto split: if_splits)
  from inv g m show ?thesis
  proof (cases rule: malloc_refines)
    case none
    then show ?thesis using ne by simp
  next
    case (some b n fl' mm h)
    note k = heap_inv_blk [OF some(6), of b n, simplified]
    have fit: "unat sz + unat al + 8 \<le> n"
      using first_fit_size [OF some(5)] malloc_need_ok(3) [of need] un sz by simp
    have rm: "unat raw mod 16 = 8" using some(3) k(6) by (auto elim!: dvdE)
    note rd = memalign_round [OF al16 p2 rm, folded q0_def]
    have room: "unat raw + unat al < 4294967296" using some(3) fit k by linarith
    have qq: "q = q0" using rd(2) [OF room] by (auto simp: q_def)
    note rq = rd [OF room, folded qq]
    have bounds: "b + 16 \<le> unat q" "unat q < b + n" "unat q + unat sz \<le> b + n"
      using rq some(3) fit by linarith+
    let ?m1 = "store32 (memory c) (unat q - 4) raw"
    have inv1: "heap_inv (c\<lparr>memory := ?m1\<rparr>) fl' ((b, n) # us)"
      by (rule payload_write [OF some(6), of b n]) (use bounds in \<open>auto simp: store32_def\<close>)
    have lohi: "alloc_lo c = alloc_lo ctx" "alloc_hi c = alloc_hi ctx" using some(4) by simp_all
    have "heap_inv (c\<lparr>memory := ?m1\<rparr>\<lparr>memory := store32 ?m1 (unat mp) q\<rparr>) fl' ((b, n) # us)"
    proof (rule outside_write [OF inv1])
      fix p assume "unat (alloc_lo (c\<lparr>memory := ?m1\<rparr>)) \<le> p" "p < unat (alloc_hi (c\<lparr>memory := ?m1\<rparr>))"
      then have "p < unat mp \<or> unat mp + 4 \<le> p" using mp lohi by auto
      then have "store32 ?m1 (unat mp) q p = ?m1 p" by (rule store32_other)
      then show "store32 ?m1 (unat mp) q p = memory (c\<lparr>memory := ?m1\<rparr>) p" by simp
    qed
    then have inv2: "heap_inv ctx' fl' ((b, n) # us)" by (simp add: c')
    have bptr: "load32 (memory ctx') (unat q - 4) = raw"
    proof -
      have "unat q - 4 + 4 \<le> unat mp \<or> unat mp + 4 \<le> unat q - 4" using mp bounds k(1,2) lohi by auto
      then have "load32 (store32 ?m1 (unat mp) q) (unat q - 4) = load32 ?m1 (unat q - 4)"
        by (rule load32_store32_other)
      then show ?thesis by (simp add: c')
    qed
    note us = unshift_shifted [OF inv2 _ some(3) rq(4) bounds(1,2) bptr, simplified]
    obtain ctx'' where f: "yos_free ctx' raw = Some ctx''"
      "heap_inv ctx'' (insert_free (b, n) fl') (remove1 (b, n) ((b, n) # us))"
      using free_refines [OF inv2 _ some(3), of n] by (metis list.set_intros(1))
    have "insert_free (b, n) fl' = fl"
      using insert_free_first_fit [OF some(5)] malloc_need_dvd [of need] inv
      by (simp add: heap_inv_def heap_wf_def)
    then show ?thesis
      using f us(2) inv2 rq(1) bounds
      by (intro exI [of _ b] exI [of _ n] exI [of _ q] exI [of _ ctx'']) (auto simp: c')
  qed
qed

lemma fresh_malloc_ok:
  assumes "unat sz \<le> 8000000"
  obtains c where "yos_malloc fresh_heap sz = (0x10008, c)"
proof -
  obtain off c where res: "yos_malloc fresh_heap sz = (off, c)" by (cases "yos_malloc fresh_heap sz")
  have need: "unat (malloc_need sz) \<le> 8000024" using malloc_need_ok(4) [of sz] assms by linarith
  have "length [(0x10000, 0x7F0000) :: blk] \<le> WALK_GUARD" by simp
  from fresh_heap_inv this res show thesis
  proof (cases rule: malloc_refines)
    case none
    then show thesis using need by simp
  next
    case (some b n fl' m h)
    then have "b = 0x10000" using need by (auto split: if_splits)
    then show thesis using that res some(1) by simp
  qed
qed

theorem posix_memalign_correct_witness:
  "\<exists>q. load32 (memory (snd (yos_posix_memalign fresh_heap 0x800 64 100))) 0x800 = q \<and> 64 dvd unat q"
proof -
  obtain c where "yos_malloc fresh_heap 164 = (0x10008, c)" using fresh_malloc_ok [of 164] by auto
  then have "fst (yos_posix_memalign fresh_heap 0x800 64 100) = 0"
    by (simp add: yos_posix_memalign_def Let_def fresh_heap_def alloc_init_locked_def align_up_def
        ctx_calloc_def blk_set_size_def blk_set_next_def)
  then have "yos_posix_memalign fresh_heap 0x800 64 100 = (0, snd (yos_posix_memalign fresh_heap 0x800 64 100))"
    by (metis prod.collapse)
  from posix_memalign_correct [OF fresh_heap_inv _ _ _ _ this] show ?thesis
    by (auto simp: fresh_heap_bounds)
qed

section \<open>Histories\<close>

text \<open>
  A history of a guest that uses its heap: \<^verbatim>\<open>malloc\<close>, \<^verbatim>\<open>free\<close> of a block in use, and stores to payload
  bytes, over the context and the blocks in use.
\<close>

inductive heap_step :: "yos_exec_ctx \<times> blk list \<Rightarrow> yos_exec_ctx \<times> blk list \<Rightarrow> bool" where
  alloc: "yos_malloc ctx sz = (off, ctx') \<Longrightarrow> off \<noteq> 0 \<Longrightarrow>
    heap_step (ctx, us) (ctx', (unat off - 8, unat (blk_size ctx' (off - 8))) # us)"
| fail: "yos_malloc ctx sz = (0, ctx') \<Longrightarrow> heap_step (ctx, us) (ctx', us)"
| release: "(b, n) \<in> set us \<Longrightarrow> yos_free ctx (of_nat (b + 8)) = Some ctx' \<Longrightarrow>
    heap_step (ctx, us) (ctx', remove1 (b, n) us)"
| store: "(b, n) \<in> set us \<Longrightarrow> b + 8 \<le> p \<Longrightarrow> p < b + n \<Longrightarrow>
    heap_step (ctx, us) (ctx\<lparr>memory := (memory ctx)(p := v)\<rparr>, us)"

text \<open>The heap has room for at most one free block per 48 bytes, so the walk guard is never hit below 192 MiB.\<close>

lemma free_blocks_bound:
  assumes "sorted_wrt gap fl" and "list_all (blk_ok lo hi) fl" and "fl \<noteq> []"
  shows "fst (hd fl) + 48 * length fl \<le> hi + 16"
  using assms
proof (induction fl)
  case (Cons x fl)
  obtain b s where x: "x = (b, s)" by (cases x)
  have ok: "b + s \<le> hi" "16 dvd b" "16 dvd s" "32 \<le> s" using Cons.prems x by (simp_all add: blk_ok_pair)
  show ?case
  proof (cases fl)
    case Nil
    then show ?thesis using ok x by simp
  next
    case (Cons y fl')
    obtain c t where y: "y = (c, t)" by (cases y)
    have bc: "b + s < c" and "16 dvd c" using Cons.prems Cons x y by (auto simp: blk_ok_pair)
    then have "16 dvd c - (b + s)" using ok(2,3) by (simp add: dvd_diff_nat)
    then have "16 \<le> c - (b + s)" by (rule dvd_imp_le) (use bc in linarith)
    then have "b + s + 16 \<le> c" by linarith
    then show ?thesis using Cons.IH Cons.prems Cons x y ok by simp
  qed
qed simp

lemma heap_inv_walk_bound:
  assumes inv: "heap_inv ctx fl us" and small: "unat (alloc_hi ctx) - unat (alloc_lo ctx) \<le> 201326592"
  shows "length fl \<le> WALK_GUARD"
proof (cases "fl = []")
  case False
  have wf: "sorted_wrt gap fl" "list_all (blk_ok (unat (alloc_lo ctx)) (unat (alloc_hi ctx))) fl"
    using inv by (simp_all add: heap_inv_def heap_wf_def)
  have "unat (alloc_lo ctx) \<le> fst (hd fl)" using wf(2) False by (cases fl) (auto simp: blk_ok_def)
  with free_blocks_bound [OF wf False] small show ?thesis by linarith
qed simp

text \<open>
  Claim C7: in a heap of at most 192 MiB no history of \<^verbatim>\<open>malloc\<close>, \<^verbatim>\<open>free\<close> of blocks in use and stores to
  payloads can corrupt it: the free list inside linear memory stays well formed, ordered and
  coalesced, and free and used blocks tile the heap region.
\<close>

theorem heap_history_safe:
  assumes "heap_step\<^sup>*\<^sup>* (ctx, us) (ctx', us')" and "heap_inv ctx fl us"
    and "unat (alloc_hi ctx) - unat (alloc_lo ctx) \<le> 201326592"
  shows "(\<exists>fl'. heap_inv ctx' fl' us') \<and> alloc_lo ctx' = alloc_lo ctx \<and> alloc_hi ctx' = alloc_hi ctx"
  using assms(1)
proof (induction "(ctx', us')" arbitrary: ctx' us' rule: rtranclp_induct)
  case base
  then show ?case using assms(2) by auto
next
  case (step y)
  obtain c vs where y: "y = (c, vs)" by (cases y)
  from step(3) [OF y] obtain fl1 where inv: "heap_inv c fl1 vs"
    and lohi: "alloc_lo c = alloc_lo ctx" "alloc_hi c = alloc_hi ctx" by blast
  have g: "length fl1 \<le> WALK_GUARD" using heap_inv_walk_bound [OF inv] assms(3) lohi by simp
  from step(2) show ?case unfolding y
  proof cases
    case (alloc sz off)
    from inv g alloc(2) show ?thesis
    proof (cases rule: malloc_refines)
      case (some b n fl2 m h)
      note u = user_ptr [OF some(6) _ some(3), of n, simplified]
      have "unat (blk_size ctx' (off - 8)) = n" using u(2,3) by simp
      then show ?thesis using some(3,4,6) alloc(1) lohi by auto
    qed (use alloc in simp)
  next
    case (fail sz)
    from inv g fail(2) show ?thesis
    proof (cases rule: malloc_refines)
      case none
      then show ?thesis using inv lohi fail(1) by auto
    qed simp
  next
    case (release b n)
    have u: "unat (of_nat (b + 8) :: u32) = b + 8"
      by (rule unat_of_nat_u32) (use heap_inv_blk(3,8) [OF inv disjI2 [OF release(2)]] in linarith)
    show ?thesis
      by (rule free_refines [OF inv release(2) u]) (use release(1,3) lohi in auto)
  next
    case (store b n p v)
    have "heap_inv (c\<lparr>memory := (memory c)(p := v)\<rparr>) fl1 vs"
      by (rule payload_write [OF inv store(3)]) (use store in auto)
    then show ?thesis using store(1,2) lohi by auto
  qed
qed

theorem heap_history_safe_witness:
  "\<exists>fl'. heap_inv (snd (yos_malloc fresh_heap 100)) fl'
     [(0x10000, unat (blk_size (snd (yos_malloc fresh_heap 100)) 0x10000))]"
proof -
  obtain c where m: "yos_malloc fresh_heap 100 = (0x10008, c)" using fresh_malloc by blast
  have "heap_step (fresh_heap, []) (c, [(unat (0x10008 :: u32) - 8, unat (blk_size c (0x10008 - 8)))])"
    using m by (rule heap_step.alloc) simp
  then have "heap_step\<^sup>*\<^sup>* (fresh_heap, []) (c, [(0x10000, unat (blk_size c 0x10000))])" by simp
  from heap_history_safe [OF this fresh_heap_inv] show ?thesis by (simp add: m fresh_heap_bounds)
qed

section \<open>Defects\<close>

text \<open>
  \<^verbatim>\<open>malloc\<close> does not check its size arithmetic.  A request within 23 bytes of 4 GiB wraps to the
  minimal block: the call does exactly what \<^verbatim>\<open>malloc(24)\<close> does, so it succeeds with 24 usable bytes.
\<close>

theorem malloc_size_wraps:
  assumes "4294967273 \<le> unat sz"
  shows "yos_malloc ctx sz = yos_malloc ctx 24"
proof -
  have "malloc_need 24 = 32" by (simp add: malloc_need_def align_up_def Let_def)
  then show ?thesis using malloc_need_wraps [OF assms] by (simp add: yos_malloc_def case_prod_unfold)
qed

theorem malloc_size_wraps_witness: "fst (yos_malloc fresh_heap 0xFFFFFFFF) = 0x10008"
proof -
  obtain c where "yos_malloc fresh_heap 24 = (0x10008, c)" using fresh_malloc_ok [of 24] by auto
  then show ?thesis using malloc_size_wraps [of "0xFFFFFFFF" fresh_heap] by simp
qed

text \<open>
  \<^verbatim>\<open>calloc\<close> of such a size then clears the full request: every byte from the returned pointer
  up to almost 4 GiB is zeroed, host memory beyond \<^verbatim>\<open>memory_size\<close> included.
\<close>

theorem calloc_clears_host_memory:
  assumes "yos_calloc ctx 1 sz = (off, ctx')" and "off \<noteq> 0"
    and "unat off \<le> p" and "p < unat off + unat sz"
  shows "memory ctx' p = 0"
  using assms
  by (auto simp: yos_calloc_def Let_def mem_fill_def word_less_nat_alt split: prod.splits if_splits)

theorem calloc_clears_host_memory_witness:
  "memory (snd (yos_calloc (fresh_heap\<lparr>memory := (memory fresh_heap)(0x2000000 := 1)\<rparr>) 1 0xFFFFFFFF)) 0x2000000 = 0"
proof -
  let ?c = "fresh_heap\<lparr>memory := (memory fresh_heap)(0x2000000 := 1)\<rparr>"
  have inv: "heap_inv ?c [(0x10000, 0x7F0000)] []"
    by (rule outside_write [OF fresh_heap_inv]) (simp add: fresh_heap_bounds)
  obtain off d where m: "yos_malloc ?c 0xFFFFFFFF = (off, d)" by (cases "yos_malloc ?c 0xFFFFFFFF")
  have need: "malloc_need 0xFFFFFFFF = 32" by (simp add: malloc_need_wraps)
  have "length [(0x10000, 0x7F0000) :: blk] \<le> WALK_GUARD" by simp
  from inv this m have off: "off = 0x10008"
    by (cases rule: malloc_refines) (auto simp: need)
  obtain c' where res: "yos_calloc ?c 1 0xFFFFFFFF = (off, c')"
    using m off by (simp add: yos_calloc_def mul_overflows_def Let_def)
  from calloc_clears_host_memory [OF res] show ?thesis using off by (simp add: res)
qed

text \<open>
  \<^verbatim>\<open>aligned_alloc\<close> and \<^verbatim>\<open>memalign\<close> accept an alignment of 16 but every pointer they return is 8
  modulo 16, never a multiple of 16.
\<close>

theorem aligned_alloc_16_misaligned:
  assumes "heap_inv ctx fl us" and "length fl \<le> WALK_GUARD"
    and "yos_memalign ctx 16 sz = (off, ctx')" and "off \<noteq> 0"
  shows "unat off mod 16 = 8"
proof -
  have "yos_malloc ctx sz = (off, ctx')" using assms(3) by (simp add: yos_memalign_def yos_aligned_alloc_def)
  from assms(1,2) this show ?thesis
  proof (cases rule: malloc_refines)
    case (some b n fl' m h)
    then show ?thesis using heap_inv_blk(6) [OF some(6), of b n] by (auto elim!: dvdE)
  qed (use assms(4) in simp)
qed

theorem aligned_alloc_16_misaligned_witness: "unat (fst (yos_memalign fresh_heap 16 100)) mod 16 = 8"
proof -
  obtain c where m: "yos_malloc fresh_heap 100 = (0x10008, c)" using fresh_malloc by blast
  then have "yos_memalign fresh_heap 16 100 = (0x10008, c)"
    by (simp add: yos_memalign_def yos_aligned_alloc_def)
  from aligned_alloc_16_misaligned [OF fresh_heap_inv _ this] show ?thesis
    using m by (simp add: yos_memalign_def yos_aligned_alloc_def)
qed

text \<open>
  \<^verbatim>\<open>realloc\<close> of a pointer \<^verbatim>\<open>posix_memalign\<close> returned, to a size that fits the block, returns the
  raw pointer, a different address, and moves nothing: the caller's bytes are not at the start of
  what it gets back.
\<close>

theorem realloc_shifted_moves_nothing:
  assumes inv: "heap_inv ctx fl us" and x: "(b, n) \<in> set us" and raw: "unat raw = b + 8"
    and q: "16 dvd unat q" "b + 16 \<le> unat q" "unat q < b + n"
    and bptr: "load32 (memory ctx) (unat q - 4) = raw"
    and sz: "newsize \<noteq> 0" "unat newsize + 8 \<le> n"
  shows "yos_realloc ctx q newsize = Some (raw, ctx) \<and> raw \<noteq> q"
proof -
  note us = unshift_shifted [OF inv x raw q bptr] and u = user_ptr [OF inv x raw]
    and k = heap_inv_blk [OF inv disjI2 [OF x]]
  have lo: "unat (alloc_lo ctx + 8) = unat (alloc_lo ctx) + 8"
    using unat_add_nowrap [of "alloc_lo ctx" 8] k by simp
  have q': "q \<noteq> 0" "\<not> q < alloc_lo ctx + 8" "\<not> alloc_hi ctx \<le> q"
    using q lo k by (auto simp: word_less_nat_alt word_le_nat_alt)
  have pay: "unat (of_nat n - 8 :: u32) = n - 8"
    using u(3) k by (subst unat_sub_nowrap) (simp_all add: word_le_nat_alt)
  have fits: "newsize \<le> of_nat n - 8" using pay sz(2) by (simp add: word_le_nat_alt)
  have old: "\<not> (of_nat n :: u32) < 8" using u(3) k by (simp add: word_less_nat_alt)
  show ?thesis
    unfolding yos_realloc_def Let_def us(1) u(1) u(2) [unfolded u(1)]
    using q' sz(1) old u(7) fits us(3) by auto
qed

theorem realloc_shifted_moves_nothing_witness:
  "\<exists>ctx. yos_realloc ctx 0x10020 64 = Some (0x10008, ctx)"
proof -
  obtain c where inv: "heap_inv c [(0x10070, 0x7EFF90)] [(0x10000, 112)]" using fresh_malloc by blast
  let ?c = "c\<lparr>memory := store32 (memory c) 0x1001c 0x10008\<rparr>"
  have inv2: "heap_inv ?c [(0x10070, 0x7EFF90)] [(0x10000, 112)]"
    by (rule payload_write [OF inv, of "0x10000" 112]) (auto simp: store32_def)
  have "load32 (memory ?c) (unat (0x10020 :: u32) - 4) = 0x10008" by simp
  from realloc_shifted_moves_nothing [OF inv2 _ _ _ _ _ this, of "0x10000" 112 64]
  show ?thesis by fastforce
qed

end
