(* ===== verification/VfsMount.thy ===== *)
theory VfsMount
  imports Prelude
begin

text \<open>
  The mount table, \<^verbatim>\<open>src/src/yos/vfs/mount.c\<close>: at most 16 mount points, resolved by the longest
  mount path that is a directory prefix of the path.  Paths are C strings, so character lists without
  the terminating NUL; the character at the end of a string is NUL.
\<close>

record 'o yos_mount =
  mpath :: string
  mops :: 'o

type_synonym 'o yos_mount_table = "'o yos_mount list"

abbreviation YOS_MAX_MOUNTS :: nat where "YOS_MAX_MOUNTS \<equiv> 16"
abbreviation YOS_MOUNT_PATH_MAX :: nat where "YOS_MOUNT_PATH_MAX \<equiv> 256"

definition yos_mount_table_init :: "'o yos_mount_table" where
  "yos_mount_table_init = []"

definition yos_mount_add :: "'o yos_mount_table \<Rightarrow> string \<Rightarrow> 'o \<Rightarrow> int \<times> 'o yos_mount_table" where
  "yos_mount_add table path ops =
     (if YOS_MAX_MOUNTS \<le> length table then (- 12, table)
      else if YOS_MOUNT_PATH_MAX \<le> length path then (- 36, table)
      else (0, table @ [\<lparr> mpath = path, mops = ops \<rparr>]))"

text \<open>
  \<^verbatim>\<open>strncmp(path, mount_path, mount_len) == 0\<close> for a mount path of exactly \<^verbatim>\<open>mount_len\<close> characters
  is: the mount path is a prefix.  The character after it is NUL at the end of the path.
\<close>

definition char_at :: "string \<Rightarrow> nat \<Rightarrow> char" where
  "char_at s i = (if i < length s then s ! i else CHR 0x00)"

definition mount_path_matches :: "string \<Rightarrow> string \<Rightarrow> nat" where
  "mount_path_matches mount_path path =
     (if take (length mount_path) path \<noteq> mount_path then 0
      else let nxt = char_at path (length mount_path) in
        if nxt = CHR 0x00 \<or> nxt = CHR ''/'' then length mount_path else 0)"

fun best_mount ::
  "'o yos_mount_table \<Rightarrow> string \<Rightarrow> 'o yos_mount option \<Rightarrow> nat \<Rightarrow> 'o yos_mount option \<times> nat" where
  "best_mount [] path best best_len = (best, best_len)"
| "best_mount (m # ms) path best best_len =
     (let match_len = mount_path_matches (mpath m) path in
      if best_len < match_len then best_mount ms path (Some m) match_len
      else best_mount ms path best best_len)"

text \<open>The operations (\<open>None\<close> for the host file system) and the remaining path.\<close>

definition yos_mount_resolve :: "'o yos_mount_table \<Rightarrow> string \<Rightarrow> 'o option \<times> string" where
  "yos_mount_resolve table path =
     (case best_mount table path None 0 of
        (None, best_len) \<Rightarrow> (None, path)
      | (Some m, best_len) \<Rightarrow>
          let rest = drop best_len path in
          (Some (mops m), if rest \<noteq> [] \<and> hd rest = CHR ''/'' then tl rest else rest))"

section \<open>Resolution\<close>

text \<open>The specification: a non-empty mount path is a parent of a path if the path continues with a
  slash or ends there.\<close>

definition mount_covers :: "string \<Rightarrow> string \<Rightarrow> bool" where
  "mount_covers mp path \<longleftrightarrow> mp \<noteq> [] \<and> (path = mp \<or> (\<exists>rest. path = mp @ CHR ''/'' # rest))"

lemma mount_path_matches_iff:
  assumes "CHR 0x00 \<notin> set path"
  shows "mount_path_matches mp path = (if mount_covers mp path then length mp else 0)"
proof (cases "take (length mp) path = mp")
  case False
  then have "\<not> mount_covers mp path" by (auto simp: mount_covers_def)
  with False show ?thesis by (simp add: mount_path_matches_def)
next
  case True
  then obtain rest where p: "path = mp @ rest" by (metis append_take_drop_id)
  show ?thesis
  proof (cases rest)
    case Nil
    then show ?thesis using p by (auto simp: mount_path_matches_def mount_covers_def char_at_def)
  next
    case (Cons c rest')
    then have "c \<noteq> CHR 0x00" using assms p by auto
    then show ?thesis using p Cons
      by (auto simp: mount_path_matches_def mount_covers_def char_at_def Let_def)
  qed
qed

lemma best_mount_spec:
  assumes "CHR 0x00 \<notin> set path" and "best_mount ms path best bl = (r, l)"
  shows "bl \<le> l \<and>
    (\<forall>m\<in>set ms. mount_covers (mpath m) path \<longrightarrow> length (mpath m) \<le> l) \<and>
    ((r = best \<and> l = bl) \<or>
     (\<exists>m\<in>set ms. r = Some m \<and> l = length (mpath m) \<and> bl < l \<and> mount_covers (mpath m) path))"
  using assms(2)
proof (induction ms arbitrary: best bl)
  case (Cons m ms)
  let ?k = "mount_path_matches (mpath m) path"
  show ?case
  proof (cases "bl < ?k")
    case True
    then have cov: "mount_covers (mpath m) path" "?k = length (mpath m)"
      using mount_path_matches_iff [OF assms(1), of "mpath m"] by (auto split: if_splits)
    have "best_mount ms path (Some m) ?k = (r, l)" using Cons.prems True by simp
    from Cons.IH [OF this] True cov show ?thesis by auto
  next
    case False
    then have "best_mount ms path best bl = (r, l)" using Cons.prems by simp
    from Cons.IH [OF this] False show ?thesis
      using mount_path_matches_iff [OF assms(1), of "mpath m"] by (auto split: if_splits)
  qed
qed simp

text \<open>
  Claim C14: \<^verbatim>\<open>yos_mount_resolve\<close> picks the longest mount point that is a parent directory of the path
  (or the path itself), and hands out the rest of the path without the separating slash; when no mount
  point covers the path it is left to the host file system unchanged.  In particular a mount at
  \<^verbatim>\<open>/proc\<close> never captures \<^verbatim>\<open>/procfs\<close>.
\<close>

theorem mount_resolve_longest:
  assumes nul: "CHR 0x00 \<notin> set path" and res: "yos_mount_resolve table path = (ops, rest)"
  shows "case ops of
      None \<Rightarrow> rest = path \<and> (\<forall>m\<in>set table. \<not> mount_covers (mpath m) path)
    | Some f \<Rightarrow> \<exists>m\<in>set table. f = mops m \<and> mount_covers (mpath m) path \<and>
        (path = mpath m \<and> rest = [] \<or> path = mpath m @ CHR ''/'' # rest) \<and>
        (\<forall>m'\<in>set table. mount_covers (mpath m') path \<longrightarrow> length (mpath m') \<le> length (mpath m))"
proof -
  obtain r l where b: "best_mount table path None 0 = (r, l)" by (cases "best_mount table path None 0")
  note sp = best_mount_spec [OF nul b]
  show ?thesis
  proof (cases r)
    case None
    then have "l = 0" using sp by auto
    then have "\<not> mount_covers (mpath m) path" if "m \<in> set table" for m
      using sp that by (auto simp: mount_covers_def)
    then show ?thesis using res b None by (auto simp: yos_mount_resolve_def)
  next
    case (Some m)
    then have m: "m \<in> set table" "l = length (mpath m)" "mount_covers (mpath m) path" using sp by auto
    then have "rest = (if path = mpath m then [] else drop (Suc l) path)"
      using res b Some by (auto simp: yos_mount_resolve_def Let_def mount_covers_def)
    then show ?thesis using m sp res b Some
      by (auto simp: yos_mount_resolve_def mount_covers_def intro!: bexI [of _ m])
  qed
qed

theorem mount_resolve_longest_witness:
  "yos_mount_resolve [\<lparr> mpath = ''/proc'', mops = (1 :: nat) \<rparr>, \<lparr> mpath = ''/proc/sys'', mops = 2 \<rparr>]
     ''/proc/sys/fs'' = (Some 2, ''fs'') \<and>
   yos_mount_resolve [\<lparr> mpath = ''/proc'', mops = (1 :: nat) \<rparr>] ''/procfs'' = (None, ''/procfs'')"
proof -
  have "fst (yos_mount_resolve [\<lparr> mpath = ''/proc'', mops = (1 :: nat) \<rparr>] ''/procfs'') = None"
    by (simp add: yos_mount_resolve_def mount_path_matches_def char_at_def)
  then obtain rest where r: "yos_mount_resolve [\<lparr> mpath = ''/proc'', mops = (1 :: nat) \<rparr>] ''/procfs'' = (None, rest)"
    by (metis prod.collapse)
  from mount_resolve_longest [OF _ r] have "rest = ''/procfs''" by simp
  with r show ?thesis by (simp add: yos_mount_resolve_def mount_path_matches_def char_at_def)
qed

end
