(* ===== verification/ProcTable.thy ===== *)
theory ProcTable
  imports Ctx VfsMount
begin

text \<open>
  The process table of \<^verbatim>\<open>src/src/yos/impl/proc/proc.c\<close>: slots, identity, signal delivery to a process,
  exit and its clean-up, and \<^verbatim>\<open>wait\<close>.  The runtime record holds the process table, every guest context
  (a \<^verbatim>\<open>ctx_handle\<close> is the key of one) and the log of the host calls made; \<^verbatim>\<open>pthread_kill\<close>'s result is
  the parameter \<open>pk\<close>.  Mutexes are not modelled: each function body between lock and unlock is atomic,
  and what other threads do while \<^verbatim>\<open>waitpid\<close> sleeps is its parameter \<open>sched\<close>.
\<close>

section \<open>Processes and the runtime\<close>

datatype yos_proc_state = YOS_PROC_FREE | YOS_PROC_READY | YOS_PROC_RUNNING | YOS_PROC_ZOMBIE

record yos_proc =
  pid :: int
  ppid :: int
  pgid :: int
  sid :: int
  tgid :: int
  tid_address :: u32
  pstate :: yos_proc_state
  exit_code :: int
  term_sig :: int
  exited :: bool
  vfork_parent_pid :: int
  vfork_child_done :: bool
  thread :: nat
  ctx_handle :: "nat option"
  comm :: string
  exe :: string
  pcwd :: string
  cmdline :: "string list option"
  was_orphaned :: bool

text \<open>The host calls that leave the model.\<close>

datatype host_event =
    HClose int | HFclose nat | HPthreadKill nat int | HWrite int string
  | HVforkSignal nat | HWaitBroadcast nat | HAnyExitBroadcast | HFflushAll | HKqueueNotifyExit int
  | HPthreadExit int | HPlatExit int | HPthreadSigmask int "int set"

record yos_runtime =
  procs :: "yos_proc list"
  next_pid :: int
  fg_pgid :: int
  rt_mounts :: "fs_ops yos_mount_table option"
  ctxs :: "nat \<Rightarrow> yos_exec_ctx"
  host_log :: "host_event list"

definition upd_proc :: "yos_runtime \<Rightarrow> nat \<Rightarrow> (yos_proc \<Rightarrow> yos_proc) \<Rightarrow> yos_runtime" where
  "upd_proc rt i f = rt\<lparr>procs := (procs rt)[i := f (procs rt ! i)]\<rparr>"

definition upd_ctx :: "yos_runtime \<Rightarrow> nat \<Rightarrow> (yos_exec_ctx \<Rightarrow> yos_exec_ctx) \<Rightarrow> yos_runtime" where
  "upd_ctx rt h f = rt\<lparr>ctxs := (ctxs rt)(h := f (ctxs rt h))\<rparr>"

definition log_host :: "yos_runtime \<Rightarrow> host_event list \<Rightarrow> yos_runtime" where
  "log_host rt es = rt\<lparr>host_log := host_log rt @ es\<rparr>"

definition zero_proc :: yos_proc where
  "zero_proc = \<lparr> pid = 0, ppid = 0, pgid = 0, sid = 0, tgid = 0, tid_address = 0,
     pstate = YOS_PROC_FREE, exit_code = 0, term_sig = 0, exited = False, vfork_parent_pid = 0,
     vfork_child_done = False, thread = 0, ctx_handle = None, comm = [], exe = [], pcwd = [],
     cmdline = None, was_orphaned = False \<rparr>"

definition yos_proc_alloc :: "yos_runtime \<Rightarrow> int \<Rightarrow> nat option \<times> yos_runtime" where
  "yos_proc_alloc rt parent =
     (case find_index (\<lambda>p. pstate p = YOS_PROC_FREE) (take YOS_MAX_PROCS (procs rt)) of
        None \<Rightarrow> (None, rt)
      | Some i \<Rightarrow>
          let n = next_pid rt;
              p = zero_proc\<lparr>pid := n, ppid := parent, pgid := n, sid := n, tgid := n,
                    tid_address := 0, pstate := YOS_PROC_READY, vfork_parent_pid := - 1\<rparr>
          in (Some i, rt\<lparr>next_pid := n + 1, procs := (procs rt)[i := p]\<rparr>))"

definition yos_proc_find :: "yos_runtime \<Rightarrow> int \<Rightarrow> nat option" where
  "yos_proc_find rt n =
     find_index (\<lambda>p. pid p = n \<and> pstate p \<noteq> YOS_PROC_FREE) (take YOS_MAX_PROCS (procs rt))"

section \<open>Delivering a signal\<close>

abbreviation HOST_SIGUSR2 :: int where "HOST_SIGUSR2 \<equiv> 12"

definition set_pending :: "yos_runtime \<Rightarrow> nat option \<Rightarrow> nat \<Rightarrow> yos_runtime" where
  "set_pending rt h sig =
     (case h of None \<Rightarrow> rt
      | Some c \<Rightarrow> upd_ctx rt c (\<lambda>t. t\<lparr>sig_pending := sig_pending t OR push_bit sig 1\<rparr>))"

definition deliver_to_proc ::
  "(nat \<Rightarrow> int \<Rightarrow> int) \<Rightarrow> yos_runtime \<Rightarrow> nat \<Rightarrow> int \<Rightarrow> int \<times> yos_runtime" where
  "deliver_to_proc pk rt i sig =
     (let p = procs rt ! i in
      if pstate p = YOS_PROC_FREE \<or> pstate p = YOS_PROC_ZOMBIE then (- ESRCH, rt)
      else if sig = 0 then (0, rt)
      else if thread p = 0 then (- ESRCH, rt)
      else if sig = 17 \<or> sig = 18 \<or> sig = 19 \<or> sig = 21 \<or> sig = 22 then (0, rt)
      else if sig = 9 then
        (0, log_host (set_pending rt (ctx_handle p) 9) [HPthreadKill (thread p) HOST_SIGUSR2])
      else
        let rt' = (if 0 < sig \<and> sig < 32 then set_pending rt (ctx_handle p) (nat sig) else rt);
            rc = pk (thread p) HOST_SIGUSR2
        in (if rc = 0 then 0 else - rc, log_host rt' [HPthreadKill (thread p) HOST_SIGUSR2]))"

definition yos_proc_kill_by_pid ::
  "(nat \<Rightarrow> int \<Rightarrow> int) \<Rightarrow> yos_runtime \<Rightarrow> int \<Rightarrow> int \<Rightarrow> int \<times> yos_runtime" where
  "yos_proc_kill_by_pid pk rt n sig =
     (case yos_proc_find rt n of None \<Rightarrow> (- ESRCH, rt) | Some i \<Rightarrow> deliver_to_proc pk rt i sig)"

definition yos_tkill ::
  "(nat \<Rightarrow> int \<Rightarrow> int) \<Rightarrow> yos_runtime \<Rightarrow> int \<Rightarrow> int \<Rightarrow> int \<times> yos_runtime" where
  "yos_tkill pk rt tid sig =
     (if tid \<le> 0 then (- ESRCH, rt)
      else case yos_proc_find rt tid of None \<Rightarrow> (- ESRCH, rt) | Some i \<Rightarrow> deliver_to_proc pk rt i sig)"

definition yos_tgkill ::
  "(nat \<Rightarrow> int \<Rightarrow> int) \<Rightarrow> yos_runtime \<Rightarrow> int \<Rightarrow> int \<Rightarrow> int \<Rightarrow> int \<times> yos_runtime" where
  "yos_tgkill pk rt tg tid sig =
     (if tid \<le> 0 then (- ESRCH, rt)
      else case yos_proc_find rt tid of
          None \<Rightarrow> (- ESRCH, rt)
        | Some i \<Rightarrow>
            if 0 < tg \<and> tg \<noteq> pid (procs rt ! i) then (- ESRCH, rt) else deliver_to_proc pk rt i sig)"

section \<open>Exit\<close>

text \<open>Closing the descriptors and streams a process holds: host descriptors 0, 1 and 2 are kept.\<close>

definition close_all_fds :: "yos_exec_ctx \<Rightarrow> yos_exec_ctx" where
  "close_all_fds ctx = ctx\<lparr>
     fd_map := map (\<lambda>h. if 3 \<le> h then - 1 else h) (fd_map ctx),
     file_wfds := map2 (\<lambda>s w. if s = None then w else - 1) (file_slots ctx) (file_wfds ctx),
     file_modes := map2 (\<lambda>s m. if s = None then m else []) (file_slots ctx) (file_modes ctx),
     file_slots := map (\<lambda>_. None) (file_slots ctx)\<rparr>"

definition close_events :: "yos_exec_ctx \<Rightarrow> host_event list" where
  "close_events ctx = map HClose (filter (\<lambda>h. 3 \<le> h) (fd_map ctx))
     @ map (HFclose \<circ> the) (filter (\<lambda>s. s \<noteq> None) (file_slots ctx))"

abbreviation FBSD_SIGHUP :: int where "FBSD_SIGHUP \<equiv> 1"
abbreviation FBSD_SIGCHLD :: nat where "FBSD_SIGCHLD \<equiv> 20"

definition is_orphan_of :: "int \<Rightarrow> yos_proc \<Rightarrow> bool" where
  "is_orphan_of dead p \<longleftrightarrow> pstate p \<noteq> YOS_PROC_FREE \<and> ppid p = dead \<and> pid p \<noteq> dead"

definition reparent :: "int \<Rightarrow> yos_proc \<Rightarrow> yos_proc" where
  "reparent dead p = (if is_orphan_of dead p then p\<lparr>ppid := 1, was_orphaned := True\<rparr> else p)"

definition ignores_chld :: "yos_runtime \<Rightarrow> int \<Rightarrow> bool" where
  "ignores_chld rt parent = list_ex (\<lambda>p. pstate p \<noteq> YOS_PROC_FREE \<and> pid p = parent \<and>
     (case ctx_handle p of None \<Rightarrow> False | Some c \<Rightarrow> bit (sig_ignore_mask (ctxs rt c)) FBSD_SIGCHLD))
     (procs rt)"

fun sighup_orphans ::
  "(nat \<Rightarrow> int \<Rightarrow> int) \<Rightarrow> int list \<Rightarrow> yos_runtime \<Rightarrow> yos_runtime" where
  "sighup_orphans pk [] rt = rt"
| "sighup_orphans pk (n # ns) rt =
     sighup_orphans pk ns (snd (yos_proc_kill_by_pid pk rt n FBSD_SIGHUP))"

definition yos_proc_post_exit_cleanup ::
  "(nat \<Rightarrow> int \<Rightarrow> int) \<Rightarrow> yos_runtime \<Rightarrow> nat \<Rightarrow> yos_runtime" where
  "yos_proc_post_exit_cleanup pk rt me =
     (case proc_slot (ctxs rt me) of
        None \<Rightarrow> rt
      | Some i \<Rightarrow>
          let ctx = ctxs rt me;
              exiting_pid = pid (procs rt ! i);
              parent_pid = ppid (procs rt ! i);
              rt1 = log_host (upd_ctx rt me close_all_fds) (close_events ctx);
              parent_ignores_chld = (was_orphaned (procs rt1 ! i) \<or> ignores_chld rt1 parent_pid);
              hup_pids = map pid (filter (is_orphan_of exiting_pid) (procs rt1));
              rt2 = rt1\<lparr>procs := map (reparent exiting_pid) (procs rt1)\<rparr>;
              rt3 = (if parent_ignores_chld \<and> pstate (procs rt2 ! i) = YOS_PROC_ZOMBIE
                     then upd_proc rt2 i (\<lambda>p. p\<lparr>pstate := YOS_PROC_FREE, ctx_handle := None, cmdline := None\<rparr>)
                     else rt2);
              rt4 = sighup_orphans pk hup_pids rt3
          in if is_forkpty_child ctx
             then snd (yos_proc_kill_by_pid pk rt4 parent_pid (int FBSD_SIGCHLD))
             else rt4)"

text \<open>
  The synthesized \<^verbatim>\<open>command not found\<close> line of a failed child: \<open>strerr\<close> is the host's \<^verbatim>\<open>strerror\<close> and
  \<open>no_diag\<close> whether the host environment has \<^verbatim>\<open>YOS_NO_FORK_DIAG\<close>.
\<close>

definition basename_of :: "string \<Rightarrow> string" where
  "basename_of path = rev (takeWhile (\<lambda>c. c \<noteq> CHR ''/'') (rev path))"

definition fork_diag :: "(int \<Rightarrow> string) \<Rightarrow> bool \<Rightarrow> yos_exec_ctx \<Rightarrow> int \<Rightarrow> host_event list" where
  "fork_diag strerr no_diag ctx code =
     (if is_child ctx \<and> code \<noteq> 0 \<and> last_failed_exec_path ctx \<noteq> [] \<and>
         \<not> stderr_written_since_exec ctx \<and> \<not> no_diag
      then let base = basename_of (last_failed_exec_path ctx);
               kind = (if last_failed_exec_errno ctx = ENOENT then ''command not found''
                       else strerr (last_failed_exec_errno ctx));
               msg = ''zsh:1: '' @ kind @ '': '' @ base @ [CHR 0x0A];
               hfd = (if fd_map ctx ! 2 < 0 then 2 else fd_map ctx ! 2)
           in [HWrite hfd msg]
      else [])"

definition clear_tid :: "u32 \<Rightarrow> yos_exec_ctx \<Rightarrow> yos_exec_ctx" where
  "clear_tid a ctx =
     (if a \<noteq> 0 \<and> a + 4 \<le> memory_size ctx
      then ctx\<lparr>memory := store32 (memory ctx) (unat a) 0\<rparr> else ctx)"

definition signal_vfork_parent :: "yos_runtime \<Rightarrow> nat \<Rightarrow> yos_runtime" where
  "signal_vfork_parent rt i =
     (if 0 < vfork_parent_pid (procs rt ! i)
      then let rt1 = (case yos_proc_find rt (vfork_parent_pid (procs rt ! i)) of
                        None \<Rightarrow> rt
                      | Some j \<Rightarrow> log_host (upd_proc rt j (\<lambda>p. p\<lparr>vfork_child_done := True\<rparr>)) [HVforkSignal j])
           in upd_proc rt1 i (\<lambda>p. p\<lparr>vfork_parent_pid := - 1\<rparr>)
      else rt)"

definition mark_zombie :: "int \<Rightarrow> yos_proc \<Rightarrow> yos_proc" where
  "mark_zombie code p =
     (if pstate p = YOS_PROC_READY \<or> pstate p = YOS_PROC_RUNNING
      then p\<lparr>pstate := YOS_PROC_ZOMBIE, exit_code := code, exited := True\<rparr> else p)"

text \<open>\<^verbatim>\<open>yos_exit\<close>, up to the call that ends the host thread or process, the last event of the log.\<close>

definition yos_exit ::
  "(nat \<Rightarrow> int \<Rightarrow> int) \<Rightarrow> (int \<Rightarrow> string) \<Rightarrow> bool \<Rightarrow> yos_runtime \<Rightarrow> nat \<Rightarrow> int \<Rightarrow> yos_runtime" where
  "yos_exit pk strerr no_diag rt me code =
     (let ctx = ctxs rt me;
          rt0 = log_host rt (fork_diag strerr no_diag ctx code);
          rt' = (case proc_slot ctx of
                   None \<Rightarrow> rt0
                 | Some i \<Rightarrow>
                     let rt1 = signal_vfork_parent rt0 i;
                         rt2 = upd_ctx rt1 me (clear_tid (tid_address (procs rt1 ! i)));
                         rt3 = log_host (upd_proc rt2 i (mark_zombie code)) [HWaitBroadcast i];
                         rt4 = yos_proc_post_exit_cleanup pk rt3 me
                     in log_host rt4 [HAnyExitBroadcast])
      in if is_child ctx
         then log_host rt' ([HFflushAll]
                @ (case proc_slot ctx of None \<Rightarrow> [] | Some i \<Rightarrow> [HKqueueNotifyExit (pid (procs rt' ! i))])
                @ [HPthreadExit code])
         else log_host rt' [HFflushAll, HPlatExit code])"

section \<open>Waiting\<close>

definition is_child_of :: "int \<Rightarrow> int \<Rightarrow> yos_proc \<Rightarrow> bool" where
  "is_child_of parent n p \<longleftrightarrow> ppid p = parent \<and> (n = - 1 \<or> pid p = n)"

definition find_zombie_child :: "yos_runtime \<Rightarrow> int \<Rightarrow> int \<Rightarrow> nat option" where
  "find_zombie_child rt parent n =
     find_index (\<lambda>p. pstate p = YOS_PROC_ZOMBIE \<and> is_child_of parent n p) (take YOS_MAX_PROCS (procs rt))"

definition has_children :: "yos_runtime \<Rightarrow> int \<Rightarrow> int \<Rightarrow> bool" where
  "has_children rt parent n =
     list_ex (\<lambda>p. pstate p \<noteq> YOS_PROC_FREE \<and> is_child_of parent n p) (take YOS_MAX_PROCS (procs rt))"

text \<open>
  The polling loop: \<open>sched k\<close> is what the rest of the program does to the runtime during the \<open>k\<close>-th
  sleep.  \<open>None\<close> is a wait that never returns.
\<close>

partial_function (option) wait_loop ::
  "(nat \<Rightarrow> yos_runtime \<Rightarrow> yos_runtime) \<Rightarrow> int \<Rightarrow> int \<Rightarrow> nat \<Rightarrow> yos_runtime \<Rightarrow> (nat \<times> yos_runtime) option" where
  "wait_loop sched parent n k rt =
     (case find_zombie_child rt parent n of
        Some i \<Rightarrow> Some (i, rt)
      | None \<Rightarrow> wait_loop sched parent n (Suc k) (sched k rt))"

definition wait_status :: "yos_proc \<Rightarrow> int" where
  "wait_status p = (if term_sig p \<noteq> 0 then term_sig p AND 0x7f else push_bit 8 (exit_code p AND 0xff))"

definition write_status :: "u32 \<Rightarrow> int \<Rightarrow> yos_exec_ctx \<Rightarrow> yos_exec_ctx" where
  "write_status stat_addr status ctx =
     (if stat_addr \<noteq> 0 \<and> stat_addr < memory_size ctx - 4
      then ctx\<lparr>memory := store32 (memory ctx) (unat stat_addr) (word_of_int status)\<rparr> else ctx)"

definition reap :: "yos_runtime \<Rightarrow> nat \<Rightarrow> nat \<Rightarrow> u32 \<Rightarrow> int \<times> yos_runtime" where
  "reap rt me i stat_addr =
     (let child = procs rt ! i in
      (pid child, upd_ctx (upd_proc rt i (\<lambda>p. p\<lparr>pstate := YOS_PROC_FREE\<rparr>)) me
                    (write_status stat_addr (wait_status child))))"

abbreviation WNOHANG :: int where "WNOHANG \<equiv> 1"

text \<open>The caller is the process of context \<open>me\<close>; a context without one crashes on \<^verbatim>\<open>ctx->proc->pid\<close>.\<close>

definition yos_waitpid ::
  "(int \<Rightarrow> int) \<Rightarrow> (nat \<Rightarrow> yos_runtime \<Rightarrow> yos_runtime) \<Rightarrow> yos_runtime \<Rightarrow> nat \<Rightarrow> int \<Rightarrow> u32 \<Rightarrow> int \<Rightarrow>
   (int \<times> yos_runtime) option" where
  "yos_waitpid h2g sched rt me n stat_addr options =
     (case proc_slot (ctxs rt me) of
        None \<Rightarrow> None
      | Some s \<Rightarrow>
          let my_pid = pid (procs rt ! s) in
          if \<not> has_children rt my_pid n then Some (- 1, upd_ctx rt me (\<lambda>c. set_errno h2g c ECHILD))
          else case find_zombie_child rt my_pid n of
              Some i \<Rightarrow> Some (reap rt me i stat_addr)
            | None \<Rightarrow>
                if options AND WNOHANG \<noteq> 0 then Some (0, rt)
                else map_option (\<lambda>(i, rt'). reap rt' me i stat_addr) (wait_loop sched my_pid n 0 rt))"

definition yos_wait4 ::
  "(int \<Rightarrow> int) \<Rightarrow> (nat \<Rightarrow> yos_runtime \<Rightarrow> yos_runtime) \<Rightarrow> yos_runtime \<Rightarrow> nat \<Rightarrow> int \<Rightarrow> u32 \<Rightarrow> int \<Rightarrow> u32 \<Rightarrow>
   (int \<times> yos_runtime) option" where
  "yos_wait4 h2g sched rt me n stat_addr options ru =
     (case proc_slot (ctxs rt me) of
        None \<Rightarrow> None
      | Some s \<Rightarrow>
          let my_pid = pid (procs rt ! s) in
          if \<not> has_children rt my_pid n then Some (- 1, upd_ctx rt me (\<lambda>c. set_errno h2g c ECHILD))
          else case find_zombie_child rt my_pid n of
              Some i \<Rightarrow> Some (reap rt me i stat_addr)
            | None \<Rightarrow>
                if options AND WNOHANG \<noteq> 0 then Some (0, rt)
                else map_option (\<lambda>(i, rt'). reap rt' me i stat_addr) (wait_loop sched my_pid n 0 rt))"

definition yos_wait ::
  "(int \<Rightarrow> int) \<Rightarrow> (nat \<Rightarrow> yos_runtime \<Rightarrow> yos_runtime) \<Rightarrow> yos_runtime \<Rightarrow> nat \<Rightarrow> u32 \<Rightarrow>
   (int \<times> yos_runtime) option" where
  "yos_wait h2g sched rt me stat_addr = yos_waitpid h2g sched rt me (- 1) stat_addr 0"

definition yos_wait3 ::
  "(int \<Rightarrow> int) \<Rightarrow> (nat \<Rightarrow> yos_runtime \<Rightarrow> yos_runtime) \<Rightarrow> yos_runtime \<Rightarrow> nat \<Rightarrow> u32 \<Rightarrow> int \<Rightarrow> u32 \<Rightarrow>
   (int \<times> yos_runtime) option" where
  "yos_wait3 h2g sched rt me stat_addr options ru =
     yos_waitpid h2g sched
       (if ru \<noteq> 0 \<and> ru + 72 \<le> memory_size (ctxs rt me)
        then upd_ctx rt me (\<lambda>c. c\<lparr>memory := mem_fill (memory c) (unat ru) 0 72\<rparr>) else rt)
       me (- 1) stat_addr options"

section \<open>Identity\<close>

definition yos_getpid :: "yos_runtime \<Rightarrow> nat option \<Rightarrow> int" where
  "yos_getpid rt slot = (case slot of None \<Rightarrow> 1 | Some i \<Rightarrow> tgid (procs rt ! i))"

definition yos_getppid :: "yos_runtime \<Rightarrow> nat option \<Rightarrow> int" where
  "yos_getppid rt slot = (case slot of None \<Rightarrow> 0 | Some i \<Rightarrow> ppid (procs rt ! i))"

definition yos_getsid :: "yos_runtime \<Rightarrow> nat option \<Rightarrow> int \<Rightarrow> int" where
  "yos_getsid rt slot n =
     (if n = 0 then (case slot of None \<Rightarrow> 1 | Some i \<Rightarrow> sid (procs rt ! i))
      else case yos_proc_find rt n of None \<Rightarrow> - ESRCH | Some i \<Rightarrow> sid (procs rt ! i))"

definition yos_getpgid :: "yos_runtime \<Rightarrow> nat option \<Rightarrow> int \<Rightarrow> int" where
  "yos_getpgid rt slot n =
     (if n = 0 then (case slot of None \<Rightarrow> 1 | Some i \<Rightarrow> pgid (procs rt ! i))
      else case yos_proc_find rt n of None \<Rightarrow> - ESRCH | Some i \<Rightarrow> pgid (procs rt ! i))"

definition yos_getpgrp :: "yos_runtime \<Rightarrow> nat option \<Rightarrow> int" where
  "yos_getpgrp rt slot = (case slot of None \<Rightarrow> 1 | Some i \<Rightarrow> pgid (procs rt ! i))"

definition yos_gettid :: "yos_runtime \<Rightarrow> nat option \<Rightarrow> int" where
  "yos_gettid rt slot = (case slot of None \<Rightarrow> 1 | Some i \<Rightarrow> pid (procs rt ! i))"

definition yos_setpgid :: "yos_runtime \<Rightarrow> nat option \<Rightarrow> int \<Rightarrow> int \<Rightarrow> int \<times> yos_runtime" where
  "yos_setpgid rt slot n pg =
     (case slot of None \<Rightarrow> (- ESRCH, rt)
      | Some me \<Rightarrow>
        (case (if n = 0 then Some me else yos_proc_find rt n) of
           None \<Rightarrow> (- ESRCH, rt)
         | Some t \<Rightarrow>
             let new_pgid = (if pg = 0 then pid (procs rt ! t) else pg) in
             if new_pgid \<le> 0 then (- EINVAL, rt)
             else (0, upd_proc rt t (\<lambda>p. p\<lparr>pgid := new_pgid\<rparr>))))"

definition yos_setsid :: "yos_runtime \<Rightarrow> nat option \<Rightarrow> int \<times> yos_runtime" where
  "yos_setsid rt slot =
     (case slot of None \<Rightarrow> (- ESRCH, rt)
      | Some i \<Rightarrow>
          let p = procs rt ! i in
          if pgid p = pid p \<and> sid p = pid p then (sid p, rt)
          else (pid p, upd_proc rt i (\<lambda>q. q\<lparr>sid := pid q, pgid := pid q\<rparr>)))"

definition yos_proc_set_tid_address :: "yos_runtime \<Rightarrow> nat option \<Rightarrow> u32 \<Rightarrow> int \<times> yos_runtime" where
  "yos_proc_set_tid_address rt slot tidptr =
     (case slot of None \<Rightarrow> (1, rt)
      | Some i \<Rightarrow> (pid (procs rt ! i), upd_proc rt i (\<lambda>p. p\<lparr>tid_address := tidptr\<rparr>)))"

end
