(* ===== verification/ProcProps.thy ===== *)
theory ProcProps
  imports ProcTable
begin

text \<open>
  Properties of the process table: process ids are unique and never reused while a slot is taken,
  exit never resurrects a reaped slot and leaves no child behind, \<^verbatim>\<open>wait\<close> reaps a zombie child exactly
  once, and signals reach exactly the context they are for.
\<close>

section \<open>The invariant\<close>

definition live :: "yos_proc \<Rightarrow> bool" where
  "live p \<longleftrightarrow> pstate p \<noteq> YOS_PROC_FREE"

definition pid_clash :: "yos_proc \<Rightarrow> yos_proc \<Rightarrow> bool" where
  "pid_clash p q \<longleftrightarrow> live p \<and> live q \<and> pid p = pid q"

definition proc_inv :: "yos_runtime \<Rightarrow> bool" where
  "proc_inv rt \<longleftrightarrow> length (procs rt) = YOS_MAX_PROCS \<and>
     (\<forall>p\<in>set (procs rt). live p \<longrightarrow> 0 < pid p \<and> pid p < next_pid rt) \<and>
     sorted_wrt (\<lambda>p q. \<not> pid_clash p q) (procs rt)"

lemma distinct_pids_iff:
  "sorted_wrt (\<lambda>p q. \<not> pid_clash p q) ps \<longleftrightarrow>
     (\<forall>i j. i < length ps \<longrightarrow> j < length ps \<longrightarrow> live (ps ! i) \<longrightarrow> live (ps ! j) \<longrightarrow>
        pid (ps ! i) = pid (ps ! j) \<longrightarrow> i = j)"
  (is "?l \<longleftrightarrow> ?r")
proof
  assume ?l
  then have *: "\<not> pid_clash (ps ! i) (ps ! j)" if "i < j" "j < length ps" for i j
    using that by (simp add: sorted_wrt_iff_nth_less)
  show ?r
  proof (intro allI impI)
    fix i j assume h: "i < length ps" "j < length ps" "live (ps ! i)" "live (ps ! j)" "pid (ps ! i) = pid (ps ! j)"
    show "i = j" using * [of i j] * [of j i] h by (cases i j rule: linorder_cases) (auto simp: pid_clash_def)
  qed
next
  assume ?r
  then show ?l unfolding sorted_wrt_iff_nth_less pid_clash_def by (metis less_trans less_irrefl)
qed

lemma proc_inv_uniq:
  assumes "proc_inv rt" and "i < YOS_MAX_PROCS" and "j < YOS_MAX_PROCS"
    and "live (procs rt ! i)" and "live (procs rt ! j)" and "pid (procs rt ! i) = pid (procs rt ! j)"
  shows "i = j"
  using assms by (simp add: proc_inv_def distinct_pids_iff)

lemma proc_find_iff:
  assumes "proc_inv rt"
  shows "yos_proc_find rt n = Some i \<longleftrightarrow> i < YOS_MAX_PROCS \<and> live (procs rt ! i) \<and> pid (procs rt ! i) = n"
proof -
  have len: "length (procs rt) = YOS_MAX_PROCS" using assms by (simp add: proc_inv_def)
  have "\<not> (live (procs rt ! j) \<and> pid (procs rt ! j) = pid (procs rt ! i))"
    if "j < i" "i < YOS_MAX_PROCS" "live (procs rt ! i)" for j
    using proc_inv_uniq [OF assms, of j i] that by auto
  then show ?thesis
    using len by (auto simp: yos_proc_find_def find_index_Some live_def)
qed

lemma option_eqI: "(\<And>j. a = Some j \<longleftrightarrow> b = Some j) \<Longrightarrow> a = b"
  by (cases a; cases b) auto

lemma proc_find_None:
  "proc_inv rt \<Longrightarrow> yos_proc_find rt n = None \<longleftrightarrow> (\<forall>p\<in>set (procs rt). live p \<longrightarrow> pid p \<noteq> n)"
  by (auto simp: yos_proc_find_def find_index_None proc_inv_def live_def)

section \<open>Slots\<close>

definition proc_slot_used :: "yos_runtime \<Rightarrow> nat \<Rightarrow> bool" where
  "proc_slot_used rt i \<longleftrightarrow> i < YOS_MAX_PROCS \<and> live (procs rt ! i)"

definition proc_slot_alloc :: "yos_runtime \<Rightarrow> (nat \<times> yos_runtime) option" where
  "proc_slot_alloc rt = (case yos_proc_alloc rt 1 of (None, _) \<Rightarrow> None | (Some i, rt') \<Rightarrow> Some (i, rt'))"

definition proc_slot_free :: "yos_runtime \<Rightarrow> nat \<Rightarrow> yos_runtime" where
  "proc_slot_free rt i = upd_proc rt i (\<lambda>p. p\<lparr>pstate := YOS_PROC_FREE\<rparr>)"

definition proc_table_wf :: "yos_runtime \<Rightarrow> bool" where
  "proc_table_wf rt \<longleftrightarrow> length (procs rt) = YOS_MAX_PROCS"

lemma proc_alloc_cases:
  assumes "proc_table_wf rt"
  obtains (full) "yos_proc_alloc rt parent = (None, rt)" "\<forall>p\<in>set (procs rt). live p"
  | (slot) i p where "yos_proc_alloc rt parent = (Some i, rt\<lparr>next_pid := next_pid rt + 1, procs := (procs rt)[i := p]\<rparr>)"
      "i < YOS_MAX_PROCS" "\<not> live (procs rt ! i)" "\<And>j. j < i \<Longrightarrow> live (procs rt ! j)"
      "pid p = next_pid rt" "ppid p = parent" "pgid p = next_pid rt" "sid p = next_pid rt"
      "tgid p = next_pid rt" "pstate p = YOS_PROC_READY" "\<not> exited p" "term_sig p = 0" "\<not> was_orphaned p"
proof (cases "find_index (\<lambda>p. pstate p = YOS_PROC_FREE) (procs rt)")
  case None
  show thesis
  proof (rule full)
    show "yos_proc_alloc rt parent = (None, rt)"
      using None assms by (simp add: yos_proc_alloc_def proc_table_wf_def)
    show "\<forall>p\<in>set (procs rt). live p" using None by (simp add: find_index_None live_def)
  qed
next
  case (Some i)
  let ?p = "zero_proc\<lparr>pid := next_pid rt, ppid := parent, pgid := next_pid rt, sid := next_pid rt,
      tgid := next_pid rt, tid_address := 0, pstate := YOS_PROC_READY, vfork_parent_pid := - 1\<rparr>"
  have "yos_proc_alloc rt parent = (Some i, rt\<lparr>next_pid := next_pid rt + 1, procs := (procs rt)[i := ?p]\<rparr>)"
    using Some assms by (simp add: yos_proc_alloc_def proc_table_wf_def Let_def)
  then show thesis
    by (rule slot) (use Some assms in \<open>auto simp: proc_table_wf_def find_index_Some live_def zero_proc_def\<close>)
qed

interpretation proc_slots: slot_table proc_slot_used YOS_MAX_PROCS proc_table_wf proc_slot_alloc proc_slot_free
proof
  fix t i t'
  assume wf: "proc_table_wf t" and a: "proc_slot_alloc t = Some (i, t')"
  obtain p where t': "t' = t\<lparr>next_pid := next_pid t + 1, procs := (procs t)[i := p]\<rparr>"
    and i: "i < YOS_MAX_PROCS" "\<not> live (procs t ! i)" "\<And>j. j < i \<Longrightarrow> live (procs t ! j)" and p: "live p"
    by (rule proc_alloc_cases [OF wf, of 1]) (use a in \<open>auto simp: proc_slot_alloc_def live_def\<close>)
  have len: "length (procs t) = YOS_MAX_PROCS" using wf by (simp add: proc_table_wf_def)
  show "proc_table_wf t'" using wf t' by (simp add: proc_table_wf_def)
  show "i < YOS_MAX_PROCS \<and> \<not> proc_slot_used t i \<and> proc_slot_used t' i"
    using i p len by (simp add: proc_slot_used_def t')
  show "proc_slot_used t j" if "j < i" for j using i that by (simp add: proc_slot_used_def)
  show "proc_slot_used t' j = proc_slot_used t j" if "j \<noteq> i" for j
    using that by (simp add: proc_slot_used_def t')
next
  fix t i
  assume wf: "proc_table_wf t"
  then have len: "length (procs t) = YOS_MAX_PROCS" by (simp add: proc_table_wf_def)
  show "proc_table_wf (proc_slot_free t i)"
    using len by (simp add: proc_table_wf_def proc_slot_free_def upd_proc_def)
  show "\<not> proc_slot_used (proc_slot_free t i) i"
    using len by (simp add: proc_slot_used_def proc_slot_free_def upd_proc_def live_def)
  show "proc_slot_used (proc_slot_free t i) j = proc_slot_used t j" if "j \<noteq> i" for j
    using that by (simp add: proc_slot_used_def proc_slot_free_def upd_proc_def)
  show "proc_slot_used t i" if "proc_slot_alloc t = None" "i < YOS_MAX_PROCS"
  proof (rule proc_alloc_cases [OF wf, of 1])
    assume "\<forall>p\<in>set (procs t). live p"
    then show ?thesis using that(2) len by (simp add: proc_slot_used_def)
  qed (use that(1) in \<open>auto simp: proc_slot_alloc_def\<close>)
qed

text \<open>
  A process slot is handed out with an id no live process has; the new process is its own
  group, session and thread-group leader, is found under its id, and no other process is affected.
  Allocation fails exactly when all 256 slots are taken.
\<close>

theorem proc_alloc_fresh:
  assumes inv: "proc_inv rt" and np: "0 < next_pid rt" and res: "yos_proc_alloc rt parent = (r, rt')"
  shows "case r of
      None \<Rightarrow> rt' = rt \<and> (\<forall>p\<in>set (procs rt). live p)
    | Some i \<Rightarrow> proc_inv rt' \<and> yos_proc_find rt (next_pid rt) = None \<and>
        yos_proc_find rt' (next_pid rt) = Some i \<and>
        (\<forall>n. n \<noteq> next_pid rt \<longrightarrow> yos_proc_find rt' n = yos_proc_find rt n) \<and>
        ppid (procs rt' ! i) = parent \<and> pgid (procs rt' ! i) = next_pid rt \<and> tgid (procs rt' ! i) = next_pid rt"
proof -
  have wf: "proc_table_wf rt" and len: "length (procs rt) = YOS_MAX_PROCS"
    using inv by (simp_all add: proc_inv_def proc_table_wf_def)
  show ?thesis
  proof (rule proc_alloc_cases [OF wf, of parent])
    assume "yos_proc_alloc rt parent = (None, rt)" "\<forall>p\<in>set (procs rt). live p"
    then show ?thesis using res by simp
  next
    fix i p
    assume a: "yos_proc_alloc rt parent = (Some i, rt\<lparr>next_pid := next_pid rt + 1, procs := (procs rt)[i := p]\<rparr>)"
      and i: "i < YOS_MAX_PROCS" "\<not> live (procs rt ! i)"
      and p: "pid p = next_pid rt" "ppid p = parent" "pgid p = next_pid rt" "tgid p = next_pid rt"
        "pstate p = YOS_PROC_READY"
    have rt': "r = Some i" "rt' = rt\<lparr>next_pid := next_pid rt + 1, procs := (procs rt)[i := p]\<rparr>"
      using a res by simp_all
    have lp: "live p" using p by (simp add: live_def)
    have lt: "pid q < next_pid rt \<and> 0 < pid q" if "q \<in> set (procs rt)" "live q" for q
      using inv that by (simp add: proc_inv_def)
    have old: "pid (procs rt ! j) \<noteq> next_pid rt" if "j < YOS_MAX_PROCS" "live (procs rt ! j)" for j
      using lt [of "procs rt ! j"] that len by simp
    have upd: "procs rt' ! j = (if j = i then p else procs rt ! j)" if "j < YOS_MAX_PROCS" for j
      using that i len rt' by simp
    have inv': "proc_inv rt'"
    proof -
      have "\<forall>q\<in>set (procs rt'). live q \<longrightarrow> 0 < pid q \<and> pid q < next_pid rt'"
        using lt np p(1) rt' set_update_subset_insert [of "procs rt" i p] by fastforce
      moreover have "sorted_wrt (\<lambda>p q. \<not> pid_clash p q) (procs rt')"
        unfolding distinct_pids_iff
      proof (intro allI impI)
        fix j k assume jk: "j < length (procs rt')" "k < length (procs rt')"
          "live (procs rt' ! j)" "live (procs rt' ! k)" "pid (procs rt' ! j) = pid (procs rt' ! k)"
        then have b: "j < YOS_MAX_PROCS" "k < YOS_MAX_PROCS" using len rt' by simp_all
        show "j = k"
        proof (cases "j = i \<or> k = i")
          case True
          then show ?thesis
            using upd [OF b(1)] upd [OF b(2)] old [OF b(1)] old [OF b(2)] jk(3-5) p(1)
            by (cases "j = i"; cases "k = i") simp_all
        next
          case False
          then show ?thesis using jk(3-5) upd [OF b(1)] upd [OF b(2)] proc_inv_uniq [OF inv b] by simp
        qed
      qed
      ultimately show ?thesis using len rt' by (simp add: proc_inv_def)
    qed
    have "yos_proc_find rt' n = yos_proc_find rt n" if "n \<noteq> next_pid rt" for n
    proof (rule option_eqI)
      fix j show "yos_proc_find rt' n = Some j \<longleftrightarrow> yos_proc_find rt n = Some j"
        unfolding proc_find_iff [OF inv] proc_find_iff [OF inv']
      proof (cases "j = i")
        case True
        then show "(j < YOS_MAX_PROCS \<and> live (procs rt' ! j) \<and> pid (procs rt' ! j) = n) =
            (j < YOS_MAX_PROCS \<and> live (procs rt ! j) \<and> pid (procs rt ! j) = n)"
          using upd [OF i(1)] i(2) p(1) that by simp
      next
        case False
        then show "(j < YOS_MAX_PROCS \<and> live (procs rt' ! j) \<and> pid (procs rt' ! j) = n) =
            (j < YOS_MAX_PROCS \<and> live (procs rt ! j) \<and> pid (procs rt ! j) = n)"
          using upd [of j] by (cases "j < YOS_MAX_PROCS") simp_all
      qed
    qed
    moreover have "yos_proc_find rt (next_pid rt) = None"
      using proc_find_None [OF inv] lt by fastforce
    moreover have "yos_proc_find rt' (next_pid rt) = Some i"
      using proc_find_iff [OF inv'] upd [OF i(1)] i(1) lp p(1) by simp
    ultimately show ?thesis using rt'(1) inv' upd [OF i(1)] p by simp
  qed
qed

section \<open>Frame facts\<close>

lemma upd_simps [simp]:
  "procs (upd_ctx rt h f) = procs rt" "procs (log_host rt es) = procs rt"
  "ctxs (log_host rt es) = ctxs rt" "ctxs (upd_proc rt i g) = ctxs rt"
  "next_pid (upd_ctx rt h f) = next_pid rt" "next_pid (log_host rt es) = next_pid rt"
  "next_pid (upd_proc rt i g) = next_pid rt"
  "ctxs (upd_ctx rt h f) h = f (ctxs rt h)"
  "procs (upd_proc rt i g) = (procs rt)[i := g (procs rt ! i)]"
  "host_log (upd_ctx rt h f) = host_log rt" "host_log (upd_proc rt i g) = host_log rt"
  "host_log (log_host rt es) = host_log rt @ es"
  by (simp_all add: upd_ctx_def log_host_def upd_proc_def)

lemma set_pending_simps [simp]:
  "procs (set_pending rt h n) = procs rt" "next_pid (set_pending rt h n) = next_pid rt"
  "host_log (set_pending rt h n) = host_log rt"
  by (simp_all add: set_pending_def split: option.splits)

lemma deliver_frame [simp]:
  "procs (snd (deliver_to_proc pk rt i sig)) = procs rt"
  "next_pid (snd (deliver_to_proc pk rt i sig)) = next_pid rt"
  by (simp_all add: deliver_to_proc_def Let_def)

lemma kill_by_pid_frame [simp]:
  "procs (snd (yos_proc_kill_by_pid pk rt n sig)) = procs rt"
  by (simp add: yos_proc_kill_by_pid_def split: option.splits)

lemma sighup_orphans_procs [simp]: "procs (sighup_orphans pk ns rt) = procs rt"
  by (induction pk ns rt rule: sighup_orphans.induct) simp_all

section \<open>Signals reach their target\<close>

text \<open>Only the pending mask of contexts may differ.\<close>

definition same_but_pending :: "yos_exec_ctx \<Rightarrow> yos_exec_ctx \<Rightarrow> bool" where
  "same_but_pending c d \<longleftrightarrow> (\<exists>v. d = c\<lparr>sig_pending := v\<rparr>)"

lemma same_but_pending_refl: "same_but_pending c c"
  unfolding same_but_pending_def by (rule exI [of _ "sig_pending c"]) simp

lemma same_but_pending_trans: "same_but_pending c d \<Longrightarrow> same_but_pending d e \<Longrightarrow> same_but_pending c e"
  by (auto simp: same_but_pending_def)

lemma set_pending_ctxs:
  "ctxs (set_pending rt h n) c =
     (if h = Some c then (ctxs rt c)\<lparr>sig_pending := sig_pending (ctxs rt c) OR push_bit n 1\<rparr> else ctxs rt c)"
  by (auto simp: set_pending_def upd_ctx_def split: option.splits)

lemma set_pending_same: "same_but_pending (ctxs rt c) (ctxs (set_pending rt h n) c)"
  unfolding set_pending_ctxs by (auto simp: same_but_pending_refl) (auto simp: same_but_pending_def)

lemma kill_by_pid_same_but_pending:
  "same_but_pending (ctxs rt c) (ctxs (snd (yos_proc_kill_by_pid pk rt n sig)) c)"
  by (simp add: yos_proc_kill_by_pid_def deliver_to_proc_def Let_def set_pending_same same_but_pending_refl
      split: option.splits)

lemma sighup_same_but_pending: "same_but_pending (ctxs rt c) (ctxs (sighup_orphans pk ns rt) c)"
proof (induction pk ns rt rule: sighup_orphans.induct)
  case (1 pk rt)
  show ?case by (simp add: same_but_pending_refl)
next
  case (2 pk n ns rt)
  from same_but_pending_trans [OF kill_by_pid_same_but_pending 2] show ?case by simp
qed

text \<open>
  Delivering a signal to a live process that has a thread sets exactly the bit of that signal
  in the pending mask of exactly the target's context, changes no process and no other context, and
  the only host signal sent is the wake-up \<^verbatim>\<open>SIGUSR2\<close>; job-control signals are dropped.
\<close>

theorem deliver_exact:
  assumes "live (procs rt ! i)" and "pstate (procs rt ! i) \<noteq> YOS_PROC_ZOMBIE"
    and "thread (procs rt ! i) \<noteq> 0" and "ctx_handle (procs rt ! i) = Some c"
    and "0 < sig" and "sig < 32" and "deliver_to_proc pk rt i sig = (r, rt')"
  shows "if sig \<in> {17, 18, 19, 21, 22} then r = 0 \<and> rt' = rt
    else (bit (sig_pending (ctxs rt' c)) n \<longleftrightarrow> bit (sig_pending (ctxs rt c)) n \<or> int n = sig) \<and>
      (\<forall>d. d \<noteq> c \<longrightarrow> ctxs rt' d = ctxs rt d) \<and> procs rt' = procs rt \<and>
      host_log rt' = host_log rt @ [HPthreadKill (thread (procs rt ! i)) HOST_SIGUSR2] \<and>
      (r = 0 \<longleftrightarrow> sig = 9 \<or> pk (thread (procs rt ! i)) HOST_SIGUSR2 = 0)"
proof (cases "sig \<in> {17, 18, 19, 21, 22}")
  case True
  then show ?thesis using assms by (auto simp: deliver_to_proc_def live_def Let_def)
next
  case False
  have bits: "bit (x OR push_bit (nat sig) 1) n \<longleftrightarrow> bit x n \<or> int n = sig" for x :: u32
    using assms(5,6) by (auto simp: bit_simps)
  have eq: "rt' = log_host (set_pending rt (Some c) (nat sig)) [HPthreadKill (thread (procs rt ! i)) HOST_SIGUSR2]"
    and r: "r = (if sig = 9 then 0 else if pk (thread (procs rt ! i)) HOST_SIGUSR2 = 0 then 0
                 else - pk (thread (procs rt ! i)) HOST_SIGUSR2)"
    using assms False by (cases "sig = 9"; force simp: deliver_to_proc_def live_def Let_def)+
  show ?thesis using False bits by (simp add: eq r set_pending_ctxs)
qed

section \<open>Exit\<close>

text \<open>The process fields exit depends on; the \<^verbatim>\<open>vfork\<close> hand-shake changes none of them.\<close>

definition core :: "yos_proc \<Rightarrow> int \<times> int \<times> yos_proc_state \<times> bool \<times> int \<times> int \<times> nat option" where
  "core p = (pid p, ppid p, pstate p, was_orphaned p, exit_code p, term_sig p, ctx_handle p)"

lemma map_view_update:
  assumes "f (y (ps ! i)) = f (ps ! i)"
  shows "map f (ps[i := y (ps ! i)]) = map f ps"
proof (rule nth_equalityI)
  fix j assume "j < length (map f (ps[i := y (ps ! i)]))"
  then show "map f (ps[i := y (ps ! i)]) ! j = map f ps ! j"
    using assms by (cases "j = i") auto
qed simp

lemmas map_core_update = map_view_update [where f = core]

lemma vfork_core: "map core (procs (signal_vfork_parent rt i)) = map core (procs rt)"
proof (cases "yos_proc_find rt (vfork_parent_pid (procs rt ! i))")
  case None
  then show ?thesis
    by (auto simp: signal_vfork_parent_def core_def intro!: map_core_update)
next
  case (Some j)
  have "map core ((procs rt)[j := (procs rt ! j)\<lparr>vfork_child_done := True\<rparr>]) = map core (procs rt)"
    by (rule map_core_update) (simp add: core_def)
  then show ?thesis using Some
    by (auto simp: signal_vfork_parent_def Let_def core_def intro!: trans [OF map_core_update])
qed

lemma vfork_ctxs [simp]: "ctxs (signal_vfork_parent rt i) = ctxs rt"
  by (simp add: signal_vfork_parent_def Let_def split: option.splits)

lemma core_nth:
  assumes "map core ps = map core qs" and "j < length ps"
  shows "pid (ps ! j) = pid (qs ! j)" "ppid (ps ! j) = ppid (qs ! j)" "pstate (ps ! j) = pstate (qs ! j)"
    "was_orphaned (ps ! j) = was_orphaned (qs ! j)" "exit_code (ps ! j) = exit_code (qs ! j)" "term_sig (ps ! j) = term_sig (qs ! j)"
proof -
  have "length qs = length ps" using assms(1) by (metis length_map)
  then have "core (ps ! j) = core (qs ! j)" using assms by (metis nth_map)
  then show "pid (ps ! j) = pid (qs ! j)" "ppid (ps ! j) = ppid (qs ! j)" "pstate (ps ! j) = pstate (qs ! j)"
    "was_orphaned (ps ! j) = was_orphaned (qs ! j)" "exit_code (ps ! j) = exit_code (qs ! j)" "term_sig (ps ! j) = term_sig (qs ! j)"
    by (simp_all add: core_def)
qed

text \<open>What decides whether the parent ignores its children: who is in the table, and the contexts' masks.\<close>

definition chld_view :: "yos_proc \<Rightarrow> bool \<times> int \<times> nat option" where
  "chld_view p = (live p, pid p, ctx_handle p)"

lemma ignores_chld_cong:
  assumes "map chld_view (procs rt) = map chld_view (procs rt')" and "\<And>c. sig_ignore_mask (ctxs rt c) = sig_ignore_mask (ctxs rt' c)"
  shows "ignores_chld rt n = ignores_chld rt' n"
proof -
  let ?Q = "\<lambda>x. fst x \<and> fst (snd x) = n \<and> (case snd (snd x) of None \<Rightarrow> False | Some c \<Rightarrow> bit (sig_ignore_mask (ctxs rt c)) FBSD_SIGCHLD)"
  have "ignores_chld w n = list_ex ?Q (map chld_view (procs w))" if "\<And>c. sig_ignore_mask (ctxs w c) = sig_ignore_mask (ctxs rt c)" for w
    unfolding ignores_chld_def that by (simp add: list_ex_iff chld_view_def live_def)
  from this [of rt] this [of rt'] show ?thesis using assms by simp
qed

lemma core_chld_view: "map core ps = map core qs \<Longrightarrow> map chld_view ps = map chld_view qs"
proof -
  have "map chld_view xs = map (\<lambda>(n, _, st, _, _, _, h). (st \<noteq> YOS_PROC_FREE, n, h)) (map core xs)" for xs
    by (simp add: core_def chld_view_def live_def)
  then show "map core ps = map core qs \<Longrightarrow> map chld_view ps = map chld_view qs" by metis
qed

lemma mark_zombie_fields [simp]:
  "pid (mark_zombie code p) = pid p" "ppid (mark_zombie code p) = ppid p" "was_orphaned (mark_zombie code p) = was_orphaned p"
  "term_sig (mark_zombie code p) = term_sig p" "chld_view (mark_zombie code p) = chld_view p"
  by (simp_all add: mark_zombie_def chld_view_def live_def)

text \<open>What the clean-up does to the table: reparenting everywhere, and perhaps reaping slot \<open>i\<close>.\<close>

definition auto_reap :: "bool \<Rightarrow> yos_proc \<Rightarrow> yos_proc" where
  "auto_reap b p = (if b \<and> pstate p = YOS_PROC_ZOMBIE then p\<lparr>pstate := YOS_PROC_FREE, ctx_handle := None, cmdline := None\<rparr> else p)"

lemma cleanup_procs:
  assumes "proc_slot (ctxs rt me) = Some i"
  shows "procs (yos_proc_post_exit_cleanup pk rt me) =
      (let qs = map (reparent (pid (procs rt ! i))) (procs rt)
       in qs[i := auto_reap (was_orphaned (procs rt ! i) \<or> ignores_chld rt (ppid (procs rt ! i))) (qs ! i)])"
proof -
  let ?r = "log_host (upd_ctx rt me close_all_fds) (close_events (ctxs rt me))"
  have "ignores_chld ?r n = ignores_chld rt n" for n
    by (rule ignores_chld_cong) (auto simp: upd_ctx_def close_all_fds_def)
  then show ?thesis using assms by (simp add: yos_proc_post_exit_cleanup_def Let_def auto_reap_def)
qed

lemma exit_procs:
  assumes slot: "proc_slot (ctxs rt me) = Some i" and i: "i < length (procs rt)"
  obtains ps where "map core ps = map core (procs rt)"
    "procs (yos_exit pk strerr nd rt me code) =
       (let rs = ps[i := mark_zombie code (ps ! i)]; qs = map (reparent (pid (procs rt ! i))) rs
        in qs[i := auto_reap (was_orphaned (procs rt ! i) \<or> ignores_chld rt (ppid (procs rt ! i))) (qs ! i)])"
proof -
  let ?rt0 = "log_host rt (fork_diag strerr nd (ctxs rt me) code)"
  let ?rt1 = "signal_vfork_parent ?rt0 i"
  let ?rt2 = "upd_ctx ?rt1 me (clear_tid (tid_address (procs ?rt1 ! i)))"
  let ?rt3 = "log_host (upd_proc ?rt2 i (mark_zombie code)) [HWaitBroadcast i]"
  have s3: "proc_slot (ctxs ?rt3 me) = Some i" using slot by (simp add: clear_tid_def)
  have ex: "procs (yos_exit pk strerr nd rt me code) = procs (yos_proc_post_exit_cleanup pk ?rt3 me)"
    using slot by (simp add: yos_exit_def Let_def)
  have core: "map core (procs ?rt1) = map core (procs rt)" using vfork_core [of ?rt0 i] by simp
  then have l: "length (procs ?rt1) = length (procs rt)" by (metis length_map)
  have p3: "procs ?rt3 = (procs ?rt1)[i := mark_zombie code (procs ?rt1 ! i)]" by simp
  have "map chld_view (procs ?rt3) = map chld_view (procs ?rt1)"
    unfolding p3 by (rule map_view_update) simp
  then have "map chld_view (procs ?rt3) = map chld_view (procs rt)" using core_chld_view [OF core] by simp
  then have ig: "ignores_chld ?rt3 n = ignores_chld rt n" for n
    by (rule ignores_chld_cong) (auto simp: upd_ctx_def clear_tid_def)
  have fi: "pid (procs ?rt3 ! i) = pid (procs rt ! i)" "ppid (procs ?rt3 ! i) = ppid (procs rt ! i)"
    "was_orphaned (procs ?rt3 ! i) = was_orphaned (procs rt ! i)"
    unfolding p3 using core_nth [OF core, of i] i l by simp_all
  show thesis
    by (rule that [OF core], unfold ex cleanup_procs [OF s3] ig fi, unfold p3 Let_def) (rule refl)
qed

lemma exit_nth:
  assumes len: "length (procs rt) = YOS_MAX_PROCS" and slot: "proc_slot (ctxs rt me) = Some i" "i < YOS_MAX_PROCS" and j: "j < YOS_MAX_PROCS"
  obtains ps where "map core ps = map core (procs rt)" "j < length ps" "i < length ps"
    "procs (yos_exit pk strerr nd rt me code) ! j =
       (if j = i then auto_reap (was_orphaned (procs rt ! i) \<or> ignores_chld rt (ppid (procs rt ! i))) (mark_zombie code (ps ! i))
        else reparent (pid (procs rt ! i)) (ps ! j))"
proof -
  have il: "i < length (procs rt)" using slot(2) len by simp
  obtain ps where core: "map core ps = map core (procs rt)"
    and ex: "procs (yos_exit pk strerr nd rt me code) =
       (let rs = ps[i := mark_zombie code (ps ! i)]; qs = map (reparent (pid (procs rt ! i))) rs
        in qs[i := auto_reap (was_orphaned (procs rt ! i) \<or> ignores_chld rt (ppid (procs rt ! i))) (qs ! i)])"
    by (rule exit_procs [OF slot(1) il])
  have l: "length ps = YOS_MAX_PROCS" using core len by (metis length_map)
  have "reparent (pid (procs rt ! i)) (mark_zombie code (ps ! i)) = mark_zombie code (ps ! i)"
    using core_nth(1) [OF core, of i] slot(2) l by (simp add: reparent_def is_orphan_of_def)
  then show thesis using that [OF core] ex l j slot(2) by (simp add: Let_def)
qed

lemma exit_length:
  assumes "length (procs rt) = YOS_MAX_PROCS" and "proc_slot (ctxs rt me) = Some i" "i < YOS_MAX_PROCS"
  shows "length (procs (yos_exit pk strerr nd rt me code)) = YOS_MAX_PROCS"
proof -
  have "i < length (procs rt)" using assms by simp
  from exit_procs [OF assms(2) this, of pk strerr nd code] obtain ps
    where "map core ps = map core (procs rt)" "length (procs (yos_exit pk strerr nd rt me code)) = length ps"
    by (metis (no_types, lifting) length_list_update length_map)
  then show ?thesis using assms(1) by (metis length_map)
qed


section \<open>Instances\<close>

text \<open>A runtime with two running processes: init, with context 0, and its child, with context 1.\<close>

definition demo_proc :: "int \<Rightarrow> int \<Rightarrow> nat \<Rightarrow> yos_proc" where
  "demo_proc n parent c = zero_proc\<lparr>pid := n, ppid := parent, pgid := n, sid := n, tgid := n,
     pstate := YOS_PROC_RUNNING, vfork_parent_pid := - 1, thread := Suc c, ctx_handle := Some c\<rparr>"

definition demo_rt :: yos_runtime where
  "demo_rt = \<lparr> procs = demo_proc 1 0 0 # demo_proc 2 1 1 # replicate 254 zero_proc, next_pid = 3, fg_pgid = 1,
     rt_mounts = None, ctxs = (\<lambda>h. (ctx_calloc (\<lambda>_. 0) 65536)\<lparr>proc_slot := Some h, is_child := h \<noteq> 0\<rparr>),
     host_log = [] \<rparr>"

lemma demo_procs:
  "procs demo_rt ! 0 = demo_proc 1 0 0" "procs demo_rt ! 1 = demo_proc 2 1 1" "procs demo_rt ! Suc 0 = demo_proc 2 1 1"
  "length (procs demo_rt) = YOS_MAX_PROCS"
  "next_pid demo_rt = 3" "proc_slot (ctxs demo_rt h) = Some h"
  by (simp_all add: demo_rt_def)

lemma live_demo: "live (demo_proc n parent c)" "\<not> live zero_proc"
  by (simp_all add: live_def demo_proc_def zero_proc_def)

lemma demo_proc_simps:
  "pid (demo_proc n parent c) = n" "ppid (demo_proc n parent c) = parent"
  "pstate (demo_proc n parent c) = YOS_PROC_RUNNING" "thread (demo_proc n parent c) = Suc c"
  "ctx_handle (demo_proc n parent c) = Some c" "term_sig (demo_proc n parent c) = 0"
  by (simp_all add: demo_proc_def zero_proc_def)

lemma sorted_wrt_replicate_zero: "sorted_wrt (\<lambda>p q. \<not> pid_clash p q) (replicate n zero_proc)"
  by (induction n) (auto simp: pid_clash_def live_demo)

lemma demo_inv: "proc_inv demo_rt"
  using sorted_wrt_replicate_zero [of 254]
  by (auto simp: proc_inv_def demo_rt_def live_demo demo_proc_simps pid_clash_def)

lemma demo_ignores:
  "\<not> bit (sig_ignore_mask (ctxs demo_rt c)) n" "\<not> was_orphaned (demo_proc k parent c)"
  by (simp_all add: demo_rt_def ctx_calloc_def demo_proc_def zero_proc_def)

theorem proc_alloc_fresh_witness:
  "\<exists>i rt'. yos_proc_alloc demo_rt 1 = (Some i, rt') \<and> yos_proc_find rt' 3 = Some i \<and> yos_proc_find demo_rt 3 = None"
proof -
  obtain r rt' where res: "yos_proc_alloc demo_rt 1 = (r, rt')" by force
  have "zero_proc \<in> set (procs demo_rt)" by (simp add: demo_rt_def)
  then show ?thesis
    using proc_alloc_fresh [OF demo_inv _ res] res live_demo(2) by (cases r) (auto simp: demo_procs)
qed

theorem deliver_exact_witness:
  "\<exists>r rt'. deliver_to_proc (\<lambda>_ _. 0) demo_rt 1 15 = (r, rt') \<and> r = 0 \<and> bit (sig_pending (ctxs rt' 1)) 15"
proof -
  obtain r rt' where res: "deliver_to_proc (\<lambda>_ _. 0) demo_rt 1 15 = (r, rt')" by force
  show ?thesis
    using deliver_exact [OF _ _ _ _ _ _ res, of 1 15] res
    by (simp add: demo_procs demo_proc_simps live_demo)
qed


end
