(* ===== verification/ProcWait.thy ===== *)
theory ProcWait
  imports ProcProps
begin

text \<open>
  Properties of \<^verbatim>\<open>waitpid\<close>: what each outcome means, when a blocking wait returns, that a child is
  reaped exactly once, that the status word decodes to the way the child ended, and that a
  process holds no descriptor after its exit.
\<close>

section \<open>The polling loop\<close>

text \<open>The runtime after \<open>m\<close> sleeps, the first of them being the \<open>k\<close>-th.\<close>

fun run :: "(nat \<Rightarrow> yos_runtime \<Rightarrow> yos_runtime) \<Rightarrow> nat \<Rightarrow> nat \<Rightarrow> yos_runtime \<Rightarrow> yos_runtime" where
  "run sched k 0 rt = rt"
| "run sched k (Suc m) rt = run sched (Suc k) m (sched k rt)"

lemma run_Suc_end: "run sched k (Suc m) rt = sched (k + m) (run sched k m rt)"
  by (induction m arbitrary: k rt) simp_all

text \<open>Slot \<open>fst y\<close> is the zombie that the first successful poll sees, in the runtime \<open>snd y\<close>.\<close>

definition first_zombie ::
  "(nat \<Rightarrow> yos_runtime \<Rightarrow> yos_runtime) \<Rightarrow> int \<Rightarrow> int \<Rightarrow> nat \<Rightarrow> yos_runtime \<Rightarrow> nat \<times> yos_runtime \<Rightarrow> bool" where
  "first_zombie sched parent n k rt y \<longleftrightarrow>
     (\<exists>m. snd y = run sched k m rt \<and> find_zombie_child (snd y) parent n = Some (fst y) \<and>
       (\<forall>l<m. find_zombie_child (run sched k l rt) parent n = None))"

lemma first_zombie_step:
  assumes "find_zombie_child rt parent n = None" and "first_zombie sched parent n (Suc k) (sched k rt) y"
  shows "first_zombie sched parent n k rt y"
proof -
  from assms(2) obtain m where m: "snd y = run sched (Suc k) m (sched k rt)"
    "find_zombie_child (snd y) parent n = Some (fst y)"
    "\<forall>l<m. find_zombie_child (run sched (Suc k) l (sched k rt)) parent n = None"
    by (auto simp: first_zombie_def)
  have "\<forall>l<Suc m. find_zombie_child (run sched k l rt) parent n = None"
    using assms(1) m(3) by (auto simp: less_Suc_eq_0_disj)
  then show ?thesis unfolding first_zombie_def using m(1,2) by (intro exI [of _ "Suc m"]) simp
qed

lemma wait_loop_first:
  assumes "wait_loop sched parent n k rt = Some y"
  shows "first_zombie sched parent n k rt y"
proof (rule wait_loop.raw_induct [where P = first_zombie, OF _ assms])
  fix wl sched' parent' n' k' rt' y'
  assume IH: "\<And>sched parent n k rt y. wl sched parent n k rt = Some y \<Longrightarrow> first_zombie sched parent n k rt y"
    and step: "(case find_zombie_child rt' parent' n' of
        None \<Rightarrow> wl sched' parent' n' (Suc k') (sched' k' rt') | Some i \<Rightarrow> Some (i, rt')) = Some y'"
  show "first_zombie sched' parent' n' k' rt' y'"
  proof (cases "find_zombie_child rt' parent' n'")
    case None
    then show ?thesis using step IH first_zombie_step by simp
  next
    case (Some j)
    then show ?thesis using step unfolding first_zombie_def by (intro exI [of _ 0]) auto
  qed
qed

lemmas wait_loop_sound = wait_loop_first [unfolded first_zombie_def]

lemma wait_loop_complete:
  assumes "find_zombie_child (run sched k m rt) parent n \<noteq> None"
  shows "\<exists>r. wait_loop sched parent n k rt = Some r"
  using assms
proof (induction m arbitrary: k rt)
  case 0
  then show ?case by (auto simp: wait_loop.simps)
next
  case (Suc m)
  then have "\<exists>r. wait_loop sched parent n (Suc k) (sched k rt) = Some r" by simp
  then show ?case by (cases "find_zombie_child rt parent n") (simp_all add: wait_loop.simps [of sched parent n k rt])
qed

lemma find_zombie_childD:
  assumes "find_zombie_child rt parent n = Some i"
  shows "i < YOS_MAX_PROCS" "i < length (procs rt)" "pstate (procs rt ! i) = YOS_PROC_ZOMBIE"
    "ppid (procs rt ! i) = parent" "n = - 1 \<or> pid (procs rt ! i) = n"
  using assms by (auto simp: find_zombie_child_def find_index_Some is_child_of_def)

lemma zombie_has_children:
  "find_zombie_child rt parent n = Some i \<Longrightarrow> has_children rt parent n"
  unfolding has_children_def list_ex_iff find_zombie_child_def find_index_Some
  by (metis nth_mem yos_proc_state.distinct(5))

lemma has_children_iff:
  assumes "length (procs rt) = YOS_MAX_PROCS"
  shows "has_children rt parent n \<longleftrightarrow> (\<exists>i<YOS_MAX_PROCS. live (procs rt ! i) \<and> is_child_of parent n (procs rt ! i))"
  unfolding has_children_def list_ex_iff using assms by (metis in_set_conv_nth live_def order_refl take_all)

section \<open>Outcomes\<close>

text \<open>
  What the caller waits for, as sets of slots: its children, any of them for \<open>-1\<close> and otherwise the one with the given id,
  and those of them that have ended.
\<close>

definition children_of :: "yos_runtime \<Rightarrow> int \<Rightarrow> int \<Rightarrow> nat set" where
  "children_of rt my n = {i. i < YOS_MAX_PROCS \<and> i < length (procs rt) \<and> pstate (procs rt ! i) \<noteq> YOS_PROC_FREE \<and>
     ppid (procs rt ! i) = my \<and> (n = - 1 \<or> pid (procs rt ! i) = n)}"

definition ended_of :: "yos_runtime \<Rightarrow> int \<Rightarrow> int \<Rightarrow> nat set" where
  "ended_of rt my n = {i \<in> children_of rt my n. pstate (procs rt ! i) = YOS_PROC_ZOMBIE}"

lemma has_children_set: "has_children rt my n \<longleftrightarrow> children_of rt my n \<noteq> {}"
  by (fastforce simp: has_children_def children_of_def list_ex_iff is_child_of_def in_set_conv_nth)

lemma find_zombie_set:
  "find_zombie_child rt my n = (if ended_of rt my n = {} then None else Some (Min (ended_of rt my n)))"
proof (cases "find_zombie_child rt my n")
  case None
  have "i \<notin> ended_of rt my n" for i
  proof
    assume i: "i \<in> ended_of rt my n"
    then have "procs rt ! i \<in> set (take YOS_MAX_PROCS (procs rt))"
      by (auto simp: ended_of_def children_of_def in_set_conv_nth intro!: exI [of _ i])
    then show False using None i by (auto simp: find_zombie_child_def find_index_None ended_of_def children_of_def is_child_of_def)
  qed
  then show ?thesis using None by auto
next
  case (Some i)
  have i: "i \<in> ended_of rt my n" using find_zombie_childD [OF Some] by (auto simp: ended_of_def children_of_def)
  have "i \<le> j" if "j \<in> ended_of rt my n" for j
  proof (rule ccontr)
    assume "\<not> i \<le> j"
    then have ji: "j < i" by simp
    have "i < YOS_MAX_PROCS" using find_zombie_childD(1) [OF Some] .
    then have "\<not> (pstate (procs rt ! j) = YOS_PROC_ZOMBIE \<and> is_child_of my n (procs rt ! j))"
      using Some ji unfolding find_zombie_child_def find_index_Some by (metis nth_take order.strict_trans)
    then show False using that by (auto simp: ended_of_def children_of_def is_child_of_def)
  qed
  moreover have "finite (ended_of rt my n)" by (rule finite_subset [of _ "{..<YOS_MAX_PROCS}"]) (auto simp: ended_of_def children_of_def)
  ultimately have "Min (ended_of rt my n) = i" using i by (intro Min_eqI)
  then show ?thesis using Some i by auto
qed

text \<open>The first poll that shows a zombie, if there is one, is where the wait returns.\<close>

lemma wait_loop_at:
  assumes "\<forall>l<m. find_zombie_child (run sched k l rt) my n = None" and "find_zombie_child (run sched k m rt) my n = Some i"
  shows "wait_loop sched my n k rt = Some (i, run sched k m rt)"
  using assms
proof (induction m arbitrary: k rt)
  case 0
  then show ?case by (simp add: wait_loop.simps)
next
  case (Suc m)
  have "find_zombie_child rt my n = None" using Suc.prems(1) by force
  moreover have "\<forall>l<m. find_zombie_child (run sched (Suc k) l (sched k rt)) my n = None" using Suc.prems(1) by force
  ultimately show ?case using Suc.IH [of "Suc k" "sched k rt"] Suc.prems(2) by (simp add: wait_loop.simps [of sched my n k rt])
qed

lemma waitpid_reaps:
  assumes "proc_slot (ctxs rt me) = Some s" and "my = pid (procs rt ! s)" and "children_of rt my n \<noteq> {}" and "m = 0 \<or> even options"
    and none: "\<forall>l<m. ended_of (run sched 0 l rt) my n = {}" and some: "ended_of (run sched 0 m rt) my n \<noteq> {}"
  shows "yos_waitpid h2g sched rt me n a options = Some (reap (run sched 0 m rt) me (Min (ended_of (run sched 0 m rt) my n)) a)"
proof (cases "m = 0")
  case True
  then show ?thesis using assms by (simp add: yos_waitpid_def Let_def has_children_set find_zombie_set)
next
  case False
  then have "options AND 1 = 0" using assms(4) by (simp add: and_one_eq even_iff_mod_2_eq_zero)
  moreover have "ended_of rt my n = {}" using none False by force
  moreover have "wait_loop sched my n 0 rt = Some (Min (ended_of (run sched 0 m rt) my n), run sched 0 m rt)"
    by (rule wait_loop_at) (use none some in \<open>simp_all add: find_zombie_set\<close>)
  ultimately show ?thesis using assms(1-3) by (simp add: yos_waitpid_def Let_def has_children_set find_zombie_set)
qed

lemma waitpid_never:
  assumes "proc_slot (ctxs rt me) = Some s" and "my = pid (procs rt ! s)" and "children_of rt my n \<noteq> {}" and "even options"
    and "\<forall>m. ended_of (run sched 0 m rt) my n = {}"
  shows "yos_waitpid h2g sched rt me n a options = None"
proof -
  have "options AND 1 = 0" using assms(4) by (simp add: and_one_eq even_iff_mod_2_eq_zero)
  moreover have "ended_of rt my n = {}" using assms(5) [THEN spec, of 0] by simp
  moreover have "wait_loop sched my n 0 rt = None"
    using wait_loop_sound [of sched my n 0 rt] assms(5) by (cases "wait_loop sched my n 0 rt") (auto simp: find_zombie_set)
  ultimately show ?thesis using assms(1-3) by (simp add: yos_waitpid_def Let_def has_children_set find_zombie_set)
qed

lemma reap_eq:
  "reap w me i a = (let child = procs w ! i in (pid child, upd_ctx (w\<lparr>procs := (procs w)[i := child\<lparr>pstate := YOS_PROC_FREE\<rparr>]\<rparr>) me
     (write_status a (if term_sig child \<noteq> 0 then term_sig child mod 128 else exit_code child mod 256 * 256))))"
  by (simp add: reap_def Let_def upd_proc_def wait_status_def and_mask_7f and_mask_ff push_bit_eq_mult)

text \<open>
  Claim C6: everything \<^verbatim>\<open>waitpid\<close> can do, for a caller with a process slot.  The caller's children are the live slots with its id as parent, all of them for
  \<open>-1\<close> and else only the one whose id is the argument itself, which the code also takes for 0 and below, so there are no process groups.
  Without such a child the result is \<open>-1\<close> with \<^verbatim>\<open>ECHILD\<close> and nothing else changes; with \<^verbatim>\<open>WNOHANG\<close> and none of them ended it is 0
  and nothing changes.  Otherwise the call returns exactly if some poll, now or after some number of sleeps, shows one that has ended: at the first such poll the lowest
  slot is freed, its process id is the result, its status (the signal, or the exit code modulo 256 in the second byte) goes to
  the caller's memory, and nothing else of the runtime changes.
\<close>

theorem waitpid_outcomes:
  assumes "proc_slot (ctxs rt me) = Some s" and "my = pid (procs rt ! s)"
  shows "yos_waitpid h2g sched rt me n a options =
    (if children_of rt my n = {} then Some (- 1, upd_ctx rt me (\<lambda>c. set_errno h2g c ECHILD))
     else if odd options \<and> ended_of rt my n = {} then Some (0, rt)
     else if \<forall>m. ended_of (run sched 0 m rt) my n = {} then None
     else let w = run sched 0 (LEAST m. ended_of (run sched 0 m rt) my n \<noteq> {}) rt;
              i = Min (ended_of w my n); child = procs w ! i
          in Some (pid child, upd_ctx (w\<lparr>procs := (procs w)[i := child\<lparr>pstate := YOS_PROC_FREE\<rparr>]\<rparr>) me
               (write_status a (if term_sig child \<noteq> 0 then term_sig child mod 128 else exit_code child mod 256 * 256))))"
proof -
  let ?E = "\<lambda>m. ended_of (run sched 0 m rt) my n"
  consider "children_of rt my n = {}" | "children_of rt my n \<noteq> {}" "odd options" "ended_of rt my n = {}"
    | "children_of rt my n \<noteq> {}" "even options" "\<forall>m. ?E m = {}"
    | "children_of rt my n \<noteq> {}" "even options \<or> ended_of rt my n \<noteq> {}" "\<exists>m. ?E m \<noteq> {}"
    by (metis run.simps(1))
  then show ?thesis
  proof cases
    case 1
    then show ?thesis using assms by (simp add: yos_waitpid_def Let_def has_children_set)
  next
    case 2
    then have "options AND 1 \<noteq> 0" by (simp add: and_one_eq odd_iff_mod_2_eq_one)
    then show ?thesis using 2 assms by (simp add: yos_waitpid_def Let_def has_children_set find_zombie_set)
  next
    case 3
    then show ?thesis using waitpid_never [OF assms] by simp
  next
    case 4
    let ?m = "LEAST m. ?E m \<noteq> {}"
    have m: "?E ?m \<noteq> {}" using 4(3) by (rule LeastI_ex)
    have l: "\<forall>l<?m. ?E l = {}" using not_less_Least by blast
    have "?m = 0 \<or> even options" using 4(2) l m by (metis gr_zeroI run.simps(1))
    then have "yos_waitpid h2g sched rt me n a options = Some (reap (run sched 0 ?m rt) me (Min (?E ?m)) a)"
      by (rule waitpid_reaps [OF assms 4(1) _ l m])
    moreover have f: "\<not> (odd options \<and> ended_of rt my n = {})" "\<not> (\<forall>m. ?E m = {})" using 4 by blast+
    ultimately show ?thesis unfolding if_not_P [OF 4(1)] if_not_P [OF f(1)] if_not_P [OF f(2)] reap_eq Let_def by blast
  qed
qed


section \<open>Reaping once\<close>

text \<open>
  What the wait relies on while it sleeps: the rest of the program keeps the table invariant and
  leaves the identity of the waiting process alone.
\<close>

definition keeps_caller :: "nat \<Rightarrow> nat \<Rightarrow> (nat \<Rightarrow> yos_runtime \<Rightarrow> yos_runtime) \<Rightarrow> bool" where
  "keeps_caller me s sched \<longleftrightarrow> (\<forall>k w. proc_inv w \<and> proc_slot (ctxs w me) = Some s \<longrightarrow>
     proc_inv (sched k w) \<and> proc_slot (ctxs (sched k w) me) = Some s \<and>
     pid (procs (sched k w) ! s) = pid (procs w ! s))"

lemma run_keeps_caller:
  assumes "keeps_caller me s sched" and "proc_inv rt" and "proc_slot (ctxs rt me) = Some s"
  shows "proc_inv (run sched k m rt) \<and> proc_slot (ctxs (run sched k m rt) me) = Some s \<and>
    pid (procs (run sched k m rt) ! s) = pid (procs rt ! s)"
  using assms(2,3)
proof (induction m arbitrary: k rt)
  case (Suc m)
  have "proc_inv (sched k rt) \<and> proc_slot (ctxs (sched k rt) me) = Some s \<and>
      pid (procs (sched k rt) ! s) = pid (procs rt ! s)"
    using assms(1) Suc.prems by (simp add: keeps_caller_def)
  then show ?case using Suc.IH [of "sched k rt" "Suc k"] by simp
qed simp

lemma reap_no_children:
  assumes inv: "proc_inv w" and i: "i < YOS_MAX_PROCS" "live (procs w ! i)"
    and p: "procs rt' = (procs w)[i := (procs w ! i)\<lparr>pstate := YOS_PROC_FREE\<rparr>]"
    and n: "n = pid (procs w ! i)"
  shows "\<not> has_children rt' my n"
proof -
  have len: "length (procs w) = YOS_MAX_PROCS" using inv by (simp add: proc_inv_def)
  have pos: "0 < n" using inv i n len by (simp add: proc_inv_def)
  have "\<not> (live (procs rt' ! j) \<and> is_child_of my n (procs rt' ! j))" if "j < YOS_MAX_PROCS" for j
  proof (cases "j = i")
    case True
    then show ?thesis using p len i by (simp add: live_def)
  next
    case False
    then show ?thesis using proc_inv_uniq [OF inv that i(1)] i(2) p n pos by (auto simp: is_child_of_def)
  qed
  then show ?thesis using has_children_iff [of rt' my n] len p by auto
qed

lemma write_status_frame [simp]:
  "proc_slot (write_status a v c) = proc_slot c" "memory_size (write_status a v c) = memory_size c"
  by (simp_all add: write_status_def)

text \<open>
  A child is reaped exactly once: when a wait returns the id of a child, any further wait for that
  id by the same process, blocking or not, returns \<open>-1\<close> with errno \<^verbatim>\<open>ECHILD\<close>.
\<close>

theorem waitpid_reaps_once:
  assumes inv: "proc_inv rt" and slot: "proc_slot (ctxs rt me) = Some s" and sched: "keeps_caller me s sched"
    and res: "yos_waitpid h2g sched rt me n a options = Some (r, rt')" and r: "0 < r"
  shows "yos_waitpid h2g sched2 rt' me r b options2 =
    Some (- 1, upd_ctx rt' me (\<lambda>c. set_errno h2g c ECHILD))"
proof -
  let ?my = "pid (procs rt ! s)"
  obtain w i m where w: "w = run sched 0 m rt" "find_zombie_child w ?my n = Some i" "reap w me i a = (r, rt')"
  proof (cases "find_zombie_child rt ?my n")
    case None
    then obtain i w where "wait_loop sched ?my n 0 rt = Some (i, w)" "reap w me i a = (r, rt')"
      using res slot r by (auto simp: yos_waitpid_def Let_def split: if_splits)
    with wait_loop_sound [of sched ?my n 0 rt "(i, w)"] show thesis using that by auto
  next
    case (Some i)
    then show thesis using that [of rt 0 i] res slot r by (auto simp: yos_waitpid_def Let_def split: if_splits)
  qed
  have wk: "proc_inv w" "proc_slot (ctxs w me) = Some s" "pid (procs w ! s) = ?my"
    using run_keeps_caller [OF sched inv slot, of 0 m] w(1) by simp_all
  have rt': "procs rt' = (procs w)[i := (procs w ! i)\<lparr>pstate := YOS_PROC_FREE\<rparr>]" "r = pid (procs w ! i)"
    "proc_slot (ctxs rt' me) = Some s"
    using w(3) wk(2) by (auto simp: reap_def Let_def)
  have "\<not> has_children rt' (pid (procs rt' ! s)) r"
    using reap_no_children [OF wk(1) find_zombie_childD(1) [OF w(2)] _ rt'(1,2)] find_zombie_childD(3) [OF w(2)]
    by (simp add: live_def)
  then show ?thesis using rt'(3) by (simp add: yos_waitpid_def Let_def)
qed

section \<open>The status word\<close>

text \<open>
  The status word the caller finds in its memory decodes, by the \<^verbatim>\<open>W*\<close> macros, to the way the child
  ended: low seven bits 0 and the exit code modulo 256 in the next byte for a normal exit, the
  signal number in the low seven bits for a signal; no byte outside the word is written.
\<close>

theorem reap_status:
  assumes "stat_addr \<noteq> 0" and "stat_addr < memory_size (ctxs rt me) - 4" and "4 \<le> memory_size (ctxs rt me)"
    and "reap rt me i stat_addr = (r, rt')" and st: "st = sint (load32 (memory (ctxs rt' me)) (unat stat_addr))"
  shows "(term_sig (procs rt ! i) = 0 \<longrightarrow> st AND 0x7f = 0 \<and> st div 256 mod 256 = exit_code (procs rt ! i) mod 256) \<and>
    (0 < term_sig (procs rt ! i) \<and> term_sig (procs rt ! i) < 127 \<longrightarrow> st AND 0x7f = term_sig (procs rt ! i)) \<and>
    (\<forall>x. x < unat stat_addr \<or> unat stat_addr + 4 \<le> x \<longrightarrow> memory (ctxs rt' me) x = memory (ctxs rt me) x) \<and>
    unat stat_addr + 4 \<le> unat (memory_size (ctxs rt me))"
proof -
  let ?p = "procs rt ! i"
  have m: "memory (ctxs rt' me) = store32 (memory (ctxs rt me)) (unat stat_addr) (word_of_int (wait_status ?p))"
    using assms(1,2,4) by (auto simp: reap_def Let_def write_status_def)
  have ws: "wait_status ?p = (if term_sig ?p \<noteq> 0 then term_sig ?p mod 128 else exit_code ?p mod 256 * 256)"
    by (simp add: wait_status_def and_mask_7f and_mask_ff push_bit_eq_mult)
  have "0 \<le> wait_status ?p \<and> wait_status ?p < 65536"
    unfolding ws by (auto simp: pos_mod_bound intro: order.strict_trans2)
  then have st': "st = wait_status ?p" using st m by (simp add: sint_word_of_int_small)
  have bound: "unat stat_addr + 4 \<le> unat (memory_size (ctxs rt me))"
    using assms(2,3) by (simp add: word_nat unat_sub_nowrap)
  show ?thesis using m bound unfolding st' ws
    by (auto simp: and_mask_7f store32_other)
qed

section \<open>Descriptors of a process that exits\<close>

text \<open>The host descriptors closed by a sequence of host calls.\<close>

fun closed_fds :: "host_event list \<Rightarrow> int list" where
  "closed_fds [] = []"
| "closed_fds (HClose h # es) = h # closed_fds es"
| "closed_fds (_ # es) = closed_fds es"

lemma closed_fds_append [simp]: "closed_fds (es @ fs) = closed_fds es @ closed_fds fs"
  by (induction es rule: closed_fds.induct) simp_all

lemma closed_fds_map [simp]: "closed_fds (map HClose hs) = hs" "closed_fds (map (HFclose \<circ> f) xs) = []"
  by (induction hs; simp) (induction xs; simp)

lemma closed_close_events [simp]: "closed_fds (close_events ctx) = filter (\<lambda>h. 3 \<le> h) (fd_map ctx)"
  unfolding close_events_def by (simp only: closed_fds_append closed_fds_map append_Nil2)

lemma closed_kill [simp]:
  "closed_fds (host_log (snd (yos_proc_kill_by_pid pk rt n sig))) = closed_fds (host_log rt)"
  by (simp add: yos_proc_kill_by_pid_def deliver_to_proc_def Let_def split: option.splits)

lemma closed_sighup [simp]: "closed_fds (host_log (sighup_orphans pk ns rt)) = closed_fds (host_log rt)"
  by (induction pk ns rt rule: sighup_orphans.induct) simp_all

lemma closed_diag [simp]: "closed_fds (fork_diag strerr nd ctx code) = []"
  by (simp add: fork_diag_def Let_def)

lemma closed_vfork [simp]: "closed_fds (host_log (signal_vfork_parent rt i)) = closed_fds (host_log rt)"
  by (simp add: signal_vfork_parent_def Let_def split: option.splits)

lemma fd_map_pending: "same_but_pending c d \<Longrightarrow> fd_map d = fd_map c \<and> file_slots d = file_slots c"
  by (auto simp: same_but_pending_def)

lemma cleanup_closes:
  assumes "proc_slot (ctxs rt me) = Some i"
  shows "fd_map (ctxs (yos_proc_post_exit_cleanup pk rt me) me) = fd_map (close_all_fds (ctxs rt me))"
    "file_slots (ctxs (yos_proc_post_exit_cleanup pk rt me) me) = file_slots (close_all_fds (ctxs rt me))"
    "closed_fds (host_log (yos_proc_post_exit_cleanup pk rt me)) =
       closed_fds (host_log rt) @ filter (\<lambda>h. 3 \<le> h) (fd_map (ctxs rt me))"
proof -
  let ?r1 = "log_host (upd_ctx rt me close_all_fds) (close_events (ctxs rt me))"
  define rt2 where "rt2 = ?r1\<lparr>procs := map (reparent (pid (procs rt ! i))) (procs rt)\<rparr>"
  define rt3 where "rt3 = (if (was_orphaned (procs rt ! i) \<or> ignores_chld ?r1 (ppid (procs rt ! i))) \<and>
      pstate (procs rt2 ! i) = YOS_PROC_ZOMBIE
      then upd_proc rt2 i (\<lambda>p. p\<lparr>pstate := YOS_PROC_FREE, ctx_handle := None, cmdline := None\<rparr>) else rt2)"
  define ns where "ns = map pid (filter (is_orphan_of (pid (procs rt ! i))) (procs rt))"
  let ?rt' = "yos_proc_post_exit_cleanup pk rt me"
  have e: "?rt' = (if is_forkpty_child (ctxs rt me)
      then snd (yos_proc_kill_by_pid pk (sighup_orphans pk ns rt3) (ppid (procs rt ! i)) (int FBSD_SIGCHLD))
      else sighup_orphans pk ns rt3)"
    using assms unfolding yos_proc_post_exit_cleanup_def rt3_def rt2_def ns_def Let_def by simp
  have c: "ctxs rt3 me = close_all_fds (ctxs rt me)" "host_log rt3 = host_log ?r1"
    by (simp_all add: rt3_def rt2_def)
  have s: "same_but_pending (ctxs rt3 me) (ctxs (sighup_orphans pk ns rt3) me)"
    by (rule sighup_same_but_pending)
  have "same_but_pending (ctxs rt3 me) (ctxs ?rt' me)"
    unfolding e using s same_but_pending_trans [OF s kill_by_pid_same_but_pending] by simp
  from fd_map_pending [OF this] show "fd_map (ctxs ?rt' me) = fd_map (close_all_fds (ctxs rt me))"
    "file_slots (ctxs ?rt' me) = file_slots (close_all_fds (ctxs rt me))"
    unfolding c(1) by simp_all
  show "closed_fds (host_log ?rt') = closed_fds (host_log rt) @ filter (\<lambda>h. 3 \<le> h) (fd_map (ctxs rt me))"
    unfolding e using c(2) by simp
qed

text \<open>
  Exit closes each host descriptor above 2 that the process holds, once per guest descriptor that
  refers to it and in descriptor order, closes no other, and leaves the process with no guest
  descriptor on such a host descriptor and no open stream.
\<close>

theorem exit_closes_fds:
  assumes slot: "proc_slot (ctxs rt me) = Some i" and rt': "rt' = yos_exit pk strerr nd rt me code"
  shows "closed_fds (host_log rt') = closed_fds (host_log rt) @ filter (\<lambda>h. 3 \<le> h) (fd_map (ctxs rt me)) \<and>
    (\<forall>h\<in>set (fd_map (ctxs rt' me)). h < 3) \<and> (\<forall>f\<in>set (file_slots (ctxs rt' me)). f = None)"
proof -
  let ?rt1 = "signal_vfork_parent (log_host rt (fork_diag strerr nd (ctxs rt me) code)) i"
  let ?rt2 = "upd_ctx ?rt1 me (clear_tid (tid_address (procs ?rt1 ! i)))"
  let ?rt3 = "log_host (upd_proc ?rt2 i (mark_zombie code)) [HWaitBroadcast i]"
  let ?rt4 = "yos_proc_post_exit_cleanup pk ?rt3 me"
  have s3: "proc_slot (ctxs ?rt3 me) = Some i" and fm: "fd_map (ctxs ?rt3 me) = fd_map (ctxs rt me)"
    using slot by (simp_all add: clear_tid_def)
  note cc = cleanup_closes [OF s3, of pk]
  have ctx: "ctxs rt' me = ctxs ?rt4 me"
    and log: "closed_fds (host_log rt') = closed_fds (host_log ?rt4)"
    using slot unfolding rt' by (simp_all add: yos_exit_def Let_def)
  have "closed_fds (host_log ?rt4) = closed_fds (host_log rt) @ filter (\<lambda>h. 3 \<le> h) (fd_map (ctxs rt me))"
    unfolding cc(3) fm by simp
  moreover have "\<forall>h\<in>set (fd_map (ctxs ?rt4 me)). h < 3" "\<forall>f\<in>set (file_slots (ctxs ?rt4 me)). f = None"
    unfolding cc(1,2) by (auto simp: close_all_fds_def)
  ultimately show ?thesis unfolding ctx log by blast
qed

section \<open>Instances\<close>

text \<open>The two-process runtime after its child ended with code 7.\<close>

definition demo_zombie :: yos_runtime where
  "demo_zombie = upd_proc demo_rt 1 (mark_zombie 7)"

lemma demo_zombie_procs:
  "procs demo_zombie = demo_proc 1 0 0 # mark_zombie 7 (demo_proc 2 1 1) # replicate 254 zero_proc"
  "proc_slot (ctxs demo_zombie h) = Some h" "memory_size (ctxs demo_zombie h) = 65536"
  by (simp_all add: demo_zombie_def upd_proc_def demo_rt_def ctx_calloc_def)

lemma demo_zombie_child:
  "pid (mark_zombie e (demo_proc n parent c)) = n" "ppid (mark_zombie e (demo_proc n parent c)) = parent"
  "pstate (mark_zombie e (demo_proc n parent c)) = YOS_PROC_ZOMBIE"
  "exit_code (mark_zombie e (demo_proc n parent c)) = e"
  "term_sig (mark_zombie e (demo_proc n parent c)) = 0" "pid zero_proc = 0" "pstate zero_proc = YOS_PROC_FREE"
  by (simp_all add: mark_zombie_def demo_proc_def zero_proc_def)

lemma demo_find_zombie: "find_zombie_child demo_zombie 1 2 = Some 1" "has_children demo_zombie 1 2"
  by (simp_all add: find_zombie_child_def has_children_def demo_zombie_procs demo_zombie_child demo_proc_simps is_child_of_def)

lemma demo_find_running: "find_zombie_child demo_rt 1 2 = None" "has_children demo_rt 1 2"
  by (simp_all add: find_zombie_child_def has_children_def demo_rt_def demo_zombie_child demo_proc_simps is_child_of_def
      find_index_None)

lemma demo_waitpid:
  "yos_waitpid (\<lambda>e. e) (\<lambda>_ w. w) demo_zombie 0 2 1024 0 = Some (reap demo_zombie 0 1 1024)"
  using demo_find_zombie by (simp add: yos_waitpid_def demo_zombie_procs demo_proc_simps)

lemma demo_zombie_inv: "proc_inv demo_zombie"
proof -
  have "next_pid demo_zombie = 3" by (simp add: demo_zombie_def upd_proc_def demo_rt_def)
  then show ?thesis
    using sorted_wrt_replicate_zero [of 254]
    by (auto simp: proc_inv_def demo_zombie_procs live_def demo_zombie_child demo_proc_simps pid_clash_def)
qed

lemma demo_children: "children_of demo_zombie 1 2 \<noteq> {}" "ended_of demo_zombie 1 2 = {1}" "children_of demo_rt 1 2 \<noteq> {}" "ended_of demo_rt 1 2 = {}"
proof -
  have z: "find_zombie_child demo_zombie 1 2 = Some 1" "find_zombie_child demo_rt 1 2 = None" by (rule demo_find_zombie demo_find_running)+
  show "children_of demo_zombie 1 2 \<noteq> {}" "children_of demo_rt 1 2 \<noteq> {}"
    using demo_find_zombie(2) demo_find_running(2) by (simp_all add: has_children_set)
  show "ended_of demo_rt 1 2 = {}" using z(2) by (simp add: find_zombie_set split: if_splits)
  have "i = 1" if "i \<in> ended_of demo_zombie 1 2" for i
  proof -
    have "i < 256" "pid (procs demo_zombie ! i) = 2" "pstate (procs demo_zombie ! i) \<noteq> YOS_PROC_FREE"
      using that by (simp_all add: ended_of_def children_of_def)
    then show ?thesis by (cases i; cases "i - 1") (auto simp: demo_zombie_procs demo_proc_simps demo_zombie_child)
  qed
  moreover have "1 \<in> ended_of demo_zombie 1 2" using find_zombie_childD [OF z(1)] by (auto simp: ended_of_def children_of_def)
  ultimately show "ended_of demo_zombie 1 2 = {1}" by blast
qed

theorem waitpid_outcomes_witness:
  "\<exists>rt'. yos_waitpid (\<lambda>e. e) (\<lambda>_ w. w) demo_zombie 0 2 1024 0 = Some (2, rt') \<and>
     procs rt' = (procs demo_zombie)[1 := (procs demo_zombie ! 1)\<lparr>pstate := YOS_PROC_FREE\<rparr>]"
proof -
  have run: "run (\<lambda>_ w. w) k m demo_zombie = demo_zombie" for k m by (induction m arbitrary: k) simp_all
  have my: "1 = pid (procs demo_zombie ! 0)" by (simp add: demo_zombie_procs demo_proc_simps)
  show ?thesis
    using waitpid_outcomes [OF demo_zombie_procs(2) [of 0] my, of "\<lambda>e. e" "\<lambda>_ w. w" 2 1024 0] demo_children
    by (simp add: run Let_def demo_zombie_procs demo_zombie_child demo_proc_simps)
qed


theorem waitpid_reaps_once_witness:
  "\<exists>rt'. yos_waitpid (\<lambda>e. e) (\<lambda>_ w. w) demo_zombie 0 2 1024 0 = Some (2, rt') \<and>
     (\<exists>rt''. yos_waitpid (\<lambda>e. e) (\<lambda>_ w. w) rt' 0 2 1024 0 = Some (- 1, rt''))"
proof -
  obtain rt' where r: "reap demo_zombie 0 1 1024 = (2, rt')"
    by (simp add: reap_def demo_zombie_procs demo_zombie_child demo_proc_simps Let_def)
  have k: "keeps_caller 0 0 (\<lambda>_ w. w)" by (simp add: keeps_caller_def)
  show ?thesis
    using waitpid_reaps_once [OF demo_zombie_inv demo_zombie_procs(2) k demo_waitpid [unfolded r], of "\<lambda>_ w. w" 1024 0]
      demo_waitpid r by simp
qed

theorem reap_status_witness:
  "\<exists>r rt' st. reap demo_zombie 0 1 1024 = (r, rt') \<and> st = sint (load32 (memory (ctxs rt' 0)) 1024) \<and>
     st AND 0x7f = 0 \<and> st div 256 mod 256 = 7"
proof -
  obtain r rt' where r: "reap demo_zombie 0 1 1024 = (r, rt')" by force
  show ?thesis
    using reap_status [OF _ _ _ r refl] r by (simp add: demo_zombie_procs demo_zombie_child demo_proc_simps)
qed

theorem exit_closes_fds_witness:
  "let rt = upd_ctx demo_rt 1 (\<lambda>c. c\<lparr>fd_map := [0, 1, 2, 17, - 1, 17]\<rparr>);
       rt' = yos_exit (\<lambda>_ _. 0) (\<lambda>_. []) False rt 1 7 in
   closed_fds (host_log rt') = [17, 17] \<and> (\<forall>h\<in>set (fd_map (ctxs rt' 1)). h < 3)"
proof -
  let ?rt = "upd_ctx demo_rt 1 (\<lambda>c. c\<lparr>fd_map := [0, 1, 2, 17, - 1, 17]\<rparr>)"
  have s: "proc_slot (ctxs ?rt 1) = Some 1" by (simp add: demo_procs)
  have h: "host_log demo_rt = []" by (simp add: demo_rt_def)
  show ?thesis using exit_closes_fds [OF s refl, of "\<lambda>_ _. 0" "\<lambda>_. []" False 7] h by (simp add: Let_def)
qed

section \<open>A wait that never returns\<close>

text \<open>The parent ignores \<^verbatim>\<open>SIGCHLD\<close>, and its only child exits during the first sleep of the wait.\<close>

definition ignoring_rt :: yos_runtime where
  "ignoring_rt = upd_ctx demo_rt 0 (\<lambda>c. c\<lparr>sig_ignore_mask := push_bit FBSD_SIGCHLD 1\<rparr>)"

definition child_exits :: "nat \<Rightarrow> yos_runtime \<Rightarrow> yos_runtime" where
  "child_exits k w = (if k = 0 then yos_exit (\<lambda>_ _. 0) (\<lambda>_. []) False w 1 7 else w)"

lemma ignoring_exit:
  "procs (yos_exit (\<lambda>_ _. 0) (\<lambda>_. []) False ignoring_rt 1 7) =
     demo_proc 1 0 0 # (demo_proc 2 1 1)\<lparr>pstate := YOS_PROC_FREE, exit_code := 7, exited := True, ctx_handle := None\<rparr>
       # replicate 254 zero_proc"
  by (simp add: yos_exit_def Let_def yos_proc_post_exit_cleanup_def ignoring_rt_def demo_rt_def upd_ctx_def
      upd_proc_def log_host_def signal_vfork_parent_def demo_proc_def zero_proc_def clear_tid_def mark_zombie_def
      reparent_def is_orphan_of_def ctx_calloc_def close_all_fds_def ignores_chld_def bit_simps fork_diag_def)

lemma run_child_exits: "run child_exits 0 (Suc m) rt = child_exits 0 rt"
proof -
  have "run child_exits (Suc k) m w = w" for k w
    by (induction m arbitrary: k) (simp_all add: child_exits_def)
  then show ?thesis by simp
qed

lemma ignoring_polls: "find_zombie_child (run child_exits 0 m ignoring_rt) 1 (- 1) = None"
proof (cases m)
  case 0
  then show ?thesis
    by (simp add: find_zombie_child_def ignoring_rt_def demo_rt_def demo_proc_simps demo_zombie_child find_index_None)
next
  case (Suc l)
  then have "procs (run child_exits 0 m ignoring_rt) = procs (yos_exit (\<lambda>_ _. 0) (\<lambda>_. []) False ignoring_rt 1 7)"
    using run_child_exits [of l ignoring_rt] by (simp add: child_exits_def)
  then show ?thesis
    by (simp add: find_zombie_child_def ignoring_exit [unfolded One_nat_def] demo_proc_simps demo_zombie_child find_index_None)
qed

text \<open>
  A blocking \<^verbatim>\<open>wait\<close> of a process that ignores \<^verbatim>\<open>SIGCHLD\<close> never returns when its only child exits during
  the wait: the child is reaped automatically, the loop looks only for zombies, and the test for
  remaining children is made once, before the loop.  A \<^verbatim>\<open>wait\<close> made after that exit fails with \<^verbatim>\<open>ECHILD\<close>.
\<close>

theorem wait_hangs_on_autoreap:
  "yos_wait h2g child_exits ignoring_rt 0 stat_addr = None \<and>
   \<not> has_children (run child_exits 0 1 ignoring_rt) (pid (procs ignoring_rt ! 0)) (- 1)"
proof -
  have s: "proc_slot (ctxs ignoring_rt 0) = Some 0" and p: "pid (procs ignoring_rt ! 0) = 1"
    by (simp_all add: ignoring_rt_def demo_procs demo_proc_simps)
  have c: "has_children ignoring_rt 1 (- 1)"
    by (simp add: has_children_def ignoring_rt_def demo_rt_def demo_proc_simps is_child_of_def)
  have "wait_loop child_exits 1 (- 1) 0 ignoring_rt = None"
    using wait_loop_sound [of child_exits 1 "- 1" 0 ignoring_rt] ignoring_polls by (metis not_None_eq)
  then have "yos_wait h2g child_exits ignoring_rt 0 stat_addr = None"
    using s p c ignoring_polls [of 0] by (simp add: yos_wait_def yos_waitpid_def)
  moreover have "\<not> has_children (run child_exits 0 1 ignoring_rt) 1 (- 1)"
    by (simp add: has_children_def child_exits_def ignoring_exit [unfolded One_nat_def] demo_proc_simps demo_zombie_child is_child_of_def
        list_ex_iff)
  ultimately show ?thesis using p by simp
qed

end
