(* ===== verification/Paths.thy ===== *)
theory Paths
  imports Ctx
begin

text \<open>
  Paths, from \<^verbatim>\<open>src/src/yos/impl/io/io.c\<close>: C strings in guest memory, the resolution of a relative path
  against the per-process working directory, and the lexical canonicalization of recorded paths.
  The platform is POSIX, where \<^verbatim>\<open>yos_plat_translate_path\<close> returns its argument.
\<close>

section \<open>C strings in guest memory\<close>

definition byte_of :: "char \<Rightarrow> u8" where
  "byte_of c = of_nat (of_char c)"

definition char_of_byte :: "u8 \<Rightarrow> char" where
  "char_of_byte b = char_of (unat b)"

text \<open>The characters from \<open>q\<close> up to the first NUL byte, or up to \<open>endp\<close>.\<close>

function cstr :: "mem \<Rightarrow> nat \<Rightarrow> nat \<Rightarrow> string" where
  "cstr m q endp = (if q < endp \<and> m q \<noteq> 0 then char_of_byte (m q) # cstr m (Suc q) endp else [])"
  by pat_completeness auto
termination
  by (relation "measure (\<lambda>(m, q, endp). endp - q)") auto

declare cstr.simps [simp del]

definition guest_str :: "yos_exec_ctx \<Rightarrow> u32 \<Rightarrow> string option" where
  "guest_str ctx off = map_option (\<lambda>p. cstr (memory ctx) p (unat (memory_size ctx))) (wstr_check ctx off)"

definition c_bytes :: "string \<Rightarrow> u8 list" where
  "c_bytes s = map byte_of s @ [0]"

section \<open>Resolution against the working directory\<close>

definition yos_path_resolve :: "yos_exec_ctx \<Rightarrow> string \<Rightarrow> string" where
  "yos_path_resolve ctx p =
     (if p = [] then p
      else if hd p = CHR ''/'' then p
      else if cwd ctx = [] then p
      else if PATH_MAX \<le> length (cwd ctx) then p
      else
        let buf = cwd ctx @ (if last (cwd ctx) \<noteq> CHR ''/'' \<and> last (cwd ctx) \<noteq> CHR 0x5C \<and>
                                length (cwd ctx) + 1 < PATH_MAX then ''/'' else [])
        in if PATH_MAX < length buf + length p + 1 then p else buf @ p)"

abbreviation AT_FDCWD :: int where "AT_FDCWD \<equiv> - 100"

definition yos_path_resolve_at :: "yos_exec_ctx \<Rightarrow> int \<Rightarrow> string \<Rightarrow> string" where
  "yos_path_resolve_at ctx host_dfd p = (if host_dfd = AT_FDCWD then yos_path_resolve ctx p else p)"

section \<open>Canonicalization\<close>

text \<open>\<^verbatim>\<open>out--\<close> while the last character written is not a slash.\<close>

fun strip_seg :: "string \<Rightarrow> string" where
  "strip_seg out = (if 1 < length out \<and> last out \<noteq> CHR ''/'' then strip_seg (butlast out) else out)"

declare strip_seg.simps [simp del]

function canon_loop :: "string \<Rightarrow> string \<Rightarrow> string" where
  "canon_loop out inp =
     (let inp1 = dropWhile (\<lambda>c. c = CHR ''/'') inp in
      if inp1 = [] then out
      else
        let seg = takeWhile (\<lambda>c. c \<noteq> CHR ''/'') inp1;
            rest = dropWhile (\<lambda>c. c \<noteq> CHR ''/'') inp1
        in if seg = ''.'' then canon_loop out rest
           else if seg = ''..'' then canon_loop (if 1 < length out then strip_seg (butlast out) else out) rest
           else if PATH_MAX \<le> length out + length seg + 1 then out
           else canon_loop (out @ seg @ ''/'') rest)"
  by pat_completeness auto

lemma canon_rest_shorter:
  assumes "dropWhile (\<lambda>c. c = CHR ''/'') inp \<noteq> []"
  shows "length (dropWhile (\<lambda>c. c \<noteq> CHR ''/'') (dropWhile (\<lambda>c. c = CHR ''/'') inp)) < length inp"
proof -
  let ?i = "dropWhile (\<lambda>c. c = CHR ''/'') inp"
  obtain c cs where i: "?i = c # cs" using assms by (cases ?i) auto
  have "c \<noteq> CHR ''/''" using hd_dropWhile [OF assms] i by simp
  then have "length (dropWhile (\<lambda>c. c \<noteq> CHR ''/'') ?i) \<le> length cs"
    using i length_dropWhile_le [of "\<lambda>c. c \<noteq> CHR ''/''" cs] by simp
  also have "\<dots> < length inp" using i length_dropWhile_le [of "\<lambda>c. c = CHR ''/''" inp] by simp
  finally show ?thesis .
qed

termination canon_loop
  by (relation "measure (\<lambda>(out, inp). length inp)") (use canon_rest_shorter in auto)

declare canon_loop.simps [simp del]

definition canon_abs_path :: "string \<Rightarrow> string" where
  "canon_abs_path p =
     (if p = [] \<or> hd p \<noteq> CHR ''/'' then p
      else let out = canon_loop ''/'' (tl p) in
        if 1 < length out \<and> last out = CHR ''/'' then butlast out else out)"

section \<open>The reference: component lists\<close>

text \<open>The non-empty components of a path, and their normalization on a stack.\<close>

fun segs :: "string \<Rightarrow> string \<Rightarrow> string list" where
  "segs acc [] = (if acc = [] then [] else [acc])"
| "segs acc (c # cs) =
     (if c = CHR ''/'' then (if acc = [] then segs [] cs else acc # segs [] cs) else segs (acc @ [c]) cs)"

definition push_seg :: "string list \<Rightarrow> string \<Rightarrow> string list" where
  "push_seg st c = (if c = ''.'' then st else if c = ''..'' then butlast st else st @ [c])"

definition normalize :: "string \<Rightarrow> string list" where
  "normalize p = foldl push_seg [] (segs [] p)"

text \<open>The written form of a stack, each component followed by a slash, and the path of a stack.\<close>

definition render :: "string list \<Rightarrow> string" where
  "render st = ''/'' @ concat (map (\<lambda>c. c @ ''/'') st)"

definition path_of :: "string list \<Rightarrow> string" where
  "path_of st = (if st = [] then ''/'' else butlast (render st))"

definition is_seg :: "string \<Rightarrow> bool" where
  "is_seg c \<longleftrightarrow> c \<noteq> [] \<and> CHR ''/'' \<notin> set c"

lemma segs_dropWhile: "segs [] (dropWhile (\<lambda>c. c = CHR ''/'') s) = segs [] s"
  by (induction s) auto

lemma segs_acc:
  "CHR ''/'' \<notin> set s \<Longrightarrow> rest = [] \<or> hd rest = CHR ''/'' \<Longrightarrow> acc @ s \<noteq> [] \<Longrightarrow>
     segs acc (s @ rest) = (acc @ s) # segs [] rest"
proof (induction s arbitrary: acc)
  case Nil
  then show ?case by (cases rest) auto
next
  case (Cons c s)
  then have "c \<noteq> CHR ''/''" by auto
  then show ?case using Cons.IH [of "acc @ [c]"] Cons.prems by simp
qed

lemma segs_is_seg: "CHR ''/'' \<notin> set acc \<Longrightarrow> c \<in> set (segs acc s) \<Longrightarrow> is_seg c"
proof (induction acc s rule: segs.induct)
  case (1 acc)
  then show ?case by (auto simp: is_seg_def split: if_splits)
next
  case (2 acc d cs)
  then show ?case by (auto simp: is_seg_def split: if_splits)
qed

lemma last_dropWhile_slash:
  "dropWhile (\<lambda>c. c \<noteq> CHR ''/'') s = [] \<or> hd (dropWhile (\<lambda>c. c \<noteq> CHR ''/'') s) = CHR ''/''"
  using hd_dropWhile [of "\<lambda>c. c \<noteq> CHR ''/''" s] by blast

lemma segs_step:
  assumes "dropWhile (\<lambda>c. c = CHR ''/'') inp = i" and "i \<noteq> []"
  shows "segs [] inp = takeWhile (\<lambda>c. c \<noteq> CHR ''/'') i # segs [] (dropWhile (\<lambda>c. c \<noteq> CHR ''/'') i)"
    "is_seg (takeWhile (\<lambda>c. c \<noteq> CHR ''/'') i)"
proof -
  let ?s = "takeWhile (\<lambda>c. c \<noteq> CHR ''/'') i"
  have "hd i \<noteq> CHR ''/''" using hd_dropWhile [of "\<lambda>c. c = CHR ''/''" inp] assms by simp
  then have ne: "?s \<noteq> []" using assms(2) by (cases i) auto
  have ns: "CHR ''/'' \<notin> set ?s" by (auto dest: set_takeWhileD)
  show "is_seg ?s" using ne ns by (simp add: is_seg_def)
  have "segs [] inp = segs [] i" using segs_dropWhile [of inp] assms(1) by simp
  also have "\<dots> = segs [] (?s @ dropWhile (\<lambda>c. c \<noteq> CHR ''/'') i)" by (simp only: takeWhile_dropWhile_id)
  also have "\<dots> = ?s # segs [] (dropWhile (\<lambda>c. c \<noteq> CHR ''/'') i)"
    using segs_acc [OF ns last_dropWhile_slash [of i], of "[]"] ne by (simp only: append_Nil simp_thms)
  finally show "segs [] inp = ?s # segs [] (dropWhile (\<lambda>c. c \<noteq> CHR ''/'') i)" .
qed

section \<open>The loop refines the reference\<close>

lemma render_snoc: "render (st @ [c]) = render st @ c @ ''/''"
  by (simp add: render_def)

lemma render_last: "last (render st) = CHR ''/''"
  by (cases st rule: rev_cases) (simp_all add: render_def)

lemma strip_seg_append:
  assumes "CHR ''/'' \<notin> set c" and "out \<noteq> []" and "last out = CHR ''/''"
  shows "strip_seg (out @ c) = out"
  using assms(1)
proof (induction c rule: rev_induct)
  case Nil
  then show ?case using assms by (simp add: strip_seg.simps [of out])
next
  case (snoc x xs)
  then have "x \<noteq> CHR ''/''" by auto
  then show ?case
    using snoc assms(2) strip_seg.simps [of "out @ xs @ [x]"] by (simp add: butlast_append)
qed

lemma strip_render:
  assumes "is_seg c"
  shows "strip_seg (butlast (render (st @ [c]))) = render st"
proof -
  have "butlast (render (st @ [c])) = render st @ c" by (simp add: render_snoc butlast_append)
  then show ?thesis
    using strip_seg_append [of c "render st"] assms render_last [of st] by (simp add: is_seg_def render_def)
qed

lemma pop_render:
  assumes "\<forall>c\<in>set st. is_seg c"
  shows "(if 1 < length (render st) then strip_seg (butlast (render st)) else render st) = render (butlast st)"
proof (cases st rule: rev_cases)
  case Nil
  then show ?thesis by (simp add: render_def)
next
  case (snoc ys c)
  then have "1 < length (render st)" using assms by (simp add: render_def is_seg_def)
  then show ?thesis using snoc assms strip_render [of c ys] by simp
qed

text \<open>The room the rest of the input needs: a slash more when it does not begin with one.\<close>

definition room :: "string \<Rightarrow> nat" where
  "room inp = length inp + (if inp = [] \<or> hd inp = CHR ''/'' then 0 else 1)"

lemma room_step:
  assumes "dropWhile (\<lambda>c. c = CHR ''/'') inp = i" and "i \<noteq> []"
  shows "length (takeWhile (\<lambda>c. c \<noteq> CHR ''/'') i) + 1 + room (dropWhile (\<lambda>c. c \<noteq> CHR ''/'') i) \<le> room inp"
proof -
  have r: "room (dropWhile (\<lambda>c. c \<noteq> CHR ''/'') i) = length (dropWhile (\<lambda>c. c \<noteq> CHR ''/'') i)"
    using last_dropWhile_slash [of i] by (simp add: room_def)
  have l: "length (takeWhile (\<lambda>c. c \<noteq> CHR ''/'') i) + length (dropWhile (\<lambda>c. c \<noteq> CHR ''/'') i) = length i"
    by (metis length_append takeWhile_dropWhile_id)
  have "length i + 1 \<le> room inp"
  proof (cases inp)
    case (Cons c cs)
    then show ?thesis using assms length_dropWhile_le [of "\<lambda>c. c = CHR ''/''" cs]
      by (auto simp: room_def)
  qed (use assms in simp)
  with r l show ?thesis by simp
qed

lemma push_seg_is_seg: "\<forall>c\<in>set st. is_seg c \<Longrightarrow> is_seg d \<Longrightarrow> \<forall>c\<in>set (push_seg st d). is_seg c"
  by (auto simp: push_seg_def dest: in_set_butlastD)

lemma length_render_butlast: "length (render (butlast st)) \<le> length (render st)"
  by (cases st rule: rev_cases) (simp_all add: render_def)

lemma canon_loop_refines:
  assumes "\<forall>c\<in>set st. is_seg c" and "length (render st) + room inp < PATH_MAX"
  shows "canon_loop (render st) inp = render (foldl push_seg st (segs [] inp))"
  using assms
proof (induction "length inp" arbitrary: st inp rule: less_induct)
  case less
  let ?i = "dropWhile (\<lambda>c. c = CHR ''/'') inp"
  show ?case
  proof (cases "?i = []")
    case True
    then have "segs [] inp = []" using segs_dropWhile [of inp] by (metis segs.simps(1))
    then show ?thesis using True by (simp add: canon_loop.simps [of "render st" inp])
  next
    case False
    let ?s = "takeWhile (\<lambda>c. c \<noteq> CHR ''/'') ?i" and ?r = "dropWhile (\<lambda>c. c \<noteq> CHR ''/'') ?i"
    note ss = segs_step [OF refl False]
    have rs: "length ?s + 1 + room ?r \<le> room inp" by (rule room_step [OF refl False])
    have sh: "length ?r < length inp" by (rule canon_rest_shorter [OF False])
    have ok: "\<forall>c\<in>set (push_seg st ?s). is_seg c" using push_seg_is_seg [OF less.prems(1) ss(2)] .
    have len: "length (render (push_seg st ?s)) + room ?r < PATH_MAX"
      using rs less.prems(2) length_render_butlast [of st] by (auto simp: push_seg_def render_snoc)
    have "canon_loop (render st) inp = canon_loop (render (push_seg st ?s)) ?r"
      using False rs less.prems(2) pop_render [OF less.prems(1)]
      by (auto simp: canon_loop.simps [of "render st" inp] Let_def push_seg_def render_snoc)
    also have "\<dots> = render (foldl push_seg (push_seg st ?s) (segs [] ?r))"
      by (rule less.hyps [OF sh ok len])
    finally show ?thesis using ss(1) by simp
  qed
qed

lemma length_render_foldl: "length (render (foldl push_seg st (segs [] inp))) \<le> length (render st) + room inp"
proof (induction "length inp" arbitrary: st inp rule: less_induct)
  case less
  let ?i = "dropWhile (\<lambda>c. c = CHR ''/'') inp"
  show ?case
  proof (cases "?i = []")
    case True
    then have "segs [] inp = []" using segs_dropWhile [of inp] by (metis segs.simps(1))
    then show ?thesis by simp
  next
    case False
    let ?s = "takeWhile (\<lambda>c. c \<noteq> CHR ''/'') ?i" and ?r = "dropWhile (\<lambda>c. c \<noteq> CHR ''/'') ?i"
    have "length (render (push_seg st ?s)) \<le> length (render st) + (length ?s + 1)"
      using length_render_butlast [of st] by (auto simp: push_seg_def render_snoc)
    moreover have "length ?s + 1 + room ?r \<le> room inp" by (rule room_step [OF refl False])
    ultimately show ?thesis
      using less [OF canon_rest_shorter [OF False], of "push_seg st ?s"] segs_step(1) [OF refl False] by simp
  qed
qed

section \<open>Normal forms\<close>

text \<open>A normal component list: no empty component, no slash, no dot components.\<close>

definition normal :: "string list \<Rightarrow> bool" where
  "normal st \<longleftrightarrow> (\<forall>c\<in>set st. is_seg c \<and> c \<noteq> ''.'' \<and> c \<noteq> ''..'')"

lemma foldl_push_normal: "normal st \<Longrightarrow> (\<forall>c\<in>set cs. is_seg c) \<Longrightarrow> normal (foldl push_seg st cs)"
proof (induction cs arbitrary: st)
  case (Cons c cs)
  have "normal (push_seg st c)" using Cons.prems by (auto simp: normal_def push_seg_def dest: in_set_butlastD)
  then show ?case using Cons by simp
qed simp

lemma normalize_normal: "normal (normalize p)"
  unfolding normalize_def by (rule foldl_push_normal) (auto simp: normal_def intro: segs_is_seg [of "[]" _ p])

lemma foldl_push_id: "normal cs \<Longrightarrow> foldl push_seg st cs = st @ cs"
  by (induction cs arbitrary: st) (auto simp: normal_def push_seg_def)

lemma segs_concat: "(\<forall>c\<in>set st. is_seg c) \<Longrightarrow> segs [] (concat (map (\<lambda>c. c @ ''/'') st)) = st"
proof (induction st)
  case (Cons c st)
  then have "segs [] (c @ CHR ''/'' # concat (map (\<lambda>c. c @ ''/'') st)) = c # st"
    using segs_acc [of c "CHR ''/'' # concat (map (\<lambda>c. c @ ''/'') st)" "[]"] by (simp add: is_seg_def)
  then show ?case by simp
qed simp

lemma segs_snoc_slash: "segs acc (s @ ''/'') = segs acc s"
  by (induction acc s rule: segs.induct) auto

lemma segs_path_of:
  assumes "\<forall>c\<in>set st. is_seg c"
  shows "segs [] (path_of st) = st"
proof (cases "st = []")
  case True
  then show ?thesis by (simp add: path_of_def)
next
  case False
  have ne: "render st \<noteq> []" by (simp add: render_def)
  have "segs [] (butlast (render st)) = segs [] (butlast (render st) @ [last (render st)])"
    using segs_snoc_slash [of "[]" "butlast (render st)"] render_last [of st] by simp
  also have "\<dots> = segs [] (render st)" using ne by simp
  also have "\<dots> = st" using segs_concat [OF assms] by (simp add: render_def)
  finally show ?thesis using False by (simp add: path_of_def)
qed

lemma hd_path_of: "hd (path_of st) = CHR ''/''" "path_of st \<noteq> []"
  by (cases st; simp add: path_of_def render_def)+

lemma canon_is_path_of:
  assumes "p \<noteq> []" and "hd p = CHR ''/''" and "length p < PATH_MAX - 1"
  shows "canon_abs_path p = path_of (normalize p)"
proof -
  obtain q where p: "p = CHR ''/'' # q" using assms by (cases p) auto
  have n: "normalize p = foldl push_seg [] (segs [] q)" by (simp add: normalize_def p)
  have "room q \<le> length p" by (simp add: room_def p)
  then have loop: "canon_loop ''/'' q = render (normalize p)"
    using canon_loop_refines [of "[]" q] assms(3) n by (simp add: render_def)
  show ?thesis
  proof (cases "normalize p = []")
    case True
    then show ?thesis using loop by (simp add: canon_abs_path_def p path_of_def render_def)
  next
    case False
    then have "1 < length (render (normalize p))" by (cases "normalize p") (simp_all add: render_def)
    then show ?thesis using False loop render_last [of "normalize p"] by (simp add: canon_abs_path_def p path_of_def)
  qed
qed

text \<open>
  Claim C13: for an absolute path of less than \<open>PATH_MAX - 1\<close> characters the pointer loop that canonicalizes it
  computes the stack normalization of its components: the result is an absolute path, no longer
  than the argument, without empty, \<^verbatim>\<open>.\<close> or \<^verbatim>\<open>..\<close> components, and canonicalizing it again changes nothing.
\<close>

theorem canon_abs_path_correct:
  assumes "p \<noteq> []" and "hd p = CHR ''/''" and "length p < PATH_MAX - 1"
  shows "canon_abs_path p = path_of (normalize p) \<and> segs [] (canon_abs_path p) = normalize p \<and>
    normal (normalize p) \<and> hd (canon_abs_path p) = CHR ''/'' \<and> length (canon_abs_path p) \<le> length p \<and>
    canon_abs_path (canon_abs_path p) = canon_abs_path p"
proof -
  let ?c = "canon_abs_path p" and ?st = "normalize p"
  have c: "?c = path_of ?st" by (rule canon_is_path_of [OF assms])
  have seg: "\<forall>c\<in>set ?st. is_seg c" using normalize_normal [of p] by (simp add: normal_def)
  have s: "segs [] ?c = ?st" unfolding c by (rule segs_path_of [OF seg])
  obtain q where p: "p = CHR ''/'' # q" using assms by (cases p) auto
  have "length (render ?st) \<le> 1 + room q"
    using length_render_foldl [of "[]" q] by (simp add: normalize_def p render_def)
  then have len: "length ?c \<le> length p"
    using c by (auto simp: path_of_def room_def p split: if_splits)
  have "normalize ?c = ?st"
    using foldl_push_id [OF normalize_normal, of "[]" p] s by (simp add: normalize_def)
  then have "canon_abs_path ?c = ?c"
    using canon_is_path_of [of ?c] c hd_path_of [of ?st] len assms(3) by simp
  then show ?thesis using c s normalize_normal hd_path_of(1) [of ?st] len by simp
qed

theorem canon_abs_path_correct_witness:
  "canon_abs_path ''/a/./b//../c/'' = path_of (normalize ''/a/./b//../c/'') \<and> normalize ''/a/./b//../c/'' = [''a'', ''c'']"
  using canon_abs_path_correct [of "''/a/./b//../c/''"] by (simp add: normalize_def push_seg_def)

section \<open>Changing directory\<close>

text \<open>
  \<^verbatim>\<open>strncpy\<close> and \<^verbatim>\<open>strncat\<close> into \<^verbatim>\<open>ctx->cwd\<close>; the host's \<^verbatim>\<open>stat\<close> is the parameter \<open>stat\<close>, which gives
  an error number or whether the file is a directory.
\<close>

definition chdir_cwd :: "string \<Rightarrow> string \<Rightarrow> string" where
  "chdir_cwd w s =
     (if s \<noteq> [] \<and> hd s = CHR ''/'' then take (PATH_MAX - 1) s
      else let w1 = (if w \<noteq> [] \<and> last w \<noteq> CHR ''/'' then w @ take (PATH_MAX - length w - 1) ''/'' else w)
        in w1 @ take (PATH_MAX - length w1 - 1) s)"

definition yos_chdir ::
  "(int \<Rightarrow> int) \<Rightarrow> (string \<Rightarrow> int + bool) \<Rightarrow> yos_exec_ctx \<Rightarrow> u32 \<Rightarrow> int \<times> yos_exec_ctx" where
  "yos_chdir h2g stat ctx filename =
     (case guest_str ctx filename of
        None \<Rightarrow> yos_errno_neg h2g ctx EFAULT
      | Some s \<Rightarrow>
          (case stat (yos_path_resolve ctx s) of
             Inl e \<Rightarrow> yos_errno_neg h2g ctx e
           | Inr is_dir \<Rightarrow>
               if \<not> is_dir then yos_errno_neg h2g ctx ENOTDIR
               else (0, ctx\<lparr>cwd := chdir_cwd (cwd ctx) s\<rparr>)))"

text \<open>
  A successful \<^verbatim>\<open>chdir\<close> makes the directory that was checked on the host the working directory, and
  afterwards a relative path resolves to that directory, a slash, and the path; a failing one
  leaves the working directory alone.
\<close>

theorem chdir_then_resolve:
  assumes "guest_str ctx filename = Some s" and "s \<noteq> []" and "cwd ctx \<noteq> []" and "last (cwd ctx) \<noteq> CHR 0x5C"
    and len: "length (cwd ctx) + length s + length q + 3 \<le> PATH_MAX"
    and "q \<noteq> []" and "hd q \<noteq> CHR ''/''" and "last s \<notin> {CHR ''/'', CHR 0x5C}"
    and "yos_chdir h2g stat ctx filename = (r, ctx')"
  shows "if stat (yos_path_resolve ctx s) = Inr True
    then r = 0 \<and> cwd ctx' = yos_path_resolve ctx s \<and> yos_path_resolve ctx' q = yos_path_resolve ctx s @ ''/'' @ q
    else r = - 1 \<and> cwd ctx' = cwd ctx"
proof (cases "stat (yos_path_resolve ctx s) = Inr True")
  case True
  have ctx': "r = 0" "cwd ctx' = chdir_cwd (cwd ctx) s" using assms(1,9) True by (auto simp: yos_chdir_def)
  have t: "take 4095 s = s" using len by simp
  have eq: "chdir_cwd (cwd ctx) s = yos_path_resolve ctx s"
    using assms(2,3,4) len by (simp add: chdir_cwd_def yos_path_resolve_def Let_def)
  have "last (yos_path_resolve ctx s) = last s" "length (yos_path_resolve ctx s) \<le> length (cwd ctx) + length s + 1"
    "yos_path_resolve ctx s \<noteq> []"
    using assms(2) by (auto simp: yos_path_resolve_def Let_def)
  then have "yos_path_resolve ctx' q = yos_path_resolve ctx s @ ''/'' @ q"
    using assms(6,7,8) ctx' len unfolding yos_path_resolve_def [of ctx' q] ctx'(2) eq by (simp add: Let_def)
  then show ?thesis using True ctx' eq by simp
next
  case False
  then show ?thesis using assms(1,9)
    by (auto simp: yos_chdir_def yos_errno_neg_def split: sum.splits if_splits)
qed

text \<open>A context whose memory holds the string \<open>s\<close> at 1024.\<close>

definition str_ctx :: "string \<Rightarrow> string \<Rightarrow> yos_exec_ctx" where
  "str_ctx w s = (ctx_calloc (mem_write (\<lambda>_. 0) 1024 (c_bytes s)) 65536)\<lparr>cwd := w\<rparr>"

lemma cstr_step: "m q \<noteq> 0 \<Longrightarrow> q < endp \<Longrightarrow> cstr m q endp = char_of_byte (m q) # cstr m (Suc q) endp"
  "m q = 0 \<Longrightarrow> cstr m q endp = []"
  by (simp_all add: cstr.simps [of m q endp])

lemma unat_byte_of: "unat (byte_of c) = of_char c"
  using nat_of_char_less_256 [of c] by (simp add: byte_of_def unsigned_of_nat take_bit_nat_eq_self)

lemma char_of_byte_of [simp]: "char_of_byte (byte_of c) = c"
  by (simp add: char_of_byte_def unat_byte_of)

lemma byte_of_zero [simp]: "byte_of c = 0 \<longleftrightarrow> c = CHR 0x00"
proof
  assume "byte_of c = 0"
  then have "char_of_byte 0 = c" by (metis char_of_byte_of)
  then show "c = CHR 0x00" by (simp add: char_of_byte_def char_of_def)
qed (simp add: byte_of_def)

lemma cstr_c_bytes:
  assumes "CHR 0x00 \<notin> set s" and "a + length s < endp" and "\<And>i. i \<le> length s \<Longrightarrow> m (a + i) = c_bytes s ! i"
  shows "cstr m a endp = s"
  using assms
proof (induction s arbitrary: a)
  case Nil
  then show ?case using cstr_step(2) [of m a] Nil(3) [of 0] by (simp add: c_bytes_def)
next
  case (Cons c s)
  have "m a = byte_of c" using Cons.prems(3) [of 0] by (simp add: c_bytes_def)
  moreover have "cstr m (Suc a) endp = s"
    using Cons.prems(1,2) Cons.prems(3) [of "Suc _"] by (intro Cons.IH) (simp_all add: c_bytes_def)
  ultimately show ?case using Cons.prems(1,2) cstr_step(1) [of m a endp] by auto
qed

lemma guest_str_str_ctx:
  assumes "CHR 0x00 \<notin> set s" and "length s < 1000"
  shows "guest_str (str_ctx w s) 1024 = Some s"
proof -
  have m: "memory (str_ctx w s) (1024 + i) = c_bytes s ! i" if "i \<le> length s" for i
    using that by (simp add: str_ctx_def ctx_calloc_def mem_write_def c_bytes_def)
  have z: "memory (str_ctx w s) (1024 + length s) = 0" using m [of "length s"] by (simp add: c_bytes_def nth_append)
  have "\<exists>i. 1024 \<le> i \<and> i < 65536 \<and> memory (str_ctx w s) i = 0"
    using z assms(2) by (intro exI [of _ "1024 + length s"]) simp
  then have "wstr_check (str_ctx w s) 1024 = Some 1024"
    by (simp add: wstr_check_Some_iff) (simp add: str_ctx_def ctx_calloc_def)
  moreover have "cstr (memory (str_ctx w s)) 1024 65536 = s"
    using cstr_c_bytes [OF assms(1) _ m] assms(2) by simp
  ultimately show ?thesis by (simp add: guest_str_def) (simp add: str_ctx_def ctx_calloc_def)
qed

theorem chdir_then_resolve_witness:
  "\<exists>ctx'. yos_chdir (\<lambda>e. e) (\<lambda>_. Inr True) (str_ctx ''/usr'' ''lib'') 1024 = (0, ctx') \<and>
     yos_path_resolve ctx' ''x'' = ''/usr/lib/x''"
proof -
  obtain r ctx' where r: "yos_chdir (\<lambda>e. e) (\<lambda>_. Inr True) (str_ctx ''/usr'' ''lib'') 1024 = (r, ctx')" by force
  have "cwd (str_ctx ''/usr'' ''lib'') = ''/usr''" by (simp add: str_ctx_def)
  then show ?thesis
    using chdir_then_resolve [OF guest_str_str_ctx _ _ _ _ _ _ _ r, of "''x''"] r
    by (simp add: yos_path_resolve_def Let_def)
qed

text \<open>
  A working directory whose name ends in a backslash, legal on POSIX, is joined to a relative path
  without a slash, so that the path names a file of another directory.
\<close>

theorem resolve_backslash_directory:
  assumes "q \<noteq> []" and "hd q \<noteq> CHR ''/''" and "w \<noteq> []" and "last w = CHR 0x5C"
    and "length w + length q + 1 \<le> PATH_MAX" and "cwd ctx = w"
  shows "yos_path_resolve ctx q = w @ q"
  using assms by (simp add: yos_path_resolve_def)

theorem resolve_backslash_directory_witness:
  "yos_path_resolve (str_ctx [CHR ''/'', CHR ''d'', CHR 0x5C] []) ''f'' = [CHR ''/'', CHR ''d'', CHR 0x5C, CHR ''f'']"
  using resolve_backslash_directory [of "''f''" "[CHR ''/'', CHR ''d'', CHR 0x5C]" "str_ctx [CHR ''/'', CHR ''d'', CHR 0x5C] []"]
  by (simp add: str_ctx_def)

end
