(* ===== verification/FdTable.thy ===== *)
theory FdTable
  imports Paths
begin

text \<open>
  The per-process descriptor table of \<^verbatim>\<open>src/src/yos/impl/io/io.c\<close>: 256 guest descriptors, each mapped to a
  host descriptor of its own, to \<open>-1\<close> (free) or to \<open>-2\<close> (released by \<^verbatim>\<open>fclose\<close>, not reused), and the
  path each was opened on.  Every operation also gives the host descriptors it opened and closed,
  in order.  The host's \<^verbatim>\<open>close\<close>, with its result and errno, is the parameter \<open>cl\<close>.
\<close>

section \<open>Host descriptor events\<close>

datatype fd_event = Opened int | Closed int

text \<open>The host's open descriptors after a sequence of events.\<close>

fun replay :: "fd_event list \<Rightarrow> int set \<Rightarrow> int set" where
  "replay [] O1 = O1"
| "replay (Opened h # es) O1 = replay es (insert h O1)"
| "replay (Closed h # es) O1 = replay es (O1 - {h})"

text \<open>What the host promises, that a descriptor it opens is not negative and not open already; and
  what the table owes it, that only open descriptors are closed.\<close>

fun fresh_opens :: "fd_event list \<Rightarrow> int set \<Rightarrow> bool" where
  "fresh_opens [] O1 = True"
| "fresh_opens (Opened h # es) O1 = (0 \<le> h \<and> h \<notin> O1 \<and> fresh_opens es (insert h O1))"
| "fresh_opens (Closed h # es) O1 = fresh_opens es (O1 - {h})"

fun closes_ok :: "fd_event list \<Rightarrow> int set \<Rightarrow> bool" where
  "closes_ok [] O1 = True"
| "closes_ok (Opened h # es) O1 = closes_ok es (insert h O1)"
| "closes_ok (Closed h # es) O1 = (h \<in> O1 \<and> closes_ok es (O1 - {h}))"

lemma replay_append: "replay (es @ fs) O1 = replay fs (replay es O1)"
  by (induction es O1 rule: replay.induct) simp_all

lemma fresh_opens_append: "fresh_opens (es @ fs) O1 \<longleftrightarrow> fresh_opens es O1 \<and> fresh_opens fs (replay es O1)"
  by (induction es O1 rule: replay.induct) auto

lemma closes_ok_append: "closes_ok (es @ fs) O1 \<longleftrightarrow> closes_ok es O1 \<and> closes_ok fs (replay es O1)"
  by (induction es O1 rule: replay.induct) auto

section \<open>The table\<close>

abbreviation YOS_FD_FCLOSE_TOMB :: int where "YOS_FD_FCLOSE_TOMB \<equiv> - 2"

definition set_fd :: "yos_exec_ctx \<Rightarrow> nat \<Rightarrow> int \<Rightarrow> string option \<Rightarrow> yos_exec_ctx" where
  "set_fd ctx i h path = ctx\<lparr>fd_map := (fd_map ctx)[i := h], fd_paths := (fd_paths ctx)[i := path]\<rparr>"

text \<open>\<open>dup3 i\<close> is the result of \<^verbatim>\<open>fcntl(i, F_DUPFD, 3)\<close>.\<close>

definition yos_fd_table_init :: "(int \<Rightarrow> int) \<Rightarrow> yos_exec_ctx \<Rightarrow> yos_exec_ctx" where
  "yos_fd_table_init dup3 ctx =
     (if fd_table_inited ctx then ctx
      else ctx\<lparr>fd_table_inited := True,
             fd_map := map (\<lambda>i. if 0 \<le> dup3 i then dup3 i else i) [0, 1, 2] @ replicate (YOS_FD_MAX - 3) (- 1)\<rparr>)"

definition yos_fd_get :: "(int \<Rightarrow> int) \<Rightarrow> yos_exec_ctx \<Rightarrow> int \<Rightarrow> int \<times> yos_exec_ctx" where
  "yos_fd_get h2g ctx wfd =
     (if wfd = AT_FDCWD then (AT_FDCWD, ctx)
      else if wfd < 0 \<or> int YOS_FD_MAX \<le> wfd then yos_errno_neg h2g ctx EBADF
      else let hfd = fd_map ctx ! nat wfd in
        if hfd < 0 then yos_errno_neg h2g ctx EBADF else (hfd, ctx))"

definition yos_xlate_dfd :: "(int \<Rightarrow> int) \<Rightarrow> yos_exec_ctx \<Rightarrow> int \<Rightarrow> int \<times> yos_exec_ctx" where
  "yos_xlate_dfd h2g ctx wfd = yos_fd_get h2g ctx wfd"

definition yos_fd_translate :: "(int \<Rightarrow> int) \<Rightarrow> yos_exec_ctx \<Rightarrow> int \<Rightarrow> int \<times> yos_exec_ctx" where
  "yos_fd_translate h2g ctx fd =
     (case yos_fd_get h2g ctx fd of (hfd, ctx') \<Rightarrow> (if hfd < 0 then fd else hfd, ctx'))"

type_synonym fd_result = "int \<times> yos_exec_ctx \<times> fd_event list"

definition yos_fd_alloc :: "yos_exec_ctx \<Rightarrow> int \<Rightarrow> fd_result" where
  "yos_fd_alloc ctx host_fd =
     (if host_fd < 0 then (host_fd, ctx, [])
      else case find_index (\<lambda>h. h = - 1) (take YOS_FD_MAX (fd_map ctx)) of
          Some i \<Rightarrow> (int i, set_fd ctx i host_fd None, [])
        | None \<Rightarrow> (- EMFILE, ctx, [Closed host_fd]))"

text \<open>\<^verbatim>\<open>snprintf\<close> into a \<^verbatim>\<open>PATH_MAX\<close> buffer keeps \<open>PATH_MAX - 1\<close> characters.\<close>

definition recorded_path :: "yos_exec_ctx \<Rightarrow> string \<Rightarrow> string" where
  "recorded_path ctx path = canon_abs_path (take (PATH_MAX - 1)
     (if path \<noteq> [] \<and> hd path = CHR ''/'' then path
      else if cwd ctx \<noteq> []
      then cwd ctx @ (if last (cwd ctx) \<noteq> CHR ''/'' then ''/'' else []) @ path
      else path))"

definition yos_fd_alloc_with_path :: "yos_exec_ctx \<Rightarrow> int \<Rightarrow> string option \<Rightarrow> fd_result" where
  "yos_fd_alloc_with_path ctx host_fd path =
     (case yos_fd_alloc ctx host_fd of (wfd, ctx1, es) \<Rightarrow>
        case path of
          None \<Rightarrow> (wfd, ctx1, es)
        | Some p \<Rightarrow>
            if wfd < 0 then (wfd, ctx1, es)
            else (wfd, ctx1\<lparr>fd_paths := (fd_paths ctx1)[nat wfd := Some (recorded_path ctx p)]\<rparr>, es))"

definition yos_fd_assign :: "(int \<Rightarrow> int) \<Rightarrow> yos_exec_ctx \<Rightarrow> int \<Rightarrow> int \<Rightarrow> fd_result" where
  "yos_fd_assign h2g ctx newfd host_fd =
     (if host_fd < 0 then (host_fd, ctx, [])
      else if newfd < 0 \<or> int YOS_FD_MAX \<le> newfd
      then (- 1, set_errno h2g ctx EBADF, [Closed host_fd])
      else let old = fd_map ctx ! nat newfd in
        (newfd, set_fd ctx (nat newfd) host_fd None,
         if 0 \<le> old \<and> old \<noteq> host_fd then [Closed old] else []))"

definition yos_fd_close :: "(int \<Rightarrow> int) \<Rightarrow> (int \<Rightarrow> int \<times> int) \<Rightarrow> yos_exec_ctx \<Rightarrow> int \<Rightarrow> fd_result" where
  "yos_fd_close h2g cl ctx wfd =
     (if wfd < 0 \<or> int YOS_FD_MAX \<le> wfd then (- 1, set_errno h2g ctx EBADF, [])
      else let hfd = fd_map ctx ! nat wfd in
        if hfd < 0 then (- 1, set_errno h2g ctx EBADF, [])
        else case yos_errno_check h2g (set_fd ctx (nat wfd) (- 1) None) (fst (cl hfd)) (snd (cl hfd)) of
            (r, ctx') \<Rightarrow> (r, ctx', [Closed hfd]))"

definition yos_fd_release_slot :: "yos_exec_ctx \<Rightarrow> int \<Rightarrow> yos_exec_ctx" where
  "yos_fd_release_slot ctx wfd =
     (if wfd < 0 \<or> int YOS_FD_MAX \<le> wfd then ctx else set_fd ctx (nat wfd) YOS_FD_FCLOSE_TOMB None)"

text \<open>
  \<open>dup h c\<close> is the result of \<^verbatim>\<open>fcntl(h, F_DUPFD or F_DUPFD_CLOEXEC, 0)\<close>, \<open>cloexec h\<close> the flag of \<open>h\<close>.
\<close>

definition yos_fd_fork_dup ::
  "(int \<Rightarrow> bool \<Rightarrow> int) \<Rightarrow> (int \<Rightarrow> bool) \<Rightarrow> yos_exec_ctx \<Rightarrow> yos_exec_ctx \<Rightarrow> yos_exec_ctx" where
  "yos_fd_fork_dup dup cloexec child parent = child\<lparr>
     fd_map := map (\<lambda>h. if h < 0 then - 1 else let c = dup h (cloexec h) in if 0 \<le> c then c else - 1) (fd_map parent),
     fd_paths := map2 (\<lambda>h p. if h < 0 then None else p) (fd_map parent) (fd_paths parent)\<rparr>"

text \<open>The loop of \<^verbatim>\<open>closefrom\<close> and \<^verbatim>\<open>close_range\<close> over the slots from \<open>i\<close> up to, not including, \<open>hi\<close>.\<close>

function close_slots :: "yos_exec_ctx \<Rightarrow> nat \<Rightarrow> nat \<Rightarrow> yos_exec_ctx \<times> fd_event list" where
  "close_slots ctx i hi =
     (if i < hi
      then let hfd = fd_map ctx ! i in
        if hfd < 0 then close_slots ctx (Suc i) hi
        else case close_slots (set_fd ctx i (- 1) None) (Suc i) hi of (ctx', es) \<Rightarrow> (ctx', Closed hfd # es)
      else (ctx, []))"
  by pat_completeness auto
termination
  by (relation "measure (\<lambda>(ctx, i, hi). hi - i)") auto

declare close_slots.simps [simp del]

definition yos_closefrom :: "yos_exec_ctx \<Rightarrow> int \<Rightarrow> yos_exec_ctx \<times> fd_event list" where
  "yos_closefrom ctx lowfd = close_slots ctx (if lowfd < 0 then 0 else nat lowfd) YOS_FD_MAX"

definition yos_close_range :: "yos_exec_ctx \<Rightarrow> u32 \<Rightarrow> u32 \<Rightarrow> fd_result" where
  "yos_close_range ctx lowfd maxfd =
     (if of_nat YOS_FD_MAX \<le> lowfd then (0, ctx, [])
      else let hi = (if of_nat YOS_FD_MAX \<le> maxfd then of_nat YOS_FD_MAX - 1 else maxfd) in
        case close_slots ctx (unat lowfd) (unat hi + 1) of (ctx', es) \<Rightarrow> (0, ctx', es))"

section \<open>The invariant: who owns which host descriptor\<close>

definition owned :: "yos_exec_ctx \<Rightarrow> int set" where
  "owned ctx = {h \<in> set (fd_map ctx). 0 \<le> h}"

text \<open>
  The table has its size, no host descriptor stands behind two guest descriptors, and the host's
  open descriptors are those of the table and the foreign ones \<open>F\<close>, disjointly.
\<close>

definition fd_inv :: "int set \<Rightarrow> yos_exec_ctx \<Rightarrow> int set \<Rightarrow> bool" where
  "fd_inv F ctx O1 \<longleftrightarrow> length (fd_map ctx) = YOS_FD_MAX \<and> length (fd_paths ctx) = YOS_FD_MAX \<and>
     distinct (filter (\<lambda>h. 0 \<le> h) (fd_map ctx)) \<and> O1 = F \<union> owned ctx \<and> F \<inter> owned ctx = {}"

lemma fd_map_set_fd [simp]: "fd_map (set_fd ctx i h p) = (fd_map ctx)[i := h]"
  and fd_paths_set_fd [simp]: "fd_paths (set_fd ctx i h p) = (fd_paths ctx)[i := p]"
  by (simp_all add: set_fd_def)

lemma distinct_filter_iff:
  "distinct (filter P xs) \<longleftrightarrow> (\<forall>i j. i < length xs \<longrightarrow> j < length xs \<longrightarrow> P (xs ! i) \<longrightarrow> xs ! i = xs ! j \<longrightarrow> i = j)"
proof (induction xs)
  case (Cons x xs)
  have "(\<forall>i j. i < length (x # xs) \<longrightarrow> j < length (x # xs) \<longrightarrow> P ((x # xs) ! i) \<longrightarrow> (x # xs) ! i = (x # xs) ! j \<longrightarrow> i = j) \<longleftrightarrow>
      (P x \<longrightarrow> x \<notin> set xs) \<and>
      (\<forall>i j. i < length xs \<longrightarrow> j < length xs \<longrightarrow> P (xs ! i) \<longrightarrow> xs ! i = xs ! j \<longrightarrow> i = j)" (is "?l \<longleftrightarrow> ?r")
  proof
    assume l: ?l
    show ?r
    proof (intro conjI impI allI)
      assume "P x"
      then show "x \<notin> set xs" using l [rule_format, of 0 "Suc _"] by (force simp: in_set_conv_nth)
    next
      fix i j assume "i < length xs" "j < length xs" "P (xs ! i)" "xs ! i = xs ! j"
      then show "i = j" using l [rule_format, of "Suc i" "Suc j"] by simp
    qed
  next
    assume r: ?r
    show ?l
    proof (intro allI impI)
      fix i j assume h: "i < length (x # xs)" "j < length (x # xs)" "P ((x # xs) ! i)" "(x # xs) ! i = (x # xs) ! j"
      then show "i = j" using r by (cases i; cases j) auto
    qed
  qed
  then show ?case using Cons by simp
qed simp

lemma distinct_filter_update:
  assumes "distinct (filter P xs)" and "P y \<longrightarrow> y \<notin> set xs"
  shows "distinct (filter P (xs[i := y]))"
  unfolding distinct_filter_iff
proof (intro allI impI)
  fix a b assume h: "a < length (xs[i := y])" "b < length (xs[i := y])" "P (xs[i := y] ! a)" "xs[i := y] ! a = xs[i := y] ! b"
  show "a = b"
  proof (cases "a = i \<or> b = i")
    case True
    have "xs ! a \<in> set xs" "xs ! b \<in> set xs" using h by simp_all
    then show ?thesis using True h assms(2) by (cases "a = i"; cases "b = i") auto
  next
    case False
    then show ?thesis using h assms(1) by (simp add: distinct_filter_iff)
  qed
qed

text \<open>Giving a slot a new descriptor: ownership of what the slot had is lost, of the new one gained.\<close>

lemma owned_set_fd:
  assumes "length (fd_map ctx) = YOS_FD_MAX" and "i < YOS_FD_MAX"
    and "distinct (filter (\<lambda>h. 0 \<le> h) (fd_map ctx))" and "0 \<le> h \<longrightarrow> h \<notin> owned ctx"
  shows "owned (set_fd ctx i h p) = owned ctx - {fd_map ctx ! i} \<union> (if 0 \<le> h then {h} else {})"
proof (rule set_eqI)
  fix x
  have uniq: "fd_map ctx ! j = fd_map ctx ! i \<Longrightarrow> 0 \<le> fd_map ctx ! j \<Longrightarrow> j < YOS_FD_MAX \<Longrightarrow> j = i" for j
    using assms(1-3) by (auto simp: distinct_filter_iff)
  have "x \<in> owned (set_fd ctx i h p) \<longleftrightarrow> 0 \<le> x \<and> (\<exists>j<YOS_FD_MAX. x = (if j = i then h else fd_map ctx ! j))"
    using assms(1) by (auto simp: owned_def in_set_conv_nth nth_list_update)
  also have "\<dots> \<longleftrightarrow> 0 \<le> x \<and> (x = h \<or> (\<exists>j<YOS_FD_MAX. j \<noteq> i \<and> x = fd_map ctx ! j))"
    using assms(2) by metis
  also have "\<dots> \<longleftrightarrow> x \<in> owned ctx - {fd_map ctx ! i} \<union> (if 0 \<le> h then {h} else {})"
    using assms(1) uniq by (auto simp: owned_def in_set_conv_nth)
  finally show "x \<in> owned (set_fd ctx i h p) \<longleftrightarrow> x \<in> owned ctx - {fd_map ctx ! i} \<union> (if 0 \<le> h then {h} else {})" .
qed

lemma slot_owned: "fd_inv F ctx O1 \<Longrightarrow> i < YOS_FD_MAX \<Longrightarrow> 0 \<le> fd_map ctx ! i \<Longrightarrow> fd_map ctx ! i \<in> owned ctx"
  by (simp add: fd_inv_def owned_def)

lemma fd_inv_set:
  assumes inv: "fd_inv F ctx O1" and i: "i < YOS_FD_MAX" and h: "0 \<le> h \<longrightarrow> h \<notin> O1"
  shows "fd_inv F (set_fd ctx i h p) ((if 0 \<le> fd_map ctx ! i then O1 - {fd_map ctx ! i} else O1) \<union> (if 0 \<le> h then {h} else {}))"
proof -
  have o: "owned (set_fd ctx i h p) = owned ctx - {fd_map ctx ! i} \<union> (if 0 \<le> h then {h} else {})"
    by (rule owned_set_fd) (use inv i h in \<open>auto simp: fd_inv_def\<close>)
  have d: "distinct (filter (\<lambda>h. 0 \<le> h) (fd_map (set_fd ctx i h p)))"
    unfolding fd_map_set_fd by (rule distinct_filter_update) (use inv h in \<open>auto simp: fd_inv_def owned_def\<close>)
  have neg: "fd_map ctx ! i \<notin> owned ctx" if "\<not> 0 \<le> fd_map ctx ! i" using that by (simp add: owned_def)
  show ?thesis
    unfolding fd_inv_def o using inv d h slot_owned [OF inv i] neg by (auto simp: fd_inv_def)
qed

lemma fd_inv_frame: "fd_map ctx' = fd_map ctx \<Longrightarrow> length (fd_paths ctx') = length (fd_paths ctx) \<Longrightarrow> fd_inv F ctx O1 \<Longrightarrow> fd_inv F ctx' O1"
  by (simp add: fd_inv_def owned_def)

end
