(* ===== verification/OpenFlags.thy ===== *)
theory OpenFlags
  imports Prelude
begin

text \<open>
  The translation of \<^verbatim>\<open>open\<close> flags, \<^verbatim>\<open>*at\<close> flags and \<^verbatim>\<open>fcntl\<close> commands between the FreeBSD guest and a
  Linux host, from \<^verbatim>\<open>src/src/yos/impl/io/io.c\<close>.  The C \<^verbatim>\<open>int\<close> flag words are their 32 bits.
\<close>

section \<open>Open flags\<close>

text \<open>\<^verbatim>\<open>if (f & a) r |= b;\<close> for the pairs of a table, in order.\<close>

fun or_flags :: "u32 \<Rightarrow> (u32 \<times> u32) list \<Rightarrow> u32 \<Rightarrow> u32" where
  "or_flags f [] r = r"
| "or_flags f ((a, b) # t) r = or_flags f t (if f AND a \<noteq> 0 then r OR b else r)"

text \<open>
  The rows are, in order: NONBLOCK, APPEND, ASYNC, SYNC, NOFOLLOW, CREAT, TRUNC, EXCL, NOCTTY, DIRECT,
  DIRECTORY, (EXEC to PATH,) CLOEXEC, PATH.
\<close>

definition fb_lx_table :: "(u32 \<times> u32) list" where
  "fb_lx_table = [(0x4, 0x800), (0x8, 0x400), (0x40, 0x2000), (0x80, 0x101000), (0x100, 0x20000),
     (0x200, 0x40), (0x400, 0x200), (0x800, 0x80), (0x8000, 0x100), (0x10000, 0x4000), (0x20000, 0x10000),
     (0x40000, 0x200000), (0x100000, 0x80000), (0x400000, 0x200000)]"

definition lx_fb_table :: "(u32 \<times> u32) list" where
  "lx_fb_table = [(0x800, 0x4), (0x400, 0x8), (0x2000, 0x40), (0x101000, 0x80), (0x20000, 0x100),
     (0x40, 0x200), (0x200, 0x400), (0x80, 0x800), (0x100, 0x8000), (0x4000, 0x10000), (0x10000, 0x20000),
     (0x80000, 0x100000), (0x200000, 0x400000)]"

definition oflags_fb_to_lx :: "u32 \<Rightarrow> u32" where
  "oflags_fb_to_lx f = or_flags f fb_lx_table (f AND 3)"

definition oflags_lx_to_fb :: "u32 \<Rightarrow> u32" where
  "oflags_lx_to_fb f = or_flags f lx_fb_table (f AND 3)"

text \<open>Flags of the \<^verbatim>\<open>*at\<close> calls: EACCESS, SYMLINK\_NOFOLLOW, SYMLINK\_FOLLOW, REMOVEDIR, EMPTY\_PATH.\<close>

definition yos_at_flags_fb_to_lx :: "u32 \<Rightarrow> u32" where
  "yos_at_flags_fb_to_lx f = or_flags f
     [(0x100, 0x200), (0x200, 0x100), (0x400, 0x400), (0x800, 0x200), (0x4000, 0x1000)] 0"

text \<open>Commands of \<^verbatim>\<open>fcntl\<close>.\<close>

abbreviation F_DUPFD :: int where "F_DUPFD \<equiv> 0"
abbreviation F_SETFD :: int where "F_SETFD \<equiv> 2"
abbreviation F_GETFL :: int where "F_GETFL \<equiv> 3"
abbreviation F_SETFL :: int where "F_SETFL \<equiv> 4"
abbreviation F_SETOWN :: int where "F_SETOWN \<equiv> 8"
abbreviation F_DUPFD_CLOEXEC :: int where "F_DUPFD_CLOEXEC \<equiv> 1030"

definition fcntl_cmd_fb_to_lx :: "int \<Rightarrow> int" where
  "fcntl_cmd_fb_to_lx cmd =
     (if cmd = 0 then F_DUPFD else if cmd = 1 then 1 else if cmd = 2 then F_SETFD
      else if cmd = 3 then F_GETFL else if cmd = 4 then F_SETFL else if cmd = 5 then 9
      else if cmd = 6 then F_SETOWN else if cmd = 11 then 5 else if cmd = 12 then 6
      else if cmd = 13 then 7 else if cmd = 17 then F_DUPFD_CLOEXEC else cmd)"

section \<open>Bits of the translations\<close>

lemma bit_or_flags:
  "bit (or_flags f t r) n \<longleftrightarrow> bit r n \<or> (\<exists>(a, b)\<in>set t. f AND a \<noteq> 0 \<and> bit b n)"
  by (induction f t r rule: or_flags.induct) (auto simp: bit_simps)

lemma pow2_bit: "k < 32 \<Longrightarrow> bit ((2 :: u32) ^ k) n \<longleftrightarrow> n = k"
  by (auto simp: bit_simps)

lemma and_pow2: "(f :: u32) AND 2 ^ k \<noteq> 0 \<longleftrightarrow> bit f k"
  by (simp add: and_exp_eq_0_iff_not_bit)

lemma sync_bits: "bit (0x101000 :: u32) n \<longleftrightarrow> n = 12 \<or> n = 20" "(f :: u32) AND 0x101000 \<noteq> 0 \<longleftrightarrow> bit f 12 \<or> bit f 20"
proof -
  have e: "(0x101000 :: u32) = 2 ^ 12 OR 2 ^ 20" by simp
  show "bit (0x101000 :: u32) n \<longleftrightarrow> n = 12 \<or> n = 20"
    unfolding e bit_or_iff using pow2_bit [of 12 n] pow2_bit [of 20 n] by simp
  have "f AND (2 ^ 12 OR 2 ^ 20) = (f AND 2 ^ 12) OR (f AND 2 ^ 20)" by (simp only: bit.conj_disj_distrib)
  then show "f AND 0x101000 \<noteq> 0 \<longleftrightarrow> bit f 12 \<or> bit f 20"
    unfolding e using and_pow2 [of f 12] and_pow2 [of f 20] by (simp only: or_eq_0_iff de_Morgan_conj simp_thms)
qed

lemma low_bits: "bit ((f :: u32) AND 3) n \<longleftrightarrow> n < 2 \<and> bit f n"
proof -
  have e: "(3 :: u32) = mask 2" by (simp add: mask_eq_exp_minus_1)
  show ?thesis unfolding e bit_and_iff bit_mask_iff by auto
qed

text \<open>The single-bit constants of the tables.\<close>

lemmas flag_bits =
  pow2_bit [of 2, simplified] pow2_bit [of 3, simplified] pow2_bit [of 6, simplified] pow2_bit [of 7, simplified]
  pow2_bit [of 8, simplified] pow2_bit [of 9, simplified] pow2_bit [of 10, simplified] pow2_bit [of 11, simplified]
  pow2_bit [of 13, simplified] pow2_bit [of 14, simplified] pow2_bit [of 15, simplified] pow2_bit [of 16, simplified]
  pow2_bit [of 17, simplified] pow2_bit [of 19, simplified] pow2_bit [of 20, simplified] pow2_bit [of 21, simplified]
  pow2_bit [of 22, simplified]

lemmas flag_tests =
  and_pow2 [of _ 2, simplified] and_pow2 [of _ 3, simplified] and_pow2 [of _ 6, simplified] and_pow2 [of _ 7, simplified]
  and_pow2 [of _ 8, simplified] and_pow2 [of _ 9, simplified] and_pow2 [of _ 10, simplified] and_pow2 [of _ 11, simplified]
  and_pow2 [of _ 13, simplified] and_pow2 [of _ 14, simplified] and_pow2 [of _ 15, simplified] and_pow2 [of _ 16, simplified]
  and_pow2 [of _ 17, simplified] and_pow2 [of _ 18, simplified] and_pow2 [of _ 19, simplified] and_pow2 [of _ 20, simplified]
  and_pow2 [of _ 21, simplified] and_pow2 [of _ 22, simplified]

lemma bit_fb_to_lx:
  "bit (oflags_fb_to_lx f) n \<longleftrightarrow> n < 2 \<and> bit f n \<or> bit f 2 \<and> n = 11 \<or> bit f 3 \<and> n = 10 \<or> bit f 6 \<and> n = 13 \<or>
     bit f 7 \<and> (n = 12 \<or> n = 20) \<or> bit f 8 \<and> n = 17 \<or> bit f 9 \<and> n = 6 \<or> bit f 10 \<and> n = 9 \<or>
     bit f 11 \<and> n = 7 \<or> bit f 15 \<and> n = 8 \<or> bit f 16 \<and> n = 14 \<or> bit f 17 \<and> n = 16 \<or> bit f 18 \<and> n = 21 \<or>
     bit f 20 \<and> n = 19 \<or> bit f 22 \<and> n = 21"
  unfolding oflags_fb_to_lx_def fb_lx_table_def bit_or_flags low_bits
  by (simp add: flag_tests flag_bits sync_bits(1) [simplified] sync_bits(2))

lemma bit_lx_to_fb:
  "bit (oflags_lx_to_fb g) n \<longleftrightarrow> n < 2 \<and> bit g n \<or> bit g 11 \<and> n = 2 \<or> bit g 10 \<and> n = 3 \<or> bit g 13 \<and> n = 6 \<or>
     (bit g 12 \<or> bit g 20) \<and> n = 7 \<or> bit g 17 \<and> n = 8 \<or> bit g 6 \<and> n = 9 \<or> bit g 9 \<and> n = 10 \<or>
     bit g 7 \<and> n = 11 \<or> bit g 8 \<and> n = 15 \<or> bit g 14 \<and> n = 16 \<or> bit g 16 \<and> n = 17 \<or> bit g 19 \<and> n = 20 \<or>
     bit g 21 \<and> n = 22"
  unfolding oflags_lx_to_fb_def lx_fb_table_def bit_or_flags low_bits
  by (simp add: flag_tests flag_bits sync_bits(1) [simplified] sync_bits(2))

text \<open>
  The flags a guest opens a file with come back from the host as the same flags: translating to Linux and
  back keeps exactly the fourteen flags both systems have and the access mode, turns the
  guest's \<^verbatim>\<open>O_EXEC\<close> into \<^verbatim>\<open>O_PATH\<close>, and drops every other bit.
\<close>

theorem oflags_roundtrip:
  "bit (oflags_lx_to_fb (oflags_fb_to_lx f)) n \<longleftrightarrow>
     bit f n \<and> n \<in> {0, 1, 2, 3, 6, 7, 8, 9, 10, 11, 15, 16, 17, 20, 22} \<or> n = 22 \<and> bit f 18"
proof -
  have two: "n < 2 \<longleftrightarrow> n = 0 \<or> n = 1" by auto
  have "bit (oflags_fb_to_lx f) 0 = bit f 0" "bit (oflags_fb_to_lx f) 1 = bit f 1" by (simp_all add: bit_fb_to_lx)
  then have low: "n < 2 \<and> bit (oflags_fb_to_lx f) n \<longleftrightarrow> n < 2 \<and> bit f n" unfolding two by blast
  have up: "bit (oflags_lx_to_fb (oflags_fb_to_lx f)) n \<longleftrightarrow> n < 2 \<and> bit f n \<or> bit f 2 \<and> n = 2 \<or> bit f 3 \<and> n = 3 \<or>
      bit f 6 \<and> n = 6 \<or> bit f 7 \<and> n = 7 \<or> bit f 8 \<and> n = 8 \<or> bit f 9 \<and> n = 9 \<or> bit f 10 \<and> n = 10 \<or>
      bit f 11 \<and> n = 11 \<or> bit f 15 \<and> n = 15 \<or> bit f 16 \<and> n = 16 \<or> bit f 17 \<and> n = 17 \<or> bit f 20 \<and> n = 20 \<or>
      (bit f 18 \<or> bit f 22) \<and> n = 22"
    unfolding bit_lx_to_fb [of "oflags_fb_to_lx f"] low by (simp add: bit_fb_to_lx)
  show ?thesis unfolding up two insert_iff empty_iff by (rule iffI; elim disjE conjE; simp)
qed

end
