(* ===== verification/FdCalls.thy ===== *)
theory FdCalls
  imports FdTable OpenFlags VfsMount
begin

text \<open>
  The bridges of \<^verbatim>\<open>src/src/yos/impl/io/io.c\<close> that create, duplicate and close descriptors.  The host's
  calls are parameters that give a result and, when it is negative, an errno; \<open>vopen\<close> stands for
  the \<^verbatim>\<open>open\<close> operation of a mounted virtual file system and \<open>fifo\<close> and \<open>pty\<close> for the look-ups of fake FIFOs and
  fake terminals, which give a host descriptor, or \<open>-1\<close> and an errno that is 0 when the path is neither.
\<close>

section \<open>Pairs of descriptors\<close>

text \<open>The common tail of \<^verbatim>\<open>pipe\<close> and \<^verbatim>\<open>socketpair\<close>: two host descriptors become two guest descriptors.\<close>

definition alloc_pair ::
  "(int \<Rightarrow> int) \<Rightarrow> (int \<Rightarrow> int \<times> int) \<Rightarrow> yos_exec_ctx \<Rightarrow> nat \<Rightarrow> int \<Rightarrow> int \<Rightarrow> fd_result" where
  "alloc_pair h2g cl ctx p a b =
     (case yos_fd_alloc ctx a of (r, c1, e1) \<Rightarrow>
        if r < 0 then (r, c1, [Opened a, Opened b] @ e1 @ [Closed b])
        else case yos_fd_alloc c1 b of (w, c2, e2) \<Rightarrow>
          if w < 0 then (case yos_fd_close h2g cl c2 r of (_, c3, e3) \<Rightarrow> (w, c3, [Opened a, Opened b] @ e1 @ e2 @ e3))
          else (0, c2\<lparr>memory := store32 (store32 (memory c2) p (word_of_int r)) (p + 4) (word_of_int w)\<rparr>,
                [Opened a, Opened b] @ e1 @ e2))"

definition yos_pipe ::
  "(int \<Rightarrow> int) \<Rightarrow> (int \<Rightarrow> int \<times> int) \<Rightarrow> int + int \<times> int \<Rightarrow> yos_exec_ctx \<Rightarrow> u32 \<Rightarrow> fd_result" where
  "yos_pipe h2g cl host_pipe ctx fildes =
     (case wptr ctx fildes of
        None \<Rightarrow> (- 1, set_errno h2g ctx EFAULT, [])
      | Some p \<Rightarrow>
          (case host_pipe of
             Inl e \<Rightarrow> (- 1, set_errno h2g ctx e, [])
           | Inr (a, b) \<Rightarrow> alloc_pair h2g cl ctx p a b))"

text \<open>The \<^verbatim>\<open>SOCK_NONBLOCK\<close> and \<^verbatim>\<open>SOCK_CLOEXEC\<close> bits are stripped from the type and set by \<^verbatim>\<open>fcntl\<close> on both ends.\<close>

definition yos_vfs_socketpair ::
  "(int \<Rightarrow> int) \<Rightarrow> (int \<Rightarrow> int \<times> int) \<Rightarrow> (int \<Rightarrow> int \<Rightarrow> int \<Rightarrow> int + int \<times> int) \<Rightarrow> yos_exec_ctx \<Rightarrow>
   int \<Rightarrow> int \<Rightarrow> int \<Rightarrow> u32 \<Rightarrow> fd_result" where
  "yos_vfs_socketpair h2g cl host_socketpair ctx domain ty protocol sv =
     (case wptr ctx sv of
        None \<Rightarrow> (- 1, set_errno h2g ctx EFAULT, [])
      | Some p \<Rightarrow>
          (case host_socketpair domain (ty AND NOT 0x30000000) protocol of
             Inl e \<Rightarrow> (- 1, set_errno h2g ctx e, [])
           | Inr (a, b) \<Rightarrow> alloc_pair h2g cl ctx p a b))"

section \<open>Duplication\<close>

text \<open>\<open>dup h c m\<close> is \<^verbatim>\<open>fcntl(h, c ? F_DUPFD_CLOEXEC : F_DUPFD, m)\<close>.\<close>

definition carry_path :: "yos_exec_ctx \<Rightarrow> int \<Rightarrow> string option" where
  "carry_path ctx oldfd = (if 0 \<le> oldfd \<and> oldfd < int YOS_FD_MAX then fd_paths ctx ! nat oldfd else None)"

definition assign_dup :: "(int \<Rightarrow> int) \<Rightarrow> yos_exec_ctx \<Rightarrow> int \<Rightarrow> int \<Rightarrow> int \<Rightarrow> fd_result" where
  "assign_dup h2g ctx oldfd newfd host_new =
     (case yos_fd_assign h2g ctx newfd host_new of (r, c2, es) \<Rightarrow>
        (r, if 0 \<le> r \<and> carry_path ctx oldfd \<noteq> None
            then c2\<lparr>fd_paths := (fd_paths c2)[nat r := carry_path ctx oldfd]\<rparr> else c2,
         Opened host_new # es))"

definition yos_dup2 ::
  "(int \<Rightarrow> int) \<Rightarrow> (int \<Rightarrow> bool \<Rightarrow> int \<Rightarrow> int \<times> int) \<Rightarrow> yos_exec_ctx \<Rightarrow> int \<Rightarrow> int \<Rightarrow> fd_result" where
  "yos_dup2 h2g dup ctx oldfd newfd =
     (case yos_fd_get h2g ctx oldfd of (host_old, c1) \<Rightarrow>
        if host_old < 0 then (host_old, c1, [])
        else if oldfd = newfd then (newfd, c1, [])
        else case dup host_old False 0 of (host_new, e) \<Rightarrow>
          if host_new < 0 then (- 1, set_errno h2g c1 e, [])
          else assign_dup h2g c1 oldfd newfd host_new)"

abbreviation LX_O_CLOEXEC :: u32 where "LX_O_CLOEXEC \<equiv> 0x80000"
abbreviation FB_O_CLOEXEC :: u32 where "FB_O_CLOEXEC \<equiv> 0x100000"
abbreviation LX_O_CREAT :: u32 where "LX_O_CREAT \<equiv> 0x40"

definition yos_dup3 ::
  "(int \<Rightarrow> int) \<Rightarrow> (int \<Rightarrow> bool \<Rightarrow> int \<Rightarrow> int \<times> int) \<Rightarrow> yos_exec_ctx \<Rightarrow> int \<Rightarrow> int \<Rightarrow> u32 \<Rightarrow> fd_result" where
  "yos_dup3 h2g dup ctx oldfd newfd flags =
     (case yos_fd_get h2g ctx oldfd of (host_old, c1) \<Rightarrow>
        if host_old < 0 then (host_old, c1, [])
        else if oldfd = newfd then (- 1, set_errno h2g c1 EINVAL, [])
        else case dup host_old (flags AND LX_O_CLOEXEC \<noteq> 0) 0 of (host_new, e) \<Rightarrow>
          if host_new < 0 then (- 1, set_errno h2g c1 e, [])
          else assign_dup h2g c1 oldfd newfd host_new)"

text \<open>
  \<^verbatim>\<open>fcntl\<close> is variadic: its argument is the address of the argument pack.  \<open>host_fcntl h c a\<close> is the host's
  \<^verbatim>\<open>fcntl\<close>.
\<close>

definition va_int :: "yos_exec_ctx \<Rightarrow> u32 \<Rightarrow> u32" where
  "va_int ctx arg = (if arg \<noteq> 0 \<and> arg + 4 \<le> memory_size ctx then load32 (memory ctx) (unat arg) else arg)"

definition yos_fcntl ::
  "(int \<Rightarrow> int) \<Rightarrow> (int \<Rightarrow> int \<Rightarrow> u32 \<Rightarrow> int \<times> int) \<Rightarrow> yos_exec_ctx \<Rightarrow> int \<Rightarrow> int \<Rightarrow> u32 \<Rightarrow> fd_result" where
  "yos_fcntl h2g host_fcntl ctx fd cmd arg =
     (case yos_fd_get h2g ctx fd of (hfd, c1) \<Rightarrow>
        if hfd < 0 then (- 1, set_errno h2g c1 EBADF, [])
        else
          let hcmd = fcntl_cmd_fb_to_lx cmd;
              real_arg = (if hcmd \<in> {F_DUPFD, F_DUPFD_CLOEXEC, F_SETFD, F_SETFL, F_SETOWN} then va_int c1 arg else arg)
          in if hcmd = F_DUPFD \<or> hcmd = F_DUPFD_CLOEXEC then
               (case host_fcntl hfd hcmd real_arg of (r, e) \<Rightarrow>
                  if r < 0 then (- 1, set_errno h2g c1 e, [])
                  else case yos_fd_alloc c1 r of (w, c2, es) \<Rightarrow> (w, c2, Opened r # es))
             else if hcmd = F_SETFL then
               (case host_fcntl hfd hcmd (oflags_fb_to_lx real_arg) of (r, e) \<Rightarrow>
                  case yos_errno_check h2g c1 r e of (x, c2) \<Rightarrow> (x, c2, []))
             else if hcmd = F_GETFL then
               (case host_fcntl hfd hcmd 0 of (r, e) \<Rightarrow>
                  if r < 0 then (- 1, set_errno h2g c1 e, [])
                  else (sint (oflags_lx_to_fb (word_of_int r)), c1, []))
             else
               (case host_fcntl hfd hcmd real_arg of (r, e) \<Rightarrow>
                  case yos_errno_check h2g c1 r e of (x, c2) \<Rightarrow> (x, c2, [])))"

definition yos_vfs_fcntl64 ::
  "(int \<Rightarrow> int) \<Rightarrow> (int \<Rightarrow> int \<Rightarrow> u32 \<Rightarrow> int \<times> int) \<Rightarrow> yos_exec_ctx \<Rightarrow> int \<Rightarrow> int \<Rightarrow> u32 \<Rightarrow> fd_result" where
  "yos_vfs_fcntl64 h2g host_fcntl ctx fd cmd arg = yos_fcntl h2g host_fcntl ctx fd cmd arg"

section \<open>Opening\<close>

text \<open>The mode of a variadic \<^verbatim>\<open>open\<close>: read from the argument pack and masked when a file may be created.\<close>

definition open_mode :: "yos_exec_ctx \<Rightarrow> u32 \<Rightarrow> u32 \<Rightarrow> u32" where
  "open_mode ctx hflags mode =
     (if hflags AND LX_O_CREAT \<noteq> 0 then va_int ctx mode AND NOT (ucast (umask ctx)) else 0)"

definition mounted :: "fs_ops yos_mount_table option \<Rightarrow> string \<Rightarrow> (fs_ops \<times> string) option" where
  "mounted mt s =
     (case mt of None \<Rightarrow> None
      | Some t \<Rightarrow> (case yos_mount_resolve t s of (Some ops, rest) \<Rightarrow> Some (ops, rest) | _ \<Rightarrow> None))"

definition yos_open ::
  "(int \<Rightarrow> int) \<Rightarrow> (fs_ops \<Rightarrow> yos_exec_ctx \<Rightarrow> string \<Rightarrow> u32 \<Rightarrow> u32 \<Rightarrow> int \<times> yos_exec_ctx) \<Rightarrow>
   (string \<Rightarrow> u32 \<Rightarrow> int \<times> int) \<Rightarrow> (string \<Rightarrow> u32 \<Rightarrow> int \<times> int) \<Rightarrow> (string \<Rightarrow> u32 \<Rightarrow> u32 \<Rightarrow> int \<times> int) \<Rightarrow>
   fs_ops yos_mount_table option \<Rightarrow> yos_exec_ctx \<Rightarrow> u32 \<Rightarrow> u32 \<Rightarrow> u32 \<Rightarrow> fd_result" where
  "yos_open h2g vopen fifo pty host_open mt ctx path flags mode =
     (case guest_str ctx path of
        None \<Rightarrow> (- 1, set_errno h2g ctx EFAULT, [])
      | Some raw \<Rightarrow>
          let s = yos_path_resolve ctx raw in
          (case mounted mt s of
             Some (ops, rest) \<Rightarrow> (case vopen ops ctx rest flags mode of (r, c) \<Rightarrow> (r, c, []))
           | None \<Rightarrow>
               (case fifo s flags of (hfifo, e1) \<Rightarrow>
                  if 0 \<le> hfifo then (case yos_fd_alloc ctx hfifo of (w, c, es) \<Rightarrow> (w, c, Opened hfifo # es))
                  else if e1 \<noteq> 0 then (- 1, set_errno h2g ctx e1, [])
                  else case pty s flags of (hpty, e2) \<Rightarrow>
                    if 0 \<le> hpty then (case yos_fd_alloc ctx hpty of (w, c, es) \<Rightarrow> (w, c, Opened hpty # es))
                    else if e2 \<noteq> 0 then (- 1, set_errno h2g ctx e2, [])
                    else
                      let hflags = oflags_fb_to_lx flags in
                      (case host_open s hflags (open_mode ctx hflags mode) of (r, e) \<Rightarrow>
                         if r < 0 then (- 1, set_errno h2g ctx e, [])
                         else case yos_fd_alloc_with_path ctx r (Some s) of (w, c, es) \<Rightarrow> (w, c, Opened r # es)))))"

definition yos_creat ::
  "(int \<Rightarrow> int) \<Rightarrow> (string \<Rightarrow> u32 \<Rightarrow> int \<times> int) \<Rightarrow> yos_exec_ctx \<Rightarrow> u32 \<Rightarrow> u32 \<Rightarrow> fd_result" where
  "yos_creat h2g host_creat ctx pathname mode =
     (case guest_str ctx pathname of
        None \<Rightarrow> (- 1, set_errno h2g ctx EFAULT, [])
      | Some s \<Rightarrow>
          let resolved = yos_path_resolve ctx s in
          (case host_creat resolved (mode AND NOT (ucast (umask ctx))) of (r, e) \<Rightarrow>
             if r < 0 then (- 1, set_errno h2g ctx e, [])
             else case yos_fd_alloc_with_path ctx r (Some resolved) of (w, c, es) \<Rightarrow> (w, c, Opened r # es)))"

text \<open>The path \<^verbatim>\<open>openat\<close> records: as given when absolute or relative to the working directory, else joined
  to the path of the directory descriptor.\<close>

definition openat_record :: "yos_exec_ctx \<Rightarrow> int \<Rightarrow> string \<Rightarrow> string" where
  "openat_record ctx dfd path =
     (if path \<noteq> [] \<and> hd path = CHR ''/'' then path
      else if dfd = AT_FDCWD then path
      else case carry_path ctx dfd of
          None \<Rightarrow> path
        | Some base \<Rightarrow>
            take (PATH_MAX - 1) (base @ (if base \<noteq> [] \<and> last base \<noteq> CHR ''/'' then ''/'' else []) @ path))"

definition yos_openat ::
  "(int \<Rightarrow> int) \<Rightarrow> (fs_ops \<Rightarrow> yos_exec_ctx \<Rightarrow> string \<Rightarrow> u32 \<Rightarrow> u32 \<Rightarrow> int \<times> yos_exec_ctx) \<Rightarrow>
   (int \<Rightarrow> string \<Rightarrow> u32 \<Rightarrow> u32 \<Rightarrow> int \<times> int) \<Rightarrow>
   fs_ops yos_mount_table option \<Rightarrow> yos_exec_ctx \<Rightarrow> int \<Rightarrow> u32 \<Rightarrow> u32 \<Rightarrow> u32 \<Rightarrow> fd_result" where
  "yos_openat h2g vopen host_openat mt ctx dfd filename flags mode =
     (case guest_str ctx filename of
        None \<Rightarrow> (- 1, set_errno h2g ctx EFAULT, [])
      | Some path_in \<Rightarrow>
          (case mounted mt path_in of
             Some (ops, rest) \<Rightarrow> (case vopen ops ctx rest flags mode of (r, c) \<Rightarrow> (r, c, []))
           | None \<Rightarrow>
               (case (if dfd = AT_FDCWD then (AT_FDCWD, ctx) else yos_fd_get h2g ctx dfd) of (host_dfd, c1) \<Rightarrow>
                  if host_dfd < 0 \<and> host_dfd \<noteq> AT_FDCWD then (host_dfd, c1, [])
                  else
                    let path = yos_path_resolve_at c1 host_dfd path_in;
                        hflags = oflags_fb_to_lx flags
                    in (case host_openat host_dfd path hflags (open_mode c1 hflags mode) of (r, e) \<Rightarrow>
                          if r < 0 then (- 1, set_errno h2g c1 e, [])
                          else case yos_fd_alloc_with_path c1 r (Some (openat_record c1 dfd path)) of (wfd, c2, es) \<Rightarrow>
                            (wfd, c2, Opened r # es @ (if wfd < 0 then [Closed r] else []))))))"

section \<open>Closing\<close>

text \<open>\<open>vclose\<close> is the \<^verbatim>\<open>close\<close> operation of a virtual file.\<close>

definition yos_close ::
  "(int \<Rightarrow> int) \<Rightarrow> (int \<Rightarrow> int \<times> int) \<Rightarrow> (fs_ops \<Rightarrow> yos_exec_ctx \<Rightarrow> int \<Rightarrow> int \<times> yos_exec_ctx) \<Rightarrow>
   yos_exec_ctx \<Rightarrow> int \<Rightarrow> fd_result" where
  "yos_close h2g cl vclose ctx fd =
     (if yos_is_virtual_fd fd then
        (case procfs_fds ctx of
           None \<Rightarrow> (- 1, set_errno h2g ctx EBADF, [])
         | Some ft \<Rightarrow>
             (case yos_file_get ft fd of
                None \<Rightarrow> (- 1, set_errno h2g ctx EBADF, [])
              | Some f \<Rightarrow>
                  (case (case file_ops f of None \<Rightarrow> (0, ctx) | Some ops \<Rightarrow> vclose ops ctx fd) of (r, c1) \<Rightarrow>
                     (r, c1\<lparr>procfs_fds := map_option (\<lambda>t. yos_file_free t fd) (procfs_fds c1)\<rparr>, []))))
      else yos_fd_close h2g cl ctx fd)"

end
