(* ===== verification/IoBridges.thy ===== *)
theory IoBridges
  imports FdCalls Alloc
begin

text \<open>
  The remaining bridges of \<^verbatim>\<open>src/src/yos/impl/io/io.c\<close>: calls on one or two paths, calls relative to a
  directory descriptor, calls on a descriptor, scatter/gather vectors, reads and writes, and
  \<^verbatim>\<open>getcwd\<close>.  Each host call is a parameter of the bridge; its result is paired with the errno that goes
  with a negative one.
\<close>

section \<open>Calls on paths\<close>

text \<open>The shape all of them share: check the string, resolve it, call the host, translate the error.\<close>

definition path_call ::
  "(int \<Rightarrow> int) \<Rightarrow> yos_exec_ctx \<Rightarrow> u32 \<Rightarrow> (string \<Rightarrow> int \<times> int) \<Rightarrow> int \<times> yos_exec_ctx" where
  "path_call h2g ctx path host =
     (case guest_str ctx path of
        None \<Rightarrow> yos_errno_neg h2g ctx EFAULT
      | Some raw \<Rightarrow> (case host (yos_path_resolve ctx raw) of (r, e) \<Rightarrow> yos_errno_check h2g ctx r e))"

definition yos_chmod ::
  "(int \<Rightarrow> int) \<Rightarrow> (string \<Rightarrow> u32 \<Rightarrow> int \<times> int) \<Rightarrow> yos_exec_ctx \<Rightarrow> u32 \<Rightarrow> u32 \<Rightarrow> int \<times> yos_exec_ctx" where
  "yos_chmod h2g chmod ctx filename mode = path_call h2g ctx filename (\<lambda>s. chmod s mode)"

definition yos_lchown ::
  "(int \<Rightarrow> int) \<Rightarrow> (string \<Rightarrow> int \<Rightarrow> int \<Rightarrow> int \<times> int) \<Rightarrow> yos_exec_ctx \<Rightarrow> u32 \<Rightarrow> int \<Rightarrow> int \<Rightarrow> int \<times> yos_exec_ctx" where
  "yos_lchown h2g lchown ctx filename user grp = path_call h2g ctx filename (\<lambda>s. lchown s user grp)"

definition yos_chown ::
  "(int \<Rightarrow> int) \<Rightarrow> (string \<Rightarrow> int \<Rightarrow> int \<Rightarrow> int \<times> int) \<Rightarrow> yos_exec_ctx \<Rightarrow> u32 \<Rightarrow> int \<Rightarrow> int \<Rightarrow> int \<times> yos_exec_ctx" where
  "yos_chown h2g chown ctx filename user grp = path_call h2g ctx filename (\<lambda>s. chown s user grp)"

definition yos_mkdir ::
  "(int \<Rightarrow> int) \<Rightarrow> (string \<Rightarrow> u32 \<Rightarrow> int \<times> int) \<Rightarrow> yos_exec_ctx \<Rightarrow> u32 \<Rightarrow> u32 \<Rightarrow> int \<times> yos_exec_ctx" where
  "yos_mkdir h2g mkdir ctx pathname mode =
     path_call h2g ctx pathname (\<lambda>s. mkdir s (mode AND NOT (ucast (umask ctx))))"

definition yos_rmdir ::
  "(int \<Rightarrow> int) \<Rightarrow> (string \<Rightarrow> int \<times> int) \<Rightarrow> yos_exec_ctx \<Rightarrow> u32 \<Rightarrow> int \<times> yos_exec_ctx" where
  "yos_rmdir h2g rmdir ctx pathname = path_call h2g ctx pathname rmdir"

definition yos_truncate ::
  "(int \<Rightarrow> int) \<Rightarrow> (string \<Rightarrow> int \<Rightarrow> int \<times> int) \<Rightarrow> yos_exec_ctx \<Rightarrow> u32 \<Rightarrow> int \<Rightarrow> int \<times> yos_exec_ctx" where
  "yos_truncate h2g trunc ctx path len = path_call h2g ctx path (\<lambda>s. trunc s len)"

text \<open>The text of a symbolic link is stored as it is; only the link's own path is resolved.\<close>

definition yos_symlink ::
  "(int \<Rightarrow> int) \<Rightarrow> (string \<Rightarrow> string \<Rightarrow> int \<times> int) \<Rightarrow> yos_exec_ctx \<Rightarrow> u32 \<Rightarrow> u32 \<Rightarrow> int \<times> yos_exec_ctx" where
  "yos_symlink h2g symlink ctx oldpath newpath =
     (case (guest_str ctx oldpath, guest_str ctx newpath) of
        (Some old, Some n_in) \<Rightarrow>
          (case symlink old (yos_path_resolve ctx n_in) of (r, e) \<Rightarrow> yos_errno_check h2g ctx r e)
      | _ \<Rightarrow> yos_errno_neg h2g ctx EFAULT)"

text \<open>The first path is copied into a \<^verbatim>\<open>PATH_MAX\<close> buffer before the second is resolved; \<^verbatim>\<open>rename\<close> copies both.\<close>

definition yos_link ::
  "(int \<Rightarrow> int) \<Rightarrow> (string \<Rightarrow> string \<Rightarrow> int \<times> int) \<Rightarrow> yos_exec_ctx \<Rightarrow> u32 \<Rightarrow> u32 \<Rightarrow> int \<times> yos_exec_ctx" where
  "yos_link h2g link ctx oldname newname =
     (case (guest_str ctx oldname, guest_str ctx newname) of
        (Some o_in, Some n_in) \<Rightarrow>
          (case link (take (PATH_MAX - 1) (yos_path_resolve ctx o_in)) (yos_path_resolve ctx n_in) of
             (r, e) \<Rightarrow> yos_errno_check h2g ctx r e)
      | _ \<Rightarrow> yos_errno_neg h2g ctx EFAULT)"

definition yos_rename ::
  "(int \<Rightarrow> int) \<Rightarrow> (string \<Rightarrow> string \<Rightarrow> int \<times> int) \<Rightarrow> yos_exec_ctx \<Rightarrow> u32 \<Rightarrow> u32 \<Rightarrow> int \<times> yos_exec_ctx" where
  "yos_rename h2g rename ctx oldname newname =
     (case (guest_str ctx oldname, guest_str ctx newname) of
        (Some o_in, Some n_in) \<Rightarrow>
          (case rename (take (PATH_MAX - 1) (yos_path_resolve ctx o_in)) (take (PATH_MAX - 1) (yos_path_resolve ctx n_in)) of
             (r, e) \<Rightarrow> yos_errno_check h2g ctx r e)
      | _ \<Rightarrow> yos_errno_neg h2g ctx EFAULT)"

text \<open>\<open>head path\<close> is what \<^verbatim>\<open>fread\<close> gets of the first four bytes, \<open>None\<close> when the file does not open.\<close>

definition yos_file_is_loadable :: "(string \<Rightarrow> u8 list option) \<Rightarrow> string \<Rightarrow> bool" where
  "yos_file_is_loadable head path =
     (case head path of
        None \<Rightarrow> False
      | Some bs \<Rightarrow> take 4 bs = [0x00, 0x61, 0x73, 0x6d] \<or> take 2 bs = [0x23, 0x21])"

abbreviation X_OK :: u32 where "X_OK \<equiv> 1"

definition yos_access ::
  "(int \<Rightarrow> int) \<Rightarrow> (string \<Rightarrow> u8 list option) \<Rightarrow> (string \<Rightarrow> u32 \<Rightarrow> int \<times> int) \<Rightarrow> yos_exec_ctx \<Rightarrow> u32 \<Rightarrow> u32 \<Rightarrow>
   int \<times> yos_exec_ctx" where
  "yos_access h2g head access ctx filename mode =
     (case guest_str ctx filename of
        None \<Rightarrow> yos_errno_neg h2g ctx EFAULT
      | Some raw \<Rightarrow>
          let s = yos_path_resolve ctx raw in
          (case access s mode of (rc, saved) \<Rightarrow>
             if rc = 0 then (0, ctx)
             else if mode AND X_OK \<noteq> 0 \<and> yos_file_is_loadable head s \<and>
                  (mode AND NOT X_OK = 0 \<or> fst (access s (mode AND NOT X_OK)) = 0)
             then (0, ctx)
             else yos_errno_neg h2g ctx saved))"

section \<open>Calls relative to a directory descriptor\<close>

definition at_call ::
  "(int \<Rightarrow> int) \<Rightarrow> yos_exec_ctx \<Rightarrow> int \<Rightarrow> u32 \<Rightarrow> (int \<Rightarrow> string \<Rightarrow> int \<times> int) \<Rightarrow> int \<times> yos_exec_ctx" where
  "at_call h2g ctx dfd path host =
     (case guest_str ctx path of
        None \<Rightarrow> yos_errno_neg h2g ctx EFAULT
      | Some s_in \<Rightarrow>
          (case yos_xlate_dfd h2g ctx dfd of (host_dfd, c1) \<Rightarrow>
             (case host host_dfd (yos_path_resolve_at c1 host_dfd s_in) of (r, e) \<Rightarrow> yos_errno_check h2g c1 r e)))"

definition yos_mkdirat ::
  "(int \<Rightarrow> int) \<Rightarrow> (int \<Rightarrow> string \<Rightarrow> u32 \<Rightarrow> int \<times> int) \<Rightarrow> yos_exec_ctx \<Rightarrow> int \<Rightarrow> u32 \<Rightarrow> u32 \<Rightarrow> int \<times> yos_exec_ctx" where
  "yos_mkdirat h2g mkdirat ctx dfd pathname mode =
     at_call h2g ctx dfd pathname (\<lambda>d s. mkdirat d s (mode AND NOT (ucast (umask ctx))))"

definition yos_vfs_mknodat ::
  "(int \<Rightarrow> int) \<Rightarrow> (int \<Rightarrow> string \<Rightarrow> u32 \<Rightarrow> u32 \<Rightarrow> int \<times> int) \<Rightarrow> yos_exec_ctx \<Rightarrow> int \<Rightarrow> u32 \<Rightarrow> u32 \<Rightarrow> u32 \<Rightarrow> int \<times> yos_exec_ctx" where
  "yos_vfs_mknodat h2g mknodat ctx dfd filename mode dev = at_call h2g ctx dfd filename (\<lambda>d s. mknodat d s mode dev)"

definition yos_fchownat ::
  "(int \<Rightarrow> int) \<Rightarrow> (int \<Rightarrow> string \<Rightarrow> int \<Rightarrow> int \<Rightarrow> u32 \<Rightarrow> int \<times> int) \<Rightarrow> yos_exec_ctx \<Rightarrow> int \<Rightarrow> u32 \<Rightarrow> int \<Rightarrow> int \<Rightarrow> u32 \<Rightarrow>
   int \<times> yos_exec_ctx" where
  "yos_fchownat h2g fchownat ctx dfd filename user grp flag =
     at_call h2g ctx dfd filename (\<lambda>d s. fchownat d s user grp (yos_at_flags_fb_to_lx flag))"

definition yos_unlinkat ::
  "(int \<Rightarrow> int) \<Rightarrow> (int \<Rightarrow> string \<Rightarrow> u32 \<Rightarrow> int \<times> int) \<Rightarrow> yos_exec_ctx \<Rightarrow> int \<Rightarrow> u32 \<Rightarrow> u32 \<Rightarrow> int \<times> yos_exec_ctx" where
  "yos_unlinkat h2g unlinkat ctx dfd pathname flag =
     at_call h2g ctx dfd pathname (\<lambda>d s. unlinkat d s (yos_at_flags_fb_to_lx flag))"

definition yos_fchmodat ::
  "(int \<Rightarrow> int) \<Rightarrow> (int \<Rightarrow> string \<Rightarrow> u32 \<Rightarrow> u32 \<Rightarrow> int \<times> int) \<Rightarrow> yos_exec_ctx \<Rightarrow> int \<Rightarrow> u32 \<Rightarrow> u32 \<Rightarrow> int \<times> yos_exec_ctx" where
  "yos_fchmodat h2g fchmodat ctx dfd filename mode = at_call h2g ctx dfd filename (\<lambda>d s. fchmodat d s mode 0)"

definition yos_faccessat ::
  "(int \<Rightarrow> int) \<Rightarrow> (int \<Rightarrow> string \<Rightarrow> u32 \<Rightarrow> u32 \<Rightarrow> int \<times> int) \<Rightarrow> yos_exec_ctx \<Rightarrow> int \<Rightarrow> u32 \<Rightarrow> u32 \<Rightarrow> int \<times> yos_exec_ctx" where
  "yos_faccessat h2g faccessat ctx dfd filename mode = at_call h2g ctx dfd filename (\<lambda>d s. faccessat d s mode 0)"

definition at_call2 ::
  "(int \<Rightarrow> int) \<Rightarrow> yos_exec_ctx \<Rightarrow> int \<Rightarrow> u32 \<Rightarrow> int \<Rightarrow> u32 \<Rightarrow> (int \<Rightarrow> string \<Rightarrow> int \<Rightarrow> string \<Rightarrow> int \<times> int) \<Rightarrow>
   int \<times> yos_exec_ctx" where
  "at_call2 h2g ctx olddfd oldname newdfd newname host =
     (case (guest_str ctx oldname, guest_str ctx newname) of
        (Some o_in, Some n_in) \<Rightarrow>
          (case yos_xlate_dfd h2g ctx olddfd of (hod, c1) \<Rightarrow>
             (case yos_xlate_dfd h2g c1 newdfd of (hnd, c2) \<Rightarrow>
                (case host hod (take (PATH_MAX - 1) (yos_path_resolve_at c2 hod o_in)) hnd (yos_path_resolve_at c2 hnd n_in) of
                   (r, e) \<Rightarrow> yos_errno_check h2g c2 r e)))
      | _ \<Rightarrow> yos_errno_neg h2g ctx EFAULT)"

definition yos_renameat ::
  "(int \<Rightarrow> int) \<Rightarrow> (int \<Rightarrow> string \<Rightarrow> int \<Rightarrow> string \<Rightarrow> int \<times> int) \<Rightarrow> yos_exec_ctx \<Rightarrow> int \<Rightarrow> u32 \<Rightarrow> int \<Rightarrow> u32 \<Rightarrow>
   int \<times> yos_exec_ctx" where
  "yos_renameat h2g renameat ctx olddfd oldname newdfd newname =
     at_call2 h2g ctx olddfd oldname newdfd newname renameat"

definition yos_linkat ::
  "(int \<Rightarrow> int) \<Rightarrow> (int \<Rightarrow> string \<Rightarrow> int \<Rightarrow> string \<Rightarrow> u32 \<Rightarrow> int \<times> int) \<Rightarrow> yos_exec_ctx \<Rightarrow> int \<Rightarrow> u32 \<Rightarrow> int \<Rightarrow> u32 \<Rightarrow> u32 \<Rightarrow>
   int \<times> yos_exec_ctx" where
  "yos_linkat h2g linkat ctx olddfd oldname newdfd newname flags =
     at_call2 h2g ctx olddfd oldname newdfd newname (\<lambda>a p b q. linkat a p b q (yos_at_flags_fb_to_lx flags))"

definition yos_symlinkat ::
  "(int \<Rightarrow> int) \<Rightarrow> (string \<Rightarrow> int \<Rightarrow> string \<Rightarrow> int \<times> int) \<Rightarrow> yos_exec_ctx \<Rightarrow> u32 \<Rightarrow> int \<Rightarrow> u32 \<Rightarrow> int \<times> yos_exec_ctx" where
  "yos_symlinkat h2g symlinkat ctx oldname newdfd newname =
     (case (guest_str ctx oldname, guest_str ctx newname) of
        (Some old, Some n_in) \<Rightarrow>
          (case yos_xlate_dfd h2g ctx newdfd of (hnd, c1) \<Rightarrow>
             (case symlinkat old hnd (yos_path_resolve_at c1 hnd n_in) of (r, e) \<Rightarrow> yos_errno_check h2g c1 r e))
      | _ \<Rightarrow> yos_errno_neg h2g ctx EFAULT)"

section \<open>Calls on a descriptor\<close>

definition fd_call :: "(int \<Rightarrow> int) \<Rightarrow> yos_exec_ctx \<Rightarrow> int \<Rightarrow> (int \<Rightarrow> int \<times> int) \<Rightarrow> int \<times> yos_exec_ctx" where
  "fd_call h2g ctx fd host =
     (case yos_fd_translate h2g ctx fd of (hfd, c1) \<Rightarrow> (case host hfd of (r, e) \<Rightarrow> yos_errno_check h2g c1 r e))"

definition yos_lseek ::
  "(int \<Rightarrow> int) \<Rightarrow> (int \<Rightarrow> int \<Rightarrow> int \<Rightarrow> int \<times> int) \<Rightarrow> yos_exec_ctx \<Rightarrow> int \<Rightarrow> int \<Rightarrow> int \<Rightarrow> int \<times> yos_exec_ctx" where
  "yos_lseek h2g lseek ctx fd offset whence =
     fd_call h2g ctx fd (\<lambda>h. case lseek h offset whence of (r, e) \<Rightarrow> (sint (word_of_int r :: u32), e))"

definition yos_ftruncate ::
  "(int \<Rightarrow> int) \<Rightarrow> (int \<Rightarrow> int \<Rightarrow> int \<times> int) \<Rightarrow> yos_exec_ctx \<Rightarrow> int \<Rightarrow> int \<Rightarrow> int \<times> yos_exec_ctx" where
  "yos_ftruncate h2g ftruncate ctx fd len = fd_call h2g ctx fd (\<lambda>h. ftruncate h len)"

definition yos_fchmod ::
  "(int \<Rightarrow> int) \<Rightarrow> (int \<Rightarrow> u32 \<Rightarrow> int \<times> int) \<Rightarrow> yos_exec_ctx \<Rightarrow> int \<Rightarrow> u32 \<Rightarrow> int \<times> yos_exec_ctx" where
  "yos_fchmod h2g fchmod ctx fd mode = fd_call h2g ctx fd (\<lambda>h. fchmod h mode)"

definition yos_fchown ::
  "(int \<Rightarrow> int) \<Rightarrow> (int \<Rightarrow> int \<Rightarrow> int \<Rightarrow> int \<times> int) \<Rightarrow> yos_exec_ctx \<Rightarrow> int \<Rightarrow> int \<Rightarrow> int \<Rightarrow> int \<times> yos_exec_ctx" where
  "yos_fchown h2g fchown ctx fd user grp = fd_call h2g ctx fd (\<lambda>h. fchown h user grp)"

text \<open>\<open>pread h n pos\<close> gives the bytes read or an errno; \<open>pwrite h bytes pos\<close> a result and an errno.\<close>

definition mem_bytes :: "mem \<Rightarrow> nat \<Rightarrow> nat \<Rightarrow> u8 list" where
  "mem_bytes m a n = map (\<lambda>i. m (a + i)) [0..<n]"

definition yos_vfs_pread64 ::
  "(int \<Rightarrow> int) \<Rightarrow> (int \<Rightarrow> nat \<Rightarrow> u32 \<Rightarrow> int + u8 list) \<Rightarrow> yos_exec_ctx \<Rightarrow> int \<Rightarrow> u32 \<Rightarrow> u32 \<Rightarrow> u32 \<Rightarrow> int \<times> yos_exec_ctx" where
  "yos_vfs_pread64 h2g pread ctx fd buf cnt pos =
     (case wptr_range ctx buf (unat cnt) of
        None \<Rightarrow> yos_errno_neg h2g ctx EFAULT
      | Some p \<Rightarrow>
          (case yos_fd_translate h2g ctx fd of (hfd, c1) \<Rightarrow>
             (case pread hfd (unat cnt) pos of
                Inl e \<Rightarrow> yos_errno_neg h2g c1 e
              | Inr bs \<Rightarrow> (int (length bs), c1\<lparr>memory := mem_write (memory c1) p bs\<rparr>))))"

definition yos_vfs_pwrite64 ::
  "(int \<Rightarrow> int) \<Rightarrow> (int \<Rightarrow> u8 list \<Rightarrow> u32 \<Rightarrow> int \<times> int) \<Rightarrow> yos_exec_ctx \<Rightarrow> int \<Rightarrow> u32 \<Rightarrow> u32 \<Rightarrow> u32 \<Rightarrow> int \<times> yos_exec_ctx" where
  "yos_vfs_pwrite64 h2g pwrite ctx fd buf cnt pos =
     (case wptr_range ctx buf (unat cnt) of
        None \<Rightarrow> yos_errno_neg h2g ctx EFAULT
      | Some p \<Rightarrow>
          (case yos_fd_translate h2g ctx fd of (hfd, c1) \<Rightarrow>
             (case pwrite hfd (mem_bytes (memory c1) p (unat cnt)) pos of (r, e) \<Rightarrow> yos_errno_check h2g c1 r e)))"

text \<open>A 64-bit seek; the eight result bytes are written through a pointer whose first byte is checked.\<close>

definition yos_vfs_llseek ::
  "(int \<Rightarrow> int) \<Rightarrow> (int \<Rightarrow> u64 \<Rightarrow> int \<Rightarrow> int \<times> int) \<Rightarrow> yos_exec_ctx \<Rightarrow> int \<Rightarrow> u32 \<Rightarrow> u32 \<Rightarrow> u32 \<Rightarrow> int \<Rightarrow> int \<times> yos_exec_ctx" where
  "yos_vfs_llseek h2g lseek64 ctx fd offset_high offset_low result_ptr whence =
     (case wptr ctx result_ptr of
        None \<Rightarrow> yos_errno_neg h2g ctx EFAULT
      | Some p \<Rightarrow>
          (case yos_fd_translate h2g ctx fd of (hfd, c1) \<Rightarrow>
             (case lseek64 hfd (push_bit 32 (ucast offset_high) OR ucast offset_low) whence of (r, e) \<Rightarrow>
                if r < 0 then yos_errno_neg h2g c1 e
                else (0, c1\<lparr>memory := store32 (store32 (memory c1) p (word_of_int r)) (p + 4) (word_of_int (r div 2 ^ 32))\<rparr>))))"

section \<open>Scatter and gather\<close>

abbreviation YOS_IOV_MAX :: int where "YOS_IOV_MAX \<equiv> 1024"

text \<open>A host vector entry: the base, \<open>None\<close> for a null pointer, and the length.\<close>

type_synonym host_iov = "nat option \<times> u32"

fun iov_loop :: "yos_exec_ctx \<Rightarrow> nat \<Rightarrow> nat \<Rightarrow> host_iov list option" where
  "iov_loop ctx p 0 = Some []"
| "iov_loop ctx p (Suc n) =
     (let base = load32 (memory ctx) p; len = load32 (memory ctx) (p + 4); q = wptr_range ctx base (unat len) in
      if q = None \<and> 0 < len then None
      else map_option (\<lambda>t. (q, len) # t) (iov_loop ctx (p + 8) n))"

definition yos_iovec_w32_to_host ::
  "(int \<Rightarrow> int) \<Rightarrow> yos_exec_ctx \<Rightarrow> u32 \<Rightarrow> int \<Rightarrow> int \<times> yos_exec_ctx \<times> host_iov list" where
  "yos_iovec_w32_to_host h2g ctx wasm_vec vlen =
     (if vlen = 0 then (0, ctx, [])
      else if vlen < 0 \<or> YOS_IOV_MAX < vlen then (- 1, set_errno h2g ctx EINVAL, [])
      else case wptr_range ctx wasm_vec (nat vlen * 8) of
          None \<Rightarrow> (- 1, set_errno h2g ctx EFAULT, [])
        | Some p \<Rightarrow>
            (case iov_loop ctx p (nat vlen) of
               None \<Rightarrow> (- 1, set_errno h2g ctx EFAULT, [])
             | Some iov \<Rightarrow> (0, ctx, iov)))"

text \<open>What the host stores when it scatters bytes over a vector, and gathers from it.\<close>

fun scatter :: "mem \<Rightarrow> host_iov list \<Rightarrow> u8 list \<Rightarrow> mem" where
  "scatter m [] bs = m"
| "scatter m ((Some p, len) # t) bs = scatter (mem_write m p (take (unat len) bs)) t (drop (unat len) bs)"
| "scatter m ((None, len) # t) bs = scatter m t bs"

fun gather :: "mem \<Rightarrow> host_iov list \<Rightarrow> u8 list" where
  "gather m [] = []"
| "gather m ((Some p, len) # t) = mem_bytes m p (unat len) @ gather m t"
| "gather m ((None, len) # t) = gather m t"

definition iov_total :: "host_iov list \<Rightarrow> nat" where
  "iov_total iov = sum_list (map (\<lambda>(q, len). unat len) iov)"

text \<open>\<open>readv h n\<close> gives at most \<open>n\<close> bytes or an errno; \<open>writev h bytes\<close> a result and an errno.\<close>

definition yos_readv ::
  "(int \<Rightarrow> int) \<Rightarrow> (int \<Rightarrow> nat \<Rightarrow> int + u8 list) \<Rightarrow> yos_exec_ctx \<Rightarrow> int \<Rightarrow> u32 \<Rightarrow> int \<Rightarrow> int \<times> yos_exec_ctx" where
  "yos_readv h2g readv ctx fd vec vlen =
     (if vlen < 0 \<or> YOS_IOV_MAX < vlen then yos_errno_neg h2g ctx EINVAL
      else case yos_iovec_w32_to_host h2g ctx vec vlen of (r, c1, iov) \<Rightarrow>
        if r \<noteq> 0 then (r, c1)
        else case yos_fd_translate h2g c1 fd of (hfd, c2) \<Rightarrow>
          (case readv hfd (iov_total iov) of
             Inl e \<Rightarrow> yos_errno_neg h2g c2 e
           | Inr bs \<Rightarrow> (int (length bs), c2\<lparr>memory := scatter (memory c2) iov bs\<rparr>)))"

definition yos_writev ::
  "(int \<Rightarrow> int) \<Rightarrow> (int \<Rightarrow> u8 list \<Rightarrow> int \<times> int) \<Rightarrow> yos_exec_ctx \<Rightarrow> int \<Rightarrow> u32 \<Rightarrow> int \<Rightarrow> int \<times> yos_exec_ctx" where
  "yos_writev h2g writev ctx fd vec vlen =
     (if vlen < 0 \<or> YOS_IOV_MAX < vlen then yos_errno_neg h2g ctx EINVAL
      else case yos_iovec_w32_to_host h2g ctx vec vlen of (r, c1, iov) \<Rightarrow>
        if r \<noteq> 0 then (r, c1)
        else case yos_fd_translate h2g c1 fd of (hfd, c2) \<Rightarrow>
          (case writev hfd (gather (memory c2) iov) of (n, e) \<Rightarrow> yos_errno_check h2g c2 n e))"

definition yos_preadv ::
  "(int \<Rightarrow> int) \<Rightarrow> (int \<Rightarrow> nat \<Rightarrow> u64 \<Rightarrow> int + u8 list) \<Rightarrow> yos_exec_ctx \<Rightarrow> int \<Rightarrow> u32 \<Rightarrow> int \<Rightarrow> u32 \<Rightarrow> u32 \<Rightarrow> int \<times> yos_exec_ctx" where
  "yos_preadv h2g preadv ctx fd vec vlen pos_l pos_h =
     (case yos_fd_get h2g ctx fd of (hfd, c0) \<Rightarrow>
        if hfd < 0 then (hfd, c0)
        else if vlen < 0 \<or> YOS_IOV_MAX < vlen then yos_errno_neg h2g c0 EINVAL
        else case yos_iovec_w32_to_host h2g c0 vec vlen of (r, c1, iov) \<Rightarrow>
          if r \<noteq> 0 then (r, c1)
          else case preadv hfd (iov_total iov) (push_bit 32 (ucast pos_h) OR ucast pos_l) of
              Inl e \<Rightarrow> yos_errno_neg h2g c1 e
            | Inr bs \<Rightarrow> (int (length bs), c1\<lparr>memory := scatter (memory c1) iov bs\<rparr>))"

definition yos_pwritev ::
  "(int \<Rightarrow> int) \<Rightarrow> (int \<Rightarrow> u8 list \<Rightarrow> u64 \<Rightarrow> int \<times> int) \<Rightarrow> yos_exec_ctx \<Rightarrow> int \<Rightarrow> u32 \<Rightarrow> int \<Rightarrow> u32 \<Rightarrow> u32 \<Rightarrow> int \<times> yos_exec_ctx" where
  "yos_pwritev h2g pwritev ctx fd vec vlen pos_l pos_h =
     (case yos_fd_get h2g ctx fd of (hfd, c0) \<Rightarrow>
        if hfd < 0 then (hfd, c0)
        else if vlen < 0 \<or> YOS_IOV_MAX < vlen then yos_errno_neg h2g c0 EINVAL
        else case yos_iovec_w32_to_host h2g c0 vec vlen of (r, c1, iov) \<Rightarrow>
          if r \<noteq> 0 then (r, c1)
          else case pwritev hfd (gather (memory c1) iov) (push_bit 32 (ucast pos_h) OR ucast pos_l) of
              (n, e) \<Rightarrow> yos_errno_check h2g c1 n e)"

section \<open>Reading and writing\<close>

text \<open>
  The retry loop of \<^verbatim>\<open>read\<close>: \<open>rd k\<close> is the \<open>k\<close>-th attempt, an errno or the bytes; \<open>pump\<close> delivers
  pending signals to the guest.  \<open>None\<close> is a read interrupted for ever.
\<close>

partial_function (option) read_loop ::
  "(nat \<Rightarrow> int + u8 list) \<Rightarrow> (yos_exec_ctx \<Rightarrow> yos_exec_ctx) \<Rightarrow> nat \<Rightarrow> yos_exec_ctx \<Rightarrow>
   ((int + u8 list) \<times> yos_exec_ctx) option" where
  "read_loop rd pump k ctx =
     (if rd k = Inl EINTR then read_loop rd pump (Suc k) (pump ctx) else Some (rd k, ctx))"

abbreviation EIO :: "'a::numeral" where "EIO \<equiv> 5"

text \<open>
  \<^verbatim>\<open>read\<close>: \<open>vread\<close> is the operation of a virtual file; \<open>pkt h n\<close> the read of a fake terminal in packet
  mode, \<open>None\<close> when \<open>h\<close> is not one; \<open>rd h n k\<close> the \<open>k\<close>-th host read.
\<close>

definition yos_read ::
  "(int \<Rightarrow> int) \<Rightarrow> (fs_ops \<Rightarrow> yos_exec_ctx \<Rightarrow> int \<Rightarrow> nat \<Rightarrow> nat \<Rightarrow> int \<times> yos_exec_ctx) \<Rightarrow>
   (yos_exec_ctx \<Rightarrow> yos_exec_ctx) \<Rightarrow> (int \<Rightarrow> nat \<Rightarrow> (int + u8 list) option) \<Rightarrow> (int \<Rightarrow> nat \<Rightarrow> nat \<Rightarrow> int + u8 list) \<Rightarrow>
   (int \<Rightarrow> bool) \<Rightarrow> yos_exec_ctx \<Rightarrow> int \<Rightarrow> u32 \<Rightarrow> u32 \<Rightarrow> (int \<times> yos_exec_ctx) option" where
  "yos_read h2g vread pump pkt rd isatty ctx fd buf cnt =
     (case wptr_range ctx buf (unat cnt) of
        None \<Rightarrow> Some (yos_errno_neg h2g ctx EFAULT)
      | Some p \<Rightarrow>
          if yos_is_virtual_fd fd then
            Some (case procfs_fds ctx of
                None \<Rightarrow> yos_errno_neg h2g ctx EBADF
              | Some ft \<Rightarrow>
                  (case yos_file_get ft fd of
                     None \<Rightarrow> yos_errno_neg h2g ctx EBADF
                   | Some f \<Rightarrow>
                       (case file_ops f of
                          None \<Rightarrow> yos_errno_neg h2g ctx EBADF
                        | Some ops \<Rightarrow> vread ops ctx fd p (unat cnt))))
          else
            (case yos_fd_get h2g ctx fd of (hfd, c1) \<Rightarrow>
               if hfd < 0 then Some (hfd, c1)
               else
                 let c2 = pump c1 in
                 map_option (\<lambda>(res, c3).
                   case res of
                     Inr bs \<Rightarrow> (int (length bs), c3\<lparr>memory := mem_write (memory c3) p bs\<rparr>)
                   | Inl e \<Rightarrow> yos_errno_neg h2g c3 e)
                 (case pkt hfd (unat cnt) of
                    Some res \<Rightarrow> Some (res, c2)
                  | None \<Rightarrow>
                      map_option (\<lambda>(res, c3). (if res = Inl EIO \<and> isatty hfd then Inr [] else res, c3))
                        (read_loop (rd hfd (unat cnt)) pump 0 c2))))"

definition yos_compat_drop_fork_tty_garbage :: "bool \<Rightarrow> (int \<Rightarrow> bool) \<Rightarrow> int \<Rightarrow> u8 list \<Rightarrow> bool" where
  "yos_compat_drop_fork_tty_garbage no_drop isatty hfd bytes =
     (if bytes = [] \<or> 16 < length bytes \<or> hfd < 0 then False
      else if no_drop then False
      else if \<not> isatty hfd then False
      else list_all (\<lambda>b. b = 0xff) bytes)"

definition yos_write ::
  "(int \<Rightarrow> int) \<Rightarrow> bool \<Rightarrow> (int \<Rightarrow> bool) \<Rightarrow> (int \<Rightarrow> u8 list \<Rightarrow> int \<times> int) \<Rightarrow> yos_exec_ctx \<Rightarrow> int \<Rightarrow> u32 \<Rightarrow> u32 \<Rightarrow>
   int \<times> yos_exec_ctx" where
  "yos_write h2g no_drop isatty wr ctx fd buf cnt =
     (case wptr_range ctx buf (unat cnt) of
        None \<Rightarrow> yos_errno_neg h2g ctx EFAULT
      | Some p \<Rightarrow>
          (case yos_fd_get h2g ctx fd of (hfd, c1) \<Rightarrow>
             if hfd < 0 then (hfd, c1)
             else
               let c2 = (if fd = 2 \<and> 0 < cnt then c1\<lparr>stderr_written_since_exec := True\<rparr> else c1);
                   bytes = mem_bytes (memory c2) p (unat cnt)
               in if yos_compat_drop_fork_tty_garbage no_drop isatty hfd bytes then (sint cnt, c2)
                  else (case wr hfd bytes of (r, e) \<Rightarrow> if r < 0 then yos_errno_neg h2g c2 e else (r, c2))))"

section \<open>The working directory\<close>

text \<open>\<open>host_cwd n\<close> is what the host's \<^verbatim>\<open>getcwd\<close> stores in a buffer of \<open>n\<close> bytes, or an errno.\<close>

definition yos_getcwd ::
  "(int \<Rightarrow> int) \<Rightarrow> (nat \<Rightarrow> int + string) \<Rightarrow> yos_exec_ctx \<Rightarrow> u32 \<Rightarrow> u32 \<Rightarrow> u32 \<times> yos_exec_ctx" where
  "yos_getcwd h2g host_cwd ctx buf sz =
     (if buf = 0 then
        (case (if cwd ctx \<noteq> [] \<and> hd (cwd ctx) = CHR ''/'' then Inr (cwd ctx) else host_cwd 4096) of
           Inl e \<Rightarrow> (- 1, set_errno h2g ctx e)
         | Inr src \<Rightarrow>
             (case yos_malloc ctx (of_nat (length src + 1)) of (off, c1) \<Rightarrow>
                if off = 0 then (- 1, set_errno h2g c1 ENOMEM)
                else (off, c1\<lparr>memory := mem_write (memory c1) (unat off) (c_bytes src)\<rparr>)))
      else case wptr ctx buf of
          None \<Rightarrow> (- 1, set_errno h2g ctx EFAULT)
        | Some b \<Rightarrow>
            if cwd ctx \<noteq> [] \<and> hd (cwd ctx) = CHR ''/'' then
              (if unat sz < length (cwd ctx) + 1 then (- 1, set_errno h2g ctx ERANGE)
               else (buf, ctx\<lparr>memory := mem_write (memory ctx) b (c_bytes (cwd ctx))\<rparr>))
            else
              (case host_cwd (unat sz) of
                 Inl e \<Rightarrow> (- 1, set_errno h2g ctx e)
               | Inr s \<Rightarrow> (buf, ctx\<lparr>memory := mem_write (memory ctx) b (c_bytes s)\<rparr>)))"

end
