(* ===== verification/FdSafety.thy ===== *)
theory FdSafety
  imports FdCalls
begin

text \<open>
  Ownership of host descriptors.  Every operation on the descriptor table keeps the invariant
  \<^const>\<open>fd_inv\<close>: it closes only descriptors that are open and belong to the table or were just opened
  for it, each once, and leaks none.  The one exception in the code, \<^verbatim>\<open>openat\<close> on a full table, closes its
  descriptor twice, and the histories count it.
\<close>

section \<open>Slots\<close>

definition fd_wf :: "yos_exec_ctx \<Rightarrow> bool" where
  "fd_wf ctx \<longleftrightarrow> length (fd_map ctx) = YOS_FD_MAX \<and> length (fd_paths ctx) = YOS_FD_MAX"

definition fd_slot_used :: "yos_exec_ctx \<Rightarrow> nat \<Rightarrow> bool" where
  "fd_slot_used ctx i \<longleftrightarrow> i < YOS_FD_MAX \<and> fd_map ctx ! i \<noteq> - 1"

definition fd_slot_alloc :: "nat \<Rightarrow> yos_exec_ctx \<Rightarrow> (nat \<times> yos_exec_ctx) option" where
  "fd_slot_alloc h ctx = (case yos_fd_alloc ctx (int h) of (r, ctx', _) \<Rightarrow> if r < 0 then None else Some (nat r, ctx'))"

definition fd_slot_free :: "yos_exec_ctx \<Rightarrow> nat \<Rightarrow> yos_exec_ctx" where
  "fd_slot_free ctx i = set_fd ctx i (- 1) None"

lemma fd_alloc_cases:
  assumes "fd_wf ctx" and "0 \<le> h"
  obtains (full) "yos_fd_alloc ctx h = (- EMFILE, ctx, [Closed h])" "- 1 \<notin> set (fd_map ctx)"
  | (slot) i where "yos_fd_alloc ctx h = (int i, set_fd ctx i h None, [])" "i < YOS_FD_MAX"
      "fd_map ctx ! i = - 1" "\<And>j. j < i \<Longrightarrow> fd_map ctx ! j \<noteq> - 1"
proof (cases "find_index (\<lambda>h. h = - 1) (fd_map ctx)")
  case None
  show thesis
  proof (rule full)
    show "yos_fd_alloc ctx h = (- EMFILE, ctx, [Closed h])" using None assms by (simp add: yos_fd_alloc_def fd_wf_def)
    show "- 1 \<notin> set (fd_map ctx)" using None by (auto simp: find_index_None)
  qed
next
  case (Some i)
  show thesis
  proof (rule slot)
    show "yos_fd_alloc ctx h = (int i, set_fd ctx i h None, [])" using Some assms by (simp add: yos_fd_alloc_def fd_wf_def)
    show "i < YOS_FD_MAX" "fd_map ctx ! i = - 1" "\<And>j. j < i \<Longrightarrow> fd_map ctx ! j \<noteq> - 1"
      using Some assms by (simp_all add: fd_wf_def find_index_Some)
  qed
qed

interpretation fd_slots: slot_table fd_slot_used YOS_FD_MAX fd_wf "fd_slot_alloc h" fd_slot_free for h
proof
  fix t i t'
  assume wf: "fd_wf t" and a: "fd_slot_alloc h t = Some (i, t')"
  have i: "i < YOS_FD_MAX" "fd_map t ! i = - 1" "\<And>j. j < i \<Longrightarrow> fd_map t ! j \<noteq> - 1"
    and t': "t' = set_fd t i (int h) None"
    by (rule fd_alloc_cases [OF wf, of "int h"]; use a in \<open>force simp: fd_slot_alloc_def\<close>)+
  have len: "length (fd_map t) = YOS_FD_MAX" using wf by (simp add: fd_wf_def)
  show "fd_wf t'" using wf t' by (simp add: fd_wf_def)
  show "i < YOS_FD_MAX \<and> \<not> fd_slot_used t i \<and> fd_slot_used t' i" using i len by (simp add: fd_slot_used_def t')
  show "fd_slot_used t j" if "j < i" for j using i that by (simp add: fd_slot_used_def)
  show "fd_slot_used t' j = fd_slot_used t j" if "j \<noteq> i" for j using that by (simp add: fd_slot_used_def t')
next
  fix t i
  assume wf: "fd_wf t"
  then have len: "length (fd_map t) = YOS_FD_MAX" by (simp add: fd_wf_def)
  show "fd_wf (fd_slot_free t i)" using wf by (simp add: fd_wf_def fd_slot_free_def)
  show "fd_slot_used t i" if "fd_slot_alloc h t = None" "i < YOS_FD_MAX"
  proof (rule fd_alloc_cases [OF wf, of "int h"])
    assume "- 1 \<notin> set (fd_map t)"
    then have "fd_map t ! i \<noteq> - 1" using that(2) len by (metis nth_mem)
    then show ?thesis using that(2) by (simp add: fd_slot_used_def)
  qed (use that in \<open>simp_all add: fd_slot_alloc_def\<close>)
  show "\<not> fd_slot_used (fd_slot_free t i) i" using len by (simp add: fd_slot_used_def fd_slot_free_def)
  show "fd_slot_used (fd_slot_free t i) j = fd_slot_used t j" if "j \<noteq> i" for j
    using that by (simp add: fd_slot_used_def fd_slot_free_def)
qed

text \<open>
  A new guest descriptor is the least one that is free, counting the slots an \<^verbatim>\<open>fclose\<close> left as taken; the
  call fails, with \<^verbatim>\<open>-EMFILE\<close> and the host descriptor closed, exactly when no slot is free.
\<close>

theorem fd_alloc_lowest:
  assumes "fd_wf ctx" and "0 \<le> h" and "yos_fd_alloc ctx h = (r, ctx', es)"
  shows "if {i. i < YOS_FD_MAX \<and> fd_map ctx ! i = - 1} = {} then r = - EMFILE \<and> ctx' = ctx \<and> es = [Closed h]
    else r = int (Min {i. i < YOS_FD_MAX \<and> fd_map ctx ! i = - 1}) \<and> fd_map ctx' ! nat r = h \<and> es = []"
proof -
  have free: "fd_slots.free_slots ctx = {i. i < YOS_FD_MAX \<and> fd_map ctx ! i = - 1}"
    by (auto simp: fd_slots.free_slots_def fd_slot_used_def)
  have len: "length (fd_map ctx) = YOS_FD_MAX" using assms(1) by (simp add: fd_wf_def)
  show ?thesis
  proof (cases rule: fd_alloc_cases [OF assms(1,2)])
    case 1
    have "fd_map ctx ! i \<noteq> - 1" if "i < YOS_FD_MAX" for i using 1(2) that len by (metis nth_mem)
    then have "{i. i < YOS_FD_MAX \<and> fd_map ctx ! i = - 1} = {}" by simp
    then show ?thesis using 1 assms(3) by simp
  next
    case (2 i)
    have "fd_slot_alloc (nat h) ctx = Some (i, ctx')" using 2 assms by (simp add: fd_slot_alloc_def)
    then have "i = Min {i. i < YOS_FD_MAX \<and> fd_map ctx ! i = - 1}"
      using fd_slots.alloc_Min(1) [OF assms(1)] free by simp
    moreover have "{i. i < YOS_FD_MAX \<and> fd_map ctx ! i = - 1} \<noteq> {}" using 2 by blast
    moreover have "r = int i" "ctx' = set_fd ctx i h None" "es = []" using 2(1) assms(3) by simp_all
    ultimately show ?thesis using 2(2) len by simp
  qed
qed

section \<open>Table operations keep the invariant\<close>

lemma fd_inv_wf: "fd_inv F ctx O1 \<Longrightarrow> fd_wf ctx"
  by (simp add: fd_inv_def fd_wf_def)

lemma fd_inv_paths: "fd_inv F (ctx\<lparr>fd_paths := (fd_paths ctx)[i := p]\<rparr>) O1 = fd_inv F ctx O1"
  by (simp add: fd_inv_def owned_def)

lemma fd_inv_memory [simp]: "fd_inv F (ctx\<lparr>memory := m\<rparr>) O1 = fd_inv F ctx O1"
  by (simp add: fd_inv_def owned_def)

lemma fd_inv_errno [simp]: "fd_inv F (set_errno h2g ctx e) O1 = fd_inv F ctx O1"
  by (simp add: set_errno_def)

lemma fd_alloc_inv:
  assumes inv: "fd_inv F ctx O1" and h: "0 \<le> h" "h \<notin> O1" and res: "yos_fd_alloc ctx h = (r, ctx', es)"
  shows "(r < 0 \<and> ctx' = ctx \<and> es = [Closed h]) \<or>
    (0 \<le> r \<and> r < int YOS_FD_MAX \<and> es = [] \<and> fd_inv F ctx' (insert h O1) \<and> fd_map ctx' ! nat r = h)"
proof (cases rule: fd_alloc_cases [OF fd_inv_wf [OF inv] h(1)])
  case 1
  then show ?thesis using res by simp
next
  case (2 i)
  have "fd_inv F (set_fd ctx i h None) (insert h O1)"
    using fd_inv_set [OF inv 2(2), of h None] 2(3) h by simp
  then show ?thesis using 2 res inv by (auto simp: fd_inv_def)
qed

definition fd_ok :: "int set \<Rightarrow> int set \<Rightarrow> fd_result \<Rightarrow> bool" where
  "fd_ok F O1 res = (case res of (r, ctx', es) \<Rightarrow>
     fresh_opens es O1 \<longrightarrow> closes_ok es O1 \<and> fd_inv F ctx' (replay es O1))"

lemma fd_okI: "(fresh_opens es O1 \<Longrightarrow> closes_ok es O1 \<and> fd_inv F ctx' (replay es O1)) \<Longrightarrow> fd_ok F O1 (r, ctx', es)"
  by (simp add: fd_ok_def)

lemma fd_ok_nop: "fd_inv F ctx O1 \<Longrightarrow> fd_ok F O1 (r, ctx, [])"
  by (simp add: fd_ok_def)

lemma insert_minus_fresh: "h \<notin> O1 \<Longrightarrow> insert h O1 - {h} = O1"
  by simp

lemma fd_alloc_opened_ok:
  assumes inv: "fd_inv F ctx O1" and res: "yos_fd_alloc ctx h = (r, ctx', es)"
  shows "fd_ok F O1 (r, ctx', Opened h # es)"
proof (rule fd_okI)
  assume "fresh_opens (Opened h # es) O1"
  then have h: "0 \<le> h" "h \<notin> O1" by simp_all
  from fd_alloc_inv [OF inv h res]
  show "closes_ok (Opened h # es) O1 \<and> fd_inv F ctx' (replay (Opened h # es) O1)"
    using inv h by (auto simp: insert_minus_fresh)
qed

lemma fd_alloc_path_opened_ok:
  assumes inv: "fd_inv F ctx O1" and res: "yos_fd_alloc_with_path ctx h p = (r, ctx', es)"
  shows "fd_ok F O1 (r, ctx', Opened h # es)"
proof -
  obtain r1 c1 e1 where a: "yos_fd_alloc ctx h = (r1, c1, e1)" by (cases "yos_fd_alloc ctx h")
  have "r = r1" "es = e1" "fd_inv F ctx' O2 = fd_inv F c1 O2" for O2
    using res a by (auto simp: yos_fd_alloc_with_path_def fd_inv_paths split: option.splits if_splits)
  then show ?thesis using fd_alloc_opened_ok [OF inv a] by (simp add: fd_ok_def)
qed

lemma fd_assign_opened_ok:
  assumes inv: "fd_inv F ctx O1" and res: "yos_fd_assign h2g ctx newfd h = (r, ctx', es)"
  shows "fd_ok F O1 (r, ctx', Opened h # es)"
proof (rule fd_okI)
  assume "fresh_opens (Opened h # es) O1"
  then have h: "0 \<le> h" "h \<notin> O1" by simp_all
  show "closes_ok (Opened h # es) O1 \<and> fd_inv F ctx' (replay (Opened h # es) O1)"
  proof (cases "newfd < 0 \<or> int YOS_FD_MAX \<le> newfd")
    case True
    then have "es = [Closed h]" "ctx' = set_errno h2g ctx EBADF"
      using res h by (auto simp: yos_fd_assign_def)
    then show ?thesis using h inv by (simp add: insert_minus_fresh)
  next
    case False
    let ?o = "fd_map ctx ! nat newfd"
    have n: "nat newfd < YOS_FD_MAX" using False by auto
    have o: "0 \<le> ?o \<longrightarrow> ?o \<in> O1" using slot_owned [OF inv n] inv by (auto simp: fd_inv_def)
    have e: "ctx' = set_fd ctx (nat newfd) h None" "es = (if 0 \<le> ?o then [Closed ?o] else [])"
      using res h False o by (auto simp: yos_fd_assign_def Let_def split: if_splits)
    have "replay (Opened h # es) O1 = (if 0 \<le> ?o then O1 - {?o} else O1) \<union> {h}"
      using e(2) o h by auto
    then show ?thesis using fd_inv_set [OF inv n, of h None] h o e by simp
  qed
qed

lemma fd_close_ok:
  assumes inv: "fd_inv F ctx O1" and res: "yos_fd_close h2g cl ctx wfd = (r, ctx', es)"
  shows "closes_ok es O1 \<and> fd_inv F ctx' (replay es O1) \<and> fresh_opens es O1"
proof (cases "wfd < 0 \<or> int YOS_FD_MAX \<le> wfd \<or> fd_map ctx ! nat wfd < 0")
  case True
  then show ?thesis using inv res by (auto simp: yos_fd_close_def Let_def split: if_splits)
next
  case False
  let ?h = "fd_map ctx ! nat wfd"
  have n: "nat wfd < YOS_FD_MAX" and h: "0 \<le> ?h" using False by auto
  have "?h \<in> O1" using slot_owned [OF inv n h] inv by (auto simp: fd_inv_def)
  moreover have "fd_inv F (set_fd ctx (nat wfd) (- 1) None) (O1 - {?h})"
    using fd_inv_set [OF inv n, of "- 1" None] h by simp
  ultimately show ?thesis
    using res False by (auto simp: yos_fd_close_def Let_def yos_errno_check_def yos_errno_neg_def split: if_splits)
qed

lemma close_slots_ok:
  assumes "fd_inv F ctx O1" and "hi \<le> YOS_FD_MAX" and "close_slots ctx i hi = (ctx', es)"
  shows "closes_ok es O1 \<and> fd_inv F ctx' (replay es O1) \<and> fresh_opens es O1"
  using assms
proof (induction ctx i hi arbitrary: O1 ctx' es rule: close_slots.induct)
  case (1 ctx i hi)
  let ?h = "fd_map ctx ! i"
  show ?case
  proof (cases "i < hi")
    case False
    then show ?thesis using "1.prems" by (simp add: close_slots.simps [of ctx i hi])
  next
    case i: True
    show ?thesis
    proof (cases "?h < 0")
      case True
      then have "close_slots ctx (Suc i) hi = (ctx', es)" using i "1.prems"(3) by (simp add: close_slots.simps [of ctx i hi])
      then show ?thesis using "1.IH"(1) [OF i refl True] "1.prems"(1,2) by blast
    next
      case False
      obtain e2 where e2: "close_slots (set_fd ctx i (- 1) None) (Suc i) hi = (ctx', e2)" "es = Closed ?h # e2"
        using i False "1.prems"(3) by (auto simp: close_slots.simps [of ctx i hi] split: prod.splits)
      have n: "i < YOS_FD_MAX" using i "1.prems"(2) by simp
      have "?h \<in> O1" using slot_owned [OF "1.prems"(1) n] "1.prems"(1) False by (auto simp: fd_inv_def)
      moreover have "fd_inv F (set_fd ctx i (- 1) None) (O1 - {?h})"
        using fd_inv_set [OF "1.prems"(1) n, of "- 1" None] False by simp
      ultimately show ?thesis using "1.IH"(2) [OF i refl False] "1.prems"(2) e2 by fastforce
    qed
  qed
qed

section \<open>Bridges keep the invariant\<close>

lemma fd_get_inv:
  assumes "yos_fd_get h2g ctx fd = (h, c1)"
  shows "fd_inv F c1 O1 = fd_inv F ctx O1" "fd_paths c1 = fd_paths ctx" "fd_map c1 = fd_map ctx"
  using assms by (auto simp: yos_fd_get_def yos_errno_neg_def Let_def split: if_splits)

lemma alloc_pair_ok:
  assumes inv: "fd_inv F ctx O1"
  shows "fd_ok F O1 (alloc_pair h2g cl ctx p a b)"
proof -
  obtain r c1 e1 where a1: "yos_fd_alloc ctx a = (r, c1, e1)" by (cases "yos_fd_alloc ctx a")
  obtain w c2 e2 where a2: "yos_fd_alloc c1 b = (w, c2, e2)" by (cases "yos_fd_alloc c1 b")
  obtain x c3 e3 where a3: "yos_fd_close h2g cl c2 r = (x, c3, e3)" by (cases "yos_fd_close h2g cl c2 r")
  define res where "res = alloc_pair h2g cl ctx p a b"
  define es where "es = snd (snd res)"
  have ok: "closes_ok es O1 \<and> fd_inv F (fst (snd res)) (replay es O1)"
    if ab: "0 \<le> a" "a \<notin> O1" "0 \<le> b" "b \<notin> insert a O1"
  proof (cases "r < 0")
    case True
    then have "c1 = ctx" "e1 = [Closed a]" using fd_alloc_inv [OF inv ab(1,2) a1] by auto
    moreover have "insert b (insert a O1) - {a} - {b} = O1" using ab by auto
    ultimately show ?thesis using True inv a1 ab(4) by (auto simp: es_def res_def alloc_pair_def)
  next
    case False
    have c1: "fd_inv F c1 (insert a O1)" "e1 = []" "fd_map c1 ! nat r = a" "r < int YOS_FD_MAX"
      using fd_alloc_inv [OF inv ab(1,2) a1] False by auto
    show ?thesis
    proof (cases "w < 0")
      case True
      then have c2: "c2 = c1" "e2 = [Closed b]" using fd_alloc_inv [OF c1(1) ab(3,4) a2] by auto
      have eq: "insert b (insert a O1) - {b} = insert a O1" using ab by auto
      have "es = [Opened a, Opened b, Closed b] @ e3" "fst (snd res) = c3"
        using True False a1 a2 a3 c1(2) c2 by (simp_all add: es_def res_def alloc_pair_def)
      then show ?thesis using fd_close_ok [OF c1(1)] a3 c2(1) eq by simp
    next
      case w: False
      have "fd_inv F c2 (insert b (insert a O1))" "e2 = []"
        using fd_alloc_inv [OF c1(1) ab(3,4) a2] w by auto
      then show ?thesis using False w a1 a2 c1(2) by (simp add: es_def res_def alloc_pair_def)
    qed
  qed
  have op: "\<exists>t. es = Opened a # Opened b # t"
    using a1 a2 a3 by (auto simp: es_def res_def alloc_pair_def split: if_splits)
  have "fd_ok F O1 (fst res, fst (snd res), es)" by (rule fd_okI) (use op ok in auto)
  then show ?thesis by (simp add: es_def res_def)
qed

lemma assign_dup_ok:
  assumes inv: "fd_inv F ctx O1"
  shows "fd_ok F O1 (assign_dup h2g ctx oldfd newfd h)"
proof -
  obtain r c2 es where a: "yos_fd_assign h2g ctx newfd h = (r, c2, es)" by (cases "yos_fd_assign h2g ctx newfd h")
  show ?thesis
    using fd_assign_opened_ok [OF inv a] by (simp add: assign_dup_def a fd_ok_def fd_inv_paths)
qed

lemma pipe_ok: "fd_inv F ctx O1 \<Longrightarrow> fd_ok F O1 (yos_pipe h2g cl hp ctx fildes)"
  by (simp add: yos_pipe_def alloc_pair_ok fd_ok_nop split: option.splits sum.splits prod.splits)

lemma socketpair_ok: "fd_inv F ctx O1 \<Longrightarrow> fd_ok F O1 (yos_vfs_socketpair h2g cl hp ctx d t q sv)"
  by (simp add: yos_vfs_socketpair_def alloc_pair_ok fd_ok_nop split: option.splits sum.splits prod.splits)

lemma dup2_ok:
  assumes inv: "fd_inv F ctx O1"
  shows "fd_ok F O1 (yos_dup2 h2g dup ctx oldfd newfd)" "fd_ok F O1 (yos_dup3 h2g dup ctx oldfd newfd flags)"
proof -
  obtain h c1 where g: "yos_fd_get h2g ctx oldfd = (h, c1)" by (cases "yos_fd_get h2g ctx oldfd")
  have inv1: "fd_inv F c1 O1" using fd_get_inv(1) [OF g] inv by simp
  show "fd_ok F O1 (yos_dup2 h2g dup ctx oldfd newfd)" "fd_ok F O1 (yos_dup3 h2g dup ctx oldfd newfd flags)"
    using inv1 assign_dup_ok [OF inv1]
    by (simp_all add: yos_dup2_def yos_dup3_def g fd_ok_nop split: prod.splits)
qed

lemma fcntl_ok:
  assumes inv: "fd_inv F ctx O1"
  shows "fd_ok F O1 (yos_fcntl h2g hf ctx fd cmd arg)"
proof -
  obtain h c1 where g: "yos_fd_get h2g ctx fd = (h, c1)" by (cases "yos_fd_get h2g ctx fd")
  have inv1: "fd_inv F c1 O1" using fd_get_inv(1) [OF g] inv by simp
  have chk: "fd_ok F O1 (x, c2, [])" if "yos_errno_check h2g c1 r e = (x, c2)" for x c2 r e
    using that inv1 by (auto simp: yos_errno_check_def yos_errno_neg_def fd_ok_def split: if_splits)
  show ?thesis
    using inv1 fd_alloc_opened_ok [OF inv1] chk
    by (simp add: yos_fcntl_def g Let_def fd_ok_nop split: prod.splits)
qed

text \<open>A virtual file system's operations do not touch the host descriptors of a process.\<close>

definition keeps_fds ::
  "(fs_ops \<Rightarrow> yos_exec_ctx \<Rightarrow> string \<Rightarrow> u32 \<Rightarrow> u32 \<Rightarrow> int \<times> yos_exec_ctx) \<Rightarrow> bool" where
  "keeps_fds vopen \<longleftrightarrow> (\<forall>ops ctx p f m. fd_map (snd (vopen ops ctx p f m)) = fd_map ctx \<and>
     fd_paths (snd (vopen ops ctx p f m)) = fd_paths ctx)"

lemma vopen_ok:
  assumes "fd_inv F ctx O1" and "keeps_fds vopen" and "vopen ops ctx p f m = (r, c)"
  shows "fd_ok F O1 (r, c, [])"
proof -
  have "fd_map c = fd_map ctx" "fd_paths c = fd_paths ctx" using assms(2,3) by (metis keeps_fds_def snd_conv)+
  then show ?thesis using assms(1) by (simp add: fd_ok_def fd_inv_def owned_def)
qed

lemma open_ok:
  assumes inv: "fd_inv F ctx O1" and vo: "keeps_fds vopen"
  shows "fd_ok F O1 (yos_open h2g vopen fifo pty ho mt ctx path flags mode)"
  using vopen_ok [OF inv vo] fd_alloc_opened_ok [OF inv] fd_alloc_path_opened_ok [OF inv] inv
  by (simp add: yos_open_def Let_def fd_ok_nop split: option.splits prod.splits)

lemma creat_ok: "fd_inv F ctx O1 \<Longrightarrow> fd_ok F O1 (yos_creat h2g hc ctx path mode)"
  using fd_alloc_path_opened_ok [of F ctx O1]
  by (simp add: yos_creat_def Let_def fd_ok_nop split: option.splits prod.splits)

lemma fd_alloc_with_path_neg:
  assumes "fd_wf ctx" and "- 1 \<in> set (fd_map ctx)" and "0 \<le> h"
  shows "0 \<le> fst (yos_fd_alloc_with_path ctx h p)"
proof (cases rule: fd_alloc_cases [OF assms(1,3)])
  case 1
  then show ?thesis using assms(2) by simp
next
  case (2 i)
  then show ?thesis by (simp add: yos_fd_alloc_with_path_def split: option.splits)
qed

lemma openat_ok:
  assumes inv: "fd_inv F ctx O1" and vo: "keeps_fds vopen" and room: "- 1 \<in> set (fd_map ctx)"
  shows "fd_ok F O1 (yos_openat h2g vopen ho mt ctx dfd path flags mode)"
proof -
  obtain h c1 where g: "(if dfd = AT_FDCWD then (AT_FDCWD, ctx) else yos_fd_get h2g ctx dfd) = (h, c1)"
    by (cases "if dfd = AT_FDCWD then (AT_FDCWD, ctx) else yos_fd_get h2g ctx dfd")
  have c1: "fd_map c1 = fd_map ctx" "fd_inv F c1 O1"
    using g fd_get_inv [of h2g ctx dfd h c1] inv by (auto split: if_splits)
  have nn: "0 \<le> w" if "yos_fd_alloc_with_path c1 r q = (w, c2, es)" "0 \<le> r" for w c2 es r q
    using fd_alloc_with_path_neg [OF fd_inv_wf [OF c1(2)], of r q] room c1(1) that by simp
  have al: "fd_ok F O1 (w, c2, Opened r # es @ (if w < 0 then [Closed r] else []))"
    if "yos_fd_alloc_with_path c1 r q = (w, c2, es)" "\<not> r < 0" for w c2 es r q
    using fd_alloc_path_opened_ok [OF c1(2) that(1)] nn [OF that(1)] that(2) by simp
  have host: "fd_ok F O1 (yos_openat h2g vopen ho mt ctx dfd path flags mode)"
    if s: "guest_str ctx path = Some pin" "mounted mt pin = None" for pin
  proof -
    let ?p = "yos_path_resolve_at c1 h pin" and ?f = "oflags_fb_to_lx flags"
    obtain r e where r: "ho h ?p ?f (open_mode c1 ?f mode) = (r, e)" by force
    obtain w c2 es where a: "yos_fd_alloc_with_path c1 r (Some (openat_record c1 dfd ?p)) = (w, c2, es)"
      by (cases "yos_fd_alloc_with_path c1 r (Some (openat_record c1 dfd ?p))")
    have "yos_openat h2g vopen ho mt ctx dfd path flags mode =
        (if h < 0 \<and> h \<noteq> AT_FDCWD then (h, c1, [])
         else if r < 0 then (- 1, set_errno h2g c1 e, [])
         else (w, c2, Opened r # es @ (if w < 0 then [Closed r] else [])))"
      unfolding yos_openat_def s option.case g prod.case Let_def r a ..
    then show ?thesis using al [OF a] c1(2) by (simp add: fd_ok_nop)
  qed
  show ?thesis
  proof (cases "guest_str ctx path")
    case None
    then show ?thesis using inv by (simp add: yos_openat_def fd_ok_nop)
  next
    case (Some pin)
    show ?thesis
    proof (cases "mounted mt pin")
      case None
      then show ?thesis using host Some by simp
    next
      case (Some v)
      then show ?thesis using \<open>guest_str ctx path = Some pin\<close> vopen_ok [OF inv vo]
        by (simp add: yos_openat_def split: prod.splits)
    qed
  qed
qed

text \<open>On a full table a file that the host opened is closed twice, and nothing is left behind.\<close>

lemma fd_alloc_with_path_full:
  assumes "fd_wf ctx" and "- 1 \<notin> set (fd_map ctx)" and "0 \<le> h"
  shows "yos_fd_alloc_with_path ctx h p = (- EMFILE, ctx, [Closed h])"
proof (cases rule: fd_alloc_cases [OF assms(1,3)])
  case 1
  then show ?thesis by (simp add: yos_fd_alloc_with_path_def split: option.split)
next
  case (2 i)
  then have "- 1 \<in> set (fd_map ctx)" using assms(1) by (metis fd_wf_def nth_mem)
  then show ?thesis using assms(2) by simp
qed

lemma openat_full:
  assumes inv: "fd_inv F ctx O1" and vo: "keeps_fds vopen" and full: "- 1 \<notin> set (fd_map ctx)"
    and res: "yos_openat h2g vopen ho mt ctx dfd path flags mode = (r, ctx', es)"
  shows "fd_inv F ctx' O1 \<and> (es = [] \<or> (\<exists>h. 0 \<le> h \<and> es = [Opened h, Closed h, Closed h]))"
proof (cases "guest_str ctx path")
  case None
  then show ?thesis using res inv by (auto simp: yos_openat_def)
next
  case (Some pin)
  show ?thesis
  proof (cases "mounted mt pin")
    case None
    obtain h c1 where g: "(if dfd = AT_FDCWD then (AT_FDCWD, ctx) else yos_fd_get h2g ctx dfd) = (h, c1)"
      by (cases "if dfd = AT_FDCWD then (AT_FDCWD, ctx) else yos_fd_get h2g ctx dfd")
    have c1: "fd_map c1 = fd_map ctx" "fd_inv F c1 O1"
      using g fd_get_inv [of h2g ctx dfd h c1] inv by (auto split: if_splits)
    have al: "0 \<le> x \<Longrightarrow> yos_fd_alloc_with_path c1 x q = (- EMFILE, c1, [Closed x])" for x q
      using fd_alloc_with_path_full [OF fd_inv_wf [OF c1(2)]] full c1(1) by simp
    let ?p = "yos_path_resolve_at c1 h pin" and ?f = "oflags_fb_to_lx flags"
    obtain x e where x: "ho h ?p ?f (open_mode c1 ?f mode) = (x, e)" by force
    have "yos_openat h2g vopen ho mt ctx dfd path flags mode =
        (if h < 0 \<and> h \<noteq> AT_FDCWD then (h, c1, [])
         else if x < 0 then (- 1, set_errno h2g c1 e, [])
         else (- EMFILE, c1, [Opened x, Closed x, Closed x]))"
      unfolding yos_openat_def Some None option.case g prod.case Let_def x by (simp add: al)
    then show ?thesis using res c1(2) by (auto split: if_splits)
  next
    case (Some v)
    then show ?thesis using \<open>guest_str ctx path = Some pin\<close> vopen_ok [OF inv vo] res
      by (fastforce simp: yos_openat_def fd_ok_def split: prod.splits)
  qed
qed

section \<open>Histories\<close>

text \<open>
  One step of a process: a bridge call, or an \<^verbatim>\<open>fclose\<close>, in which the host's \<^verbatim>\<open>fclose\<close> closes the
  descriptor and the slot is then released.  The host keeps its promise on new descriptors.  The number beside the
  log counts the steps in which the host opened a file for \<^verbatim>\<open>openat\<close> and the table had no room for it.
\<close>

inductive fd_step :: "yos_exec_ctx \<times> int set \<Rightarrow> fd_event list \<Rightarrow> nat \<Rightarrow> yos_exec_ctx \<times> int set \<Rightarrow> bool" where
  pipe: "yos_pipe h2g cl hp ctx fildes = (r, ctx', es) \<Longrightarrow> fresh_opens es O1 \<Longrightarrow>
    fd_step (ctx, O1) es 0 (ctx', replay es O1)"
| socketpair: "yos_vfs_socketpair h2g cl hs ctx d t q sv = (r, ctx', es) \<Longrightarrow> fresh_opens es O1 \<Longrightarrow>
    fd_step (ctx, O1) es 0 (ctx', replay es O1)"
| dup2: "yos_dup2 h2g dup ctx oldfd newfd = (r, ctx', es) \<Longrightarrow> fresh_opens es O1 \<Longrightarrow>
    fd_step (ctx, O1) es 0 (ctx', replay es O1)"
| dup3: "yos_dup3 h2g dup ctx oldfd newfd flags = (r, ctx', es) \<Longrightarrow> fresh_opens es O1 \<Longrightarrow>
    fd_step (ctx, O1) es 0 (ctx', replay es O1)"
| fcntl: "yos_fcntl h2g hf ctx fd cmd arg = (r, ctx', es) \<Longrightarrow> fresh_opens es O1 \<Longrightarrow>
    fd_step (ctx, O1) es 0 (ctx', replay es O1)"
| opens: "yos_open h2g vopen fifo pty ho mt ctx path flags mode = (r, ctx', es) \<Longrightarrow> keeps_fds vopen \<Longrightarrow>
    fresh_opens es O1 \<Longrightarrow> fd_step (ctx, O1) es 0 (ctx', replay es O1)"
| openat: "yos_openat h2g vopen hoa mt ctx dfd path flags mode = (r, ctx', es) \<Longrightarrow> keeps_fds vopen \<Longrightarrow>
    fresh_opens es O1 \<Longrightarrow> fd_step (ctx, O1) es (of_bool (es \<noteq> [] \<and> - 1 \<notin> set (fd_map ctx))) (ctx', replay es O1)"
| creat: "yos_creat h2g hc ctx path mode = (r, ctx', es) \<Longrightarrow> fresh_opens es O1 \<Longrightarrow>
    fd_step (ctx, O1) es 0 (ctx', replay es O1)"
| closes: "yos_fd_close h2g cl ctx fd = (r, ctx', es) \<Longrightarrow> fd_step (ctx, O1) es 0 (ctx', replay es O1)"
| closefrom: "yos_closefrom ctx lowfd = (ctx', es) \<Longrightarrow> fd_step (ctx, O1) es 0 (ctx', replay es O1)"
| close_range: "yos_close_range ctx lo hi = (r, ctx', es) \<Longrightarrow> fd_step (ctx, O1) es 0 (ctx', replay es O1)"
| fclose: "0 \<le> wfd \<Longrightarrow> wfd < int YOS_FD_MAX \<Longrightarrow> 0 \<le> fd_map ctx ! nat wfd \<Longrightarrow> es = [Closed (fd_map ctx ! nat wfd)] \<Longrightarrow>
    fd_step (ctx, O1) es 0 (yos_fd_release_slot ctx wfd, replay es O1)"

inductive fd_history :: "yos_exec_ctx \<times> int set \<Rightarrow> fd_event list \<Rightarrow> nat \<Rightarrow> yos_exec_ctx \<times> int set \<Rightarrow> bool" where
  start: "fd_history s [] 0 s"
| more: "fd_history s es m s' \<Longrightarrow> fd_step s' fs k s'' \<Longrightarrow> fd_history s (es @ fs) (m + k) s''"

text \<open>The closes of descriptors that are not open.\<close>

fun bad_closes :: "fd_event list \<Rightarrow> int set \<Rightarrow> nat" where
  "bad_closes [] O1 = 0"
| "bad_closes (Opened h # es) O1 = bad_closes es (insert h O1)"
| "bad_closes (Closed h # es) O1 = of_bool (h \<notin> O1) + bad_closes es (O1 - {h})"

lemma bad_closes_append: "bad_closes (es @ fs) O1 = bad_closes es O1 + bad_closes fs (replay es O1)"
  by (induction es O1 rule: replay.induct) auto

lemma closes_ok_iff: "closes_ok es O1 \<longleftrightarrow> bad_closes es O1 = 0"
  by (induction es O1 rule: replay.induct) auto

lemma fd_step_ok:
  assumes "fd_step s es k s'" and "fd_inv F (fst s) (snd s)"
  shows "bad_closes es (snd s) = k \<and> fd_inv F (fst s') (snd s') \<and> snd s' = replay es (snd s)"
  using assms
proof (cases rule: fd_step.cases)
  case (pipe h2g cl hp ctx fildes r ctx' O1)
  then show ?thesis using pipe_ok [of F ctx O1 h2g cl hp fildes] assms(2) by (simp add: fd_ok_def closes_ok_iff)
next
  case (socketpair h2g cl hs ctx d t q sv r ctx' O1)
  then show ?thesis using socketpair_ok [of F ctx O1 h2g cl hs d t q sv] assms(2) by (simp add: fd_ok_def closes_ok_iff)
next
  case (dup2 h2g dup ctx oldfd newfd r ctx' O1)
  then show ?thesis using dup2_ok(1) [of F ctx O1 h2g dup oldfd newfd] assms(2) by (simp add: fd_ok_def closes_ok_iff)
next
  case (dup3 h2g dup ctx oldfd newfd flags r ctx' O1)
  then show ?thesis using dup2_ok(2) [of F ctx O1 h2g dup oldfd newfd flags] assms(2) by (simp add: fd_ok_def closes_ok_iff)
next
  case (fcntl h2g hf ctx fd cmd arg r ctx' O1)
  then show ?thesis using fcntl_ok [of F ctx O1 h2g hf fd cmd arg] assms(2) by (simp add: fd_ok_def closes_ok_iff)
next
  case (opens h2g vopen fifo pty ho mt ctx path flags mode r ctx' O1)
  then show ?thesis using open_ok [of F ctx O1 vopen h2g fifo pty ho mt path flags mode] assms(2) by (simp add: fd_ok_def closes_ok_iff)
next
  case (openat h2g vopen hoa mt ctx dfd path flags mode r ctx' O1)
  have inv: "fd_inv F ctx O1" using openat(1) assms(2) by simp
  show ?thesis
  proof (cases "- 1 \<in> set (fd_map ctx)")
    case True
    then show ?thesis using openat openat_ok [OF inv, of vopen h2g hoa mt dfd path flags mode] by (simp add: fd_ok_def closes_ok_iff)
  next
    case False
    from openat_full [OF inv openat(5) False openat(4)]
    consider "es = []" "fd_inv F ctx' O1" | h where "es = [Opened h, Closed h, Closed h]" "fd_inv F ctx' O1" by blast
    then show ?thesis
    proof cases
      case 1
      then show ?thesis using openat by simp
    next
      case (2 h)
      then have "h \<notin> O1" using openat(6) by simp
      then show ?thesis using 2 openat False by simp
    qed
  qed
next
  case (creat h2g hc ctx path mode r ctx' O1)
  then show ?thesis using creat_ok [of F ctx O1 h2g hc path mode] assms(2) by (simp add: fd_ok_def closes_ok_iff)
next
  case (closes h2g cl ctx fd r ctx' O1)
  then show ?thesis using fd_close_ok [of F ctx O1 h2g cl fd r ctx' es] assms(2) by (simp add: closes_ok_iff)
next
  case (closefrom ctx lowfd ctx' O1)
  then show ?thesis
    using close_slots_ok [of F ctx O1 YOS_FD_MAX _ ctx' es] assms(2) by (auto simp: yos_closefrom_def closes_ok_iff)
next
  case (close_range ctx lo hi r ctx' O1)
  let ?h = "if of_nat YOS_FD_MAX \<le> hi then of_nat YOS_FD_MAX - 1 else hi"
  have "unat ?h + 1 \<le> YOS_FD_MAX" by (auto simp: word_nat)
  then show ?thesis
    using close_range close_slots_ok [of F ctx O1 "unat ?h + 1" "unat lo" ctx' es] assms(2)
    by (auto simp: yos_close_range_def Let_def closes_ok_iff split: if_splits prod.splits)
next
  case (fclose wfd ctx O1)
  have n: "nat wfd < YOS_FD_MAX" using fclose by auto
  have inv: "fd_inv F ctx O1" using fclose assms(2) by simp
  have "fd_map ctx ! nat wfd \<in> O1" using slot_owned [OF inv n] fclose inv by (auto simp: fd_inv_def)
  moreover have "fd_inv F (yos_fd_release_slot ctx wfd) (O1 - {fd_map ctx ! nat wfd})"
    using fd_inv_set [OF inv n, of "- 2" None] fclose by (simp add: yos_fd_release_slot_def)
  ultimately show ?thesis using fclose by simp
qed

lemma fd_history_ok:
  assumes "fd_history s es k s'" and "fd_inv F (fst s) (snd s)"
  shows "bad_closes es (snd s) = k \<and> fd_inv F (fst s') (snd s') \<and> snd s' = replay es (snd s)"
  using assms
proof (induction rule: fd_history.induct)
  case (start s)
  then show ?case by simp
next
  case (more s es m s' fs k s'')
  then have ih: "bad_closes es (snd s) = m" "fd_inv F (fst s') (snd s')" "snd s' = replay es (snd s)" by blast+
  show ?case using fd_step_ok [OF more.hyps(2) ih(2)] ih unfolding bad_closes_append replay_append by metis
qed


text \<open>A process whose standard descriptors are the host's 10, 11 and 12; the host's own are 0, 1 and 2.\<close>

definition demo_fds :: yos_exec_ctx where
  "demo_fds = yos_fd_table_init (\<lambda>i. i + 10) (ctx_calloc (\<lambda>_. 0) 65536)"

lemma replicate_253: "replicate 253 x = x # x # replicate 251 x"
  using replicate_Suc [of 252 x] replicate_Suc [of 251 x] by simp

lemma demo_fds_map: "fd_map demo_fds = [10, 11, 12, - 1, - 1] @ replicate 251 (- 1)"
  "fd_paths demo_fds = replicate YOS_FD_MAX None" "memory_size demo_fds = 65536"
  by (simp_all add: demo_fds_def yos_fd_table_init_def ctx_calloc_def replicate_253)

lemma demo_fds_free: "find_index (\<lambda>h. h = - 1) (take YOS_FD_MAX (fd_map demo_fds)) = Some 3"
  "find_index (\<lambda>h. h = - 1) (take YOS_FD_MAX ((fd_map demo_fds)[3 := 20])) = Some 4"
  by (simp_all add: demo_fds_map)

lemma demo_fds_inv: "fd_inv {0, 1, 2} demo_fds {0, 1, 2, 10, 11, 12}"
proof -
  have "set (fd_map demo_fds) = {10, 11, 12, - 1}" unfolding demo_fds_map by auto
  then have "owned demo_fds = {10, 11, 12}" unfolding owned_def by auto
  then show ?thesis by (auto simp: fd_inv_def demo_fds_map)
qed


theorem fd_alloc_lowest_witness:
  "yos_fd_alloc demo_fds 20 = (3, set_fd demo_fds 3 20 None, []) \<and>
   int (Min {i. i < YOS_FD_MAX \<and> fd_map demo_fds ! i = - 1}) = 3"
proof -
  have a: "yos_fd_alloc demo_fds 20 = (3, set_fd demo_fds 3 20 None, [])"
    by (simp add: yos_fd_alloc_def demo_fds_free)
  have w: "fd_wf demo_fds" by (simp add: fd_wf_def demo_fds_map)
  have "{i. i < YOS_FD_MAX \<and> fd_map demo_fds ! i = - 1} \<noteq> {}" using demo_fds_map(1) by (auto intro!: exI [of _ 3])
  then show ?thesis using fd_alloc_lowest [OF w _ a] a by simp
qed

section \<open>Where the contract is broken\<close>

text \<open>
  \<^verbatim>\<open>openat\<close> on a full table closes the host descriptor twice: the table closes what it cannot record,
  as its contract says, and \<^verbatim>\<open>openat\<close> closes it again, by when another thread may own the number.
\<close>

theorem openat_double_close:
  assumes "fd_wf ctx" and full: "- 1 \<notin> set (fd_map ctx)" and s: "guest_str ctx filename = Some path"
    and m: "mounted mt path = None" and h: "0 \<le> h" and e: "\<And>d p f md. host_openat d p f md = (h, e)"
    and res: "yos_openat h2g vopen host_openat mt ctx AT_FDCWD filename flags mode = (r, ctx', es)"
  shows "r = - EMFILE \<and> es = [Opened h, Closed h, Closed h] \<and> \<not> closes_ok es O1"
proof -
  have "yos_fd_alloc ctx h = (- EMFILE, ctx, [Closed h])"
  proof (cases rule: fd_alloc_cases [OF assms(1) h])
    case (2 i)
    then have "- 1 \<in> set (fd_map ctx)" using assms(1) nth_mem [of i "fd_map ctx"] by (simp add: fd_wf_def)
    then show ?thesis using full by simp
  qed
  then show ?thesis using res h s m
    by (auto simp: yos_openat_def e Let_def yos_fd_alloc_with_path_def)
qed

definition full_fds :: yos_exec_ctx where
  "full_fds = (str_ctx ''/'' ''f'')\<lparr>fd_map := map int [10..<266]\<rparr>"

theorem openat_double_close_witness:
  "\<exists>r ctx' es. yos_openat (\<lambda>e. e) (\<lambda>_ c _ _ _. (0, c)) (\<lambda>_ _ _ _. (300, 0)) None full_fds AT_FDCWD 1024 0 0 = (r, ctx', es) \<and>
     es = [Opened 300, Closed 300, Closed 300]"
proof -
  obtain r ctx' es where p: "yos_openat (\<lambda>e. e) (\<lambda>_ c _ _ _. (0, c)) (\<lambda>_ _ _ _. (300, 0)) None full_fds AT_FDCWD 1024 0 0 = (r, ctx', es)"
    using prod_cases3 by blast
  have w: "fd_wf full_fds" by (simp add: fd_wf_def full_fds_def str_ctx_def ctx_calloc_def)
  have f: "- 1 \<notin> set (fd_map full_fds)" by (auto simp: full_fds_def)
  have "guest_str full_fds 1024 = guest_str (str_ctx ''/'' ''f'') 1024"
    by (simp add: full_fds_def guest_str_def wstr_check_def)
  then have g: "guest_str full_fds 1024 = Some ''f''" using guest_str_str_ctx [of "''f''"] by simp
  show ?thesis using openat_double_close [OF w f g _ _ _ p] p by (simp add: mounted_def)
qed

text \<open>
  \<^verbatim>\<open>pipe\<close> checks only the first byte of its result array: an array whose second word begins at the end of
  linear memory is accepted, and the descriptor is written to the host memory behind it.
\<close>

theorem pipe_writes_past_memory:
  assumes "4 < memory_size ctx" and "fildes = memory_size ctx - 4"
    and "yos_pipe h2g cl (Inr (a, b)) ctx fildes = (0, ctx', es)"
  shows "\<exists>w. 0 \<le> w \<and> load32 (memory ctx') (unat (memory_size ctx)) = word_of_int w \<and>
    fd_map ctx' ! nat w = b \<or> b < 0 \<or> a < 0"
proof (cases "a < 0 \<or> b < 0")
  case False
  have f: "unat fildes = unat (memory_size ctx) - 4"
    using assms(1,2) by (simp add: unat_sub_nowrap less_imp_le)
  have "wptr ctx fildes = Some (unat fildes)"
    using assms(1,2) f by (auto simp: wptr_def word_nat)
  then have p: "alloc_pair h2g cl ctx (unat fildes) a b = (0, ctx', es)" using assms(3) by (simp add: yos_pipe_def)
  obtain r c1 e1 where a1: "yos_fd_alloc ctx a = (r, c1, e1)" by (cases "yos_fd_alloc ctx a")
  obtain w c2 e2 where a2: "yos_fd_alloc c1 b = (w, c2, e2)" by (cases "yos_fd_alloc c1 b")
  have e: "0 \<le> w" "ctx' = c2\<lparr>memory := store32 (store32 (memory c2) (unat fildes) (word_of_int r)) (unat fildes + 4) (word_of_int w)\<rparr>"
    using p a1 a2 by (auto simp: alloc_pair_def split: if_splits prod.splits)
  have "fd_map c2 ! nat w = b"
    using a2 e(1) False by (auto simp: yos_fd_alloc_def find_index_Some split: option.splits if_splits)
  moreover have "unat fildes + 4 = unat (memory_size ctx)" using f assms(1) by (simp add: word_nat)
  ultimately show ?thesis using e by (intro exI [of _ w]) simp
qed auto

theorem pipe_writes_past_memory_witness:
  "\<exists>ctx' es. yos_pipe (\<lambda>e. e) (\<lambda>_. (0, 0)) (Inr (20, 21)) demo_fds 65532 = (0, ctx', es) \<and>
     (\<exists>w\<ge>0. load32 (memory ctx') 65536 = word_of_int w \<and> fd_map ctx' ! nat w = 21)"
proof -
  obtain ctx' es where p: "yos_pipe (\<lambda>e. e) (\<lambda>_. (0, 0)) (Inr (20, 21)) demo_fds 65532 = (0, ctx', es)"
    by (auto simp: yos_pipe_def alloc_pair_def yos_fd_alloc_def wptr_def demo_fds_map(3) demo_fds_free)
  show ?thesis using pipe_writes_past_memory [OF _ _ p] p by (auto simp: demo_fds_map(3))
qed

text \<open>The guest's \<^verbatim>\<open>O_CLOEXEC\<close> is not the host bit that \<^verbatim>\<open>dup3\<close> tests, so the flag is lost.\<close>

lemma dup3_ignores_guest_cloexec:
  "yos_dup3 h2g dup ctx oldfd newfd FB_O_CLOEXEC = yos_dup3 h2g dup ctx oldfd newfd 0"
proof -
  have "(FB_O_CLOEXEC AND LX_O_CLOEXEC \<noteq> 0) = (0 AND LX_O_CLOEXEC \<noteq> 0)" by simp
  then show ?thesis by (simp only: yos_dup3_def)
qed

end
