(* ===== verification/IoSafety.thy ===== *)
theory IoSafety
  imports IoBridges FdSafety
begin

text \<open>
  Properties of the input and output bridges: scatter/gather vectors are checked entry by entry before
  the host sees them and what the host stores stays inside linear memory; a path call hands the host
  the resolved path only; the working directory can be read back; and, where the code breaks its
  own rule, what an unmapped descriptor and an unchecked buffer lead to.
\<close>

section \<open>Vectors\<close>

definition iov_inside :: "yos_exec_ctx \<Rightarrow> host_iov \<Rightarrow> bool" where
  "iov_inside ctx v = (case v of (None, len) \<Rightarrow> len = 0 | (Some p, len) \<Rightarrow> p + unat len \<le> unat (memory_size ctx))"

lemma iov_loop_ok:
  "iov_loop ctx p n = Some iov \<Longrightarrow> length iov = n \<and> (\<forall>v\<in>set iov. iov_inside ctx v) \<and>
     (\<forall>i<n. snd (iov ! i) = load32 (memory ctx) (p + 8 * i + 4))"
proof (induction n arbitrary: p iov)
  case (Suc n)
  define len where "len = load32 (memory ctx) (p + 4)"
  define q where "q = wptr_range ctx (load32 (memory ctx) p) (unat len)"
  obtain t where t: "iov_loop ctx (p + 8) n = Some t" "iov = (q, len) # t" and ok: "\<not> (q = None \<and> 0 < len)"
    using Suc.prems by (auto simp: len_def q_def Let_def split: if_splits)
  have ins: "iov_inside ctx (q, len)"
    using ok wptr_range_Some [of ctx "load32 (memory ctx) p" "unat len"]
    by (cases q) (auto simp: iov_inside_def q_def word_gt_0)
  note ih = Suc.IH [OF t(1)]
  have "snd (iov ! i) = load32 (memory ctx) (p + 8 * i + 4)" if "i < Suc n" for i
    using that ih t(2) by (cases i) (auto simp: len_def algebra_simps)
  then show ?case using ih ins t(2) by simp
qed simp

text \<open>
  Claim C12: a guest vector that is accepted has been checked entry by entry: the host vector has as many entries, with
  the guest's lengths, and every non-empty entry lies wholly inside linear memory; otherwise nothing is
  handed to the host and an error is returned.
\<close>

theorem iovec_in_bounds:
  assumes "yos_iovec_w32_to_host h2g ctx vec vlen = (r, ctx', iov)"
  shows "if r = 0 then ctx' = ctx \<and> int (length iov) = vlen \<and> vlen \<le> YOS_IOV_MAX \<and> (\<forall>v\<in>set iov. iov_inside ctx v) \<and>
      (\<forall>i<length iov. snd (iov ! i) = load32 (memory ctx) (unat vec + 8 * i + 4))
    else r = - 1 \<and> iov = []"
proof (cases "wptr_range ctx vec (nat vlen * 8)")
  case None
  then show ?thesis using assms by (auto simp: yos_iovec_w32_to_host_def split: if_splits)
next
  case (Some p)
  then have "p = unat vec" using wptr_range_Some by blast
  then show ?thesis
    using Some assms iov_loop_ok [of ctx p "nat vlen"]
    by (auto simp: yos_iovec_w32_to_host_def split: if_splits option.splits)
qed

section \<open>What the host stores stays inside linear memory\<close>

lemma mem_write_out: "i < a \<or> a + length bs \<le> i \<Longrightarrow> mem_write m a bs i = m i"
  by (auto simp: mem_write_def)

lemma scatter_out:
  "\<forall>v\<in>set iov. iov_inside ctx v \<Longrightarrow> unat (memory_size ctx) \<le> i \<Longrightarrow> scatter m iov bs i = m i"
proof (induction m iov bs rule: scatter.induct)
  case (2 m p len t bs)
  have "p + length (take (unat len) bs) \<le> i" using "2.prems" by (auto simp: iov_inside_def)
  then show ?case using "2.IH" "2.prems" mem_write_out [of i p "take (unat len) bs" m] by simp
qed simp_all

lemma fd_translate_frame:
  assumes "yos_fd_translate h2g ctx fd = (h, c)" and "unat (errno_off ctx) + 4 \<le> unat (memory_size ctx)"
  shows "memory_size c = memory_size ctx" "errno_off c = errno_off ctx"
    "unat (memory_size ctx) \<le> i \<Longrightarrow> memory c i = memory ctx i"
  using assms
  by (auto simp: yos_fd_translate_def yos_fd_get_def yos_errno_neg_def Let_def set_errno_def store32_other
      split: if_splits prod.splits)

lemma set_errno_out:
  "unat (errno_off ctx) + 4 \<le> unat (memory_size ctx) \<Longrightarrow> unat (memory_size ctx) \<le> i \<Longrightarrow>
     memory (set_errno h2g ctx e) i = memory ctx i"
  by (simp add: set_errno_def store32_other)

text \<open>
  Whatever the guest passes to \<^verbatim>\<open>readv\<close> and \<^verbatim>\<open>pread\<close> and whatever the host answers, no byte outside linear
  memory changes, provided the errno slot lies inside it and a \<^verbatim>\<open>pread\<close> gives at most the bytes asked for.
\<close>

theorem scatter_reads_confined:
  assumes err: "unat (errno_off ctx) + 4 \<le> unat (memory_size ctx)" and i: "unat (memory_size ctx) \<le> i"
    and bound: "\<And>h n q bs. pread h n q = Inr bs \<Longrightarrow> length bs \<le> n"
  shows "memory (snd (yos_readv h2g readv ctx fd vec vlen)) i = memory ctx i \<and>
    memory (snd (yos_vfs_pread64 h2g pread ctx fd buf cnt pos)) i = memory ctx i"
proof
  obtain r c1 iov where io: "yos_iovec_w32_to_host h2g ctx vec vlen = (r, c1, iov)"
    by (cases "yos_iovec_w32_to_host h2g ctx vec vlen")
  obtain h c2 where tr: "yos_fd_translate h2g ctx fd = (h, c2)" by (cases "yos_fd_translate h2g ctx fd")
  note fr = fd_translate_frame [OF tr err]
  have c1: "memory c1 i = memory ctx i"
    using io err i set_errno_out [of ctx i]
    by (auto simp: yos_iovec_w32_to_host_def split: if_splits option.splits)
  have ok: "r = 0 \<Longrightarrow> c1 = ctx \<and> (\<forall>v\<in>set iov. iov_inside ctx v)"
  proof (cases "wptr_range ctx vec (nat vlen * 8)")
    case (Some p)
    then show "r = 0 \<Longrightarrow> c1 = ctx \<and> (\<forall>v\<in>set iov. iov_inside ctx v)"
      using io iov_loop_ok [of ctx p "nat vlen"]
      by (auto simp: yos_iovec_w32_to_host_def split: if_splits option.splits)
  qed (use io in \<open>auto simp: yos_iovec_w32_to_host_def split: if_splits\<close>)
  show "memory (snd (yos_readv h2g readv ctx fd vec vlen)) i = memory ctx i"
    using ok c1 fr i err tr set_errno_out [of c2 i] set_errno_out [of ctx i] scatter_out [of iov ctx i]
    by (auto simp: yos_readv_def io yos_errno_neg_def split: sum.splits)
  show "memory (snd (yos_vfs_pread64 h2g pread ctx fd buf cnt pos)) i = memory ctx i"
  proof (cases "wptr_range ctx buf (unat cnt)")
    case None
    then show ?thesis using set_errno_out [OF err i] by (simp add: yos_vfs_pread64_def yos_errno_neg_def)
  next
    case (Some p)
    then have "p + unat cnt \<le> unat (memory_size ctx)" using wptr_range_Some by blast
    then have "mem_write m p bs i = m i" if "pread h (unat cnt) pos = Inr bs" for m bs
      using bound [OF that] i by (intro mem_write_out) simp
    then show ?thesis
      using Some tr fr i err set_errno_out [of c2 i]
      by (auto simp: yos_vfs_pread64_def yos_errno_neg_def split: sum.splits)
  qed
qed

section \<open>Instances\<close>

text \<open>A vector of one entry, 16 bytes at 2048, stored at 1024.\<close>

definition iov_ctx :: yos_exec_ctx where
  "iov_ctx = demo_fds\<lparr>memory := store32 (store32 (\<lambda>_. 0) 1024 2048) 1028 16\<rparr>"

lemma iov_ctx_entry: "load32 (memory iov_ctx) 1024 = 2048" "load32 (memory iov_ctx) 1028 = 16"
  "memory_size iov_ctx = 65536"
  by (simp_all add: iov_ctx_def load32_store32_other demo_fds_map)

lemma iov_ctx_vec: "yos_iovec_w32_to_host (\<lambda>e. e) iov_ctx 1024 1 = (0, iov_ctx, [(Some 2048, 16)])"
  using iov_ctx_entry by (simp add: yos_iovec_w32_to_host_def wptr_range_def Let_def)

theorem iovec_in_bounds_witness:
  "yos_iovec_w32_to_host (\<lambda>e. e) iov_ctx 1024 1 = (0, iov_ctx, [(Some 2048, 16)]) \<and> iov_inside iov_ctx (Some 2048, 16)"
  using iovec_in_bounds [OF iov_ctx_vec] iov_ctx_vec by simp

theorem scatter_reads_confined_witness:
  "memory (snd (yos_readv (\<lambda>e. e) (\<lambda>_ _. Inr [7, 8]) iov_ctx 0 1024 1)) 65536 = memory iov_ctx 65536 \<and>
   memory (snd (yos_vfs_pread64 (\<lambda>e. e) (\<lambda>_ n _. Inr (take n [7, 8])) iov_ctx 0 2048 2 0)) 65536 = memory iov_ctx 65536"
proof -
  have e: "unat (errno_off iov_ctx) + 4 \<le> unat (memory_size iov_ctx)" "unat (memory_size iov_ctx) \<le> 65536"
    by (simp_all add: iov_ctx_def demo_fds_def yos_fd_table_init_def ctx_calloc_def)
  show ?thesis by (rule scatter_reads_confined [OF e]) auto
qed

section \<open>Descriptors that are not mapped\<close>

text \<open>
  A call on a guest descriptor that is not open does not fail with \<^verbatim>\<open>EBADF\<close>: \<^verbatim>\<open>yos_fd_translate\<close> falls back to the
  guest's number, so \<^verbatim>\<open>ftruncate\<close>, \<^verbatim>\<open>fchmod\<close> and \<^verbatim>\<open>fchown\<close> act on the host descriptor that happens to have that
  number, which belongs to the emulator or to another process.
\<close>

theorem unmapped_fd_reaches_host:
  assumes "fd < 0 \<or> int YOS_FD_MAX \<le> fd \<or> fd_map ctx ! nat fd < 0" and "fd \<noteq> AT_FDCWD"
    and "ftruncate fd len = (0, e)"
  shows "fst (yos_ftruncate h2g ftruncate ctx fd len) = 0 \<and>
    fst (yos_fchmod h2g fchmod ctx fd mode) = (if fst (fchmod fd mode) < 0 then - 1 else fst (fchmod fd mode))"
proof -
  have t: "yos_fd_translate h2g ctx fd = (fd, set_errno h2g ctx EBADF)"
    using assms(1,2) by (auto simp: yos_fd_translate_def yos_fd_get_def yos_errno_neg_def Let_def)
  have "fst (yos_ftruncate h2g ftruncate ctx fd len) = 0"
    by (simp add: yos_ftruncate_def fd_call_def t assms(3) yos_errno_check_def)
  moreover have "fst (yos_fchmod h2g fchmod ctx fd mode) = (if fst (fchmod fd mode) < 0 then - 1 else fst (fchmod fd mode))"
    by (simp add: yos_fchmod_def fd_call_def t yos_errno_check_def yos_errno_neg_def split: prod.splits)
  ultimately show ?thesis by blast
qed

theorem unmapped_fd_reaches_host_witness:
  "fd_map demo_fds ! 7 = - 1 \<and>
   fst (yos_ftruncate (\<lambda>e. e) (\<lambda>h _. if h = 7 then (0, 0) else (- 1, EBADF)) demo_fds 7 0) = 0"
proof -
  have "fd_map demo_fds ! 7 = - 1" by (simp add: demo_fds_map)
  then show ?thesis
    using unmapped_fd_reaches_host [of 7 demo_fds "\<lambda>h _. if h = 7 then (0, 0) else (- 1, EBADF)" 0 0 "\<lambda>e. e" "\<lambda>_ _. (0, 0)" 0]
    by simp
qed

section \<open>Reading the working directory back\<close>

lemma mem_write_c_bytes:
  "i \<le> length s \<Longrightarrow> mem_write m a (c_bytes s) (a + i) = c_bytes s ! i"
  by (simp add: mem_write_def c_bytes_def)

text \<open>
  With a buffer inside linear memory, \<^verbatim>\<open>getcwd\<close> returns the buffer and the guest reads there exactly the working
  directory the last \<^verbatim>\<open>chdir\<close> set, or fails with \<^verbatim>\<open>ERANGE\<close> and writes nothing else when it does not fit.
\<close>

theorem getcwd_roundtrip:
  assumes "cwd ctx \<noteq> []" and "hd (cwd ctx) = CHR ''/''" and nul: "CHR 0x00 \<notin> set (cwd ctx)"
    and b: "buf \<noteq> 0" "unat buf + unat sz \<le> unat (memory_size ctx)" and "0 < sz"
    and res: "yos_getcwd h2g host_cwd ctx buf sz = (r, ctx')"
  shows "if length (cwd ctx) < unat sz
    then r = buf \<and> cstr (memory ctx') (unat buf) (unat (memory_size ctx')) = cwd ctx
    else r = - 1 \<and> ctx' = set_errno h2g ctx ERANGE"
proof -
  have "buf < memory_size ctx" using b(2) \<open>0 < sz\<close> by (simp add: word_nat)
  then have w: "wptr ctx buf = Some (unat buf)" using b(1) by (simp add: wptr_def not_le)
  show ?thesis
  proof (cases "length (cwd ctx) < unat sz")
    case True
    have r: "r = buf" "ctx' = ctx\<lparr>memory := mem_write (memory ctx) (unat buf) (c_bytes (cwd ctx))\<rparr>"
      using res w b(1) assms(1,2) True by (auto simp: yos_getcwd_def)
    have "cstr (mem_write (memory ctx) (unat buf) (c_bytes (cwd ctx))) (unat buf) (unat (memory_size ctx)) = cwd ctx"
      by (rule cstr_c_bytes [OF nul]) (use True b(2) in \<open>simp_all add: mem_write_c_bytes\<close>)
    then show ?thesis using True r by simp
  next
    case False
    then show ?thesis using res w b(1) assms(1,2) by (auto simp: yos_getcwd_def)
  qed
qed

theorem getcwd_roundtrip_witness:
  "\<exists>ctx'. yos_getcwd (\<lambda>e. e) (\<lambda>_. Inl 2) (str_ctx ''/usr'' ''x'') 4096 64 = (4096, ctx') \<and>
     cstr (memory ctx') 4096 65536 = ''/usr''"
proof -
  obtain r ctx' where r: "yos_getcwd (\<lambda>e. e) (\<lambda>_. Inl 2) (str_ctx ''/usr'' ''x'') 4096 64 = (r, ctx')" by force
  have m: "memory_size (str_ctx ''/usr'' ''x'') = 65536" "cwd (str_ctx ''/usr'' ''x'') = ''/usr''"
    by (simp_all add: str_ctx_def ctx_calloc_def)
  have "memory_size ctx' = 65536" using r m by (auto simp: yos_getcwd_def wptr_def)
  then show ?thesis using getcwd_roundtrip [OF _ _ _ _ _ _ r] r m by simp
qed

text \<open>The buffer is checked at its first byte only: a size that reaches past the end of linear memory is believed.\<close>

lemma getcwd_past_memory:
  assumes "cwd ctx = ''/x''" and "1 < memory_size ctx" and "buf = memory_size ctx - 1" and "3 \<le> sz"
  shows "memory (snd (yos_getcwd h2g host_cwd ctx buf sz)) (unat (memory_size ctx)) = byte_of (CHR ''x'')"
proof -
  have f: "unat buf + 1 = unat (memory_size ctx)"
    using assms(2,3) by (simp add: unat_sub_nowrap less_imp_le word_nat)
  then have "wptr ctx buf = Some (unat buf)" using assms(2) by (auto simp: wptr_def word_nat)
  moreover have "buf \<noteq> 0" using f assms(2) by (auto simp: word_nat)
  moreover have "\<not> unat sz < length (cwd ctx) + 1" using assms(1,4) by (simp add: word_nat)
  ultimately have "memory (snd (yos_getcwd h2g host_cwd ctx buf sz)) = mem_write (memory ctx) (unat buf) (c_bytes ''/x'')"
    using assms(1) by (simp add: yos_getcwd_def)
  then show ?thesis using f by (auto simp: mem_write_def c_bytes_def)
qed

end
