(* ===== verification/Procfs.thy ===== *)
theory Procfs
  imports Numerals ProcProps Paths
begin

text \<open>
  The \<^verbatim>\<open>/proc\<close> file system, \<^verbatim>\<open>src/src/yos/vfs/procfs.c\<close>: path parsing, the generated files, and the open, read,
  stat, directory and link operations.  The runtime is read, never written; the open file lives in
  the context's virtual file table.  A host \<^verbatim>\<open>malloc\<close> is taken to succeed.
\<close>

section \<open>Paths\<close>

abbreviation YOS_PROCFS_ROOT :: int where "YOS_PROCFS_ROOT \<equiv> 0"
abbreviation YOS_PROCFS_SELF :: int where "YOS_PROCFS_SELF \<equiv> 1"
abbreviation YOS_PROCFS_PID_DIR :: int where "YOS_PROCFS_PID_DIR \<equiv> 2"
abbreviation YOS_PROCFS_STAT :: int where "YOS_PROCFS_STAT \<equiv> 3"
abbreviation YOS_PROCFS_CMDLINE :: int where "YOS_PROCFS_CMDLINE \<equiv> 4"
abbreviation YOS_PROCFS_STATUS :: int where "YOS_PROCFS_STATUS \<equiv> 5"
abbreviation YOS_PROCFS_COMM :: int where "YOS_PROCFS_COMM \<equiv> 6"
abbreviation YOS_PROCFS_EXE :: int where "YOS_PROCFS_EXE \<equiv> 7"
abbreviation YOS_PROCFS_CWD :: int where "YOS_PROCFS_CWD \<equiv> 8"
abbreviation YOS_PROCFS_MOUNTS :: int where "YOS_PROCFS_MOUNTS \<equiv> 9"
abbreviation YOS_PROCFS_MEMINFO :: int where "YOS_PROCFS_MEMINFO \<equiv> 10"
abbreviation YOS_PROCFS_VERSION :: int where "YOS_PROCFS_VERSION \<equiv> 11"
abbreviation YOS_PROCFS_UPTIME :: int where "YOS_PROCFS_UPTIME \<equiv> 12"

definition pid_file :: "string \<Rightarrow> int" where
  "pid_file file =
     (if file = [] then YOS_PROCFS_PID_DIR
      else if file = ''stat'' then YOS_PROCFS_STAT
      else if file = ''cmdline'' then YOS_PROCFS_CMDLINE
      else if file = ''status'' then YOS_PROCFS_STATUS
      else if file = ''comm'' then YOS_PROCFS_COMM
      else if file = ''exe'' then YOS_PROCFS_EXE
      else if file = ''cwd'' then YOS_PROCFS_CWD
      else - ENOENT)"

text \<open>The file type, or a negated errno, and the process id (0 when there is none).\<close>

definition parse_procfs_path :: "string \<Rightarrow> int \<times> int" where
  "parse_procfs_path path =
     (if path = [] then (YOS_PROCFS_ROOT, 0)
      else if path = ''self'' then (YOS_PROCFS_SELF, 0)
      else if path = ''mounts'' then (YOS_PROCFS_MOUNTS, 0)
      else if path = ''meminfo'' then (YOS_PROCFS_MEMINFO, 0)
      else if path = ''version'' then (YOS_PROCFS_VERSION, 0)
      else if path = ''uptime'' then (YOS_PROCFS_UPTIME, 0)
      else case strtol path of
          None \<Rightarrow> (- ENOENT, 0)
        | Some (parsed_pid, endptr) \<Rightarrow>
            let n = sint (word_of_int parsed_pid :: u32) in
            if endptr = [] then (YOS_PROCFS_PID_DIR, n)
            else if hd endptr \<noteq> CHR ''/'' then (- ENOENT, n)
            else (pid_file (tl endptr), n))"

section \<open>Generated files\<close>

definition state_char :: "yos_proc_state \<Rightarrow> char" where
  "state_char s = (case s of YOS_PROC_RUNNING \<Rightarrow> CHR ''R'' | YOS_PROC_ZOMBIE \<Rightarrow> CHR ''Z'' | _ \<Rightarrow> CHR ''S'')"

definition state_str :: "yos_proc_state \<Rightarrow> string" where
  "state_str s = (case s of YOS_PROC_RUNNING \<Rightarrow> ''R (running)'' | YOS_PROC_ZOMBIE \<Rightarrow> ''Z (zombie)'' | _ \<Rightarrow> ''S (sleeping)'')"

text \<open>\<^verbatim>\<open>snprintf(buf, n, ...)\<close>: what ends up in the buffer; the result is the length of the whole text.\<close>

definition snprintf :: "nat \<Rightarrow> string \<Rightarrow> string" where
  "snprintf n s = take (n - 1) s"

definition stat_text :: "yos_proc \<Rightarrow> string" where
  "stat_text p = show_int (pid p) @ '' ('' @ comm p @ '') '' @ [state_char (pstate p)] @ '' '' @ show_int (ppid p) @ '' ''
     @ show_int (pgid p) @ '' '' @ show_int (sid p)
     @ '' 0 -1 0 0 0 0 0 0 0 0 0 20 0 1 0 0 0 0 0 0 0 0 0 0 0 0 0 0 0 0 0 0 0 0 0 0 0'' @ [CHR 0x0A]"

definition status_text :: "yos_proc \<Rightarrow> string" where
  "status_text p = ''Name:'' @ [CHR 0x09] @ comm p @ [CHR 0x0A] @ ''State:'' @ [CHR 0x09] @ state_str (pstate p) @ [CHR 0x0A]
     @ ''Pid:'' @ [CHR 0x09] @ show_int (pid p) @ [CHR 0x0A] @ ''PPid:'' @ [CHR 0x09] @ show_int (ppid p) @ [CHR 0x0A]
     @ concat (map (\<lambda>k. k @ concat (replicate 4 [CHR 0x09, CHR ''0'']) @ [CHR 0x0A]) [''Uid:'', ''Gid:''])"

text \<open>Each gives the buffer (\<open>None\<close> for a null pointer) and the length recorded for it.\<close>

definition generate_stat :: "yos_runtime \<Rightarrow> int \<Rightarrow> string option \<times> nat" where
  "generate_stat rt n =
     (case yos_proc_find rt n of None \<Rightarrow> (None, 0)
      | Some i \<Rightarrow> let t = stat_text (procs rt ! i) in (Some (snprintf 512 t), length t))"

definition generate_cmdline :: "yos_runtime \<Rightarrow> int \<Rightarrow> string option \<times> nat" where
  "generate_cmdline rt n =
     (case yos_proc_find rt n of None \<Rightarrow> (None, 0)
      | Some i \<Rightarrow>
          (case cmdline (procs rt ! i) of
             None \<Rightarrow> (None, 0)
           | Some args \<Rightarrow>
               if args = [] then (None, 0)
               else let t = concat (map (\<lambda>a. a @ [CHR 0x00]) args) in (Some t, length t)))"

definition generate_status :: "yos_runtime \<Rightarrow> int \<Rightarrow> string option \<times> nat" where
  "generate_status rt n =
     (case yos_proc_find rt n of None \<Rightarrow> (None, 0)
      | Some i \<Rightarrow> let t = status_text (procs rt ! i) in (Some (snprintf 1024 t), length t))"

definition generate_comm :: "yos_runtime \<Rightarrow> int \<Rightarrow> string option \<times> nat" where
  "generate_comm rt n =
     (case yos_proc_find rt n of None \<Rightarrow> (None, 0)
      | Some i \<Rightarrow> (Some (comm (procs rt ! i) @ [CHR 0x0A]), length (comm (procs rt ! i)) + 1))"

definition mount_line :: "string \<Rightarrow> string" where
  "mount_line path = ''proc '' @ path @ '' proc rw 0 0'' @ [CHR 0x0A]"

text \<open>A line that does not fit what is left of the buffer is skipped.\<close>

fun mounts_loop :: "fs_ops yos_mount list \<Rightarrow> nat \<Rightarrow> string" where
  "mounts_loop [] remaining = []"
| "mounts_loop (m # ms) remaining =
     (let line = mount_line (mpath m) in
      if length line < remaining then line @ mounts_loop ms (remaining - length line)
      else mounts_loop ms remaining)"

definition generate_mounts :: "yos_runtime \<Rightarrow> string option \<times> nat" where
  "generate_mounts rt =
     (case rt_mounts rt of
        None \<Rightarrow> (None, 0)
      | Some mt \<Rightarrow>
          if mt = [] then (None, 0)
          else let t = mounts_loop mt (length mt * 64 + 1) in (Some t, length t))"

section \<open>File operations\<close>

definition procfs_content :: "yos_runtime \<Rightarrow> int \<Rightarrow> int \<Rightarrow> string option \<times> nat" where
  "procfs_content rt ty n =
     (if ty = YOS_PROCFS_STAT then generate_stat rt n
      else if ty = YOS_PROCFS_CMDLINE then generate_cmdline rt n
      else if ty = YOS_PROCFS_STATUS then generate_status rt n
      else if ty = YOS_PROCFS_COMM then generate_comm rt n
      else if ty = YOS_PROCFS_MOUNTS then generate_mounts rt
      else (None, 0))"

definition procfs_open :: "yos_runtime \<Rightarrow> yos_exec_ctx \<Rightarrow> string \<Rightarrow> int \<times> yos_exec_ctx" where
  "procfs_open rt ctx path =
     (case parse_procfs_path path of (ty, n) \<Rightarrow>
        if ty < 0 then (ty, ctx)
        else if 0 < n \<and> yos_proc_find rt n = None then (- ENOENT, ctx)
        else
          let ft = (case procfs_fds ctx of None \<Rightarrow> yos_file_table_init | Some ft \<Rightarrow> ft) in
          (case yos_file_alloc ft of (fd, ft1) \<Rightarrow>
             if fd < 0 then (fd, ctx\<lparr>procfs_fds := Some ft1\<rparr>)
             else
               let (c, l) = procfs_content rt ty n in
               (fd, ctx\<lparr>procfs_fds := Some (file_update ft1 fd (\<lambda>f. f\<lparr>file_ops := Some yos_procfs_ops, procfs_pid := n,
                       procfs_file_type := ty, content := c, content_length := l\<rparr>))\<rparr>)))"

text \<open>The bytes go to \<open>p\<close> in memory; the file's position moves.\<close>

definition procfs_read :: "mem \<Rightarrow> yos_file \<Rightarrow> nat \<Rightarrow> nat \<Rightarrow> int \<times> mem \<times> yos_file" where
  "procfs_read m file p cnt =
     (case content file of
        None \<Rightarrow> (0, m, file)
      | Some text \<Rightarrow>
          if content_length file \<le> position file then (0, m, file)
          else let remaining = content_length file - position file;
                   to_read = (if cnt < remaining then cnt else remaining)
               in (int to_read, mem_write m p (map byte_of (take to_read (drop (position file) text))),
                   file\<lparr>position := position file + to_read\<rparr>))"

definition procfs_close :: "yos_exec_ctx \<Rightarrow> int \<Rightarrow> int \<times> yos_exec_ctx" where
  "procfs_close ctx fd = (0, ctx)"

definition procfs_mode :: "int \<Rightarrow> u32" where
  "procfs_mode ty =
     (if ty = YOS_PROCFS_ROOT \<or> ty = YOS_PROCFS_PID_DIR then 0x416D
      else if ty = YOS_PROCFS_SELF \<or> ty = YOS_PROCFS_EXE \<or> ty = YOS_PROCFS_CWD then 0xA1FF
      else 0x8124)"

definition procfs_stat :: "yos_runtime \<Rightarrow> mem \<Rightarrow> string \<Rightarrow> nat \<Rightarrow> int \<times> mem" where
  "procfs_stat rt m path buf =
     (case parse_procfs_path path of (ty, n) \<Rightarrow>
        if ty < 0 then (ty, m)
        else if 0 < n \<and> yos_proc_find rt n = None then (- ENOENT, m)
        else (0, store32 (store32 (mem_fill m buf 0 96) (buf + 16) (procfs_mode ty)) (buf + 20) 1))"

section \<open>Directories\<close>

text \<open>A directory entry: inode number, type and name; its record and the loop that writes records.\<close>

type_synonym dent = "int \<times> u8 \<times> string"

abbreviation DT_DIR :: u8 where "DT_DIR \<equiv> 4"
abbreviation DT_REG :: u8 where "DT_REG \<equiv> 8"
abbreviation DT_LNK :: u8 where "DT_LNK \<equiv> 10"

definition rec_len :: "string \<Rightarrow> nat" where
  "rec_len name = (19 + length name + 8) div 8 * 8"

definition store64 :: "mem \<Rightarrow> nat \<Rightarrow> u64 \<Rightarrow> mem" where
  "store64 m a v = store32 (store32 m a (ucast v)) (a + 4) (ucast (drop_bit 32 v))"

definition store16 :: "mem \<Rightarrow> nat \<Rightarrow> u16 \<Rightarrow> mem" where
  "store16 m a v = m(a := ucast v, a + 1 := ucast (drop_bit 8 v))"

definition put_dirent :: "mem \<Rightarrow> nat \<Rightarrow> dent \<Rightarrow> mem" where
  "put_dirent m a e = (case e of (ino, ty, name) \<Rightarrow>
     mem_write ((store16 (store64 (store64 m a (word_of_int ino)) (a + 8) (of_nat (rec_len name))) (a + 16)
       (of_nat (rec_len name)))(a + 18 := ty)) (a + 19) (c_bytes name))"

text \<open>
  \<open>idx\<close> is the index of the first entry of the list, \<open>di\<close> the file's directory index, \<open>pos\<close> the offset in the
  buffer at \<open>buf\<close> of \<open>cnt\<close> bytes.
\<close>

fun dents_loop :: "dent list \<Rightarrow> nat \<Rightarrow> nat \<Rightarrow> nat \<Rightarrow> nat \<Rightarrow> nat \<Rightarrow> mem \<Rightarrow> nat \<times> nat \<times> mem" where
  "dents_loop [] idx di pos buf cnt m = (pos, di, m)"
| "dents_loop (e # es) idx di pos buf cnt m =
     (if di \<le> idx then
        let r = rec_len (snd (snd e)) in
        if cnt < pos + r then (pos, di, m)
        else dents_loop es (Suc idx) (Suc idx) (pos + r) buf cnt (put_dirent m (buf + pos) e)
      else dents_loop es (Suc idx) di pos buf cnt m)"

definition root_dents :: "yos_runtime \<Rightarrow> dent list" where
  "root_dents rt = [(1, DT_LNK, ''self''), (2, DT_REG, ''mounts'')] @
     map (\<lambda>p. (pid p, DT_DIR, show_int (pid p)))
       (filter (\<lambda>p. pstate p \<noteq> YOS_PROC_FREE \<and> pstate p \<noteq> YOS_PROC_ZOMBIE) (take YOS_MAX_PROCS (procs rt)))"

definition pid_dents :: "dent list" where
  "pid_dents = [(1, DT_REG, ''stat''), (2, DT_REG, ''cmdline''), (3, DT_REG, ''status''), (4, DT_REG, ''comm''),
     (5, DT_LNK, ''exe''), (6, DT_LNK, ''cwd'')]"

definition procfs_getdents64 :: "yos_runtime \<Rightarrow> mem \<Rightarrow> yos_file \<Rightarrow> nat \<Rightarrow> nat \<Rightarrow> int \<times> mem \<times> yos_file" where
  "procfs_getdents64 rt m file buf cnt =
     (if procfs_file_type file \<noteq> YOS_PROCFS_ROOT \<and> procfs_file_type file \<noteq> YOS_PROCFS_PID_DIR
      then (- ENOTDIR, m, file)
      else case dents_loop (if procfs_file_type file = YOS_PROCFS_ROOT then root_dents rt else pid_dents)
                 0 (dir_index file) 0 buf cnt m of
        (pos, di, m') \<Rightarrow> (int pos, m', file\<lparr>dir_index := di\<rparr>))"

section \<open>Links\<close>

text \<open>
  At most \<open>bufsiz - 1\<close> characters are copied.  For a buffer of size 0 the unsigned \<^verbatim>\<open>bufsiz - 1\<close> wraps to the largest
  \<^verbatim>\<open>size_t\<close> and the \<^verbatim>\<open>memcpy\<close> of that many bytes crashes: \<open>None\<close>.
\<close>

definition copy_link :: "mem \<Rightarrow> nat \<Rightarrow> nat \<Rightarrow> string \<Rightarrow> (int \<times> mem) option" where
  "copy_link m buf bufsiz target =
     (if bufsiz = 0 then None
      else let l = (if bufsiz \<le> length target then bufsiz - 1 else length target) in
        Some (int l, mem_write m buf (map byte_of (take l target))))"

definition procfs_readlink :: "yos_runtime \<Rightarrow> nat \<Rightarrow> mem \<Rightarrow> string \<Rightarrow> nat \<Rightarrow> nat \<Rightarrow> (int \<times> mem) option" where
  "procfs_readlink rt slot m path buf bufsiz =
     (case parse_procfs_path path of (ty, n) \<Rightarrow>
        if ty = YOS_PROCFS_SELF then
          let s = show_int (pid (procs rt ! slot)) in
          Some (int (length s), if bufsiz = 0 then m else mem_write m buf (c_bytes (snprintf bufsiz s)))
        else if ty = YOS_PROCFS_EXE then
          (case yos_proc_find rt n of None \<Rightarrow> Some (- ENOENT, m)
           | Some i \<Rightarrow> if exe (procs rt ! i) = [] then Some (- ENOENT, m) else copy_link m buf bufsiz (exe (procs rt ! i)))
        else if ty = YOS_PROCFS_CWD then
          (case yos_proc_find rt n of None \<Rightarrow> Some (- ENOENT, m)
           | Some i \<Rightarrow> if pcwd (procs rt ! i) = [] then Some (- ENOENT, m) else copy_link m buf bufsiz (pcwd (procs rt ! i)))
        else Some (- EINVAL, m))"

end
