(* ===== verification/ProcfsProps.thy ===== *)
theory ProcfsProps
  imports Procfs FdSafety
begin

text \<open>
  Properties of \<^verbatim>\<open>/proc\<close>: the names it lists parse back to the processes they stand for, generated files
  are never truncated, successive reads deliver a file's text in order, a directory read fills its
  buffer with whole records and resumes where it stopped, and opening a file leaves the host
  descriptors alone.
\<close>

section \<open>Names\<close>

lemma show_nat_hd_digit: "is_digit (hd (show_nat n))"
  using show_nat_digits [of "hd (show_nat n)" n] show_nat_ne [of n] by simp

lemma parse_number:
  assumes "0 \<le> n" and "n < 2147483648" and "rest = [] \<or> hd rest = CHR ''/''"
  shows "parse_procfs_path (show_int n @ rest) =
    (if rest = [] then YOS_PROCFS_PID_DIR else pid_file (tl rest), n)"
proof -
  have s: "show_int n = show_nat (nat n)" using assms(1) by (simp add: show_int_def)
  have l: "int (nat n) \<le> LONG_MAX" using assms(2) by (simp add: LONG_MAX_def)
  have r: "rest = [] \<or> \<not> is_digit (hd rest)" using assms(3) by (auto simp: is_digit_def)
  have d: "is_digit (hd (show_nat (nat n) @ rest))" using show_nat_hd_digit [of "nat n"] show_nat_ne [of "nat n"] by simp
  have ne: "show_nat (nat n) @ rest \<noteq> []" using show_nat_ne by simp
  have no: "show_nat (nat n) @ rest \<noteq> c # cs" if "\<not> is_digit c" for c cs using d that by (metis list.sel(1))
  have w: "sint (word_of_int n :: u32) = n" using assms(1,2) by (rule sint_word_of_int_small)
  have nd: "\<not> is_digit CHR ''s''" "\<not> is_digit CHR ''m''" "\<not> is_digit CHR ''v''" "\<not> is_digit CHR ''u''"
    by (simp_all add: is_digit_def)
  show ?thesis
    unfolding s parse_procfs_path_def
    using strtol_show_nat [OF l r] ne no [OF nd(1)] no [OF nd(2)] no [OF nd(3)] no [OF nd(4)] assms(1,3) w
    by (auto simp: Let_def)
qed

section \<open>Contents\<close>

text \<open>The C fields: 32-bit numbers and a name of at most 15 characters.\<close>

definition int32 :: "int \<Rightarrow> bool" where
  "int32 i \<longleftrightarrow> - 2147483648 \<le> i \<and> i < 2147483648"

definition proc_fields_ok :: "yos_proc \<Rightarrow> bool" where
  "proc_fields_ok p \<longleftrightarrow> int32 (pid p) \<and> int32 (ppid p) \<and> int32 (pgid p) \<and> int32 (sid p) \<and> length (comm p) \<le> 15"

lemma length_stat_text: "proc_fields_ok p \<Longrightarrow> length (stat_text p) < 512"
  using length_show_int [of "pid p"] length_show_int [of "ppid p"] length_show_int [of "pgid p"] length_show_int [of "sid p"]
  by (simp add: proc_fields_ok_def int32_def stat_text_def)

lemma length_status_text: "proc_fields_ok p \<Longrightarrow> length (status_text p) < 1024"
  using length_show_int [of "pid p"] length_show_int [of "ppid p"]
  by (simp add: proc_fields_ok_def int32_def status_text_def state_str_def numeral_eq_Suc split: yos_proc_state.splits)

lemma snprintf_fits: "length s < n \<Longrightarrow> snprintf n s = s"
  by (simp add: snprintf_def)

lemma proc_find_mem: "yos_proc_find rt n = Some i \<Longrightarrow> procs rt ! i \<in> set (procs rt) \<and> pid (procs rt ! i) = n"
  by (auto simp: yos_proc_find_def find_index_Some)

text \<open>
  The text recorded for a generated file is the whole text: for a table whose fields are 32-bit numbers and whose
  names have at most 15 characters, no generated file is truncated by its fixed buffer, so the recorded
  length never exceeds the bytes behind it.
\<close>

theorem procfs_content_whole:
  assumes "\<forall>p\<in>set (procs rt). proc_fields_ok p" and "procfs_content rt ty n = (Some text, l)"
  shows "l = length text \<and> (ty = YOS_PROCFS_STAT \<longrightarrow> (\<exists>p\<in>set (procs rt). pid p = n \<and> text = stat_text p)) \<and>
    (ty = YOS_PROCFS_STATUS \<longrightarrow> (\<exists>p\<in>set (procs rt). pid p = n \<and> text = status_text p))"
proof -
  have st: "snprintf 512 (stat_text p) = stat_text p" "snprintf 1024 (status_text p) = status_text p" if "p \<in> set (procs rt)" for p
    using that assms(1) length_stat_text length_status_text snprintf_fits by blast+
  show ?thesis
    using assms(2) proc_find_mem [of rt n] st
    by (auto simp: procfs_content_def generate_stat_def generate_status_def generate_cmdline_def generate_comm_def
        generate_mounts_def Let_def split: option.splits if_splits)
qed

section \<open>Reading\<close>

text \<open>The characters the guest finds after one read at \<open>p\<close>, and after a sequence of reads.\<close>

definition got :: "mem \<Rightarrow> nat \<Rightarrow> int \<Rightarrow> string" where
  "got m p r = map (\<lambda>i. char_of_byte (m (p + i))) [0..<nat r]"

fun read_seq :: "mem \<Rightarrow> yos_file \<Rightarrow> nat \<Rightarrow> nat list \<Rightarrow> string" where
  "read_seq m file p [] = []"
| "read_seq m file p (n # ns) =
     (case procfs_read m file p n of (r, m', file') \<Rightarrow> got m' p r @ read_seq m' file' p ns)"

lemma got_write: "got (mem_write m p (map byte_of s)) p (int (length s)) = s"
  by (rule nth_equalityI) (simp_all add: got_def mem_write_def)

lemma read_step:
  assumes "content file = Some text" and "content_length file = length text"
    and "procfs_read m file p n = (r, m', file')"
  shows "got m' p r = take n (drop (position file) text)" "r = int (min n (length text - position file))"
    "content file' = Some text" "content_length file' = length text"
    "drop (position file') text = drop n (drop (position file) text)"
proof -
  let ?s = "take n (drop (position file) text)"
  have "r = int (length ?s) \<and> m' = (if position file < length text then mem_write m p (map byte_of ?s) else m) \<and>
      file' = file\<lparr>position := position file + length ?s\<rparr>"
    using assms by (auto simp: procfs_read_def Let_def min_def)
  then have r: "r = int (length ?s)" and m': "m' = (if position file < length text then mem_write m p (map byte_of ?s) else m)"
    and f: "file' = file\<lparr>position := position file + length ?s\<rparr>" by simp_all
  show "got m' p r = ?s"
    using got_write [of m p ?s] unfolding r m' by (cases "position file < length text") (auto simp: got_def)
  show "r = int (min n (length text - position file))" unfolding r by simp
  show "content file' = Some text" "content_length file' = length text" using f assms by simp_all
  show "drop (position file') text = drop n (drop (position file) text)"
    using f by (cases "n \<le> length text - position file") (auto simp: min_def add.commute)
qed

text \<open>
  Reading a generated file in pieces of any sizes delivers its text from the current position, in order, without
  gap or repetition, and then nothing more.
\<close>

lemma reads_in_order:
  assumes "content fl = Some text" and "content_length fl = length text"
  shows "read_seq m fl p ns = take (sum_list ns) (drop (position fl) text)"
  using assms
proof (induction ns arbitrary: m fl)
  case (Cons n ns)
  obtain r m' fl' where r: "procfs_read m fl p n = (r, m', fl')" by (cases "procfs_read m fl p n")
  note st = read_step [OF Cons.prems r]
  have "read_seq m' fl' p ns = take (sum_list ns) (drop n (drop (position fl) text))"
    using Cons.IH [OF st(3,4)] st(5) by simp
  then show ?case using st(1) r by (simp add: take_add)
qed simp

section \<open>Directory records\<close>

definition load16 :: "mem \<Rightarrow> nat \<Rightarrow> nat" where
  "load16 m a = unat (m a) + 256 * unat (m (a + 1))"

definition load16w :: "mem \<Rightarrow> nat \<Rightarrow> u16" where
  "load16w m a = of_nat (load16 m a)"

definition load64 :: "mem \<Rightarrow> nat \<Rightarrow> u64" where
  "load64 m a = ucast (load32 m a) OR push_bit 32 (ucast (load32 m (a + 4)))"

text \<open>The record a reader finds at \<open>a\<close>: inode, length, type and NUL-terminated name.\<close>

definition record_at :: "mem \<Rightarrow> nat \<Rightarrow> dent \<Rightarrow> bool" where
  "record_at m a e \<longleftrightarrow> (case e of (ino, ty, name) \<Rightarrow>
     load64 m a = word_of_int ino \<and> load16 m (a + 16) = rec_len name \<and> m (a + 18) = ty \<and> (\<forall>i\<le>length name. m (a + 19 + i) = c_bytes name ! i))"

definition dent_len :: "dent \<Rightarrow> nat" where
  "dent_len e = rec_len (snd (snd e))"

definition offset :: "dent list \<Rightarrow> nat \<Rightarrow> nat" where
  "offset es i = sum_list (map dent_len (take i es))"

lemma rec_len_room: "20 + length name \<le> rec_len name" "rec_len name \<le> 27 + length name"
  unfolding rec_len_def by linarith+

lemma load16_store16: "n < 65536 \<Longrightarrow> load16 (store16 m a (of_nat n)) a = n"
proof -
  assume n: "n < 65536"
  have w: "unat (of_nat n :: u16) = n" using n by (simp add: unsigned_of_nat take_bit_nat_eq_self)
  have lo: "unat (ucast (of_nat n :: u16) :: u8) = n mod 256"
    using w by (simp add: unsigned_ucast_eq take_bit_eq_mod unsigned_of_nat)
  have hi: "unat (ucast (drop_bit 8 (of_nat n :: u16)) :: u8) = n div 256"
  proof -
    define x :: u16 where "x = drop_bit 8 (of_nat n)"
    have "unat x = n div 256" using w unsigned_drop_bit_eq [of 8 "of_nat n :: u16", where 'a = nat] n
      by (simp add: x_def drop_bit_eq_div take_bit_nat_eq_self)
    then have "unat (ucast x :: u8) = n div 256" using n by (simp add: unsigned_ucast_eq take_bit_eq_mod)
    then show ?thesis by (simp add: x_def)
  qed
  show ?thesis unfolding load16_def store16_def using lo hi by simp
qed

lemma load16_store16w: "load16w (store16 m a v) a = v"
proof -
  have "load16 (store16 m a (of_nat (unat v))) a = unat v" using load16_store16 [of "unat v" m a] unsigned_less [of v] by simp
  then show ?thesis by (simp add: load16w_def)
qed

lemma store64_out: "i < a \<or> a + 8 \<le> i \<Longrightarrow> store64 m a v i = m i"
  by (auto simp: store64_def store32_other)

lemma load64_cong: "(\<And>i. a \<le> i \<Longrightarrow> i < a + 8 \<Longrightarrow> m i = m' i) \<Longrightarrow> load64 m a = load64 m' a"
  using load32_cong [of a m m'] load32_cong [of "a + 4" m m'] by (simp add: load64_def)

lemma load64_store64 [simp]: "load64 (store64 m a v) a = v"
proof -
  have "load32 (store64 m a v) a = ucast v" "load32 (store64 m a v) (a + 4) = ucast (drop_bit 32 v)"
    by (simp_all add: store64_def load32_store32_other)
  then show ?thesis unfolding load64_def by (intro bit_word_eqI) (auto simp: bit_simps)
qed

lemma put_dirent_out:
  assumes "i < a \<or> a + dent_len e \<le> i"
  shows "put_dirent m a e i = m i"
proof -
  obtain ino ty name where e: "e = (ino, ty, name)" by (cases e)
  have "i < a \<or> a + 20 + length name \<le> i" using assms rec_len_room(1) [of name] by (auto simp: dent_len_def e)
  then show ?thesis by (auto simp: put_dirent_def e mem_write_def c_bytes_def store16_def store64_out)
qed

lemma put_dirent_record:
  assumes "rec_len (snd (snd e)) < 65536"
  shows "record_at (put_dirent m a e) a e"
proof -
  obtain ino ty name where e: "e = (ino, ty, name)" by (cases e)
  let ?m = "store64 (store64 m a (word_of_int ino)) (a + 8) (of_nat (rec_len name))"
  have lo: "put_dirent m a e i = store16 ?m (a + 16) (of_nat (rec_len name)) i" if "i < a + 18" for i
    using that by (auto simp: put_dirent_def e mem_write_def)
  have "load64 (put_dirent m a e) a = load64 (store64 m a (word_of_int ino)) a"
    by (rule load64_cong) (use lo in \<open>auto simp: store16_def store64_out\<close>)
  then have "load64 (put_dirent m a e) a = word_of_int ino" by simp
  moreover have "load16 (put_dirent m a e) (a + 16) = load16 (store16 ?m (a + 16) (of_nat (rec_len name))) (a + 16)"
    unfolding load16_def using lo [of "a + 16"] lo [of "a + 16 + 1"] by simp
  then have "load16 (put_dirent m a e) (a + 16) = rec_len name" using load16_store16 assms e by simp
  moreover have "put_dirent m a e (a + 18) = ty" by (simp add: put_dirent_def e mem_write_def)
  moreover have "put_dirent m a e (a + 19 + i) = c_bytes name ! i" if "i \<le> length name" for i
    using that by (simp add: put_dirent_def e mem_write_def c_bytes_def)
  ultimately show ?thesis by (simp add: record_at_def e)
qed

lemma record_at_cong:
  assumes "record_at m a e" and "\<And>i. a \<le> i \<Longrightarrow> i < a + dent_len e \<Longrightarrow> m' i = m i"
  shows "record_at m' a e"
proof -
  obtain ino ty name where e: "e = (ino, ty, name)" by (cases e)
  have same: "m' (a + j) = m (a + j)" if "j < 20 + length name" for j
    using assms(2) [of "a + j"] that rec_len_room(1) [of name] by (simp add: dent_len_def e)
  have "m' (a + 19 + i) = m (a + 19 + i)" if "i \<le> length name" for i
    using same [of "19 + i"] that by (simp add: add.assoc)
  moreover have "load16 m' (a + 16) = load16 m (a + 16)"
    unfolding load16_def using same [of 16] same [of 17] by (simp add: add.commute)
  moreover have "load64 m' a = load64 m a"
    by (rule load64_cong) (use same in \<open>auto dest: le_Suc_ex\<close>)
  ultimately show ?thesis using assms(1) same [of 18] by (simp add: record_at_def e)
qed

lemma offset_Suc: "offset (e # es) (Suc i) = dent_len e + offset es i" "offset es 0 = 0"
  by (simp_all add: offset_def)

text \<open>What a run of the loop from index \<open>k\<close> writes: a prefix of the remaining entries, as many as fit.\<close>

definition wrote :: "dent list \<Rightarrow> nat \<Rightarrow> nat \<Rightarrow> nat \<Rightarrow> nat \<Rightarrow> mem \<Rightarrow> nat \<Rightarrow> nat \<Rightarrow> mem \<Rightarrow> bool" where
  "wrote es n pos buf cnt m pos' dn m' \<longleftrightarrow> n \<le> length es \<and> dn = n \<and> pos' = pos + offset es n \<and>
     (n < length es \<longrightarrow> cnt < pos' + dent_len (es ! n)) \<and> (pos \<le> cnt \<longrightarrow> pos' \<le> cnt) \<and>
     (\<forall>i<n. record_at m' (buf + pos + offset es i) (es ! i)) \<and>
     (\<forall>i. i < buf + pos \<or> buf + pos' \<le> i \<longrightarrow> m' i = m i)"

lemma dents_emit:
  assumes "dents_loop es k k pos buf cnt m = (pos', di, m')" and "\<forall>e\<in>set es. dent_len e < 65536"
  shows "\<exists>n. di = k + n \<and> wrote es n pos buf cnt m pos' n m'"
  using assms
proof (induction es arbitrary: k pos m)
  case Nil
  then show ?case by (intro exI [of _ 0]) (simp add: wrote_def offset_def)
next
  case (Cons e es)
  show ?case
  proof (cases "cnt < pos + dent_len e")
    case True
    then have "pos' = pos" "di = k" "m' = m" using Cons.prems(1) by (simp_all add: dent_len_def Let_def)
    then show ?thesis using True by (intro exI [of _ 0]) (simp add: wrote_def offset_def)
  next
    case False
    let ?m = "put_dirent m (buf + pos) e"
    have "dents_loop es (Suc k) (Suc k) (pos + dent_len e) buf cnt ?m = (pos', di, m')"
      using Cons.prems(1) False by (simp add: dent_len_def Let_def)
    then obtain n where n: "di = Suc k + n" "wrote es n (pos + dent_len e) buf cnt ?m pos' n m'"
      using Cons.IH Cons.prems(2) by fastforce
    have below: "m' i = ?m i" if "i < buf + (pos + dent_len e)" for i using n(2) that by (simp add: wrote_def)
    have r0: "record_at m' (buf + pos) e"
      using record_at_cong [OF put_dirent_record [of e m "buf + pos"], of m'] Cons.prems(2) below
      by (simp add: dent_len_def)
    have ri: "record_at m' (buf + pos + offset (e # es) i) ((e # es) ! i)" if "i < Suc n" for i
    proof (cases i)
      case 0
      then show ?thesis using r0 by (simp add: offset_Suc)
    next
      case (Suc j)
      then have "record_at m' (buf + (pos + dent_len e) + offset es j) (es ! j)" using n(2) that by (simp add: wrote_def)
      then show ?thesis using Suc by (simp add: offset_Suc add.assoc)
    qed
    have out: "m' i = m i" if "i < buf + pos \<or> buf + pos' \<le> i" for i
    proof -
      have "pos + dent_len e \<le> pos'" using n(2) by (simp add: wrote_def)
      then have "i < buf + pos \<or> buf + pos + dent_len e \<le> i" using that by auto
      moreover have "m' i = ?m i" using n(2) that by (auto simp: wrote_def)
      ultimately show ?thesis using put_dirent_out [of i "buf + pos" e m] by simp
    qed
    have "wrote (e # es) (Suc n) pos buf cnt m pos' (Suc n) m'"
      using n(2) ri out False unfolding wrote_def by (auto simp: offset_Suc)
    then show ?thesis using n(1) by (intro exI [of _ "Suc n"]) simp
  qed
qed

lemma dents_skip:
  "idx \<le> di \<Longrightarrow> di \<le> idx + length es \<Longrightarrow>
     dents_loop es idx di pos buf cnt m = dents_loop (drop (di - idx) es) di di pos buf cnt m"
proof (induction es arbitrary: idx)
  case (Cons e es)
  show ?case
  proof (cases "idx = di")
    case False
    then have "di - idx = Suc (di - Suc idx)" using Cons.prems by simp
    then show ?thesis using False Cons.IH [of "Suc idx"] Cons.prems by simp
  qed simp
qed simp

section \<open>Listing a directory\<close>

text \<open>What a guest's directory reader decodes from a filled buffer: the type and name of each record.\<close>

function read_dents :: "mem \<Rightarrow> nat \<Rightarrow> nat \<Rightarrow> (u8 \<times> string) list" where
  "read_dents m a endp =
     (let r = load16 m (a + 16) in
      if endp \<le> a \<or> r = 0 then [] else (m (a + 18), cstr m (a + 19) (a + r)) # read_dents m (a + r) endp)"
  by pat_completeness auto
termination
  by (relation "measure (\<lambda>(m, a, endp). endp - a)") auto

declare read_dents.simps [simp del]

text \<open>Reading a directory until a read delivers nothing, at most \<open>k\<close> times.\<close>

fun list_dir :: "yos_runtime \<Rightarrow> mem \<Rightarrow> yos_file \<Rightarrow> nat \<Rightarrow> nat \<Rightarrow> nat \<Rightarrow> (u8 \<times> string) list" where
  "list_dir rt m fl buf cnt 0 = []"
| "list_dir rt m fl buf cnt (Suc k) =
     (case procfs_getdents64 rt m fl buf cnt of (r, m', fl') \<Rightarrow>
        if r \<le> 0 then [] else read_dents m' buf (buf + nat r) @ list_dir rt m' fl' buf cnt k)"

definition dir_entries :: "yos_runtime \<Rightarrow> yos_file \<Rightarrow> dent list" where
  "dir_entries rt fl = (if procfs_file_type fl = YOS_PROCFS_ROOT then root_dents rt else pid_dents)"

lemma read_dents_step:
  assumes "record_at m a (ino, ty, name)" and "CHR 0x00 \<notin> set name" and "a < endp"
  shows "read_dents m a endp = (ty, name) # read_dents m (a + rec_len name) endp"
proof -
  have r: "load16 m (a + 16) = rec_len name" and t: "m (a + 18) = ty"
    and n: "\<And>i. i \<le> length name \<Longrightarrow> m (a + 19 + i) = c_bytes name ! i" using assms(1) by (simp_all add: record_at_def)
  have "cstr m (a + 19) (a + rec_len name) = name"
    using cstr_c_bytes [OF assms(2) _ n] rec_len_room(1) [of name] by simp
  then show ?thesis
    using r t assms(3) rec_len_room(1) [of name] read_dents.simps [of m a endp] by simp
qed

lemma read_dents_records:
  assumes "\<And>i. i < length es \<Longrightarrow> record_at m (a + offset es i) (es ! i)"
    and "\<forall>e\<in>set es. CHR 0x00 \<notin> set (snd (snd e))"
  shows "read_dents m a (a + offset es (length es)) = map snd es"
  using assms
proof (induction es arbitrary: a)
  case Nil
  then show ?case by (simp add: read_dents.simps offset_def)
next
  case (Cons e es)
  obtain ino ty name where e: "e = (ino, ty, name)" by (cases e)
  have "record_at m (a + rec_len name + offset es i) (es ! i)" if "i < length es" for i
    using Cons.prems(1) [of "Suc i"] that by (simp add: offset_Suc e dent_len_def add.assoc)
  then have "read_dents m (a + rec_len name) (a + rec_len name + offset es (length es)) = map snd es"
    using Cons.IH Cons.prems(2) by simp
  moreover have "a < a + offset (e # es) (length (e # es))"
    using rec_len_room(1) [of name] by (simp add: offset_Suc e dent_len_def)
  moreover have "record_at m a (ino, ty, name)" using Cons.prems(1) [of 0] by (simp add: offset_Suc e)
  ultimately show ?case
    using read_dents_step [of m a ino ty name] Cons.prems(2) by (simp add: e offset_Suc dent_len_def add.assoc)
qed

lemma show_int_no_nul: "CHR 0x00 \<notin> set (show_int n)"
  using show_nat_digits [of "CHR 0x00" "nat n"] show_nat_digits [of "CHR 0x00" "nat (- n)"]
  by (auto simp: show_int_def is_digit_def)

lemma dir_entries_names:
  assumes "\<forall>p\<in>set (procs rt). int32 (pid p)" and "e \<in> set (dir_entries rt fl)"
  shows "CHR 0x00 \<notin> set (snd (snd e)) \<and> dent_len e \<le> 32"
proof -
  have "length (show_int (pid p)) \<le> 11" if "p \<in> set (procs rt)" for p
    using that assms(1) length_show_int [of "pid p"] by (simp add: int32_def)
  then have "rec_len (show_int (pid p)) \<le> 32" if "p \<in> set (take YOS_MAX_PROCS (procs rt))" for p
    using in_set_takeD [OF that] unfolding rec_len_def by fastforce
  then show ?thesis
    using assms(2) show_int_no_nul
    by (auto simp: dir_entries_def root_dents_def pid_dents_def dent_len_def split: if_splits)
      (simp_all add: rec_len_def)
qed

text \<open>One directory read: whole records, as many of the remaining entries as fit, and at least one in 32 bytes.\<close>

lemma getdents_chunk:
  assumes "procfs_file_type fl \<in> {YOS_PROCFS_ROOT, YOS_PROCFS_PID_DIR}" and "\<forall>p\<in>set (procs rt). int32 (pid p)"
    and "dir_index fl \<le> length (dir_entries rt fl)" and "procfs_getdents64 rt m fl buf cnt = (r, m', fl')"
  shows "\<exists>n. wrote (drop (dir_index fl) (dir_entries rt fl)) n 0 buf cnt m (nat r) n m' \<and>
    fl' = fl\<lparr>dir_index := dir_index fl + n\<rparr> \<and> (32 \<le> cnt \<longrightarrow> n = 0 \<longrightarrow> dir_index fl = length (dir_entries rt fl))"
proof -
  let ?es = "dir_entries rt fl" and ?k = "dir_index fl"
  obtain pos di where d: "dents_loop ?es 0 ?k 0 buf cnt m = (pos, di, m')" and r: "r = int pos" "fl' = fl\<lparr>dir_index := di\<rparr>"
    using assms(1,4) by (auto simp: procfs_getdents64_def dir_entries_def split: prod.splits)
  have e: "dents_loop (drop ?k ?es) ?k ?k 0 buf cnt m = (pos, di, m')"
    using d dents_skip [of 0 ?k ?es 0 buf cnt m] assms(3) by simp
  have len: "dent_len e \<le> 32" if "e \<in> set ?es" for e using dir_entries_names [OF assms(2) that] by simp
  then have "\<forall>e\<in>set (drop ?k ?es). dent_len e < 65536" using in_set_dropD by fastforce
  then obtain n where n: "di = ?k + n" "wrote (drop ?k ?es) n 0 buf cnt m pos n m'" using dents_emit [OF e] by blast
  have "?k = length ?es" if "32 \<le> cnt" "n = 0"
  proof (rule ccontr)
    assume "?k \<noteq> length ?es"
    then have k: "?k < length ?es" using assms(3) by simp
    then have "cnt < dent_len (?es ! ?k)" using n(2) that(2) by (simp add: wrote_def offset_def)
    then show False using len [of "?es ! ?k"] k that(1) by simp
  qed
  then show ?thesis using n r by (intro exI [of _ n]) simp
qed

text \<open>
  Listing a \<^verbatim>\<open>/proc\<close> directory with any buffer of at least 32 bytes, in as many reads as it takes, gives every
  entry exactly once and in order, and ends: for the root the two fixed entries and one directory per live process.
\<close>

theorem procfs_list_complete:
  assumes "procfs_file_type fl \<in> {YOS_PROCFS_ROOT, YOS_PROCFS_PID_DIR}" and "\<forall>p\<in>set (procs rt). int32 (pid p)"
    and "dir_index fl \<le> length (dir_entries rt fl)" and "32 \<le> cnt" and "length (dir_entries rt fl) < dir_index fl + k"
  shows "list_dir rt m fl buf cnt k = map snd (drop (dir_index fl) (dir_entries rt fl))"
  using assms
proof (induction k arbitrary: m fl)
  case (Suc k)
  let ?es = "dir_entries rt fl" and ?d = "drop (dir_index fl) (dir_entries rt fl)"
  obtain r m' fl' where g: "procfs_getdents64 rt m fl buf cnt = (r, m', fl')" by (cases "procfs_getdents64 rt m fl buf cnt")
  obtain n where w: "wrote ?d n 0 buf cnt m (nat r) n m'" and fl': "fl' = fl\<lparr>dir_index := dir_index fl + n\<rparr>"
    and stop: "n = 0 \<longrightarrow> dir_index fl = length ?es"
    using getdents_chunk [OF Suc.prems(1,2,3) g] Suc.prems(4) by blast
  have n: "n \<le> length ?d" "nat r = offset ?d n" using w by (simp_all add: wrote_def)
  have same: "dir_entries rt fl' = ?es" "procfs_file_type fl' = procfs_file_type fl" using fl' by (simp_all add: dir_entries_def)
  show ?case
  proof (cases "n = 0")
    case True
    then show ?thesis using g n stop by (simp add: offset_def)
  next
    case False
    have off: "offset (take n ?d) i = offset ?d i" if "i \<le> n" for i using that by (simp add: offset_def min_absorb1)
    have rec: "record_at m' (buf + offset (take n ?d) i) (take n ?d ! i)" if "i < length (take n ?d)" for i
      using w that off [of i] n(1) by (simp add: wrote_def)
    have nul: "\<forall>e\<in>set (take n ?d). CHR 0x00 \<notin> set (snd (snd e))"
      using dir_entries_names [OF Suc.prems(2)] in_set_takeD in_set_dropD by fast
    have "read_dents m' buf (buf + nat r) = map snd (take n ?d)"
      using read_dents_records [OF rec nul] n off [of n] by simp
    moreover have "list_dir rt m' fl' buf cnt k = map snd (drop n ?d)"
      using Suc.IH [of fl' m'] Suc.prems False n(1) fl' same by (simp add: add.commute)
    moreover have "0 < r"
    proof -
      obtain e es where "?d = e # es" using False n(1) by (cases ?d) auto
      then have "0 < offset ?d n" using False rec_len_room(1) [of "snd (snd e)"] by (cases n) (auto simp: offset_Suc dent_len_def)
      then show ?thesis using n(2) by simp
    qed
    ultimately have "list_dir rt m fl buf cnt (Suc k) = map snd (take n ?d) @ map snd (drop n ?d)" using g by simp
    also have "\<dots> = map snd ?d" by (metis append_take_drop_id map_append)
    finally show ?thesis .
  qed
qed simp

section \<open>Opening\<close>

lemma keeps_fds_procfs: "keeps_fds (\<lambda>ops ctx path flags mode. procfs_open rt ctx path)"
  by (auto simp: keeps_fds_def procfs_open_def Let_def split: prod.splits option.splits)

lemma file_alloc_fresh:
  assumes "file_table_wf ft" and "yos_file_alloc ft = (fd, ft1)" and "0 \<le> fd"
  shows "\<exists>i<YOS_MAX_VFS_FILES. fd = YOS_VFS_FD_BASE + int i \<and> \<not> in_use (ft ! i) \<and> ft1 = ft[i := zero_file\<lparr>in_use := True\<rparr>]"
  using assms by (auto simp: yos_file_alloc_def file_table_wf_def find_index_Some split: option.splits)

lemma file_get_update:
  assumes "length ft = YOS_MAX_VFS_FILES" and "i < YOS_MAX_VFS_FILES" and "in_use (g (ft ! i))"
  shows "yos_file_get (file_update ft (YOS_VFS_FD_BASE + int i) g) (YOS_VFS_FD_BASE + int i) = Some (g (ft ! i))"
  using assms by (simp add: yos_file_get_def file_update_def Let_def)

lemma procfs_open_content:
  assumes "procfs_fds ctx = Some ft" and "file_table_wf ft" and "\<exists>f\<in>set ft. \<not> in_use f"
    and "parse_procfs_path path = (ty, n)" and "0 \<le> ty" and "0 < n \<Longrightarrow> yos_proc_find rt n \<noteq> None"
  shows "\<exists>fd ctx' ft' fl. procfs_open rt ctx path = (fd, ctx') \<and> YOS_VFS_FD_BASE \<le> fd \<and> yos_file_get ft fd = None \<and>
    procfs_fds ctx' = Some ft' \<and> yos_file_get ft' fd = Some fl \<and> position fl = 0 \<and> dir_index fl = 0 \<and>
    procfs_file_type fl = ty \<and> (content fl, content_length fl) = procfs_content rt ty n"
proof -
  obtain fd ft1 where a: "yos_file_alloc ft = (fd, ft1)" by (cases "yos_file_alloc ft")
  have "find_index (\<lambda>f. \<not> in_use f) ft \<noteq> None" using assms(3) by (simp add: find_index_None)
  then have fd: "0 \<le> fd" using a assms(2) by (auto simp: yos_file_alloc_def file_table_wf_def split: option.splits)
  obtain i where i: "i < YOS_MAX_VFS_FILES" "fd = YOS_VFS_FD_BASE + int i" "\<not> in_use (ft ! i)"
    "ft1 = ft[i := zero_file\<lparr>in_use := True\<rparr>]" using file_alloc_fresh [OF assms(2) a fd] by blast
  obtain c l where c: "procfs_content rt ty n = (c, l)" by (cases "procfs_content rt ty n")
  define g where "g f = f\<lparr>file_ops := Some yos_procfs_ops, procfs_pid := n, procfs_file_type := ty, content := c, content_length := l\<rparr>"
    for f :: yos_file
  have len: "length ft1 = YOS_MAX_VFS_FILES" "ft1 ! i = zero_file\<lparr>in_use := True\<rparr>"
    using assms(2) i by (simp_all add: file_table_wf_def)
  have nf: "\<not> (0 < n \<and> yos_proc_find rt n = None)" using assms(6) by blast
  have o: "procfs_open rt ctx path = (fd, ctx\<lparr>procfs_fds := Some (file_update ft1 fd g)\<rparr>)"
    using assms(1,4,5) nf a fd c unfolding procfs_open_def g_def by simp
  have "yos_file_get (file_update ft1 fd g) fd = Some (g (ft1 ! i))"
    using file_get_update [OF len(1) i(1), of g] i(2) len(2) by (simp add: g_def)
  then show ?thesis
    using o i assms(2) len(2) c by (simp add: g_def zero_file_def yos_file_get_def Let_def)
qed

text \<open>
  Claim C15: reading \<^verbatim>\<open>/proc/<pid>/stat\<close> of a live process: the path printed from its id opens on a fresh descriptor whose
  successive reads deliver exactly the process's status line, and the host descriptors are untouched.
\<close>

theorem procfs_cat_stat:
  assumes "procfs_fds ctx = Some ft" and "file_table_wf ft" and "\<exists>f\<in>set ft. \<not> in_use f"
    and "\<forall>p\<in>set (procs rt). proc_fields_ok p" and "0 < n" and "yos_proc_find rt n = Some i"
  shows "\<exists>fd ctx' ft' fl. procfs_open rt ctx (show_int n @ ''/stat'') = (fd, ctx') \<and> yos_file_get ft fd = None \<and>
    procfs_fds ctx' = Some ft' \<and> yos_file_get ft' fd = Some fl \<and> fd_map ctx' = fd_map ctx \<and>
    (\<forall>m p ns. read_seq m fl p ns = take (sum_list ns) (stat_text (procs rt ! i)))"
proof -
  have p: "procs rt ! i \<in> set (procs rt)" "pid (procs rt ! i) = n" using proc_find_mem [OF assms(6)] by simp_all
  have ok: "proc_fields_ok (procs rt ! i)" using assms(4) p(1) by blast
  then have n: "n < 2147483648" using p(2) by (simp add: proc_fields_ok_def int32_def)
  have parse: "parse_procfs_path (show_int n @ ''/stat'') = (YOS_PROCFS_STAT, n)"
    using parse_number [of n "''/stat''"] assms(5) n by (simp add: pid_file_def)
  have tx: "procfs_content rt YOS_PROCFS_STAT n = (Some (stat_text (procs rt ! i)), length (stat_text (procs rt ! i)))"
    using assms(6) snprintf_fits [OF length_stat_text [OF ok]] by (simp add: procfs_content_def generate_stat_def Let_def)
  obtain fd ctx' ft' fl where o: "procfs_open rt ctx (show_int n @ ''/stat'') = (fd, ctx')" "yos_file_get ft fd = None"
    "procfs_fds ctx' = Some ft'" "yos_file_get ft' fd = Some fl" "position fl = 0"
    "(content fl, content_length fl) = procfs_content rt YOS_PROCFS_STAT n"
    using procfs_open_content [OF assms(1,2,3) parse, of rt] assms(6) by auto
  have "fd_map ctx' = fd_map ctx" using keeps_fds_procfs [of rt] o(1) by (simp add: keeps_fds_def) (metis snd_conv)
  moreover have "read_seq m fl p ns = take (sum_list ns) (stat_text (procs rt ! i))" for m p ns
    using reads_in_order [of fl "stat_text (procs rt ! i)" m p ns] o(5,6) tx by simp
  ultimately show ?thesis using o by blast
qed

section \<open>Links\<close>

text \<open>
  A link target is cut at one character less than the buffer; the link \<^verbatim>\<open>self\<close> alone reports the length of the whole
  number, so its result may exceed the size of the buffer.
\<close>

lemma copy_link_fits: "copy_link m buf n t = Some (r, m') \<Longrightarrow> 0 \<le> r \<and> r < int n \<and> got m' buf r = take (nat r) t"
  using got_write [of m buf "take (n - 1) t"] got_write [of m buf t]
  by (auto simp: copy_link_def Let_def min_def nat_diff_distrib' split: if_splits)

lemma readlink_self_overlong:
  "procfs_readlink rt i m ''self'' buf n = Some (r, m') \<Longrightarrow> r = int (length (show_int (pid (procs rt ! i))))"
  by (auto simp: procfs_readlink_def parse_procfs_path_def Let_def)

lemma readlink_empty_buffer_crashes:
  assumes "0 < n" and "n < 2147483648" and "yos_proc_find rt n = Some i" and "exe (procs rt ! i) \<noteq> []"
  shows "procfs_readlink rt slot m (show_int n @ ''/exe'') buf 0 = None"
  using parse_number [of n "''/exe''"] assms by (simp add: pid_file_def procfs_readlink_def copy_link_def)

section \<open>Witnesses\<close>

lemma demo_fields: "\<forall>p\<in>set (procs demo_rt). proc_fields_ok p"
  by (auto simp: demo_rt_def demo_proc_def proc_fields_ok_def int32_def zero_proc_def)

lemma demo_find: "yos_proc_find demo_rt 2 = Some 1"
  by (simp add: yos_proc_find_def demo_rt_def demo_proc_def zero_proc_def)

theorem procfs_content_whole_witness:
  "procfs_content demo_rt YOS_PROCFS_STAT 2 = (Some (stat_text (demo_proc 2 1 1)), length (stat_text (demo_proc 2 1 1)))"
proof -
  obtain tx l where c: "procfs_content demo_rt YOS_PROCFS_STAT 2 = (Some tx, l)"
    by (simp add: procfs_content_def generate_stat_def demo_find Let_def)
  have "l = length tx" using procfs_content_whole [OF demo_fields c] by blast
  moreover have "tx = stat_text (demo_proc 2 1 1)"
    using procfs_content_whole [OF demo_fields c] by (auto simp: demo_rt_def demo_proc_simps zero_proc_def)
  ultimately show ?thesis using c by simp
qed

definition demo_dir :: yos_file where
  "demo_dir = zero_file\<lparr>in_use := True, procfs_file_type := YOS_PROCFS_ROOT\<rparr>"

theorem procfs_list_complete_witness:
  "list_dir demo_rt (\<lambda>_. 0) demo_dir 1024 40 5 = [(10, ''self''), (8, ''mounts''), (4, ''1''), (4, ''2'')]"
proof -
  have es: "dir_entries demo_rt demo_dir = [(1, 10, ''self''), (2, 8, ''mounts''), (1, 4, ''1''), (2, 4, ''2'')]"
    by (simp add: dir_entries_def demo_dir_def zero_file_def root_dents_def demo_rt_def demo_proc_def zero_proc_def
        show_int_def show_nat.simps digit_def char_of_def bit_0)
  have i: "\<forall>p\<in>set (procs demo_rt). int32 (pid p)" using demo_fields by (simp add: proc_fields_ok_def)
  have d: "procfs_file_type demo_dir \<in> {YOS_PROCFS_ROOT, YOS_PROCFS_PID_DIR}" "dir_index demo_dir = 0"
    by (simp_all add: demo_dir_def zero_file_def)
  show ?thesis using procfs_list_complete [OF d(1) i, of 40 5 "\<lambda>_. 0" 1024] es d(2) by simp
qed

theorem procfs_cat_stat_witness:
  "\<exists>fd ctx' ft' fl. procfs_open demo_rt ((ctx_calloc (\<lambda>_. 0) 65536)\<lparr>procfs_fds := Some yos_file_table_init\<rparr>) (show_int 2 @ ''/stat'')
     = (fd, ctx') \<and> procfs_fds ctx' = Some ft' \<and> yos_file_get ft' fd = Some fl \<and>
     read_seq (\<lambda>_. 0) fl 4096 [2, 4] = ''2 () R''"
proof -
  let ?c = "(ctx_calloc (\<lambda>_. 0) 65536)\<lparr>procfs_fds := Some yos_file_table_init\<rparr>"
  have a: "procfs_fds ?c = Some yos_file_table_init" "file_table_wf yos_file_table_init" "\<exists>f\<in>set yos_file_table_init. \<not> in_use f"
    by (simp_all add: yos_file_table_init_def file_table_wf_def zero_file_def)
  have t: "take 6 (stat_text (procs demo_rt ! 1)) = ''2 () R''"
    by (simp add: demo_procs stat_text_def demo_proc_def zero_proc_def show_int_def show_nat.simps digit_def char_of_def bit_0 state_char_def)
  have "0 < (2::int)" by simp
  note st = procfs_cat_stat [OF a demo_fields this demo_find]
  obtain fd ctx' ft' fl where o: "procfs_open demo_rt ?c (show_int 2 @ ''/stat'') = (fd, ctx')" "procfs_fds ctx' = Some ft'"
    "yos_file_get ft' fd = Some fl"
    and r: "\<And>m p ns. read_seq m fl p ns = take (sum_list ns) (stat_text (procs demo_rt ! 1))" using st by blast
  have "read_seq (\<lambda>_. 0) fl 4096 [2, 4] = ''2 () R''" using r [of "\<lambda>_. 0" 4096 "[2, 4]"] t by simp
  then show ?thesis using o by blast
qed

end
