(* ===== verification/Sigset.thy ===== *)
theory Sigset
  imports Ctx
begin

text \<open>
  Signal sets in guest memory.  A FreeBSD \<^verbatim>\<open>sigset_t\<close> is 16 bytes, signal \<open>s\<close> in bit \<open>(s - 1) mod 32\<close> of word
  \<open>(s - 1) div 32\<close>.  The repository has two implementations of the set operations,
  \<^verbatim>\<open>src/src/yos/impl/proc/sig.c\<close> and \<^verbatim>\<open>src/src/yos/impl/proc/signal.c\<close>; both are modelled and both are shown to
  implement sets of numbers from 1 to 128.  The second half translates signal numbers and sets between
  FreeBSD and a Linux host.
\<close>

section \<open>The operations of sig.c\<close>

abbreviation YOS_FBSD_SIGSET_BYTES :: nat where "YOS_FBSD_SIGSET_BYTES \<equiv> 16"

definition yos_sigset_bound :: "yos_exec_ctx \<Rightarrow> u32 \<Rightarrow> bool" where
  "yos_sigset_bound ctx off \<longleftrightarrow> off \<noteq> 0 \<and> unat off + YOS_FBSD_SIGSET_BYTES \<le> unat (memory_size ctx)"

definition yos_sigset_signo_ok :: "int \<Rightarrow> bool" where
  "yos_sigset_signo_ok signo \<longleftrightarrow> 1 \<le> signo \<and> signo \<le> 128"

text \<open>The address of the word of bit \<open>b\<close>, and an update of that word.\<close>

definition bits_word :: "u32 \<Rightarrow> nat \<Rightarrow> nat" where
  "bits_word off b = unat off + 4 * (b div 32)"

definition upd_bits :: "yos_exec_ctx \<Rightarrow> u32 \<Rightarrow> nat \<Rightarrow> (u32 \<Rightarrow> u32) \<Rightarrow> yos_exec_ctx" where
  "upd_bits ctx off b f =
     ctx\<lparr>memory := store32 (memory ctx) (bits_word off b) (f (load32 (memory ctx) (bits_word off b)))\<rparr>"

definition yos_sigemptyset :: "(int \<Rightarrow> int) \<Rightarrow> yos_exec_ctx \<Rightarrow> u32 \<Rightarrow> int \<times> yos_exec_ctx" where
  "yos_sigemptyset h2g ctx off =
     (if \<not> yos_sigset_bound ctx off then yos_errno_neg h2g ctx EFAULT
      else (0, ctx\<lparr>memory := mem_fill (memory ctx) (unat off) 0 YOS_FBSD_SIGSET_BYTES\<rparr>))"

definition yos_sigfillset :: "(int \<Rightarrow> int) \<Rightarrow> yos_exec_ctx \<Rightarrow> u32 \<Rightarrow> int \<times> yos_exec_ctx" where
  "yos_sigfillset h2g ctx off =
     (if \<not> yos_sigset_bound ctx off then yos_errno_neg h2g ctx EFAULT
      else (0, ctx\<lparr>memory := mem_fill (memory ctx) (unat off) 0xFF YOS_FBSD_SIGSET_BYTES\<rparr>))"

definition yos_sigaddset :: "(int \<Rightarrow> int) \<Rightarrow> yos_exec_ctx \<Rightarrow> u32 \<Rightarrow> int \<Rightarrow> int \<times> yos_exec_ctx" where
  "yos_sigaddset h2g ctx off signo =
     (if \<not> yos_sigset_bound ctx off then yos_errno_neg h2g ctx EFAULT
      else if \<not> yos_sigset_signo_ok signo then yos_errno_neg h2g ctx EINVAL
      else let b = nat (signo - 1) in (0, upd_bits ctx off b (\<lambda>w. w OR push_bit (b mod 32) 1)))"

definition yos_sigdelset :: "(int \<Rightarrow> int) \<Rightarrow> yos_exec_ctx \<Rightarrow> u32 \<Rightarrow> int \<Rightarrow> int \<times> yos_exec_ctx" where
  "yos_sigdelset h2g ctx off signo =
     (if \<not> yos_sigset_bound ctx off then yos_errno_neg h2g ctx EFAULT
      else if \<not> yos_sigset_signo_ok signo then yos_errno_neg h2g ctx EINVAL
      else let b = nat (signo - 1) in (0, upd_bits ctx off b (\<lambda>w. w AND NOT (push_bit (b mod 32) 1))))"

definition yos_sigismember :: "(int \<Rightarrow> int) \<Rightarrow> yos_exec_ctx \<Rightarrow> u32 \<Rightarrow> int \<Rightarrow> int \<times> yos_exec_ctx" where
  "yos_sigismember h2g ctx off signo =
     (if \<not> yos_sigset_bound ctx off then yos_errno_neg h2g ctx EFAULT
      else if \<not> yos_sigset_signo_ok signo then yos_errno_neg h2g ctx EINVAL
      else let b = nat (signo - 1) in
        (uint (drop_bit (b mod 32) (load32 (memory ctx) (bits_word off b)) AND 1), ctx))"

section \<open>The operations of signal.c\<close>

text \<open>
  The bound is computed in 32 bits here.  Each entry point first refreshes \<^verbatim>\<open>ctx->memory\<close> from the runtime: the
  context of the model is the refreshed one.
\<close>

definition sigset_at :: "yos_exec_ctx \<Rightarrow> u32 \<Rightarrow> nat option" where
  "sigset_at ctx off = (if off = 0 then None else if memory_size ctx < off + 16 then None else Some (unat off))"

definition store_words :: "mem \<Rightarrow> nat \<Rightarrow> u32 \<Rightarrow> mem" where
  "store_words m s v = store32 (store32 (store32 (store32 m (s + 12) v) (s + 8) v) (s + 4) v) s v"

definition m3_yos_sigemptyset :: "yos_exec_ctx \<Rightarrow> u32 \<Rightarrow> int \<times> yos_exec_ctx" where
  "m3_yos_sigemptyset ctx off =
     (case sigset_at ctx off of None \<Rightarrow> (- 1, ctx) | Some s \<Rightarrow> (0, ctx\<lparr>memory := store_words (memory ctx) s 0\<rparr>))"

definition m3_yos_sigfillset :: "yos_exec_ctx \<Rightarrow> u32 \<Rightarrow> int \<times> yos_exec_ctx" where
  "m3_yos_sigfillset ctx off =
     (case sigset_at ctx off of None \<Rightarrow> (- 1, ctx) | Some s \<Rightarrow> (0, ctx\<lparr>memory := store_words (memory ctx) s 0xFFFFFFFF\<rparr>))"

definition m3_yos_sigaddset :: "yos_exec_ctx \<Rightarrow> u32 \<Rightarrow> int \<Rightarrow> int \<times> yos_exec_ctx" where
  "m3_yos_sigaddset ctx off signo =
     (if sigset_at ctx off = None \<or> signo < 1 \<or> 128 < signo then (- 1, ctx)
      else let b = nat (signo - 1) in (0, upd_bits ctx off b (\<lambda>w. w OR push_bit (b mod 32) 1)))"

definition m3_yos_sigdelset :: "yos_exec_ctx \<Rightarrow> u32 \<Rightarrow> int \<Rightarrow> int \<times> yos_exec_ctx" where
  "m3_yos_sigdelset ctx off signo =
     (if sigset_at ctx off = None \<or> signo < 1 \<or> 128 < signo then (- 1, ctx)
      else let b = nat (signo - 1) in (0, upd_bits ctx off b (\<lambda>w. w AND NOT (push_bit (b mod 32) 1))))"

definition m3_yos_sigismember :: "yos_exec_ctx \<Rightarrow> u32 \<Rightarrow> int \<Rightarrow> int \<times> yos_exec_ctx" where
  "m3_yos_sigismember ctx off signo =
     (if sigset_at ctx off = None \<or> signo < 1 \<or> 128 < signo then (- 1, ctx)
      else let b = nat (signo - 1) in
        (uint (drop_bit (b mod 32) (load32 (memory ctx) (bits_word off b)) AND 1), ctx))"

section \<open>Signal numbers and sets of a Linux host\<close>

definition signo_table :: "int list" where
  "signo_table = [0, 1, 2, 3, 4, 5, 6, 0, 8, 9, 7, 11, 31, 13, 14, 15, 23, 19, 20, 18, 17, 21, 22, 29, 24, 25, 26, 27, 28, 0, 10, 12, 0]"

definition fbsd_to_host_signo :: "int \<Rightarrow> int" where
  "fbsd_to_host_signo fb = (if 1 \<le> fb \<and> fb \<le> 32 then signo_table ! nat fb else 0)"

definition host_to_fbsd_signo :: "int \<Rightarrow> int" where
  "host_to_fbsd_signo h = (case find (\<lambda>fb. fbsd_to_host_signo fb = h) [1..32] of None \<Rightarrow> 0 | Some fb \<Rightarrow> fb)"

text \<open>A host \<^verbatim>\<open>sigset_t\<close> is the set of its signals; the host's own numbers end at \<^verbatim>\<open>NSIG\<close>, 65 on Linux.\<close>

definition fbsd_sigset_to_host :: "mem \<Rightarrow> nat \<Rightarrow> int set" where
  "fbsd_sigset_to_host m fb =
     set (filter (\<lambda>h. 0 < h) (map fbsd_to_host_signo
       (filter (\<lambda>s. bit (m (fb + nat (s - 1) div 8)) (nat (s - 1) mod 8)) [1..32])))"

definition host_sigset_step :: "int set \<Rightarrow> nat \<Rightarrow> mem \<Rightarrow> int \<Rightarrow> mem" where
  "host_sigset_step host fb m h =
     (if h \<in> host \<and> 0 < host_to_fbsd_signo h
      then let b = nat (host_to_fbsd_signo h - 1); a = fb + b div 8 in m(a := m a OR push_bit (b mod 8) 1)
      else m)"

definition host_sigset_to_fbsd :: "int set \<Rightarrow> mem \<Rightarrow> nat \<Rightarrow> mem" where
  "host_sigset_to_fbsd host m fb =
     foldl (host_sigset_step host fb) (mem_fill m fb 0 YOS_FBSD_SIGSET_BYTES) [1..64]"

section \<open>The set a guest sees\<close>

definition sigset_of :: "mem \<Rightarrow> nat \<Rightarrow> int set" where
  "sigset_of m a = {s. 1 \<le> s \<and> s \<le> 128 \<and> bit (load32 m (a + 4 * (nat (s - 1) div 32))) (nat (s - 1) mod 32)}"

definition touches :: "yos_exec_ctx \<Rightarrow> u32 \<Rightarrow> yos_exec_ctx \<Rightarrow> bool" where
  "touches c off c' \<longleftrightarrow> (\<exists>m. c' = c\<lparr>memory := m\<rparr> \<and>
     (\<forall>i. i < unat off \<or> unat off + YOS_FBSD_SIGSET_BYTES \<le> i \<longrightarrow> m i = memory c i))"

lemma touches_refl: "touches c off c"
  by (auto simp: touches_def intro!: exI [of _ "memory c"])

lemma touches_trans: "touches c off c' \<Longrightarrow> touches c' off c'' \<Longrightarrow> touches c off c''"
  by (auto simp: touches_def)

lemma touches_memory_size: "touches c off c' \<Longrightarrow> memory_size c' = memory_size c"
  by (auto simp: touches_def)

lemma bit_load32: "n < 32 \<Longrightarrow> bit (load32 m a) n = bit (m (a + n div 8)) (n mod 8)"
proof -
  assume n: "n < 32"
  then consider "n < 8" | "8 \<le> n \<and> n < 16" | "16 \<le> n \<and> n < 24" | "24 \<le> n \<and> n < 32" by linarith
  then show ?thesis
  proof cases
    case 1
    then show ?thesis by (simp add: load32_def bit_simps)
  next
    case 2
    then have "n div 8 = 1" "n mod 8 = n - 8" by presburger+
    then show ?thesis using 2 by (auto simp: load32_def bit_simps dest: bit_imp_le_length)
  next
    case 3
    then have "n div 8 = 2" "n mod 8 = n - 16" by presburger+
    then show ?thesis using 3 by (auto simp: load32_def bit_simps dest: bit_imp_le_length)
  next
    case 4
    then have "n div 8 = 3" "n mod 8 = n - 24" by presburger+
    then show ?thesis using 4 by (auto simp: load32_def bit_simps dest: bit_imp_le_length)
  qed
qed

lemma word_byte: "4 * (b div 32) + b mod 32 div 8 = (b div 8 :: nat)"
proof -
  have "b div 8 = (4 * (b div 32) * 8 + b mod 32) div 8" by simp
  then show ?thesis by (simp only: div_mult_self3)
qed

lemma sigset_of_bytes:
  "s \<in> sigset_of m a \<longleftrightarrow> 1 \<le> s \<and> s \<le> 128 \<and> bit (m (a + nat (s - 1) div 8)) (nat (s - 1) mod 8)"
proof -
  let ?b = "nat (s - 1)"
  have "a + 4 * (?b div 32) + ?b mod 32 div 8 = a + ?b div 8" "?b mod 32 mod 8 = ?b mod 8"
    using word_byte [of ?b] by (simp_all add: mod_mod_cancel)
  then show ?thesis by (simp add: sigset_of_def bit_load32 add.assoc)
qed

lemma sigset_of_fill: "sigset_of (mem_fill m a 0 16) a = {}" "sigset_of (mem_fill m a 0xFF 16) a = {1..128}"
proof -
  have i: "mem_fill m a v 16 (a + nat (s - 1) div 8) = v" if "1 \<le> s" "s \<le> 128" for s v
    using that by (intro mem_fill_in) auto
  have f: "bit (0xFF :: u8) n" if "n < 8" for n
  proof -
    have "bit (mask 8 :: u8) n" using that by (simp add: bit_mask_iff)
    then show ?thesis by (simp add: mask_eq_exp_minus_1)
  qed
  show "sigset_of (mem_fill m a 0 16) a = {}" using i by (auto simp: sigset_of_bytes)
  show "sigset_of (mem_fill m a 0xFF 16) a = {1..128}" using i f by (auto simp: sigset_of_bytes)
qed

lemma sigset_of_upd:
  assumes "1 \<le> s" and "s \<le> 128" and "\<And>w n. n < 32 \<Longrightarrow> n \<noteq> nat (s - 1) mod 32 \<Longrightarrow> bit (f w) n = bit w n"
  shows "x \<in> sigset_of (memory (upd_bits c off (nat (s - 1)) f)) (unat off) \<longleftrightarrow>
    (if x = s then bit (f (load32 (memory c) (bits_word off (nat (s - 1))))) (nat (s - 1) mod 32)
     else x \<in> sigset_of (memory c) (unat off))"
proof -
  let ?b = "nat (s - 1)" and ?d = "nat (x - 1)"
  let ?v = "f (load32 (memory c) (bits_word off ?b))"
  have l: "load32 (memory (upd_bits c off ?b f)) (bits_word off ?d) =
      (if ?d div 32 = ?b div 32 then ?v else load32 (memory c) (bits_word off ?d))"
    by (auto simp: upd_bits_def bits_word_def intro!: load32_store32_other)
  show ?thesis
  proof (cases "?d div 32 = ?b div 32 \<and> 1 \<le> x")
    case False
    then have "x \<noteq> s" using assms(1) by auto
    then show ?thesis using l False by (auto simp: sigset_of_def bits_word_def [symmetric])
  next
    case True
    then have same: "bits_word off ?d = bits_word off ?b" by (simp add: bits_word_def)
    have "?d mod 32 = ?b mod 32 \<longleftrightarrow> ?d = ?b" using True by (metis div_mult_mod_eq)
    then have eq: "?d mod 32 = ?b mod 32 \<longleftrightarrow> x = s" using True assms(1) by (simp add: nat_eq_iff)
    show ?thesis using assms l True eq same by (auto simp: sigset_of_def bits_word_def [symmetric])
  qed
qed

lemma sigset_of_add:
  "1 \<le> s \<Longrightarrow> s \<le> 128 \<Longrightarrow>
     sigset_of (memory (upd_bits c off (nat (s - 1)) (\<lambda>w. w OR push_bit (nat (s - 1) mod 32) 1))) (unat off) =
     insert s (sigset_of (memory c) (unat off))"
  using sigset_of_upd [of s "\<lambda>w. w OR push_bit (nat (s - 1) mod 32) 1" _ c off]
  by (intro set_eqI) (simp add: bit_simps)

lemma sigset_of_del:
  "1 \<le> s \<Longrightarrow> s \<le> 128 \<Longrightarrow>
     sigset_of (memory (upd_bits c off (nat (s - 1)) (\<lambda>w. w AND NOT (push_bit (nat (s - 1) mod 32) 1)))) (unat off) =
     sigset_of (memory c) (unat off) - {s}"
  using sigset_of_upd [of s "\<lambda>w. w AND NOT (push_bit (nat (s - 1) mod 32) 1)" _ c off]
  by (intro set_eqI) (simp add: bit_simps)

lemma sigset_member_bit:
  "1 \<le> s \<Longrightarrow> s \<le> 128 \<Longrightarrow>
     uint (drop_bit (nat (s - 1) mod 32) (load32 m (bits_word off (nat (s - 1)))) AND 1) =
     (if s \<in> sigset_of m (unat off) then 1 else 0)"
  by (simp add: sigset_of_def bits_word_def [symmetric] and_one_eq mod_2_eq_odd bit_iff_odd_drop_bit)

lemma touches_upd_bits: "b < 128 \<Longrightarrow> touches c off (upd_bits c off b f)"
proof -
  assume "b < 128"
  then have "b div 32 < 4" by (simp add: less_mult_imp_div_less)
  then have "4 * (b div 32) + 4 \<le> 16" by simp
  then show ?thesis by (auto simp: touches_def upd_bits_def bits_word_def store32_other)
qed

lemma store_words_fill:
  assumes "\<And>j. j < 4 \<Longrightarrow> ucast (drop_bit (8 * j) v) = (b :: u8)"
  shows "store_words m s v = mem_fill m s b 16"
proof
  fix i
  have v: "ucast v = b" "ucast (drop_bit 8 v) = b" "ucast (drop_bit 16 v) = b" "ucast (drop_bit 24 v) = b"
    using assms [of 0] assms [of 1] assms [of 2] assms [of 3] by simp_all
  consider "i < s \<or> s + 16 \<le> i" | j where "i = s + j" "j < 16" by (metis le_add_diff_inverse nat_add_left_cancel_less not_le)
  then show "store_words m s v i = mem_fill m s b 16 i"
  proof cases
    case 2
    then have "j \<in> set [0..<16]" by simp
    then show ?thesis using 2 v by (simp add: store_words_def store32_def upt_rec) (elim disjE; simp)
  qed (auto simp: store_words_def store32_def mem_fill_def)
qed

lemma store_words_0: "store_words m s 0 = mem_fill m s 0 16"
  by (rule store_words_fill) simp

lemma store_words_ones: "store_words m s 0xFFFFFFFF = mem_fill m s 0xFF 16"
proof (rule store_words_fill)
  fix j :: nat
  assume "j < 4"
  then have "j \<in> {0, 1, 2, 3}" by auto
  then show "ucast (drop_bit (8 * j) (0xFFFFFFFF :: u32)) = (0xFF :: u8)" by (elim insertE emptyE; simp)
qed

section \<open>The interface of the set operations\<close>

text \<open>
  What a guest relies on: on a valid set the operations succeed, touch nothing but the 16 bytes and act on the
  set of numbers as their names say.
\<close>

datatype sigset_op = Emptyset | Fillset | Addset int | Delset int

fun sigset_ok :: "sigset_op \<Rightarrow> bool" where
  "sigset_ok (Addset s) = yos_sigset_signo_ok s"
| "sigset_ok (Delset s) = yos_sigset_signo_ok s"
| "sigset_ok _ = True"

fun sigset_spec :: "sigset_op \<Rightarrow> int set \<Rightarrow> int set" where
  "sigset_spec Emptyset S = {}"
| "sigset_spec Fillset S = {1..128}"
| "sigset_spec (Addset s) S = insert s S"
| "sigset_spec (Delset s) S = S - {s}"

locale sigset_impl =
  fixes valid :: "yos_exec_ctx \<Rightarrow> u32 \<Rightarrow> bool"
    and perform :: "sigset_op \<Rightarrow> yos_exec_ctx \<Rightarrow> u32 \<Rightarrow> int \<times> yos_exec_ctx"
    and ismember :: "yos_exec_ctx \<Rightarrow> u32 \<Rightarrow> int \<Rightarrow> int \<times> yos_exec_ctx"
  assumes valid_touches: "valid c off \<Longrightarrow> touches c off c' \<Longrightarrow> valid c' off"
    and perform_touches: "valid c off \<Longrightarrow> sigset_ok oper \<Longrightarrow> touches c off (snd (perform oper c off))"
    and perform_result: "valid c off \<Longrightarrow> sigset_ok oper \<Longrightarrow> fst (perform oper c off) = 0"
    and perform_spec: "valid c off \<Longrightarrow> sigset_ok oper \<Longrightarrow>
      sigset_of (memory (snd (perform oper c off))) (unat off) = sigset_spec oper (sigset_of (memory c) (unat off))"
    and ismember_spec: "valid c off \<Longrightarrow> yos_sigset_signo_ok s \<Longrightarrow>
      ismember c off s = (if s \<in> sigset_of (memory c) (unat off) then 1 else 0, c)"
begin

lemma run_spec:
  assumes "valid c off" and "list_all sigset_ok opers"
  shows "valid (foldl (\<lambda>c oper. snd (perform oper c off)) c opers) off \<and>
    touches c off (foldl (\<lambda>c oper. snd (perform oper c off)) c opers) \<and>
    sigset_of (memory (foldl (\<lambda>c oper. snd (perform oper c off)) c opers)) (unat off) =
      foldl (\<lambda>S oper. sigset_spec oper S) (sigset_of (memory c) (unat off)) opers"
  using assms
proof (induction opers arbitrary: c)
  case Nil
  then show ?case by (simp add: touches_refl)
next
  case (Cons oper opers)
  let ?c = "snd (perform oper c off)"
  have ok: "sigset_ok oper" using Cons.prems(2) by simp
  note t = perform_touches [OF Cons.prems(1) ok]
  have "valid ?c off" using valid_touches [OF Cons.prems(1) t] .
  then have ih: "touches ?c off (foldl (\<lambda>c oper. snd (perform oper c off)) ?c opers)"
    "valid (foldl (\<lambda>c oper. snd (perform oper c off)) ?c opers) off"
    "sigset_of (memory (foldl (\<lambda>c oper. snd (perform oper c off)) ?c opers)) (unat off) =
      foldl (\<lambda>S oper. sigset_spec oper S) (sigset_of (memory ?c) (unat off)) opers"
    using Cons.IH Cons.prems(2) by simp_all
  have "touches c off (foldl (\<lambda>c oper. snd (perform oper c off)) ?c opers)"
    using touches_trans [OF t ih(1)] .
  then show ?case using ih perform_spec [OF Cons.prems(1) ok] by simp
qed

lemma run_then_member:
  assumes "valid c off" and "list_all sigset_ok opers" and "yos_sigset_signo_ok s"
  shows "fst (ismember (foldl (\<lambda>c oper. snd (perform oper c off)) c opers) off s) =
    (if s \<in> foldl (\<lambda>S oper. sigset_spec oper S) (sigset_of (memory c) (unat off)) opers then 1 else 0)"
  using run_spec [OF assms(1,2)] ismember_spec [OF _ assms(3)] by simp

end

fun sig_op :: "(int \<Rightarrow> int) \<Rightarrow> sigset_op \<Rightarrow> yos_exec_ctx \<Rightarrow> u32 \<Rightarrow> int \<times> yos_exec_ctx" where
  "sig_op h2g Emptyset c off = yos_sigemptyset h2g c off"
| "sig_op h2g Fillset c off = yos_sigfillset h2g c off"
| "sig_op h2g (Addset s) c off = yos_sigaddset h2g c off s"
| "sig_op h2g (Delset s) c off = yos_sigdelset h2g c off s"

fun m3_sig_op :: "sigset_op \<Rightarrow> yos_exec_ctx \<Rightarrow> u32 \<Rightarrow> int \<times> yos_exec_ctx" where
  "m3_sig_op Emptyset c off = m3_yos_sigemptyset c off"
| "m3_sig_op Fillset c off = m3_yos_sigfillset c off"
| "m3_sig_op (Addset s) c off = m3_yos_sigaddset c off s"
| "m3_sig_op (Delset s) c off = m3_yos_sigdelset c off s"

lemma touches_fill: "touches c off (c\<lparr>memory := mem_fill (memory c) (unat off) v 16\<rparr>)"
  by (auto simp: touches_def mem_fill_def)

lemma signo_ok_bit: "yos_sigset_signo_ok s \<Longrightarrow> nat (s - 1) < 128"
  by (auto simp: yos_sigset_signo_ok_def)

interpretation sig_c: sigset_impl yos_sigset_bound "sig_op h2g" "yos_sigismember h2g" for h2g
proof
  fix c c' off oper s
  assume v: "yos_sigset_bound c off"
  show "yos_sigset_bound c' off" if "touches c off c'"
    using v touches_memory_size [OF that] by (simp add: yos_sigset_bound_def)
  show "touches c off (snd (sig_op h2g oper c off))" if "sigset_ok oper"
    using v that signo_ok_bit touches_upd_bits touches_fill
    by (cases oper) (auto simp: yos_sigemptyset_def yos_sigfillset_def yos_sigaddset_def yos_sigdelset_def Let_def)
  show "fst (sig_op h2g oper c off) = 0" if "sigset_ok oper"
    using v that by (cases oper) (simp_all add: yos_sigemptyset_def yos_sigfillset_def yos_sigaddset_def yos_sigdelset_def Let_def)
  show "sigset_of (memory (snd (sig_op h2g oper c off))) (unat off) = sigset_spec oper (sigset_of (memory c) (unat off))" if "sigset_ok oper"
    using v that sigset_of_add [of _ c off] sigset_of_del [of _ c off]
    by (cases oper) (simp_all add: yos_sigemptyset_def yos_sigfillset_def yos_sigaddset_def yos_sigdelset_def Let_def
        sigset_of_fill yos_sigset_signo_ok_def)
  show "yos_sigismember h2g c off s = (if s \<in> sigset_of (memory c) (unat off) then 1 else 0, c)" if "yos_sigset_signo_ok s"
    using v that sigset_member_bit [of s "memory c" off] by (simp add: yos_sigismember_def Let_def yos_sigset_signo_ok_def)
qed

lemma sigset_at_bound: "yos_sigset_bound c off \<Longrightarrow> sigset_at c off = Some (unat off)"
proof -
  assume v: "yos_sigset_bound c off"
  then have "unat (off + 16) = unat off + 16"
    using unat_u32_lt [of "memory_size c"] unat_add_nowrap [of off 16] by (simp add: yos_sigset_bound_def)
  then show ?thesis using v by (simp add: sigset_at_def yos_sigset_bound_def u32_less_unat)
qed

interpretation signal_c: sigset_impl yos_sigset_bound m3_sig_op m3_yos_sigismember
proof
  fix c c' off oper s
  assume v: "yos_sigset_bound c off"
  note at = sigset_at_bound [OF v]
  show "yos_sigset_bound c' off" if "touches c off c'" by (rule sig_c.valid_touches [OF v that])
  have same: "m3_sig_op oper c off = sig_op id oper c off" if "sigset_ok oper"
    using v at that
    by (cases oper) (simp_all add: m3_yos_sigemptyset_def m3_yos_sigfillset_def m3_yos_sigaddset_def m3_yos_sigdelset_def
        yos_sigemptyset_def yos_sigfillset_def yos_sigaddset_def yos_sigdelset_def store_words_0 store_words_ones yos_sigset_signo_ok_def)
  show "touches c off (snd (m3_sig_op oper c off))" if "sigset_ok oper"
    using sig_c.perform_touches [OF v that] same [OF that] by simp
  show "fst (m3_sig_op oper c off) = 0" if "sigset_ok oper"
    using sig_c.perform_result [OF v that] same [OF that] by simp
  show "sigset_of (memory (snd (m3_sig_op oper c off))) (unat off) = sigset_spec oper (sigset_of (memory c) (unat off))"
    if "sigset_ok oper"
    using sig_c.perform_spec [OF v that] same [OF that] by simp
  show "m3_yos_sigismember c off s = (if s \<in> sigset_of (memory c) (unat off) then 1 else 0, c)" if "yos_sigset_signo_ok s"
    using at that sigset_member_bit [of s "memory c" off] by (simp add: m3_yos_sigismember_def Let_def yos_sigset_signo_ok_def)
qed

text \<open>
  Claim C16: both implementations of the signal-set operations are sets of the numbers 1 to 128: after any sequence of
  \<^verbatim>\<open>sigemptyset\<close>, \<^verbatim>\<open>sigfillset\<close>, \<^verbatim>\<open>sigaddset\<close> and \<^verbatim>\<open>sigdelset\<close> on a set inside linear memory, \<^verbatim>\<open>sigismember\<close> answers as
  the mathematical set does, and nothing but the 16 bytes of the set has changed.
\<close>

theorem sigset_ops_exact:
  assumes "yos_sigset_bound c off" and "list_all sigset_ok opers" and "yos_sigset_signo_ok s"
    and "S = foldl (\<lambda>S oper. sigset_spec oper S) (sigset_of (memory c) (unat off)) opers"
    and "c1 = foldl (\<lambda>c oper. snd (sig_op h2g oper c off)) c opers"
    and "c2 = foldl (\<lambda>c oper. snd (m3_sig_op oper c off)) c opers"
  shows "fst (yos_sigismember h2g c1 off s) = (if s \<in> S then 1 else 0) \<and> touches c off c1 \<and>
    fst (m3_yos_sigismember c2 off s) = (if s \<in> S then 1 else 0) \<and> touches c off c2"
  unfolding assms(4,5,6)
  using sig_c.run_then_member [OF assms(1,2,3)] signal_c.run_then_member [OF assms(1,2,3)]
    sig_c.run_spec [OF assms(1,2)] signal_c.run_spec [OF assms(1,2)] by simp

theorem sigset_ops_exact_witness:
  "fst (yos_sigismember (\<lambda>e. e) (foldl (\<lambda>c oper. snd (sig_op (\<lambda>e. e) oper c 1024)) (ctx_calloc (\<lambda>_. 7) 65536)
     [Emptyset, Addset 128, Addset 20, Delset 128]) 1024 20) = 1"
proof -
  let ?c = "ctx_calloc (\<lambda>_. 7) 65536" and ?o = "[Emptyset, Addset 128, Addset 20, Delset 128]"
  have v: "yos_sigset_bound ?c 1024" by (simp add: yos_sigset_bound_def ctx_calloc_def)
  have l: "list_all sigset_ok ?o" "yos_sigset_signo_ok 20" by (simp_all add: yos_sigset_signo_ok_def)
  show ?thesis
    using sigset_ops_exact [OF v l refl refl refl, of "\<lambda>e. e"] by (simp del: sig_op.simps m3_sig_op.simps)
qed

text \<open>The 32-bit bound of \<^verbatim>\<open>signal.c\<close> accepts the last 16 offsets, which lie far behind linear memory.\<close>

lemma sigset_at_wraps: "16 \<le> memory_size c \<Longrightarrow> sigset_at c 0xFFFFFFF0 = Some 4294967280"
  by (simp add: sigset_at_def u32_less_unat)

section \<open>Translation to the host and back\<close>

lemma signo_host_range: "0 < fbsd_to_host_signo s \<Longrightarrow> 1 \<le> s \<and> s \<le> 32"
  by (simp add: fbsd_to_host_signo_def split: if_splits)

lemma signo_check:
  "list_all (\<lambda>s. 0 < fbsd_to_host_signo s \<longrightarrow>
     fbsd_to_host_signo s \<le> 64 \<and> host_to_fbsd_signo (fbsd_to_host_signo s) = s) [1..32]"
  by code_simp

lemma signo_roundtrip: "0 < fbsd_to_host_signo s \<Longrightarrow> fbsd_to_host_signo s \<le> 64 \<and> host_to_fbsd_signo (fbsd_to_host_signo s) = s"
  using signo_check signo_host_range [of s] by (simp add: list_all_iff)

lemma signo_host_inv:
  assumes "0 < host_to_fbsd_signo h"
  shows "fbsd_to_host_signo (host_to_fbsd_signo h) = h \<and> host_to_fbsd_signo h \<le> 32"
proof (cases "find (\<lambda>fb. fbsd_to_host_signo fb = h) [1..32]")
  case (Some fb)
  then have "fbsd_to_host_signo fb = h" "fb \<in> set [1..32]" by (auto simp: find_Some_iff)
  then show ?thesis using Some by (simp add: host_to_fbsd_signo_def)
qed (use assms in \<open>simp add: host_to_fbsd_signo_def\<close>)

lemma sigset_to_host_iff:
  "h \<in> fbsd_sigset_to_host m a \<longleftrightarrow> 0 < h \<and> (\<exists>s\<in>sigset_of m a. fbsd_to_host_signo s = h)"
  by (auto simp: fbsd_sigset_to_host_def sigset_of_bytes dest: signo_host_range)

lemma host_sigset_step_set:
  "sigset_of (host_sigset_step host a m h) a =
     sigset_of m a \<union> (if h \<in> host \<and> 0 < host_to_fbsd_signo h then {host_to_fbsd_signo h} else {})"
proof (cases "h \<in> host \<and> 0 < host_to_fbsd_signo h")
  case True
  let ?s = "host_to_fbsd_signo h" and ?b = "nat (host_to_fbsd_signo h - 1)"
  have s: "1 \<le> ?s" "?s \<le> 128" using True signo_host_inv [of h] by auto
  have "x \<in> sigset_of (host_sigset_step host a m h) a \<longleftrightarrow> x \<in> sigset_of m a \<or> x = ?s" for x
  proof (cases "1 \<le> x \<and> nat (x - 1) div 8 = ?b div 8")
    case False
    then have "x \<noteq> ?s" using s by auto
    then show ?thesis using False True by (auto simp: sigset_of_bytes host_sigset_step_def Let_def)
  next
    case x: True
    have "nat (x - 1) mod 8 = ?b mod 8 \<longleftrightarrow> nat (x - 1) = ?b" using x by (metis div_mult_mod_eq)
    then have "nat (x - 1) mod 8 = ?b mod 8 \<longleftrightarrow> x = ?s" using x s(1) by (simp add: nat_eq_iff)
    then show ?thesis using x True s by (auto simp: sigset_of_bytes host_sigset_step_def Let_def bit_simps)
  qed
  then show ?thesis using True by auto
qed (auto simp: host_sigset_step_def)

lemma host_sigset_to_fbsd_set:
  "s \<in> sigset_of (host_sigset_to_fbsd host m a) a \<longleftrightarrow> (\<exists>h\<in>host. 1 \<le> h \<and> h \<le> 64 \<and> 0 < s \<and> host_to_fbsd_signo h = s)"
proof -
  have "sigset_of (foldl (host_sigset_step host a) m0 hs) a =
      sigset_of m0 a \<union> {s. \<exists>h\<in>host. h \<in> set hs \<and> 0 < s \<and> host_to_fbsd_signo h = s}" for hs m0
    by (induction hs arbitrary: m0) (auto simp: host_sigset_step_set)
  then show ?thesis by (auto simp: host_sigset_to_fbsd_def sigset_of_fill)
qed

text \<open>
  A set that goes to the host and comes back holds exactly the signals both systems have.
\<close>

lemma sigset_host_roundtrip:
  "sigset_of (host_sigset_to_fbsd (fbsd_sigset_to_host m a) m' b) b = {s \<in> sigset_of m a. 0 < fbsd_to_host_signo s}"
proof (intro set_eqI iffI)
  fix s
  assume "s \<in> sigset_of (host_sigset_to_fbsd (fbsd_sigset_to_host m a) m' b) b"
  then obtain h t where "0 < h" "host_to_fbsd_signo h = s" "t \<in> sigset_of m a" "fbsd_to_host_signo t = h"
    by (auto simp: host_sigset_to_fbsd_set sigset_to_host_iff)
  then show "s \<in> {s \<in> sigset_of m a. 0 < fbsd_to_host_signo s}" using signo_roundtrip [of t] by auto
next
  fix s
  assume "s \<in> {s \<in> sigset_of m a. 0 < fbsd_to_host_signo s}"
  then show "s \<in> sigset_of (host_sigset_to_fbsd (fbsd_sigset_to_host m a) m' b) b"
    using signo_roundtrip [of s] signo_host_range [of s]
    unfolding host_sigset_to_fbsd_set by (intro bexI [of _ "fbsd_to_host_signo s"]) (auto simp: sigset_to_host_iff)
qed

end
