(* ===== verification/Signals.thy ===== *)
theory Signals
  imports Sigset ProcTable
begin

text \<open>
  Signals to a guest, \<^verbatim>\<open>src/src/yos/impl/proc/sig.c\<close>, \<^verbatim>\<open>sig-linux.c\<close> and \<^verbatim>\<open>yos_kill\<close> of \<^verbatim>\<open>proc.c\<close>: dispositions,
  the blocked and pending masks, the pump that runs handlers, and the calls that wait.  Inside the
  context signal \<open>s\<close> is bit \<open>s\<close> of a mask; in a guest's \<^verbatim>\<open>sigset_t\<close> it is bit \<open>s - 1\<close>.

  A handler is guest code: running it is a parameter, which may end the thread or change anything.
  \<open>None\<close> is a call that never returns.
\<close>

section \<open>State and parameters\<close>

text \<open>The runtime and the process-wide queue \<^verbatim>\<open>g_host_pending_signals\<close>.\<close>

record sig_world =
  srt :: yos_runtime
  host_pending :: u32

text \<open>How a call ends: it returns, its host thread ends (\<^verbatim>\<open>pthread_exit\<close>), or the host process exits.\<close>

datatype sig_end = Returned | ThreadEnds | HostExits int

text \<open>
  \<^verbatim>\<open>pthread_kill\<close>; whether a context's function table has a callable function at an index; and what calling it
  with a signal number does.
\<close>

record sig_host =
  pkill :: "nat \<Rightarrow> int \<Rightarrow> int"
  callable :: "nat \<Rightarrow> u32 \<Rightarrow> bool"
  run_guest :: "nat \<Rightarrow> u32 \<Rightarrow> int \<Rightarrow> sig_world \<Rightarrow> sig_end \<times> sig_world"

abbreviation YOS_NSIG :: int where "YOS_NSIG \<equiv> 32"
abbreviation YOS_SIG_DFL :: u32 where "YOS_SIG_DFL \<equiv> 0"
abbreviation YOS_SIG_IGN :: u32 where "YOS_SIG_IGN \<equiv> 1"
abbreviation YOS_SIG_ERR :: u32 where "YOS_SIG_ERR \<equiv> 0xFFFFFFFF"
abbreviation YOS_FBSD_SIGKILL :: nat where "YOS_FBSD_SIGKILL \<equiv> 9"
abbreviation YOS_FBSD_SIGSTOP :: nat where "YOS_FBSD_SIGSTOP \<equiv> 17"

definition sctx :: "sig_world \<Rightarrow> nat \<Rightarrow> yos_exec_ctx" where
  "sctx w me = ctxs (srt w) me"

definition upd_sctx :: "sig_world \<Rightarrow> nat \<Rightarrow> (yos_exec_ctx \<Rightarrow> yos_exec_ctx) \<Rightarrow> sig_world" where
  "upd_sctx w me f = w\<lparr>srt := upd_ctx (srt w) me f\<rparr>"

section \<open>Dispositions\<close>

definition record_handler :: "yos_exec_ctx \<Rightarrow> int \<Rightarrow> u32 \<Rightarrow> yos_exec_ctx" where
  "record_handler ctx signum handler_idx =
     (if signum \<le> 0 \<or> YOS_NSIG \<le> signum then ctx
      else let s = nat signum in
        if handler_idx = YOS_SIG_DFL then
          ctx\<lparr>sig_ignore_mask := sig_ignore_mask ctx AND NOT (push_bit s 1), sig_handlers := (sig_handlers ctx)[s := 0]\<rparr>
        else if handler_idx = YOS_SIG_IGN then
          ctx\<lparr>sig_ignore_mask := sig_ignore_mask ctx OR push_bit s 1, sig_handlers := (sig_handlers ctx)[s := 0]\<rparr>
        else
          ctx\<lparr>sig_ignore_mask := sig_ignore_mask ctx AND NOT (push_bit s 1), sig_handlers := (sig_handlers ctx)[s := handler_idx]\<rparr>)"

text \<open>The handler in the guest's encoding, 1 for an ignored signal.\<close>

definition prev_abi :: "yos_exec_ctx \<Rightarrow> int \<Rightarrow> u32" where
  "prev_abi ctx signum = (if bit (sig_ignore_mask ctx) (nat signum) then YOS_SIG_IGN else sig_handlers ctx ! nat signum)"

definition yos_sig_rt_sigaction ::
  "(int \<Rightarrow> int) \<Rightarrow> yos_exec_ctx \<Rightarrow> int \<Rightarrow> u32 \<Rightarrow> u32 \<Rightarrow> int \<times> yos_exec_ctx" where
  "yos_sig_rt_sigaction h2g ctx signum act oldact =
     (if signum \<le> 0 \<or> YOS_NSIG \<le> signum then yos_errno_neg h2g ctx EINVAL
      else let prev = prev_abi ctx signum;
               c1 = (if act \<noteq> 0 \<and> act + 4 \<le> memory_size ctx
                     then record_handler ctx signum (load32 (memory ctx) (unat act)) else ctx)
           in (0, if oldact \<noteq> 0 \<and> oldact + 24 \<le> memory_size c1
                  then c1\<lparr>memory := store32 (mem_fill (memory c1) (unat oldact) 0 24) (unat oldact) prev\<rparr>
                  else c1))"

definition yos_sigaction :: "(int \<Rightarrow> int) \<Rightarrow> yos_exec_ctx \<Rightarrow> int \<Rightarrow> u32 \<Rightarrow> u32 \<Rightarrow> int \<times> yos_exec_ctx" where
  "yos_sigaction h2g ctx signum act oldact = yos_sig_rt_sigaction h2g ctx signum act oldact"

definition yos_signal :: "yos_exec_ctx \<Rightarrow> int \<Rightarrow> u32 \<Rightarrow> u32 \<times> yos_exec_ctx" where
  "yos_signal ctx signum handler =
     (if signum \<le> 0 \<or> YOS_NSIG \<le> signum then (YOS_SIG_ERR, ctx)
      else (prev_abi ctx signum, record_handler ctx signum handler))"

section \<open>Delivery\<close>

definition signum_bit :: "int \<Rightarrow> u32" where
  "signum_bit signum = (if 0 < signum \<and> signum < YOS_NSIG then push_bit (nat signum) 1 else 0)"

definition yos_signal_set_pending :: "u32 \<Rightarrow> int \<Rightarrow> u32" where
  "yos_signal_set_pending g signum = (if signum \<le> 0 \<or> YOS_NSIG \<le> signum then g else g OR push_bit (nat signum) 1)"

definition default_action_is_terminate :: "int \<Rightarrow> bool" where
  "default_action_is_terminate signum \<longleftrightarrow>
     signum \<in> {1, 2, 3, 4, 5, 6, 7, 8, 9, 10, 11, 12, 13, 14, 15, 24, 25, 26, 27, 30, 31}"

text \<open>Marking the process of slot \<open>i\<close> killed by a signal, and waking its waiters.\<close>

definition mark_killed :: "sig_world \<Rightarrow> nat \<Rightarrow> int \<Rightarrow> sig_world" where
  "mark_killed w i signum = w\<lparr>srt := log_host (upd_proc (srt w) i
     (\<lambda>p. p\<lparr>pstate := YOS_PROC_ZOMBIE, exit_code := 0, term_sig := signum, exited := True\<rparr>)) [HWaitBroadcast i]\<rparr>"

definition invoke_signal_handler :: "sig_host \<Rightarrow> sig_world \<Rightarrow> nat \<Rightarrow> int \<Rightarrow> sig_end \<times> sig_world" where
  "invoke_signal_handler H w me signum =
     (let ctx = sctx w me; idx = sig_handlers ctx ! nat signum in
      if signum \<le> 0 \<or> YOS_NSIG \<le> signum then (Returned, w)
      else if bit (sig_ignore_mask ctx) (nat signum) then (Returned, w)
      else if idx = YOS_SIG_DFL then
        (case proc_slot ctx of
           None \<Rightarrow> (Returned, w)
         | Some i \<Rightarrow>
             if \<not> default_action_is_terminate signum then (Returned, w)
             else let w1 = mark_killed w i signum in
               if pid (procs (srt w1) ! i) \<le> 1 then (HostExits (128 + signum), w1)
               else (ThreadEnds, w1\<lparr>srt := yos_proc_post_exit_cleanup (pkill H) (srt w1) me\<rparr>))
      else if \<not> callable H me idx then (Returned, w)
      else run_guest H me idx signum w)"

text \<open>\<^verbatim>\<open>__builtin_ctz\<close> of a nonzero mask.\<close>

definition ctz :: "u32 \<Rightarrow> nat" where
  "ctz x = length (takeWhile (\<lambda>i. \<not> bit x i) [0..<32])"

definition deliverable :: "yos_exec_ctx \<Rightarrow> u32" where
  "deliverable ctx = sig_pending ctx AND NOT (sig_mask ctx)"

definition clear_pending :: "nat \<Rightarrow> yos_exec_ctx \<Rightarrow> yos_exec_ctx" where
  "clear_pending s ctx = ctx\<lparr>sig_pending := sig_pending ctx AND NOT (push_bit s 1)\<rparr>"

partial_function (option) pump_loop :: "sig_host \<Rightarrow> nat \<Rightarrow> sig_world \<Rightarrow> (sig_end \<times> sig_world) option" where
  "pump_loop H me w =
     (if deliverable (sctx w me) = 0 then Some (Returned, w)
      else let s = ctz (deliverable (sctx w me)) in
        case invoke_signal_handler H (upd_sctx w me (clear_pending s)) me (int s) of
          (e, w') \<Rightarrow> if e = Returned then pump_loop H me w' else Some (e, w'))"

text \<open>Merging the host's queue into the context's pending set.\<close>

definition take_host_pending :: "sig_world \<Rightarrow> nat \<Rightarrow> sig_world" where
  "take_host_pending w me =
     (upd_sctx w me (\<lambda>c. c\<lparr>sig_pending := sig_pending c OR host_pending w\<rparr>))\<lparr>host_pending := 0\<rparr>"

definition yos_signal_pump :: "sig_host \<Rightarrow> sig_world \<Rightarrow> nat \<Rightarrow> (sig_end \<times> sig_world) option" where
  "yos_signal_pump H w me =
     (let w1 = take_host_pending w me in
      if bit (sig_pending (sctx w1 me)) 9 then
        Some (case proc_slot (sctx w1 me) of
                None \<Rightarrow> (ThreadEnds, w1)
              | Some i \<Rightarrow> let w2 = mark_killed w1 i 9 in
                  if pid (procs (srt w2) ! i) \<le> 1 then (HostExits (128 + 9), w2) else (ThreadEnds, w2))
      else pump_loop H me w1)"

section \<open>The blocked mask\<close>

definition read_fbsd_sigset_lo :: "yos_exec_ctx \<Rightarrow> u32 \<Rightarrow> u32" where
  "read_fbsd_sigset_lo ctx off = (if \<not> yos_sigset_bound ctx off then 0 else load32 (memory ctx) (unat off))"

definition write_fbsd_sigset_lo :: "yos_exec_ctx \<Rightarrow> u32 \<Rightarrow> u32 \<Rightarrow> yos_exec_ctx" where
  "write_fbsd_sigset_lo ctx off lo =
     (if \<not> yos_sigset_bound ctx off then ctx
      else ctx\<lparr>memory := mem_fill (store32 (memory ctx) (unat off) lo) (unat off + 4) 0 12\<rparr>)"

definition strip_unblockable :: "u32 \<Rightarrow> u32" where
  "strip_unblockable s = s AND NOT (push_bit YOS_FBSD_SIGKILL 1 OR push_bit YOS_FBSD_SIGSTOP 1)"

definition new_mask :: "u32 \<Rightarrow> int \<Rightarrow> u32 \<Rightarrow> u32 option" where
  "new_mask prev how s =
     (if how = 1 then Some (prev OR s) else if how = 2 then Some (prev AND NOT s) else if how = 3 then Some s else None)"

text \<open>A result of a call: how it ended, its value and the state, or \<open>None\<close> when it does not end.\<close>

type_synonym sig_result = "(sig_end \<times> int \<times> sig_world) option"

definition returning :: "int \<Rightarrow> (sig_end \<times> sig_world) option \<Rightarrow> sig_result" where
  "returning v r = map_option (\<lambda>(e, w). (e, v, w)) r"

definition fails :: "(int \<Rightarrow> int) \<Rightarrow> sig_world \<Rightarrow> nat \<Rightarrow> int \<Rightarrow> sig_result" where
  "fails h2g w me err = Some (Returned, - 1, upd_sctx w me (\<lambda>c. set_errno h2g c err))"

definition sigmask_apply ::
  "(int \<Rightarrow> int) \<Rightarrow> sig_host \<Rightarrow> sig_world \<Rightarrow> nat \<Rightarrow> int \<Rightarrow> u32 \<Rightarrow> u32 \<Rightarrow> sig_result" where
  "sigmask_apply h2g H w me how set_off oset_off =
     (let prev = sig_mask (sctx w me);
          s = strip_unblockable (push_bit 1 (read_fbsd_sigset_lo (sctx w me) set_off));
          new = (if set_off = 0 then Some prev else new_mask prev how s)
      in case new of
          None \<Rightarrow> fails h2g w me EINVAL
        | Some m \<Rightarrow>
            let w1 = upd_sctx w me (\<lambda>c. c\<lparr>sig_mask := m\<rparr>);
                w2 = (if oset_off = 0 then w1
                      else upd_sctx w1 me (\<lambda>c. write_fbsd_sigset_lo c oset_off (drop_bit 1 prev)))
            in if deliverable (sctx w2 me) = 0 then Some (Returned, 0, w2)
               else returning 0 (yos_signal_pump H w2 me))"

definition yos_sig_rt_sigprocmask ::
  "(int \<Rightarrow> int) \<Rightarrow> sig_host \<Rightarrow> sig_world \<Rightarrow> nat \<Rightarrow> int \<Rightarrow> u32 \<Rightarrow> u32 \<Rightarrow> sig_result" where
  "yos_sig_rt_sigprocmask h2g H w me how set_off oset = sigmask_apply h2g H w me how set_off oset"

definition yos_sigprocmask ::
  "(int \<Rightarrow> int) \<Rightarrow> sig_host \<Rightarrow> sig_world \<Rightarrow> nat \<Rightarrow> int \<Rightarrow> u32 \<Rightarrow> u32 \<Rightarrow> sig_result" where
  "yos_sigprocmask h2g H w me how set_off oset = sigmask_apply h2g H w me how set_off oset"

text \<open>\<^verbatim>\<open>pthread_sigmask\<close> returns the error number; on success the host thread's mask is set too (logged, Linux numbers).\<close>

definition yos_pthread_sigmask ::
  "(int \<Rightarrow> int) \<Rightarrow> sig_host \<Rightarrow> sig_world \<Rightarrow> nat \<Rightarrow> int \<Rightarrow> u32 \<Rightarrow> u32 \<Rightarrow> sig_result" where
  "yos_pthread_sigmask h2g H w me how set_off oset_off =
     (if set_off \<noteq> 0 \<and> \<not> yos_sigset_bound (sctx w me) set_off then Some (Returned, EFAULT, w)
      else if oset_off \<noteq> 0 \<and> \<not> yos_sigset_bound (sctx w me) oset_off then Some (Returned, EFAULT, w)
      else case sigmask_apply h2g H w me how set_off oset_off of
          None \<Rightarrow> None
        | Some (e, rc, w1) \<Rightarrow>
            if e \<noteq> Returned then Some (e, rc, w1)
            else if rc < 0 then
              Some (Returned, if errno_off (sctx w1 me) \<noteq> 0
                then sint (load32 (memory (sctx w1 me)) (unat (errno_off (sctx w1 me)))) else EINVAL, w1)
            else
              let hhow = (if how = 1 then 0 else if how = 2 then 1 else 2)
              in Some (Returned, 0, if set_off = 0 then w1
                   else w1\<lparr>srt := log_host (srt w1)
                     [HPthreadSigmask hhow (fbsd_sigset_to_host (memory (sctx w1 me)) (unat set_off))]\<rparr>))"

section \<open>Waiting for signals\<close>

definition has_zombie :: "yos_runtime \<Rightarrow> int \<Rightarrow> bool" where
  "has_zombie rt my_pid = list_ex (\<lambda>p. pstate p = YOS_PROC_ZOMBIE \<and> ppid p = my_pid) (take YOS_MAX_PROCS (procs rt))"

text \<open>At most \<open>n\<close> polls; \<open>sched k\<close> is what the rest of the program does during the \<open>k\<close>-th sleep.\<close>

fun suspend_loop ::
  "sig_host \<Rightarrow> (nat \<Rightarrow> sig_world \<Rightarrow> sig_world) \<Rightarrow> nat \<Rightarrow> int \<Rightarrow> nat \<Rightarrow> nat \<Rightarrow> sig_world \<Rightarrow> (sig_end \<times> sig_world) option" where
  "suspend_loop H sched me my_pid 0 k w = Some (Returned, w)"
| "suspend_loop H sched me my_pid (Suc n) k w =
     (if has_zombie (srt w) my_pid
      then yos_signal_pump H (upd_sctx w me (\<lambda>c. c\<lparr>sig_pending := sig_pending c OR push_bit FBSD_SIGCHLD 1\<rparr>)) me
      else if deliverable (sctx w me) \<noteq> 0 then Some (Returned, w)
      else suspend_loop H sched me my_pid n (Suc k) (sched k w))"

definition yos_sigsuspend ::
  "(int \<Rightarrow> int) \<Rightarrow> sig_host \<Rightarrow> (nat \<Rightarrow> sig_world \<Rightarrow> sig_world) \<Rightarrow> sig_world \<Rightarrow> nat \<Rightarrow> u32 \<Rightarrow> sig_result" where
  "yos_sigsuspend h2g H sched w me mask_off =
     (case proc_slot (sctx w me) of
        None \<Rightarrow> fails h2g w me EINVAL
      | Some i \<Rightarrow>
          let saved = sig_mask (sctx w me);
              w1 = (if mask_off = 0 then w
                    else upd_sctx w me (\<lambda>c. c\<lparr>sig_mask := strip_unblockable (read_fbsd_sigset_lo c mask_off)\<rparr>))
          in case yos_signal_pump H w1 me of
               None \<Rightarrow> None
             | Some (e, w2) \<Rightarrow>
                 if e \<noteq> Returned then Some (e, - 1, w2)
                 else case suspend_loop H sched me (pid (procs (srt w2) ! i)) 200 0 w2 of
                     None \<Rightarrow> None
                   | Some (e', w3) \<Rightarrow>
                       if e' \<noteq> Returned then Some (e', - 1, w3)
                       else fails h2g (upd_sctx w3 me (\<lambda>c. c\<lparr>sig_mask := saved\<rparr>)) me EINTR)"

partial_function (option) sigwait_loop ::
  "sig_host \<Rightarrow> (nat \<Rightarrow> sig_world \<Rightarrow> sig_world) \<Rightarrow> nat \<Rightarrow> u32 \<Rightarrow> u32 \<Rightarrow> nat \<Rightarrow> sig_world \<Rightarrow> sig_result" where
  "sigwait_loop H sched me want sig_out k w =
     (let pend = sig_pending (sctx w me); hit = pend AND want in
      if hit \<noteq> 0 then
        let s = ctz hit in
        Some (Returned, 0, upd_sctx w me (\<lambda>c. (clear_pending s c)\<lparr>memory := store32 (memory c) (unat sig_out) (of_nat s)\<rparr>))
      else if bit pend YOS_FBSD_SIGKILL then returning EINTR (yos_signal_pump H w me)
      else sigwait_loop H sched me want sig_out (Suc k) (sched k w))"

definition yos_sigwait ::
  "sig_host \<Rightarrow> (nat \<Rightarrow> sig_world \<Rightarrow> sig_world) \<Rightarrow> sig_world \<Rightarrow> nat \<Rightarrow> u32 \<Rightarrow> u32 \<Rightarrow> sig_result" where
  "yos_sigwait H sched w me set_off sig_out =
     (if \<not> yos_sigset_bound (sctx w me) set_off then Some (Returned, EFAULT, w)
      else if sig_out = 0 \<or> unat (memory_size (sctx w me)) < unat sig_out + 4 then Some (Returned, EFAULT, w)
      else let want_fbsd = read_fbsd_sigset_lo (sctx w me) set_off in
        if want_fbsd = 0 then Some (Returned, EINVAL, w)
        else sigwait_loop H sched me (push_bit 1 want_fbsd) sig_out 0 w)"

section \<open>Calls on the host's signals\<close>

text \<open>The host's \<^verbatim>\<open>sigpending\<close>, \<^verbatim>\<open>sigwaitinfo\<close> and \<^verbatim>\<open>sigtimedwait\<close> are parameters that give an error number on the left.\<close>

definition yos_sigpending :: "(int \<Rightarrow> int) \<Rightarrow> (int + int set) \<Rightarrow> yos_exec_ctx \<Rightarrow> u32 \<Rightarrow> int \<times> yos_exec_ctx" where
  "yos_sigpending h2g host ctx set_off =
     (if \<not> yos_sigset_bound ctx set_off then yos_errno_neg h2g ctx EFAULT
      else case host of
          Inl e \<Rightarrow> yos_errno_neg h2g ctx e
        | Inr S \<Rightarrow> (0, ctx\<lparr>memory := host_sigset_to_fbsd S (memory ctx) (unat set_off)\<rparr>))"

definition yos_sigaltstack :: "(int \<Rightarrow> int) \<Rightarrow> yos_exec_ctx \<Rightarrow> u32 \<Rightarrow> u32 \<Rightarrow> int \<times> yos_exec_ctx" where
  "yos_sigaltstack h2g ctx ss_off oss_off =
     (if ss_off \<noteq> 0 \<and> unat (memory_size ctx) < unat ss_off + 12 then yos_errno_neg h2g ctx EFAULT
      else if oss_off = 0 then (0, ctx)
      else if unat (memory_size ctx) < unat oss_off + 12 then yos_errno_neg h2g ctx EFAULT
      else (0, ctx\<lparr>memory := store32 (mem_fill (memory ctx) (unat oss_off) 0 12) (unat oss_off + 8) 4\<rparr>))"

definition sigwait_host_result :: "(int \<Rightarrow> int) \<Rightarrow> (int + int) \<Rightarrow> yos_exec_ctx \<Rightarrow> u32 \<Rightarrow> int \<times> yos_exec_ctx" where
  "sigwait_host_result h2g r ctx info_off =
     (case r of
        Inl e \<Rightarrow> yos_errno_neg h2g ctx e
      | Inr rc \<Rightarrow>
          (if 0 < host_to_fbsd_signo rc then host_to_fbsd_signo rc else rc,
           if info_off = 0 then ctx else ctx\<lparr>memory := mem_fill (memory ctx) (unat info_off) 0 64\<rparr>))"

definition yos_sigwaitinfo ::
  "(int \<Rightarrow> int) \<Rightarrow> (int set \<Rightarrow> int + int) \<Rightarrow> yos_exec_ctx \<Rightarrow> u32 \<Rightarrow> u32 \<Rightarrow> int \<times> yos_exec_ctx" where
  "yos_sigwaitinfo h2g hwait ctx set_off info_off =
     (if \<not> yos_sigset_bound ctx set_off then yos_errno_neg h2g ctx EFAULT
      else if info_off \<noteq> 0 \<and> unat (memory_size ctx) < unat info_off + 64 then yos_errno_neg h2g ctx EFAULT
      else sigwait_host_result h2g (hwait (fbsd_sigset_to_host (memory ctx) (unat set_off))) ctx info_off)"

definition yos_sigtimedwait ::
  "(int \<Rightarrow> int) \<Rightarrow> (int set \<Rightarrow> (int \<times> int) option \<Rightarrow> int + int) \<Rightarrow> yos_exec_ctx \<Rightarrow> u32 \<Rightarrow> u32 \<Rightarrow> u32 \<Rightarrow> int \<times> yos_exec_ctx" where
  "yos_sigtimedwait h2g hwait ctx set_off info_off timeout_off =
     (if \<not> yos_sigset_bound ctx set_off then yos_errno_neg h2g ctx EFAULT
      else if info_off \<noteq> 0 \<and> unat (memory_size ctx) < unat info_off + 64 then yos_errno_neg h2g ctx EFAULT
      else if timeout_off \<noteq> 0 \<and> unat (memory_size ctx) < unat timeout_off + 8 then yos_errno_neg h2g ctx EFAULT
      else let ts = (if timeout_off = 0 then None
                     else Some (sint (load32 (memory ctx) (unat timeout_off)), sint (load32 (memory ctx) (unat timeout_off + 4))))
           in sigwait_host_result h2g (hwait (fbsd_sigset_to_host (memory ctx) (unat set_off)) ts) ctx info_off)"

section \<open>kill\<close>

text \<open>The processes of slots \<open>i\<close> that \<^verbatim>\<open>kill\<close> with a non-positive id selects, and the loop over them.\<close>

definition kill_match :: "int \<Rightarrow> int \<Rightarrow> yos_proc \<Rightarrow> bool" where
  "kill_match my_pgid n p \<longleftrightarrow> pstate p \<noteq> YOS_PROC_FREE \<and> pstate p \<noteq> YOS_PROC_ZOMBIE \<and>
     (if n = 0 then pgid p = my_pgid else if n = - 1 then pid p \<noteq> 1 else pgid p = - n)"

fun kill_all :: "(nat \<Rightarrow> int \<Rightarrow> int) \<Rightarrow> int \<Rightarrow> yos_proc list \<Rightarrow> int \<Rightarrow> host_event list \<Rightarrow> int \<times> host_event list" where
  "kill_all pk sig [] last_err es = (last_err, es)"
| "kill_all pk sig (p # ps) last_err es =
     (if sig = 0 then kill_all pk sig ps last_err es
      else let rc = pk (thread p) sig in
        kill_all pk sig ps (if rc \<noteq> 0 then - rc else last_err) (es @ [HPthreadKill (thread p) sig]))"

definition yos_kill :: "(int \<Rightarrow> int) \<Rightarrow> sig_host \<Rightarrow> sig_world \<Rightarrow> nat \<Rightarrow> int \<Rightarrow> int \<Rightarrow> sig_result" where
  "yos_kill h2g H w me n sig =
     (if 0 < n then
        (case yos_proc_find (srt w) n of
           None \<Rightarrow> fails h2g w me ESRCH
         | Some i \<Rightarrow>
             (case deliver_to_proc (pkill H) (srt w) i sig of (rc, rt1) \<Rightarrow>
                let w1 = w\<lparr>srt := rt1\<rparr> in
                if rc < 0 then fails h2g w1 me (- rc)
                else if proc_slot (sctx w1 me) = Some i then returning rc (yos_signal_pump H w1 me)
                else Some (Returned, rc, w1)))
      else
        let my_pgid = (case proc_slot (sctx w me) of None \<Rightarrow> 0 | Some i \<Rightarrow> pgid (procs (srt w) ! i));
            targets = filter (kill_match my_pgid n) (take YOS_MAX_PROCS (procs (srt w)))
        in case kill_all (pkill H) sig targets 0 [] of (last_err, es) \<Rightarrow>
             let w1 = w\<lparr>srt := log_host (srt w) es\<rparr> in
             if targets = [] then fails h2g w1 me ESRCH
             else if last_err \<noteq> 0 then fails h2g w1 me (- last_err)
             else Some (Returned, 0, w1))"

end
