(* ===== verification/SignalProps.thy ===== *)
theory SignalProps
  imports Signals ProcProps
begin

text \<open>
  Properties of signals: the pump delivers every pending unblocked signal once, in order, and ends; masks and
  dispositions saved by a call are restored by the next; \<^verbatim>\<open>kill\<close> of the caller itself is synchronous;
  and the places where the code departs from its comments.
\<close>

section \<open>Simplification\<close>

lemma sctx_upd [simp]: "sctx (upd_sctx w me f) me = f (sctx w me)"
  by (simp add: sctx_def upd_sctx_def upd_ctx_def)

lemma sctx_upd_other [simp]: "c \<noteq> me \<Longrightarrow> sctx (upd_sctx w me f) c = sctx w c"
  by (simp add: sctx_def upd_sctx_def upd_ctx_def)

lemma upd_sctx_twice [simp]: "upd_sctx (upd_sctx w me f) me g = upd_sctx w me (\<lambda>c. g (f c))"
  by (simp add: upd_sctx_def upd_ctx_def)

lemma bit_clear: "bit (x AND NOT (push_bit s 1) :: u32) n \<longleftrightarrow> bit x n \<and> n \<noteq> s"
proof (cases "n < 32")
  case True
  then show ?thesis by (auto simp: bit_simps)
next
  case False
  then have "\<not> bit x n" using bit_imp_le_length [of x n] by auto
  then show ?thesis by (simp add: bit_and_iff)
qed

lemmas bit_clear_exp = bit_clear [unfolded push_bit_of_1]

lemma deliverable_clear: "deliverable (clear_pending s c) = deliverable c AND NOT (push_bit s 1)"
  by (rule bit_word_eqI) (auto simp: deliverable_def clear_pending_def bit_simps)

section \<open>The pump\<close>

text \<open>The signals of a mask, in increasing order; and handling them one after the other.\<close>

definition signals_of :: "u32 \<Rightarrow> nat list" where
  "signals_of x = filter (bit x) [0..<32]"

fun run_handlers :: "sig_host \<Rightarrow> nat \<Rightarrow> nat list \<Rightarrow> sig_world \<Rightarrow> sig_end \<times> sig_world" where
  "run_handlers H me [] w = (Returned, w)"
| "run_handlers H me (s # ss) w =
     (case invoke_signal_handler H (upd_sctx w me (clear_pending s)) me (int s) of
        (e, w') \<Rightarrow> if e = Returned then run_handlers H me ss w' else (e, w'))"

text \<open>Handlers that leave the masks of their own context as they found them.\<close>

definition quiet :: "sig_host \<Rightarrow> nat \<Rightarrow> bool" where
  "quiet H me \<longleftrightarrow> (\<forall>idx s w e w'. run_guest H me idx s w = (e, w') \<longrightarrow>
     sig_pending (sctx w' me) = sig_pending (sctx w me) \<and> sig_mask (sctx w' me) = sig_mask (sctx w me))"

lemma filter_upt_eq: "k < n \<Longrightarrow> filter (\<lambda>m. m = k) [0..<n] = [k]"
  by (induction n) (auto simp: less_Suc_eq filter_empty_conv)

lemma signals_of_Nil: "signals_of x = [] \<longleftrightarrow> x = 0"
proof
  assume "signals_of x = []"
  then have "\<And>n. n < 32 \<Longrightarrow> \<not> bit x n" by (simp add: signals_of_def filter_empty_conv)
  then show "x = 0" by (intro bit_word_eqI) simp
qed (simp add: signals_of_def)

lemma signals_of_Cons:
  assumes "signals_of x = s # ss"
  shows "ctz x = s" "signals_of (x AND NOT (push_bit s 1)) = ss" "s < 32"
proof -
  obtain us vs where u: "[0..<32] = us @ s # vs" "\<forall>u\<in>set us. \<not> bit x u" "bit x s" "ss = filter (bit x) vs"
    using assms by (auto simp: signals_of_def filter_eq_Cons_iff)
  have len: "length us < 32" using arg_cong [OF u(1), of length] by simp
  have "s = [0..<32] ! length us" using u(1) by simp
  then have s: "s = length us" using len by simp
  then show "s < 32" using len by simp
  show "ctz x = s" using u s by (simp add: ctz_def takeWhile_append2)
  have "s \<notin> set us \<union> set vs" using u(1) distinct_upt [of 0 32] by auto
  then have "filter (\<lambda>n. bit x n \<and> n \<noteq> s) us = []" "filter (\<lambda>n. bit x n \<and> n \<noteq> s) vs = filter (bit x) vs"
    using u(2) by (auto simp: filter_empty_conv intro!: filter_cong)
  then show "signals_of (x AND NOT (push_bit s 1)) = ss"
    using u(4) unfolding signals_of_def u(1) bit_clear by simp
qed

lemma invoke_quiet:
  assumes "quiet H me" and "invoke_signal_handler H w me s = (Returned, w')"
  shows "sig_pending (sctx w' me) = sig_pending (sctx w me) \<and> sig_mask (sctx w' me) = sig_mask (sctx w me)"
  using assms(2) assms(1) [unfolded quiet_def, rule_format, of "sig_handlers (sctx w me) ! nat s" s w Returned w']
  by (auto simp: invoke_signal_handler_def Let_def split: if_splits option.splits)

lemma pump_loop_run:
  assumes "quiet H me" and "signals_of (deliverable (sctx w me)) = ss"
  shows "pump_loop H me w = Some (run_handlers H me ss w)"
  using assms(2)
proof (induction ss arbitrary: w)
  case Nil
  then show ?case by (simp add: signals_of_Nil pump_loop.simps [of H me w])
next
  case (Cons s ss)
  let ?w = "upd_sctx w me (clear_pending s)"
  obtain e w' where i: "invoke_signal_handler H ?w me (int s) = (e, w')" by (cases "invoke_signal_handler H ?w me (int s)")
  note s = signals_of_Cons [OF Cons.prems]
  have nz: "deliverable (sctx w me) \<noteq> 0" using Cons.prems signals_of_Nil [of "deliverable (sctx w me)"] by auto
  show ?case
  proof (cases "e = Returned")
    case False
    then show ?thesis using i nz s(1) by (simp add: pump_loop.simps [of H me w])
  next
    case True
    have "signals_of (deliverable (sctx w' me)) = ss"
      using invoke_quiet [OF assms(1) i [unfolded True]] s(2) deliverable_clear [of s "sctx w me"]
      by (simp add: deliverable_def)
    then show ?thesis using i nz s(1) True Cons.IH [of w'] by (simp add: pump_loop.simps [of H me w])
  qed
qed

lemma run_handlers_pending:
  assumes "quiet H me" and "run_handlers H me ss w = (Returned, w')"
  shows "sig_mask (sctx w' me) = sig_mask (sctx w me) \<and>
    (\<forall>n. bit (sig_pending (sctx w' me)) n \<longleftrightarrow> bit (sig_pending (sctx w me)) n \<and> n \<notin> set ss)"
  using assms(2)
proof (induction ss arbitrary: w)
  case (Cons s ss)
  let ?w = "upd_sctx w me (clear_pending s)"
  obtain w1 where i: "invoke_signal_handler H ?w me (int s) = (Returned, w1)" and r: "run_handlers H me ss w1 = (Returned, w')"
    using Cons.prems by (auto split: prod.splits if_splits)
  have "sig_pending (sctx w1 me) = sig_pending (sctx w me) AND NOT (push_bit s 1)" "sig_mask (sctx w1 me) = sig_mask (sctx w me)"
    using invoke_quiet [OF assms(1) i] by (simp_all add: clear_pending_def)
  then show ?case using Cons.IH [OF r] by (auto simp: bit_clear_exp)
qed simp

lemma take_host_pending_simps [simp]:
  "sctx (take_host_pending w me) me = (sctx w me)\<lparr>sig_pending := sig_pending (sctx w me) OR host_pending w\<rparr>"
  "host_pending (take_host_pending w me) = 0"
  by (simp_all add: take_host_pending_def sctx_def upd_sctx_def upd_ctx_def)

lemma run_handlers_split:
  assumes "run_handlers H me ss w = (e, w')" and "e \<noteq> Returned"
  shows "\<exists>ss1 s ss2 w2. ss = ss1 @ s # ss2 \<and> run_handlers H me ss1 w = (Returned, w2) \<and>
    invoke_signal_handler H (upd_sctx w2 me (clear_pending s)) me (int s) = (e, w')"
  using assms(1)
proof (induction ss arbitrary: w)
  case Nil
  then show ?case using assms(2) by simp
next
  case (Cons s ss)
  obtain e1 w1 where i: "invoke_signal_handler H (upd_sctx w me (clear_pending s)) me (int s) = (e1, w1)"
    by (cases "invoke_signal_handler H (upd_sctx w me (clear_pending s)) me (int s)")
  show ?case
  proof (cases "e1 = Returned")
    case True
    then obtain ss1 t ss2 w2 where "ss = ss1 @ t # ss2" "run_handlers H me ss1 w1 = (Returned, w2)"
      "invoke_signal_handler H (upd_sctx w2 me (clear_pending t)) me (int t) = (e, w')"
      using Cons.IH [of w1] Cons.prems i by auto
    then show ?thesis using i True by (intro exI [of _ "s # ss1"] exI [of _ t] exI [of _ ss2] exI [of _ w2]) simp
  next
    case False
    then show ?thesis using i Cons.prems by (intro exI [of _ "[]"] exI [of _ s] exI [of _ ss] exI [of _ w]) simp
  qed
qed

text \<open>
  Claim C9: when handlers leave the masks of their context alone, the pump ends.  If SIGKILL is pending, in the context or in the host's
  queue, blocked or not, no handler runs, the call does not return, and the guest's process is a zombie killed by signal 9.
  Otherwise the signals that are pending and not blocked are handled in increasing order, each once: all of them, if
  the call returns, and then exactly the blocked signals are still pending; or up to and including the first one
  whose handling ends the guest, which ends the pump with it.
\<close>

theorem pump_exact:
  assumes "quiet H me" and "p = sig_pending (sctx w me) OR host_pending w" and "w1 = take_host_pending w me"
    and "ss = filter (\<lambda>n. bit p n \<and> \<not> bit (sig_mask (sctx w me)) n) [0..<32]"
  shows "\<exists>e w'. yos_signal_pump H w me = Some (e, w') \<and>
    (if bit p 9 then e \<noteq> Returned \<and>
       (\<forall>i. proc_slot (sctx w me) = Some i \<and> i < length (procs (srt w)) \<longrightarrow>
          srt w' = log_host (upd_proc (srt w1) i (\<lambda>q. q\<lparr>pstate := YOS_PROC_ZOMBIE, exit_code := 0, term_sig := 9, exited := True\<rparr>)) [HWaitBroadcast i])
     else if e = Returned then run_handlers H me ss w1 = (Returned, w') \<and> sig_pending (sctx w' me) = p AND sig_mask (sctx w me)
     else \<exists>ss1 s ss2 w2. ss = ss1 @ s # ss2 \<and> run_handlers H me ss1 w1 = (Returned, w2) \<and>
       invoke_signal_handler H (upd_sctx w2 me (clear_pending s)) me (int s) = (e, w'))"
proof (cases "bit p 9")
  case True
  then show ?thesis using assms(2,3) by (auto simp: yos_signal_pump_def Let_def mark_killed_def split: option.split)
next
  case False
  have ss: "ss = signals_of (deliverable (sctx w1 me))"
    using assms(2-4) by (auto simp: signals_of_def deliverable_def bit_simps intro: filter_cong)
  obtain e w' where r: "run_handlers H me ss w1 = (e, w')" by (cases "run_handlers H me ss w1")
  have pump: "yos_signal_pump H w me = Some (e, w')"
    using False assms(2,3) pump_loop_run [OF assms(1) ss [symmetric]] r by (simp add: yos_signal_pump_def)
  show ?thesis
  proof (cases "e = Returned")
    case True
    then have "sig_pending (sctx w' me) = p AND sig_mask (sctx w me)"
      using run_handlers_pending [OF assms(1), of ss w1 w'] r assms(2-4)
      by (intro bit_word_eqI) (auto simp: bit_simps)
    then show ?thesis using pump r True False by auto
  next
    case nr: False
    show ?thesis using pump run_handlers_split [OF r nr] nr False by auto
  qed
qed

section \<open>The blocked mask\<close>

text \<open>A mask that blocks neither SIGKILL nor SIGSTOP, and has no signal 0.\<close>

definition mask_ok :: "u32 \<Rightarrow> bool" where
  "mask_ok m \<longleftrightarrow> \<not> bit m 0 \<and> \<not> bit m YOS_FBSD_SIGKILL \<and> \<not> bit m YOS_FBSD_SIGSTOP"

lemma bit_clear2: "bit (x AND NOT (push_bit j 1 OR push_bit k 1) :: u32) n \<longleftrightarrow> bit x n \<and> n \<noteq> j \<and> n \<noteq> k"
proof (cases "n < 32")
  case True
  then show ?thesis by (auto simp: bit_simps)
next
  case False
  then have "\<not> bit x n" using bit_imp_le_length [of x n] by auto
  then show ?thesis by (simp add: bit_and_iff)
qed

lemma bit_strip: "bit (strip_unblockable s) n \<longleftrightarrow> bit s n \<and> n \<noteq> 9 \<and> n \<noteq> 17"
  unfolding strip_unblockable_def by (rule bit_clear2)

lemma bit_shl1: "bit (push_bit 1 (x :: u32)) n \<longleftrightarrow> 1 \<le> n \<and> n < 32 \<and> bit x (n - 1)"
  unfolding bit_push_bit_iff by (auto simp: possible_bit_def)

text \<open>The signals of a guest's set that a mask can block.\<close>

lemma set_mask_bit:
  assumes "yos_sigset_bound c off"
  shows "bit (strip_unblockable (push_bit 1 (read_fbsd_sigset_lo c off))) n \<longleftrightarrow>
    1 \<le> n \<and> n < 32 \<and> n \<noteq> 9 \<and> n \<noteq> 17 \<and> int n \<in> sigset_of (memory c) (unat off)"
proof -
  have "nat (int n - 1) = n - 1" by linarith
  then show ?thesis
    unfolding bit_strip bit_shl1 using assms by (auto simp: read_fbsd_sigset_lo_def sigset_of_def)
qed

lemma mask_ok_strip: "mask_ok (strip_unblockable (push_bit 1 x))"
  unfolding mask_ok_def bit_strip bit_shl1 by simp

lemma new_mask_ok: "mask_ok prev \<Longrightarrow> mask_ok s \<Longrightarrow> new_mask prev how s = Some m \<Longrightarrow> mask_ok m"
  by (auto simp: mask_ok_def new_mask_def bit_simps split: if_splits)

lemma mask_save_restore: "mask_ok m \<Longrightarrow> strip_unblockable (push_bit 1 (drop_bit 1 m)) = m"
proof (rule bit_word_eqI)
  fix n
  assume "mask_ok m" and "n < LENGTH(32)"
  then show "bit (strip_unblockable (push_bit 1 (drop_bit 1 m))) n = bit m n"
    unfolding bit_strip bit_shl1 mask_ok_def by (cases n) (auto simp: bit_drop_bit_eq)
qed

lemma read_write_sigset:
  "yos_sigset_bound c off \<Longrightarrow> read_fbsd_sigset_lo (write_fbsd_sigset_lo c off v) off = v"
  by (simp add: read_fbsd_sigset_lo_def write_fbsd_sigset_lo_def yos_sigset_bound_def load32_mem_fill_other)

lemma pump_keeps_mask:
  assumes "quiet H me" and "yos_signal_pump H w me = Some (Returned, w')"
  shows "sig_mask (sctx w' me) = sig_mask (sctx w me)"
proof -
  let ?w = "take_host_pending w me"
  have "run_handlers H me (signals_of (deliverable (sctx ?w me))) ?w = (Returned, w')"
    using assms(2) pump_loop_run [OF assms(1) refl, of ?w]
    by (auto simp: yos_signal_pump_def Let_def split: if_splits option.splits)
  then show ?thesis using run_handlers_pending [OF assms(1)] by fastforce
qed

lemma sigmask_applied:
  assumes "quiet H me" and "sigmask_apply h2g H w me how set_off oset_off = Some (Returned, 0, w')"
  shows "\<exists>m. (if set_off = 0 then Some (sig_mask (sctx w me))
      else new_mask (sig_mask (sctx w me)) how (strip_unblockable (push_bit 1 (read_fbsd_sigset_lo (sctx w me) set_off)))) = Some m \<and>
    sig_mask (sctx w' me) = m"
  using assms(2) pump_keeps_mask [OF assms(1)]
  by (fastforce simp: sigmask_apply_def fails_def returning_def Let_def write_fbsd_sigset_lo_def split: option.splits if_splits)

text \<open>
  \<^verbatim>\<open>sigprocmask\<close> computes the mask its operation names, signal by signal, over the guest's set; it never blocks
  SIGKILL or SIGSTOP; and setting the mask it saved in \<open>oset\<close> restores the mask as it was, whatever
  happened in between that kept the saved set.
\<close>

theorem sigprocmask_exact:
  assumes "quiet H me" and "mask_ok (sig_mask (sctx w me))" and "yos_sigset_bound (sctx w me) set_off"
    and "sigmask_apply h2g H w me how set_off oset_off = Some (Returned, 0, w')"
    and "oset_off \<noteq> 0" and "yos_sigset_bound (sctx w2 me) oset_off"
    and "read_fbsd_sigset_lo (sctx w2 me) oset_off = drop_bit 1 (sig_mask (sctx w me))"
    and "sigmask_apply h2g H w2 me 3 oset_off 0 = Some (Returned, 0, w3)"
    and "S = {s \<in> sigset_of (memory (sctx w me)) (unat set_off). s < 32 \<and> s \<noteq> 9 \<and> s \<noteq> 17}"
  shows "(\<forall>n. bit (sig_mask (sctx w' me)) n \<longleftrightarrow>
      (if how = 1 then bit (sig_mask (sctx w me)) n \<or> int n \<in> S
       else if how = 2 then bit (sig_mask (sctx w me)) n \<and> int n \<notin> S else int n \<in> S)) \<and>
    mask_ok (sig_mask (sctx w' me)) \<and> how \<in> {1, 2, 3} \<and> sig_mask (sctx w3 me) = sig_mask (sctx w me)"
proof -
  let ?s = "strip_unblockable (push_bit 1 (read_fbsd_sigset_lo (sctx w me) set_off))"
  have nz: "set_off \<noteq> 0" using assms(3) by (simp add: yos_sigset_bound_def)
  then obtain m where m: "new_mask (sig_mask (sctx w me)) how ?s = Some m" "sig_mask (sctx w' me) = m"
    using sigmask_applied [OF assms(1,4)] by auto
  have s: "bit ?s n \<longleftrightarrow> int n \<in> S" for n
    using set_mask_bit [OF assms(3), of n] assms(9) by (auto simp: sigset_of_def)
  have lt: "n < 32" if "bit (sig_mask (sctx w me)) n" for n using bit_imp_le_length [OF that] by simp
  have "bit m n \<longleftrightarrow> (if how = 1 then bit (sig_mask (sctx w me)) n \<or> int n \<in> S
      else if how = 2 then bit (sig_mask (sctx w me)) n \<and> int n \<notin> S else int n \<in> S)" for n
    using m(1) s [of n] lt [of n] by (auto simp: new_mask_def bit_simps split: if_splits)
  moreover have "mask_ok m" using new_mask_ok [OF assms(2) mask_ok_strip m(1)] .
  moreover have "how \<in> {1, 2, 3}" using m(1) by (auto simp: new_mask_def split: if_splits)
  moreover have "sig_mask (sctx w3 me) = sig_mask (sctx w me)"
    using sigmask_applied [OF assms(1,8)] assms(5,7) mask_save_restore [OF assms(2)] by (simp add: new_mask_def)
  ultimately show ?thesis using m(2) by blast
qed

section \<open>Dispositions\<close>

definition disp_ok :: "yos_exec_ctx \<Rightarrow> bool" where
  "disp_ok c \<longleftrightarrow> length (sig_handlers c) = 32 \<and>
     (\<forall>s<32. sig_handlers c ! s \<noteq> 1 \<and> (bit (sig_ignore_mask c) s \<longrightarrow> sig_handlers c ! s = 0))"

lemma bit_set: "s < 32 \<Longrightarrow> bit (x OR push_bit s 1 :: u32) n \<longleftrightarrow> bit x n \<or> n = s"
  unfolding bit_or_iff bit_push_bit_iff by (auto simp: possible_bit_def bit_1_iff)

lemma record_handler_cases:
  assumes "0 < s" and "s < 32"
  shows "sig_handlers (record_handler c s h) = (sig_handlers c)[nat s := if h = 1 then 0 else h]"
    "bit (sig_ignore_mask (record_handler c s h)) n \<longleftrightarrow> (if n = nat s then h = 1 else bit (sig_ignore_mask c) n)"
    "memory (record_handler c s h) = memory c" "memory_size (record_handler c s h) = memory_size c"
  using assms bit_set [of "nat s" "sig_ignore_mask c" n]
  by (auto simp: record_handler_def Let_def bit_clear simp del: push_bit_of_1)

lemma record_disp_ok: "disp_ok c \<Longrightarrow> 0 < s \<Longrightarrow> s < 32 \<Longrightarrow> disp_ok (record_handler c s h)"
  using record_handler_cases(1,2) [of s c h] by (auto simp: disp_ok_def nth_list_update)

lemma prev_abi_record:
  assumes "disp_ok c" and "0 < s" and "s < 32" and "0 < t" and "t < 32"
  shows "prev_abi (record_handler c s h) t = (if t = s then h else prev_abi c t)"
proof -
  have "nat t = nat s \<longleftrightarrow> t = s" "nat s < length (sig_handlers c)" using assms by (auto simp: disp_ok_def)
  then show ?thesis using record_handler_cases(1,2) [OF assms(2,3), of c h] by (auto simp: prev_abi_def)
qed

lemma record_restore:
  assumes "disp_ok c" and "0 < s" and "s < 32"
    and "sig_handlers c' = (sig_handlers c)[nat s := x]" and "\<And>n. n \<noteq> nat s \<Longrightarrow> bit (sig_ignore_mask c') n = bit (sig_ignore_mask c) n"
  shows "sig_handlers (record_handler c' s (prev_abi c s)) = sig_handlers c \<and>
    sig_ignore_mask (record_handler c' s (prev_abi c s)) = sig_ignore_mask c"
proof
  have n: "nat s < 32" using assms(2,3) by simp
  have nh: "sig_handlers c ! nat s \<noteq> 1" and ig: "bit (sig_ignore_mask c) (nat s) \<longrightarrow> sig_handlers c ! nat s = 0"
    using assms(1) n by (simp_all add: disp_ok_def)
  show "sig_handlers (record_handler c' s (prev_abi c s)) = sig_handlers c"
    using record_handler_cases(1) [OF assms(2,3), of c' "prev_abi c s"] assms(4) nh ig by (auto simp: prev_abi_def) (metis list_update_id)
  show "sig_ignore_mask (record_handler c' s (prev_abi c s)) = sig_ignore_mask c"
    using record_handler_cases(2) [OF assms(2,3), of c' "prev_abi c s"] assms(5) nh
    by (intro bit_word_eqI) (auto simp: prev_abi_def)
qed

text \<open>
  \<^verbatim>\<open>sigaction\<close> installs exactly the requested disposition for exactly its signal and saves the previous one, so
  that passing the saved structure back restores the handler table and the ignored set as they were; outside
  the saved structure guest memory is untouched.
\<close>

theorem sigaction_restore:
  assumes "disp_ok c" and "0 < s" and "s < 32" and "act \<noteq> 0" and "unat act + 4 \<le> unat (memory_size c)"
    and "old \<noteq> 0" and "unat old + 24 \<le> unat (memory_size c)"
    and "yos_sigaction h2g c s act old = (r, c1)" and "yos_sigaction h2g c1 s old 0 = (r2, c2)"
  shows "r = 0 \<and> disp_ok c1 \<and> prev_abi c1 s = load32 (memory c) (unat act) \<and>
    (\<forall>t. 0 < t \<longrightarrow> t < 32 \<longrightarrow> t \<noteq> s \<longrightarrow> prev_abi c1 t = prev_abi c t) \<and>
    (\<forall>i. i < unat old \<or> unat old + 24 \<le> i \<longrightarrow> memory c1 i = memory c i) \<and>
    r2 = 0 \<and> sig_handlers c2 = sig_handlers c \<and> sig_ignore_mask c2 = sig_ignore_mask c"
proof -
  let ?h = "load32 (memory c) (unat act)"
  let ?c = "record_handler c s ?h"
  have b: "act + 4 \<le> memory_size c" "old + 24 \<le> memory_size c" "old + 4 \<le> memory_size c"
    using assms(5,7) unat_u32_lt [of "memory_size c"] unat_add_nowrap [of act 4] unat_add_nowrap [of old 24] unat_add_nowrap [of old 4]
    by (simp_all add: u32_le_unat)
  let ?m = "store32 (mem_fill (memory c) (unat old) 0 24) (unat old) (prev_abi c s)"
  note rc = record_handler_cases [OF assms(2,3), of c ?h]
  have c1: "r = 0" "c1 = ?c\<lparr>memory := ?m\<rparr>"
    using assms(2,3,4,6,8) b rc(3,4) by (auto simp: yos_sigaction_def yos_sig_rt_sigaction_def Let_def)
  have p: "prev_abi c1 t = prev_abi ?c t" for t by (simp add: c1(2) prev_abi_def)
  have d: "disp_ok c1" using record_disp_ok [OF assms(1,2,3), of ?h] by (simp add: c1(2) disp_ok_def)
  have c2: "r2 = 0" "c2 = record_handler c1 s (prev_abi c s)"
    using assms(2,3,6,9) b rc(4) by (auto simp: yos_sigaction_def yos_sig_rt_sigaction_def Let_def c1(2))
  have "sig_handlers c2 = sig_handlers c \<and> sig_ignore_mask c2 = sig_ignore_mask c"
    unfolding c2(2) using assms(1,2,3) rc(1,2)
    by (intro record_restore) (auto simp: c1(2))
  moreover have "memory c1 i = memory c i" if "i < unat old \<or> unat old + 24 \<le> i" for i
    using that by (auto simp: c1(2) store32_other mem_fill_def)
  ultimately show ?thesis
    using c1(1) c2(1) d p prev_abi_record [OF assms(1,2,3), of _ ?h] assms(2,3) by simp
qed

section \<open>SIGKILL\<close>

text \<open>
  The SIGKILL branch of the pump marks the process a zombie and ends its thread without the clean-up that every other death
  goes through: its descriptors stay open and its children keep the dead parent.
\<close>

lemma sigkill_skips_cleanup:
  assumes "bit (sig_pending (sctx w me)) 9" and "proc_slot (sctx w me) = Some i" and "i < length (procs (srt w))"
    and "1 < pid (procs (srt w) ! i)"
  shows "\<exists>w'. yos_signal_pump H w me = Some (ThreadEnds, w') \<and> pstate (procs (srt w') ! i) = YOS_PROC_ZOMBIE \<and>
    fd_map (sctx w' me) = fd_map (sctx w me) \<and> host_log (srt w') = host_log (srt w) @ [HWaitBroadcast i] \<and>
    (\<forall>j. j \<noteq> i \<longrightarrow> procs (srt w') ! j = procs (srt w) ! j)"
  using assms
  by (auto simp: yos_signal_pump_def Let_def mark_killed_def log_host_def upd_proc_def take_host_pending_def upd_sctx_def
      upd_ctx_def sctx_def bit_or_iff)

text \<open>
  A death by a signal is not announced to the watchers of processes, neither by SIGKILL nor by a default action: only
  \<^verbatim>\<open>yos_exit\<close> sends the notice.
\<close>

definition exit_notices :: "host_event list \<Rightarrow> host_event list" where
  "exit_notices es = filter (\<lambda>e. case e of HKqueueNotifyExit _ \<Rightarrow> True | _ \<Rightarrow> False) es"

lemma exit_notices_append [simp]: "exit_notices (es @ fs) = exit_notices es @ exit_notices fs"
  by (simp add: exit_notices_def)

lemma kill_by_pid_notices [simp]: "exit_notices (host_log (snd (yos_proc_kill_by_pid pk rt n s))) = exit_notices (host_log rt)"
  by (auto simp: yos_proc_kill_by_pid_def deliver_to_proc_def Let_def log_host_def set_pending_def upd_ctx_def exit_notices_def
      split: option.splits)

lemma sighup_notices [simp]: "exit_notices (host_log (sighup_orphans pk ns rt)) = exit_notices (host_log rt)"
  by (induction ns arbitrary: rt) simp_all

lemma close_notices [simp]: "exit_notices (close_events c) = []"
  by (simp add: exit_notices_def close_events_def filter_empty_conv)

lemma cleanup_notices: "exit_notices (host_log (yos_proc_post_exit_cleanup pk rt me)) = exit_notices (host_log rt)"
  by (simp add: yos_proc_post_exit_cleanup_def Let_def log_host_def upd_ctx_def upd_proc_def split: option.splits)

lemma signal_death_unannounced:
  "sig_handlers (sctx w me) ! nat s = YOS_SIG_DFL \<Longrightarrow> invoke_signal_handler H w me s = (e, w') \<Longrightarrow>
     exit_notices (host_log (srt w')) = exit_notices (host_log (srt w))"
  "bit (sig_pending (sctx w me)) 9 \<Longrightarrow> yos_signal_pump H w me = Some (e, w') \<Longrightarrow>
     exit_notices (host_log (srt w')) = exit_notices (host_log (srt w))"
proof -
  have b: "exit_notices [HWaitBroadcast i] = []" for i by (simp add: exit_notices_def)
  show "exit_notices (host_log (srt w')) = exit_notices (host_log (srt w))"
    if "sig_handlers (sctx w me) ! nat s = YOS_SIG_DFL" "invoke_signal_handler H w me s = (e, w')"
    using that cleanup_notices
    by (auto simp: invoke_signal_handler_def Let_def mark_killed_def log_host_def upd_proc_def b split: if_splits option.splits)
  show "exit_notices (host_log (srt w')) = exit_notices (host_log (srt w))"
    if "bit (sig_pending (sctx w me)) 9" "yos_signal_pump H w me = Some (e, w')"
    using that
    by (auto simp: yos_signal_pump_def Let_def mark_killed_def log_host_def upd_proc_def take_host_pending_def upd_sctx_def upd_ctx_def
        sctx_def bit_or_iff b split: if_splits option.splits)
qed

section \<open>Killing oneself\<close>

lemma invoke_handler:
  assumes "0 < s" and "s < 32" and "\<not> bit (sig_ignore_mask (sctx w me)) (nat s)" and "idx = sig_handlers (sctx w me) ! nat s"
    and "idx \<noteq> 0" and "callable H me idx"
  shows "invoke_signal_handler H w me s = run_guest H me idx s w"
  using assms by (simp add: invoke_signal_handler_def)

lemma deliver_plain:
  assumes "pstate (procs rt ! i) = YOS_PROC_RUNNING" and "thread (procs rt ! i) \<noteq> 0" and "ctx_handle (procs rt ! i) = Some me"
    and "0 < s" and "s < 32" and "s \<notin> {9, 17, 18, 19, 21, 22}" and "pk (thread (procs rt ! i)) HOST_SIGUSR2 = 0"
  shows "deliver_to_proc pk rt i s =
    (0, log_host (upd_ctx rt me (\<lambda>c. c\<lparr>sig_pending := sig_pending c OR push_bit (nat s) 1\<rparr>))
          [HPthreadKill (thread (procs rt ! i)) HOST_SIGUSR2])"
  using assms by (simp add: deliver_to_proc_def set_pending_def Let_def)

text \<open>
  \<^verbatim>\<open>kill(getpid(), sig)\<close> of an unblocked signal with a handler is synchronous: the handler has run, with the
  signal no longer pending, when the call returns 0, and no other handler runs.
\<close>

theorem kill_self_synchronous:
  assumes "proc_slot (sctx w me) = Some i" and "yos_proc_find (srt w) n = Some i" and "0 < n"
    and "pstate (procs (srt w) ! i) = YOS_PROC_RUNNING" and "thread (procs (srt w) ! i) \<noteq> 0"
    and "ctx_handle (procs (srt w) ! i) = Some me" and "pkill H (thread (procs (srt w) ! i)) HOST_SIGUSR2 = 0"
    and "0 < s" and "s < 32" and "s \<notin> {9, 17, 18, 19, 21, 22}"
    and "sig_pending (sctx w me) = 0" and "host_pending w = 0" and "\<not> bit (sig_mask (sctx w me)) (nat s)"
    and "\<not> bit (sig_ignore_mask (sctx w me)) (nat s)" and "idx = sig_handlers (sctx w me) ! nat s" and "idx \<noteq> 0"
    and "callable H me idx" and "quiet H me"
    and "w1 = w\<lparr>srt := log_host (srt w) [HPthreadKill (thread (procs (srt w) ! i)) HOST_SIGUSR2]\<rparr>"
    and "run_guest H me idx s w1 = (e, w')"
  shows "yos_kill h2g H w me n s = Some (e, 0, w') \<and> sig_pending (sctx w' me) = 0"
proof -
  let ?w = "w\<lparr>srt := log_host (upd_ctx (srt w) me (\<lambda>c. c\<lparr>sig_pending := sig_pending c OR push_bit (nat s) 1\<rparr>))
          [HPthreadKill (thread (procs (srt w) ! i)) HOST_SIGUSR2]\<rparr>"
  have s: "nat s < 32" "nat s \<noteq> 9" using assms(8,9,10) by auto
  have c: "sctx ?w me = (sctx w me)\<lparr>sig_pending := push_bit (nat s) 1\<rparr>"
    using assms(11) by (simp add: sctx_def log_host_def upd_ctx_def)
  have t: "take_host_pending ?w me = ?w"
    using assms(12) by (simp add: take_host_pending_def upd_sctx_def upd_ctx_def log_host_def)
  have bits: "bit (push_bit (nat s) 1 :: u32) m \<longleftrightarrow> m = nat s" for m
    using bit_set [OF s(1), of 0 m] by simp
  have d: "deliverable (sctx ?w me) = push_bit (nat s) 1"
    using assms(13) by (intro bit_word_eqI) (auto simp: deliverable_def c bit_and_iff bit_not_iff bits possible_bit_def simp del: push_bit_of_1)
  have "bit (push_bit (nat s) 1 :: u32) = (\<lambda>m. m = nat s)" using bits by (intro ext)
  then have so: "signals_of (push_bit (nat s) 1) = [nat s]" unfolding signals_of_def using filter_upt_eq [OF s(1)] by metis
  have cl: "upd_sctx ?w me (clear_pending (nat s)) = w1"
  proof -
    have z: "sig_pending (ctxs (srt w) me) = 0" using assms(11) by (simp add: sctx_def)
    then have "(push_bit (nat s) 1 AND NOT (push_bit (nat s) 1) :: u32) = 0" by simp
    then have "clear_pending (nat s) ((ctxs (srt w) me)\<lparr>sig_pending := push_bit (nat s) 1\<rparr>) = ctxs (srt w) me"
      using z by (simp add: clear_pending_def)
    then show ?thesis using z by (simp add: assms(19) upd_sctx_def upd_ctx_def log_host_def fun_upd_idem del: push_bit_of_1)
  qed
  have k: "sctx w1 me = sctx w me" by (simp add: assms(19) sctx_def log_host_def)
  have "invoke_signal_handler H w1 me s = (e, w')"
    using invoke_handler [OF assms(8,9), of w1 me idx H] assms(14,15,16,17,20) k by simp
  then have run: "run_handlers H me [nat s] ?w = (e, w')" using cl assms(8) by (simp del: push_bit_of_1)
  have "yos_signal_pump H ?w me = Some (e, w')"
    using pump_loop_run [OF assms(18), of ?w "[nat s]"] d so run t s(2) bits [of 9] c
    by (simp add: yos_signal_pump_def del: push_bit_of_1 run_handlers.simps)
  moreover have "deliver_to_proc (pkill H) (srt w) i s =
      (0, log_host (upd_ctx (srt w) me (\<lambda>c. c\<lparr>sig_pending := sig_pending c OR push_bit (nat s) 1\<rparr>))
          [HPthreadKill (thread (procs (srt w) ! i)) HOST_SIGUSR2])"
    by (rule deliver_plain) (use assms in blast)+
  ultimately have "yos_kill h2g H w me n s = Some (e, 0, w')"
    using assms(1,2,3) c by (simp add: yos_kill_def returning_def del: push_bit_of_1)
  moreover have "sig_pending (sctx w' me) = 0" using assms(11,18,20) k by (simp add: quiet_def)
  ultimately show ?thesis by blast
qed

section \<open>Waiting\<close>

text \<open>
  \<^verbatim>\<open>sigsuspend\<close> uses the words of the guest's set as a mask without the shift by one that \<^verbatim>\<open>sigprocmask\<close> applies, so
  a set that names signal \<open>s\<close> blocks signal \<open>s - 1\<close> instead.
\<close>

lemma sigsuspend_mask_off_by_one:
  assumes "yos_sigset_bound c off" and "n < 32" and "n \<noteq> 9" and "n \<noteq> 17"
  shows "bit (strip_unblockable (read_fbsd_sigset_lo c off)) n \<longleftrightarrow> int n + 1 \<in> sigset_of (memory c) (unat off)"
  using assms unfolding bit_strip by (simp add: read_fbsd_sigset_lo_def sigset_of_def)

text \<open>
  A signal that becomes deliverable while \<^verbatim>\<open>sigsuspend\<close> polls ends the wait without running its handler: the pump is
  not called, the old mask comes back and the signal stays pending.
\<close>

lemma suspend_without_delivery:
  "\<not> has_zombie (srt w) p \<Longrightarrow> deliverable (sctx w me) \<noteq> 0 \<Longrightarrow> suspend_loop H sched me p (Suc n) k w = Some (Returned, w)"
  by simp

text \<open>\<^verbatim>\<open>sigpending\<close> reports the host's pending set: the context's own pending mask does not enter the result.\<close>

lemma sigpending_ignores_pending:
  "fst (yos_sigpending h2g host (c\<lparr>sig_pending := x\<rparr>) off) = fst (yos_sigpending h2g host c off) \<and>
   memory (snd (yos_sigpending h2g host (c\<lparr>sig_pending := x\<rparr>) off)) = memory (snd (yos_sigpending h2g host c off))"
  by (auto simp: yos_sigpending_def yos_sigset_bound_def yos_errno_neg_def set_errno_def split: sum.splits)

text \<open>\<^verbatim>\<open>kill\<close> of a process group sends the guest's number to the host threads and sets no pending bit of a guest.\<close>

lemma kill_group_raw:
  assumes "n \<le> 0" and "yos_kill h2g H w me n sig = Some (e, r, w')"
  shows "sig_pending (ctxs (srt w') c) = sig_pending (ctxs (srt w) c)"
  using assms
  by (auto simp: yos_kill_def Let_def fails_def upd_sctx_def upd_ctx_def log_host_def set_errno_def split: prod.splits if_splits)

lemma ctz_bit: "x \<noteq> 0 \<Longrightarrow> bit x (ctz x) \<and> (\<forall>n<ctz x. \<not> bit x n)"
proof -
  assume "x \<noteq> 0"
  then obtain s ss where "signals_of x = s # ss" using signals_of_Nil [of x] by (cases "signals_of x") auto
  then have "ctz x = s" "s \<in> set (signals_of x)" using signals_of_Cons(1) [of x s ss] by simp_all
  then have "bit x (ctz x)" "ctz x < 32" by (simp_all add: signals_of_def)
  moreover have "\<not> bit x n" if n: "n < ctz x" for n
  proof -
    have "n \<in> set (takeWhile (\<lambda>i. \<not> bit x i) [0..<32])"
    proof -
      let ?t = "takeWhile (\<lambda>i. \<not> bit x i) [0..<32]"
      have "?t ! n = [0..<32] ! n" using n by (intro takeWhile_nth) (simp add: ctz_def)
      then have "?t ! n = n" using n \<open>ctz x < 32\<close> by simp
      then show ?thesis using n nth_mem [of n ?t] by (simp add: ctz_def)
    qed
    then show ?thesis using set_takeWhileD [of n "\<lambda>i. \<not> bit x i"] by blast
  qed
  ultimately show ?thesis by blast
qed

text \<open>The state at the \<open>k\<close>-th poll of \<^verbatim>\<open>sigwait\<close>.\<close>

fun polled :: "(nat \<Rightarrow> sig_world \<Rightarrow> sig_world) \<Rightarrow> sig_world \<Rightarrow> nat \<Rightarrow> sig_world" where
  "polled sched w 0 = w"
| "polled sched w (Suc k) = sched k (polled sched w k)"

lemma sigwait_loop_at:
  assumes "\<And>j. j < k \<Longrightarrow> sig_pending (sctx (polled sched w j) me) AND want = 0 \<and> \<not> bit (sig_pending (sctx (polled sched w j) me)) 9"
  shows "sigwait_loop H sched me want out 0 w = sigwait_loop H sched me want out k (polled sched w k)"
  using assms
proof (induction k)
  case (Suc k)
  then have "sigwait_loop H sched me want out 0 w = sigwait_loop H sched me want out k (polled sched w k)" by simp
  also have "\<dots> = sigwait_loop H sched me want out (Suc k) (polled sched w (Suc k))"
    using Suc.prems [of k] by (simp add: sigwait_loop.simps [of H sched me want out k])
  finally show ?case .
qed simp

text \<open>
  \<^verbatim>\<open>sigwait\<close> returns as soon as a poll finds a wanted signal pending: it stores the least such signal, takes exactly
  it from the pending set, and has waited only while there was none (and no SIGKILL).
\<close>

theorem sigwait_takes_lowest:
  assumes "yos_sigset_bound (sctx w me) set_off" and "out \<noteq> 0" and "unat out + 4 \<le> unat (memory_size (sctx w me))"
    and "want = push_bit 1 (load32 (memory (sctx w me)) (unat set_off))"
    and "\<And>j. j < k \<Longrightarrow> sig_pending (sctx (polled sched w j) me) AND want = 0 \<and> \<not> bit (sig_pending (sctx (polled sched w j) me)) 9"
    and "hit = sig_pending (sctx (polled sched w k) me) AND want" and "hit \<noteq> 0"
  shows "\<exists>s w'. yos_sigwait H sched w me set_off out = Some (Returned, 0, w') \<and> 1 \<le> s \<and> s < 32 \<and>
    int s \<in> sigset_of (memory (sctx w me)) (unat set_off) \<and> bit (sig_pending (sctx (polled sched w k) me)) s \<and>
    (\<forall>n. n < s \<longrightarrow> \<not> bit hit n) \<and> load32 (memory (sctx w' me)) (unat out) = of_nat s \<and>
    (\<forall>n. bit (sig_pending (sctx w' me)) n \<longleftrightarrow> bit (sig_pending (sctx (polled sched w k) me)) n \<and> n \<noteq> s)"
proof -
  let ?s = "ctz hit" and ?w = "polled sched w k"
  have nz: "read_fbsd_sigset_lo (sctx w me) set_off \<noteq> 0"
    using assms(1,4,6,7) by (auto simp: read_fbsd_sigset_lo_def)
  have b: "bit hit ?s" "\<forall>n<?s. \<not> bit hit n" using ctz_bit [OF assms(7)] by simp_all
  have "bit want ?s" and p: "bit (sig_pending (sctx ?w me)) ?s" using b(1) assms(6) by (simp_all add: bit_and_iff)
  then have s: "1 \<le> ?s" "?s < 32" "bit (load32 (memory (sctx w me)) (unat set_off)) (?s - 1)"
    unfolding assms(4) bit_shl1 by simp_all
  have mem: "int ?s \<in> sigset_of (memory (sctx w me)) (unat set_off)"
    using s by (simp add: sigset_of_def nat_diff_distrib')
  let ?w' = "upd_sctx ?w me (\<lambda>c. (clear_pending ?s c)\<lparr>memory := store32 (memory c) (unat out) (of_nat ?s)\<rparr>)"
  have "yos_sigwait H sched w me set_off out = sigwait_loop H sched me want out 0 w"
    using assms(1-4) nz by (simp add: yos_sigwait_def read_fbsd_sigset_lo_def not_less)
  also have "\<dots> = sigwait_loop H sched me want out k ?w" using sigwait_loop_at [OF assms(5)] .
  also have "\<dots> = Some (Returned, 0, ?w')"
    using assms(6,7) by (simp add: sigwait_loop.simps [of H sched me want out k] Let_def)
  finally have r: "yos_sigwait H sched w me set_off out = Some (Returned, 0, ?w')" .
  have "load32 (memory (sctx ?w' me)) (unat out) = of_nat ?s" by simp
  moreover have "bit (sig_pending (sctx ?w' me)) n \<longleftrightarrow> bit (sig_pending (sctx ?w me)) n \<and> n \<noteq> ?s" for n
    using bit_clear [of "sig_pending (sctx ?w me)" ?s n] by (simp add: clear_pending_def)
  ultimately show ?thesis using r s mem p b(2) by blast
qed

section \<open>Witnesses\<close>

text \<open>A guest whose handlers return at once, with handler 5 for signal 2 and the set \<open>{2}\<close> at address 1024.\<close>

definition demo_host :: sig_host where
  "demo_host = \<lparr> pkill = \<lambda>_ _. 0, callable = \<lambda>_ _. True, run_guest = \<lambda>_ _ _ w. (Returned, w) \<rparr>"

definition demo_sw :: "u32 \<Rightarrow> sig_world" where
  "demo_sw queue = upd_sctx \<lparr> srt = demo_rt, host_pending = queue \<rparr> 1
     (\<lambda>c. c\<lparr>memory := (\<lambda>_. 0)(1024 := 2), sig_handlers := (replicate 32 0)[2 := 5]\<rparr>)"

lemma demo_quiet: "quiet demo_host 1"
  by (simp add: quiet_def demo_host_def)

lemma demo_sw_ctx:
  "sig_pending (sctx (demo_sw q) 1) = 0" "sig_mask (sctx (demo_sw q) 1) = 0" "sig_ignore_mask (sctx (demo_sw q) 1) = 0"
  "sig_handlers (sctx (demo_sw q) 1) = (replicate 32 0)[2 := 5]" "host_pending (demo_sw q) = q"
  "memory (sctx (demo_sw q) 1) = (\<lambda>_. 0)(1024 := 2)" "memory_size (sctx (demo_sw q) 1) = 65536" "proc_slot (sctx (demo_sw q) 1) = Some 1"
  "procs (srt (demo_sw q)) = procs demo_rt"
  by (simp_all add: demo_sw_def) (simp_all add: sctx_def upd_sctx_def upd_ctx_def demo_rt_def ctx_calloc_def)

lemmas demo_sw_ctxs = demo_sw_ctx demo_sw_ctx [unfolded One_nat_def]

lemma signals_of_4: "signals_of 4 = [2]"
  by (simp add: signals_of_def upt_rec bit_numeral_rec numeral_eq_Suc)

theorem pump_exact_witness:
  "(\<exists>w'. yos_signal_pump demo_host (demo_sw 4) 1 = Some (Returned, w') \<and> sig_pending (sctx w' 1) = 0) \<and>
   (\<exists>e w'. yos_signal_pump demo_host (demo_sw 512) 1 = Some (e, w') \<and> e \<noteq> Returned)"
proof -
  let ?w = "take_host_pending (demo_sw 4) 1"
  have d: "deliverable (sctx ?w 1) = 4" by (simp add: deliverable_def demo_sw_ctxs)
  obtain w' where r: "run_handlers demo_host 1 [2] ?w = (Returned, w')"
    by (auto simp: invoke_signal_handler_def demo_host_def demo_sw_ctxs Let_def clear_pending_def)
  have "yos_signal_pump demo_host (demo_sw 4) 1 = Some (Returned, w')"
    using pump_loop_run [OF demo_quiet, of ?w] d signals_of_4 r by (simp add: yos_signal_pump_def demo_sw_ctxs)
  moreover have "bit (512 :: u32) 9" by (simp add: bit_numeral_rec numeral_eq_Suc)
  ultimately show ?thesis
    using pump_exact [OF demo_quiet refl refl refl, of "demo_sw 4"] pump_exact [OF demo_quiet refl refl refl, of "demo_sw 512"]
    by (auto simp: demo_sw_ctxs)
qed

lemma demo_set: "yos_sigset_bound (sctx (demo_sw q) 1) 1024" "sigset_of (memory (sctx (demo_sw q) 1)) 1024 = {2}"
proof -
  show "yos_sigset_bound (sctx (demo_sw q) 1) 1024" by (simp add: yos_sigset_bound_def demo_sw_ctxs)
  have "x \<in> sigset_of ((\<lambda>_. 0)(1024 := 2)) 1024 \<longleftrightarrow> x = 2" for x
  proof -
    have b: "bit (2 :: u8) n \<longleftrightarrow> n = 1" for n using bit_exp_iff [of 1 n, where 'a = "8 word"] by (auto simp: possible_bit_def)
    have "nat (x - 1) div 8 = 0 \<longleftrightarrow> nat (x - 1) < 8" by (simp add: div_eq_0_iff)
    moreover have "bit (2 :: u8) (nat (x - 1)) \<longleftrightarrow> nat (x - 1) = 1" by (rule b)
    ultimately show ?thesis unfolding sigset_of_bytes by auto
  qed
  then show "sigset_of (memory (sctx (demo_sw q) 1)) 1024 = {2}" by (auto simp: demo_sw_ctxs)
qed

theorem sigprocmask_exact_witness:
  "\<exists>w'. sigmask_apply (\<lambda>e. e) demo_host (demo_sw 0) 1 1 1024 2048 = Some (Returned, 0, w') \<and>
     bit (sig_mask (sctx w' 1)) 2 \<and> \<not> bit (sig_mask (sctx w' 1)) 3"
proof -
  let ?w = "demo_sw 0"
  let ?s = "strip_unblockable (push_bit 1 (read_fbsd_sigset_lo (sctx ?w 1) 1024))"
  let ?w' = "upd_sctx (upd_sctx ?w 1 (\<lambda>c. c\<lparr>sig_mask := 0 OR ?s\<rparr>)) 1 (\<lambda>c. write_fbsd_sigset_lo c 2048 (drop_bit 1 0))"
  have p: "sig_pending (sctx ?w' 1) = 0"
    by (simp add: write_fbsd_sigset_lo_def demo_sw_ctxs)
  have a1: "sigmask_apply (\<lambda>e. e) demo_host ?w 1 1 1024 2048 = Some (Returned, 0, ?w')"
    using p by (simp add: sigmask_apply_def new_mask_def deliverable_def demo_sw_ctxs del: upd_sctx_twice sctx_upd)
  have b: "yos_sigset_bound (sctx ?w' 1) 2048"
    by (simp add: yos_sigset_bound_def write_fbsd_sigset_lo_def demo_sw_ctxs)
  have rd: "read_fbsd_sigset_lo (sctx ?w' 1) 2048 = drop_bit 1 (sig_mask (sctx ?w 1))"
    using read_write_sigset [of "(sctx ?w 1)\<lparr>sig_mask := 0 OR ?s\<rparr>" 2048 "drop_bit 1 0"]
    by (simp add: yos_sigset_bound_def demo_sw_ctxs)
  obtain w3 where a2: "sigmask_apply (\<lambda>e. e) demo_host ?w' 1 3 2048 0 = Some (Returned, 0, w3)"
    using p by (simp add: sigmask_apply_def new_mask_def deliverable_def)
  have ok: "mask_ok (sig_mask (sctx ?w 1))" by (simp add: mask_ok_def demo_sw_ctxs)
  note ex = sigprocmask_exact [OF demo_quiet ok demo_set(1) a1 _ b rd a2 refl]
  have "unat (1024 :: u32) = 1024" by simp
  then have "bit (sig_mask (sctx ?w' 1)) n \<longleftrightarrow> n = 2" for n
    using ex demo_set(2) [of 0] demo_sw_ctxs by auto
  then show ?thesis using a1 by simp
qed

theorem sigaction_restore_witness:
  "\<exists>r c1. yos_sigaction (\<lambda>e. e) (ctx_calloc ((\<lambda>_. 0)(1024 := 7)) 65536) 15 1024 2048 = (r, c1) \<and> r = 0 \<and>
     prev_abi c1 15 = load32 ((\<lambda>_. 0)(1024 := 7)) 1024 \<and> prev_abi c1 14 = 0"
proof -
  let ?c = "ctx_calloc ((\<lambda>_. 0)(1024 := 7)) 65536"
  obtain r c1 where a: "yos_sigaction (\<lambda>e. e) ?c 15 1024 2048 = (r, c1)" by (cases "yos_sigaction (\<lambda>e. e) ?c 15 1024 2048")
  obtain r2 c2 where b: "yos_sigaction (\<lambda>e. e) c1 15 2048 0 = (r2, c2)" by (cases "yos_sigaction (\<lambda>e. e) c1 15 2048 0")
  have ok: "disp_ok ?c" by (simp add: disp_ok_def ctx_calloc_def)
  have "unat (1024 :: u32) + 4 \<le> unat (memory_size ?c)" "unat (2048 :: u32) + 24 \<le> unat (memory_size ?c)"
    by (simp_all add: ctx_calloc_def)
  note ex = sigaction_restore [OF ok _ _ _ this(1) _ this(2) a b]
  have m: "memory ?c = (\<lambda>_. 0)(1024 := 7)" "prev_abi ?c 14 = 0" by (simp_all add: ctx_calloc_def prev_abi_def)
  have "r = 0" "prev_abi c1 15 = load32 (memory ?c) (unat (1024 :: u32))" "prev_abi c1 14 = prev_abi ?c 14" using ex by simp_all
  then show ?thesis using a m by simp
qed

theorem kill_self_synchronous_witness:
  "\<exists>w'. yos_kill (\<lambda>e. e) demo_host (demo_sw 0) 1 2 2 = Some (Returned, 0, w') \<and> sig_pending (sctx w' 1) = 0"
proof -
  let ?w = "demo_sw 0"
  have f: "yos_proc_find (srt ?w) 2 = Some 1"
    by (simp add: yos_proc_find_def demo_sw_ctxs) (simp add: demo_rt_def demo_proc_def zero_proc_def)
  have p: "procs (srt ?w) ! 1 = demo_proc 2 1 1" by (simp add: demo_sw_ctxs demo_procs)
  have g: "run_guest demo_host 1 5 2 w = (Returned, w)" for w by (simp add: demo_host_def)
  have q: "pstate (procs (srt ?w) ! 1) = YOS_PROC_RUNNING" "thread (procs (srt ?w) ! 1) \<noteq> 0" "ctx_handle (procs (srt ?w) ! 1) = Some 1"
    unfolding p demo_proc_simps by simp_all
  have c: "pkill demo_host (thread (procs (srt ?w) ! 1)) HOST_SIGUSR2 = 0" "callable demo_host 1 5" by (simp_all add: demo_host_def)
  have d: "\<not> bit (sig_mask (sctx ?w 1)) (nat 2)" "\<not> bit (sig_ignore_mask (sctx ?w 1)) (nat 2)" "5 = sig_handlers (sctx ?w 1) ! nat 2"
    by (simp_all add: demo_sw_ctxs)
  show ?thesis
    by (rule exI, rule kill_self_synchronous [OF demo_sw_ctx(8) f _ q c(1) _ _ _ demo_sw_ctx(1) demo_sw_ctx(5) d _ c(2) demo_quiet refl g])
      simp_all
qed

theorem sigwait_takes_lowest_witness:
  "\<exists>w'. yos_sigwait demo_host (\<lambda>k w. upd_sctx w 1 (\<lambda>c. c\<lparr>sig_pending := 6\<rparr>)) (demo_sw 0) 1 1024 4096 = Some (Returned, 0, w') \<and>
     load32 (memory (sctx w' 1)) 4096 = 2"
proof -
  let ?w = "demo_sw 0" and ?sched = "\<lambda>k w. upd_sctx w 1 (\<lambda>c. c\<lparr>sig_pending := 6\<rparr>)"
  let ?l = "load32 (memory (sctx ?w 1)) (unat (1024 :: u32))"
  have l: "?l = 2" by (simp add: demo_sw_ctxs load32_def)
  have h: "sig_pending (sctx (polled ?sched ?w 1) 1) AND push_bit 1 ?l = 4" using l by (simp add: demo_sw_ctxs)
  have n: "sig_pending (sctx (polled ?sched ?w j) 1) AND push_bit 1 ?l = 0 \<and> \<not> bit (sig_pending (sctx (polled ?sched ?w j) 1)) 9"
    if "j < 1" for j using that by (simp add: demo_sw_ctxs)
  have o: "unat (4096 :: u32) + 4 \<le> unat (memory_size (sctx ?w 1))" by (simp add: demo_sw_ctxs)
  have nz: "(4096 :: u32) \<noteq> 0" "(4 :: u32) \<noteq> 0" by simp_all
  obtain s w' where r: "yos_sigwait demo_host ?sched ?w 1 1024 4096 = Some (Returned, 0, w')"
    and s: "int s \<in> sigset_of (memory (sctx ?w 1)) (unat (1024 :: u32))"
    and v: "load32 (memory (sctx w' 1)) (unat (4096 :: u32)) = of_nat s"
    using sigwait_takes_lowest [OF demo_set(1) nz(1) o refl n h [symmetric] nz(2), of demo_host] by blast
  have "s = 2" using s demo_set(2) [of 0] by simp
  then show ?thesis using r v by simp
qed

end
