(* ===== verification/HeapClient.thy ===== *)
theory HeapClient
  imports AllocFamily
begin

text \<open>
  The guest heap as the host's own code uses it.  Bridges that keep strings inside the guest (the
  environment, for one) call \<^verbatim>\<open>yos_malloc\<close> and \<^verbatim>\<open>yos_free\<close> and rely on a few laws only: a pointer handed out
  owns its bytes until it is freed, and neither call touches owned bytes or bytes outside the heap.
  The laws are a locale; the allocator interprets it.
\<close>

section \<open>Owned ranges\<close>

type_synonym range = "nat \<times> nat"

definition owned :: "range list \<Rightarrow> nat \<Rightarrow> bool" where
  "owned P i \<longleftrightarrow> (\<exists>r\<in>set P. fst r \<le> i \<and> i < fst r + snd r)"

text \<open>A byte that no call of the allocator changes while the ranges \<open>P\<close> are owned.\<close>

definition stable :: "yos_exec_ctx \<Rightarrow> range list \<Rightarrow> nat \<Rightarrow> bool" where
  "stable c P i \<longleftrightarrow> owned P i \<or> i < unat (alloc_lo c) \<or> unat (alloc_hi c) \<le> i"

text \<open>The allocator changes memory and its list head only.\<close>

definition heap_only :: "yos_exec_ctx \<Rightarrow> yos_exec_ctx \<Rightarrow> bool" where
  "heap_only c c' \<longleftrightarrow> (\<exists>m h. c' = c\<lparr>memory := m, alloc_free_head := h\<rparr>)"

definition same_heap :: "yos_exec_ctx \<Rightarrow> yos_exec_ctx \<Rightarrow> bool" where
  "same_heap c c' \<longleftrightarrow> memory c' = memory c \<and> alloc_lo c' = alloc_lo c \<and> alloc_hi c' = alloc_hi c \<and>
     alloc_free_head c' = alloc_free_head c \<and> memory_size c' = memory_size c"

lemma owned_simps [simp]: "\<not> owned [] i" "owned ((a, k) # P) i \<longleftrightarrow> a \<le> i \<and> i < a + k \<or> owned P i"
  "owned (P @ Q) i \<longleftrightarrow> owned P i \<or> owned Q i"
  by (auto simp: owned_def)

lemma owned_mset: "mset P' = mset P \<Longrightarrow> owned P' i = owned P i"
  by (metis owned_def set_mset_mset)

lemma stable_app [simp]: "stable c (P @ Q) i \<longleftrightarrow> owned P i \<or> stable c Q i"
  by (auto simp: stable_def)

lemma heap_only_refl: "heap_only c c"
  unfolding heap_only_def by (intro exI [of _ "memory c"] exI [of _ "alloc_free_head c"]) simp

lemma heap_only_trans: "heap_only c c' \<Longrightarrow> heap_only c' c'' \<Longrightarrow> heap_only c c''"
proof -
  assume "heap_only c c'" and "heap_only c' c''"
  then obtain m h where "c'' = c\<lparr>memory := m, alloc_free_head := h\<rparr>" by (auto simp: heap_only_def)
  then show ?thesis unfolding heap_only_def by (intro exI)
qed

lemma heap_only_memory: "heap_only c (c\<lparr>memory := m\<rparr>)"
  unfolding heap_only_def by (intro exI [of _ m] exI [of _ "alloc_free_head c"]) simp

lemma heap_only_simps:
  assumes "heap_only c c'"
  shows "alloc_lo c' = alloc_lo c" "alloc_hi c' = alloc_hi c" "memory_size c' = memory_size c" "errno_off c' = errno_off c"
    "env_entries c' = env_entries c" "env_initialised c' = env_initialised c" "stable c' P i = stable c P i"
  using assms by (auto simp: heap_only_def stable_def)

section \<open>The interface\<close>

abbreviation MALLOC_MAX :: nat where "MALLOC_MAX \<equiv> 4294967272"

locale guest_heap =
  fixes inv :: "yos_exec_ctx \<Rightarrow> range list \<Rightarrow> bool"
    and malloc :: "yos_exec_ctx \<Rightarrow> u32 \<Rightarrow> u32 \<times> yos_exec_ctx"
    and release :: "yos_exec_ctx \<Rightarrow> u32 \<Rightarrow> yos_exec_ctx option"
  assumes inv_mset: "inv c P \<Longrightarrow> mset P' = mset P \<Longrightarrow> inv c P'"
    and inv_same_heap: "inv c P \<Longrightarrow> same_heap c c' \<Longrightarrow> inv c' P"
    and inv_range: "inv c ((a, k) # P) \<Longrightarrow> unat (alloc_lo c) < a \<and> a + k \<le> unat (alloc_hi c) \<and> unat (alloc_hi c) \<le> unat (memory_size c)"
    and inv_disjoint: "inv c ((a, k) # P) \<Longrightarrow> a \<le> i \<Longrightarrow> i < a + k \<Longrightarrow> \<not> owned P i"
    and malloc_owned: "inv c P \<Longrightarrow> malloc c n = (p, c') \<Longrightarrow> p \<noteq> 0 \<Longrightarrow> unat n \<le> MALLOC_MAX \<Longrightarrow>
      \<exists>k. unat n \<le> k \<and> inv c' ((unat p, k) # P)"
    and malloc_null: "inv c P \<Longrightarrow> malloc c n = (0, c') \<Longrightarrow> c' = c"
    and malloc_frame: "inv c P \<Longrightarrow> malloc c n = (p, c') \<Longrightarrow> heap_only c c' \<and> (\<forall>i. stable c P i \<longrightarrow> memory c' i = memory c i)"
    and release_owned: "inv c ((unat p, k) # P) \<Longrightarrow> \<exists>c'. release c p = Some c' \<and> inv c' P \<and> heap_only c c' \<and>
      (\<forall>i. stable c P i \<longrightarrow> memory c' i = memory c i)"
    and store_owned: "inv c ((a, k) # P) \<Longrightarrow> (\<And>i. i < a \<or> a + k \<le> i \<Longrightarrow> m i = memory c i) \<Longrightarrow> inv (c\<lparr>memory := m\<rparr>) ((a, k) # P)"
    and store_outside: "inv c P \<Longrightarrow> (\<And>i. unat (alloc_lo c) \<le> i \<Longrightarrow> i < unat (alloc_hi c) \<Longrightarrow> m i = memory c i) \<Longrightarrow>
      inv (c\<lparr>memory := m\<rparr>) P"
begin

text \<open>Allocating a range and filling it: the filled bytes are stable from then on, everything stable before still is.\<close>

lemma malloc_fill:
  assumes "inv c P" and "malloc c (of_nat (length bs)) = (p, c1)" and "p \<noteq> 0" and "length bs \<le> MALLOC_MAX"
    and "m = mem_write (memory c1) (unat p) bs"
  shows "\<exists>k. length bs \<le> k \<and> inv (c1\<lparr>memory := m\<rparr>) ((unat p, k) # P) \<and> heap_only c (c1\<lparr>memory := m\<rparr>) \<and>
    (\<forall>i. stable c P i \<longrightarrow> m i = memory c i) \<and> (\<forall>i<length bs. m (unat p + i) = bs ! i)"
proof -
  have n: "unat (of_nat (length bs) :: u32) = length bs" using assms(4) by (simp add: unat_of_nat_u32)
  obtain k where k: "length bs \<le> k" "inv c1 ((unat p, k) # P)" using malloc_owned [OF assms(1,2,3)] n assms(4) by auto
  note fr = malloc_frame [OF assms(1,2)]
  have out: "m i = memory c1 i" if "i < unat p \<or> unat p + k \<le> i" for i using that k(1) by (auto simp: assms(5) mem_write_def)
  have st: "m i = memory c i" if "stable c P i" for i
  proof -
    have "\<not> (unat p \<le> i \<and> i < unat p + k)"
      using inv_disjoint [OF k(2), of i] inv_range [OF k(2)] that heap_only_simps(1,2) [of c c1] fr by (auto simp: stable_def)
    then show ?thesis using out [of i] fr that by auto
  qed
  have "inv (c1\<lparr>memory := m\<rparr>) ((unat p, k) # P)" using store_owned [OF k(2) out] .
  moreover have "heap_only c (c1\<lparr>memory := m\<rparr>)" using heap_only_trans fr heap_only_memory by blast
  moreover have "m (unat p + i) = bs ! i" if "i < length bs" for i using that by (simp add: assms(5) mem_write_def)
  ultimately show ?thesis using k(1) st by blast
qed

end

section \<open>The allocator provides it\<close>

definition blk_of :: "range \<Rightarrow> blk" where
  "blk_of r = (fst r - 8, snd r + 8)"

definition heap_owns :: "yos_exec_ctx \<Rightarrow> range list \<Rightarrow> bool" where
  "heap_owns c P \<longleftrightarrow> unat (alloc_hi c) - unat (alloc_lo c) \<le> 201326592 \<and> (\<forall>r\<in>set P. 8 \<le> fst r) \<and>
     (\<exists>fl us. heap_inv c fl us \<and> mset us = mset (map blk_of P))"

lemma heap_ownsE:
  assumes "heap_owns c P"
  obtains fl us where "heap_inv c fl us" "mset us = mset (map blk_of P)" "length fl \<le> WALK_GUARD" "\<forall>r\<in>set P. 8 \<le> fst r"
  using assms heap_inv_walk_bound by (auto simp: heap_owns_def)

lemma heap_ownsI:
  "heap_inv c fl us \<Longrightarrow> mset us = mset (map blk_of P) \<Longrightarrow> \<forall>r\<in>set P. 8 \<le> fst r \<Longrightarrow>
     unat (alloc_hi c) - unat (alloc_lo c) \<le> 201326592 \<Longrightarrow> heap_owns c P"
  unfolding heap_owns_def by blast

lemma heap_owns_size: "heap_owns c P \<Longrightarrow> unat (alloc_hi c) - unat (alloc_lo c) \<le> 201326592"
  by (simp add: heap_owns_def)

lemma heap_owns_cov:
  assumes "mset us = mset (map blk_of P)" and "\<forall>r\<in>set P. 8 \<le> fst r" and "owned P i"
  shows "0 < cov us i"
proof -
  obtain r where r: "r \<in> set P" "fst r \<le> i" "i < fst r + snd r" using assms(3) by (auto simp: owned_def)
  then have "blk_of r \<in> set us" using assms(1) by (metis imageI list.set_map set_mset_mset)
  moreover have "in_blk i (blk_of r)" using r assms(2) by (auto simp: blk_of_def in_blk_def)
  ultimately show ?thesis using cov_mem by blast
qed

lemma heap_inv_mset: "heap_inv c fl us \<Longrightarrow> mset us' = mset us \<Longrightarrow> heap_inv c fl us'"
proof -
  assume i: "heap_inv c fl us" and m: "mset us' = mset us"
  have s: "set us' = set us" using m by (metis set_mset_mset)
  have "cov us' p = cov us p" for p unfolding cov_def using m by (metis mset_filter size_mset)
  then show ?thesis using i s by (simp add: heap_inv_def heap_wf_def list_all_iff)
qed

lemma stable_uncovered:
  assumes "heap_inv c fl us" and "mset us = mset (map blk_of P)" and "\<forall>r\<in>set P. 8 \<le> fst r" and "stable c P i"
  shows "cov fl i = 0"
  using assms(4) heap_owns_cov [OF assms(2,3)] used_not_free [OF assms(1)] outside_not_covered(1) [OF assms(1)]
  by (auto simp: stable_def)

interpretation yos_heap: guest_heap heap_owns yos_malloc yos_free
proof
  fix c c' :: yos_exec_ctx and P P' and a k i :: nat and n p :: u32 and m :: mem
  show "heap_owns c P'" if "heap_owns c P" "mset P' = mset P"
  proof -
    have "set P' = set P" "mset (map blk_of P') = mset (map blk_of P)" using that(2) by (metis set_mset_mset) (simp add: that(2))
    then show ?thesis using that(1) by (simp add: heap_owns_def)
  qed
  show "heap_owns c' P" if "heap_owns c P" "same_heap c c'"
    using that by (simp add: heap_owns_def heap_inv_def same_heap_def)
  show "unat (alloc_lo c) < a \<and> a + k \<le> unat (alloc_hi c) \<and> unat (alloc_hi c) \<le> unat (memory_size c)" if o: "heap_owns c ((a, k) # P)"
  proof -
    obtain fl us where h: "heap_inv c fl us" "mset us = mset (map blk_of ((a, k) # P))" "8 \<le> a" using o by (rule heap_ownsE) simp
    have "blk_of (a, k) \<in> set us" using h(2) by (metis list.set_intros(1) list.simps(9) set_mset_mset)
    then have "(a - 8, k + 8) \<in> set us" by (simp add: blk_of_def)
    note b = heap_inv_blk [OF h(1) disjI2 [OF this]]
    have "unat (alloc_hi c) \<le> unat (memory_size c)" using h(1) by (simp add: heap_inv_def u32_le_unat)
    then show ?thesis using b h(3) by simp
  qed
  show "\<not> owned P i" if o: "heap_owns c ((a, k) # P)" and i: "a \<le> i" "i < a + k"
  proof
    assume ow: "owned P i"
    obtain fl us where h: "heap_inv c fl us" "mset us = mset (map blk_of ((a, k) # P))" "\<forall>r\<in>set ((a, k) # P). 8 \<le> fst r"
      using o by (rule heap_ownsE)
    have us: "heap_inv c fl (blk_of (a, k) # map blk_of P)" using heap_inv_mset [OF h(1)] h(2) by simp
    have "in_blk i (blk_of (a, k))" using i h(3) by (auto simp: blk_of_def in_blk_def)
    then have "cov (map blk_of P) i = 0" using heap_wf_disjoint(2) [OF heap_inv_wf [OF us] list.set_intros(1)] by simp
    moreover have "0 < cov (map blk_of P) i" using heap_owns_cov [OF refl _ ow] h(3) by simp
    ultimately show False by simp
  qed
  show "\<exists>k. unat n \<le> k \<and> heap_owns c' ((unat p, k) # P)" if o: "heap_owns c P" and r: "yos_malloc c n = (p, c')" "p \<noteq> 0" and n: "unat n \<le> MALLOC_MAX"
  proof -
    obtain fl us where h: "heap_inv c fl us" "mset us = mset (map blk_of P)" "length fl \<le> WALK_GUARD" "\<forall>r\<in>set P. 8 \<le> fst r"
      using o by (rule heap_ownsE)
    from h(1,3) r(1) show ?thesis
    proof (cases rule: malloc_refines)
      case (some b l fl' m h')
      have l: "unat n + 8 \<le> l" using first_fit_size [OF some(5)] malloc_need_ok(3) [OF n] by simp
      have "blk_of (unat p, l - 8) = (b, l)" using some(3) l by (simp add: blk_of_def)
      then have "heap_inv c' fl' ((b, l) # us) \<and> mset ((b, l) # us) = mset (map blk_of ((unat p, l - 8) # P))"
        using some(6) h(2) by simp
      then have "heap_owns c' ((unat p, l - 8) # P)"
        using heap_ownsI [of c' fl' "(b, l) # us"] h(4) some(3,4) heap_owns_size [OF o] by simp
      then show ?thesis using l by (intro exI [of _ "l - 8"]) simp
    qed (use r(2) in simp)
  qed
  show "c' = c" if o: "heap_owns c P" and r: "yos_malloc c n = (0, c')"
  proof -
    obtain fl us where h: "heap_inv c fl us" "length fl \<le> WALK_GUARD" using o by (rule heap_ownsE)
    from h r show ?thesis by (cases rule: malloc_refines) simp_all
  qed
  show "heap_only c c' \<and> (\<forall>i. stable c P i \<longrightarrow> memory c' i = memory c i)" if o: "heap_owns c P" and r: "yos_malloc c n = (p, c')"
  proof -
    obtain fl us where h: "heap_inv c fl us" "mset us = mset (map blk_of P)" "length fl \<le> WALK_GUARD" "\<forall>r\<in>set P. 8 \<le> fst r"
      using o by (rule heap_ownsE)
    from h(1,3) r show ?thesis
    proof (cases rule: malloc_refines)
      case (some b l fl' m h')
      then show ?thesis using stable_uncovered [OF h(1,2,4)] by (auto simp: heap_only_def)
    qed (simp add: heap_only_refl)
  qed
  show "\<exists>c'. yos_free c p = Some c' \<and> heap_owns c' P \<and> heap_only c c' \<and> (\<forall>i. stable c P i \<longrightarrow> memory c' i = memory c i)"
    if o: "heap_owns c ((unat p, k) # P)"
  proof -
    let ?b = "(unat p - 8, k + 8)"
    obtain fl us where h: "heap_inv c fl us" "mset us = mset (map blk_of ((unat p, k) # P))" "\<forall>r\<in>set ((unat p, k) # P). 8 \<le> fst r"
      using o by (rule heap_ownsE)
    have us: "heap_inv c fl (?b # map blk_of P)" using heap_inv_mset [OF h(1), of "?b # map blk_of P"] h(2) by (simp add: blk_of_def)
    have p: "unat p = unat p - 8 + 8" using h(3) by simp
    obtain m h' where f: "yos_free c p = Some (c\<lparr>memory := m, alloc_free_head := h'\<rparr>)"
      "heap_inv (c\<lparr>memory := m, alloc_free_head := h'\<rparr>) (insert_free ?b fl) (remove1 ?b (?b # map blk_of P))"
      "\<And>i. cov fl i = 0 \<Longrightarrow> i < unat p - 8 \<or> unat p - 8 + 8 \<le> i \<Longrightarrow> m i = memory c i"
      using free_refines [OF us list.set_intros(1) p] by blast
    let ?c = "c\<lparr>memory := m, alloc_free_head := h'\<rparr>"
    have "heap_owns ?c P" using heap_ownsI [of ?c "insert_free ?b fl" "map blk_of P" P] f(2) h(3) heap_owns_size [OF o] by simp
    moreover have "m i = memory c i" if st: "stable c P i" for i
    proof -
      have "stable c ((unat p, k) # P) i" using st by (auto simp: stable_def)
      then have z: "cov fl i = 0" using stable_uncovered [OF h(1,2,3)] by blast
      have "\<not> in_blk i ?b"
      proof
        assume ib: "in_blk i ?b"
        have "cov (map blk_of P) i = 0" using heap_wf_disjoint(2) [OF heap_inv_wf [OF us] list.set_intros(1) ib] by simp
        then have "\<not> owned P i" using heap_owns_cov [OF refl, of P i] h(3) by auto
        then have "i < unat (alloc_lo c) \<or> unat (alloc_hi c) \<le> i" using st by (simp add: stable_def)
        then have "cov (?b # map blk_of P) i = 0" using outside_not_covered(2) [OF us] by blast
        then show False using ib by (simp add: cov_def split: if_splits)
      qed
      then show ?thesis using f(3) [OF z] by (auto simp: in_blk_def)
    qed
    moreover have "heap_only c ?c" unfolding heap_only_def by (intro exI) (rule refl)
    ultimately show ?thesis using f(1) by (intro exI [of _ ?c]) simp
  qed
  show "heap_owns (c\<lparr>memory := m\<rparr>) ((a, k) # P)" if o: "heap_owns c ((a, k) # P)" and out: "\<And>i. i < a \<or> a + k \<le> i \<Longrightarrow> m i = memory c i"
  proof -
    obtain fl us where h: "heap_inv c fl us" "mset us = mset (map blk_of ((a, k) # P))" "\<forall>r\<in>set ((a, k) # P). 8 \<le> fst r"
      using o by (rule heap_ownsE)
    have "blk_of (a, k) \<in> set us" using h(2) by (metis list.set_intros(1) list.simps(9) set_mset_mset)
    then have "(a - 8, k + 8) \<in> set us" by (simp add: blk_of_def)
    then have "heap_inv (c\<lparr>memory := m\<rparr>) fl us" by (rule payload_write [OF h(1)]) (use h(3) in \<open>auto intro: out\<close>)
    then show ?thesis using o h(2) by (auto simp: heap_owns_def)
  qed
  show "heap_owns (c\<lparr>memory := m\<rparr>) P" if o: "heap_owns c P"
    and s: "\<And>i. unat (alloc_lo c) \<le> i \<Longrightarrow> i < unat (alloc_hi c) \<Longrightarrow> m i = memory c i"
  proof -
    obtain fl us where h: "heap_inv c fl us" "mset us = mset (map blk_of P)" using o by (rule heap_ownsE)
    have "heap_inv (c\<lparr>memory := m\<rparr>) fl us" by (rule outside_write [OF h(1) s])
    then show ?thesis using o h(2) by (auto simp: heap_owns_def)
  qed
qed

end
