(* ===== verification/Env.thy ===== *)
theory Env
  imports HeapClient Paths "HOL-Library.Monad_Syntax"
begin

text \<open>
  The environment, \<^verbatim>\<open>src/src/yos/impl/libc/env.c\<close>: names and values live in the guest heap, the context holds
  a table of their offsets.  The C code follows guest pointers without a bound: a C string is read up
  to its NUL, wherever that is.  \<^verbatim>\<open>yos_free\<close> may not return on a corrupted heap, so the calls that use it
  have option results.
\<close>

abbreviation YOS_ENV_MAX :: nat where "YOS_ENV_MAX \<equiv> 512"

text \<open>No address is beyond this one; it stands for the unbounded scan of \<^verbatim>\<open>strlen\<close>.\<close>

abbreviation HOST_END :: nat where "HOST_END \<equiv> 140737488355328"

definition raw_str :: "mem \<Rightarrow> nat \<Rightarrow> string" where
  "raw_str m p = cstr m p HOST_END"

text \<open>A \<^verbatim>\<open>const char *\<close>: a host string, or a pointer into guest memory.\<close>

datatype c_src = Host string | Guest nat

definition src_str :: "mem \<Rightarrow> c_src \<Rightarrow> string" where
  "src_str m src = (case src of Host s \<Rightarrow> s | Guest p \<Rightarrow> raw_str m p)"

text \<open>The length is taken before, the bytes are copied after the allocation.\<close>

definition copy_to_wasm :: "yos_exec_ctx \<Rightarrow> c_src \<Rightarrow> u32 \<times> yos_exec_ctx" where
  "copy_to_wasm ctx src =
     (let n = length (src_str (memory ctx) src) + 1 in
      case yos_malloc ctx (of_nat n) of (off, c1) \<Rightarrow>
        if off = 0 then (0, c1)
        else (off, c1\<lparr>memory := (case src of
                 Host s \<Rightarrow> mem_write (memory c1) (unat off) (c_bytes s)
               | Guest p \<Rightarrow> mem_copy (memory c1) (unat off) p n)\<rparr>))"

definition entry_matches :: "mem \<Rightarrow> string \<Rightarrow> yos_env_entry \<Rightarrow> bool" where
  "entry_matches m name e \<longleftrightarrow> name_off e \<noteq> 0 \<and> unat (name_len e) = length name \<and>
     map (\<lambda>i. m (unat (name_off e) + i)) [0..<length name] = map byte_of name"

definition find_entry :: "yos_exec_ctx \<Rightarrow> string \<Rightarrow> nat option" where
  "find_entry ctx name = find_index (entry_matches (memory ctx) name) (env_entries ctx)"

text \<open>Splitting at the first \<^verbatim>\<open>=\<close>.\<close>

definition split_eq :: "string \<Rightarrow> (string \<times> string) option" where
  "split_eq s = (if CHR ''='' \<notin> set s then None
     else Some (takeWhile (\<lambda>c. c \<noteq> CHR ''='') s, tl (dropWhile (\<lambda>c. c \<noteq> CHR ''='') s)))"

fun env_load_from_vec :: "yos_exec_ctx \<Rightarrow> string list \<Rightarrow> yos_exec_ctx" where
  "env_load_from_vec ctx [] = ctx"
| "env_load_from_vec ctx (p # ps) =
     (if YOS_ENV_MAX \<le> length (env_entries ctx) then ctx
      else case split_eq p of
          None \<Rightarrow> env_load_from_vec ctx ps
        | Some (name, val) \<Rightarrow>
            if 256 \<le> length name then env_load_from_vec ctx ps
            else case copy_to_wasm ctx (Host name) of (noff, c1) \<Rightarrow>
              case copy_to_wasm c1 (Host val) of (voff, c2) \<Rightarrow>
                if noff = 0 \<or> voff = 0 then env_load_from_vec c2 ps
                else env_load_from_vec (c2\<lparr>env_entries := env_entries c2 @
                  [\<lparr> name_off = noff, value_off = voff, name_len = of_nat (length name) \<rparr>]\<rparr>) ps)"

text \<open>\<open>environ\<close> is the host's environment.\<close>

definition env_load_from_host :: "string list \<Rightarrow> yos_exec_ctx \<Rightarrow> yos_exec_ctx" where
  "env_load_from_host environ ctx = env_load_from_vec ctx environ"

definition env_init_once :: "string list \<Rightarrow> yos_exec_ctx \<Rightarrow> yos_exec_ctx" where
  "env_init_once environ ctx =
     (if env_initialised ctx then ctx
      else let c1 = ctx\<lparr>env_initialised := True\<rparr> in
        case envp ctx of
          Some (v # vs) \<Rightarrow> env_load_from_vec c1 (v # vs)
        | _ \<Rightarrow> env_load_from_host environ c1)"

definition yos_env_post_execve_reset :: "yos_exec_ctx \<Rightarrow> yos_exec_ctx" where
  "yos_env_post_execve_reset ctx = ctx\<lparr>env_entries := [], env_initialised := False\<rparr>"

text \<open>Freeing what is allocated of a list of offsets, in order.\<close>

fun free_offs :: "u32 list \<Rightarrow> yos_exec_ctx \<Rightarrow> yos_exec_ctx option" where
  "free_offs [] ctx = Some ctx"
| "free_offs (p # ps) ctx = do { c1 \<leftarrow> (if p \<noteq> 0 then yos_free ctx p else Some ctx); free_offs ps c1 }"

definition entry_offs :: "yos_env_entry list \<Rightarrow> u32 list" where
  "entry_offs es = concat (map (\<lambda>e. [name_off e, value_off e]) es)"

definition yos_env_reload :: "string list \<Rightarrow> yos_exec_ctx \<Rightarrow> yos_exec_ctx option" where
  "yos_env_reload environ ctx = do {
     c1 \<leftarrow> free_offs (entry_offs (env_entries ctx)) ctx;
     Some (env_load_from_host environ (c1\<lparr>env_entries := [], env_initialised := True\<rparr>)) }"

definition yos_getenv :: "string list \<Rightarrow> yos_exec_ctx \<Rightarrow> u32 \<Rightarrow> u32 \<times> yos_exec_ctx" where
  "yos_getenv environ ctx0 noff =
     (let ctx = env_init_once environ ctx0 in
      if noff = 0 \<or> memory_size ctx \<le> noff then (0, ctx)
      else case find_entry ctx (raw_str (memory ctx) (unat noff)) of
          None \<Rightarrow> (0, ctx)
        | Some i \<Rightarrow> (value_off (env_entries ctx ! i), ctx))"

text \<open>The trace and profile settings that \<^verbatim>\<open>setenv\<close> passes on to the host.\<close>

datatype env_event = TraceAll bool | HostSetenv string string | PerfDump | PerfEnable bool

definition says_yes :: "string \<Rightarrow> bool" where
  "says_yes v \<longleftrightarrow> v = ''yes'' \<or> v = ''1'' \<or> v = ''true''"

definition host_settings :: "string \<Rightarrow> string \<Rightarrow> env_event list" where
  "host_settings name val =
     (if name = ''YTRACE_DEFAULT_ON'' then [TraceAll (says_yes val)]
      else if name = ''YTRACE_FILE_PREFIX'' then [HostSetenv ''YTRACE_FILE_PREFIX'' val]
      else if name = ''YPERF'' then (if val = ''stop'' then [PerfDump] else [PerfEnable (says_yes val)])
      else if name = ''YPERF_FILE'' then [HostSetenv ''YPERF_FILE'' val]
      else if name = ''YPERF_RING_SIZE'' then [HostSetenv ''YPERF_RING_SIZE'' val]
      else [])"

definition env_fails :: "(int \<Rightarrow> int) \<Rightarrow> yos_exec_ctx \<Rightarrow> int \<Rightarrow> env_event list \<Rightarrow> (int \<times> yos_exec_ctx \<times> env_event list) option" where
  "env_fails h2g ctx e evs = Some (- 1, set_errno h2g ctx e, evs)"

definition replace_value :: "(int \<Rightarrow> int) \<Rightarrow> yos_exec_ctx \<Rightarrow> nat \<Rightarrow> nat \<Rightarrow> env_event list \<Rightarrow>
    (int \<times> yos_exec_ctx \<times> env_event list) option" where
  "replace_value h2g ctx idx val evs =
     (case copy_to_wasm ctx (Guest val) of (new_val, c1) \<Rightarrow>
        if new_val = 0 then env_fails h2g c1 ENOMEM evs
        else do {
          c2 \<leftarrow> (if value_off (env_entries c1 ! idx) \<noteq> 0 then yos_free c1 (value_off (env_entries c1 ! idx)) else Some c1);
          Some (0, c2\<lparr>env_entries := (env_entries c2)[idx := (env_entries c2 ! idx)\<lparr>value_off := new_val\<rparr>]\<rparr>, evs) })"

definition add_entry :: "(int \<Rightarrow> int) \<Rightarrow> yos_exec_ctx \<Rightarrow> nat \<Rightarrow> nat \<Rightarrow> env_event list \<Rightarrow>
    (int \<times> yos_exec_ctx \<times> env_event list) option" where
  "add_entry h2g ctx name val evs =
     (if YOS_ENV_MAX \<le> length (env_entries ctx) then env_fails h2g ctx ENOMEM evs
      else case copy_to_wasm ctx (Guest name) of (nm, c1) \<Rightarrow>
        case copy_to_wasm c1 (Guest val) of (vl, c2) \<Rightarrow>
          if nm = 0 \<or> vl = 0 then do { c3 \<leftarrow> free_offs [nm, vl] c2; env_fails h2g c3 ENOMEM evs }
          else Some (0, c2\<lparr>env_entries := env_entries c2 @
                 [\<lparr> name_off = nm, value_off = vl, name_len = of_nat (length (raw_str (memory c2) name)) \<rparr>]\<rparr>, evs))"

definition yos_setenv :: "(int \<Rightarrow> int) \<Rightarrow> string list \<Rightarrow> yos_exec_ctx \<Rightarrow> u32 \<Rightarrow> u32 \<Rightarrow> int \<Rightarrow>
    (int \<times> yos_exec_ctx \<times> env_event list) option" where
  "yos_setenv h2g environ ctx0 noff voff overwrite =
     (let ctx = env_init_once environ ctx0 in
      if noff = 0 \<or> voff = 0 \<or> memory_size ctx \<le> noff \<or> memory_size ctx \<le> voff then env_fails h2g ctx EINVAL []
      else let name = raw_str (memory ctx) (unat noff); val = raw_str (memory ctx) (unat voff) in
        if name = [] \<or> CHR ''='' \<in> set name then env_fails h2g ctx EINVAL []
        else let evs = host_settings name val in
          case find_entry ctx name of
            Some idx \<Rightarrow> if overwrite = 0 then Some (0, ctx, evs) else replace_value h2g ctx idx (unat voff) evs
          | None \<Rightarrow> add_entry h2g ctx (unat noff) (unat voff) evs)"

definition yos_unsetenv :: "(int \<Rightarrow> int) \<Rightarrow> string list \<Rightarrow> yos_exec_ctx \<Rightarrow> u32 \<Rightarrow> (int \<times> yos_exec_ctx) option" where
  "yos_unsetenv h2g environ ctx0 noff =
     (let ctx = env_init_once environ ctx0 in
      if noff = 0 \<or> memory_size ctx \<le> noff then Some (yos_errno_neg h2g ctx EINVAL)
      else let name = raw_str (memory ctx) (unat noff) in
        if name = [] \<or> CHR ''='' \<in> set name then Some (yos_errno_neg h2g ctx EINVAL)
        else case find_entry ctx name of
            None \<Rightarrow> Some (0, ctx)
          | Some idx \<Rightarrow> do {
              c1 \<leftarrow> free_offs (entry_offs [env_entries ctx ! idx]) ctx;
              let es = env_entries c1;
              Some (0, c1\<lparr>env_entries := butlast (es[idx := last es])\<rparr>) })"

definition yos_clearenv :: "string list \<Rightarrow> yos_exec_ctx \<Rightarrow> (int \<times> yos_exec_ctx) option" where
  "yos_clearenv environ ctx0 =
     (let ctx = env_init_once environ ctx0 in
      do { c1 \<leftarrow> free_offs (entry_offs (env_entries ctx)) ctx; Some (0, c1\<lparr>env_entries := []\<rparr>) })"

definition yos_putenv :: "(int \<Rightarrow> int) \<Rightarrow> string list \<Rightarrow> yos_exec_ctx \<Rightarrow> u32 \<Rightarrow> (int \<times> yos_exec_ctx \<times> env_event list) option" where
  "yos_putenv h2g environ ctx0 soff =
     (let ctx = env_init_once environ ctx0 in
      if soff = 0 \<or> memory_size ctx \<le> soff then env_fails h2g ctx EINVAL []
      else let s = raw_str (memory ctx) (unat soff) in
        case split_eq s of
          None \<Rightarrow> env_fails h2g ctx EINVAL []
        | Some (name, val) \<Rightarrow>
            if name = [] \<or> 256 \<le> length name then env_fails h2g ctx EINVAL []
            else case copy_to_wasm ctx (Host name) of (noff, c1) \<Rightarrow>
              case copy_to_wasm c1 (Guest (unat soff + length name + 1)) of (voff, c2) \<Rightarrow>
                if noff = 0 \<or> voff = 0 then do { c3 \<leftarrow> free_offs [noff, voff] c2; env_fails h2g c3 ENOMEM [] }
                else do {
                  (r, c3, evs) \<leftarrow> yos_setenv h2g environ c2 noff voff 1;
                  c4 \<leftarrow> yos_free c3 noff;
                  c5 \<leftarrow> yos_free c4 voff;
                  Some (r, c5, evs) })"

end
