(* ===== verification/EnvProps.thy ===== *)
theory EnvProps
  imports Env
begin

text \<open>
  The environment as a finite map.  Every entry's name and value are NUL-terminated strings in blocks of the
  guest heap that nothing else owns; on such a table \<^verbatim>\<open>setenv\<close>, \<^verbatim>\<open>unsetenv\<close> and \<^verbatim>\<open>getenv\<close> are update, delete and
  lookup, and no other owned byte of the heap is disturbed.  The proofs use the heap through its
  interface only.
\<close>

section \<open>Strings in memory\<close>

definition str_at :: "mem \<Rightarrow> nat \<Rightarrow> string \<Rightarrow> bool" where
  "str_at m p s \<longleftrightarrow> CHR 0x00 \<notin> set s \<and> (\<forall>i\<le>length s. m (p + i) = c_bytes s ! i)"

lemma str_at_cong: "str_at m p s \<Longrightarrow> (\<And>i. p \<le> i \<Longrightarrow> i \<le> p + length s \<Longrightarrow> m' i = m i) \<Longrightarrow> str_at m' p s"
  by (simp add: str_at_def)

lemma raw_str_at: "str_at m p s \<Longrightarrow> p + length s < HOST_END \<Longrightarrow> raw_str m p = s"
  by (auto simp: str_at_def raw_str_def intro!: cstr_c_bytes)

text \<open>A source string that allocation does not disturb.\<close>

definition src_ok :: "yos_exec_ctx \<Rightarrow> range list \<Rightarrow> c_src \<Rightarrow> string \<Rightarrow> bool" where
  "src_ok c P src s \<longleftrightarrow> length s < MALLOC_MAX \<and> CHR 0x00 \<notin> set s \<and>
     (case src of Host t \<Rightarrow> t = s
      | Guest p \<Rightarrow> str_at (memory c) p s \<and> p + length s < HOST_END \<and> (\<forall>i\<le>length s. stable c P (p + i)))"

lemma length_c_bytes [simp]: "length (c_bytes s) = length s + 1"
  by (simp add: c_bytes_def)

lemma src_str_ok: "src_ok c P src s \<Longrightarrow> src_str (memory c) src = s"
  by (cases src) (simp_all add: src_ok_def src_str_def raw_str_at)

lemma copy_ok:
  assumes "heap_owns c P" and "src_ok c P src s" and "copy_to_wasm c src = (off, c')"
  shows "if off = 0 then c' = c
    else \<exists>k. length s < k \<and> heap_owns c' ((unat off, k) # P) \<and> heap_only c c' \<and>
      (\<forall>i. stable c P i \<longrightarrow> memory c' i = memory c i) \<and> str_at (memory c') (unat off) s"
proof -
  let ?n = "length (c_bytes s)"
  obtain off1 c1 where m: "yos_malloc c (of_nat ?n) = (off1, c1)" by (cases "yos_malloc c (of_nat ?n)")
  have n: "?n \<le> MALLOC_MAX" using assms(2) by (simp add: src_ok_def)
  note src = src_str_ok [OF assms(2)]
  show ?thesis
  proof (cases "off1 = 0")
    case True
    then have "off = 0" "c' = c1" using assms(3) m src by (simp_all add: copy_to_wasm_def)
    then show ?thesis using yos_heap.malloc_null [OF assms(1)] m True by simp
  next
    case False
    have eq: "mem_copy (memory c1) (unat off1) p ?n = mem_write (memory c1) (unat off1) (c_bytes s)" if p: "src = Guest p" for p
    proof
      fix i
      have b: "memory c1 (p + j) = c_bytes s ! j" if "j < ?n" for j
        using yos_heap.malloc_frame [OF assms(1) m] assms(2) p that by (auto simp: src_ok_def str_at_def)
      show "mem_copy (memory c1) (unat off1) p ?n i = mem_write (memory c1) (unat off1) (c_bytes s) i"
      proof (cases "unat off1 \<le> i \<and> i < unat off1 + ?n")
        case True
        then obtain j where "i = unat off1 + j" "j < ?n" using le_Suc_ex by fastforce
        then show ?thesis using b by (simp add: mem_copy_def mem_write_def)
      qed (auto simp: mem_copy_def mem_write_def)
    qed
    have c': "off = off1" "c' = c1\<lparr>memory := mem_write (memory c1) (unat off1) (c_bytes s)\<rparr>"
      using assms(2,3) m src False eq by (auto simp: copy_to_wasm_def src_ok_def split: c_src.splits)
    obtain k where k: "?n \<le> k" "heap_owns c' ((unat off, k) # P)" "heap_only c c'" "\<forall>i. stable c P i \<longrightarrow> memory c' i = memory c i"
      "\<forall>i<?n. memory c' (unat off + i) = c_bytes s ! i"
      using yos_heap.malloc_fill [OF assms(1) m False n refl] c' by auto
    have "str_at (memory c') (unat off) s" using k(5) assms(2) by (simp add: str_at_def src_ok_def)
    then show ?thesis using k(1-4) False c'(1) by (auto simp: Suc_le_eq)
  qed
qed

lemma copy_frame:
  assumes "heap_owns c P" and "src_ok c P src s" and "copy_to_wasm c src = (off, c')"
  shows "heap_only c c'" "stable c P i \<Longrightarrow> memory c' i = memory c i"
proof -
  have "heap_only c c' \<and> (\<forall>i. stable c P i \<longrightarrow> memory c' i = memory c i)"
    using copy_ok [OF assms] heap_only_refl [of c] by (cases "off = 0") auto
  then show "heap_only c c'" "stable c P i \<Longrightarrow> memory c' i = memory c i" by simp_all
qed

section \<open>The table\<close>

record env_row =
  rentry :: yos_env_entry
  rname :: string
  rvalue :: string
  nblk :: nat
  vblk :: nat

definition row_ranges :: "env_row \<Rightarrow> range list" where
  "row_ranges r = [(unat (name_off (rentry r)), nblk r), (unat (value_off (rentry r)), vblk r)]"

definition row_ok :: "mem \<Rightarrow> env_row \<Rightarrow> bool" where
  "row_ok m r \<longleftrightarrow> length (rname r) < nblk r \<and> length (rvalue r) < vblk r \<and>
     unat (name_len (rentry r)) = length (rname r) \<and> name_off (rentry r) \<noteq> 0 \<and> value_off (rentry r) \<noteq> 0 \<and>
     str_at m (unat (name_off (rentry r))) (rname r) \<and> str_at m (unat (value_off (rentry r))) (rvalue r)"

definition ranges :: "env_row list \<Rightarrow> range list" where
  "ranges rows = concat (map row_ranges rows)"

text \<open>The table of a context has the given rows, and \<open>Q\<close> is what the rest of the program owns.\<close>

definition env_ok :: "yos_exec_ctx \<Rightarrow> env_row list \<Rightarrow> range list \<Rightarrow> bool" where
  "env_ok c rows Q \<longleftrightarrow> env_initialised c \<and> env_entries c = map rentry rows \<and> length rows \<le> YOS_ENV_MAX \<and>
     list_all (row_ok (memory c)) rows \<and> distinct (map rname rows) \<and> heap_owns c (ranges rows @ Q)"

definition env_map :: "env_row list \<Rightarrow> (string \<rightharpoonup> string)" where
  "env_map rows = map_of (map (\<lambda>r. (rname r, rvalue r)) rows)"

lemma ranges_simps [simp]: "ranges [] = []" "ranges (r # rows) = row_ranges r @ ranges rows" "ranges (A @ B) = ranges A @ ranges B"
  by (simp_all add: ranges_def)

lemma row_ok_stable:
  assumes "row_ok m r" and "\<And>i. owned (row_ranges r) i \<Longrightarrow> m' i = m i"
  shows "row_ok m' r"
proof -
  let ?n = "unat (name_off (rentry r))" and ?v = "unat (value_off (rentry r))"
  have r: "str_at m ?n (rname r)" "str_at m ?v (rvalue r)" "length (rname r) < nblk r" "length (rvalue r) < vblk r"
    using assms(1) by (simp_all add: row_ok_def)
  have "m' i = m i" if "?n \<le> i" "i \<le> ?n + length (rname r)" for i
    using that r(3) by (intro assms(2)) (simp add: row_ranges_def)
  then have "str_at m' ?n (rname r)" using str_at_cong [OF r(1)] by blast
  moreover have "m' i = m i" if "?v \<le> i" "i \<le> ?v + length (rvalue r)" for i
    using that r(4) by (intro assms(2)) (simp add: row_ranges_def)
  then have "str_at m' ?v (rvalue r)" using str_at_cong [OF r(2)] by blast
  ultimately show ?thesis using assms(1) by (simp add: row_ok_def)
qed

lemma rows_ok_stable:
  "list_all (row_ok m) rows \<Longrightarrow> (\<And>i. owned (ranges rows) i \<Longrightarrow> m' i = m i) \<Longrightarrow> list_all (row_ok m') rows"
  by (induction rows) (auto intro: row_ok_stable)

lemma byte_of_inj: "byte_of a = byte_of b \<longleftrightarrow> a = b"
  by (metis char_of_byte_of)

lemma entry_matches_row:
  assumes "row_ok m r"
  shows "entry_matches m n (rentry r) \<longleftrightarrow> rname r = n"
proof -
  let ?p = "unat (name_off (rentry r))"
  have b: "m (?p + i) = byte_of (rname r ! i)" if "i < length (rname r)" for i
    using assms that by (simp add: row_ok_def str_at_def c_bytes_def nth_append)
  have len: "unat (name_len (rentry r)) = length (rname r)" "name_off (rentry r) \<noteq> 0" using assms by (simp_all add: row_ok_def)
  show ?thesis
  proof (cases "length (rname r) = length n")
    case True
    have "map (\<lambda>i. m (?p + i)) [0..<length n] = map byte_of (rname r)"
      using b True by (intro nth_equalityI) simp_all
    then have "map (\<lambda>i. m (?p + i)) [0..<length n] = map byte_of n \<longleftrightarrow> rname r = n"
      using inj_map_eq_map [of byte_of "rname r" n] byte_of_inj by (simp add: inj_def)
    then show ?thesis using len True by (simp add: entry_matches_def)
  next
    case False
    then show ?thesis using len by (auto simp: entry_matches_def)
  qed
qed

lemma find_entry_rows:
  assumes "env_ok c rows Q"
  shows "find_entry c n = find_index (\<lambda>r. rname r = n) rows"
  unfolding find_entry_def
  using assms entry_matches_row [of "memory c"]
  by (intro find_index_cong) (auto simp: env_ok_def list_all_length)

lemma find_index_split:
  "find_index P xs = Some i \<Longrightarrow> \<exists>A x B. xs = A @ x # B \<and> length A = i \<and> P x \<and> (\<forall>y\<in>set A. \<not> P y)"
proof -
  assume f: "find_index P xs = Some i"
  then have i: "i < length xs" "P (xs ! i)" "\<forall>j<i. \<not> P (xs ! j)" by (simp_all add: find_index_Some)
  then have "xs = take i xs @ xs ! i # drop (Suc i) xs" by (simp add: id_take_nth_drop)
  moreover have "\<forall>y\<in>set (take i xs). \<not> P y" using i by (auto simp: in_set_conv_nth)
  ultimately show ?thesis using i(1,2) by (intro exI [of _ "take i xs"] exI [of _ "xs ! i"] exI [of _ "drop (Suc i) xs"]) simp
qed

lemma env_map_split:
  "distinct (map rname (A @ r # B)) \<Longrightarrow> env_map (A @ r # B) = (env_map (A @ B))(rname r \<mapsto> rvalue r)"
  "distinct (map rname (A @ r # B)) \<Longrightarrow> env_map (A @ B) (rname r) = None"
proof -
  assume d: "distinct (map rname (A @ r # B))"
  then have n: "rname r \<notin> dom (env_map A)" "env_map A (rname r) = None" "env_map B (rname r) = None"
    by (auto simp: env_map_def dom_map_of_conv_image_fst map_of_eq_None_iff image_image)
  have "env_map (A @ r # B) = (env_map B)(rname r \<mapsto> rvalue r) ++ env_map A" "env_map (A @ B) = env_map B ++ env_map A"
    by (simp_all add: env_map_def)
  then show "env_map (A @ r # B) = (env_map (A @ B))(rname r \<mapsto> rvalue r)" "env_map (A @ B) (rname r) = None"
    using n by (simp_all add: map_add_upd_left)
qed

lemma env_map_None: "env_map rows n = None \<longleftrightarrow> find_index (\<lambda>r. rname r = n) rows = None"
  by (auto simp: env_map_def map_of_eq_None_iff find_index_None image_image)

section \<open>Arguments and errors\<close>

text \<open>A string argument of a call: inside linear memory and not in a part of the heap the caller does not own.\<close>

definition guest_arg :: "yos_exec_ctx \<Rightarrow> range list \<Rightarrow> u32 \<Rightarrow> string \<Rightarrow> bool" where
  "guest_arg c Q off s \<longleftrightarrow> off \<noteq> 0 \<and> off < memory_size c \<and> src_ok c Q (Guest (unat off)) s"

text \<open>The errno slot is not part of the heap.\<close>

definition errno_apart :: "yos_exec_ctx \<Rightarrow> bool" where
  "errno_apart c \<longleftrightarrow> unat (errno_off c) + 4 \<le> unat (alloc_lo c) \<or> unat (alloc_hi c) \<le> unat (errno_off c)"

lemma src_ok_more: "src_ok c Q src s \<Longrightarrow> src_ok c (P @ Q) src s"
  by (auto simp: src_ok_def split: c_src.splits)

lemma guest_arg_str: "guest_arg c Q off s \<Longrightarrow> raw_str (memory c) (unat off) = s"
  using src_str_ok [of c Q "Guest (unat off)" s] by (simp add: guest_arg_def src_str_def)

lemma init_done: "env_initialised c \<Longrightarrow> env_init_once environ c = c"
  by (simp add: env_init_once_def)

lemma env_ok_heap_only:
  assumes "env_ok c rows Q" and "heap_only c c'" and "heap_owns c' (ranges rows @ Q)"
    and "\<And>i. owned (ranges rows) i \<Longrightarrow> memory c' i = memory c i"
  shows "env_ok c' rows Q"
  using assms rows_ok_stable [of "memory c" rows "memory c'"] heap_only_simps(5,6) [OF assms(2)] by (simp add: env_ok_def)

lemma env_ok_errno:
  assumes "env_ok c rows Q" and "errno_apart c"
  shows "env_ok (set_errno h2g c e) rows Q"
proof (cases "errno_off c = 0")
  case False
  let ?m = "store32 (memory c) (unat (errno_off c)) (word_of_int (h2g e))"
  have out: "?m i = memory c i" if "unat (alloc_lo c) \<le> i" "i < unat (alloc_hi c)" for i
    using that assms(2) by (intro store32_other) (auto simp: errno_apart_def)
  have own: "heap_owns c (ranges rows @ Q)" using assms(1) by (simp add: env_ok_def)
  have "heap_owns (c\<lparr>memory := ?m\<rparr>) (ranges rows @ Q)" using yos_heap.store_outside [OF own out] .
  moreover have "?m i = memory c i" if "owned (ranges rows) i" for i
  proof (rule out)
    obtain a k where r: "(a, k) \<in> set (ranges rows)" "a \<le> i" "i < a + k" using \<open>owned (ranges rows) i\<close> by (auto simp: owned_def)
    then obtain X Y where "ranges rows = X @ (a, k) # Y" by (meson split_list)
    then have "heap_owns c ((a, k) # X @ Y @ Q)" using yos_heap.inv_mset [OF own] by simp
    from yos_heap.inv_range [OF this] show "unat (alloc_lo c) \<le> i" "i < unat (alloc_hi c)" using r by auto
  qed
  ultimately show ?thesis
    using env_ok_heap_only [OF assms(1), of "c\<lparr>memory := ?m\<rparr>"] heap_only_memory False by (simp add: set_errno_def)
qed (use assms(1) in \<open>simp add: set_errno_def\<close>)

section \<open>Lookup\<close>

lemma getenv_lookup:
  assumes "env_ok c rows Q" and "guest_arg c Q noff n" and "yos_getenv environ c noff = (p, c')"
  shows "c' = c \<and> (case env_map rows n of None \<Rightarrow> p = 0 | Some v \<Rightarrow> p \<noteq> 0 \<and> str_at (memory c) (unat p) v)"
proof -
  have i: "env_initialised c" and rows: "env_entries c = map rentry rows" "list_all (row_ok (memory c)) rows"
    "distinct (map rname rows)" using assms(1) by (simp_all add: env_ok_def)
  have a: "noff \<noteq> 0" "\<not> memory_size c \<le> noff" using assms(2) by (auto simp: guest_arg_def)
  note f = find_entry_rows [OF assms(1), of n]
  show ?thesis
  proof (cases "find_index (\<lambda>r. rname r = n) rows")
    case None
    then show ?thesis
      using assms(3) init_done [OF i] a guest_arg_str [OF assms(2)] f env_map_None [of rows n] by (simp add: yos_getenv_def)
  next
    case (Some k)
    then obtain A r B where s: "rows = A @ r # B" "length A = k" "rname r = n" using find_index_split by blast
    have "env_map rows n = Some (rvalue r)" using env_map_split(1) rows(3) s by simp
    moreover have "p = value_off (rentry r)" "c' = c"
      using assms(3) init_done [OF i] a guest_arg_str [OF assms(2)] f Some rows(1) s by (auto simp: yos_getenv_def nth_append)
    ultimately show ?thesis using rows(2) s by (simp add: row_ok_def)
  qed
qed

section \<open>Update\<close>

lemma replace_value_ok:
  assumes "env_ok c (A @ r # B) Q" and "src_ok c Q (Guest val) v" and "errno_apart c"
  shows "\<exists>ret c'. replace_value h2g c (length A) val evs = Some (ret, c', evs) \<and>
    (if ret = 0 then \<exists>rows'. env_ok c' rows' Q \<and> env_map rows' = (env_map (A @ r # B))(rname r \<mapsto> v) \<and>
       (\<forall>i. stable c Q i \<longrightarrow> memory c' i = memory c i)
     else ret = - 1 \<and> env_ok c' (A @ r # B) Q)"
proof -
  let ?rows = "A @ r # B" and ?no = "unat (name_off (rentry r))" and ?vo = "unat (value_off (rentry r))"
  have e: "env_entries c = map rentry ?rows" "list_all (row_ok (memory c)) ?rows" "distinct (map rname ?rows)"
    "heap_owns c (ranges ?rows @ Q)" "length ?rows \<le> YOS_ENV_MAX" "env_initialised c" using assms(1) by (simp_all add: env_ok_def)
  obtain new c1 where cp: "copy_to_wasm c (Guest val) = (new, c1)" by (cases "copy_to_wasm c (Guest val)")
  note ok = copy_ok [OF e(4) src_ok_more [OF assms(2)] cp]
  show ?thesis
  proof (cases "new = 0")
    case True
    then have "c1 = c" using ok by simp
    then show ?thesis using True cp env_ok_errno [OF assms(1,3)] by (simp add: replace_value_def env_fails_def)
  next
    case False
    obtain k where k: "length v < k" "heap_owns c1 ((unat new, k) # ranges ?rows @ Q)" "heap_only c c1"
      "\<And>i. stable c (ranges ?rows @ Q) i \<Longrightarrow> memory c1 i = memory c i" "str_at (memory c1) (unat new) v"
      using ok False by auto
    have e1: "env_entries c1 = map rentry ?rows" "env_initialised c1" using heap_only_simps(5,6) [OF k(3)] e by simp_all
    let ?P = "(unat new, k) # ranges A @ (?no, nblk r) # ranges B @ Q"
    have "heap_owns c1 ((?vo, vblk r) # ?P)" using yos_heap.inv_mset [OF k(2)] by (simp add: row_ranges_def)
    then obtain c2 where f: "yos_free c1 (value_off (rentry r)) = Some c2" "heap_owns c2 ?P" "heap_only c1 c2"
      "\<And>i. stable c1 ?P i \<Longrightarrow> memory c2 i = memory c1 i" using yos_heap.release_owned by blast
    have e2: "env_entries c2 = map rentry ?rows" "env_initialised c2" using heap_only_simps(5,6) [OF f(3)] e1 by simp_all
    let ?r = "r\<lparr>rentry := (rentry r)\<lparr>value_off := new\<rparr>, rvalue := v, vblk := k\<rparr>"
    let ?c = "c2\<lparr>env_entries := map rentry (A @ ?r # B)\<rparr>"
    have keep: "memory c2 i = memory c i" if "owned (ranges A @ (?no, nblk r) # ranges B) i \<or> stable c Q i" for i
    proof -
      have "stable c1 ?P i" using that heap_only_simps(1,2) [OF k(3)] by (auto simp: stable_def)
      moreover have "stable c (ranges ?rows @ Q) i" using that by (auto simp: stable_def row_ranges_def)
      ultimately show ?thesis using k(4) f(4) by metis
    qed
    have v: "str_at (memory c2) (unat new) v"
    proof (rule str_at_cong [OF k(5)])
      fix i assume "unat new \<le> i" and "i \<le> unat new + length v"
      then have "stable c1 ?P i" using k(1) by (auto simp: stable_def)
      then show "memory c2 i = memory c1 i" by (rule f(4))
    qed
    have ro: "row_ok (memory c) r" and AB: "list_all (row_ok (memory c)) A" "list_all (row_ok (memory c)) B" using e(2) by simp_all
    have rn: "str_at (memory c) ?no (rname r)" "length (rname r) < nblk r" using ro by (simp_all add: row_ok_def)
    have n: "str_at (memory c2) ?no (rname r)"
    proof (rule str_at_cong [OF rn(1)])
      fix i assume "?no \<le> i" and "i \<le> ?no + length (rname r)"
      then show "memory c2 i = memory c i" using rn(2) by (intro keep) simp
    qed
    have "list_all (row_ok (memory c2)) A" "list_all (row_ok (memory c2)) B"
      using rows_ok_stable [OF AB(1), of "memory c2"] rows_ok_stable [OF AB(2), of "memory c2"] keep by simp_all
    moreover have "row_ok (memory c2) ?r" using ro n v k(1) False by (simp add: row_ok_def)
    moreover have "heap_owns ?c (ranges (A @ ?r # B) @ Q)"
      using yos_heap.inv_same_heap [of c2 "ranges (A @ ?r # B) @ Q" ?c] yos_heap.inv_mset [OF f(2), of "ranges (A @ ?r # B) @ Q"]
      by (simp add: row_ranges_def same_heap_def)
    ultimately have "env_ok ?c (A @ ?r # B) Q" using e e2(2) by (simp add: env_ok_def)
    moreover have "env_map (A @ ?r # B) = (env_map ?rows)(rname r \<mapsto> v)"
      using env_map_split(1) [of A ?r B] env_map_split(1) [of A r B] e(3) by simp
    moreover have "replace_value h2g c (length A) val evs = Some (0, ?c, evs)"
      using cp False e1(1) e2(1) f(1) ro list_update_length [of "map rentry A" "rentry r" "map rentry B"]
      by (simp add: replace_value_def nth_append row_ok_def)
    moreover have "\<forall>i. stable c Q i \<longrightarrow> memory ?c i = memory c i" using keep by simp
    ultimately show ?thesis by auto
  qed
qed

lemma add_entry_ok:
  assumes "env_ok c rows Q" and "src_ok c Q (Guest nm) n" and "src_ok c Q (Guest val) v" and "errno_apart c"
    and "n \<notin> set (map rname rows)"
  shows "\<exists>ret c'. add_entry h2g c nm val evs = Some (ret, c', evs) \<and>
    (if ret = 0 then \<exists>rows'. env_ok c' rows' Q \<and> env_map rows' = (env_map rows)(n \<mapsto> v) \<and>
       (\<forall>i. stable c Q i \<longrightarrow> memory c' i = memory c i)
     else ret = - 1 \<and> env_ok c' rows Q)"
proof (cases "YOS_ENV_MAX \<le> length rows")
  case True
  then show ?thesis using env_ok_errno [OF assms(1,4)] assms(1) by (simp add: add_entry_def env_fails_def env_ok_def)
next
  case room: False
  let ?P = "ranges rows @ Q"
  have e: "env_entries c = map rentry rows" "list_all (row_ok (memory c)) rows" "distinct (map rname rows)"
    "heap_owns c ?P" "env_initialised c" using assms(1) by (simp_all add: env_ok_def)
  obtain no c1 where cn: "copy_to_wasm c (Guest nm) = (no, c1)" by (cases "copy_to_wasm c (Guest nm)")
  note okn = copy_ok [OF e(4) src_ok_more [OF assms(2)] cn]
  note k1 = copy_frame [OF e(4) src_ok_more [OF assms(2)] cn]
  obtain k where k: "no \<noteq> 0 \<Longrightarrow> length n < k \<and> str_at (memory c1) (unat no) n"
    and own1: "heap_owns c1 ((if no = 0 then [] else [(unat no, k)]) @ ?P)"
    using okn e(4) by (cases "no = 0") auto
  define N where "N = (if no = 0 then [] else [(unat no, k)])"
  note own1 = own1 [folded N_def]
  have st1: "stable c1 P i \<longleftrightarrow> stable c P i" for P i using heap_only_simps(7) [OF k1(1)] .
  have v1: "src_ok c1 (N @ ?P) (Guest val) v"
  proof -
    have "stable c ?P (val + i)" if "i \<le> length v" for i using assms(3) that by (auto simp: src_ok_def)
    then show ?thesis using assms(3) k1(2) st1 by (auto simp: src_ok_def str_at_def)
  qed
  obtain vo c2 where cv: "copy_to_wasm c1 (Guest val) = (vo, c2)" by (cases "copy_to_wasm c1 (Guest val)")
  note okv = copy_ok [OF own1 v1 cv]
  note k2 = copy_frame [OF own1 v1 cv]
  obtain l where l: "vo \<noteq> 0 \<Longrightarrow> length v < l \<and> str_at (memory c2) (unat vo) v"
    and own2: "heap_owns c2 ((if vo = 0 then [] else [(unat vo, l)]) @ N @ ?P)"
    using okv own1 by (cases "vo = 0") auto
  have only: "heap_only c c2" using heap_only_trans [OF k1(1) k2(1)] .
  have keep: "memory c2 i = memory c i" if "stable c ?P i" for i
    using k1(2) k2(2) st1 that by (metis stable_app)
  show ?thesis
  proof (cases "no = 0 \<or> vo = 0")
    case True
    have "\<exists>c3. free_offs [no, vo] c2 = Some c3 \<and> heap_owns c3 ?P \<and> heap_only c2 c3 \<and> (\<forall>i. stable c2 ?P i \<longrightarrow> memory c3 i = memory c2 i)"
    proof (cases "no = 0")
      case no: True
      show ?thesis
      proof (cases "vo = 0")
        case False
        then show ?thesis using no own2 yos_heap.release_owned [of c2 vo l ?P] by (auto simp: N_def)
      qed (use no own2 heap_only_refl in \<open>auto simp: N_def\<close>)
    next
      case False
      then show ?thesis using True own2 yos_heap.release_owned [of c2 no k ?P] by (auto simp: N_def)
    qed
    then obtain c3 where f: "free_offs [no, vo] c2 = Some c3" "heap_owns c3 ?P" "heap_only c2 c3"
      "\<And>i. stable c2 ?P i \<Longrightarrow> memory c3 i = memory c2 i" by blast
    have o3: "heap_only c c3" using heap_only_trans [OF only f(3)] .
    have "env_ok c3 rows Q"
      using f(2,4) keep heap_only_simps(7) [OF only] by (intro env_ok_heap_only [OF assms(1) o3]) auto
    moreover have "errno_apart c3" using assms(4) heap_only_simps(1,2,4) [OF o3] by (simp add: errno_apart_def)
    ultimately have "env_ok (set_errno h2g c3 ENOMEM) rows Q" by (rule env_ok_errno)
    moreover have "add_entry h2g c nm val evs = Some (- 1, set_errno h2g c3 ENOMEM, evs)"
      using room e(1) cn cv True f(1) by (simp add: add_entry_def env_fails_def del: free_offs.simps)
    ultimately show ?thesis by (intro exI [of _ "- 1"] exI [of _ "set_errno h2g c3 ENOMEM"]) simp
  next
    case False
    let ?e = "\<lparr>name_off = no, value_off = vo, name_len = of_nat (length n)\<rparr>"
    let ?r = "\<lparr>rentry = ?e, rname = n, rvalue = v, nblk = k, vblk = l\<rparr>"
    let ?c = "c2\<lparr>env_entries := map rentry (rows @ [?r])\<rparr>"
    have nlen: "raw_str (memory c2) nm = n"
    proof (rule raw_str_at)
      show "nm + length n < HOST_END" using assms(2) by (simp add: src_ok_def)
      show "str_at (memory c2) nm n"
        using assms(2) keep by (auto simp: src_ok_def str_at_def)
    qed
    have n32: "unat (of_nat (length n) :: u32) = length n" using assms(2) by (simp add: src_ok_def unat_of_nat_u32)
    have "str_at (memory c2) (unat no) n"
    proof (rule str_at_cong)
      show "str_at (memory c1) (unat no) n" using k False by simp
      fix i assume "unat no \<le> i" and "i \<le> unat no + length n"
      then show "memory c2 i = memory c1 i" using k False by (intro k2(2)) (auto simp: N_def stable_def)
    qed
    then have "row_ok (memory c2) ?r" using k l False n32 by (simp add: row_ok_def)
    moreover have "list_all (row_ok (memory c2)) rows" using rows_ok_stable [OF e(2)] keep by simp
    moreover have "heap_owns ?c (ranges (rows @ [?r]) @ Q)"
      using yos_heap.inv_same_heap [of c2 "ranges (rows @ [?r]) @ Q" ?c] yos_heap.inv_mset [OF own2, of "ranges (rows @ [?r]) @ Q"] False
      by (simp add: row_ranges_def same_heap_def N_def)
    ultimately have "env_ok ?c (rows @ [?r]) Q"
      using e(3) room assms(5) heap_only_simps(6) [OF only] e(5) by (simp add: env_ok_def)
    moreover have "env_map (rows @ [?r]) = (env_map rows)(n \<mapsto> v)"
      using env_map_split(1) [of rows ?r "[]"] e(3) assms(5) by simp
    moreover have "add_entry h2g c nm val evs = Some (0, ?c, evs)"
      using room e(1) cn cv False nlen heap_only_simps(5) [OF only] by (simp add: add_entry_def)
    ultimately show ?thesis using keep by (intro exI [of _ 0] exI [of _ ?c]) auto
  qed
qed

text \<open>
  \<^verbatim>\<open>setenv\<close> returns, and refines map update: on success the environment is the old one updated at the name (unchanged
  when the name exists and overwriting was not asked for) and no other owned byte of the heap and no byte
  outside it has changed; on failure the environment is as before.  A lookup then finds the new value.
\<close>

lemma setenv_spec:
  assumes "env_ok c rows Q" and "guest_arg c Q noff n" and "guest_arg c Q voff v" and "errno_apart c"
    and "n \<noteq> []" and "CHR ''='' \<notin> set n"
  shows "\<exists>ret c'. yos_setenv h2g environ c noff voff ow = Some (ret, c', host_settings n v) \<and>
    (if ret = 0 then \<exists>rows'. env_ok c' rows' Q \<and> (\<forall>i. stable c Q i \<longrightarrow> memory c' i = memory c i) \<and>
       env_map rows' = (if ow = 0 \<and> env_map rows n \<noteq> None then env_map rows else (env_map rows)(n \<mapsto> v))
     else ret = - 1 \<and> env_ok c' rows Q)"
proof -
  have i: "env_initialised c" using assms(1) by (simp add: env_ok_def)
  have a: "noff \<noteq> 0" "voff \<noteq> 0" "\<not> memory_size c \<le> noff" "\<not> memory_size c \<le> voff"
    and src: "src_ok c Q (Guest (unat noff)) n" "src_ok c Q (Guest (unat voff)) v"
    using assms(2,3) by (auto simp: guest_arg_def)
  have s: "yos_setenv h2g environ c noff voff ow = (case find_entry c n of
      Some idx \<Rightarrow> if ow = 0 then Some (0, c, host_settings n v) else replace_value h2g c idx (unat voff) (host_settings n v)
    | None \<Rightarrow> add_entry h2g c (unat noff) (unat voff) (host_settings n v))"
    using init_done [OF i] a guest_arg_str [OF assms(2)] guest_arg_str [OF assms(3)] assms(5,6) by (simp add: yos_setenv_def Let_def)
  show ?thesis
  proof (cases "find_index (\<lambda>r. rname r = n) rows")
    case None
    then have "n \<notin> set (map rname rows)" by (auto simp: find_index_None)
    note ok = add_entry_ok [OF assms(1) src assms(4) this, of h2g "host_settings n v"]
    have "yos_setenv h2g environ c noff voff ow = add_entry h2g c (unat noff) (unat voff) (host_settings n v)"
      using None s find_entry_rows [OF assms(1), of n] by simp
    moreover have "env_map rows n = None" using None env_map_None [of rows n] by simp
    ultimately show ?thesis using ok by metis
  next
    case (Some k)
    then obtain A r B where sp: "rows = A @ r # B" "length A = k" "rname r = n" using find_index_split by blast
    have f: "find_entry c n = Some (length A)" using find_entry_rows [OF assms(1), of n] Some sp by simp
    have m: "env_map rows n \<noteq> None" using Some env_map_None [of rows n] by simp
    show ?thesis
    proof (cases "ow = 0")
      case True
      then show ?thesis using s f m assms(1) by auto
    next
      case False
      note ok = replace_value_ok [OF assms(1) [unfolded sp(1)] src(2) assms(4), of h2g "host_settings n v", folded sp(1), unfolded sp(3)]
      have "yos_setenv h2g environ c noff voff ow = replace_value h2g c (length A) (unat voff) (host_settings n v)"
        using False s f by simp
      then show ?thesis using ok False by metis
    qed
  qed
qed

section \<open>Deletion\<close>

lemma butlast_swap_last: "mset (butlast ((A @ x # B)[length A := last (A @ x # B)])) = mset (A @ B)"
proof (cases B rule: rev_cases)
  case Nil
  then show ?thesis by simp
next
  case (snoc B' y)
  then have "(A @ x # B)[length A := last (A @ x # B)] = (A @ y # B') @ [y]" by (simp add: list_update_append)
  then have "butlast ((A @ x # B)[length A := last (A @ x # B)]) = A @ y # B'" by (simp only: butlast_snoc)
  then show ?thesis using snoc by simp
qed

lemma mset_ranges: "mset R' = mset R \<Longrightarrow> mset (ranges R') = mset (ranges R)"
proof -
  have "mset (ranges xs) = sum_mset (image_mset (\<lambda>r. mset (row_ranges r)) (mset xs))" for xs
    by (simp add: ranges_def mset_concat sum_mset_sum_list comp_def flip: mset_map)
  then show "mset R' = mset R \<Longrightarrow> mset (ranges R') = mset (ranges R)" by simp
qed

text \<open>The rows of the compacted table are a rearrangement of the remaining ones.\<close>

lemma env_map_mset:
  assumes "mset R' = mset R" and "distinct (map rname R)"
  shows "distinct (map rname R') \<and> env_map R' = env_map R"
proof -
  have d: "distinct (map rname R')" using assms by (metis mset_eq_imp_distinct_iff mset_map)
  have s: "set R' = set R" using assms(1) by (metis set_mset_mset)
  have "map_of (map (\<lambda>r. (rname r, rvalue r)) R') = map_of (map (\<lambda>r. (rname r, rvalue r)) R)"
    using d assms(2) s by (intro map_of_inject_set [THEN iffD2]) (simp_all add: comp_def)
  then show ?thesis using d by (simp add: env_map_def)
qed

text \<open>
  \<^verbatim>\<open>unsetenv\<close> returns 0 and refines map deletion: the name is gone, every other name keeps its value although the
  last entry moves into the hole, and the two strings of the entry are given back to the heap.
\<close>

theorem unsetenv_correct:
  assumes "env_ok c rows Q" and "guest_arg c Q noff n" and "n \<noteq> []" and "CHR ''='' \<notin> set n"
  shows "\<exists>c' rows'. yos_unsetenv h2g environ c noff = Some (0, c') \<and> env_ok c' rows' Q \<and>
    env_map rows' = (env_map rows)(n := None) \<and> (\<forall>i. stable c Q i \<longrightarrow> memory c' i = memory c i)"
proof -
  have e: "env_initialised c" "env_entries c = map rentry rows" "list_all (row_ok (memory c)) rows" "distinct (map rname rows)"
    "heap_owns c (ranges rows @ Q)" "length rows \<le> YOS_ENV_MAX" using assms(1) by (simp_all add: env_ok_def)
  have a: "noff \<noteq> 0" "\<not> memory_size c \<le> noff" using assms(2) by (auto simp: guest_arg_def)
  note f = find_entry_rows [OF assms(1), of n]
  show ?thesis
  proof (cases "find_index (\<lambda>r. rname r = n) rows")
    case None
    then have "env_map rows n = None" using env_map_None [of rows n] by simp
    moreover have "yos_unsetenv h2g environ c noff = Some (0, c)"
      using None f init_done [OF e(1)] a guest_arg_str [OF assms(2)] assms(3,4) by (simp add: yos_unsetenv_def)
    ultimately show ?thesis using assms(1) by (auto simp: fun_upd_idem)
  next
    case (Some k)
    then obtain A r B where s: "rows = A @ r # B" "length A = k" "rname r = n" using find_index_split by blast
    let ?no = "unat (name_off (rentry r))" and ?vo = "unat (value_off (rentry r))" and ?P = "ranges (A @ B) @ Q"
    have nz: "name_off (rentry r) \<noteq> 0" "value_off (rentry r) \<noteq> 0" using e(3) s by (simp_all add: row_ok_def)
    have "heap_owns c ((?no, nblk r) # (?vo, vblk r) # ?P)" using yos_heap.inv_mset [OF e(5)] s(1) by (simp add: row_ranges_def)
    then obtain c1 where f1: "yos_free c (name_off (rentry r)) = Some c1" "heap_owns c1 ((?vo, vblk r) # ?P)" "heap_only c c1"
      "\<And>i. stable c ((?vo, vblk r) # ?P) i \<Longrightarrow> memory c1 i = memory c i" using yos_heap.release_owned by blast
    obtain c2 where f2: "yos_free c1 (value_off (rentry r)) = Some c2" "heap_owns c2 ?P" "heap_only c1 c2"
      "\<And>i. stable c1 ?P i \<Longrightarrow> memory c2 i = memory c1 i" using yos_heap.release_owned [OF f1(2)] by blast
    have keep: "memory c2 i = memory c i" if "stable c ?P i" for i
    proof -
      have "stable c ((?vo, vblk r) # ?P) i" using that by (auto simp: stable_def)
      then show ?thesis using f1(4) f2(4) heap_only_simps(7) [OF f1(3)] that by metis
    qed
    let ?R = "butlast (rows[length A := last rows])"
    let ?c = "c2\<lparr>env_entries := map rentry ?R\<rparr>"
    have ms: "mset ?R = mset (A @ B)" using butlast_swap_last [of A r B] s(1) by simp
    have AB: "list_all (row_ok (memory c2)) (A @ B)"
    proof (rule rows_ok_stable)
      show "list_all (row_ok (memory c)) (A @ B)" using e(3) s(1) by simp
    qed (rule keep, auto)
    have R: "distinct (map rname ?R)" "env_map ?R = env_map (A @ B)"
      using env_map_mset [OF ms] e(4) s(1) by auto
    have "list_all (row_ok (memory c2)) ?R" using AB ms by (metis list_all_iff set_mset_mset)
    moreover have "mset (ranges ?R @ Q) = mset ?P" using mset_ranges [OF ms] unfolding mset_append by simp
    then have "heap_owns ?c (ranges ?R @ Q)"
      using yos_heap.inv_same_heap [OF yos_heap.inv_mset [OF f2(2)], of "ranges ?R @ Q" ?c] by (simp add: same_heap_def)
    moreover have "length ?R \<le> YOS_ENV_MAX" using e(6) by simp
    ultimately have "env_ok ?c ?R Q"
      using R(1) e(1) heap_only_simps(6) [OF f1(3)] heap_only_simps(6) [OF f2(3)] by (simp add: env_ok_def)
    moreover have "env_map ?R = (env_map rows)(n := None)"
      using R(2) env_map_split [of A r B] e(4) s by (simp add: fun_upd_idem)
    moreover have "yos_unsetenv h2g environ c noff = Some (0, ?c)"
    proof -
      have "env_entries c2 = map rentry rows" using e(2) heap_only_simps(5) [OF f1(3)] heap_only_simps(5) [OF f2(3)] by simp
      moreover have "rows \<noteq> []" using s(1) by simp
      then have "butlast ((map rentry rows)[length A := last (map rentry rows)]) = map rentry ?R"
        by (simp add: map_butlast map_update last_map)
      ultimately show ?thesis
        using Some f init_done [OF e(1)] a guest_arg_str [OF assms(2)] assms(3,4) e(2) s f1(1) f2(1) nz
        by (simp add: yos_unsetenv_def entry_offs_def nth_append)
    qed
    ultimately show ?thesis using keep by (intro exI [of _ ?c] exI [of _ ?R]) auto
  qed
qed

text \<open>\<^verbatim>\<open>clearenv\<close> returns, empties the table and gives every string back to the heap.\<close>

lemma free_rows:
  assumes "heap_owns c (ranges rows @ Q)" and "\<forall>r\<in>set rows. name_off (rentry r) \<noteq> 0 \<and> value_off (rentry r) \<noteq> 0"
  shows "\<exists>c'. free_offs (entry_offs (map rentry rows)) c = Some c' \<and> heap_owns c' Q \<and> heap_only c c'"
  using assms
proof (induction rows arbitrary: c)
  case Nil
  then show ?case by (simp add: entry_offs_def heap_only_refl)
next
  case (Cons r rows)
  let ?P = "ranges rows @ Q"
  have nz: "name_off (rentry r) \<noteq> 0" "value_off (rentry r) \<noteq> 0" using Cons.prems(2) by simp_all
  have "heap_owns c ((unat (name_off (rentry r)), nblk r) # (unat (value_off (rentry r)), vblk r) # ?P)"
    using Cons.prems(1) by (simp add: row_ranges_def)
  then obtain c1 where f1: "yos_free c (name_off (rentry r)) = Some c1" "heap_owns c1 ((unat (value_off (rentry r)), vblk r) # ?P)"
    "heap_only c c1" using yos_heap.release_owned by blast
  obtain c2 where f2: "yos_free c1 (value_off (rentry r)) = Some c2" "heap_owns c2 ?P" "heap_only c1 c2"
    using yos_heap.release_owned [OF f1(2)] by blast
  obtain c' where c': "free_offs (entry_offs (map rentry rows)) c2 = Some c'" "heap_owns c' Q" "heap_only c2 c'"
    using Cons.IH [OF f2(2)] Cons.prems(2) by auto
  have "heap_only c c'" using heap_only_trans [OF heap_only_trans [OF f1(3) f2(3)] c'(3)] .
  moreover have "free_offs (entry_offs (map rentry (r # rows))) c = Some c'" using nz f1(1) f2(1) c'(1) by (simp add: entry_offs_def)
  ultimately show ?case using c'(2) by blast
qed

lemma clearenv_empties:
  assumes "env_ok c rows Q"
  shows "\<exists>c'. yos_clearenv environ c = Some (0, c') \<and> env_ok c' [] Q"
proof -
  have e: "env_initialised c" "env_entries c = map rentry rows" "list_all (row_ok (memory c)) rows" "heap_owns c (ranges rows @ Q)"
    using assms by (simp_all add: env_ok_def)
  have "\<forall>r\<in>set rows. name_off (rentry r) \<noteq> 0 \<and> value_off (rentry r) \<noteq> 0" using e(3) by (auto simp: list_all_iff row_ok_def)
  from free_rows [OF e(4) this]
  obtain c1 where f: "free_offs (entry_offs (map rentry rows)) c = Some c1" "heap_owns c1 Q" "heap_only c c1" by blast
  have "heap_owns (c1\<lparr>env_entries := []\<rparr>) Q" using yos_heap.inv_same_heap [OF f(2)] by (simp add: same_heap_def)
  then have "env_ok (c1\<lparr>env_entries := []\<rparr>) [] Q" using e(1) heap_only_simps(6) [OF f(3)] by (simp add: env_ok_def)
  moreover have "yos_clearenv environ c = Some (0, c1\<lparr>env_entries := []\<rparr>)"
    using f(1) e(2) init_done [OF e(1)] by (simp add: yos_clearenv_def)
  ultimately show ?thesis by blast
qed

text \<open>
  Claim C17: what \<^verbatim>\<open>setenv\<close> stored is what \<^verbatim>\<open>getenv\<close> finds: after a successful overwriting call a lookup of the name returns a
  pointer to a copy of the value, and a lookup of any other name gives the string it gave before.
\<close>

theorem setenv_getenv:
  assumes "env_ok c rows Q" and "guest_arg c Q noff n" and "guest_arg c Q voff v" and "errno_apart c"
    and "n \<noteq> []" and "CHR ''='' \<notin> set n" and "ow \<noteq> 0"
    and "yos_setenv h2g environ c noff voff ow = Some (0, c', evs)"
    and "guest_arg c' Q qoff q" and "yos_getenv environ c' qoff = (p, c'')"
  shows "if q = n then p \<noteq> 0 \<and> str_at (memory c') (unat p) v
    else (case env_map rows q of None \<Rightarrow> p = 0 | Some s \<Rightarrow> p \<noteq> 0 \<and> str_at (memory c') (unat p) s)"
proof -
  obtain rows' where r: "env_ok c' rows' Q" "env_map rows' = (env_map rows)(n \<mapsto> v)"
    using setenv_spec [OF assms(1-6), of h2g environ ow] assms(7,8) by auto
  show ?thesis using getenv_lookup [OF r(1) assms(9,10)] r(2) by (simp split: if_splits)
qed

section \<open>Witnesses\<close>

text \<open>An initialized, empty environment over a fresh heap, with the strings \<^verbatim>\<open>A\<close> at 1024 and \<^verbatim>\<open>B\<close> at 1032 in the data segment.\<close>

definition demo_env :: yos_exec_ctx where
  "demo_env = fresh_heap\<lparr>memory := mem_write (mem_write (memory fresh_heap) 1024 (c_bytes ''A'')) 1032 (c_bytes ''B''),
     env_initialised := True, errno_off := 0\<rparr>"

lemma fresh_heap_fields: "memory_size fresh_heap = 0x1000000" "env_entries fresh_heap = []"
  by (simp_all add: fresh_heap_def alloc_init_locked_def align_up_def ctx_calloc_def blk_set_size_def blk_set_next_def Let_def)

lemma demo_env_ok: "env_ok demo_env [] []" "errno_apart demo_env"
  "guest_arg demo_env [] 1024 ''A''" "guest_arg demo_env [] 1032 ''B''"
proof -
  let ?m = "mem_write (mem_write (memory fresh_heap) 1024 (c_bytes ''A'')) 1032 (c_bytes ''B'')"
  have "heap_owns fresh_heap []" using heap_ownsI [OF fresh_heap_inv, of "[]"] by (simp add: fresh_heap_bounds)
  then have "heap_owns (fresh_heap\<lparr>memory := ?m\<rparr>) []"
    by (rule yos_heap.store_outside) (simp add: fresh_heap_bounds mem_write_def c_bytes_def)
  then have "heap_owns demo_env []" by (rule yos_heap.inv_same_heap) (simp add: same_heap_def demo_env_def)
  then show "env_ok demo_env [] []" by (simp add: env_ok_def demo_env_def fresh_heap_fields)
  show "errno_apart demo_env" by (simp add: errno_apart_def demo_env_def fresh_heap_bounds)
  have one: "i \<le> Suc 0 \<longleftrightarrow> i = 0 \<or> i = 1" for i :: nat by auto
  show "guest_arg demo_env [] 1024 ''A''" "guest_arg demo_env [] 1032 ''B''"
    by (auto simp: guest_arg_def src_ok_def str_at_def stable_def demo_env_def fresh_heap_bounds fresh_heap_fields
        mem_write_def c_bytes_def one word_less_nat_alt)
qed

text \<open>Copies of one-character strings succeed while the heap is one big free block.\<close>

lemma need_2: "malloc_need 2 = 32"
  by (simp add: malloc_need_def align_up_def)

lemma copy_small:
  assumes "heap_inv c [(b, n)] us" and "64 \<le> n" and "length (src_str (memory c) src) = 1"
  shows "\<exists>off c'. copy_to_wasm c src = (off, c') \<and> off \<noteq> 0 \<and>
    heap_only c c' \<and> (\<exists>us'. heap_inv c' [(b + 32, n - 32)] us')"
proof -
  obtain off c1 where m: "yos_malloc c 2 = (off, c1)" by (cases "yos_malloc c 2")
  have g: "length [(b, n)] \<le> WALK_GUARD" by simp
  from assms(1) g m show ?thesis
  proof (cases rule: malloc_refines)
    case none
    then show ?thesis using assms(2) by (simp add: need_2)
  next
    case (some b' l fl' m' h)
    have bl: "b' = b" "l = 32" "fl' = [(b + 32, n - 32)]" using some(5) assms(2) by (auto simp: need_2 split: if_splits)
    let ?m = "case src of Host s \<Rightarrow> mem_write (memory c1) (unat off) (c_bytes s) | Guest p \<Rightarrow> mem_copy (memory c1) (unat off) p 2"
    have "length s = 1" if "src = Host s" for s using assms(3) that by (simp add: src_str_def)
    then have "?m i = memory c1 i" if "i < b + 8 \<or> b + 32 \<le> i" for i
      using that some(3) bl by (auto simp: mem_write_def mem_copy_def split: c_src.splits)
    then have "heap_inv (c1\<lparr>memory := ?m\<rparr>) [(b + 32, n - 32)] ((b, 32) # us)"
      using payload_write [of c1 "[(b + 32, n - 32)]" "(b, 32) # us" b 32 ?m] some(6) bl by simp
    moreover have "copy_to_wasm c src = (off, c1\<lparr>memory := ?m\<rparr>)"
      using m some(2) assms(3) by (simp add: copy_to_wasm_def numeral_2_eq_2 split: c_src.splits)
    moreover have "heap_only c (c1\<lparr>memory := ?m\<rparr>)"
    proof (rule heap_only_trans [OF _ heap_only_memory])
      show "heap_only c c1" unfolding heap_only_def some(4) by (intro exI) (rule refl)
    qed
    ultimately show ?thesis using some(2) by blast
  qed
qed

text \<open>The same environment after \<^verbatim>\<open>setenv("A", "B", 1)\<close>.\<close>

lemma demo_setenv:
  obtains c' rows where "yos_setenv (\<lambda>e. e) [] demo_env 1024 1032 1 = Some (0, c', [])" "env_ok c' rows []"
    "env_map rows = [''A'' \<mapsto> ''B'']" "guest_arg c' [] 1024 ''A''"
proof -
  have src: "src_ok demo_env [] (Guest 1024) ''A''" "src_ok demo_env [] (Guest 1032) ''B''"
    using demo_env_ok(3,4) by (simp_all add: guest_arg_def)
  have raw: "src_str (memory demo_env) (Guest 1024) = ''A''" "src_str (memory demo_env) (Guest 1032) = ''B''"
    using src_str_ok [OF src(1)] src_str_ok [OF src(2)] by simp_all
  have hs: "host_settings ''A'' ''B'' = []" by (simp add: host_settings_def)
  have o1: "(1 :: int) \<noteq> 0" by simp
  obtain ret c' where r: "yos_setenv (\<lambda>e. e) [] demo_env 1024 1032 1 = Some (ret, c', [])"
    and ok: "ret = 0 \<Longrightarrow> \<exists>rows'. env_ok c' rows' [] \<and> (\<forall>i. stable demo_env [] i \<longrightarrow> memory c' i = memory demo_env i) \<and>
      env_map rows' = (env_map [])(''A'' \<mapsto> ''B'')"
    using setenv_spec [OF demo_env_ok(1,3,4,2), of "\<lambda>e. e" "[]" 1] unfolding hs by (auto simp: o1 simp del: One_nat_def split: if_splits)
  have inv: "heap_inv demo_env [(0x10000, 0x7F0000)] []"
    using outside_write [OF fresh_heap_inv, of "memory demo_env"] by (simp add: heap_inv_def demo_env_def fresh_heap_bounds mem_write_def c_bytes_def)
  obtain no c1 where a1: "copy_to_wasm demo_env (Guest 1024) = (no, c1)" "no \<noteq> 0" "heap_only demo_env c1"
    "\<exists>us. heap_inv c1 [(0x10000 + 32, 0x7F0000 - 32)] us"
    using copy_small [OF inv, of "Guest 1024"] raw by auto
  have own: "heap_owns demo_env []" using demo_env_ok(1) by (simp add: env_ok_def)
  have m1: "src_str (memory c1) (Guest 1032) = ''B''"
  proof -
    have "memory c1 (1032 + i) = memory demo_env (1032 + i)" if "i \<le> 1" for i
      using copy_frame(2) [OF own src(1) a1(1), of "1032 + i"] that by (simp add: stable_def demo_env_def fresh_heap_bounds)
    then have "str_at (memory c1) 1032 ''B''" using src(2) by (auto simp: src_ok_def str_at_def)
    then show ?thesis by (simp add: src_str_def raw_str_at)
  qed
  obtain us where "heap_inv c1 [(0x10000 + 32, 0x7F0000 - 32)] us" using a1(4) by blast
  from copy_small [OF this, of "Guest 1032"] m1
  obtain vo c2 where a2: "copy_to_wasm c1 (Guest 1032) = (vo, c2)" "vo \<noteq> 0" "heap_only c1 c2" by auto
  have e: "env_entries demo_env = []" "env_initialised demo_env" "memory_size demo_env = 0x1000000"
    by (simp_all add: demo_env_def fresh_heap_fields)
  have "ret = 0 \<and> (\<exists>es. c' = c2\<lparr>env_entries := es\<rparr>)"
    using r a1(1,2) a2(1,2) raw init_done [OF e(2)] e
    by (auto simp: yos_setenv_def src_str_def find_entry_def add_entry_def Let_def word_le_nat_alt hs)
  then obtain es rows where c': "ret = 0" "c' = c2\<lparr>env_entries := es\<rparr>"
    and rows: "env_ok c' rows []" "\<And>i. stable demo_env [] i \<Longrightarrow> memory c' i = memory demo_env i"
    "env_map rows = (env_map [])(''A'' \<mapsto> ''B'')" using ok by blast
  have only: "heap_only demo_env c2" using heap_only_trans [OF a1(3) a2(3)] .
  have "stable c' [] i = stable demo_env [] i" "memory_size c' = memory_size demo_env" for i
    using heap_only_simps(1,2,3) [OF only] c'(2) by (simp_all add: stable_def)
  then have "guest_arg c' [] 1024 ''A''"
    using demo_env_ok(3) rows(2) by (auto simp: guest_arg_def src_ok_def str_at_def)
  then show thesis using that r c'(1) rows(1,3) by (simp add: env_map_def)
qed

theorem setenv_getenv_witness:
  "\<exists>c' p c''. yos_setenv (\<lambda>e. e) [] demo_env 1024 1032 1 = Some (0, c', []) \<and> yos_getenv [] c' 1024 = (p, c'') \<and>
     p \<noteq> 0 \<and> str_at (memory c') (unat p) ''B''"
proof -
  obtain c' rows where s: "yos_setenv (\<lambda>e. e) [] demo_env 1024 1032 1 = Some (0, c', [])" "guest_arg c' [] 1024 ''A''"
    by (rule demo_setenv)
  obtain p c'' where g: "yos_getenv [] c' 1024 = (p, c'')" by (cases "yos_getenv [] c' 1024")
  have "p \<noteq> 0 \<and> str_at (memory c') (unat p) ''B''"
    using setenv_getenv [OF demo_env_ok(1,3,4,2) _ _ _ s(1) s(2) g] by simp
  then show ?thesis using s(1) g by blast
qed

theorem unsetenv_correct_witness:
  "\<exists>c' c'' rows. yos_setenv (\<lambda>e. e) [] demo_env 1024 1032 1 = Some (0, c', []) \<and>
     yos_unsetenv (\<lambda>e. e) [] c' 1024 = Some (0, c'') \<and> env_ok c'' rows [] \<and> env_map rows ''A'' = None"
proof -
  obtain c' rows where s: "yos_setenv (\<lambda>e. e) [] demo_env 1024 1032 1 = Some (0, c', [])" "env_ok c' rows []"
    "guest_arg c' [] 1024 ''A''" by (rule demo_setenv)
  obtain c'' rows' where u: "yos_unsetenv (\<lambda>e. e) [] c' 1024 = Some (0, c'')" "env_ok c'' rows' []"
    "env_map rows' = (env_map rows)(''A'' := None)"
    using unsetenv_correct [OF s(2,3), of "\<lambda>e. e" "[]"] by auto
  then show ?thesis using s(1) by (intro exI [of _ c'] exI [of _ c''] exI [of _ rows']) simp
qed

end
