(* ===== verification/Getopt.thy ===== *)
theory Getopt
  imports Paths
begin

text \<open>
  Option parsing, \<^verbatim>\<open>src/src/yos/impl/libc/getopt.c\<close>.  The state is in the context, the position inside the
  current element in a thread-local variable, which is the context's field \<open>nextchar\<close>.  The argument
  vector and its strings are read from guest memory.  A line written to the standard error is part of
  the result.
\<close>

section \<open>The argument vector\<close>

definition argv_str_off :: "yos_exec_ctx \<Rightarrow> u32 \<Rightarrow> int \<Rightarrow> u32" where
  "argv_str_off ctx argv_off i =
     (if argv_off = 0 then 0
      else if int (unat (memory_size ctx)) < int (unat argv_off) + (i + 1) * 4 then 0
      else load32 (memory ctx) (unat (argv_off + word_of_int i * 4)))"

text \<open>The address of the string, \<open>None\<close> for NULL.\<close>

definition argv_str :: "yos_exec_ctx \<Rightarrow> u32 \<Rightarrow> int \<Rightarrow> nat option" where
  "argv_str ctx argv_off i =
     (let s_off = argv_str_off ctx argv_off i in
      if argv_off = 0 \<or> s_off = 0 \<or> memory_size ctx \<le> s_off then None else Some (unat s_off))"

section \<open>getopt\<close>

abbreviation CH_COLON :: u8 where "CH_COLON \<equiv> 58"
abbreviation CH_PLUS :: u8 where "CH_PLUS \<equiv> 43"
abbreviation CH_DASH :: u8 where "CH_DASH \<equiv> 45"
abbreviation CH_QUEST :: int where "CH_QUEST \<equiv> 63"

text \<open>No address is beyond this one; it bounds the scan of \<^verbatim>\<open>strchr\<close>.\<close>

abbreviation SCAN_END :: nat where "SCAN_END \<equiv> 140737488355328"

text \<open>\<^verbatim>\<open>strchr\<close> of a character that is not NUL: its first address before the NUL.\<close>

function strchr :: "mem \<Rightarrow> nat \<Rightarrow> u8 \<Rightarrow> nat option" where
  "strchr m q c =
     (if SCAN_END \<le> q \<or> m q = 0 then None else if m q = c then Some q else strchr m (Suc q) c)"
  by pat_completeness auto
termination
  by (relation "measure (\<lambda>(m, q, c). SCAN_END - q)") auto

declare strchr.simps [simp del]

text \<open>\<^verbatim>\<open>optstring\<close>, the empty string for a null offset: the memory and the address to read from.\<close>

definition optstring_byte :: "yos_exec_ctx \<Rightarrow> u32 \<Rightarrow> nat \<Rightarrow> u8" where
  "optstring_byte ctx ooff i = (if ooff = 0 then 0 else memory ctx (unat ooff + i))"

definition opt_lookup :: "yos_exec_ctx \<Rightarrow> u32 \<Rightarrow> u8 \<Rightarrow> nat option" where
  "opt_lookup ctx ooff c =
     (let b = optstring_byte ctx ooff 0;
          os = unat ooff + (if b = CH_COLON \<or> b = CH_PLUS \<or> b = CH_DASH then 1 else 0)
      in if ooff = 0 then None else strchr (memory ctx) os c)"

text \<open>The line for the standard error, unless errors are silenced.\<close>

definition complain :: "yos_exec_ctx \<Rightarrow> u32 \<Rightarrow> string \<Rightarrow> u8 \<Rightarrow> string option" where
  "complain ctx ooff msg c =
     (if opterr ctx \<noteq> 0 \<and> optstring_byte ctx ooff 0 \<noteq> CH_COLON
      then Some (''yos: '' @ msg @ '' -- '' @ [CHR 0x27, char_of_byte c, CHR 0x27, CHR 0x0A]) else None)"

type_synonym getopt_result = "int \<times> yos_exec_ctx \<times> string option"

definition getopt_init :: "yos_exec_ctx \<Rightarrow> yos_exec_ctx" where
  "getopt_init ctx0 =
     (let ctx = (if optind ctx0 \<le> 0 then ctx0\<lparr>optind := 1\<rparr> else ctx0)
      in if optind ctx = 1 then ctx\<lparr>nextchar := 0\<rparr> else ctx)"

text \<open>At the start of an element: stop (with the state) or go on to its first option character.\<close>

definition getopt_start :: "yos_exec_ctx \<Rightarrow> u32 \<Rightarrow> yos_exec_ctx + yos_exec_ctx" where
  "getopt_start ctx argv_off =
     (if nextchar ctx \<noteq> 0 then Inr ctx
      else case argv_str ctx argv_off (optind ctx) of
          None \<Rightarrow> Inl ctx
        | Some arg \<Rightarrow>
            if memory ctx arg \<noteq> CH_DASH \<or> memory ctx (arg + 1) = 0 then Inl ctx
            else if memory ctx (arg + 1) = CH_DASH \<and> memory ctx (arg + 2) = 0 then Inl (ctx\<lparr>optind := optind ctx + 1\<rparr>)
            else Inr (ctx\<lparr>nextchar := 1\<rparr>))"

text \<open>An option character \<open>c\<close> that has been consumed, in the element at \<open>arg\<close>.\<close>

definition getopt_option :: "yos_exec_ctx \<Rightarrow> int \<Rightarrow> u32 \<Rightarrow> u32 \<Rightarrow> nat \<Rightarrow> u8 \<Rightarrow> getopt_result" where
  "getopt_option ctx argc argv_off ooff arg c =
     (case opt_lookup ctx ooff c of
        None \<Rightarrow> (CH_QUEST, ctx\<lparr>optopt := uint c\<rparr>, complain ctx ooff ''unknown option'' c)
      | Some p \<Rightarrow>
          if memory ctx (p + 1) \<noteq> CH_COLON then (uint c, ctx, None)
          else if memory ctx (arg + nextchar ctx) \<noteq> 0 then
            (uint c, ctx\<lparr>optarg_off := argv_str_off ctx argv_off (optind ctx) + of_nat (nextchar ctx),
                         nextchar := 0, optind := optind ctx + 1\<rparr>, None)
          else
            let c1 = ctx\<lparr>nextchar := 0, optind := optind ctx + 1\<rparr> in
            if argc \<le> optind c1 then
              (if optstring_byte ctx ooff 0 = CH_COLON then uint CH_COLON else CH_QUEST,
               c1\<lparr>optopt := uint c, optarg_off := 0\<rparr>, complain ctx ooff ''option requires argument'' c)
            else (uint c, c1\<lparr>optarg_off := argv_str_off c1 argv_off (optind c1), optind := optind c1 + 1\<rparr>, None))"

lemma getopt_start_optind: "getopt_start c argv_off = Inr c1 \<Longrightarrow> optind c1 = optind c"
  by (auto simp: getopt_start_def split: if_splits option.splits)

lemma getopt_init_optind: "1 \<le> optind (getopt_init c)" "optind c \<le> optind (getopt_init c)"
  by (simp_all add: getopt_init_def Let_def)

function yos_getopt :: "yos_exec_ctx \<Rightarrow> int \<Rightarrow> u32 \<Rightarrow> u32 \<Rightarrow> getopt_result" where
  "yos_getopt ctx0 argc argv_off ooff =
     (let ctx = getopt_init ctx0 in
      if argc \<le> optind ctx then (- 1, ctx, None)
      else case getopt_start ctx argv_off of
          Inl ctx' \<Rightarrow> (- 1, ctx', None)
        | Inr c1 \<Rightarrow>
            case argv_str c1 argv_off (optind c1) of
              None \<Rightarrow> (- 1, c1, None)
            | Some arg \<Rightarrow>
                let c = memory c1 (arg + nextchar c1) in
                if c = 0 then yos_getopt (c1\<lparr>nextchar := 0, optind := optind c1 + 1\<rparr>) argc argv_off ooff
                else getopt_option (c1\<lparr>nextchar := nextchar c1 + 1\<rparr>) argc argv_off ooff arg c)"
  by pat_completeness auto

termination
proof (relation "measure (\<lambda>(c, argc, a, q). nat (argc - optind c))", goal_cases)
  case (2 ctx0 argc argv_off ooff x c1 arg y)
  then show ?case
    using getopt_start_optind [of x argv_off c1] getopt_init_optind(2) [of ctx0] by (auto simp: Let_def)
qed simp

declare yos_getopt.simps [simp del]

section \<open>The variables\<close>

definition yos_getopt_optind_get :: "yos_exec_ctx \<Rightarrow> int" where
  "yos_getopt_optind_get ctx = optind ctx"

definition yos_getopt_optind_set :: "yos_exec_ctx \<Rightarrow> int \<Rightarrow> yos_exec_ctx" where
  "yos_getopt_optind_set ctx v =
     (let c1 = ctx\<lparr>optind := v\<rparr> in if v \<le> 1 then c1\<lparr>nextchar := 0\<rparr> else c1)"

definition yos_getopt_optarg_get :: "yos_exec_ctx \<Rightarrow> u32" where
  "yos_getopt_optarg_get ctx = optarg_off ctx"

definition yos_getopt_optopt_get :: "yos_exec_ctx \<Rightarrow> int" where
  "yos_getopt_optopt_get ctx = optopt ctx"

definition yos_getopt_opterr_get :: "yos_exec_ctx \<Rightarrow> int" where
  "yos_getopt_opterr_get ctx = opterr ctx"

definition yos_getopt_opterr_set :: "yos_exec_ctx \<Rightarrow> int \<Rightarrow> yos_exec_ctx" where
  "yos_getopt_opterr_set ctx v = ctx\<lparr>opterr := v\<rparr>"

end
