(* ===== verification/GetoptProps.thy ===== *)
theory GetoptProps
  imports Getopt
begin

text \<open>
  What a program that calls \<^verbatim>\<open>getopt\<close> in a loop sees: clustered flags come out one by one and the next element
  follows; arguments are found where POSIX says.  The restart at \<^verbatim>\<open>optind == 1\<close>, however, makes a flag in the
  first element come back forever.
\<close>

section \<open>Successive calls\<close>

fun getopt_calls :: "yos_exec_ctx \<Rightarrow> int \<Rightarrow> u32 \<Rightarrow> u32 \<Rightarrow> nat \<Rightarrow> int list" where
  "getopt_calls c argc argv_off ooff 0 = []"
| "getopt_calls c argc argv_off ooff (Suc n) =
     (case yos_getopt c argc argv_off ooff of (r, c', err) \<Rightarrow> r # getopt_calls c' argc argv_off ooff n)"

lemma argv_upd [simp]:
  "argv_str_off (c\<lparr>nextchar := x\<rparr>) a i = argv_str_off c a i" "argv_str_off (c\<lparr>optind := y\<rparr>) a i = argv_str_off c a i"
  "argv_str (c\<lparr>nextchar := x\<rparr>) a i = argv_str c a i" "argv_str (c\<lparr>optind := y\<rparr>) a i = argv_str c a i"
  "opt_lookup (c\<lparr>nextchar := x\<rparr>) q b = opt_lookup c q b" "opt_lookup (c\<lparr>optind := y\<rparr>) q b = opt_lookup c q b"
  by (simp_all add: argv_str_off_def argv_str_def opt_lookup_def optstring_byte_def)

text \<open>A character of the option string that takes no argument.\<close>

definition is_flag :: "yos_exec_ctx \<Rightarrow> u32 \<Rightarrow> u8 \<Rightarrow> bool" where
  "is_flag c ooff b \<longleftrightarrow> (\<exists>p. opt_lookup c ooff b = Some p \<and> memory c (p + 1) \<noteq> CH_COLON)"

lemma is_flag_upd [simp]: "is_flag (c\<lparr>nextchar := x\<rparr>) q b = is_flag c q b" "is_flag (c\<lparr>optind := y\<rparr>) q b = is_flag c q b"
  by (simp_all add: is_flag_def)

text \<open>The element at \<open>arg\<close> is a dash followed by the characters \<open>cs\<close>.\<close>

definition element :: "mem \<Rightarrow> nat \<Rightarrow> u8 list \<Rightarrow> bool" where
  "element m arg cs \<longleftrightarrow> m arg = CH_DASH \<and> 0 \<notin> set cs \<and> (\<forall>i<length cs. m (arg + 1 + i) = cs ! i) \<and> m (arg + 1 + length cs) = 0 \<and>
     cs \<noteq> [] \<and> cs \<noteq> [CH_DASH]"

lemma element_start:
  assumes "element (memory c) arg cs" and "argv_str c a (optind c) = Some arg" and "nextchar c = 0"
  shows "getopt_start c a = Inr (c\<lparr>nextchar := 1\<rparr>)"
proof -
  obtain b bs where cs: "cs = b # bs" using assms(1) by (cases cs) (auto simp: element_def)
  have b: "memory c (arg + 1) = b" "b \<noteq> 0" using assms(1) cs by (auto simp: element_def)
  have "\<not> (b = CH_DASH \<and> memory c (arg + 2) = 0)"
  proof (cases bs)
    case (Cons d ds)
    then have "memory c (arg + 1 + 1) = d" "d \<noteq> 0" using assms(1) cs by (auto simp: element_def)
    then show ?thesis by simp
  qed (use assms(1) cs in \<open>simp add: element_def\<close>)
  then show ?thesis using assms b by (simp add: getopt_start_def element_def)
qed

lemma getopt_flag_step:
  assumes "element (memory c) arg cs" and "argv_str c a (optind c) = Some arg" and "2 \<le> optind c" and "optind c < argc"
    and "j < length cs" and "is_flag c ooff (cs ! j)" and "nextchar c = (if j = 0 then 0 else Suc j)"
  shows "yos_getopt c argc a ooff = (uint (cs ! j), c\<lparr>nextchar := Suc (Suc j)\<rparr>, None)"
proof -
  let ?c = "c\<lparr>nextchar := Suc j\<rparr>"
  have i: "getopt_init c = c" using assms(3) by (simp add: getopt_init_def Let_def)
  have s: "getopt_start c a = Inr ?c"
    using element_start [OF assms(1,2)] assms(7) by (auto simp: getopt_start_def)
  have m: "memory c (arg + Suc j) = cs ! j" "cs ! j \<noteq> 0"
    using assms(1,5) nth_mem [OF assms(5)] by (auto simp: element_def simp del: nth_mem)
  obtain p where p: "opt_lookup c ooff (cs ! j) = Some p" "memory c (p + 1) \<noteq> CH_COLON" using assms(6) by (auto simp: is_flag_def)
  have "yos_getopt c argc a ooff = getopt_option (c\<lparr>nextchar := Suc (Suc j)\<rparr>) argc a ooff arg (cs ! j)"
    using i s assms(2,4) m by (subst yos_getopt.simps) (simp add: Let_def)
  also have "\<dots> = (uint (cs ! j), c\<lparr>nextchar := Suc (Suc j)\<rparr>, None)" using p by (simp add: getopt_option_def)
  finally show ?thesis .
qed

lemma getopt_end_step:
  assumes "element (memory c) arg cs" and "argv_str c a (optind c) = Some arg" and "2 \<le> optind c" and "optind c < argc"
    and "nextchar c = Suc (length cs)"
  shows "yos_getopt c argc a ooff = yos_getopt (c\<lparr>nextchar := 0, optind := optind c + 1\<rparr>) argc a ooff"
proof -
  have i: "getopt_init c = c" using assms(3) by (simp add: getopt_init_def Let_def)
  have s: "getopt_start c a = Inr c" using assms(5) by (simp add: getopt_start_def)
  have "memory c (arg + nextchar c) = 0" using assms(1,5) by (simp add: element_def)
  then show ?thesis using i s assms(2,4) by (subst yos_getopt.simps) (simp add: Let_def)
qed

lemma getopt_flags_from:
  assumes "element (memory c) arg cs" and "argv_str c a (optind c) = Some arg" and "2 \<le> optind c" and "optind c < argc"
    and "\<forall>b\<in>set cs. is_flag c ooff b" and "j + k = length cs" and "nextchar c = (if j = 0 then 0 else Suc j)"
  shows "getopt_calls c argc a ooff (k + n) =
    map uint (drop j cs) @ getopt_calls (if k = 0 then c else c\<lparr>nextchar := Suc (length cs)\<rparr>) argc a ooff n"
  using assms
proof (induction k arbitrary: c j)
  case 0
  then show ?case by simp
next
  case (Suc k)
  let ?c = "c\<lparr>nextchar := Suc (Suc j)\<rparr>"
  have j: "j < length cs" using Suc.prems(6) by simp
  have step: "yos_getopt c argc a ooff = (uint (cs ! j), ?c, None)"
    using getopt_flag_step [OF Suc.prems(1-4) j _ Suc.prems(7)] Suc.prems(5) j by simp
  have "getopt_calls ?c argc a ooff (k + n) =
      map uint (drop (Suc j) cs) @ getopt_calls (if k = 0 then ?c else ?c\<lparr>nextchar := Suc (length cs)\<rparr>) argc a ooff n"
    using Suc.prems by (intro Suc.IH) simp_all
  moreover have "k = 0 \<Longrightarrow> ?c = c\<lparr>nextchar := Suc (length cs)\<rparr>" using Suc.prems(6) by simp
  ultimately show ?case using step j by (auto simp: Cons_nth_drop_Suc [symmetric])
qed

text \<open>
  An element after the first that is a cluster of flags is parsed as POSIX says: successive calls return its
  characters in order, each once, and the calls after them continue with the next element.
\<close>

theorem getopt_cluster:
  assumes "element (memory c) arg cs" and "argv_str c a (optind c) = Some arg" and "2 \<le> optind c" and "optind c < argc"
    and "nextchar c = 0" and "\<forall>b\<in>set cs. is_flag c ooff b"
  shows "getopt_calls c argc a ooff (length cs + n) =
    map uint cs @ getopt_calls (c\<lparr>nextchar := 0, optind := optind c + 1\<rparr>) argc a ooff n"
proof -
  let ?c = "c\<lparr>nextchar := Suc (length cs)\<rparr>"
  have cs: "length cs \<noteq> 0" using assms(1) by (simp add: element_def)
  have "getopt_calls c argc a ooff (length cs + n) = map uint cs @ getopt_calls ?c argc a ooff n"
    using getopt_flags_from [OF assms(1-4,6), of 0 "length cs" n] assms(5) cs by simp
  moreover have "yos_getopt ?c argc a ooff = yos_getopt (c\<lparr>nextchar := 0, optind := optind c + 1\<rparr>) argc a ooff"
    using getopt_end_step [of ?c arg cs a argc ooff] assms(1-4) by simp
  then have "getopt_calls ?c argc a ooff n = getopt_calls (c\<lparr>nextchar := 0, optind := optind c + 1\<rparr>) argc a ooff n"
    by (cases n) simp_all
  ultimately show ?thesis by simp
qed

section \<open>A flag in the first element\<close>

text \<open>
  The call restarts the first element every time, because \<^verbatim>\<open>optind\<close> is still 1 after a flag of that element: a
  program whose first argument starts with a flag gets that flag from every call and never reaches the end.
\<close>

theorem getopt_first_flag_repeats:
  assumes "optind c \<le> 1" and "1 < argc" and "argv_str c a 1 = Some arg" and "element (memory c) arg (b # bs)" and "is_flag c ooff b"
  shows "getopt_calls c argc a ooff n = replicate n (uint b)"
  using assms
proof (induction n arbitrary: c)
  case (Suc n)
  let ?c = "c\<lparr>optind := 1, nextchar := 0\<rparr>"
  have i: "getopt_init c = ?c" using Suc.prems(1) by (auto simp: getopt_init_def Let_def)
  have s: "getopt_start ?c a = Inr (?c\<lparr>nextchar := 1\<rparr>)" using Suc.prems by (intro element_start) simp_all
  have m: "memory c (arg + 1) = b" "b \<noteq> 0" using Suc.prems(4) by (auto simp: element_def)
  obtain p where p: "opt_lookup c ooff b = Some p" "memory c (p + 1) \<noteq> CH_COLON" using Suc.prems(5) by (auto simp: is_flag_def)
  have "yos_getopt c argc a ooff = getopt_option (c\<lparr>optind := 1, nextchar := 2\<rparr>) argc a ooff arg b"
    using i s Suc.prems(2,3) m by (subst yos_getopt.simps) (simp add: Let_def numeral_2_eq_2)
  also have "\<dots> = (uint b, c\<lparr>optind := 1, nextchar := 2\<rparr>, None)" using p by (simp add: getopt_option_def)
  finally show ?case using Suc.IH [of "c\<lparr>optind := 1, nextchar := 2\<rparr>"] Suc.prems by simp
qed simp

section \<open>Options with arguments\<close>

text \<open>The argument is the rest of the element, or else the next element.\<close>

lemma getopt_argument:
  assumes "opt_lookup c ooff b = Some p" and "memory c (p + 1) = CH_COLON" and "getopt_option c argc a ooff arg b = (r, c', err)"
  shows "if memory c (arg + nextchar c) \<noteq> 0
    then r = uint b \<and> optarg_off c' = argv_str_off c a (optind c) + of_nat (nextchar c) \<and> optind c' = optind c + 1 \<and> nextchar c' = 0
    else if optind c + 1 < argc
    then r = uint b \<and> optarg_off c' = argv_str_off c a (optind c + 1) \<and> optind c' = optind c + 2 \<and> nextchar c' = 0
    else r = (if optstring_byte c ooff 0 = CH_COLON then 58 else CH_QUEST) \<and> optopt c' = uint b \<and> optarg_off c' = 0"
  using assms by (auto simp: getopt_option_def Let_def split: if_splits)

section \<open>Witnesses\<close>

text \<open>Guest memory with the option string \<^verbatim>\<open>ab\<close> at 512, \<^verbatim>\<open>-ab\<close> at 600 and the vector \<^verbatim>\<open>{-ab, -ab, -ab}\<close> at 1024.\<close>

definition demo_opts :: yos_exec_ctx where
  "demo_opts = ctx_calloc (store32 (store32 (store32 (mem_write (mem_write (\<lambda>_. 0) 512 [97, 98]) 600 [45, 97, 98]) 1024 600) 1028 600) 1032 600) 65536"

lemma demo_opts_mem:
  "memory demo_opts 512 = 97" "memory demo_opts 513 = 98" "memory demo_opts 514 = 0"
  "memory demo_opts 600 = 45" "memory demo_opts 601 = 97" "memory demo_opts 602 = 98" "memory demo_opts 603 = 0"
  by (simp_all add: demo_opts_def ctx_calloc_def store32_def mem_write_def)

lemma demo_opts_elem: "element (memory demo_opts) 600 [97, 98]"
proof -
  have "i < length [97, 98 :: u8] \<longleftrightarrow> i = 0 \<or> i = 1" for i by auto
  then show ?thesis using demo_opts_mem by (auto simp: element_def)
qed

lemma demo_opts_flag: "b = 97 \<or> b = 98 \<Longrightarrow> is_flag demo_opts 512 b"
  using demo_opts_mem
  by (auto simp: is_flag_def opt_lookup_def optstring_byte_def strchr.simps [of _ 512] strchr.simps [of _ 513])

lemma demo_opts_argv: "argv_str demo_opts 1024 1 = Some 600" "argv_str demo_opts 1024 2 = Some 600"
proof -
  have l: "load32 (memory demo_opts) 1028 = 600" "load32 (memory demo_opts) 1032 = 600"
    by (simp_all add: demo_opts_def ctx_calloc_def load32_store32_other)
  have s: "memory_size demo_opts = 65536" by (simp add: demo_opts_def ctx_calloc_def)
  show "argv_str demo_opts 1024 1 = Some 600" "argv_str demo_opts 1024 2 = Some 600"
    using l s by (simp_all add: argv_str_def argv_str_off_def Let_def word_le_nat_alt)
qed

theorem getopt_cluster_witness:
  "getopt_calls (demo_opts\<lparr>optind := 2\<rparr>) 3 1024 512 3 = [97, 98, - 1]"
proof -
  let ?c = "demo_opts\<lparr>optind := 2\<rparr>"
  have z: "nextchar ?c = 0" by (simp add: demo_opts_def ctx_calloc_def)
  have "getopt_calls ?c 3 1024 512 (length [97 :: u8, 98] + 1) = map uint [97 :: u8, 98] @ getopt_calls (?c\<lparr>nextchar := 0, optind := 3\<rparr>) 3 1024 512 1"
    using getopt_cluster [of ?c 600 "[97, 98]" 1024 3 512 1] demo_opts_elem demo_opts_argv(2) z demo_opts_flag
    by (simp del: getopt_calls.simps list.size(4) add_Suc_right)
  moreover have "getopt_calls (?c\<lparr>nextchar := 0, optind := 3\<rparr>) 3 1024 512 1 = [- 1]"
    by (simp add: yos_getopt.simps getopt_init_def Let_def)
  ultimately show ?thesis by (simp add: numeral_3_eq_3)
qed

theorem getopt_first_flag_repeats_witness:
  "getopt_calls demo_opts 3 1024 512 5 = [97, 97, 97, 97, 97]"
proof -
  have i: "optind demo_opts \<le> 1" by (simp add: demo_opts_def ctx_calloc_def)
  have f: "is_flag demo_opts 512 97" by (rule demo_opts_flag) simp
  have five: "replicate 5 x = [x, x, x, x, x]" for x :: int by (simp add: numeral_eq_Suc)
  have "getopt_calls demo_opts 3 1024 512 5 = replicate 5 (uint (97 :: u8))"
    using getopt_first_flag_repeats [OF i _ demo_opts_argv(1) demo_opts_elem f, of 3 5] by simp
  then show ?thesis unfolding five by simp
qed

end
