(* ===== verification/Interleave.thy ===== *)
theory Interleave
  imports Main
begin

text \<open>
  Systems of threads.  A state of a system is a shared part and a program counter for every thread
  number; \<open>R t p s p' s'\<close> is one atomic step of thread \<open>t\<close> from counter \<open>p\<close> and shared part \<open>s\<close> to \<open>p'\<close> and \<open>s'\<close>.
  An execution is any interleaving of such steps.  The theory has the rule that proves an invariant
  thread by thread, the rule that transports executions along a projection, and the contract of a
  lock that only one thread can hold.
\<close>

inductive sys_step :: "(nat \<Rightarrow> 'p \<Rightarrow> 's \<Rightarrow> 'p \<Rightarrow> 's \<Rightarrow> bool) \<Rightarrow> 's \<times> (nat \<Rightarrow> 'p) \<Rightarrow> 's \<times> (nat \<Rightarrow> 'p) \<Rightarrow> bool"
  for R where
  thread: "R t (ps t) s p' s' \<Longrightarrow> sys_step R (s, ps) (s', ps(t := p'))"

inductive_cases sys_stepE: "sys_step R (s, ps) c"

definition reaches :: "(nat \<Rightarrow> 'p \<Rightarrow> 's \<Rightarrow> 'p \<Rightarrow> 's \<Rightarrow> bool) \<Rightarrow> 's \<times> (nat \<Rightarrow> 'p) \<Rightarrow> 's \<times> (nat \<Rightarrow> 'p) \<Rightarrow> bool" where
  "reaches R = (sys_step R)\<^sup>*\<^sup>*"

lemma reaches_refl [simp]: "reaches R c c"
  by (simp add: reaches_def)

lemma reaches_step: "reaches R c (s, ps) \<Longrightarrow> R t (ps t) s p' s' \<Longrightarrow> reaches R c (s', ps(t := p'))"
  unfolding reaches_def by (meson rtranclp.rtrancl_into_rtrancl sys_step.thread)

lemma reaches_go:
  "reaches R c (s, ps) \<Longrightarrow> R t p s p' s' \<Longrightarrow> ps t = p \<Longrightarrow> ps' = ps(t := p') \<Longrightarrow> reaches R c (s', ps')"
  using reaches_step by metis

lemma reaches_first: "R t (ps t) s p' s' \<Longrightarrow> reaches R (s', ps(t := p')) c \<Longrightarrow> reaches R (s, ps) c"
  unfolding reaches_def by (meson converse_rtranclp_into_rtranclp sys_step.thread)

lemma reaches_invariant:
  assumes "reaches R c c'" and "I c"
    and step: "\<And>t s ps p' s'. I (s, ps) \<Longrightarrow> R t (ps t) s p' s' \<Longrightarrow> I (s', ps(t := p'))"
  shows "I c'"
  using assms(1) unfolding reaches_def
proof (induction rule: rtranclp_induct)
  case (step c1 c2)
  from step(2,3) show ?case by (cases rule: sys_step.cases) (use assms(3) in blast)
qed (rule assms(2))

text \<open>A system whose every step is a step of another one under a projection stays inside it.\<close>

lemma reaches_project:
  assumes "reaches R (s, ps) (s', ps')"
    and sim: "\<And>t p s p' s'. R t p s p' s' \<Longrightarrow> Q t (f p) (g s) (f p') (g s') \<or> f p' = f p \<and> g s' = g s"
  shows "reaches Q (g s, f \<circ> ps) (g s', f \<circ> ps')"
proof -
  define P where "P c = reaches Q (g s, f \<circ> ps) (g (fst c), f \<circ> snd c)" for c
  have "P (s', ps')"
  proof (rule reaches_invariant [OF assms(1)])
    show "P (s, ps)" by (simp add: P_def)
    fix t a as p' b
    assume "P (a, as)" and "R t (as t) a p' b"
    then consider "Q t (f (as t)) (g a) (f p') (g b)" | "f p' = f (as t)" "g b = g a"
      using sim by blast
    then show "P (b, as(t := p'))"
    proof cases
      case 1
      then show ?thesis
        using reaches_step [of Q "(g s, f \<circ> ps)" "g a" "f \<circ> as" t "f p'" "g b"] \<open>P (a, as)\<close>
        by (simp add: P_def fun_upd_comp)
    next
      case 2
      then have "f \<circ> as(t := p') = f \<circ> as" by (auto simp: fun_eq_iff)
      then show ?thesis using 2 \<open>P (a, as)\<close> by (simp add: P_def)
    qed
  qed
  then show ?thesis by (simp add: P_def)
qed

section \<open>Locks\<close>

text \<open>
  The contract of a lock: from a shared part in which it is free and with every thread outside, no two
  threads hold it.  A client is a system whose steps are steps of the lock's system under a projection.
\<close>

locale exclusive_lock =
  fixes lstep :: "nat \<Rightarrow> 'p \<Rightarrow> 's \<Rightarrow> 'p \<Rightarrow> 's \<Rightarrow> bool"
    and lfree :: "'s \<Rightarrow> bool"
    and out :: 'p
    and holds :: "'p \<Rightarrow> bool"
  assumes exclusive: "lfree s \<Longrightarrow> reaches lstep (s, \<lambda>_. out) (s', ps) \<Longrightarrow> holds (ps t) \<Longrightarrow> holds (ps u) \<Longrightarrow> t = u"
begin

lemma client_exclusive:
  assumes "reaches R (s, \<lambda>_. q0) (s', qs)" and "f q0 = out" and "lfree (g s)"
    and "\<And>t p s p' s'. R t p s p' s' \<Longrightarrow> lstep t (f p) (g s) (f p') (g s') \<or> f p' = f p \<and> g s' = g s"
    and "holds (f (qs t))" and "holds (f (qs u))"
  shows "t = u"
proof -
  have "reaches lstep (g s, f \<circ> (\<lambda>_. q0)) (g s', f \<circ> qs)"
    by (rule reaches_project [where Q = lstep and f = f and g = g, OF assms(1)]) (rule assms(4))
  then have "reaches lstep (g s, \<lambda>_. out) (g s', f \<circ> qs)" by (simp add: comp_def assms(2))
  from exclusive [OF assms(3) this, of t u] show ?thesis using assms(5,6) by simp
qed

end

end
