(* ===== verification/Futex.thy ===== *)
theory Futex
  imports Prelude
begin

text \<open>
  \<^verbatim>\<open>src/src/wasm3/source/m3_atomic.c\<close>: waiting on a word of memory and waking the waiters.  The code has
  one mutex, one condition variable and one generation counter for all addresses.  Each stretch of
  code between taking and leaving that mutex is one step; \<open>g_wait_cond\<close> is the set of the threads that
  sleep in \<^verbatim>\<open>pthread_cond_wait\<close> and have not been woken by a broadcast.  A sleeping thread may also return from
  \<^verbatim>\<open>pthread_cond_wait\<close> without a broadcast, so the step that tests the loop condition again is always possible;
  whether a thread \<^emph>\<open>can count on\<close> taking it is what membership in \<open>g_wait_cond\<close> says.
\<close>

record futex_state =
  fx_mem :: mem
  g_notify_gen :: u64
  g_wait_cond :: "nat set"

abbreviation fx_load :: "futex_state \<Rightarrow> nat \<Rightarrow> u32" where
  "fx_load s a \<equiv> load32 (fx_mem s) a"

definition fx_store :: "futex_state \<Rightarrow> nat \<Rightarrow> u32 \<Rightarrow> futex_state" where
  "fx_store s a v = s\<lparr>fx_mem := store32 (fx_mem s) a v\<rparr>"

text \<open>Where a thread is inside \<^verbatim>\<open>m3Atomic_Wait32\<close>: about to take the mutex, or asleep with \<^verbatim>\<open>start_gen\<close>.\<close>

datatype wait_pc = WEnter | WParked u64

text \<open>The loop condition of the two waiting loops.\<close>

definition keep_waiting :: "futex_state \<Rightarrow> nat \<Rightarrow> u32 \<Rightarrow> u64 \<Rightarrow> bool" where
  "keep_waiting s addr expected start_gen \<longleftrightarrow> g_notify_gen s = start_gen \<and> fx_load s addr = expected"

text \<open>
  One step inside \<^verbatim>\<open>m3Atomic_Wait32\<close>; \<open>rc\<close> says that \<^verbatim>\<open>pthread_cond_timedwait\<close> has returned \<^verbatim>\<open>ETIMEDOUT\<close>, which is
  possible only with a timeout.  \<open>Inr\<close> is the result: 0 woken, 1 value differs, 2 timed out.
\<close>

fun m3Atomic_Wait32 :: "nat \<Rightarrow> nat \<Rightarrow> u32 \<Rightarrow> bool \<Rightarrow> wait_pc \<Rightarrow> futex_state \<Rightarrow> (wait_pc + int) \<times> futex_state" where
  "m3Atomic_Wait32 t addr expected rc WEnter s =
     (if fx_load s addr \<noteq> expected then (Inr 1, s)
      else (Inl (WParked (g_notify_gen s)), s\<lparr>g_wait_cond := insert t (g_wait_cond s)\<rparr>))"
| "m3Atomic_Wait32 t addr expected rc (WParked start_gen) s =
     (if rc then (Inr 2, s\<lparr>g_wait_cond := g_wait_cond s - {t}\<rparr>)
      else if keep_waiting s addr expected start_gen
        then (Inl (WParked start_gen), s\<lparr>g_wait_cond := insert t (g_wait_cond s)\<rparr>)
      else (Inr 0, s\<lparr>g_wait_cond := g_wait_cond s - {t}\<rparr>))"

definition m3Atomic_Notify :: "u32 \<Rightarrow> futex_state \<Rightarrow> u32 \<times> futex_state" where
  "m3Atomic_Notify n s =
     (n, s\<lparr>g_notify_gen := g_notify_gen s + 1, g_wait_cond := (if n > 0 then {} else g_wait_cond s)\<rparr>)"

text \<open>A thread asleep that no broadcast has woken.\<close>

fun asleep :: "nat \<Rightarrow> wait_pc \<Rightarrow> futex_state \<Rightarrow> bool" where
  "asleep t WEnter s \<longleftrightarrow> False"
| "asleep t (WParked g) s \<longleftrightarrow> t \<in> g_wait_cond s"

lemma asleep_iff: "asleep t w s \<longleftrightarrow> w \<noteq> WEnter \<and> t \<in> g_wait_cond s"
  by (cases w) auto

section \<open>What the steps change\<close>

named_theorems futex \<open>effects of the atomic operations\<close>

lemma fx_store_simps [simp, futex]:
  "fx_load (fx_store s a v) a = v"
  "g_notify_gen (fx_store s a v) = g_notify_gen s"
  "g_wait_cond (fx_store s a v) = g_wait_cond s"
  by (simp_all add: fx_store_def)

lemma fx_store_other [futex]: "b + 4 \<le> a \<or> a + 4 \<le> b \<Longrightarrow> fx_load (fx_store s a v) b = fx_load s b"
  by (simp add: fx_store_def load32_store32_other)

lemma notify_simps [simp, futex]:
  "fx_mem (snd (m3Atomic_Notify n s)) = fx_mem s"
  "n > 0 \<Longrightarrow> g_wait_cond (snd (m3Atomic_Notify n s)) = {}"
  "g_wait_cond (snd (m3Atomic_Notify n s)) \<subseteq> g_wait_cond s"
  by (simp_all add: m3Atomic_Notify_def)

text \<open>A wait touches no memory and no other thread's sleep, and a thread goes to sleep only when the word has the value it expects.\<close>

lemma wait32_frame [futex]:
  assumes "m3Atomic_Wait32 t addr expected rc w s = (r, s')"
  shows "fx_mem s' = fx_mem s" and "g_wait_cond s' - {t} = g_wait_cond s - {t}"
    and "g_notify_gen s' = g_notify_gen s"
  using assms by (cases w; auto split: if_splits)+

lemma wait32_parks:
  assumes "m3Atomic_Wait32 t addr expected rc w s = (Inl w', s')"
  shows "fx_load s addr = expected" and "t \<in> g_wait_cond s'" and "w' \<noteq> WEnter"
  using assms by (cases w; auto simp: keep_waiting_def split: if_splits)+

lemma wait32_leaves:
  assumes "m3Atomic_Wait32 t addr expected rc (WParked g) s = (Inr r, s')"
  shows "t \<notin> g_wait_cond s'"
  using assms by (auto split: if_splits)

end
