(* ===== verification/Mutex.thy ===== *)
theory Mutex
  imports Interleave Futex
begin

text \<open>
  The mutex and the spin lock of \<^verbatim>\<open>src/src/yos/impl/proc/pthread.c\<close>, one atomic operation per step.  A lock is
  a 32-bit word of guest memory.  The interpreter turns a guest pointer into the host pointer
  \<^verbatim>\<open>_mem + offset\<close>, which is never null, so the null checks of these functions never fire and the word is
  simply the one at \<open>cell\<close>.  The system of threads is open: a thread outside the lock's code may do anything
  that leaves the lock's word alone, including sleeping and waking others through the same queue.
\<close>

section \<open>Atomic operations\<close>

definition fx_cas :: "futex_state \<Rightarrow> nat \<Rightarrow> u32 \<Rightarrow> u32 \<Rightarrow> (bool \<times> u32) \<times> futex_state" where
  "fx_cas s a expected desired =
     (if fx_load s a = expected then ((True, expected), fx_store s a desired) else ((False, fx_load s a), s))"

definition fx_xchg :: "futex_state \<Rightarrow> nat \<Rightarrow> u32 \<Rightarrow> u32 \<times> futex_state" where
  "fx_xchg s a v = (fx_load s a, fx_store s a v)"

definition fx_fetch_add :: "futex_state \<Rightarrow> nat \<Rightarrow> u32 \<Rightarrow> u32 \<times> futex_state" where
  "fx_fetch_add s a v = (fx_load s a, fx_store s a (fx_load s a + v))"

section \<open>The mutex\<close>

datatype lock_pc = LkCas | LkXchg | LkWait wait_pc

fun mu_lock_cell :: "nat \<Rightarrow> nat \<Rightarrow> lock_pc \<Rightarrow> futex_state \<Rightarrow> (lock_pc + int) \<times> futex_state" where
  "mu_lock_cell t cell LkCas s =
     (case fx_cas s cell 0 1 of ((won, c), s') \<Rightarrow>
        (if won then Inr 0 else if c \<noteq> 2 then Inl LkXchg else Inl (LkWait WEnter), s'))"
| "mu_lock_cell t cell LkXchg s =
     (case fx_xchg s cell 2 of (c, s') \<Rightarrow> (if c \<noteq> 0 then Inl (LkWait WEnter) else Inr 0, s'))"
| "mu_lock_cell t cell (LkWait w) s =
     (case m3Atomic_Wait32 t cell 2 False w s of (r, s') \<Rightarrow>
        (case r of Inl w' \<Rightarrow> Inl (LkWait w') | Inr _ \<Rightarrow> Inl LkXchg, s'))"

datatype unlock_pc = UnXchg | UnNotify

fun mu_unlock_cell :: "nat \<Rightarrow> unlock_pc \<Rightarrow> futex_state \<Rightarrow> (unlock_pc + int) \<times> futex_state" where
  "mu_unlock_cell cell UnXchg s =
     (case fx_xchg s cell 0 of (prev, s') \<Rightarrow> (if prev = 2 then Inl UnNotify else Inr 0, s'))"
| "mu_unlock_cell cell UnNotify s = (Inr 0, snd (m3Atomic_Notify 1 s))"

definition host_pthread_mutex_init :: "nat \<Rightarrow> futex_state \<Rightarrow> int \<times> futex_state" where
  "host_pthread_mutex_init cell s = (0, fx_store s cell 0)"

definition host_pthread_mutex_destroy :: "nat \<Rightarrow> futex_state \<Rightarrow> int \<times> futex_state" where
  "host_pthread_mutex_destroy cell s = (0, fx_store s cell 0)"

definition host_pthread_mutex_trylock :: "nat \<Rightarrow> futex_state \<Rightarrow> int \<times> futex_state" where
  "host_pthread_mutex_trylock cell s =
     (case fx_cas s cell 0 1 of ((won, _), s') \<Rightarrow> (if won then 0 else 16, s'))"

text \<open>A thread as the mutex sees it.\<close>

datatype mutex_pc = Out | Locking lock_pc | Holding | Unlocking unlock_pc

fun locked :: "lock_pc + int \<Rightarrow> mutex_pc" where
  "locked (Inl p) = Locking p"
| "locked (Inr r) = Holding"

fun unlocked :: "unlock_pc + int \<Rightarrow> mutex_pc" where
  "unlocked (Inl u) = Unlocking u"
| "unlocked (Inr r) = Out"

text \<open>What a thread may do that is not in the mutex's code: anything but change the word or put another thread to sleep.\<close>

definition elsewhere :: "nat \<Rightarrow> nat \<Rightarrow> futex_state \<Rightarrow> futex_state \<Rightarrow> bool" where
  "elsewhere cell t s s' \<longleftrightarrow> fx_load s' cell = fx_load s cell \<and> g_wait_cond s' \<subseteq> insert t (g_wait_cond s)"

inductive mutex_step :: "nat \<Rightarrow> nat \<Rightarrow> mutex_pc \<Rightarrow> futex_state \<Rightarrow> mutex_pc \<Rightarrow> futex_state \<Rightarrow> bool"
  for cell t where
  call_lock: "mutex_step cell t Out s (Locking LkCas) s"
| lock: "mu_lock_cell t cell p s = (r, s') \<Longrightarrow> mutex_step cell t (Locking p) s (locked r) s'"
| trylock: "host_pthread_mutex_trylock cell s = (r, s') \<Longrightarrow>
    mutex_step cell t Out s (if r = 0 then Holding else Out) s'"
| call_unlock: "mutex_step cell t Holding s (Unlocking UnXchg) s"
| unlock: "mu_unlock_cell cell u s = (r, s') \<Longrightarrow> mutex_step cell t (Unlocking u) s (unlocked r) s'"
| other: "elsewhere cell t s s' \<Longrightarrow> p = Out \<or> p = Holding \<Longrightarrow> mutex_step cell t p s p s'"

lemma mutex_lock_won: "mu_lock_cell t cell p s = (Inr r, s') \<Longrightarrow> mutex_step cell t (Locking p) s Holding s'"
  using mutex_step.lock [of t cell p s "Inr r" s'] by simp

lemma mutex_lock_goes: "mu_lock_cell t cell p s = (Inl p', s') \<Longrightarrow> mutex_step cell t (Locking p) s (Locking p') s'"
  using mutex_step.lock [of t cell p s "Inl p'" s'] by simp

fun holds_mutex :: "mutex_pc \<Rightarrow> bool" where
  "holds_mutex Holding \<longleftrightarrow> True"
| "holds_mutex (Unlocking UnXchg) \<longleftrightarrow> True"
| "holds_mutex _ \<longleftrightarrow> False"

fun blocked_on_mutex :: "nat \<Rightarrow> mutex_pc \<Rightarrow> futex_state \<Rightarrow> bool" where
  "blocked_on_mutex t (Locking (LkWait w)) s \<longleftrightarrow> asleep t w s"
| "blocked_on_mutex t _ s \<longleftrightarrow> False"

section \<open>The invariant\<close>

text \<open>
  The word is 0 exactly when nobody holds the mutex, otherwise it is 1 or 2 and the holder is unique; and
  a sleeping thread has either its sleep announced in the word or a wake-up on its way.
\<close>

definition mutex_inv :: "nat \<Rightarrow> futex_state \<times> (nat \<Rightarrow> mutex_pc) \<Rightarrow> bool" where
  "mutex_inv cell c \<longleftrightarrow> (case c of (s, ps) \<Rightarrow>
     fx_load s cell \<in> {0, 1, 2} \<and>
     (fx_load s cell \<noteq> 0 \<longleftrightarrow> (\<exists>t. holds_mutex (ps t))) \<and>
     (\<forall>t u. holds_mutex (ps t) \<longrightarrow> holds_mutex (ps u) \<longrightarrow> t = u) \<and>
     ((\<exists>t. blocked_on_mutex t (ps t) s) \<longrightarrow> fx_load s cell = 2 \<or> (\<exists>u. ps u = Unlocking UnNotify)))"

lemma mutex_invI:
  assumes "fx_load s cell \<in> {0, 1, 2}"
    and "fx_load s cell \<noteq> 0 \<longleftrightarrow> (\<exists>t. holds_mutex (ps t))"
    and "\<And>t u. holds_mutex (ps t) \<Longrightarrow> holds_mutex (ps u) \<Longrightarrow> t = u"
    and "\<And>t. blocked_on_mutex t (ps t) s \<Longrightarrow> fx_load s cell = 2 \<or> (\<exists>u. ps u = Unlocking UnNotify)"
  shows "mutex_inv cell (s, ps)"
  using assms by (auto simp: mutex_inv_def)

lemma blocked_mono:
  "blocked_on_mutex u p s' \<Longrightarrow> g_wait_cond s' \<subseteq> insert t (g_wait_cond s) \<Longrightarrow> u \<noteq> t \<Longrightarrow> blocked_on_mutex u p s"
  by (cases "(u, p, s)" rule: blocked_on_mutex.cases) (auto simp: asleep_iff)

text \<open>
  Every step does one of these things to the mutex: nothing; it takes a free mutex; it gives a held one back,
  with a wake-up on its way if sleep is announced; it announces sleep; or it wakes everybody.
\<close>

lemma mutex_step_cases:
  assumes "mutex_step cell t p s p' s'"
  obtains (quiet) "holds_mutex p' = holds_mutex p" "fx_load s' cell = fx_load s cell" "p \<noteq> Unlocking UnNotify"
      "blocked_on_mutex t p' s' \<Longrightarrow> fx_load s cell = 2" "g_wait_cond s' \<subseteq> insert t (g_wait_cond s)"
  | (takes) "\<not> holds_mutex p" "holds_mutex p'" "fx_load s cell = 0" "fx_load s' cell \<in> {1, 2}" "p \<noteq> Unlocking UnNotify"
      "\<not> blocked_on_mutex t p' s'" "g_wait_cond s' = g_wait_cond s"
  | (gives) "holds_mutex p" "\<not> holds_mutex p'" "fx_load s' cell = 0" "fx_load s cell = 2 \<Longrightarrow> p' = Unlocking UnNotify"
      "\<not> blocked_on_mutex t p' s'" "g_wait_cond s' = g_wait_cond s" "p \<noteq> Unlocking UnNotify"
  | (announces) "\<not> holds_mutex p" "\<not> holds_mutex p'" "fx_load s cell \<noteq> 0" "fx_load s' cell = 2" "p \<noteq> Unlocking UnNotify"
      "g_wait_cond s' = g_wait_cond s"
  | (wakes) "holds_mutex p' = holds_mutex p" "fx_load s' cell = fx_load s cell" "g_wait_cond s' = {}"
  using assms
proof (cases rule: mutex_step.cases)
  case call_lock
  then show ?thesis by (intro quiet) auto
next
  case (lock p0 r)
  show ?thesis
  proof (cases p0)
    case LkCas
    show ?thesis
      by (cases "fx_load s cell = 0"; rule takes quiet)
        (use lock LkCas in \<open>auto simp: fx_cas_def split: if_splits\<close>)
  next
    case LkXchg
    show ?thesis
      by (cases "fx_load s cell = 0"; rule takes announces)
        (use lock LkXchg in \<open>auto simp: fx_xchg_def split: if_splits\<close>)
  next
    case (LkWait w)
    obtain r' where w: "m3Atomic_Wait32 t cell 2 False w s = (r', s')"
      and r: "r = (case r' of Inl w' \<Rightarrow> Inl (LkWait w') | Inr _ \<Rightarrow> Inl LkXchg)"
      using lock(3) LkWait by (auto split: prod.splits)
    show ?thesis
    proof (rule quiet)
      show "blocked_on_mutex t p' s' \<Longrightarrow> fx_load s cell = 2"
        using lock r w wait32_parks(1) [of t cell 2 False w s] by (auto split: sum.splits)
      show "g_wait_cond s' \<subseteq> insert t (g_wait_cond s)" using wait32_frame(2) [OF w] by blast
    qed (use lock r wait32_frame(1) [OF w] in \<open>auto split: sum.splits\<close>)
  qed
next
  case (trylock r)
  show ?thesis
    by (cases "fx_load s cell = 0"; rule takes quiet)
      (use trylock in \<open>auto simp: host_pthread_mutex_trylock_def fx_cas_def split: if_splits\<close>)
next
  case call_unlock
  then show ?thesis by (intro quiet) auto
next
  case (unlock u r)
  show ?thesis
  proof (cases u)
    case UnXchg
    show ?thesis
      by (rule gives) (use unlock UnXchg in \<open>auto simp: fx_xchg_def split: if_splits\<close>)
  next
    case UnNotify
    show ?thesis
      by (rule wakes) (use unlock UnNotify in \<open>auto simp: m3Atomic_Notify_def\<close>)
  qed
next
  case other
  then show ?thesis by (intro quiet) (auto simp: elsewhere_def)
qed

lemma mutex_step_queue: "mutex_step cell t p s p' s' \<Longrightarrow> g_wait_cond s' \<subseteq> insert t (g_wait_cond s)"
  by (cases rule: mutex_step_cases) auto

lemma mu_lock_other:
  assumes "mu_lock_cell t cell p s = (r, s')" and "a + 4 \<le> cell \<or> cell + 4 \<le> a"
  shows "fx_load s' a = fx_load s a"
  using assms by (cases p)
    (auto simp: fx_cas_def fx_xchg_def fx_store_other wait32_frame(1) split: prod.splits if_splits sum.splits)

lemma mu_unlock_other:
  assumes "mu_unlock_cell cell u s = (r, s')" and "a + 4 \<le> cell \<or> cell + 4 \<le> a"
  shows "fx_load s' a = fx_load s a"
  using assms by (cases u) (auto simp: fx_xchg_def fx_store_other split: if_splits)

lemma mutex_inv_step:
  assumes inv: "mutex_inv cell (s, ps)" and step: "mutex_step cell t (ps t) s p' s'"
  shows "mutex_inv cell (s', ps(t := p'))"
proof -
  note I = inv [unfolded mutex_inv_def prod.case]
  have bl: "blocked_on_mutex u (ps u) s" if "blocked_on_mutex u ((ps(t := p')) u) s'" "u \<noteq> t"
      and "g_wait_cond s' \<subseteq> insert t (g_wait_cond s)" for u
    using that blocked_mono [of u "ps u" s' t s] by simp
  have pend: "\<exists>v. (ps(t := p')) v = Unlocking UnNotify" if "ps u = Unlocking UnNotify" "ps t \<noteq> Unlocking UnNotify" for u
    using that by (intro exI [of _ u]) auto
  have hs: "holds_mutex ((ps(t := p')) u) = holds_mutex (ps u)" if "holds_mutex p' = holds_mutex (ps t)" for u
    using that by simp
  from step show ?thesis
  proof (cases rule: mutex_step_cases)
    case quiet
    show ?thesis
    proof (rule mutex_invI)
      show "fx_load s' cell = 2 \<or> (\<exists>u. (ps(t := p')) u = Unlocking UnNotify)" if b: "blocked_on_mutex v ((ps(t := p')) v) s'" for v
      proof (cases "v = t")
        case True
        then show ?thesis using quiet b by simp
      next
        case False
        from bl [OF b False quiet(5)] I consider "fx_load s cell = 2" | u where "ps u = Unlocking UnNotify" by blast
        then show ?thesis using quiet(2,3) pend by cases simp_all
      qed
    qed (use I quiet hs [OF quiet(1)] in \<open>simp_all del: fun_upd_apply\<close>)
  next
    case takes
    then have none: "\<not> holds_mutex (ps u)" for u using I by blast
    show ?thesis
    proof (rule mutex_invI)
      show "fx_load s' cell = 2 \<or> (\<exists>u. (ps(t := p')) u = Unlocking UnNotify)" if b: "blocked_on_mutex v ((ps(t := p')) v) s'" for v
      proof -
        have "v \<noteq> t" using takes(6) b by auto
        from bl [OF b this] takes(7) have "blocked_on_mutex v (ps v) s" by blast
        then obtain u where "ps u = Unlocking UnNotify" using takes(3) I by auto
        then show ?thesis using takes(5) pend by blast
      qed
    qed (use none takes in \<open>auto split: if_splits\<close>)
  next
    case gives
    then have none: "\<not> holds_mutex ((ps(t := p')) u)" for u using I by (cases "u = t") auto
    show ?thesis
    proof (rule mutex_invI)
      show "fx_load s' cell = 2 \<or> (\<exists>u. (ps(t := p')) u = Unlocking UnNotify)" if b: "blocked_on_mutex v ((ps(t := p')) v) s'" for v
      proof -
        have "v \<noteq> t" using gives(5) b by auto
        from bl [OF b this] gives(6) I consider "fx_load s cell = 2" | u where "ps u = Unlocking UnNotify" by blast
        then show ?thesis using gives(4,7) pend by cases auto
      qed
    qed (use none gives(3) in \<open>simp_all del: fun_upd_apply\<close>)
  next
    case announces
    then have "holds_mutex p' = holds_mutex (ps t)" by simp
    from hs [OF this] show ?thesis using I announces by (intro mutex_invI) (simp_all del: fun_upd_apply)
  next
    case wakes
    have "\<not> blocked_on_mutex v p s'" for v p
      using wakes(3) by (cases "(v, p, s')" rule: blocked_on_mutex.cases) (auto simp: asleep_iff)
    with hs [OF wakes(1)] show ?thesis using I wakes by (intro mutex_invI) (simp_all del: fun_upd_apply)
  qed
qed

lemma mutex_inv_reaches:
  assumes "fx_load s cell = 0" and "reaches (mutex_step cell) (s, \<lambda>_. Out) c"
  shows "mutex_inv cell c"
proof (rule reaches_invariant [OF assms(2)])
  show "mutex_inv cell (s, \<lambda>_. Out)" using assms(1) by (simp add: mutex_inv_def)
qed (rule mutex_inv_step)

lemma mutex_exclusive:
  assumes "fx_load s cell = 0" and "reaches (mutex_step cell) (s, \<lambda>_. Out) (s', ps)"
    and "holds_mutex (ps t)" and "holds_mutex (ps u)"
  shows "t = u"
  using mutex_inv_reaches [OF assms(1,2)] assms(3,4) by (auto simp: mutex_inv_def)

interpretation mutex_lock: exclusive_lock "mutex_step cell" "\<lambda>s. fx_load s cell = 0" Out holds_mutex for cell
  by unfold_locales (rule mutex_exclusive)

text \<open>
  Claim C22: however the threads interleave, at most one holds the mutex, and no wake-up is lost: while a thread
  sleeps in \<^verbatim>\<open>pthread_mutex_lock\<close>, either another thread holds the mutex with sleep announced in the word, so that its
  unlock will wake the sleepers, or an unlocking thread is just about to wake them.
\<close>

theorem mutex_correct:
  assumes "fx_load s cell = 0" and "reaches (mutex_step cell) (s, \<lambda>_. Out) (s', ps)"
  shows "(\<forall>t u. holds_mutex (ps t) \<and> holds_mutex (ps u) \<longrightarrow> t = u) \<and>
    (\<forall>t. blocked_on_mutex t (ps t) s' \<longrightarrow>
       (\<exists>u. u \<noteq> t \<and> holds_mutex (ps u) \<and> fx_load s' cell = 2) \<or> (\<exists>u. ps u = Unlocking UnNotify))"
proof (intro conjI allI impI)
  have I: "mutex_inv cell (s', ps)" by (rule mutex_inv_reaches [OF assms])
  show "t = u" if "holds_mutex (ps t) \<and> holds_mutex (ps u)" for t u
    using mutex_exclusive [OF assms, of t u] that by blast
  fix t assume b: "blocked_on_mutex t (ps t) s'"
  then have "\<not> holds_mutex (ps t)" by (cases "ps t") auto
  with I b show "(\<exists>u. u \<noteq> t \<and> holds_mutex (ps u) \<and> fx_load s' cell = 2) \<or> (\<exists>u. ps u = Unlocking UnNotify)"
    by (auto simp: mutex_inv_def)
qed

definition demo_fx :: futex_state where
  "demo_fx = \<lparr>fx_mem = \<lambda>_. 0, g_notify_gen = 0, g_wait_cond = {}\<rparr>"

lemma demo_fx_simps [simp]:
  "fx_load demo_fx a = 0" "g_notify_gen demo_fx = 0" "g_wait_cond demo_fx = {}"
  by (simp_all add: demo_fx_def load32_def)

text \<open>Thread 0 takes the mutex at 64, thread 1 finds it taken, announces its sleep and sleeps.\<close>

definition demo_mutex_ps :: "nat \<Rightarrow> mutex_pc" where
  "demo_mutex_ps = (\<lambda>_. Out)(0 := Holding, 1 := Locking (LkWait (WParked 0)))"

definition demo_mutex_fx :: futex_state where
  "demo_mutex_fx = (fx_store (fx_store demo_fx 64 1) 64 2)\<lparr>g_wait_cond := {1}\<rparr>"

lemmas mutex_go = reaches_go [where R = "mutex_step cell" for cell]

lemma demo_mutex_run: "reaches (mutex_step 64) (demo_fx, \<lambda>_. Out) (demo_mutex_fx, demo_mutex_ps)"
proof -
  let ?R = "reaches (mutex_step 64) (demo_fx, \<lambda>_. Out)"
  let ?s1 = "fx_store demo_fx 64 1"
  let ?h = "(\<lambda>_. Out)(0 := Holding)"
  have "?R (demo_fx, (\<lambda>_. Out)(0 := Locking LkCas))"
    by (rule mutex_go [OF reaches_refl mutex_step.call_lock]) simp_all
  then have "?R (?s1, ?h)"
    by (rule mutex_go [OF _ mutex_lock_won, where t = 0 and p1 = LkCas and r1 = 0]) (simp_all add: fx_cas_def)
  then have "?R (?s1, ?h(1 := Locking LkCas))"
    by (rule mutex_go [OF _ mutex_step.call_lock]) simp_all
  then have "?R (?s1, ?h(1 := Locking LkXchg))"
    by (rule mutex_go [OF _ mutex_lock_goes, where t = 1 and p1 = LkCas and p'1 = LkXchg]) (simp_all add: fx_cas_def)
  then have "?R (fx_store ?s1 64 2, ?h(1 := Locking (LkWait WEnter)))"
    by (rule mutex_go [OF _ mutex_lock_goes, where t = 1 and p1 = LkXchg and p'1 = "LkWait WEnter"]) (simp_all add: fx_xchg_def)
  then show ?thesis
    unfolding demo_mutex_fx_def demo_mutex_ps_def
    by (rule mutex_go [OF _ mutex_lock_goes, where t = 1 and p1 = "LkWait WEnter" and p'1 = "LkWait (WParked 0)"]) simp_all
qed

theorem mutex_correct_witness:
  "blocked_on_mutex 1 (demo_mutex_ps 1) demo_mutex_fx \<and>
   ((\<exists>u. u \<noteq> 1 \<and> holds_mutex (demo_mutex_ps u) \<and> fx_load demo_mutex_fx 64 = 2) \<or> (\<exists>u. demo_mutex_ps u = Unlocking UnNotify))"
proof -
  have "blocked_on_mutex 1 (demo_mutex_ps 1) demo_mutex_fx" by (simp add: demo_mutex_ps_def demo_mutex_fx_def)
  then show ?thesis using mutex_correct [OF _ demo_mutex_run] by simp
qed

section \<open>The spin lock\<close>

datatype spin_pc = SpOut | SpLoop | SpHeld

text \<open>One turn of the loop of \<^verbatim>\<open>pthread_spin_lock\<close>; \<open>True\<close>: the lock is taken and the call returns 0.\<close>

definition host_pthread_spin_lock :: "nat \<Rightarrow> futex_state \<Rightarrow> bool \<times> futex_state" where
  "host_pthread_spin_lock cell s = (case fx_cas s cell 0 1 of ((won, _), s') \<Rightarrow> (won, s'))"

definition host_pthread_spin_trylock :: "nat \<Rightarrow> futex_state \<Rightarrow> int \<times> futex_state" where
  "host_pthread_spin_trylock cell s =
     (case fx_cas s cell 0 1 of ((won, _), s') \<Rightarrow> (if won then 0 else 16, s'))"

definition host_pthread_spin_unlock :: "nat \<Rightarrow> futex_state \<Rightarrow> int \<times> futex_state" where
  "host_pthread_spin_unlock cell s = (0, fx_store s cell 0)"

definition host_pthread_spin_init :: "nat \<Rightarrow> futex_state \<Rightarrow> int \<times> futex_state" where
  "host_pthread_spin_init cell s = (0, fx_store s cell 0)"

definition host_pthread_spin_destroy :: "nat \<Rightarrow> futex_state \<Rightarrow> int \<times> futex_state" where
  "host_pthread_spin_destroy cell s = (0, s)"

inductive spin_step :: "nat \<Rightarrow> nat \<Rightarrow> spin_pc \<Rightarrow> futex_state \<Rightarrow> spin_pc \<Rightarrow> futex_state \<Rightarrow> bool"
  for cell t where
  call_lock: "spin_step cell t SpOut s SpLoop s"
| turn: "host_pthread_spin_lock cell s = (won, s') \<Longrightarrow> spin_step cell t SpLoop s (if won then SpHeld else SpLoop) s'"
| trylock: "host_pthread_spin_trylock cell s = (r, s') \<Longrightarrow> spin_step cell t SpOut s (if r = 0 then SpHeld else SpOut) s'"
| unlock: "host_pthread_spin_unlock cell s = (r, s') \<Longrightarrow> spin_step cell t SpHeld s SpOut s'"
| other: "fx_load s' cell = fx_load s cell \<Longrightarrow> p \<noteq> SpLoop \<Longrightarrow> spin_step cell t p s p s'"

definition spin_inv :: "nat \<Rightarrow> futex_state \<times> (nat \<Rightarrow> spin_pc) \<Rightarrow> bool" where
  "spin_inv cell c \<longleftrightarrow> (case c of (s, ps) \<Rightarrow>
     (fx_load s cell = 0 \<longrightarrow> (\<forall>t. ps t \<noteq> SpHeld)) \<and> (\<forall>t u. ps t = SpHeld \<longrightarrow> ps u = SpHeld \<longrightarrow> t = u))"

lemma spin_exclusive:
  assumes "fx_load s cell = 0" and "reaches (spin_step cell) (s, \<lambda>_. SpOut) (s', ps)"
    and "ps t = SpHeld" and "ps u = SpHeld"
  shows "t = u"
proof -
  have "spin_inv cell (s', ps)"
  proof (rule reaches_invariant [OF assms(2)])
    fix t a as p' b
    assume "spin_inv cell (a, as)" and "spin_step cell t (as t) a p' b"
    from this(2,1) show "spin_inv cell (b, as(t := p'))"
      by (cases rule: spin_step.cases)
        (auto simp: spin_inv_def host_pthread_spin_lock_def host_pthread_spin_trylock_def
          host_pthread_spin_unlock_def fx_cas_def split: if_splits)
  qed (simp add: spin_inv_def)
  then show ?thesis using assms(3,4) by (simp add: spin_inv_def)
qed

interpretation spin_lock: exclusive_lock "spin_step cell" "\<lambda>s. fx_load s cell = 0" SpOut "\<lambda>p. p = SpHeld" for cell
  by unfold_locales (rule spin_exclusive)

end
