(* ===== verification/RwLock.thy ===== *)
theory RwLock
  imports Mutex
begin

text \<open>
  The read-write lock of \<^verbatim>\<open>src/src/yos/impl/proc/pthread.c\<close>: one 32-bit word that counts the readers or is
  \<^verbatim>\<open>0xFFFFFFFF\<close> while a writer holds the lock; all its operations are compare-and-swap loops.
\<close>

abbreviation RW_FREE :: u32 where "RW_FREE \<equiv> 0"
abbreviation RW_WRITER :: u32 where "RW_WRITER \<equiv> 0xFFFFFFFF"

definition rw_init :: "nat \<Rightarrow> futex_state \<Rightarrow> int \<times> futex_state" where
  "rw_init rw s = (0, fx_store s rw 0)"

definition host_pthread_rwlock_destroy :: "nat \<Rightarrow> futex_state \<Rightarrow> int \<times> futex_state" where
  "host_pthread_rwlock_destroy rw s = (0, s)"

datatype rd_pc = RdLoad | RdCas u32 | RdWait u32 wait_pc

fun rw_rdlock_impl :: "nat \<Rightarrow> nat \<Rightarrow> bool \<Rightarrow> rd_pc \<Rightarrow> futex_state \<Rightarrow> (rd_pc + int) \<times> futex_state" where
  "rw_rdlock_impl t rw try_only RdLoad s =
     (let st = fx_load s rw in
      (if st \<noteq> RW_WRITER \<and> st < RW_WRITER - 1 then Inl (RdCas st)
       else if try_only then Inr 16 else Inl (RdWait st WEnter), s))"
| "rw_rdlock_impl t rw try_only (RdCas st) s =
     (case fx_cas s rw st (st + 1) of ((won, _), s') \<Rightarrow> (if won then Inr 0 else Inl RdLoad, s'))"
| "rw_rdlock_impl t rw try_only (RdWait st w) s =
     (case m3Atomic_Wait32 t rw st False w s of (r, s') \<Rightarrow>
        (case r of Inl w' \<Rightarrow> Inl (RdWait st w') | Inr _ \<Rightarrow> Inl RdLoad, s'))"

datatype wr_pc = WrLoad | WrCas | WrWait u32 wait_pc

fun rw_wrlock_impl :: "nat \<Rightarrow> nat \<Rightarrow> bool \<Rightarrow> wr_pc \<Rightarrow> futex_state \<Rightarrow> (wr_pc + int) \<times> futex_state" where
  "rw_wrlock_impl t rw try_only WrLoad s =
     (let st = fx_load s rw in
      (if st = RW_FREE then Inl WrCas else if try_only then Inr 16 else Inl (WrWait st WEnter), s))"
| "rw_wrlock_impl t rw try_only WrCas s =
     (case fx_cas s rw RW_FREE RW_WRITER of ((won, _), s') \<Rightarrow> (if won then Inr 0 else Inl WrLoad, s'))"
| "rw_wrlock_impl t rw try_only (WrWait st w) s =
     (case m3Atomic_Wait32 t rw st False w s of (r, s') \<Rightarrow>
        (case r of Inl w' \<Rightarrow> Inl (WrWait st w') | Inr _ \<Rightarrow> Inl WrLoad, s'))"

datatype ru_pc = RuLoad | RuCas u32 u32 | RuNotify

fun rw_unlock_impl :: "nat \<Rightarrow> ru_pc \<Rightarrow> futex_state \<Rightarrow> (ru_pc + int) \<times> futex_state" where
  "rw_unlock_impl rw RuLoad s =
     (let st = fx_load s rw in
      (if st = RW_WRITER then Inl (RuCas st RW_FREE) else if st > 0 then Inl (RuCas st (st - 1)) else Inr 22, s))"
| "rw_unlock_impl rw (RuCas st new_st) s =
     (case fx_cas s rw st new_st of ((won, _), s') \<Rightarrow> (if won then Inl RuNotify else Inl RuLoad, s'))"
| "rw_unlock_impl rw RuNotify s = (Inr 0, snd (m3Atomic_Notify 0xFFFFFFFF s))"

section \<open>The system of threads\<close>

text \<open>A thread as the lock sees it; an unlocking thread remembers whether it unlocks as a writer.\<close>

datatype rw_pc = RwOut | RdLocking bool rd_pc | WrLocking bool wr_pc | Reading | Writing | RwUnlocking bool ru_pc

fun rd_next :: "bool \<Rightarrow> rd_pc + int \<Rightarrow> rw_pc" where
  "rd_next b (Inl p) = RdLocking b p"
| "rd_next b (Inr r) = (if r = 0 then Reading else RwOut)"

fun wr_next :: "bool \<Rightarrow> wr_pc + int \<Rightarrow> rw_pc" where
  "wr_next b (Inl p) = WrLocking b p"
| "wr_next b (Inr r) = (if r = 0 then Writing else RwOut)"

fun ru_next :: "bool \<Rightarrow> ru_pc + int \<Rightarrow> rw_pc" where
  "ru_next b (Inl u) = RwUnlocking b u"
| "ru_next b (Inr r) = RwOut"

inductive rw_step :: "nat \<Rightarrow> nat \<Rightarrow> rw_pc \<Rightarrow> futex_state \<Rightarrow> rw_pc \<Rightarrow> futex_state \<Rightarrow> bool"
  for rw t where
  call_rdlock: "rw_step rw t RwOut s (RdLocking try_only RdLoad) s"
| call_wrlock: "rw_step rw t RwOut s (WrLocking try_only WrLoad) s"
| rdlock: "rw_rdlock_impl t rw b p s = (r, s') \<Longrightarrow> rw_step rw t (RdLocking b p) s (rd_next b r) s'"
| wrlock: "rw_wrlock_impl t rw b p s = (r, s') \<Longrightarrow> rw_step rw t (WrLocking b p) s (wr_next b r) s'"
| call_unlock: "p = Reading \<or> p = Writing \<Longrightarrow> rw_step rw t p s (RwUnlocking (p = Writing) RuLoad) s"
| unlock: "rw_unlock_impl rw u s = (r, s') \<Longrightarrow> rw_step rw t (RwUnlocking b u) s (ru_next b r) s'"
| other: "elsewhere rw t s s' \<Longrightarrow> p \<in> {RwOut, Reading, Writing} \<Longrightarrow> rw_step rw t p s p s'"

fun holds_as :: "bool \<Rightarrow> rw_pc \<Rightarrow> bool" where
  "holds_as b Reading \<longleftrightarrow> \<not> b"
| "holds_as b Writing \<longleftrightarrow> b"
| "holds_as b (RwUnlocking w u) \<longleftrightarrow> w = b \<and> u \<noteq> RuNotify"
| "holds_as b _ \<longleftrightarrow> False"

abbreviation reads :: "rw_pc \<Rightarrow> bool" where "reads \<equiv> holds_as False"
abbreviation writes :: "rw_pc \<Rightarrow> bool" where "writes \<equiv> holds_as True"

fun blocked_on_rw :: "nat \<Rightarrow> rw_pc \<Rightarrow> futex_state \<Rightarrow> bool" where
  "blocked_on_rw t (RdLocking b (RdWait st w)) s \<longleftrightarrow> asleep t w s"
| "blocked_on_rw t (WrLocking b (WrWait st w)) s \<longleftrightarrow> asleep t w s"
| "blocked_on_rw t _ s \<longleftrightarrow> False"

fun notifying :: "rw_pc \<Rightarrow> bool" where
  "notifying (RwUnlocking b u) \<longleftrightarrow> u = RuNotify"
| "notifying _ \<longleftrightarrow> False"

text \<open>The values of the word that a thread carries in its registers.\<close>

fun rw_regs_ok :: "rw_pc \<Rightarrow> bool" where
  "rw_regs_ok (RdLocking b (RdCas st)) \<longleftrightarrow> st < RW_WRITER - 1"
| "rw_regs_ok (RdLocking b (RdWait st w)) \<longleftrightarrow> st \<noteq> 0"
| "rw_regs_ok (WrLocking b (WrWait st w)) \<longleftrightarrow> st \<noteq> 0"
| "rw_regs_ok (RwUnlocking b (RuCas st n)) \<longleftrightarrow> st = RW_WRITER \<and> n = 0 \<or> st \<noteq> RW_WRITER \<and> st \<noteq> 0 \<and> n = st - 1"
| "rw_regs_ok _ \<longleftrightarrow> True"

lemma rw_step_regs:
  assumes "rw_step rw t p s p' s'" and "rw_regs_ok p"
  shows "rw_regs_ok p'"
  using assms
proof (cases rule: rw_step.cases)
  case (rdlock b p0 r)
  then show ?thesis using assms(2) by (cases p0) (auto simp: Let_def fx_cas_def split: if_splits prod.splits sum.splits)
next
  case (wrlock b p0 r)
  then show ?thesis using assms(2) by (cases p0) (auto simp: Let_def fx_cas_def split: if_splits prod.splits sum.splits)
next
  case (unlock u r b)
  then show ?thesis using assms(2)
    by (cases u) (auto simp: Let_def fx_cas_def word_gt_0 split: if_splits prod.splits sum.splits)
qed auto

text \<open>What a step does to the lock.\<close>

lemma rw_step_cases:
  assumes "rw_step rw t p s p' s'" and ok: "rw_regs_ok p"
    and held: "\<And>b. holds_as b p \<Longrightarrow> fx_load s rw \<noteq> 0"
  obtains (quiet) "\<And>b. holds_as b p' = holds_as b p" "fx_load s' rw = fx_load s rw" "\<not> notifying p"
      "blocked_on_rw t p' s' \<Longrightarrow> fx_load s rw \<noteq> 0" "g_wait_cond s' \<subseteq> insert t (g_wait_cond s)"
  | (takes) w where "\<And>b. \<not> holds_as b p" "\<And>b. holds_as b p' \<longleftrightarrow> b = w" "\<not> notifying p" "\<not> blocked_on_rw t p' s'"
      "if w then fx_load s rw = 0 \<and> fx_load s' rw = RW_WRITER
         else fx_load s rw < RW_WRITER - 1 \<and> fx_load s' rw = fx_load s rw + 1"
      "g_wait_cond s' = g_wait_cond s"
  | (gives) w where "\<And>b. holds_as b p \<longleftrightarrow> b = w" "\<And>b. \<not> holds_as b p'" "notifying p'" "\<not> blocked_on_rw t p' s'" "\<not> notifying p"
      "if fx_load s rw = RW_WRITER then fx_load s' rw = 0 else fx_load s rw \<noteq> 0 \<and> fx_load s' rw = fx_load s rw - 1"
      "g_wait_cond s' = g_wait_cond s"
  | (wakes) "\<And>b. holds_as b p' = holds_as b p" "fx_load s' rw = fx_load s rw" "g_wait_cond s' = {}"
  using assms(1)
proof (cases rule: rw_step.cases)
  case (rdlock b p0 r)
  show ?thesis
  proof (cases p0)
    case RdLoad
    show ?thesis by (rule quiet) (use rdlock RdLoad in \<open>auto simp: Let_def split: if_splits\<close>)
  next
    case (RdCas st)
    show ?thesis
    proof (cases "fx_load s rw = st")
      case True
      show ?thesis by (rule takes [of False]) (use rdlock RdCas True ok in \<open>auto simp: fx_cas_def\<close>)
    next
      case False
      show ?thesis by (rule quiet) (use rdlock RdCas False in \<open>auto simp: fx_cas_def\<close>)
    qed
  next
    case (RdWait st w)
    obtain r' where w: "m3Atomic_Wait32 t rw st False w s = (r', s')"
      and r: "r = (case r' of Inl w' \<Rightarrow> Inl (RdWait st w') | Inr _ \<Rightarrow> Inl RdLoad)"
      using rdlock(3) RdWait by (auto split: prod.splits)
    show ?thesis
    proof (rule quiet)
      show "blocked_on_rw t p' s' \<Longrightarrow> fx_load s rw \<noteq> 0"
        using rdlock ok RdWait r w wait32_parks(1) [of t rw st False w s] by (auto split: sum.splits)
      show "g_wait_cond s' \<subseteq> insert t (g_wait_cond s)" using wait32_frame(2) [OF w] by blast
    qed (use rdlock r wait32_frame(1) [OF w] in \<open>auto split: sum.splits\<close>)
  qed
next
  case (wrlock b p0 r)
  show ?thesis
  proof (cases p0)
    case WrLoad
    show ?thesis by (rule quiet) (use wrlock WrLoad in \<open>auto simp: Let_def split: if_splits\<close>)
  next
    case WrCas
    show ?thesis
    proof (cases "fx_load s rw = 0")
      case True
      show ?thesis by (rule takes [of True]) (use wrlock WrCas True in \<open>auto simp: fx_cas_def\<close>)
    next
      case False
      show ?thesis by (rule quiet) (use wrlock WrCas False in \<open>auto simp: fx_cas_def\<close>)
    qed
  next
    case (WrWait st w)
    obtain r' where w: "m3Atomic_Wait32 t rw st False w s = (r', s')"
      and r: "r = (case r' of Inl w' \<Rightarrow> Inl (WrWait st w') | Inr _ \<Rightarrow> Inl WrLoad)"
      using wrlock(3) WrWait by (auto split: prod.splits)
    show ?thesis
    proof (rule quiet)
      show "blocked_on_rw t p' s' \<Longrightarrow> fx_load s rw \<noteq> 0"
        using wrlock ok WrWait r w wait32_parks(1) [of t rw st False w s] by (auto split: sum.splits)
      show "g_wait_cond s' \<subseteq> insert t (g_wait_cond s)" using wait32_frame(2) [OF w] by blast
    qed (use wrlock r wait32_frame(1) [OF w] in \<open>auto split: sum.splits\<close>)
  qed
next
  case (unlock u r b)
  show ?thesis
  proof (cases u)
    case RuLoad
    have "fx_load s rw \<noteq> 0" using held [of b] unlock RuLoad by simp
    then show ?thesis by (intro quiet) (use unlock RuLoad in \<open>auto simp: Let_def word_gt_0 split: if_splits\<close>)
  next
    case (RuCas st n)
    show ?thesis
    proof (cases "fx_load s rw = st")
      case True
      show ?thesis by (rule gives [of b]) (use unlock RuCas True ok in \<open>auto simp: fx_cas_def\<close>)
    next
      case False
      show ?thesis by (rule quiet) (use unlock RuCas False in \<open>auto simp: fx_cas_def\<close>)
    qed
  next
    case RuNotify
    show ?thesis by (rule wakes) (use unlock RuNotify in \<open>auto simp: m3Atomic_Notify_def\<close>)
  qed
qed (rule quiet; auto simp: elsewhere_def)+

section \<open>The invariant\<close>

text \<open>
  Either one writer and nobody else holds the lock and the word says so, or only readers hold it and the word is
  their number; and nobody sleeps on a free lock without a wake-up on its way.
\<close>

definition holders :: "bool \<Rightarrow> (nat \<Rightarrow> rw_pc) \<Rightarrow> nat set" where
  "holders b ps = {t. holds_as b (ps t)}"

definition rw_inv :: "nat \<Rightarrow> futex_state \<times> (nat \<Rightarrow> rw_pc) \<Rightarrow> bool" where
  "rw_inv rw c \<longleftrightarrow> (case c of (s, ps) \<Rightarrow>
     (if fx_load s rw = RW_WRITER then (\<exists>t. holders True ps = {t}) \<and> holders False ps = {}
      else holders True ps = {} \<and> finite (holders False ps) \<and> card (holders False ps) = unat (fx_load s rw)) \<and>
     (\<forall>t. rw_regs_ok (ps t)) \<and>
     ((\<exists>t. blocked_on_rw t (ps t) s) \<longrightarrow> fx_load s rw \<noteq> 0 \<or> (\<exists>u. notifying (ps u))))"

lemma rw_invI:
  assumes "if fx_load s rw = RW_WRITER then (\<exists>t. holders True ps = {t}) \<and> holders False ps = {}
      else holders True ps = {} \<and> finite (holders False ps) \<and> card (holders False ps) = unat (fx_load s rw)"
    and "\<And>t. rw_regs_ok (ps t)"
    and "\<And>t. blocked_on_rw t (ps t) s \<Longrightarrow> fx_load s rw \<noteq> 0 \<or> (\<exists>u. notifying (ps u))"
  shows "rw_inv rw (s, ps)"
  unfolding rw_inv_def prod.case using assms by blast

lemma holders_upd:
  "holders b (ps(t := p)) = (if holds_as b p then insert t (holders b ps) else holders b ps - {t})"
  by (auto simp: holders_def)

lemma holders_same: "holds_as b p = holds_as b (ps t) \<Longrightarrow> holders b (ps(t := p)) = holders b ps"
  by (auto simp: holders_def)

lemma rw_blocked_mono:
  "blocked_on_rw u p s' \<Longrightarrow> g_wait_cond s' \<subseteq> insert t (g_wait_cond s) \<Longrightarrow> u \<noteq> t \<Longrightarrow> blocked_on_rw u p s"
  by (cases "(u, p, s)" rule: blocked_on_rw.cases) (auto simp: asleep_iff)

lemma rw_holder_nonzero:
  assumes "rw_inv rw (s, ps)" and "holds_as b (ps t)"
  shows "fx_load s rw \<noteq> 0"
  using assms by (cases b) (auto simp: rw_inv_def holders_def split: if_splits)

lemma unat_minus_one_u32: "(x :: u32) \<noteq> 0 \<Longrightarrow> unat (x - 1) = unat x - 1"
  by (simp add: unat_minus_one)

lemma unat_plus_one_u32: "(x :: u32) < 0xFFFFFFFE \<Longrightarrow> unat (x + 1) = unat x + 1 \<and> x + 1 \<noteq> RW_WRITER"
  by (simp add: unat_add_u32 word_less_nat_alt word_unat_eq_iff)

lemma rw_inv_step:
  assumes inv: "rw_inv rw (s, ps)" and step: "rw_step rw t (ps t) s p' s'"
  shows "rw_inv rw (s', ps(t := p'))"
proof -
  let ?qs = "ps(t := p')"
  note I = inv [unfolded rw_inv_def prod.case]
  have ok: "rw_regs_ok (?qs u)" for u using rw_step_regs [OF step] I by simp
  have bl: "blocked_on_rw u (ps u) s" if "blocked_on_rw u (?qs u) s'" "u \<noteq> t"
      and "g_wait_cond s' \<subseteq> insert t (g_wait_cond s)" for u
    using that rw_blocked_mono [of u "ps u" s' t s] by simp
  have pend: "\<exists>v. notifying (?qs v)" if "notifying (ps u)" "\<not> notifying (ps t)" for u
    using that by (intro exI [of _ u]) auto
  have regs: "rw_regs_ok (ps t)" using I by blast
  show ?thesis
  proof (rule rw_step_cases [OF step regs])
    show "fx_load s rw \<noteq> 0" if "holds_as b (ps t)" for b by (rule rw_holder_nonzero [OF inv that])
  next
    assume quiet: "\<And>b. holds_as b p' = holds_as b (ps t)" "fx_load s' rw = fx_load s rw" "\<not> notifying (ps t)"
      "blocked_on_rw t p' s' \<Longrightarrow> fx_load s rw \<noteq> 0" "g_wait_cond s' \<subseteq> insert t (g_wait_cond s)"
    have "fx_load s rw \<noteq> 0 \<or> (\<exists>u. notifying (?qs u))" if b: "blocked_on_rw v (?qs v) s'" for v
    proof (cases "v = t")
      case False
      from bl [OF b this quiet(5)] I show ?thesis using pend quiet(3) by blast
    qed (use quiet b in simp)
    then show ?thesis
      using I ok quiet(2) holders_same [of _ p' ps t, OF quiet(1)] by (intro rw_invI) (simp_all del: fun_upd_apply)
  next
    fix w
    assume takes: "\<And>b. \<not> holds_as b (ps t)" "\<And>b. holds_as b p' \<longleftrightarrow> b = w" "\<not> notifying (ps t)" "\<not> blocked_on_rw t p' s'"
      "if w then fx_load s rw = 0 \<and> fx_load s' rw = RW_WRITER
         else fx_load s rw < RW_WRITER - 1 \<and> fx_load s' rw = fx_load s rw + 1"
      "g_wait_cond s' = g_wait_cond s"
    have t: "t \<notin> holders b ps" for b using takes(1) by (simp add: holders_def)
    have nz: "fx_load s' rw \<noteq> 0"
      using takes(5) unat_plus_one_u32 [of "fx_load s rw"] by (auto split: if_splits)
    show ?thesis
    proof (cases w)
      case True
      then have "holders False ps = {}" using I takes(5) by auto
      then show ?thesis using I ok takes(2,5) t nz True by (intro rw_invI) (simp_all add: holders_upd del: fun_upd_apply)
    next
      case False
      then have lt: "fx_load s rw < 0xFFFFFFFE" and ld: "fx_load s' rw = fx_load s rw + 1" using takes(5) by auto
      have "fx_load s rw \<noteq> RW_WRITER" using lt by auto
      then show ?thesis
        using I ok takes(2) t nz False ld unat_plus_one_u32 [OF lt]
        by (intro rw_invI) (simp_all add: holders_upd del: fun_upd_apply)
    qed
  next
    fix w
    assume gives: "\<And>b. holds_as b (ps t) \<longleftrightarrow> b = w" "\<And>b. \<not> holds_as b p'" "notifying p'" "\<not> blocked_on_rw t p' s'"
      "\<not> notifying (ps t)"
      "if fx_load s rw = RW_WRITER then fx_load s' rw = 0 else fx_load s rw \<noteq> 0 \<and> fx_load s' rw = fx_load s rw - 1"
      "g_wait_cond s' = g_wait_cond s"
    have n: "\<exists>u. notifying (?qs u)" using gives(3) by (intro exI [of _ t]) simp
    have tw: "t \<in> holders w ps" using gives(1) by (simp add: holders_def)
    show ?thesis
    proof (cases "fx_load s rw = RW_WRITER")
      case True
      then have none: "holders False ps = {}" using I by simp
      with tw have "t \<in> holders True ps" by (cases w) simp_all
      with True I have "holders True ps = {t}" by auto
      with none show ?thesis using True gives(2,6) ok n by (intro rw_invI) (simp_all add: holders_upd del: fun_upd_apply)
    next
      case False
      then have none: "holders True ps = {}" using I by simp
      moreover have "t \<in> holders False ps" using none tw by (cases w) simp_all
      moreover have "fx_load s rw - 1 \<noteq> RW_WRITER"
      proof
        assume "fx_load s rw - 1 = RW_WRITER"
        then have "fx_load s rw = RW_WRITER + 1" by (simp add: diff_eq_eq)
        then show False using gives(6) False by simp
      qed
      ultimately show ?thesis
        using I False gives(2,6) ok n by (intro rw_invI) (simp_all add: holders_upd unat_minus_one_u32 del: fun_upd_apply)
    qed
  next
    assume wakes: "\<And>b. holds_as b p' = holds_as b (ps t)" "fx_load s' rw = fx_load s rw" "g_wait_cond s' = {}"
    have "\<not> blocked_on_rw v p s'" for v p
      using wakes(3) by (cases "(v, p, s')" rule: blocked_on_rw.cases) (auto simp: asleep_iff)
    then show ?thesis
      using I ok wakes(2) holders_same [of _ p' ps t, OF wakes(1)] by (intro rw_invI) (simp_all del: fun_upd_apply)
  qed
qed

lemma rw_inv_reaches:
  assumes "fx_load s rw = 0" and "reaches (rw_step rw) (s, \<lambda>_. RwOut) c"
  shows "rw_inv rw c"
proof (rule reaches_invariant [OF assms(2)])
  show "rw_inv rw (s, \<lambda>_. RwOut)" using assms(1) by (simp add: rw_inv_def holders_def)
qed (rule rw_inv_step)

text \<open>
  Claim C23: however the threads interleave, a writer holds the lock alone, the word counts the readers whenever no
  writer holds it, and no wake-up is lost: a thread sleeps in one of the lock calls only while another one holds
  the lock or an unlocking thread is just about to wake everybody.
\<close>

theorem rwlock_correct:
  assumes "fx_load s rw = 0" and "reaches (rw_step rw) (s, \<lambda>_. RwOut) (s', ps)"
  shows "(\<forall>t u. writes (ps t) \<and> (writes (ps u) \<or> reads (ps u)) \<longrightarrow> t = u) \<and>
    ((\<forall>t. \<not> writes (ps t)) \<longrightarrow> card {t. reads (ps t)} = unat (fx_load s' rw)) \<and>
    (\<forall>t. blocked_on_rw t (ps t) s' \<longrightarrow> (\<exists>u b. holds_as b (ps u)) \<or> (\<exists>u. notifying (ps u)))"
proof -
  have I: "rw_inv rw (s', ps)" by (rule rw_inv_reaches [OF assms])
  have "(\<exists>u b. holds_as b (ps u))" if "fx_load s' rw \<noteq> 0"
  proof (cases "fx_load s' rw = RW_WRITER")
    case False
    then have "card (holders False ps) > 0" using I that by (simp add: rw_inv_def unat_gt_0)
    then show ?thesis by (auto simp: card_gt_0_iff holders_def)
  qed (use I in \<open>auto simp: rw_inv_def holders_def\<close>)
  moreover have "t = u" if "writes (ps t)" "writes (ps u) \<or> reads (ps u)" for t u
  proof -
    have "t \<in> holders True ps" "u \<in> holders True ps \<or> u \<in> holders False ps" using that by (auto simp: holders_def)
    then show ?thesis using I by (auto simp: rw_inv_def split: if_splits)
  qed
  moreover have "card {t. reads (ps t)} = unat (fx_load s' rw)" if "\<forall>t. \<not> writes (ps t)"
    using I that by (auto simp: rw_inv_def holders_def split: if_splits)
  ultimately show ?thesis using I unfolding rw_inv_def prod.case by blast
qed

definition demo_rw_ps :: "nat \<Rightarrow> rw_pc" where
  "demo_rw_ps = (\<lambda>_. RwOut)(0 := Reading, 1 := WrLocking False (WrWait 1 (WParked 0)))"

definition demo_rw_fx :: futex_state where
  "demo_rw_fx = (fx_store demo_fx 64 1)\<lparr>g_wait_cond := {1}\<rparr>"

lemmas rw_go = reaches_go [where R = "rw_step rw" for rw]

lemma rw_rd_goes: "rw_rdlock_impl t rw b p s = (Inl p', s') \<Longrightarrow> rw_step rw t (RdLocking b p) s (RdLocking b p') s'"
  using rw_step.rdlock [of t rw b p s "Inl p'" s'] by simp

lemma rw_rd_won: "rw_rdlock_impl t rw b p s = (Inr 0, s') \<Longrightarrow> rw_step rw t (RdLocking b p) s Reading s'"
  using rw_step.rdlock [of t rw b p s "Inr 0" s'] by simp

lemma rw_wr_goes: "rw_wrlock_impl t rw b p s = (Inl p', s') \<Longrightarrow> rw_step rw t (WrLocking b p) s (WrLocking b p') s'"
  using rw_step.wrlock [of t rw b p s "Inl p'" s'] by simp

lemma demo_rw_run: "reaches (rw_step 64) (demo_fx, \<lambda>_. RwOut) (demo_rw_fx, demo_rw_ps)"
proof -
  let ?R = "reaches (rw_step 64) (demo_fx, \<lambda>_. RwOut)"
  let ?h = "(\<lambda>_. RwOut)(0 := Reading)"
  have "?R (demo_fx, (\<lambda>_. RwOut)(0 := RdLocking False RdLoad))"
    by (rule rw_go [OF reaches_refl rw_step.call_rdlock]) simp_all
  then have "?R (demo_fx, (\<lambda>_. RwOut)(0 := RdLocking False (RdCas 0)))"
    by (rule rw_go [OF _ rw_rd_goes, where t = 0 and p1 = RdLoad and b1 = False]) (simp_all add: Let_def)
  then have "?R (fx_store demo_fx 64 1, ?h)"
    by (rule rw_go [OF _ rw_rd_won, where t = 0 and p1 = "RdCas 0" and b1 = False]) (simp_all add: fx_cas_def)
  then have "?R (fx_store demo_fx 64 1, ?h(1 := WrLocking False WrLoad))"
    by (rule rw_go [OF _ rw_step.call_wrlock]) simp_all
  then have "?R (fx_store demo_fx 64 1, ?h(1 := WrLocking False (WrWait 1 WEnter)))"
    by (rule rw_go [OF _ rw_wr_goes, where t = 1 and p1 = WrLoad and b1 = False]) (simp_all add: Let_def)
  then show ?thesis
    unfolding demo_rw_fx_def demo_rw_ps_def
    by (rule rw_go [OF _ rw_wr_goes, where t = 1 and p1 = "WrWait 1 WEnter" and b1 = False]) simp_all
qed

theorem rwlock_correct_witness:
  "blocked_on_rw 1 (demo_rw_ps 1) demo_rw_fx \<and>
   ((\<exists>u b. holds_as b (demo_rw_ps u)) \<or> (\<exists>u. notifying (demo_rw_ps u)))"
proof -
  have "blocked_on_rw 1 (demo_rw_ps 1) demo_rw_fx" by (simp add: demo_rw_ps_def demo_rw_fx_def)
  then show ?thesis using rwlock_correct [OF _ demo_rw_run] by (metis demo_fx_simps(1))
qed

text \<open>
  The comment above the code promises that a reader cannot take the lock while a writer waits.  It can: a reader looks
  at the word only, which counts holders and not waiting writers.
\<close>

lemma reader_overtakes_waiting_writer:
  assumes "fx_load s rw = 1"
  shows "rw_rdlock_impl t rw b RdLoad s = (Inl (RdCas 1), s)"
    and "rw_rdlock_impl t rw b (RdCas 1) s = (Inr 0, fx_store s rw 2)"
  using assms by (simp_all add: Let_def fx_cas_def)

end
