(* ===== verification/CondVar.thy ===== *)
theory CondVar
  imports Mutex
begin

text \<open>
  The condition variables of \<^verbatim>\<open>src/src/yos/impl/proc/pthread.c\<close>: a 32-bit sequence counter.  A waiter reads the counter,
  leaves the mutex, sleeps while the counter has the value it read, and takes the mutex again; a signal adds one to
  the counter and wakes the sleepers.  The system below has any number of threads that use one condition variable \<open>c\<close>
  with one mutex \<open>m\<close>; beside the shared memory it counts the signals given so far, and a waiter carries the count at its
  reading, so that \<open>no signal is missed\<close> can be stated.
\<close>

section \<open>Waiting\<close>

datatype cond_pc = CwLoad | CwUnlock u32 unlock_pc | CwWait u32 wait_pc | CwWoken int | CwLock int lock_pc

text \<open>
  \<^verbatim>\<open>pthread_cond_wait\<close> and, with \<open>timed\<close>, \<^verbatim>\<open>pthread_cond_timedwait\<close>; \<open>rc\<close> as for \<open>m3Atomic_Wait32\<close>.  The number 110 is the
  code's \<^verbatim>\<open>ETIMEDOUT\<close>.
\<close>

fun host_pthread_cond_wait :: "nat \<Rightarrow> nat \<Rightarrow> nat \<Rightarrow> bool \<Rightarrow> bool \<Rightarrow> cond_pc \<Rightarrow> futex_state \<Rightarrow> (cond_pc + int) \<times> futex_state" where
  "host_pthread_cond_wait t c m timed rc CwLoad s = (Inl (CwUnlock (fx_load s c) UnXchg), s)"
| "host_pthread_cond_wait t c m timed rc (CwUnlock seq u) s =
     (case mu_unlock_cell m u s of (r, s') \<Rightarrow>
        (case r of Inl u' \<Rightarrow> Inl (CwUnlock seq u') | Inr _ \<Rightarrow> Inl (CwWait seq WEnter), s'))"
| "host_pthread_cond_wait t c m timed rc (CwWait seq w) s =
     (case m3Atomic_Wait32 t c seq (timed \<and> rc) w s of (r, s') \<Rightarrow>
        (case r of Inl w' \<Rightarrow> Inl (CwWait seq w') | Inr n \<Rightarrow> Inl (CwWoken n), s'))"
| "host_pthread_cond_wait t c m timed rc (CwWoken n) s = (Inl (CwLock n LkCas), s)"
| "host_pthread_cond_wait t c m timed rc (CwLock n p) s =
     (case mu_lock_cell t m p s of (r, s') \<Rightarrow>
        (case r of Inl p' \<Rightarrow> Inl (CwLock n p') | Inr _ \<Rightarrow> Inr (if timed \<and> n = 2 then 110 else 0), s'))"

text \<open>
  The relative timeout of \<^verbatim>\<open>pthread_cond_timedwait\<close>: the guest's absolute time minus the host's \<^emph>\<open>monotonic\<close> clock, in
  nanoseconds, at least 0.
\<close>

definition cond_timeout :: "int \<Rightarrow> int \<Rightarrow> int \<Rightarrow> int" where
  "cond_timeout tv_sec tv_nsec mono_now = max 0 (tv_sec * 1000000000 + tv_nsec - mono_now)"

section \<open>Signalling\<close>

datatype sig_pc = SgAdd | SgNotify

fun cond_notify :: "nat \<Rightarrow> u32 \<Rightarrow> sig_pc \<Rightarrow> futex_state \<Rightarrow> (sig_pc + int) \<times> futex_state" where
  "cond_notify c n SgAdd s = (Inl SgNotify, snd (fx_fetch_add s c 1))"
| "cond_notify c n SgNotify s = (Inr 0, snd (m3Atomic_Notify n s))"

definition host_pthread_cond_signal :: "nat \<Rightarrow> sig_pc \<Rightarrow> futex_state \<Rightarrow> (sig_pc + int) \<times> futex_state" where
  "host_pthread_cond_signal c = cond_notify c 1"

definition host_pthread_cond_broadcast :: "nat \<Rightarrow> sig_pc \<Rightarrow> futex_state \<Rightarrow> (sig_pc + int) \<times> futex_state" where
  "host_pthread_cond_broadcast c = cond_notify c 0xFFFFFFFF"

definition host_pthread_cond_init :: "nat \<Rightarrow> futex_state \<Rightarrow> int \<times> futex_state" where
  "host_pthread_cond_init c s = (0, fx_store s c 0)"

definition host_pthread_cond_destroy :: "nat \<Rightarrow> futex_state \<Rightarrow> int \<times> futex_state" where
  "host_pthread_cond_destroy c s = (0, s)"

section \<open>The system of threads\<close>

text \<open>A thread in the mutex's own calls or in none, in a wait (with the signal count at its reading), or signalling (holding the mutex or not).\<close>

datatype cv_pc = CvM mutex_pc | CvWaiting bool nat cond_pc | CvSignal bool bool sig_pc

fun cv_waited :: "bool \<Rightarrow> nat \<Rightarrow> cond_pc + int \<Rightarrow> cv_pc" where
  "cv_waited timed k (Inl p) = CvWaiting timed k p"
| "cv_waited timed k (Inr r) = CvM Holding"

definition cv_resting :: "bool \<Rightarrow> cv_pc" where
  "cv_resting h = CvM (if h then Holding else Out)"

inductive cv_step :: "nat \<Rightarrow> nat \<Rightarrow> nat \<Rightarrow> cv_pc \<Rightarrow> futex_state \<times> nat \<Rightarrow> cv_pc \<Rightarrow> futex_state \<times> nat \<Rightarrow> bool"
  for c m t where
  mutex: "mutex_step m t p s p' s' \<Longrightarrow> fx_load s' c = fx_load s c \<Longrightarrow> cv_step c m t (CvM p) (s, k) (CvM p') (s', k)"
| call_wait: "cv_step c m t (CvM Holding) (s, k) (CvWaiting timed 0 CwLoad) (s, k)"
| wait: "host_pthread_cond_wait t c m timed rc p s = (r, s') \<Longrightarrow>
    cv_step c m t (CvWaiting timed k0 p) (s, k) (cv_waited timed (if p = CwLoad then k else k0) r) (s', k)"
| call_signal: "cv_step c m t (cv_resting h) (s, k) (CvSignal h all SgAdd) (s, k)"
| add: "(if all then host_pthread_cond_broadcast c else host_pthread_cond_signal c) SgAdd s = (r, s') \<Longrightarrow>
    cv_step c m t (CvSignal h all SgAdd) (s, k) (CvSignal h all SgNotify) (s', Suc k)"
| notify: "(if all then host_pthread_cond_broadcast c else host_pthread_cond_signal c) SgNotify s = (r, s') \<Longrightarrow>
    cv_step c m t (CvSignal h all SgNotify) (s, k) (cv_resting h) (s', k)"

text \<open>What the mutex sees of such a thread.\<close>

fun mutex_view :: "cv_pc \<Rightarrow> mutex_pc" where
  "mutex_view (CvM p) = p"
| "mutex_view (CvWaiting timed k CwLoad) = Holding"
| "mutex_view (CvWaiting timed k (CwUnlock seq u)) = Unlocking u"
| "mutex_view (CvWaiting timed k (CwLock n p)) = Locking p"
| "mutex_view (CvWaiting timed k p) = Out"
| "mutex_view (CvSignal h all p) = (if h then Holding else Out)"

lemma mutex_view_resting [simp]: "mutex_view (cv_resting h) = (if h then Holding else Out)"
  by (simp add: cv_resting_def)

lemmas cond_notify_defs = host_pthread_cond_signal_def host_pthread_cond_broadcast_def

lemma cv_mutex_sim:
  assumes "cv_step c m t p s p' s'" and disj: "c + 4 \<le> m \<or> m + 4 \<le> c"
  shows "mutex_step m t (mutex_view p) (fst s) (mutex_view p') (fst s') \<or>
    mutex_view p' = mutex_view p \<and> fst s' = fst s"
  using assms(1)
proof (cases rule: cv_step.cases)
  case (wait timed rc q a r b k0 k)
  show ?thesis
  proof (cases q)
    case CwLoad
    then show ?thesis using wait by (auto intro: mutex_step.call_unlock)
  next
    case (CwUnlock seq u)
    then obtain r' where u: "mu_unlock_cell m u a = (r', b)"
      and r: "r = (case r' of Inl u' \<Rightarrow> Inl (CwUnlock seq u') | Inr _ \<Rightarrow> Inl (CwWait seq WEnter))"
      using wait by (auto split: prod.splits)
    have "mutex_view p' = unlocked r'" using wait CwUnlock r by (cases r') auto
    then show ?thesis using wait CwUnlock mutex_step.unlock [OF u] by simp
  next
    case (CwWait seq w)
    then obtain r' where w: "m3Atomic_Wait32 t c seq (timed \<and> rc) w a = (r', b)"
      and r: "r = (case r' of Inl w' \<Rightarrow> Inl (CwWait seq w') | Inr n \<Rightarrow> Inl (CwWoken n))"
      using wait by (auto split: prod.splits)
    have "mutex_view p' = Out" using wait CwWait r by (cases r') auto
    moreover have "elsewhere m t a b" using wait32_frame(1,2) [OF w] by (auto simp: elsewhere_def)
    ultimately show ?thesis using wait CwWait by (auto intro: mutex_step.other)
  next
    case CwWoken
    then show ?thesis using wait by (auto intro: mutex_step.call_lock)
  next
    case (CwLock n l)
    then obtain r' where l: "mu_lock_cell t m l a = (r', b)"
      and r: "r = (case r' of Inl p' \<Rightarrow> Inl (CwLock n p') | Inr _ \<Rightarrow> Inr (if timed \<and> n = 2 then 110 else 0))"
      using wait by (auto split: prod.splits)
    have "mutex_view p' = locked r'" using wait CwLock r by (cases r') auto
    then show ?thesis using wait CwLock mutex_step.lock [OF l] by simp
  qed
next
  case (add all a r b h k)
  then have "elsewhere m t a b"
    using disj by (auto simp: elsewhere_def cond_notify_defs fx_fetch_add_def fx_store_other split: if_splits)
  then show ?thesis using add by (auto intro: mutex_step.other)
next
  case (notify all a r b h k)
  then have "elsewhere m t a b"
    by (auto simp: elsewhere_def cond_notify_defs m3Atomic_Notify_def split: if_splits)
  then show ?thesis using notify by (auto intro: mutex_step.other)
qed auto

section \<open>No signal is missed\<close>

text \<open>The signal count and the counter value a waiting thread has read.\<close>

fun cv_read :: "cv_pc \<Rightarrow> (nat \<times> u32) option" where
  "cv_read (CvWaiting timed k (CwUnlock seq u)) = Some (k, seq)"
| "cv_read (CvWaiting timed k (CwWait seq w)) = Some (k, seq)"
| "cv_read _ = None"

fun blocked_on_cond :: "nat \<Rightarrow> cv_pc \<Rightarrow> futex_state \<Rightarrow> bool" where
  "blocked_on_cond t (CvWaiting timed k (CwWait seq w)) s \<longleftrightarrow> asleep t w s"
| "blocked_on_cond t _ s \<longleftrightarrow> False"

fun announcing :: "cv_pc \<Rightarrow> bool" where
  "announcing (CvSignal h all SgNotify) \<longleftrightarrow> True"
| "announcing _ \<longleftrightarrow> False"

lemma resting_simps [simp]:
  "cv_read (cv_resting h) = None" "\<not> announcing (cv_resting h)" "\<not> blocked_on_cond t (cv_resting h) s"
  by (simp_all add: cv_resting_def)

lemma cv_step_cases:
  assumes "cv_step c m t p (s, k) p' (s', k')" and disj: "c + 4 \<le> m \<or> m + 4 \<le> c"
  obtains (quiet) "fx_load s' c = fx_load s c" "k' = k" "\<not> announcing p" "g_wait_cond s' \<subseteq> insert t (g_wait_cond s)"
      "cv_read p' \<in> {None, cv_read p, Some (k, fx_load s c)}"
      "\<And>k0 seq. blocked_on_cond t p' s' \<Longrightarrow> cv_read p' = Some (k0, seq) \<Longrightarrow> seq = fx_load s c"
  | (adds) "fx_load s' c = fx_load s c + 1" "k' = Suc k" "announcing p'" "cv_read p' = None" "\<not> blocked_on_cond t p' s'"
  | (wakes) "fx_load s' c = fx_load s c" "k' = k" "cv_read p' = None" "g_wait_cond s' = {}"
  using assms(1)
proof (cases rule: cv_step.cases)
  case (mutex q q')
  show ?thesis by (rule quiet) (use mutex mutex_step_queue [OF mutex(4)] in auto)
next
  case call_wait
  show ?thesis by (rule quiet) (use call_wait in auto)
next
  case (wait timed rc q r k0)
  have queue: "g_wait_cond s' \<subseteq> insert t (g_wait_cond s)"
    using cv_mutex_sim [OF assms] mutex_step_queue by fastforce
  show ?thesis
  proof (rule quiet [OF _ _ _ queue])
    show "fx_load s' c = fx_load s c"
      using wait(4) disj by (cases q) (auto dest: mu_lock_other mu_unlock_other wait32_frame(1) split: prod.splits)
    show "cv_read p' \<in> {None, cv_read p, Some (k, fx_load s c)}"
      using wait by (cases q) (auto split: prod.splits sum.splits)
    show "seq = fx_load s c" if "blocked_on_cond t p' s'" "cv_read p' = Some (k1, seq)" for k1 seq
      using wait that by (cases q) (auto dest: wait32_parks(1) split: prod.splits sum.splits)
  qed (use wait in auto)
next
  case (call_signal h all)
  show ?thesis by (rule quiet) (use call_signal in \<open>auto simp: cv_resting_def\<close>)
next
  case (add all r h)
  show ?thesis by (rule adds) (use add in \<open>auto simp: cond_notify_defs fx_fetch_add_def split: if_splits\<close>)
next
  case (notify all r h)
  show ?thesis by (rule wakes) (use notify in \<open>auto simp: cond_notify_defs m3Atomic_Notify_def split: if_splits\<close>)
qed

definition cv_inv :: "nat \<Rightarrow> nat \<Rightarrow> (futex_state \<times> nat) \<times> (nat \<Rightarrow> cv_pc) \<Rightarrow> bool" where
  "cv_inv c c0 = (\<lambda>((s, k), ps).
     fx_load s c = of_nat (c0 + k) \<and>
     (\<forall>t k0 seq. cv_read (ps t) = Some (k0, seq) \<longrightarrow> seq = of_nat (c0 + k0) \<and> k0 \<le> k) \<and>
     (\<forall>t k0 seq. blocked_on_cond t (ps t) s \<longrightarrow> cv_read (ps t) = Some (k0, seq) \<longrightarrow>
        seq = fx_load s c \<or> (\<exists>u. announcing (ps u))))"

lemma cv_blocked_mono:
  "blocked_on_cond u p s' \<Longrightarrow> g_wait_cond s' \<subseteq> insert t (g_wait_cond s) \<Longrightarrow> u \<noteq> t \<Longrightarrow> blocked_on_cond u p s"
  by (cases "(u, p, s)" rule: blocked_on_cond.cases) (auto simp: asleep_iff)

lemma cv_inv_step:
  assumes inv: "cv_inv c c0 ((s, k), ps)" and step: "cv_step c m t (ps t) (s, k) p' (s', k')"
    and disj: "c + 4 \<le> m \<or> m + 4 \<le> c"
  shows "cv_inv c c0 ((s', k'), ps(t := p'))"
proof -
  let ?qs = "ps(t := p')"
  have I1: "fx_load s c = of_nat (c0 + k)"
    and I2: "\<And>u k0 seq. cv_read (ps u) = Some (k0, seq) \<Longrightarrow> seq = of_nat (c0 + k0) \<and> k0 \<le> k"
    and I3: "\<And>u k0 seq. blocked_on_cond u (ps u) s \<Longrightarrow> cv_read (ps u) = Some (k0, seq) \<Longrightarrow>
        seq = fx_load s c \<or> (\<exists>u. announcing (ps u))"
    using inv by (auto simp: cv_inv_def)
  from step disj show ?thesis
  proof (cases rule: cv_step_cases)
    case quiet
    have pend: "\<exists>v. announcing (?qs v)" if "announcing (ps u)" for u
      using that quiet(3) by (intro exI [of _ u]) auto
    have "seq = of_nat (c0 + k0) \<and> k0 \<le> k'" if "cv_read (?qs u) = Some (k0, seq)" for u k0 seq
      using that quiet(2,5) I1 I2 [of u k0 seq] by (cases "u = t") auto
    moreover have "seq = fx_load s c \<or> (\<exists>u. announcing (?qs u))"
      if b: "blocked_on_cond u (?qs u) s'" "cv_read (?qs u) = Some (k0, seq)" for u k0 seq
    proof (cases "u = t")
      case False
      then have "blocked_on_cond u (ps u) s" using b(1) cv_blocked_mono quiet(4) by (metis fun_upd_other)
      from I3 [OF this] b(2) False show ?thesis using pend by (metis fun_upd_other)
    qed (use b quiet(6) in auto)
    ultimately show ?thesis using I1 quiet(1,2) unfolding cv_inv_def prod.case by simp
  next
    case adds
    have "announcing (?qs t)" using adds(3) by simp
    then have "\<exists>u. announcing (?qs u)" ..
    moreover have "seq = of_nat (c0 + k0) \<and> k0 \<le> k'" if "cv_read (?qs u) = Some (k0, seq)" for u k0 seq
      using that adds(2,4) I2 [of u k0 seq] by (cases "u = t") auto
    moreover have "fx_load s' c = of_nat (c0 + k')" using I1 adds(1,2) by simp
    ultimately show ?thesis unfolding cv_inv_def prod.case by blast
  next
    case wakes
    have "\<not> blocked_on_cond u p s'" for u p
      using wakes(4) by (cases "(u, p, s')" rule: blocked_on_cond.cases) (auto simp: asleep_iff)
    moreover have "seq = of_nat (c0 + k0) \<and> k0 \<le> k'" if "cv_read (?qs u) = Some (k0, seq)" for u k0 seq
      using that wakes(2,3) I2 [of u k0 seq] by (cases "u = t") auto
    ultimately show ?thesis using I1 wakes(1,2) unfolding cv_inv_def prod.case by simp
  qed
qed

lemma cv_inv_reaches:
  assumes "reaches (cv_step c m) ((s, 0), \<lambda>_. CvM Out) x" and "c + 4 \<le> m \<or> m + 4 \<le> c"
  shows "cv_inv c (unat (fx_load s c)) x"
proof (rule reaches_invariant [OF assms(1)])
  show "cv_inv c (unat (fx_load s c)) ((s, 0), \<lambda>_. CvM Out)" by (simp add: cv_inv_def)
qed (use cv_inv_step [OF _ _ assms(2)] in auto)

lemma of_nat_u32_eq: "k0 \<le> k \<Longrightarrow> (of_nat (a + k) :: u32) = of_nat (a + k0) \<Longrightarrow> 4294967296 dvd k - k0"
proof -
  assume le: "k0 \<le> k" and eq: "(of_nat (a + k) :: u32) = of_nat (a + k0)"
  have "(of_nat (k - k0) :: u32) = of_nat (a + k) - of_nat (a + k0)" using le by (simp add: of_nat_diff)
  then have "(of_nat (k - k0) :: u32) = 0" using eq by simp
  then show ?thesis by (simp add: word_of_nat_eq_0_iff)
qed

text \<open>
  Claim C18: in every interleaving of mutex calls, waits and signals, no two threads hold the mutex (a thread that has
  called wait holds it until it leaves it, and again when wait returns), and no signal is missed: a thread that is asleep
  in wait has been given no signal since it read the counter, still holding the mutex (or a multiple of \<open>2 ^ 32\<close> of them),
  unless a signalling thread is just about to wake everybody.
\<close>

theorem cond_wait_correct:
  assumes "reaches (cv_step c m) ((s, 0), \<lambda>_. CvM Out) ((s', k), ps)"
    and "fx_load s m = 0" and disj: "c + 4 \<le> m \<or> m + 4 \<le> c"
  shows "(\<forall>t u. holds_mutex (mutex_view (ps t)) \<and> holds_mutex (mutex_view (ps u)) \<longrightarrow> t = u) \<and>
    (\<forall>t timed k0 seq w. ps t = CvWaiting timed k0 (CwWait seq w) \<and> asleep t w s' \<longrightarrow>
       k0 \<le> k \<and> 4294967296 dvd k - k0 \<or> (\<exists>u. announcing (ps u)))"
proof (intro conjI allI impI)
  fix t u assume "holds_mutex (mutex_view (ps t)) \<and> holds_mutex (mutex_view (ps u))"
  then show "t = u"
    using mutex_lock.client_exclusive [where f = mutex_view and g = fst, OF assms(1), of m t u] assms(2)
      cv_mutex_sim [OF _ disj] by simp
next
  have I: "cv_inv c (unat (fx_load s c)) ((s', k), ps)" by (rule cv_inv_reaches [OF assms(1) disj])
  fix t timed k0 seq w
  assume "ps t = CvWaiting timed k0 (CwWait seq w) \<and> asleep t w s'"
  then have "blocked_on_cond t (ps t) s'" "cv_read (ps t) = Some (k0, seq)" by auto
  with I have "k0 \<le> k" "seq = of_nat (unat (fx_load s c) + k0)" "fx_load s' c = of_nat (unat (fx_load s c) + k)"
    and "seq = fx_load s' c \<or> (\<exists>u. announcing (ps u))"
    unfolding cv_inv_def prod.case by blast+
  then show "k0 \<le> k \<and> 4294967296 dvd k - k0 \<or> (\<exists>u. announcing (ps u))"
    using of_nat_u32_eq [of k0 k "unat (fx_load s c)"] by metis
qed

text \<open>
  Thread 1 waits on the condition variable at 128 with the mutex at 64 and falls asleep; thread 0 signals and has yet to wake it.
\<close>

definition demo_cv_ps :: "nat \<Rightarrow> cv_pc" where
  "demo_cv_ps = (\<lambda>_. CvM Out)(1 := CvWaiting False 0 (CwWait 0 (WParked 0)), 0 := CvSignal False False SgNotify)"

definition demo_cv_fx :: futex_state where
  "demo_cv_fx = fx_store ((fx_store (fx_store demo_fx 64 1) 64 0)\<lparr>g_wait_cond := {1}\<rparr>) 128 1"

lemmas cv_go = reaches_go [where R = "cv_step c m" for c m]

lemma cv_wait_goes:
  "host_pthread_cond_wait t c m timed rc p s = (Inl p', s') \<Longrightarrow> k1 = (if p = CwLoad then k else k0) \<Longrightarrow>
     cv_step c m t (CvWaiting timed k0 p) (s, k) (CvWaiting timed k1 p') (s', k)"
  using cv_step.wait [of t c m timed rc p s "Inl p'" s' k0 k] by simp

lemma demo_cv_run: "reaches (cv_step 128 64) ((demo_fx, 0), \<lambda>_. CvM Out) ((demo_cv_fx, Suc 0), demo_cv_ps)"
proof -
  let ?R = "reaches (cv_step 128 64) ((demo_fx, 0), \<lambda>_. CvM Out)"
  let ?s1 = "fx_store demo_fx 64 1"
  let ?s2 = "fx_store ?s1 64 0"
  have m: "mutex_step 64 1 Out demo_fx Holding ?s1"
    using mutex_step.trylock [of 64 demo_fx 0 ?s1 1] by (simp add: host_pthread_mutex_trylock_def fx_cas_def)
  have "?R ((?s1, 0), (\<lambda>_. CvM Out)(1 := CvM Holding))"
    by (rule cv_go [OF reaches_refl cv_step.mutex [OF m]]) (simp_all add: fx_store_other)
  then have "?R ((?s1, 0), (\<lambda>_. CvM Out)(1 := CvWaiting False 0 CwLoad))"
    by (rule cv_go [OF _ cv_step.call_wait [where timed = False and t = 1]]) simp_all
  then have "?R ((?s1, 0), (\<lambda>_. CvM Out)(1 := CvWaiting False 0 (CwUnlock 0 UnXchg)))"
    by (rule cv_go [OF _ cv_wait_goes, where t = 1 and p1 = CwLoad and k01 = 0]) (simp_all add: fx_store_other)
  then have "?R ((?s2, 0), (\<lambda>_. CvM Out)(1 := CvWaiting False 0 (CwWait 0 WEnter)))"
    by (rule cv_go [OF _ cv_wait_goes, where t = 1 and p1 = "CwUnlock 0 UnXchg" and k01 = 0]) (simp_all add: fx_xchg_def)
  then have "?R ((?s2\<lparr>g_wait_cond := {1}\<rparr>, 0), (\<lambda>_. CvM Out)(1 := CvWaiting False 0 (CwWait 0 (WParked 0))))"
    by (rule cv_go [OF _ cv_wait_goes, where t = 1 and p1 = "CwWait 0 WEnter" and k01 = 0]) (simp_all add: fx_store_other)
  then have "?R ((?s2\<lparr>g_wait_cond := {1}\<rparr>, 0),
      (\<lambda>_. CvM Out)(1 := CvWaiting False 0 (CwWait 0 (WParked 0)), 0 := CvSignal False False SgAdd))"
    by (rule cv_go [OF _ cv_step.call_signal [where h = False and t = 0]]) (simp_all add: cv_resting_def)
  then show ?thesis
    unfolding demo_cv_ps_def demo_cv_fx_def
    by (rule cv_go [OF _ cv_step.add [where all = False and h = False and r = "Inl SgNotify" and t = 0]])
      (simp_all add: cond_notify_defs fx_fetch_add_def fx_store_other)
qed

theorem cond_wait_correct_witness: "asleep 1 (WParked 0) demo_cv_fx \<and> (\<exists>u. announcing (demo_cv_ps u))"
proof -
  have "demo_cv_ps 1 = CvWaiting False 0 (CwWait 0 (WParked 0)) \<and> asleep 1 (WParked 0) demo_cv_fx"
    by (simp add: demo_cv_ps_def demo_cv_fx_def)
  moreover have "\<forall>t timed k0 seq w. demo_cv_ps t = CvWaiting timed k0 (CwWait seq w) \<and> asleep t w demo_cv_fx \<longrightarrow>
       k0 \<le> 1 \<and> 4294967296 dvd 1 - k0 \<or> (\<exists>u. announcing (demo_cv_ps u))"
    using cond_wait_correct [OF demo_cv_run] by simp
  ultimately have "(0::nat) \<le> 1 \<and> (4294967296::nat) dvd 1 - 0 \<or> (\<exists>u. announcing (demo_cv_ps u))" by blast
  with \<open>demo_cv_ps 1 = _ \<and> _\<close> show ?thesis by simp
qed

text \<open>
  The timeout of \<^verbatim>\<open>pthread_cond_timedwait\<close> is taken against the monotonic clock, which on the usual hosts counts from the
  start of the machine, while a C program computes its deadline from the calendar clock unless it has asked for another
  one: the call waits longer by the distance of the two clocks.
\<close>

lemma timedwait_against_calendar_clock:
  assumes "0 \<le> tv_sec" and "realtime + delay = tv_sec * 1000000000 + tv_nsec" and "0 \<le> delay" and "mono_now \<le> realtime"
  shows "cond_timeout tv_sec tv_nsec mono_now = delay + (realtime - mono_now)"
  using assms by (simp add: cond_timeout_def)

end
