(* ===== verification/Barrier.thy ===== *)
theory Barrier
  imports CondVar
begin

text \<open>
  \<^verbatim>\<open>pthread_barrier_wait\<close> of \<^verbatim>\<open>src/src/yos/impl/proc/pthread.c\<close>.  A barrier is five words of guest memory: a mutex, a
  generation, the number of threads that have arrived, the count, and a sequence number to sleep on.  The routine is a
  client of the mutex: every access but the sleep is made holding it, and exclusion is inherited from the mutex through
  a projection of the threads.  The system counts arrivals and completed rounds, and a thread carries the number of
  its own arrival.
\<close>

section \<open>The routine\<close>

datatype bar_pc =
    BrLock lock_pc
  | BrGen
  | BrArrived u32
  | BrCount u32 u32
  | BrStore u32 u32 u32
  | BrReset
  | BrBumpGen
  | BrBumpSeq
  | BrNotify
  | BrLast
  | BrUnlockLast unlock_pc
  | BrTest u32
  | BrSeq u32
  | BrUnlockWait u32 u32 unlock_pc
  | BrWait u32 u32 wait_pc
  | BrWoken u32
  | BrRelock u32 lock_pc
  | BrUnlock unlock_pc

fun host_pthread_barrier_wait :: "nat \<Rightarrow> nat \<Rightarrow> bar_pc \<Rightarrow> futex_state \<Rightarrow> (bar_pc + int) \<times> futex_state" where
  "host_pthread_barrier_wait t b (BrLock p) s =
     (case mu_lock_cell t b p s of (r, s') \<Rightarrow> (case r of Inl p' \<Rightarrow> Inl (BrLock p') | Inr _ \<Rightarrow> Inl BrGen, s'))"
| "host_pthread_barrier_wait t b BrGen s = (Inl (BrArrived (fx_load s (b + 4))), s)"
| "host_pthread_barrier_wait t b (BrArrived gen) s = (Inl (BrCount gen (fx_load s (b + 8) + 1)), s)"
| "host_pthread_barrier_wait t b (BrCount gen arrived) s = (Inl (BrStore gen arrived (fx_load s (b + 12))), s)"
| "host_pthread_barrier_wait t b (BrStore gen arrived cnt) s =
     (if arrived = cnt then Inl BrReset else Inl (BrTest gen), fx_store s (b + 8) arrived)"
| "host_pthread_barrier_wait t b BrReset s = (Inl BrBumpGen, fx_store s (b + 8) 0)"
| "host_pthread_barrier_wait t b BrBumpGen s = (Inl BrBumpSeq, snd (fx_fetch_add s (b + 4) 1))"
| "host_pthread_barrier_wait t b BrBumpSeq s = (Inl BrNotify, snd (fx_fetch_add s (b + 16) 1))"
| "host_pthread_barrier_wait t b BrNotify s = (Inl BrLast, snd (m3Atomic_Notify 0xFFFFFFFF s))"
| "host_pthread_barrier_wait t b BrLast s = (Inl (BrUnlockLast UnXchg), s)"
| "host_pthread_barrier_wait t b (BrUnlockLast u) s =
     (case mu_unlock_cell b u s of (r, s') \<Rightarrow> (case r of Inl u' \<Rightarrow> Inl (BrUnlockLast u') | Inr _ \<Rightarrow> Inr (- 1), s'))"
| "host_pthread_barrier_wait t b (BrTest gen) s =
     (if fx_load s (b + 4) = gen then Inl (BrSeq gen) else Inl (BrUnlock UnXchg), s)"
| "host_pthread_barrier_wait t b (BrSeq gen) s = (Inl (BrUnlockWait gen (fx_load s (b + 16)) UnXchg), s)"
| "host_pthread_barrier_wait t b (BrUnlockWait gen seq u) s =
     (case mu_unlock_cell b u s of (r, s') \<Rightarrow>
        (case r of Inl u' \<Rightarrow> Inl (BrUnlockWait gen seq u') | Inr _ \<Rightarrow> Inl (BrWait gen seq WEnter), s'))"
| "host_pthread_barrier_wait t b (BrWait gen seq w) s =
     (case m3Atomic_Wait32 t (b + 16) seq False w s of (r, s') \<Rightarrow>
        (case r of Inl w' \<Rightarrow> Inl (BrWait gen seq w') | Inr _ \<Rightarrow> Inl (BrWoken gen), s'))"
| "host_pthread_barrier_wait t b (BrWoken gen) s = (Inl (BrRelock gen LkCas), s)"
| "host_pthread_barrier_wait t b (BrRelock gen p) s =
     (case mu_lock_cell t b p s of (r, s') \<Rightarrow> (case r of Inl p' \<Rightarrow> Inl (BrRelock gen p') | Inr _ \<Rightarrow> Inl (BrTest gen), s'))"
| "host_pthread_barrier_wait t b (BrUnlock u) s =
     (case mu_unlock_cell b u s of (r, s') \<Rightarrow> (case r of Inl u' \<Rightarrow> Inl (BrUnlock u') | Inr _ \<Rightarrow> Inr 0, s'))"

definition host_pthread_barrier_init :: "nat \<Rightarrow> u32 \<Rightarrow> futex_state \<Rightarrow> int \<times> futex_state" where
  "host_pthread_barrier_init b cnt s =
     (if cnt = 0 then (22, s)
      else (0, fx_store (fx_store (fx_store (fx_store (fx_store s b 0) (b + 4) 0) (b + 8) 0) (b + 12) cnt) (b + 16) 0))"

definition host_pthread_barrier_destroy :: "nat \<Rightarrow> futex_state \<Rightarrow> int \<times> futex_state" where
  "host_pthread_barrier_destroy b s = (0, s)"

section \<open>The system of threads\<close>

text \<open>
  A thread outside, inside with the number of its arrival, or back from the barrier with that number and the result.
  The shared part is the memory, the number of arrivals and the number of completed rounds.
\<close>

datatype bar_thread = BrOut | BrIn nat bar_pc | BrPassed nat int

fun bar_next :: "nat \<Rightarrow> bar_pc + int \<Rightarrow> bar_thread" where
  "bar_next e (Inl p) = BrIn e p"
| "bar_next e (Inr r) = BrPassed e r"

fun arrives :: "bar_pc \<Rightarrow> bool" where
  "arrives (BrStore gen arrived cnt) \<longleftrightarrow> True"
| "arrives _ \<longleftrightarrow> False"

definition bar_words :: "nat \<Rightarrow> futex_state \<Rightarrow> u32 \<times> u32 \<times> u32 \<times> u32" where
  "bar_words b s = (fx_load s (b + 4), fx_load s (b + 8), fx_load s (b + 12), fx_load s (b + 16))"

type_synonym bar_shared = "futex_state \<times> nat \<times> nat"

inductive bar_step :: "nat \<Rightarrow> nat \<Rightarrow> bar_thread \<Rightarrow> bar_shared \<Rightarrow> bar_thread \<Rightarrow> bar_shared \<Rightarrow> bool"
  for b t where
  call: "\<forall>e p. q \<noteq> BrIn e p \<Longrightarrow> bar_step b t q (s, E, R) (BrIn 0 (BrLock LkCas)) (s, E, R)"
| run: "host_pthread_barrier_wait t b p s = (r, s') \<Longrightarrow>
    bar_step b t (BrIn e p) (s, E, R) (bar_next (if arrives p then E else e) r)
      (s', if arrives p then Suc E else E, if p = BrBumpGen then Suc R else R)"
| other: "\<forall>e p. q \<noteq> BrIn e p \<Longrightarrow> elsewhere b t s s' \<Longrightarrow> bar_words b s' = bar_words b s \<Longrightarrow>
    bar_step b t q (s, E, R) q (s', E, R)"

fun bar_view :: "bar_thread \<Rightarrow> mutex_pc" where
  "bar_view (BrIn e (BrLock p)) = Locking p"
| "bar_view (BrIn e (BrUnlockLast u)) = Unlocking u"
| "bar_view (BrIn e (BrUnlockWait gen seq u)) = Unlocking u"
| "bar_view (BrIn e (BrUnlock u)) = Unlocking u"
| "bar_view (BrIn e (BrWait gen seq w)) = Out"
| "bar_view (BrIn e (BrWoken gen)) = Out"
| "bar_view (BrIn e (BrRelock gen p)) = Locking p"
| "bar_view (BrIn e p) = Holding"
| "bar_view q = Out"

lemma elsewhere_refl [simp]: "elsewhere cell t s s"
  by (auto simp: elsewhere_def)

lemma mutex_stays: "elsewhere cell t s s' \<Longrightarrow> p = Out \<or> p = Holding \<Longrightarrow> p' = p \<Longrightarrow> mutex_step cell t p s p' s'"
  using mutex_step.other by simp

lemma elsewhere_store: "a + 4 \<le> cell \<or> cell + 4 \<le> a \<Longrightarrow> elsewhere cell t s (fx_store s a v)"
  by (auto simp: elsewhere_def fx_store_other)

lemma elsewhere_store_above [simp]: "4 \<le> k \<Longrightarrow> elsewhere cell t s (fx_store s (cell + k) v)"
  by (simp add: elsewhere_store)

lemma elsewhere_notify [simp]: "elsewhere cell t s (snd (m3Atomic_Notify n s))"
  by (auto simp: elsewhere_def m3Atomic_Notify_def)

lemma elsewhere_wait: "m3Atomic_Wait32 t a v rc w s = (r, s') \<Longrightarrow> elsewhere cell t s s'"
  using wait32_frame(1,2) [of t a v rc w s r s'] by (auto simp: elsewhere_def)

lemma bar_mutex_sim:
  assumes "bar_step b t q s q' s'"
  shows "mutex_step b t (bar_view q) (fst s) (bar_view q') (fst s')"
  using assms
proof (cases rule: bar_step.cases)
  case (call a E R)
  then have "bar_view q = Out" by (cases q) auto
  then show ?thesis using call by (simp add: mutex_step.call_lock)
next
  case (other a c E R)
  then have "bar_view q = Out" by (cases q) auto
  then show ?thesis using other by (simp add: mutex_step.other)
next
  case (run p a r c e E R)
  note eqs = run(1-4)
  show ?thesis
  proof (cases p)
    case (BrLock l)
    obtain f where l: "mu_lock_cell t b l a = (f, c)" and r: "r = (case f of Inl p' \<Rightarrow> Inl (BrLock p') | Inr _ \<Rightarrow> Inl BrGen)"
      using run(5) BrLock by (auto split: prod.splits)
    have "bar_view q' = locked f" using eqs BrLock r by (cases f) auto
    then show ?thesis using eqs BrLock mutex_step.lock [OF l] by simp
  next
    case (BrRelock g l)
    obtain f where l: "mu_lock_cell t b l a = (f, c)" and r: "r = (case f of Inl p' \<Rightarrow> Inl (BrRelock g p') | Inr _ \<Rightarrow> Inl (BrTest g))"
      using run(5) BrRelock by (auto split: prod.splits)
    have "bar_view q' = locked f" using eqs BrRelock r by (cases f) auto
    then show ?thesis using eqs BrRelock mutex_step.lock [OF l] by simp
  next
    case (BrUnlockLast u)
    obtain f where u: "mu_unlock_cell b u a = (f, c)" and r: "r = (case f of Inl u' \<Rightarrow> Inl (BrUnlockLast u') | Inr _ \<Rightarrow> Inr (- 1))"
      using run(5) BrUnlockLast by (auto split: prod.splits)
    have "bar_view q' = unlocked f" using eqs BrUnlockLast r by (cases f) auto
    then show ?thesis using eqs BrUnlockLast mutex_step.unlock [OF u] by simp
  next
    case (BrUnlockWait g n u)
    obtain f where u: "mu_unlock_cell b u a = (f, c)"
      and r: "r = (case f of Inl u' \<Rightarrow> Inl (BrUnlockWait g n u') | Inr _ \<Rightarrow> Inl (BrWait g n WEnter))"
      using run(5) BrUnlockWait by (auto split: prod.splits)
    have "bar_view q' = unlocked f" using eqs BrUnlockWait r by (cases f) auto
    then show ?thesis using eqs BrUnlockWait mutex_step.unlock [OF u] by simp
  next
    case (BrUnlock u)
    obtain f where u: "mu_unlock_cell b u a = (f, c)" and r: "r = (case f of Inl u' \<Rightarrow> Inl (BrUnlock u') | Inr _ \<Rightarrow> Inr 0)"
      using run(5) BrUnlock by (auto split: prod.splits)
    have "bar_view q' = unlocked f" using eqs BrUnlock r by (cases f) auto
    then show ?thesis using eqs BrUnlock mutex_step.unlock [OF u] by simp
  next
    case (BrWait g n w)
    obtain f where w: "m3Atomic_Wait32 t (b + 16) n False w a = (f, c)"
      and r: "r = (case f of Inl w' \<Rightarrow> Inl (BrWait g n w') | Inr _ \<Rightarrow> Inl (BrWoken g))"
      using run(5) BrWait by (auto split: prod.splits)
    have "bar_view q' = Out" using eqs BrWait r by (cases f) auto
    then show ?thesis using eqs BrWait elsewhere_wait [OF w] by (auto intro: mutex_step.other)
  qed (use run in \<open>auto simp: fx_fetch_add_def intro: mutex_stays
      intro!: mutex_step.call_unlock mutex_step.call_lock split: if_splits\<close>)
qed

lemma bar_exclusive:
  assumes "reaches (bar_step b) ((s, E, R), \<lambda>_. BrOut) (s', qs)" and "fx_load s b = 0"
    and "holds_mutex (bar_view (qs t))" and "holds_mutex (bar_view (qs u))"
  shows "t = u"
  by (rule mutex_lock.client_exclusive [where f = bar_view and g = fst and cell = b, OF assms(1)])
    (use assms bar_mutex_sim in auto)

section \<open>The words of the barrier\<close>

text \<open>
  While nobody is inside the mutex the arrivals are the rounds times the count plus the arrivals of the current round;
  the last thread of a round passes through three states in which the words are behind.
\<close>

datatype bar_phase = PNormal | PReset | PBumpGen | PBumpSeq

fun phase :: "bar_thread \<Rightarrow> bar_phase" where
  "phase (BrIn e BrReset) = PReset"
| "phase (BrIn e BrBumpGen) = PBumpGen"
| "phase (BrIn e BrBumpSeq) = PBumpSeq"
| "phase _ = PNormal"

fun bar_rel :: "nat \<Rightarrow> bar_phase \<Rightarrow> nat \<Rightarrow> nat \<Rightarrow> u32 \<times> u32 \<times> u32 \<times> u32 \<Rightarrow> bool" where
  "bar_rel n ph E R (gen, arrived, cnt, seq) \<longleftrightarrow>
     unat cnt = n \<and> gen = of_nat R \<and>
     (case ph of
        PNormal \<Rightarrow> seq = of_nat R \<and> E = n * R + unat arrived \<and> unat arrived < n
      | PReset \<Rightarrow> seq = of_nat R \<and> E = n * R + n
      | PBumpGen \<Rightarrow> seq = of_nat R \<and> E = n * R + n \<and> arrived = 0
      | PBumpSeq \<Rightarrow> (\<exists>R0. R = Suc R0 \<and> seq = of_nat R0) \<and> E = n * R \<and> arrived = 0)"

text \<open>What a thread that holds the mutex knows of the words.\<close>

fun knows :: "bar_thread \<Rightarrow> u32 \<times> u32 \<times> u32 \<times> u32 \<Rightarrow> bool" where
  "knows (BrIn e (BrArrived gen)) (g, a, c, q) \<longleftrightarrow> gen = g"
| "knows (BrIn e (BrCount gen arr)) (g, a, c, q) \<longleftrightarrow> gen = g \<and> arr = a + 1"
| "knows (BrIn e (BrStore gen arr cnt)) (g, a, c, q) \<longleftrightarrow> gen = g \<and> arr = a + 1 \<and> cnt = c"
| "knows (BrIn e (BrSeq gen)) (g, a, c, q) \<longleftrightarrow> gen = g"
| "knows _ _ \<longleftrightarrow> True"

text \<open>What a thread carries, whatever the others do: its round is complete once it is past the barrier.\<close>

definition round_complete :: "nat \<Rightarrow> nat \<Rightarrow> nat \<Rightarrow> bool" where
  "round_complete n e E \<longleftrightarrow> (e div n + 1) * n \<le> E"

fun carries :: "nat \<Rightarrow> nat \<Rightarrow> bar_thread \<Rightarrow> bool" where
  "carries n E (BrIn e BrReset) \<longleftrightarrow> Suc e = E \<and> e mod n = n - 1"
| "carries n E (BrIn e BrBumpGen) \<longleftrightarrow> round_complete n e E \<and> e mod n = n - 1"
| "carries n E (BrIn e BrBumpSeq) \<longleftrightarrow> round_complete n e E \<and> e mod n = n - 1"
| "carries n E (BrIn e BrNotify) \<longleftrightarrow> round_complete n e E \<and> e mod n = n - 1"
| "carries n E (BrIn e BrLast) \<longleftrightarrow> round_complete n e E \<and> e mod n = n - 1"
| "carries n E (BrIn e (BrUnlockLast u)) \<longleftrightarrow> round_complete n e E \<and> e mod n = n - 1"
| "carries n E (BrIn e (BrTest gen)) \<longleftrightarrow> gen = of_nat (e div n) \<and> e < E \<and> e mod n \<noteq> n - 1"
| "carries n E (BrIn e (BrSeq gen)) \<longleftrightarrow> gen = of_nat (e div n) \<and> e < E \<and> e mod n \<noteq> n - 1"
| "carries n E (BrIn e (BrUnlockWait gen seq u)) \<longleftrightarrow> gen = of_nat (e div n) \<and> seq = gen \<and> e < E \<and> e mod n \<noteq> n - 1"
| "carries n E (BrIn e (BrWait gen seq w)) \<longleftrightarrow> gen = of_nat (e div n) \<and> seq = gen \<and> e < E \<and> e mod n \<noteq> n - 1"
| "carries n E (BrIn e (BrWoken gen)) \<longleftrightarrow> gen = of_nat (e div n) \<and> e < E \<and> e mod n \<noteq> n - 1"
| "carries n E (BrIn e (BrRelock gen p)) \<longleftrightarrow> gen = of_nat (e div n) \<and> e < E \<and> e mod n \<noteq> n - 1"
| "carries n E (BrIn e (BrUnlock u)) \<longleftrightarrow> round_complete n e E \<and> e mod n \<noteq> n - 1"
| "carries n E (BrPassed e r) \<longleftrightarrow> round_complete n e E \<and> r = (if e mod n = n - 1 then - 1 else 0)"
| "carries n E _ \<longleftrightarrow> True"

lemma carries_mono: "carries n E q \<Longrightarrow> E \<le> E' \<Longrightarrow> phase q \<noteq> PReset \<Longrightarrow> carries n E' q"
  by (cases "(n, E, q)" rule: carries.cases) (auto simp: round_complete_def)

definition bar_inv :: "nat \<Rightarrow> nat \<Rightarrow> bar_shared \<times> (nat \<Rightarrow> bar_thread) \<Rightarrow> bool" where
  "bar_inv b n = (\<lambda>((s, E, R), qs).
     (\<forall>t. holds_mutex (bar_view (qs t)) \<longrightarrow> bar_rel n (phase (qs t)) E R (bar_words b s) \<and> knows (qs t) (bar_words b s)) \<and>
     ((\<forall>t. \<not> holds_mutex (bar_view (qs t))) \<longrightarrow> bar_rel n PNormal E R (bar_words b s)) \<and>
     (\<forall>t. carries n E (qs t)))"

text \<open>The steps that do not hold the mutex leave the four words alone.\<close>

lemma bar_words_lock [simp]: "mu_lock_cell t b p s = (r, s') \<Longrightarrow> bar_words b s' = bar_words b s"
  by (simp add: bar_words_def mu_lock_other)

lemma bar_words_unlock [simp]: "mu_unlock_cell b u s = (r, s') \<Longrightarrow> bar_words b s' = bar_words b s"
  by (simp add: bar_words_def mu_unlock_other)

lemma bar_words_wait [simp]: "m3Atomic_Wait32 t a v rc w s = (r, s') \<Longrightarrow> bar_words b s' = bar_words b s"
  by (simp add: bar_words_def wait32_frame(1))

lemma bar_words_notify [simp]: "bar_words b (snd (m3Atomic_Notify n s)) = bar_words b s"
  by (simp add: bar_words_def)

lemma bar_words_store [simp]:
  "bar_words b (fx_store s (b + 4) v) = (v, snd (bar_words b s))"
  "bar_words b (fx_store s (b + 8) v) = (fst (bar_words b s), v, snd (snd (bar_words b s)))"
  "bar_words b (fx_store s (b + 16) v) = (fst (bar_words b s), fst (snd (bar_words b s)), fst (snd (snd (bar_words b s))), v)"
  by (simp_all add: bar_words_def fx_store_other)

lemma Suc_arrived:
  assumes "unat (a :: u32) < unat (c :: u32)"
  shows "unat (a + 1) = Suc (unat a)"
  using assms unat_u32_lt [of c] unat_add_nowrap [of a 1] by simp

lemma holder_step:
  assumes step: "bar_step b t q (s, E, R) q' (s', E', R')" and h: "holds_mutex (bar_view q)"
    and rel: "bar_rel n (phase q) E R (bar_words b s)" and kn: "knows q (bar_words b s)"
    and ca: "carries n E q" and n: "0 < n"
  shows "bar_rel n (phase q') E' R' (bar_words b s')" and "knows q' (bar_words b s')" and "carries n E' q'" and "E \<le> E'"
proof -
  obtain g a c v where w: "bar_words b s = (g, a, c, v)" by (cases "bar_words b s")
  have ld: "fx_load s (b + 4) = g" "fx_load s (b + 8) = a" "fx_load s (b + 12) = c" "fx_load s (b + 16) = v"
    using w by (simp_all add: bar_words_def)
  have cn: "unat c = n" and g: "g = of_nat R" using rel w by auto
  obtain e p r where q: "q = BrIn e p" and run: "host_pthread_barrier_wait t b p s = (r, s')"
      and q': "q' = bar_next (if arrives p then E else e) r" and E': "E' = (if arrives p then Suc E else E)"
      and R': "R' = (if p = BrBumpGen then Suc R else R)"
    using step h by (cases rule: bar_step.cases) (auto, (cases q; auto)+)
  have "bar_rel n (phase q') E' R' (bar_words b s') \<and> knows q' (bar_words b s') \<and> carries n E' q'"
  proof (cases p)
    case (BrStore gen arr cnt)
    have k: "gen = g" "arr = a + 1" "cnt = c" "E = n * R + unat a" "unat a < n" "v = of_nat R"
      using kn rel q BrStore w by auto
    have ar: "unat arr = Suc (unat a)" using Suc_arrived [of a c] k cn by simp
    have ed: "E div n = R" "E mod n = unat a" using k by simp_all
    show ?thesis
    proof (cases "arr = cnt")
      case True
      then have "Suc (unat a) = n" using ar k cn by simp
      then have "Suc E = n * R + n" "E mod n = n - 1" using k ed by auto
      then show ?thesis using True run BrStore q q' E' R' w k(6) cn g by auto
    next
      case False
      then have "Suc (unat a) < n" using ar k cn by (metis Suc_lessI word_unat_eq_iff)
      then show ?thesis using False run BrStore q q' E' R' w k ed cn g ar by auto
    qed
  next
    case BrReset
    have k: "Suc e = E" "e mod n = n - 1" "E = n * R + n" "v = of_nat R" using rel ca q BrReset w by auto
    have "e div n = R"
    proof -
      have "e = n * R + (n - 1)" using k n by simp
      then show ?thesis using n by (metis Suc_diff_1 add.commute div_mult_self2 div_less lessI add_0 less_irrefl_nat)
    qed
    then show ?thesis using run BrReset q q' E' R' w k cn g by (auto simp: round_complete_def)
  next
    case BrBumpGen
    then show ?thesis using run rel ca q q' E' R' w cn g ld by (auto simp: fx_fetch_add_def)
  next
    case BrBumpSeq
    then show ?thesis using run rel ca q q' E' R' w cn g ld n by (auto simp: fx_fetch_add_def)
  next
    case (BrTest gen)
    have k: "gen = of_nat (e div n)" "e < E" "E = n * R + unat a" "unat a < n" using rel ca q BrTest w by auto
    have "round_complete n e E" if "g \<noteq> gen"
    proof -
      have "e < (R + 1) * n" using k(2-4) by (simp add: algebra_simps)
      then have "e div n < R + 1" by (rule less_mult_imp_div_less)
      moreover have "e div n \<noteq> R" using that g k(1) by auto
      ultimately have "e div n + 1 \<le> R" by simp
      then have "(e div n + 1) * n \<le> R * n" by (rule mult_le_mono1)
      then show ?thesis using k(3) by (simp add: round_complete_def mult.commute)
    qed
    then show ?thesis using run rel ca q q' E' R' w BrTest ld by (auto split: if_splits)
  next
    case (BrSeq gen)
    then show ?thesis using run rel kn ca q q' E' R' w ld by auto
  qed (use run rel kn ca h q q' E' R' w ld in \<open>auto split: prod.splits sum.splits\<close>)
  then show "bar_rel n (phase q') E' R' (bar_words b s')" "knows q' (bar_words b s')" "carries n E' q'" by auto
  show "E \<le> E'" using E' by simp
qed

lemma outsider_step:
  assumes step: "bar_step b t q (s, E, R) q' (s', E', R')" and h: "\<not> holds_mutex (bar_view q)" and ca: "carries n E q"
  shows "bar_words b s' = bar_words b s" and "E' = E" and "R' = R" and "phase q' = PNormal"
    and "knows q' (bar_words b s)" and "carries n E q'"
proof -
  obtain g a c v where w: "bar_words b s = (g, a, c, v)" by (cases "bar_words b s")
  have "bar_words b s' = bar_words b s \<and> E' = E \<and> R' = R \<and> phase q' = PNormal \<and> knows q' (bar_words b s) \<and> carries n E q'"
    using step
  proof (cases rule: bar_step.cases)
    case call
    then show ?thesis by auto
  next
    case (run p r e)
    then show ?thesis using h ca by (cases p) (auto split: prod.splits sum.splits)
  next
    case other
    then show ?thesis using ca w by (cases q) auto
  qed
  then show "bar_words b s' = bar_words b s" "E' = E" "R' = R" "phase q' = PNormal"
    "knows q' (bar_words b s)" "carries n E q'" by auto
qed

lemma phase_holds: "\<not> holds_mutex (bar_view q) \<Longrightarrow> phase q = PNormal"
  by (cases q rule: phase.cases) auto

lemma bar_inv_step:
  assumes inv: "bar_inv b n ((s, E, R), qs)" and step: "bar_step b t (qs t) (s, E, R) q' (s', E', R')" and n: "0 < n"
    and before: "\<And>u v. holds_mutex (bar_view (qs u)) \<Longrightarrow> holds_mutex (bar_view (qs v)) \<Longrightarrow> u = v"
    and after: "\<And>u v. holds_mutex (bar_view ((qs(t := q')) u)) \<Longrightarrow> holds_mutex (bar_view ((qs(t := q')) v)) \<Longrightarrow> u = v"
  shows "bar_inv b n ((s', E', R'), qs(t := q'))"
proof -
  have I1: "\<And>u. holds_mutex (bar_view (qs u)) \<Longrightarrow> bar_rel n (phase (qs u)) E R (bar_words b s) \<and> knows (qs u) (bar_words b s)"
    and I2: "(\<And>u. \<not> holds_mutex (bar_view (qs u))) \<Longrightarrow> bar_rel n PNormal E R (bar_words b s)"
    and I3: "\<And>u. carries n E (qs u)"
    using inv by (auto simp: bar_inv_def)
  show ?thesis
  proof (cases "holds_mutex (bar_view (qs t))")
    case True
    note A = holder_step [OF step True conjunct1 [OF I1 [OF True]] conjunct2 [OF I1 [OF True]] I3 n]
    have out: "\<not> holds_mutex (bar_view (qs u))" if "u \<noteq> t" for u using before [OF True, of u] that by blast
    have "carries n E' (qs u)" if "u \<noteq> t" for u
      using carries_mono [OF I3 A(4)] phase_holds [OF out [OF that]] by simp
    moreover have "bar_rel n PNormal E' R' (bar_words b s')" if "\<not> holds_mutex (bar_view q')"
      using A(1) phase_holds [OF that] by simp
    ultimately show ?thesis using A(1-3) out by (auto simp: bar_inv_def)
  next
    case False
    note B = outsider_step [OF step False I3]
    have "bar_rel n PNormal E R (bar_words b s)" if h: "holds_mutex (bar_view q')"
    proof (rule I2)
      show "\<not> holds_mutex (bar_view (qs u))" for u using after [of u t] h False by (cases "u = t") auto
    qed
    moreover have "bar_rel n PNormal E R (bar_words b s)" if "\<forall>u. \<not> holds_mutex (bar_view ((qs(t := q')) u))"
    proof (rule I2)
      show "\<not> holds_mutex (bar_view (qs u))" for u using that [rule_format, of u] False by (cases "u = t") auto
    qed
    ultimately show ?thesis using B I1 I3 unfolding bar_inv_def prod.case by (auto simp del: bar_rel.simps)
  qed
qed

section \<open>Sleeping\<close>

fun blocked_in_barrier :: "nat \<Rightarrow> bar_thread \<Rightarrow> futex_state \<Rightarrow> bool" where
  "blocked_in_barrier t (BrIn e (BrWait gen seq w)) s \<longleftrightarrow> asleep t w s"
| "blocked_in_barrier t _ s \<longleftrightarrow> False"

fun sleeps_on :: "bar_thread \<Rightarrow> u32" where
  "sleeps_on (BrIn e (BrWait gen seq w)) = seq"
| "sleeps_on _ = 0"

definition about_to_notify :: "bar_thread \<Rightarrow> bool" where
  "about_to_notify q \<longleftrightarrow> (\<exists>e. q = BrIn e BrNotify)"

definition bar_sleep :: "nat \<Rightarrow> bar_shared \<times> (nat \<Rightarrow> bar_thread) \<Rightarrow> bool" where
  "bar_sleep b = (\<lambda>((s, E, R), qs). \<forall>t. blocked_in_barrier t (qs t) s \<longrightarrow>
     sleeps_on (qs t) = fx_load s (b + 16) \<or> (\<exists>u. about_to_notify (qs u)))"

lemma barrier_blocked_mono:
  "blocked_in_barrier u q s' \<Longrightarrow> g_wait_cond s' \<subseteq> insert t (g_wait_cond s) \<Longrightarrow> u \<noteq> t \<Longrightarrow> blocked_in_barrier u q s"
  by (cases "(u, q, s)" rule: blocked_in_barrier.cases) (auto simp: asleep_iff)

text \<open>A step keeps the sequence number, or announces the wake-up, or wakes; and a thread falls asleep on the current number only.\<close>

lemma bar_step_sleep:
  assumes "bar_step b t q (s, E, R) q' (s', E', R')"
  shows "g_wait_cond s' = {} \<or> about_to_notify q' \<or> \<not> about_to_notify q \<and> fx_load s' (b + 16) = fx_load s (b + 16)"
    and "blocked_in_barrier t q' s' \<Longrightarrow> sleeps_on q' = fx_load s' (b + 16)"
proof -
  let ?v = "\<lambda>x. snd (snd (snd (bar_words b x)))"
  have "g_wait_cond s' = {} \<or> about_to_notify q' \<or> \<not> about_to_notify q \<and> ?v s' = ?v s"
    using assms
  proof (cases rule: bar_step.cases)
    case (run p r e)
    show ?thesis
    proof (cases p)
      case BrNotify
      then show ?thesis using run by (auto simp: m3Atomic_Notify_def)
    next
      case BrBumpSeq
      then show ?thesis using run by (auto simp: about_to_notify_def)
    qed (use run in \<open>auto simp: about_to_notify_def fx_fetch_add_def split: prod.splits sum.splits if_splits\<close>)
  qed (auto simp: about_to_notify_def)
  then show "g_wait_cond s' = {} \<or> about_to_notify q' \<or> \<not> about_to_notify q \<and> fx_load s' (b + 16) = fx_load s (b + 16)"
    by (simp add: bar_words_def)
  show "blocked_in_barrier t q' s' \<Longrightarrow> sleeps_on q' = fx_load s' (b + 16)"
    using assms
  proof (cases rule: bar_step.cases)
    case (run p r e)
    assume bl: "blocked_in_barrier t q' s'"
    show ?thesis
    proof (cases p)
      case (BrWait g v w)
      then obtain f where f: "m3Atomic_Wait32 t (b + 16) v False w s = (f, s')"
          and r: "r = (case f of Inl w' \<Rightarrow> Inl (BrWait g v w') | Inr _ \<Rightarrow> Inl (BrWoken g))"
        using run by (auto split: prod.splits)
      show ?thesis
      proof (cases f)
        case (Inl w')
        then show ?thesis using wait32_parks(1) [of t "b + 16" v False w s w' s'] f wait32_frame(1) [OF f] r run BrWait by auto
      qed (use r run BrWait bl in auto)
    qed (use run bl in \<open>auto split: prod.splits sum.splits if_splits\<close>)
  qed (auto, (cases q; auto)+)
qed

lemma bar_sleep_step:
  assumes inv: "bar_sleep b ((s, E, R), qs)" and step: "bar_step b t (qs t) (s, E, R) q' (s', E', R')"
  shows "bar_sleep b ((s', E', R'), qs(t := q'))"
  unfolding bar_sleep_def prod.case
proof (intro allI impI)
  fix u assume b: "blocked_in_barrier u ((qs(t := q')) u) s'"
  have queue: "g_wait_cond s' \<subseteq> insert t (g_wait_cond s)"
    using mutex_step_queue [OF bar_mutex_sim [OF step]] by simp
  have ne: "g_wait_cond s' \<noteq> {}"
    using b by (cases "(u, (qs(t := q')) u, s')" rule: blocked_in_barrier.cases) (auto simp: asleep_iff)
  show "sleeps_on ((qs(t := q')) u) = fx_load s' (b + 16) \<or> (\<exists>v. about_to_notify ((qs(t := q')) v))"
  proof (cases "u = t")
    case True
    then show ?thesis using bar_step_sleep(2) [OF step] b by simp
  next
    case False
    consider "about_to_notify q'" | "\<not> about_to_notify (qs t)" "fx_load s' (b + 16) = fx_load s (b + 16)"
      using bar_step_sleep(1) [OF step] ne by blast
    then show ?thesis
    proof cases
      case 1
      then show ?thesis by (metis fun_upd_same)
    next
      case 2
      have "blocked_in_barrier u (qs u) s" using b False barrier_blocked_mono [OF _ queue] by simp
      then have "sleeps_on (qs u) = fx_load s (b + 16) \<or> (\<exists>v. about_to_notify (qs v))" using inv by (auto simp: bar_sleep_def)
      then show ?thesis using 2 False by (metis fun_upd_other)
    qed
  qed
qed

section \<open>The barrier\<close>

lemma barrier_init_words:
  assumes "host_pthread_barrier_init b cnt s0 = (0, s)"
  shows "cnt \<noteq> 0" and "fx_load s b = 0" and "bar_words b s = (0, 0, cnt, 0)"
  using assms by (auto simp: host_pthread_barrier_init_def bar_words_def fx_store_other split: if_splits)

lemma barrier_inv_reaches:
  assumes init: "host_pthread_barrier_init b cnt s0 = (0, s)"
    and run: "reaches (bar_step b) ((s, 0, 0), \<lambda>_. BrOut) c"
  shows "bar_inv b (unat cnt) c" and "bar_sleep b c"
proof -
  let ?c0 = "((s, 0, 0), \<lambda>_. BrOut)"
  have n: "0 < unat cnt" using barrier_init_words(1) [OF init] by (simp add: unat_gt_0)
  have ex: "holds_mutex (bar_view (qs u)) \<Longrightarrow> holds_mutex (bar_view (qs v)) \<Longrightarrow> u = v"
    if "reaches (bar_step b) ?c0 (s', qs)" for s' qs u v
    using bar_exclusive [OF that barrier_init_words(2) [OF init]] by blast
  have "bar_inv b (unat cnt) c \<and> bar_sleep b c \<and> reaches (bar_step b) ?c0 c"
  proof (rule reaches_invariant [OF run])
    show "bar_inv b (unat cnt) ?c0 \<and> bar_sleep b ?c0 \<and> reaches (bar_step b) ?c0 ?c0"
      using barrier_init_words(3) [OF init] n by (simp add: bar_inv_def bar_sleep_def)
    fix t x qs q' y
    assume I: "bar_inv b (unat cnt) (x, qs) \<and> bar_sleep b (x, qs) \<and> reaches (bar_step b) ?c0 (x, qs)"
      and step: "bar_step b t (qs t) x q' y"
    obtain a E R a' E' R' where x: "x = (a, E, R)" "y = (a', E', R')" by (cases x; cases y)
    have r: "reaches (bar_step b) ?c0 (y, qs(t := q'))" by (rule reaches_step) (use I step in auto)
    have "bar_inv b (unat cnt) (y, qs(t := q'))"
      using bar_inv_step [OF _ _ n] I step ex [OF r] ex [of x qs] unfolding x by blast
    then show "bar_inv b (unat cnt) (y, qs(t := q')) \<and> bar_sleep b (y, qs(t := q')) \<and> reaches (bar_step b) ?c0 (y, qs(t := q'))"
      using r I bar_sleep_step step unfolding x by blast
  qed
  then show "bar_inv b (unat cnt) c" "bar_sleep b c" by auto
qed

text \<open>The words once the bumps of a finished round are done, or who still has to make them.\<close>

lemma bar_rel_words:
  "bar_rel n ph E R (bar_words b s) \<Longrightarrow> E \<le> n * R + n \<and> (fx_load s (b + 16) = of_nat R \<or> ph = PBumpSeq)"
  by (cases ph) (auto simp: bar_words_def)

lemma bar_inv_words:
  assumes "bar_inv b n ((s, E, R), qs)"
  shows "E \<le> n * R + n" and "fx_load s (b + 16) = of_nat R \<or> (\<exists>t e. qs t = BrIn e BrBumpSeq)"
proof -
  consider t where "bar_rel n (phase (qs t)) E R (bar_words b s)" | "bar_rel n PNormal E R (bar_words b s)"
    using assms unfolding bar_inv_def prod.case by blast
  then have "E \<le> n * R + n \<and> (fx_load s (b + 16) = of_nat R \<or> (\<exists>t. phase (qs t) = PBumpSeq))"
    by cases (use bar_rel_words in blast)+
  moreover have "\<exists>e. q = BrIn e BrBumpSeq" if "phase q = PBumpSeq" for q
    using that by (cases q rule: phase.cases) auto
  ultimately show "E \<le> n * R + n" "fx_load s (b + 16) = of_nat R \<or> (\<exists>t e. qs t = BrIn e BrBumpSeq)" by blast+
qed

text \<open>
  Claim C19: for threads that use a barrier initialized for \<open>n\<close> threads, any number of times and in any interleaving:
  a thread that comes back had the arrival number \<open>e\<close>, all \<open>n\<close> threads of its round \<open>e div n\<close> have arrived by then, and the result is
  \<^verbatim>\<open>PTHREAD_BARRIER_SERIAL_THREAD\<close> for exactly the last arrival of each round and 0 for the others; and no wake-up is lost:
  a thread asleep in the barrier belongs to a round that is not complete (or complete since a multiple of \<open>2 ^ 32\<close>
  rounds), unless the last thread of a round is just about to wake everybody.
\<close>

theorem barrier_correct:
  assumes "host_pthread_barrier_init b cnt s0 = (0, s)" and "n = unat cnt"
    and "reaches (bar_step b) ((s, 0, 0), \<lambda>_. BrOut) ((s', E, R), qs)"
  shows "(\<forall>t e r. qs t = BrPassed e r \<longrightarrow> (e div n + 1) * n \<le> E \<and> r = (if e mod n = n - 1 then - 1 else 0)) \<and>
    (\<forall>t e gen seq w. qs t = BrIn e (BrWait gen seq w) \<and> asleep t w s' \<longrightarrow>
       e div n \<le> R \<and> 4294967296 dvd R - e div n \<or> (\<exists>u f. qs u = BrIn f BrBumpSeq \<or> qs u = BrIn f BrNotify))"
proof (intro conjI allI impI)
  have I: "bar_inv b n ((s', E, R), qs)" and S: "bar_sleep b ((s', E, R), qs)"
    using barrier_inv_reaches [OF assms(1,3)] assms(2) by simp_all
  have ca: "carries n E (qs t)" for t using I unfolding bar_inv_def prod.case by blast
  show "(e div n + 1) * n \<le> E" "r = (if e mod n = n - 1 then - 1 else 0)" if "qs t = BrPassed e r" for t e r
    using ca [of t] that by (simp_all add: round_complete_def)
  fix t e gen seq w
  assume w: "qs t = BrIn e (BrWait gen seq w) \<and> asleep t w s'"
  have c: "seq = of_nat (e div n)" "e < E" using ca [of t] w by auto
  have "e < (R + 1) * n" using c(2) bar_inv_words(1) [OF I] by (simp add: algebra_simps)
  then have "e div n < R + 1" by (rule less_mult_imp_div_less)
  then have le: "e div n \<le> R" by simp
  have "seq = fx_load s' (b + 16) \<or> (\<exists>u f. qs u = BrIn f BrNotify)"
  proof -
    have "blocked_in_barrier t (qs t) s'" using w by simp
    then have "sleeps_on (qs t) = fx_load s' (b + 16) \<or> (\<exists>u. about_to_notify (qs u))"
      using S unfolding bar_sleep_def prod.case by blast
    then show ?thesis using w by (auto simp: about_to_notify_def)
  qed
  then show "e div n \<le> R \<and> 4294967296 dvd R - e div n \<or> (\<exists>u f. qs u = BrIn f BrBumpSeq \<or> qs u = BrIn f BrNotify)"
    using bar_inv_words(2) [OF I] of_nat_u32_eq [OF le, of 0] c(1) le by (metis add_0)
qed

text \<open>One thread alone at a barrier for one thread at 64.\<close>

fun bar_solo :: "nat \<Rightarrow> nat \<Rightarrow> nat \<Rightarrow> bar_thread \<times> bar_shared \<Rightarrow> bar_thread \<times> bar_shared" where
  "bar_solo t b (Suc k) (BrIn e p, s, E, R) =
     (case host_pthread_barrier_wait t b p s of (r, s') \<Rightarrow>
        bar_solo t b k (bar_next (if arrives p then E else e) r,
          s', if arrives p then Suc E else E, if p = BrBumpGen then Suc R else R))"
| "bar_solo t b k x = x"

lemma bar_solo_reaches:
  "bar_solo t b k (q, x) = (q', y) \<Longrightarrow> qs t = q \<Longrightarrow> reaches (bar_step b) (x, qs) (y, qs(t := q'))"
proof (induction t b k "(q, x)" arbitrary: q x qs rule: bar_solo.induct)
  case (1 t b k e p s E R)
  obtain r s' where h: "host_pthread_barrier_wait t b p s = (r, s')" by (cases "host_pthread_barrier_wait t b p s")
  let ?q = "bar_next (if arrives p then E else e) r"
  let ?x = "(s', if arrives p then Suc E else E, if p = BrBumpGen then Suc R else R)"
  have "reaches (bar_step b) (?x, qs(t := ?q)) (y, qs(t := ?q, t := q'))"
    by (rule "1.hyps" [OF h [symmetric]]) (use "1.prems" h in auto)
  moreover have "bar_step b t (qs t) (s, E, R) ?q ?x" using bar_step.run [OF h] "1.prems"(2) by simp
  ultimately show ?case using reaches_first [of "bar_step b" t qs "(s, E, R)" ?q ?x] by simp
qed (auto simp: fun_upd_idem)

definition demo_bar_fx :: futex_state where
  "demo_bar_fx = snd (host_pthread_barrier_init 64 1 demo_fx)"

lemma demo_bar_init: "host_pthread_barrier_init 64 1 demo_fx = (0, demo_bar_fx)"
  by (simp add: demo_bar_fx_def host_pthread_barrier_init_def)

lemma demo_bar_loads:
  "fx_load demo_bar_fx 64 = 0" "fx_load demo_bar_fx 68 = 0" "fx_load demo_bar_fx 72 = 0" "fx_load demo_bar_fx 76 = 1"
  "fx_load demo_bar_fx 80 = 0"
  by (simp_all add: demo_bar_fx_def host_pthread_barrier_init_def fx_store_other)

lemma demo_bar_run: "\<exists>s'. bar_solo 0 64 12 (BrIn 0 (BrLock LkCas), demo_bar_fx, 0, 0) = (BrPassed 0 (- 1), s', 1, 1)"
proof -
  have 12: "(12::nat) = (Suc (Suc (Suc (Suc (Suc (Suc (Suc (Suc (Suc (Suc (Suc (Suc 0))))))))))))" by simp
  show ?thesis
    unfolding 12 by (simp add: fx_cas_def fx_xchg_def fx_fetch_add_def fx_store_other demo_bar_loads)
qed

theorem barrier_correct_witness:
  "\<exists>s'. reaches (bar_step 64) ((demo_bar_fx, 0, 0), \<lambda>_. BrOut) ((s', 1, 1), (\<lambda>_. BrOut)(0 := BrPassed 0 (- 1))) \<and>
     (0 div 1 + 1) * 1 \<le> (1::nat) \<and> - 1 = (if 0 mod 1 = 1 - (1::nat) then - 1 else 0 :: int)"
proof -
  obtain s' where s': "bar_solo 0 64 12 (BrIn 0 (BrLock LkCas), demo_bar_fx, 0, 0) = (BrPassed 0 (- 1), s', 1, 1)"
    using demo_bar_run by blast
  let ?qs = "(\<lambda>_. BrOut)(0 := BrPassed 0 (- 1))"
  have "reaches (bar_step 64) ((demo_bar_fx, 0, 0), (\<lambda>_. BrOut)(0 := BrIn 0 (BrLock LkCas))) ((s', 1, 1), ?qs)"
    using bar_solo_reaches [OF s', of "(\<lambda>_. BrOut)(0 := BrIn 0 (BrLock LkCas))"] by simp
  then have r: "reaches (bar_step 64) ((demo_bar_fx, 0, 0), \<lambda>_. BrOut) ((s', 1, 1), ?qs)"
    by (rule reaches_first [rotated]) (rule bar_step.call, simp)
  moreover have "?qs 0 = BrPassed 0 (- 1)" by simp
  ultimately show ?thesis using barrier_correct [OF demo_bar_init _ r, of 1] by (metis unat_1)
qed

text \<open>
  A FreeBSD \<^verbatim>\<open>pthread_barrier_t\<close> is a pointer, 4 bytes of guest memory; initializing a barrier writes the 16 bytes behind it.
\<close>

lemma barrier_init_overwrites_neighbours:
  assumes "host_pthread_barrier_init b cnt s0 = (0, s)"
  shows "fx_load s (b + 4) = 0" and "fx_load s (b + 12) = cnt"
  using assms by (auto simp: host_pthread_barrier_init_def fx_store_other split: if_splits)

end
