(* ===== verification/Once.thy ===== *)
theory Once
  imports Mutex
begin

text \<open>
  \<^verbatim>\<open>pthread_once\<close> of \<^verbatim>\<open>src/src/yos/impl/proc/pthread.c\<close>: one word, 0 before the initialization, 1 while a thread runs it and
  2 from then on.  The initialization is guest code; whether looking it up, compiling it and calling it ends in an
  error is the argument \<open>r\<close> of the step that runs it.  The system counts how often the initialization was started and
  has ended.
\<close>

datatype once_pc = OcCas | OcRun | OcStore bool | OcNotify bool | OcTest | OcWait wait_pc

fun host_pthread_once :: "nat \<Rightarrow> nat \<Rightarrow> bool \<Rightarrow> once_pc \<Rightarrow> futex_state \<Rightarrow> (once_pc + int) \<times> futex_state" where
  "host_pthread_once t ostate r OcCas s =
     (case fx_cas s ostate 0 1 of ((won, _), s') \<Rightarrow> (if won then Inl OcRun else Inl OcTest, s'))"
| "host_pthread_once t ostate r OcRun s = (Inl (OcStore r), s)"
| "host_pthread_once t ostate r (OcStore err) s = (Inl (OcNotify err), fx_store s ostate 2)"
| "host_pthread_once t ostate r (OcNotify err) s = (Inr (if err then - 1 else 0), snd (m3Atomic_Notify 0xFFFFFFFF s))"
| "host_pthread_once t ostate r OcTest s = (if fx_load s ostate \<noteq> 2 then Inl (OcWait WEnter) else Inr 0, s)"
| "host_pthread_once t ostate r (OcWait w) s =
     (case m3Atomic_Wait32 t ostate 1 False w s of (x, s') \<Rightarrow> (case x of Inl w' \<Rightarrow> Inl (OcWait w') | Inr _ \<Rightarrow> Inl OcTest, s'))"

datatype once_thread = OnOut | OnIn once_pc | OnReturned int

fun once_next :: "once_pc + int \<Rightarrow> once_thread" where
  "once_next (Inl p) = OnIn p"
| "once_next (Inr r) = OnReturned r"

text \<open>The memory, the number of initializations started and the number ended.\<close>

type_synonym once_shared = "futex_state \<times> nat \<times> nat"

inductive once_step :: "nat \<Rightarrow> nat \<Rightarrow> once_thread \<Rightarrow> once_shared \<Rightarrow> once_thread \<Rightarrow> once_shared \<Rightarrow> bool"
  for ostate t where
  call: "\<forall>p. q \<noteq> OnIn p \<Longrightarrow> once_step ostate t q x (OnIn OcCas) x"
| run: "host_pthread_once t ostate r p s = (y, s') \<Longrightarrow>
    once_step ostate t (OnIn p) (s, a, b) (once_next y)
      (s', if y = Inl OcRun then Suc a else a, if p = OcRun then Suc b else b)"
| other: "(\<forall>p. q \<noteq> OnIn p) \<or> q = OnIn OcRun \<Longrightarrow> elsewhere ostate t s s' \<Longrightarrow> once_step ostate t q (s, a, b) q (s', a, b)"

fun blocked_in_once :: "nat \<Rightarrow> once_thread \<Rightarrow> futex_state \<Rightarrow> bool" where
  "blocked_in_once t (OnIn (OcWait w)) s \<longleftrightarrow> asleep t w s"
| "blocked_in_once t _ s \<longleftrightarrow> False"

text \<open>The thread that runs the initialization, until it has recorded its end, and the one that is about to wake the others.\<close>

fun initializing :: "once_thread \<Rightarrow> bool" where
  "initializing (OnIn OcRun) \<longleftrightarrow> True"
| "initializing (OnIn (OcStore e)) \<longleftrightarrow> True"
| "initializing _ \<longleftrightarrow> False"

fun finishing :: "once_thread \<Rightarrow> bool" where
  "finishing (OnIn (OcNotify e)) \<longleftrightarrow> True"
| "finishing _ \<longleftrightarrow> False"

text \<open>Which words a thread can be seen with.\<close>

fun once_ok :: "once_thread \<Rightarrow> u32 \<Rightarrow> nat \<Rightarrow> bool" where
  "once_ok (OnIn OcRun) v b \<longleftrightarrow> v = 1 \<and> b = 0"
| "once_ok (OnIn (OcStore e)) v b \<longleftrightarrow> v = 1 \<and> b = 1"
| "once_ok (OnIn (OcNotify e)) v b \<longleftrightarrow> v = 2"
| "once_ok (OnIn OcCas) v b \<longleftrightarrow> True"
| "once_ok (OnIn p) v b \<longleftrightarrow> v \<noteq> 0"
| "once_ok OnOut v b \<longleftrightarrow> True"
| "once_ok (OnReturned r) v b \<longleftrightarrow> v = 2"

definition once_inv :: "nat \<Rightarrow> once_shared \<times> (nat \<Rightarrow> once_thread) \<Rightarrow> bool" where
  "once_inv ostate = (\<lambda>((s, a, b), qs).
     fx_load s ostate \<in> {0, 1, 2} \<and> a = (if fx_load s ostate = 0 then 0 else 1) \<and>
     (fx_load s ostate = 0 \<longrightarrow> b = 0) \<and> (fx_load s ostate = 2 \<longrightarrow> b = 1) \<and>
     (fx_load s ostate = 1 \<longrightarrow> (\<exists>t. initializing (qs t))) \<and>
     (\<forall>t u. initializing (qs t) \<longrightarrow> initializing (qs u) \<longrightarrow> t = u) \<and>
     (\<forall>t. once_ok (qs t) (fx_load s ostate) b) \<and>
     (\<forall>t. blocked_in_once t (qs t) s \<longrightarrow> fx_load s ostate = 1 \<or> (\<exists>u. finishing (qs u))))"

lemma once_invI:
  assumes "fx_load s ostate \<in> {0, 1, 2}" and "a = (if fx_load s ostate = 0 then 0 else 1)"
    and "fx_load s ostate = 0 \<Longrightarrow> b = 0" and "fx_load s ostate = 2 \<Longrightarrow> b = 1"
    and "fx_load s ostate = 1 \<Longrightarrow> \<exists>t. initializing (qs t)"
    and "\<And>t u. initializing (qs t) \<Longrightarrow> initializing (qs u) \<Longrightarrow> t = u"
    and "\<And>t. once_ok (qs t) (fx_load s ostate) b"
    and "\<And>t. blocked_in_once t (qs t) s \<Longrightarrow> fx_load s ostate = 1 \<or> (\<exists>u. finishing (qs u))"
  shows "once_inv ostate ((s, a, b), qs)"
  unfolding once_inv_def prod.case using assms by blast

lemma once_blocked_mono:
  "blocked_in_once u q s' \<Longrightarrow> g_wait_cond s' \<subseteq> insert t (g_wait_cond s) \<Longrightarrow> u \<noteq> t \<Longrightarrow> blocked_in_once u q s"
  by (cases "(u, q, s)" rule: blocked_in_once.cases) (auto simp: asleep_iff)

text \<open>What a step does to the word.\<close>

lemma once_step_cases:
  assumes "once_step ostate t q (s, a, b) q' (s', a', b')" and ok: "once_ok q (fx_load s ostate) b"
  obtains (quiet) "fx_load s' ostate = fx_load s ostate" "a' = a" "b' = b" "initializing q' = initializing q" "\<not> finishing q"
      "g_wait_cond s' \<subseteq> insert t (g_wait_cond s)" "fx_load s ostate \<in> {0, 1, 2} \<Longrightarrow> once_ok q' (fx_load s ostate) b"
      "blocked_in_once t q' s' \<Longrightarrow> fx_load s ostate = 1"
  | (starts) "fx_load s ostate = 0" "fx_load s' ostate = 1" "a' = Suc a" "b' = b" "q' = OnIn OcRun" "\<not> initializing q"
      "g_wait_cond s' = g_wait_cond s"
  | (runs) err where "q = OnIn OcRun" "q' = OnIn (OcStore err)" "s' = s" "a' = a" "b' = Suc b"
  | (records) err where "q = OnIn (OcStore err)" "q' = OnIn (OcNotify err)" "fx_load s' ostate = 2" "a' = a" "b' = b"
      "g_wait_cond s' = g_wait_cond s"
  | (wakes) err where "q = OnIn (OcNotify err)" "q' = OnReturned (if err then - 1 else 0)"
      "fx_load s' ostate = fx_load s ostate" "a' = a" "b' = b" "g_wait_cond s' = {}"
  using assms(1)
proof (cases rule: once_step.cases)
  case call
  then show ?thesis by (intro quiet) (cases q; auto)+
next
  case other
  then show ?thesis using ok by (intro quiet) (cases q; auto simp: elsewhere_def)+
next
  case (run r p y)
  show ?thesis
  proof (cases p)
    case OcCas
    show ?thesis by (cases "fx_load s ostate = 0"; rule starts quiet) (use run OcCas in \<open>auto simp: fx_cas_def split: if_splits\<close>)
  next
    case OcRun
    show ?thesis by (rule runs) (use run OcRun in auto)
  next
    case (OcStore e)
    show ?thesis by (rule records) (use run OcStore in auto)
  next
    case (OcNotify e)
    show ?thesis by (rule wakes) (use run OcNotify in \<open>auto simp: m3Atomic_Notify_def\<close>)
  next
    case OcTest
    show ?thesis by (rule quiet) (use run OcTest ok in \<open>auto split: if_splits\<close>)
  next
    case (OcWait w)
    obtain x where w: "m3Atomic_Wait32 t ostate 1 False w s = (x, s')"
        and y: "y = (case x of Inl w' \<Rightarrow> Inl (OcWait w') | Inr _ \<Rightarrow> Inl OcTest)"
      using run OcWait by (auto split: prod.splits)
    show ?thesis
    proof (rule quiet)
      show "blocked_in_once t q' s' \<Longrightarrow> fx_load s ostate = 1"
        using run y w wait32_parks(1) [of t ostate 1 False w s] by (auto split: sum.splits)
      show "g_wait_cond s' \<subseteq> insert t (g_wait_cond s)" using wait32_frame(2) [OF w] by blast
    qed (use run OcWait ok y wait32_frame(1) [OF w] in \<open>auto split: sum.splits\<close>)
  qed
qed

lemma once_ok_initializing: "initializing q \<Longrightarrow> once_ok q v b \<Longrightarrow> v = 1"
  by (cases q rule: initializing.cases) auto

lemma once_ok_others:
  "once_ok q v b \<Longrightarrow> \<not> initializing q \<Longrightarrow> v' \<noteq> 0 \<Longrightarrow> v = 2 \<longrightarrow> v' = 2 \<Longrightarrow> once_ok q v' b'"
  by (cases "(q, v, b)" rule: once_ok.cases) auto

lemma once_inv_step:
  assumes inv: "once_inv ostate ((s, a, b), qs)" and step: "once_step ostate t (qs t) (s, a, b) q' (s', a', b')"
  shows "once_inv ostate ((s', a', b'), qs(t := q'))"
proof -
  let ?qs = "qs(t := q')"
  have I: "fx_load s ostate \<in> {0, 1, 2}" "a = (if fx_load s ostate = 0 then 0 else 1)"
      "fx_load s ostate = 0 \<Longrightarrow> b = 0" "fx_load s ostate = 2 \<Longrightarrow> b = 1"
      "fx_load s ostate = 1 \<Longrightarrow> \<exists>t. initializing (qs t)"
    and uniq: "\<And>t u. initializing (qs t) \<Longrightarrow> initializing (qs u) \<Longrightarrow> t = u"
    and ok: "\<And>t. once_ok (qs t) (fx_load s ostate) b"
    and sl: "\<And>t. blocked_in_once t (qs t) s \<Longrightarrow> fx_load s ostate = 1 \<or> (\<exists>u. finishing (qs u))"
    using inv unfolding once_inv_def prod.case by blast+
  from step ok [of t] show ?thesis
  proof (cases rule: once_step_cases)
    case quiet
    have ini: "initializing (?qs u) = initializing (qs u)" for u using quiet(4) by simp
    have fin: "\<exists>v. finishing (?qs v)" if "finishing (qs u)" for u using that quiet(5) by (intro exI [of _ u]) auto
    show ?thesis
    proof (rule once_invI)
      show "once_ok (?qs u) (fx_load s' ostate) b'" for u using ok quiet(1,3,7) I(1) by simp
      show "fx_load s' ostate = 1 \<or> (\<exists>v. finishing (?qs v))" if bl: "blocked_in_once u (?qs u) s'" for u
      proof (cases "u = t")
        case False
        then have "blocked_in_once u (qs u) s" using bl once_blocked_mono [OF _ quiet(6)] by simp
        then show ?thesis using sl fin quiet(1) by metis
      qed (use quiet(1,8) bl in simp)
    qed (use I uniq ini quiet(1-3) in \<open>simp_all del: fun_upd_apply\<close>)
  next
    case starts
    have no: "\<not> initializing (qs u)" for u using once_ok_initializing [OF _ ok [of u]] starts(1) by auto
    have ini: "initializing (?qs u) \<longleftrightarrow> u = t" for u using no starts(5) by simp
    have "\<not> finishing (qs u)" for u using ok [of u] starts(1) by (cases "qs u" rule: finishing.cases) auto
    then have bl: "\<not> blocked_in_once u (qs u) s" for u using sl [of u] starts(1) by auto
    show ?thesis
    proof (rule once_invI)
      show "once_ok (?qs u) (fx_load s' ostate) b'" for u
        using once_ok_others [OF ok [of u] no, of 1 b] starts I(3) by simp
    qed (use I ini bl starts in \<open>simp_all del: fun_upd_apply\<close>)
  next
    case (runs err)
    have one: "fx_load s ostate = 1" "b = 0" using ok [of t] runs(1) by simp_all
    have ini: "initializing (?qs u) = initializing (qs u)" for u using runs(1,2) by simp
    have other: "u \<noteq> t \<Longrightarrow> \<not> initializing (qs u)" for u using uniq [of u t] runs(1) by auto
    show ?thesis
    proof (rule once_invI)
      show "once_ok (?qs u) (fx_load s' ostate) b'" for u
        using once_ok_others [OF ok [of u] other, of 1 b'] runs one by simp
    qed (use I(5) uniq ini one runs(3-5) I(2) in \<open>simp_all del: fun_upd_apply\<close>)
  next
    case (records err)
    have one: "fx_load s ostate = 1" "b = 1" using ok [of t] records(1) by simp_all
    have other: "u \<noteq> t \<Longrightarrow> \<not> initializing (qs u)" for u using uniq [of u t] records(1) by auto
    have no: "\<not> initializing (?qs u)" for u using other records(2) by simp
    have fin: "\<exists>v. finishing (?qs v)" using records(2) by (intro exI [of _ t]) simp
    show ?thesis
    proof (rule once_invI)
      show "once_ok (?qs u) (fx_load s' ostate) b'" for u
        using once_ok_others [OF ok [of u] other, of 2 b'] records one by simp
    qed (use no fin one records(3-5) I(2) in \<open>simp_all del: fun_upd_apply\<close>)
  next
    case (wakes err)
    have two: "fx_load s ostate = 2" using ok [of t] wakes(1) by simp
    have ini: "initializing (?qs u) = initializing (qs u)" for u using wakes(1,2) by simp
    have bl: "\<not> blocked_in_once u q s'" for u q
      using wakes(6) by (cases "(u, q, s')" rule: blocked_in_once.cases) (auto simp: asleep_iff)
    show ?thesis
    proof (rule once_invI)
      show "once_ok (?qs u) (fx_load s' ostate) b'" for u using ok [of u] wakes two by simp
    qed (use uniq ini two bl wakes(3-5) I in \<open>simp_all del: fun_upd_apply\<close>)
  qed
qed

text \<open>
  Claim C20: in every interleaving of calls of \<^verbatim>\<open>pthread_once\<close> on one word the initialization is started at most once, no call
  returns before it has ended, and no wake-up is lost: a thread sleeps in the call only while another one runs the
  initialization or is about to wake the sleepers.
\<close>

theorem once_correct:
  assumes "fx_load s ostate = 0" and "reaches (once_step ostate) ((s, 0, 0), \<lambda>_. OnOut) ((s', started, ended), qs)"
  shows "started \<le> 1 \<and> (\<forall>t r. qs t = OnReturned r \<longrightarrow> ended = 1) \<and>
    (\<forall>t. blocked_in_once t (qs t) s' \<longrightarrow> (\<exists>u. initializing (qs u) \<or> finishing (qs u)))"
proof -
  have I: "once_inv ostate ((s', started, ended), qs)"
  proof (rule reaches_invariant [OF assms(2)])
    show "once_inv ostate ((s, 0, 0), \<lambda>_. OnOut)" using assms(1) by (auto intro!: once_invI)
    show "once_inv ostate (x, qs) \<Longrightarrow> once_step ostate t (qs t) x q' y \<Longrightarrow> once_inv ostate (y, qs(t := q'))" for t x qs q' y
      using once_inv_step by (cases x; cases y) auto
  qed
  have "ended = 1" if "qs t = OnReturned r" for t r
  proof -
    have "once_ok (qs t) (fx_load s' ostate) ended" using I unfolding once_inv_def prod.case by blast
    then show ?thesis using that I by (simp add: once_inv_def)
  qed
  then show ?thesis using I unfolding once_inv_def prod.case by (metis le_refl zero_le_one)
qed

text \<open>Thread 0 runs the initialization, thread 1 finds it running and sleeps.\<close>

definition demo_once_qs :: "nat \<Rightarrow> once_thread" where
  "demo_once_qs = (\<lambda>_. OnOut)(0 := OnIn OcRun, 1 := OnIn (OcWait (WParked 0)))"

definition demo_once_fx :: futex_state where
  "demo_once_fx = (fx_store demo_fx 64 1)\<lparr>g_wait_cond := {1}\<rparr>"

lemmas once_go = reaches_go [where R = "once_step ostate" for ostate]

lemma once_goes:
  "host_pthread_once t ostate r p s = (Inl p', s') \<Longrightarrow> a' = (if p' = OcRun then Suc a else a) \<Longrightarrow> p \<noteq> OcRun \<Longrightarrow>
     once_step ostate t (OnIn p) (s, a, b) (OnIn p') (s', a', b)"
  using once_step.run [of t ostate r p s "Inl p'" s' a b] by simp

lemma demo_once_run:
  "reaches (once_step 64) ((demo_fx, 0, 0), \<lambda>_. OnOut) ((demo_once_fx, Suc 0, 0), demo_once_qs)"
proof -
  let ?R = "reaches (once_step 64) ((demo_fx, 0, 0), \<lambda>_. OnOut)"
  let ?s = "fx_store demo_fx 64 1"
  have "?R ((demo_fx, 0, 0), (\<lambda>_. OnOut)(0 := OnIn OcCas))"
    by (rule once_go [OF reaches_refl once_step.call [where t = 0]]) simp_all
  then have "?R ((?s, Suc 0, 0), (\<lambda>_. OnOut)(0 := OnIn OcRun))"
    by (rule once_go [OF _ once_goes, where t = 0 and p1 = OcCas]) (simp_all add: fx_cas_def)
  then have "?R ((?s, Suc 0, 0), (\<lambda>_. OnOut)(0 := OnIn OcRun, 1 := OnIn OcCas))"
    by (rule once_go [OF _ once_step.call [where t = 1]]) simp_all
  then have "?R ((?s, Suc 0, 0), (\<lambda>_. OnOut)(0 := OnIn OcRun, 1 := OnIn OcTest))"
    by (rule once_go [OF _ once_goes, where t = 1 and p1 = OcCas]) (simp_all add: fx_cas_def)
  then have "?R ((?s, Suc 0, 0), (\<lambda>_. OnOut)(0 := OnIn OcRun, 1 := OnIn (OcWait WEnter)))"
    by (rule once_go [OF _ once_goes, where t = 1 and p1 = OcTest]) simp_all
  then show ?thesis
    unfolding demo_once_fx_def demo_once_qs_def
    by (rule once_go [OF _ once_goes, where t = 1 and p1 = "OcWait WEnter"]) simp_all
qed

theorem once_correct_witness:
  "blocked_in_once 1 (demo_once_qs 1) demo_once_fx \<and> (\<exists>u. initializing (demo_once_qs u) \<or> finishing (demo_once_qs u))"
proof -
  have "blocked_in_once 1 (demo_once_qs 1) demo_once_fx" by (simp add: demo_once_qs_def demo_once_fx_def)
  then show ?thesis using once_correct [OF _ demo_once_run] by (metis demo_fx_simps(1))
qed

text \<open>An initialization that traps counts as done: the later callers return 0.\<close>

lemma trapped_initialization_counts:
  "host_pthread_once t ostate r (OcStore True) s = (Inl (OcNotify True), fx_store s ostate 2)"
  "fx_load s' ostate = 2 \<Longrightarrow> host_pthread_once u ostate r OcTest s' = (Inr 0, s')"
  by simp_all

end
