(* ===== verification/Threads.thy ===== *)
theory Threads
  imports HeapClient Numerals
begin

text \<open>
  The thread table of \<^verbatim>\<open>src/src/yos/impl/proc/pthread.c\<close>: starting a guest thread on a host thread, joining it, its identity,
  and thread-specific data.  Slot 0 is the thread that runs the program; the others hold the threads it starts.  The
  interpreter's part in running a thread (a sibling runtime, linking, the call of the start function) and the host's
  \<^verbatim>\<open>pthread_create\<close> are parameters.  Pointers of the guest arrive as \<^verbatim>\<open>_mem + offset\<close> and are never null.
\<close>

abbreviation WASM3MT_MAX_THREADS :: nat where "WASM3MT_MAX_THREADS \<equiv> 128"
abbreviation WASM3MT_MAX_TLS_KEYS :: nat where "WASM3MT_MAX_TLS_KEYS \<equiv> 64"
abbreviation YOS_L1_THREAD_STACK :: u32 where "YOS_L1_THREAD_STACK \<equiv> 0x40000"

section \<open>State\<close>

record host_thread =
  ht_tid :: nat
  ht_os_started :: bool
  ht_joined :: bool
  ht_is_master :: bool
  ht_fn_idx :: u32
  ht_arg :: u32
  ht_retval :: u32
  ht_trap :: "string option"
  ht_tls_arena :: u32
  ht_ctid_addr :: u32
  ht_memory_base :: bool
  ht_child_stack :: u32
  ht_owned_stack_base :: u32
  ht_tls :: "u32 list"

definition ht_calloc :: host_thread where
  "ht_calloc = \<lparr>ht_tid = 0, ht_os_started = False, ht_joined = False, ht_is_master = False, ht_fn_idx = 0, ht_arg = 0,
     ht_retval = 0, ht_trap = None, ht_tls_arena = 0, ht_ctid_addr = 0, ht_memory_base = False, ht_child_stack = 0,
     ht_owned_stack_base = 0, ht_tls = replicate WASM3MT_MAX_TLS_KEYS 0\<rparr>"

record yos_pthread_host =
  threads :: "host_thread option list"
  tls_pool_base :: u32
  tls_arena_size :: u32
  next_key :: u32

section \<open>Slots\<close>

definition host_alloc_tid :: "yos_pthread_host \<Rightarrow> host_thread \<Rightarrow> nat option \<times> yos_pthread_host" where
  "host_alloc_tid h ht =
     (case find_index (\<lambda>x. x = None) (drop 1 (threads h)) of
        None \<Rightarrow> (None, h)
      | Some k \<Rightarrow>
          let i = Suc k;
              arena = (if tls_arena_size h \<noteq> 0 then tls_pool_base h + of_nat i * tls_arena_size h else 0)
          in (Some i, h\<lparr>threads := (threads h)[i := Some (ht\<lparr>ht_tid := i, ht_tls_arena := arena\<rparr>)]\<rparr>))"

definition host_lookup_thread :: "yos_pthread_host \<Rightarrow> nat \<Rightarrow> host_thread option" where
  "host_lookup_thread h tid = (if tid \<ge> WASM3MT_MAX_THREADS then None else threads h ! tid)"

definition host_free_thread_slot :: "yos_pthread_host \<Rightarrow> nat \<Rightarrow> yos_pthread_host" where
  "host_free_thread_slot h tid =
     (if tid = 0 then h
      else if tid < WASM3MT_MAX_THREADS then h\<lparr>threads := (threads h)[tid := None]\<rparr> else h)"

definition upd_thread :: "yos_pthread_host \<Rightarrow> nat \<Rightarrow> (host_thread \<Rightarrow> host_thread) \<Rightarrow> yos_pthread_host" where
  "upd_thread h tid f = h\<lparr>threads := (threads h)[tid := map_option f (threads h ! tid)]\<rparr>"

definition threads_wf :: "yos_pthread_host \<Rightarrow> bool" where
  "threads_wf h \<longleftrightarrow> length (threads h) = WASM3MT_MAX_THREADS \<and>
     (\<exists>m. threads h ! 0 = Some m \<and> ht_is_master m) \<and>
     (\<forall>i<WASM3MT_MAX_THREADS. \<forall>ht. threads h ! i = Some ht \<longrightarrow> ht_tid ht = i \<and> length (ht_tls ht) = WASM3MT_MAX_TLS_KEYS)"

section \<open>Running a thread\<close>

text \<open>
  \<^verbatim>\<open>worker_main\<close>.  \<open>new_rt\<close>: a sibling runtime could be made; \<open>setup_err\<close>: the first error of parsing, loading, linking and
  compiling; \<open>table0\<close>: the module's function table; \<open>has_sp\<close>: it has a mutable 32-bit global to serve as the stack pointer;
  \<open>call\<close>: calling a function with a stack pointer (\<open>None\<close>: the initial one) and an argument, which ends in a trap or with
  the value read back, if there is one, and leaves the memory changed.
\<close>

definition worker_main ::
  "bool \<Rightarrow> string option \<Rightarrow> 'f option list \<Rightarrow> bool \<Rightarrow> ('f \<Rightarrow> u32 option \<Rightarrow> u32 \<Rightarrow> mem \<Rightarrow> (string + u32 option) \<times> mem) \<Rightarrow>
     host_thread \<Rightarrow> mem \<Rightarrow> host_thread \<times> mem" where
  "worker_main new_rt setup_err table0 has_sp call ht m =
     (let err = (\<lambda>e. ht\<lparr>ht_trap := Some (take 127 e)\<rparr>) in
      if \<not> new_rt then (err ''NewSiblingRuntime failed'', m)
      else case setup_err of Some e \<Rightarrow> (err (''setup: '' @ e), m)
      | None \<Rightarrow>
          let bad = (err (''clone: fn_idx '' @ show_nat (unat (ht_fn_idx ht)) @ '' out of table (size '' @
                          show_nat (length table0) @ '')''), m) in
          if ht_fn_idx ht = 0 \<or> unat (ht_fn_idx ht) \<ge> length table0 then bad
          else case table0 ! unat (ht_fn_idx ht) of None \<Rightarrow> bad
          | Some entry \<Rightarrow>
              (case call entry (if ht_child_stack ht \<noteq> 0 \<and> has_sp then Some (ht_child_stack ht) else None) (ht_arg ht) m of
                 (Inl e, m') \<Rightarrow> (ht\<lparr>ht_trap := Some e\<rparr>, m')
               | (Inr ret, m') \<Rightarrow>
                   (case ret of None \<Rightarrow> ht | Some v \<Rightarrow> ht\<lparr>ht_retval := v\<rparr>,
                    if ht_ctid_addr ht \<noteq> 0 \<and> ht_memory_base ht then store32 m' (unat (ht_ctid_addr ht)) 0 else m')))"

section \<open>Starting and joining\<close>

text \<open>\<open>have_ht\<close>: the host had memory for the record; \<open>created\<close>: \<^verbatim>\<open>pthread_create\<close> succeeded.  The result is an error number of the host or the thread number.\<close>

definition yos_clone_thread ::
  "bool \<Rightarrow> bool \<Rightarrow> yos_pthread_host \<Rightarrow> u32 \<Rightarrow> u32 \<Rightarrow> u32 \<Rightarrow> u32 \<Rightarrow> u32 \<Rightarrow> bool \<Rightarrow> (int + nat) \<times> yos_pthread_host" where
  "yos_clone_thread have_ht created h fn_idx arg ctid_addr tls child_stack memory_base =
     (if \<not> have_ht then (Inl (- 12), h)
      else
        let ht = ht_calloc\<lparr>ht_fn_idx := fn_idx, ht_arg := arg, ht_ctid_addr := ctid_addr, ht_memory_base := memory_base,
                   ht_child_stack := child_stack\<rparr>
        in case host_alloc_tid h ht of
             (None, h1) \<Rightarrow> (Inl (- 11), h1)
           | (Some tid, h1) \<Rightarrow>
               let h2 = upd_thread h1 tid (\<lambda>x. if tls \<noteq> 0 then x\<lparr>ht_tls_arena := tls\<rparr> else x)
               in if \<not> created then (Inl (- 11), host_free_thread_slot h2 tid)
                  else (Inr tid, upd_thread h2 tid (\<lambda>x. x\<lparr>ht_os_started := True\<rparr>)))"

text \<open>\<open>None\<close>: the walk of the heap's free list in \<^verbatim>\<open>yos_free\<close> does not end.\<close>

definition host_pthread_create ::
  "bool \<Rightarrow> bool \<Rightarrow> yos_exec_ctx \<Rightarrow> yos_pthread_host \<Rightarrow> u32 \<Rightarrow> u32 \<Rightarrow> u32 \<Rightarrow> (int \<times> yos_exec_ctx \<times> yos_pthread_host) option" where
  "host_pthread_create have_ht created ctx h t_ptr fn_idx arg =
     (case yos_malloc ctx YOS_L1_THREAD_STACK of (stack_base, c1) \<Rightarrow>
        let stack_top = (if stack_base \<noteq> 0 then (stack_base + YOS_L1_THREAD_STACK) AND NOT 15 else 0) in
        case yos_clone_thread have_ht created h fn_idx arg 0 0 stack_top False of
          (Inl _, h1) \<Rightarrow>
            if stack_base \<noteq> 0 then map_option (\<lambda>c2. (- 1, c2, h1)) (yos_free c1 stack_base) else Some (- 1, c1, h1)
        | (Inr tid, h1) \<Rightarrow>
            Some (0, c1\<lparr>memory := store32 (memory c1) (unat t_ptr) (of_nat tid)\<rparr>,
              if stack_base \<noteq> 0 then upd_thread h1 tid (\<lambda>x. x\<lparr>ht_owned_stack_base := stack_base\<rparr>) else h1))"

text \<open>\<open>ended\<close>: what the thread's worker made of its record when the host's \<^verbatim>\<open>pthread_join\<close> returns.  The last component is a line for the standard error.\<close>

definition host_pthread_join ::
  "(host_thread \<Rightarrow> host_thread) \<Rightarrow> yos_exec_ctx \<Rightarrow> yos_pthread_host \<Rightarrow> nat \<Rightarrow> u32 \<Rightarrow>
     (int \<times> yos_exec_ctx \<times> yos_pthread_host \<times> string option) option" where
  "host_pthread_join ended ctx h tid retval_ptr =
     (case host_lookup_thread h tid of
        None \<Rightarrow> Some (- 1, ctx, h, None)
      | Some ht0 \<Rightarrow>
          if ht_joined ht0 \<or> \<not> ht_os_started ht0 \<or> ht_is_master ht0 then Some (- 1, ctx, h, None)
          else
            let ht = ended ht0;
                c1 = ctx\<lparr>memory := store32 (memory ctx) (unat retval_ptr) (ht_retval ht)\<rparr>;
                line = map_option (\<lambda>e. ''wasm3mt: thread '' @ show_nat tid @ '' trap: '' @ e) (ht_trap ht)
            in case (if ht_owned_stack_base ht \<noteq> 0 then yos_free c1 (ht_owned_stack_base ht) else Some c1) of
                 None \<Rightarrow> None
               | Some c2 \<Rightarrow> Some (0, c2, host_free_thread_slot h tid, line))"

section \<open>Identity and thread-specific data\<close>

text \<open>The calling thread: the record the host thread carries, or the master for a host thread that carries none.\<close>

definition current_ht :: "yos_pthread_host \<Rightarrow> nat option \<Rightarrow> nat" where
  "current_ht h cur = (case cur of Some tid \<Rightarrow> tid | None \<Rightarrow> 0)"

definition host_pthread_self :: "yos_pthread_host \<Rightarrow> nat option \<Rightarrow> nat" where
  "host_pthread_self h cur = (case threads h ! current_ht h cur of Some ht \<Rightarrow> ht_tid ht | None \<Rightarrow> 0)"

definition host_pthread_get_tp :: "yos_pthread_host \<Rightarrow> nat option \<Rightarrow> u32" where
  "host_pthread_get_tp h cur = (case threads h ! current_ht h cur of Some ht \<Rightarrow> ht_tls_arena ht | None \<Rightarrow> 0)"

definition host_pthread_key_create :: "mem \<Rightarrow> yos_pthread_host \<Rightarrow> u32 \<Rightarrow> int \<times> mem \<times> yos_pthread_host" where
  "host_pthread_key_create m h key_ptr =
     (let k = next_key h; h1 = h\<lparr>next_key := k + 1\<rparr>
      in if unat k \<ge> WASM3MT_MAX_TLS_KEYS then (- 1, m, h1) else (0, store32 m (unat key_ptr) k, h1))"

definition host_pthread_key_delete :: "yos_pthread_host \<Rightarrow> u32 \<Rightarrow> int \<times> yos_pthread_host" where
  "host_pthread_key_delete h key = (0, h)"

definition host_pthread_setspecific :: "yos_pthread_host \<Rightarrow> nat option \<Rightarrow> u32 \<Rightarrow> u32 \<Rightarrow> int \<times> yos_pthread_host" where
  "host_pthread_setspecific h cur key v =
     (if unat key \<ge> WASM3MT_MAX_TLS_KEYS then (- 1, h)
      else case threads h ! current_ht h cur of
             None \<Rightarrow> (- 1, h)
           | Some ht \<Rightarrow> (0, upd_thread h (current_ht h cur) (\<lambda>x. x\<lparr>ht_tls := (ht_tls x)[unat key := v]\<rparr>)))"

definition host_pthread_getspecific :: "yos_pthread_host \<Rightarrow> nat option \<Rightarrow> u32 \<Rightarrow> u32" where
  "host_pthread_getspecific h cur key =
     (if unat key \<ge> WASM3MT_MAX_TLS_KEYS then 0
      else case threads h ! current_ht h cur of None \<Rightarrow> 0 | Some ht \<Rightarrow> ht_tls ht ! unat key)"

section \<open>The table's life\<close>

definition yos_pthread_host_create :: "u32 \<Rightarrow> u32 \<Rightarrow> yos_pthread_host" where
  "yos_pthread_host_create pool_base arena_size =
     \<lparr>threads = Some (ht_calloc\<lparr>ht_is_master := True, ht_tls_arena := (if arena_size \<noteq> 0 then pool_base else 0)\<rparr>) #
        replicate (WASM3MT_MAX_THREADS - 1) None,
      tls_pool_base = pool_base, tls_arena_size = arena_size, next_key = 0\<rparr>"

definition yos_pthread_host_get_tls_arena :: "yos_pthread_host \<Rightarrow> nat \<Rightarrow> u32" where
  "yos_pthread_host_get_tls_arena h tid =
     (if tid \<ge> WASM3MT_MAX_THREADS then 0 else case threads h ! tid of Some ht \<Rightarrow> ht_tls_arena ht | None \<Rightarrow> 0)"

end
