(* ===== verification/ThreadProps.thy ===== *)
theory ThreadProps
  imports Threads
begin

text \<open>
  The thread table: its slots are a slot table, a thread started and joined leaves the table and the heap as they were,
  and thread-specific data is private to each thread and key.
\<close>

section \<open>The slots\<close>

definition thread_used :: "yos_pthread_host \<Rightarrow> nat \<Rightarrow> bool" where
  "thread_used h i \<longleftrightarrow> i + 1 < WASM3MT_MAX_THREADS \<and> threads h ! (i + 1) \<noteq> None"

definition thread_alloc :: "host_thread \<Rightarrow> yos_pthread_host \<Rightarrow> (nat \<times> yos_pthread_host) option" where
  "thread_alloc ht h = (case host_alloc_tid h ht of (None, _) \<Rightarrow> None | (Some tid, h') \<Rightarrow> Some (tid - 1, h'))"

definition threads_len :: "yos_pthread_host \<Rightarrow> bool" where
  "threads_len h \<longleftrightarrow> length (threads h) = WASM3MT_MAX_THREADS"

lemma alloc_tid_Some:
  assumes "host_alloc_tid h ht = (Some i, h')" and "length (threads h) = WASM3MT_MAX_THREADS"
  shows "0 < i" and "i < WASM3MT_MAX_THREADS" and "threads h ! i = None" and "\<forall>j. 0 < j \<and> j < i \<longrightarrow> threads h ! j \<noteq> None"
    and "\<exists>arena. h' = h\<lparr>threads := (threads h)[i := Some (ht\<lparr>ht_tid := i, ht_tls_arena := arena\<rparr>)]\<rparr>"
proof -
  obtain k where k: "find_index (\<lambda>x. x = None) (drop 1 (threads h)) = Some k" "i = Suc k"
    using assms(1) by (auto simp: host_alloc_tid_def Let_def split: option.splits)
  note f = k(1) [unfolded find_index_Some]
  show "0 < i" "i < WASM3MT_MAX_THREADS" "threads h ! i = None" using f k(2) assms(2) by auto
  show "\<exists>arena. h' = h\<lparr>threads := (threads h)[i := Some (ht\<lparr>ht_tid := i, ht_tls_arena := arena\<rparr>)]\<rparr>"
    using assms(1) k by (auto simp: host_alloc_tid_def Let_def)
  show "\<forall>j. 0 < j \<and> j < i \<longrightarrow> threads h ! j \<noteq> None"
  proof (intro allI impI)
    fix j assume j: "0 < j \<and> j < i"
    then obtain j' where "j = Suc j'" "j' < k" using k(2) by (cases j) auto
    then show "threads h ! j \<noteq> None" using f assms(2) by auto
  qed
qed

lemma alloc_tid_None:
  assumes "host_alloc_tid h ht = (None, h')" and "length (threads h) = WASM3MT_MAX_THREADS"
  shows "h' = h" and "0 < j \<Longrightarrow> j < WASM3MT_MAX_THREADS \<Longrightarrow> threads h ! j \<noteq> None"
proof -
  have n: "find_index (\<lambda>x. x = None) (drop 1 (threads h)) = None" and "h' = h"
    using assms(1) by (auto simp: host_alloc_tid_def Let_def split: option.splits)
  then show "h' = h" by simp
  show "threads h ! j \<noteq> None" if "0 < j" "j < WASM3MT_MAX_THREADS"
  proof -
    have "threads h ! j \<in> set (drop 1 (threads h))"
      using that assms(2) by (auto simp: in_set_conv_nth intro!: exI [of _ "j - 1"])
    then show ?thesis using n by (auto simp: find_index_None)
  qed
qed

interpretation thread_slots: slot_table thread_used 127 threads_len "thread_alloc ht" "\<lambda>h i. host_free_thread_slot h (i + 1)" for ht
proof
  fix h h' :: yos_pthread_host and i j :: nat
  show "threads_len (host_free_thread_slot h (i + 1))" if "threads_len h"
    using that by (simp add: threads_len_def host_free_thread_slot_def)
  show "\<not> thread_used (host_free_thread_slot h (i + 1)) i" if "threads_len h" "i < 127"
    using that by (simp add: threads_len_def host_free_thread_slot_def thread_used_def)
  show "thread_used (host_free_thread_slot h (i + 1)) j = thread_used h j" if "threads_len h" "j \<noteq> i"
    using that by (simp add: threads_len_def host_free_thread_slot_def thread_used_def)
  show "thread_used h i" if "threads_len h" "thread_alloc ht h = None" "i < 127"
    using that alloc_tid_None(2) [of h ht _ "Suc i"] by (auto simp: thread_alloc_def thread_used_def threads_len_def split: prod.splits option.splits)
  assume len: "threads_len h" and a: "thread_alloc ht h = Some (i, h')"
  then obtain t where t: "host_alloc_tid h ht = (Some t, h')" "i = t - 1"
    by (auto simp: thread_alloc_def split: prod.splits option.splits)
  note s = alloc_tid_Some [OF t(1) len [unfolded threads_len_def]]
  have i: "t = i + 1" using s(1) t(2) by simp
  obtain ar where h': "h' = h\<lparr>threads := (threads h)[t := Some (ht\<lparr>ht_tid := t, ht_tls_arena := ar\<rparr>)]\<rparr>" using s(5) by blast
  show "threads_len h'" using len h' by (simp add: threads_len_def)
  show "i < 127 \<and> \<not> thread_used h i \<and> thread_used h' i"
    using s(2,3) i h' len by (simp add: thread_used_def threads_len_def)
  show "thread_used h' j = thread_used h j" if "j \<noteq> i"
    using that i h' len by (simp add: thread_used_def threads_len_def)
  show "thread_used h j" if "j < i" using that s(2,4) i by (simp add: thread_used_def)
qed

section \<open>Starting a thread and joining it\<close>

text \<open>The worker writes the result or the trap into the thread's record, and nothing else.\<close>

lemma worker_main_record:
  "\<exists>v e. fst (worker_main new_rt setup_err table0 has_sp call ht m) = ht\<lparr>ht_retval := v, ht_trap := e\<rparr>"
proof -
  define P where "P x \<longleftrightarrow> (\<exists>v e. x = ht\<lparr>ht_retval := v, ht_trap := e\<rparr>)" for x
  have "P (ht\<lparr>ht_trap := x\<rparr>)" for x unfolding P_def by (intro exI [of _ "ht_retval ht"] exI [of _ x]) simp
  moreover have "P (ht\<lparr>ht_retval := x\<rparr>)" for x unfolding P_def by (intro exI [of _ x] exI [of _ "ht_trap ht"]) simp
  moreover have "P ht" unfolding P_def by (intro exI [of _ "ht_retval ht"] exI [of _ "ht_trap ht"]) simp
  ultimately have "P (fst (worker_main new_rt setup_err table0 has_sp call ht m))"
    by (simp add: worker_main_def Let_def split: option.splits prod.splits sum.splits)
  then show ?thesis by (simp add: P_def)
qed

lemma clone_thread_ok:
  assumes "yos_clone_thread hh cr h fn arg ctid tls stk mb = (Inr tid, h1)" and "length (threads h) = WASM3MT_MAX_THREADS"
  shows "0 < tid" and "tid < WASM3MT_MAX_THREADS" and "threads h ! tid = None"
    and "\<exists>ht. h1 = h\<lparr>threads := (threads h)[tid := Some ht]\<rparr> \<and> ht_os_started ht \<and> \<not> ht_joined ht \<and> \<not> ht_is_master ht \<and>
      ht_child_stack ht = stk \<and> ht_fn_idx ht = fn \<and> ht_arg ht = arg \<and> ht_tid ht = tid \<and> ht_owned_stack_base ht = 0 \<and>
      ht_tls ht = replicate WASM3MT_MAX_TLS_KEYS 0"
proof -
  let ?ht = "ht_calloc\<lparr>ht_fn_idx := fn, ht_arg := arg, ht_ctid_addr := ctid, ht_memory_base := mb, ht_child_stack := stk\<rparr>"
  obtain h0 where al: "host_alloc_tid h ?ht = (Some tid, h0)" and h1: "h1 = upd_thread (upd_thread h0 tid
      (\<lambda>x. if tls \<noteq> 0 then x\<lparr>ht_tls_arena := tls\<rparr> else x)) tid (\<lambda>x. x\<lparr>ht_os_started := True\<rparr>)"
    using assms(1) by (auto simp: yos_clone_thread_def Let_def split: if_splits prod.splits option.splits)
  note s = alloc_tid_Some [OF al assms(2)]
  show "0 < tid" "tid < WASM3MT_MAX_THREADS" "threads h ! tid = None" by (rule s)+
  obtain ar where "h0 = h\<lparr>threads := (threads h)[tid := Some (?ht\<lparr>ht_tid := tid, ht_tls_arena := ar\<rparr>)]\<rparr>" using s(5) by blast
  then show "\<exists>ht. h1 = h\<lparr>threads := (threads h)[tid := Some ht]\<rparr> \<and> ht_os_started ht \<and> \<not> ht_joined ht \<and> \<not> ht_is_master ht \<and>
      ht_child_stack ht = stk \<and> ht_fn_idx ht = fn \<and> ht_arg ht = arg \<and> ht_tid ht = tid \<and> ht_owned_stack_base ht = 0 \<and>
      ht_tls ht = replicate WASM3MT_MAX_TLS_KEYS 0"
    using h1 s(2) assms(2) by (auto simp: upd_thread_def ht_calloc_def)
qed

text \<open>A failing clone leaves the table as it was.\<close>

lemma clone_thread_fails:
  assumes "yos_clone_thread hh cr h fn arg ctid tls stk mb = (Inl e, h1)" and "length (threads h) = WASM3MT_MAX_THREADS"
  shows "h1 = h"
proof -
  let ?ht = "ht_calloc\<lparr>ht_fn_idx := fn, ht_arg := arg, ht_ctid_addr := ctid, ht_memory_base := mb, ht_child_stack := stk\<rparr>"
  obtain r h0 where al: "host_alloc_tid h ?ht = (r, h0)" by (cases "host_alloc_tid h ?ht")
  show ?thesis
  proof (cases r)
    case None
    then show ?thesis using assms al alloc_tid_None(1) [of h ?ht h0] by (auto simp: yos_clone_thread_def Let_def split: if_splits)
  next
    case (Some tid)
    note s = alloc_tid_Some [OF al [unfolded Some] assms(2)]
    have "(threads h)[tid := None] = threads h" using s(3) by (metis list_update_id)
    then show ?thesis using assms al Some s(1,2,5)
      by (auto simp: yos_clone_thread_def Let_def upd_thread_def host_free_thread_slot_def split: if_splits)
  qed
qed

text \<open>A word outside the guest heap, for results.\<close>

definition outside_heap :: "yos_exec_ctx \<Rightarrow> u32 \<Rightarrow> bool" where
  "outside_heap c p \<longleftrightarrow> unat p + 4 \<le> unat (alloc_lo c) \<or> unat (alloc_hi c) \<le> unat p"

lemma heap_owns_store_outside:
  assumes "heap_owns c P" and "outside_heap c p"
  shows "heap_owns (c\<lparr>memory := store32 (memory c) (unat p) v\<rparr>) P"
  by (rule yos_heap.store_outside [OF assms(1)]) (use assms(2) in \<open>auto simp: outside_heap_def store32_other\<close>)

lemma stack_top:
  assumes "heap_owns c ((unat base, k) # P)" and "262144 \<le> k"
  shows "unat base < unat ((base + YOS_L1_THREAD_STACK) AND NOT 15)"
    and "unat ((base + YOS_L1_THREAD_STACK) AND NOT 15) \<le> unat base + 262144"
    and "16 dvd unat ((base + YOS_L1_THREAD_STACK) AND NOT 15)"
proof -
  have "unat base + 262144 \<le> unat (memory_size c)" using yos_heap.inv_range [OF assms(1)] assms(2) by linarith
  then have s: "unat (base + YOS_L1_THREAD_STACK) = unat base + 262144"
    using unat_u32_lt [of "memory_size c"] by (subst unat_add_nowrap) simp_all
  have "(15 :: u32) = mask 4" by (simp add: mask_eq_exp_minus_1)
  then have t: "unat ((base + YOS_L1_THREAD_STACK) AND NOT 15) = (unat base + 262144) div 16 * 16"
    using unat_and_not_mask [of "base + YOS_L1_THREAD_STACK" 4] s by simp
  show "unat base < unat ((base + YOS_L1_THREAD_STACK) AND NOT 15)"
    "unat ((base + YOS_L1_THREAD_STACK) AND NOT 15) \<le> unat base + 262144"
    "16 dvd unat ((base + YOS_L1_THREAD_STACK) AND NOT 15)"
    unfolding t by simp_all
qed

text \<open>What a successful \<^verbatim>\<open>pthread_create\<close> leaves: a record in a free slot, with the new stack or, when the heap had no room, with none.\<close>

lemma create_gives:
  assumes wf: "threads_wf h" and heap: "heap_owns c P" and ptr: "outside_heap c t_ptr"
    and create: "host_pthread_create have_ht created c h t_ptr fn arg = Some (0, c1, h1)"
    and ma: "yos_malloc c YOS_L1_THREAD_STACK = (base, c0)"
  obtains tid ht k where "0 < tid" "tid < WASM3MT_MAX_THREADS" "threads h ! tid = None" "load32 (memory c1) (unat t_ptr) = of_nat tid"
    "h1 = h\<lparr>threads := (threads h)[tid := Some ht]\<rparr>" "ht_os_started ht" "\<not> ht_joined ht" "\<not> ht_is_master ht"
    "ht_fn_idx ht = fn" "ht_arg ht = arg" "ht_owned_stack_base ht = base" "ht_child_stack ht = (if base = 0 then 0 else (base + YOS_L1_THREAD_STACK) AND NOT 15)"
    "base \<noteq> 0 \<Longrightarrow> 262144 \<le> k" "heap_owns c1 ((if base = 0 then [] else [(unat base, k)]) @ P)"
    "\<And>i. stable c P i \<Longrightarrow> i < unat t_ptr \<or> unat t_ptr + 4 \<le> i \<Longrightarrow> memory c1 i = memory c i"
proof -
  have len: "length (threads h) = WASM3MT_MAX_THREADS" using wf by (simp add: threads_wf_def)
  let ?top = "if base = 0 then 0 else (base + YOS_L1_THREAD_STACK) AND NOT 15"
  obtain tid h0 where cl: "yos_clone_thread have_ht created h fn arg 0 0 ?top False = (Inr tid, h0)"
      and c1: "c1 = c0\<lparr>memory := store32 (memory c0) (unat t_ptr) (of_nat tid)\<rparr>"
      and h1: "h1 = (if base \<noteq> 0 then upd_thread h0 tid (\<lambda>x. x\<lparr>ht_owned_stack_base := base\<rparr>) else h0)"
    using create ma by (auto simp: host_pthread_create_def Let_def split: prod.splits sum.splits option.splits if_splits)
  note s = clone_thread_ok [OF cl len]
  obtain ht0 where h0: "h0 = h\<lparr>threads := (threads h)[tid := Some ht0]\<rparr>" "ht_os_started ht0" "\<not> ht_joined ht0" "\<not> ht_is_master ht0"
      "ht_child_stack ht0 = ?top" "ht_fn_idx ht0 = fn" "ht_arg ht0 = arg" "ht_owned_stack_base ht0 = 0"
    using s(4) by blast
  let ?ht = "ht0\<lparr>ht_owned_stack_base := base\<rparr>"
  have h1': "h1 = h\<lparr>threads := (threads h)[tid := Some ?ht]\<rparr>"
  proof (cases "base = 0")
    case True
    have "ht0\<lparr>ht_owned_stack_base := 0\<rparr> = ht0" using h0(8) by (cases ht0) simp
    then show ?thesis using True h1 h0(1) by simp
  next
    case False
    then show ?thesis using h1 h0(1) s(2) len by (simp add: upd_thread_def)
  qed
  note fr = yos_heap.malloc_frame [OF heap ma]
  obtain k where k: "base \<noteq> 0 \<Longrightarrow> 262144 \<le> k" "heap_owns c0 ((if base = 0 then [] else [(unat base, k)]) @ P)"
  proof (cases "base = 0")
    case True
    then have "c0 = c" using yos_heap.malloc_null [OF heap] ma by blast
    then show thesis using that True heap by simp
  next
    case False
    then show thesis using that yos_heap.malloc_owned [OF heap ma False] by auto
  qed
  have out: "outside_heap c0 t_ptr" using ptr heap_only_simps(1,2) [of c c0] fr by (simp add: outside_heap_def)
  have own: "heap_owns c1 ((if base = 0 then [] else [(unat base, k)]) @ P)" unfolding c1 by (rule heap_owns_store_outside [OF k(2) out])
  have fm: "memory c1 i = memory c i" if "stable c P i" "i < unat t_ptr \<or> unat t_ptr + 4 \<le> i" for i
    using fr that(1) by (simp add: c1 store32_other [OF that(2)])
  have ht: "ht_os_started ?ht" "\<not> ht_joined ?ht" "\<not> ht_is_master ?ht" "ht_fn_idx ?ht = fn" "ht_arg ?ht = arg"
    "ht_owned_stack_base ?ht = base" "ht_child_stack ?ht = ?top" "load32 (memory c1) (unat t_ptr) = of_nat tid"
    using h0 by (simp_all add: c1)
  show thesis by (rule that [OF s(1-3) ht(8) h1' ht(1-7) k(1) own fm])
qed

text \<open>What joining it gives back, in whatever state the program then is.\<close>

lemma join_gives_back:
  assumes len: "length (threads h) = WASM3MT_MAX_THREADS" and tid: "0 < tid" "tid < WASM3MT_MAX_THREADS"
    and ht: "threads h ! tid = Some ht" "ht_os_started ht" "\<not> ht_joined ht" "\<not> ht_is_master ht" and base: "ht_owned_stack_base ht = base"
    and heap: "heap_owns c ((if base = 0 then [] else [(unat base, k)]) @ Q)" and out: "outside_heap c ret_ptr"
    and ended: "ended = (\<lambda>ht. fst (worker_main new_rt setup_err table0 has_sp call ht m))" and h': "h' = h\<lparr>threads := (threads h)[tid := None]\<rparr>"
  obtains c2 line where "host_pthread_join ended c h tid ret_ptr = Some (0, c2, h', line)" "heap_owns c2 Q"
    "load32 (memory c2) (unat ret_ptr) = ht_retval (ended ht)"
    "\<And>i. stable c Q i \<Longrightarrow> i < unat ret_ptr \<or> unat ret_ptr + 4 \<le> i \<Longrightarrow> memory c2 i = memory c i"
    "host_pthread_join ended c2 h' tid ret_ptr = Some (- 1, c2, h', None)"
proof -
  let ?e = "ended ht"
  let ?c = "c\<lparr>memory := store32 (memory c) (unat ret_ptr) (ht_retval ?e)\<rparr>"
  have own: "heap_owns ?c ((if base = 0 then [] else [(unat base, k)]) @ Q)" by (rule heap_owns_store_outside [OF heap out])
  have e: "ht_owned_stack_base ?e = base" using worker_main_record [of new_rt setup_err table0 has_sp call ht m] ended base by auto
  obtain c2 where c2: "(if base \<noteq> 0 then yos_free ?c base else Some ?c) = Some c2" "heap_owns c2 Q"
      "\<forall>i. stable ?c Q i \<longrightarrow> memory c2 i = memory ?c i"
  proof (cases "base = 0")
    case True
    then show thesis using that own by simp
  next
    case False
    then show thesis using that yos_heap.release_owned [of ?c base k Q] own by auto
  qed
  have look: "host_lookup_thread h tid = Some ht" using ht(1) tid(2) by (simp add: host_lookup_thread_def)
  have slot: "host_free_thread_slot h tid = h'" using tid h' by (simp add: host_free_thread_slot_def)
  have join: "host_pthread_join ended c h tid ret_ptr = Some (0, c2, h', map_option (\<lambda>e. ''wasm3mt: thread '' @ show_nat tid @ '' trap: '' @ e) (ht_trap ?e))"
    using look ht(2-4) e c2(1) slot by (cases "base = 0") (simp_all add: host_pthread_join_def Let_def)
  have st: "stable ?c Q i = stable c Q i" for i by (simp add: stable_def)
  have lr: "load32 (memory c2) (unat ret_ptr) = load32 (memory ?c) (unat ret_ptr)"
    by (rule load32_cong) (use c2(3) out in \<open>auto simp: stable_def outside_heap_def\<close>)
  have fm: "memory c2 i = memory c i" if "stable c Q i" "i < unat ret_ptr \<or> unat ret_ptr + 4 \<le> i" for i
    using c2(3) st that(1) by (simp add: store32_other [OF that(2)])
  have again: "host_pthread_join ended c2 h' tid ret_ptr = Some (- 1, c2, h', None)"
    using tid len h' by (simp add: host_pthread_join_def host_lookup_thread_def)
  show thesis by (rule that [OF join c2(2) _ fm again]) (use lr in simp)
qed

lemma worker_result:
  assumes "new_rt" and "setup_err = None" and "ht_fn_idx ht \<noteq> 0" and "unat (ht_fn_idx ht) < length table0" and "table0 ! unat (ht_fn_idx ht) = Some f"
    and "call f (if ht_child_stack ht \<noteq> 0 \<and> has_sp then Some (ht_child_stack ht) else None) (ht_arg ht) m = (Inr (Some v), m')"
  shows "ht_retval (fst (worker_main new_rt setup_err table0 has_sp call ht m)) = v"
  using assms by (simp add: worker_main_def Let_def)


lemma host_create_wf: "threads_wf (yos_pthread_host_create pool arena)"
proof -
  have "(Some m # replicate 127 None) ! i = Some ht \<longleftrightarrow> i = 0 \<and> ht = m" if "i < WASM3MT_MAX_THREADS" for i and m ht :: host_thread
    using that by (cases i) auto
  then show ?thesis by (simp add: threads_wf_def yos_pthread_host_create_def ht_calloc_def)
qed

definition demo_worker :: "host_thread \<Rightarrow> host_thread" where
  "demo_worker = (\<lambda>ht. fst (worker_main True None [None, Some ()] True (\<lambda>f sp x m. (Inr (Some (x + 1)), m)) ht (\<lambda>_. 0)))"


text \<open>When the heap has no room for a stack the thread is started all the same, on the stack of the main thread.\<close>

lemma thread_without_stack:
  assumes "yos_malloc c YOS_L1_THREAD_STACK = (0, c0)" and "host_pthread_create have_ht created c h t_ptr fn arg = Some (0, c1, h1)"
    and "length (threads h) = WASM3MT_MAX_THREADS"
  shows "\<exists>tid ht. threads h1 ! tid = Some ht \<and> ht_os_started ht \<and> ht_child_stack ht = 0"
proof -
  obtain tid where cl: "yos_clone_thread have_ht created h fn arg 0 0 0 False = (Inr tid, h1)"
    using assms(1,2) by (auto simp: host_pthread_create_def Let_def split: prod.splits sum.splits option.splits)
  from clone_thread_ok(2,4) [OF cl assms(3)] show ?thesis using assms(3) by (intro exI [of _ tid]) auto
qed

text \<open>A thread that traps leaves the word that says it is alive as it is: only a thread that returns clears it.\<close>

lemma trapped_thread_keeps_tid_word:
  assumes "call f sp (ht_arg ht) m = (Inl e, m)" and "ht_fn_idx ht = 1" and "sp = Some (ht_child_stack ht)" and "ht_child_stack ht \<noteq> 0"
  shows "snd (worker_main True None [None, Some f] True call ht m) = m"
  using assms by (simp add: worker_main_def Let_def)

section \<open>Thread-specific data\<close>

text \<open>A value set for a key by a thread is what that thread reads for that key, other keys and other threads read what they
  read before.\<close>

theorem thread_specific_data:
  assumes wf: "threads_wf h" and "unat key < WASM3MT_MAX_TLS_KEYS"
    and "current_ht h cur < WASM3MT_MAX_THREADS" and "threads h ! current_ht h cur \<noteq> None"
    and set: "host_pthread_setspecific h cur key v = (r, h')"
  shows "r = 0 \<and> threads_wf h' \<and>
    (\<forall>cur' key'. current_ht h cur' < WASM3MT_MAX_THREADS \<longrightarrow> host_pthread_getspecific h' cur' key' =
       (if current_ht h cur' = current_ht h cur \<and> key' = key then v else host_pthread_getspecific h cur' key'))"
proof -
  obtain ht where ht: "threads h ! current_ht h cur = Some ht" using assms(4) by blast
  have len: "length (threads h) = WASM3MT_MAX_THREADS" "length (ht_tls ht) = WASM3MT_MAX_TLS_KEYS"
    using wf ht assms(3) by (auto simp: threads_wf_def)
  let ?f = "\<lambda>x. x\<lparr>ht_tls := (ht_tls x)[unat key := v]\<rparr>"
  have h': "r = 0" "h' = h\<lparr>threads := (threads h)[current_ht h cur := Some (?f ht)]\<rparr>"
    using set assms(2) ht by (simp_all add: host_pthread_setspecific_def upd_thread_def)
  have cu: "current_ht h' cur' = current_ht h cur'" for cur' by (simp add: current_ht_def)
  have at: "threads h' ! i = (if i = current_ht h cur then Some (?f ht) else threads h ! i)" if "i < WASM3MT_MAX_THREADS" for i
    using that len(1) h'(2) by simp
  have "ht_tid (?f ht) = current_ht h cur" "ht_is_master (?f ht) = ht_is_master ht"
    using wf ht assms(3) by (auto simp: threads_wf_def)
  then have "threads_wf h'"
    using wf ht len(2) at unfolding threads_wf_def by (auto simp: h'(2) len(1) nth_list_update)
  moreover have "host_pthread_getspecific h' cur' key' =
       (if current_ht h cur' = current_ht h cur \<and> key' = key then v else host_pthread_getspecific h cur' key')"
    if "current_ht h cur' < WASM3MT_MAX_THREADS" for cur' key'
    using that at ht len(2) assms(2) by (auto simp: host_pthread_getspecific_def cu nth_list_update word_unat_eq_iff split: option.splits)
  ultimately show ?thesis using h'(1) by blast
qed

theorem thread_specific_data_witness:
  "host_pthread_getspecific (snd (host_pthread_setspecific (yos_pthread_host_create 0 0) None 3 7)) None 3 = 7 \<and>
   host_pthread_getspecific (snd (host_pthread_setspecific (yos_pthread_host_create 0 0) None 3 7)) None 4 = 0"
proof -
  let ?h = "yos_pthread_host_create 0 0"
  obtain r h' where s: "host_pthread_setspecific ?h None 3 7 = (r, h')" by (cases "host_pthread_setspecific ?h None 3 7")
  have "current_ht ?h None < WASM3MT_MAX_THREADS" "threads ?h ! current_ht ?h None \<noteq> None"
    by (simp_all add: current_ht_def yos_pthread_host_create_def)
  from thread_specific_data [OF host_create_wf _ this s] have
    "host_pthread_getspecific h' None 3 = 7" "host_pthread_getspecific h' None 4 = host_pthread_getspecific ?h None 4"
    by (simp_all add: current_ht_def)
  moreover have "host_pthread_getspecific ?h None 4 = 0"
    by (simp add: host_pthread_getspecific_def current_ht_def yos_pthread_host_create_def ht_calloc_def)
  ultimately show ?thesis using s by simp
qed

text \<open>The keys handed out count upwards, so they are different from each other; after 64 of them every request fails.\<close>

lemma key_create_counts:
  assumes "host_pthread_key_create m h kp = (r, m', h')"
  shows "next_key h' = next_key h + 1" and "r = 0 \<Longrightarrow> load32 m' (unat kp) = next_key h"
    and "r = 0 \<longleftrightarrow> unat (next_key h) < WASM3MT_MAX_TLS_KEYS"
  using assms by (auto simp: host_pthread_key_create_def Let_def split: if_splits)

end
