(* ===== verification/DirStreams.thy ===== *)
theory DirStreams
  imports Env FdCalls ProcfsProps
begin

text \<open>
  Directory streams and polling, \<^verbatim>\<open>src/src/yos/impl/io/dir.c\<close>.  A context has 64 stream slots; slot 0 is never used.
  The guest's \<^verbatim>\<open>DIR *\<close> is an eight-byte header in its own heap (descriptor, slot number), the record it reads lies in a
  second allocation of 280 bytes.  A stream reads from a directory of the host or of a virtual file system.
\<close>

section \<open>The host\<close>

record host_dirent =
  d_ino :: u64
  d_off :: u64
  d_type :: u8
  d_name :: string

text \<open>
  The host's directory calls at the time of a bridge call: an error number on the left; \<open>h_closedir\<close> gives the error
  number or 0; the end of a directory is \<open>Inr None\<close>.
\<close>

record dir_host =
  h_opendir :: "string \<Rightarrow> int + nat"
  h_fdopendir :: "int \<Rightarrow> int + nat"
  h_dirfd :: "nat \<Rightarrow> int"
  h_dup :: "int \<Rightarrow> int"
  h_closedir :: "nat \<Rightarrow> int"
  h_close :: "int \<Rightarrow> int \<times> int"
  h_readdir :: "nat \<Rightarrow> int + host_dirent option"

section \<open>The table\<close>

abbreviation YOS_DIR_MAX :: nat where "YOS_DIR_MAX \<equiv> 64"
abbreviation YOS_FBSD_DIRENT_SIZE :: nat where "YOS_FBSD_DIRENT_SIZE \<equiv> 280"
abbreviation YOS_VFS_DIRBUF_SIZE :: nat where "YOS_VFS_DIRBUF_SIZE \<equiv> 4096"
abbreviation YOS_DD_SIZE :: nat where "YOS_DD_SIZE \<equiv> 8"

definition zero_dir :: yos_dir_slot where
  "zero_dir = \<lparr> dir_in_use = False, host_dir = None, vfs_file = None, vfs_ops = None, scratch_off = 0, dd_off = 0,
     dd_fd = 0, vfs_buf = (\<lambda>_. 0), vfs_buf_len = 0, vfs_buf_pos = 0, vfs_exhausted = False \<rparr>"

text \<open>The table of a context that has none yet reads as the \<^verbatim>\<open>calloc\<close>ed one it would get.\<close>

definition ctx_dirs :: "yos_exec_ctx \<Rightarrow> yos_dir_slot list" where
  "ctx_dirs ctx = (case dir_slots ctx of None \<Rightarrow> replicate YOS_DIR_MAX zero_dir | Some ds \<Rightarrow> ds)"

definition upd_dir :: "yos_exec_ctx \<Rightarrow> nat \<Rightarrow> (yos_dir_slot \<Rightarrow> yos_dir_slot) \<Rightarrow> yos_exec_ctx" where
  "upd_dir ctx i f = ctx\<lparr>dir_slots := Some ((ctx_dirs ctx)[i := f (ctx_dirs ctx ! i)])\<rparr>"

definition slot_get :: "yos_exec_ctx \<Rightarrow> u32 \<Rightarrow> nat option" where
  "slot_get ctx handle =
     (if handle = 0 \<or> YOS_DIR_MAX \<le> unat handle then None
      else if \<not> dir_in_use (ctx_dirs ctx ! unat handle) then None else Some (unat handle))"

definition slot_from_dd :: "yos_exec_ctx \<Rightarrow> u32 \<Rightarrow> nat option" where
  "slot_from_dd ctx dd =
     (if dd = 0 then None
      else if unat (memory_size ctx) < unat dd + YOS_DD_SIZE then None
      else case slot_get ctx (load32 (memory ctx) (unat dd + 4)) of
          None \<Rightarrow> None
        | Some i \<Rightarrow> if dd_off (ctx_dirs ctx ! i) \<noteq> dd then None else Some i)"

text \<open>0 when every slot is taken.\<close>

definition slot_reserve :: "yos_exec_ctx \<Rightarrow> nat \<times> yos_exec_ctx" where
  "slot_reserve ctx =
     (case find_index (\<lambda>s. \<not> dir_in_use s) (drop 1 (take YOS_DIR_MAX (ctx_dirs ctx))) of
        None \<Rightarrow> (0, ctx)
      | Some j \<Rightarrow> (Suc j, upd_dir ctx (Suc j) (\<lambda>_. zero_dir\<lparr>dir_in_use := True, dd_fd := - 1\<rparr>)))"

text \<open>\<open>None\<close> only where \<^verbatim>\<open>yos_free\<close> does not return.\<close>

definition slot_finalise :: "yos_exec_ctx \<Rightarrow> nat \<Rightarrow> (int \<times> yos_exec_ctx) option" where
  "slot_finalise ctx h =
     (case yos_malloc ctx (of_nat YOS_FBSD_DIRENT_SIZE) of (s, c1) \<Rightarrow>
        let c2 = upd_dir c1 h (\<lambda>d. d\<lparr>scratch_off := s\<rparr>) in
        if s = 0 then Some (- 1, upd_dir c2 h (\<lambda>d. d\<lparr>dir_in_use := False\<rparr>))
        else case yos_malloc c2 (of_nat YOS_DD_SIZE) of (p, c3) \<Rightarrow>
          let c4 = upd_dir c3 h (\<lambda>d. d\<lparr>dd_off := p\<rparr>) in
          if p = 0 then
            map_option (\<lambda>c5. (- 1, upd_dir c5 h (\<lambda>d. d\<lparr>scratch_off := 0, dir_in_use := False\<rparr>))) (yos_free c4 s)
          else Some (0, c4\<lparr>memory := store32 (store32 (memory c4) (unat p) (word_of_int (dd_fd (ctx_dirs c4 ! h))))
                             (unat p + 4) (of_nat h)\<rparr>))"

definition vfs_file_from_fd :: "yos_exec_ctx \<Rightarrow> int \<Rightarrow> yos_file option" where
  "vfs_file_from_fd ctx fd = (case procfs_fds ctx of None \<Rightarrow> None | Some ft \<Rightarrow> yos_file_get ft fd)"

section \<open>The operations of a virtual file system\<close>

fun ops_open :: "yos_runtime \<Rightarrow> fs_ops \<Rightarrow> yos_exec_ctx \<Rightarrow> string \<Rightarrow> int \<times> yos_exec_ctx" where
  "ops_open rt yos_procfs_ops ctx path = procfs_open rt ctx path"

fun ops_close :: "fs_ops \<Rightarrow> yos_exec_ctx \<Rightarrow> int \<Rightarrow> int \<times> yos_exec_ctx" where
  "ops_close yos_procfs_ops ctx fd = procfs_close ctx fd"

fun ops_getdents64 :: "yos_runtime \<Rightarrow> fs_ops \<Rightarrow> mem \<Rightarrow> yos_file \<Rightarrow> nat \<Rightarrow> nat \<Rightarrow> int \<times> mem \<times> yos_file" where
  "ops_getdents64 rt yos_procfs_ops m f buf cnt = procfs_getdents64 rt m f buf cnt"

text \<open>The record a pointer into the virtual file table points to.\<close>

definition file_deref :: "yos_exec_ctx \<Rightarrow> int \<Rightarrow> yos_file" where
  "file_deref ctx fd = (case procfs_fds ctx of None \<Rightarrow> zero_file | Some ft \<Rightarrow> ft ! nat (fd - YOS_VFS_FD_BASE))"

definition set_file :: "yos_exec_ctx \<Rightarrow> int \<Rightarrow> yos_file \<Rightarrow> yos_exec_ctx" where
  "set_file ctx fd f = ctx\<lparr>procfs_fds := map_option (\<lambda>ft. file_update ft fd (\<lambda>_. f)) (procfs_fds ctx)\<rparr>"

section \<open>Opening\<close>

type_synonym dir_result = "(u32 \<times> yos_exec_ctx \<times> fd_event list) option"

definition dir_fails :: "(int \<Rightarrow> int) \<Rightarrow> yos_exec_ctx \<Rightarrow> int \<Rightarrow> fd_event list \<Rightarrow> dir_result" where
  "dir_fails h2g ctx e es = (case yos_errno_null h2g ctx e of (r, c) \<Rightarrow> Some (r, c, es))"

definition alloc_wasm_fd_for_host_dir :: "dir_host \<Rightarrow> yos_exec_ctx \<Rightarrow> nat \<Rightarrow> string \<Rightarrow> fd_result" where
  "alloc_wasm_fd_for_host_dir H ctx d path =
     (let orig = h_dirfd H d in
      if orig < 0 then (- 1, ctx, [])
      else let duped = h_dup H orig in
        if duped < 0 then (- 1, ctx, [])
        else case yos_fd_alloc_with_path ctx duped (Some path) of (wfd, c, es) \<Rightarrow>
          if wfd < 0 then (- 1, c, Opened duped # es @ [Closed duped]) else (wfd, c, Opened duped # es))"

definition opendir_vfs :: "(int \<Rightarrow> int) \<Rightarrow> yos_runtime \<Rightarrow> yos_exec_ctx \<Rightarrow> fs_ops \<Rightarrow> string \<Rightarrow> dir_result" where
  "opendir_vfs h2g rt ctx ops remaining =
     (case ops_open rt ops ctx remaining of (vfd, c1) \<Rightarrow>
        if vfd < 0 then dir_fails h2g c1 (- vfd) []
        else case vfs_file_from_fd c1 vfd of
            None \<Rightarrow> dir_fails h2g c1 ENOENT []
          | Some vfile \<Rightarrow>
              (case slot_reserve c1 of (h, c2) \<Rightarrow>
                 if h = 0 then dir_fails h2g (snd (ops_close ops c2 vfd)) EMFILE []
                 else
                   let c3 = upd_dir c2 h (\<lambda>s. s\<lparr>vfs_file := Some vfd, vfs_ops := Some ops, dd_fd := vfd\<rparr>) in
                   case slot_finalise c3 h of
                     None \<Rightarrow> None
                   | Some (r, c4) \<Rightarrow>
                       if r < 0 then dir_fails h2g (snd (ops_close ops c4 vfd)) ENOMEM []
                       else Some (dd_off (ctx_dirs c4 ! h), c4, [])))"

text \<open>The host's \<^verbatim>\<open>closedir\<close>, whose result the error paths ignore.\<close>

definition closed_dir :: "dir_host \<Rightarrow> nat \<Rightarrow> fd_event list" where
  "closed_dir H d = (if h_closedir H d = 0 then [Closed (h_dirfd H d)] else [])"

definition opendir_host :: "(int \<Rightarrow> int) \<Rightarrow> dir_host \<Rightarrow> yos_exec_ctx \<Rightarrow> string \<Rightarrow> dir_result" where
  "opendir_host h2g H ctx path =
     (case h_opendir H path of
        Inl e \<Rightarrow> dir_fails h2g ctx e []
      | Inr d \<Rightarrow>
          (case slot_reserve ctx of (h, c1) \<Rightarrow>
             if h = 0 then dir_fails h2g c1 EMFILE (Opened (h_dirfd H d) # closed_dir H d)
             else
               let c2 = upd_dir c1 h (\<lambda>s. s\<lparr>host_dir := Some d\<rparr>) in
               case alloc_wasm_fd_for_host_dir H c2 d path of (wfd, c3, es) \<Rightarrow>
                 let c4 = upd_dir c3 h (\<lambda>s. s\<lparr>dd_fd := wfd\<rparr>) in
                 case slot_finalise c4 h of
                   None \<Rightarrow> None
                 | Some (r, c5) \<Rightarrow>
                     if r < 0 then dir_fails h2g c5 ENOMEM (Opened (h_dirfd H d) # es @ closed_dir H d)
                     else Some (dd_off (ctx_dirs c5 ! h), c5, Opened (h_dirfd H d) # es)))"

definition yos_opendir :: "(int \<Rightarrow> int) \<Rightarrow> dir_host \<Rightarrow> yos_runtime \<Rightarrow> yos_exec_ctx \<Rightarrow> u32 \<Rightarrow> dir_result" where
  "yos_opendir h2g H rt ctx path_off =
     (if path_off = 0 \<or> memory_size ctx \<le> path_off then dir_fails h2g ctx EFAULT []
      else let path = yos_path_resolve ctx (raw_str (memory ctx) (unat path_off)) in
        case mounted (rt_mounts rt) path of
          Some (ops, remaining) \<Rightarrow> opendir_vfs h2g rt ctx ops remaining
        | None \<Rightarrow> opendir_host h2g H ctx path)"

text \<open>The stream takes over the host descriptor, so nothing is opened.\<close>

definition yos_fdopendir :: "(int \<Rightarrow> int) \<Rightarrow> dir_host \<Rightarrow> yos_exec_ctx \<Rightarrow> int \<Rightarrow> dir_result" where
  "yos_fdopendir h2g H ctx wasm_fd =
     (case yos_fd_get h2g ctx wasm_fd of (hfd, c1) \<Rightarrow>
        if hfd < 0 then dir_fails h2g c1 EBADF []
        else case h_fdopendir H hfd of
            Inl e \<Rightarrow> dir_fails h2g c1 e []
          | Inr d \<Rightarrow>
              (case slot_reserve c1 of (h, c2) \<Rightarrow>
                 if h = 0 then dir_fails h2g c2 EMFILE (closed_dir H d)
                 else
                   let c3 = upd_dir c2 h (\<lambda>s. s\<lparr>host_dir := Some d, dd_fd := wasm_fd\<rparr>) in
                   case slot_finalise c3 h of
                     None \<Rightarrow> None
                   | Some (r, c4) \<Rightarrow>
                       if r < 0 then dir_fails h2g c4 ENOMEM (closed_dir H d)
                       else Some (dd_off (ctx_dirs c4 ! h), c4, [])))"

section \<open>Reading\<close>

definition fbsd_reclen :: "nat \<Rightarrow> nat" where
  "fbsd_reclen namlen = (24 + namlen + 1 + 7) div 8 * 8"

definition emit_fbsd_dirent :: "yos_exec_ctx \<Rightarrow> nat \<Rightarrow> u64 \<Rightarrow> u64 \<Rightarrow> u8 \<Rightarrow> string \<Rightarrow> u32 \<times> yos_exec_ctx" where
  "emit_fbsd_dirent ctx i fileno_v off_v ty name =
     (let namlen = min 255 (length name);
          dst = unat (scratch_off (ctx_dirs ctx ! i));
          m1 = mem_fill (memory ctx) dst 0 YOS_FBSD_DIRENT_SIZE;
          m2 = store16 (store64 (store64 m1 dst fileno_v) (dst + 8) off_v) (dst + 16) (of_nat (fbsd_reclen namlen));
          m3 = store16 (m2(dst + 18 := ty)) (dst + 20) (of_nat namlen);
          m4 = mem_write m3 (dst + 24) (map byte_of (take namlen name))
      in (scratch_off (ctx_dirs ctx ! i), ctx\<lparr>memory := m4\<rparr>))"

text \<open>
  The loop over the read-ahead buffer.  The name is scanned up to the end of the buffer: the records of the virtual file
  systems carry their terminating NUL.
\<close>

partial_function (option) readdir_vfs ::
  "(int \<Rightarrow> int) \<Rightarrow> yos_runtime \<Rightarrow> nat \<Rightarrow> fs_ops \<Rightarrow> int \<Rightarrow> yos_exec_ctx \<Rightarrow> (u32 \<times> yos_exec_ctx) option" where
  "readdir_vfs h2g rt i ops fd ctx =
     (let s = ctx_dirs ctx ! i; pos = vfs_buf_pos s; b = vfs_buf s in
      if pos < vfs_buf_len s then
        let reclen = load16 b (pos + 16) in
        if reclen = 0 \<or> vfs_buf_len s < pos + reclen
        then readdir_vfs h2g rt i ops fd (upd_dir ctx i (\<lambda>s. s\<lparr>vfs_buf_pos := vfs_buf_len s\<rparr>))
        else Some (emit_fbsd_dirent (upd_dir ctx i (\<lambda>s. s\<lparr>vfs_buf_pos := pos + reclen\<rparr>)) i
               (load64 b pos) (load64 b (pos + 8)) (b (pos + 18)) (cstr b (pos + 19) YOS_VFS_DIRBUF_SIZE))
      else if vfs_exhausted s then Some (0, ctx)
      else case ops_getdents64 rt ops b (file_deref ctx fd) 0 YOS_VFS_DIRBUF_SIZE of (n, b', f') \<Rightarrow>
        let c1 = upd_dir (set_file ctx fd f') i (\<lambda>s. s\<lparr>vfs_buf := b'\<rparr>) in
        if n < 0 then Some (yos_errno_null h2g c1 (- n))
        else if n = 0 then Some (0, upd_dir c1 i (\<lambda>s. s\<lparr>vfs_exhausted := True\<rparr>))
        else readdir_vfs h2g rt i ops fd (upd_dir c1 i (\<lambda>s. s\<lparr>vfs_buf_len := nat n, vfs_buf_pos := 0\<rparr>)))"

definition readdir_host :: "(int \<Rightarrow> int) \<Rightarrow> dir_host \<Rightarrow> nat \<Rightarrow> nat \<Rightarrow> yos_exec_ctx \<Rightarrow> u32 \<times> yos_exec_ctx" where
  "readdir_host h2g H i d ctx =
     (case h_readdir H d of
        Inl e \<Rightarrow> yos_errno_null h2g ctx e
      | Inr None \<Rightarrow> (0, ctx)
      | Inr (Some e) \<Rightarrow> emit_fbsd_dirent ctx i (d_ino e) (d_off e) (d_type e) (d_name e))"

text \<open>\<open>pump\<close> is the delivery of pending signals, as in \<^verbatim>\<open>yos_read\<close>.  A slot has a virtual file with its operations, or a host stream.\<close>

definition yos_readdir ::
  "(int \<Rightarrow> int) \<Rightarrow> (yos_exec_ctx \<Rightarrow> yos_exec_ctx) \<Rightarrow> dir_host \<Rightarrow> yos_runtime \<Rightarrow> yos_exec_ctx \<Rightarrow> u32 \<Rightarrow> (u32 \<times> yos_exec_ctx) option" where
  "yos_readdir h2g pump H rt ctx dd =
     (let c = pump ctx in
      case slot_from_dd c dd of
        None \<Rightarrow> Some (yos_errno_null h2g c EBADF)
      | Some i \<Rightarrow>
          let s = ctx_dirs c ! i in
          (case (vfs_file s, vfs_ops s) of
             (Some fd, Some ops) \<Rightarrow> readdir_vfs h2g rt i ops fd c
           | _ \<Rightarrow> Some (readdir_host h2g H i (the (host_dir s)) c)))"

section \<open>Closing, rewinding, the descriptor\<close>

definition free_if :: "yos_exec_ctx option \<Rightarrow> u32 \<Rightarrow> yos_exec_ctx option" where
  "free_if co p = (case co of None \<Rightarrow> None | Some c \<Rightarrow> if p = 0 then Some c else yos_free c p)"

text \<open>The backend's half of closing, with a negative error number, and the half of the stream's own descriptor.\<close>

definition close_backend :: "dir_host \<Rightarrow> yos_exec_ctx \<Rightarrow> yos_dir_slot \<Rightarrow> int \<times> yos_exec_ctx \<times> fd_event list" where
  "close_backend H ctx s =
     (case host_dir s of
        Some d \<Rightarrow> (- h_closedir H d, ctx, closed_dir H d)
      | None \<Rightarrow>
          (case (vfs_file s, vfs_ops s) of
             (Some fd, Some ops) \<Rightarrow> (case ops_close ops ctx fd of (r, c) \<Rightarrow> (if r < 0 then r else 0, c, []))
           | _ \<Rightarrow> (0, ctx, [])))"

definition close_dd_fd :: "(int \<Rightarrow> int) \<Rightarrow> dir_host \<Rightarrow> yos_exec_ctx \<Rightarrow> int \<Rightarrow> yos_exec_ctx \<times> fd_event list" where
  "close_dd_fd h2g H ctx wfd =
     (if 0 \<le> wfd \<and> wfd < int YOS_FD_MAX \<and> \<not> yos_is_virtual_fd wfd
      then (case yos_fd_close h2g (h_close H) ctx wfd of (_, c, es) \<Rightarrow> (c, es)) else (ctx, []))"

definition yos_closedir :: "(int \<Rightarrow> int) \<Rightarrow> dir_host \<Rightarrow> yos_exec_ctx \<Rightarrow> u32 \<Rightarrow> (int \<times> yos_exec_ctx \<times> fd_event list) option" where
  "yos_closedir h2g H ctx dd =
     (case slot_from_dd ctx dd of
        None \<Rightarrow> Some (- 1, set_errno h2g ctx EBADF, [])
      | Some i \<Rightarrow>
          let s = ctx_dirs ctx ! i in
          (case close_backend H ctx s of (rc, c1, es1) \<Rightarrow>
             case close_dd_fd h2g H c1 (dd_fd s) of (c2, es2) \<Rightarrow>
               map_option (\<lambda>c4. if rc < 0 then (- 1, set_errno h2g c4 (- rc), es1 @ es2) else (0, c4, es1 @ es2))
                 (free_if (free_if (Some (upd_dir c2 i (\<lambda>_. zero_dir\<lparr>dd_fd := - 1\<rparr>))) (scratch_off s)) (dd_off s))))"

definition yos_dirfd :: "(int \<Rightarrow> int) \<Rightarrow> yos_exec_ctx \<Rightarrow> u32 \<Rightarrow> int \<times> yos_exec_ctx" where
  "yos_dirfd h2g ctx dd =
     (case slot_from_dd ctx dd of
        None \<Rightarrow> yos_errno_neg h2g ctx EBADF
      | Some i \<Rightarrow> let w = dd_fd (ctx_dirs ctx ! i) in if w < 0 then yos_errno_neg h2g ctx EBADF else (w, ctx))"

definition yos_rewinddir :: "yos_exec_ctx \<Rightarrow> u32 \<Rightarrow> yos_exec_ctx" where
  "yos_rewinddir ctx dd =
     (case slot_from_dd ctx dd of
        None \<Rightarrow> ctx
      | Some i \<Rightarrow>
          let s = ctx_dirs ctx ! i in
          if host_dir s \<noteq> None then ctx
          else case vfs_file s of
              None \<Rightarrow> ctx
            | Some fd \<Rightarrow> upd_dir (set_file ctx fd ((file_deref ctx fd)\<lparr>dir_index := 0\<rparr>)) i
                (\<lambda>s. s\<lparr>vfs_buf_len := 0, vfs_buf_pos := 0, vfs_exhausted := False\<rparr>))"

definition yos_copy_file_range :: "(int \<Rightarrow> int) \<Rightarrow> yos_exec_ctx \<Rightarrow> int \<Rightarrow> u32 \<Rightarrow> int \<Rightarrow> u32 \<Rightarrow> u32 \<Rightarrow> u32 \<Rightarrow> int \<times> yos_exec_ctx" where
  "yos_copy_file_range h2g ctx fd_in off_in fd_out off_out len flags = yos_errno_neg h2g ctx EINVAL"

end
