(* ===== verification/DirTyped.thy ===== *)
theory DirTyped
  imports DirStreams
begin

text \<open>
  The table of directory streams stays well typed: whatever the guest writes into its own memory between the calls,
  every stream in use has exactly one backend, a valid virtual file where it has one, a consistent read-ahead buffer
  and its two allocations.  A handle is looked up through guest memory, so this is what keeps a forged or stale
  \<^verbatim>\<open>DIR *\<close> harmless.
\<close>

section \<open>The table under updates\<close>

named_theorems dir_frame \<open>what an operation leaves of the directory and file tables\<close>

lemma ctx_dirs_upd [simp]: "ctx_dirs (upd_dir c i f) = (ctx_dirs c)[i := f (ctx_dirs c ! i)]"
  by (simp add: upd_dir_def ctx_dirs_def)

lemma upd_dir_fields [simp]:
  "memory (upd_dir c i f) = memory c" "memory_size (upd_dir c i f) = memory_size c" "procfs_fds (upd_dir c i f) = procfs_fds c"
  "errno_off (upd_dir c i f) = errno_off c" "alloc_lo (upd_dir c i f) = alloc_lo c" "alloc_hi (upd_dir c i f) = alloc_hi c"
  "alloc_free_head (upd_dir c i f) = alloc_free_head c" "fd_map (upd_dir c i f) = fd_map c" "fd_paths (upd_dir c i f) = fd_paths c"
  "cwd (upd_dir c i f) = cwd c"
  by (simp_all add: upd_dir_def)

lemma ctx_dirs_simps [simp]:
  "ctx_dirs (c\<lparr>memory := m\<rparr>) = ctx_dirs c" "ctx_dirs (c\<lparr>procfs_fds := p\<rparr>) = ctx_dirs c"
  "ctx_dirs (c\<lparr>fd_map := l\<rparr>) = ctx_dirs c" "ctx_dirs (c\<lparr>fd_paths := q\<rparr>) = ctx_dirs c"
  "ctx_dirs (c\<lparr>alloc_free_head := h\<rparr>) = ctx_dirs c" "ctx_dirs (c\<lparr>dir_slots := Some ds\<rparr>) = ds"
  by (simp_all add: ctx_dirs_def)

definition dirs_same :: "yos_exec_ctx \<Rightarrow> yos_exec_ctx \<Rightarrow> bool" where
  "dirs_same c c' \<longleftrightarrow> dir_slots c' = dir_slots c \<and> procfs_fds c' = procfs_fds c"

lemma dirs_same_simps: "dirs_same c c' \<Longrightarrow> ctx_dirs c' = ctx_dirs c" "dirs_same c c' \<Longrightarrow> procfs_fds c' = procfs_fds c"
  by (simp_all add: dirs_same_def ctx_dirs_def)

lemma dirs_same_trans: "dirs_same c c' \<Longrightarrow> dirs_same c' c'' \<Longrightarrow> dirs_same c c''"
  by (simp add: dirs_same_def)

lemma dirs_same_set_errno [dir_frame]: "dirs_same c (set_errno h2g c e)"
  by (simp add: dirs_same_def set_errno_def)

lemma dirs_same_do_alloc: "do_alloc_loop c need prev cur g = (p, c') \<Longrightarrow> dirs_same c c'"
proof (induction c need prev cur g arbitrary: p c' rule: do_alloc_loop.induct)
  case (1 ctx need prev_off cur guard)
  show ?case
    using "1.prems" "1.IH"
    by (subst (asm) do_alloc_loop.simps)
      (auto simp: dirs_same_def take_block_def Let_def blk_set_size_def blk_set_next_def split: if_splits prod.splits)
qed

lemma dirs_same_malloc [dir_frame]:
  assumes "yos_malloc c n = (p, c')"
  shows "dirs_same c c'"
proof -
  obtain ok c1 where i: "alloc_init_locked c = (ok, c1)" by (cases "alloc_init_locked c")
  have "dirs_same c c1"
    using i by (auto simp: alloc_init_locked_def Let_def dirs_same_def blk_set_size_def blk_set_next_def split: if_splits)
  then show ?thesis
    using assms i dirs_same_do_alloc dirs_same_trans by (fastforce simp: yos_malloc_def do_alloc_def split: if_splits)
qed

lemma dirs_same_free [dir_frame]: "yos_free c p = Some c' \<Longrightarrow> dirs_same c c'"
  by (auto simp: yos_free_def Let_def dirs_same_def free_link_def blk_set_size_def blk_set_next_def split: if_splits option.splits)

lemma dirs_same_fds [dir_frame]:
  "yos_fd_alloc_with_path c h path = (r, c', es) \<Longrightarrow> dirs_same c c'"
  "yos_fd_close h2g cl c w = (r, c', es) \<Longrightarrow> dirs_same c c'"
  "yos_fd_get h2g c w = (r, c') \<Longrightarrow> dirs_same c c'"
  by (auto simp: dirs_same_def yos_fd_alloc_with_path_def yos_fd_alloc_def yos_fd_close_def yos_fd_get_def set_fd_def Let_def
      set_errno_def yos_errno_check_def yos_errno_neg_def split: option.splits if_splits prod.splits)

lemma dirs_same_alloc_host_dir [dir_frame]: "alloc_wasm_fd_for_host_dir H c d path = (r, c', es) \<Longrightarrow> dirs_same c c'"
  using dirs_same_fds(1) by (fastforce simp: alloc_wasm_fd_for_host_dir_def Let_def dirs_same_def split: if_splits prod.splits)

section \<open>The invariant\<close>

definition file_ptr_ok :: "yos_exec_ctx \<Rightarrow> int \<Rightarrow> bool" where
  "file_ptr_ok c fd \<longleftrightarrow> procfs_fds c \<noteq> None \<and> YOS_VFS_FD_BASE \<le> fd \<and> fd < YOS_VFS_FD_BASE + int YOS_MAX_VFS_FILES"

definition files_ok :: "yos_exec_ctx \<Rightarrow> bool" where
  "files_ok c \<longleftrightarrow> (\<forall>ft. procfs_fds c = Some ft \<longrightarrow> length ft = YOS_MAX_VFS_FILES)"

definition slot_typed :: "yos_exec_ctx \<Rightarrow> yos_dir_slot \<Rightarrow> bool" where
  "slot_typed c s \<longleftrightarrow> (host_dir s = None) = (vfs_file s \<noteq> None) \<and> (vfs_file s = None) = (vfs_ops s = None) \<and>
     (\<forall>fd. vfs_file s = Some fd \<longrightarrow> file_ptr_ok c fd) \<and> vfs_buf_pos s \<le> vfs_buf_len s \<and>
     vfs_buf_len s \<le> YOS_VFS_DIRBUF_SIZE \<and> scratch_off s \<noteq> 0 \<and> dd_off s \<noteq> 0"

definition dirs_typed :: "yos_exec_ctx \<Rightarrow> bool" where
  "dirs_typed c \<longleftrightarrow> length (ctx_dirs c) = YOS_DIR_MAX \<and> files_ok c \<and> \<not> dir_in_use (ctx_dirs c ! 0) \<and>
     (\<forall>i<YOS_DIR_MAX. dir_in_use (ctx_dirs c ! i) \<longrightarrow> slot_typed c (ctx_dirs c ! i))"

text \<open>The file table keeps its pointers: it does not go away and keeps its size.\<close>

definition files_kept :: "yos_exec_ctx \<Rightarrow> yos_exec_ctx \<Rightarrow> bool" where
  "files_kept c c' \<longleftrightarrow> files_ok c' \<and> (procfs_fds c \<noteq> None \<longrightarrow> procfs_fds c' \<noteq> None)"

lemma slot_typed_mono: "slot_typed c s \<Longrightarrow> files_kept c c' \<Longrightarrow> slot_typed c' s"
  by (auto simp: slot_typed_def files_kept_def file_ptr_ok_def)

lemma dirs_typed_upd:
  assumes "dirs_typed c" and "ctx_dirs c' = (ctx_dirs c)[i := s]" and "files_kept c c'" and "0 < i"
    and "dir_in_use s \<Longrightarrow> slot_typed c' s"
  shows "dirs_typed c'"
proof -
  have "slot_typed c' (ctx_dirs c' ! j)" if "j < YOS_DIR_MAX" "dir_in_use (ctx_dirs c' ! j)" for j
  proof (cases "j = i")
    case True
    then show ?thesis using assms(1,2,5) that by (simp add: dirs_typed_def)
  next
    case False
    then have "ctx_dirs c' ! j = ctx_dirs c ! j" using assms(2) by simp
    moreover have "slot_typed c (ctx_dirs c ! j)" using assms(1) that calculation by (simp add: dirs_typed_def)
    ultimately show ?thesis using slot_typed_mono assms(3) by simp
  qed
  then show ?thesis using assms by (simp add: dirs_typed_def files_kept_def)
qed

lemma files_kept_refl: "dirs_typed c \<Longrightarrow> procfs_fds c' = procfs_fds c \<Longrightarrow> files_kept c c'"
  by (simp add: dirs_typed_def files_kept_def files_ok_def)

lemma dirs_typed_same: "dirs_typed c \<Longrightarrow> ctx_dirs c' = ctx_dirs c \<Longrightarrow> files_kept c c' \<Longrightarrow> dirs_typed c'"
  by (auto simp: dirs_typed_def files_kept_def slot_typed_mono)

lemma dirs_typed_dirs_same: "dirs_typed c \<Longrightarrow> dirs_same c c' \<Longrightarrow> dirs_typed c'"
  by (rule dirs_typed_same [OF _ dirs_same_simps(1) files_kept_refl]) (simp_all add: dirs_same_def)

lemma dirs_typed_set_errno: "dirs_typed c \<Longrightarrow> dirs_typed (set_errno h2g c e)"
  using dirs_typed_dirs_same dirs_same_set_errno by blast

section \<open>Handles\<close>

lemma slot_get_Some: "slot_get c h = Some i \<longleftrightarrow> i = unat h \<and> 0 < i \<and> i < YOS_DIR_MAX \<and> dir_in_use (ctx_dirs c ! i)"
  using unat_eq_zero [of h] by (auto simp: slot_get_def)

lemma slot_from_dd_typed:
  assumes "dirs_typed c" and "slot_from_dd c dd = Some i"
  shows "0 < i \<and> i < YOS_DIR_MAX \<and> dir_in_use (ctx_dirs c ! i) \<and> dd_off (ctx_dirs c ! i) = dd \<and> slot_typed c (ctx_dirs c ! i)"
  using assms by (auto simp: slot_from_dd_def dirs_typed_def slot_get_Some split: if_splits option.splits)

lemma slot_reserve_cases:
  assumes "length (ctx_dirs c) = YOS_DIR_MAX" and "slot_reserve c = (h, c')"
  obtains (full) "h = 0" "c' = c" "\<And>j. 0 < j \<Longrightarrow> j < YOS_DIR_MAX \<Longrightarrow> dir_in_use (ctx_dirs c ! j)"
  | (got) "0 < h" "h < YOS_DIR_MAX" "\<not> dir_in_use (ctx_dirs c ! h)" "c' = upd_dir c h (\<lambda>_. zero_dir\<lparr>dir_in_use := True, dd_fd := - 1\<rparr>)"
proof (cases "find_index (\<lambda>s. \<not> dir_in_use s) (drop 1 (take YOS_DIR_MAX (ctx_dirs c)))")
  case None
  have "dir_in_use (ctx_dirs c ! j)" if "0 < j" "j < YOS_DIR_MAX" for j
  proof -
    have "ctx_dirs c ! j = drop 1 (ctx_dirs c) ! (j - 1)" using that assms(1) by simp
    then have "ctx_dirs c ! j \<in> set (drop 1 (ctx_dirs c))" using that assms(1) by (metis length_drop nth_mem One_nat_def Suc_pred diff_Suc_less
        diff_less_mono less_eq_Suc_le)
    then show ?thesis using None assms(1) by (simp add: find_index_None)
  qed
  then show thesis using full None assms(2) by (simp add: slot_reserve_def)
next
  case (Some j)
  then have "Suc j < YOS_DIR_MAX" "\<not> dir_in_use (ctx_dirs c ! Suc j)" using assms(1) by (auto simp: find_index_Some)
  moreover have "h = Suc j" "c' = upd_dir c h (\<lambda>_. zero_dir\<lparr>dir_in_use := True, dd_fd := - 1\<rparr>)"
    using Some assms(2) by (auto simp: slot_reserve_def)
  ultimately show thesis using got by simp
qed

text \<open>The table is a table of 63 slots: slot 0 is never handed out.\<close>

definition dir_slot_used :: "yos_exec_ctx \<Rightarrow> nat \<Rightarrow> bool" where
  "dir_slot_used c j \<longleftrightarrow> Suc j < YOS_DIR_MAX \<and> dir_in_use (ctx_dirs c ! Suc j)"

definition dir_slot_alloc :: "yos_exec_ctx \<Rightarrow> (nat \<times> yos_exec_ctx) option" where
  "dir_slot_alloc c = (case slot_reserve c of (h, c') \<Rightarrow> if h = 0 then None else Some (h - 1, c'))"

definition dir_slot_free :: "yos_exec_ctx \<Rightarrow> nat \<Rightarrow> yos_exec_ctx" where
  "dir_slot_free c j = upd_dir c (Suc j) (\<lambda>_. zero_dir\<lparr>dd_fd := - 1\<rparr>)"

lemma dir_slot_alloc_eq:
  assumes "length (ctx_dirs c) = YOS_DIR_MAX"
  shows "dir_slot_alloc c = map_option (\<lambda>j. (j, upd_dir c (Suc j) (\<lambda>_. zero_dir\<lparr>dir_in_use := True, dd_fd := - 1\<rparr>)))
    (find_index (\<lambda>s. \<not> dir_in_use s) (drop 1 (ctx_dirs c)))"
  using assms by (simp add: dir_slot_alloc_def slot_reserve_def split: option.splits)

interpretation dir_slots_table: slot_table dir_slot_used "YOS_DIR_MAX - 1" "\<lambda>c. length (ctx_dirs c) = YOS_DIR_MAX" dir_slot_alloc dir_slot_free
proof
  fix c c' :: yos_exec_ctx and i j :: nat
  assume wf: "length (ctx_dirs c) = YOS_DIR_MAX"
  let ?i = "find_index (\<lambda>s. \<not> dir_in_use s) (drop 1 (ctx_dirs c))"
  note eq = dir_slot_alloc_eq [OF wf]
  show "i < YOS_DIR_MAX - 1 \<and> \<not> dir_slot_used c i \<and> dir_slot_used c' i" if "dir_slot_alloc c = Some (i, c')"
    using that wf by (auto simp: eq find_index_Some dir_slot_used_def)
  show "dir_slot_used c j" if "dir_slot_alloc c = Some (i, c')" "j < i"
    using that wf by (auto simp: eq find_index_Some dir_slot_used_def)
  show "dir_slot_used c' j = dir_slot_used c j" if "dir_slot_alloc c = Some (i, c')" "j \<noteq> i"
    using that wf by (auto simp: eq dir_slot_used_def)
  show "length (ctx_dirs c') = YOS_DIR_MAX" if "dir_slot_alloc c = Some (i, c')" using that wf by (auto simp: eq)
  show "dir_slot_used c i" if "dir_slot_alloc c = None" "i < YOS_DIR_MAX - 1"
  proof -
    have "ctx_dirs c ! Suc i = drop 1 (ctx_dirs c) ! i" using that(2) wf by simp
    moreover have "drop 1 (ctx_dirs c) ! i \<in> set (drop 1 (ctx_dirs c))" using that(2) wf by (intro nth_mem) simp
    ultimately show ?thesis using that by (simp add: eq find_index_None dir_slot_used_def)
  qed
  show "\<not> dir_slot_used (dir_slot_free c i) i" if "i < YOS_DIR_MAX - 1"
    using that wf by (simp add: dir_slot_used_def dir_slot_free_def zero_dir_def)
  show "dir_slot_used (dir_slot_free c i) j = dir_slot_used c j" if "j \<noteq> i" using that by (simp add: dir_slot_used_def dir_slot_free_def)
  show "length (ctx_dirs (dir_slot_free c i)) = YOS_DIR_MAX" using wf by (simp add: dir_slot_free_def)
qed

section \<open>Finalising a slot\<close>

lemma slot_finalise_table:
  assumes "slot_finalise c h = Some (r, c')" and "h < length (ctx_dirs c)"
  shows "procfs_fds c' = procfs_fds c \<and> (\<exists>s. ctx_dirs c' = (ctx_dirs c)[h := s] \<and>
    (if r < 0 then \<not> dir_in_use s
     else \<exists>a b. a \<noteq> 0 \<and> b \<noteq> 0 \<and> s = (ctx_dirs c ! h)\<lparr>scratch_off := a, dd_off := b\<rparr>))"
proof -
  obtain s c1 where m1: "yos_malloc c 280 = (s, c1)" by (cases "yos_malloc c 280")
  let ?c2 = "upd_dir c1 h (\<lambda>d. d\<lparr>scratch_off := s\<rparr>)"
  obtain p c3 where m2: "yos_malloc ?c2 8 = (p, c3)" by (cases "yos_malloc ?c2 8")
  let ?c4 = "upd_dir c3 h (\<lambda>d. d\<lparr>dd_off := p\<rparr>)"
  note s1 = dirs_same_simps [OF dirs_same_malloc [OF m1]]
  note s2 = dirs_same_simps [OF dirs_same_malloc [OF m2]]
  consider "s = 0" | "s \<noteq> 0" "p = 0" | "s \<noteq> 0" "p \<noteq> 0" by blast
  then show ?thesis
  proof cases
    case 1
    then show ?thesis using assms m1 s1 by (auto simp: slot_finalise_def Let_def)
  next
    case 2
    then obtain c5 where f: "yos_free ?c4 s = Some c5" "r = - 1" "c' = upd_dir c5 h (\<lambda>d. d\<lparr>scratch_off := 0, dir_in_use := False\<rparr>)"
      using assms m1 m2 by (auto simp: slot_finalise_def Let_def)
    then show ?thesis using dirs_same_simps [OF dirs_same_free [OF f(1)]] s1 s2 assms(2) by auto
  next
    case 3
    then have "r = 0" "procfs_fds c' = procfs_fds c" "ctx_dirs c' = (ctx_dirs c)[h := (ctx_dirs c ! h)\<lparr>scratch_off := s, dd_off := p\<rparr>]"
      using assms m1 m2 s1 s2 by (auto simp: slot_finalise_def Let_def)
    then show ?thesis using 3 by (intro conjI exI [of _ "(ctx_dirs c ! h)\<lparr>scratch_off := s, dd_off := p\<rparr>"]) auto
  qed
qed

text \<open>A reserved slot that has been given its backend is well typed once it is finalised, and free again when that fails.\<close>

lemma finalised_typed:
  assumes "dirs_typed c" and "files_kept c c1" and "0 < h" and "h < YOS_DIR_MAX" and "ctx_dirs c1 = (ctx_dirs c)[h := s]"
    and "slot_finalise c1 h = Some (r, c')" and "(host_dir s = None) = (vfs_file s \<noteq> None)" and "(vfs_file s = None) = (vfs_ops s = None)"
    and "\<And>fd. vfs_file s = Some fd \<Longrightarrow> file_ptr_ok c1 fd" and "vfs_buf_len s = 0" and "vfs_buf_pos s = 0"
  shows "dirs_typed c'"
proof -
  have h: "h < length (ctx_dirs c)" using assms(1,4) by (simp add: dirs_typed_def)
  then have l: "h < length (ctx_dirs c1)" "ctx_dirs c1 ! h = s" using assms(5) by simp_all
  obtain s' where s': "ctx_dirs c' = (ctx_dirs c1)[h := s']" "procfs_fds c' = procfs_fds c1"
    and t: "if r < 0 then \<not> dir_in_use s' else \<exists>a b. a \<noteq> 0 \<and> b \<noteq> 0 \<and> s' = s\<lparr>scratch_off := a, dd_off := b\<rparr>"
    using slot_finalise_table [OF assms(6) l(1)] l(2) by auto
  have k: "files_kept c c'" using assms(2) s'(2) by (simp add: files_kept_def files_ok_def)
  have "slot_typed c' s'" if "dir_in_use s'"
    using t that assms(7-11) s'(2) by (auto simp: slot_typed_def file_ptr_ok_def split: if_splits)
  moreover have "ctx_dirs c' = (ctx_dirs c)[h := s']" using s'(1) assms(5) by simp
  ultimately show ?thesis using dirs_typed_upd [OF assms(1) _ k assms(3)] by blast
qed

section \<open>Opening keeps the table typed\<close>

lemma dir_fails_typed: "dirs_typed c \<Longrightarrow> dir_fails h2g c e es = Some (r, c', es') \<Longrightarrow> dirs_typed c'"
  using dirs_typed_set_errno by (auto simp: dir_fails_def yos_errno_null_def)

lemma opendir_host_typed:
  assumes "dirs_typed c" and "opendir_host h2g H c path = Some (r, c', es)"
  shows "dirs_typed c'"
proof (cases "h_opendir H path")
  case (Inl e)
  then show ?thesis using assms dir_fails_typed by (simp add: opendir_host_def)
next
  case (Inr d)
  obtain h c1 where r: "slot_reserve c = (h, c1)" by (cases "slot_reserve c")
  have len: "length (ctx_dirs c) = YOS_DIR_MAX" using assms(1) by (simp add: dirs_typed_def)
  from len r show ?thesis
  proof (cases rule: slot_reserve_cases)
    case full
    then show ?thesis using assms r Inr dir_fails_typed by (simp add: opendir_host_def)
  next
    case got
    let ?c2 = "upd_dir c1 h (\<lambda>s. s\<lparr>host_dir := Some d\<rparr>)"
    obtain wfd c3 ev where a: "alloc_wasm_fd_for_host_dir H ?c2 d path = (wfd, c3, ev)" by (cases "alloc_wasm_fd_for_host_dir H ?c2 d path")
    let ?c4 = "upd_dir c3 h (\<lambda>s. s\<lparr>dd_fd := wfd\<rparr>)"
    obtain q c5 where f: "slot_finalise ?c4 h = Some (q, c5)"
      using assms(2) Inr r got(1) a by (auto simp: opendir_host_def Let_def split: option.splits)
    note sm = dirs_same_simps [OF dirs_same_alloc_host_dir [OF a]]
    have tab: "ctx_dirs ?c4 = (ctx_dirs c)[h := zero_dir\<lparr>dir_in_use := True, host_dir := Some d, dd_fd := wfd\<rparr>]"
      using got len sm by simp
    have fk: "files_kept c ?c4" by (rule files_kept_refl [OF assms(1)]) (use sm got in simp)
    have "dirs_typed c5" by (rule finalised_typed [OF assms(1) fk got(1,2) tab f]) (simp_all add: zero_dir_def)
    then show ?thesis
      using assms(2) Inr r got(1) a f dir_fails_typed by (auto simp: opendir_host_def Let_def split: if_splits)
  qed
qed

lemma file_get_ptr_ok: "vfs_file_from_fd c fd = Some f \<Longrightarrow> file_ptr_ok c fd"
  by (auto simp: vfs_file_from_fd_def file_ptr_ok_def yos_file_get_def Let_def split: option.splits if_splits)

lemma ops_open_kept:
  assumes "dirs_typed c" and "ops_open rt ops c path = (fd, c')"
  shows "files_kept c c' \<and> ctx_dirs c' = ctx_dirs c"
proof -
  have l: "length (case procfs_fds c of None \<Rightarrow> yos_file_table_init | Some ft \<Rightarrow> ft) = YOS_MAX_VFS_FILES"
    using assms(1) by (auto simp: dirs_typed_def files_ok_def yos_file_table_init_def split: option.splits)
  have a: "length (snd (yos_file_alloc ft)) = length ft" for ft by (simp add: yos_file_alloc_def split: option.splits)
  have u: "length (file_update ft n g) = length ft" for ft n g by (simp add: file_update_def)
  show ?thesis
    using assms l a [of "case procfs_fds c of None \<Rightarrow> yos_file_table_init | Some ft \<Rightarrow> ft"] u files_kept_refl [OF assms(1) refl]
    by (cases ops) (auto simp: procfs_open_def Let_def files_kept_def files_ok_def split: prod.splits if_splits)
qed

lemma opendir_vfs_typed:
  assumes "dirs_typed c" and "opendir_vfs h2g rt c ops rest = Some (r, c', es)"
  shows "dirs_typed c'"
proof -
  obtain vfd c1 where o: "ops_open rt ops c rest = (vfd, c1)" by (cases "ops_open rt ops c rest")
  note k = ops_open_kept [OF assms(1) o]
  have t1: "dirs_typed c1" using dirs_typed_same [OF assms(1)] k by blast
  show ?thesis
  proof (cases "vfd < 0 \<or> vfs_file_from_fd c1 vfd = None")
    case True
    then show ?thesis using assms(2) o dir_fails_typed [OF t1] by (auto simp: opendir_vfs_def split: if_splits)
  next
    case False
    then obtain f where vf: "\<not> vfd < 0" "vfs_file_from_fd c1 vfd = Some f" by blast
    obtain h c2 where r: "slot_reserve c1 = (h, c2)" by (cases "slot_reserve c1")
    have cl: "snd (ops_close ops x vfd) = x" for x by (cases ops) (simp add: procfs_close_def)
    have len: "length (ctx_dirs c1) = YOS_DIR_MAX" using t1 by (simp add: dirs_typed_def)
    from len r show ?thesis
    proof (cases rule: slot_reserve_cases)
      case full
      then show ?thesis using assms(2) o r vf cl dir_fails_typed [OF t1] by (simp add: opendir_vfs_def)
    next
      case got
      let ?c3 = "upd_dir c2 h (\<lambda>s. s\<lparr>vfs_file := Some vfd, vfs_ops := Some ops, dd_fd := vfd\<rparr>)"
      obtain q c4 where fi: "slot_finalise ?c3 h = Some (q, c4)"
        using assms(2) o vf r got(1) by (auto simp: opendir_vfs_def Let_def split: option.splits)
      have tab: "ctx_dirs ?c3 = (ctx_dirs c1)[h := zero_dir\<lparr>dir_in_use := True, vfs_file := Some vfd, vfs_ops := Some ops, dd_fd := vfd\<rparr>]"
        using got len by simp
      have fk: "files_kept c1 ?c3" by (rule files_kept_refl [OF t1]) (use got in simp)
      have p: "file_ptr_ok ?c3 vfd" using file_get_ptr_ok [OF vf(2)] got by (simp add: file_ptr_ok_def)
      have "dirs_typed c4" by (rule finalised_typed [OF t1 fk got(1,2) tab fi]) (use p in \<open>simp_all add: zero_dir_def\<close>)
      then show ?thesis
        using assms(2) o vf r got(1) fi cl dir_fails_typed by (auto simp: opendir_vfs_def Let_def split: if_splits)
    qed
  qed
qed

lemma opendir_typed:
  assumes "dirs_typed c" and "yos_opendir h2g H rt c p = Some (r, c', es)"
  shows "dirs_typed c'"
proof -
  let ?path = "yos_path_resolve c (raw_str (memory c) (unat p))"
  consider "p = 0 \<or> memory_size c \<le> p" | ops rest where "\<not> (p = 0 \<or> memory_size c \<le> p)" "mounted (rt_mounts rt) ?path = Some (ops, rest)"
    | "\<not> (p = 0 \<or> memory_size c \<le> p)" "mounted (rt_mounts rt) ?path = None" by (cases "mounted (rt_mounts rt) ?path") auto
  then show ?thesis
  proof cases
    case 1
    then have "dir_fails h2g c EFAULT [] = Some (r, c', es)" using assms(2) unfolding yos_opendir_def by (simp only: if_True)
    then show ?thesis using dir_fails_typed [OF assms(1)] by blast
  next
    case 2
    then have "opendir_vfs h2g rt c ops rest = Some (r, c', es)"
      using assms(2) unfolding yos_opendir_def Let_def by (simp only: if_False option.case prod.case)
    then show ?thesis using opendir_vfs_typed [OF assms(1)] by blast
  next
    case 3
    then have "opendir_host h2g H c ?path = Some (r, c', es)"
      using assms(2) unfolding yos_opendir_def Let_def by (simp only: if_False option.case)
    then show ?thesis using opendir_host_typed [OF assms(1)] by blast
  qed
qed

lemma fdopendir_typed:
  assumes "dirs_typed c" and "yos_fdopendir h2g H c w = Some (r, c', es)"
  shows "dirs_typed c'"
proof -
  obtain hfd c1 where g: "yos_fd_get h2g c w = (hfd, c1)" by (cases "yos_fd_get h2g c w")
  have t1: "dirs_typed c1" using dirs_typed_dirs_same [OF assms(1) dirs_same_fds(3) [OF g]] .
  show ?thesis
  proof (cases "\<exists>d. 0 \<le> hfd \<and> h_fdopendir H hfd = Inr d")
    case False
    then show ?thesis using assms(2) g dir_fails_typed [OF t1] by (auto simp: yos_fdopendir_def not_less split: if_splits sum.splits)
  next
    case True
    then obtain d where d: "\<not> hfd < 0" "h_fdopendir H hfd = Inr d" by auto
    obtain h c2 where r: "slot_reserve c1 = (h, c2)" by (cases "slot_reserve c1")
    have len: "length (ctx_dirs c1) = YOS_DIR_MAX" using t1 by (simp add: dirs_typed_def)
    from len r show ?thesis
    proof (cases rule: slot_reserve_cases)
      case full
      then show ?thesis using assms(2) g r d dir_fails_typed [OF t1] by (simp add: yos_fdopendir_def)
    next
      case got
      let ?c3 = "upd_dir c2 h (\<lambda>s. s\<lparr>host_dir := Some d, dd_fd := w\<rparr>)"
      obtain q c4 where fi: "slot_finalise ?c3 h = Some (q, c4)"
        using assms(2) g d r got(1) by (auto simp: yos_fdopendir_def Let_def split: option.splits)
      have tab: "ctx_dirs ?c3 = (ctx_dirs c1)[h := zero_dir\<lparr>dir_in_use := True, host_dir := Some d, dd_fd := w\<rparr>]"
        using got len by simp
      have fk: "files_kept c1 ?c3" by (rule files_kept_refl [OF t1]) (use got in simp)
      have "dirs_typed c4" by (rule finalised_typed [OF t1 fk got(1,2) tab fi]) (simp_all add: zero_dir_def)
      then show ?thesis
        using assms(2) g d r got(1) fi dir_fails_typed by (auto simp: yos_fdopendir_def Let_def split: if_splits)
    qed
  qed
qed

section \<open>Reading returns and keeps the table typed\<close>

text \<open>One run of the entry loop, from any index: it stays in the buffer, and when it writes anything the index moves on
  within the directory.\<close>

lemma dents_loop_progress:
  "dents_loop es idx di pos buf cnt m = (pos', di', m') \<Longrightarrow> pos \<le> cnt \<Longrightarrow>
     pos \<le> pos' \<and> pos' \<le> cnt \<and> (pos < pos' \<longrightarrow> di < di' \<and> di' \<le> idx + length es) \<and> (pos' = pos \<longrightarrow> di' = di)"
proof (induction es arbitrary: idx di pos m)
  case (Cons e es)
  let ?r = "rec_len (snd (snd e))"
  have r: "0 < ?r" using rec_len_room(1) [of "snd (snd e)"] by simp
  consider "di \<le> idx" "cnt < pos + ?r" | "di \<le> idx" "pos + ?r \<le> cnt" | "idx < di" by linarith
  then show ?case
  proof cases
    case 2
    then have d: "dents_loop es (Suc idx) (Suc idx) (pos + ?r) buf cnt (put_dirent m (buf + pos) e) = (pos', di', m')"
      using Cons.prems(1) by simp
    show ?thesis using Cons.IH [OF d 2(2)] 2(1) r by auto
  next
    case 3
    then have d: "dents_loop es (Suc idx) di pos buf cnt m = (pos', di', m')" using Cons.prems(1) by simp
    show ?thesis using Cons.IH [OF d Cons.prems(2)] by auto
  qed (use Cons.prems in simp_all)
qed simp

lemma getdents_progress:
  assumes "ops_getdents64 rt ops m f 0 cnt = (n, m', f')" and "0 < n"
  shows "nat n \<le> cnt \<and> procfs_file_type f' = procfs_file_type f \<and> dir_index f < dir_index f' \<and>
    dir_index f' \<le> length (dir_entries rt f)"
proof -
  let ?t = "procfs_file_type f"
  have ty: "?t = YOS_PROCFS_ROOT \<or> ?t = YOS_PROCFS_PID_DIR" using assms by (cases ops) (auto simp: procfs_getdents64_def split: if_splits)
  then obtain pos di where d: "dents_loop (dir_entries rt f) 0 (dir_index f) 0 0 cnt m = (pos, di, m')" "n = int pos" "f' = f\<lparr>dir_index := di\<rparr>"
    using assms(1) by (cases ops) (auto simp: procfs_getdents64_def dir_entries_def split: prod.splits)
  show ?thesis using dents_loop_progress [OF d(1)] d(2,3) assms(2) by auto
qed

lemma deref_set_file:
  assumes "file_ptr_ok c fd" and "files_ok c"
  shows "file_deref (set_file c fd f) fd = f" and "files_kept c (set_file c fd f)" and "file_ptr_ok (set_file c fd f) fd"
  using assms by (auto simp: file_ptr_ok_def files_ok_def file_deref_def set_file_def file_update_def files_kept_def)

lemma ctx_dirs_set_file [simp]: "ctx_dirs (set_file c fd f) = ctx_dirs c"
  by (simp add: set_file_def)

lemma emit_typed: "dirs_typed c \<Longrightarrow> emit_fbsd_dirent c i a b t nm = (r, c') \<Longrightarrow> dirs_typed c'"
  by (erule dirs_typed_dirs_same) (auto simp: emit_fbsd_dirent_def Let_def dirs_same_def)

lemma upd_dir_typed:
  assumes "dirs_typed c" and "0 < i" and "i < YOS_DIR_MAX" and "dir_in_use (ctx_dirs c ! i) \<Longrightarrow> slot_typed c (g (ctx_dirs c ! i))"
    and "dir_in_use (g (ctx_dirs c ! i)) = dir_in_use (ctx_dirs c ! i)"
  shows "dirs_typed (upd_dir c i g)"
proof (rule dirs_typed_upd [OF assms(1) ctx_dirs_upd _ assms(2)])
  show k: "files_kept c (upd_dir c i g)" by (rule files_kept_refl [OF assms(1)]) simp
  show "slot_typed (upd_dir c i g) (g (ctx_dirs c ! i))" if "dir_in_use (g (ctx_dirs c ! i))"
    using assms(4,5) that k slot_typed_mono by blast
qed

definition vfs_stream :: "yos_exec_ctx \<Rightarrow> nat \<Rightarrow> fs_ops \<Rightarrow> int \<Rightarrow> bool" where
  "vfs_stream c i ops fd \<longleftrightarrow> 0 < i \<and> i < YOS_DIR_MAX \<and> dir_in_use (ctx_dirs c ! i) \<and>
     vfs_file (ctx_dirs c ! i) = Some fd \<and> vfs_ops (ctx_dirs c ! i) = Some ops"

definition dents_left :: "yos_runtime \<Rightarrow> yos_exec_ctx \<Rightarrow> int \<Rightarrow> nat" where
  "dents_left rt c fd = length (dir_entries rt (file_deref c fd)) - dir_index (file_deref c fd)"

definition unread :: "yos_runtime \<Rightarrow> yos_exec_ctx \<Rightarrow> nat \<Rightarrow> int \<Rightarrow> nat" where
  "unread rt c i fd = 2 * dents_left rt c fd + (if vfs_buf_pos (ctx_dirs c ! i) < vfs_buf_len (ctx_dirs c ! i) then 1 else 0)"

text \<open>The refill of the read-ahead buffer.\<close>

definition refilled :: "yos_exec_ctx \<Rightarrow> nat \<Rightarrow> int \<Rightarrow> mem \<Rightarrow> yos_file \<Rightarrow> nat \<Rightarrow> yos_exec_ctx" where
  "refilled c i fd b f n = upd_dir (set_file c fd f) i (\<lambda>s. s\<lparr>vfs_buf := b, vfs_buf_len := n, vfs_buf_pos := 0\<rparr>)"

lemma set_file_upd: "set_file (upd_dir c i g) fd f = upd_dir (set_file c fd f) i g"
  by (simp add: set_file_def upd_dir_def ctx_dirs_def)

lemma upd_dir_upd:
  assumes "i < length (ctx_dirs c)"
  shows "upd_dir (upd_dir c i g) i h = upd_dir c i (\<lambda>s. h (g s))"
  using assms by (simp add: upd_dir_def)

lemma vfs_stream_typed:
  assumes "dirs_typed c" and "vfs_stream c i ops fd"
  shows "slot_typed c (ctx_dirs c ! i)" "file_ptr_ok c fd" "files_ok c" "i < length (ctx_dirs c)"
  using assms by (auto simp: vfs_stream_def dirs_typed_def slot_typed_def)

lemma refill_typed:
  assumes "dirs_typed c" and "vfs_stream c i ops fd" and "n \<le> YOS_VFS_DIRBUF_SIZE"
  shows "dirs_typed (refilled c i fd b f n)" and "vfs_stream (refilled c i fd b f n) i ops fd"
    and "file_deref (refilled c i fd b f n) fd = f"
proof -
  note t = vfs_stream_typed [OF assms(1,2)]
  note d = deref_set_file [OF t(2,3), of f]
  have t1: "dirs_typed (set_file c fd f)" by (rule dirs_typed_same [OF assms(1) _ d(2)]) simp
  have "slot_typed (set_file c fd f) (ctx_dirs c ! i)" using slot_typed_mono [OF t(1) d(2)] .
  then show "dirs_typed (refilled c i fd b f n)"
    unfolding refilled_def using assms(2,3) by (intro upd_dir_typed [OF t1]) (auto simp: vfs_stream_def slot_typed_def)
  show "vfs_stream (refilled c i fd b f n) i ops fd" using assms(2) t(4) by (simp add: vfs_stream_def refilled_def)
  show "file_deref (refilled c i fd b f n) fd = f" using d(1) by (simp add: refilled_def file_deref_def)
qed

text \<open>The loop one step at a time: a record that does not fit the buffer, a record, the end, and a refill.\<close>

lemma readdir_bad:
  assumes "vfs_buf_pos (ctx_dirs c ! i) < vfs_buf_len (ctx_dirs c ! i)"
    and "rl = load16 (vfs_buf (ctx_dirs c ! i)) (vfs_buf_pos (ctx_dirs c ! i) + 16)"
    and "rl = 0 \<or> vfs_buf_len (ctx_dirs c ! i) < vfs_buf_pos (ctx_dirs c ! i) + rl"
  shows "readdir_vfs h2g rt i ops fd c =
    readdir_vfs h2g rt i ops fd (upd_dir c i (\<lambda>s. s\<lparr>vfs_buf_pos := vfs_buf_len (ctx_dirs c ! i)\<rparr>))"
proof -
  have "upd_dir c i (\<lambda>s. s\<lparr>vfs_buf_pos := vfs_buf_len s\<rparr>) = upd_dir c i (\<lambda>s. s\<lparr>vfs_buf_pos := vfs_buf_len (ctx_dirs c ! i)\<rparr>)"
    by (simp add: upd_dir_def)
  then show ?thesis using assms by (subst readdir_vfs.simps) (simp add: Let_def)
qed

lemma readdir_emit:
  assumes "s = ctx_dirs c ! i" and "vfs_buf_pos s < vfs_buf_len s" and "rl = load16 (vfs_buf s) (vfs_buf_pos s + 16)"
    and "rl \<noteq> 0" and "vfs_buf_pos s + rl \<le> vfs_buf_len s"
  shows "readdir_vfs h2g rt i ops fd c = Some (emit_fbsd_dirent (upd_dir c i (\<lambda>s'. s'\<lparr>vfs_buf_pos := vfs_buf_pos s + rl\<rparr>)) i
    (load64 (vfs_buf s) (vfs_buf_pos s)) (load64 (vfs_buf s) (vfs_buf_pos s + 8)) (vfs_buf s (vfs_buf_pos s + 18))
    (cstr (vfs_buf s) (vfs_buf_pos s + 19) YOS_VFS_DIRBUF_SIZE))"
  using assms by (subst readdir_vfs.simps) (simp add: Let_def)

lemma readdir_end:
  assumes "vfs_buf_len (ctx_dirs c ! i) \<le> vfs_buf_pos (ctx_dirs c ! i)" and "vfs_exhausted (ctx_dirs c ! i)"
  shows "readdir_vfs h2g rt i ops fd c = Some (0, c)"
  using assms by (subst readdir_vfs.simps) (simp add: Let_def)

lemma readdir_refill:
  assumes "vfs_buf_len (ctx_dirs c ! i) \<le> vfs_buf_pos (ctx_dirs c ! i)" and "\<not> vfs_exhausted (ctx_dirs c ! i)"
    and "ops_getdents64 rt ops (vfs_buf (ctx_dirs c ! i)) (file_deref c fd) 0 YOS_VFS_DIRBUF_SIZE = (n, b, f)" and "i < length (ctx_dirs c)"
  shows "n < 0 \<Longrightarrow> readdir_vfs h2g rt i ops fd c = Some (0, set_errno h2g (upd_dir (set_file c fd f) i (\<lambda>s. s\<lparr>vfs_buf := b\<rparr>)) (- n))"
    and "n = 0 \<Longrightarrow> readdir_vfs h2g rt i ops fd c = Some (0, upd_dir (set_file c fd f) i (\<lambda>s. s\<lparr>vfs_buf := b, vfs_exhausted := True\<rparr>))"
    and "0 < n \<Longrightarrow> readdir_vfs h2g rt i ops fd c = readdir_vfs h2g rt i ops fd (refilled c i fd b f (nat n))"
  using assms upd_dir_upd [of i "set_file c fd f"]
  by (subst readdir_vfs.simps, simp add: Let_def yos_errno_null_def refilled_def)+

lemma readdir_vfs_typed:
  assumes "dirs_typed c" and "vfs_stream c i ops fd"
  shows "\<exists>r c'. readdir_vfs h2g rt i ops fd c = Some (r, c') \<and> dirs_typed c'"
  using assms
proof (induction "unread rt c i fd" arbitrary: c rule: less_induct)
  case less
  let ?s = "ctx_dirs c ! i" and ?run = "readdir_vfs h2g rt i ops fd"
  let ?pos = "vfs_buf_pos ?s" and ?len = "vfs_buf_len ?s"
  define rl where "rl = load16 (vfs_buf ?s) (?pos + 16)"
  note t = vfs_stream_typed [OF less.prems]
  have i: "0 < i" "i < YOS_DIR_MAX" using less.prems(2) by (simp_all add: vfs_stream_def)
  have adv: "dirs_typed (upd_dir c i (\<lambda>s. s\<lparr>vfs_buf_pos := p\<rparr>))" if "p \<le> ?len" for p
    using t(1) that by (intro upd_dir_typed [OF less.prems(1) i]) (auto simp: slot_typed_def)
  obtain n b f where g: "ops_getdents64 rt ops (vfs_buf ?s) (file_deref c fd) 0 YOS_VFS_DIRBUF_SIZE = (n, b, f)"
    by (cases "ops_getdents64 rt ops (vfs_buf ?s) (file_deref c fd) 0 YOS_VFS_DIRBUF_SIZE")
  have fill: "dirs_typed (upd_dir (set_file c fd f) i (\<lambda>s. s\<lparr>vfs_buf := b, vfs_exhausted := x\<rparr>))" for x
  proof -
    note d = deref_set_file [OF t(2,3), of f]
    have ts: "dirs_typed (set_file c fd f)" by (rule dirs_typed_same [OF less.prems(1) _ d(2)]) simp
    show ?thesis using slot_typed_mono [OF t(1) d(2)] by (intro upd_dir_typed [OF ts i]) (auto simp: slot_typed_def)
  qed
  consider (bad) "?pos < ?len" "rl = 0 \<or> ?len < ?pos + rl" | (emit) "?pos < ?len" "rl \<noteq> 0" "?pos + rl \<le> ?len"
    | (finished) "?len \<le> ?pos" "vfs_exhausted ?s" | (refill) "?len \<le> ?pos" "\<not> vfs_exhausted ?s" by linarith
  then show ?case
  proof cases
    case bad
    let ?c = "upd_dir c i (\<lambda>s. s\<lparr>vfs_buf_pos := ?len\<rparr>)"
    have "vfs_stream ?c i ops fd" using less.prems(2) t(4) by (simp add: vfs_stream_def)
    moreover have "unread rt ?c i fd < unread rt c i fd" using bad(1) t(4) by (simp add: unread_def dents_left_def file_deref_def)
    ultimately show ?thesis using less.hyps adv [of ?len] readdir_bad [OF bad(1) rl_def bad(2)] by (metis order_refl)
  next
    case emit
    show ?thesis using readdir_emit [OF refl emit(1) rl_def emit(2,3)] emit_typed [OF adv [OF emit(3)]] by (metis surj_pair)
  next
    case finished
    then show ?thesis using readdir_end less.prems(1) by blast
  next
    case refill
    note e = readdir_refill [OF refill g t(4), of h2g]
    consider "n < 0" | "n = 0" | "0 < n" by linarith
    then show ?thesis
    proof cases
      case 1
      have "upd_dir (set_file c fd f) i (\<lambda>s. s\<lparr>vfs_buf := b\<rparr>) = upd_dir (set_file c fd f) i (\<lambda>s. s\<lparr>vfs_buf := b, vfs_exhausted := vfs_exhausted ?s\<rparr>)"
        by (simp add: upd_dir_def)
      then show ?thesis using e(1) [OF 1] dirs_typed_set_errno [OF fill [of "vfs_exhausted ?s"]] by simp
    next
      case 2
      show ?thesis using e(2) [OF 2] fill [of True] by blast
    next
      case 3
      note p = getdents_progress [OF g 3]
      have n: "nat n \<le> YOS_VFS_DIRBUF_SIZE" using p by simp
      note r = refill_typed [OF less.prems n, of b f]
      have "dir_entries rt f = dir_entries rt (file_deref c fd)" using p by (simp add: dir_entries_def)
      then have "dents_left rt (refilled c i fd b f (nat n)) fd < dents_left rt c fd"
        using r(3) p unfolding dents_left_def by (simp add: diff_less_mono2)
      then have "unread rt (refilled c i fd b f (nat n)) i fd < unread rt c i fd" by (simp add: unread_def)
      then show ?thesis using less.hyps r(1,2) e(3) [OF 3] by metis
    qed
  qed
qed

lemma readdir_typed:
  assumes "dirs_typed c"
  shows "\<exists>r c'. yos_readdir h2g (\<lambda>c. c) H rt c dd = Some (r, c') \<and> dirs_typed c'"
proof (cases "slot_from_dd c dd")
  case None
  then show ?thesis using dirs_typed_set_errno [OF assms] by (simp add: yos_readdir_def yos_errno_null_def)
next
  case (Some i)
  let ?s = "ctx_dirs c ! i"
  note s = slot_from_dd_typed [OF assms Some]
  show ?thesis
  proof (cases "vfs_file ?s")
    case None
    obtain r c' where h: "readdir_host h2g H i (the (host_dir ?s)) c = (r, c')" by (cases "readdir_host h2g H i (the (host_dir ?s)) c")
    then have "dirs_typed c'"
      using assms emit_typed [OF assms] dirs_typed_set_errno [OF assms]
      by (auto simp: readdir_host_def yos_errno_null_def split: sum.splits option.splits)
    then show ?thesis using Some None h by (simp add: yos_readdir_def Let_def)
  next
    case fd: (Some fd)
    then obtain ops where ops: "vfs_ops ?s = Some ops" using s by (auto simp: slot_typed_def)
    have "vfs_stream c i ops fd" using s fd ops by (simp add: vfs_stream_def)
    then show ?thesis using readdir_vfs_typed [OF assms] Some fd ops by (simp add: yos_readdir_def Let_def)
  qed
qed

lemma free_if_same: "free_if (Some c) p = Some c' \<Longrightarrow> dirs_same c c'"
  using dirs_same_free by (auto simp: free_if_def dirs_same_def split: if_splits)

lemma close_backend_ctx: "close_backend H c s = (rc, c1, es) \<Longrightarrow> c1 = c"
  by (cases "vfs_ops s") (auto simp: close_backend_def procfs_close_def elim: ops_close.elims split: option.splits prod.splits)

lemma close_dd_fd_same: "close_dd_fd h2g H c w = (c', es) \<Longrightarrow> dirs_same c c'"
  using dirs_same_fds(2) [of h2g "h_close H" c w] by (auto simp: close_dd_fd_def dirs_same_def split: if_splits prod.splits)

text \<open>What closing an accepted handle does, in order.\<close>

lemma closedir_Some:
  assumes "slot_from_dd c dd = Some i" and "yos_closedir h2g H c dd = Some (r, c', es)"
  obtains rc c2 es1 es2 c3 c4 where "close_backend H c (ctx_dirs c ! i) = (rc, c, es1)" "close_dd_fd h2g H c (dd_fd (ctx_dirs c ! i)) = (c2, es2)"
    "free_if (Some (upd_dir c2 i (\<lambda>_. zero_dir\<lparr>dd_fd := - 1\<rparr>))) (scratch_off (ctx_dirs c ! i)) = Some c3"
    "free_if (Some c3) (dd_off (ctx_dirs c ! i)) = Some c4" "c' = (if rc < 0 then set_errno h2g c4 (- rc) else c4)"
    "es = es1 @ es2" "r = (if rc < 0 then - 1 else 0)"
proof -
  obtain rc c1 es1 where b: "close_backend H c (ctx_dirs c ! i) = (rc, c1, es1)" by (cases "close_backend H c (ctx_dirs c ! i)")
  note b' = close_backend_ctx [OF b]
  obtain c2 es2 where d: "close_dd_fd h2g H c (dd_fd (ctx_dirs c ! i)) = (c2, es2)" by (cases "close_dd_fd h2g H c (dd_fd (ctx_dirs c ! i))")
  obtain c4 where f: "free_if (free_if (Some (upd_dir c2 i (\<lambda>_. zero_dir\<lparr>dd_fd := - 1\<rparr>))) (scratch_off (ctx_dirs c ! i))) (dd_off (ctx_dirs c ! i)) = Some c4"
    and res: "c' = (if rc < 0 then set_errno h2g c4 (- rc) else c4)" "es = es1 @ es2" "r = (if rc < 0 then - 1 else 0)"
    using assms b b' d by (auto simp: yos_closedir_def Let_def split: if_splits)
  obtain c3 where "free_if (Some (upd_dir c2 i (\<lambda>_. zero_dir\<lparr>dd_fd := - 1\<rparr>))) (scratch_off (ctx_dirs c ! i)) = Some c3"
    using f by (cases "free_if (Some (upd_dir c2 i (\<lambda>_. zero_dir\<lparr>dd_fd := - 1\<rparr>))) (scratch_off (ctx_dirs c ! i))") (simp_all add: free_if_def)
  then show thesis using that b b' d f res by simp
qed

lemma closedir_typed:
  assumes "dirs_typed c" and "yos_closedir h2g H c dd = Some (r, c', es)"
  shows "dirs_typed c'"
proof (cases "slot_from_dd c dd")
  case None
  then show ?thesis using assms dirs_typed_set_errno [OF assms(1)] by (auto simp: yos_closedir_def)
next
  case (Some i)
  note s = slot_from_dd_typed [OF assms(1) Some]
  from Some assms(2) show ?thesis
  proof (rule closedir_Some)
    fix rc :: int and c2 es1 es2 c3 c4
    let ?c3 = "upd_dir c2 i (\<lambda>_. zero_dir\<lparr>dd_fd := - 1\<rparr>)"
    assume d: "close_dd_fd h2g H c (dd_fd (ctx_dirs c ! i)) = (c2, es2)"
      and f: "free_if (Some ?c3) (scratch_off (ctx_dirs c ! i)) = Some c3" "free_if (Some c3) (dd_off (ctx_dirs c ! i)) = Some c4"
      and c': "c' = (if rc < 0 then set_errno h2g c4 (- rc) else c4)"
    have "dirs_typed c2" using dirs_typed_dirs_same [OF assms(1) close_dd_fd_same [OF d]] .
    then have "dirs_typed ?c3"
      using s by (intro dirs_typed_upd [OF _ ctx_dirs_upd]) (simp_all add: files_kept_refl zero_dir_def)
    then have "dirs_typed c4" using f dirs_typed_dirs_same free_if_same by blast
    then show "dirs_typed c'" using c' dirs_typed_set_errno by simp
  qed
qed

lemma rewinddir_typed:
  assumes "dirs_typed c"
  shows "dirs_typed (yos_rewinddir c dd)"
proof (cases "slot_from_dd c dd")
  case (Some i)
  note s = slot_from_dd_typed [OF assms Some]
  show ?thesis
  proof (cases "host_dir (ctx_dirs c ! i) = None \<and> vfs_file (ctx_dirs c ! i) \<noteq> None")
    case True
    then obtain fd where fd: "vfs_file (ctx_dirs c ! i) = Some fd" by blast
    define f where "f = (file_deref c fd)\<lparr>dir_index := 0\<rparr>"
    have d: "files_kept c (set_file c fd f)"
      using deref_set_file(2) assms s fd by (simp add: dirs_typed_def slot_typed_def)
    have t: "dirs_typed (set_file c fd f)" by (rule dirs_typed_same [OF assms _ d]) simp
    have "slot_typed (set_file c fd f) (ctx_dirs c ! i)" using slot_typed_mono d s by blast
    then have "dirs_typed (upd_dir (set_file c fd f) i (\<lambda>s. s\<lparr>vfs_buf_len := 0, vfs_buf_pos := 0, vfs_exhausted := False\<rparr>))"
      using s by (intro upd_dir_typed [OF t]) (auto simp: slot_typed_def)
    then show ?thesis using Some True fd by (simp add: yos_rewinddir_def Let_def f_def)
  qed (use Some assms in \<open>auto simp: yos_rewinddir_def Let_def split: option.splits\<close>)
qed (use assms in \<open>simp add: yos_rewinddir_def\<close>)

section \<open>Histories\<close>

text \<open>
  What can happen to a context's streams: directory calls that return, with any arguments and any host, arbitrary
  stores of the guest into its memory, and changes of the virtual file table by other calls.
\<close>

inductive dir_history :: "(int \<Rightarrow> int) \<Rightarrow> yos_exec_ctx \<Rightarrow> yos_exec_ctx \<Rightarrow> bool" for h2g c0 where
  start: "dir_history h2g c0 c0"
| guest: "dir_history h2g c0 c \<Longrightarrow> dir_history h2g c0 (c\<lparr>memory := m\<rparr>)"
| files: "dir_history h2g c0 c \<Longrightarrow> length ft = YOS_MAX_VFS_FILES \<Longrightarrow> dir_history h2g c0 (c\<lparr>procfs_fds := Some ft\<rparr>)"
| opendir: "dir_history h2g c0 c \<Longrightarrow> yos_opendir h2g H rt c p = Some (r, c', es) \<Longrightarrow> dir_history h2g c0 c'"
| fdopendir: "dir_history h2g c0 c \<Longrightarrow> yos_fdopendir h2g H c w = Some (r, c', es) \<Longrightarrow> dir_history h2g c0 c'"
| readdir: "dir_history h2g c0 c \<Longrightarrow> yos_readdir h2g (\<lambda>c. c) H rt c dd = Some (r, c') \<Longrightarrow> dir_history h2g c0 c'"
| closedir: "dir_history h2g c0 c \<Longrightarrow> yos_closedir h2g H c dd = Some (n, c', es) \<Longrightarrow> dir_history h2g c0 c'"
| dirfd: "dir_history h2g c0 c \<Longrightarrow> yos_dirfd h2g c dd = (n, c') \<Longrightarrow> dir_history h2g c0 c'"
| rewinddir: "dir_history h2g c0 c \<Longrightarrow> dir_history h2g c0 (yos_rewinddir c dd)"

lemma dirs_typed_start: "dir_slots c = None \<Longrightarrow> procfs_fds c = None \<Longrightarrow> dirs_typed c"
  by (simp add: dirs_typed_def files_ok_def ctx_dirs_def zero_dir_def)

lemma history_typed: "dir_history h2g c0 c \<Longrightarrow> dirs_typed c0 \<Longrightarrow> dirs_typed c"
proof (induction rule: dir_history.induct)
  case (guest c m)
  then show ?case using dirs_typed_dirs_same [of c] by (simp add: dirs_same_def)
next
  case (files c ft)
  then show ?case using dirs_typed_same [of c] by (simp add: files_kept_def files_ok_def)
next
  case (readdir c H rt dd r c')
  then show ?case using readdir_typed [of c h2g H rt dd] by auto
next
  case (dirfd c dd n c')
  then show ?case using dirs_typed_set_errno by (auto simp: yos_dirfd_def Let_def yos_errno_neg_def split: option.splits if_splits)
next
  case (opendir c H rt p r c' es)
  then show ?case using opendir_typed [of c] by simp
next
  case (fdopendir c H w r c' es)
  then show ?case using fdopendir_typed [of c] by simp
next
  case (closedir c H dd n c' es)
  then show ?case using closedir_typed [of c] by simp
next
  case (rewinddir c dd)
  then show ?case using rewinddir_typed [of c] by simp
qed simp

end
