(* ===== verification/DirProps.thy ===== *)
theory DirProps
  imports DirTyped
begin

text \<open>
  What a guest sees of its directory streams: the record a read leaves in guest memory, complete listings of the virtual
  directories, and that opening and closing a stream gives back its slot, its memory and its host descriptors.  The
  stream's two allocations are used through the laws of the guest heap (locale \<open>guest_heap\<close>).
\<close>

section \<open>An open stream\<close>

definition stream_at :: "yos_exec_ctx \<Rightarrow> range list \<Rightarrow> nat \<Rightarrow> u32 \<Rightarrow> bool" where
  "stream_at c P i dd \<longleftrightarrow> 0 < i \<and> i < YOS_DIR_MAX \<and> dir_in_use (ctx_dirs c ! i) \<and> dd_off (ctx_dirs c ! i) = dd \<and> dd \<noteq> 0 \<and>
     scratch_off (ctx_dirs c ! i) \<noteq> 0 \<and> load32 (memory c) (unat dd + 4) = of_nat i \<and>
     (\<exists>k1 k2. YOS_FBSD_DIRENT_SIZE \<le> k1 \<and> YOS_DD_SIZE \<le> k2 \<and>
        heap_owns c ((unat dd, k2) # (unat (scratch_off (ctx_dirs c ! i)), k1) # P))"

lemma heap_owns_upd_dir [simp]: "heap_owns (upd_dir c i f) P = heap_owns c P"
proof -
  have "same_heap c (upd_dir c i f)" "same_heap (upd_dir c i f) c" by (simp_all add: same_heap_def)
  then show ?thesis using yos_heap.inv_same_heap by blast
qed

lemma heap_owns_set_file [simp]: "heap_owns (set_file c fd f) P = heap_owns c P"
proof -
  have "same_heap c (set_file c fd f)" "same_heap (set_file c fd f) c" by (simp_all add: same_heap_def set_file_def)
  then show ?thesis using yos_heap.inv_same_heap by blast
qed

lemma stream_at_slot:
  assumes "stream_at c P i dd"
  shows "slot_from_dd c dd = Some i"
proof -
  obtain k1 k2 where k: "YOS_DD_SIZE \<le> k2" "heap_owns c ((unat dd, k2) # (unat (scratch_off (ctx_dirs c ! i)), k1) # P)"
    using assms by (auto simp: stream_at_def)
  have i: "unat (of_nat i :: u32) = i" using assms by (simp add: stream_at_def unat_of_nat_u32)
  have "slot_get c (load32 (memory c) (unat dd + 4)) = Some i" using assms i by (simp add: stream_at_def slot_get_Some)
  then show ?thesis using assms yos_heap.inv_range [OF k(2)] k(1) by (simp add: slot_from_dd_def stream_at_def)
qed

section \<open>The record in guest memory\<close>

text \<open>What the guest's C library reads at \<open>a\<close>: file number, record length, type, name length and name.\<close>

definition guest_dirent :: "mem \<Rightarrow> nat \<Rightarrow> u64 \<times> nat \<times> u8 \<times> nat \<times> string" where
  "guest_dirent m a = (load64 m a, load16 m (a + 16), m (a + 18), load16 m (a + 20), cstr m (a + 24) (a + YOS_FBSD_DIRENT_SIZE))"

definition fbsd_view :: "u64 \<Rightarrow> u8 \<Rightarrow> string \<Rightarrow> u64 \<times> nat \<times> u8 \<times> nat \<times> string" where
  "fbsd_view ino ty name = (ino, fbsd_reclen (length name), ty, length name, name)"

lemma emit_memory:
  assumes "emit_fbsd_dirent c i ino off_v ty name = (r, c')" and "length name \<le> 255" and "CHR 0x00 \<notin> set name"
  shows "r = scratch_off (ctx_dirs c ! i)" and "guest_dirent (memory c') (unat r) = fbsd_view ino ty name"
    and "j < unat r \<or> unat r + YOS_FBSD_DIRENT_SIZE \<le> j \<Longrightarrow> memory c' j = memory c j" and "\<exists>m. c' = c\<lparr>memory := m\<rparr>"
proof -
  let ?d = "unat (scratch_off (ctx_dirs c ! i))" and ?n = "length name"
  let ?m1 = "mem_fill (memory c) ?d 0 YOS_FBSD_DIRENT_SIZE"
  let ?m2 = "store16 (store64 (store64 ?m1 ?d ino) (?d + 8) off_v) (?d + 16) (of_nat (fbsd_reclen ?n))"
  let ?m3 = "store16 (?m2(?d + 18 := ty)) (?d + 20) (of_nat ?n)"
  let ?m4 = "mem_write ?m3 (?d + 24) (map byte_of name)"
  have e: "r = scratch_off (ctx_dirs c ! i)" "c' = c\<lparr>memory := ?m4\<rparr>"
    using assms(1,2) by (auto simp: emit_fbsd_dirent_def Let_def min_absorb2)
  have m: "memory c' = ?m4" using e(2) by simp
  show "r = scratch_off (ctx_dirs c ! i)" "\<exists>m. c' = c\<lparr>memory := m\<rparr>" using e by auto
  show "memory c' j = memory c j" if "j < unat r \<or> unat r + YOS_FBSD_DIRENT_SIZE \<le> j"
    using that e(1) m assms(2) by (auto simp: mem_write_def store16_def store64_out mem_fill_out)
  have lo: "?m4 j = ?m3 j" if "j < ?d + 24" for j using that by (simp add: mem_write_def)
  have "load64 ?m4 ?d = load64 (store64 ?m1 ?d ino) ?d"
    by (rule load64_cong) (use lo in \<open>auto simp: store16_def store64_out\<close>)
  then have f: "load64 ?m4 ?d = ino" by simp
  have "load16 ?m4 (?d + 16) = load16 ?m2 (?d + 16)"
    unfolding load16_def using lo [of "?d + 16"] lo [of "?d + 16 + 1"] by (simp add: store16_def)
  moreover have "fbsd_reclen ?n < 65536" using assms(2) unfolding fbsd_reclen_def by linarith
  ultimately have l: "load16 ?m4 (?d + 16) = fbsd_reclen ?n" by (simp add: load16_store16)
  have "load16 ?m4 (?d + 20) = load16 ?m3 (?d + 20)"
    unfolding load16_def using lo [of "?d + 20"] lo [of "?d + 20 + 1"] by simp
  then have n: "load16 ?m4 (?d + 20) = ?n" using assms(2) by (simp add: load16_store16)
  have t: "?m4 (?d + 18) = ty" using lo [of "?d + 18"] by (simp add: store16_def)
  have "?m4 (?d + 24 + j) = c_bytes name ! j" if "j \<le> ?n" for j
    using that assms(2) by (auto simp: mem_write_def c_bytes_def nth_append store16_def store64_out mem_fill_def)
  then have s: "cstr ?m4 (?d + 24) (?d + YOS_FBSD_DIRENT_SIZE) = name" using cstr_c_bytes [OF assms(3)] assms(2) by simp
  show "guest_dirent (memory c') (unat r) = fbsd_view ino ty name"
    unfolding guest_dirent_def fbsd_view_def m e(1) using f l n t s by simp
qed

lemma emit_stream:
  assumes "stream_at c P i dd" and "emit_fbsd_dirent c i ino off_v ty name = (r, c')" and "length name \<le> 255" and "CHR 0x00 \<notin> set name"
  shows "stream_at c' P i dd"
proof -
  note e = emit_memory [OF assms(2-4)]
  obtain m where c': "c' = c\<lparr>memory := m\<rparr>" using e(4) by blast
  obtain k1 k2 where k: "YOS_FBSD_DIRENT_SIZE \<le> k1" "YOS_DD_SIZE \<le> k2" "heap_owns c ((unat dd, k2) # (unat r, k1) # P)"
    using assms(1) e(1) by (auto simp: stream_at_def)
  have k': "heap_owns c ((unat r, k1) # (unat dd, k2) # P)" using yos_heap.inv_mset [OF k(3)] by simp
  have out: "m j = memory c j" if "j < unat r \<or> unat r + k1 \<le> j" for j using e(3) [of j] that k(1) c' by auto
  have "heap_owns c' ((unat r, k1) # (unat dd, k2) # P)" unfolding c' by (rule yos_heap.store_owned [OF k' out])
  then have o: "heap_owns c' ((unat dd, k2) # (unat r, k1) # P)" using yos_heap.inv_mset by fastforce
  have dj: "\<not> (unat r \<le> j \<and> j < unat r + k1)" if "unat dd \<le> j" "j < unat dd + 8" for j
    using yos_heap.inv_disjoint [OF k(3), of j] that k(2) by simp
  have "load32 (memory c') (unat dd + 4) = load32 (memory c) (unat dd + 4)"
    by (rule load32_cong) (use out dj c' in \<open>auto simp: not_le not_less\<close>)
  then show ?thesis using assms(1) k(1,2) o e(1) c' unfolding stream_at_def by auto
qed

section \<open>Giving a stream its memory\<close>

lemma finalise_stream:
  assumes "heap_owns c P" and "length (ctx_dirs c) = YOS_DIR_MAX" and "0 < h" and "h < YOS_DIR_MAX" and "dir_in_use (ctx_dirs c ! h)"
    and "slot_finalise c h = Some (r, c')" and "\<not> r < 0"
  shows "stream_at c' P h (dd_off (ctx_dirs c' ! h))" and "\<exists>a b. ctx_dirs c' = (ctx_dirs c)[h := (ctx_dirs c ! h)\<lparr>scratch_off := a, dd_off := b\<rparr>]"
    and "procfs_fds c' = procfs_fds c" and "fd_map c' = fd_map c" and "fd_paths c' = fd_paths c"
proof -
  obtain s c1 where m1: "yos_malloc c 280 = (s, c1)" by (cases "yos_malloc c 280")
  let ?c2 = "upd_dir c1 h (\<lambda>d. d\<lparr>scratch_off := s\<rparr>)"
  obtain p c3 where m2: "yos_malloc ?c2 8 = (p, c3)" by (cases "yos_malloc ?c2 8")
  let ?c4 = "upd_dir c3 h (\<lambda>d. d\<lparr>dd_off := p\<rparr>)"
  let ?m = "store32 (store32 (memory c3) (unat p) (word_of_int (dd_fd (ctx_dirs c3 ! h)))) (unat p + 4) (of_nat h)"
  note s1 = dirs_same_simps [OF dirs_same_malloc [OF m1]]
  note s2 = dirs_same_simps [OF dirs_same_malloc [OF m2]]
  have ne: "s \<noteq> 0" "p \<noteq> 0" using assms(6,7) m1 m2 by (auto simp: slot_finalise_def Let_def split: if_splits)
  have lt: "h < length (ctx_dirs c)" using assms(2,4) by simp
  have tab: "ctx_dirs c3 = (ctx_dirs c)[h := (ctx_dirs c ! h)\<lparr>scratch_off := s\<rparr>]" using s1 s2 by simp
  have "dd_fd (ctx_dirs ?c4 ! h) = dd_fd (ctx_dirs c3 ! h)" using lt tab by simp
  then have c': "c' = ?c4\<lparr>memory := ?m\<rparr>" using assms(6) m1 m2 ne by (auto simp: slot_finalise_def Let_def)
  obtain k1 where k1: "280 \<le> k1" "heap_owns c1 ((unat s, k1) # P)"
    using yos_heap.malloc_owned [OF assms(1) m1 ne(1)] by auto
  then have o2: "heap_owns ?c2 ((unat s, k1) # P)" by simp
  obtain k2 where k2: "8 \<le> k2" "heap_owns c3 ((unat p, k2) # (unat s, k1) # P)"
    using yos_heap.malloc_owned [OF o2 m2 ne(2)] by auto
  have "heap_owns (c3\<lparr>memory := ?m\<rparr>) ((unat p, k2) # (unat s, k1) # P)"
    by (rule yos_heap.store_owned [OF k2(2)]) (use k2(1) in \<open>auto simp: store32_other\<close>)
  moreover have "same_heap (c3\<lparr>memory := ?m\<rparr>) c'" by (simp add: same_heap_def c')
  ultimately have own: "heap_owns c' ((unat p, k2) # (unat s, k1) # P)" using yos_heap.inv_same_heap by blast
  have final: "ctx_dirs c' = (ctx_dirs c)[h := (ctx_dirs c ! h)\<lparr>scratch_off := s, dd_off := p\<rparr>]" using c' tab lt by simp
  then show "\<exists>a b. ctx_dirs c' = (ctx_dirs c)[h := (ctx_dirs c ! h)\<lparr>scratch_off := a, dd_off := b\<rparr>]" by blast
  have at: "ctx_dirs c' ! h = (ctx_dirs c ! h)\<lparr>scratch_off := s, dd_off := p\<rparr>" using final lt by simp
  have "load32 (memory c') (unat p + 4) = of_nat h" by (simp add: c')
  then show "stream_at c' P h (dd_off (ctx_dirs c' ! h))"
    unfolding stream_at_def at using assms(3,4,5) ne own k1(1) k2(1) by auto
  have "heap_only c c1" "heap_only ?c2 c3"
    using yos_heap.malloc_frame [OF assms(1) m1] yos_heap.malloc_frame [OF o2 m2] by blast+
  then show "procfs_fds c' = procfs_fds c" "fd_map c' = fd_map c" "fd_paths c' = fd_paths c" by (auto simp: heap_only_def c')
qed

section \<open>Reading a virtual directory\<close>

text \<open>The entries \<open>es\<close> lie in the read-ahead buffer, the rest is still with the file.\<close>

definition buffered :: "yos_runtime \<Rightarrow> yos_exec_ctx \<Rightarrow> nat \<Rightarrow> int \<Rightarrow> dent list \<Rightarrow> bool" where
  "buffered rt c i fd es \<longleftrightarrow> (let s = ctx_dirs c ! i; f = file_deref c fd in
     vfs_buf_len s \<le> YOS_VFS_DIRBUF_SIZE \<and> vfs_buf_pos s + offset es (length es) = vfs_buf_len s \<and>
     (\<forall>j<length es. record_at (vfs_buf s) (vfs_buf_pos s + offset es j) (es ! j)) \<and>
     (\<forall>e\<in>set es. CHR 0x00 \<notin> set (snd (snd e)) \<and> dent_len e \<le> 32) \<and>
     procfs_file_type f \<in> {YOS_PROCFS_ROOT, YOS_PROCFS_PID_DIR} \<and> dir_index f \<le> length (dir_entries rt f) \<and>
     (vfs_exhausted s \<longrightarrow> dir_index f = length (dir_entries rt f)))"

definition to_come :: "yos_runtime \<Rightarrow> yos_exec_ctx \<Rightarrow> int \<Rightarrow> dent list \<Rightarrow> dent list" where
  "to_come rt c fd es = es @ drop (dir_index (file_deref c fd)) (dir_entries rt (file_deref c fd))"

definition listing :: "yos_runtime \<Rightarrow> range list \<Rightarrow> yos_exec_ctx \<Rightarrow> nat \<Rightarrow> u32 \<Rightarrow> int \<Rightarrow> dent list \<Rightarrow> bool" where
  "listing rt P c i dd fd es \<longleftrightarrow> stream_at c P i dd \<and> dirs_typed c \<and> vfs_stream c i yos_procfs_ops fd \<and>
     host_dir (ctx_dirs c ! i) = None \<and> dd_fd (ctx_dirs c ! i) = fd \<and> buffered rt c i fd es"

definition dent_view :: "dent \<Rightarrow> u64 \<times> nat \<times> u8 \<times> nat \<times> string" where
  "dent_view e = fbsd_view (word_of_int (fst e)) (fst (snd e)) (snd (snd e))"

lemma stream_at_upd:
  assumes "stream_at c P i dd" and "i < length (ctx_dirs c)" and "\<And>s. dir_in_use (g s) = dir_in_use s"
    and "\<And>s. dd_off (g s) = dd_off s" and "\<And>s. scratch_off (g s) = scratch_off s"
  shows "stream_at (upd_dir c i g) P i dd" and "stream_at (upd_dir (set_file c fd f) i g) P i dd"
  using assms by (simp_all add: stream_at_def) (simp_all add: set_file_def)

text \<open>A buffered entry is delivered.\<close>

lemma read_buffered:
  assumes "listing rt P c i dd fd (e # es)"
  shows "\<exists>c'. readdir_vfs h2g rt i yos_procfs_ops fd c = Some (scratch_off (ctx_dirs c ! i), c') \<and> scratch_off (ctx_dirs c ! i) \<noteq> 0 \<and>
    guest_dirent (memory c') (unat (scratch_off (ctx_dirs c ! i))) = dent_view e \<and> listing rt P c' i dd fd es \<and>
    file_deref c' fd = file_deref c fd"
proof -
  obtain ino ty name where e: "e = (ino, ty, name)" by (cases e)
  let ?s = "ctx_dirs c ! i" and ?rl = "rec_len name"
  have L: "stream_at c P i dd" "dirs_typed c" "vfs_stream c i yos_procfs_ops fd" and b: "buffered rt c i fd (e # es)"
    using assms by (simp_all add: listing_def)
  note t = vfs_stream_typed [OF L(2,3)]
  have i: "0 < i" "i < YOS_DIR_MAX" using L(3) by (simp_all add: vfs_stream_def)
  have nm: "CHR 0x00 \<notin> set name" "dent_len e \<le> 32" using b by (simp_all add: buffered_def Let_def e)
  have len: "vfs_buf_pos ?s + (?rl + offset es (length es)) = vfs_buf_len ?s" "vfs_buf_len ?s \<le> YOS_VFS_DIRBUF_SIZE"
    using b by (simp_all add: buffered_def Let_def e offset_Suc dent_len_def)
  have rec: "record_at (vfs_buf ?s) (vfs_buf_pos ?s) e" using b by (auto simp: buffered_def Let_def offset_Suc dest: spec [of _ 0])
  have room: "20 + length name \<le> ?rl" "length name \<le> 255" using rec_len_room(1) [of name] nm(2) by (simp_all add: dent_len_def e)
  have r: "load16 (vfs_buf ?s) (vfs_buf_pos ?s + 16) = ?rl" "load64 (vfs_buf ?s) (vfs_buf_pos ?s) = word_of_int ino"
      "vfs_buf ?s (vfs_buf_pos ?s + 18) = ty" and nb: "\<And>k. k \<le> length name \<Longrightarrow> vfs_buf ?s (vfs_buf_pos ?s + 19 + k) = c_bytes name ! k"
    using rec by (simp_all add: record_at_def e)
  have str: "cstr (vfs_buf ?s) (vfs_buf_pos ?s + 19) YOS_VFS_DIRBUF_SIZE = name" using cstr_c_bytes [OF nm(1) _ nb] room(1) len by simp
  let ?c1 = "upd_dir c i (\<lambda>s'. s'\<lparr>vfs_buf_pos := vfs_buf_pos ?s + ?rl\<rparr>)"
  obtain q c' where em: "emit_fbsd_dirent ?c1 i (word_of_int ino) (load64 (vfs_buf ?s) (vfs_buf_pos ?s + 8)) ty name = (q, c')" by fastforce
  have run: "readdir_vfs h2g rt i yos_procfs_ops fd c = Some (q, c')"
    using readdir_emit [OF refl, of c i ?rl h2g rt yos_procfs_ops fd] r str em room(1) len(1) by simp
  note m = emit_memory [OF em room(2) nm(1)]
  have q: "q = scratch_off ?s" using m(1) t(4) by simp
  obtain mm where c': "c' = ?c1\<lparr>memory := mm\<rparr>" using m(4) by blast
  have s1: "stream_at ?c1 P i dd" by (rule stream_at_upd(1) [OF L(1) t(4)]) simp_all
  have "dirs_typed ?c1" using t(1) len by (intro upd_dir_typed [OF L(2) i]) (auto simp: slot_typed_def)
  then have "dirs_typed c'" using emit_typed em by blast
  moreover have "record_at (vfs_buf ?s) (vfs_buf_pos ?s + ?rl + offset es j) (es ! j)" if "j < length es" for j
  proof -
    have "record_at (vfs_buf ?s) (vfs_buf_pos ?s + offset (e # es) (Suc j)) ((e # es) ! Suc j)"
      using b that unfolding buffered_def Let_def by (metis Suc_less_eq length_Cons)
    then show ?thesis by (simp add: offset_Suc dent_len_def e add.assoc)
  qed
  then have "buffered rt c' i fd es"
    using b len t(4) unfolding c' by (auto simp: buffered_def Let_def file_deref_def)
  moreover have "vfs_stream c' i yos_procfs_ops fd" using L(3) t(4) by (simp add: c' vfs_stream_def)
  moreover have "host_dir (ctx_dirs c' ! i) = None" "dd_fd (ctx_dirs c' ! i) = fd" using assms t(4) by (simp_all add: c' listing_def)
  ultimately have "listing rt P c' i dd fd es" using emit_stream [OF s1 em room(2) nm(1)] by (simp add: listing_def)
  moreover have "file_deref c' fd = file_deref c fd" by (simp add: c' file_deref_def)
  moreover have "guest_dirent (memory c') (unat q) = dent_view e" using m(2) by (simp add: dent_view_def e)
  ultimately show ?thesis using run q L(1) by (auto simp: stream_at_def)
qed

text \<open>With an empty buffer the directory is at its end, or a refill brings the next entries.\<close>

lemma read_empty:
  assumes "listing rt P c i dd fd []" and "\<forall>p\<in>set (procs rt). int32 (pid p)"
  shows "(to_come rt c fd [] = [] \<and> (\<exists>c'. readdir_vfs h2g rt i yos_procfs_ops fd c = Some (0, c') \<and> listing rt P c' i dd fd [] \<and> to_come rt c' fd [] = []))
    \<or> (\<exists>c' e es. readdir_vfs h2g rt i yos_procfs_ops fd c = readdir_vfs h2g rt i yos_procfs_ops fd c' \<and>
         scratch_off (ctx_dirs c' ! i) = scratch_off (ctx_dirs c ! i) \<and> listing rt P c' i dd fd (e # es) \<and> to_come rt c' fd (e # es) = to_come rt c fd [])"
proof -
  let ?s = "ctx_dirs c ! i" and ?f = "file_deref c fd" and ?run = "readdir_vfs h2g rt i yos_procfs_ops fd"
  have L: "stream_at c P i dd" "dirs_typed c" "vfs_stream c i yos_procfs_ops fd" and b: "buffered rt c i fd []"
    and hd: "host_dir ?s = None" "dd_fd ?s = fd" using assms(1) by (simp_all add: listing_def)
  note t = vfs_stream_typed [OF L(2,3)]
  have pl: "vfs_buf_len ?s \<le> vfs_buf_pos ?s" using b by (simp add: buffered_def Let_def offset_def)
  have fty: "procfs_file_type ?f \<in> {YOS_PROCFS_ROOT, YOS_PROCFS_PID_DIR}" "dir_index ?f \<le> length (dir_entries rt ?f)"
    using b by (simp_all add: buffered_def Let_def)
  show ?thesis
  proof (cases "vfs_exhausted ?s")
    case True
    then have "to_come rt c fd [] = []" using b by (simp add: buffered_def Let_def to_come_def)
    then show ?thesis using readdir_end [OF pl True] assms(1) by blast
  next
    case more: False
    obtain n m' f' where g: "procfs_getdents64 rt (vfs_buf ?s) ?f 0 YOS_VFS_DIRBUF_SIZE = (n, m', f')"
      by (cases "procfs_getdents64 rt (vfs_buf ?s) ?f 0 YOS_VFS_DIRBUF_SIZE")
    have g': "ops_getdents64 rt yos_procfs_ops (vfs_buf ?s) ?f 0 YOS_VFS_DIRBUF_SIZE = (n, m', f')" using g by simp
    let ?d = "drop (dir_index ?f) (dir_entries rt ?f)"
    obtain k where w: "wrote ?d k 0 0 YOS_VFS_DIRBUF_SIZE (vfs_buf ?s) (nat n) k m'" and f': "f' = ?f\<lparr>dir_index := dir_index ?f + k\<rparr>"
      and stop: "k = 0 \<longrightarrow> dir_index ?f = length (dir_entries rt ?f)"
      using getdents_chunk [OF fty(1) assms(2) fty(2) g] by auto
    have n0: "\<not> n < 0" using g fty(1) by (auto simp: procfs_getdents64_def split: prod.splits)
    have same: "dir_entries rt f' = dir_entries rt ?f" "procfs_file_type f' = procfs_file_type ?f" using f' by (simp_all add: dir_entries_def)
    have k: "k \<le> length ?d" "nat n = offset ?d k" "nat n \<le> YOS_VFS_DIRBUF_SIZE" using w by (simp_all add: wrote_def)
    have ex: "\<forall>e\<in>set ?d. CHR 0x00 \<notin> set (snd (snd e)) \<and> dent_len e \<le> 32"
      using dir_entries_names [OF assms(2)] in_set_dropD by fast
    show ?thesis
    proof (cases "k = 0")
      case True
      then have n: "n = 0" "f' = ?f" using k(2) n0 f' by (simp_all add: offset_def)
      let ?c = "upd_dir (set_file c fd f') i (\<lambda>s. s\<lparr>vfs_buf := m', vfs_exhausted := True\<rparr>)"
      have "?run c = Some (0, ?c)" using readdir_refill(2) [OF pl more g' t(4) n(1)] by simp
      moreover have d: "file_deref ?c fd = ?f" using deref_set_file(1) [OF t(2,3), of f'] n(2) by (simp add: file_deref_def)
      moreover have "dirs_typed ?c" using readdir_vfs_typed [OF L(2,3), of h2g rt] calculation(1) by auto
      moreover have "stream_at ?c P i dd" by (rule stream_at_upd(2) [OF L(1) t(4)]) simp_all
      moreover have "buffered rt ?c i fd []" using b d t(4) stop True by (simp add: buffered_def Let_def)
      moreover have "vfs_stream ?c i yos_procfs_ops fd" using L(3) t(4) by (simp add: vfs_stream_def)
      ultimately show ?thesis using hd stop True t(4) by (auto simp: listing_def to_come_def)
    next
      case False
      let ?es = "take k ?d"
      have ne: "?es \<noteq> []" using False k(1) by auto
      then obtain e es where es: "?es = e # es" by (cases ?es) auto
      have "0 < offset ?d k" using False es rec_len_room(1) [of "snd (snd e)"]
        by (cases ?d; cases k) (auto simp: offset_Suc dent_len_def)
      then have pos: "0 < n" using k(2) by simp
      let ?c = "refilled c i fd m' f' (nat n)"
      note r = refill_typed [OF L(2,3) k(3), of m' f']
      have off: "offset ?es j = offset ?d j" if "j \<le> k" for j using that by (simp add: offset_def min_absorb1)
      have "record_at m' (offset ?es j) (?es ! j)" if "j < length ?es" for j
        using w that off [of j] k(1) by (simp add: wrote_def)
      moreover have "\<forall>e\<in>set ?es. CHR 0x00 \<notin> set (snd (snd e)) \<and> dent_len e \<le> 32" using ex in_set_takeD by fast
      moreover have "offset ?es (length ?es) = nat n" using off [of k] k by (simp add: min_absorb2)
      ultimately have "buffered rt ?c i fd ?es"
        using b r(3) k fty f' same more t(4) unfolding buffered_def Let_def by (simp add: refilled_def)
      moreover have "stream_at ?c P i dd" unfolding refilled_def by (rule stream_at_upd(2) [OF L(1) t(4)]) simp_all
      moreover have "host_dir (ctx_dirs ?c ! i) = None" "dd_fd (ctx_dirs ?c ! i) = fd" "scratch_off (ctx_dirs ?c ! i) = scratch_off ?s"
        using hd t(4) by (simp_all add: refilled_def)
      moreover have "to_come rt ?c fd ?es = to_come rt c fd []"
        using r(3) f' same by (simp add: to_come_def) (metis append_take_drop_id drop_drop add.commute)
      ultimately show ?thesis
        using readdir_refill(3) [OF pl more g' t(4) pos] r(1,2) es by (metis listing_def)
    qed
  qed
qed

lemma readdir_step:
  assumes "listing rt P c i dd fd es" and "\<forall>p\<in>set (procs rt). int32 (pid p)"
  shows "(to_come rt c fd es = [] \<and> (\<exists>c'. readdir_vfs h2g rt i yos_procfs_ops fd c = Some (0, c') \<and> listing rt P c' i dd fd [] \<and> to_come rt c' fd [] = []))
    \<or> (\<exists>c' e es' r. readdir_vfs h2g rt i yos_procfs_ops fd c = Some (r, c') \<and> r \<noteq> 0 \<and> guest_dirent (memory c') (unat r) = dent_view e \<and>
         listing rt P c' i dd fd es' \<and> to_come rt c fd es = e # to_come rt c' fd es')"
proof -
  have go: "\<exists>c' e' es' r. readdir_vfs h2g rt i yos_procfs_ops fd c1 = Some (r, c') \<and> r \<noteq> 0 \<and> guest_dirent (memory c') (unat r) = dent_view e' \<and>
      listing rt P c' i dd fd es' \<and> to_come rt c1 fd (e # es) = e' # to_come rt c' fd es'" if "listing rt P c1 i dd fd (e # es)" for c1 e es
    using read_buffered [OF that, of h2g] by (metis append_Cons to_come_def)
  show ?thesis
  proof (cases es)
    case Nil
    then show ?thesis using read_empty [OF _ assms(2), of P c i dd fd h2g] go assms(1) by metis
  next
    case (Cons e es')
    then show ?thesis using go assms(1) by blast
  qed
qed

text \<open>A guest's loop over \<^verbatim>\<open>readdir\<close>, at most \<open>k\<close> calls: what it read when a call returned NULL, and the context then.\<close>

fun list_stream :: "(int \<Rightarrow> int) \<Rightarrow> dir_host \<Rightarrow> yos_runtime \<Rightarrow> yos_exec_ctx \<Rightarrow> u32 \<Rightarrow> nat \<Rightarrow>
    ((u64 \<times> nat \<times> u8 \<times> nat \<times> string) list \<times> yos_exec_ctx) option" where
  "list_stream h2g H rt c dd 0 = None"
| "list_stream h2g H rt c dd (Suc k) =
     (case yos_readdir h2g (\<lambda>c. c) H rt c dd of
        None \<Rightarrow> None
      | Some (r, c') \<Rightarrow>
          if r = 0 then Some ([], c')
          else map_option (\<lambda>(l, c''). (guest_dirent (memory c') (unat r) # l, c'')) (list_stream h2g H rt c' dd k))"

lemma listing_readdir: "listing rt P c i dd fd es \<Longrightarrow> yos_readdir h2g (\<lambda>c. c) H rt c dd = readdir_vfs h2g rt i yos_procfs_ops fd c"
  using stream_at_slot by (fastforce simp: listing_def yos_readdir_def vfs_stream_def Let_def)

lemma list_stream_all:
  assumes "listing rt P c i dd fd es" and "\<forall>p\<in>set (procs rt). int32 (pid p)" and "length (to_come rt c fd es) < k"
  shows "\<exists>c'. list_stream h2g H rt c dd k = Some (map dent_view (to_come rt c fd es), c') \<and> listing rt P c' i dd fd []"
  using assms(1,3)
proof (induction k arbitrary: c es)
  case (Suc k)
  note run = listing_readdir [OF Suc.prems(1), of h2g H]
  from readdir_step [OF Suc.prems(1) assms(2), of h2g] show ?case
  proof (elim disjE)
    assume "\<exists>c' e es' r. readdir_vfs h2g rt i yos_procfs_ops fd c = Some (r, c') \<and> r \<noteq> 0 \<and> guest_dirent (memory c') (unat r) = dent_view e \<and>
         listing rt P c' i dd fd es' \<and> to_come rt c fd es = e # to_come rt c' fd es'"
    then obtain c' e es' r where s: "readdir_vfs h2g rt i yos_procfs_ops fd c = Some (r, c')" "r \<noteq> 0"
      "guest_dirent (memory c') (unat r) = dent_view e" "listing rt P c' i dd fd es'" "to_come rt c fd es = e # to_come rt c' fd es'" by blast
    have "length (to_come rt c' fd es') < k" using Suc.prems(2) s(5) by simp
    from Suc.IH [OF s(4) this] show ?thesis using s run by auto
  qed (use run in auto)
qed simp

section \<open>Opening and closing a virtual directory\<close>

lemma procfs_open_file:
  assumes "procfs_open rt c path = (fd, c')" and "0 \<le> fd" and "files_ok c" and "parse_procfs_path path = (ty, n)"
  shows "procfs_file_type (file_deref c' fd) = ty \<and> dir_index (file_deref c' fd) = 0 \<and> (\<exists>p. c' = c\<lparr>procfs_fds := p\<rparr>)"
proof -
  let ?ft = "case procfs_fds c of None \<Rightarrow> yos_file_table_init | Some ft \<Rightarrow> ft"
  obtain f1 ft1 where a: "yos_file_alloc ?ft = (f1, ft1)" by (cases "yos_file_alloc ?ft")
  have w: "file_table_wf ?ft" using assms(3) by (auto simp: file_table_wf_def files_ok_def yos_file_table_init_def split: option.splits)
  obtain k l where kl: "procfs_content rt ty n = (k, l)" by (cases "procfs_content rt ty n")
  have ty: "\<not> ty < 0" and nf: "\<not> (0 < n \<and> yos_proc_find rt n = None)" and f1: "\<not> f1 < 0"
    using assms(1,2,4) a by (auto simp: procfs_open_def Let_def split: if_splits)
  obtain j where j: "j < YOS_MAX_VFS_FILES" "f1 = YOS_VFS_FD_BASE + int j" "ft1 = ?ft[j := zero_file\<lparr>in_use := True\<rparr>]"
    using file_alloc_fresh [OF w a] f1 by auto
  let ?g = "\<lambda>f. f\<lparr>file_ops := Some yos_procfs_ops, procfs_pid := n, procfs_file_type := ty, content := k, content_length := l\<rparr>"
  have c': "fd = f1" "c' = c\<lparr>procfs_fds := Some (file_update ft1 fd ?g)\<rparr>"
    using assms(1,4) a ty nf f1 kl by (simp_all add: procfs_open_def) (auto simp: procfs_open_def)
  have "file_update ft1 fd ?g ! j = ?g (zero_file\<lparr>in_use := True\<rparr>)"
    using j w c'(1) by (simp add: file_update_def file_table_wf_def)
  then show ?thesis using c' j by (auto simp: file_deref_def zero_file_def)
qed

text \<open>The run of an opening that gives a handle.\<close>

lemma opendir_vfs_ok:
  assumes "opendir_vfs h2g rt c yos_procfs_ops rest = Some (dd, c', es)" and "dd \<noteq> 0"
  obtains vfd c1 f h c2 q where "procfs_open rt c rest = (vfd, c1)" "\<not> vfd < 0" "vfs_file_from_fd c1 vfd = Some f" "slot_reserve c1 = (h, c2)" "h \<noteq> 0"
    "slot_finalise (upd_dir c2 h (\<lambda>s. s\<lparr>vfs_file := Some vfd, vfs_ops := Some yos_procfs_ops, dd_fd := vfd\<rparr>)) h = Some (q, c')"
    "\<not> q < 0" "dd = dd_off (ctx_dirs c' ! h)" "es = []"
proof -
  have no: "dir_fails h2g x e ev \<noteq> Some (dd, c', es)" for x e ev using assms(2) by (simp add: dir_fails_def yos_errno_null_def)
  obtain vfd c1 where o: "procfs_open rt c rest = (vfd, c1)" by (cases "procfs_open rt c rest")
  obtain f where vf: "\<not> vfd < 0" "vfs_file_from_fd c1 vfd = Some f"
    using assms(1) o no by (auto simp: opendir_vfs_def split: if_splits option.splits)
  obtain h c2 where r: "slot_reserve c1 = (h, c2)" by (cases "slot_reserve c1")
  have h: "h \<noteq> 0" using assms(1) o vf r no by (auto simp: opendir_vfs_def split: if_splits)
  let ?c3 = "upd_dir c2 h (\<lambda>s. s\<lparr>vfs_file := Some vfd, vfs_ops := Some yos_procfs_ops, dd_fd := vfd\<rparr>)"
  have run: "opendir_vfs h2g rt c yos_procfs_ops rest = (case slot_finalise ?c3 h of None \<Rightarrow> None
    | Some (q, c4) \<Rightarrow> if q < 0 then dir_fails h2g (snd (ops_close yos_procfs_ops c4 vfd)) ENOMEM [] else Some (dd_off (ctx_dirs c4 ! h), c4, []))"
    using o vf r h by (simp add: opendir_vfs_def Let_def)
  obtain q c4 where f: "slot_finalise ?c3 h = Some (q, c4)"
  proof (cases "slot_finalise ?c3 h")
    case None
    then show thesis using run assms(1) by (simp only: option.case) simp
  qed auto
  have r1: "opendir_vfs h2g rt c yos_procfs_ops rest =
      (if q < 0 then dir_fails h2g (snd (ops_close yos_procfs_ops c4 vfd)) ENOMEM [] else Some (dd_off (ctx_dirs c4 ! h), c4, []))"
    unfolding run f by (simp only: option.case prod.case)
  have q: "\<not> q < 0" using no assms(1) r1 by (metis (full_types))
  then have "Some (dd_off (ctx_dirs c4 ! h), c4, []) = Some (dd, c', es)" using r1 assms(1) by (simp only: if_False)
  then have "c4 = c'" "dd = dd_off (ctx_dirs c' ! h)" "es = []" by auto
  then show thesis using o vf r h f q that by blast
qed

lemma opendir_vfs_listing:
  assumes "dirs_typed c" and "heap_owns c P" and "opendir_vfs h2g rt c yos_procfs_ops rest = Some (dd, c', es)" and "dd \<noteq> 0"
    and "parse_procfs_path rest = (ty, n)" and "ty \<in> {YOS_PROCFS_ROOT, YOS_PROCFS_PID_DIR}"
  shows "es = [] \<and> (\<exists>i fd. listing rt P c' i dd fd [] \<and> to_come rt c' fd [] = (if ty = YOS_PROCFS_ROOT then root_dents rt else pid_dents))"
  using assms(3,4)
proof (rule opendir_vfs_ok)
  fix vfd c1 f h c2 and q :: int
  let ?s = "zero_dir\<lparr>dir_in_use := True, vfs_file := Some vfd, vfs_ops := Some yos_procfs_ops, dd_fd := vfd\<rparr>"
  let ?c3 = "upd_dir c2 h (\<lambda>s. s\<lparr>vfs_file := Some vfd, vfs_ops := Some yos_procfs_ops, dd_fd := vfd\<rparr>)"
  assume o: "procfs_open rt c rest = (vfd, c1)" and vf: "\<not> vfd < 0" "vfs_file_from_fd c1 vfd = Some f" and r: "slot_reserve c1 = (h, c2)" "h \<noteq> 0"
    and fi: "slot_finalise ?c3 h = Some (q, c')" "\<not> q < 0" and res: "dd = dd_off (ctx_dirs c' ! h)" "es = []"
  have o': "ops_open rt yos_procfs_ops c rest = (vfd, c1)" using o by simp
  note k = ops_open_kept [OF assms(1) o']
  have t1: "dirs_typed c1" using dirs_typed_same [OF assms(1)] k by blast
  have len: "length (ctx_dirs c1) = YOS_DIR_MAX" using t1 by (simp add: dirs_typed_def)
  have fl: "procfs_file_type (file_deref c1 vfd) = ty" "dir_index (file_deref c1 vfd) = 0" and c1: "\<exists>p. c1 = c\<lparr>procfs_fds := p\<rparr>"
    using procfs_open_file [OF o _ _ assms(5)] vf(1) assms(1) by (auto simp: dirs_typed_def)
  have o1: "heap_owns c1 P" using yos_heap.inv_same_heap [OF assms(2)] c1 by (auto simp: same_heap_def)
  from len r have got: "0 < h" "h < YOS_DIR_MAX" "c2 = upd_dir c1 h (\<lambda>_. zero_dir\<lparr>dir_in_use := True, dd_fd := - 1\<rparr>)"
    by (auto elim: slot_reserve_cases)
  have tab: "ctx_dirs ?c3 = (ctx_dirs c1)[h := ?s]" "ctx_dirs ?c3 ! h = ?s" "length (ctx_dirs ?c3) = YOS_DIR_MAX" "dir_in_use (ctx_dirs ?c3 ! h)"
    "heap_owns ?c3 P" using got len o1 by simp_all
  note fs = finalise_stream [OF tab(5,3) got(1,2) tab(4) fi]
  obtain a b where d4: "ctx_dirs c' = (ctx_dirs ?c3)[h := ?s\<lparr>scratch_off := a, dd_off := b\<rparr>]" using fs(2) tab(2) by auto
  then have at: "ctx_dirs c' ! h = ?s\<lparr>scratch_off := a, dd_off := b\<rparr>" using tab(3) got(2) by simp
  have fd: "file_deref c' vfd = file_deref c1 vfd" using fs(3) got by (simp add: file_deref_def)
  have ty4: "dirs_typed c'" using opendir_vfs_typed [OF assms(1,3)] .
  have buf: "buffered rt c' h vfd []" using at fd fl assms(6) by (simp add: buffered_def offset_def zero_dir_def)
  have "vfs_stream c' h yos_procfs_ops vfd" using at got by (simp add: vfs_stream_def)
  moreover have "to_come rt c' vfd [] = (if ty = YOS_PROCFS_ROOT then root_dents rt else pid_dents)"
    using fd fl by (simp add: to_come_def dir_entries_def)
  ultimately show ?thesis using fs(1) res ty4 buf at by (auto simp: listing_def zero_dir_def)
qed

text \<open>Giving back the stream's memory.\<close>

lemma release_stream:
  assumes "heap_owns c ((unat dd, k2) # (unat s, k1) # P)" and "dd \<noteq> 0" and "s \<noteq> 0"
  shows "\<exists>c3 c4. free_if (Some c) s = Some c3 \<and> free_if (Some c3) dd = Some c4 \<and> heap_owns c4 P \<and> heap_only c c4"
proof -
  have "heap_owns c ((unat s, k1) # (unat dd, k2) # P)" using yos_heap.inv_mset [OF assms(1)] by simp
  from yos_heap.release_owned [OF this] obtain c3 where c3: "yos_free c s = Some c3" "heap_owns c3 ((unat dd, k2) # P)" "heap_only c c3" by blast
  from yos_heap.release_owned [OF c3(2)] obtain c4 where c4: "yos_free c3 dd = Some c4" "heap_owns c4 P" "heap_only c3 c4" by blast
  show ?thesis using c3 c4 assms(2,3) heap_only_trans by (auto simp: free_if_def)
qed

lemma closedir_stream:
  assumes "stream_at c P i dd" and "length (ctx_dirs c) = YOS_DIR_MAX" and "close_backend H c (ctx_dirs c ! i) = (0, c, es1)"
    and "close_dd_fd h2g H c (dd_fd (ctx_dirs c ! i)) = (c2, es2)" and "same_heap c c2" and "dirs_same c c2"
  shows "\<exists>c'. yos_closedir h2g H c dd = Some (0, c', es1 @ es2) \<and> heap_owns c' P \<and> fd_map c' = fd_map c2 \<and> fd_paths c' = fd_paths c2 \<and>
    procfs_fds c' = procfs_fds c \<and> ctx_dirs c' = (ctx_dirs c)[i := zero_dir\<lparr>dd_fd := - 1\<rparr>]"
proof -
  let ?s = "ctx_dirs c ! i" and ?c3 = "upd_dir c2 i (\<lambda>_. zero_dir\<lparr>dd_fd := - 1\<rparr>)"
  obtain k1 k2 where k: "heap_owns c ((unat dd, k2) # (unat (scratch_off ?s), k1) # P)" "dd \<noteq> 0" "scratch_off ?s \<noteq> 0" "dd_off ?s = dd"
    using assms(1) by (auto simp: stream_at_def)
  have "heap_owns ?c3 ((unat dd, k2) # (unat (scratch_off ?s), k1) # P)" using yos_heap.inv_same_heap [OF k(1) assms(5)] by simp
  from release_stream [OF this k(2,3)] obtain c3 c4 where r: "free_if (Some ?c3) (scratch_off ?s) = Some c3" "free_if (Some c3) dd = Some c4"
    "heap_owns c4 P" "heap_only ?c3 c4" by blast
  have run: "yos_closedir h2g H c dd = Some (0, c4, es1 @ es2)"
    using stream_at_slot [OF assms(1)] assms(3,4) r(1,2) k(4) by (simp add: yos_closedir_def Let_def)
  have "dirs_same ?c3 c4" using r(1,2) free_if_same dirs_same_trans by blast
  then have "ctx_dirs c4 = (ctx_dirs c)[i := zero_dir\<lparr>dd_fd := - 1\<rparr>]" "procfs_fds c4 = procfs_fds c"
    using dirs_same_simps assms(6) by (auto simp: dirs_same_simps)
  moreover have "fd_map c4 = fd_map c2" "fd_paths c4 = fd_paths c2" using r(4) by (auto simp: heap_only_def)
  ultimately show ?thesis using run r(3) by blast
qed

text \<open>
  Claim C24: opening a directory of \<^verbatim>\<open>/proc\<close>, reading it to the end and closing it.  The reads deliver every entry exactly once and in
  order, each as a complete FreeBSD record in guest memory, although the entries pass through a read-ahead buffer of whole
  Linux records; then they end.  Closing gives the stream's memory back to the heap and frees the slot its handle named; no host
  descriptor is used.
\<close>

theorem opendir_lists_virtual:
  assumes "dirs_typed c" and "heap_owns c P" and "path_off \<noteq> 0" and "path_off < memory_size c"
    and "mounted (rt_mounts rt) (yos_path_resolve c (raw_str (memory c) (unat path_off))) = Some (yos_procfs_ops, rest)"
    and "parse_procfs_path rest = (ty, n)" and "ty \<in> {YOS_PROCFS_ROOT, YOS_PROCFS_PID_DIR}" and "\<forall>p\<in>set (procs rt). int32 (pid p)"
    and "yos_opendir h2g H rt c path_off = Some (dd, c1, es)" and "dd \<noteq> 0"
    and "entries = (if ty = YOS_PROCFS_ROOT then root_dents rt else pid_dents)" and "length entries < k"
  shows "es = [] \<and> (\<exists>c2 c3. list_stream h2g H rt c1 dd k = Some (map dent_view entries, c2) \<and>
    yos_closedir h2g H c2 dd = Some (0, c3, []) \<and> heap_owns c3 P \<and> (\<exists>i. slot_from_dd c1 dd = Some i \<and> \<not> dir_in_use (ctx_dirs c3 ! i)))"
proof -
  have "\<not> (path_off = 0 \<or> memory_size c \<le> path_off)" using assms(3,4) by (simp add: not_le)
  then have "opendir_vfs h2g rt c yos_procfs_ops rest = Some (dd, c1, es)"
    using assms(5,9) unfolding yos_opendir_def Let_def by (simp only: if_False option.case prod.case)
  from opendir_vfs_listing [OF assms(1,2) this assms(10,6,7)] obtain i fd where l: "es = []" "listing rt P c1 i dd fd []" "to_come rt c1 fd [] = entries"
    using assms(11) by blast
  obtain c2 where c2: "list_stream h2g H rt c1 dd k = Some (map dent_view entries, c2)" "listing rt P c2 i dd fd []"
    using list_stream_all [OF l(2) assms(8), of k h2g H] l(3) assms(12) by auto
  have st: "stream_at c2 P i dd" "length (ctx_dirs c2) = YOS_DIR_MAX" using c2(2) by (simp_all add: listing_def dirs_typed_def)
  have fd: "host_dir (ctx_dirs c2 ! i) = None" "dd_fd (ctx_dirs c2 ! i) = fd" "YOS_VFS_FD_BASE \<le> fd" "vfs_file (ctx_dirs c2 ! i) = Some fd"
    "vfs_ops (ctx_dirs c2 ! i) = Some yos_procfs_ops"
    using c2(2) vfs_stream_typed(2) [of c2 i yos_procfs_ops fd] by (auto simp: listing_def vfs_stream_def file_ptr_ok_def)
  have b: "close_backend H c2 (ctx_dirs c2 ! i) = (0, c2, [])" using fd by (simp add: close_backend_def procfs_close_def)
  have d: "close_dd_fd h2g H c2 (dd_fd (ctx_dirs c2 ! i)) = (c2, [])" using fd by (simp add: close_dd_fd_def)
  have sh: "same_heap c2 c2" "dirs_same c2 c2" by (simp_all add: same_heap_def dirs_same_def)
  obtain c3 where c3: "yos_closedir h2g H c2 dd = Some (0, c3, [])" "heap_owns c3 P" "ctx_dirs c3 = (ctx_dirs c2)[i := zero_dir\<lparr>dd_fd := - 1\<rparr>]"
    using closedir_stream [OF st b d sh] by auto
  have "slot_from_dd c1 dd = Some i" using l(2) stream_at_slot unfolding listing_def by blast
  moreover have "\<not> dir_in_use (ctx_dirs c3 ! i)" using c3(3) st by (simp add: stream_at_def zero_dir_def)
  ultimately show ?thesis using l(1) c2(1) c3(1,2) by blast
qed

section \<open>Opening and closing a host directory\<close>

lemma opendir_host_ok:
  assumes "opendir_host h2g H c path = Some (dd, c', es)" and "dd \<noteq> 0"
  obtains d h c1 wfd c3 ev q where "h_opendir H path = Inr d" "slot_reserve c = (h, c1)" "h \<noteq> 0"
    "alloc_wasm_fd_for_host_dir H (upd_dir c1 h (\<lambda>s. s\<lparr>host_dir := Some d\<rparr>)) d path = (wfd, c3, ev)"
    "slot_finalise (upd_dir c3 h (\<lambda>s. s\<lparr>dd_fd := wfd\<rparr>)) h = Some (q, c')" "\<not> q < 0" "dd = dd_off (ctx_dirs c' ! h)"
    "es = Opened (h_dirfd H d) # ev"
proof -
  have no: "dir_fails h2g x e ev \<noteq> Some (dd, c', es)" for x e ev using assms(2) by (simp add: dir_fails_def yos_errno_null_def)
  obtain d where d: "h_opendir H path = Inr d" using assms(1) no by (cases "h_opendir H path") (auto simp: opendir_host_def)
  obtain h c1 where r: "slot_reserve c = (h, c1)" by (cases "slot_reserve c")
  have h: "h \<noteq> 0" using assms(1) d r no by (auto simp: opendir_host_def split: if_splits)
  let ?c2 = "upd_dir c1 h (\<lambda>s. s\<lparr>host_dir := Some d\<rparr>)"
  obtain wfd c3 ev where a: "alloc_wasm_fd_for_host_dir H ?c2 d path = (wfd, c3, ev)" by (cases "alloc_wasm_fd_for_host_dir H ?c2 d path")
  let ?c4 = "upd_dir c3 h (\<lambda>s. s\<lparr>dd_fd := wfd\<rparr>)"
  have run: "opendir_host h2g H c path = (case slot_finalise ?c4 h of None \<Rightarrow> None
    | Some (q, c5) \<Rightarrow> if q < 0 then dir_fails h2g c5 ENOMEM (Opened (h_dirfd H d) # ev @ closed_dir H d)
        else Some (dd_off (ctx_dirs c5 ! h), c5, Opened (h_dirfd H d) # ev))"
    using d r h a by (simp add: opendir_host_def Let_def)
  obtain q c5 where f: "slot_finalise ?c4 h = Some (q, c5)"
  proof (cases "slot_finalise ?c4 h")
    case None
    then show thesis using run assms(1) by (simp only: option.case) simp
  qed auto
  have r1: "opendir_host h2g H c path = (if q < 0 then dir_fails h2g c5 ENOMEM (Opened (h_dirfd H d) # ev @ closed_dir H d)
      else Some (dd_off (ctx_dirs c5 ! h), c5, Opened (h_dirfd H d) # ev))"
    unfolding run f by (simp only: option.case prod.case)
  have q: "\<not> q < 0" using no assms(1) r1 by (metis (full_types))
  then have "Some (dd_off (ctx_dirs c5 ! h), c5, Opened (h_dirfd H d) # ev) = Some (dd, c', es)" using r1 assms(1) by (simp only: if_False)
  then have "c5 = c'" "dd = dd_off (ctx_dirs c' ! h)" "es = Opened (h_dirfd H d) # ev" by auto
  then show thesis using d r h a f q that by blast
qed

lemma alloc_host_dir_ok:
  assumes "alloc_wasm_fd_for_host_dir H c d path = (wfd, c', es)" and "find_index (\<lambda>x. x = - 1) (take YOS_FD_MAX (fd_map c)) = Some w"
    and "0 \<le> h_dirfd H d" and "0 \<le> h_dup H (h_dirfd H d)"
  shows "wfd = int w \<and> es = [Opened (h_dup H (h_dirfd H d))] \<and> fd_map c' = (fd_map c)[w := h_dup H (h_dirfd H d)] \<and> same_heap c c'"
  using assms by (auto simp: alloc_wasm_fd_for_host_dir_def Let_def yos_fd_alloc_with_path_def yos_fd_alloc_def set_fd_def same_heap_def)

text \<open>Without a free guest descriptor the duplicate is closed twice; without it, or without a duplicate, the stream has no guest descriptor.\<close>

lemma alloc_host_dir_none:
  assumes "alloc_wasm_fd_for_host_dir H c d path = (wfd, c', es)" and "h_dup H (h_dirfd H d) < 0 \<or> - 1 \<notin> set (take YOS_FD_MAX (fd_map c))"
    and "0 \<le> h_dirfd H d"
  shows "wfd = - 1 \<and> c' = c \<and> es = (if h_dup H (h_dirfd H d) < 0 then [] else
    [Opened (h_dup H (h_dirfd H d)), Closed (h_dup H (h_dirfd H d)), Closed (h_dup H (h_dirfd H d))])"
proof (cases "h_dup H (h_dirfd H d) < 0")
  case True
  then show ?thesis using assms by (simp add: alloc_wasm_fd_for_host_dir_def Let_def)
next
  case False
  then have "find_index (\<lambda>x. x = - 1) (take YOS_FD_MAX (fd_map c)) = None" using assms(2) by (auto simp: find_index_None)
  then show ?thesis using assms(1,3) False by (simp add: alloc_wasm_fd_for_host_dir_def Let_def yos_fd_alloc_with_path_def yos_fd_alloc_def)
qed

lemma host_stream_balanced:
  assumes "dirs_typed c" and "heap_owns c P" and "length (fd_map c) = YOS_FD_MAX"
    and "opendir_host h2g H c path = Some (dd, c1, es1)" and "dd \<noteq> 0"
    and "\<forall>d. h_opendir H path = Inr d \<longrightarrow> 0 \<le> h_dirfd H d \<and> h_dirfd H d \<notin> O1 \<and> h_closedir H d = 0 \<and>
      (0 \<le> h_dup H (h_dirfd H d) \<longrightarrow> h_dup H (h_dirfd H d) \<notin> insert (h_dirfd H d) O1 \<and> 0 \<le> fst (h_close H (h_dup H (h_dirfd H d))))"
  shows "\<exists>d c2 es2. h_opendir H path = Inr d \<and> yos_closedir h2g H c1 dd = Some (0, c2, es2) \<and> heap_owns c2 P \<and> fd_map c2 = fd_map c \<and>
    replay (es1 @ es2) O1 = O1 \<and> bad_closes (es1 @ es2) O1 = of_bool (0 \<le> h_dup H (h_dirfd H d) \<and> - 1 \<notin> set (fd_map c))"
  using assms(4,5)
proof (rule opendir_host_ok)
  fix d h c0 wfd c3 ev and q :: int
  let ?c2 = "upd_dir c0 h (\<lambda>s. s\<lparr>host_dir := Some d\<rparr>)"
  let ?c4 = "upd_dir c3 h (\<lambda>s. s\<lparr>dd_fd := wfd\<rparr>)"
  let ?hd = "h_dirfd H d" and ?hw = "h_dup H (h_dirfd H d)"
  assume d: "h_opendir H path = Inr d" and r: "slot_reserve c = (h, c0)" "h \<noteq> 0" and a: "alloc_wasm_fd_for_host_dir H ?c2 d path = (wfd, c3, ev)"
    and fi: "slot_finalise ?c4 h = Some (q, c1)" "\<not> q < 0" and res: "dd = dd_off (ctx_dirs c1 ! h)" "es1 = Opened ?hd # ev"
  have host: "0 \<le> ?hd" "?hd \<notin> O1" "h_closedir H d = 0" and dup: "0 \<le> ?hw \<Longrightarrow> ?hw \<notin> insert ?hd O1 \<and> 0 \<le> fst (h_close H ?hw)"
    using assms(6) d by auto
  have len: "length (ctx_dirs c) = YOS_DIR_MAX" using assms(1) by (simp add: dirs_typed_def)
  from len r have got: "0 < h" "h < YOS_DIR_MAX" "c0 = upd_dir c h (\<lambda>_. zero_dir\<lparr>dir_in_use := True, dd_fd := - 1\<rparr>)"
    by (auto elim: slot_reserve_cases)
  note sm = dirs_same_simps [OF dirs_same_alloc_host_dir [OF a]]
  let ?s = "zero_dir\<lparr>dir_in_use := True, host_dir := Some d, dd_fd := wfd\<rparr>"
  have tab: "ctx_dirs ?c4 ! h = ?s" "length (ctx_dirs ?c4) = YOS_DIR_MAX" "dir_in_use (ctx_dirs ?c4 ! h)" using got len sm by simp_all
  have lenc1: "length (ctx_dirs c1) = YOS_DIR_MAX" using opendir_host_typed [OF assms(1,4)] by (simp add: dirs_typed_def)
  have closes: ?thesis
    if sh: "same_heap ?c2 c3" and dcl: "\<And>x. fd_map x = fd_map c3 \<Longrightarrow> close_dd_fd h2g H x wfd = (c6 x, es6)"
      and c6: "\<And>x. same_heap x (c6 x) \<and> dirs_same x (c6 x)" and bk: "\<And>x. fd_map x = fd_map c3 \<Longrightarrow> fd_map (c6 x) = fd_map c"
      and ev: "replay (es1 @ [Closed ?hd] @ es6) O1 = O1" "bad_closes (es1 @ [Closed ?hd] @ es6) O1 = of_bool (0 \<le> ?hw \<and> - 1 \<notin> set (fd_map c))" for c6 es6
  proof -
    have own: "heap_owns ?c4 P" using yos_heap.inv_same_heap [of ?c2 P c3] sh assms(2) got(3) by simp
    note fs = finalise_stream [OF own tab(2) got(1,2) tab(3) fi]
    obtain x y where at: "ctx_dirs c1 ! h = ?s\<lparr>scratch_off := x, dd_off := y\<rparr>" using fs(2) tab(1,2) got(2) by auto
    have m1: "fd_map c1 = fd_map c3" using fs(4) by simp
    have b: "close_backend H c1 (ctx_dirs c1 ! h) = (0, c1, [Closed ?hd])" using at host(3) by (simp add: close_backend_def closed_dir_def)
    have dd: "close_dd_fd h2g H c1 (dd_fd (ctx_dirs c1 ! h)) = (c6 c1, es6)" using dcl [OF m1] at by simp
    have st: "stream_at c1 P h dd" using fs(1) res(1) by simp
    obtain c2 where "yos_closedir h2g H c1 dd = Some (0, c2, [Closed ?hd] @ es6)" "heap_owns c2 P" "fd_map c2 = fd_map (c6 c1)"
      using closedir_stream [OF st lenc1 b dd] c6 by blast
    then show ?thesis using ev bk [OF m1] d by (intro exI [of _ d] exI [of _ c2] exI [of _ "[Closed ?hd] @ es6"]) simp
  qed
  show ?thesis
  proof (cases "0 \<le> ?hw \<and> - 1 \<in> set (fd_map c)")
    case True
    then obtain w where w: "find_index (\<lambda>x. x = - 1) (take YOS_FD_MAX (fd_map ?c2)) = Some w" "w < YOS_FD_MAX" "fd_map c ! w = - 1"
      using assms(3) got(3) by (cases "find_index (\<lambda>x. x = - 1) (fd_map c)") (auto simp: find_index_None find_index_Some)
    note al = alloc_host_dir_ok [OF a w(1) host(1)]
    have al: "wfd = int w" "ev = [Opened ?hw]" "fd_map c3 = (fd_map c)[w := ?hw]" "same_heap ?c2 c3" using al True got(3) by auto
    show ?thesis
    proof (rule closes [of "\<lambda>x. set_fd x w (- 1) None" "[Closed ?hw]"])
      show "same_heap ?c2 c3" by (rule al(4))
      fix x
      show "same_heap x (set_fd x w (- 1) None) \<and> dirs_same x (set_fd x w (- 1) None)" by (simp add: same_heap_def dirs_same_def set_fd_def)
      assume x: "fd_map x = fd_map c3"
      then have "fd_map x ! w = ?hw" using al(3) w(2) assms(3) by simp
      then show "close_dd_fd h2g H x wfd = (set_fd x w (- 1) None, [Closed ?hw])"
        using al(1) w(2) True dup by (simp add: close_dd_fd_def yos_is_virtual_fd_def yos_fd_close_def yos_errno_check_def Let_def)
      show "fd_map (set_fd x w (- 1) None) = fd_map c" using x al(3) w(3) by (simp add: set_fd_def) (metis list_update_id)
    qed (use res(2) al(2) host(2) dup True in auto)
  next
    case False
    then have "?hw < 0 \<or> - 1 \<notin> set (take YOS_FD_MAX (fd_map ?c2))" using assms(3) got(3) by auto
    note al = alloc_host_dir_none [OF a this host(1)]
    show ?thesis
    proof (rule closes [of "\<lambda>x. x" "[]"])
      show "same_heap ?c2 c3" using al by (simp add: same_heap_def)
      fix x
      show "same_heap x x \<and> dirs_same x x" by (simp add: same_heap_def dirs_same_def)
      show "close_dd_fd h2g H x wfd = (x, [])" using al by (simp add: close_dd_fd_def)
      show "fd_map x = fd_map c3 \<Longrightarrow> fd_map x = fd_map c" using al got(3) by simp
    qed (use res(2) al host(2) dup False in auto)
  qed
qed

text \<open>
  Claim C25: opening a host directory and closing it again is balanced, with a guest heap of at most 192 MiB and a host whose new descriptors are not open already and whose closes succeed.
  After an \<^verbatim>\<open>opendir\<close> that succeeded, \<^verbatim>\<open>closedir\<close> succeeds, the guest's descriptor table and heap are as they were, and the host has the same
  descriptors open as before.  Every descriptor closed was open, with one exception: when the host duplicated the descriptor and the
  guest's table was full, the duplicate is closed once more than that.
\<close>

theorem opendir_closedir_balanced:
  assumes "dirs_typed c" and "heap_owns c P" and "length (fd_map c) = YOS_FD_MAX"
    and "path = yos_path_resolve c (raw_str (memory c) (unat path_off))" and "mounted (rt_mounts rt) path = None"
    and "yos_opendir h2g H rt c path_off = Some (dd, c1, es1)" and "dd \<noteq> 0"
    and "\<forall>d. h_opendir H path = Inr d \<longrightarrow> 0 \<le> h_dirfd H d \<and> h_dirfd H d \<notin> O1 \<and> h_closedir H d = 0 \<and>
      (0 \<le> h_dup H (h_dirfd H d) \<longrightarrow> h_dup H (h_dirfd H d) \<notin> insert (h_dirfd H d) O1 \<and> 0 \<le> fst (h_close H (h_dup H (h_dirfd H d))))"
  shows "\<exists>d c2 es2. h_opendir H path = Inr d \<and> yos_closedir h2g H c1 dd = Some (0, c2, es2) \<and> heap_owns c2 P \<and> fd_map c2 = fd_map c \<and>
    replay (es1 @ es2) O1 = O1 \<and> bad_closes (es1 @ es2) O1 = of_bool (0 \<le> h_dup H (h_dirfd H d) \<and> - 1 \<notin> set (fd_map c))"
proof -
  have "\<not> (path_off = 0 \<or> memory_size c \<le> path_off)" using assms(6,7) by (auto simp: yos_opendir_def dir_fails_def yos_errno_null_def)
  then have host: "opendir_host h2g H c path = Some (dd, c1, es1)"
    using assms(4-6) unfolding yos_opendir_def Let_def by (simp only: if_False option.case)
  show ?thesis by (rule host_stream_balanced [OF assms(1-3) host assms(7,8)])
qed

section \<open>Where closing goes wrong\<close>

text \<open>
  With the guest's descriptor table full, the duplicate is closed twice: \<^verbatim>\<open>yos_fd_alloc_with_path\<close> has closed it already.
\<close>

lemma opendir_full_table_closes_twice:
  assumes "- 1 \<notin> set (take YOS_FD_MAX (fd_map c))" and "0 \<le> h_dirfd H d" and "0 \<le> h_dup H (h_dirfd H d)"
  shows "alloc_wasm_fd_for_host_dir H c d path =
    (- 1, c, [Opened (h_dup H (h_dirfd H d)), Closed (h_dup H (h_dirfd H d)), Closed (h_dup H (h_dirfd H d))])"
  using alloc_host_dir_none [of H c d path] assms by (cases "alloc_wasm_fd_for_host_dir H c d path") auto

text \<open>
  A stream made from a descriptor shares it: closing the stream closes that descriptor in the host's \<^verbatim>\<open>closedir\<close> and then
  once more through the table.
\<close>

lemma fdopendir_closes_twice:
  assumes "host_dir s = Some d" and "dd_fd s = w" and "0 \<le> w" and "w < int YOS_FD_MAX" and "fd_map c ! nat w = h_dirfd H d" and "0 \<le> h_dirfd H d"
    and "h_closedir H d = 0"
  shows "snd (snd (close_backend H c s)) @ snd (close_dd_fd h2g H c w) = [Closed (h_dirfd H d), Closed (h_dirfd H d)]"
  using assms by (simp add: close_backend_def closed_dir_def close_dd_fd_def yos_is_virtual_fd_def yos_fd_close_def Let_def split: prod.splits)

text \<open>Closing a virtual stream leaves its entry in the virtual file table in use: after 256 openings none is left.\<close>

lemma closedir_keeps_virtual_file:
  assumes "host_dir s = None"
  shows "procfs_fds (fst (snd (close_backend H c s))) = procfs_fds c"
  using close_backend_ctx [of H c s] by (metis prod.collapse)

section \<open>Any history\<close>

text \<open>
  Claim C26: the table of directory streams stays well typed in every history of directory calls, whatever the guest
  writes into its memory in between: a handle that is accepted names a stream in use, with exactly one backend, and
  belongs to it; a forged or stale handle is refused; and reading from any handle returns.
\<close>

theorem dir_streams_typed:
  assumes "dir_history h2g c0 c" and "dir_slots c0 = None" and "procfs_fds c0 = None"
  shows "dirs_typed c \<and>
    (\<forall>dd i. slot_from_dd c dd = Some i \<longrightarrow> 0 < i \<and> i < YOS_DIR_MAX \<and> dd_off (ctx_dirs c ! i) = dd \<and>
       (host_dir (ctx_dirs c ! i) = None) = (vfs_file (ctx_dirs c ! i) \<noteq> None)) \<and>
    (\<forall>H rt dd. \<exists>r c'. yos_readdir h2g (\<lambda>c. c) H rt c dd = Some (r, c'))"
proof -
  have t: "dirs_typed c" using history_typed [OF assms(1)] dirs_typed_start assms(2,3) by blast
  have "0 < i \<and> i < YOS_DIR_MAX \<and> dd_off (ctx_dirs c ! i) = dd \<and> (host_dir (ctx_dirs c ! i) = None) = (vfs_file (ctx_dirs c ! i) \<noteq> None)"
    if "slot_from_dd c dd = Some i" for dd i using slot_from_dd_typed [OF t that] unfolding slot_typed_def by blast
  then show ?thesis using t readdir_typed [OF t] by blast
qed

section \<open>A concrete stream\<close>

lemma malloc_from_one_block:
  assumes "heap_inv c [(b, n)] us" and "unat sz \<le> 1000" and "3000 \<le> n" and "yos_malloc c sz = (p, c')"
  obtains b' n' us' where "p \<noteq> 0" "heap_inv c' [(b', n')] us'" "n \<le> n' + 2000"
proof -
  have need: "unat (malloc_need sz) \<le> 1024" using malloc_need_ok(4) [of sz] assms(2) by linarith
  have "length [(b, n)] \<le> WALK_GUARD" by simp
  from assms(1) this assms(4) show thesis
  proof (cases rule: malloc_refines)
    case none
    then show thesis using need assms(3) by simp
  next
    case (some b0 n0 fl' m h)
    then have "fl' = [(b + unat (malloc_need sz), n - unat (malloc_need sz))]" using need assms(3) by auto
    then show thesis using some(2,6) need that [of "b + unat (malloc_need sz)" "n - unat (malloc_need sz)"] by simp
  qed
qed

lemma heap_inv_upd_dir [simp]: "heap_inv (upd_dir c i f) fl us = heap_inv c fl us"
  by (simp add: heap_inv_def)

lemma finalise_succeeds:
  assumes "heap_inv c [(b, n)] us" and "6000 \<le> n"
  shows "\<exists>c'. slot_finalise c h = Some (0, c') \<and> (h < length (ctx_dirs c) \<longrightarrow> dd_off (ctx_dirs c' ! h) \<noteq> 0)"
proof -
  obtain s c1 where m1: "yos_malloc c 280 = (s, c1)" by (cases "yos_malloc c 280")
  let ?c2 = "upd_dir c1 h (\<lambda>d. d\<lparr>scratch_off := s\<rparr>)"
  obtain p c3 where m2: "yos_malloc ?c2 8 = (p, c3)" by (cases "yos_malloc ?c2 8")
  obtain b1 n1 us1 where 1: "s \<noteq> 0" "heap_inv c1 [(b1, n1)] us1" "n \<le> n1 + 2000"
    using malloc_from_one_block [OF assms(1) _ _ m1] assms(2) by auto
  have "heap_inv ?c2 [(b1, n1)] us1" using 1(2) by simp
  then have "p \<noteq> 0" using malloc_from_one_block [OF _ _ _ m2] 1(3) assms(2) by force
  then show ?thesis
    using m1 m2 1(1) dirs_same_simps(1) [OF dirs_same_malloc [OF m1]] dirs_same_simps(1) [OF dirs_same_malloc [OF m2]]
    by (simp add: slot_finalise_def Let_def)
qed

text \<open>A guest with the strings \<^verbatim>\<open>/proc\<close> and \<^verbatim>\<open>/tmp\<close> below its heap, \<^verbatim>\<open>/proc\<close> mounted, and a host with one directory.\<close>

definition demo_dir_ctx :: yos_exec_ctx where
  "demo_dir_ctx = fresh_heap\<lparr>memory := mem_write (mem_write (memory fresh_heap) 0x800 (c_bytes ''/proc'')) 0x900 (c_bytes ''/tmp''),
     fd_map := [-1] @ replicate 255 0\<rparr>"

definition demo_dir_rt :: yos_runtime where
  "demo_dir_rt = demo_rt\<lparr>rt_mounts := Some [\<lparr>mpath = ''/proc'', mops = yos_procfs_ops\<rparr>]\<rparr>"

definition demo_dir_host :: dir_host where
  "demo_dir_host = \<lparr> h_opendir = (\<lambda>_. Inr 0), h_fdopendir = (\<lambda>_. Inl EBADF), h_dirfd = (\<lambda>_. 5), h_dup = (\<lambda>_. 6), h_closedir = (\<lambda>_. 0),
     h_close = (\<lambda>_. (0, 0)), h_readdir = (\<lambda>_. Inr None) \<rparr>"

lemma demo_dir_fields:
  "dir_slots demo_dir_ctx = None" "procfs_fds demo_dir_ctx = None" "memory_size demo_dir_ctx = 0x1000000" "cwd demo_dir_ctx = []"
  "length (ctx_dirs demo_dir_ctx) = YOS_DIR_MAX" "alloc_lo demo_dir_ctx = 0x10000" "alloc_hi demo_dir_ctx = 0x800000"
  "fd_map demo_dir_ctx = [-1] @ replicate 255 0" "alloc_free_head demo_dir_ctx = alloc_free_head fresh_heap"
  by (simp_all add: demo_dir_ctx_def fresh_heap_bounds)
    (simp_all add: fresh_heap_def alloc_init_locked_def align_up_def ctx_calloc_def blk_set_size_def blk_set_next_def Let_def ctx_dirs_def)

lemma demo_dir_heap: "heap_inv demo_dir_ctx [(0x10000, 0x7F0000)] []" "heap_owns demo_dir_ctx []"
proof -
  let ?m = "mem_write (mem_write (memory fresh_heap) 0x800 (c_bytes ''/proc'')) 0x900 (c_bytes ''/tmp'')"
  have "heap_inv (fresh_heap\<lparr>memory := ?m\<rparr>) [(0x10000, 0x7F0000)] []"
    by (rule outside_write [OF fresh_heap_inv]) (simp add: fresh_heap_bounds mem_write_def c_bytes_def)
  then show "heap_inv demo_dir_ctx [(0x10000, 0x7F0000)] []" by (simp add: demo_dir_ctx_def heap_inv_def)
  from heap_ownsI [OF this, of "[]"] show "heap_owns demo_dir_ctx []" by (simp add: demo_dir_fields)
qed

lemma demo_dir_paths:
  "raw_str (memory demo_dir_ctx) 0x800 = ''/proc''" "raw_str (memory demo_dir_ctx) 0x900 = ''/tmp''"
proof -
  have "memory demo_dir_ctx (0x800 + i) = c_bytes ''/proc'' ! i" if "i \<le> length ''/proc''" for i
    using that by (simp add: demo_dir_ctx_def mem_write_def c_bytes_def)
  then show "raw_str (memory demo_dir_ctx) 0x800 = ''/proc''" unfolding raw_str_def by (intro cstr_c_bytes) simp_all
  have "memory demo_dir_ctx (0x900 + i) = c_bytes ''/tmp'' ! i" if "i \<le> length ''/tmp''" for i
    using that by (simp add: demo_dir_ctx_def mem_write_def c_bytes_def)
  then show "raw_str (memory demo_dir_ctx) 0x900 = ''/tmp''" unfolding raw_str_def by (intro cstr_c_bytes) simp_all
qed

lemma demo_dir_mounts:
  "mounted (rt_mounts demo_dir_rt) ''/proc'' = Some (yos_procfs_ops, [])" "mounted (rt_mounts demo_dir_rt) ''/tmp'' = None"
  by (simp_all add: demo_dir_rt_def mounted_def yos_mount_resolve_def mount_path_matches_def char_at_def Let_def)

lemma demo_typed: "dirs_typed demo_dir_ctx"
  by (rule dirs_typed_start) (simp_all add: demo_dir_fields)

lemma reserve_empty: "dir_slots c = None \<Longrightarrow> slot_reserve c = (1, upd_dir c 1 (\<lambda>_. zero_dir\<lparr>dir_in_use := True, dd_fd := - 1\<rparr>))"
proof -
  assume "dir_slots c = None"
  then have "ctx_dirs c = zero_dir # zero_dir # replicate 62 zero_dir" by (simp add: ctx_dirs_def numeral_eq_Suc)
  then show ?thesis by (simp add: slot_reserve_def zero_dir_def)
qed

lemma demo_opens_proc: "\<exists>dd c1. yos_opendir h2g demo_dir_host demo_dir_rt demo_dir_ctx 0x800 = Some (dd, c1, []) \<and> dd \<noteq> 0"
proof -
  obtain vfd c1 where o: "procfs_open demo_dir_rt demo_dir_ctx [] = (vfd, c1)" by (cases "procfs_open demo_dir_rt demo_dir_ctx []")
  have al: "yos_file_alloc yos_file_table_init = (YOS_VFS_FD_BASE, yos_file_table_init[0 := zero_file\<lparr>in_use := True\<rparr>])"
    by (simp add: yos_file_alloc_def yos_file_table_init_def zero_file_def numeral_eq_Suc)
  let ?f = "\<lambda>f. f\<lparr>file_ops := Some yos_procfs_ops, procfs_pid := 0, procfs_file_type := YOS_PROCFS_ROOT, content := None, content_length := 0\<rparr>"
  have c1: "vfd = YOS_VFS_FD_BASE" "c1 = demo_dir_ctx\<lparr>procfs_fds := Some (file_update (yos_file_table_init[0 := zero_file\<lparr>in_use := True\<rparr>]) YOS_VFS_FD_BASE ?f)\<rparr>"
    using o al by (auto simp: procfs_open_def parse_procfs_path_def demo_dir_fields procfs_content_def)
  have vf: "vfs_file_from_fd c1 vfd \<noteq> None"
    using c1 by (simp add: vfs_file_from_fd_def yos_file_get_def file_update_def yos_file_table_init_def)
  have "dir_slots c1 = None" using c1(2) by (simp add: demo_dir_fields)
  note r = reserve_empty [OF this]
  let ?c3 = "upd_dir (upd_dir c1 1 (\<lambda>_. zero_dir\<lparr>dir_in_use := True, dd_fd := - 1\<rparr>)) 1
    (\<lambda>s. s\<lparr>vfs_file := Some vfd, vfs_ops := Some yos_procfs_ops, dd_fd := vfd\<rparr>)"
  have "heap_inv c1 [(0x10000, 0x7F0000)] []" using demo_dir_heap(1) by (simp add: c1(2) heap_inv_def)
  then have "heap_inv ?c3 [(0x10000, 0x7F0000)] []" by simp
  from finalise_succeeds [OF this, of 1] obtain c4 where c4: "slot_finalise ?c3 1 = Some (0, c4)" "dd_off (ctx_dirs c4 ! 1) \<noteq> 0"
    using c1(2) by (auto simp: demo_dir_fields)
  have "opendir_vfs h2g demo_dir_rt demo_dir_ctx yos_procfs_ops [] = Some (dd_off (ctx_dirs c4 ! 1), c4, [])"
    using o c1(1) vf r c4(1) by (auto simp: opendir_vfs_def Let_def)
  moreover have "yos_opendir h2g demo_dir_host demo_dir_rt demo_dir_ctx 0x800 = opendir_vfs h2g demo_dir_rt demo_dir_ctx yos_procfs_ops []"
    using demo_dir_mounts(1) by (simp add: yos_opendir_def demo_dir_fields demo_dir_paths yos_path_resolve_def)
  ultimately show ?thesis using c4(2) by auto
qed

theorem opendir_lists_virtual_witness:
  "\<exists>dd c1 c2. yos_opendir (\<lambda>e. e) demo_dir_host demo_dir_rt demo_dir_ctx 0x800 = Some (dd, c1, []) \<and>
     list_stream (\<lambda>e. e) demo_dir_host demo_dir_rt c1 dd 5 = Some (map dent_view (root_dents demo_dir_rt), c2)"
proof -
  obtain dd c1 where o: "yos_opendir (\<lambda>e. e) demo_dir_host demo_dir_rt demo_dir_ctx 0x800 = Some (dd, c1, [])" "dd \<noteq> 0"
    using demo_opens_proc by blast
  have m: "mounted (rt_mounts demo_dir_rt) (yos_path_resolve demo_dir_ctx (raw_str (memory demo_dir_ctx) (unat (0x800 :: u32)))) = Some (yos_procfs_ops, [])"
    using demo_dir_mounts(1) by (simp add: demo_dir_paths yos_path_resolve_def)
  have p: "parse_procfs_path [] = (YOS_PROCFS_ROOT, 0)" by (simp add: parse_procfs_path_def)
  have pids: "\<forall>p\<in>set (procs demo_dir_rt). int32 (pid p)"
    by (auto simp: demo_dir_rt_def demo_rt_def demo_proc_def zero_proc_def int32_def)
  have len: "length (root_dents demo_dir_rt) < 5" by (simp add: root_dents_def demo_dir_rt_def demo_rt_def demo_proc_def zero_proc_def)
  from opendir_lists_virtual [OF demo_typed demo_dir_heap(2) _ _ m p _ pids o refl] show ?thesis
    using o len by (auto simp: demo_dir_fields)
qed

lemma demo_opens_tmp: "\<exists>dd c1 es. yos_opendir h2g demo_dir_host demo_dir_rt demo_dir_ctx 0x900 = Some (dd, c1, es) \<and> dd \<noteq> 0"
proof -
  note r = reserve_empty [OF demo_dir_fields(1)]
  let ?c2 = "upd_dir (upd_dir demo_dir_ctx 1 (\<lambda>_. zero_dir\<lparr>dir_in_use := True, dd_fd := - 1\<rparr>)) 1 (\<lambda>s. s\<lparr>host_dir := Some 0\<rparr>)"
  obtain wfd c3 ev where a: "alloc_wasm_fd_for_host_dir demo_dir_host ?c2 0 ''/tmp'' = (wfd, c3, ev)"
    by (cases "alloc_wasm_fd_for_host_dir demo_dir_host ?c2 0 ''/tmp''")
  have "find_index (\<lambda>x. x = - 1) (take YOS_FD_MAX (fd_map ?c2)) = Some 0" by (simp add: demo_dir_fields)
  from alloc_host_dir_ok [OF a this] have sh: "same_heap ?c2 c3" by (simp add: demo_dir_host_def)
  note sm = dirs_same_simps(1) [OF dirs_same_alloc_host_dir [OF a]]
  have "heap_inv ?c2 [(0x10000, 0x7F0000)] []" using demo_dir_heap(1) by simp
  then have "heap_inv c3 [(0x10000, 0x7F0000)] []" using sh by (simp add: heap_inv_def same_heap_def)
  then have "heap_inv (upd_dir c3 1 (\<lambda>s. s\<lparr>dd_fd := wfd\<rparr>)) [(0x10000, 0x7F0000)] []" by simp
  from finalise_succeeds [OF this, of 1] obtain c5
    where c5: "slot_finalise (upd_dir c3 1 (\<lambda>s. s\<lparr>dd_fd := wfd\<rparr>)) 1 = Some (0, c5)" "dd_off (ctx_dirs c5 ! 1) \<noteq> 0"
    using sm by (auto simp: demo_dir_fields)
  have "opendir_host h2g demo_dir_host demo_dir_ctx ''/tmp'' = Some (dd_off (ctx_dirs c5 ! 1), c5, Opened 5 # ev)"
    using r a c5(1) by (simp add: opendir_host_def demo_dir_host_def Let_def)
  moreover have "yos_opendir h2g demo_dir_host demo_dir_rt demo_dir_ctx 0x900 = opendir_host h2g demo_dir_host demo_dir_ctx ''/tmp''"
    using demo_dir_mounts(2) by (simp add: yos_opendir_def demo_dir_fields demo_dir_paths yos_path_resolve_def)
  ultimately show ?thesis using c5(2) by auto
qed

theorem opendir_closedir_balanced_witness:
  "\<exists>dd c1 c2 es1 es2. yos_opendir (\<lambda>e. e) demo_dir_host demo_dir_rt demo_dir_ctx 0x900 = Some (dd, c1, es1) \<and>
     yos_closedir (\<lambda>e. e) demo_dir_host c1 dd = Some (0, c2, es2) \<and> replay (es1 @ es2) {0, 1, 2} = {0, 1, 2}"
proof -
  obtain dd c1 es1 where o: "yos_opendir (\<lambda>e. e) demo_dir_host demo_dir_rt demo_dir_ctx 0x900 = Some (dd, c1, es1)" "dd \<noteq> 0"
    using demo_opens_tmp by blast
  have p: "''/tmp'' = yos_path_resolve demo_dir_ctx (raw_str (memory demo_dir_ctx) (unat (0x900 :: u32)))"
    by (simp add: demo_dir_paths yos_path_resolve_def)
  from opendir_closedir_balanced [OF demo_typed demo_dir_heap(2) _ p demo_dir_mounts(2) o, of "{0, 1, 2}"] show ?thesis
    using o(1) by (auto simp: demo_dir_fields demo_dir_host_def)
qed

theorem dir_streams_typed_witness:
  "\<exists>dd c1 i. yos_opendir (\<lambda>e. e) demo_dir_host demo_dir_rt demo_dir_ctx 0x900 = Some (dd, c1, [Opened 5, Opened 6]) \<and>
     slot_from_dd c1 dd = Some i \<and> 0 < i \<and> dd_off (ctx_dirs c1 ! i) = dd"
proof -
  obtain dd c1 es where o: "yos_opendir (\<lambda>e. e) demo_dir_host demo_dir_rt demo_dir_ctx 0x900 = Some (dd, c1, es)" "dd \<noteq> 0"
    using demo_opens_tmp by blast
  have "opendir_host (\<lambda>e. e) demo_dir_host demo_dir_ctx ''/tmp'' = Some (dd, c1, es)"
    using o(1) demo_dir_mounts(2) by (simp add: yos_opendir_def demo_dir_fields demo_dir_paths yos_path_resolve_def)
  then have ex: "\<exists>i. slot_from_dd c1 dd = Some i \<and> es = [Opened 5, Opened 6]"
    using o(2)
  proof (rule opendir_host_ok)
    fix d h c0 wfd c3 ev and q :: int
    let ?c2 = "upd_dir c0 h (\<lambda>s. s\<lparr>host_dir := Some d\<rparr>)" and ?c4 = "upd_dir c3 h (\<lambda>s. s\<lparr>dd_fd := wfd\<rparr>)"
    assume r: "slot_reserve demo_dir_ctx = (h, c0)" and a: "alloc_wasm_fd_for_host_dir demo_dir_host ?c2 d ''/tmp'' = (wfd, c3, ev)"
      and fi: "slot_finalise ?c4 h = Some (q, c1)" "\<not> q < 0" and res: "dd = dd_off (ctx_dirs c1 ! h)" "es = Opened (h_dirfd demo_dir_host d) # ev"
    have h: "h = 1" "c0 = upd_dir demo_dir_ctx 1 (\<lambda>_. zero_dir\<lparr>dir_in_use := True, dd_fd := - 1\<rparr>)"
      using r reserve_empty [OF demo_dir_fields(1)] by auto
    have "find_index (\<lambda>x. x = - 1) (take YOS_FD_MAX (fd_map ?c2)) = Some 0" using h by (simp add: demo_dir_fields)
    from alloc_host_dir_ok [OF a this] have al: "same_heap ?c2 c3" "ev = [Opened 6]" by (simp_all add: demo_dir_host_def)
    note sm = dirs_same_simps(1) [OF dirs_same_alloc_host_dir [OF a]]
    have ow: "heap_owns ?c4 []" using yos_heap.inv_same_heap [OF _ al(1)] demo_dir_heap(2) h by simp
    have "stream_at c1 [] h dd"
      using finalise_stream(1) [OF ow _ _ _ _ fi] h sm res(1) by (simp add: demo_dir_fields)
    then show ?thesis using stream_at_slot al(2) res(2) by (auto simp: demo_dir_host_def)
  qed
  then obtain i where i: "slot_from_dd c1 dd = Some i" by blast
  have "dir_history (\<lambda>e. e) demo_dir_ctx c1" using dir_history.opendir [OF dir_history.start o(1)] .
  from dir_streams_typed [OF this demo_dir_fields(1,2)] i show ?thesis using o(1) ex i by auto
qed

end
