(* ===== verification/Poll.thy ===== *)
theory Poll
  imports DirStreams
begin

text \<open>
  \<^verbatim>\<open>poll\<close> and \<^verbatim>\<open>ppoll\<close> of \<^verbatim>\<open>src/src/yos/impl/io/dir.c\<close>: the guest's array of eight-byte entries is translated to host descriptors;
  files, directories and the null device are answered without the host, the rest goes to the host's \<^verbatim>\<open>poll\<close>, and the results
  are merged back into the array.
\<close>

section \<open>The calls\<close>

text \<open>What \<^verbatim>\<open>fstat\<close> says of a host descriptor; \<open>NullDevice\<close> is the character device that \<^verbatim>\<open>/dev/null\<close> names.\<close>

datatype file_kind = RegularFile | Directory | NullDevice | OtherFile

abbreviation POLLIN :: "'a::numeral" where "POLLIN \<equiv> 1"
abbreviation READY_EVENTS :: u16 where "READY_EVENTS \<equiv> 0x145"

record poll_entry =
  pe_fd :: int
  pe_events :: u16
  pe_synth :: u16

definition poll_always_ready :: "(int \<Rightarrow> file_kind option) \<Rightarrow> int \<Rightarrow> bool" where
  "poll_always_ready fstat fd \<longleftrightarrow> 0 \<le> fd \<and> fstat fd \<in> {Some RegularFile, Some Directory, Some NullDevice}"

definition poll_entry_of :: "(int \<Rightarrow> file_kind option) \<Rightarrow> int \<Rightarrow> int \<Rightarrow> u16 \<Rightarrow> poll_entry" where
  "poll_entry_of fstat wfd hfd events =
     (let fd = (if wfd < 0 then wfd else if hfd < 0 then - 1 else hfd) in
      if poll_always_ready fstat fd
      then \<lparr> pe_fd = - 1, pe_events = events,
             pe_synth = (if events AND READY_EVENTS = 0 \<and> events \<noteq> 0 then POLLIN else events AND READY_EVENTS) \<rparr>
      else \<lparr> pe_fd = fd, pe_events = events, pe_synth = 0 \<rparr>)"

text \<open>The translation of the entries from \<open>a\<close> on; an unmapped descriptor sets errno on the way.\<close>

fun poll_scan :: "(int \<Rightarrow> int) \<Rightarrow> (int \<Rightarrow> file_kind option) \<Rightarrow> yos_exec_ctx \<Rightarrow> nat \<Rightarrow> nat \<Rightarrow> poll_entry list \<times> yos_exec_ctx" where
  "poll_scan h2g fstat c a 0 = ([], c)"
| "poll_scan h2g fstat c a (Suc n) =
     (let wfd = sint (load32 (memory c) a);
          events = load16w (memory c) (a + 4);
          (hfd, c1) = (if 0 \<le> wfd then yos_fd_get h2g c wfd else (wfd, c));
          (es, c2) = poll_scan h2g fstat c1 (a + 8) n
      in (poll_entry_of fstat wfd hfd events # es, c2))"

definition poll_revents :: "poll_entry \<Rightarrow> u16 \<Rightarrow> u16" where
  "poll_revents e r = (if pe_synth e \<noteq> 0 then pe_synth e else r)"

fun poll_merge :: "mem \<Rightarrow> nat \<Rightarrow> u16 list \<Rightarrow> mem" where
  "poll_merge m a [] = m"
| "poll_merge m a (r # rs) = poll_merge (store16 m (a + 6) r) (a + 8) rs"

text \<open>The host's \<^verbatim>\<open>poll\<close> gives its result, the error number and the events it wrote.\<close>

type_synonym host_poll = "(int \<times> u16) list \<Rightarrow> int \<Rightarrow> int \<times> int \<times> u16 list"

definition poll_wait ::
  "(yos_exec_ctx \<Rightarrow> yos_exec_ctx) \<Rightarrow> host_poll \<Rightarrow> poll_entry list \<Rightarrow> int \<Rightarrow> yos_exec_ctx \<Rightarrow> (int \<times> int \<times> u16 list) \<times> yos_exec_ctx" where
  "poll_wait pump hpoll es timeout c =
     (if \<exists>e\<in>set es. 0 \<le> pe_fd e then
        let eff_timeout = (if \<exists>e\<in>set es. pe_synth e \<noteq> 0 then 0 else timeout);
            c1 = pump c;
            res = hpoll (map (\<lambda>e. (pe_fd e, pe_events e)) es) eff_timeout
        in (res, if fst res < 0 \<and> fst (snd res) = EINTR then pump c1 else c1)
      else ((0, 0, replicate (length es) 0), c))"

definition yos_poll ::
  "(int \<Rightarrow> int) \<Rightarrow> (int \<Rightarrow> file_kind option) \<Rightarrow> (yos_exec_ctx \<Rightarrow> yos_exec_ctx) \<Rightarrow> host_poll \<Rightarrow> yos_exec_ctx \<Rightarrow> u32 \<Rightarrow> u32 \<Rightarrow> int \<Rightarrow>
   int \<times> yos_exec_ctx" where
  "yos_poll h2g fstat pump hpoll ctx pfds_off nfds timeout =
     (if nfds = 0 then (fst (hpoll [] timeout), ctx)
      else if 1024 < nfds then yos_errno_neg h2g ctx EINVAL
      else if pfds_off = 0 \<or> unat (memory_size ctx) < unat pfds_off + unat nfds * 8 then yos_errno_neg h2g ctx EFAULT
      else
        let (es, c1) = poll_scan h2g fstat ctx (unat pfds_off) (unat nfds);
            ((r, saved, hrev), c2) = poll_wait pump hpoll es timeout c1;
            revs = map2 poll_revents es hrev;
            c3 = c2\<lparr>memory := poll_merge (memory c2) (unat pfds_off) revs\<rparr>;
            merged_count = length (filter (\<lambda>v. v \<noteq> 0) revs)
        in if r < 0 \<and> merged_count = 0 then yos_errno_neg h2g c3 saved
           else ((if r < 0 then 0 else r) + int (length (filter (\<lambda>e. pe_synth e \<noteq> 0 \<and> pe_fd e < 0) es)), c3))"

text \<open>The bound on the time-out's address is computed in 32 bits; the signal mask is ignored.\<close>

definition yos_ppoll ::
  "(int \<Rightarrow> int) \<Rightarrow> (int \<Rightarrow> file_kind option) \<Rightarrow> (yos_exec_ctx \<Rightarrow> yos_exec_ctx) \<Rightarrow> host_poll \<Rightarrow> yos_exec_ctx \<Rightarrow> u32 \<Rightarrow> u32 \<Rightarrow> u32 \<Rightarrow> u32 \<Rightarrow>
   int \<times> yos_exec_ctx" where
  "yos_ppoll h2g fstat pump hpoll ctx pfds_off nfds timeout_off sigmask_off =
     (if timeout_off = 0 then yos_poll h2g fstat pump hpoll ctx pfds_off nfds (- 1)
      else if memory_size ctx < timeout_off + 8 then yos_errno_neg h2g ctx EFAULT
      else
        let tv_sec = sint (load32 (memory ctx) (unat timeout_off));
            tv_nsec = sint (load32 (memory ctx) (unat timeout_off + 4))
        in if tv_sec < 0 \<or> tv_nsec < 0 then yos_errno_neg h2g ctx EINVAL
           else yos_poll h2g fstat pump hpoll ctx pfds_off nfds (min 0x7FFFFFFF (tv_sec * 1000 + tv_nsec div 1000000)))"

section \<open>Merging\<close>

lemma poll_merge_out:
  "(\<And>i. i < length rs \<Longrightarrow> j \<noteq> a + 8 * i + 6 \<and> j \<noteq> a + 8 * i + 7) \<Longrightarrow> poll_merge m a rs j = m j"
proof (induction rs arbitrary: m a)
  case (Cons r rs)
  have "j \<noteq> (a + 8) + 8 * i + 6 \<and> j \<noteq> (a + 8) + 8 * i + 7" if "i < length rs" for i using Cons.prems [of "Suc i"] that by simp
  then have "poll_merge (store16 m (a + 6) r) (a + 8) rs j = store16 m (a + 6) r j" using Cons.IH by blast
  moreover have "j \<noteq> a + 6" "j \<noteq> a + 7" using Cons.prems [of 0] by simp_all
  ultimately show ?case by (simp add: store16_def)
qed simp

lemma poll_merge_at: "i < length rs \<Longrightarrow> load16w (poll_merge m a rs) (a + 8 * i + 6) = rs ! i"
proof (induction rs arbitrary: m a i)
  case (Cons r rs)
  show ?case
  proof (cases i)
    case 0
    have keep: "poll_merge (store16 m (a + 6) r) (a + 8) rs j = store16 m (a + 6) r j" if "j < a + 8" for j
      by (rule poll_merge_out) (use that in auto)
    have "load16w (poll_merge (store16 m (a + 6) r) (a + 8) rs) (a + 6) = load16w (store16 m (a + 6) r) (a + 6)"
      unfolding load16w_def load16_def using keep [of "a + 6"] keep [of "a + 6 + 1"] by simp
    then show ?thesis using 0 by (simp add: load16_store16w)
  next
    case (Suc k)
    have "load16w (poll_merge (store16 m (a + 6) r) (a + 8) rs) (a + 8 + 8 * k + 6) = rs ! k"
      using Cons.IH [of k "store16 m (a + 6) r" "a + 8"] Cons.prems Suc by simp
    moreover have "a + 8 * i + 6 = a + 8 + 8 * k + 6" using Suc by simp
    ultimately show ?thesis using Suc by (simp only: poll_merge.simps nth_Cons_Suc)
  qed
qed simp

section \<open>The translation\<close>

lemma poll_scan_length: "poll_scan h2g fstat c a n = (es, c') \<Longrightarrow> length es = n"
  by (induction n arbitrary: c a es c') (auto simp: Let_def split: prod.splits)

lemma fd_get_memory: "yos_fd_get h2g c w = (h, c') \<Longrightarrow> j < unat (errno_off c) \<or> unat (errno_off c) + 4 \<le> j \<Longrightarrow>
    memory c' j = memory c j \<and> errno_off c' = errno_off c \<and> memory_size c' = memory_size c"
  by (auto simp: yos_fd_get_def Let_def yos_errno_neg_def set_errno_def store32_other split: if_splits)

lemma poll_scan_memory:
  "poll_scan h2g fstat c a n = (es, c') \<Longrightarrow> j < unat (errno_off c) \<or> unat (errno_off c) + 4 \<le> j \<Longrightarrow>
     memory c' j = memory c j \<and> errno_off c' = errno_off c"
proof (induction n arbitrary: c a es c')
  case (Suc n)
  obtain hfd c1 where g: "(if 0 \<le> sint (load32 (memory c) a) then yos_fd_get h2g c (sint (load32 (memory c) a)) else (sint (load32 (memory c) a), c)) = (hfd, c1)"
    by fastforce
  have 1: "memory c1 j = memory c j \<and> errno_off c1 = errno_off c"
    using g fd_get_memory [of h2g c _ hfd c1 j] Suc.prems(2) by (auto split: if_splits)
  obtain es' where "poll_scan h2g fstat c1 (a + 8) n = (es', c')" using Suc.prems(1) g by (auto simp: Let_def split: prod.splits)
  from Suc.IH [OF this] show ?case using 1 Suc.prems(2) by simp
qed simp

lemma synth_not_host: "pe_synth (poll_entry_of fstat wfd hfd ev) \<noteq> 0 \<Longrightarrow> pe_fd (poll_entry_of fstat wfd hfd ev) < 0"
  by (auto simp: poll_entry_of_def Let_def split: if_splits)

lemma poll_scan_synth: "poll_scan h2g fstat c a n = (es, c') \<Longrightarrow> e \<in> set es \<Longrightarrow> pe_synth e \<noteq> 0 \<Longrightarrow> pe_fd e < 0"
  by (induction n arbitrary: c a es c') (auto simp: Let_def synth_not_host split: prod.splits)

section \<open>The result\<close>

text \<open>What the host's \<^verbatim>\<open>poll\<close> promises: negative descriptors are ignored, the result counts the entries with events, and a failure
  writes none.\<close>

definition host_poll_ok :: "host_poll \<Rightarrow> bool" where
  "host_poll_ok hpoll \<longleftrightarrow> (\<forall>ps t r e revs. hpoll ps t = (r, e, revs) \<longrightarrow> length revs = length ps \<and>
     (\<forall>i<length ps. fst (ps ! i) < 0 \<longrightarrow> revs ! i = 0) \<and>
     (if r < 0 then \<forall>v\<in>set revs. v = 0 else r = int (length (filter (\<lambda>v. v \<noteq> 0) revs))))"

lemma length_filter_nth: "length (filter P xs) = card {i. i < length xs \<and> P (xs ! i)}"
  by (simp add: length_filter_conv_card)

text \<open>Entries answered here and entries answered by the host are disjoint, so the counts add up.\<close>

lemma merged_count:
  assumes "length hrev = length es" and "\<And>e. e \<in> set es \<Longrightarrow> pe_synth e \<noteq> 0 \<Longrightarrow> pe_fd e < 0"
    and "\<And>i. i < length es \<Longrightarrow> pe_fd (es ! i) < 0 \<Longrightarrow> hrev ! i = 0"
  shows "length (filter (\<lambda>v. v \<noteq> 0) (map2 poll_revents es hrev)) =
    length (filter (\<lambda>v. v \<noteq> 0) hrev) + length (filter (\<lambda>e. pe_synth e \<noteq> 0 \<and> pe_fd e < 0) es)"
proof -
  let ?n = "length es"
  let ?A = "{i. i < ?n \<and> hrev ! i \<noteq> 0}" and ?B = "{i. i < ?n \<and> pe_synth (es ! i) \<noteq> 0 \<and> pe_fd (es ! i) < 0}"
  have d: "?A \<inter> ?B = {}" using assms(3) by auto
  have neg: "pe_fd (es ! i) < 0" if "i < ?n" "pe_synth (es ! i) \<noteq> 0" for i using assms(2) [of "es ! i"] that by simp
  have "{i. i < ?n \<and> map2 poll_revents es hrev ! i \<noteq> 0} = ?A \<union> ?B"
    using assms(1,3) neg by (auto simp: poll_revents_def split: if_splits)
  then have "card {i. i < ?n \<and> map2 poll_revents es hrev ! i \<noteq> 0} = card ?A + card ?B" using d by (simp add: card_Un_disjoint)
  then show ?thesis using assms(1) by (simp add: length_filter_nth)
qed

lemma poll_wait_ok:
  assumes "poll_wait pump hpoll es t c = ((r, e, hrev), c')" and "host_poll_ok hpoll"
  shows "length hrev = length es" and "\<And>i. i < length es \<Longrightarrow> pe_fd (es ! i) < 0 \<Longrightarrow> hrev ! i = 0"
    and "if r < 0 then \<forall>v\<in>set hrev. v = 0 else r = int (length (filter (\<lambda>v. v \<noteq> 0) hrev))"
proof -
  let ?ps = "map (\<lambda>e. (pe_fd e, pe_events e)) es" and ?t = "if \<exists>e\<in>set es. pe_synth e \<noteq> 0 then 0 else t"
  consider "hpoll ?ps ?t = (r, e, hrev)" | "(r, e, hrev) = (0, 0, replicate (length es) 0)"
    using assms(1) by (auto simp: poll_wait_def Let_def split: if_splits)
  then have "length hrev = length es \<and> (\<forall>i<length es. pe_fd (es ! i) < 0 \<longrightarrow> hrev ! i = 0) \<and>
      (if r < 0 then \<forall>v\<in>set hrev. v = 0 else r = int (length (filter (\<lambda>v. v \<noteq> 0) hrev)))"
  proof cases
    case 1
    then show ?thesis using assms(2) unfolding host_poll_ok_def by (auto dest!: spec [of _ ?ps] spec [of _ ?t])
  qed simp
  then show "length hrev = length es" "\<And>i. i < length es \<Longrightarrow> pe_fd (es ! i) < 0 \<Longrightarrow> hrev ! i = 0"
    "if r < 0 then \<forall>v\<in>set hrev. v = 0 else r = int (length (filter (\<lambda>v. v \<noteq> 0) hrev))" by blast+
qed

text \<open>A call that passes the checks, step by step.\<close>

lemma poll_run:
  assumes "yos_poll h2g fstat pump hpoll c p n t = (res, c')" and "n \<noteq> 0" and "0 \<le> res"
  obtains es c1 r e hrev c2 where "poll_scan h2g fstat c (unat p) (unat n) = (es, c1)" "poll_wait pump hpoll es t c1 = ((r, e, hrev), c2)"
    "c' = c2\<lparr>memory := poll_merge (memory c2) (unat p) (map2 poll_revents es hrev)\<rparr>"
    "res = (if r < 0 then 0 else r) + int (length (filter (\<lambda>e. pe_synth e \<noteq> 0 \<and> pe_fd e < 0) es))"
    "p \<noteq> 0" "unat p + unat n * 8 \<le> unat (memory_size c)"
proof -
  obtain es c1 where s: "poll_scan h2g fstat c (unat p) (unat n) = (es, c1)" by (cases "poll_scan h2g fstat c (unat p) (unat n)")
  obtain r e hrev c2 where w: "poll_wait pump hpoll es t c1 = ((r, e, hrev), c2)" by (metis surj_pair)
  have ok: "p \<noteq> 0" "unat p + unat n * 8 \<le> unat (memory_size c)" "\<not> 1024 < n"
    using assms by (auto simp: yos_poll_def yos_errno_neg_def split: if_splits)
  show thesis
    using assms ok s w by (intro that [OF s w]) (auto simp: yos_poll_def yos_errno_neg_def Let_def split: if_splits)
qed

lemma poll_success:
  assumes "host_poll_ok hpoll" and "\<forall>c. pump c = c" and "yos_poll h2g fstat pump hpoll c p n t = (res, c')" and "n \<noteq> 0" and "0 \<le> res"
  shows "res = int (length (filter (\<lambda>i. load16w (memory c') (unat p + 8 * i + 6) \<noteq> 0) [0..<unat n]))"
    and "unat p + 8 * unat n \<le> unat (memory_size c)"
    and "(\<And>i. i < unat n \<Longrightarrow> j \<noteq> unat p + 8 * i + 6 \<and> j \<noteq> unat p + 8 * i + 7) \<Longrightarrow>
      j < unat (errno_off c) \<or> unat (errno_off c) + 4 \<le> j \<Longrightarrow> memory c' j = memory c j"
proof -
  obtain es c1 r e hrev c2 where s: "poll_scan h2g fstat c (unat p) (unat n) = (es, c1)" and w: "poll_wait pump hpoll es t c1 = ((r, e, hrev), c2)"
    and c': "c' = c2\<lparr>memory := poll_merge (memory c2) (unat p) (map2 poll_revents es hrev)\<rparr>"
    and res: "res = (if r < 0 then 0 else r) + int (length (filter (\<lambda>e. pe_synth e \<noteq> 0 \<and> pe_fd e < 0) es))"
    and b: "unat p + unat n * 8 \<le> unat (memory_size c)" by (rule poll_run [OF assms(3-5)])
  note ok = poll_wait_ok [OF w assms(1)]
  let ?revs = "map2 poll_revents es hrev"
  have len: "length es = unat n" "length ?revs = unat n" using poll_scan_length [OF s] ok(1) by simp_all
  have "length (filter (\<lambda>v. v \<noteq> 0) hrev) = 0" if "r < 0" using ok(3) that by (auto simp: filter_empty_conv)
  then have "res = int (length (filter (\<lambda>v. v \<noteq> 0) hrev) + length (filter (\<lambda>e. pe_synth e \<noteq> 0 \<and> pe_fd e < 0) es))"
    using res ok(3) by (auto split: if_splits)
  then have "res = int (length (filter (\<lambda>v. v \<noteq> 0) ?revs))" using merged_count [OF ok(1) poll_scan_synth [OF s] ok(2)] by simp
  also have "length (filter (\<lambda>v. v \<noteq> 0) ?revs) = card {i. i < length ?revs \<and> ?revs ! i \<noteq> 0}" by (rule length_filter_nth)
  also have "{i. i < length ?revs \<and> ?revs ! i \<noteq> 0} = {i. i < unat n \<and> load16w (memory c') (unat p + 8 * i + 6) \<noteq> 0}"
    unfolding c' using poll_merge_at [of _ ?revs "memory c2" "unat p"] len ok(1) by (intro Collect_cong conj_cong) simp_all
  also have "card {i. i < unat n \<and> load16w (memory c') (unat p + 8 * i + 6) \<noteq> 0} =
      length (filter (\<lambda>i. load16w (memory c') (unat p + 8 * i + 6) \<noteq> 0) [0..<unat n])"
  proof -
    have "card {i. i < unat n \<and> P i} = length (filter P [0..<unat n])" for P by (simp add: length_filter_nth) (metis add_0 nth_upt)
    then show ?thesis .
  qed
  finally show "res = int (length (filter (\<lambda>i. load16w (memory c') (unat p + 8 * i + 6) \<noteq> 0) [0..<unat n]))" .
  show "unat p + 8 * unat n \<le> unat (memory_size c)" using b by simp
  have c2: "c2 = c1" using w assms(2) by (auto simp: poll_wait_def Let_def split: if_splits)
  show "memory c' j = memory c j" if out: "\<And>i. i < unat n \<Longrightarrow> j \<noteq> unat p + 8 * i + 6 \<and> j \<noteq> unat p + 8 * i + 7"
    and e: "j < unat (errno_off c) \<or> unat (errno_off c) + 4 \<le> j"
  proof -
    have "poll_merge (memory c2) (unat p) ?revs j = memory c2 j" by (rule poll_merge_out, rule out) (simp only: len(2))
    then show ?thesis using poll_scan_memory [OF s e] c2 by (simp add: c')
  qed
qed

text \<open>
  \<^verbatim>\<open>poll\<close> counts what it reports.  For a host \<^verbatim>\<open>poll\<close> that keeps its contract, a successful call returns exactly the number of
  entries of the guest's array whose result field is not zero afterwards, whether the answer came from the host or was made up here;
  the array lies in linear memory; and nothing else is written, but for the errno slot.
\<close>

theorem poll_counts_results:
  assumes "host_poll_ok hpoll" and "\<forall>c. pump c = c" and "yos_poll h2g fstat pump hpoll c p n t = (res, c')" and "n \<noteq> 0" and "0 \<le> res"
  shows "res = int (length (filter (\<lambda>i. load16w (memory c') (unat p + 8 * i + 6) \<noteq> 0) [0..<unat n])) \<and>
    unat p + 8 * unat n \<le> unat (memory_size c) \<and>
    (\<forall>j. (\<forall>i<unat n. j \<noteq> unat p + 8 * i + 6 \<and> j \<noteq> unat p + 8 * i + 7) \<longrightarrow>
      j < unat (errno_off c) \<or> unat (errno_off c) + 4 \<le> j \<longrightarrow> memory c' j = memory c j)"
  using poll_success [OF assms] by blast

section \<open>Where it differs from the system call\<close>

text \<open>An entry whose descriptor is not open is skipped; it is not reported as invalid.\<close>

lemma poll_closed_descriptor_ignored:
  assumes "0 \<le> w" and "fst (yos_fd_get h2g c w) < 0"
  shows "poll_entry_of fstat w (fst (yos_fd_get h2g c w)) ev = \<lparr> pe_fd = - 1, pe_events = ev, pe_synth = 0 \<rparr>"
  using assms by (simp add: poll_entry_of_def poll_always_ready_def Let_def)

text \<open>Without any host descriptor the call does not wait at all, whatever the time-out.\<close>

lemma poll_without_descriptors_returns_at_once:
  assumes "\<forall>e\<in>set es. pe_fd e < 0"
  shows "poll_wait pump hpoll es timeout c = ((0, 0, replicate (length es) 0), c)"
  using assms by (auto simp: poll_wait_def)

text \<open>An address of the time-out at the top of the range passes the check.\<close>

lemma ppoll_bound_wraps: "\<not> memory_size c < (0xFFFFFFFC :: u32) + 8" if "4 \<le> memory_size c"
proof -
  have "(0xFFFFFFFC :: u32) + 8 = 4" by simp
  then show ?thesis using that by (simp only: not_less)
qed

section \<open>A concrete call\<close>

text \<open>Descriptor 3 is a regular file and descriptor 4 a pipe; both are polled for input, and a negative entry is ignored.\<close>

definition demo_poll_ctx :: yos_exec_ctx where
  "demo_poll_ctx = (ctx_calloc (mem_write (\<lambda>_. 0) 0x100
     [3, 0, 0, 0, 1, 0, 0, 0,  4, 0, 0, 0, 1, 0, 0, 0,  255, 255, 255, 255, 1, 0, 0, 0]) 65536)
     \<lparr>fd_map := [0, 1, 2, 7, 8] @ replicate 251 (- 1)\<rparr>"

definition demo_hpoll :: host_poll where
  "demo_hpoll ps t = (let revs = map (\<lambda>(fd, ev). if 0 \<le> fd then ev else 0) ps in (int (length (filter (\<lambda>v. v \<noteq> 0) revs)), 0, revs))"

lemma demo_hpoll_ok: "host_poll_ok demo_hpoll"
  by (auto simp: host_poll_ok_def demo_hpoll_def Let_def split: prod.splits)

theorem poll_counts_results_witness:
  "\<exists>c'. yos_poll (\<lambda>e. e) (\<lambda>fd. if fd = 7 then Some RegularFile else Some OtherFile) (\<lambda>c. c) demo_hpoll demo_poll_ctx 0x100 3 (- 1) = (2, c') \<and>
     length (filter (\<lambda>i. load16w (memory c') (0x100 + 8 * i + 6) \<noteq> 0) [0..<3]) = 2"
proof -
  let ?run = "yos_poll (\<lambda>e. e) (\<lambda>fd. if fd = 7 then Some RegularFile else Some OtherFile) (\<lambda>c. c) demo_hpoll demo_poll_ctx 0x100 3 (- 1)"
  let ?es = "[\<lparr>pe_fd = - 1, pe_events = 1, pe_synth = 1\<rparr>, \<lparr>pe_fd = 8, pe_events = 1, pe_synth = 0\<rparr>, \<lparr>pe_fd = - 1, pe_events = 1, pe_synth = 0\<rparr>]"
  have m: "load32 (memory demo_poll_ctx) 0x100 = 3" "load32 (memory demo_poll_ctx) 0x108 = 4" "load32 (memory demo_poll_ctx) 0x110 = - 1"
    "load16w (memory demo_poll_ctx) 0x104 = 1" "load16w (memory demo_poll_ctx) 0x10C = 1" "load16w (memory demo_poll_ctx) 0x114 = 1"
    by (simp_all add: demo_poll_ctx_def ctx_calloc_def load32_def load16w_def load16_def mem_write_def)
  have g: "yos_fd_get (\<lambda>e. e) demo_poll_ctx 3 = (7, demo_poll_ctx)" "yos_fd_get (\<lambda>e. e) demo_poll_ctx 4 = (8, demo_poll_ctx)"
    by (simp_all add: demo_poll_ctx_def ctx_calloc_def yos_fd_get_def)
  have "poll_scan (\<lambda>e. e) (\<lambda>fd. if fd = 7 then Some RegularFile else Some OtherFile) demo_poll_ctx 0x100 (Suc (Suc (Suc 0))) = (?es, demo_poll_ctx)"
    using m g by (simp add: Let_def poll_entry_of_def poll_always_ready_def)
  moreover have "memory_size demo_poll_ctx = 65536" by (simp add: demo_poll_ctx_def ctx_calloc_def)
  moreover have "unat (3 :: u32) = Suc (Suc (Suc 0))" by simp
  ultimately have "fst ?run = 2"
    unfolding yos_poll_def by (simp only: Let_def poll_wait_def) (simp add: demo_hpoll_def poll_revents_def)
  then obtain c' where c': "?run = (2, c')" by (metis prod.collapse)
  from poll_counts_results [OF demo_hpoll_ok _ c'] show ?thesis using c' by simp
qed

section \<open>The error number\<close>

text \<open>A context that differs in the error number at most.\<close>

definition errno_only :: "yos_exec_ctx \<Rightarrow> yos_exec_ctx \<Rightarrow> bool" where
  "errno_only c c' \<longleftrightarrow> errno_off c' = errno_off c \<and> memory_size c' = memory_size c \<and>
     (\<forall>j. j < unat (errno_off c) \<or> unat (errno_off c) + 4 \<le> j \<longrightarrow> memory c' j = memory c j)"

lemma errno_only_refl [simp]: "errno_only c c"
  by (simp add: errno_only_def)

lemma errno_only_trans: "errno_only c c' \<Longrightarrow> errno_only c' c'' \<Longrightarrow> errno_only c c''"
  by (simp add: errno_only_def)

lemma errno_only_set_errno: "errno_only c (set_errno h2g c e)"
  by (auto simp: errno_only_def set_errno_def store32_other)

lemma errno_only_fd_get: "yos_fd_get h2g c w = (h, c') \<Longrightarrow> errno_only c c'"
  using errno_only_set_errno by (auto simp: yos_fd_get_def Let_def yos_errno_neg_def split: if_splits)

text \<open>The word of the error number.\<close>

definition in_errno :: "yos_exec_ctx \<Rightarrow> nat \<Rightarrow> bool" where
  "in_errno c j \<longleftrightarrow> unat (errno_off c) \<le> j \<and> j < unat (errno_off c) + 4"

lemma errno_only_memory: "errno_only c c' \<Longrightarrow> \<not> in_errno c j \<Longrightarrow> memory c' j = memory c j"
  by (auto simp: errno_only_def in_errno_def not_le not_less)

end
