(* ===== verification/Fifo.thy ===== *)
theory Fifo
  imports Env FdCalls ProcfsProps
begin

text \<open>
  Named pipes and file attributes: \<^verbatim>\<open>src/src/yos/impl/io/fifo.c\<close>, \<^verbatim>\<open>cv_stat.c\<close> and the unlink and readlink calls of \<^verbatim>\<open>io.c\<close>.  A named
  pipe is an ordinary marker file plus a host pipe that a registry of the context files under the marker's path: opening the
  path gives a duplicate of one end, stat reports the marker as a pipe, unlink gives both ends back.
\<close>

section \<open>The host\<close>

text \<open>Results on the right, error numbers on the left; \<open>fh_dup\<close> and \<open>fh_unlink\<close> give the C result and the error number.\<close>

record fifo_host =
  fh_marker :: "string \<Rightarrow> u16 \<Rightarrow> int + int"
  fh_pipe :: "int + int \<times> int"
  fh_dup :: "int \<Rightarrow> bool \<Rightarrow> int \<times> int"
  fh_unlink :: "string \<Rightarrow> int \<times> int"
  fh_dot :: int
  fh_fchdir :: "int \<Rightarrow> int"
  fh_getcwd :: "int + string"

section \<open>The registry\<close>

definition fifo_lookup_locked :: "yos_exec_ctx \<Rightarrow> string \<Rightarrow> fifo_entry option" where
  "fifo_lookup_locked ctx path = find (\<lambda>e. fe_path e = path) (fifo_head ctx)"

text \<open>
  Opening: \<open>(-1, 0)\<close> says that the path is no named pipe.  The flags are the guest's, the bits that are tested the host's.
\<close>

definition yos_fifo_try_open :: "fifo_host \<Rightarrow> yos_exec_ctx \<Rightarrow> string \<Rightarrow> u32 \<Rightarrow> int \<times> int" where
  "yos_fifo_try_open H ctx path flags =
     (case fifo_lookup_locked ctx path of
        None \<Rightarrow> (- 1, 0)
      | Some e \<Rightarrow>
          let acc = flags AND 3;
              src = (if acc = 1 then fe_wfd e else if acc = 0 then fe_rfd e else fe_wfd e)
          in case fh_dup H src (flags AND 0x80000 \<noteq> 0) of (d, er) \<Rightarrow> if d < 0 then (- 1, er) else (d, er))"

text \<open>The loop that unlinks the first entry of the path and closes its ends.\<close>

fun fifo_remove :: "string \<Rightarrow> fifo_entry list \<Rightarrow> fifo_entry list \<times> fd_event list" where
  "fifo_remove path [] = ([], [])"
| "fifo_remove path (e # fs) =
     (if fe_path e = path then (fs, [Closed (fe_rfd e), Closed (fe_wfd e)])
      else case fifo_remove path fs of (fs', es) \<Rightarrow> (e # fs', es))"

definition yos_fifo_drop :: "yos_exec_ctx \<Rightarrow> string \<Rightarrow> yos_exec_ctx \<times> fd_event list" where
  "yos_fifo_drop ctx path = (case fifo_remove path (fifo_head ctx) of (fs, es) \<Rightarrow> (ctx\<lparr>fifo_head := fs\<rparr>, es))"

text \<open>
  Creation.  An older entry of the path is torn down and a file of that name unlinked before the marker is created.  The
  host's \<^verbatim>\<open>malloc\<close> is taken to succeed.
\<close>

definition yos_mkfifo_path :: "(int \<Rightarrow> int) \<Rightarrow> fifo_host \<Rightarrow> yos_exec_ctx \<Rightarrow> string \<Rightarrow> u16 \<Rightarrow> fd_result" where
  "yos_mkfifo_path h2g H ctx path mode =
     (case yos_fifo_drop ctx path of (c1, es0) \<Rightarrow>
        case fh_marker H path (mode AND 0x1FF) of
          Inl e \<Rightarrow> (- 1, set_errno h2g c1 e, es0)
        | Inr marker \<Rightarrow>
            let es1 = es0 @ [Opened marker, Closed marker] in
            (case fh_pipe H of
               Inl e \<Rightarrow> (- 1, set_errno h2g c1 e, es1)
             | Inr (r, w) \<Rightarrow>
                 (0, c1\<lparr>fifo_head := \<lparr> fe_path = path, fe_rfd = r, fe_wfd = w \<rparr> # fifo_head c1\<rparr>, es1 @ [Opened r, Opened w])))"

definition checked_off :: "yos_exec_ctx \<Rightarrow> u32 \<Rightarrow> bool" where
  "checked_off ctx off \<longleftrightarrow> off \<noteq> 0 \<and> off < memory_size ctx"

definition yos_mkfifo :: "(int \<Rightarrow> int) \<Rightarrow> fifo_host \<Rightarrow> yos_exec_ctx \<Rightarrow> u32 \<Rightarrow> u16 \<Rightarrow> fd_result" where
  "yos_mkfifo h2g H ctx path_off mode =
     (if \<not> checked_off ctx path_off then (- 1, set_errno h2g ctx EFAULT, [])
      else yos_mkfifo_path h2g H ctx (yos_path_resolve ctx (raw_str (memory ctx) (unat path_off))) ((mode AND 0x1FF) AND NOT (umask ctx)))"

text \<open>The directory of a relative path: the host's own working directory, or that of the descriptor after a detour there and back.\<close>

definition fifo_dir :: "fifo_host \<Rightarrow> int \<Rightarrow> (int + string) \<times> fd_event list" where
  "fifo_dir H hdfd =
     (if hdfd = AT_FDCWD then (fh_getcwd H, [])
      else
        let es = (if 0 \<le> fh_dot H then [Opened (fh_dot H), Closed (fh_dot H)] else []) in
        (if fh_fchdir H hdfd \<noteq> 0 then Inl (fh_fchdir H hdfd) else fh_getcwd H, es))"

definition yos_mkfifoat :: "(int \<Rightarrow> int) \<Rightarrow> fifo_host \<Rightarrow> yos_exec_ctx \<Rightarrow> int \<Rightarrow> u32 \<Rightarrow> u16 \<Rightarrow> fd_result" where
  "yos_mkfifoat h2g H ctx dfd path_off mode =
     (if \<not> checked_off ctx path_off then (- 1, set_errno h2g ctx EFAULT, [])
      else let raw = raw_str (memory ctx) (unat path_off) in
        if raw \<noteq> [] \<and> hd raw = CHR ''/'' then yos_mkfifo h2g H ctx path_off mode
        else case yos_xlate_dfd h2g ctx dfd of (hdfd, c1) \<Rightarrow>
          case fifo_dir H hdfd of
            (Inl e, es) \<Rightarrow> (- 1, set_errno h2g c1 e, es)
          | (Inr dir, es) \<Rightarrow>
              (case yos_mkfifo_path h2g H c1 (take 4095 (dir @ ''/'' @ raw)) mode of (r, c2, es') \<Rightarrow> (r, c2, es @ es')))"

definition yos_unlink :: "(int \<Rightarrow> int) \<Rightarrow> fifo_host \<Rightarrow> yos_exec_ctx \<Rightarrow> u32 \<Rightarrow> fd_result" where
  "yos_unlink h2g H ctx pathname =
     (case guest_str ctx pathname of
        None \<Rightarrow> (- 1, set_errno h2g ctx EFAULT, [])
      | Some raw \<Rightarrow>
          let s = yos_path_resolve ctx raw in
          (case yos_fifo_drop ctx s of (c1, es) \<Rightarrow>
             case yos_errno_check h2g c1 (fst (fh_unlink H s)) (snd (fh_unlink H s)) of (r, c2) \<Rightarrow> (r, c2, es)))"

definition yos_vfs_chroot :: "(int \<Rightarrow> int) \<Rightarrow> yos_exec_ctx \<Rightarrow> u32 \<Rightarrow> int \<times> yos_exec_ctx" where
  "yos_vfs_chroot h2g ctx filename = yos_errno_neg h2g ctx 1"

section \<open>File attributes\<close>

text \<open>The host's \<^verbatim>\<open>struct stat\<close>.\<close>

record host_stat =
  st_dev :: u64
  st_ino :: u64
  st_nlink :: u64
  st_mode :: u32
  st_uid :: u32
  st_gid :: u32
  st_rdev :: u64
  st_atim_sec :: u64
  st_atim_nsec :: u64
  st_mtim_sec :: u64
  st_mtim_nsec :: u64
  st_ctim_sec :: u64
  st_ctim_nsec :: u64
  st_size :: u64
  st_blocks :: u64
  st_blksize :: u64

abbreviation S_IFMT :: u32 where "S_IFMT \<equiv> 0xF000"
abbreviation S_IFIFO :: u32 where "S_IFIFO \<equiv> 0x1000"
abbreviation S_IFLNK :: u32 where "S_IFLNK \<equiv> 0xA000"

definition stat_mode :: "u32 \<Rightarrow> u32" where
  "stat_mode m = (if m AND S_IFMT = S_IFLNK then (m AND NOT 0x1FF) OR 0x1FF else m)"

text \<open>The writer of the FreeBSD structure: 192 bytes are cleared, then the fields are stored (on Linux, without birth time).\<close>

definition yos_cv_stat_fbi :: "mem \<Rightarrow> nat \<Rightarrow> host_stat \<Rightarrow> mem" where
  "yos_cv_stat_fbi m w h =
     (let m0 = mem_fill m w 0 192;
          m1 = store64 (store64 (store64 m0 w (st_dev h)) (w + 8) (st_ino h)) (w + 16) (st_nlink h);
          m2 = store16 m1 (w + 24) (ucast (stat_mode (st_mode h)));
          m3 = store64 (store32 (store32 m2 (w + 28) (st_uid h)) (w + 32) (st_gid h)) (w + 40) (st_rdev h);
          m4 = store32 (store32 m3 (w + 52) (ucast (st_atim_sec h))) (w + 56) (ucast (st_atim_nsec h));
          m5 = store32 (store32 m4 (w + 64) (ucast (st_mtim_sec h))) (w + 68) (ucast (st_mtim_nsec h));
          m6 = store32 (store32 m5 (w + 76) (ucast (st_ctim_sec h))) (w + 80) (ucast (st_ctim_nsec h))
      in store32 (store64 (store64 m6 (w + 96) (st_size h)) (w + 104) (st_blocks h)) (w + 112) (ucast (st_blksize h)))"

definition yos_fifo_stat_fixup :: "yos_exec_ctx \<Rightarrow> string \<Rightarrow> u32 \<Rightarrow> u32" where
  "yos_fifo_stat_fixup ctx path m =
     (case fifo_lookup_locked ctx path of None \<Rightarrow> m | Some _ \<Rightarrow> (m AND NOT S_IFMT) OR S_IFIFO)"

text \<open>The tail the three calls share: the result of the host, the overlay and the copy.\<close>

definition stat_result :: "(int \<Rightarrow> int) \<Rightarrow> yos_exec_ctx \<Rightarrow> string \<Rightarrow> int + host_stat \<Rightarrow> u32 \<Rightarrow> int \<times> yos_exec_ctx" where
  "stat_result h2g ctx path res statbuf_off =
     (case res of
        Inl e \<Rightarrow> yos_errno_neg h2g ctx e
      | Inr st \<Rightarrow>
          let st' = st\<lparr>st_mode := yos_fifo_stat_fixup ctx path (st_mode st)\<rparr> in
          (0, if checked_off ctx statbuf_off then ctx\<lparr>memory := yos_cv_stat_fbi (memory ctx) (unat statbuf_off) st'\<rparr> else ctx))"

definition yos_stat :: "(int \<Rightarrow> int) \<Rightarrow> (string \<Rightarrow> int + host_stat) \<Rightarrow> yos_exec_ctx \<Rightarrow> u32 \<Rightarrow> u32 \<Rightarrow> int \<times> yos_exec_ctx" where
  "yos_stat h2g stat ctx path_off statbuf_off =
     (if \<not> checked_off ctx path_off then yos_errno_neg h2g ctx EFAULT
      else let path = yos_path_resolve ctx (raw_str (memory ctx) (unat path_off)) in
        stat_result h2g ctx path (stat path) statbuf_off)"

definition yos_lstat :: "(int \<Rightarrow> int) \<Rightarrow> (string \<Rightarrow> int + host_stat) \<Rightarrow> yos_exec_ctx \<Rightarrow> u32 \<Rightarrow> u32 \<Rightarrow> int \<times> yos_exec_ctx" where
  "yos_lstat h2g lstat ctx path_off statbuf_off =
     (if \<not> checked_off ctx path_off then yos_errno_neg h2g ctx EFAULT
      else let path = yos_path_resolve ctx (raw_str (memory ctx) (unat path_off)) in
        stat_result h2g ctx path (lstat path) statbuf_off)"

definition yos_fstatat ::
  "(int \<Rightarrow> int) \<Rightarrow> (int \<Rightarrow> string \<Rightarrow> u32 \<Rightarrow> int + host_stat) \<Rightarrow> yos_exec_ctx \<Rightarrow> int \<Rightarrow> u32 \<Rightarrow> u32 \<Rightarrow> u32 \<Rightarrow> int \<times> yos_exec_ctx" where
  "yos_fstatat h2g fstatat ctx dfd path_off statbuf_off flags =
     (if \<not> checked_off ctx path_off then yos_errno_neg h2g ctx EFAULT
      else let raw = raw_str (memory ctx) (unat path_off) in
        case yos_xlate_dfd h2g ctx dfd of (hdfd, c1) \<Rightarrow>
          let path = yos_path_resolve c1 raw in
          stat_result h2g c1 path (fstatat hdfd path (yos_at_flags_fb_to_lx flags)) statbuf_off)"

text \<open>The older call with a layout of its own: change time and file number share the bytes from 88.\<close>

definition stat64_copy :: "mem \<Rightarrow> nat \<Rightarrow> host_stat \<Rightarrow> mem" where
  "stat64_copy m w h =
     (let m0 = mem_fill m w 0 96;
          m1 = store32 (store32 (store32 (store64 m0 w (st_dev h)) (w + 12) (ucast (st_ino h))) (w + 16) (st_mode h)) (w + 20) (ucast (st_nlink h));
          m2 = store64 (store32 (store32 m1 (w + 24) (st_uid h)) (w + 28) (st_gid h)) (w + 32) (st_rdev h);
          m3 = store64 (store32 (store64 m2 (w + 48) (st_size h)) (w + 56) (ucast (st_blksize h))) (w + 64) (st_blocks h);
          m4 = store32 (store32 (store32 m3 (w + 72) (ucast (st_atim_sec h))) (w + 80) (ucast (st_mtim_sec h))) (w + 88) (ucast (st_ctim_sec h))
      in store64 m4 (w + 96 - 8) (st_ino h))"

definition yos_vfs_fstatat64 ::
  "(int \<Rightarrow> int) \<Rightarrow> (int \<Rightarrow> string \<Rightarrow> u32 \<Rightarrow> int + host_stat) \<Rightarrow> yos_runtime \<Rightarrow> yos_exec_ctx \<Rightarrow> int \<Rightarrow> u32 \<Rightarrow> u32 \<Rightarrow> u32 \<Rightarrow> int \<times> yos_exec_ctx" where
  "yos_vfs_fstatat64 h2g fstatat rt ctx dfd filename statbuf flag =
     (case guest_str ctx filename of
        None \<Rightarrow> yos_errno_neg h2g ctx EFAULT
      | Some path_in \<Rightarrow>
          (case mounted (rt_mounts rt) path_in of
             Some (yos_procfs_ops, rest) \<Rightarrow>
               (case wptr ctx statbuf of
                  None \<Rightarrow> yos_errno_neg h2g ctx EFAULT
                | Some b \<Rightarrow> (case procfs_stat rt (memory ctx) rest b of (r, m) \<Rightarrow> (r, ctx\<lparr>memory := m\<rparr>)))
           | None \<Rightarrow>
               (case yos_xlate_dfd h2g ctx dfd of (host_dfd, c1) \<Rightarrow>
                  (case fstatat host_dfd (yos_path_resolve_at c1 host_dfd path_in) (yos_at_flags_fb_to_lx flag) of
                     Inl e \<Rightarrow> yos_errno_neg h2g c1 e
                   | Inr st \<Rightarrow>
                       (0, if statbuf \<noteq> 0 \<and> statbuf < memory_size c1 - 96
                           then c1\<lparr>memory := stat64_copy (memory c1) (unat statbuf) st\<rparr> else c1)))))"

section \<open>Links\<close>

text \<open>
  The host's \<^verbatim>\<open>readlink\<close> gives the bytes it stored, at most the size of the buffer.  A crash of the virtual one is \<open>None\<close>.
\<close>

definition link_result :: "(int \<Rightarrow> int) \<Rightarrow> yos_exec_ctx \<Rightarrow> nat \<Rightarrow> int + u8 list \<Rightarrow> int \<times> yos_exec_ctx" where
  "link_result h2g ctx b res =
     (case res of Inl e \<Rightarrow> yos_errno_neg h2g ctx e | Inr bs \<Rightarrow> (int (length bs), ctx\<lparr>memory := mem_write (memory ctx) b bs\<rparr>))"

definition vfs_readlink :: "yos_runtime \<Rightarrow> nat \<Rightarrow> yos_exec_ctx \<Rightarrow> string \<Rightarrow> nat \<Rightarrow> u32 \<Rightarrow> (int \<times> yos_exec_ctx) option" where
  "vfs_readlink rt slot ctx rest b bufsiz =
     map_option (\<lambda>(r, m). (r, ctx\<lparr>memory := m\<rparr>)) (procfs_readlink rt slot (memory ctx) rest b (unat bufsiz))"

definition yos_readlink ::
  "(int \<Rightarrow> int) \<Rightarrow> (string \<Rightarrow> nat \<Rightarrow> int + u8 list) \<Rightarrow> yos_runtime \<Rightarrow> nat \<Rightarrow> yos_exec_ctx \<Rightarrow> u32 \<Rightarrow> u32 \<Rightarrow> u32 \<Rightarrow>
   (int \<times> yos_exec_ctx) option" where
  "yos_readlink h2g readlink rt slot ctx path buf bufsiz =
     (case (guest_str ctx path, wptr_range ctx buf (unat bufsiz)) of
        (Some s_in, Some b) \<Rightarrow>
          let s = yos_path_resolve ctx s_in in
          (case mounted (rt_mounts rt) s of
             Some (yos_procfs_ops, rest) \<Rightarrow> vfs_readlink rt slot ctx rest b bufsiz
           | None \<Rightarrow> Some (link_result h2g ctx b (readlink s (unat bufsiz))))
      | _ \<Rightarrow> Some (yos_errno_neg h2g ctx EFAULT))"

definition yos_readlinkat ::
  "(int \<Rightarrow> int) \<Rightarrow> (int \<Rightarrow> string \<Rightarrow> nat \<Rightarrow> int + u8 list) \<Rightarrow> yos_runtime \<Rightarrow> nat \<Rightarrow> yos_exec_ctx \<Rightarrow> int \<Rightarrow> u32 \<Rightarrow> u32 \<Rightarrow> u32 \<Rightarrow>
   (int \<times> yos_exec_ctx) option" where
  "yos_readlinkat h2g readlinkat rt slot ctx dfd path buf bufsiz =
     (case (guest_str ctx path, wptr_range ctx buf (unat bufsiz)) of
        (Some s_in, Some b) \<Rightarrow>
          (case mounted (rt_mounts rt) s_in of
             Some (yos_procfs_ops, rest) \<Rightarrow> vfs_readlink rt slot ctx rest b bufsiz
           | None \<Rightarrow>
               (case yos_xlate_dfd h2g ctx dfd of (host_dfd, c1) \<Rightarrow>
                  Some (link_result h2g c1 b (readlinkat host_dfd (yos_path_resolve_at c1 host_dfd s_in) (unat bufsiz)))))
      | _ \<Rightarrow> Some (yos_errno_neg h2g ctx EFAULT))"

end
