(* ===== verification/FifoProps.thy ===== *)
theory FifoProps
  imports Fifo
begin

text \<open>
  Named pipes behave: their ends belong to the registry alone and are closed once, and through its life a pipe's path opens on
  the right end, shows the right attributes and is gone after unlink.
\<close>

section \<open>The registry owns its descriptors\<close>

definition fifo_ends :: "fifo_entry list \<Rightarrow> int list" where
  "fifo_ends fs = concat (map (\<lambda>e. [fe_rfd e, fe_wfd e]) fs)"

definition fifo_owned :: "yos_exec_ctx \<Rightarrow> int set \<Rightarrow> bool" where
  "fifo_owned c O1 \<longleftrightarrow> distinct (map fe_path (fifo_head c)) \<and> distinct (fifo_ends (fifo_head c)) \<and> set (fifo_ends (fifo_head c)) \<subseteq> O1"

lemma fifo_ends_simps [simp]: "fifo_ends [] = []" "fifo_ends (e # fs) = fe_rfd e # fe_wfd e # fifo_ends fs"
  by (simp_all add: fifo_ends_def)

lemma fifo_owned_cong: "fifo_head c' = fifo_head c \<Longrightarrow> fifo_owned c' O1 = fifo_owned c O1"
  by (simp add: fifo_owned_def)

lemma fifo_head_set_errno [simp]: "fifo_head (set_errno h2g c e) = fifo_head c"
  by (simp add: set_errno_def)

lemma fifo_remove_spec:
  assumes "distinct (map fe_path fs)" and "fifo_remove path fs = (fs', es)"
  shows "fs' = filter (\<lambda>e. fe_path e \<noteq> path) fs"
    and "es = (case find (\<lambda>e. fe_path e = path) fs of None \<Rightarrow> [] | Some e \<Rightarrow> [Closed (fe_rfd e), Closed (fe_wfd e)])"
  using assms
proof (induction fs arbitrary: fs' es)
  case (Cons e fs)
  {
    case 1
    then show ?case using Cons.IH(1) [of "fst (fifo_remove path fs)" "snd (fifo_remove path fs)"]
      by (auto split: if_splits prod.splits intro!: filter_True [symmetric]) (metis image_eqI)
  next
    case 2
    then show ?case using Cons.IH(2) by (auto split: if_splits prod.splits)
  }
qed simp_all

lemma fifo_ends_filter: "set (fifo_ends (filter P fs)) \<subseteq> set (fifo_ends fs)" "distinct (fifo_ends fs) \<Longrightarrow> distinct (fifo_ends (filter P fs))"
proof -
  show sub: "set (fifo_ends (filter P fs)) \<subseteq> set (fifo_ends fs)" for fs by (induction fs) auto
  show "distinct (fifo_ends (filter P fs))" if "distinct (fifo_ends fs)" using that sub by (induction fs) (auto dest: subsetD)
qed

lemma find_ends: "find (\<lambda>e. fe_path e = path) fs = Some e \<Longrightarrow> fe_rfd e \<in> set (fifo_ends fs) \<and> fe_wfd e \<in> set (fifo_ends fs) \<and> fe_path e = path"
  by (induction fs) (auto split: if_splits)

lemma find_ends_gone:
  "distinct (fifo_ends fs) \<Longrightarrow> distinct (map fe_path fs) \<Longrightarrow> find (\<lambda>e. fe_path e = path) fs = Some e \<Longrightarrow> fe_rfd e \<noteq> fe_wfd e \<and>
     fe_rfd e \<notin> set (fifo_ends (filter (\<lambda>e. fe_path e \<noteq> path) fs)) \<and> fe_wfd e \<notin> set (fifo_ends (filter (\<lambda>e. fe_path e \<noteq> path) fs))"
proof (induction fs)
  case (Cons a fs)
  show ?case
  proof (cases "fe_path a = path")
    case True
    then show ?thesis using Cons.prems fifo_ends_filter(1) [of "\<lambda>e. fe_path e \<noteq> path" fs] by auto
  next
    case False
    then have f: "find (\<lambda>e. fe_path e = path) fs = Some e" using Cons.prems by simp
    then show ?thesis using Cons False find_ends [OF f] by auto
  qed
qed simp

lemma drop_owned:
  assumes "fifo_owned c O1" and "yos_fifo_drop c path = (c', es)"
  shows "closes_ok es O1" and "fifo_owned c' (replay es O1)" and "fifo_lookup_locked c' path = None"
    and "es = (case fifo_lookup_locked c path of None \<Rightarrow> [] | Some e \<Rightarrow> [Closed (fe_rfd e), Closed (fe_wfd e)])"
    and "\<exists>fs. c' = c\<lparr>fifo_head := fs\<rparr>"
proof -
  let ?fs = "fifo_head c" and ?P = "\<lambda>e. fe_path e \<noteq> path"
  have o: "distinct (map fe_path ?fs)" "distinct (fifo_ends ?fs)" "set (fifo_ends ?fs) \<subseteq> O1" using assms(1) by (simp_all add: fifo_owned_def)
  obtain fs es' where r: "fifo_remove path ?fs = (fs, es')" by (cases "fifo_remove path ?fs")
  note s = fifo_remove_spec [OF o(1) r]
  have c': "c' = c\<lparr>fifo_head := filter ?P ?fs\<rparr>" and es: "es = (case fifo_lookup_locked c path of None \<Rightarrow> [] | Some e \<Rightarrow> [Closed (fe_rfd e), Closed (fe_wfd e)])"
    using assms(2) r s by (simp_all add: yos_fifo_drop_def fifo_lookup_locked_def)
  show "es = (case fifo_lookup_locked c path of None \<Rightarrow> [] | Some e \<Rightarrow> [Closed (fe_rfd e), Closed (fe_wfd e)])" by (rule es)
  show "\<exists>fs. c' = c\<lparr>fifo_head := fs\<rparr>" using c' by blast
  show "fifo_lookup_locked c' path = None" by (simp add: c' fifo_lookup_locked_def find_None_iff)
  have fp: "distinct (map fe_path (filter ?P ?fs))" using o(1) distinct_map_filter by blast
  note fe = fifo_ends_filter(1) [of ?P ?fs] fifo_ends_filter(2) [OF o(2), of ?P]
  show "closes_ok es O1"
  proof (cases "fifo_lookup_locked c path")
    case (Some e)
    then show ?thesis using find_ends [of path ?fs e] find_ends_gone [OF o(2,1), of path e] o(3) by (auto simp: es fifo_lookup_locked_def)
  qed (simp add: es)
  show "fifo_owned c' (replay es O1)"
  proof (cases "fifo_lookup_locked c path")
    case None
    then show ?thesis using fp fe o(3) by (auto simp: c' es fifo_owned_def)
  next
    case (Some e)
    then show ?thesis using fp fe o(3) find_ends_gone [OF o(2,1), of path e] by (auto simp: c' es fifo_owned_def fifo_lookup_locked_def)
  qed
qed

lemma mkfifo_path_owned:
  assumes "fifo_owned c O1" and "yos_mkfifo_path h2g H c path mode = (r, c', es)" and "fresh_opens es O1"
  shows "closes_ok es O1 \<and> fifo_owned c' (replay es O1) \<and>
    (r = 0 \<longrightarrow> (\<exists>a b. fh_pipe H = Inr (a, b) \<and> fifo_lookup_locked c' path = Some \<lparr> fe_path = path, fe_rfd = a, fe_wfd = b \<rparr> \<and> (\<exists>fs. c' = c\<lparr>fifo_head := fs\<rparr>)))"
proof -
  obtain c1 es0 where d: "yos_fifo_drop c path = (c1, es0)" by (cases "yos_fifo_drop c path")
  note o = drop_owned [OF assms(1) d]
  have dp: "path \<notin> set (map fe_path (fifo_head c1))" using o(3) by (auto simp: fifo_lookup_locked_def find_None_iff)
  consider e where "r = - 1" "c' = set_errno h2g c1 e" "es = es0"
    | e mk where "r = - 1" "c' = set_errno h2g c1 e" "es = es0 @ [Opened mk, Closed mk]"
    | mk a b where "r = 0" "fh_pipe H = Inr (a, b)" "es = es0 @ [Opened mk, Closed mk, Opened a, Opened b]"
        "c' = c1\<lparr>fifo_head := \<lparr> fe_path = path, fe_rfd = a, fe_wfd = b \<rparr> # fifo_head c1\<rparr>"
    using assms(2) d by (auto simp: yos_mkfifo_path_def Let_def split: sum.splits)
  then show ?thesis
  proof cases
    case 1
    then show ?thesis using o(1,2) by (simp add: fifo_owned_def)
  next
    case 2
    then have f: "mk \<notin> replay es0 O1" using assms(3) by (simp add: fresh_opens_append)
    then show ?thesis using 2 o(1,2) by (auto simp: closes_ok_append replay_append fifo_owned_def)
  next
    case 3
    then have f: "mk \<notin> replay es0 O1" "a \<notin> replay es0 O1" "b \<notin> replay es0 O1" "a \<noteq> b"
      using assms(3) by (auto simp: fresh_opens_append)
    have "fifo_owned c' (replay es O1)" using 3 o(2) dp f by (auto simp: replay_append fifo_owned_def)
    moreover have "closes_ok es O1" using 3 o(1) by (simp add: closes_ok_append)
    moreover have "fifo_lookup_locked c' path = Some \<lparr> fe_path = path, fe_rfd = a, fe_wfd = b \<rparr>" by (simp add: 3(4) fifo_lookup_locked_def)
    moreover have "\<exists>fs. c' = c\<lparr>fifo_head := fs\<rparr>" using o(5) 3(4) by auto
    ultimately show ?thesis using 3(2) by blast
  qed
qed

section \<open>Strings\<close>

lemma cstr_nul_irrelevant:
  "nul_in m q e \<Longrightarrow> e \<le> e' \<Longrightarrow> cstr m q e = cstr m q e'"
proof (induction m q e rule: nul_in.induct)
  case (1 m q e)
  have q: "q < e" using "1.prems"(1) nul_in.simps [of m q e] by (simp split: if_splits)
  show ?case
  proof (cases "m q = 0")
    case True
    then show ?thesis by (simp add: cstr_step)
  next
    case False
    then have "nul_in m (Suc q) e" using "1.prems"(1) nul_in.simps [of m q e] by (simp split: if_splits)
    then show ?thesis using 1(1) [OF q False] "1.prems"(2) False q by (simp add: cstr_step)
  qed
qed

lemma guest_str_raw:
  assumes "guest_str c p = Some s"
  shows "raw_str (memory c) (unat p) = s" and "checked_off c p"
proof -
  have n: "nul_in (memory c) (unat p) (unat (memory_size c))" "s = cstr (memory c) (unat p) (unat (memory_size c))" "checked_off c p"
    using assms by (auto simp: guest_str_def wstr_check_def checked_off_def not_le split: if_splits)
  have "unat (memory_size c) \<le> HOST_END" using unat_u32_lt [of "memory_size c"] by simp
  then show "raw_str (memory c) (unat p) = s" using cstr_nul_irrelevant [OF n(1)] n(2) by (simp add: raw_str_def)
  show "checked_off c p" by (rule n(3))
qed

section \<open>Attributes\<close>

lemma load16w_cong: "m' a = m a \<Longrightarrow> m' (a + 1) = m (a + 1) \<Longrightarrow> load16w m' a = load16w m a"
  by (simp add: load16w_def load16_def)

lemma cv_stat_mode: "load16w (yos_cv_stat_fbi m w h) (w + 24) = ucast (stat_mode (st_mode h))"
proof -
  let ?m1 = "store64 (store64 (store64 (mem_fill m w 0 192) w (st_dev h)) (w + 8) (st_ino h)) (w + 16) (st_nlink h)"
  have "load16w (yos_cv_stat_fbi m w h) (w + 24) = load16w (store16 ?m1 (w + 24) (ucast (stat_mode (st_mode h)))) (w + 24)"
    by (rule load16w_cong) (simp_all add: yos_cv_stat_fbi_def Let_def store64_out store32_other)
  then show ?thesis by (simp add: load16_store16w)
qed

lemma fifo_mode_bits: "((m AND NOT S_IFMT) OR S_IFIFO) AND S_IFMT = S_IFIFO"
proof -
  have "(m AND NOT S_IFMT) AND S_IFMT = 0" by (simp add: and.assoc)
  then show ?thesis by (simp add: bit.conj_disj_distrib2)
qed

lemma stat_of_fifo:
  assumes "fifo_lookup_locked c path = Some e" and "stat path = Inr st" and "checked_off c b" and "path = yos_path_resolve c (raw_str (memory c) (unat p))"
    and "checked_off c p"
  shows "\<exists>c'. yos_stat h2g stat c p b = (0, c') \<and> load16w (memory c') (unat b + 24) = ucast ((st_mode st AND NOT S_IFMT) OR S_IFIFO)"
proof -
  have "stat_mode ((st_mode st AND NOT S_IFMT) OR S_IFIFO) = (st_mode st AND NOT S_IFMT) OR S_IFIFO"
    unfolding stat_mode_def fifo_mode_bits by simp
  then show ?thesis
    using assms cv_stat_mode [of "memory c" "unat b" "st\<lparr>st_mode := (st_mode st AND NOT S_IFMT) OR S_IFIFO\<rparr>"]
    by (simp add: yos_stat_def stat_result_def yos_fifo_stat_fixup_def Let_def)
qed

section \<open>The life of a named pipe\<close>

lemma registry_not_in_paths [simp]:
  "guest_str (c\<lparr>fifo_head := fs\<rparr>) p = guest_str c p" "yos_path_resolve (c\<lparr>fifo_head := fs\<rparr>) s = yos_path_resolve c s"
  "checked_off (c\<lparr>fifo_head := fs\<rparr>) p = checked_off c p"
  by (simp_all add: guest_str_def wstr_check_def yos_path_resolve_def checked_off_def)

lemma open_fifo:
  assumes "fifo_lookup_locked c path = Some e" and "guest_str c p = Some raw" and "path = yos_path_resolve c raw" and "mounted mt path = None"
    and "fh_dup H (if flags AND 3 = 0 then fe_rfd e else fe_wfd e) (flags AND 0x80000 \<noteq> 0) = (d, 0)" and "0 \<le> d"
    and "find_index (\<lambda>x. x = - 1) (take YOS_FD_MAX (fd_map c)) = Some i" and "i < length (fd_map c)"
  shows "\<exists>c'. yos_open h2g vopen (yos_fifo_try_open H c) pty host_open mt c p flags m = (int i, c', [Opened d]) \<and> fd_map c' ! i = d"
proof -
  have "yos_fifo_try_open H c path flags = (d, 0)" using assms(1,5,6) by (auto simp: yos_fifo_try_open_def Let_def split: if_splits)
  then show ?thesis using assms(2-4,6-8) by (simp add: yos_open_def yos_fd_alloc_def set_fd_def Let_def)
qed

text \<open>
  Claim C27: the life of a named pipe.  When \<^verbatim>\<open>mkfifo\<close> succeeds on a path, opening the path for reading gives a new guest descriptor on a
  duplicate of the read end of the pipe and opening it for writing one of the write end; \<^verbatim>\<open>stat\<close> shows the file type of a pipe
  with the marker's permissions; \<^verbatim>\<open>unlink\<close> closes both ends and the path is no pipe any more.  The registry's descriptors stay its
  own: each is open, filed once and closed once.
\<close>

theorem fifo_lifecycle:
  assumes "fifo_owned c O1" and "guest_str c p = Some raw" and "path = yos_path_resolve c raw" and "yos_mkfifo h2g H c p mode = (0, c1, es)"
    and "fresh_opens es O1"
  shows "\<exists>r w. fh_pipe H = Inr (r, w) \<and> closes_ok es O1 \<and> fifo_owned c1 (replay es O1) \<and>
    (\<forall>H' flags d i vopen pty host_open mt m. mounted mt path = None \<longrightarrow> find_index (\<lambda>x. x = - 1) (take YOS_FD_MAX (fd_map c1)) = Some i \<longrightarrow>
      i < length (fd_map c1) \<longrightarrow> fh_dup H' (if flags AND 3 = 0 then r else w) (flags AND 0x80000 \<noteq> 0) = (d, 0) \<longrightarrow> 0 \<le> d \<longrightarrow>
      (\<exists>c2. yos_open h2g vopen (yos_fifo_try_open H' c1) pty host_open mt c1 p flags m = (int i, c2, [Opened d]) \<and> fd_map c2 ! i = d)) \<and>
    (\<forall>stat st b. stat path = Inr st \<longrightarrow> checked_off c1 b \<longrightarrow>
      (\<exists>c2. yos_stat h2g stat c1 p b = (0, c2) \<and> load16w (memory c2) (unat b + 24) = ucast ((st_mode st AND NOT S_IFMT) OR S_IFIFO))) \<and>
    (\<forall>H' q c2 es2. yos_unlink h2g H' c1 p = (q, c2, es2) \<longrightarrow>
      es2 = [Closed r, Closed w] \<and> closes_ok es2 (replay es O1) \<and> fifo_lookup_locked c2 path = None \<and> fifo_owned c2 (replay (es @ es2) O1))"
proof -
  note g = guest_str_raw [OF assms(2)]
  have mk: "yos_mkfifo_path h2g H c path ((mode AND 0x1FF) AND NOT (umask c)) = (0, c1, es)"
    using assms(3,4) g by (simp add: yos_mkfifo_def)
  from mkfifo_path_owned [OF assms(1) mk assms(5)] obtain r w fs where o: "closes_ok es O1" "fifo_owned c1 (replay es O1)" "fh_pipe H = Inr (r, w)"
    and l: "fifo_lookup_locked c1 path = Some \<lparr> fe_path = path, fe_rfd = r, fe_wfd = w \<rparr>" and c1: "c1 = c\<lparr>fifo_head := fs\<rparr>" by blast
  have g1: "guest_str c1 p = Some raw" "path = yos_path_resolve c1 raw" "path = yos_path_resolve c1 (raw_str (memory c1) (unat p))" "checked_off c1 p"
    using assms(2,3) g by (simp_all add: c1)
  show ?thesis
  proof (rule exI [of _ r], rule exI [of _ w], intro conjI o allI impI)
    fix H' :: fifo_host and flags m :: u32 and d :: int and i mt and vopen :: "fs_ops \<Rightarrow> yos_exec_ctx \<Rightarrow> string \<Rightarrow> u32 \<Rightarrow> u32 \<Rightarrow> int \<times> yos_exec_ctx"
      and pty :: "string \<Rightarrow> u32 \<Rightarrow> int \<times> int" and host_open :: "string \<Rightarrow> u32 \<Rightarrow> u32 \<Rightarrow> int \<times> int"
    assume "mounted mt path = None" "find_index (\<lambda>x. x = - 1) (take YOS_FD_MAX (fd_map c1)) = Some i" "i < length (fd_map c1)"
      "fh_dup H' (if flags AND 3 = 0 then r else w) (flags AND 0x80000 \<noteq> 0) = (d, 0)" "0 \<le> d"
    then show "\<exists>c2. yos_open h2g vopen (yos_fifo_try_open H' c1) pty host_open mt c1 p flags m = (int i, c2, [Opened d]) \<and> fd_map c2 ! i = d"
      by (intro open_fifo [OF l g1(1,2)]) (simp_all only: fifo_entry.select_convs)
  next
    fix stat :: "string \<Rightarrow> int + host_stat" and st b
    assume "stat path = Inr st" "checked_off c1 b"
    then show "\<exists>c2. yos_stat h2g stat c1 p b = (0, c2) \<and> load16w (memory c2) (unat b + 24) = ucast ((st_mode st AND NOT S_IFMT) OR S_IFIFO)"
      using stat_of_fifo [OF l _ _ g1(3,4)] by blast
  next
    fix H' q c2 es2
    assume u: "yos_unlink h2g H' c1 p = (q, c2, es2)"
    obtain c3 es3 where d: "yos_fifo_drop c1 path = (c3, es3)" by (cases "yos_fifo_drop c1 path")
    note dr = drop_owned [OF o(2) d]
    have e: "es3 = [Closed r, Closed w]" using dr(4) l by simp
    have c2: "es2 = es3" "fifo_head c2 = fifo_head c3"
      using u g1(1,2) d by (auto simp: yos_unlink_def Let_def yos_errno_check_def yos_errno_neg_def split: if_splits)
    then show "es2 = [Closed r, Closed w]" "closes_ok es2 (replay es O1)" "fifo_lookup_locked c2 path = None" "fifo_owned c2 (replay (es @ es2) O1)"
      using dr(1-3) e by (simp_all add: replay_append fifo_owned_def fifo_lookup_locked_def)
  qed
qed

section \<open>Where it differs from a named pipe\<close>

text \<open>A relative path given to \<^verbatim>\<open>mkfifoat\<close> is filed under the host's working directory, not the guest's, so opening it does not find it.\<close>

lemma mkfifoat_ignores_guest_directory:
  assumes "checked_off c p" and "raw_str (memory c) (unat p) = raw" and "raw \<noteq> []" and "hd raw \<noteq> CHR ''/''" and "fh_getcwd H = Inr dir"
  shows "yos_mkfifoat h2g H c AT_FDCWD p mode = yos_mkfifo_path h2g H c (take 4095 (dir @ ''/'' @ raw)) mode"
  using assms by (simp add: yos_mkfifoat_def yos_xlate_dfd_def yos_fd_get_def fifo_dir_def Let_def)

text \<open>The attributes are written after a check of their first byte only.\<close>

lemma stat_writes_past_memory:
  assumes "stat (yos_path_resolve c (raw_str (memory c) (unat p))) = Inr st" and "checked_off c p" and "checked_off c b"
    and "unat (memory_size c) = unat b + 1" and "st_size st \<noteq> 0"
  shows "load64 (memory (snd (yos_stat h2g stat c p b))) (unat (memory_size c) + 95) = st_size st"
proof -
  let ?m = "\<lambda>h. yos_cv_stat_fbi (memory c) (unat b) h"
  have "load64 (?m h) (unat b + 96) = st_size h" for h
  proof -
    have "load64 (?m h) (unat b + 96) = load64 (store64 x (unat b + 96) (st_size h)) (unat b + 96)" if "?m h = store32 (store64 (store64 x (unat b + 96) (st_size h)) (unat b + 104) (st_blocks h)) (unat b + 112) (ucast (st_blksize h))" for x
      unfolding that by (rule load64_cong) (simp add: store32_other store64_out)
    then show ?thesis by (simp add: yos_cv_stat_fbi_def Let_def)
  qed
  then show ?thesis using assms by (simp add: yos_stat_def stat_result_def Let_def add.commute)
qed

text \<open>The older call loses the change time: the file number is stored over it.\<close>

lemma stat64_ctime_is_ino: "load32 (stat64_copy m w h) (w + 88) = ucast (st_ino h)"
proof -
  have "load32 (store64 x (w + 88) v) (w + 88) = ucast v" for x :: mem and v :: u64
    unfolding store64_def by (subst load32_store32_other) (simp_all only: load32_store32_same, simp)
  then show ?thesis by (simp add: stat64_copy_def Let_def add.commute [of w])
qed

section \<open>A concrete pipe\<close>

definition demo_fifo_host :: fifo_host where
  "demo_fifo_host = \<lparr> fh_marker = (\<lambda>_ _. Inr 5), fh_pipe = Inr (5, 6), fh_dup = (\<lambda>_ _. (7, 0)), fh_unlink = (\<lambda>_. (0, 0)), fh_dot = 5,
     fh_fchdir = (\<lambda>_. 0), fh_getcwd = Inr ''/'' \<rparr>"

theorem fifo_lifecycle_witness:
  "\<exists>c1 es. yos_mkfifo (\<lambda>e. e) demo_fifo_host (str_ctx [] ''/run/p'') 1024 0x1B6 = (0, c1, es) \<and> closes_ok es {0, 1, 2} \<and>
     snd (snd (yos_unlink (\<lambda>e. e) demo_fifo_host c1 1024)) = [Closed 5, Closed 6]"
proof -
  let ?c = "str_ctx [] ''/run/p''" and ?mk = "yos_mkfifo (\<lambda>e. e) demo_fifo_host (str_ctx [] ''/run/p'') 1024 0x1B6"
  have g: "guest_str ?c 1024 = Some ''/run/p''" by (rule guest_str_str_ctx) simp_all
  have h: "fifo_head ?c = []" by (simp add: str_ctx_def ctx_calloc_def)
  have o: "fifo_owned ?c {0, 1, 2}" by (simp add: fifo_owned_def h)
  obtain c1 es where mk: "?mk = (0, c1, es)" and f: "fresh_opens es {0, 1, 2}"
    using guest_str_raw [OF g] h
    by (simp add: yos_mkfifo_def yos_path_resolve_def yos_mkfifo_path_def yos_fifo_drop_def demo_fifo_host_def)
  obtain q c2 es2 where u: "yos_unlink (\<lambda>e. e) demo_fifo_host c1 1024 = (q, c2, es2)" by (metis prod_cases3)
  from fifo_lifecycle [OF o g refl mk f] u have "closes_ok es {0, 1, 2}" "es2 = [Closed 5, Closed 6]"
    by (auto simp: demo_fifo_host_def)
  then show ?thesis using mk u by simp
qed

end
