(* ===== verification/Callback.thy ===== *)
theory Callback
  imports IoBridges DirStreams
begin

text \<open>
  Library calls that call the guest back: \<^verbatim>\<open>src/src/yos/impl/libc/callback.c\<close>, the sorting calls, \<^verbatim>\<open>bsearch\<close> and \<^verbatim>\<open>scandir\<close>.  A guest
  function is what the interpreter makes of it, a map from the context and its arguments to a result, or a trap, and the context it
  leaves behind.
\<close>

section \<open>Calling the guest\<close>

type_synonym guest_fn = "yos_exec_ctx \<Rightarrow> u32 list \<Rightarrow> int option \<times> yos_exec_ctx"

text \<open>An entry of the function table: the function and whether it is or can be compiled.\<close>

record table_entry =
  te_compiles :: bool
  te_fn :: guest_fn

definition lookup_fn :: "table_entry option list \<Rightarrow> u32 \<Rightarrow> guest_fn option" where
  "lookup_fn table0 idx =
     (if length table0 \<le> unat idx then None
      else case table0 ! unat idx of None \<Rightarrow> None | Some e \<Rightarrow> if te_compiles e then Some (te_fn e) else None)"

definition call_cmp :: "guest_fn \<Rightarrow> yos_exec_ctx \<Rightarrow> u32 \<Rightarrow> u32 \<Rightarrow> int \<times> yos_exec_ctx" where
  "call_cmp cmp ctx a_off b_off = (case cmp ctx [a_off, b_off] of (None, c) \<Rightarrow> (0, c) | (Some out, c) \<Rightarrow> (out, c))"

definition call_filter :: "guest_fn \<Rightarrow> yos_exec_ctx \<Rightarrow> u32 \<Rightarrow> int \<times> yos_exec_ctx" where
  "call_filter fn ctx e_off = (case fn ctx [e_off] of (None, c) \<Rightarrow> (1, c) | (Some out, c) \<Rightarrow> (out, c))"

section \<open>Sorting\<close>

text \<open>
  The range check of the caller bounds \<open>base + n * sz\<close> by the size of memory, so that the offsets of elements do not wrap and can be
  natural numbers.  The inner loop: the element in \<open>scratch\<close> is put at \<open>j\<close>, compared with its left neighbour, and the neighbour
  moves right while it is greater.
\<close>

fun sift :: "guest_fn \<Rightarrow> nat \<Rightarrow> nat \<Rightarrow> u8 list \<Rightarrow> nat \<Rightarrow> yos_exec_ctx \<Rightarrow> yos_exec_ctx" where
  "sift cmp base sz scratch 0 ctx = ctx\<lparr>memory := mem_write (memory ctx) base scratch\<rparr>"
| "sift cmp base sz scratch (Suc j) ctx =
     (let left = base + j * sz; here = base + Suc j * sz;
          c1 = ctx\<lparr>memory := mem_write (memory ctx) here scratch\<rparr>
      in case call_cmp cmp c1 (of_nat left) (of_nat here) of (c, c2) \<Rightarrow>
        if c \<le> 0 then c2\<lparr>memory := mem_write (memory c2) here scratch\<rparr>
        else sift cmp base sz scratch j (c2\<lparr>memory := mem_copy (memory c2) here left sz\<rparr>))"

definition sort_loop :: "guest_fn \<Rightarrow> nat \<Rightarrow> nat \<Rightarrow> nat \<Rightarrow> yos_exec_ctx \<Rightarrow> yos_exec_ctx" where
  "sort_loop cmp base sz n ctx =
     fold (\<lambda>i c. sift cmp base sz (mem_bytes (memory c) (base + i * sz) sz) i c) [1..<n] ctx"

definition yos_sort_inplace :: "table_entry option list \<Rightarrow> yos_exec_ctx \<Rightarrow> u32 \<Rightarrow> u32 \<Rightarrow> u32 \<Rightarrow> u32 \<Rightarrow> yos_exec_ctx" where
  "yos_sort_inplace table0 ctx base n sz cmp_idx =
     (if sz = 0 \<or> n < 2 \<or> memory_size ctx \<le> base \<or> unat (memory_size ctx) < unat base + unat n * unat sz then ctx
      else case lookup_fn table0 cmp_idx of
        None \<Rightarrow> ctx
      | Some cmp \<Rightarrow> if 512 < sz then ctx else sort_loop cmp (unat base) (unat sz) (unat n) ctx)"

definition m3_yos_qsort :: "table_entry option list \<Rightarrow> yos_exec_ctx \<Rightarrow> u32 \<Rightarrow> u32 \<Rightarrow> u32 \<Rightarrow> u32 \<Rightarrow> yos_exec_ctx" where
  "m3_yos_qsort table0 ctx base n sz cmp_idx = yos_sort_inplace table0 ctx base n sz cmp_idx"

definition m3_yos_bsdsort :: "table_entry option list \<Rightarrow> yos_exec_ctx \<Rightarrow> u32 \<Rightarrow> u32 \<Rightarrow> u32 \<Rightarrow> u32 \<Rightarrow> int \<times> yos_exec_ctx" where
  "m3_yos_bsdsort table0 ctx base n sz cmp_idx = (0, yos_sort_inplace table0 ctx base n sz cmp_idx)"

section \<open>Binary search\<close>

text \<open>The bounds are 32-bit words and their sum can wrap; \<open>None\<close> is the search that never ends.\<close>

partial_function (option) bsearch_loop ::
  "guest_fn \<Rightarrow> u32 \<Rightarrow> u32 \<Rightarrow> u32 \<Rightarrow> u32 \<Rightarrow> u32 \<Rightarrow> yos_exec_ctx \<Rightarrow> (u32 \<times> yos_exec_ctx) option" where
  "bsearch_loop cmp key base sz lo hi ctx =
     (if \<not> lo < hi then Some (0, ctx)
      else
        let mid = (lo + hi) div 2; r = call_cmp cmp ctx key (base + mid * sz) in
        if fst r = 0 then Some (base + mid * sz, snd r)
        else if fst r < 0 then bsearch_loop cmp key base sz lo mid (snd r)
        else bsearch_loop cmp key base sz (mid + 1) hi (snd r))"

definition m3_yos_bsearch ::
  "table_entry option list \<Rightarrow> yos_exec_ctx \<Rightarrow> u32 \<Rightarrow> u32 \<Rightarrow> u32 \<Rightarrow> u32 \<Rightarrow> u32 \<Rightarrow> (u32 \<times> yos_exec_ctx) option" where
  "m3_yos_bsearch table0 ctx key base n sz cmp_idx =
     (if sz = 0 \<or> n = 0 \<or> memory_size ctx \<le> base \<or> memory_size ctx \<le> key \<or>
         unat (memory_size ctx) < unat base + unat n * unat sz \<or> unat (memory_size ctx) < unat key + unat sz
      then Some (0, ctx)
      else case lookup_fn table0 cmp_idx of
        None \<Rightarrow> Some (0, ctx)
      | Some cmp \<Rightarrow> bsearch_loop cmp key base sz 0 n ctx)"

end
