(* ===== verification/CallbackProps.thy ===== *)
theory CallbackProps
  imports Callback "HOL-Library.Sorting_Algorithms"
begin

text \<open>
  The sorting calls sort and the search finds, for every guest comparison that is an order on the bytes of the elements.
\<close>

section \<open>Arrays in memory\<close>

definition elems :: "mem \<Rightarrow> nat \<Rightarrow> nat \<Rightarrow> nat \<Rightarrow> u8 list list" where
  "elems m base sz n = map (\<lambda>i. mem_bytes m (base + i * sz) sz) [0..<n]"

lemma length_mem_bytes [simp]: "length (mem_bytes m a n) = n"
  by (simp add: mem_bytes_def)

lemma mem_bytes_cong: "(\<And>i. i < n \<Longrightarrow> m' (a + i) = m (a + i)) \<Longrightarrow> mem_bytes m' a n = mem_bytes m a n"
  by (simp add: mem_bytes_def)

lemma length_elems [simp]: "length (elems m base sz n) = n"
  by (simp add: elems_def)

lemma nth_elems: "i < n \<Longrightarrow> elems m base sz n ! i = mem_bytes m (base + i * sz) sz"
  by (simp add: elems_def)

lemma elem_apart: "(j :: nat) \<noteq> i \<Longrightarrow> k < sz \<Longrightarrow> i * sz + k < j * sz \<or> j * sz + sz \<le> i * sz + k"
proof (cases "i < j")
  case True
  then have "Suc i * sz \<le> j * sz" by (intro mult_le_mono1) simp
  then show "k < sz \<Longrightarrow> ?thesis" by simp
next
  case False
  assume "j \<noteq> i" with False have "Suc j * sz \<le> i * sz" by (intro mult_le_mono1) simp
  then show ?thesis by simp
qed

lemma elems_write:
  assumes "length x = sz" and "j < n"
  shows "elems (mem_write m (base + j * sz) x) base sz n = (elems m base sz n)[j := x]"
proof (rule nth_equalityI)
  fix i assume "i < length (elems (mem_write m (base + j * sz) x) base sz n)"
  then have i: "i < n" by simp
  show "elems (mem_write m (base + j * sz) x) base sz n ! i = (elems m base sz n)[j := x] ! i"
  proof (cases "i = j")
    case True
    have "mem_bytes (mem_write m (base + j * sz) x) (base + j * sz) sz = x"
      using assms(1) by (intro nth_equalityI) (simp_all add: mem_bytes_def mem_write_def)
    then show ?thesis using True i by (simp add: nth_elems)
  next
    case False
    have "mem_bytes (mem_write m (base + j * sz) x) (base + i * sz) sz = mem_bytes m (base + i * sz) sz"
    proof (rule mem_bytes_cong)
      fix k assume "k < sz"
      then show "mem_write m (base + j * sz) x (base + i * sz + k) = m (base + i * sz + k)"
        using elem_apart [of j i k sz] False assms(1) by (auto simp: mem_write_def)
    qed
    then show ?thesis using False i by (simp add: nth_elems)
  qed
qed simp

lemma mem_copy_write: "mem_copy m d s n = mem_write m d (mem_bytes m s n)"
  by (auto simp: mem_copy_def mem_write_def mem_bytes_def fun_eq_iff)

lemma mem_write_outside: "i < base \<or> base + n * sz \<le> i \<Longrightarrow> j < n \<Longrightarrow> length x = sz \<Longrightarrow> mem_write m (base + j * sz) x i = m i"
proof -
  assume "i < base \<or> base + n * sz \<le> i" "j < n" "length x = sz"
  moreover from \<open>j < n\<close> have "Suc j * sz \<le> n * sz" by (intro mult_le_mono1) simp
  ultimately show ?thesis by (auto simp: mem_write_def)
qed

section \<open>Insertion from the right\<close>

text \<open>The inner loop on lists: the hole moves left until the element fits.\<close>

fun lsift :: "('a \<Rightarrow> 'a \<Rightarrow> bool) \<Rightarrow> 'a \<Rightarrow> nat \<Rightarrow> 'a list \<Rightarrow> 'a list" where
  "lsift gt x 0 ys = ys[0 := x]"
| "lsift gt x (Suc j) ys = (if gt (ys ! j) x then lsift gt x j (ys[Suc j := ys ! j]) else ys[Suc j := x])"

fun rinsert :: "('a \<Rightarrow> 'a \<Rightarrow> bool) \<Rightarrow> 'a \<Rightarrow> 'a list \<Rightarrow> 'a list" where
  "rinsert gt x [] = [x]"
| "rinsert gt x (z # zs) = (if gt z x then z # rinsert gt x zs else x # z # zs)"

lemma lsift_rinsert: "lsift gt x (length xs) (rev xs @ y # zs) = rev (rinsert gt x xs) @ zs"
proof (induction xs arbitrary: y zs)
  case (Cons z xs)
  have "(rev xs @ z # y # zs) ! length xs = z" using nth_append_length [of "rev xs" z "y # zs"] by simp
  moreover have "(rev xs @ z # y # zs)[Suc (length xs) := v] = rev xs @ z # v # zs" for v
    by (simp add: list_update_append)
  ultimately show ?case using Cons.IH by simp
qed simp

definition greater_by :: "'a comparator \<Rightarrow> 'a \<Rightarrow> 'a \<Rightarrow> bool" where
  "greater_by cmp a b \<longleftrightarrow> compare cmp a b = Greater"

lemma mset_rinsert [simp]: "mset (rinsert gt x xs) = add_mset x (mset xs)"
  by (induction xs) simp_all

lemma set_rinsert [simp]: "set (rinsert gt x xs) = insert x (set xs)"
  by (metis mset_rinsert set_mset_add_mset_insert set_mset_mset)

lemma sorted_rinsert: "sorted cmp (rev xs) \<Longrightarrow> sorted cmp (rev (rinsert (greater_by cmp) x xs))"
proof (induction xs)
  case (Cons z xs)
  then have s: "sorted cmp (rev xs)" "\<forall>y\<in>set xs. compare cmp y z \<noteq> Greater" by (simp_all add: sorted_append_iff)
  show ?case
  proof (cases "compare cmp z x = Greater")
    case True
    then have "compare cmp x z \<noteq> Greater" by (simp add: compare.asym_greater)
    then show ?thesis using True Cons.IH [OF s(1)] s by (simp add: greater_by_def sorted_append_iff)
  next
    case False
    then have "\<forall>y\<in>set xs. compare cmp y x \<noteq> Greater" using s(2) compare.trans_not_greater [of cmp _ z x] by auto
    then show ?thesis using False s by (simp add: greater_by_def sorted_append_iff)
  qed
qed simp

lemma stable_rinsert:
  assumes "sorted cmp (rev xs)"
  shows "stable_segment cmp y (rev (rinsert (greater_by cmp) x xs)) = stable_segment cmp y (rev xs @ [x])"
  using assms
proof (induction xs)
  case (Cons z xs)
  have s: "sorted cmp (rev xs)" using Cons.prems by (simp add: sorted_append_iff)
  show ?case
  proof (cases "compare cmp z x = Greater")
    case True
    have "compare cmp y z \<noteq> Equiv \<or> compare cmp y x \<noteq> Equiv"
      using True by (metis comp.distinct(5) compare.sym compare.trans_equiv)
    then show ?thesis using True Cons.IH [OF s] by (auto simp: greater_by_def)
  next
    case False
    then show ?thesis by (simp add: greater_by_def)
  qed
qed simp

lemma sort_snoc: "sort cmp (xs @ [x]) = rev (rinsert (greater_by cmp) x (rev (sort cmp xs)))"
proof (rule sort_eqI)
  show "mset (xs @ [x]) = mset (rev (rinsert (greater_by cmp) x (rev (sort cmp xs))))" by simp
  show "sorted cmp (rev (rinsert (greater_by cmp) x (rev (sort cmp xs))))" by (rule sorted_rinsert) simp
  show "stable_segment cmp y (xs @ [x]) = stable_segment cmp y (rev (rinsert (greater_by cmp) x (rev (sort cmp xs))))" for y
    using stable_rinsert [of cmp "rev (sort cmp xs)" y x] by (simp add: stable_sort)
qed

section \<open>The sorting calls\<close>

text \<open>
  A guest comparison that leaves the context alone and orders elements by their bytes.  Nothing is asked of it outside linear memory.
\<close>

definition orders :: "guest_fn \<Rightarrow> nat \<Rightarrow> u8 list comparator \<Rightarrow> bool" where
  "orders f sz cmp \<longleftrightarrow> (\<forall>c a b. unat a + sz \<le> unat (memory_size c) \<longrightarrow> unat b + sz \<le> unat (memory_size c) \<longrightarrow>
     (\<exists>r. f c [a, b] = (Some r, c) \<and>
       (0 < r \<longleftrightarrow> compare cmp (mem_bytes (memory c) (unat a) sz) (mem_bytes (memory c) (unat b) sz) = Greater) \<and>
       (r < 0 \<longleftrightarrow> compare cmp (mem_bytes (memory c) (unat a) sz) (mem_bytes (memory c) (unat b) sz) = Less)))"

lemma elem_offset:
  assumes "base + n * sz \<le> unat (M :: u32)" and "i < n"
  shows "unat (of_nat (base + i * sz) :: u32) = base + i * sz" and "base + i * sz + sz \<le> unat M"
proof -
  have "Suc i * sz \<le> n * sz" using assms(2) by (intro mult_le_mono1) simp
  then show b: "base + i * sz + sz \<le> unat M" using assms(1) by simp
  have "base + i * sz < 2 ^ 32" using b unat_u32_lt [of M] by simp
  then show "unat (of_nat (base + i * sz) :: u32) = base + i * sz" by (simp add: unat_of_nat_u32 del: of_nat_add of_nat_mult)
qed

lemma call_cmp_elems:
  assumes "orders f sz cmp" and "base + n * sz \<le> unat (memory_size c)" and "i < n" and "j < n"
  shows "\<exists>r. call_cmp f c (of_nat (base + i * sz)) (of_nat (base + j * sz)) = (r, c) \<and>
    (0 < r \<longleftrightarrow> greater_by cmp (elems (memory c) base sz n ! i) (elems (memory c) base sz n ! j))"
proof -
  note o = elem_offset [OF assms(2,3)] elem_offset [OF assms(2,4)]
  obtain r where "f c [of_nat (base + i * sz), of_nat (base + j * sz)] = (Some r, c)"
    "0 < r \<longleftrightarrow> compare cmp (mem_bytes (memory c) (base + i * sz) sz) (mem_bytes (memory c) (base + j * sz) sz) = Greater"
    using assms(1) [unfolded orders_def, rule_format, of "of_nat (base + i * sz)" c "of_nat (base + j * sz)"] unfolding o using o by blast
  then show ?thesis using assms(3,4) unfolding call_cmp_def greater_by_def by (simp add: nth_elems del: of_nat_add of_nat_mult)
qed

lemma sift_refines:
  assumes "orders f sz cmp" and "base + n * sz \<le> unat (memory_size c)" and "length x = sz" and "j < n"
  shows "\<exists>m. sift f base sz x j c = c\<lparr>memory := m\<rparr> \<and> elems m base sz n = lsift (greater_by cmp) x j (elems (memory c) base sz n) \<and>
    (\<forall>i. i < base \<or> base + n * sz \<le> i \<longrightarrow> m i = memory c i)"
  using assms(2,4)
proof (induction j arbitrary: c)
  case 0
  then show ?case using elems_write [OF assms(3), of 0 n "memory c" base] mem_write_outside [OF _ 0(2) assms(3), of _ base "memory c"]
    by (intro exI [of _ "mem_write (memory c) base x"]) simp
next
  case (Suc j)
  let ?m1 = "mem_write (memory c) (base + Suc j * sz) x" and ?ys = "elems (memory c) base sz n"
  let ?c1 = "c\<lparr>memory := ?m1\<rparr>"
  have e1: "elems ?m1 base sz n = ?ys[Suc j := x]" by (rule elems_write [OF assms(3) Suc.prems(2)])
  have o1: "?m1 i = memory c i" if "i < base \<or> base + n * sz \<le> i" for i by (rule mem_write_outside [OF that Suc.prems(2) assms(3)])
  obtain r where r: "call_cmp f ?c1 (of_nat (base + j * sz)) (of_nat (base + Suc j * sz)) = (r, ?c1)" "0 < r \<longleftrightarrow> greater_by cmp (?ys ! j) x"
    using call_cmp_elems [OF assms(1), of base n ?c1 j "Suc j"] Suc.prems e1 by auto
  show ?case
  proof (cases "0 < r")
    case False
    let ?m2 = "mem_write ?m1 (base + Suc j * sz) x"
    have "sift f base sz x (Suc j) c = c\<lparr>memory := ?m2\<rparr>" using r(1) False by (simp only: sift.simps Let_def prod.case) simp
    moreover have "elems ?m2 base sz n = lsift (greater_by cmp) x (Suc j) ?ys"
      using elems_write [OF assms(3) Suc.prems(2), of ?m1 base] e1 False r(2) by simp
    moreover have "?m2 i = memory c i" if "i < base \<or> base + n * sz \<le> i" for i
      using mem_write_outside [OF that Suc.prems(2) assms(3)] o1 [OF that] by simp
    ultimately show ?thesis by blast
  next
    case True
    let ?v = "mem_bytes ?m1 (base + j * sz) sz"
    let ?m2 = "mem_write ?m1 (base + Suc j * sz) ?v"
    have v: "?v = ?ys ! j" using arg_cong [OF e1, of "\<lambda>l. l ! j"] Suc.prems(2) by (simp add: nth_elems)
    have e2: "elems ?m2 base sz n = ?ys[Suc j := ?ys ! j]"
      using elems_write [of ?v sz "Suc j" n ?m1 base] e1 Suc.prems(2) v by simp
    have s: "sift f base sz x (Suc j) c = sift f base sz x j (c\<lparr>memory := ?m2\<rparr>)"
      using r(1) True by (simp only: sift.simps Let_def prod.case mem_copy_write) simp
    obtain m where m: "sift f base sz x j (c\<lparr>memory := ?m2\<rparr>) = c\<lparr>memory := m\<rparr>"
      "elems m base sz n = lsift (greater_by cmp) x j (?ys[Suc j := ?ys ! j])"
      "\<forall>i. i < base \<or> base + n * sz \<le> i \<longrightarrow> m i = ?m2 i"
      using Suc.IH [of "c\<lparr>memory := ?m2\<rparr>"] Suc.prems e2 by auto
    have "?m2 i = memory c i" if "i < base \<or> base + n * sz \<le> i" for i
      using mem_write_outside [OF that Suc.prems(2), of ?v ?m1] o1 [OF that] by simp
    then show ?thesis using m s True r(2) by (intro exI [of _ m]) simp
  qed
qed

lemma sort_loop_sorts:
  assumes "orders f sz cmp" and "base + n * sz \<le> unat (memory_size c)" and "0 < i" and "i \<le> n"
  shows "\<exists>m. fold (\<lambda>i c. sift f base sz (mem_bytes (memory c) (base + i * sz) sz) i c) [1..<i] c = c\<lparr>memory := m\<rparr> \<and>
    elems m base sz n = sort cmp (take i (elems (memory c) base sz n)) @ drop i (elems (memory c) base sz n) \<and>
    (\<forall>k. k < base \<or> base + n * sz \<le> k \<longrightarrow> m k = memory c k)"
  using assms(3,4)
proof (induction i rule: nat_induct_non_zero)
  case 1
  let ?xs = "elems (memory c) base sz n"
  obtain y ys where "?xs = y # ys" using 1 by (cases ?xs) (auto simp: elems_def)
  then show ?case by (intro exI [of _ "memory c"]) simp
next
  case (Suc i)
  let ?F = "\<lambda>i c. sift f base sz (mem_bytes (memory c) (base + i * sz) sz) i c" and ?xs = "elems (memory c) base sz n"
  obtain m where m: "fold ?F [1..<i] c = c\<lparr>memory := m\<rparr>" "elems m base sz n = sort cmp (take i ?xs) @ drop i ?xs"
    "\<forall>k. k < base \<or> base + n * sz \<le> k \<longrightarrow> m k = memory c k" using Suc by auto
  let ?x = "mem_bytes m (base + i * sz) sz" and ?ss = "sort cmp (take i ?xs)"
  have ln: "length ?ss = i" using Suc.prems by simp
  have d: "drop i ?xs = ?xs ! i # drop (Suc i) ?xs" using Suc.prems by (simp add: Cons_nth_drop_Suc)
  have x: "?x = ?xs ! i" using arg_cong [OF m(2), of "\<lambda>l. l ! i"] ln d Suc.prems by (simp add: nth_append nth_elems)
  obtain m' where m': "sift f base sz ?x i (c\<lparr>memory := m\<rparr>) = c\<lparr>memory := m'\<rparr>"
    "elems m' base sz n = lsift (greater_by cmp) ?x i (elems m base sz n)" "\<forall>k. k < base \<or> base + n * sz \<le> k \<longrightarrow> m' k = m k"
    using sift_refines [OF assms(1), of base n "c\<lparr>memory := m\<rparr>" ?x i] assms(2) Suc.prems by auto
  have "lsift (greater_by cmp) ?x i (?ss @ ?xs ! i # drop (Suc i) ?xs) = sort cmp (take i ?xs @ [?xs ! i]) @ drop (Suc i) ?xs"
    using lsift_rinsert [of "greater_by cmp" ?x "rev ?ss" "?xs ! i" "drop (Suc i) ?xs"] ln x by (simp add: sort_snoc)
  then have "elems m' base sz n = sort cmp (take (Suc i) ?xs) @ drop (Suc i) ?xs"
    using m'(2) m(2) d Suc.prems by (simp add: take_Suc_conv_app_nth)
  moreover have "fold ?F [1..<Suc i] c = c\<lparr>memory := m'\<rparr>" using m(1) m'(1) Suc.hyps by simp
  ultimately show ?case using m(3) m'(3) by (intro exI [of _ m']) simp
qed

text \<open>
  Claim C28: sorting.  When the guest's comparison orders the elements by their bytes, \<^verbatim>\<open>qsort\<close> (and \<^verbatim>\<open>mergesort\<close> and \<^verbatim>\<open>heapsort\<close>)
  leaves in memory exactly the stable sort of the array, element for element, and changes no byte outside it and
  nothing else of the context, for every array in linear memory with elements of 1 to 512 bytes, the empty one and
  single elements included.  An array that is not in linear memory, or whose elements are empty or larger, is left as it is.
  \<^verbatim>\<open>mergesort\<close> and \<^verbatim>\<open>heapsort\<close> report success in either case.
\<close>

theorem qsort_sorts:
  assumes "lookup_fn table0 idx = Some f" and "orders f (unat sz) cmp"
  shows "\<exists>m. m3_yos_qsort table0 c base n sz idx = c\<lparr>memory := m\<rparr> \<and> m3_yos_bsdsort table0 c base n sz idx = (0, c\<lparr>memory := m\<rparr>) \<and>
    (if sz \<noteq> 0 \<and> sz \<le> 512 \<and> unat base + unat n * unat sz \<le> unat (memory_size c)
     then elems m (unat base) (unat sz) (unat n) = sort cmp (elems (memory c) (unat base) (unat sz) (unat n)) \<and>
       (\<forall>i. i < unat base \<or> unat base + unat n * unat sz \<le> i \<longrightarrow> m i = memory c i)
     else m = memory c)"
proof -
  consider "\<not> (sz \<noteq> 0 \<and> sz \<le> 512 \<and> unat base + unat n * unat sz \<le> unat (memory_size c))"
    | "sz \<noteq> 0" "sz \<le> 512" "unat base + unat n * unat sz \<le> unat (memory_size c)" "n < 2"
    | "sz \<noteq> 0" "sz \<le> 512" "unat base + unat n * unat sz \<le> unat (memory_size c)" "\<not> n < 2" by blast
  then show ?thesis
  proof cases
    case 1
    then have "yos_sort_inplace table0 c base n sz idx = c"
      by (auto simp: yos_sort_inplace_def not_le split: option.split)
    then show ?thesis unfolding if_not_P [OF 1] by (intro exI [of _ "memory c"]) (simp add: m3_yos_qsort_def m3_yos_bsdsort_def)
  next
    case 2
    then have "unat n = 0 \<or> unat n = 1" by (auto simp: word_less_nat_alt)
    then have "sort cmp (elems (memory c) (unat base) (unat sz) (unat n)) = elems (memory c) (unat base) (unat sz) (unat n)"
      by (auto simp: elems_def)
    then show ?thesis using 2
      by (intro exI [of _ "memory c"]) (simp add: m3_yos_qsort_def m3_yos_bsdsort_def yos_sort_inplace_def)
  next
    case 3
    then have n: "2 \<le> unat n" by (simp add: word_less_nat_alt)
    have "0 < unat n * unat sz" using n 3(1) by (simp add: unat_gt_0) auto
    then have "base < memory_size c" using 3(3) unfolding word_less_nat_alt by linarith
    then have run: "yos_sort_inplace table0 c base n sz idx = sort_loop f (unat base) (unat sz) (unat n) c"
      using 3 assms by (simp add: yos_sort_inplace_def not_less not_le)
    show ?thesis using sort_loop_sorts [OF assms(2) 3(3), of "unat n"] n 3
      by (simp add: m3_yos_qsort_def m3_yos_bsdsort_def run sort_loop_def)
  qed
qed

section \<open>Binary search\<close>

text \<open>The comparison with the key, by the bytes of the element.\<close>

definition tests :: "guest_fn \<Rightarrow> yos_exec_ctx \<Rightarrow> u32 \<Rightarrow> nat \<Rightarrow> (u8 list \<Rightarrow> int) \<Rightarrow> bool" where
  "tests f c k sz kf \<longleftrightarrow> (\<forall>a. unat a + sz \<le> unat (memory_size c) \<longrightarrow> f c [k, a] = (Some (kf (mem_bytes (memory c) (unat a) sz)), c))"

text \<open>Elements the key is greater than come first, those it is smaller than last.\<close>

definition partitioned :: "(u8 list \<Rightarrow> int) \<Rightarrow> u8 list list \<Rightarrow> bool" where
  "partitioned kf xs \<longleftrightarrow> (\<forall>i j. i < j \<longrightarrow> j < length xs \<longrightarrow> (0 < kf (xs ! j) \<longrightarrow> 0 < kf (xs ! i)) \<and> (kf (xs ! i) < 0 \<longrightarrow> kf (xs ! j) < 0))"

lemma mid_word:
  assumes "lo < (hi :: u32)" and "unat hi \<le> 2 ^ 31"
  shows "unat ((lo + hi) div 2) = (unat lo + unat hi) div 2"
proof -
  have "unat lo < unat hi" using assms(1) by (simp add: word_less_nat_alt)
  then have "unat (lo + hi) = unat lo + unat hi" using assms(2) by (intro unat_add_nowrap) simp
  then show ?thesis by (simp add: unat_div)
qed

lemma mid_offset:
  assumes "unat base + n * unat sz \<le> unat (M :: u32)" and "unat (i :: u32) < n"
  shows "unat (base + i * sz) = unat base + unat i * unat sz" and "unat base + unat i * unat sz + unat sz \<le> unat M"
    and "base + i * sz = base + of_nat (unat i * unat sz)"
proof -
  have "of_nat (unat base + unat i * unat sz) = base + i * sz" by simp
  then show "unat (base + i * sz) = unat base + unat i * unat sz" using elem_offset(1) [OF assms] by (metis (no_types))
  show "unat base + unat i * unat sz + unat sz \<le> unat M" by (rule elem_offset(2) [OF assms])
  show "base + i * sz = base + of_nat (unat i * unat sz)" by simp
qed

definition found :: "(u8 list \<Rightarrow> int) \<Rightarrow> u8 list list \<Rightarrow> u32 \<Rightarrow> u32 \<Rightarrow> u32 \<Rightarrow> bool" where
  "found kf xs base sz r \<longleftrightarrow>
     (if \<exists>x\<in>set xs. kf x = 0 then \<exists>i<length xs. r = base + of_nat (i * unat sz) \<and> kf (xs ! i) = 0 else r = 0)"

lemma bsearch_loop_finds:
  assumes "tests f c k (unat sz) kf" and "unat base + n * unat sz \<le> unat (memory_size c)" and "n \<le> 2 ^ 31"
    and "xs = elems (memory c) (unat base) (unat sz) n" and "partitioned kf xs" and "unat hi \<le> n"
    and "\<forall>i<unat lo. i < n \<longrightarrow> 0 < kf (xs ! i)" and "\<forall>i. unat hi \<le> i \<longrightarrow> i < n \<longrightarrow> kf (xs ! i) < 0"
  shows "\<exists>r. bsearch_loop f k base sz lo hi c = Some (r, c) \<and> found kf xs base sz r"
  using assms(6-8)
proof (induction "unat hi - unat lo" arbitrary: lo hi rule: less_induct)
  case less
  have ln: "length xs = n" by (simp add: assms(4))
  show ?case
  proof (cases "lo < hi")
    case False
    then have "unat hi \<le> unat lo" by (simp add: word_le_nat_alt not_less)
    then have "kf (xs ! i) \<noteq> 0" if "i < n" for i using less.prems(2,3) that
      by (cases "i < unat lo") (force, metis le_trans less_irrefl linorder_not_less)
    then have "\<not> (\<exists>x\<in>set xs. kf x = 0)" by (auto simp: in_set_conv_nth ln)
    then show ?thesis using False by (subst bsearch_loop.simps) (simp add: found_def)
  next
    case True
    define mid where "mid = (lo + hi) div 2"
    have lh: "unat lo < unat hi" using True by (simp add: word_less_nat_alt)
    have mid: "unat mid = (unat lo + unat hi) div 2" unfolding mid_def by (rule mid_word [OF True]) (use less.prems(1) assms(3) in simp)
    then have m: "unat lo \<le> unat mid" "unat mid < unat hi" "unat mid < n" using lh less.prems(1) by auto
    note o = mid_offset [OF assms(2) m(3)]
    have cmp: "call_cmp f c k (base + mid * sz) = (kf (xs ! unat mid), c)"
      using assms(1) [unfolded tests_def, rule_format, of "base + mid * sz", unfolded o(1), OF o(2)] m(3)
      by (simp add: call_cmp_def assms(4) nth_elems)
    note step = bsearch_loop.simps [of f k base sz lo hi c, folded mid_def, unfolded Let_def cmp fst_conv snd_conv]
    note part = assms(5) [unfolded partitioned_def ln, rule_format]
    consider "kf (xs ! unat mid) = 0" | "kf (xs ! unat mid) < 0" | "0 < kf (xs ! unat mid)" by linarith
    then show ?thesis
    proof cases
      case 1
      then have "found kf xs base sz (base + mid * sz)" using m(3) o(3) unfolding found_def ln by (metis ln nth_mem)
      then show ?thesis using step True 1 by simp
    next
      case 2
      have "kf (xs ! i) < 0" if "unat mid \<le> i" "i < n" for i using part [of "unat mid" i] that 2 by (cases "i = unat mid") auto
      then have "\<exists>r. bsearch_loop f k base sz lo mid c = Some (r, c) \<and> found kf xs base sz r"
        using less.prems m by (intro less.hyps) auto
      then show ?thesis using 2 step True by simp
    next
      case 3
      have s: "unat (mid + 1) = unat mid + 1" using m(2) unat_u32_lt [of hi] by (simp add: unat_add_u32)
      have "0 < kf (xs ! i)" if "i < unat (mid + 1)" "i < n" for i
        using part [of i "unat mid"] that 3 m(3) s by (cases "i = unat mid") auto
      then have "\<exists>r. bsearch_loop f k base sz (mid + 1) hi c = Some (r, c) \<and> found kf xs base sz r"
        using less.prems m s by (intro less.hyps) auto
      then show ?thesis using 3 step True by simp
    qed
  qed
qed

text \<open>
  Claim C29: searching.  On an array of at most two thousand million elements in linear memory, with the elements the key is greater
  than first and those it is smaller than last, \<^verbatim>\<open>bsearch\<close> ends, returns the address of an element the comparison calls equal when
  there is one and a null pointer when there is none, and changes nothing.
\<close>

theorem bsearch_finds:
  assumes "lookup_fn table0 idx = Some f" and "tests f c k (unat sz) kf" and "sz \<noteq> 0" and "unat n \<le> 2 ^ 31"
    and "unat base + unat n * unat sz \<le> unat (memory_size c)" and "unat k + unat sz \<le> unat (memory_size c)"
    and "partitioned kf (elems (memory c) (unat base) (unat sz) (unat n))"
  shows "\<exists>r. m3_yos_bsearch table0 c k base n sz idx = Some (r, c) \<and> found kf (elems (memory c) (unat base) (unat sz) (unat n)) base sz r"
proof (cases "n = 0")
  case True
  then show ?thesis by (simp add: m3_yos_bsearch_def found_def elems_def)
next
  case False
  then have pos: "0 < unat sz" "0 < unat n * unat sz" using assms(3) by (simp_all add: unat_gt_0)
  then have "\<not> memory_size c \<le> base" "\<not> memory_size c \<le> k" using assms(5,6) unfolding word_le_nat_alt by linarith+
  then have "m3_yos_bsearch table0 c k base n sz idx = bsearch_loop f k base sz 0 n c"
    using False assms by (simp add: m3_yos_bsearch_def not_less)
  then show ?thesis using bsearch_loop_finds [OF assms(2,5,4) refl assms(7), of n 0] by simp
qed

text \<open>
  Beyond that number the sum of the bounds wraps: a search for a key greater than every element never ends.
\<close>

lemma bsearch_wraps_forever:
  assumes "\<And>a. call_cmp f c k a = (1, c)" and "2 ^ 31 < unat hi" and "lo < hi"
  shows "bsearch_loop f k base sz lo hi c = None"
proof -
  have False if some: "bsearch_loop f k base sz lo hi c = Some y" for y
  proof -
    let ?P = "\<lambda>f' k' base' sz' lo' hi' c' _. f' = f \<and> k' = k \<and> hi' = hi \<and> c' = c \<longrightarrow> \<not> lo' < hi"
    have "?P f k base sz lo hi c y"
    proof (rule bsearch_loop.raw_induct [where P = ?P, OF _ some])
      fix g f' k' base' sz' lo' hi' c' y
      assume g: "\<And>f' k' base' sz' lo' hi' c' y. g f' k' base' sz' lo' hi' c' = Some y \<Longrightarrow> ?P f' k' base' sz' lo' hi' c' y"
        and run: "(if \<not> lo' < hi' then Some (0, c')
          else let mid = (lo' + hi') div 2; r = call_cmp f' c' k' (base' + mid * sz')
            in if fst r = 0 then Some (base' + mid * sz', snd r)
               else if fst r < 0 then g f' k' base' sz' lo' mid (snd r) else g f' k' base' sz' (mid + 1) hi' (snd r)) = Some y"
      show "?P f' k' base' sz' lo' hi' c' y"
      proof (intro impI notI)
        assume eq: "f' = f \<and> k' = k \<and> hi' = hi \<and> c' = c" and lt: "lo' < hi"
        define mid where "mid = (lo' + hi) div 2"
        have "unat mid < 2 ^ 31" using unat_u32_lt [of "lo' + hi"] unfolding mid_def by (simp add: unat_div)
        then have "unat (mid + 1) \<le> 2 ^ 31" by (simp add: unat_add_u32)
        then have "mid + 1 < hi" using assms(2) by (simp add: word_less_nat_alt)
        moreover have "g f k base' sz' (mid + 1) hi c = Some y" using run eq lt assms(1) by (simp add: Let_def mid_def [symmetric])
        ultimately show False using g by blast
      qed
    qed
    then show False using assms(3) by simp
  qed
  then show ?thesis by (cases "bsearch_loop f k base sz lo hi c") auto
qed

section \<open>A concrete array\<close>

definition byte_cmp :: guest_fn where
  "byte_cmp c args = (case args of [a, b] \<Rightarrow> (Some (int (unat (memory c (unat a))) - int (unat (memory c (unat b)))), c) | _ \<Rightarrow> (None, c))"

definition demo_array :: yos_exec_ctx where
  "demo_array = ctx_calloc (mem_write (\<lambda>_. 0) 1024 [3, 1, 2]) 65536"

definition demo_sorted :: yos_exec_ctx where
  "demo_sorted = ctx_calloc (mem_write (\<lambda>_. 0) 1024 [1, 2, 3]) 65536"

abbreviation demo_table :: "table_entry option list" where
  "demo_table \<equiv> [None, Some \<lparr> te_compiles = True, te_fn = byte_cmp \<rparr>]"

lemma mem_bytes_1: "mem_bytes m a 1 = [m a]"
  by (simp add: mem_bytes_def)

lemma byte_cmp_orders: "orders byte_cmp 1 (key (\<lambda>x. unat (hd x)) default)"
  by (simp add: orders_def byte_cmp_def mem_bytes_1 [unfolded One_nat_def]) (simp add: word_less_def [symmetric] word_less_nat_alt [symmetric])

lemma demo_lookup: "lookup_fn demo_table 1 = Some byte_cmp"
  by (simp add: lookup_fn_def)

theorem qsort_sorts_witness:
  "elems (memory (m3_yos_qsort demo_table demo_array 1024 3 1 1)) 1024 1 3 = [[1], [2], [3]]"
proof -
  have "elems (memory demo_array) 1024 1 3 = [[3], [1], [2]]"
    by (simp add: elems_def mem_bytes_def demo_array_def ctx_calloc_def mem_write_def upt_rec)
  moreover have "memory_size demo_array = 65536" by (simp add: demo_array_def ctx_calloc_def)
  ultimately show ?thesis using qsort_sorts [OF demo_lookup, of 1 "key (\<lambda>x. unat (hd x)) default" demo_array 1024 3] byte_cmp_orders
    by auto
qed

theorem bsearch_finds_witness:
  "\<exists>r. m3_yos_bsearch demo_table demo_sorted 1026 1024 3 1 1 = Some (r, demo_sorted) \<and> r = 1026"
proof -
  let ?kf = "\<lambda>x :: u8 list. 3 - int (unat (hd x))"
  have e: "elems (memory demo_sorted) 1024 1 3 = [[1], [2], [3]]"
    by (simp add: elems_def mem_bytes_def demo_sorted_def ctx_calloc_def mem_write_def upt_rec)
  have s: "memory_size demo_sorted = 65536" by (simp add: demo_sorted_def ctx_calloc_def)
  have "memory demo_sorted 1026 = 3" by (simp add: demo_sorted_def ctx_calloc_def mem_write_def)
  then have t: "tests byte_cmp demo_sorted 1026 1 ?kf"
    by (simp add: tests_def byte_cmp_def mem_bytes_1 [unfolded One_nat_def])
  have p: "partitioned ?kf [[1], [2], [3]]"
    unfolding partitioned_def by (auto simp: less_Suc_eq nth_Cons split: nat.splits)
  from bsearch_finds [OF demo_lookup, of demo_sorted 1026 1 ?kf 3 1024] t p e s
  have "\<exists>r. m3_yos_bsearch demo_table demo_sorted 1026 1024 3 1 1 = Some (r, demo_sorted) \<and> found ?kf [[1], [2], [3]] 1024 1 r" by simp
  moreover have "r = 1026" if fd: "found ?kf [[1], [2], [3]] 1024 1 r" for r
  proof -
    have "\<exists>i<Suc (Suc (Suc 0)). r = 1024 + of_nat i \<and> ?kf ([[1], [2], [3]] ! i) = 0" using fd by (simp add: found_def)
    then obtain i where i: "i < Suc (Suc (Suc 0))" "r = 1024 + of_nat i" "?kf ([[1], [2], [3]] ! i) = 0" by blast
    then consider "i = 0" | "i = 1" | "i = 2" by linarith
    then show ?thesis by cases (use i in simp_all)
  qed
  ultimately show ?thesis by blast
qed

end
