(* ===== verification/FmtCheck.thy ===== *)
theory FmtCheck
  imports Env "HOL-Library.Sublist"
begin

text \<open>
  The format-string check \<^verbatim>\<open>src/src/yos/impl/libc/fmtcheck_freebsd.c\<close>: a string supplied at run time may replace a default format only
  when it asks for the same arguments.  A pointer into a C string is the rest of the string, a list of characters without the
  final NUL; the null pointer that ends the scan is \<open>None\<close>.
\<close>

section \<open>The scanner\<close>

datatype EFT =
  FMTCHECK_START | FMTCHECK_SHORT | FMTCHECK_INT | FMTCHECK_WINTT | FMTCHECK_LONG | FMTCHECK_QUAD | FMTCHECK_INTMAXT | FMTCHECK_PTRDIFFT
| FMTCHECK_SIZET | FMTCHECK_CHARPOINTER | FMTCHECK_SHORTPOINTER | FMTCHECK_INTPOINTER | FMTCHECK_LONGPOINTER | FMTCHECK_QUADPOINTER
| FMTCHECK_INTMAXTPOINTER | FMTCHECK_PTRDIFFTPOINTER | FMTCHECK_SIZETPOINTER | FMTCHECK_DOUBLE | FMTCHECK_LONGDOUBLE | FMTCHECK_STRING
| FMTCHECK_WSTRING | FMTCHECK_WIDTH | FMTCHECK_PRECISION | FMTCHECK_DONE | FMTCHECK_UNKNOWN

datatype e_modifier =
  MOD_NONE | MOD_CHAR | MOD_SHORT | MOD_LONG | MOD_QUAD | MOD_INTMAXT | MOD_LONGDOUBLE | MOD_PTRDIFFT | MOD_SIZET

text \<open>The modifier; \<open>None\<close> for a string that ends after \<^verbatim>\<open>h\<close> or \<^verbatim>\<open>l\<close>.\<close>

fun fmt_modifier :: "string \<Rightarrow> (e_modifier \<times> string) option" where
  "fmt_modifier [] = Some (MOD_NONE, [])"
| "fmt_modifier (a # f) =
     (if a = CHR ''h'' then
        (case f of [] \<Rightarrow> None | b # g \<Rightarrow> if b = CHR ''h'' then Some (MOD_CHAR, g) else Some (MOD_SHORT, f))
      else if a = CHR ''j'' then Some (MOD_INTMAXT, f)
      else if a = CHR ''l'' then
        (case f of [] \<Rightarrow> None | b # g \<Rightarrow> if b = CHR ''l'' then Some (MOD_QUAD, g) else Some (MOD_LONG, f))
      else if a = CHR ''q'' then Some (MOD_QUAD, f)
      else if a = CHR ''t'' then Some (MOD_PTRDIFFT, f)
      else if a = CHR ''z'' then Some (MOD_SIZET, f)
      else if a = CHR ''L'' then Some (MOD_LONGDOUBLE, f)
      else Some (MOD_NONE, a # f))"

definition fmt_conversion :: "e_modifier \<Rightarrow> char \<Rightarrow> EFT" where
  "fmt_conversion modifier f =
     (if f \<in> set ''diouxX'' then
        (case modifier of MOD_LONG \<Rightarrow> FMTCHECK_LONG | MOD_QUAD \<Rightarrow> FMTCHECK_QUAD | MOD_INTMAXT \<Rightarrow> FMTCHECK_INTMAXT
         | MOD_PTRDIFFT \<Rightarrow> FMTCHECK_PTRDIFFT | MOD_SIZET \<Rightarrow> FMTCHECK_SIZET | MOD_CHAR \<Rightarrow> FMTCHECK_INT | MOD_SHORT \<Rightarrow> FMTCHECK_INT
         | MOD_NONE \<Rightarrow> FMTCHECK_INT | _ \<Rightarrow> FMTCHECK_UNKNOWN)
      else if f = CHR ''n'' then
        (case modifier of MOD_CHAR \<Rightarrow> FMTCHECK_CHARPOINTER | MOD_SHORT \<Rightarrow> FMTCHECK_SHORTPOINTER | MOD_LONG \<Rightarrow> FMTCHECK_LONGPOINTER
         | MOD_QUAD \<Rightarrow> FMTCHECK_QUADPOINTER | MOD_INTMAXT \<Rightarrow> FMTCHECK_INTMAXTPOINTER | MOD_PTRDIFFT \<Rightarrow> FMTCHECK_PTRDIFFTPOINTER
         | MOD_SIZET \<Rightarrow> FMTCHECK_SIZETPOINTER | MOD_NONE \<Rightarrow> FMTCHECK_INTPOINTER | _ \<Rightarrow> FMTCHECK_UNKNOWN)
      else if f \<in> set ''DOU'' then (if modifier \<noteq> MOD_NONE then FMTCHECK_UNKNOWN else FMTCHECK_LONG)
      else if f \<in> set ''aAeEfFgG'' then
        (case modifier of MOD_LONGDOUBLE \<Rightarrow> FMTCHECK_LONGDOUBLE | MOD_LONG \<Rightarrow> FMTCHECK_DOUBLE | MOD_NONE \<Rightarrow> FMTCHECK_DOUBLE
         | _ \<Rightarrow> FMTCHECK_UNKNOWN)
      else if f = CHR ''c'' then (case modifier of MOD_LONG \<Rightarrow> FMTCHECK_WINTT | MOD_NONE \<Rightarrow> FMTCHECK_INT | _ \<Rightarrow> FMTCHECK_UNKNOWN)
      else if f = CHR ''C'' then (if modifier \<noteq> MOD_NONE then FMTCHECK_UNKNOWN else FMTCHECK_WINTT)
      else if f = CHR ''s'' then (case modifier of MOD_LONG \<Rightarrow> FMTCHECK_WSTRING | MOD_NONE \<Rightarrow> FMTCHECK_STRING | _ \<Rightarrow> FMTCHECK_UNKNOWN)
      else if f = CHR ''S'' then (if modifier \<noteq> MOD_NONE then FMTCHECK_UNKNOWN else FMTCHECK_WSTRING)
      else if f = CHR ''p'' then (if modifier \<noteq> MOD_NONE then FMTCHECK_UNKNOWN else FMTCHECK_LONG)
      else FMTCHECK_UNKNOWN)"

text \<open>Each function returns the kind of the next argument and where the scan stands: on the conversion character, not behind it.\<close>

definition get_next_format_from_precision :: "string \<Rightarrow> EFT \<times> string" where
  "get_next_format_from_precision pf =
     (case fmt_modifier pf of
        None \<Rightarrow> (FMTCHECK_UNKNOWN, [])
      | Some (modifier, []) \<Rightarrow> (FMTCHECK_UNKNOWN, [])
      | Some (modifier, f # rest) \<Rightarrow> (fmt_conversion modifier f, f # rest))"

definition isdigit :: "char \<Rightarrow> bool" where
  "isdigit ch \<longleftrightarrow> ch \<in> set ''0123456789''"

definition get_next_format_from_width :: "string \<Rightarrow> EFT \<times> string" where
  "get_next_format_from_width pf =
     (case pf of
        [] \<Rightarrow> get_next_format_from_precision []
      | a # f \<Rightarrow>
          if a = CHR ''.'' then
            (if f \<noteq> [] \<and> hd f = CHR ''*'' then (FMTCHECK_PRECISION, f)
             else let g = dropWhile isdigit f in
               if g = [] then (FMTCHECK_UNKNOWN, []) else get_next_format_from_precision g)
          else get_next_format_from_precision pf)"

text \<open>The loop that looks for a percent sign which is not doubled: the text behind it, the end of the string, or a lone one at the end.\<close>

datatype percent = NoPercent | LonePercent | Percent string

fun find_percent :: "string \<Rightarrow> percent" where
  "find_percent [] = NoPercent"
| "find_percent [a] = (if a = CHR ''%'' then LonePercent else NoPercent)"
| "find_percent (a # b # f) =
     (if a = CHR ''%'' then (if b \<noteq> CHR ''%'' then Percent (b # f) else find_percent f) else find_percent (b # f))"

definition fmt_flag :: "char \<Rightarrow> bool" where
  "fmt_flag ch \<longleftrightarrow> ch \<in> set (CHR 0x27 # ''#0- +'')"

definition get_next_format :: "string \<Rightarrow> EFT \<Rightarrow> EFT \<times> string option" where
  "get_next_format p eft =
     (if eft = FMTCHECK_WIDTH then apsnd Some (get_next_format_from_width (tl p))
      else if eft = FMTCHECK_PRECISION then apsnd Some (get_next_format_from_precision (tl p))
      else case find_percent p of
        NoPercent \<Rightarrow> (FMTCHECK_DONE, None)
      | LonePercent \<Rightarrow> (FMTCHECK_UNKNOWN, Some [])
      | Percent f0 \<Rightarrow>
          let f = dropWhile fmt_flag f0 in
          if f \<noteq> [] \<and> hd f = CHR ''*'' then (FMTCHECK_WIDTH, Some f)
          else let g = dropWhile isdigit f in
            if g = [] then (FMTCHECK_UNKNOWN, Some []) else apsnd Some (get_next_format_from_width g))"

section \<open>The scan moves on\<close>

lemma fmt_modifier_length: "fmt_modifier p = Some (m, q) \<Longrightarrow> length q \<le> length p"
  by (induction p rule: fmt_modifier.induct) (auto split: if_splits list.splits)

lemma from_precision_length: "length (snd (get_next_format_from_precision p)) \<le> length p"
  using fmt_modifier_length by (force simp: get_next_format_from_precision_def split: option.splits list.splits)

lemma from_precision_Nil [simp]: "get_next_format_from_precision [] = (FMTCHECK_UNKNOWN, [])"
  by (simp add: get_next_format_from_precision_def)

lemma from_width_length: "length (snd (get_next_format_from_width p)) \<le> length p"
proof (cases p)
  case (Cons a f)
  have "length (snd (get_next_format_from_precision (dropWhile isdigit f))) \<le> length f"
    using from_precision_length length_dropWhile_le le_trans by blast
  then show ?thesis using Cons from_precision_length [of p] by (auto simp: get_next_format_from_width_def Let_def)
qed (simp add: get_next_format_from_width_def)

lemma find_percent_length: "find_percent p = Percent f \<Longrightarrow> length f < length p"
  by (induction p rule: find_percent.induct) (auto split: if_splits)

lemma get_next_format_moves:
  assumes "get_next_format p t = (t', q)" and "t' \<noteq> FMTCHECK_DONE" and "t' \<noteq> FMTCHECK_UNKNOWN"
  shows "\<exists>q'. q = Some q' \<and> length q' < length p"
proof (cases "t = FMTCHECK_WIDTH \<or> t = FMTCHECK_PRECISION")
  case True
  obtain a p' where "p = a # p'" using True assms by (cases p) (auto simp: get_next_format_def get_next_format_from_width_def)
  then show ?thesis using True assms(1) from_width_length [of p'] from_precision_length [of p']
    by (auto simp: get_next_format_def less_Suc_eq_le apsnd_def map_prod_def split: if_splits prod.splits)
next
  case False
  obtain f0 where f0: "find_percent p = Percent f0" using False assms by (auto simp: get_next_format_def split: percent.splits)
  define f where "f = dropWhile fmt_flag f0"
  have "length f \<le> length f0" by (simp add: f_def length_dropWhile_le)
  moreover have "length (snd (get_next_format_from_width (dropWhile isdigit f))) \<le> length f"
    using from_width_length length_dropWhile_le le_trans by blast
  ultimately have l: "length f < length p" "length (snd (get_next_format_from_width (dropWhile isdigit f))) < length p"
    using find_percent_length [OF f0] by simp_all
  have "get_next_format p t = (if f \<noteq> [] \<and> hd f = CHR ''*'' then (FMTCHECK_WIDTH, Some f)
      else if dropWhile isdigit f = [] then (FMTCHECK_UNKNOWN, Some []) else apsnd Some (get_next_format_from_width (dropWhile isdigit f)))"
    using False by (simp add: get_next_format_def f0 Let_def f_def [symmetric])
  then show ?thesis using assms l by (cases "get_next_format_from_width (dropWhile isdigit f)") (auto split: if_splits)
qed

section \<open>The check\<close>

text \<open>True when the loop runs through the first string, so that it is the result.\<close>

function fmtcheck_loop :: "string \<Rightarrow> EFT \<Rightarrow> string \<Rightarrow> EFT \<Rightarrow> bool" where
  "fmtcheck_loop f1p f1t f2p f2t =
     (case get_next_format f1p f1t of (t1, p1) \<Rightarrow>
        if t1 = FMTCHECK_DONE then True
        else if t1 = FMTCHECK_UNKNOWN then False
        else case get_next_format f2p f2t of (t2, p2) \<Rightarrow>
          if t1 \<noteq> t2 then False else fmtcheck_loop (the p1) t1 (the p2) t2)"
  by pat_completeness auto
termination
  by (relation "measure (\<lambda>(p, _, _, _). length p)") (auto dest!: sym [THEN get_next_format_moves])

declare fmtcheck_loop.simps [simp del]

definition yos_fmtcheck_freebsd :: "string option \<Rightarrow> string \<Rightarrow> string" where
  "yos_fmtcheck_freebsd f1 f2 =
     (case f1 of None \<Rightarrow> f2 | Some s \<Rightarrow> if fmtcheck_loop s FMTCHECK_START f2 FMTCHECK_START then s else f2)"

text \<open>
  The call of the guest (\<^verbatim>\<open>impl/libc/posix.c\<close>), on unchecked addresses.  \<open>None\<close> is the crash of a scan of the null pointer.
\<close>

definition yos_fmtcheck :: "yos_exec_ctx \<Rightarrow> u32 \<Rightarrow> u32 \<Rightarrow> u32 option" where
  "yos_fmtcheck ctx user_off default_off =
     (if user_off = 0 then Some default_off
      else let u = raw_str (memory ctx) (unat user_off) in
        if default_off = 0 then
          (let t = fst (get_next_format u FMTCHECK_START) in
           if t = FMTCHECK_DONE then Some user_off else if t = FMTCHECK_UNKNOWN then Some 0 else None)
        else if fmtcheck_loop u FMTCHECK_START (raw_str (memory ctx) (unat default_off)) FMTCHECK_START then Some user_off
        else Some default_off)"

section \<open>What a format asks for\<close>

text \<open>
  Formats as a grammar rather than a scan: pieces of text, doubled percent signs and directives with flags, a width, a precision, a
  modifier and a conversion.  A star takes an argument of its own.
\<close>

datatype fmt_number = Star | Digits string

datatype fmt_piece =
  Plain string
| DoublePercent
| Directive string "fmt_number" "fmt_number option" string char

fun show_number :: "fmt_number \<Rightarrow> string" where
  "show_number Star = ''*''"
| "show_number (Digits ds) = ds"

fun show_piece :: "fmt_piece \<Rightarrow> string" where
  "show_piece (Plain s) = s"
| "show_piece DoublePercent = ''%%''"
| "show_piece (Directive fl w pr m ch) =
     ''%'' @ fl @ show_number w @ (case pr of None \<Rightarrow> [] | Some n \<Rightarrow> ''.'' @ show_number n) @ m @ [ch]"

definition show_format :: "fmt_piece list \<Rightarrow> string" where
  "show_format ps = concat (map show_piece ps)"

definition modifiers :: "(string \<times> e_modifier) list" where
  "modifiers = [([], MOD_NONE), (''hh'', MOD_CHAR), (''h'', MOD_SHORT), (''l'', MOD_LONG), (''ll'', MOD_QUAD), (''q'', MOD_QUAD),
     (''j'', MOD_INTMAXT), (''L'', MOD_LONGDOUBLE), (''t'', MOD_PTRDIFFT), (''z'', MOD_SIZET)]"

definition conversions :: string where
  "conversions = ''diouxXnDOUaAeEfFgGcCsSp''"

fun number_args :: "EFT \<Rightarrow> fmt_number \<Rightarrow> EFT list" where
  "number_args t Star = [t]"
| "number_args t (Digits _) = []"

fun piece_args :: "fmt_piece \<Rightarrow> EFT list" where
  "piece_args (Directive fl w pr m ch) =
     number_args FMTCHECK_WIDTH w @ (case pr of None \<Rightarrow> [] | Some n \<Rightarrow> number_args FMTCHECK_PRECISION n) @
     [fmt_conversion (the (map_of modifiers m)) ch]"
| "piece_args _ = []"

definition format_args :: "fmt_piece list \<Rightarrow> EFT list" where
  "format_args ps = concat (map piece_args ps)"

fun number_ok :: "fmt_number \<Rightarrow> bool" where
  "number_ok Star = True"
| "number_ok (Digits ds) = list_all isdigit ds"

fun piece_ok :: "fmt_piece \<Rightarrow> bool" where
  "piece_ok (Plain s) \<longleftrightarrow> CHR ''%'' \<notin> set s"
| "piece_ok DoublePercent \<longleftrightarrow> True"
| "piece_ok (Directive fl w pr m ch) \<longleftrightarrow> list_all fmt_flag fl \<and> number_ok w \<and> (case pr of None \<Rightarrow> True | Some n \<Rightarrow> number_ok n) \<and>
     m \<in> fst ` set modifiers \<and> ch \<in> set conversions \<and> fmt_conversion (the (map_of modifiers m)) ch \<noteq> FMTCHECK_UNKNOWN"

section \<open>The scan finds exactly that\<close>

text \<open>All kinds the scan delivers, the one that ends it included.\<close>

function scan :: "string \<Rightarrow> EFT \<Rightarrow> EFT list" where
  "scan p t =
     (case get_next_format p t of (t', q) \<Rightarrow>
        if t' = FMTCHECK_DONE \<or> t' = FMTCHECK_UNKNOWN then [t'] else t' # scan (the q) t')"
  by pat_completeness auto
termination
  by (relation "measure (\<lambda>(p, _). length p)") (auto dest!: sym [THEN get_next_format_moves])

declare scan.simps [simp del]

lemma loop_scan:
  "fmtcheck_loop p1 t1 p2 t2 \<longleftrightarrow> last (scan p1 t1) = FMTCHECK_DONE \<and> prefix (butlast (scan p1 t1)) (scan p2 t2)"
proof (induction p1 t1 p2 t2 rule: fmtcheck_loop.induct)
  case (1 p1 t1 p2 t2)
  obtain u1 q1 where g1: "get_next_format p1 t1 = (u1, q1)" by force
  obtain u2 q2 where g2: "get_next_format p2 t2 = (u2, q2)" by force
  have ne: "scan p t \<noteq> []" for p t by (subst scan.simps) (simp split: prod.splits)
  consider "u1 = FMTCHECK_DONE" | "u1 = FMTCHECK_UNKNOWN" | "u1 \<noteq> FMTCHECK_DONE" "u1 \<noteq> FMTCHECK_UNKNOWN" by blast
  then show ?case
  proof cases
    case 3
    then have s1: "scan p1 t1 = u1 # scan (the q1) u1" by (subst scan.simps) (simp add: g1)
    show ?thesis
    proof (cases "u1 = u2")
      case True
      have s2: "scan p2 t2 = u2 # scan (the q2) u2" using 3 True by (subst scan.simps) (simp add: g2)
      have "fmtcheck_loop p1 t1 p2 t2 = fmtcheck_loop (the q1) u1 (the q2) u2"
        using 3 True by (subst fmtcheck_loop.simps) (simp add: g1 g2)
      then show ?thesis using "1.IH" [OF g1 [symmetric] 3 g2 [symmetric]] True s1 s2 ne by simp
    next
      case False
      have "hd (scan p2 t2) = u2" by (subst scan.simps) (simp add: g2)
      then have "\<not> prefix (u1 # xs) (scan p2 t2)" for xs using False by (cases "scan p2 t2") auto
      moreover have "\<not> fmtcheck_loop p1 t1 p2 t2" using 3 False by (subst fmtcheck_loop.simps) (simp add: g1 g2)
      ultimately show ?thesis using s1 ne by simp
    qed
  qed (simp_all add: fmtcheck_loop.simps scan.simps [of p1 t1] g1)
qed

lemma find_percent_skip: "ch \<noteq> CHR ''%'' \<Longrightarrow> find_percent (ch # f) = find_percent f"
  by (cases f) simp_all

lemma find_percent_plain: "CHR ''%'' \<notin> set s \<Longrightarrow> find_percent (s @ f) = find_percent f"
  by (induction s) (auto simp: find_percent_skip)

lemma scan_start: "t \<noteq> FMTCHECK_WIDTH \<Longrightarrow> t \<noteq> FMTCHECK_PRECISION \<Longrightarrow> find_percent p = find_percent p' \<Longrightarrow> scan p t = scan p' FMTCHECK_START"
  by (subst (1 2) scan.simps) (simp add: get_next_format_def)

lemma conversion_chars:
  assumes "ch \<in> set conversions"
  shows "ch \<notin> set ''hjlqtzL%*.''" and "\<not> isdigit ch" and "\<not> fmt_flag ch"
  using assms by (auto simp: conversions_def isdigit_def fmt_flag_def)

lemma fmt_conversion_kind:
  "fmt_conversion m ch \<noteq> FMTCHECK_DONE" "fmt_conversion m ch \<noteq> FMTCHECK_WIDTH" "fmt_conversion m ch \<noteq> FMTCHECK_PRECISION"
  by (simp_all add: fmt_conversion_def split: e_modifier.splits)

lemma modifier_scan:
  assumes "m \<in> fst ` set modifiers" and "ch \<in> set conversions"
  shows "fmt_modifier (m @ ch # rest) = Some (the (map_of modifiers m), ch # rest)" and "set m \<subseteq> set ''hjlqtzL''"
  using assms(1) conversion_chars(1) [OF assms(2)] by (auto simp: modifiers_def)

lemma from_precision_scan:
  "m \<in> fst ` set modifiers \<Longrightarrow> ch \<in> set conversions \<Longrightarrow>
     get_next_format_from_precision (m @ ch # rest) = (fmt_conversion (the (map_of modifiers m)) ch, ch # rest)"
  by (simp add: get_next_format_from_precision_def modifier_scan)

lemma tail_hd:
  assumes "m \<in> fst ` set modifiers" and "ch \<in> set conversions"
  shows "\<exists>a r. m @ ch # rest = a # r \<and> a \<notin> set ''%*.'' \<and> \<not> isdigit a \<and> \<not> fmt_flag a"
proof (cases m)
  case Nil
  then show ?thesis using conversion_chars [OF assms(2)] by simp
next
  case (Cons a m')
  then have "a \<in> set ''hjlqtzL''" using modifier_scan(2) [OF assms] by simp
  then show ?thesis using Cons by (auto simp: isdigit_def fmt_flag_def)
qed

lemma dropWhile_digits: "list_all isdigit ds \<Longrightarrow> \<not> isdigit a \<Longrightarrow> dropWhile isdigit (ds @ a # r) = a # r"
  by (induction ds) auto

lemma from_width_plain:
  assumes "m \<in> fst ` set modifiers" and "ch \<in> set conversions"
  shows "get_next_format_from_width (m @ ch # rest) = (fmt_conversion (the (map_of modifiers m)) ch, ch # rest)"
  using tail_hd [OF assms, of rest] from_precision_scan [OF assms, of rest] by (auto simp: get_next_format_from_width_def)

lemma from_width_digits:
  assumes "m \<in> fst ` set modifiers" and "ch \<in> set conversions" and "list_all isdigit ds"
  shows "get_next_format_from_width (CHR ''.'' # ds @ m @ ch # rest) = (fmt_conversion (the (map_of modifiers m)) ch, ch # rest)"
proof -
  obtain a r where a: "m @ ch # rest = a # r" "a \<notin> set ''%*.''" "\<not> isdigit a" using tail_hd [OF assms(1,2)] by blast
  have "dropWhile isdigit (ds @ m @ ch # rest) = m @ ch # rest" using dropWhile_digits [OF assms(3) a(3)] a(1) by simp
  moreover have "\<not> (ds @ m @ ch # rest \<noteq> [] \<and> hd (ds @ m @ ch # rest) = CHR ''*'')"
    using a assms(3) by (cases ds) (auto simp: isdigit_def)
  ultimately show ?thesis using from_precision_scan [OF assms(1,2), of rest] by (simp add: get_next_format_from_width_def)
qed

text \<open>What follows the width: a precision, if any, the modifier and the conversion.\<close>

definition after_width :: "fmt_number option \<Rightarrow> string \<Rightarrow> char \<Rightarrow> string \<Rightarrow> string" where
  "after_width pr m ch rest = (case pr of None \<Rightarrow> [] | Some n \<Rightarrow> CHR ''.'' # show_number n) @ m @ ch # rest"

lemma scan_conversion:
  assumes "get_next_format p t = (fmt_conversion (the (map_of modifiers m)) ch, Some (ch # rest))"
    and "fmt_conversion (the (map_of modifiers m)) ch \<noteq> FMTCHECK_UNKNOWN" and "ch \<in> set conversions"
  shows "scan p t = fmt_conversion (the (map_of modifiers m)) ch # scan rest FMTCHECK_START"
proof -
  have "find_percent (ch # rest) = find_percent rest" using conversion_chars(1) [OF assms(3)] by (intro find_percent_skip) auto
  then have "scan (ch # rest) (fmt_conversion (the (map_of modifiers m)) ch) = scan rest FMTCHECK_START"
    by (intro scan_start) (simp_all add: fmt_conversion_kind)
  then show ?thesis using assms(1,2) fmt_conversion_kind by (subst scan.simps) simp
qed

lemma scan_after_width:
  assumes "piece_ok (Directive fl w pr m ch)" and "get_next_format p t = apsnd Some (get_next_format_from_width (after_width pr m ch rest))"
  shows "scan p t = (case pr of None \<Rightarrow> [] | Some n \<Rightarrow> number_args FMTCHECK_PRECISION n) @
    fmt_conversion (the (map_of modifiers m)) ch # scan rest FMTCHECK_START"
proof -
  have ok: "m \<in> fst ` set modifiers" "ch \<in> set conversions" "fmt_conversion (the (map_of modifiers m)) ch \<noteq> FMTCHECK_UNKNOWN"
    using assms(1) by simp_all
  consider "pr = None" | ds where "pr = Some (Digits ds)" "list_all isdigit ds" | "pr = Some Star"
    using assms(1) by (cases pr; cases "the pr") auto
  then show ?thesis
  proof cases
    case 1
    then show ?thesis using assms(2) scan_conversion [OF _ ok(3,2)] from_width_plain [OF ok(1,2)] by (simp add: after_width_def)
  next
    case 2
    then show ?thesis using assms(2) scan_conversion [OF _ ok(3,2)] from_width_digits [OF ok(1,2) 2(2)] by (simp add: after_width_def)
  next
    case 3
    have "get_next_format (CHR ''*'' # m @ ch # rest) FMTCHECK_PRECISION = (fmt_conversion (the (map_of modifiers m)) ch, Some (ch # rest))"
      by (simp add: get_next_format_def from_precision_scan [OF ok(1,2)])
    then have "scan (CHR ''*'' # m @ ch # rest) FMTCHECK_PRECISION = fmt_conversion (the (map_of modifiers m)) ch # scan rest FMTCHECK_START"
      by (rule scan_conversion [OF _ ok(3,2)])
    moreover have "get_next_format p t = (FMTCHECK_PRECISION, Some (CHR ''*'' # m @ ch # rest))"
      using assms(2) 3 by (simp add: after_width_def get_next_format_from_width_def)
    ultimately show ?thesis using 3 by (subst scan.simps) simp
  qed
qed

lemma after_width_hd:
  assumes "piece_ok (Directive fl w pr m ch)"
  shows "\<exists>a r. after_width pr m ch rest = a # r \<and> a \<notin> set ''%*'' \<and> \<not> isdigit a \<and> \<not> fmt_flag a"
proof (cases pr)
  case None
  then show ?thesis using assms tail_hd [of m ch rest] by (auto simp: after_width_def)
qed (simp add: after_width_def isdigit_def fmt_flag_def)

lemma flags_then_digits:
  assumes "list_all fmt_flag fl" and "list_all isdigit ds" and "\<not> fmt_flag a"
  shows "\<exists>ds'. dropWhile fmt_flag (fl @ ds @ a # r) = ds' @ a # r \<and> list_all isdigit ds'"
proof -
  have "dropWhile fmt_flag (fl @ ds @ a # r) = dropWhile fmt_flag (ds @ a # r)" using assms(1) by (induction fl) auto
  moreover have "\<exists>ds'. dropWhile fmt_flag (ds @ a # r) = ds' @ a # r \<and> list_all isdigit ds'" using assms(2,3)
  proof (induction ds)
    case (Cons d ds)
    then show ?case by (cases "fmt_flag d") (auto intro!: exI [of _ "d # ds"])
  qed simp
  ultimately show ?thesis by simp
qed

lemma scan_directive:
  assumes "piece_ok (Directive fl w pr m ch)"
  shows "scan (show_piece (Directive fl w pr m ch) @ rest) FMTCHECK_START = piece_args (Directive fl w pr m ch) @ scan rest FMTCHECK_START"
proof -
  let ?T = "after_width pr m ch rest" and ?p = "show_piece (Directive fl w pr m ch) @ rest"
  have p: "?p = CHR ''%'' # fl @ show_number w @ ?T" by (simp add: after_width_def split: option.splits)
  obtain a r where a: "?T = a # r" "a \<notin> set ''%*''" "\<not> isdigit a" "\<not> fmt_flag a" using after_width_hd [OF assms] by blast
  have fl: "list_all fmt_flag fl" and w: "number_ok w" using assms by simp_all
  have "hd (fl @ show_number w @ ?T) \<noteq> CHR ''%''"
    using fl w a by (cases fl; cases w; cases "show_number w") (auto simp: fmt_flag_def isdigit_def)
  moreover have "fl @ show_number w @ ?T \<noteq> []" using a by simp
  ultimately have f: "find_percent ?p = Percent (fl @ show_number w @ ?T)" unfolding p by (cases "fl @ show_number w @ ?T") auto
  show ?thesis
  proof (cases w)
    case Star
    have "dropWhile fmt_flag (fl @ CHR ''*'' # ?T) = CHR ''*'' # ?T" using fl by (induction fl) (auto simp: fmt_flag_def)
    then have "get_next_format ?p FMTCHECK_START = (FMTCHECK_WIDTH, Some (CHR ''*'' # ?T))"
      using f Star by (simp add: get_next_format_def Let_def)
    moreover have "scan (CHR ''*'' # ?T) FMTCHECK_WIDTH = (case pr of None \<Rightarrow> [] | Some n \<Rightarrow> number_args FMTCHECK_PRECISION n) @
      fmt_conversion (the (map_of modifiers m)) ch # scan rest FMTCHECK_START"
      by (rule scan_after_width [OF assms]) (simp add: get_next_format_def)
    ultimately show ?thesis using Star by (subst scan.simps) (simp split: option.splits)
  next
    case (Digits ds)
    obtain ds' where ds': "dropWhile fmt_flag (fl @ ds @ ?T) = ds' @ ?T" "list_all isdigit ds'"
      using flags_then_digits [OF fl _ a(4), of ds r] w Digits a(1) by auto
    have "dropWhile isdigit (ds' @ ?T) = ?T" using dropWhile_digits [OF ds'(2) a(3)] a(1) by simp
    moreover have "\<not> (ds' @ ?T \<noteq> [] \<and> hd (ds' @ ?T) = CHR ''*'')" using a ds'(2) by (cases ds') (auto simp: isdigit_def)
    ultimately have "get_next_format ?p FMTCHECK_START = apsnd Some (get_next_format_from_width ?T)"
      using f Digits ds'(1) a(1) by (simp add: get_next_format_def Let_def)
    from scan_after_width [OF assms this] show ?thesis using Digits by (simp split: option.splits)
  qed
qed

lemma scan_piece: "piece_ok q \<Longrightarrow> scan (show_piece q @ rest) FMTCHECK_START = piece_args q @ scan rest FMTCHECK_START"
proof (cases q)
  case (Plain s)
  then show "piece_ok q \<Longrightarrow> ?thesis" using scan_start [of FMTCHECK_START "s @ rest" rest] find_percent_plain [of s rest] by simp
next
  case DoublePercent
  then show ?thesis using scan_start [of FMTCHECK_START "''%%'' @ rest" rest] by simp
next
  case (Directive fl w pr m ch)
  then show "piece_ok q \<Longrightarrow> ?thesis" using scan_directive by blast
qed

lemma scan_format: "list_all piece_ok ps \<Longrightarrow> scan (show_format ps) FMTCHECK_START = format_args ps @ [FMTCHECK_DONE]"
proof (induction ps)
  case Nil
  then show ?case by (subst scan.simps) (simp add: show_format_def format_args_def get_next_format_def)
next
  case (Cons q ps)
  then show ?case using scan_piece [of q "show_format ps"] by (simp add: show_format_def format_args_def)
qed

lemma format_args_kinds: "list_all piece_ok ps \<Longrightarrow> FMTCHECK_DONE \<notin> set (format_args ps)"
proof (induction ps)
  case (Cons q ps)
  have "FMTCHECK_DONE \<notin> set (number_args t n)" if "t \<noteq> FMTCHECK_DONE" for t n using that by (cases n) auto
  then have "FMTCHECK_DONE \<notin> set (piece_args q)"
    using fmt_conversion_kind(1) by (cases q) (auto simp: eq_commute [of FMTCHECK_DONE] split: option.splits)
  then show ?case using Cons by (simp add: format_args_def)
qed (simp add: format_args_def)

text \<open>
  Claim C30: the check of format strings against the grammar of formats.  For any two formats, with any text, flags, widths, precisions
  and modifiers, the supplied one is returned exactly when the arguments it takes, those of stars included, are a prefix of the
  arguments the default takes; otherwise the default is.
\<close>

theorem fmtcheck_compares_arguments:
  assumes "list_all piece_ok ps" and "list_all piece_ok ds"
  shows "yos_fmtcheck_freebsd (Some (show_format ps)) (show_format ds) =
    (if prefix (format_args ps) (format_args ds) then show_format ps else show_format ds)"
proof -
  have "prefix (format_args ps) (format_args ds @ [FMTCHECK_DONE]) \<longleftrightarrow> prefix (format_args ps) (format_args ds)"
    using format_args_kinds [OF assms(1)] by (auto simp: prefix_snoc)
  then show ?thesis using scan_format [OF assms(1)] scan_format [OF assms(2)] by (simp add: yos_fmtcheck_freebsd_def loop_scan)
qed

theorem fmtcheck_compares_arguments_witness:
  "yos_fmtcheck_freebsd (Some ''%-*d of %s'') ''%*i: %5.2s, %d'' = ''%-*d of %s'' \<and>
   yos_fmtcheck_freebsd (Some ''%n%s'') ''%d%s'' = ''%d%s''"
proof -
  let ?a = "[Directive ''-'' Star None [] (CHR ''d''), Plain '' of '', Directive [] (Digits []) None [] (CHR ''s'')]"
  let ?b = "[Directive [] Star None [] (CHR ''i''), Plain '': '', Directive [] (Digits ''5'') (Some (Digits ''2'')) [] (CHR ''s''), Plain '', '',
    Directive [] (Digits []) None [] (CHR ''d'')]"
  let ?c = "[Directive [] (Digits []) None [] (CHR ''n''), Directive [] (Digits []) None [] (CHR ''s'')]"
  let ?d = "[Directive [] (Digits []) None [] (CHR ''d''), Directive [] (Digits []) None [] (CHR ''s'')]"
  note ok = fmt_flag_def isdigit_def modifiers_def conversions_def fmt_conversion_def
  have o: "list_all piece_ok ?a" "list_all piece_ok ?b" "list_all piece_ok ?c" "list_all piece_ok ?d" by (simp_all add: ok)
  have "prefix (format_args ?a) (format_args ?b)" "\<not> prefix (format_args ?c) (format_args ?d)" by (simp_all add: format_args_def ok)
  then show ?thesis using fmtcheck_compares_arguments [OF o(1,2)] fmtcheck_compares_arguments [OF o(3,4)] by (simp add: show_format_def)
qed

end
