(* ===== verification/Int128.thy ===== *)
theory Int128
  imports ProcfsProps "HOL-Library.Signed_Division"
begin

text \<open>
  128-bit integers for guests compiled without them: \<^verbatim>\<open>src/src/yos/impl/libc/i128.c\<close>.  An operand comes as two 64-bit halves; the
  result is stored at an address of the guest that is not checked.
\<close>

section \<open>Operations\<close>

type_synonym u128 = "128 word"

definition u128_from_halves :: "u64 \<Rightarrow> u64 \<Rightarrow> u128" where
  "u128_from_halves lo hi = push_bit 64 (ucast hi) OR ucast lo"

definition i128_store_at :: "yos_exec_ctx \<Rightarrow> u32 \<Rightarrow> u128 \<Rightarrow> yos_exec_ctx" where
  "i128_store_at ctx dst v =
     ctx\<lparr>memory := store64 (store64 (memory ctx) (unat dst) (ucast v)) (unat dst + 8) (ucast (drop_bit 64 v))\<rparr>"

definition host__multi3 :: "yos_exec_ctx \<Rightarrow> u32 \<Rightarrow> u64 \<Rightarrow> u64 \<Rightarrow> u64 \<Rightarrow> u64 \<Rightarrow> yos_exec_ctx" where
  "host__multi3 ctx ret a_lo a_hi b_lo b_hi = i128_store_at ctx ret (u128_from_halves a_lo a_hi * u128_from_halves b_lo b_hi)"

text \<open>The shift count is a signed 32-bit number.\<close>

definition host__ashlti3 :: "yos_exec_ctx \<Rightarrow> u32 \<Rightarrow> u64 \<Rightarrow> u64 \<Rightarrow> u32 \<Rightarrow> yos_exec_ctx" where
  "host__ashlti3 ctx ret a_lo a_hi shift =
     i128_store_at ctx ret
       (if 128 \<le> sint shift \<or> sint shift < 0 then 0 else push_bit (nat (sint shift) mod 128) (u128_from_halves a_lo a_hi))"

definition host__ashrti3 :: "yos_exec_ctx \<Rightarrow> u32 \<Rightarrow> u64 \<Rightarrow> u64 \<Rightarrow> u32 \<Rightarrow> yos_exec_ctx" where
  "host__ashrti3 ctx ret a_lo a_hi shift =
     (let a = u128_from_halves a_lo a_hi in
      i128_store_at ctx ret
        (if 128 \<le> sint shift then (if sint a < 0 then - 1 else 0)
         else if sint shift \<le> 0 then a else signed_drop_bit (nat (sint shift)) a))"

definition host__lshrti3 :: "yos_exec_ctx \<Rightarrow> u32 \<Rightarrow> u64 \<Rightarrow> u64 \<Rightarrow> u32 \<Rightarrow> yos_exec_ctx" where
  "host__lshrti3 ctx ret a_lo a_hi shift =
     i128_store_at ctx ret
       (if 128 \<le> sint shift \<or> sint shift < 0 then 0 else drop_bit (nat (sint shift)) (u128_from_halves a_lo a_hi))"

text \<open>
  Signed division rounds towards zero.  The least number divided by \<open>-1\<close> is undefined in C: \<open>None\<close>.
\<close>

definition i128_overflows :: "u128 \<Rightarrow> u128 \<Rightarrow> bool" where
  "i128_overflows a b \<longleftrightarrow> sint a = - (2 ^ 127) \<and> sint b = - 1"

definition host__divti3 :: "yos_exec_ctx \<Rightarrow> u32 \<Rightarrow> u64 \<Rightarrow> u64 \<Rightarrow> u64 \<Rightarrow> u64 \<Rightarrow> yos_exec_ctx option" where
  "host__divti3 ctx ret a_lo a_hi b_lo b_hi =
     (let a = u128_from_halves a_lo a_hi; b = u128_from_halves b_lo b_hi in
      if i128_overflows a b then None
      else Some (i128_store_at ctx ret (if b \<noteq> 0 then word_of_int (sint a sdiv sint b) else 0)))"

definition host__modti3 :: "yos_exec_ctx \<Rightarrow> u32 \<Rightarrow> u64 \<Rightarrow> u64 \<Rightarrow> u64 \<Rightarrow> u64 \<Rightarrow> yos_exec_ctx option" where
  "host__modti3 ctx ret a_lo a_hi b_lo b_hi =
     (let a = u128_from_halves a_lo a_hi; b = u128_from_halves b_lo b_hi in
      if i128_overflows a b then None
      else Some (i128_store_at ctx ret (if b \<noteq> 0 then word_of_int (sint a smod sint b) else 0)))"

definition host__udivti3 :: "yos_exec_ctx \<Rightarrow> u32 \<Rightarrow> u64 \<Rightarrow> u64 \<Rightarrow> u64 \<Rightarrow> u64 \<Rightarrow> yos_exec_ctx" where
  "host__udivti3 ctx ret a_lo a_hi b_lo b_hi =
     (let a = u128_from_halves a_lo a_hi; b = u128_from_halves b_lo b_hi in i128_store_at ctx ret (if b \<noteq> 0 then a div b else 0))"

definition host__umodti3 :: "yos_exec_ctx \<Rightarrow> u32 \<Rightarrow> u64 \<Rightarrow> u64 \<Rightarrow> u64 \<Rightarrow> u64 \<Rightarrow> yos_exec_ctx" where
  "host__umodti3 ctx ret a_lo a_hi b_lo b_hi =
     (let a = u128_from_halves a_lo a_hi; b = u128_from_halves b_lo b_hi in i128_store_at ctx ret (if b \<noteq> 0 then a mod b else 0))"

section \<open>Reading the result\<close>

definition load128 :: "yos_exec_ctx \<Rightarrow> u32 \<Rightarrow> u128" where
  "load128 ctx a = u128_from_halves (load64 (memory ctx) (unat a)) (load64 (memory ctx) (unat a + 8))"

lemma halves_join: "u128_from_halves (ucast v) (ucast (drop_bit 64 v)) = v"
  unfolding u128_from_halves_def by (rule bit_word_eqI) (auto simp: bit_simps)

lemma load128_store [simp]: "load128 (i128_store_at c dst v) dst = v"
proof -
  have "load64 (memory (i128_store_at c dst v)) (unat dst) = ucast v"
    using load64_cong [of "unat dst" "memory (i128_store_at c dst v)" "store64 (memory c) (unat dst) (ucast v)"]
    by (simp add: i128_store_at_def store64_out)
  moreover have "load64 (memory (i128_store_at c dst v)) (unat dst + 8) = ucast (drop_bit 64 v)" by (simp add: i128_store_at_def)
  ultimately show ?thesis by (simp add: load128_def halves_join)
qed

lemma store128_frame: "i < unat dst \<or> unat dst + 16 \<le> i \<Longrightarrow> memory (i128_store_at c dst v) i = memory c i"
  by (auto simp: i128_store_at_def store64_out)

lemma uint_halves: "uint (u128_from_halves lo hi) = uint lo + 2 ^ 64 * uint hi"
proof -
  have "uint (u128_from_halves lo hi) = concat_bit 64 (uint lo) (uint hi)"
    unfolding u128_from_halves_def by (rule bit_eqI) (auto simp: bit_simps dest: bit_imp_le_length)
  also have "\<dots> = uint lo + 2 ^ 64 * uint hi"
    using take_bit_int_eq_self [of "uint lo" 64] uint_lt2p [of lo] by (simp add: concat_bit_eq push_bit_eq_mult)
  finally show ?thesis .
qed

section \<open>The arithmetic is right\<close>

lemma sint_u128: "- (2 ^ 127) \<le> sint (a :: u128)" "sint (a :: u128) < 2 ^ 127"
  using sint_greater_eq [of a] sint_less [of a] by simp_all

lemma u128_nonzero: "b \<noteq> (0 :: u128) \<Longrightarrow> sint b \<noteq> 0 \<and> 0 < uint b"
  by (simp add: less_le unsigned_eq_0_iff signed_eq_0_iff)

lemma sint_word_of_int_u128: "- (2 ^ 127) \<le> k \<Longrightarrow> k < 2 ^ 127 \<Longrightarrow> sint (word_of_int k :: u128) = k"
  using signed_take_bit_int_eq_self [of 127 k] by (simp add: signed_of_int)

lemma sdiv_in_range:
  assumes "\<not> i128_overflows a b"
  shows "sint (word_of_int (sint a sdiv sint b) :: u128) = sint a sdiv sint b"
proof -
  have r: "- \<bar>sint a\<bar> \<le> sint a sdiv sint b" "sint a sdiv sint b \<le> \<bar>sint a\<bar>" using sdiv_int_range [of "sint a" "sint b"] by simp_all
  have "sint a sdiv sint b \<noteq> 2 ^ 127"
  proof
    assume q: "sint a sdiv sint b = 2 ^ 127"
    then have a: "sint a = - (2 ^ 127)" using r sint_u128 [of a] by linarith
    then have "sint b = - 1" using q int_sdiv_negated_is_minus1 [of "sint a" "sint b"] by simp
    then show False using a assms by (simp add: i128_overflows_def)
  qed
  then show ?thesis using r sint_u128 [of a] by (intro sint_word_of_int_u128) linarith+
qed

lemma smod_bounds:
  assumes "(b :: int) \<noteq> 0"
  shows "\<bar>a smod b\<bar> < \<bar>b\<bar>" and "a smod b = 0 \<or> sgn (a smod b) = sgn a"
proof -
  have m: "0 \<le> \<bar>a\<bar> mod \<bar>b\<bar>" "\<bar>a\<bar> mod \<bar>b\<bar> < \<bar>b\<bar>" using assms by simp_all
  then show "\<bar>a smod b\<bar> < \<bar>b\<bar>" using assms by (simp add: signed_modulo_int_def abs_mult sgn_if)
  show "a smod b = 0 \<or> sgn (a smod b) = sgn a" using m(1) by (auto simp: signed_modulo_int_def sgn_mult sgn_if)
qed

lemma smod_in_range:
  assumes "b \<noteq> (0 :: u128)"
  shows "sint (word_of_int (sint a smod sint b) :: u128) = sint a smod sint b"
proof -
  have "sint b \<noteq> 0" using u128_nonzero assms by blast
  then show ?thesis using smod_bounds(1) [of "sint b" "sint a"] sint_u128 [of b] by (intro sint_word_of_int_u128) linarith+
qed

lemma uint_push_bit_u128: "uint (push_bit n (a :: u128)) = uint a * 2 ^ n mod 2 ^ 128"
  unfolding unsigned_push_bit_eq by (simp add: push_bit_eq_mult take_bit_eq_mod)

lemma uint_drop_bit_u128: "uint (drop_bit n (a :: u128)) = uint a div 2 ^ n"
  unfolding unsigned_drop_bit_eq by (simp add: drop_bit_eq_div take_bit_int_eq_self uint_lt2p [where 'a = 128, simplified])

text \<open>
  128-bit arithmetic.  The two halves make the number; the product is that of the integers modulo \<open>2\<^sup>1\<^sup>2\<^sup>8\<close>; quotient and remainder
  belong together, unsigned and signed, where the signed remainder is smaller than the divisor and has the sign of the dividend; the
  shifts multiply and divide by powers of two, the arithmetic one rounding down.
\<close>

theorem i128_arithmetic:
  assumes "a = u128_from_halves a_lo a_hi" and "b = u128_from_halves b_lo b_hi" and "b \<noteq> 0" and "\<not> i128_overflows a b" and "0 \<le> sint s" and "sint s < 128"
  shows "uint a = uint a_lo + 2 ^ 64 * uint a_hi \<and>
    uint (load128 (host__multi3 c ret a_lo a_hi b_lo b_hi) ret) = uint a * uint b mod 2 ^ 128 \<and>
    uint (load128 (host__udivti3 c ret a_lo a_hi b_lo b_hi) ret) * uint b + uint (load128 (host__umodti3 c ret a_lo a_hi b_lo b_hi) ret) = uint a \<and>
    uint (load128 (host__umodti3 c ret a_lo a_hi b_lo b_hi) ret) < uint b \<and>
    (\<exists>cq cr. host__divti3 c ret a_lo a_hi b_lo b_hi = Some cq \<and> host__modti3 c ret a_lo a_hi b_lo b_hi = Some cr \<and>
      sint (load128 cq ret) * sint b + sint (load128 cr ret) = sint a \<and> \<bar>sint (load128 cr ret)\<bar> < \<bar>sint b\<bar> \<and>
      (sint (load128 cr ret) = 0 \<or> sgn (sint (load128 cr ret)) = sgn (sint a))) \<and>
    uint (load128 (host__ashlti3 c ret a_lo a_hi s) ret) = uint a * 2 ^ nat (sint s) mod 2 ^ 128 \<and>
    uint (load128 (host__lshrti3 c ret a_lo a_hi s) ret) = uint a div 2 ^ nat (sint s) \<and>
    sint (load128 (host__ashrti3 c ret a_lo a_hi s) ret) = sint a div 2 ^ nat (sint s)"
proof (intro conjI)
  have nb: "sint b \<noteq> 0" "0 < uint b" using u128_nonzero [OF assms(3)] by simp_all
  show "uint a = uint a_lo + 2 ^ 64 * uint a_hi" by (simp add: assms(1) uint_halves)
  show "uint (load128 (host__multi3 c ret a_lo a_hi b_lo b_hi) ret) = uint a * uint b mod 2 ^ 128"
    by (simp add: host__multi3_def assms(1,2) uint_mult_lem uint_word_ariths)
  show "uint (load128 (host__udivti3 c ret a_lo a_hi b_lo b_hi) ret) * uint b + uint (load128 (host__umodti3 c ret a_lo a_hi b_lo b_hi) ret) = uint a"
    using assms(3) by (simp add: host__udivti3_def host__umodti3_def assms(1,2) [symmetric] uint_div uint_mod)
  show "uint (load128 (host__umodti3 c ret a_lo a_hi b_lo b_hi) ret) < uint b"
    using assms(3) nb by (simp add: host__umodti3_def assms(1,2) [symmetric] uint_mod)
  show "\<exists>cq cr. host__divti3 c ret a_lo a_hi b_lo b_hi = Some cq \<and> host__modti3 c ret a_lo a_hi b_lo b_hi = Some cr \<and>
      sint (load128 cq ret) * sint b + sint (load128 cr ret) = sint a \<and> \<bar>sint (load128 cr ret)\<bar> < \<bar>sint b\<bar> \<and>
      (sint (load128 cr ret) = 0 \<or> sgn (sint (load128 cr ret)) = sgn (sint a))"
    using assms(3,4) smod_bounds [OF nb(1), of "sint a"]
    by (simp add: host__divti3_def host__modti3_def assms(1,2) [symmetric] Let_def sdiv_in_range smod_in_range sdiv_mult_smod_eq)
  show "uint (load128 (host__ashlti3 c ret a_lo a_hi s) ret) = uint a * 2 ^ nat (sint s) mod 2 ^ 128"
    using assms(5,6) by (simp add: host__ashlti3_def assms(1) [symmetric] uint_push_bit_u128)
  show "uint (load128 (host__lshrti3 c ret a_lo a_hi s) ret) = uint a div 2 ^ nat (sint s)"
    using assms(5,6) by (simp add: host__lshrti3_def assms(1) [symmetric] uint_drop_bit_u128)
  show "sint (load128 (host__ashrti3 c ret a_lo a_hi s) ret) = sint a div 2 ^ nat (sint s)"
    using assms(5,6) by (simp add: host__ashrti3_def assms(1) [symmetric] sint_signed_drop_bit_eq drop_bit_eq_div)
qed

text \<open>The address of the result is not checked.\<close>

lemma i128_result_past_memory: "memory (host__multi3 c (memory_size c) 1 0 7 0) (unat (memory_size c)) = 7"
proof -
  have "u128_from_halves 1 0 * u128_from_halves 7 0 = 7" by (simp add: u128_from_halves_def)
  then show ?thesis by (simp add: host__multi3_def i128_store_at_def store64_def store32_def)
qed

theorem i128_arithmetic_witness:
  "\<exists>cq cr. host__divti3 (ctx_calloc (\<lambda>_. 0) 65536) 64 (- 7) (- 1) 2 0 = Some cq \<and>
     host__modti3 (ctx_calloc (\<lambda>_. 0) 65536) 64 (- 7) (- 1) 2 0 = Some cr \<and> sint (load128 cq 64) * 2 + sint (load128 cr 64) = - 7 \<and>
     \<bar>sint (load128 cr 64)\<bar> < 2"
proof -
  have b: "u128_from_halves 2 0 = 2" by (simp add: u128_from_halves_def)
  have a: "u128_from_halves (- 7) (- 1) = - 7" by (rule word_uint_eqI) (simp add: uint_halves unsigned_minus_1_eq_mask mask_eq_exp_minus_1)
  have s: "sint (2 :: u128) = 2" "sint (- 7 :: u128) = - 7" by simp_all
  have "\<not> i128_overflows (- 7) 2" by (simp add: i128_overflows_def)
  then show ?thesis
    using i128_arithmetic [OF a [symmetric] b [symmetric], of 3 "ctx_calloc (\<lambda>_. 0) 65536" 64] unfolding s by (simp, blast)
qed

end
