(* ===== verification/RandomNumbers.thy ===== *)
theory RandomNumbers
  imports IoSafety
begin

text \<open>
  Random numbers: \<^verbatim>\<open>src/src/yos/impl/libc/random.c\<close>.  The host's entropy is a parameter: the \<open>k\<close>-th call for \<open>n\<close> bytes gives bytes or an error
  number.
\<close>

section \<open>Operations\<close>

type_synonym entropy = "nat \<Rightarrow> nat \<Rightarrow> int + u8 list"

definition yos_getentropy :: "(int \<Rightarrow> int) \<Rightarrow> entropy \<Rightarrow> yos_exec_ctx \<Rightarrow> u32 \<Rightarrow> u32 \<Rightarrow> int \<times> yos_exec_ctx" where
  "yos_getentropy h2g ge ctx buf_off len =
     (if 256 < len then yos_errno_neg h2g ctx EINVAL
      else case wptr_range ctx buf_off (unat len) of
        None \<Rightarrow> yos_errno_neg h2g ctx EFAULT
      | Some p \<Rightarrow>
          if len = 0 then (0, ctx)
          else case ge 0 (unat len) of
            Inl e \<Rightarrow> yos_errno_check h2g ctx (- 1) e
          | Inr bs \<Rightarrow> yos_errno_check h2g (ctx\<lparr>memory := mem_write (memory ctx) p bs\<rparr>) 0 0)"

text \<open>Pieces of at most 256 bytes; an error ends the call silently.\<close>

function fill_chunks :: "entropy \<Rightarrow> nat \<Rightarrow> mem \<Rightarrow> nat \<Rightarrow> nat \<Rightarrow> mem" where
  "fill_chunks ge k m p len =
     (if len = 0 then m
      else let n = (if 256 < len then 256 else len) in
        case ge k n of Inl _ \<Rightarrow> m | Inr bs \<Rightarrow> fill_chunks ge (Suc k) (mem_write m p bs) (p + n) (len - n))"
  by pat_completeness auto
termination
  by (relation "measure (\<lambda>(_, _, _, _, len). len)") auto

definition yos_arc4random_buf :: "entropy \<Rightarrow> yos_exec_ctx \<Rightarrow> u32 \<Rightarrow> u32 \<Rightarrow> yos_exec_ctx" where
  "yos_arc4random_buf ge ctx buf_off len =
     (if len = 0 then ctx
      else case wptr_range ctx buf_off (unat len) of
        None \<Rightarrow> ctx
      | Some p \<Rightarrow> ctx\<lparr>memory := fill_chunks ge 0 (memory ctx) p (unat len)\<rparr>)"

text \<open>A draw of four bytes, read as a number.\<close>

definition draw32 :: "entropy \<Rightarrow> nat \<Rightarrow> u32 option" where
  "draw32 ge k = (case ge k 4 of Inl _ \<Rightarrow> None | Inr bs \<Rightarrow> Some (load32 (mem_write (\<lambda>_. 0) 0 bs) 0))"

definition yos_arc4random :: "entropy \<Rightarrow> u32" where
  "yos_arc4random ge = (case draw32 ge 0 of None \<Rightarrow> 0 | Some v \<Rightarrow> v)"

text \<open>Draws below \<open>least\<close> are rejected; \<open>None\<close> is the call that rejects for ever.\<close>

partial_function (option) uniform_loop :: "entropy \<Rightarrow> u32 \<Rightarrow> u32 \<Rightarrow> nat \<Rightarrow> u32 option" where
  "uniform_loop ge least upper k =
     (case draw32 ge k of
        None \<Rightarrow> Some 0
      | Some r \<Rightarrow> if r < least then uniform_loop ge least upper (Suc k) else Some (r mod upper))"

definition uniform_min :: "u32 \<Rightarrow> u32" where
  "uniform_min upper = of_nat ((0x100000000 - unat upper) mod unat upper)"

definition yos_arc4random_uniform :: "entropy \<Rightarrow> u32 \<Rightarrow> u32 option" where
  "yos_arc4random_uniform ge upper = (if upper < 2 then Some 0 else uniform_loop ge (uniform_min upper) upper 0)"

section \<open>The buffer is filled, nothing else\<close>

lemma fill_chunks_confined:
  assumes "\<And>k n bs. ge k n = Inr bs \<Longrightarrow> length bs = n"
  shows "i < p \<or> p + len \<le> i \<Longrightarrow> fill_chunks ge k m p len i = m i"
proof (induction len arbitrary: k m p rule: less_induct)
  case (less len)
  define n where "n = (if 256 < len then 256 else len)"
  have n: "n \<le> len" by (simp add: n_def)
  show ?case
  proof (cases "len = 0 \<or> (\<exists>e. ge k n = Inl e)")
    case True
    then show ?thesis by (subst fill_chunks.simps) (auto simp: n_def [symmetric] Let_def)
  next
    case False
    then obtain bs where bs: "len \<noteq> 0" "ge k n = Inr bs" by (cases "ge k n") auto
    have l: "length bs = n" "0 < n" using assms [OF bs(2)] bs(1) by (simp_all add: n_def)
    have "fill_chunks ge k m p len i = fill_chunks ge (Suc k) (mem_write m p bs) (p + n) (len - n) i"
      using bs by (subst fill_chunks.simps) (simp add: n_def [symmetric])
    also have "\<dots> = mem_write m p bs i" using less.prems l n bs(1) by (intro less.IH) auto
    also have "\<dots> = m i" using less.prems l n by (auto simp: mem_write_def)
    finally show ?thesis .
  qed
qed

section \<open>Every result is equally likely\<close>

lemma residue_once:
  assumes "v < (u :: nat)"
  shows "\<exists>!r. a \<le> r \<and> r < a + u \<and> r mod u = v"
proof (rule ex_ex1I)
  let ?d = "(v + (u - a mod u)) mod u"
  have "(a + ?d) mod u = (a mod u + (v + (u - a mod u))) mod u" by (metis mod_add_eq mod_mod_trivial)
  also have "a mod u + (v + (u - a mod u)) = v + u" using mod_less_divisor [of u a] assms by linarith
  finally have "(a + ?d) mod u = v" using assms by simp
  then show "\<exists>r. a \<le> r \<and> r < a + u \<and> r mod u = v" using assms by (intro exI [of _ "a + ?d"]) simp
next
  fix r s assume r: "a \<le> r \<and> r < a + u \<and> r mod u = v" and s: "a \<le> s \<and> s < a + u \<and> s mod u = v"
  have "r = s" if "r \<le> s" "s - r < u" "r mod u = s mod u" for r s :: nat
  proof -
    have "u dvd s - r" using that by (metis mod_eq_dvd_iff_nat)
    then show ?thesis using that dvd_imp_le [of u "s - r"] by fastforce
  qed
  from this [of r s] this [of s r] show "r = s" using r s by (cases "r \<le> s") (simp_all, linarith+)
qed

lemma residue_count:
  assumes "v < (u :: nat)"
  shows "card {r. m \<le> r \<and> r < m + q * u \<and> r mod u = v} = q"
proof (induction q)
  case (Suc q)
  obtain r where r: "m + q * u \<le> r" "r < m + q * u + u" "r mod u = v" and u: "\<And>s. m + q * u \<le> s \<Longrightarrow> s < m + q * u + u \<Longrightarrow> s mod u = v \<Longrightarrow> s = r"
    using residue_once [OF assms, of "m + q * u"] by metis
  have "{s. m \<le> s \<and> s < m + Suc q * u \<and> s mod u = v} = insert r {s. m \<le> s \<and> s < m + q * u \<and> s mod u = v}"
  proof (intro set_eqI iffI)
    fix s assume "s \<in> {s. m \<le> s \<and> s < m + Suc q * u \<and> s mod u = v}"
    then show "s \<in> insert r {s. m \<le> s \<and> s < m + q * u \<and> s mod u = v}" using u [of s] by (cases "s < m + q * u") auto
  qed (use r in auto)
  moreover have "finite {s. m \<le> s \<and> s < m + q * u \<and> s mod u = v}" by (rule finite_subset [of _ "{..<m + q * u}"]) auto
  ultimately show ?case using Suc r by simp
qed simp

lemma uniform_min_nat:
  assumes "2 \<le> upper"
  shows "unat (uniform_min upper) = 2 ^ 32 mod unat upper" and "unat (uniform_min upper) \<le> 2 ^ 31"
    and "2 ^ 32 = unat (uniform_min upper) + (2 ^ 32 - unat (uniform_min upper)) div unat upper * unat upper"
proof -
  have u: "2 \<le> unat upper" "unat upper < 2 ^ 32" using assms unat_u32_lt [of upper] by (simp_all add: word_le_nat_alt)
  have e: "(2 ^ 32 - unat upper) mod unat upper = 2 ^ 32 mod unat upper" using u by (metis le_mod_geq less_imp_le linorder_not_less)
  have l: "2 ^ 32 mod unat upper < unat upper" using u by simp
  then have "2 ^ 32 mod unat upper < 2 ^ 32" using u by linarith
  then show m: "unat (uniform_min upper) = 2 ^ 32 mod unat upper" using e by (simp add: uniform_min_def unat_of_nat_u32)
  have "2 ^ 32 mod unat upper \<le> 2 ^ 32 - unat upper" using e mod_less_eq_dividend [of "2 ^ 32 - unat upper" "unat upper"] by simp
  then show "unat (uniform_min upper) \<le> 2 ^ 31" using m l by simp
  show "2 ^ 32 = unat (uniform_min upper) + (2 ^ 32 - unat (uniform_min upper)) div unat upper * unat upper"
    unfolding m by (simp add: minus_mod_eq_div_mult [symmetric] mod_less_eq_dividend)
qed

lemma card_u32: "card {r :: u32. P (unat r)} = card {n. n < 2 ^ 32 \<and> P n}"
proof -
  have "unat ` {r :: u32. P (unat r)} = {n. n < 2 ^ 32 \<and> P n}"
  proof (intro set_eqI iffI)
    fix n assume "n \<in> {n. n < 2 ^ 32 \<and> P n}"
    then show "n \<in> unat ` {r :: u32. P (unat r)}" by (intro image_eqI [of _ _ "of_nat n"]) (simp_all add: unat_of_nat_u32)
  qed (use unat_u32_lt in auto)
  then show ?thesis using card_image [of unat "{r :: u32. P (unat r)}"] by (simp add: inj_on_def u32_eq_unat)
qed

lemma uniform_loop_accepts:
  "(\<And>j. j < k \<Longrightarrow> \<exists>s. draw32 ge (i + j) = Some s \<and> s < least) \<Longrightarrow> draw32 ge (i + k) = Some r \<Longrightarrow> \<not> r < least \<Longrightarrow>
     uniform_loop ge least upper i = Some (r mod upper)"
proof (induction k arbitrary: i)
  case 0
  then show ?case by (subst uniform_loop.simps) simp
next
  case (Suc k)
  obtain s where s: "draw32 ge i = Some s" "s < least" using Suc.prems(1) [of 0] by auto
  have "uniform_loop ge least upper (Suc i) = Some (r mod upper)"
    using Suc.prems(1) [of "Suc _"] Suc.prems(2,3) by (intro Suc.IH) simp_all
  then show ?case using s by (subst uniform_loop.simps) simp
qed

text \<open>
  Claim C31: unbiased random numbers.  For every bound of at least two, each result below the bound comes from the same number of
  accepted 32-bit draws; at most half of the draws are rejected; and the call returns as soon as a draw is accepted, with the residue
  of that draw, which is below the bound.
\<close>

theorem arc4random_uniform_unbiased:
  assumes "2 \<le> upper" and "v < upper"
  shows "card {r. \<not> r < uniform_min upper \<and> r mod upper = v} = (2 ^ 32 - unat (uniform_min upper)) div unat upper \<and>
    unat (uniform_min upper) \<le> 2 ^ 31 \<and>
    (\<forall>ge k r. (\<forall>j<k. \<exists>s. draw32 ge j = Some s \<and> s < uniform_min upper) \<longrightarrow> draw32 ge k = Some r \<longrightarrow> \<not> r < uniform_min upper \<longrightarrow>
      yos_arc4random_uniform ge upper = Some (r mod upper) \<and> r mod upper < upper)"
proof (intro conjI allI impI)
  note m = uniform_min_nat [OF assms(1)]
  let ?m = "unat (uniform_min upper)" and ?u = "unat upper"
  have "card {r. \<not> r < uniform_min upper \<and> r mod upper = v} = card {n. n < 2 ^ 32 \<and> ?m \<le> n \<and> n mod ?u = unat v}"
    using card_u32 [of "\<lambda>n. ?m \<le> n \<and> n mod ?u = unat v"] by (simp add: word_less_nat_alt u32_eq_unat unat_mod not_less)
  also have "{n. n < 2 ^ 32 \<and> ?m \<le> n \<and> n mod ?u = unat v} = {n. ?m \<le> n \<and> n < ?m + (2 ^ 32 - ?m) div ?u * ?u \<and> n mod ?u = unat v}"
    unfolding m(3) [symmetric] by auto
  also have "card \<dots> = (2 ^ 32 - ?m) div ?u" using assms(2) by (intro residue_count) (simp add: word_less_nat_alt)
  finally show "card {r. \<not> r < uniform_min upper \<and> r mod upper = v} = (2 ^ 32 - ?m) div ?u" .
  show "?m \<le> 2 ^ 31" by (rule m(2))
next
  fix ge k r assume "\<forall>j<k. \<exists>s. draw32 ge j = Some s \<and> s < uniform_min upper" "draw32 ge k = Some r" "\<not> r < uniform_min upper"
  then show "yos_arc4random_uniform ge upper = Some (r mod upper)"
    using uniform_loop_accepts [of k ge 0] leD [OF assms(1)] by (simp add: yos_arc4random_uniform_def)
  have "0 < unat upper" using assms(1) by (simp add: word_le_nat_alt)
  then show "r mod upper < upper" by (simp add: word_less_nat_alt unat_mod)
qed

theorem arc4random_uniform_unbiased_witness:
  "card {r. \<not> r < uniform_min 10 \<and> r mod 10 = 3} = 429496729"
  using arc4random_uniform_unbiased [of 10 3] by (simp add: uniform_min_def)

end
