(* ===== verification/Kqueue.thy ===== *)
theory Kqueue
  imports FdCalls ProcfsProps "HOL-Library.Signed_Division"
begin

text \<open>
  Event queues on Linux: \<^verbatim>\<open>src/src/yos/impl/libc/kqueue-linux.c\<close>.  A queue of the guest is an epoll instance of the host; the end of a guest
  process is announced through an event descriptor that a table of the whole program files under queue and process.
\<close>

section \<open>The host\<close>

text \<open>
  Error numbers on the left, or \<open>Some\<close>.  The \<open>i\<close>-th change of a call asks for its own answers; \<open>kh_wait\<close> gives the ready events, each with the
  data of its registration.
\<close>

datatype ctl_op = EPOLL_CTL_ADD | EPOLL_CTL_DEL | EPOLL_CTL_MOD

record kq_host =
  kh_create :: "int + int"
  kh_eventfd :: "nat \<Rightarrow> int + int"
  kh_ctl :: "nat \<Rightarrow> ctl_op \<Rightarrow> int \<Rightarrow> int \<Rightarrow> int option"
  kh_wait :: "int \<Rightarrow> nat \<Rightarrow> int \<Rightarrow> int + (u32 \<times> u64) list"

text \<open>What a call does to the host: descriptors opened and closed, registrations, and pokes of event descriptors.\<close>

datatype kq_event = Fd fd_event | EpollCtl ctl_op int int u32 u64 | Poke int

definition fd_log :: "kq_event list \<Rightarrow> fd_event list" where
  "fd_log es = List.map_filter (\<lambda>e. case e of Fd f \<Rightarrow> Some f | _ \<Rightarrow> None) es"

abbreviation EVFILT_READ :: u16 where "EVFILT_READ \<equiv> - 1"
abbreviation EVFILT_WRITE :: u16 where "EVFILT_WRITE \<equiv> - 2"
abbreviation EVFILT_PROC :: u16 where "EVFILT_PROC \<equiv> - 5"
abbreviation NOTE_EXIT :: u32 where "NOTE_EXIT \<equiv> 0x80000000"
abbreviation EEXIST :: int where "EEXIST \<equiv> 17"
abbreviation EPOLLIN :: u32 where "EPOLLIN \<equiv> 1"
abbreviation EPOLLOUT :: u32 where "EPOLLOUT \<equiv> 4"
abbreviation EPOLLERR :: u32 where "EPOLLERR \<equiv> 8"
abbreviation EPOLLET :: u32 where "EPOLLET \<equiv> 0x80000000"

section \<open>Watches for the end of processes\<close>

record proc_watch =
  pw_kq :: int
  pw_eventfd :: int
  pw_pid :: u32
  pw_udata :: u32

abbreviation MAX_PROC_WATCH :: nat where "MAX_PROC_WATCH \<equiv> 64"

definition yos_kqueue_notify_exit :: "proc_watch list \<Rightarrow> u32 \<Rightarrow> kq_event list" where
  "yos_kqueue_notify_exit ws pd = map (\<lambda>w. Poke (pw_eventfd w)) (filter (\<lambda>w. pw_pid w = pd \<and> 0 < pw_eventfd w) ws)"

text \<open>The data of a registration: the low half of the guest's pointer, the filter and the identifier.\<close>

definition ke_tag :: "u32 \<Rightarrow> u16 \<Rightarrow> u32 \<Rightarrow> u64" where
  "ke_tag ident filt udata = push_bit 48 (ucast (udata AND 0xFFFF)) OR push_bit 32 (ucast filt) OR ucast ident"

definition proc_watch_add ::
  "kq_host \<Rightarrow> nat \<Rightarrow> proc_watch list \<Rightarrow> int \<Rightarrow> u32 \<Rightarrow> u32 \<Rightarrow> int \<times> proc_watch list \<times> kq_event list" where
  "proc_watch_add H i ws kq pd udata =
     (case find_index (\<lambda>w. pw_eventfd w < 0 \<or> pw_eventfd w = 0) ws of
        None \<Rightarrow> (- 1, ws, [])
      | Some j \<Rightarrow>
          (case kh_eventfd H i of
             Inl _ \<Rightarrow> (- 1, ws, [])
           | Inr efd \<Rightarrow>
               let reg = [Fd (Opened efd), EpollCtl EPOLL_CTL_ADD kq efd EPOLLIN (ke_tag pd EVFILT_PROC udata)] in
               if kh_ctl H i EPOLL_CTL_ADD kq efd \<noteq> None then (- 1, ws, reg @ [Fd (Closed efd)])
               else (0, ws[j := \<lparr> pw_kq = kq, pw_eventfd = efd, pw_pid = pd, pw_udata = udata \<rparr>], reg)))"

text \<open>Giving a slot back; its pointer stays behind.\<close>

definition proc_watch_free :: "int \<Rightarrow> nat \<Rightarrow> proc_watch list \<Rightarrow> proc_watch list \<times> kq_event list" where
  "proc_watch_free kq j ws =
     (ws[j := (ws ! j)\<lparr>pw_eventfd := - 1, pw_kq := - 1, pw_pid := 0\<rparr>],
      [EpollCtl EPOLL_CTL_DEL kq (pw_eventfd (ws ! j)) 0 0, Fd (Closed (pw_eventfd (ws ! j)))])"

definition watches :: "int \<Rightarrow> u32 \<Rightarrow> proc_watch \<Rightarrow> bool" where
  "watches kq pd w \<longleftrightarrow> pw_kq w = kq \<and> pw_pid w = pd \<and> 0 < pw_eventfd w"

definition proc_watch_remove :: "int \<Rightarrow> u32 \<Rightarrow> proc_watch list \<Rightarrow> proc_watch list \<times> kq_event list" where
  "proc_watch_remove kq pd ws =
     fold (\<lambda>j (ws, es). if watches kq pd (ws ! j) then (case proc_watch_free kq j ws of (ws', es') \<Rightarrow> (ws', es @ es')) else (ws, es))
       [0..<length ws] (ws, [])"

section \<open>Queues\<close>

text \<open>The three calls that make a queue ignore their flags.\<close>

definition m3_yos_kqueue :: "(int \<Rightarrow> int) \<Rightarrow> kq_host \<Rightarrow> yos_exec_ctx \<Rightarrow> fd_result" where
  "m3_yos_kqueue h2g H ctx =
     (case kh_create H of
        Inl e \<Rightarrow> (- 1, set_errno h2g ctx e, [])
      | Inr hfd \<Rightarrow>
          (case yos_fd_alloc ctx hfd of (wfd, c1, es) \<Rightarrow>
             if wfd < 0 then (- 1, set_errno h2g c1 EMFILE, Opened hfd # es @ [Closed hfd])
             else (wfd, c1, Opened hfd # es)))"

definition m3_yos_kqueue1 :: "(int \<Rightarrow> int) \<Rightarrow> kq_host \<Rightarrow> yos_exec_ctx \<Rightarrow> u32 \<Rightarrow> fd_result" where
  "m3_yos_kqueue1 h2g H ctx flags = m3_yos_kqueue h2g H ctx"

definition m3_yos_kqueuex :: "(int \<Rightarrow> int) \<Rightarrow> kq_host \<Rightarrow> yos_exec_ctx \<Rightarrow> u32 \<Rightarrow> fd_result" where
  "m3_yos_kqueuex h2g H ctx flags = m3_yos_kqueue h2g H ctx"

section \<open>Events\<close>

abbreviation KE_SZ :: nat where "KE_SZ \<equiv> 64"

definition ke_ident :: "mem \<Rightarrow> nat \<Rightarrow> u32" where "ke_ident m p = load32 m p"
definition ke_filter :: "mem \<Rightarrow> nat \<Rightarrow> u16" where "ke_filter m p = load16w m (p + 4)"
definition ke_flags :: "mem \<Rightarrow> nat \<Rightarrow> u16" where "ke_flags m p = load16w m (p + 6)"
definition ke_fflags :: "mem \<Rightarrow> nat \<Rightarrow> u32" where "ke_fflags m p = load32 m (p + 8)"
definition ke_udata :: "mem \<Rightarrow> nat \<Rightarrow> u32" where "ke_udata m p = load32 m (p + 24)"

text \<open>The operation a change asks for: add, delete, enable, disable, the first of them whose bit is set.\<close>

definition change_op :: "u16 \<Rightarrow> ctl_op option" where
  "change_op flags =
     (if flags AND 1 \<noteq> 0 then Some EPOLL_CTL_ADD else if flags AND 2 \<noteq> 0 then Some EPOLL_CTL_DEL
      else if flags AND 4 \<noteq> 0 then Some EPOLL_CTL_MOD else if flags AND 8 \<noteq> 0 then Some EPOLL_CTL_DEL else None)"

type_synonym kq_state = "yos_exec_ctx \<times> proc_watch list \<times> kq_event list"

definition change_fd :: "(int \<Rightarrow> int) \<Rightarrow> kq_host \<Rightarrow> int \<Rightarrow> nat \<Rightarrow> u32 \<Rightarrow> u16 \<Rightarrow> u16 \<Rightarrow> u32 \<Rightarrow> kq_state \<Rightarrow> kq_state" where
  "change_fd h2g H kq i ident filt flags udata s =
     (case s of (ctx, ws, es) \<Rightarrow>
        case yos_fd_get h2g ctx (sint ident) of (target_hfd, c1) \<Rightarrow>
          if target_hfd < 0 then (c1, ws, es)
          else
            let ev_mask = (if filt = EVFILT_READ then EPOLLIN else EPOLLOUT) OR (if flags AND 0x20 \<noteq> 0 then EPOLLET else 0);
                tag = ke_tag ident filt udata
            in case change_op flags of
                 None \<Rightarrow> (c1, ws, es)
               | Some op \<Rightarrow>
                   let es' = es @ [EpollCtl op kq target_hfd ev_mask tag] in
                   if kh_ctl H i op kq target_hfd = Some EEXIST \<and> op = EPOLL_CTL_ADD
                   then (c1, ws, es' @ [EpollCtl EPOLL_CTL_MOD kq target_hfd ev_mask tag])
                   else (c1, ws, es'))"

definition change_proc :: "kq_host \<Rightarrow> int \<Rightarrow> nat \<Rightarrow> u32 \<Rightarrow> u16 \<Rightarrow> u32 \<Rightarrow> kq_state \<Rightarrow> kq_state" where
  "change_proc H kq i ident flags udata s =
     (case s of (ctx, ws, es) \<Rightarrow>
        if flags AND 1 \<noteq> 0 then (case proc_watch_add H i ws kq ident udata of (_, ws', es') \<Rightarrow> (ctx, ws', es @ es'))
        else if flags AND (2 OR 8) \<noteq> 0 then (case proc_watch_remove kq ident ws of (ws', es') \<Rightarrow> (ctx, ws', es @ es'))
        else (ctx, ws, es))"

definition apply_change :: "(int \<Rightarrow> int) \<Rightarrow> kq_host \<Rightarrow> int \<Rightarrow> nat \<Rightarrow> nat \<Rightarrow> kq_state \<Rightarrow> kq_state" where
  "apply_change h2g H kq changelist i s =
     (let m = memory (fst s); ke = changelist + i * KE_SZ; filt = ke_filter m ke in
      if filt = EVFILT_READ \<or> filt = EVFILT_WRITE then change_fd h2g H kq i (ke_ident m ke) filt (ke_flags m ke) (ke_udata m ke) s
      else if filt = EVFILT_PROC then change_proc H kq i (ke_ident m ke) (ke_flags m ke) (ke_udata m ke) s
      else s)"

definition apply_changes :: "(int \<Rightarrow> int) \<Rightarrow> kq_host \<Rightarrow> int \<Rightarrow> nat \<Rightarrow> nat \<Rightarrow> kq_state \<Rightarrow> kq_state" where
  "apply_changes h2g H kq changelist n s = fold (apply_change h2g H kq changelist) [0..<n] s"

text \<open>Marshalling one ready event; a watch of a process fires once and is given back.\<close>

definition event_udata :: "int \<Rightarrow> u64 \<Rightarrow> proc_watch list \<Rightarrow> u32 \<times> u32 \<times> proc_watch list \<times> kq_event list" where
  "event_udata kq tag ws =
     (if (ucast (drop_bit 32 tag) :: u16) = EVFILT_PROC then
        (case find_index (watches kq (ucast tag)) ws of
           None \<Rightarrow> (ucast (drop_bit 48 tag), NOTE_EXIT, ws, [])
         | Some j \<Rightarrow> (pw_udata (ws ! j), NOTE_EXIT, proc_watch_free kq j ws))
      else (ucast (drop_bit 48 tag), 0, ws, []))"

definition put_kevent :: "mem \<Rightarrow> nat \<Rightarrow> u32 \<Rightarrow> u64 \<Rightarrow> u32 \<Rightarrow> u32 \<Rightarrow> mem" where
  "put_kevent m ke events tag udata fflags_out =
     (let m0 = mem_fill m ke 0 KE_SZ;
          m1 = store16 (store32 m0 ke (ucast tag)) (ke + 4) (ucast (drop_bit 32 tag));
          m2 = store32 (store16 m1 (ke + 6) (if events AND EPOLLERR \<noteq> 0 then 0x4000 else 0)) (ke + 8) fflags_out
      in store32 (store64 m2 (ke + 16) 0) (ke + 24) udata)"

fun put_kevents :: "int \<Rightarrow> nat \<Rightarrow> (u32 \<times> u64) list \<Rightarrow> mem \<Rightarrow> proc_watch list \<Rightarrow> mem \<times> proc_watch list \<times> kq_event list" where
  "put_kevents kq ke [] m ws = (m, ws, [])"
| "put_kevents kq ke ((events, tag) # evs) m ws =
     (case event_udata kq tag ws of (udata, fflags, ws1, es1) \<Rightarrow>
        case put_kevents kq (ke + KE_SZ) evs (put_kevent m ke events tag udata fflags) ws1 of (m', ws2, es2) \<Rightarrow> (m', ws2, es1 @ es2))"

text \<open>
  The time to wait in milliseconds; \<open>-1\<close> waits for ever.  The product of the seconds is taken not to overflow 64 bits.
\<close>

definition kevent_timeout :: "mem \<Rightarrow> nat \<Rightarrow> int" where
  "kevent_timeout m a =
     (let tv_sec = sint (load64 m a); tv_nsec = sint (load32 m (a + 8)); ms = tv_sec * 1000 + tv_nsec sdiv 1000000 in
      if tv_sec = 0 \<and> tv_nsec = 0 then 0 else if ms < 0 then 0 else if 0x7FFFFFFF < ms then 0x7FFFFFFF else ms)"

definition m3_yos_kevent ::
  "(int \<Rightarrow> int) \<Rightarrow> kq_host \<Rightarrow> yos_exec_ctx \<Rightarrow> proc_watch list \<Rightarrow> int \<Rightarrow> u32 \<Rightarrow> int \<Rightarrow> u32 \<Rightarrow> int \<Rightarrow> u32 \<Rightarrow> int \<times> kq_state" where
  "m3_yos_kevent h2g H ctx ws kq_wfd changelist nchanges eventlist nevents timeout_off =
     (let msz = unat (memory_size ctx); fail = (\<lambda>c ws es e. (- 1, set_errno h2g c e, ws, es)) in
      case yos_fd_get h2g ctx kq_wfd of (kq, c0) \<Rightarrow>
        if kq < 0 then fail c0 ws [] EBADF
        else if nchanges < 0 \<or> nevents < 0 then fail c0 ws [] EINVAL
        else if 0 < nchanges \<and> (changelist = 0 \<or> msz < unat changelist + nat nchanges * KE_SZ) then fail c0 ws [] EFAULT
        else if 0 < nevents \<and> (eventlist = 0 \<or> msz < unat eventlist + nat nevents * KE_SZ) then fail c0 ws [] EFAULT
        else
          (case apply_changes h2g H kq (unat changelist) (nat nchanges) (c0, ws, []) of (c1, ws1, es1) \<Rightarrow>
             if nevents \<le> 0 then (0, c1, ws1, es1)
             else if timeout_off \<noteq> 0 \<and> msz < unat timeout_off + 12 then fail c1 ws1 es1 EFAULT
             else
               let timeout_ms = (if timeout_off = 0 then - 1 else kevent_timeout (memory c1) (unat timeout_off)) in
               (case kh_wait H kq (nat (if 256 < nevents then 256 else nevents)) timeout_ms of
                  Inl e \<Rightarrow> fail c1 ws1 es1 e
                | Inr evs \<Rightarrow>
                    (case put_kevents kq (unat eventlist) evs (memory c1) ws1 of (m, ws2, es2) \<Rightarrow>
                       (int (length evs), c1\<lparr>memory := m\<rparr>, ws2, es1 @ es2)))))"

end
