(* ===== verification/KqueueProps.thy ===== *)
theory KqueueProps
  imports Kqueue FifoProps Poll
begin

text \<open>
  Event queues report what the host reports, and the event descriptors behind the watches of processes are closed once, by the table
  that opened them.
\<close>

section \<open>The table owns its descriptors\<close>

definition watches_owned :: "proc_watch list \<Rightarrow> int set \<Rightarrow> bool" where
  "watches_owned ws O1 \<longleftrightarrow> (\<forall>i<length ws. 0 < pw_eventfd (ws ! i) \<longrightarrow> pw_eventfd (ws ! i) \<in> O1 \<and>
     (\<forall>j<length ws. pw_eventfd (ws ! i) = pw_eventfd (ws ! j) \<longrightarrow> i = j))"

definition kq_ok :: "int set \<Rightarrow> kq_event list \<Rightarrow> proc_watch list \<Rightarrow> bool" where
  "kq_ok O1 es ws \<longleftrightarrow> closes_ok (fd_log es) O1 \<and> watches_owned ws (replay (fd_log es) O1)"

lemma fd_log_simps [simp]:
  "fd_log [] = []" "fd_log (Fd f # es) = f # fd_log es" "fd_log (EpollCtl a b c d e # es) = fd_log es" "fd_log (Poke h # es) = fd_log es"
  "fd_log (es @ es') = fd_log es @ fd_log es'"
  by (simp_all add: fd_log_def map_filter_def)

lemma watches_ownedD:
  "watches_owned ws O1 \<Longrightarrow> i < length ws \<Longrightarrow> 0 < pw_eventfd (ws ! i) \<Longrightarrow> pw_eventfd (ws ! i) \<in> O1"
  "watches_owned ws O1 \<Longrightarrow> i < length ws \<Longrightarrow> j < length ws \<Longrightarrow> 0 < pw_eventfd (ws ! i) \<Longrightarrow> pw_eventfd (ws ! i) = pw_eventfd (ws ! j) \<Longrightarrow> i = j"
  unfolding watches_owned_def by blast+

lemma free_ok:
  assumes "kq_ok O1 es ws" and "j < length ws" and "0 < pw_eventfd (ws ! j)" and "proc_watch_free kq j ws = (ws', es')"
  shows "kq_ok O1 (es @ es') ws'" and "length ws' = length ws"
proof -
  let ?O = "replay (fd_log es) O1"
  have o: "watches_owned ws ?O" and c: "closes_ok (fd_log es) O1" using assms(1) by (simp_all add: kq_ok_def)
  have ws': "ws' = ws[j := (ws ! j)\<lparr>pw_eventfd := - 1, pw_kq := - 1, pw_pid := 0\<rparr>]" and es': "fd_log es' = [Closed (pw_eventfd (ws ! j))]"
    using assms(4) by (auto simp: proc_watch_free_def)
  show "length ws' = length ws" by (simp add: ws')
  have "watches_owned ws' (?O - {pw_eventfd (ws ! j)})"
    unfolding watches_owned_def
  proof (intro allI impI)
    fix i assume i: "i < length ws'" "0 < pw_eventfd (ws' ! i)"
    then have ij: "i \<noteq> j" "i < length ws" using assms(2) by (auto simp: ws')
    then have "pw_eventfd (ws' ! i) = pw_eventfd (ws ! i)" by (simp add: ws')
    note ij = ij this
    then have "pw_eventfd (ws ! i) \<in> ?O" "pw_eventfd (ws ! i) \<noteq> pw_eventfd (ws ! j)"
      using watches_ownedD [OF o] i assms(2) by (simp, metis)
    moreover have "i = k" if "k < length ws'" "pw_eventfd (ws' ! i) = pw_eventfd (ws' ! k)" for k
      using watches_ownedD(2) [OF o ij(2), of k] that ij i by (cases "k = j") (auto simp: ws')
    ultimately show "pw_eventfd (ws' ! i) \<in> ?O - {pw_eventfd (ws ! j)} \<and> (\<forall>k<length ws'. pw_eventfd (ws' ! i) = pw_eventfd (ws' ! k) \<longrightarrow> i = k)"
      using ij by auto
  qed
  then show "kq_ok O1 (es @ es') ws'"
    using c watches_ownedD(1) [OF o assms(2,3)] by (simp add: kq_ok_def es' closes_ok_append replay_append)
qed

lemma remove_ok:
  assumes "kq_ok O1 es ws" and "proc_watch_remove kq pd ws = (ws', es')"
  shows "kq_ok O1 (es @ es') ws'"
proof -
  let ?F = "\<lambda>j (ws, es). if watches kq pd (ws ! j) then (case proc_watch_free kq j ws of (ws', es') \<Rightarrow> (ws', es @ es')) else (ws, es)"
  have "kq_ok O1 (es @ snd (fold ?F js (ws, fs))) (fst (fold ?F js (ws, fs)))"
    if "kq_ok O1 (es @ fs) ws" "set js \<subseteq> {..<length ws}" for js ws fs
    using that
  proof (induction js arbitrary: ws fs)
    case (Cons j js)
    show ?case
    proof (cases "watches kq pd (ws ! j)")
      case True
      obtain ws1 es1 where f: "proc_watch_free kq j ws = (ws1, es1)" by (cases "proc_watch_free kq j ws")
      have "kq_ok O1 ((es @ fs) @ es1) ws1" "length ws1 = length ws"
        using free_ok [OF Cons.prems(1) _ _ f] Cons.prems(2) True by (simp_all add: watches_def)
      then show ?thesis using Cons.IH [of "fs @ es1" ws1] Cons.prems(2) True f by simp
    next
      case False
      then show ?thesis using Cons by simp
    qed
  qed simp
  from this [of "[]" ws "[0..<length ws]"] show ?thesis using assms by (simp add: proc_watch_remove_def atLeast0LessThan)
qed

lemma add_ok:
  assumes "kq_ok O1 es ws" and "proc_watch_add H i ws kq pd udata = (r, ws', es')" and "fresh_opens (fd_log (es @ es')) O1"
  shows "kq_ok O1 (es @ es') ws'"
proof -
  let ?O = "replay (fd_log es) O1"
  have o: "watches_owned ws ?O" and c: "closes_ok (fd_log es) O1" using assms(1) by (simp_all add: kq_ok_def)
  consider "ws' = ws" "fd_log es' = []" | efd where "ws' = ws" "fd_log es' = [Opened efd, Closed efd]"
    | j efd where "j < length ws" "ws' = ws[j := \<lparr> pw_kq = kq, pw_eventfd = efd, pw_pid = pd, pw_udata = udata \<rparr>]" "fd_log es' = [Opened efd]"
  proof (cases "find_index (\<lambda>w. pw_eventfd w < 0 \<or> pw_eventfd w = 0) ws")
    case None
    then show ?thesis using assms(2) that(1) by (simp add: proc_watch_add_def)
  next
    case (Some j)
    then have j: "j < length ws" by (simp add: find_index_Some)
    show ?thesis
    proof (cases "kh_eventfd H i")
      case (Inl e)
      then show ?thesis using assms(2) Some that(1) by (simp add: proc_watch_add_def)
    next
      case (Inr efd)
      then show ?thesis using assms(2) Some that(2) that(3) [OF j] by (cases "kh_ctl H i EPOLL_CTL_ADD kq efd") (auto simp: proc_watch_add_def)
    qed
  qed
  then show ?thesis
  proof cases
    case 1
    then show ?thesis using assms(1) by (simp add: kq_ok_def)
  next
    case 2
    then have "efd \<notin> ?O" using assms(3) by (simp add: fresh_opens_append)
    then show ?thesis using 2 o c by (simp add: kq_ok_def closes_ok_append replay_append)
  next
    case 3
    then have f: "efd \<notin> ?O" using assms(3) by (simp add: fresh_opens_append)
    have "pw_eventfd (ws ! k) \<noteq> efd" if "k < length ws" "0 < pw_eventfd (ws ! k)" for k using watches_ownedD(1) [OF o that] f by auto
    then have "watches_owned ws' (insert efd ?O)"
      using watches_ownedD [OF o] 3(1,2) unfolding watches_owned_def by (auto simp: nth_list_update split: if_splits)
    then show ?thesis using 3 c by (simp add: kq_ok_def closes_ok_append replay_append)
  qed
qed

section \<open>Changes\<close>

lemma change_fd_run:
  assumes "change_fd h2g H kq i ident filt flags udata (c, ws, es) = (c', ws', es')"
  shows "ws' = ws" and "\<exists>d. es' = es @ d \<and> fd_log d = []" and "errno_only c c'"
proof -
  obtain t c1 where g: "yos_fd_get h2g c (sint ident) = (t, c1)" by force
  note run = assms [unfolded change_fd_def prod.case g Let_def]
  have "ws' = ws \<and> c' = c1 \<and> (\<exists>d. es' = es @ d \<and> fd_log d = [])"
  proof (cases "t < 0 \<or> change_op flags = None")
    case True
    then show ?thesis using run by (auto split: if_splits)
  next
    case False
    then obtain op where "change_op flags = Some op" "\<not> t < 0" by auto
    then show ?thesis using run by (auto split: if_splits)
  qed
  then show "ws' = ws" "\<exists>d. es' = es @ d \<and> fd_log d = []" "errno_only c c'" using errno_only_fd_get [OF g] by simp_all
qed

lemma apply_change_run:
  assumes "apply_change h2g H kq cl i (c, ws, es) = (c', ws', es')"
  shows "(\<exists>d. es' = es @ d) \<and> errno_only c c' \<and> (kq_ok O1 es ws \<longrightarrow> fresh_opens (fd_log es') O1 \<longrightarrow> kq_ok O1 es' ws')"
proof -
  let ?ke = "cl + i * KE_SZ"
  let ?m = "memory c"
  consider (fd) "change_fd h2g H kq i (ke_ident ?m ?ke) (ke_filter ?m ?ke) (ke_flags ?m ?ke) (ke_udata ?m ?ke) (c, ws, es) = (c', ws', es')"
    | (pr) "change_proc H kq i (ke_ident ?m ?ke) (ke_flags ?m ?ke) (ke_udata ?m ?ke) (c, ws, es) = (c', ws', es')"
    | (no) "c' = c" "ws' = ws" "es' = es"
    using assms unfolding apply_change_def Let_def fst_conv by (metis prod.inject)
  then show ?thesis
  proof cases
    case fd
    note r = change_fd_run [OF fd]
    then obtain d where "es' = es @ d" "fd_log d = []" by blast
    then show ?thesis using r(1,3) by (auto simp: kq_ok_def)
  next
    case pr
    obtain r ws1 es1 where a: "proc_watch_add H i ws kq (ke_ident ?m ?ke) (ke_udata ?m ?ke) = (r, ws1, es1)" by (metis surj_pair)
    obtain ws2 es2 where rm: "proc_watch_remove kq (ke_ident ?m ?ke) ws = (ws2, es2)" by force
    consider "c' = c" "ws' = ws1" "es' = es @ es1" | "c' = c" "ws' = ws2" "es' = es @ es2" | "c' = c" "ws' = ws" "es' = es"
      using pr unfolding change_proc_def prod.case a rm by (metis prod.inject)
    then show ?thesis using add_ok [OF _ a, of O1 es] remove_ok [OF _ rm, of O1 es] by cases simp_all
  qed simp
qed

lemma apply_changes_run:
  assumes "apply_changes h2g H kq cl n (c, ws, es) = (c', ws', es')"
  shows "errno_only c c' \<and> (kq_ok O1 es ws \<longrightarrow> fresh_opens (fd_log es') O1 \<longrightarrow> kq_ok O1 es' ws')"
  using assms
proof (induction n arbitrary: c' ws' es')
  case 0
  then show ?case by (simp add: apply_changes_def)
next
  case (Suc n)
  obtain c1 ws1 es1 where s: "apply_changes h2g H kq cl n (c, ws, es) = (c1, ws1, es1)" by (metis surj_pair)
  then have a: "apply_change h2g H kq cl n (c1, ws1, es1) = (c', ws', es')" using Suc.prems by (simp add: apply_changes_def)
  note r = apply_change_run [OF a, of O1]
  then obtain d where "es' = es1 @ d" by blast
  then have "fresh_opens (fd_log es') O1 \<Longrightarrow> fresh_opens (fd_log es1) O1" by (simp add: fresh_opens_append)
  then show ?case using Suc.IH [OF s] r errno_only_trans by blast
qed

section \<open>Reported events\<close>

lemma tag_fields:
  "ucast (ke_tag ident filt udata) = ident" "ucast (drop_bit 32 (ke_tag ident filt udata)) = filt"
  "ucast (drop_bit 48 (ke_tag ident filt udata)) = udata AND 0xFFFF"
proof -
  have m: "udata AND 0xFFFF = udata AND mask 16" by (simp add: mask_eq_exp_minus_1)
  show "ucast (ke_tag ident filt udata) = ident" "ucast (drop_bit 32 (ke_tag ident filt udata)) = filt"
    "ucast (drop_bit 48 (ke_tag ident filt udata)) = udata AND 0xFFFF"
    unfolding ke_tag_def m by (rule bit_word_eqI; auto simp: bit_simps dest: bit_imp_le_length)+
qed

definition kevent_at :: "mem \<Rightarrow> nat \<Rightarrow> u32 \<Rightarrow> u64 \<Rightarrow> bool" where
  "kevent_at m ke events tag \<longleftrightarrow> ke_ident m ke = ucast tag \<and> ke_filter m ke = ucast (drop_bit 32 tag) \<and>
     ke_flags m ke = (if events AND EPOLLERR \<noteq> 0 then 0x4000 else 0) \<and>
     ke_fflags m ke = (if (ucast (drop_bit 32 tag) :: u16) = EVFILT_PROC then NOTE_EXIT else 0)"

lemma ke_fields_cong:
  assumes "\<And>i. i < KE_SZ \<Longrightarrow> m' (ke + i) = m (ke + i)"
  shows "ke_ident m' ke = ke_ident m ke" "ke_filter m' ke = ke_filter m ke" "ke_flags m' ke = ke_flags m ke" "ke_fflags m' ke = ke_fflags m ke"
    "ke_udata m' ke = ke_udata m ke"
proof -
  have "m' a = m a" if "ke \<le> a" "a < ke + 64" for a using assms [of "a - ke"] that by simp
  then show "ke_ident m' ke = ke_ident m ke" "ke_filter m' ke = ke_filter m ke" "ke_flags m' ke = ke_flags m ke" "ke_fflags m' ke = ke_fflags m ke"
    "ke_udata m' ke = ke_udata m ke"
    unfolding ke_ident_def ke_filter_def ke_flags_def ke_fflags_def ke_udata_def
    by (auto intro!: load32_cong load16w_cong)
qed

lemma put_kevent_fields:
  "ke_ident (put_kevent m ke ev tag u f) ke = ucast tag" "ke_filter (put_kevent m ke ev tag u f) ke = ucast (drop_bit 32 tag)"
  "ke_flags (put_kevent m ke ev tag u f) ke = (if ev AND EPOLLERR \<noteq> 0 then 0x4000 else 0)" "ke_fflags (put_kevent m ke ev tag u f) ke = f"
  "ke_udata (put_kevent m ke ev tag u f) ke = u"
proof -
  let ?m0 = "store32 (mem_fill m ke 0 KE_SZ) ke (ucast tag)"
  let ?m1 = "store16 ?m0 (ke + 4) (ucast (drop_bit 32 tag))" and ?fl = "if ev AND EPOLLERR \<noteq> 0 then 0x4000 else 0 :: u16"
  let ?m2 = "store16 ?m1 (ke + 6) ?fl"
  let ?m3 = "store32 ?m2 (ke + 8) f"
  have p: "put_kevent m ke ev tag u f = store32 (store64 ?m3 (ke + 16) 0) (ke + 24) u" by (simp add: put_kevent_def Let_def)
  have "ke_ident (put_kevent m ke ev tag u f) ke = load32 ?m0 ke"
    unfolding p ke_ident_def by (rule load32_cong) (simp add: store32_other store64_out store16_def)
  then show "ke_ident (put_kevent m ke ev tag u f) ke = ucast tag" by simp
  have "ke_filter (put_kevent m ke ev tag u f) ke = load16w ?m1 (ke + 4)"
    unfolding p ke_filter_def by (rule load16w_cong) (simp_all add: store32_other store64_out store16_def)
  then show "ke_filter (put_kevent m ke ev tag u f) ke = ucast (drop_bit 32 tag)" by (simp add: load16_store16w)
  have "ke_flags (put_kevent m ke ev tag u f) ke = load16w ?m2 (ke + 6)"
    unfolding p ke_flags_def by (rule load16w_cong) (simp_all add: store32_other store64_out)
  then show "ke_flags (put_kevent m ke ev tag u f) ke = ?fl" by (simp add: load16_store16w)
  have "ke_fflags (put_kevent m ke ev tag u f) ke = load32 ?m3 (ke + 8)"
    unfolding p ke_fflags_def by (rule load32_cong) (simp add: store32_other store64_out)
  then show "ke_fflags (put_kevent m ke ev tag u f) ke = f" by simp
  show "ke_udata (put_kevent m ke ev tag u f) ke = u" unfolding p ke_udata_def by simp
qed

lemma put_kevent_out: "j < ke \<or> ke + KE_SZ \<le> j \<Longrightarrow> put_kevent m ke ev tag u f j = m j"
  by (auto simp: put_kevent_def Let_def store32_other store64_out store16_def mem_fill_def)

lemma event_udata_cases:
  assumes "event_udata kq tag ws = (u, fl, ws', es')"
  shows "fl = (if (ucast (drop_bit 32 tag) :: u16) = EVFILT_PROC then NOTE_EXIT else 0)" and "kq_ok O1 es ws \<Longrightarrow> kq_ok O1 (es @ es') ws'"
proof -
  show "fl = (if (ucast (drop_bit 32 tag) :: u16) = EVFILT_PROC then NOTE_EXIT else 0)"
    using assms by (simp add: event_udata_def proc_watch_free_def split: if_splits option.splits)
  show "kq_ok O1 (es @ es') ws'" if ok: "kq_ok O1 es ws"
  proof (cases "(ucast (drop_bit 32 tag) :: u16) = EVFILT_PROC \<and> find_index (watches kq (ucast tag)) ws \<noteq> None")
    case True
    then obtain j where j: "find_index (watches kq (ucast tag)) ws = Some j" by blast
    then have f: "proc_watch_free kq j ws = (ws', es')" using assms True by (simp add: event_udata_def proc_watch_free_def)
    have "j < length ws" "0 < pw_eventfd (ws ! j)" using j by (simp_all add: find_index_Some watches_def)
    then show ?thesis by (rule free_ok(1) [OF ok _ _ f])
  next
    case False
    then have "ws' = ws" "es' = []" using assms by (auto simp: event_udata_def split: if_splits)
    then show ?thesis using ok by simp
  qed
qed

lemma put_kevents_run:
  assumes "put_kevents kq ke evs m ws = (m', ws', es')"
  shows "(\<forall>i<length evs. kevent_at m' (ke + i * KE_SZ) (fst (evs ! i)) (snd (evs ! i))) \<and>
    (\<forall>j. j < ke \<or> ke + length evs * KE_SZ \<le> j \<longrightarrow> m' j = m j) \<and> (kq_ok O1 es ws \<longrightarrow> kq_ok O1 (es @ es') ws')"
  using assms
proof (induction evs arbitrary: ke m ws m' ws' es' es)
  case (Cons e evs)
  obtain ev tag where e: "e = (ev, tag)" by force
  obtain u fl ws1 es1 where d: "event_udata kq tag ws = (u, fl, ws1, es1)" by (metis surj_pair)
  obtain m2 ws2 es2 where r: "put_kevents kq (ke + KE_SZ) evs (put_kevent m ke ev tag u fl) ws1 = (m2, ws2, es2)" by (metis surj_pair)
  have f: "m' = m2" "ws' = ws2" "es' = es1 @ es2" using Cons.prems e d r by simp_all
  note d' = event_udata_cases(1) [OF d] event_udata_cases(2) [OF d, of O1 es]
  note IH = Cons.IH [OF r, of "es @ es1"]
  have out: "m' j = put_kevent m ke ev tag u fl j" if "j < ke + KE_SZ \<or> ke + KE_SZ + length evs * KE_SZ \<le> j" for j
    using IH that f(1) by blast
  have "kevent_at m' ke ev tag"
    using ke_fields_cong [of m' ke "put_kevent m ke ev tag u fl"] out by (simp add: kevent_at_def put_kevent_fields d'(1))
  then have "kevent_at m' (ke + i * KE_SZ) (fst ((e # evs) ! i)) (snd ((e # evs) ! i))" if "i < length (e # evs)" for i
    using that IH f(1) e by (cases i) (simp_all add: ac_simps)
  moreover have "m' j = m j" if "j < ke \<or> ke + length (e # evs) * KE_SZ \<le> j" for j
    using out [of j] put_kevent_out [of j ke m ev tag u fl] that by auto
  moreover have "kq_ok O1 es ws \<longrightarrow> kq_ok O1 (es @ es') ws'" using IH d'(2) f by simp
  ultimately show ?case by blast
qed simp

lemma kevent_timeout_clamped:
  "kevent_timeout m a = max 0 (min 0x7FFFFFFF (sint (load64 m a) * 1000 + sint (load32 m (a + 8)) sdiv 1000000))"
  by (simp add: kevent_timeout_def Let_def)

lemma kevent_timeout_cong:
  assumes "\<And>j. a \<le> j \<Longrightarrow> j < a + 12 \<Longrightarrow> m' j = m j"
  shows "kevent_timeout m' a = kevent_timeout m a"
proof -
  have "load64 m' a = load64 m a" "load32 m' (a + 8) = load32 m (a + 8)"
    using assms by (simp_all add: load64_def load32_def)
  then show ?thesis by (simp add: kevent_timeout_def)
qed

lemma yos_fd_get_host: "yos_fd_get h2g c w = (h, c') \<Longrightarrow> 0 \<le> h \<Longrightarrow> 0 \<le> w \<and> w < 256 \<and> h = fd_map c ! nat w \<and> c' = c"
  by (auto simp: yos_fd_get_def yos_errno_neg_def Let_def split: if_splits)


section \<open>The end of a process\<close>

lemma exit_pid_kept:
  assumes "length (procs rt) = YOS_MAX_PROCS" and "proc_slot (ctxs rt me) = Some k" and "k < YOS_MAX_PROCS"
  shows "pid (procs (yos_exit pk strerr nd rt me code) ! k) = pid (procs rt ! k)"
proof -
  obtain ps where ps: "map core ps = map core (procs rt)" "k < length ps"
    "procs (yos_exit pk strerr nd rt me code) ! k =
       auto_reap (was_orphaned (procs rt ! k) \<or> ignores_chld rt (ppid (procs rt ! k))) (mark_zombie code (ps ! k))"
    using exit_nth [OF assms assms(3), of pk strerr nd code] by auto
  then show ?thesis using core_nth(1) [OF ps(1,2)] by (simp add: auto_reap_def)
qed

text \<open>A forked child's exit ends with the notice for the watchers, under its own process id, and the end of its host thread.\<close>

lemma exit_notifies:
  assumes "length (procs rt) = YOS_MAX_PROCS" and "proc_slot (ctxs rt me) = Some k" and "k < YOS_MAX_PROCS" and "is_child (ctxs rt me)"
  shows "\<exists>es. host_log (yos_exit pk strerr nd rt me code) = es @ [HKqueueNotifyExit (pid (procs rt ! k)), HPthreadExit code]"
proof -
  note kept = exit_pid_kept [OF assms(1-3), of pk strerr nd code]
  have "\<exists>rt'. yos_exit pk strerr nd rt me code =
      log_host rt' ([HFflushAll] @ [HKqueueNotifyExit (pid (procs rt' ! k))] @ [HPthreadExit code])"
    unfolding yos_exit_def Let_def assms(2) option.case if_P [OF assms(4)] by (rule exI) (rule refl)
  with kept show ?thesis by (auto simp: log_host_def)
qed

text \<open>
  Claim C33: the life of a watch.  Take a queue that does not watch a process yet, a successful addition of a watch whose event
  descriptor is above 0 and was not open.  The event descriptor is registered with the queue under the process and the low half of
  the guest's pointer.  When the process, a forked child, calls \<^verbatim>\<open>exit\<close>, its last act before its host thread ends is the notice to the
  watchers of its id, and that notice pokes the event descriptor (an end by a signal sends no notice: \<open>signal_death_unannounced\<close>).
  When the registration is reported, the event names the process and the end of a process and carries the guest's pointer in full,
  although the registration keeps only half of it; the event descriptor is closed, once, the slot is free again, and the open
  descriptors are those from before.
\<close>

theorem proc_watch_lifecycle:
  assumes "watches_owned ws O1" and "\<forall>w\<in>set ws. \<not> watches kq pd w" and "proc_watch_add H i ws kq pd udata = (0, ws1, es1)"
    and "fresh_opens (fd_log es1) O1" and "kh_eventfd H i = Inr efd" and "0 < efd"
    and child: "length (procs rt) = YOS_MAX_PROCS" "proc_slot (ctxs rt me) = Some k" "k < YOS_MAX_PROCS" "is_child (ctxs rt me)"
    and pd: "word_of_int (pid (procs rt ! k)) = pd"
  shows "EpollCtl EPOLL_CTL_ADD kq efd EPOLLIN (ke_tag pd EVFILT_PROC udata) \<in> set es1 \<and>
    (\<exists>es n. host_log (yos_exit pk strerr nd rt me code) = es @ [HKqueueNotifyExit n, HPthreadExit code] \<and>
      Poke efd \<in> set (yos_kqueue_notify_exit ws1 (word_of_int n))) \<and>
    (\<exists>m' ws2 es2. put_kevents kq ke [(EPOLLIN, ke_tag pd EVFILT_PROC udata)] m ws1 = (m', ws2, es2) \<and>
      ke_ident m' ke = pd \<and> ke_filter m' ke = EVFILT_PROC \<and> ke_fflags m' ke = NOTE_EXIT \<and> ke_udata m' ke = udata \<and>
      fd_log es2 = [Closed efd] \<and> closes_ok (fd_log (es1 @ es2)) O1 \<and> replay (fd_log (es1 @ es2)) O1 = O1 \<and>
      watches_owned ws2 O1 \<and> (\<forall>w\<in>set ws2. \<not> watches kq pd w))"
proof -
  let ?w = "\<lparr> pw_kq = kq, pw_eventfd = efd, pw_pid = pd, pw_udata = udata \<rparr>" and ?tag = "ke_tag pd EVFILT_PROC udata"
  obtain j where j: "find_index (\<lambda>w. pw_eventfd w < 0 \<or> pw_eventfd w = 0) ws = Some j"
    using assms(3) by (cases "find_index (\<lambda>w. pw_eventfd w < 0 \<or> pw_eventfd w = 0) ws") (simp_all add: proc_watch_add_def)
  have "kh_ctl H i EPOLL_CTL_ADD kq efd = None" using assms(3,5) j by (cases "kh_ctl H i EPOLL_CTL_ADD kq efd") (simp_all add: proc_watch_add_def)
  then have ws1: "ws1 = ws[j := ?w]" and l1: "fd_log es1 = [Opened efd]"
    and reg: "EpollCtl EPOLL_CTL_ADD kq efd EPOLLIN ?tag \<in> set es1" using assms(3,5) j by (auto simp: proc_watch_add_def)
  have jl: "j < length ws" using j by (simp add: find_index_Some)
  have nw: "\<not> watches kq pd (ws ! k)" if "k < length ws" for k using assms(2) that by simp
  have fi: "find_index (watches kq pd) ws1 = Some j"
    unfolding find_index_Some using jl nw by (simp add: ws1 watches_def assms(6))
  obtain ws2 es2 where f: "proc_watch_free kq j ws1 = (ws2, es2)" by force
  have l2: "fd_log es2 = [Closed efd]" and ws2: "ws2 = ws[j := ?w\<lparr>pw_eventfd := - 1, pw_kq := - 1, pw_pid := 0\<rparr>]"
    using f jl by (auto simp: proc_watch_free_def ws1)
  have ev: "event_udata kq ?tag ws1 = (udata, NOTE_EXIT, ws2, es2)"
    using fi f jl by (simp add: event_udata_def tag_fields ws1)
  have k1: "kq_ok O1 es1 ws1" using add_ok [of O1 "[]" ws, OF _ assms(3)] assms(1,4) by (simp add: kq_ok_def)
  have fr: "efd \<notin> O1" using assms(4) l1 by simp
  have "kq_ok O1 (es1 @ es2) ws2" using free_ok(1) [OF k1 _ _ f] jl assms(6) by (simp add: ws1)
  then have ok: "closes_ok (fd_log (es1 @ es2)) O1" "replay (fd_log (es1 @ es2)) O1 = O1" "watches_owned ws2 O1"
    using l1 l2 fr by (simp_all add: kq_ok_def)
  have "\<not> watches kq pd (ws2 ! k)" if "k < length ws2" for k using that nw [of k] jl by (cases "k = j") (simp_all add: ws2 watches_def)
  then have gone: "\<forall>w\<in>set ws2. \<not> watches kq pd w" by (auto simp: in_set_conv_nth)
  have "?w \<in> set ws1" using jl by (simp add: ws1 set_update_memI)
  then have "Poke efd \<in> set (yos_kqueue_notify_exit ws1 (word_of_int (pid (procs rt ! k))))" using assms(6) pd by (force simp: yos_kqueue_notify_exit_def)
  moreover have "put_kevents kq ke [(EPOLLIN, ?tag)] m ws1 = (put_kevent m ke EPOLLIN ?tag udata NOTE_EXIT, ws2, es2)" using ev by simp
  ultimately show ?thesis using exit_notifies [OF child, of pk strerr nd code] reg ok gone l2 by (fastforce simp: put_kevent_fields tag_fields)
qed

section \<open>Where it differs from event queues\<close>

text \<open>A full descriptor table: the epoll descriptor is closed by the table and once more by the caller.\<close>

lemma kqueue_full_table_closes_twice:
  assumes "kh_create H = Inr hfd" and "0 \<le> hfd" and "find_index (\<lambda>h. h = - 1) (take YOS_FD_MAX (fd_map c)) = None"
  shows "snd (snd (m3_yos_kqueue h2g H c)) = [Opened hfd, Closed hfd, Closed hfd]"
  using assms by (simp add: m3_yos_kqueue_def yos_fd_alloc_def)

text \<open>Interest in writing replaces interest in reading the same descriptor: the host holds one registration of a descriptor.\<close>

lemma write_interest_replaces_read:
  assumes "yos_fd_get h2g c (sint ident) = (h, c)" and "0 \<le> h" and "kh_ctl H i EPOLL_CTL_ADD kq h = Some EEXIST"
  shows "change_fd h2g H kq i ident EVFILT_WRITE 1 udata (c, ws, []) = (c, ws, [EpollCtl EPOLL_CTL_ADD kq h EPOLLOUT (ke_tag ident EVFILT_WRITE udata),
    EpollCtl EPOLL_CTL_MOD kq h EPOLLOUT (ke_tag ident EVFILT_WRITE udata)])"
  using assms by (simp add: change_fd_def change_op_def Let_def)

text \<open>For descriptors half of the guest's pointer is lost.\<close>

lemma udata_truncated: "fst (event_udata kq (ke_tag ident EVFILT_READ udata) ws) = udata AND 0xFFFF"
  by (simp add: event_udata_def tag_fields)

section \<open>Concrete queues\<close>

definition demo_kq_host :: kq_host where
  "demo_kq_host = \<lparr> kh_create = Inr 9, kh_eventfd = (\<lambda>_. Inr 10), kh_ctl = (\<lambda>_ _ _ _. None),
     kh_wait = (\<lambda>_ n _. Inr (take n [(EPOLLIN, ke_tag 5 EVFILT_READ 7)])) \<rparr>"

definition no_watches :: "proc_watch list" where
  "no_watches = replicate MAX_PROC_WATCH \<lparr> pw_kq = 0, pw_eventfd = 0, pw_pid = 0, pw_udata = 0 \<rparr>"

definition demo_kq_ctx :: yos_exec_ctx where
  "demo_kq_ctx = (ctx_calloc (\<lambda>_. 0) 65536)\<lparr>fd_map := [0, 1, 2, 9] @ replicate 252 (- 1)\<rparr>"

lemma no_watches_owned: "watches_owned no_watches O1"
  by (simp add: watches_owned_def no_watches_def)


definition demo_child_rt :: yos_runtime where
  "demo_child_rt = upd_ctx demo_rt 1 (\<lambda>c. c\<lparr>is_child := True\<rparr>)"

theorem proc_watch_lifecycle_witness:
  "\<exists>ws1 es1 es n m' ws2 es2. proc_watch_add demo_kq_host 0 no_watches 9 2 0x12345678 = (0, ws1, es1) \<and>
     host_log (yos_exit (\<lambda>_ _. 0) (\<lambda>_. []) False demo_child_rt 1 7) = es @ [HKqueueNotifyExit n, HPthreadExit 7] \<and>
     Poke 10 \<in> set (yos_kqueue_notify_exit ws1 (word_of_int n)) \<and>
     put_kevents 9 4096 [(EPOLLIN, ke_tag 2 EVFILT_PROC 0x12345678)] (\<lambda>_. 0) ws1 = (m', ws2, es2) \<and> ke_udata m' 4096 = 0x12345678 \<and>
     fd_log es2 = [Closed 10]"
proof -
  have n: "\<forall>w\<in>set no_watches. \<not> watches 9 2 w" by (simp add: no_watches_def watches_def)
  have "find_index (\<lambda>w. pw_eventfd w < 0 \<or> pw_eventfd w = 0) no_watches = Some 0" by (simp add: find_index_Some no_watches_def)
  then obtain ws1 es1 where a: "proc_watch_add demo_kq_host 0 no_watches 9 2 0x12345678 = (0, ws1, es1)" "fd_log es1 = [Opened 10]"
    by (simp add: proc_watch_add_def demo_kq_host_def)
  have h: "kh_eventfd demo_kq_host 0 = Inr 10" by (simp add: demo_kq_host_def)
  have c: "length (procs demo_child_rt) = YOS_MAX_PROCS" "proc_slot (ctxs demo_child_rt 1) = Some 1" "is_child (ctxs demo_child_rt 1)"
    "word_of_int (pid (procs demo_child_rt ! 1)) = (2 :: u32)"
    by (simp_all add: demo_child_rt_def demo_procs demo_proc_simps)
  from proc_watch_lifecycle [OF no_watches_owned n a(1) _ h _ c(1,2) _ c(3,4), of "{}" "\<lambda>_ _. 0" "\<lambda>_. []" False 7 4096 "\<lambda>_. 0"] a
  show ?thesis by auto
qed

end
