(* ===== verification/Select.thy ===== *)
theory Select
  imports Poll
begin

text \<open>
  \<^verbatim>\<open>yos_select\<close> of \<^verbatim>\<open>src/src/yos/impl/libc/posix.c\<close>: bit sets indexed by guest descriptors are translated to sets of host
  descriptors, the host waits, and the answer is translated back into the guest's sets.
\<close>

section \<open>The call\<close>

text \<open>The guest's sets: bit \<open>fd mod 8\<close> of byte \<open>fd div 8\<close>; a null pointer is the empty set.\<close>

definition YOS_WFDS_ISSET :: "mem \<Rightarrow> u32 \<Rightarrow> nat \<Rightarrow> bool" where
  "YOS_WFDS_ISSET m p fd \<longleftrightarrow> p \<noteq> 0 \<and> bit (m (unat p + fd div 8)) (fd mod 8)"

definition YOS_WFDS_SET :: "mem \<Rightarrow> u32 \<Rightarrow> nat \<Rightarrow> mem" where
  "YOS_WFDS_SET m p fd = (if p = 0 then m else m(unat p + fd div 8 := m (unat p + fd div 8) OR push_bit (fd mod 8) 1))"

record sel_pair =
  sp_wfd :: nat
  sp_hfd :: int
  in_r :: bool
  in_w :: bool
  in_e :: bool

text \<open>The walk over the guest's descriptors; one that is not mapped is passed over, with errno set on the way.\<close>

fun select_scan :: "(int \<Rightarrow> int) \<Rightarrow> u32 \<Rightarrow> u32 \<Rightarrow> u32 \<Rightarrow> nat list \<Rightarrow> yos_exec_ctx \<Rightarrow> sel_pair list \<times> yos_exec_ctx" where
  "select_scan h2g r w e [] c = ([], c)"
| "select_scan h2g r w e (wfd # fds) c =
     (let r1 = YOS_WFDS_ISSET (memory c) r wfd; w1 = YOS_WFDS_ISSET (memory c) w wfd; e1 = YOS_WFDS_ISSET (memory c) e wfd in
      if \<not> (r1 \<or> w1 \<or> e1) then select_scan h2g r w e fds c
      else case yos_fd_get h2g c (int wfd) of (hfd, c1) \<Rightarrow>
        if hfd < 0 then select_scan h2g r w e fds c1
        else case select_scan h2g r w e fds c1 of (ps, c2) \<Rightarrow>
          (\<lparr> sp_wfd = wfd, sp_hfd = hfd, in_r = r1, in_w = w1, in_e = e1 \<rparr> # ps, c2))"

text \<open>The host's sets are the lists of their members.\<close>

definition host_set :: "(sel_pair \<Rightarrow> bool) \<Rightarrow> sel_pair list \<Rightarrow> int list" where
  "host_set P ps = map sp_hfd (filter P ps)"

definition max_hfd :: "sel_pair list \<Rightarrow> int" where
  "max_hfd ps = fold (\<lambda>p m. if m < sp_hfd p then sp_hfd p else m) ps (- 1)"

text \<open>The answer goes back: the three sets are cleared, each over its 128 bytes, and the bits of the ready descriptors set.\<close>

definition clear_set :: "u32 \<Rightarrow> mem \<Rightarrow> mem" where
  "clear_set p m = (if p = 0 then m else mem_fill m (unat p) 0 128)"

definition set_if :: "bool \<Rightarrow> u32 \<Rightarrow> nat \<Rightarrow> mem \<Rightarrow> mem" where
  "set_if b p fd m = (if b then YOS_WFDS_SET m p fd else m)"

fun select_back :: "u32 \<Rightarrow> u32 \<Rightarrow> u32 \<Rightarrow> int list \<Rightarrow> int list \<Rightarrow> int list \<Rightarrow> sel_pair list \<Rightarrow> mem \<Rightarrow> mem" where
  "select_back r w e hr hw he [] m = m"
| "select_back r w e hr hw he (p # ps) m =
     select_back r w e hr hw he ps
       (set_if (sp_hfd p \<in> set he) e (sp_wfd p) (set_if (sp_hfd p \<in> set hw) w (sp_wfd p) (set_if (sp_hfd p \<in> set hr) r (sp_wfd p) m)))"

text \<open>
  The host's \<^verbatim>\<open>select\<close> gives its result, the error number and the ready descriptors.  \<open>cv\<close> converts the time-out (generated
  code), \<open>pump\<close> runs pending signal handlers.  The host's sets have room for descriptors below 1024; a greater one is stored
  past their end, where C leaves open what happens: \<open>None\<close>.
\<close>

type_synonym 'tv host_select = "int \<Rightarrow> int list \<Rightarrow> int list \<Rightarrow> int list \<Rightarrow> 'tv option \<Rightarrow> int \<times> int \<times> int list \<times> int list \<times> int list"

abbreviation FD_SETSIZE :: int where "FD_SETSIZE \<equiv> 1024"

definition yos_select ::
  "(int \<Rightarrow> int) \<Rightarrow> (mem \<Rightarrow> nat \<Rightarrow> 'tv) \<Rightarrow> (yos_exec_ctx \<Rightarrow> yos_exec_ctx) \<Rightarrow> 'tv host_select \<Rightarrow> yos_exec_ctx \<Rightarrow> int \<Rightarrow> u32 \<Rightarrow> u32 \<Rightarrow> u32 \<Rightarrow> u32 \<Rightarrow>
   (int \<times> yos_exec_ctx) option" where
  "yos_select h2g cv pump hsel ctx nfds r w e to_off =
     (if nfds < 0 \<or> int YOS_FD_MAX < nfds then Some (yos_errno_neg h2g ctx EINVAL)
      else case select_scan h2g r w e [0..<nat nfds] ctx of (ps, c1) \<Rightarrow>
        if \<exists>p\<in>set ps. FD_SETSIZE \<le> sp_hfd p then None
        else
          let tv = (if to_off = 0 then None else Some (cv (memory c1) (unat to_off)));
              c2 = pump c1;
              (rc, saved, hr, hw, he) = hsel (max_hfd ps + 1) (host_set in_r ps) (host_set in_w ps) (host_set in_e ps) tv;
              c3 = (if rc < 0 \<and> saved = EINTR then pump c2 else c2)
          in if rc < 0 then Some (yos_errno_neg h2g c3 saved)
             else Some (rc, c3\<lparr>memory := select_back r w e hr hw he ps (clear_set e (clear_set w (clear_set r (memory c3))))\<rparr>))"

section \<open>Bits of the guest's sets\<close>

definition sets_apart :: "u32 \<Rightarrow> u32 \<Rightarrow> bool" where
  "sets_apart p q \<longleftrightarrow> p = 0 \<or> q = 0 \<or> unat p + 128 \<le> unat q \<or> unat q + 128 \<le> unat p"

lemma isset_set [simp]:
  "YOS_WFDS_ISSET (YOS_WFDS_SET m p fd) p fd' \<longleftrightarrow> p \<noteq> 0 \<and> (fd = fd' \<or> YOS_WFDS_ISSET m p fd')"
proof (cases "fd div 8 = fd' div 8")
  case True
  then have "fd mod 8 = fd' mod 8 \<longleftrightarrow> fd = fd'" using div_mult_mod_eq [of fd 8] div_mult_mod_eq [of fd' 8] by metis
  moreover have "bit (push_bit (fd mod 8) (1 :: u8)) (fd' mod 8) \<longleftrightarrow> fd mod 8 = fd' mod 8"
    by (simp add: bit_push_bit_iff del: push_bit_of_1) (auto simp: bit_1_iff)
  ultimately show ?thesis using True by (simp add: YOS_WFDS_ISSET_def YOS_WFDS_SET_def bit_or_iff del: push_bit_of_1) blast
qed (auto simp: YOS_WFDS_ISSET_def YOS_WFDS_SET_def)

lemma isset_clear [simp]: "fd < 1024 \<Longrightarrow> \<not> YOS_WFDS_ISSET (clear_set p m) p fd"
  by (auto simp: YOS_WFDS_ISSET_def clear_set_def mem_fill_def)

lemma set_other: "fd < 1024 \<Longrightarrow> j < unat p \<or> unat p + 128 \<le> j \<Longrightarrow> YOS_WFDS_SET m p fd j = m j"
  by (auto simp: YOS_WFDS_SET_def)

lemma isset_cong: "fd < 1024 \<Longrightarrow> (\<And>j. j < 128 \<Longrightarrow> m' (unat p + j) = m (unat p + j)) \<Longrightarrow> YOS_WFDS_ISSET m' p fd = YOS_WFDS_ISSET m p fd"
  by (simp add: YOS_WFDS_ISSET_def)

lemma isset_set_other:
  assumes "sets_apart q p" and "fd < 1024" and "fd' < 1024"
  shows "YOS_WFDS_ISSET (YOS_WFDS_SET m p fd) q fd' = YOS_WFDS_ISSET m q fd'"
proof (cases "p = 0 \<or> q = 0")
  case True
  then show ?thesis by (auto simp: YOS_WFDS_ISSET_def YOS_WFDS_SET_def)
next
  case False
  then show ?thesis using assms by (intro isset_cong) (auto simp: set_other sets_apart_def)
qed

lemma isset_clear_other:
  assumes "sets_apart q p" and "fd < 1024"
  shows "YOS_WFDS_ISSET (clear_set p m) q fd = YOS_WFDS_ISSET m q fd"
proof (cases "p = 0 \<or> q = 0")
  case True
  then show ?thesis by (auto simp: YOS_WFDS_ISSET_def clear_set_def)
next
  case False
  then show ?thesis using assms by (intro isset_cong) (auto simp: clear_set_def mem_fill_def sets_apart_def)
qed

lemma sets_apart_sym: "sets_apart p q = sets_apart q p"
  by (auto simp: sets_apart_def)

section \<open>There\<close>

definition asked :: "mem \<Rightarrow> u32 \<Rightarrow> u32 \<Rightarrow> u32 \<Rightarrow> nat \<Rightarrow> bool" where
  "asked m r w e fd \<longleftrightarrow> YOS_WFDS_ISSET m r fd \<or> YOS_WFDS_ISSET m w fd \<or> YOS_WFDS_ISSET m e fd"

definition pair_of :: "yos_exec_ctx \<Rightarrow> u32 \<Rightarrow> u32 \<Rightarrow> u32 \<Rightarrow> nat \<Rightarrow> sel_pair" where
  "pair_of c r w e fd = \<lparr> sp_wfd = fd, sp_hfd = fd_map c ! fd, in_r = YOS_WFDS_ISSET (memory c) r fd,
     in_w = YOS_WFDS_ISSET (memory c) w fd, in_e = YOS_WFDS_ISSET (memory c) e fd \<rparr>"

definition errno_outside :: "yos_exec_ctx \<Rightarrow> u32 \<Rightarrow> bool" where
  "errno_outside c p \<longleftrightarrow> p = 0 \<or> unat (errno_off c) + 4 \<le> unat p \<or> unat p + 128 \<le> unat (errno_off c)"

lemma fd_get_isset:
  assumes "yos_fd_get h2g c w = (h, c')" and "errno_outside c p" and "fd < 1024"
  shows "YOS_WFDS_ISSET (memory c') p fd = YOS_WFDS_ISSET (memory c) p fd"
proof (cases "p = 0")
  case False
  then show ?thesis using assms by (intro isset_cong) (auto simp: errno_outside_def intro!: fd_get_memory [THEN conjunct1])
qed (simp add: YOS_WFDS_ISSET_def)

lemma fd_get_fields: "yos_fd_get h2g c w = (h, c') \<Longrightarrow> fd_map c' = fd_map c \<and> errno_off c' = errno_off c"
  by (auto simp: yos_fd_get_def Let_def yos_errno_neg_def split: if_splits)

text \<open>The walk makes one pair for every mapped descriptor that is in one of the sets.\<close>

lemma select_scan_pairs:
  assumes "errno_outside c r" and "errno_outside c w" and "errno_outside c e" and "\<forall>fd\<in>set fds. fd < YOS_FD_MAX"
  shows "fst (select_scan h2g r w e fds c) = map (pair_of c r w e) (filter (\<lambda>fd. asked (memory c) r w e fd \<and> 0 \<le> fd_map c ! fd) fds)"
  using assms
proof (induction fds arbitrary: c)
  case (Cons fd fds)
  obtain h c1 where g: "yos_fd_get h2g c (int fd) = (h, c1)" by force
  have h: "h < 0 \<longleftrightarrow> fd_map c ! fd < 0" "0 \<le> h \<Longrightarrow> h = fd_map c ! fd"
    using g Cons.prems(4) by (auto simp: yos_fd_get_def Let_def yos_errno_neg_def split: if_splits)
  have ap: "errno_outside c1 r" "errno_outside c1 w" "errno_outside c1 e"
    using fd_get_fields [OF g] Cons.prems(1-3) by (simp_all add: errno_outside_def)
  have same: "YOS_WFDS_ISSET (memory c1) p x = YOS_WFDS_ISSET (memory c) p x" if "x \<in> set fds" "p \<in> {r, w, e}" for x p
    using fd_get_isset [OF g, of p x] that Cons.prems by auto
  have *: "map (pair_of c1 r w e) (filter (\<lambda>fd. asked (memory c1) r w e fd \<and> 0 \<le> fd_map c1 ! fd) fds) =
      map (pair_of c r w e) (filter (\<lambda>fd. asked (memory c) r w e fd \<and> 0 \<le> fd_map c ! fd) fds)"
    using same fd_get_fields [OF g] by (intro map_cong filter_cong) (auto simp: asked_def pair_of_def)
  have IH: "fst (select_scan h2g r w e fds c1) = map (pair_of c1 r w e) (filter (\<lambda>fd. asked (memory c1) r w e fd \<and> 0 \<le> fd_map c1 ! fd) fds)"
    "fst (select_scan h2g r w e fds c) = map (pair_of c r w e) (filter (\<lambda>fd. asked (memory c) r w e fd \<and> 0 \<le> fd_map c ! fd) fds)"
    using Cons.IH [of c1] Cons.IH [of c] ap Cons.prems by simp_all
  have "fst (select_scan h2g r w e (fd # fds) c) = (if \<not> asked (memory c) r w e fd then fst (select_scan h2g r w e fds c)
      else if h < 0 then fst (select_scan h2g r w e fds c1) else pair_of c r w e fd # fst (select_scan h2g r w e fds c1))"
    using h by (auto simp: Let_def g asked_def pair_of_def split: prod.splits)
  then show ?case using h(1) by (simp add: IH *)
qed simp

section \<open>And back\<close>

lemma isset_set_if:
  assumes "fd' < 1024" and "fd < 1024"
  shows "YOS_WFDS_ISSET (set_if b p fd' m) p fd \<longleftrightarrow> YOS_WFDS_ISSET m p fd \<or> b \<and> p \<noteq> 0 \<and> fd' = fd"
    and "sets_apart q p \<Longrightarrow> YOS_WFDS_ISSET (set_if b p fd' m) q fd = YOS_WFDS_ISSET m q fd"
    and "j < unat p \<or> unat p + 128 \<le> j \<or> p = 0 \<Longrightarrow> set_if b p fd' m j = m j"
  using assms by (auto simp: set_if_def isset_set_other set_other) (auto simp: YOS_WFDS_ISSET_def YOS_WFDS_SET_def)

definition ready_bit :: "u32 \<Rightarrow> int list \<Rightarrow> sel_pair list \<Rightarrow> nat \<Rightarrow> bool" where
  "ready_bit p hs ps fd \<longleftrightarrow> p \<noteq> 0 \<and> (\<exists>x\<in>set ps. sp_wfd x = fd \<and> sp_hfd x \<in> set hs)"

lemma select_back_bits:
  assumes "sets_apart r w" "sets_apart r e" "sets_apart w e" and "\<forall>p\<in>set ps. sp_wfd p < 1024" and "fd < 1024"
  shows "YOS_WFDS_ISSET (select_back r w e hr hw he ps m) r fd \<longleftrightarrow> YOS_WFDS_ISSET m r fd \<or> ready_bit r hr ps fd"
    and "YOS_WFDS_ISSET (select_back r w e hr hw he ps m) w fd \<longleftrightarrow> YOS_WFDS_ISSET m w fd \<or> ready_bit w hw ps fd"
    and "YOS_WFDS_ISSET (select_back r w e hr hw he ps m) e fd \<longleftrightarrow> YOS_WFDS_ISSET m e fd \<or> ready_bit e he ps fd"
proof -
  note ap = assms(1-3) assms(1-3) [unfolded sets_apart_sym [of r] sets_apart_sym [of w e]] and l = assms(5)
  show "YOS_WFDS_ISSET (select_back r w e hr hw he ps m) r fd \<longleftrightarrow> YOS_WFDS_ISSET m r fd \<or> ready_bit r hr ps fd"
    using assms(4) by (induction ps arbitrary: m) (auto simp: isset_set_if ap l ready_bit_def)
  show "YOS_WFDS_ISSET (select_back r w e hr hw he ps m) w fd \<longleftrightarrow> YOS_WFDS_ISSET m w fd \<or> ready_bit w hw ps fd"
    using assms(4) by (induction ps arbitrary: m) (auto simp: isset_set_if ap l ready_bit_def)
  show "YOS_WFDS_ISSET (select_back r w e hr hw he ps m) e fd \<longleftrightarrow> YOS_WFDS_ISSET m e fd \<or> ready_bit e he ps fd"
    using assms(4) by (induction ps arbitrary: m) (auto simp: isset_set_if ap l ready_bit_def)
qed

lemma select_back_out:
  assumes "\<forall>p\<in>set ps. sp_wfd p < 1024" and "\<forall>p\<in>{r, w, e}. j < unat p \<or> unat p + 128 \<le> j \<or> p = 0"
  shows "select_back r w e hr hw he ps m j = m j"
proof -
  have "set_if b p fd m j = m j" if "p \<in> {r, w, e}" "fd < 1024" for b p fd and m :: mem using isset_set_if(3) [of fd 0 j p b m] assms(2) that by auto
  then show ?thesis using assms(1) by (induction ps arbitrary: m) simp_all
qed

section \<open>The result\<close>

text \<open>What the host's \<^verbatim>\<open>select\<close> promises when it succeeds: only descriptors it was asked for, and their number.\<close>

definition host_select_ok :: "'tv host_select \<Rightarrow> bool" where
  "host_select_ok hsel \<longleftrightarrow> (\<forall>n R W E tv rc s hr hw he. hsel n R W E tv = (rc, s, hr, hw, he) \<longrightarrow> 0 \<le> rc \<longrightarrow>
     set hr \<subseteq> set R \<and> set hw \<subseteq> set W \<and> set he \<subseteq> set E \<and> rc = int (card (set hr) + card (set hw) + card (set he)))"

text \<open>The members of a set of the guest that count in a call: mapped descriptors below the limit.\<close>

definition watched :: "yos_exec_ctx \<Rightarrow> nat \<Rightarrow> u32 \<Rightarrow> nat set" where
  "watched c n p = {fd. fd < n \<and> YOS_WFDS_ISSET (memory c) p fd \<and> 0 \<le> fd_map c ! fd}"

lemma host_set_pairs:
  assumes "ps = map (pair_of c r w e) (filter (\<lambda>fd. asked (memory c) r w e fd \<and> 0 \<le> fd_map c ! fd) [0..<n])"
  shows "set (host_set in_r ps) = (!) (fd_map c) ` watched c n r" and "set (host_set in_w ps) = (!) (fd_map c) ` watched c n w"
    and "set (host_set in_e ps) = (!) (fd_map c) ` watched c n e"
  by (auto simp: assms host_set_def filter_map o_def watched_def pair_of_def asked_def)

text \<open>A ready bit is a watched descriptor whose host descriptor the host names; distinct descriptors have distinct host
  descriptors, so the counts agree.\<close>

lemma ready_bit_watched:
  assumes "ps = map (pair_of c r w e) (filter (\<lambda>fd. asked (memory c) r w e fd \<and> 0 \<le> fd_map c ! fd) [0..<n])" and "n \<le> YOS_FD_MAX"
    and "length (fd_map c) = YOS_FD_MAX" and "distinct (filter (\<lambda>h. 0 \<le> h) (fd_map c))" and "p \<in> {r, w, e}"
    and "set hs \<subseteq> (!) (fd_map c) ` watched c n p"
  shows "ready_bit p hs ps fd \<longleftrightarrow> fd \<in> watched c n p \<and> fd_map c ! fd \<in> set hs"
    and "card {fd. fd \<in> watched c n p \<and> fd_map c ! fd \<in> set hs} = card (set hs)"
proof -
  have uniq: "i = j" if "i < n" "j < n" "0 \<le> fd_map c ! i" "fd_map c ! i = fd_map c ! j" for i j
    using assms(2-4) that by (auto simp: distinct_filter_iff)
  have "ready_bit p hs ps fd \<longleftrightarrow> p \<noteq> 0 \<and> fd < n \<and> asked (memory c) r w e fd \<and> 0 \<le> fd_map c ! fd \<and> fd_map c ! fd \<in> set hs"
    by (auto simp: assms(1) ready_bit_def pair_of_def)
  moreover have "fd \<in> watched c n p" if "fd < n" "0 \<le> fd_map c ! fd" "fd_map c ! fd \<in> set hs"
    using that assms(6) uniq [of fd] by (auto simp: watched_def)
  ultimately show "ready_bit p hs ps fd \<longleftrightarrow> fd \<in> watched c n p \<and> fd_map c ! fd \<in> set hs"
    using assms(5) by (auto simp: watched_def asked_def YOS_WFDS_ISSET_def)
  have "inj_on ((!) (fd_map c)) {fd. fd \<in> watched c n p \<and> fd_map c ! fd \<in> set hs}"
    using uniq by (auto simp: inj_on_def watched_def)
  moreover have "(!) (fd_map c) ` {fd. fd \<in> watched c n p \<and> fd_map c ! fd \<in> set hs} = set hs" using assms(6) by auto
  ultimately show "card {fd. fd \<in> watched c n p \<and> fd_map c ! fd \<in> set hs} = card (set hs)" by (metis card_image)
qed

lemma max_hfd_Max: "max_hfd ps = Max (insert (- 1) (sp_hfd ` set ps))"
proof -
  have "fold (\<lambda>p m. if m < sp_hfd p then sp_hfd p else m) ps a = Max (insert a (sp_hfd ` set ps))" for a
  proof (induction ps arbitrary: a)
    case (Cons p ps)
    let ?x = "sp_hfd p" and ?S = "sp_hfd ` set ps"
    have "Max (insert (max a ?x) ?S) = max a (Max (insert ?x ?S))" by (cases "ps = []") (simp_all add: max.assoc)
    then have "Max (insert (max a ?x) ?S) = Max (insert a (sp_hfd ` set (p # ps)))" by simp
    moreover have "(if a < ?x then ?x else a) = max a ?x" by (simp add: max_def)
    ultimately show ?case using Cons [of "max a ?x"] by (simp only: fold_simps)
  qed simp
  then show ?thesis by (simp add: max_hfd_def)
qed

lemma host_sets_all:
  assumes "ps = map (pair_of c r w e) (filter (\<lambda>fd. asked (memory c) r w e fd \<and> 0 \<le> fd_map c ! fd) [0..<n])"
  shows "sp_hfd ` set ps = set (host_set in_r ps) \<union> set (host_set in_w ps) \<union> set (host_set in_e ps)"
  unfolding assms by (auto simp: host_set_def asked_def pair_of_def image_iff)

lemma select_scan_errno: "select_scan h2g r w e fds c = (ps, c') \<Longrightarrow> errno_only c c'"
proof (induction fds arbitrary: c ps)
  case (Cons fd fds)
  obtain h c1 where g: "yos_fd_get h2g c (int fd) = (h, c1)" by force
  note e = errno_only_fd_get [OF g]
  show ?case using Cons.prems Cons.IH errno_only_trans [OF e] g by (auto simp: Let_def split: if_splits prod.splits)
qed simp

text \<open>
  Claim C34: \<^verbatim>\<open>select\<close> translates descriptors both ways.  When it succeeds, the host was asked about exactly the host descriptors of
  the mapped members of each of the guest's sets, with one more than the greatest of them as its limit and the guest's time-out;
  afterwards each set holds exactly those of its own former members whose host
  descriptor is ready, the result is the number of bits in the three sets, and no other byte has changed but the error number
  and what signal handlers did.  The sets must not overlap each other or the error number, the descriptor table must be one that its
  operations build (no host descriptor filed twice), and the host's \<^verbatim>\<open>select\<close> must report only what it was asked about and count it.
\<close>

theorem select_exact:
  assumes "yos_select h2g cv pump hsel c nfds r w e to = Some (rc, c')" and "0 \<le> rc" and "host_select_ok hsel"
    and "sets_apart r w" and "sets_apart r e" and "sets_apart w e" and "errno_outside c r" and "errno_outside c w" and "errno_outside c e"
    and "length (fd_map c) = YOS_FD_MAX" and "distinct (filter (\<lambda>h. 0 \<le> h) (fd_map c))"
  shows "\<exists>R W E c1 s hr hw he. errno_only c c1 \<and>
    hsel (1 + Max (insert (- 1) (set R \<union> set W \<union> set E))) R W E (if to = 0 then None else Some (cv (memory c1) (unat to))) = (rc, s, hr, hw, he) \<and>
    set R = (!) (fd_map c) ` watched c (nat nfds) r \<and> set W = (!) (fd_map c) ` watched c (nat nfds) w \<and>
    set E = (!) (fd_map c) ` watched c (nat nfds) e \<and>
    (\<forall>fd<1024. (YOS_WFDS_ISSET (memory c') r fd \<longleftrightarrow> fd \<in> watched c (nat nfds) r \<and> fd_map c ! fd \<in> set hr) \<and>
      (YOS_WFDS_ISSET (memory c') w fd \<longleftrightarrow> fd \<in> watched c (nat nfds) w \<and> fd_map c ! fd \<in> set hw) \<and>
      (YOS_WFDS_ISSET (memory c') e fd \<longleftrightarrow> fd \<in> watched c (nat nfds) e \<and> fd_map c ! fd \<in> set he)) \<and>
    rc = int (\<Sum>p\<leftarrow>[r, w, e]. card {fd. fd < 1024 \<and> YOS_WFDS_ISSET (memory c') p fd}) \<and>
    (\<forall>j. (\<forall>p\<in>{r, w, e}. j < unat p \<or> unat p + 128 \<le> j \<or> p = 0) \<longrightarrow> memory c' j = memory (pump c1) j)"
proof -
  let ?n = "nat nfds"
  obtain ps c1 where sc: "select_scan h2g r w e [0..<?n] c = (ps, c1)" by force
  let ?tv = "if to = 0 then None else Some (cv (memory c1) (unat to))"
  obtain rc' s hr hw he where h: "hsel (max_hfd ps + 1) (host_set in_r ps) (host_set in_w ps) (host_set in_e ps) ?tv = (rc', s, hr, hw, he)"
    by (metis surj_pair)
  let ?m0 = "clear_set e (clear_set w (clear_set r (memory (pump c1))))"
  have n: "?n \<le> YOS_FD_MAX" and rc: "rc' = rc" and m: "memory c' = select_back r w e hr hw he ps ?m0"
    using assms(1,2) by (auto simp: yos_select_def sc h Let_def yos_errno_neg_def split: if_splits)
  have ps: "ps = map (pair_of c r w e) (filter (\<lambda>fd. asked (memory c) r w e fd \<and> 0 \<le> fd_map c ! fd) [0..<?n])"
    using select_scan_pairs [of c r w e "[0..<?n]" h2g] assms(7-9) n sc by simp
  note R = host_set_pairs [OF ps]
  have ok: "set hr \<subseteq> set (host_set in_r ps)" "set hw \<subseteq> set (host_set in_w ps)" "set he \<subseteq> set (host_set in_e ps)"
      "rc = int (card (set hr) + card (set hw) + card (set he))"
    using assms(2,3) h rc unfolding host_select_ok_def by blast+
  note rb = ready_bit_watched [OF ps n assms(10,11)]
  have wl: "\<forall>p\<in>set ps. sp_wfd p < 1024" using n by (auto simp: ps pair_of_def)
  have clear: "\<not> YOS_WFDS_ISSET ?m0 p fd" if "fd < 1024" "p \<in> {r, w, e}" for p fd
    using that assms(4-6) isset_clear_other [of p _ fd] by (auto simp: sets_apart_sym)
  have bits: "YOS_WFDS_ISSET (memory c') r fd \<longleftrightarrow> fd \<in> watched c ?n r \<and> fd_map c ! fd \<in> set hr"
      "YOS_WFDS_ISSET (memory c') w fd \<longleftrightarrow> fd \<in> watched c ?n w \<and> fd_map c ! fd \<in> set hw"
      "YOS_WFDS_ISSET (memory c') e fd \<longleftrightarrow> fd \<in> watched c ?n e \<and> fd_map c ! fd \<in> set he" if "fd < 1024" for fd
    using select_back_bits [OF assms(4-6) wl that, of hr hw he ?m0] clear [OF that] rb(1) [of _ _ fd] ok(1-3) R m by simp_all
  have wd: "fd < 1024" if "fd \<in> watched c ?n p" for fd p using that n by (auto simp: watched_def)
  have "{fd. fd < 1024 \<and> YOS_WFDS_ISSET (memory c') r fd} = {fd. fd \<in> watched c ?n r \<and> fd_map c ! fd \<in> set hr}"
      "{fd. fd < 1024 \<and> YOS_WFDS_ISSET (memory c') w fd} = {fd. fd \<in> watched c ?n w \<and> fd_map c ! fd \<in> set hw}"
      "{fd. fd < 1024 \<and> YOS_WFDS_ISSET (memory c') e fd} = {fd. fd \<in> watched c ?n e \<and> fd_map c ! fd \<in> set he}"
    using bits wd by auto
  then have cnt: "rc = int (\<Sum>p\<leftarrow>[r, w, e]. card {fd. fd < 1024 \<and> YOS_WFDS_ISSET (memory c') p fd})"
    using ok rb(2) R by simp
  have frame: "memory c' j = memory (pump c1) j" if "\<forall>p\<in>{r, w, e}. j < unat p \<or> unat p + 128 \<le> j \<or> p = 0" for j
    using that by (simp add: m select_back_out [OF wl that]) (auto simp: clear_set_def mem_fill_def)
  have lim: "max_hfd ps + 1 = 1 + Max (insert (- 1) (set (host_set in_r ps) \<union> set (host_set in_w ps) \<union> set (host_set in_e ps)))"
    by (simp add: max_hfd_Max host_sets_all [OF ps])
  show ?thesis
  proof ((rule exI)+, rule conjI, rule select_scan_errno [OF sc], rule conjI, rule h [unfolded rc lim], intro conjI allI impI)
    show "rc = int (\<Sum>p\<leftarrow>[r, w, e]. card {fd. fd < 1024 \<and> YOS_WFDS_ISSET (memory c') p fd})" by (rule cnt)
  qed (simp_all only: R bits frame)
qed

section \<open>Where it differs from select\<close>

text \<open>A host descriptor of 1024 or more, which a guest descriptor below 256 may well have, is stored past the end of the host's set.\<close>

lemma select_fdset_overflow:
  assumes "YOS_WFDS_ISSET (memory c) r 0" and "FD_SETSIZE \<le> fd_map c ! 0"
  shows "yos_select h2g cv pump hsel c 1 r w e to = None"
  using assms by (simp add: yos_select_def yos_fd_get_def Let_def)

text \<open>A descriptor that is not mapped is no error: the call succeeds without it.\<close>

lemma select_ignores_unmapped:
  assumes "fd_map c ! 0 = - 1" and "hsel 0 [] [] [] None = (0, 0, [], [], [])"
  shows "\<exists>c'. yos_select h2g cv pump hsel c 1 r w e 0 = Some (0, c')"
  using assms by (simp add: yos_select_def yos_fd_get_def yos_errno_neg_def Let_def host_set_def max_hfd_def)

text \<open>The sets are not checked against linear memory: 128 bytes are cleared wherever the guest points.\<close>

lemma select_past_memory:
  assumes "hsel 0 [] [] [] None = (0, 0, [], [], [])" and "r \<noteq> 0"
  shows "\<exists>c'. yos_select h2g cv (\<lambda>c. c) hsel c 0 r 0 0 0 = Some (0, c') \<and> (\<forall>i<128. memory c' (unat r + i) = 0)"
  using assms by (simp add: yos_select_def Let_def host_set_def max_hfd_def clear_set_def)

section \<open>A concrete call\<close>

text \<open>The guest waits for 2 and 3, mapped to the host's 2 and 9; the host finds 9 ready.\<close>

definition demo_select :: "unit host_select" where
  "demo_select n R W E tv = (int (length (remdups (filter (\<lambda>h. h = 9) R))), 0, filter (\<lambda>h. h = 9) R, [], [])"

definition demo_select_ctx :: yos_exec_ctx where
  "demo_select_ctx = (ctx_calloc (\<lambda>_. 0) 65536)\<lparr>fd_map := [0, 1, 2, 9] @ replicate 252 (- 1), memory := (\<lambda>_. 0)(4096 := 12)\<rparr>"

theorem select_exact_witness:
  "\<exists>c'. yos_select (\<lambda>e. e) (\<lambda>_ _. ()) (\<lambda>c. c) demo_select demo_select_ctx 4 4096 0 0 0 = Some (1, c') \<and>
     YOS_WFDS_ISSET (memory c') 4096 3 \<and> \<not> YOS_WFDS_ISSET (memory c') 4096 2"
proof -
  let ?c = demo_select_ctx
  have m: "memory ?c = (\<lambda>_. 0)(4096 := 12)" and f: "fd_map ?c = [0, 1, 2, 9] @ replicate 252 (- 1)"
    by (simp_all add: demo_select_ctx_def)
  have bits: "YOS_WFDS_ISSET (memory ?c) 4096 2" "YOS_WFDS_ISSET (memory ?c) 4096 3" "\<not> YOS_WFDS_ISSET (memory ?c) 4096 0"
      "\<not> YOS_WFDS_ISSET (memory ?c) 4096 1" "\<not> YOS_WFDS_ISSET (memory ?c) 0 fd" for fd
    by (simp_all add: YOS_WFDS_ISSET_def m bit_numeral_rec bit_iff_odd)
  have g: "yos_fd_get (\<lambda>e. e) ?c 2 = (2, ?c)" "yos_fd_get (\<lambda>e. e) ?c 3 = (9, ?c)" by (simp_all add: yos_fd_get_def f)
  have l: "[0..<nat 4] = [0, 1, 2, 3]" by (simp add: upt_rec)
  have run: "\<exists>c'. yos_select (\<lambda>e. e) (\<lambda>_ _. ()) (\<lambda>c. c) demo_select ?c 4 4096 0 0 0 = Some (1, c')"
    unfolding yos_select_def l by (simp add: bits [simplified] g Let_def demo_select_def host_set_def)
  then obtain c' where r: "yos_select (\<lambda>e. e) (\<lambda>_ _. ()) (\<lambda>c. c) demo_select ?c 4 4096 0 0 0 = Some (1, c')" ..
  have ok: "host_select_ok demo_select" by (auto simp: host_select_ok_def demo_select_def length_remdups_card_conv)
  have d: "length (fd_map ?c) = YOS_FD_MAX" "distinct (filter (\<lambda>h. 0 \<le> h) (fd_map ?c))" by (simp_all add: f)
  have a: "sets_apart 4096 0" "sets_apart 0 0" "errno_outside ?c 4096" "errno_outside ?c 0"
    by (simp_all add: sets_apart_def errno_outside_def demo_select_ctx_def ctx_calloc_def)
  from select_exact [OF r _ ok a(1,1,2,3,4,4) d] obtain R W E n tv s hr hw he
    where h: "demo_select n R W E tv = (1, s, hr, hw, he)" "set R = (!) (fd_map ?c) ` watched ?c 4 4096"
      and b: "\<forall>fd<1024. YOS_WFDS_ISSET (memory c') 4096 fd \<longleftrightarrow> fd \<in> watched ?c 4 4096 \<and> fd_map ?c ! fd \<in> set hr" by auto
  have w: "2 \<in> watched ?c 4 4096" "3 \<in> watched ?c 4 4096" using bits by (simp_all add: watched_def f)
  have "fd_map ?c ! 3 \<in> set R" using h(2) w by blast
  then have "set hr = {9}" using h(1) f by (auto simp: demo_select_def)
  then show ?thesis using r b w f by simp
qed

end
