(* ===== verification/Sockets.thy ===== *)
theory Sockets
  imports IoSafety FdCalls "HOL-Library.Monad_Syntax"
begin

text \<open>
  Sockets: the calls of \<^verbatim>\<open>src/src/yos/impl/libc/posix.c\<close> on sockets and the address layouts of \<^verbatim>\<open>posix-linux.c\<close>.  Addresses start with a length
  byte and a family byte for the guest and with a two-byte family for a Linux host; descriptors travel in control messages and
  are translated on the way out and filed on the way in.
\<close>

section \<open>Pointers and new descriptors\<close>

definition posix_wptr_range :: "yos_exec_ctx \<Rightarrow> u32 \<Rightarrow> nat \<Rightarrow> nat option" where
  "posix_wptr_range ctx offset len =
     (if len = 0 then (if offset \<le> memory_size ctx then Some (unat offset) else None)
      else if offset = 0 then None
      else if memory_size ctx \<le> offset then None
      else if unat (memory_size ctx) < unat offset + len then None
      else Some (unat offset))"

text \<open>Filing a descriptor the host has just opened; without a free slot it is closed here too, after the table has closed it.\<close>

definition file_new :: "(int \<Rightarrow> int) \<Rightarrow> yos_exec_ctx \<Rightarrow> int \<Rightarrow> fd_result" where
  "file_new h2g c h =
     (case yos_fd_alloc c h of (w, c1, es) \<Rightarrow>
        if w < 0 then (- 1, set_errno h2g c1 EMFILE, Opened h # es @ [Closed h]) else (w, c1, Opened h # es))"

text \<open>A host call gives a result and an error number, or an error number on the left.\<close>

definition yos_dup :: "(int \<Rightarrow> int) \<Rightarrow> (int \<Rightarrow> int + int) \<Rightarrow> yos_exec_ctx \<Rightarrow> int \<Rightarrow> fd_result" where
  "yos_dup h2g dup ctx wfd =
     (case yos_fd_get h2g ctx wfd of (hfd, c0) \<Rightarrow>
        if hfd < 0 then (- 1, set_errno h2g c0 EBADF, [])
        else case dup hfd of
            Inl e \<Rightarrow> (- 1, set_errno h2g c0 e, [])
          | Inr new_hfd \<Rightarrow>
              (case file_new h2g c0 new_hfd of (w, c1, es) \<Rightarrow>
                 if 0 \<le> w \<and> fd_paths c1 ! nat wfd \<noteq> None
                 then (w, c1\<lparr>fd_paths := (fd_paths c1)[nat w := fd_paths c1 ! nat wfd]\<rparr>, es)
                 else (w, c1, es)))"

section \<open>Addresses\<close>

definition read_host_sa_family :: "u8 list \<Rightarrow> u16" where
  "read_host_sa_family buf = ucast (buf ! 0) OR push_bit 8 (ucast (buf ! 1))"

definition freebsd_sockaddr_to_host :: "u8 list \<Rightarrow> u8 list" where
  "freebsd_sockaddr_to_host buf = (if 2 \<le> length buf then buf[0 := buf ! 1, 1 := 0] else buf)"

definition host_sockaddr_to_freebsd :: "u8 list \<Rightarrow> u8 list" where
  "host_sockaddr_to_freebsd src =
     (if 2 \<le> length src then src[0 := of_nat (length src), 1 := ucast (read_host_sa_family src AND 0xFF)] else src)"

text \<open>
  The host fills a buffer of 256 bytes and gives the length of the address, which may be more than there was room for.
\<close>

type_synonym host_name = "int \<Rightarrow> nat \<Rightarrow> int + u8 list \<times> u32"

definition put_name :: "mem \<Rightarrow> nat \<Rightarrow> nat \<Rightarrow> nat \<Rightarrow> u8 list \<Rightarrow> u32 \<Rightarrow> mem" where
  "put_name m w lenp cap buf host_len =
     (let out = (if unat host_len < cap then unat host_len else cap);
          m1 = (if 2 \<le> out
                then mem_write (m(w := of_nat out, w + 1 := ucast (read_host_sa_family buf AND 0xFF))) (w + 2) (take (out - 2) (drop 2 buf))
                else m)
      in store32 m1 lenp host_len)"

definition fetch_name :: "(int \<Rightarrow> int) \<Rightarrow> host_name \<Rightarrow> yos_exec_ctx \<Rightarrow> int \<Rightarrow> u32 \<Rightarrow> u32 \<Rightarrow> int \<times> yos_exec_ctx" where
  "fetch_name h2g name c hfd addr_off addrlen_off =
     (case posix_wptr_range c addrlen_off 4 of
        None \<Rightarrow> yos_errno_neg h2g c EFAULT
      | Some lenp \<Rightarrow>
          let cap = (if 256 < load32 (memory c) lenp then 256 else unat (load32 (memory c) lenp)) in
          (case posix_wptr_range c addr_off cap of
             None \<Rightarrow> yos_errno_neg h2g c EFAULT
           | Some w \<Rightarrow>
               (case name hfd cap of
                  Inl e \<Rightarrow> yos_errno_neg h2g c e
                | Inr (buf, host_len) \<Rightarrow> (0, c\<lparr>memory := put_name (memory c) w lenp cap buf host_len\<rparr>))))"

definition yos_getsockname :: "(int \<Rightarrow> int) \<Rightarrow> host_name \<Rightarrow> yos_exec_ctx \<Rightarrow> int \<Rightarrow> u32 \<Rightarrow> u32 \<Rightarrow> int \<times> yos_exec_ctx" where
  "yos_getsockname h2g getsockname ctx wfd addr_off addrlen_off =
     (case yos_fd_get h2g ctx wfd of (hfd, c0) \<Rightarrow>
        if hfd < 0 then yos_errno_neg h2g c0 EBADF else fetch_name h2g getsockname c0 hfd addr_off addrlen_off)"

definition yos_getpeername :: "(int \<Rightarrow> int) \<Rightarrow> host_name \<Rightarrow> yos_exec_ctx \<Rightarrow> int \<Rightarrow> u32 \<Rightarrow> u32 \<Rightarrow> int \<times> yos_exec_ctx" where
  "yos_getpeername h2g getpeername ctx fd addr_off addrlen_off =
     (case yos_fd_get h2g ctx fd of (hfd, c0) \<Rightarrow>
        if hfd < 0 then (hfd, c0)
        else if addr_off = 0 \<or> addrlen_off = 0 then yos_errno_neg h2g c0 EFAULT
        else fetch_name h2g getpeername c0 hfd addr_off addrlen_off)"

section \<open>Options and types\<close>

text \<open>The numbers of the guest's options and those of a Linux host.\<close>

definition sol_fb_to_lx :: "int \<Rightarrow> int" where
  "sol_fb_to_lx level = (if level = 0xFFFF then 1 else level)"

definition so_table :: "(int \<times> int) list" where
  "so_table = [(0x1008, 3), (0x1007, 4), (0x0004, 2), (0x0008, 9), (0x0020, 6), (0x0080, 13), (0x1001, 7), (0x1002, 8),
     (0x1005, 21), (0x1006, 20), (0x0100, 10), (0x0002, 30)]"

definition ip_table :: "(int \<times> int) list" where
  "ip_table = [(1, 4), (2, 3), (3, 1), (4, 2), (5, 6), (6, 7), (7, 8), (9, 32), (10, 33), (11, 34), (12, 35), (13, 36)]"

definition soopt_fb_to_lx :: "int \<Rightarrow> int \<Rightarrow> int" where
  "soopt_fb_to_lx level opt =
     (case map_of (if level = 0xFFFF then so_table else if level = 0 then ip_table else []) opt of Some o' \<Rightarrow> o' | None \<Rightarrow> opt)"

text \<open>Neither pointer of these two calls is checked.\<close>

definition yos_getsockopt ::
  "(int \<Rightarrow> int) \<Rightarrow> (int \<Rightarrow> int \<Rightarrow> int \<Rightarrow> u32 \<Rightarrow> int + u8 list \<times> u32) \<Rightarrow> yos_exec_ctx \<Rightarrow> int \<Rightarrow> int \<Rightarrow> int \<Rightarrow> u32 \<Rightarrow> u32 \<Rightarrow> int \<times> yos_exec_ctx" where
  "yos_getsockopt h2g getsockopt ctx wfd level opt valbuf lenptr =
     (case yos_fd_get h2g ctx wfd of (hfd, c0) \<Rightarrow>
        if hfd < 0 then yos_errno_neg h2g c0 EBADF
        else case getsockopt hfd (sol_fb_to_lx level) (soopt_fb_to_lx level opt) (load32 (memory c0) (unat lenptr)) of
            Inl e \<Rightarrow> yos_errno_neg h2g c0 e
          | Inr (bs, len) \<Rightarrow> (0, c0\<lparr>memory := store32 (mem_write (memory c0) (unat valbuf) bs) (unat lenptr) len\<rparr>))"

definition yos_setsockopt ::
  "(int \<Rightarrow> int) \<Rightarrow> (int \<Rightarrow> int \<Rightarrow> int \<Rightarrow> u8 list \<Rightarrow> int \<times> int) \<Rightarrow> yos_exec_ctx \<Rightarrow> int \<Rightarrow> int \<Rightarrow> int \<Rightarrow> u32 \<Rightarrow> u32 \<Rightarrow> int \<times> yos_exec_ctx" where
  "yos_setsockopt h2g setsockopt ctx wfd level opt valbuf valbuflen =
     (case yos_fd_get h2g ctx wfd of (hfd, c0) \<Rightarrow>
        if hfd < 0 then yos_errno_neg h2g c0 EBADF
        else case setsockopt hfd (sol_fb_to_lx level) (soopt_fb_to_lx level opt) (mem_bytes (memory c0) (unat valbuf) (unat valbuflen)) of
            (r, e) \<Rightarrow> yos_errno_check h2g c0 r e)"

definition sock_type_fb_to_lx :: "u32 \<Rightarrow> u32" where
  "sock_type_fb_to_lx t = (t AND 0xFF) OR (if t AND 0x10000000 \<noteq> 0 then 0x80000 else 0) OR (if t AND 0x20000000 \<noteq> 0 then 0x800 else 0)"

section \<open>Connections\<close>

definition yos_socket :: "(int \<Rightarrow> int) \<Rightarrow> (int \<Rightarrow> u32 \<Rightarrow> int \<Rightarrow> int + int) \<Rightarrow> yos_exec_ctx \<Rightarrow> int \<Rightarrow> u32 \<Rightarrow> int \<Rightarrow> fd_result" where
  "yos_socket h2g socket ctx domain typ protocol =
     (case socket domain (sock_type_fb_to_lx typ) protocol of
        Inl e \<Rightarrow> (- 1, set_errno h2g ctx e, [])
      | Inr hfd \<Rightarrow> file_new h2g ctx hfd)"

text \<open>\<^verbatim>\<open>bind\<close> checks where the address starts and that it fits the buffer, not where it ends.\<close>

definition yos_bind :: "(int \<Rightarrow> int) \<Rightarrow> (int \<Rightarrow> u8 list \<Rightarrow> int \<times> int) \<Rightarrow> yos_exec_ctx \<Rightarrow> int \<Rightarrow> u32 \<Rightarrow> u32 \<Rightarrow> int \<times> yos_exec_ctx" where
  "yos_bind h2g hbind ctx fd addr_off addrlen =
     (case yos_fd_get h2g ctx fd of (hfd, c0) \<Rightarrow>
        if hfd < 0 then (hfd, c0)
        else if memory_size c0 \<le> addr_off then yos_errno_neg h2g c0 EFAULT
        else if 256 < addrlen then yos_errno_neg h2g c0 EINVAL
        else case hbind hfd (freebsd_sockaddr_to_host (mem_bytes (memory c0) (unat addr_off) (unat addrlen))) of
            (r, e) \<Rightarrow> yos_errno_check h2g c0 r e)"

definition sock_call :: "(int \<Rightarrow> int) \<Rightarrow> (int \<Rightarrow> int \<times> int) \<Rightarrow> yos_exec_ctx \<Rightarrow> int \<Rightarrow> int \<times> yos_exec_ctx" where
  "sock_call h2g call ctx fd =
     (case yos_fd_get h2g ctx fd of (hfd, c0) \<Rightarrow> if hfd < 0 then (hfd, c0) else case call hfd of (r, e) \<Rightarrow> yos_errno_check h2g c0 r e)"

definition yos_listen :: "(int \<Rightarrow> int) \<Rightarrow> (int \<Rightarrow> int \<Rightarrow> int \<times> int) \<Rightarrow> yos_exec_ctx \<Rightarrow> int \<Rightarrow> int \<Rightarrow> int \<times> yos_exec_ctx" where
  "yos_listen h2g listen ctx fd backlog = sock_call h2g (\<lambda>h. listen h backlog) ctx fd"

definition yos_shutdown :: "(int \<Rightarrow> int) \<Rightarrow> (int \<Rightarrow> int \<Rightarrow> int \<times> int) \<Rightarrow> yos_exec_ctx \<Rightarrow> int \<Rightarrow> int \<Rightarrow> int \<times> yos_exec_ctx" where
  "yos_shutdown h2g shutdown ctx fd how = sock_call h2g (\<lambda>h. shutdown h how) ctx fd"

definition yos_connect :: "(int \<Rightarrow> int) \<Rightarrow> (int \<Rightarrow> u8 list \<Rightarrow> int \<times> int) \<Rightarrow> yos_exec_ctx \<Rightarrow> int \<Rightarrow> u32 \<Rightarrow> u32 \<Rightarrow> int \<times> yos_exec_ctx" where
  "yos_connect h2g connect ctx fd addr_off addrlen =
     (case yos_fd_get h2g ctx fd of (hfd, c0) \<Rightarrow>
        if hfd < 0 then (hfd, c0)
        else if 256 < addrlen then yos_errno_neg h2g c0 EINVAL
        else case posix_wptr_range c0 addr_off (unat addrlen) of
            None \<Rightarrow> yos_errno_neg h2g c0 EFAULT
          | Some p \<Rightarrow> (case connect hfd (freebsd_sockaddr_to_host (mem_bytes (memory c0) p (unat addrlen))) of
              (r, e) \<Rightarrow> yos_errno_check h2g c0 r e))"

text \<open>
  Where the peer's address goes: \<open>Some None\<close> when the guest does not want it, \<open>Some (Some (p, len))\<close> for a checked buffer, \<open>None\<close> for a
  bad one.  The host stores the address in its own layout, and its length is stored wherever the guest points.
\<close>

definition addr_room :: "yos_exec_ctx \<Rightarrow> u32 \<Rightarrow> u32 \<Rightarrow> (nat \<times> u32) option option" where
  "addr_room c addr_off addrlen_off =
     (if addr_off \<noteq> 0 \<and> addrlen_off \<noteq> 0 then
        do { q \<leftarrow> posix_wptr_range c addrlen_off 4;
             p \<leftarrow> posix_wptr_range c addr_off (unat (load32 (memory c) q));
             Some (Some (p, load32 (memory c) q)) }
      else Some None)"

definition put_addr :: "mem \<Rightarrow> (nat \<times> u32) option \<Rightarrow> u32 \<Rightarrow> u8 list \<Rightarrow> u32 \<Rightarrow> mem" where
  "put_addr m rm addrlen_off addr alen =
     (let m1 = (case rm of None \<Rightarrow> m | Some (p, cap) \<Rightarrow> mem_write m p (take (unat cap) addr))
      in if addrlen_off = 0 then m1 else store32 m1 (unat addrlen_off) (if rm = None then 0 else alen))"

definition yos_accept ::
  "(int \<Rightarrow> int) \<Rightarrow> (int \<Rightarrow> u32 option \<Rightarrow> int + int \<times> u8 list \<times> u32) \<Rightarrow> yos_exec_ctx \<Rightarrow> int \<Rightarrow> u32 \<Rightarrow> u32 \<Rightarrow> fd_result" where
  "yos_accept h2g accept ctx fd addr_off addrlen_off =
     (case yos_fd_get h2g ctx fd of (hfd, c0) \<Rightarrow>
        if hfd < 0 then (hfd, c0, [])
        else case addr_room c0 addr_off addrlen_off of
            None \<Rightarrow> (- 1, set_errno h2g c0 EFAULT, [])
          | Some rm \<Rightarrow>
              (case accept hfd (map_option snd rm) of
                 Inl e \<Rightarrow> (- 1, set_errno h2g c0 e, [])
               | Inr (newhfd, addr, alen) \<Rightarrow> file_new h2g (c0\<lparr>memory := put_addr (memory c0) rm addrlen_off addr alen\<rparr>) newhfd))"

definition yos_accept4 :: "(int \<Rightarrow> int) \<Rightarrow> (int \<Rightarrow> u32 \<Rightarrow> int + int) \<Rightarrow> yos_exec_ctx \<Rightarrow> int \<Rightarrow> u32 \<Rightarrow> u32 \<Rightarrow> u32 \<Rightarrow> fd_result" where
  "yos_accept4 h2g accept4 ctx wfd addr_off addrlen_off flags =
     (case yos_fd_get h2g ctx wfd of (hfd, c0) \<Rightarrow>
        if hfd < 0 then (- 1, set_errno h2g c0 EBADF, [])
        else case accept4 hfd ((if flags AND 0x10000000 \<noteq> 0 then 0x80000 else 0) OR (if flags AND 0x20000000 \<noteq> 0 then 0x800 else 0)) of
            Inl e \<Rightarrow> (- 1, set_errno h2g c0 e, [])
          | Inr new_hfd \<Rightarrow> file_new h2g c0 new_hfd)"

text \<open>
  A pair of sockets; \<open>cl\<close> is the host's \<^verbatim>\<open>close\<close>.  The flags of the type are set on the pair again by \<^verbatim>\<open>fcntl\<close>, which changes nothing here.
\<close>

definition yos_socketpair ::
  "(int \<Rightarrow> int) \<Rightarrow> (int \<Rightarrow> int \<times> int) \<Rightarrow> (int \<Rightarrow> u32 \<Rightarrow> int \<Rightarrow> int + int \<times> int) \<Rightarrow> yos_exec_ctx \<Rightarrow> int \<Rightarrow> u32 \<Rightarrow> int \<Rightarrow> u32 \<Rightarrow> fd_result" where
  "yos_socketpair h2g cl socketpair ctx domain typ protocol sv_off =
     (case posix_wptr_range ctx sv_off 8 of
        None \<Rightarrow> (- 1, set_errno h2g ctx EFAULT, [])
      | Some sv \<Rightarrow>
          (case socketpair domain (sock_type_fb_to_lx typ) protocol of
             Inl e \<Rightarrow> (- 1, set_errno h2g ctx e, [])
           | Inr (h0, h1) \<Rightarrow>
               (case yos_fd_alloc ctx h0 of (wa, c1, es1) \<Rightarrow>
                  if wa < 0 then (- 1, set_errno h2g c1 EMFILE, [Opened h0, Opened h1] @ es1 @ [Closed h0, Closed h1])
                  else case yos_fd_alloc c1 h1 of (wb, c2, es2) \<Rightarrow>
                    if wb < 0 then (case yos_fd_close h2g cl c2 wa of (_, c3, es3) \<Rightarrow>
                      (- 1, set_errno h2g c3 EMFILE, [Opened h0, Opened h1] @ es1 @ es2 @ es3 @ [Closed h1]))
                    else (0, c2\<lparr>memory := store32 (store32 (memory c2) sv (word_of_int wa)) (sv + 4) (word_of_int wb)\<rparr>,
                          [Opened h0, Opened h1] @ es1 @ es2))))"

section \<open>Data\<close>

definition yos_send ::
  "(int \<Rightarrow> int) \<Rightarrow> (int \<Rightarrow> u8 list \<Rightarrow> int \<Rightarrow> int \<times> int) \<Rightarrow> yos_exec_ctx \<Rightarrow> int \<Rightarrow> u32 \<Rightarrow> u32 \<Rightarrow> int \<Rightarrow> int \<times> yos_exec_ctx" where
  "yos_send h2g send ctx fd buf_off len flags =
     (case yos_fd_get h2g ctx fd of (hfd, c0) \<Rightarrow>
        if hfd < 0 then (hfd, c0)
        else case posix_wptr_range c0 buf_off (unat len) of
            None \<Rightarrow> yos_errno_neg h2g c0 EFAULT
          | Some p \<Rightarrow> (case send hfd (mem_bytes (memory c0) p (unat len)) flags of (n, e) \<Rightarrow> yos_errno_check h2g c0 n e))"

definition yos_recv ::
  "(int \<Rightarrow> int) \<Rightarrow> (int \<Rightarrow> nat \<Rightarrow> int \<Rightarrow> int + u8 list) \<Rightarrow> yos_exec_ctx \<Rightarrow> int \<Rightarrow> u32 \<Rightarrow> u32 \<Rightarrow> int \<Rightarrow> int \<times> yos_exec_ctx" where
  "yos_recv h2g recv ctx fd buf_off len flags =
     (case yos_fd_get h2g ctx fd of (hfd, c0) \<Rightarrow>
        if hfd < 0 then (hfd, c0)
        else case posix_wptr_range c0 buf_off (unat len) of
            None \<Rightarrow> yos_errno_neg h2g c0 EFAULT
          | Some p \<Rightarrow>
              (case recv hfd (unat len) flags of
                 Inl e \<Rightarrow> yos_errno_neg h2g c0 e
               | Inr bs \<Rightarrow> (int (length bs), c0\<lparr>memory := mem_write (memory c0) p bs\<rparr>)))"

text \<open>The destination goes to the host in the guest's layout.\<close>

definition yos_sendto ::
  "(int \<Rightarrow> int) \<Rightarrow> (int \<Rightarrow> u8 list \<Rightarrow> int \<Rightarrow> u8 list option \<Rightarrow> int \<times> int) \<Rightarrow> yos_exec_ctx \<Rightarrow> int \<Rightarrow> u32 \<Rightarrow> u32 \<Rightarrow> int \<Rightarrow> u32 \<Rightarrow> u32 \<Rightarrow> int \<times> yos_exec_ctx" where
  "yos_sendto h2g sendto ctx fd buf_off len flags dst_off dst_len =
     (case yos_fd_get h2g ctx fd of (hfd, c0) \<Rightarrow>
        if hfd < 0 then (hfd, c0)
        else case posix_wptr_range c0 buf_off (unat len) of
            None \<Rightarrow> yos_errno_neg h2g c0 EFAULT
          | Some p \<Rightarrow>
              if dst_off \<noteq> 0 \<and> posix_wptr_range c0 dst_off (unat dst_len) = None then yos_errno_neg h2g c0 EFAULT
              else
                let dst = (if dst_off = 0 then None else Some (mem_bytes (memory c0) (unat dst_off) (unat dst_len))) in
                (case sendto hfd (mem_bytes (memory c0) p (unat len)) flags dst of (n, e) \<Rightarrow> yos_errno_check h2g c0 n e))"

definition yos_recvfrom ::
  "(int \<Rightarrow> int) \<Rightarrow> (int \<Rightarrow> nat \<Rightarrow> int \<Rightarrow> u32 option \<Rightarrow> int + u8 list \<times> u8 list \<times> u32) \<Rightarrow> yos_exec_ctx \<Rightarrow> int \<Rightarrow> u32 \<Rightarrow> u32 \<Rightarrow> int \<Rightarrow> u32 \<Rightarrow> u32 \<Rightarrow>
   int \<times> yos_exec_ctx" where
  "yos_recvfrom h2g recvfrom ctx fd buf_off len flags src_off srclen_off =
     (case yos_fd_get h2g ctx fd of (hfd, c0) \<Rightarrow>
        if hfd < 0 then (hfd, c0)
        else case posix_wptr_range c0 buf_off (unat len) of
            None \<Rightarrow> yos_errno_neg h2g c0 EFAULT
          | Some p \<Rightarrow>
              (case addr_room c0 src_off srclen_off of
                 None \<Rightarrow> yos_errno_neg h2g c0 EFAULT
               | Some rm \<Rightarrow>
                   (case recvfrom hfd (unat len) flags (map_option snd rm) of
                      Inl e \<Rightarrow> yos_errno_neg h2g c0 e
                    | Inr (bs, addr, alen) \<Rightarrow>
                        (int (length bs), c0\<lparr>memory := put_addr (mem_write (memory c0) p bs) rm srclen_off addr alen\<rparr>))))"

end
