(* ===== verification/SocketMsgs.thy ===== *)
theory SocketMsgs
  imports Sockets
begin

text \<open>
  \<^verbatim>\<open>sendmsg\<close> and \<^verbatim>\<open>recvmsg\<close> of \<^verbatim>\<open>src/src/yos/impl/libc/posix.c\<close>: the guest's message header of seven words, its vector of buffers, and the
  control messages that carry descriptors.  The host's control buffer has 272 bytes on the stack; a message that does not fit is
  stored past its end.
\<close>

section \<open>Headers and vectors\<close>

definition yos_g_u32 :: "yos_exec_ctx \<Rightarrow> u32 \<Rightarrow> u32" where
  "yos_g_u32 ctx off = load32 (memory ctx) (unat off)"

definition yos_g_set_u32 :: "yos_exec_ctx \<Rightarrow> u32 \<Rightarrow> u32 \<Rightarrow> yos_exec_ctx" where
  "yos_g_set_u32 ctx off v = ctx\<lparr>memory := store32 (memory ctx) (unat off) v\<rparr>"

definition yos_fbsd_cmsg_align :: "u32 \<Rightarrow> u32" where
  "yos_fbsd_cmsg_align n = (n + 3) AND NOT 3"

fun msg_iov_loop :: "yos_exec_ctx \<Rightarrow> u32 \<Rightarrow> nat \<Rightarrow> host_iov list option" where
  "msg_iov_loop ctx entry 0 = Some []"
| "msg_iov_loop ctx entry (Suc n) =
     (if posix_wptr_range ctx entry 8 = None then None
      else
        let base = yos_g_u32 ctx entry; len = yos_g_u32 ctx (entry + 4) in
        if len \<noteq> 0 \<and> posix_wptr_range ctx base (unat len) = None then None
        else map_option (\<lambda>t. (if len \<noteq> 0 then Some (unat base) else None, len) # t) (msg_iov_loop ctx (entry + 8) n))"

definition yos_msg_build_iov :: "yos_exec_ctx \<Rightarrow> u32 \<Rightarrow> u32 \<Rightarrow> host_iov list option" where
  "yos_msg_build_iov ctx iov_off iovlen = (if 1024 < iovlen then None else msg_iov_loop ctx iov_off (unat iovlen))"

section \<open>Sending\<close>

text \<open>The host's sizes of a control message with \<open>k\<close> descriptors.\<close>

definition CMSG_LEN :: "nat \<Rightarrow> nat" where "CMSG_LEN k = 16 + 4 * k"
definition CMSG_SPACE :: "nat \<Rightarrow> nat" where "CMSG_SPACE k = 16 + (4 * k + 7) div 8 * 8"

abbreviation YOS_MSG_MAX_FDS :: nat where "YOS_MSG_MAX_FDS \<equiv> 64"
abbreviation YOS_MSG_CTRL_BUF :: nat where "YOS_MSG_CTRL_BUF \<equiv> 272"
abbreviation YOS_FBSD_SOL_SOCKET :: u32 where "YOS_FBSD_SOL_SOCKET \<equiv> 0xFFFF"
abbreviation YOS_FBSD_SCM_RIGHTS :: u32 where "YOS_FBSD_SCM_RIGHTS \<equiv> 1"

text \<open>The descriptors of one message; one that is not mapped goes out as \<open>-1\<close>.\<close>

fun cmsg_fds :: "(int \<Rightarrow> int) \<Rightarrow> u32 \<Rightarrow> nat \<Rightarrow> yos_exec_ctx \<Rightarrow> int list \<times> yos_exec_ctx" where
  "cmsg_fds h2g a 0 c = ([], c)"
| "cmsg_fds h2g a (Suc n) c =
     (case yos_fd_get h2g c (sint (yos_g_u32 c a)) of (real, c1) \<Rightarrow>
        case cmsg_fds h2g (a + 4) n c1 of (hs, c2) \<Rightarrow> (real # hs, c2))"

text \<open>The walk over the guest's control messages.  Positions are 32 bits wide, and it is not certain that the walk moves on.\<close>

datatype ctrl_out = CtrlDone "int list list" yos_exec_ctx | CtrlSmash

partial_function (option) send_ctrl ::
  "(int \<Rightarrow> int) \<Rightarrow> u32 \<Rightarrow> u32 \<Rightarrow> u32 \<Rightarrow> nat \<Rightarrow> int list list \<Rightarrow> yos_exec_ctx \<Rightarrow> ctrl_out option" where
  "send_ctrl h2g ctrl_off ctrl_len pos hpos hc c =
     (if pos + 12 \<le> ctrl_len then
        let cmsg_len = yos_g_u32 c (ctrl_off + pos); cmsg_level = yos_g_u32 c (ctrl_off + pos + 4); cmsg_type = yos_g_u32 c (ctrl_off + pos + 8) in
        if cmsg_len < 12 \<or> ctrl_len < pos + cmsg_len then Some (CtrlDone hc c)
        else if cmsg_level = YOS_FBSD_SOL_SOCKET \<and> cmsg_type = YOS_FBSD_SCM_RIGHTS then
          let nfds = min (unat (cmsg_len - 12) div 4) YOS_MSG_MAX_FDS in
          if YOS_MSG_CTRL_BUF < hpos + CMSG_LEN nfds then Some CtrlSmash
          else case cmsg_fds h2g (ctrl_off + pos + 12) nfds c of (hs, c1) \<Rightarrow>
            send_ctrl h2g ctrl_off ctrl_len (pos + yos_fbsd_cmsg_align cmsg_len) (hpos + CMSG_SPACE nfds) (hc @ [hs]) c1
        else send_ctrl h2g ctrl_off ctrl_len (pos + yos_fbsd_cmsg_align cmsg_len) hpos hc c
      else Some (CtrlDone hc c))"

text \<open>
  \<open>None\<close> is the call that never returns, \<open>Smash\<close> the one that overruns the stack.  The host gets the bytes, the destination and the lists of
  descriptors, and gives a result and an error number.
\<close>

datatype send_out = Sent int yos_exec_ctx | Smash

type_synonym host_sendmsg = "int \<Rightarrow> u8 list \<Rightarrow> u8 list option \<Rightarrow> int list list \<Rightarrow> int \<Rightarrow> int \<times> int"

definition yos_sendmsg :: "(int \<Rightarrow> int) \<Rightarrow> host_sendmsg \<Rightarrow> yos_exec_ctx \<Rightarrow> int \<Rightarrow> u32 \<Rightarrow> int \<Rightarrow> send_out option" where
  "yos_sendmsg h2g sendmsg ctx fd msg_off flags =
     (case yos_fd_get h2g ctx fd of (hfd, c0) \<Rightarrow>
        let fail = (\<lambda>c e. Some (Sent (- 1) (set_errno h2g c e))) in
        if hfd < 0 then Some (Sent hfd c0)
        else if posix_wptr_range c0 msg_off 28 = None then fail c0 EFAULT
        else
          let name_off = yos_g_u32 c0 msg_off; name_len = yos_g_u32 c0 (msg_off + 4);
              iov_off = yos_g_u32 c0 (msg_off + 8); iov_len = yos_g_u32 c0 (msg_off + 12);
              ctrl_off = yos_g_u32 c0 (msg_off + 16); ctrl_len = yos_g_u32 c0 (msg_off + 20);
              named = (name_off \<noteq> 0 \<and> name_len \<noteq> 0 \<and> name_len \<le> 256);
              name = (if named then Some (freebsd_sockaddr_to_host (mem_bytes (memory c0) (unat name_off) (unat name_len))) else None)
          in case yos_msg_build_iov c0 iov_off iov_len of
               None \<Rightarrow> fail c0 EINVAL
             | Some hiov \<Rightarrow>
                 if named \<and> posix_wptr_range c0 name_off (unat name_len) = None then fail c0 EFAULT
                 else if ctrl_off \<noteq> 0 \<and> 12 \<le> ctrl_len \<and> posix_wptr_range c0 ctrl_off (unat ctrl_len) = None then fail c0 EFAULT
                 else
                   do { out \<leftarrow> (if ctrl_off \<noteq> 0 \<and> 12 \<le> ctrl_len then send_ctrl h2g ctrl_off ctrl_len 0 0 [] c0 else Some (CtrlDone [] c0));
                        case out of
                          CtrlSmash \<Rightarrow> Some Smash
                        | CtrlDone hc c1 \<Rightarrow>
                            (case sendmsg hfd (gather (memory c1) hiov) name hc flags of
                               (n, e) \<Rightarrow> (case yos_errno_check h2g c1 n e of (r, c2) \<Rightarrow> Some (Sent r c2))) })"

section \<open>Receiving\<close>

text \<open>Filing the descriptors of one message and telling the guest their numbers.\<close>

fun file_fds :: "u32 \<Rightarrow> int list \<Rightarrow> yos_exec_ctx \<Rightarrow> yos_exec_ctx \<times> fd_event list" where
  "file_fds a [] c = (c, [])"
| "file_fds a (h # hs) c =
     (case yos_fd_alloc c h of (w, c1, es) \<Rightarrow>
        let wfd = (if w < 0 then - 1 else w); es1 = (if w < 0 then es @ [Closed h] else es) in
        case file_fds (a + 4) hs (yos_g_set_u32 c1 a (word_of_int wfd)) of (c2, es2) \<Rightarrow> (c2, es1 @ es2))"

text \<open>
  The host's control messages are level, type and descriptors.  One that does not fit ends the walk: its descriptors stay open
  and are filed nowhere.
\<close>

type_synonym host_cmsg = "int \<times> int \<times> int list"

definition put_cmsg :: "u32 \<Rightarrow> int list \<Rightarrow> yos_exec_ctx \<Rightarrow> yos_exec_ctx \<times> fd_event list" where
  "put_cmsg a hs c =
     (let c1 = yos_g_set_u32 c a (12 + of_nat (length hs) * 4);
          c2 = yos_g_set_u32 (yos_g_set_u32 c1 (a + 4) YOS_FBSD_SOL_SOCKET) (a + 8) YOS_FBSD_SCM_RIGHTS
      in file_fds (a + 12) hs c2)"

fun recv_ctrl :: "u32 \<Rightarrow> u32 \<Rightarrow> host_cmsg list \<Rightarrow> u32 \<Rightarrow> yos_exec_ctx \<Rightarrow> u32 \<times> yos_exec_ctx \<times> fd_event list" where
  "recv_ctrl ctrl_off ctrl_len [] gpos c = (gpos, c, [])"
| "recv_ctrl ctrl_off ctrl_len ((level, typ, hs) # hc) gpos c =
     (if level = 1 \<and> typ = 1 then
        let need = 12 + of_nat (length hs) * 4 in
        if ctrl_len < gpos + need then (gpos, c, [])
        else case put_cmsg (ctrl_off + gpos) hs c of (c1, es1) \<Rightarrow>
          case recv_ctrl ctrl_off ctrl_len hc (gpos + yos_fbsd_cmsg_align need) c1 of (g, c2, es2) \<Rightarrow> (g, c2, es1 @ es2)
      else recv_ctrl ctrl_off ctrl_len hc gpos c)"

text \<open>The host gives the bytes, at most as many as the vector holds, the control messages and the message flags.\<close>

type_synonym host_recvmsg = "int \<Rightarrow> nat \<Rightarrow> bool \<Rightarrow> int \<Rightarrow> int + u8 list \<times> host_cmsg list \<times> u32"

definition yos_recvmsg :: "(int \<Rightarrow> int) \<Rightarrow> host_recvmsg \<Rightarrow> yos_exec_ctx \<Rightarrow> int \<Rightarrow> u32 \<Rightarrow> int \<Rightarrow> fd_result" where
  "yos_recvmsg h2g recvmsg ctx fd msg_off flags =
     (case yos_fd_get h2g ctx fd of (hfd, c0) \<Rightarrow>
        let fail = (\<lambda>c e. (- 1, set_errno h2g c e, [])) in
        if hfd < 0 then (hfd, c0, [])
        else if posix_wptr_range c0 msg_off 28 = None then fail c0 EFAULT
        else
          let iov_off = yos_g_u32 c0 (msg_off + 8); iov_len = yos_g_u32 c0 (msg_off + 12);
              ctrl_off = yos_g_u32 c0 (msg_off + 16); ctrl_len = yos_g_u32 c0 (msg_off + 20);
              want_ctrl = (ctrl_off \<noteq> 0 \<and> 12 \<le> ctrl_len)
          in case yos_msg_build_iov c0 iov_off iov_len of
               None \<Rightarrow> fail c0 EINVAL
             | Some hiov \<Rightarrow>
                 if want_ctrl \<and> posix_wptr_range c0 ctrl_off (unat ctrl_len) = None then fail c0 EFAULT
                 else case recvmsg hfd (iov_total hiov) want_ctrl flags of
                     Inl e \<Rightarrow> fail c0 e
                   | Inr (bs, hc, msg_flags) \<Rightarrow>
                       let c1 = c0\<lparr>memory := scatter (memory c0) hiov bs\<rparr>;
                           opens = map Opened (concat (map (\<lambda>(l, t, hs). hs) hc)) in
                       (case (if want_ctrl then recv_ctrl ctrl_off ctrl_len hc 0 c1 else (0, c1, [])) of (gpos, c2, es) \<Rightarrow>
                          let c3 = (if ctrl_off \<noteq> 0 \<or> ctrl_len \<noteq> 0 then yos_g_set_u32 c2 (msg_off + 20) gpos else c2)
                          in (int (length bs), yos_g_set_u32 c3 (msg_off + 24) msg_flags, opens @ es)))"

end
