(* ===== verification/SocketProps.thy ===== *)
theory SocketProps
  imports SocketMsgs
begin

text \<open>
  What holds of sockets: addresses survive the way to the host and back, control messages hand exactly the guest's descriptors to the host or
  overrun the buffer, and received descriptors are filed, each under a number the guest is told.
\<close>

section \<open>Addresses\<close>

lemma posix_wptr_range_eq: "posix_wptr_range = wptr_range"
  by (intro ext) (simp add: posix_wptr_range_def wptr_range_def)

lemma low_family: "ucast (read_host_sa_family buf AND 0xFF) = buf ! 0"
proof (rule bit_word_eqI)
  fix n assume "n < LENGTH(8)"
  then have n: "n < 8" by simp
  have m: "(0xFF :: u16) = mask 8" by (simp add: mask_eq_exp_minus_1)
  show "bit (ucast (read_host_sa_family buf AND 0xFF) :: u8) n = bit (buf ! 0) n"
    unfolding m using n by (auto simp: read_host_sa_family_def bit_simps)
qed

lemma sockaddr_layouts:
  assumes "2 \<le> length a" and "a ! 0 = of_nat (length a)"
  shows "host_sockaddr_to_freebsd (freebsd_sockaddr_to_host a) = a"
proof -
  obtain x y t where a: "a = x # y # t" using assms(1) by (cases a; cases "tl a") auto
  show ?thesis using assms unfolding a by (simp add: host_sockaddr_to_freebsd_def freebsd_sockaddr_to_host_def low_family)
qed

text \<open>
  An address that the guest binds and asks for again, from a host that keeps it, comes back as it was, when it says its own length.
\<close>

lemma bind_getsockname_roundtrip:
  assumes "2 \<le> length a" and "length a < 256" and "a ! 0 = of_nat (length a)" and "length a \<le> cap" and "lenp + 4 \<le> w \<or> w + length a \<le> lenp"
  shows "mem_bytes (put_name m w lenp cap (freebsd_sockaddr_to_host a @ rest) (of_nat (length a))) w (length a) = a"
proof -
  obtain x y t where a: "a = x # y # t" using assms(1) by (cases a; cases "tl a") auto
  let ?n = "length a"
  have f: "freebsd_sockaddr_to_host a @ rest = y # 0 # t @ rest" by (simp add: a freebsd_sockaddr_to_host_def)
  have u: "unat (of_nat ?n :: u32) = ?n" using assms(2) by (simp add: unat_of_nat)
  let ?m1 = "mem_write (m(w := of_nat ?n, w + 1 := y)) (w + 2) t"
  have "put_name m w lenp cap (freebsd_sockaddr_to_host a @ rest) (of_nat ?n) = store32 ?m1 lenp (of_nat ?n)"
  proof -
    have "(if ?n < cap then ?n else cap) = ?n" using assms(4) by simp
    then show ?thesis using assms(1) unfolding put_name_def Let_def u f low_family by (simp add: a)
  qed
  moreover have "store32 ?m1 lenp (of_nat ?n) (w + i) = ?m1 (w + i)" if "i < ?n" for i
    using assms(5) that by (intro store32_other) auto
  moreover have "?m1 (w + i) = a ! i" if "i < ?n" for i
  proof -
    consider "i = 0" | "i = 1" | k where "i = k + 2" by atomize_elim presburger
    then show ?thesis
    proof cases
      case 1
      then show ?thesis using assms(3) by (simp add: a mem_write_def)
    next
      case 2
      then show ?thesis by (simp add: a mem_write_def)
    next
      case 3
      then show ?thesis using that by (simp add: a mem_write_def)
    qed
  qed
  ultimately show ?thesis unfolding mem_bytes_def by (intro nth_equalityI) simp_all
qed

section \<open>Sending descriptors\<close>

text \<open>Well-formed control messages in memory: level, type and the words of the data.\<close>

type_synonym cmsg = "u32 \<times> u32 \<times> u32 list"

fun ctrl_at :: "mem \<Rightarrow> nat \<Rightarrow> cmsg list \<Rightarrow> bool" where
  "ctrl_at m a [] = True"
| "ctrl_at m a ((level, typ, ws) # ms) \<longleftrightarrow>
     load32 m a = of_nat (12 + 4 * length ws) \<and> load32 m (a + 4) = level \<and> load32 m (a + 8) = typ \<and>
     (\<forall>i<length ws. load32 m (a + 12 + 4 * i) = ws ! i) \<and> ctrl_at m (a + 12 + 4 * length ws) ms"

definition ctrl_size :: "cmsg list \<Rightarrow> nat" where
  "ctrl_size ms = (\<Sum>(l, t, ws)\<leftarrow>ms. 12 + 4 * length ws)"

text \<open>The descriptors among the messages.\<close>

definition rights :: "cmsg list \<Rightarrow> u32 list list" where
  "rights ms = map (snd \<circ> snd) (filter (\<lambda>(l, t, ws). l = YOS_FBSD_SOL_SOCKET \<and> t = YOS_FBSD_SCM_RIGHTS) ms)"

text \<open>The host's room for the messages, each with at most 64 of its descriptors.\<close>

definition ctrl_space :: "cmsg list \<Rightarrow> nat" where
  "ctrl_space ms = (\<Sum>ws\<leftarrow>rights ms. CMSG_SPACE (min (length ws) YOS_MSG_MAX_FDS))"

definition mapped :: "yos_exec_ctx \<Rightarrow> u32 \<Rightarrow> bool" where
  "mapped c w \<longleftrightarrow> unat w < YOS_FD_MAX \<and> 0 \<le> fd_map c ! unat w"

definition host_of :: "yos_exec_ctx \<Rightarrow> u32 \<Rightarrow> int" where
  "host_of c w = fd_map c ! unat w"

lemma small_sint: "unat (w :: u32) < 256 \<Longrightarrow> sint w = int (unat w)"
proof -
  assume "unat w < 256"
  then have "int (unat w) < 2147483648" by linarith
  then show ?thesis using sint_word_of_int_small [of "int (unat w)"] by simp
qed

lemma fd_get_mapped: "mapped c w \<Longrightarrow> yos_fd_get h2g c (sint w) = (host_of c w, c)"
proof -
  assume a: "mapped c w"
  then have "int (unat w) < 256" by (simp add: mapped_def del: of_nat_unat)
  moreover have "sint w = int (unat w)" "nat (int (unat w)) = unat w" "int (unat w) \<noteq> AT_FDCWD" "\<not> int (unat w) < 0"
    using a by (simp_all add: mapped_def small_sint del: of_nat_unat)
  ultimately show ?thesis using a by (simp add: yos_fd_get_def mapped_def host_of_def Let_def del: of_nat_unat)
qed

lemma cmsg_fds_mapped:
  assumes "\<forall>i<length ws. load32 (memory c) (unat a + 4 * i) = ws ! i" and "\<forall>w\<in>set ws. mapped c w" and "unat a + 4 * length ws < 2 ^ 32"
  shows "cmsg_fds h2g a (length ws) c = (map (host_of c) ws, c)"
  using assms
proof (induction ws arbitrary: a)
  case (Cons w ws)
  have "unat (a + 4) = unat a + 4" using Cons.prems(3) by (simp add: unat_add_nowrap)
  moreover have "load32 (memory c) (unat a + 4 + 4 * i) = ws ! i" if "i < length ws" for i
    using Cons.prems(1) [rule_format, of "Suc i"] that by (simp add: ac_simps)
  ultimately have "cmsg_fds h2g (a + 4) (length ws) c = (map (host_of c) ws, c)"
    using Cons.IH [of "a + 4"] Cons.prems by simp
  moreover have "yos_g_u32 c a = w" using Cons.prems(1) [rule_format, of 0] by (simp add: yos_g_u32_def)
  ultimately show ?case using fd_get_mapped Cons.prems(2) by simp
qed simp

lemma cmsg_align_multiple: "12 + 4 * k + 3 < 2 ^ 32 \<Longrightarrow> yos_fbsd_cmsg_align (of_nat (12 + 4 * k)) = of_nat (12 + 4 * k)"
proof -
  assume k: "12 + 4 * k + 3 < (2 :: nat) ^ 32"
  let ?n = "of_nat (12 + 4 * k) :: u32"
  have n: "unat ?n = 12 + 4 * k" using k by (intro unat_of_nat_u32) simp
  have "yos_fbsd_cmsg_align ?n = (?n + 3) AND NOT (mask 2)" by (simp add: yos_fbsd_cmsg_align_def mask_eq_exp_minus_1)
  then have "unat (yos_fbsd_cmsg_align ?n) = unat (?n + 3) div 4 * 4" using unat_and_not_mask [of "?n + 3" 2] by simp
  also have "unat (?n + 3) = 4 * (3 + k) + 3" using k unat_add_nowrap [of ?n 3] n by simp
  also have "(4 * (3 + k) + 3) div 4 * 4 = unat ?n" using n by simp
  finally show ?thesis by (simp add: word_unat_eq_iff)
qed

lemma rights_Cons: "rights ((l, t, ws) # ms) = (if l = YOS_FBSD_SOL_SOCKET \<and> t = YOS_FBSD_SCM_RIGHTS then ws # rights ms else rights ms)"
  by (simp add: rights_def)

lemma cmsg_fits:
  assumes "8 dvd hpos" and "\<not> YOS_MSG_CTRL_BUF < hpos + CMSG_LEN k"
  shows "8 dvd hpos + CMSG_SPACE k" and "hpos + CMSG_SPACE k \<le> YOS_MSG_CTRL_BUF"
proof -
  obtain q where q: "hpos = 8 * q" using assms(1) by blast
  show "8 dvd hpos + CMSG_SPACE k" by (auto simp: q CMSG_SPACE_def intro!: dvd_add)
  have "8 * q + 16 + 4 * k \<le> 272" using assms(2) q by (simp add: CMSG_LEN_def)
  then show "hpos + CMSG_SPACE k \<le> YOS_MSG_CTRL_BUF" unfolding q CMSG_SPACE_def by presburger
qed

text \<open>
  One turn of the walk at a well-formed message.
\<close>

lemma send_ctrl_step:
  assumes "ctrl_at (memory c) (unat co + unat pos) ((lv, ty, ws) # ms)" and "unat pos + (12 + 4 * length ws) \<le> unat cl"
    and "unat co + unat cl < 2 ^ 32" and "unat cl + 12 < 2 ^ 32"
  shows "unat (pos + of_nat (12 + 4 * length ws)) = unat pos + (12 + 4 * length ws)"
    and "\<not> (lv = YOS_FBSD_SOL_SOCKET \<and> ty = YOS_FBSD_SCM_RIGHTS) \<Longrightarrow>
      send_ctrl h2g co cl pos hpos hc c = send_ctrl h2g co cl (pos + of_nat (12 + 4 * length ws)) hpos hc c"
    and "lv = YOS_FBSD_SOL_SOCKET \<Longrightarrow> ty = YOS_FBSD_SCM_RIGHTS \<Longrightarrow> \<forall>w\<in>set (take YOS_MSG_MAX_FDS ws). mapped c w \<Longrightarrow>
      send_ctrl h2g co cl pos hpos hc c =
        (if YOS_MSG_CTRL_BUF < hpos + CMSG_LEN (min (length ws) YOS_MSG_MAX_FDS) then Some CtrlSmash
         else send_ctrl h2g co cl (pos + of_nat (12 + 4 * length ws)) (hpos + CMSG_SPACE (min (length ws) YOS_MSG_MAX_FDS))
           (hc @ [map (host_of c) (take YOS_MSG_MAX_FDS ws)]) c)"
proof -
  let ?L = "12 + 4 * length ws" and ?a = "unat co + unat pos"
  let ?l = "of_nat ?L :: u32"
  have l: "unat ?l = ?L" using assms(2,4) by (intro unat_of_nat_u32) simp
  have u: "unat (co + pos) = ?a" "unat (co + pos + 4) = ?a + 4" "unat (co + pos + 8) = ?a + 8" "unat (co + pos + 12) = ?a + 12" "unat (pos + 12) = unat pos + 12"
    using assms(2-4) by (simp_all add: unat_add_u32)
  show p: "unat (pos + ?l) = unat pos + ?L" using l assms(2-4) by (simp add: unat_add_u32 del: of_nat_add of_nat_mult)
  have g: "yos_g_u32 c (co + pos) = ?l" "yos_g_u32 c (co + pos + 4) = lv" "yos_g_u32 c (co + pos + 8) = ty"
    using assms(1) by (simp_all add: yos_g_u32_def u)
  have in1: "pos + 12 \<le> cl" using assms(2) by (simp add: word_le_nat_alt u)
  have in2: "\<not> (?l < 12 \<or> cl < pos + ?l)" using assms(2) by (simp add: word_less_nat_alt l p del: of_nat_add of_nat_mult)
  have al: "yos_fbsd_cmsg_align ?l = ?l" using assms(2,4) by (intro cmsg_align_multiple) simp
  note step = send_ctrl.simps [of h2g co cl pos hpos hc c, unfolded Let_def g, unfolded if_P [OF in1] if_not_P [OF in2] al]
  show "send_ctrl h2g co cl pos hpos hc c = send_ctrl h2g co cl (pos + ?l) hpos hc c" if "\<not> (lv = YOS_FBSD_SOL_SOCKET \<and> ty = YOS_FBSD_SCM_RIGHTS)"
    unfolding step if_not_P [OF that] ..
  have "unat (?l - 12) = 4 * length ws" using l by (simp add: unat_sub word_le_nat_alt del: of_nat_add of_nat_mult)
  then have n: "min (unat (?l - 12) div 4) YOS_MSG_MAX_FDS = min (length ws) YOS_MSG_MAX_FDS" by simp
  have f: "cmsg_fds h2g (co + pos + 12) (min (length ws) YOS_MSG_MAX_FDS) c = (map (host_of c) (take YOS_MSG_MAX_FDS ws), c)"
    if "\<forall>w\<in>set (take YOS_MSG_MAX_FDS ws). mapped c w"
    using cmsg_fds_mapped [of "take YOS_MSG_MAX_FDS ws" c "co + pos + 12" h2g] assms that by (simp add: u)
  show "send_ctrl h2g co cl pos hpos hc c =
        (if YOS_MSG_CTRL_BUF < hpos + CMSG_LEN (min (length ws) YOS_MSG_MAX_FDS) then Some CtrlSmash
         else send_ctrl h2g co cl (pos + ?l) (hpos + CMSG_SPACE (min (length ws) YOS_MSG_MAX_FDS))
           (hc @ [map (host_of c) (take YOS_MSG_MAX_FDS ws)]) c)"
    if "lv = YOS_FBSD_SOL_SOCKET" "ty = YOS_FBSD_SCM_RIGHTS" "\<forall>w\<in>set (take YOS_MSG_MAX_FDS ws). mapped c w"
    unfolding step if_P [OF conjI [OF that(1,2)]] n f [OF that(3)] prod.case ..
qed

lemma send_ctrl_run:
  assumes "ctrl_at (memory c) (unat co + unat pos) ms" and "unat cl = unat pos + ctrl_size ms" and "unat co + unat cl < 2 ^ 32"
    and "unat cl + 12 < 2 ^ 32" and "\<forall>ws\<in>set (rights ms). \<forall>w\<in>set (take YOS_MSG_MAX_FDS ws). mapped c w"
    and "8 dvd hpos" and "hpos \<le> YOS_MSG_CTRL_BUF"
  shows "send_ctrl h2g co cl pos hpos hc c =
    Some (if hpos + ctrl_space ms \<le> YOS_MSG_CTRL_BUF then CtrlDone (hc @ map (map (host_of c) \<circ> take YOS_MSG_MAX_FDS) (rights ms)) c else CtrlSmash)"
  using assms
proof (induction ms arbitrary: pos hpos hc)
  case Nil
  then have "\<not> pos + 12 \<le> cl" by (simp add: ctrl_size_def word_le_nat_alt unat_add_u32)
  then show ?case using Nil by (simp add: send_ctrl.simps [of h2g co cl pos] ctrl_space_def rights_def)
next
  case (Cons m ms)
  obtain lv ty ws where m: "m = (lv, ty, ws)" by (cases m)
  let ?L = "12 + 4 * length ws"
  have at: "ctrl_at (memory c) (unat co + unat pos) ((lv, ty, ws) # ms)" using Cons.prems(1) m by simp
  have le: "unat pos + ?L \<le> unat cl" using Cons.prems(2) m by (simp add: ctrl_size_def)
  note st = send_ctrl_step [OF at le Cons.prems(3,4)]
  have at': "ctrl_at (memory c) (unat co + unat (pos + of_nat ?L)) ms" using at st(1) by (simp add: ac_simps del: of_nat_add of_nat_mult)
  have sz: "unat cl = unat (pos + of_nat ?L) + ctrl_size ms" using Cons.prems(2) m st(1) by (simp add: ctrl_size_def del: of_nat_add of_nat_mult)
  note IH = Cons.IH [OF at' sz Cons.prems(3,4)]
  show ?case
  proof (cases "lv = YOS_FBSD_SOL_SOCKET \<and> ty = YOS_FBSD_SCM_RIGHTS")
    case False
    then have "rights (m # ms) = rights ms" by (simp add: m rights_Cons)
    then show ?thesis using st(2) [OF False] IH [of hpos hc] Cons.prems(5-7) by (simp add: ctrl_space_def)
  next
    case True
    then have r: "rights (m # ms) = ws # rights ms" by (simp add: m rights_Cons)
    then have ws: "\<forall>w\<in>set (take YOS_MSG_MAX_FDS ws). mapped c w" using Cons.prems(5) by simp
    let ?k = "min (length ws) YOS_MSG_MAX_FDS"
    note s = st(3) [OF True [THEN conjunct1] True [THEN conjunct2] ws, of h2g hpos hc]
    show ?thesis
    proof (cases "YOS_MSG_CTRL_BUF < hpos + CMSG_LEN ?k")
      case True
      moreover have "CMSG_LEN ?k \<le> CMSG_SPACE ?k" unfolding CMSG_LEN_def CMSG_SPACE_def by presburger
      ultimately show ?thesis using s r by (simp add: ctrl_space_def)
    next
      case fit: False
      then show ?thesis
        using s r IH [of "hpos + CMSG_SPACE ?k" "hc @ [map (host_of c) (take YOS_MSG_MAX_FDS ws)]"] cmsg_fits [OF Cons.prems(6) fit] Cons.prems(5)
        by (simp add: ctrl_space_def ac_simps)
    qed
  qed
qed

text \<open>The destination that a header names: an address of at most 256 bytes; a longer one is passed over.\<close>

definition destination :: "yos_exec_ctx \<Rightarrow> u32 \<Rightarrow> u32 \<Rightarrow> u8 list option" where
  "destination c a n = (if a \<noteq> 0 \<and> n \<noteq> 0 \<and> n \<le> 256 then Some (mem_bytes (memory c) (unat a) (unat n)) else None)"

text \<open>
  Claim C35: descriptors travel.  Take a mapped socket, a message header in linear memory with a vector that the call accepts, whose destination, if
  it names one, lies in linear memory, and whose control data lies there too and is a non-empty sequence of well-formed control messages,
  the first 64 descriptors of each mapped.  The message is handed to the host, once, on the host's socket: the host gets the
  gathered bytes, the destination in its own layout (none for an address over 256 bytes) and, for each message that carries descriptors,
  the host descriptors behind the first 64 of the guest's, in order; further descriptors and other control messages are dropped.  This is
  so exactly while the host's copies of those messages fit its buffer of 272 bytes, which a single message always does; beyond that the call
  overruns the stack.
\<close>

theorem sendmsg_passes_descriptors:
  assumes "0 \<le> fd" and "fd < int YOS_FD_MAX" and "0 \<le> fd_map c ! nat fd" and "posix_wptr_range c msg_off 28 \<noteq> None"
    and "destination c (yos_g_u32 c msg_off) (yos_g_u32 c (msg_off + 4)) = dest"
    and "dest \<noteq> None \<longrightarrow> posix_wptr_range c (yos_g_u32 c msg_off) (unat (yos_g_u32 c (msg_off + 4))) \<noteq> None"
    and "yos_msg_build_iov c (yos_g_u32 c (msg_off + 8)) (yos_g_u32 c (msg_off + 12)) = Some hiov"
    and "yos_g_u32 c (msg_off + 16) = co" and "yos_g_u32 c (msg_off + 20) = cl"
    and "posix_wptr_range c co (unat cl) \<noteq> None" and "unat cl + 12 < 2 ^ 32" and "unat cl = ctrl_size ms" and "ms \<noteq> []"
    and "ctrl_at (memory c) (unat co) ms" and "\<forall>ws\<in>set (rights ms). \<forall>w\<in>set (take 64 ws). mapped c w"
  shows "yos_sendmsg h2g sendmsg c fd msg_off flags =
      Some (if ctrl_space ms \<le> 272
            then (case sendmsg (fd_map c ! nat fd) (gather (memory c) hiov) (map_option freebsd_sockaddr_to_host dest)
                  (map (map (host_of c) \<circ> take 64) (rights ms)) flags of
              (n, e) \<Rightarrow> (case yos_errno_check h2g c n e of (r, c') \<Rightarrow> Sent r c')) else Smash) \<and>
    (length ms = 1 \<longrightarrow> ctrl_space ms \<le> 272)"
proof
  have g: "yos_fd_get h2g c fd = (fd_map c ! nat fd, c)" using assms(1-3) by (simp add: yos_fd_get_def)
  obtain m ms' where ms: "ms = m # ms'" using assms(13) by (cases ms) auto
  have l: "12 \<le> unat cl" using assms(12) ms by (cases m) (simp add: ctrl_size_def)
  then have l': "12 \<le> cl" by (simp add: word_le_nat_alt)
  have co: "co \<noteq> 0" using assms(10) l by (auto simp: posix_wptr_range_def)
  have "unat co + unat cl \<le> unat (memory_size c)" using assms(10) wptr_range_Some [of c co "unat cl"] by (auto simp: posix_wptr_range_eq)
  then have "unat co + unat cl < 2 ^ 32" using unat_u32_lt [of "memory_size c"] by simp
  then have run: "send_ctrl h2g co cl 0 0 [] c =
      Some (if ctrl_space ms \<le> YOS_MSG_CTRL_BUF then CtrlDone (map (map (host_of c) \<circ> take 64) (rights ms)) c else CtrlSmash)"
    using send_ctrl_run [of c co 0 ms cl 0 h2g "[]"] assms(11-15) by simp
  show "yos_sendmsg h2g sendmsg c fd msg_off flags =
      Some (if ctrl_space ms \<le> 272
            then (case sendmsg (fd_map c ! nat fd) (gather (memory c) hiov) (map_option freebsd_sockaddr_to_host dest)
                  (map (map (host_of c) \<circ> take 64) (rights ms)) flags of
              (n, e) \<Rightarrow> (case yos_errno_check h2g c n e of (r, c') \<Rightarrow> Sent r c')) else Smash)"
    using assms(3,4,5,6,10) l' co
    by (cases "yos_g_u32 c msg_off \<noteq> 0 \<and> yos_g_u32 c (msg_off + 4) \<noteq> 0 \<and> yos_g_u32 c (msg_off + 4) \<le> 256")
      (auto simp: yos_sendmsg_def g Let_def assms(7-9) run destination_def split: prod.splits)
  have "CMSG_SPACE (min k YOS_MSG_MAX_FDS) \<le> YOS_MSG_CTRL_BUF" for k unfolding CMSG_SPACE_def by presburger
  then have "ctrl_space [m] \<le> YOS_MSG_CTRL_BUF" if "ms = [m]" using that by (cases m) (auto simp: ctrl_space_def rights_Cons rights_def)
  then show "length ms = 1 \<longrightarrow> ctrl_space ms \<le> 272" using ms by auto
qed

text \<open>A second message whose length is \<open>-12\<close> leads the walk back to the first one, for ever.\<close>

lemma send_ctrl_hangs:
  assumes "ctrl_at (memory c) (unat co) [(0, 0, [])]" and "load32 (memory c) (unat co + 12) = - 12" and "load32 (memory c) (unat co + 16) = 0"
    and "unat co + 24 < 2 ^ 32" and "24 \<le> cl" and "unat cl + 12 < 2 ^ 32"
  shows "send_ctrl h2g co cl 0 0 [] c = None"
proof -
  have u: "unat (co + 4) = unat co + 4" "unat (co + 8) = unat co + 8" "unat (co + 12) = unat co + 12" "unat (co + 12 + 4) = unat co + 16" "unat (16 + co) = unat co + 16"
    using assms(4) by (simp_all add: unat_add_u32)
  have w: "yos_g_u32 c co = 12" "yos_g_u32 c (co + 4) = 0" "yos_g_u32 c (co + 12) = - 12" "yos_g_u32 c (co + 12 + 4) = 0" "yos_g_u32 c (16 + co) = 0"
    using assms(1-3) by (simp_all add: yos_g_u32_def u)
  have le: "12 \<le> cl" "24 \<le> cl" using assms(5) by (simp_all add: word_le_nat_alt)
  have al: "yos_fbsd_cmsg_align 12 = 12" "yos_fbsd_cmsg_align (- 12) = - 12" by (simp_all add: yos_fbsd_cmsg_align_def)
  have False if some: "send_ctrl h2g co cl 0 0 [] c = Some y" for y
  proof -
    let ?P = "\<lambda>h' co' cl' pos' (hpos' :: nat) (hc' :: int list list) c' (_ :: ctrl_out). co' = co \<and> cl' = cl \<and> c' = c \<longrightarrow> pos' \<noteq> 0 \<and> pos' \<noteq> (12 :: u32)"
    have "?P h2g co cl 0 0 [] c y"
    proof (rule send_ctrl.raw_induct [where P = ?P, OF _ some])
      fix g h' co' cl' pos' hpos' hc' c' y
      assume g: "\<And>h' co' cl' pos' hpos' hc' c' y. g h' co' cl' pos' hpos' hc' c' = Some y \<Longrightarrow> ?P h' co' cl' pos' hpos' hc' c' y"
        and run: "(if pos' + 12 \<le> cl' then
          let cmsg_len = yos_g_u32 c' (co' + pos'); cmsg_level = yos_g_u32 c' (co' + pos' + 4); cmsg_type = yos_g_u32 c' (co' + pos' + 8) in
          if cmsg_len < 12 \<or> cl' < pos' + cmsg_len then Some (CtrlDone hc' c')
          else if cmsg_level = YOS_FBSD_SOL_SOCKET \<and> cmsg_type = YOS_FBSD_SCM_RIGHTS then
            let nfds = min (unat (cmsg_len - 12) div 4) YOS_MSG_MAX_FDS in
            if YOS_MSG_CTRL_BUF < hpos' + CMSG_LEN nfds then Some CtrlSmash
            else case cmsg_fds h' (co' + pos' + 12) nfds c' of (hs, c1) \<Rightarrow>
              g h' co' cl' (pos' + yos_fbsd_cmsg_align cmsg_len) (hpos' + CMSG_SPACE nfds) (hc' @ [hs]) c1
          else g h' co' cl' (pos' + yos_fbsd_cmsg_align cmsg_len) hpos' hc' c'
          else Some (CtrlDone hc' c')) = Some y"
      show "?P h' co' cl' pos' hpos' hc' c' y"
      proof (intro impI conjI notI)
        assume eq: "co' = co \<and> cl' = cl \<and> c' = c"
        assume "pos' = 0"
        then have "g h' co cl 12 hpos' hc' c = Some y" using run eq le by (simp add: Let_def w al not_less [symmetric])
        then show False using g by blast
      next
        assume eq: "co' = co \<and> cl' = cl \<and> c' = c"
        assume "pos' = 12"
        then have "g h' co cl 0 hpos' hc' c = Some y" using run eq le by (simp add: Let_def w al not_less [symmetric])
        then show False using g by blast
      qed
    qed
    then show False by simp
  qed
  then show ?thesis by (cases "send_ctrl h2g co cl 0 0 [] c") auto
qed

section \<open>Receiving descriptors\<close>

lemma g_set_fields [simp]: "fd_map (yos_g_set_u32 c a v) = fd_map c" "fd_paths (yos_g_set_u32 c a v) = fd_paths c"
    "memory_size (yos_g_set_u32 c a v) = memory_size c" "errno_off (yos_g_set_u32 c a v) = errno_off c"
    "memory (yos_g_set_u32 c a v) = store32 (memory c) (unat a) v"
  by (simp_all add: yos_g_set_u32_def)

definition fd_slots_free :: "yos_exec_ctx \<Rightarrow> nat" where
  "fd_slots_free c = length (filter (\<lambda>h. h = - 1) (fd_map c))"

lemma length_filter_update:
  "i < length xs \<Longrightarrow> P (xs ! i) \<Longrightarrow> \<not> P y \<Longrightarrow> length (filter P xs) = Suc (length (filter P (xs[i := y])))"
proof (induction xs arbitrary: i)
  case (Cons x xs)
  then show ?case by (cases i) (auto split: if_splits)
qed simp

text \<open>Filing one descriptor while there is a free slot.\<close>

lemma fd_alloc_room:
  assumes "fd_inv F c O1" and "0 \<le> h" and "h \<notin> O1" and "0 < fd_slots_free c"
  obtains i where "yos_fd_alloc c h = (int i, set_fd c i h None, [])" and "i < YOS_FD_MAX" and "fd_map c ! i = - 1"
    and "fd_inv F (set_fd c i h None) (insert h O1)" and "fd_slots_free c = Suc (fd_slots_free (set_fd c i h None))"
proof -
  have l: "length (fd_map c) = YOS_FD_MAX" using assms(1) by (simp add: fd_inv_def)
  have "\<exists>x\<in>set (fd_map c). x = - 1" using assms(4) by (auto simp: fd_slots_free_def filter_empty_conv)
  then have "find_index (\<lambda>h. h = - 1) (fd_map c) \<noteq> None" by (auto simp: find_index_None)
  then obtain i where i: "find_index (\<lambda>h. h = - 1) (fd_map c) = Some i" by blast
  then have lt: "i < length (fd_map c)" "fd_map c ! i = - 1" by (simp_all add: find_index_Some)
  show ?thesis
  proof
    show "yos_fd_alloc c h = (int i, set_fd c i h None, [])" using assms(2) i l by (simp add: yos_fd_alloc_def)
    show "i < YOS_FD_MAX" "fd_map c ! i = - 1" using lt l by simp_all
    have "fd_inv F (set_fd c i h None) ((if 0 \<le> fd_map c ! i then O1 - {fd_map c ! i} else O1) \<union> (if 0 \<le> h then {h} else {}))"
      using assms(1,3) lt l by (intro fd_inv_set) simp_all
    then show "fd_inv F (set_fd c i h None) (insert h O1)" using lt assms(2) by simp
    show "fd_slots_free c = Suc (fd_slots_free (set_fd c i h None))"
      using length_filter_update [of i "fd_map c" "\<lambda>h. h = - 1" h] lt assms(2) by (simp add: fd_slots_free_def)
  qed
qed

text \<open>The descriptors of a message, filed: where each one went, what the guest reads, and what stays as it was.\<close>

definition filed :: "yos_exec_ctx \<Rightarrow> nat \<Rightarrow> int list \<Rightarrow> yos_exec_ctx \<Rightarrow> nat list \<Rightarrow> bool" where
  "filed c a hs c' ws \<longleftrightarrow> length ws = length hs \<and>
     (\<forall>i<length hs. ws ! i < YOS_FD_MAX \<and> fd_map c ! (ws ! i) = - 1 \<and> fd_map c' ! (ws ! i) = hs ! i \<and> load32 (memory c') (a + 4 * i) = of_nat (ws ! i)) \<and>
     (\<forall>i<YOS_FD_MAX. fd_map c ! i \<noteq> - 1 \<longrightarrow> fd_map c' ! i = fd_map c ! i) \<and>
     (\<forall>j. j < a \<or> a + 4 * length hs \<le> j \<longrightarrow> memory c' j = memory c j) \<and> memory_size c' = memory_size c"

lemma file_fds_filed:
  assumes "fd_inv F c O1" and "distinct hs" and "\<forall>h\<in>set hs. 0 \<le> h \<and> h \<notin> O1" and "length hs \<le> fd_slots_free c" and "unat a + 4 * length hs < 2 ^ 32"
  shows "\<exists>c' ws. file_fds a hs c = (c', []) \<and> filed c (unat a) hs c' ws \<and> fd_inv F c' (O1 \<union> set hs)"
  using assms
proof (induction hs arbitrary: a c O1)
  case Nil
  then show ?case by (auto simp: filed_def)
next
  case (Cons h hs)
  obtain i where i: "yos_fd_alloc c h = (int i, set_fd c i h None, [])" "i < YOS_FD_MAX" "fd_map c ! i = - 1"
      "fd_inv F (set_fd c i h None) (insert h O1)" "fd_slots_free c = Suc (fd_slots_free (set_fd c i h None))"
    using fd_alloc_room [OF Cons.prems(1), of h] Cons.prems(3,4) by auto
  let ?c1 = "yos_g_set_u32 (set_fd c i h None) a (word_of_int (int i))"
  have l: "length (fd_map c) = YOS_FD_MAX" using Cons.prems(1) by (simp add: fd_inv_def)
  have ua: "unat (a + 4) = unat a + 4" using Cons.prems(5) by (simp add: unat_add_u32)
  have inv: "fd_inv F ?c1 (insert h O1)" using i(4) by (intro fd_inv_frame [of ?c1 "set_fd c i h None"]) simp_all
  have "\<exists>c' ws. file_fds (a + 4) hs ?c1 = (c', []) \<and> filed ?c1 (unat (a + 4)) hs c' ws \<and> fd_inv F c' (insert h O1 \<union> set hs)"
    using Cons.prems i(5) by (intro Cons.IH inv) (auto simp: ua fd_slots_free_def)
  then obtain c' ws where c': "file_fds (a + 4) hs ?c1 = (c', [])" and f: "filed ?c1 (unat a + 4) hs c' ws" and inv': "fd_inv F c' (insert h O1 \<union> set hs)"
    by (auto simp: ua)
  have m1: "fd_map ?c1 = (fd_map c)[i := h]" by simp
  have "load32 (memory c') (unat a) = load32 (memory ?c1) (unat a)" using f by (intro load32_cong) (simp add: filed_def)
  then have w0: "load32 (memory c') (unat a) = of_nat i" by simp
  have h0: "fd_map c' ! i = h" using f i(2) Cons.prems(3) l by (auto simp: filed_def)
  have old: "fd_map c' ! k = fd_map c ! k" if "k < YOS_FD_MAX" "fd_map c ! k \<noteq> - 1" for k
  proof -
    have "fd_map ?c1 ! k = fd_map c ! k" using that i(3) by (cases "k = i") auto
    then show ?thesis using f that by (simp add: filed_def)
  qed
  have nth: "(i # ws) ! k < YOS_FD_MAX \<and> fd_map c ! ((i # ws) ! k) = - 1 \<and> fd_map c' ! ((i # ws) ! k) = (h # hs) ! k \<and>
      load32 (memory c') (unat a + 4 * k) = of_nat ((i # ws) ! k)" if "k < length (h # hs)" for k
  proof (cases k)
    case 0
    then show ?thesis using w0 h0 i by simp
  next
    case (Suc k')
    then have k': "k' < length hs" using that by simp
    then have b: "ws ! k' < YOS_FD_MAX" "(fd_map c)[i := h] ! (ws ! k') = - 1" "fd_map c' ! (ws ! k') = hs ! k'"
        "load32 (memory c') (unat a + 4 + 4 * k') = of_nat (ws ! k')"
      using f by (simp_all add: filed_def)
    then have "fd_map c ! (ws ! k') = - 1" using Cons.prems(3) l by (cases "ws ! k' = i") (auto simp: i(3))
    then show ?thesis using b Suc by (simp add: ac_simps)
  qed
  have frame: "memory c' j = memory c j" if "j < unat a \<or> unat a + 4 * length (h # hs) \<le> j" for j
  proof -
    have "memory c' j = memory ?c1 j" using f that by (auto simp: filed_def)
    then show ?thesis using that store32_other [of j "unat a" "memory c" "of_nat i"] by (auto simp: set_fd_def)
  qed
  have "filed c (unat a) (h # hs) c' (i # ws)" unfolding filed_def using nth old frame f by (auto simp: filed_def set_fd_def)
  moreover have "file_fds a (h # hs) c = (c', [])" using c' i(1) by (simp add: Let_def)
  ultimately show ?case using inv' by auto
qed

lemma msg_iov_inside: "msg_iov_loop c e n = Some iov \<Longrightarrow> \<forall>v\<in>set iov. iov_inside c v"
proof (induction n arbitrary: e iov)
  case (Suc n)
  let ?len = "yos_g_u32 c (e + 4)" and ?base = "yos_g_u32 c e"
  obtain t where t: "msg_iov_loop c (e + 8) n = Some t" "iov = (if ?len \<noteq> 0 then Some (unat ?base) else None, ?len) # t"
      and ok: "\<not> (?len \<noteq> 0 \<and> posix_wptr_range c ?base (unat ?len) = None)"
    using Suc.prems by (auto simp: Let_def split: if_splits)
  have "iov_inside c (if ?len \<noteq> 0 then Some (unat ?base) else None, ?len)"
    using ok wptr_range_Some [of c ?base "unat ?len"] by (auto simp: iov_inside_def posix_wptr_range_eq)
  then show ?case using Suc.IH [OF t(1)] t(2) by simp
qed simp

lemma load32_frame: "(\<And>j. a \<le> j \<Longrightarrow> j < a + 4 \<Longrightarrow> m' j = m j) \<Longrightarrow> load32 m' a = load32 m a"
  by (rule load32_cong)

lemma put_cmsg_filed:
  assumes "fd_inv F c O1" and "distinct hs" and "\<forall>h\<in>set hs. 0 \<le> h \<and> h \<notin> O1" and "length hs \<le> fd_slots_free c" and "unat a + (12 + 4 * length hs) < 2 ^ 32"
  shows "\<exists>c' ws. put_cmsg a hs c = (c', []) \<and> fd_inv F c' (O1 \<union> set hs) \<and> length ws = length hs \<and>
    ctrl_at (memory c') (unat a) [(YOS_FBSD_SOL_SOCKET, YOS_FBSD_SCM_RIGHTS, map of_nat ws)] \<and>
    (\<forall>i<length hs. ws ! i < YOS_FD_MAX \<and> fd_map c ! (ws ! i) = - 1 \<and> fd_map c' ! (ws ! i) = hs ! i) \<and>
    (\<forall>i<YOS_FD_MAX. fd_map c ! i \<noteq> - 1 \<longrightarrow> fd_map c' ! i = fd_map c ! i) \<and>
    (\<forall>j. j < unat a \<or> unat a + (12 + 4 * length hs) \<le> j \<longrightarrow> memory c' j = memory c j) \<and> memory_size c' = memory_size c"
proof -
  have u: "unat (a + 4) = unat a + 4" "unat (a + 8) = unat a + 8" "unat (a + 12) = unat a + 12" using assms(5) by (simp_all add: unat_add_u32)
  let ?c1 = "yos_g_set_u32 c a (12 + of_nat (length hs) * 4)"
  let ?c3 = "yos_g_set_u32 (yos_g_set_u32 ?c1 (a + 4) YOS_FBSD_SOL_SOCKET) (a + 8) YOS_FBSD_SCM_RIGHTS"
  have inv: "fd_inv F ?c3 O1" using assms(1) by (intro fd_inv_frame [of ?c3 c]) simp_all
  have "\<exists>c' ws. file_fds (a + 12) hs ?c3 = (c', []) \<and> filed ?c3 (unat (a + 12)) hs c' ws \<and> fd_inv F c' (O1 \<union> set hs)"
    using assms by (intro file_fds_filed inv) (simp_all add: u fd_slots_free_def)
  then obtain c' ws where c': "file_fds (a + 12) hs ?c3 = (c', [])" and f: "filed ?c3 (unat a + 12) hs c' ws" and inv': "fd_inv F c' (O1 \<union> set hs)"
    by (auto simp: u)
  have out: "memory c' j = memory ?c3 j" if "j < unat a + 12 \<or> unat a + 12 + 4 * length hs \<le> j" for j using f that unfolding filed_def by blast
  have "load32 (memory c') (unat a + k) = load32 (memory ?c3) (unat a + k)" if "k \<le> 8" for k using that out by (intro load32_frame) simp
  from this [of 0] this [of 4] this [of 8]
  have hd: "load32 (memory c') (unat a) = 12 + of_nat (length hs) * 4" "load32 (memory c') (unat a + 4) = YOS_FBSD_SOL_SOCKET"
      "load32 (memory c') (unat a + 8) = YOS_FBSD_SCM_RIGHTS"
    by (simp_all add: u load32_store32_other)
  have len: "length ws = length hs" using f by (simp add: filed_def)
  have "ctrl_at (memory c') (unat a) [(YOS_FBSD_SOL_SOCKET, YOS_FBSD_SCM_RIGHTS, map of_nat ws)]"
    using hd f len by (simp add: filed_def ac_simps)
  moreover have "memory c' j = memory c j" if "j < unat a \<or> unat a + (12 + 4 * length hs) \<le> j" for j
  proof -
    have "memory c' j = memory ?c3 j" using that by (intro out) auto
    then show ?thesis using that by (auto simp: u store32_other)
  qed
  moreover have "\<forall>i<length hs. ws ! i < YOS_FD_MAX \<and> fd_map c ! (ws ! i) = - 1 \<and> fd_map c' ! (ws ! i) = hs ! i"
      "\<forall>i<YOS_FD_MAX. fd_map c ! i \<noteq> - 1 \<longrightarrow> fd_map c' ! i = fd_map c ! i" "memory_size c' = memory_size c"
    using f by (simp_all add: filed_def)
  moreover have "put_cmsg a hs c = (c', [])" using c' by (simp add: put_cmsg_def Let_def)
  ultimately show ?thesis using inv' len by blast
qed

text \<open>
  Claim C36: descriptors arrive.  Take a mapped socket, a message header in linear memory with a vector that the call accepts, and a control buffer in
  linear memory apart from the header.  Suppose the host, asked on the host's socket for as many bytes as the vector holds and for control data, delivers
  bytes and one message of new descriptors, and the receiver has room for them, in its control buffer and in its table.  Then
  the call returns the number of bytes; the control buffer holds one well-formed message whose words are guest descriptors
  that were free and now stand for the received ones, in order; every other descriptor is as it was; the received descriptors are
  owned by the table and none is closed; the header tells the length used and the host's flags; every other byte is the one that scattering the
  bytes over the vector leaves; and no byte outside linear memory changes.
\<close>

theorem recvmsg_files_descriptors:
  assumes run: "yos_recvmsg h2g recvmsg c fd msg_off flags = (r, c', es)" and fd: "0 \<le> fd" "fd < int YOS_FD_MAX" "0 \<le> fd_map c ! nat fd"
    and hdr: "posix_wptr_range c msg_off 28 \<noteq> None"
    and iov: "yos_msg_build_iov c (yos_g_u32 c (msg_off + 8)) (yos_g_u32 c (msg_off + 12)) = Some iov"
    and host: "recvmsg (fd_map c ! nat fd) (iov_total iov) True flags = Inr (bs, [(1, 1, hs)], fl)"
    and co: "yos_g_u32 c (msg_off + 16) = co" "co \<noteq> 0" and cl: "yos_g_u32 c (msg_off + 20) = cl" "12 + 4 * length hs \<le> unat cl"
    and ctl: "posix_wptr_range c co (unat cl) \<noteq> None" and apart: "unat msg_off + 28 \<le> unat co \<or> unat co + unat cl \<le> unat msg_off"
    and inv: "fd_inv F c O1" and hs: "distinct hs" "\<forall>h\<in>set hs. 0 \<le> h \<and> h \<notin> O1" "length hs \<le> fd_slots_free c"
  shows "r = int (length bs) \<and> es = map Opened hs \<and> fd_inv F c' (O1 \<union> set hs) \<and>
    (\<exists>ws. length ws = length hs \<and> ctrl_at (memory c') (unat co) [(YOS_FBSD_SOL_SOCKET, YOS_FBSD_SCM_RIGHTS, map of_nat ws)] \<and>
      (\<forall>i<length hs. ws ! i < YOS_FD_MAX \<and> fd_map c ! (ws ! i) = - 1 \<and> fd_map c' ! (ws ! i) = hs ! i)) \<and>
    (\<forall>i<YOS_FD_MAX. fd_map c ! i \<noteq> - 1 \<longrightarrow> fd_map c' ! i = fd_map c ! i) \<and>
    load32 (memory c') (unat msg_off + 20) = of_nat (12 + 4 * length hs) \<and> load32 (memory c') (unat msg_off + 24) = fl \<and>
    (\<forall>j. (j < unat co \<or> unat co + (12 + 4 * length hs) \<le> j) \<longrightarrow> (j < unat msg_off + 20 \<or> unat msg_off + 28 \<le> j) \<longrightarrow>
      memory c' j = scatter (memory c) iov bs j) \<and>
    (\<forall>j\<ge>unat (memory_size c). memory c' j = memory c j)"
proof -
  let ?need = "12 + of_nat (length hs) * 4 :: u32"
  have g: "yos_fd_get h2g c fd = (fd_map c ! nat fd, c)" using fd by (simp add: yos_fd_get_def)
  have wl: "12 \<le> cl" using cl(2) by (simp add: word_le_nat_alt)
  have in_hdr: "unat msg_off + 28 \<le> unat (memory_size c)" and in_ctl: "unat co + unat cl \<le> unat (memory_size c)"
    using hdr ctl wptr_range_Some [of c] by (auto simp: posix_wptr_range_eq)
  note ms = unat_u32_lt [of "memory_size c"]
  have need: "unat ?need = 12 + 4 * length hs"
    using unat_of_nat_u32 [of "12 + 4 * length hs"] cl(2) unat_u32_lt [of cl] by (simp add: ac_simps)
  have um: "unat (msg_off + 20) = unat msg_off + 20" "unat (msg_off + 24) = unat msg_off + 24" using in_hdr ms by (simp_all add: unat_add_u32)
  let ?c1 = "c\<lparr>memory := scatter (memory c) iov bs\<rparr>"
  have inv1: "fd_inv F ?c1 O1" using inv by (intro fd_inv_frame [of ?c1 c]) simp_all
  have "unat co + (12 + 4 * length hs) < 2 ^ 32" using in_ctl cl(2) ms by simp
  from put_cmsg_filed [OF inv1 hs(1,2) _ this] obtain c2 ws where p: "put_cmsg co hs ?c1 = (c2, [])" and i2: "fd_inv F c2 (O1 \<union> set hs)"
      and ws: "length ws = length hs" "\<forall>i<length hs. ws ! i < YOS_FD_MAX \<and> fd_map c ! (ws ! i) = - 1 \<and> fd_map c2 ! (ws ! i) = hs ! i"
      and at: "ctrl_at (memory c2) (unat co) [(YOS_FBSD_SOL_SOCKET, YOS_FBSD_SCM_RIGHTS, map of_nat ws)]"
      and old: "\<forall>i<YOS_FD_MAX. fd_map c ! i \<noteq> - 1 \<longrightarrow> fd_map c2 ! i = fd_map c ! i"
      and out: "\<forall>j. j < unat co \<or> unat co + (12 + 4 * length hs) \<le> j \<longrightarrow> memory c2 j = memory ?c1 j"
    using hs(3) by (auto simp: fd_slots_free_def)
  have al: "yos_fbsd_cmsg_align ?need = ?need"
    using cmsg_align_multiple [of "length hs"] in_ctl cl(2) ms apart in_hdr by (cases "unat co = 0") (auto simp: ac_simps)
  have "\<not> cl < 0 + ?need" using cl(2) need by (simp add: word_less_nat_alt)
  then have rc: "recv_ctrl co cl [(1, 1, hs)] 0 ?c1 = (?need, c2, [])" using p al by (simp add: Let_def)
  have fin: "r = int (length bs)" "es = map Opened hs" "c' = yos_g_set_u32 (yos_g_set_u32 c2 (msg_off + 20) ?need) (msg_off + 24) fl"
    using run fd(3) hdr ctl wl co host iov rc by (auto simp: yos_recvmsg_def g Let_def co cl(1))
  have far: "memory c' j = memory c2 j" if "j < unat msg_off + 20 \<or> unat msg_off + 28 \<le> j" for j
    using that by (auto simp: fin um store32_other)
  have "ctrl_at (memory c') (unat co) [(YOS_FBSD_SOL_SOCKET, YOS_FBSD_SCM_RIGHTS, map of_nat ws)]"
  proof -
    have "load32 (memory c') (unat co + k) = load32 (memory c2) (unat co + k)" if "k + 4 \<le> unat cl" for k
      using apart that by (intro load32_frame far) auto
    from this [of 0] this [of 4] this [of 8] this [of "12 + 4 * i" for i] show ?thesis using at ws(1) cl(2) by (auto simp: add.assoc)
  qed
  moreover have "fd_inv F c' (O1 \<union> set hs)" using i2 by (intro fd_inv_frame [of c' c2]) (simp_all add: fin)
  moreover have "load32 (memory c') (unat msg_off + 20) = of_nat (12 + 4 * length hs)"
    by (simp add: fin um load32_store32_other ac_simps)
  moreover have "load32 (memory c') (unat msg_off + 24) = fl" by (simp add: fin um)
  moreover have "memory c' j = scatter (memory c) iov bs j"
    if "j < unat co \<or> unat co + (12 + 4 * length hs) \<le> j" "j < unat msg_off + 20 \<or> unat msg_off + 28 \<le> j" for j
    using far [OF that(2)] out that(1) by simp
  moreover have "memory c' j = memory c j" if "unat (memory_size c) \<le> j" for j
  proof -
    have "memory c' j = memory ?c1 j" using far [of j] out that in_hdr in_ctl cl(2) by auto
    also have "\<dots> = memory c j"
      using scatter_out [of iov c j] msg_iov_inside iov that by (auto simp: yos_msg_build_iov_def split: if_splits)
    finally show ?thesis .
  qed
  moreover have "fd_map c' = fd_map c2" by (simp add: fin)
  ultimately show ?thesis using fin(1,2) ws old by auto
qed

section \<open>Where sockets go wrong\<close>

text \<open>The length of a peer's address that the guest did not ask for is stored unchecked.\<close>

lemma accept_length_past_memory:
  assumes "yos_fd_get h2g c fd = (hfd, c)" and "0 \<le> hfd" and "accept hfd None = Inr (new, a, l)" and "0 \<le> new" and "addrlen_off \<noteq> 0" and "0 < fd_slots_free c"
    and "fd_inv F c O1" and "new \<notin> O1"
  shows "\<exists>w c' es. yos_accept h2g accept c fd 0 addrlen_off = (w, c', es) \<and> memory c' = store32 (memory c) (unat addrlen_off) 0"
proof -
  let ?c1 = "c\<lparr>memory := store32 (memory c) (unat addrlen_off) 0\<rparr>"
  have "fd_inv F ?c1 O1" using assms(7) by (intro fd_inv_frame [of ?c1 c]) simp_all
  then obtain i where "yos_fd_alloc ?c1 new = (int i, set_fd ?c1 i new None, [])"
    using fd_alloc_room [of F ?c1 O1 new] assms(4,6,8) by (auto simp: fd_slots_free_def)
  then show ?thesis using assms by (simp add: yos_accept_def addr_room_def put_addr_def file_new_def set_fd_def)
qed

text \<open>A full message and one descriptor more overrun the host's control buffer.\<close>

lemma two_messages_overrun:
  "length ws = YOS_MSG_MAX_FDS \<Longrightarrow>
     YOS_MSG_CTRL_BUF < ctrl_space [(YOS_FBSD_SOL_SOCKET, YOS_FBSD_SCM_RIGHTS, ws), (YOS_FBSD_SOL_SOCKET, YOS_FBSD_SCM_RIGHTS, [w])]"
  by (simp add: ctrl_space_def rights_def CMSG_SPACE_def)

text \<open>Descriptors that do not fit the control buffer stay open, filed nowhere; without a free slot a descriptor is closed twice.\<close>

lemma recv_ctrl_leaks: "cl < gpos + (12 + of_nat (length hs) * 4) \<Longrightarrow> recv_ctrl co cl ((1, 1, hs) # hc) gpos c = (gpos, c, [])"
  by (simp add: Let_def)

lemma file_fds_full_table:
  assumes "0 \<le> h" and "find_index (\<lambda>h. h = - 1) (take YOS_FD_MAX (fd_map c)) = None"
  shows "file_fds a [h] c = (yos_g_set_u32 c a (- 1), [Closed h, Closed h])"
  using assms by (simp add: yos_fd_alloc_def Let_def)

section \<open>A concrete message\<close>

text \<open>A header at 1024 whose control data, at 2048, is one message with the guest's descriptor 3; the host knows it as 9.\<close>

definition demo_msg_mem :: mem where
  "demo_msg_mem = store32 (store32 (store32 (store32 (store32 (store32 (\<lambda>_. 0) 1040 2048) 1044 16) 2048 16) 2052 0xFFFF) 2056 1) 2060 3"

definition demo_msg_ctx :: yos_exec_ctx where
  "demo_msg_ctx = (ctx_calloc demo_msg_mem 65536)\<lparr>fd_map := [0, 1, 2, 9] @ replicate 252 (- 1)\<rparr>"

lemma demo_msg_words:
  "load32 demo_msg_mem 1024 = 0" "load32 demo_msg_mem 1036 = 0" "load32 demo_msg_mem 1040 = 2048" "load32 demo_msg_mem 1044 = 16"
  "load32 demo_msg_mem 2048 = 16" "load32 demo_msg_mem 2052 = 0xFFFF" "load32 demo_msg_mem 2056 = 1" "load32 demo_msg_mem 2060 = 3"
  by (simp_all add: demo_msg_mem_def load32_store32_other) (simp_all add: load32_def)

lemma demo_msg_ctx_fields: "memory demo_msg_ctx = demo_msg_mem" "memory_size demo_msg_ctx = 65536"
    "fd_map demo_msg_ctx = [0, 1, 2, 9] @ replicate 252 (- 1)" "length (fd_paths demo_msg_ctx) = YOS_FD_MAX"
  by (simp_all add: demo_msg_ctx_def ctx_calloc_def)

lemma demo_msg_header: "yos_g_u32 demo_msg_ctx 1024 = 0" "yos_g_u32 demo_msg_ctx 1036 = 0" "yos_g_u32 demo_msg_ctx 1040 = 2048"
    "yos_g_u32 demo_msg_ctx 1044 = 16" "posix_wptr_range demo_msg_ctx 1024 28 = Some 1024" "posix_wptr_range demo_msg_ctx 2048 16 = Some 2048"
    "yos_msg_build_iov demo_msg_ctx a 0 = Some []"
  by (simp_all add: yos_g_u32_def demo_msg_ctx_fields demo_msg_words posix_wptr_range_def yos_msg_build_iov_def)

theorem sendmsg_passes_descriptors_witness:
  "yos_sendmsg (\<lambda>e. e) (\<lambda>h bs name hc fl. (if h = 9 \<and> hc = [[9]] then 5 else - 1, 0)) demo_msg_ctx 3 1024 0 = Some (Sent 5 demo_msg_ctx)"
  using sendmsg_passes_descriptors [of 3 demo_msg_ctx 1024 None "[]" 2048 16 "[(0xFFFF, 1, [3])]" "\<lambda>e. e"
      "\<lambda>h bs name hc fl. (if h = 9 \<and> hc = [[9]] then 5 else - 1, 0)" 0]
  by (simp add: demo_msg_header demo_msg_ctx_fields demo_msg_words ctrl_size_def rights_def ctrl_space_def CMSG_SPACE_def mapped_def host_of_def
      yos_errno_check_def destination_def)

theorem recvmsg_files_descriptors_witness:
  "\<exists>c' w. yos_recvmsg (\<lambda>e. e) (\<lambda>h n b f. if h = 9 \<and> n = 0 \<and> b then Inr ([], [(1, 1, [20])], 0) else Inl 5) demo_msg_ctx 3 1024 0 =
      (0, c', [Opened 20]) \<and> fd_map c' ! w = 20 \<and> load32 (memory c') 2060 = of_nat w"
proof -
  let ?host = "\<lambda>h n b f. if h = 9 \<and> n = 0 \<and> b then Inr ([], [(1, 1, [20])], 0) else Inl 5 :: int + u8 list \<times> host_cmsg list \<times> u32"
  obtain r c' es where run: "yos_recvmsg (\<lambda>e. e) ?host demo_msg_ctx 3 1024 0 = (r, c', es)" by (metis surj_pair)
  have inv: "fd_inv {} demo_msg_ctx {0, 1, 2, 9}" by (auto simp: fd_inv_def owned_def demo_msg_ctx_fields)
  have fr: "length [20] \<le> fd_slots_free demo_msg_ctx" by (simp add: fd_slots_free_def demo_msg_ctx_fields)
  have fd: "0 \<le> fd_map demo_msg_ctx ! nat 3" "fd_map demo_msg_ctx ! 3 = 9" by (simp_all add: demo_msg_ctx_fields)
  have h: "posix_wptr_range demo_msg_ctx 1024 28 \<noteq> None" "yos_g_u32 demo_msg_ctx (1024 + 16) = 2048" "yos_g_u32 demo_msg_ctx (1024 + 20) = 16"
      "yos_msg_build_iov demo_msg_ctx (yos_g_u32 demo_msg_ctx (1024 + 8)) (yos_g_u32 demo_msg_ctx (1024 + 12)) = Some []"
      "posix_wptr_range demo_msg_ctx 2048 (unat (16 :: u32)) \<noteq> None" "?host (fd_map demo_msg_ctx ! nat 3) (iov_total []) True 0 = Inr ([], [(1, 1, [20])], 0)"
    by (simp_all add: demo_msg_header fd iov_total_def)
  from recvmsg_files_descriptors [OF run _ _ fd(1) h(1,4,6,2) _ h(3) _ h(5) _ inv _ _ fr] obtain ws
    where w: "r = 0" "es = [Opened 20]" "length ws = 1" and at: "ctrl_at (memory c') (unat (2048 :: u32)) [(YOS_FBSD_SOL_SOCKET, YOS_FBSD_SCM_RIGHTS, map of_nat ws)]"
      and m: "\<forall>i<length [20]. ws ! i < YOS_FD_MAX \<and> fd_map demo_msg_ctx ! (ws ! i) = - 1 \<and> fd_map c' ! (ws ! i) = [20] ! i"
    by force
  have "load32 (memory c') 2060 = of_nat (ws ! 0)" using at w(3) by simp
  moreover have "fd_map c' ! (ws ! 0) = 20" using m by simp
  ultimately show ?thesis using run w by blast
qed

end
