(* ===== verification/Pty.thy ===== *)
theory Pty
  imports Sockets EnvProps Numerals
begin

text \<open>
  Pseudo terminals: \<^verbatim>\<open>src/src/yos/impl/io/pty.c\<close>.  Where the host refuses to open one, a pair of sockets stands in for it: a registry of the
  whole program ties the master, known by its inode, to the slave and to a path under which the slave can be opened, and reads
  of the master do what a terminal driver would.
\<close>

section \<open>The registry\<close>

record pty_entry =
  master_hfd :: int
  master_id :: "nat \<times> nat"
  slave_hfd :: int
  slave_path :: string
  packet_mode :: bool
  onlcr :: bool

text \<open>Entries, the newest first, and the next number.  \<open>fstat\<close> gives inode and device of a host descriptor.\<close>

record pty_reg =
  g_pty_head :: "pty_entry list"
  g_pty_next_id :: nat

type_synonym host_fstat = "int \<Rightarrow> (nat \<times> nat) option"

definition pty_find_master_locked :: "host_fstat \<Rightarrow> pty_entry list \<Rightarrow> int \<Rightarrow> nat option" where
  "pty_find_master_locked fstat es hfd =
     (case fstat hfd of None \<Rightarrow> None | Some d \<Rightarrow> find_index (\<lambda>e. master_id e = d) es)"

definition pty_lookup_by_master_locked :: "host_fstat \<Rightarrow> pty_entry list \<Rightarrow> int \<Rightarrow> pty_entry option" where
  "pty_lookup_by_master_locked fstat es hfd =
     (case fstat hfd of None \<Rightarrow> None | Some d \<Rightarrow> List.find (\<lambda>e. master_id e = d) es)"

definition pty_lookup_by_path_locked :: "pty_entry list \<Rightarrow> string \<Rightarrow> pty_entry option" where
  "pty_lookup_by_path_locked es path = List.find (\<lambda>e. slave_path e = path) es"

definition yos_pty_set_packet_mode :: "host_fstat \<Rightarrow> pty_entry list \<Rightarrow> int \<Rightarrow> bool \<Rightarrow> bool \<times> pty_entry list" where
  "yos_pty_set_packet_mode fstat es hfd on =
     (case pty_find_master_locked fstat es hfd of None \<Rightarrow> (False, es) | Some i \<Rightarrow> (True, es[i := (es ! i)\<lparr>packet_mode := on\<rparr>]))"

text \<open>Either end will do, the master first.\<close>

definition pty_find_slave :: "host_fstat \<Rightarrow> pty_entry list \<Rightarrow> int \<Rightarrow> nat option" where
  "pty_find_slave fstat es hfd =
     (case fstat hfd of None \<Rightarrow> None | Some d \<Rightarrow> find_index (\<lambda>e. fstat (slave_hfd e) = Some d) es)"

definition yos_pty_set_onlcr :: "host_fstat \<Rightarrow> pty_entry list \<Rightarrow> int \<Rightarrow> bool \<Rightarrow> bool \<times> pty_entry list" where
  "yos_pty_set_onlcr fstat es hfd on =
     (case (case pty_find_master_locked fstat es hfd of None \<Rightarrow> pty_find_slave fstat es hfd | Some i \<Rightarrow> Some i) of
        None \<Rightarrow> (False, es)
      | Some i \<Rightarrow> (True, es[i := (es ! i)\<lparr>onlcr := on\<rparr>]))"

definition yos_pty_is_pty_fd :: "host_fstat \<Rightarrow> pty_entry list \<Rightarrow> int \<Rightarrow> bool" where
  "yos_pty_is_pty_fd fstat es hfd =
     (case fstat hfd of None \<Rightarrow> False | Some d \<Rightarrow> \<exists>e\<in>set es. master_id e = d \<or> fstat (slave_hfd e) = Some d)"

section \<open>Reading the master\<close>

text \<open>A line feed that no carriage return precedes gets one; what came before a read is forgotten.\<close>

fun expand_nl :: "u8 \<Rightarrow> u8 list \<Rightarrow> u8 list" where
  "expand_nl prev [] = []"
| "expand_nl prev (c # cs) = (if c = 10 \<and> prev \<noteq> 13 then [13, c] else [c]) @ expand_nl c cs"

text \<open>\<open>read\<close> of the host gives an error number, or bytes, no more than asked for; none at the end of the file.\<close>

definition pty_read_expand_onlcr :: "(int \<Rightarrow> nat \<Rightarrow> int + u8 list) \<Rightarrow> int \<Rightarrow> nat \<Rightarrow> int + u8 list" where
  "pty_read_expand_onlcr read hfd out_cap =
     (let host_cap = out_cap div 2 in
      if host_cap = 0 then Inl EINVAL
      else case read hfd (if 4096 < host_cap then 4096 else host_cap) of Inl e \<Rightarrow> Inl e | Inr bs \<Rightarrow> Inr (expand_nl 0 bs))"

text \<open>
  \<open>None\<close> when the descriptor is not a master; otherwise what is stored in the buffer and, for a failure, the error number.  In
  packet mode a status byte comes first, before a failure too.
\<close>

definition yos_pty_packet_read ::
  "host_fstat \<Rightarrow> (int \<Rightarrow> nat \<Rightarrow> int + u8 list) \<Rightarrow> pty_entry list \<Rightarrow> int \<Rightarrow> nat \<Rightarrow> (u8 list \<times> int option) option" where
  "yos_pty_packet_read fstat read es hfd cap =
     (case pty_find_master_locked fstat es hfd of
        None \<Rightarrow> None
      | Some i \<Rightarrow>
          if cap < 4 then Some ([], Some EINVAL)
          else
            let header = (if packet_mode (es ! i) then [0] else []);
                avail = cap - length header;
                r = (if onlcr (es ! i) then pty_read_expand_onlcr read hfd avail else read hfd avail)
            in case r of Inl e \<Rightarrow> Some (header, Some e) | Inr bs \<Rightarrow> Some (header @ bs, None))"

section \<open>Opening\<close>

definition pts_prefix :: string where "pts_prefix = ''/dev/yos-pts/''"

text \<open>\<open>dup h cloexec\<close> gives a new descriptor or an error number.\<close>

definition yos_pty_try_open :: "(int \<Rightarrow> bool \<Rightarrow> int + int) \<Rightarrow> pty_entry list \<Rightarrow> string \<Rightarrow> bool \<Rightarrow> int + int" where
  "yos_pty_try_open dup es path cloexec =
     (if take 13 path \<noteq> pts_prefix then Inl 0
      else case pty_lookup_by_path_locked es path of None \<Rightarrow> Inl ENOENT | Some e \<Rightarrow> dup (slave_hfd e) cloexec)"

text \<open>
  The host: \<^verbatim>\<open>posix_openpt\<close> on the flag for a controlling terminal, \<^verbatim>\<open>socketpair\<close>, whether there is memory for an entry, and \<^verbatim>\<open>fstat\<close>
  with its error number.  EPERM, EACCES and ENOENT lead to a pair of sockets.
\<close>

record openpt_host =
  oh_openpt :: "bool \<Rightarrow> int + int"
  oh_socketpair :: "int + int \<times> int"
  oh_calloc :: bool
  oh_fstat :: host_fstat
  oh_fstat_errno :: int

definition new_pty :: "nat \<times> nat \<Rightarrow> int \<Rightarrow> int \<Rightarrow> nat \<Rightarrow> pty_entry" where
  "new_pty d m s n = \<lparr> master_hfd = m, master_id = d, slave_hfd = s, slave_path = pts_prefix @ show_nat n, packet_mode = False, onlcr = True \<rparr>"

definition yos_posix_openpt :: "(int \<Rightarrow> int) \<Rightarrow> openpt_host \<Rightarrow> yos_exec_ctx \<Rightarrow> pty_reg \<Rightarrow> u32 \<Rightarrow> int \<times> yos_exec_ctx \<times> pty_reg \<times> fd_event list" where
  "yos_posix_openpt h2g H ctx R fb_flags =
     (let fail = (\<lambda>c R es e. (- 1, set_errno h2g c e, R, es)) in
      case oh_openpt H (fb_flags AND 0x8000 \<noteq> 0) of
        Inr hfd \<Rightarrow>
          (case yos_fd_alloc ctx hfd of (wfd, c1, es) \<Rightarrow>
             if wfd < 0 then fail c1 R (Opened hfd # es @ [Closed hfd]) 23 else (wfd, c1, R, Opened hfd # es))
      | Inl err \<Rightarrow>
          if err \<notin> {1, 13, ENOENT} then fail ctx R [] err
          else (case oh_socketpair H of
              Inl e \<Rightarrow> fail ctx R [] e
            | Inr (m, s) \<Rightarrow>
                let op = [Opened m, Opened s] in
                if \<not> oh_calloc H then fail ctx R (op @ [Closed m, Closed s]) ENOMEM
                else case oh_fstat H m of
                    None \<Rightarrow> fail ctx R (op @ [Closed m, Closed s]) (oh_fstat_errno H)
                  | Some d \<Rightarrow>
                      let R' = \<lparr> g_pty_head = new_pty d m s (g_pty_next_id R) # g_pty_head R, g_pty_next_id = g_pty_next_id R + 1 \<rparr> in
                      (case yos_fd_alloc ctx m of (wfd, c1, es) \<Rightarrow>
                         if wfd < 0 then fail c1 R' (op @ es @ [Closed m]) 23 else (wfd, c1, R', op @ es))))"

text \<open>Granting and unlocking: errors that a socket gives count as success.\<close>

definition pt_call :: "(int \<Rightarrow> int) \<Rightarrow> (int \<Rightarrow> int option) \<Rightarrow> yos_exec_ctx \<Rightarrow> int \<Rightarrow> int \<times> yos_exec_ctx" where
  "pt_call h2g call ctx wfd =
     (case yos_fd_get h2g ctx wfd of (hfd, c0) \<Rightarrow>
        if hfd < 0 then yos_errno_neg h2g c0 EBADF
        else case call hfd of None \<Rightarrow> (0, c0) | Some e \<Rightarrow> if e \<in> {25, 22, 95, 88} then (0, c0) else yos_errno_neg h2g c0 e)"

definition yos_grantpt :: "(int \<Rightarrow> int) \<Rightarrow> (int \<Rightarrow> int option) \<Rightarrow> yos_exec_ctx \<Rightarrow> int \<Rightarrow> int \<times> yos_exec_ctx" where
  "yos_grantpt h2g grantpt ctx wfd = pt_call h2g grantpt ctx wfd"

definition yos_unlockpt :: "(int \<Rightarrow> int) \<Rightarrow> (int \<Rightarrow> int option) \<Rightarrow> yos_exec_ctx \<Rightarrow> int \<Rightarrow> int \<times> yos_exec_ctx" where
  "yos_unlockpt h2g unlockpt ctx wfd = pt_call h2g unlockpt ctx wfd"

text \<open>\<open>buf\<close> is the thread's buffer in the guest's heap, 0 before the first call.\<close>

definition yos_ptsname ::
  "(int \<Rightarrow> int) \<Rightarrow> host_fstat \<Rightarrow> (int \<Rightarrow> string option) \<Rightarrow> pty_entry list \<Rightarrow> yos_exec_ctx \<Rightarrow> u32 \<Rightarrow> int \<Rightarrow> u32 \<times> yos_exec_ctx \<times> u32" where
  "yos_ptsname h2g fstat ptsname es ctx buf wfd =
     (case yos_fd_get h2g ctx wfd of (hfd, c0) \<Rightarrow>
        let fail = (\<lambda>c e. (0, set_errno h2g c e, buf)) in
        if hfd < 0 then fail c0 EBADF
        else case (case ptsname hfd of Some s \<Rightarrow> Some s | None \<Rightarrow> map_option (\<lambda>e. take 255 (slave_path e)) (pty_lookup_by_master_locked fstat es hfd)) of
            None \<Rightarrow> fail c0 25
          | Some hs \<Rightarrow>
              (case (if buf = 0 then yos_malloc c0 256 else (buf, c0)) of (b, c1) \<Rightarrow>
                 if b = 0 then fail c1 ENOMEM
                 else (b, c1\<lparr>memory := mem_write (memory c1) (unat b) (c_bytes (take 255 hs))\<rparr>, b)))"

text \<open>\<^verbatim>\<open>ptsname_r\<close> of the host gives the bytes it stored, or \<open>None\<close>.\<close>

definition yos_ptsname_r ::
  "(int \<Rightarrow> int) \<Rightarrow> host_fstat \<Rightarrow> (int \<Rightarrow> nat \<Rightarrow> u8 list option) \<Rightarrow> pty_entry list \<Rightarrow> yos_exec_ctx \<Rightarrow> int \<Rightarrow> u32 \<Rightarrow> u32 \<Rightarrow> int \<times> yos_exec_ctx" where
  "yos_ptsname_r h2g fstat ptsname_r es ctx wfd buf_off buflen =
     (case yos_fd_get h2g ctx wfd of (hfd, c0) \<Rightarrow>
        if hfd < 0 then (EBADF, c0)
        else if buf_off = 0 \<or> buflen = 0 \<or> unat (memory_size c0) < unat buf_off + unat buflen then (EFAULT, c0)
        else case ptsname_r hfd (unat buflen) of
            Some bs \<Rightarrow> (0, c0\<lparr>memory := mem_write (memory c0) (unat buf_off) bs\<rparr>)
          | None \<Rightarrow>
              (case pty_lookup_by_master_locked fstat es hfd of
                 None \<Rightarrow> (25, c0)
               | Some e \<Rightarrow>
                   if unat buflen \<le> length (slave_path e) then (ERANGE, c0)
                   else (0, c0\<lparr>memory := mem_write (memory c0) (unat buf_off) (c_bytes (slave_path e))\<rparr>)))"

section \<open>The driver\<close>

text \<open>Either end of a pair finds its entry, and changing its output processing changes no other part of the registry.\<close>

lemma is_pty_fd_found:
  assumes "yos_pty_is_pty_fd fstat es hfd"
  shows "\<exists>i<length es. (case pty_find_master_locked fstat es hfd of None \<Rightarrow> pty_find_slave fstat es hfd | Some i \<Rightarrow> Some i) = Some i \<and>
    (fstat hfd = Some (master_id (es ! i)) \<or> fstat hfd = fstat (slave_hfd (es ! i)))"
proof -
  obtain d where d: "fstat hfd = Some d" and e: "\<exists>e\<in>set es. master_id e = d \<or> fstat (slave_hfd e) = Some d"
    using assms by (auto simp: yos_pty_is_pty_fd_def split: option.splits)
  show ?thesis
  proof (cases "find_index (\<lambda>e. master_id e = d) es")
    case None
    then have "find_index (\<lambda>e. fstat (slave_hfd e) = Some d) es \<noteq> None" using e by (auto simp: find_index_None)
    then obtain i where i: "find_index (\<lambda>e. fstat (slave_hfd e) = Some d) es = Some i" by blast
    then have "i < length es" "fstat (slave_hfd (es ! i)) = Some d" by (simp_all add: find_index_Some)
    then show ?thesis using None d i by (intro exI [of _ i]) (simp add: pty_find_master_locked_def pty_find_slave_def)
  next
    case (Some i)
    then have "i < length es" "master_id (es ! i) = d" by (simp_all add: find_index_Some)
    then show ?thesis using d Some by (intro exI [of _ i]) (simp add: pty_find_master_locked_def)
  qed
qed

lemma set_onlcr_found:
  assumes "yos_pty_is_pty_fd fstat es hfd"
  shows "\<exists>i<length es. yos_pty_set_onlcr fstat es hfd on = (True, es[i := (es ! i)\<lparr>onlcr := on\<rparr>]) \<and>
    (fstat hfd = Some (master_id (es ! i)) \<or> fstat hfd = fstat (slave_hfd (es ! i)))"
  using is_pty_fd_found [OF assms] by (auto simp: yos_pty_set_onlcr_def)

lemma is_pty_fd_ends:
  "map master_id es' = map master_id es \<Longrightarrow> map slave_hfd es' = map slave_hfd es \<Longrightarrow> yos_pty_is_pty_fd fstat es' hfd = yos_pty_is_pty_fd fstat es hfd"
proof -
  assume a: "map master_id es' = map master_id es" "map slave_hfd es' = map slave_hfd es"
  have "yos_pty_is_pty_fd fstat xs hfd \<longleftrightarrow> (case fstat hfd of None \<Rightarrow> False | Some d \<Rightarrow> d \<in> set (map master_id xs) \<or> Some d \<in> fstat ` set (map slave_hfd xs))" for xs
    by (cases "fstat hfd") (force simp: yos_pty_is_pty_fd_def)+
  then show ?thesis by (simp only: a)
qed

text \<open>Every line feed after expansion has a carriage return before it.\<close>

fun cooked :: "u8 \<Rightarrow> u8 list \<Rightarrow> bool" where
  "cooked prev [] = True"
| "cooked prev (c # cs) \<longleftrightarrow> (c = 10 \<longrightarrow> prev = 13) \<and> cooked c cs"

lemma expand_nl_cooked: "cooked prev (expand_nl prev bs)"
  by (induction bs arbitrary: prev) auto

lemma expand_nl_content: "filter (\<lambda>c. c \<noteq> 13) (expand_nl prev bs) = filter (\<lambda>c. c \<noteq> 13) bs"
  by (induction bs arbitrary: prev) auto

lemma expand_nl_length: "length (expand_nl prev bs) \<le> 2 * length bs"
  by (induction bs arbitrary: prev) (auto intro: le_SucI)

lemma expand_nl_idle: "cooked prev bs \<Longrightarrow> expand_nl prev bs = bs"
  by (induction bs arbitrary: prev) auto

text \<open>
  Claim C40: reading a master.  A successful read of a stand-in master stores no more than the buffer holds; after the status byte of packet
  mode, with output processing on, every line feed has a carriage return before it, the bytes other than carriage returns are
  the host's in order, and bytes that had their carriage returns already are not touched; with it off the bytes are the host's.
\<close>

theorem pty_read_cooked:
  assumes "\<forall>h n bs. read h n = Inr bs \<longrightarrow> length bs \<le> n" and "yos_pty_packet_read fstat read es hfd cap = Some (out, None)"
  shows "\<exists>e bs rest n. e \<in> set es \<and> fstat hfd = Some (master_id e) \<and> read hfd n = Inr bs \<and>
    out = (if packet_mode e then [0] else []) @ rest \<and> length out \<le> cap \<and>
    (if onlcr e then cooked 0 rest \<and> filter (\<lambda>c. c \<noteq> 13) rest = filter (\<lambda>c. c \<noteq> 13) bs \<and> (cooked 0 bs \<longrightarrow> rest = bs) else rest = bs)"
proof -
  obtain i where i: "pty_find_master_locked fstat es hfd = Some i" using assms(2) by (auto simp: yos_pty_packet_read_def split: option.splits)
  then have e: "es ! i \<in> set es" "fstat hfd = Some (master_id (es ! i))"
    by (auto simp: pty_find_master_locked_def find_index_Some split: option.splits)
  let ?e = "es ! i"
  let ?hd = "if packet_mode ?e then [0 :: u8] else []"
  let ?room = "cap - length ?hd"
  have c4: "4 \<le> cap" using assms(2) i by (auto simp: yos_pty_packet_read_def split: if_splits)
  show ?thesis
  proof (cases "onlcr ?e")
    case True
    let ?n = "if 4096 < ?room div 2 then 4096 else ?room div 2"
    obtain bs where bs: "read hfd ?n = Inr bs" and out: "out = ?hd @ expand_nl 0 bs"
      using assms(2) i c4 True by (auto simp: yos_pty_packet_read_def pty_read_expand_onlcr_def Let_def split: if_splits sum.splits)
    have "length bs \<le> ?n" using assms(1) bs by blast
    then have "length bs \<le> ?room div 2" by (simp split: if_splits)
    then have "length out \<le> cap" using out expand_nl_length [of 0 bs] c4 by (auto split: if_splits)
    then show ?thesis using True e bs out expand_nl_cooked expand_nl_content expand_nl_idle
      by (intro exI [of _ ?e] exI [of _ bs] exI [of _ "expand_nl 0 bs"] exI [of _ ?n]) auto
  next
    case False
    obtain bs where bs: "read hfd ?room = Inr bs" and out: "out = ?hd @ bs"
      using assms(2) i c4 False by (auto simp: yos_pty_packet_read_def Let_def split: if_splits sum.splits)
    have "length bs \<le> ?room" using assms(1) bs by blast
    then have "length out \<le> cap" using out c4 by (auto split: if_splits)
    then show ?thesis using False e bs out by (intro exI [of _ ?e] exI [of _ bs] exI [of _ bs] exI [of _ ?room]) auto
  qed
qed

section \<open>From the master to the slave\<close>

text \<open>The registry: numbers are handed out in order, so no two entries share a path.\<close>

definition pty_reg_ok :: "pty_reg \<Rightarrow> bool" where
  "pty_reg_ok R \<longleftrightarrow> (\<forall>e\<in>set (g_pty_head R). \<exists>n<g_pty_next_id R. slave_path e = pts_prefix @ show_nat n)"

lemma show_nat_inj: "show_nat m = show_nat n \<longleftrightarrow> m = n"
  by (metis dec_val_show_nat)

lemma new_pty_reg_ok:
  assumes "pty_reg_ok R"
  shows "pty_reg_ok \<lparr> g_pty_head = new_pty d m s (g_pty_next_id R) # g_pty_head R, g_pty_next_id = g_pty_next_id R + 1 \<rparr>"
proof -
  have "\<exists>n<Suc (g_pty_next_id R). slave_path e = pts_prefix @ show_nat n" if "e \<in> set (g_pty_head R)" for e
    using assms that less_SucI unfolding pty_reg_ok_def by blast
  then show ?thesis by (auto simp: pty_reg_ok_def new_pty_def)
qed

lemma openpt_reg_ok: "yos_posix_openpt h2g H c R fl = (r, c', R', es) \<Longrightarrow> pty_reg_ok R \<Longrightarrow> pty_reg_ok R'"
  using new_pty_reg_ok [of R]
  by (auto simp: yos_posix_openpt_def Let_def split: if_splits sum.splits option.splits prod.splits)

lemma pts_path_bytes: "CHR 0x00 \<notin> set (pts_prefix @ show_nat n)"
proof -
  have "\<not> is_digit (CHR 0x00)" by (simp add: is_digit_def)
  then have "CHR 0x00 \<notin> set (show_nat n)" using show_nat_digits by blast
  then show ?thesis by (simp add: pts_prefix_def)
qed

text \<open>
  Claim C39: a terminal made of sockets can be used like one.  After the host has refused a pseudo terminal and the call has succeeded, the new
  descriptor is a terminal, and its name, written into a buffer of the guest with room for it, opens the other end of the
  pair, while every older name still opens what it opened before.
\<close>

theorem openpt_opens_slave:
  assumes "yos_posix_openpt h2g H c R fl = (wfd, c1, R1, es)" and "0 \<le> wfd" and "oh_openpt H (fl AND 0x8000 \<noteq> 0) = Inl err" and "oh_socketpair H = Inr (m, s)"
    and "0 \<le> m" and "length (fd_map c) = YOS_FD_MAX" and "pty_reg_ok R"
    and "buf \<noteq> 0" and "unat buf + unat len \<le> unat (memory_size c1)" and "13 + length (show_nat (g_pty_next_id R)) < unat len"
    and "ptsname_r m (unat len) = None"
  shows "\<exists>c2 name. yos_ptsname_r h2g (oh_fstat H) ptsname_r (g_pty_head R1) c1 wfd buf len = (0, c2) \<and> str_at (memory c2) (unat buf) name \<and>
    yos_pty_is_pty_fd (oh_fstat H) (g_pty_head R1) m \<and> yos_pty_try_open dup (g_pty_head R1) name cloexec = dup s cloexec \<and>
    (\<forall>e\<in>set (g_pty_head R). yos_pty_try_open dup (g_pty_head R1) (slave_path e) cloexec = yos_pty_try_open dup (g_pty_head R) (slave_path e) cloexec)"
proof -
  let ?n = "g_pty_next_id R"
  let ?name = "pts_prefix @ show_nat ?n"
  obtain d where d: "oh_fstat H m = Some d" and R1: "g_pty_head R1 = new_pty d m s ?n # g_pty_head R" and al: "yos_fd_alloc c m = (wfd, c1, [])"
    using assms(1-4) by (auto simp: yos_posix_openpt_def Let_def yos_fd_alloc_def split: if_splits option.splits prod.splits)
  have f: "wfd < int YOS_FD_MAX" "fd_map c1 ! nat wfd = m"
    using al assms(2,5,6) by (auto simp: yos_fd_alloc_def find_index_Some split: if_splits option.splits)
  have "AT_FDCWD \<noteq> wfd" using assms(2) by simp
  then have g: "yos_fd_get h2g c1 wfd = (m, c1)" using f assms(2,5) by (simp add: yos_fd_get_def)
  have e: "pty_lookup_by_master_locked (oh_fstat H) (g_pty_head R1) m = Some (new_pty d m s ?n)"
    by (simp add: pty_lookup_by_master_locked_def d R1 new_pty_def)
  let ?c2 = "c1\<lparr>memory := mem_write (memory c1) (unat buf) (c_bytes ?name)\<rparr>"
  have l: "length ?name = 13 + length (show_nat ?n)" by (simp add: pts_prefix_def)
  have "len \<noteq> 0" using assms(10) by auto
  then have r: "yos_ptsname_r h2g (oh_fstat H) ptsname_r (g_pty_head R1) c1 wfd buf len = (0, ?c2)"
    using g e assms(5,8-11) l by (simp add: yos_ptsname_r_def new_pty_def)
  have s: "str_at (memory ?c2) (unat buf) ?name"
    using pts_path_bytes [of ?n] by (simp add: str_at_def mem_write_def c_bytes_def)
  have t: "yos_pty_is_pty_fd (oh_fstat H) (g_pty_head R1) m" by (simp add: yos_pty_is_pty_fd_def d R1 new_pty_def)
  have op: "yos_pty_try_open dup (g_pty_head R1) ?name cloexec = dup s cloexec"
    by (simp add: yos_pty_try_open_def pty_lookup_by_path_locked_def R1 new_pty_def pts_prefix_def)
  have old: "yos_pty_try_open dup (g_pty_head R1) (slave_path x) cloexec = yos_pty_try_open dup (g_pty_head R) (slave_path x) cloexec"
    if x: "x \<in> set (g_pty_head R)" for x
  proof -
    obtain k where "k < ?n" "slave_path x = pts_prefix @ show_nat k" using assms(7) x unfolding pty_reg_ok_def by blast
    then have "slave_path (new_pty d m s ?n) \<noteq> slave_path x" by (simp add: new_pty_def show_nat_inj)
    then show ?thesis by (simp add: yos_pty_try_open_def pty_lookup_by_path_locked_def R1)
  qed
  show ?thesis using r s t op old by blast
qed

section \<open>Where it differs from terminals\<close>

text \<open>A carriage return at the end of one read and its line feed at the start of the next come out as two carriage returns.\<close>

lemma split_read_doubles_cr: "expand_nl 0 [13] @ expand_nl 0 [10] = [13, 13, 10]" "expand_nl 0 [13, 10] = [13, 10]"
  by simp_all

text \<open>In packet mode the end of the file reads as a packet of one byte, for ever.\<close>

lemma packet_eof_hidden:
  assumes "pty_find_master_locked fstat es hfd = Some i" and "packet_mode (es ! i)" and "\<not> onlcr (es ! i)" and "4 \<le> cap" and "read hfd (cap - 1) = Inr []"
  shows "yos_pty_packet_read fstat read es hfd cap = Some ([0], None)"
  using assms by (simp add: yos_pty_packet_read_def Let_def)

text \<open>Without a free descriptor the master is closed twice and the slave stays open behind an entry that stays.\<close>

lemma openpt_full_table:
  assumes "oh_openpt H (fl AND 0x8000 \<noteq> 0) = Inl 1" and "oh_socketpair H = Inr (m, s)" and "oh_calloc H" and "oh_fstat H m = Some d" and "0 \<le> m"
    and "find_index (\<lambda>h. h = - 1) (take YOS_FD_MAX (fd_map c)) = None"
  shows "\<exists>c' R'. yos_posix_openpt h2g H c R fl = (- 1, c', R', [Opened m, Opened s, Closed m, Closed m]) \<and> length (g_pty_head R') = Suc (length (g_pty_head R))"
  using assms by (simp add: yos_posix_openpt_def yos_fd_alloc_def Let_def)

section \<open>A concrete terminal\<close>

definition demo_pt_host :: openpt_host where
  "demo_pt_host = \<lparr> oh_openpt = (\<lambda>_. Inl 1), oh_socketpair = Inr (20, 21), oh_calloc = True, oh_fstat = (\<lambda>h. Some (nat h, 0)), oh_fstat_errno = 0 \<rparr>"

definition demo_pt_ctx :: yos_exec_ctx where
  "demo_pt_ctx = (ctx_calloc (\<lambda>_. 0) 65536)\<lparr>fd_map := [0, 1, 2] @ replicate 253 (- 1)\<rparr>"

theorem openpt_opens_slave_witness:
  "\<exists>c1 R1 c2 name. yos_posix_openpt (\<lambda>e. e) demo_pt_host demo_pt_ctx \<lparr> g_pty_head = [], g_pty_next_id = 1 \<rparr> 2 = (3, c1, R1, [Opened 20, Opened 21]) \<and>
     yos_ptsname_r (\<lambda>e. e) (oh_fstat demo_pt_host) (\<lambda>_ _. None) (g_pty_head R1) c1 3 4096 64 = (0, c2) \<and> str_at (memory c2) 4096 name \<and>
     yos_pty_try_open (\<lambda>h _. Inr (h + 100)) (g_pty_head R1) name False = Inr 121"
proof -
  let ?R = "\<lparr> g_pty_head = [], g_pty_next_id = 1 \<rparr>"
  have fi: "find_index (\<lambda>h. h = - 1) (take YOS_FD_MAX (fd_map demo_pt_ctx)) = Some 3" by (simp add: find_index_Some demo_pt_ctx_def)
  obtain c1 R1 where run: "yos_posix_openpt (\<lambda>e. e) demo_pt_host demo_pt_ctx ?R 2 = (3, c1, R1, [Opened 20, Opened 21])" and c1: "c1 = set_fd demo_pt_ctx 3 20 None"
    using fi by (simp add: yos_posix_openpt_def demo_pt_host_def yos_fd_alloc_def Let_def)
  have sz: "memory_size c1 = 65536" by (simp add: c1 set_fd_def demo_pt_ctx_def ctx_calloc_def)
  have h: "oh_openpt demo_pt_host (2 AND 0x8000 \<noteq> (0 :: u32)) = Inl 1" "oh_socketpair demo_pt_host = Inr (20, 21)" by (simp_all add: demo_pt_host_def)
  have l: "length (fd_map demo_pt_ctx) = YOS_FD_MAX" by (simp add: demo_pt_ctx_def)
  have ok: "pty_reg_ok ?R" by (simp add: pty_reg_ok_def)
  from openpt_opens_slave [OF run _ h _ l ok, of 4096 64 "\<lambda>_ _. None" "\<lambda>h _. Inr (h + 100)" False] run length_show_nat [of 1 1] show ?thesis
    by (auto simp: sz)
qed

theorem pty_read_cooked_witness:
  "\<exists>out. yos_pty_packet_read (\<lambda>h. Some (nat h, 0)) (\<lambda>_ n. Inr (take n [104, 10])) [new_pty (20, 0) 20 21 1] 20 64 = Some (out, None) \<and> out = [104, 13, 10]"
proof -
  let ?es = "[new_pty (20, 0) 20 21 1]" and ?read = "\<lambda>(_ :: int) n. Inr (take n [104, 10]) :: int + u8 list"
  have r: "\<forall>h n bs. ?read h n = Inr bs \<longrightarrow> length bs \<le> n" by auto
  obtain out where run: "yos_pty_packet_read (\<lambda>h. Some (nat h, 0)) ?read ?es 20 64 = Some (out, None)" and o: "out = [104, 13, 10]"
    by (simp add: yos_pty_packet_read_def pty_find_master_locked_def pty_read_expand_onlcr_def new_pty_def Let_def)
  from pty_read_cooked [OF r run] show ?thesis using run o by blast
qed

end
