(* ===== verification/Terminals.thy ===== *)
theory Terminals
  imports Pty
begin

text \<open>
  Terminal attributes: \<^verbatim>\<open>src/src/yos/impl/libc/posix-linux.c\<close> and the terminal calls of \<^verbatim>\<open>posix.c\<close>.  The guest's structure has 44 bytes, four words of
  flags, twenty control characters and two speeds; flags and indices differ from those of a Linux host and are translated by
  tables.  A pseudo terminal that is a pair of sockets keeps its attributes here.
\<close>

section \<open>Flags\<close>

text \<open>Pairs of the guest's and the host's bits.\<close>

definition iflag_map :: "(u32 \<times> u32) list" where
  "iflag_map = [(0x1, 0x1), (0x2, 0x2), (0x4, 0x4), (0x8, 0x8), (0x10, 0x10), (0x20, 0x20), (0x40, 0x40), (0x80, 0x80), (0x100, 0x100),
     (0x200, 0x400), (0x400, 0x1000), (0x800, 0x800), (0x2000, 0x2000)]"

definition oflag_map :: "(u32 \<times> u32) list" where
  "oflag_map = [(0x1, 0x1), (0x2, 0x4), (0x4, 0x20), (0x8, 0x10), (0x10, 0x8), (0x20, 0x40), (0x40, 0x80)]"

definition cflag_map :: "(u32 \<times> u32) list" where
  "cflag_map = [(0x100, 0x10), (0x200, 0x20), (0x300, 0x30), (0x400, 0x40), (0x800, 0x80), (0x1000, 0x100), (0x2000, 0x200), (0x4000, 0x400),
     (0x8000, 0x800)]"

definition lflag_map :: "(u32 \<times> u32) list" where
  "lflag_map = [(0x1, 0x800), (0x2, 0x10), (0x4, 0x20), (0x8, 0x8), (0x10, 0x40), (0x20, 0x400), (0x40, 0x200), (0x80, 0x1), (0x100, 0x2),
     (0x400, 0x8000), (0x800, 0x10000), (0x400000, 0x100), (0x800000, 0x1000), (0x20000000, 0x4000), (0x80000000, 0x80)]"

definition map_flags :: "u32 \<Rightarrow> (u32 \<times> u32) list \<Rightarrow> bool \<Rightarrow> u32" where
  "map_flags v m fb_to_lx =
     fold (\<lambda>(fb, lx) r. let src = (if fb_to_lx then fb else lx); dst = (if fb_to_lx then lx else fb) in if v AND src \<noteq> 0 then r OR dst else r) m 0"

text \<open>The index of a control character on a Linux host, or \<open>-1\<close>.\<close>

definition cc_table :: "(nat \<times> int) list" where
  "cc_table = [(0, 4), (1, 11), (2, 16), (3, 2), (4, 14), (5, 3), (6, 12), (8, 0), (9, 1), (10, 10), (12, 8), (13, 9), (14, 15), (15, 13), (16, 6), (17, 5)]"

definition cc_fb_to_lx :: "nat \<Rightarrow> int" where
  "cc_fb_to_lx fb_idx = (case map_of cc_table fb_idx of Some i \<Rightarrow> i | None \<Rightarrow> - 1)"

section \<open>Structures\<close>

text \<open>The host's structure; where it keeps the speeds is its own business, and \<^verbatim>\<open>cfsetispeed\<close> and the like are parameters.\<close>

record termios =
  c_iflag :: u32
  c_oflag :: u32
  c_cflag :: u32
  c_lflag :: u32
  c_cc :: "u8 list"
  c_speeds :: "u32 \<times> u32"

abbreviation NCCS :: nat where "NCCS \<equiv> 32"
abbreviation YOS_FBSD_NCCS :: nat where "YOS_FBSD_NCCS \<equiv> 20"
abbreviation YOS_FBSD_TERMIOS_SIZE :: nat where "YOS_FBSD_TERMIOS_SIZE \<equiv> 44"

definition zero_termios :: termios where
  "zero_termios = \<lparr> c_iflag = 0, c_oflag = 0, c_cflag = 0, c_lflag = 0, c_cc = replicate NCCS 0, c_speeds = (0, 0) \<rparr>"

record speed_host =
  cfset :: "u32 \<Rightarrow> u32 \<Rightarrow> termios \<Rightarrow> termios"
  cfget :: "termios \<Rightarrow> u32 \<times> u32"

definition cc_to_host :: "mem \<Rightarrow> nat \<Rightarrow> u8 list \<Rightarrow> u8 list" where
  "cc_to_host m a = fold (\<lambda>i cc. let li = cc_fb_to_lx i in if 0 \<le> li \<and> li < int NCCS then cc[nat li := m (a + i)] else cc) [0..<YOS_FBSD_NCCS]"

definition termios_fb_to_lx :: "speed_host \<Rightarrow> mem \<Rightarrow> nat \<Rightarrow> termios" where
  "termios_fb_to_lx S m w =
     cfset S (load32 m (w + 36)) (load32 m (w + 40))
       (zero_termios\<lparr>c_iflag := map_flags (load32 m w) iflag_map True, c_oflag := map_flags (load32 m (w + 4)) oflag_map True,
          c_cflag := map_flags (load32 m (w + 8)) cflag_map True, c_lflag := map_flags (load32 m (w + 12)) lflag_map True,
          c_cc := cc_to_host m (w + 16) (c_cc zero_termios)\<rparr>)"

definition cc_to_guest :: "u8 list \<Rightarrow> nat \<Rightarrow> mem \<Rightarrow> mem" where
  "cc_to_guest cc a = fold (\<lambda>i m. let li = cc_fb_to_lx i in if 0 \<le> li \<and> li < int NCCS then m(a + i := cc ! nat li) else m) [0..<YOS_FBSD_NCCS]"

definition termios_lx_to_fb :: "speed_host \<Rightarrow> mem \<Rightarrow> nat \<Rightarrow> termios \<Rightarrow> mem" where
  "termios_lx_to_fb S m w h =
     (let m0 = mem_fill m w 0 YOS_FBSD_TERMIOS_SIZE;
          m1 = store32 (store32 m0 w (map_flags (c_iflag h) iflag_map False)) (w + 4) (map_flags (c_oflag h) oflag_map False);
          m2 = store32 (store32 m1 (w + 8) (map_flags (c_cflag h) cflag_map False)) (w + 12) (map_flags (c_lflag h) lflag_map False);
          m3 = cc_to_guest (c_cc h) (w + 16) m2
      in store32 (store32 m3 (w + 36) (fst (cfget S h))) (w + 40) (snd (cfget S h)))"

section \<open>The calls\<close>

text \<open>
  The attributes of socket terminals belong to the process, \<open>None\<close> until first used; the registry of pseudo terminals is the
  program's.
\<close>

type_synonym pty_state = "termios option \<times> pty_entry list"

definition yos_isatty :: "(int \<Rightarrow> int) \<Rightarrow> host_fstat \<Rightarrow> (int \<Rightarrow> int) \<Rightarrow> yos_exec_ctx \<Rightarrow> pty_entry list \<Rightarrow> int \<Rightarrow> int \<times> yos_exec_ctx" where
  "yos_isatty h2g fstat isatty ctx es wfd =
     (case yos_fd_get h2g ctx wfd of (hfd, c0) \<Rightarrow>
        if hfd < 0 then (0, c0) else if yos_pty_is_pty_fd fstat es hfd then (1, c0) else (isatty hfd, c0))"

definition fake_pty_termios_defaults :: "speed_host \<Rightarrow> termios" where
  "fake_pty_termios_defaults S =
     cfset S 15 15 (zero_termios\<lparr>c_iflag := 0x100 OR 0x400 OR 0x2, c_oflag := 0x1 OR 0x4, c_cflag := 0x30 OR 0x80 OR 0x400,
       c_lflag := 0x8 OR 0x10 OR 0x20 OR 0x40 OR 0x2 OR 0x1 OR 0x8000,
       c_cc := (replicate NCCS 0)[0 := 3, 1 := 0x1C, 2 := 0x7F, 3 := 0x15, 4 := 4, 8 := 0x11, 9 := 0x13, 10 := 0x1A, 6 := 1, 5 := 0]\<rparr>)"

definition pty_termios :: "speed_host \<Rightarrow> pty_state \<Rightarrow> termios" where
  "pty_termios S p = (case fst p of None \<Rightarrow> fake_pty_termios_defaults S | Some t \<Rightarrow> t)"

definition yos_tcgetattr ::
  "(int \<Rightarrow> int) \<Rightarrow> speed_host \<Rightarrow> host_fstat \<Rightarrow> (int \<Rightarrow> int + termios) \<Rightarrow> yos_exec_ctx \<Rightarrow> pty_state \<Rightarrow> int \<Rightarrow> u32 \<Rightarrow> int \<times> yos_exec_ctx \<times> pty_state" where
  "yos_tcgetattr h2g S fstat tcgetattr ctx p wfd t_off =
     (let fail = (\<lambda>c e. (- 1, set_errno h2g c e, p)) in
      case posix_wptr_range ctx t_off YOS_FBSD_TERMIOS_SIZE of
        None \<Rightarrow> fail ctx EFAULT
      | Some w \<Rightarrow>
          (case yos_fd_get h2g ctx wfd of (hfd, c0) \<Rightarrow>
             if hfd < 0 then fail c0 EBADF
             else if yos_pty_is_pty_fd fstat (snd p) hfd then
               (0, c0\<lparr>memory := termios_lx_to_fb S (memory c0) w (pty_termios S p)\<rparr>, (Some (pty_termios S p), snd p))
             else case tcgetattr hfd of
                 Inl e \<Rightarrow> fail c0 e
               | Inr h \<Rightarrow> (0, c0\<lparr>memory := termios_lx_to_fb S (memory c0) w h\<rparr>, p)))"

text \<open>\<open>tcsetattr\<close> of the host gives an error number, or \<open>None\<close>.\<close>

definition yos_tcsetattr ::
  "(int \<Rightarrow> int) \<Rightarrow> speed_host \<Rightarrow> host_fstat \<Rightarrow> (int \<Rightarrow> int + termios) \<Rightarrow> (int \<Rightarrow> int \<Rightarrow> termios \<Rightarrow> int option) \<Rightarrow> yos_exec_ctx \<Rightarrow> pty_state \<Rightarrow>
   int \<Rightarrow> int \<Rightarrow> u32 \<Rightarrow> int \<times> yos_exec_ctx \<times> pty_state" where
  "yos_tcsetattr h2g S fstat tcgetattr tcsetattr ctx p wfd actions t_off =
     (let fail = (\<lambda>c e. (- 1, set_errno h2g c e, p)) in
      case posix_wptr_range ctx t_off YOS_FBSD_TERMIOS_SIZE of
        None \<Rightarrow> fail ctx EFAULT
      | Some w \<Rightarrow>
          (case yos_fd_get h2g ctx wfd of (hfd, c0) \<Rightarrow>
             if hfd < 0 then fail c0 EBADF
             else
               let h = termios_fb_to_lx S (memory c0) w in
               if yos_pty_is_pty_fd fstat (snd p) hfd then (0, c0, (Some h, snd (yos_pty_set_onlcr fstat (snd p) hfd (c_oflag h AND 0x4 \<noteq> 0))))
               else case tcgetattr hfd of
                   Inl e \<Rightarrow> fail c0 e
                 | Inr _ \<Rightarrow> (case tcsetattr hfd actions h of Some e \<Rightarrow> fail c0 e | None \<Rightarrow> (0, c0, p))))"

text \<open>Raw mode works on the guest's structure alone.\<close>

definition yos_cfmakeraw :: "yos_exec_ctx \<Rightarrow> u32 \<Rightarrow> yos_exec_ctx" where
  "yos_cfmakeraw ctx t_off =
     (case posix_wptr_range ctx t_off YOS_FBSD_TERMIOS_SIZE of
        None \<Rightarrow> ctx
      | Some w \<Rightarrow>
          let m = memory ctx;
              iflag = load32 m w AND NOT (0x1 OR 0x2 OR 0x8 OR 0x20 OR 0x40 OR 0x80 OR 0x100 OR 0x200);
              oflag = load32 m (w + 4) AND NOT 0x1;
              cflag = (load32 m (w + 8) AND NOT (0x300 OR 0x1000)) OR 0x300;
              lflag = load32 m (w + 12) AND NOT (0x8 OR 0x10 OR 0x100 OR 0x80 OR 0x400);
              m1 = store32 (store32 (store32 (store32 m w iflag) (w + 4) oflag) (w + 8) cflag) (w + 12) lflag
          in ctx\<lparr>memory := m1(w + 32 := 1, w + 33 := 0)\<rparr>)"

definition set_speed :: "(int \<Rightarrow> int) \<Rightarrow> nat \<Rightarrow> yos_exec_ctx \<Rightarrow> u32 \<Rightarrow> u32 \<Rightarrow> int \<times> yos_exec_ctx" where
  "set_speed h2g off ctx t_off speed =
     (case posix_wptr_range ctx t_off YOS_FBSD_TERMIOS_SIZE of
        None \<Rightarrow> yos_errno_neg h2g ctx EFAULT
      | Some w \<Rightarrow> (0, ctx\<lparr>memory := store32 (memory ctx) (w + off) speed\<rparr>))"

definition get_speed :: "nat \<Rightarrow> yos_exec_ctx \<Rightarrow> u32 \<Rightarrow> u32" where
  "get_speed off ctx t_off = (case posix_wptr_range ctx t_off YOS_FBSD_TERMIOS_SIZE of None \<Rightarrow> 0 | Some w \<Rightarrow> load32 (memory ctx) (w + off))"

definition yos_cfsetispeed :: "(int \<Rightarrow> int) \<Rightarrow> yos_exec_ctx \<Rightarrow> u32 \<Rightarrow> u32 \<Rightarrow> int \<times> yos_exec_ctx" where
  "yos_cfsetispeed h2g ctx t_off speed = set_speed h2g 36 ctx t_off speed"

definition yos_cfsetospeed :: "(int \<Rightarrow> int) \<Rightarrow> yos_exec_ctx \<Rightarrow> u32 \<Rightarrow> u32 \<Rightarrow> int \<times> yos_exec_ctx" where
  "yos_cfsetospeed h2g ctx t_off speed = set_speed h2g 40 ctx t_off speed"

definition yos_cfgetispeed :: "yos_exec_ctx \<Rightarrow> u32 \<Rightarrow> u32" where
  "yos_cfgetispeed ctx t_off = get_speed 36 ctx t_off"

definition yos_cfgetospeed :: "yos_exec_ctx \<Rightarrow> u32 \<Rightarrow> u32" where
  "yos_cfgetospeed ctx t_off = get_speed 40 ctx t_off"

section \<open>Translating flags there and back\<close>

text \<open>A bit of the result is a bit of the target of an entry whose source the value meets.\<close>

definition meets :: "u32 \<Rightarrow> u32 \<Rightarrow> bool" where
  "meets v s \<longleftrightarrow> v AND s \<noteq> 0"

lemma map_flags_bit:
  "bit (map_flags v m True) n \<longleftrightarrow> (\<exists>(s, d)\<in>set m. meets v s \<and> bit d n)"
  "bit (map_flags v m False) n \<longleftrightarrow> (\<exists>(d, s)\<in>set m. meets v s \<and> bit d n)"
proof -
  have "bit (fold (\<lambda>(fb, lx) r. let src = (if d then fb else lx); dst = (if d then lx else fb) in if v AND src \<noteq> 0 then r OR dst else r) m r) n \<longleftrightarrow>
      bit r n \<or> (\<exists>(fb, lx)\<in>set m. meets v (if d then fb else lx) \<and> bit (if d then lx else fb) n)" for r d
    by (induction m arbitrary: r) (auto simp: Let_def meets_def bit_or_iff split: if_splits)
  from this [of True 0] this [of False 0] show "bit (map_flags v m True) n \<longleftrightarrow> (\<exists>(s, d)\<in>set m. meets v s \<and> bit d n)"
      "bit (map_flags v m False) n \<longleftrightarrow> (\<exists>(d, s)\<in>set m. meets v s \<and> bit d n)"
    by (simp_all add: map_flags_def)
qed

lemma bit_exp: "bit (2 ^ a :: u32) n \<longleftrightarrow> n = a \<and> n < 32"
  by (auto simp: bit_exp_iff)

lemma meets_bits: "meets v s \<longleftrightarrow> (\<exists>n<32. bit v n \<and> bit s n)"
  by (auto simp: meets_def bit_eq_iff bit_and_iff)

lemma meets_exp: "a < 32 \<Longrightarrow> meets v (2 ^ a) \<longleftrightarrow> bit v a"
  by (auto simp: meets_bits bit_exp)

text \<open>Tables of single bits, as pairs of positions.\<close>

definition bit_table :: "(nat \<times> nat) list \<Rightarrow> (u32 \<times> u32) list" where
  "bit_table ps = map (\<lambda>(a, b). (2 ^ a, 2 ^ b)) ps"

definition in_word :: "(nat \<times> nat) list \<Rightarrow> bool" where
  "in_word ps \<longleftrightarrow> (\<forall>(a, b)\<in>set ps. a < 32 \<and> b < 32)"

lemma bit_table_flags:
  assumes "in_word ps"
  shows "bit (map_flags v (bit_table ps) True) n \<longleftrightarrow> (\<exists>a. (a, n) \<in> set ps \<and> bit v a)"
    and "bit (map_flags v (bit_table ps) False) n \<longleftrightarrow> (\<exists>b. (n, b) \<in> set ps \<and> bit v b)"
  using assms by (force simp: map_flags_bit bit_table_def in_word_def bit_exp meets_exp)+

text \<open>With no target twice, translating there and back keeps the bits of the table and drops the others.\<close>

lemma flags_roundtrip:
  assumes "in_word ps" and "distinct (map snd ps)"
  shows "bit (map_flags (map_flags v (bit_table ps) True) (bit_table ps) False) n \<longleftrightarrow> n \<in> fst ` set ps \<and> bit v n"
proof -
  have "a = a'" if "(a, b) \<in> set ps" "(a', b) \<in> set ps" for a a' b
    using assms(2) that unfolding distinct_map inj_on_def by (metis prod.inject snd_conv)
  moreover have "n \<in> fst ` set ps \<longleftrightarrow> (\<exists>b. (n, b) \<in> set ps)" by force
  ultimately show ?thesis unfolding bit_table_flags [OF assms(1)] by blast
qed

definition iflag_bits :: "(nat \<times> nat) list" where
  "iflag_bits = [(0, 0), (1, 1), (2, 2), (3, 3), (4, 4), (5, 5), (6, 6), (7, 7), (8, 8), (9, 10), (10, 12), (11, 11), (13, 13)]"

definition oflag_bits :: "(nat \<times> nat) list" where
  "oflag_bits = [(0, 0), (1, 2), (2, 5), (3, 4), (4, 3), (5, 6), (6, 7)]"

definition lflag_bits :: "(nat \<times> nat) list" where
  "lflag_bits = [(0, 11), (1, 4), (2, 5), (3, 3), (4, 6), (5, 10), (6, 9), (7, 0), (8, 1), (10, 15), (11, 16), (22, 8), (23, 12), (29, 14), (31, 7)]"

lemma tables: "iflag_map = bit_table iflag_bits" "oflag_map = bit_table oflag_bits" "lflag_map = bit_table lflag_bits"
  by (simp_all add: iflag_map_def oflag_map_def lflag_map_def iflag_bits_def oflag_bits_def lflag_bits_def bit_table_def)

lemma tables_ok: "in_word iflag_bits" "in_word oflag_bits" "in_word lflag_bits"
    "distinct (map snd iflag_bits)" "distinct (map snd oflag_bits)" "distinct (map snd lflag_bits)"
  by (simp_all add: in_word_def iflag_bits_def oflag_bits_def lflag_bits_def)

lemma bit_set_mask: "n < 32 \<Longrightarrow> bit (fold (\<lambda>a r. r OR 2 ^ a) as (r :: u32)) n \<longleftrightarrow> bit r n \<or> n \<in> set as"
  by (induction as arbitrary: r) (auto simp: bit_or_iff bit_exp)

lemma table_masks: "fold (\<lambda>a r. r OR 2 ^ a) (map fst iflag_bits) (0 :: u32) = 0x2FFF" "fold (\<lambda>a r. r OR 2 ^ a) (map fst oflag_bits) (0 :: u32) = 0x7F"
    "fold (\<lambda>a r. r OR 2 ^ a) (map fst lflag_bits) (0 :: u32) = 0xA0C00DFF"
  by (simp_all add: iflag_bits_def oflag_bits_def lflag_bits_def)

lemma masked_roundtrip:
  assumes "in_word ps" and "distinct (map snd ps)" and "fold (\<lambda>a r. r OR 2 ^ a) (map fst ps) 0 = M"
  shows "map_flags (map_flags v (bit_table ps) True) (bit_table ps) False = v AND M"
proof (rule bit_word_eqI)
  fix n assume "n < LENGTH(32)"
  then have "bit M n \<longleftrightarrow> n \<in> fst ` set ps" using bit_set_mask [of n "map fst ps" 0] assms(3) by simp
  then show "bit (map_flags (map_flags v (bit_table ps) True) (bit_table ps) False) n = bit (v AND M) n"
    using flags_roundtrip [OF assms(1,2)] by (auto simp: bit_and_iff)
qed

lemmas simple_roundtrips = masked_roundtrip [OF tables_ok(1,4) table_masks(1), folded tables] masked_roundtrip [OF tables_ok(2,5) table_masks(2), folded tables]
  masked_roundtrip [OF tables_ok(3,6) table_masks(3), folded tables]

text \<open>The character sizes overlap: every size but the smallest turns into the greatest.\<close>

definition cflag_bits :: "(nat \<times> nat) list" where
  "cflag_bits = [(8, 4), (8, 5), (9, 4), (9, 5), (10, 6), (11, 7), (12, 8), (13, 9), (14, 10), (15, 11)]"

lemma cflag_table: "map_flags v cflag_map d = map_flags v (bit_table cflag_bits) d"
proof (rule bit_word_eqI)
  fix n
  have s: "(0x300 :: u32) = 0x100 OR 0x200" "(0x30 :: u32) = 0x10 OR 0x20" by simp_all
  have m: "meets v (x OR y) \<longleftrightarrow> meets v x \<or> meets v y" for x y by (auto simp: meets_bits bit_or_iff)
  have b: "bit (0x300 :: u32) n \<longleftrightarrow> bit (0x100 :: u32) n \<or> bit (0x200 :: u32) n" "bit (0x30 :: u32) n \<longleftrightarrow> bit (0x10 :: u32) n \<or> bit (0x20 :: u32) n"
    unfolding s by (simp_all only: bit_or_iff)
  have mm: "meets v 0x300 \<longleftrightarrow> meets v 0x100 \<or> meets v 0x200" "meets v 0x30 \<longleftrightarrow> meets v 0x10 \<or> meets v 0x20"
    unfolding s by (simp_all only: m)
  have t: "bit_table cflag_bits = [(0x100, 0x10), (0x100, 0x20), (0x200, 0x10), (0x200, 0x20), (0x400, 0x40), (0x800, 0x80), (0x1000, 0x100),
      (0x2000, 0x200), (0x4000, 0x400), (0x8000, 0x800)]" by (simp add: bit_table_def cflag_bits_def)
  show "bit (map_flags v cflag_map d) n = bit (map_flags v (bit_table cflag_bits) d) n"
    unfolding t cflag_map_def by (cases d) (simp_all only: map_flags_bit list.set bex_simps ball_simps prod.case b mm, blast+)
qed

lemma cflag_roundtrip:
  "map_flags (map_flags v cflag_map True) cflag_map False = (v AND 0xFC00) OR (if v AND 0x300 \<noteq> 0 then 0x300 else 0)"
proof (rule bit_word_eqI)
  fix n assume "n < LENGTH(32)"
  then have n: "n < 32" by simp
  have ok: "in_word cflag_bits" by (simp add: in_word_def cflag_bits_def)
  have "fold (\<lambda>a r. r OR 2 ^ a) [10, 11, 12, 13, 14, 15] (0 :: u32) = 0xFC00" "fold (\<lambda>a r. r OR 2 ^ a) [8, 9] (0 :: u32) = 0x300" by simp_all
  then have k: "bit (0xFC00 :: u32) i \<longleftrightarrow> i \<in> {10, 11, 12, 13, 14, 15}" "bit (0x300 :: u32) i \<longleftrightarrow> i \<in> {8, 9}" if "i < 32" for i
    using that bit_set_mask [of i "[10, 11, 12, 13, 14, 15]" 0] bit_set_mask [of i "[8, 9]" 0] by simp_all
  have "v AND 0x300 \<noteq> 0 \<longleftrightarrow> (\<exists>i<32. bit v i \<and> bit (0x300 :: u32) i)"
    using meets_bits [of v "0x300"] unfolding meets_def .
  also have "\<dots> \<longleftrightarrow> (\<exists>i<32. bit v i \<and> (i = 8 \<or> i = 9))" using k(2) by auto
  also have "\<dots> \<longleftrightarrow> bit v 8 \<or> bit v 9" by force
  finally have c: "v AND 0x300 \<noteq> 0 \<longleftrightarrow> bit v 8 \<or> bit v 9" .
  have there: "(\<exists>a. (a, b) \<in> set cflag_bits \<and> bit v a) \<longleftrightarrow> (b = 4 \<or> b = 5) \<and> (bit v 8 \<or> bit v 9) \<or> b = 6 \<and> bit v 10 \<or> b = 7 \<and> bit v 11 \<or>
      b = 8 \<and> bit v 12 \<or> b = 9 \<and> bit v 13 \<or> b = 10 \<and> bit v 14 \<or> b = 11 \<and> bit v 15" for b
    by (simp add: cflag_bits_def conj_disj_distribR ex_disj_distrib) blast
  have from_host: "(\<exists>b. (n, b) \<in> set cflag_bits \<and> P b) \<longleftrightarrow> (n = 8 \<or> n = 9) \<and> (P 4 \<or> P 5) \<or> n = 10 \<and> P 6 \<or> n = 11 \<and> P 7 \<or> n = 12 \<and> P 8 \<or>
      n = 13 \<and> P 9 \<or> n = 14 \<and> P 10 \<or> n = 15 \<and> P 11" for P
    by (simp add: cflag_bits_def conj_disj_distribR ex_disj_distrib) blast
  have "bit (map_flags (map_flags v cflag_map True) cflag_map False) n \<longleftrightarrow> (n = 8 \<or> n = 9) \<and> (bit v 8 \<or> bit v 9) \<or> n \<in> {10, 11, 12, 13, 14, 15} \<and> bit v n"
    unfolding cflag_table bit_table_flags [OF ok] from_host there by (simp add: conj_disj_distribR cong: conj_cong)
  then show "bit (map_flags (map_flags v cflag_map True) cflag_map False) n = bit ((v AND 0xFC00) OR (if v AND 0x300 \<noteq> 0 then 0x300 else 0)) n"
    unfolding c bit_or_iff bit_and_iff if_distrib [of "\<lambda>x. bit x n"] k [OF n] by auto
qed

section \<open>Control characters\<close>

lemma upt_20: "[0..<YOS_FBSD_NCCS] = [0, 1, 2, 3, 4, 5, 6, 7, 8, 9, 10, 11, 12, 13, 14, 15, 16, 17, 18, 19]"
  by (simp add: upt_rec)

lemma cc_indices: "map cc_fb_to_lx [0..<YOS_FBSD_NCCS] = [4, 11, 16, 2, 14, 3, 12, - 1, 0, 1, 10, - 1, 8, 9, 15, 13, 6, 5, - 1, - 1]"
  by (simp add: upt_20 cc_fb_to_lx_def cc_table_def)

lemma cc_to_guest_out: "j < a \<or> a + YOS_FBSD_NCCS \<le> j \<Longrightarrow> cc_to_guest cc a m j = m j"
proof -
  assume j: "j < a \<or> a + YOS_FBSD_NCCS \<le> j"
  have "fold (\<lambda>i m. let li = cc_fb_to_lx i in if 0 \<le> li \<and> li < int NCCS then m(a + i := cc ! nat li) else m) is m j = m j" if "\<forall>i\<in>set is. i < 20" for "is"
    using that j by (induction "is" arbitrary: m) (auto simp: Let_def)
  then show ?thesis by (simp add: cc_to_guest_def)
qed

text \<open>The loops in closed form: no index is used twice.\<close>

lemma cc_to_guest_in:
  assumes "i < YOS_FBSD_NCCS"
  shows "cc_to_guest cc a m (a + i) = (if 0 \<le> cc_fb_to_lx i \<and> cc_fb_to_lx i < int NCCS then cc ! nat (cc_fb_to_lx i) else m (a + i))"
proof -
  let ?f = "\<lambda>i m. let li = cc_fb_to_lx i in if 0 \<le> li \<and> li < int NCCS then m(a + i := cc ! nat li) else m"
  have "fold ?f is m (a + i) = (if i \<in> set is \<and> 0 \<le> cc_fb_to_lx i \<and> cc_fb_to_lx i < int NCCS then cc ! nat (cc_fb_to_lx i) else m (a + i))" for "is"
    by (induction "is" arbitrary: m) (auto simp: Let_def)
  then show ?thesis using assms by (simp add: cc_to_guest_def)
qed

lemma cc_fb_to_lx_inj:
  assumes "i < YOS_FBSD_NCCS" and "j < YOS_FBSD_NCCS" and "cc_fb_to_lx i = cc_fb_to_lx j" and "0 \<le> cc_fb_to_lx i"
  shows "i = j"
proof -
  have "distinct (filter (\<lambda>h. 0 \<le> h) (map cc_fb_to_lx [0..<YOS_FBSD_NCCS]))" unfolding cc_indices by simp
  then show ?thesis using assms unfolding distinct_filter_iff by simp
qed

lemma cc_to_host_at:
  assumes "i < YOS_FBSD_NCCS" and "0 \<le> cc_fb_to_lx i" and "cc_fb_to_lx i < int NCCS" and "length cc = NCCS"
  shows "cc_to_host m a cc ! nat (cc_fb_to_lx i) = m (a + i)"
proof -
  define f where "f = (\<lambda>i cc. let li = cc_fb_to_lx i in if 0 \<le> li \<and> li < int NCCS then cc[nat li := m (a + i)] else cc)"
  have "fold f is cc ! nat (cc_fb_to_lx i) = (if i \<in> set is then m (a + i) else cc ! nat (cc_fb_to_lx i))"
    if "\<forall>j\<in>set is. j < 20" "length cc = NCCS" for "is" cc
    using that
  proof (induction "is" arbitrary: cc)
    case (Cons j js)
    have 1: "f j cc ! nat (cc_fb_to_lx i) = (if j = i then m (a + i) else cc ! nat (cc_fb_to_lx i))"
      using Cons.prems assms(1-3) cc_fb_to_lx_inj [of i j] by (auto simp: f_def Let_def nth_list_update eq_nat_nat_iff)
    have "length (f j cc) = NCCS" using Cons.prems(2) by (simp add: f_def Let_def)
    then show ?case using Cons.IH [of "f j cc"] Cons.prems(1) 1 by auto
  qed simp
  then show ?thesis using assms by (simp add: cc_to_host_def f_def)
qed

section \<open>Setting and getting\<close>

text \<open>What the host's speed functions promise: they keep to the bits of the speeds, which no table mentions.\<close>

definition speeds_apart :: "speed_host \<Rightarrow> bool" where
  "speeds_apart S \<longleftrightarrow> (\<forall>i ou t. c_oflag (cfset S i ou t) = c_oflag t \<and> c_lflag (cfset S i ou t) = c_lflag t \<and> c_cc (cfset S i ou t) = c_cc t \<and>
     c_iflag (cfset S i ou t) AND 0xFFFF = c_iflag t AND 0xFFFF \<and> c_cflag (cfset S i ou t) AND 0xFF0 = c_cflag t AND 0xFF0)"

lemma map_flags_cong:
  assumes "v AND M = v' AND M" and "\<forall>(fb, lx)\<in>set m. lx AND M = lx"
  shows "map_flags v m False = map_flags v' m False"
proof -
  have "meets v lx = meets v' lx" if "(fb, lx) \<in> set m" for fb lx
  proof -
    have "lx AND M = lx" using assms(2) that by auto
    then have "v AND lx = (v AND M) AND lx" "v' AND lx = (v' AND M) AND lx" by (metis and.assoc and.commute)+
    then show ?thesis using assms(1) by (simp add: meets_def)
  qed
  then show ?thesis by (intro bit_word_eqI) (auto simp: map_flags_bit)
qed

lemma lx_to_fb_words:
  "load32 (termios_lx_to_fb S m w h) w = map_flags (c_iflag h) iflag_map False"
  "load32 (termios_lx_to_fb S m w h) (w + 4) = map_flags (c_oflag h) oflag_map False"
  "load32 (termios_lx_to_fb S m w h) (w + 8) = map_flags (c_cflag h) cflag_map False"
  "load32 (termios_lx_to_fb S m w h) (w + 12) = map_flags (c_lflag h) lflag_map False"
  "i < YOS_FBSD_NCCS \<Longrightarrow> termios_lx_to_fb S m w h (w + 16 + i) = (if 0 \<le> cc_fb_to_lx i \<and> cc_fb_to_lx i < int NCCS then c_cc h ! nat (cc_fb_to_lx i) else 0)"
proof -
  let ?m1 = "store32 (store32 (mem_fill m w 0 44) w (map_flags (c_iflag h) iflag_map False)) (w + 4) (map_flags (c_oflag h) oflag_map False)"
  let ?m2 = "store32 (store32 ?m1 (w + 8) (map_flags (c_cflag h) cflag_map False)) (w + 12) (map_flags (c_lflag h) lflag_map False)"
  let ?m3 = "cc_to_guest (c_cc h) (w + 16) ?m2"
  have t: "termios_lx_to_fb S m w h = store32 (store32 ?m3 (w + 36) (fst (cfget S h))) (w + 40) (snd (cfget S h))"
    by (simp add: termios_lx_to_fb_def Let_def)
  have "load32 (termios_lx_to_fb S m w h) (w + k) = load32 ?m2 (w + k)" if "k \<le> 12" for k
    unfolding t by (rule load32_cong) (use that in \<open>simp add: store32_other cc_to_guest_out\<close>)
  from this [of 0] this [of 4] this [of 8] this [of 12]
  show "load32 (termios_lx_to_fb S m w h) w = map_flags (c_iflag h) iflag_map False"
    "load32 (termios_lx_to_fb S m w h) (w + 4) = map_flags (c_oflag h) oflag_map False"
    "load32 (termios_lx_to_fb S m w h) (w + 8) = map_flags (c_cflag h) cflag_map False"
    "load32 (termios_lx_to_fb S m w h) (w + 12) = map_flags (c_lflag h) lflag_map False"
    by (simp_all add: load32_store32_other)
  show "termios_lx_to_fb S m w h (w + 16 + i) = (if 0 \<le> cc_fb_to_lx i \<and> cc_fb_to_lx i < int NCCS then c_cc h ! nat (cc_fb_to_lx i) else 0)" if "i < 20"
    unfolding t using that cc_to_guest_in [of i "c_cc h" "w + 16" ?m2] by (simp add: store32_other)
qed

lemma lx_to_fb_out: "j < w \<or> w + 44 \<le> j \<Longrightarrow> termios_lx_to_fb S m w h j = m j"
  by (auto simp: termios_lx_to_fb_def Let_def store32_other cc_to_guest_out mem_fill_def)

lemma termios_translated:
  assumes "speeds_apart S"
  shows "map_flags (c_iflag (termios_fb_to_lx S m w)) iflag_map False = load32 m w AND 0x2FFF"
    and "map_flags (c_oflag (termios_fb_to_lx S m w)) oflag_map False = load32 m (w + 4) AND 0x7F"
    and "map_flags (c_cflag (termios_fb_to_lx S m w)) cflag_map False = (load32 m (w + 8) AND 0xFC00) OR (if load32 m (w + 8) AND 0x300 \<noteq> 0 then 0x300 else 0)"
    and "map_flags (c_lflag (termios_fb_to_lx S m w)) lflag_map False = load32 m (w + 12) AND 0xA0C00DFF"
    and "i < YOS_FBSD_NCCS \<Longrightarrow> 0 \<le> cc_fb_to_lx i \<Longrightarrow> cc_fb_to_lx i < int NCCS \<Longrightarrow> c_cc (termios_fb_to_lx S m w) ! nat (cc_fb_to_lx i) = m (w + 16 + i)"
proof -
  let ?h = "termios_fb_to_lx S m w"
  have ap: "c_oflag ?h = map_flags (load32 m (w + 4)) oflag_map True" "c_lflag ?h = map_flags (load32 m (w + 12)) lflag_map True"
      "c_cc ?h = cc_to_host m (w + 16) (c_cc zero_termios)" "c_iflag ?h AND 0xFFFF = map_flags (load32 m w) iflag_map True AND 0xFFFF"
      "c_cflag ?h AND 0xFF0 = map_flags (load32 m (w + 8)) cflag_map True AND 0xFF0"
    using assms by (simp_all add: speeds_apart_def termios_fb_to_lx_def)
  have "map_flags (c_iflag ?h) iflag_map False = map_flags (map_flags (load32 m w) iflag_map True) iflag_map False"
    by (rule map_flags_cong [OF ap(4)]) (simp add: iflag_map_def)
  then show "map_flags (c_iflag ?h) iflag_map False = load32 m w AND 0x2FFF" by (simp add: simple_roundtrips)
  have "map_flags (c_cflag ?h) cflag_map False = map_flags (map_flags (load32 m (w + 8)) cflag_map True) cflag_map False"
    by (rule map_flags_cong [OF ap(5)]) (simp add: cflag_map_def)
  then show "map_flags (c_cflag ?h) cflag_map False = (load32 m (w + 8) AND 0xFC00) OR (if load32 m (w + 8) AND 0x300 \<noteq> 0 then 0x300 else 0)"
    by (simp add: cflag_roundtrip)
  show "map_flags (c_oflag ?h) oflag_map False = load32 m (w + 4) AND 0x7F" "map_flags (c_lflag ?h) lflag_map False = load32 m (w + 12) AND 0xA0C00DFF"
    by (simp_all add: ap simple_roundtrips)
  show "c_cc ?h ! nat (cc_fb_to_lx i) = m (w + 16 + i)" if "i < 20" "0 \<le> cc_fb_to_lx i" "cc_fb_to_lx i < int NCCS"
    using cc_to_host_at [of i "c_cc zero_termios" m "w + 16"] that by (simp add: ap(3) zero_termios_def)
qed

text \<open>
  Claim C37: attributes of a socket terminal come back.  After a successful \<^verbatim>\<open>tcsetattr\<close> on it, \<^verbatim>\<open>tcgetattr\<close> gives the guest the input, output and
  local flags it set, less those that the host does not have; the control flags, with every character size but the smallest
  turned into eight bits; every control character that the host has, the others zero; and the terminal turns line feeds into pairs exactly
  when the guest asked for it.  Nothing is written outside the structure.
\<close>

theorem pty_termios_roundtrip:
  assumes "speeds_apart S" and "yos_pty_is_pty_fd fstat (snd p) hfd" and "yos_fd_get h2g c wfd = (hfd, c)" and "0 \<le> hfd"
    and "posix_wptr_range c t_off YOS_FBSD_TERMIOS_SIZE \<noteq> None" and "posix_wptr_range c u_off YOS_FBSD_TERMIOS_SIZE \<noteq> None"
  shows "\<exists>p1 c2 p2. yos_tcsetattr h2g S fstat tcget tcset c p wfd actions t_off = (0, c, p1) \<and>
    yos_tcgetattr h2g S fstat tcget c p1 wfd u_off = (0, c2, p2) \<and>
    (\<exists>i<length (snd p1). onlcr (snd p1 ! i) = (load32 (memory c) (unat t_off + 4) AND 2 \<noteq> 0) \<and>
      (fstat hfd = Some (master_id (snd p1 ! i)) \<or> fstat hfd = fstat (slave_hfd (snd p1 ! i)))) \<and>
    load32 (memory c2) (unat u_off) = load32 (memory c) (unat t_off) AND 0x2FFF \<and>
    load32 (memory c2) (unat u_off + 4) = load32 (memory c) (unat t_off + 4) AND 0x7F \<and>
    load32 (memory c2) (unat u_off + 8) =
      (load32 (memory c) (unat t_off + 8) AND 0xFC00) OR (if load32 (memory c) (unat t_off + 8) AND 0x300 \<noteq> 0 then 0x300 else 0) \<and>
    load32 (memory c2) (unat u_off + 12) = load32 (memory c) (unat t_off + 12) AND 0xA0C00DFF \<and>
    (\<forall>i<YOS_FBSD_NCCS. memory c2 (unat u_off + 16 + i) = (if i \<in> {7, 11, 18, 19} then 0 else memory c (unat t_off + 16 + i))) \<and>
    (\<forall>j. j < unat u_off \<or> unat u_off + YOS_FBSD_TERMIOS_SIZE \<le> j \<longrightarrow> memory c2 j = memory c j)"
proof -
  let ?t = "unat t_off" and ?u = "unat u_off" and ?m = "memory c"
  let ?h = "termios_fb_to_lx S ?m ?t"
  have w: "posix_wptr_range c t_off 44 = Some ?t" "posix_wptr_range c u_off 44 = Some ?u"
    using assms(5,6) by (auto simp: posix_wptr_range_def split: if_splits)
  let ?on = "c_oflag ?h AND 0x4 \<noteq> 0"
  obtain i where i: "i < length (snd p)" "yos_pty_set_onlcr fstat (snd p) hfd ?on = (True, (snd p)[i := (snd p ! i)\<lparr>onlcr := ?on\<rparr>])"
      "fstat hfd = Some (master_id (snd p ! i)) \<or> fstat hfd = fstat (slave_hfd (snd p ! i))"
    using set_onlcr_found [OF assms(2), of ?on] by blast
  let ?es = "(snd p)[i := (snd p ! i)\<lparr>onlcr := ?on\<rparr>]"
  have pty: "yos_pty_is_pty_fd fstat ?es hfd"
    using assms(2) is_pty_fd_ends [of ?es "snd p"] by (simp add: map_update list_update_id [of "map master_id (snd p)" i, simplified nth_map [OF i(1)]]
      list_update_id [of "map slave_hfd (snd p)" i, simplified nth_map [OF i(1)]])
  let ?p1 = "(Some ?h, ?es)"
  let ?c2 = "c\<lparr>memory := termios_lx_to_fb S ?m ?u ?h\<rparr>"
  have set: "yos_tcsetattr h2g S fstat tcget tcset c p wfd actions t_off = (0, c, ?p1)"
    using assms(2-4) w i(2) by (simp add: yos_tcsetattr_def Let_def)
  have get: "yos_tcgetattr h2g S fstat tcget c ?p1 wfd u_off = (0, ?c2, (Some ?h, snd ?p1))"
    using assms(3,4) w pty by (simp add: yos_tcgetattr_def Let_def pty_termios_def)
  have "c_oflag ?h = map_flags (load32 ?m (?t + 4)) oflag_map True" using assms(1) by (simp add: speeds_apart_def termios_fb_to_lx_def)
  moreover have "meets (map_flags v oflag_map True) (2 ^ 2) \<longleftrightarrow> meets v (2 ^ 1)" for v
    unfolding tables using meets_exp [of 1 v] meets_exp [of 2 "map_flags v (bit_table oflag_bits) True"]
    by (simp add: bit_table_flags [OF tables_ok(2)]) (simp add: oflag_bits_def)
  ultimately have nl: "c_oflag ?h AND 0x4 \<noteq> 0 \<longleftrightarrow> load32 ?m (?t + 4) AND 2 \<noteq> 0" by (simp add: meets_def)
  have cc: "memory ?c2 (?u + 16 + i) = (if i \<in> {7, 11, 18, 19} then 0 else ?m (?t + 16 + i))" if "i < 20" for i
  proof -
    have "\<forall>i\<in>set [0..<20]. 0 \<le> cc_fb_to_lx i \<and> cc_fb_to_lx i < int NCCS \<longleftrightarrow> i \<notin> {7, 11, 18, 19}"
      unfolding upt_20 by (simp add: cc_fb_to_lx_def cc_table_def)
    then have "0 \<le> cc_fb_to_lx i \<and> cc_fb_to_lx i < int NCCS \<longleftrightarrow> i \<notin> {7, 11, 18, 19}" using that by simp
    then show ?thesis using lx_to_fb_words(5) [of i S ?m ?u ?h] termios_translated(5) [OF assms(1), of i ?m ?t] that by auto
  qed
  have fl: "load32 (memory ?c2) ?u = load32 ?m ?t AND 0x2FFF" "load32 (memory ?c2) (?u + 4) = load32 ?m (?t + 4) AND 0x7F"
      "load32 (memory ?c2) (?u + 8) = (load32 ?m (?t + 8) AND 0xFC00) OR (if load32 ?m (?t + 8) AND 0x300 \<noteq> 0 then 0x300 else 0)"
      "load32 (memory ?c2) (?u + 12) = load32 ?m (?t + 12) AND 0xA0C00DFF"
    using lx_to_fb_words(1-4) [of S ?m ?u ?h] termios_translated(1-4) [OF assms(1), of ?m ?t] by simp_all
  have out: "memory ?c2 j = ?m j" if "j < ?u \<or> ?u + 44 \<le> j" for j using lx_to_fb_out [OF that] by simp
  have on: "\<exists>i<length (snd ?p1). onlcr (snd ?p1 ! i) = (load32 ?m (?t + 4) AND 2 \<noteq> 0) \<and>
      (fstat hfd = Some (master_id (snd ?p1 ! i)) \<or> fstat hfd = fstat (slave_hfd (snd ?p1 ! i)))"
    using nl i(1,3) by (intro exI [of _ i]) simp
  show ?thesis
    by (rule exI [of _ ?p1], rule exI [of _ ?c2], rule exI [of _ "(Some ?h, snd ?p1)"]) (intro conjI allI impI set get on fl cc out)
qed

section \<open>Where it differs, and a terminal\<close>

text \<open>Six bits a character become eight; the guest's request not to send a carriage return in column zero becomes the host's fill characters.\<close>

lemma six_bits_become_eight: "map_flags 0x100 cflag_map True = 0x30"
  by (simp add: map_flags_def cflag_map_def)

lemma onocr_becomes_ofill: "map_flags 0x20 oflag_map True = 0x40"
  by (simp add: map_flags_def oflag_map_def)

definition demo_speeds :: speed_host where
  "demo_speeds = \<lparr> cfset = (\<lambda>i ou t. t\<lparr>c_speeds := (i, ou)\<rparr>), cfget = c_speeds \<rparr>"

definition demo_tty_ctx :: yos_exec_ctx where
  "demo_tty_ctx = (ctx_calloc (store32 (\<lambda>_. 0) 1036 0x108) 65536)\<lparr>fd_map := [0, 1, 2, 9] @ replicate 252 (- 1)\<rparr>"

theorem pty_termios_roundtrip_witness:
  "\<exists>p1 c2 p2. yos_tcsetattr (\<lambda>e. e) demo_speeds (\<lambda>h. Some (nat h, 0)) (\<lambda>_. Inl 25) (\<lambda>_ _ _. None) demo_tty_ctx (None, [new_pty (9, 0) 9 8 1]) 3 0 1024 = (0, demo_tty_ctx, p1) \<and>
     yos_tcgetattr (\<lambda>e. e) demo_speeds (\<lambda>h. Some (nat h, 0)) (\<lambda>_. Inl 25) demo_tty_ctx p1 3 2048 = (0, c2, p2) \<and> load32 (memory c2) 2060 = 0x108"
proof -
  have s: "speeds_apart demo_speeds" by (simp add: speeds_apart_def demo_speeds_def)
  have g: "yos_fd_get (\<lambda>e. e) demo_tty_ctx 3 = (9, demo_tty_ctx)" by (simp add: yos_fd_get_def demo_tty_ctx_def)
  have w: "posix_wptr_range demo_tty_ctx 1024 YOS_FBSD_TERMIOS_SIZE \<noteq> None" "posix_wptr_range demo_tty_ctx 2048 YOS_FBSD_TERMIOS_SIZE \<noteq> None"
    by (simp_all add: posix_wptr_range_def demo_tty_ctx_def ctx_calloc_def)
  have m: "load32 (memory demo_tty_ctx) 1036 = 0x108" by (simp add: demo_tty_ctx_def ctx_calloc_def)
  have t: "yos_pty_is_pty_fd (\<lambda>h. Some (nat h, 0)) (snd (None, [new_pty (9, 0) 9 8 1])) 9" by (simp add: yos_pty_is_pty_fd_def new_pty_def)
  from pty_termios_roundtrip [OF s t g _ w, of "\<lambda>_. Inl 25" "\<lambda>_ _ _. None" 0] show ?thesis
    using m by auto
qed

end
