(* ===== verification/PosixMisc.thy ===== *)
theory PosixMisc
  imports Terminals MemSafety
begin

text \<open>
  Small calls of \<^verbatim>\<open>src/src/yos/impl/libc/posix.c\<close> that need no host: comparing and wiping secrets, the break, and the text of a file mode.
\<close>

section \<open>Secrets\<close>

text \<open>The loops run over all bytes, whatever they find.\<close>

definition yos_timingsafe_bcmp :: "yos_exec_ctx \<Rightarrow> u32 \<Rightarrow> u32 \<Rightarrow> u32 \<Rightarrow> int" where
  "yos_timingsafe_bcmp ctx a_off b_off n =
     (if n = 0 then 0
      else case (posix_wptr_range ctx a_off (unat n), posix_wptr_range ctx b_off (unat n)) of
          (Some a, Some b) \<Rightarrow>
            (let r = fold (\<lambda>i r. r OR (memory ctx (a + i) XOR memory ctx (b + i))) [0..<unat n] 0 in if r \<noteq> 0 then 1 else 0)
        | _ \<Rightarrow> 1)"

definition memcmp_step :: "mem \<Rightarrow> nat \<Rightarrow> nat \<Rightarrow> nat \<Rightarrow> int \<times> int \<Rightarrow> int \<times> int" where
  "memcmp_step m a b i s =
     (case s of (res, fin) \<Rightarrow>
        let diff = int (unat (m (a + i))) - int (unat (m (b + i))); mask = fin - 1 in
        (res OR (diff AND mask), fin OR (if diff \<noteq> 0 then 1 else 0)))"

definition yos_timingsafe_memcmp :: "yos_exec_ctx \<Rightarrow> u32 \<Rightarrow> u32 \<Rightarrow> u32 \<Rightarrow> int" where
  "yos_timingsafe_memcmp ctx a_off b_off n =
     (if n = 0 then 0
      else case (posix_wptr_range ctx a_off (unat n), posix_wptr_range ctx b_off (unat n)) of
          (Some a, Some b) \<Rightarrow> fst (fold (memcmp_step (memory ctx) a b) [0..<unat n] (0, 0))
        | _ \<Rightarrow> 0)"

definition yos_explicit_bzero :: "yos_exec_ctx \<Rightarrow> u32 \<Rightarrow> u32 \<Rightarrow> yos_exec_ctx" where
  "yos_explicit_bzero ctx buf_off n =
     (if n = 0 then ctx
      else case posix_wptr_range ctx buf_off (unat n) of None \<Rightarrow> ctx | Some p \<Rightarrow> ctx\<lparr>memory := mem_fill (memory ctx) p 0 (unat n)\<rparr>)"

section \<open>The break\<close>

text \<open>The result of \<^verbatim>\<open>brk\<close> counts as an error when it is negative as a signed number.\<close>

definition yos_sbrk :: "yos_exec_ctx \<Rightarrow> u32 \<Rightarrow> u32 \<times> yos_exec_ctx" where
  "yos_sbrk ctx incr =
     (let old = heap_end ctx in
      if incr = 0 then (old, ctx)
      else case yos_brk ctx (old + incr) of (r, c1) \<Rightarrow> if sint r < 0 then (- 1, c1) else (old, c1))"

section \<open>File modes\<close>

definition mode_type :: "u32 \<Rightarrow> char" where
  "mode_type mode =
     (let t = mode AND 0xF000 in
      if t = 0x4000 then CHR ''d'' else if t = 0x2000 then CHR ''c'' else if t = 0x6000 then CHR ''b'' else if t = 0x8000 then CHR ''-''
      else if t = 0xA000 then CHR ''l'' else if t = 0xC000 then CHR ''s'' else if t = 0x1000 then CHR ''p'' else if t = 0xE000 then CHR ''w''
      else CHR ''?'')"

definition mode_exec :: "u32 \<Rightarrow> u32 \<Rightarrow> u32 \<Rightarrow> char \<Rightarrow> char \<Rightarrow> char" where
  "mode_exec mode x s alone both =
     (let v = mode AND (x OR s) in if v = 0 then CHR ''-'' else if v = x then CHR ''x'' else if v = s then alone else both)"

definition strmode_text :: "u32 \<Rightarrow> string" where
  "strmode_text mode =
     (let rw = (\<lambda>b ch. if mode AND b \<noteq> 0 then ch else CHR ''-'') in
      [mode_type mode, rw 0x100 CHR ''r'', rw 0x80 CHR ''w'', mode_exec mode 0x40 0x800 CHR ''S'' CHR ''s'',
       rw 0x20 CHR ''r'', rw 0x10 CHR ''w'', mode_exec mode 0x8 0x400 CHR ''S'' CHR ''s'',
       rw 0x4 CHR ''r'', rw 0x2 CHR ''w'', mode_exec mode 0x1 0x200 CHR ''T'' CHR ''t'', CHR '' ''])"

definition yos_strmode :: "yos_exec_ctx \<Rightarrow> u32 \<Rightarrow> u32 \<Rightarrow> yos_exec_ctx" where
  "yos_strmode ctx mode p_off =
     (case posix_wptr_range ctx p_off 12 of
        None \<Rightarrow> ctx
      | Some p \<Rightarrow> ctx\<lparr>memory := mem_write (memory ctx) p (map byte_of (strmode_text mode) @ [0])\<rparr>)"

section \<open>Comparing\<close>

text \<open>The reference: the bytes of the first difference, as a difference of numbers.\<close>

fun first_diff :: "u8 list \<Rightarrow> u8 list \<Rightarrow> int" where
  "first_diff (x # xs) (y # ys) = (if x = y then first_diff xs ys else int (unat x) - int (unat y))"
| "first_diff _ _ = 0"

lemma xor_zero: "(x :: u8) XOR y = 0 \<longleftrightarrow> x = y"
  by (auto simp: bit_eq_iff bit_xor_iff)

lemma or_fold_zero: "fold (\<lambda>i r. r OR f i) is (r :: u8) = 0 \<longleftrightarrow> r = 0 \<and> (\<forall>i\<in>set is. f i = 0)"
  by (induction "is" arbitrary: r) (auto simp: or_eq_0_iff)

lemma first_diff_snoc:
  "length xs = length ys \<Longrightarrow> first_diff (xs @ [x]) (ys @ [y]) = (if xs = ys then int (unat x) - int (unat y) else first_diff xs ys)"
  by (induction xs ys rule: list_induct2) auto

lemma first_diff_zero: "length xs = length ys \<Longrightarrow> first_diff xs ys = 0 \<longleftrightarrow> xs = ys"
  by (induction xs ys rule: list_induct2) (auto simp: word_uint_eq_iff)

lemma first_diff_less: "length xs = length ys \<Longrightarrow> first_diff xs ys < 0 \<longleftrightarrow> (xs, ys) \<in> lexord {(x, y). x < y}"
  by (induction xs ys rule: list_induct2) (auto simp: word_less_def)

lemma mem_bytes_Suc: "mem_bytes m a (Suc n) = mem_bytes m a n @ [m (a + n)]"
  by (simp add: mem_bytes_def)

lemma mem_bytes_length [simp]: "length (mem_bytes m a n) = n"
  by (simp add: mem_bytes_def)

lemma memcmp_fold:
  "fold (memcmp_step m a b) [0..<n] (0, 0) = (first_diff (mem_bytes m a n) (mem_bytes m b n), if mem_bytes m a n = mem_bytes m b n then 0 else 1)"
proof (induction n)
  case 0
  then show ?case by (simp add: mem_bytes_def)
next
  case (Suc n)
  show ?case
  proof (cases "mem_bytes m a n = mem_bytes m b n")
    case True
    then show ?thesis using Suc first_diff_zero [of "mem_bytes m a n" "mem_bytes m b n"]
      by (simp add: memcmp_step_def mem_bytes_Suc first_diff_snoc Let_def word_uint_eq_iff)
  next
    case False
    then show ?thesis using Suc by (simp add: memcmp_step_def mem_bytes_Suc first_diff_snoc Let_def)
  qed
qed

text \<open>
  Claim C38: comparing secrets.  For two buffers in linear memory the constant-time comparisons are the ordinary ones: \<^verbatim>\<open>timingsafe_bcmp\<close> is 0 exactly
  when the bytes are equal, and \<^verbatim>\<open>timingsafe_memcmp\<close> is the difference of the first bytes that differ, so that it is 0 for equal
  buffers only and negative exactly when the first comes first in the order of dictionaries.
\<close>

theorem timingsafe_compare:
  assumes "posix_wptr_range ctx a (unat n) \<noteq> None" and "posix_wptr_range ctx b (unat n) \<noteq> None"
  defines "xs \<equiv> mem_bytes (memory ctx) (unat a) (unat n)" and "ys \<equiv> mem_bytes (memory ctx) (unat b) (unat n)"
  shows "yos_timingsafe_bcmp ctx a b n = (if xs = ys then 0 else 1) \<and> yos_timingsafe_memcmp ctx a b n = first_diff xs ys \<and>
    (yos_timingsafe_memcmp ctx a b n = 0 \<longleftrightarrow> xs = ys) \<and> (yos_timingsafe_memcmp ctx a b n < 0 \<longleftrightarrow> (xs, ys) \<in> lexord {(x, y). x < y})"
proof -
  have p: "posix_wptr_range ctx a (unat n) = Some (unat a)" "posix_wptr_range ctx b (unat n) = Some (unat b)"
    using assms(1,2) by (auto simp: posix_wptr_range_def split: if_splits)
  have len: "length xs = length ys" by (simp add: xs_def ys_def)
  have "(\<forall>i\<in>set [0..<unat n]. memory ctx (unat a + i) XOR memory ctx (unat b + i) = 0) \<longleftrightarrow> xs = ys"
    by (auto simp: xs_def ys_def mem_bytes_def xor_zero)
  then have 1: "yos_timingsafe_bcmp ctx a b n = (if xs = ys then 0 else 1)"
    by (auto simp: yos_timingsafe_bcmp_def p or_fold_zero Let_def xs_def ys_def mem_bytes_def)
  have 2: "yos_timingsafe_memcmp ctx a b n = first_diff xs ys"
    by (simp add: yos_timingsafe_memcmp_def p memcmp_fold xs_def ys_def) (simp add: mem_bytes_def)
  show ?thesis using 1 2 first_diff_zero [OF len] first_diff_less [OF len] by simp
qed

text \<open>With a bad pointer the second comparison calls the buffers equal.\<close>

lemma memcmp_bad_pointer_equal: "posix_wptr_range ctx a (unat n) = None \<Longrightarrow> yos_timingsafe_memcmp ctx a b n = 0"
  by (simp add: yos_timingsafe_memcmp_def)

text \<open>Wiping leaves zeros in the buffer and every other byte alone.\<close>

lemma explicit_bzero_wipes:
  assumes "posix_wptr_range ctx p (unat n) \<noteq> None"
  shows "memory (yos_explicit_bzero ctx p n) j = (if unat p \<le> j \<and> j < unat p + unat n then 0 else memory ctx j)"
  using assms by (auto simp: yos_explicit_bzero_def mem_fill_def posix_wptr_range_def split: if_splits)

section \<open>Breaks above the middle\<close>

lemma negative_iff: "sint (x :: u32) < 0 \<longleftrightarrow> 0x80000000 \<le> x"
proof -
  have "sint x < 0 \<longleftrightarrow> bit x 31" using bit_last_iff [of x] by simp
  also have "\<dots> \<longleftrightarrow> bit (unat x) 31" by (simp add: bit_unsigned_iff)
  also have "\<dots> \<longleftrightarrow> odd (unat x div 2147483648)" by (simp add: bit_iff_odd)
  also have "\<dots> \<longleftrightarrow> 2147483648 \<le> unat x" using unat_u32_lt [of x] by (cases "unat x < 2147483648") (simp_all add: le_div_geq)
  finally show ?thesis by (simp add: word_le_nat_alt)
qed

text \<open>The break moves, but beyond two gigabytes the call says it did not.\<close>

lemma sbrk_above_middle:
  assumes "yos_brk ctx (heap_end ctx + incr) = (heap_end ctx + incr, c1)" and "incr \<noteq> 0" and "0x80000000 \<le> heap_end ctx + incr"
  shows "yos_sbrk ctx incr = (- 1, c1)"
  using assms by (simp add: yos_sbrk_def Let_def negative_iff)

lemma sbrk_moves:
  assumes "yos_brk ctx (heap_end ctx + incr) = (heap_end ctx + incr, c1)" and "heap_end ctx + incr < 0x80000000"
  shows "fst (yos_sbrk ctx incr) = heap_end ctx"
  using assms by (simp add: yos_sbrk_def Let_def negative_iff) (auto dest: leD)

section \<open>Reading a mode back\<close>

lemma mode_exec_inj:
  assumes "mode_exec m (2 ^ a) (2 ^ b) al bo = mode_exec m' (2 ^ a) (2 ^ b) al bo" and "a < 32" and "b < 32" and "a \<noteq> b"
    and "distinct [CHR ''-'', CHR ''x'', al, bo]"
  shows "bit m a = bit m' a" and "bit m b = bit m' b"
proof -
  have k: "k AND (2 ^ a OR 2 ^ b) = (if bit k a then 2 ^ a else 0) OR (if bit k b then 2 ^ b else 0)" for k :: u32
    by (rule bit_word_eqI) (use assms(2,3) in \<open>auto simp: bit_and_iff bit_or_iff bit_exp\<close>)
  have n: "(2 :: u32) ^ a \<noteq> 0" "(2 :: u32) ^ b \<noteq> 0" "(2 :: u32) ^ a \<noteq> 2 ^ b" "(2 :: u32) ^ a OR 2 ^ b \<noteq> 2 ^ a" "(2 :: u32) ^ a OR 2 ^ b \<noteq> 2 ^ b"
      "(2 :: u32) ^ a OR 2 ^ b \<noteq> 0"
    using assms(2-4) by (metis bit_exp bit_or_iff bit_0_eq bot_apply bot_bool_def)+
  have e: "mode_exec k (2 ^ a) (2 ^ b) al bo = (if bit k a then if bit k b then bo else CHR ''x'' else if bit k b then al else CHR ''-'')" for k
    unfolding mode_exec_def Let_def k using n by auto
  show "bit m a = bit m' a" "bit m b = bit m' b" using assms(1,5) unfolding e by (auto split: if_splits)
qed

text \<open>The text of a mode determines its twelve permission bits, and its type unless that is shown as a question mark.\<close>

lemma strmode_injective:
  assumes "strmode_text m = strmode_text m'"
  shows "m AND 0xFFF = m' AND 0xFFF" and "mode_type m \<noteq> CHR ''?'' \<Longrightarrow> m AND 0xF000 = m' AND 0xF000"
proof -
  have rw: "k AND 2 ^ a \<noteq> 0 \<longleftrightarrow> bit k a" if "a < 32" for k :: u32 and a using meets_exp [OF that] by (simp add: meets_def)
  have x: "mode_exec m 0x40 0x800 CHR ''S'' CHR ''s'' = mode_exec m' 0x40 0x800 CHR ''S'' CHR ''s''"
      "mode_exec m 0x8 0x400 CHR ''S'' CHR ''s'' = mode_exec m' 0x8 0x400 CHR ''S'' CHR ''s''"
      "mode_exec m 0x1 0x200 CHR ''T'' CHR ''t'' = mode_exec m' 0x1 0x200 CHR ''T'' CHR ''t''"
    using assms by (simp_all add: strmode_text_def)
  have "bit m 6 = bit m' 6" "bit m 11 = bit m' 11" using mode_exec_inj [of m 6 11 "CHR ''S''" "CHR ''s''" m'] x(1) by simp_all
  moreover have "bit m 3 = bit m' 3" "bit m 10 = bit m' 10" using mode_exec_inj [of m 3 10 "CHR ''S''" "CHR ''s''" m'] x(2) by simp_all
  moreover have "bit m 0 = bit m' 0" "bit m 9 = bit m' 9" using mode_exec_inj [of m 0 9 "CHR ''T''" "CHR ''t''" m'] x(3) by simp_all
  moreover have "(m AND 0x100 \<noteq> 0) = (m' AND 0x100 \<noteq> 0)" "(m AND 0x80 \<noteq> 0) = (m' AND 0x80 \<noteq> 0)" "(m AND 0x20 \<noteq> 0) = (m' AND 0x20 \<noteq> 0)"
      "(m AND 0x10 \<noteq> 0) = (m' AND 0x10 \<noteq> 0)" "(m AND 0x4 \<noteq> 0) = (m' AND 0x4 \<noteq> 0)" "(m AND 0x2 \<noteq> 0) = (m' AND 0x2 \<noteq> 0)"
    using assms by (simp_all add: strmode_text_def split: if_splits)
  then have "bit m 8 = bit m' 8" "bit m 7 = bit m' 7" "bit m 5 = bit m' 5" "bit m 4 = bit m' 4" "bit m 2 = bit m' 2" "bit m 1 = bit m' 1"
    using rw [of 8 m] rw [of 8 m'] rw [of 7 m] rw [of 7 m'] rw [of 5 m] rw [of 5 m'] rw [of 4 m] rw [of 4 m'] rw [of 2 m] rw [of 2 m'] rw [of 1 m] rw [of 1 m']
    by simp_all
  ultimately have low: "bit m n = bit m' n" if "n \<in> {0, 1, 2, 3, 4, 5, 6, 7, 8, 9, 10, 11}" for n using that by auto
  have "n \<in> {0, 1, 2, 3, 4, 5, 6, 7, 8, 9, 10, 11}" if "bit (0xFFF :: u32) n" for n
  proof -
    have "(0xFFF :: u32) = mask 12" by (simp add: mask_eq_exp_minus_1)
    then have "n < 12" using that by (simp only: bit_mask_iff)
    then show ?thesis by simp presburger
  qed
  then show "m AND 0xFFF = m' AND 0xFFF" using low by (intro bit_word_eqI) (auto simp only: bit_and_iff)
  have "mode_type m = mode_type m'" using assms by (simp add: strmode_text_def)
  then show "m AND 0xF000 = m' AND 0xF000" if "mode_type m \<noteq> CHR ''?''" using that by (simp add: mode_type_def Let_def split: if_splits)
qed

section \<open>A comparison\<close>

theorem timingsafe_compare_witness:
  "yos_timingsafe_memcmp (ctx_calloc ((\<lambda>_. 0)(1025 := 7, 2049 := 9)) 65536) 1024 2048 4 = - 2 \<and>
   yos_timingsafe_bcmp (ctx_calloc ((\<lambda>_. 0)(1025 := 7, 2049 := 9)) 65536) 1024 2048 4 = 1"
proof -
  let ?c = "ctx_calloc ((\<lambda>_. 0)(1025 := 7, 2049 := 9)) 65536"
  have r: "posix_wptr_range ?c 1024 (unat (4 :: u32)) \<noteq> None" "posix_wptr_range ?c 2048 (unat (4 :: u32)) \<noteq> None"
    by (simp_all add: posix_wptr_range_def ctx_calloc_def)
  have b: "mem_bytes (memory ?c) 1024 4 = [0, 7, 0, 0]" "mem_bytes (memory ?c) 2048 4 = [0, 9, 0, 0]"
    by (simp_all add: mem_bytes_def ctx_calloc_def upt_rec)
  show ?thesis using timingsafe_compare [OF r] by (simp add: b)
qed

end
