(* ===== verification/Spec2Isabelle.thy ===== *)
theory Spec2Isabelle
  imports MemSafety AllocFamily VfsMount ProcWait IoSafety ProcfsProps SignalProps EnvProps GetoptProps RwLock Barrier Once ThreadProps DirProps Poll FifoProps CallbackProps FmtCheck Int128 RandomNumbers KqueueProps Select SocketProps PosixMisc
begin

text \<open>
  \<^bold>\<open>What is verified.\<close>  yos runs programs compiled from FreeBSD sources to 32-bit WebAssembly inside one host
  process.  The WebAssembly interpreter is a vendored library; everything a C library and a kernel would
  do is host code under \<^verbatim>\<open>src/src/yos/\<close>: every import of the guest is a \<^emph>\<open>bridge\<close>, a C function that gets the
  guest's execution context, follows guest pointers into linear memory, keeps the guest's state (address
  space, heap, descriptors, working directory, environment, signals) and calls the host.  A fork is a host
  thread with a context of its own; a table of processes ties the contexts together.  This development
  models those bridges and proves what makes them correct.

  \<^bold>\<open>How the parts interact.\<close>  A bridge receives \<^verbatim>\<open>struct yos_exec_ctx *\<close> (record \<open>yos_exec_ctx\<close>, theory \<open>Ctx\<close>) and
  is a function from the context to a result and the new context.  Linear memory is the context's field
  \<open>memory\<close>, a total function on host offsets: cells at or beyond \<open>memory_size\<close> are host memory behind the guest's, so
  that \<open>no cell beyond memory_size changes\<close> is a statement, not an assumption.  The mapping layer hands out
  page ranges, the allocator carves its heap out of the lower half of memory, the environment keeps its strings
  in that heap, and paths, descriptors and streams go through the pointer checks of \<open>Ctx\<close>.  Bridges that see
  other processes work on the record \<open>yos_runtime\<close> (theory \<open>ProcTable\<close>): the process table, all contexts and a log of
  host calls.

  \<^bold>\<open>Theories and sources\<close> (paths below \<^verbatim>\<open>src/src/yos/\<close>).
  \<^item> \<open>Prelude\<close>, \<open>Numerals\<close>, \<open>Slots\<close>: bytes and words of memory, decimal numerals, and the interface of slot tables (locale
    \<open>slot_table\<close>), interpreted by the virtual file table, the descriptor table and the process table.
  \<^item> \<open>Ctx\<close>: \<^verbatim>\<open>types.h\<close>, \<^verbatim>\<open>impl/io/io-internal.h\<close> (pointer checks), \<^verbatim>\<open>impl/errno_helpers.h\<close>.
  \<^item> \<open>MemMap\<close>, \<open>MemRegions\<close>, \<open>MemInv\<close>, \<open>MemSafety\<close>: \<^verbatim>\<open>impl/mem/mem.c\<close>, brk, mmap, munmap, mremap and the two region tables
    (locale \<open>region_push\<close> for both).  The tables never overlap, free bytes are zero, mappings are fresh, in
    any history of calls.
  \<^item> \<open>HeapSpec\<close>, \<open>Alloc\<close>, \<open>AllocRefine\<close>, \<open>AllocProps\<close>, \<open>AllocFamily\<close>: \<^verbatim>\<open>impl/mem/alloc.c\<close>.  The free list that lives in guest memory
    refines first fit on an abstract list of blocks; malloc, free, calloc, realloc and posix_memalign keep the
    blocks a tiling of the heap.
  \<^item> \<open>HeapClient\<close>, \<open>Env\<close>, \<open>EnvProps\<close>: the laws host code may use about the heap (locale \<open>guest_heap\<close>, interpreted by the
    allocator) and their client \<^verbatim>\<open>impl/libc/env.c\<close>: setenv, unsetenv and getenv are update, delete and lookup on
    a finite map.
  \<^item> \<open>VfsFile\<close>, \<open>VfsMount\<close>, \<open>Procfs\<close>, \<open>ProcfsProps\<close>: \<^verbatim>\<open>vfs/file.c\<close>, \<^verbatim>\<open>vfs/mount.c\<close>, \<^verbatim>\<open>vfs/procfs.c\<close>.  Longest-prefix mount resolution;
    the \<^verbatim>\<open>/proc\<close> tree: names, contents, sequential reads, complete directory listings.
  \<^item> \<open>ProcTable\<close>, \<open>ProcProps\<close>, \<open>ProcWait\<close>: \<^verbatim>\<open>impl/proc/proc.c\<close>, process slots, delivery, exit and its clean-up, waitpid and the
    identity calls: the whole table after an exit, every outcome of a wait, and that a child's exit wakes its parent.
  \<^item> \<open>Sigset\<close>, \<open>Signals\<close>, \<open>SignalProps\<close>: \<^verbatim>\<open>impl/proc/sig.c\<close>, \<^verbatim>\<open>signal.c\<close>, \<^verbatim>\<open>sig-linux.c\<close> and \<^verbatim>\<open>yos_kill\<close>.  Two implementations of
    signal sets (locale \<open>sigset_impl\<close>, interpreted by both), dispositions, masks, the pump, sigwait, kill.
  \<^item> \<open>Paths\<close>, \<open>OpenFlags\<close>, \<open>FdTable\<close>, \<open>FdCalls\<close>, \<open>FdSafety\<close>, \<open>IoBridges\<close>, \<open>IoSafety\<close>: \<^verbatim>\<open>impl/io/io.c\<close>.  Path resolution and canonical
    form, flag translation, the descriptor table and every call on it (a process closes only its own open host
    descriptors, but for an openat on a full table), scatter/gather vectors and the file calls.
  \<^item> \<open>DirStreams\<close>, \<open>DirTyped\<close>, \<open>DirProps\<close>, \<open>Poll\<close>: \<^verbatim>\<open>impl/io/dir.c\<close>.  The table of directory streams (another \<open>slot_table\<close>) over host
    directories and \<^verbatim>\<open>/proc\<close>: no guest store breaks its types, a listing is complete, opening and closing is balanced but for a full table; poll
    counts what it reports.
  \<^item> \<open>Fifo\<close>, \<open>FifoProps\<close>: \<^verbatim>\<open>impl/io/fifo.c\<close>, \<^verbatim>\<open>cv_stat.c\<close> and the stat, readlink and unlink calls of \<^verbatim>\<open>impl/io/io.c\<close>.  Named pipes from
    creation to unlink, byte layouts of file attributes.
  \<^item> \<open>Interleave\<close>, \<open>Futex\<close>, \<open>Mutex\<close>, \<open>RwLock\<close>, \<open>CondVar\<close>, \<open>Barrier\<close>, \<open>Once\<close>: the synchronization of \<^verbatim>\<open>impl/proc/pthread.c\<close> over the
    interpreter's atomic wait and notify (\<^verbatim>\<open>src/src/wasm3/source/m3_atomic.c\<close>).  Mutual exclusion and no lost wake-up in every
    interleaving (locale \<open>exclusive_lock\<close> of \<open>Interleave\<close>).
  \<^item> \<open>Threads\<close>, \<open>ThreadProps\<close>: creation, exit and joining of threads, keys; the rest of \<^verbatim>\<open>impl/proc/pthread.c\<close>.
  \<^item> \<open>Getopt\<close>, \<open>GetoptProps\<close>: \<^verbatim>\<open>impl/libc/getopt.c\<close>.
  \<^item> \<open>Callback\<close>, \<open>CallbackProps\<close>: \<^verbatim>\<open>impl/libc/callback.c\<close>, sorting and searching with the guest's comparison functions: qsort yields the one sorted
    order, bsearch ends and finds.
  \<^item> \<open>FmtCheck\<close>: \<^verbatim>\<open>impl/libc/fmtcheck_freebsd.c\<close>, the comparison of two format strings, equal to comparing the arguments they take;
    \<open>Int128\<close>: \<^verbatim>\<open>impl/libc/i128.c\<close>, 128-bit arithmetic on halves; \<open>RandomNumbers\<close>: \<^verbatim>\<open>impl/libc/random.c\<close>, bounded random numbers without bias.
  \<^item> \<open>Kqueue\<close>, \<open>KqueueProps\<close>: \<^verbatim>\<open>impl/libc/kqueue-linux.c\<close>, event queues over epoll; the wait is the guest's and events are reported in bounds, and the descriptors that
    announce the end of processes are opened, filed and closed once.
  \<^item> \<open>Select\<close>, \<open>Sockets\<close>, \<open>SocketMsgs\<close>, \<open>SocketProps\<close>, \<open>Terminals\<close>, \<open>PosixMisc\<close>: \<^verbatim>\<open>impl/libc/posix.c\<close> and \<^verbatim>\<open>posix-linux.c\<close>.  The translation of
    descriptor sets both ways; socket addresses, options and calls; messages that carry descriptors, out through a buffer on the stack
    and in through the descriptor table; terminal attributes there and back; constant-time comparison, wiping, the break, and the text
    of file modes.
  \<^item> \<open>Pty\<close>: \<^verbatim>\<open>impl/io/pty.c\<close>, pseudo terminals made of socket pairs: the registry, reads of a master with packet mode and line feeds
    expanded, and names that open the other end; \<open>Terminals\<close> uses its look-ups.

  \<^bold>\<open>Conventions.\<close>  A 32-bit C integer whose width matters is a word; process ids, descriptors and results are
  \<open>int\<close>.  An errno-setting failure is \<open>-1\<close> (or 0) with the errno slot of the context written; numbers are
  those of a Linux host, and the table that maps them to FreeBSD, generated at build time, is the parameter \<open>h2g\<close>.
  Host calls are parameters (their result, or an error number on the left of a sum) or entries of the log.
  Guest code called back by the host is a parameter too.  The host's own mutexes are not modelled: the body between lock
  and unlock is one step.  The locks of guest threads are: each thread is a small program whose atomic operations interleave
  freely, and ghost fields record who holds what.  And where a call sleeps and polls, what the rest of the program does during the
  \<open>k\<close>-th sleep is the parameter \<open>sched k\<close>.  A loop that need not end is a \<^theory_text>\<open>partial_function (option)\<close> and \<open>None\<close> is
  the call that never returns; theorems about such calls say when they return.  The allocator's own walk guard
  of 4194304 steps is kept, and is never reached in heaps of at most 192 MiB.

  \<^bold>\<open>Departures from the intended behaviour\<close> that the proofs brought to light are theorems or lemmas next to the
  operations concerned: among them brk over mappings, the unchecked source of mremap, size wrap-around in malloc,
  closing twice in openat, result arrays of pipe past linear memory, unmapped descriptors reaching the host,
  a wait that hangs, the mask of sigsuspend off by one, SIGKILL without clean-up, deaths by a signal that no event queue hears of, group kill with raw numbers,
  getopt returning a first flag forever, readers that overtake a waiting writer, a timed wait against the wrong clock, a barrier
  that overwrites its neighbours, an initialization that trapped and counts as done, directory descriptors closed twice, virtual
  files never given back, poll ignoring closed descriptors, named pipes filed under the host's directory, file attributes
  written past linear memory, a binary search whose middle wraps, 128-bit results and select sets that are not checked, event queues
  closed twice and registrations that replace each other, host descriptors past the end of a host set, control messages that
  overrun the stack, never end or lose descriptors after the 64th, received descriptors that leak, character sizes that turn into eight
  bits, and a terminal's end of file that is never seen.

  \<^bold>\<open>Not modelled.\<close>  Fork, vfork, clone and exec of \<^verbatim>\<open>impl/proc/proc.c\<close>, which copy interpreter state and rewind the guest
  through asyncify snapshots; streams (\<^verbatim>\<open>impl/io/file.c\<close>) and
  ioctl, whose behaviour is the host's; the variants for other hosts (\<^verbatim>\<open>*-darwin.c\<close>, \<^verbatim>\<open>*-windows.c\<close>); scandir; the remaining C library
  bridges (the rest of \<^verbatim>\<open>impl/libc/posix.c\<close>, formatted input and output, passwords, regular expressions, time zones, conversions), the wrappers of other libraries (openssl, libarchive, lua, python),
  devices, tracing and profiling; the start-up code \<^verbatim>\<open>main.c\<close>; generated tables; the vendored interpreter and terminal
  emulator.  \<^verbatim>\<open>proc.c\<close> at the top of the tree is an older copy that is not built.
\<close>

end
